(* ===== verification/Prelude.thy ===== *)
theory Prelude
  imports Main "HOL-Library.Word"
begin

text \<open>
  The shared vocabulary of the development: bytes and byte buffers (what \<open>char *\<close> with
  \<open>memcpy\<close>, \<open>memset\<close> and pointer arithmetic does in the code), the little-endian images of
  \<open>int\<close> and \<open>size_t\<close>, the exceptions of \<^verbatim>\<open>errors.h\<close> and the result type of an operation
  that may throw. A C++ exception does not undo what was done before it was thrown, so an
  operation returns the new state beside its outcome, also when the outcome is an exception.
\<close>

named_theorems buffer_simps \<open>reading and writing byte buffers\<close>
named_theorems res_simps \<open>sequencing of operations that may throw\<close>

section \<open>Constants of config.h\<close>

definition PAGE_SIZE :: nat where
  "PAGE_SIZE = 4096"

definition INVALID_PAGE_ID :: int where
  "INVALID_PAGE_ID = - 1"

definition INVALID_TXN_ID :: int where
  "INVALID_TXN_ID = - 1"

definition INVALID_LSN :: int where
  "INVALID_LSN = - 1"

definition LOG_BUFFER_SIZE :: nat where
  "LOG_BUFFER_SIZE = 1024 * PAGE_SIZE"

section \<open>Bytes and buffers\<close>

type_synonym byte = "8 word"
type_synonym bytes = "8 word list"

definition slice :: "nat \<Rightarrow> nat \<Rightarrow> 'a list \<Rightarrow> 'a list" where
  "slice off n xs = take n (drop off xs)"

definition memcpy :: "'a list \<Rightarrow> nat \<Rightarrow> 'a list \<Rightarrow> 'a list" where
  "memcpy dst off src = take off dst @ src @ drop (off + length src) dst"

definition memset :: "nat \<Rightarrow> byte \<Rightarrow> bytes" where
  "memset n c = replicate n c"

lemma length_memcpy [simp]:
  "off + length src \<le> length dst \<Longrightarrow> length (memcpy dst off src) = length dst"
  by (simp add: memcpy_def)

lemma length_slice [simp]: "off + n \<le> length xs \<Longrightarrow> length (slice off n xs) = n"
  by (simp add: slice_def)

lemma length_memset [simp]: "length (memset n c) = n"
  by (simp add: memset_def)

lemma slice_0_all [simp]: "length xs = n \<Longrightarrow> slice 0 n xs = xs"
  by (simp add: slice_def)

lemma slice_memcpy_same [buffer_simps]:
  "off \<le> length dst \<Longrightarrow> n = length src \<Longrightarrow> slice off n (memcpy dst off src) = src"
  by (simp add: slice_def memcpy_def)

lemma slice_memcpy_before [buffer_simps]:
  assumes "o2 + n \<le> off" and "off \<le> length dst"
  shows "slice o2 n (memcpy dst off src) = slice o2 n dst"
proof -
  have "take n (drop o2 (take off dst)) = take n (drop o2 dst)"
    using assms by (simp add: drop_take min_def)
  moreover have "n - (length dst - o2) = 0 \<or> off < o2 + n \<or> off < length dst"
    using assms by auto
  ultimately show ?thesis using assms by (simp add: slice_def memcpy_def)
qed

lemma slice_memcpy_after [buffer_simps]:
  assumes "off + length src \<le> o2" and "off \<le> length dst"
  shows "slice o2 n (memcpy dst off src) = slice o2 n dst"
  using assms by (simp add: slice_def memcpy_def)

lemma nth_memcpy:
  assumes "off + length src \<le> length dst" and "i < length dst"
  shows "memcpy dst off src ! i =
    (if i < off then dst ! i else if i < off + length src then src ! (i - off) else dst ! i)"
  using assms by (auto simp: memcpy_def nth_append)

lemma nth_slice: "i < n \<Longrightarrow> off + n \<le> length xs \<Longrightarrow> slice off n xs ! i = xs ! (off + i)"
  by (simp add: slice_def)

lemma slice_slice [buffer_simps]:
  "o2 + n2 \<le> n1 \<Longrightarrow> slice o2 n2 (slice o1 n1 xs) = slice (o1 + o2) n2 xs"
  by (simp add: slice_def drop_take min_def add.commute)

lemma slice_append_left [buffer_simps]:
  "off + n \<le> length xs \<Longrightarrow> slice off n (xs @ ys) = slice off n xs"
  by (simp add: slice_def)

lemma slice_append_right [buffer_simps]:
  "length xs \<le> off \<Longrightarrow> slice off n (xs @ ys) = slice (off - length xs) n ys"
  by (simp add: slice_def)

lemma memcpy_memcpy_same:
  "off \<le> length dst \<Longrightarrow> length src2 = length src1 \<Longrightarrow>
    memcpy (memcpy dst off src1) off src2 = memcpy dst off src2"
  by (simp add: memcpy_def)

section \<open>The bytes of an integer\<close>

text \<open>
  Values are stored as the machine does, little-endian. An \<open>int\<close> is stored in four bytes,
  a \<open>size_t\<close> in eight.
\<close>

fun le_bytes :: "nat \<Rightarrow> nat \<Rightarrow> bytes" where
  "le_bytes 0 v = []"
| "le_bytes (Suc k) v = of_nat (v mod 256) # le_bytes k (v div 256)"

fun le_nat :: "bytes \<Rightarrow> nat" where
  "le_nat [] = 0"
| "le_nat (b # bs) = unat b + 256 * le_nat bs"

lemma length_le_bytes [simp]: "length (le_bytes k v) = k"
  by (induction k arbitrary: v) auto

lemma unat_of_nat_byte: "unat (of_nat (v mod 256) :: byte) = v mod 256"
  by (simp add: unat_of_nat)

lemma le_nat_le_bytes: "le_nat (le_bytes k v) = v mod 256 ^ k"
proof (induction k arbitrary: v)
  case 0
  then show ?case by simp
next
  case (Suc k)
  have "v mod 256 + 256 * (v div 256 mod 256 ^ k) = v mod (256 * 256 ^ k)"
    by (simp add: mod_mult2_eq)
  with Suc show ?case by (simp add: unat_of_nat_byte)
qed

lemma le_nat_bound: "le_nat bs < 256 ^ length bs"
proof (induction bs)
  case Nil
  then show ?case by simp
next
  case (Cons b bs)
  have "unat b < 256" using unsigned_less [of b, where ?'a = nat] by simp
  with Cons show ?case by simp
qed

lemma le_bytes_le_nat: "le_bytes (length bs) (le_nat bs) = bs"
proof (induction bs)
  case Nil
  then show ?case by simp
next
  case (Cons b bs)
  have b: "unat b < 256" using unsigned_less [of b, where ?'a = nat] by simp
  then have "(unat b + 256 * le_nat bs) mod 256 = unat b"
    and "(unat b + 256 * le_nat bs) div 256 = le_nat bs" by simp_all
  with Cons show ?case by simp
qed

definition int32 :: "int \<Rightarrow> bool" where
  "int32 i \<longleftrightarrow> - (2 ^ 31) \<le> i \<and> i < 2 ^ 31"

definition to_int32 :: "int \<Rightarrow> int" where
  "to_int32 i = (i + 2 ^ 31) mod 2 ^ 32 - 2 ^ 31"

lemma to_int32_id [simp]: "int32 i \<Longrightarrow> to_int32 i = i"
  by (simp add: int32_def to_int32_def)

lemma int32_to_int32 [simp]: "int32 (to_int32 i)"
proof -
  have "0 \<le> (i + 2 ^ 31) mod 2 ^ 32" and "(i + 2 ^ 31) mod 2 ^ 32 < (2::int) ^ 32" by simp_all
  then show ?thesis by (simp add: int32_def to_int32_def)
qed

definition int_bytes :: "int \<Rightarrow> bytes" where
  "int_bytes i = le_bytes 4 (nat (i mod 2 ^ 32))"

definition bytes_int :: "bytes \<Rightarrow> int" where
  "bytes_int bs = (let v = int (le_nat bs) in if v < 2 ^ 31 then v else v - 2 ^ 32)"

definition size_bytes :: "nat \<Rightarrow> bytes" where
  "size_bytes n = le_bytes 8 n"

definition bytes_size :: "bytes \<Rightarrow> nat" where
  "bytes_size bs = le_nat bs"

lemma length_int_bytes [simp]: "length (int_bytes i) = 4"
  by (simp add: int_bytes_def)

lemma length_size_bytes [simp]: "length (size_bytes n) = 8"
  by (simp add: size_bytes_def)

lemma bytes_int_bytes [simp]: "int32 i \<Longrightarrow> bytes_int (int_bytes i) = i"
proof -
  assume i: "int32 i"
  have *: "nat (i mod 2 ^ 32) mod 256 ^ 4 = nat (i mod 2 ^ 32)"
  proof -
    have "i mod 2 ^ 32 < (2::int) ^ 32" by simp
    then have "nat (i mod 2 ^ 32) < 2 ^ 32" by (simp add: nat_less_iff)
    then show ?thesis by simp
  qed
  have "int (nat (i mod 2 ^ 32)) = i mod 2 ^ 32" by simp
  moreover have "i mod 2 ^ 32 = (if 0 \<le> i then i else i + 2 ^ 32)"
  proof (cases "0 \<le> i")
    case True
    with i show ?thesis by (simp add: int32_def)
  next
    case False
    have "(i + 2 ^ 32) mod 2 ^ 32 = i + 2 ^ 32"
      using False i by (intro mod_pos_pos_trivial) (auto simp: int32_def)
    then have "i mod 2 ^ 32 = i + 2 ^ 32" by (simp only: mod_add_self2)
    with False show ?thesis by simp
  qed
  ultimately show ?thesis
    using i by (simp only: bytes_int_def int_bytes_def le_nat_le_bytes * Let_def)
      (auto simp: int32_def)
qed

lemma int32_bytes_int: "length bs = 4 \<Longrightarrow> int32 (bytes_int bs)"
  using le_nat_bound [of bs] by (auto simp: bytes_int_def int32_def Let_def)

lemma bytes_size_bytes [simp]: "n < 2 ^ 64 \<Longrightarrow> bytes_size (size_bytes n) = n"
  by (simp add: size_bytes_def bytes_size_def le_nat_le_bytes)

definition load_int :: "bytes \<Rightarrow> nat \<Rightarrow> int" where
  "load_int d off = bytes_int (slice off 4 d)"

definition store_int :: "bytes \<Rightarrow> nat \<Rightarrow> int \<Rightarrow> bytes" where
  "store_int d off v = memcpy d off (int_bytes v)"

lemma length_store_int [simp]: "off + 4 \<le> length d \<Longrightarrow> length (store_int d off v) = length d"
  by (simp add: store_int_def)

lemma load_store_int [buffer_simps]:
  "off \<le> length d \<Longrightarrow> int32 v \<Longrightarrow> load_int (store_int d off v) off = v"
  by (simp add: load_int_def store_int_def buffer_simps)

lemma load_store_int_other [buffer_simps]:
  "o2 + 4 \<le> off \<or> off + 4 \<le> o2 \<Longrightarrow> off \<le> length d \<Longrightarrow>
    load_int (store_int d off v) o2 = load_int d o2"
  by (auto simp: load_int_def store_int_def buffer_simps)

lemma load_int_memcpy_other [buffer_simps]:
  "o2 + 4 \<le> off \<or> off + length src \<le> o2 \<Longrightarrow> off \<le> length d \<Longrightarrow>
    load_int (memcpy d off src) o2 = load_int d o2"
  by (auto simp: load_int_def buffer_simps)

lemma slice_store_int_other [buffer_simps]:
  "o2 + n \<le> off \<or> off + 4 \<le> o2 \<Longrightarrow> off \<le> length d \<Longrightarrow>
    slice o2 n (store_int d off v) = slice o2 n d"
  by (auto simp: store_int_def buffer_simps)

lemma int32_load_int: "off + 4 \<le> length d \<Longrightarrow> int32 (load_int d off)"
  by (simp add: load_int_def int32_bytes_int)

section \<open>Decimal images of integers (std::to_string)\<close>

fun nat_to_string :: "nat \<Rightarrow> string" where
  "nat_to_string n =
     (if n < 10 then [char_of (48 + n)]
      else nat_to_string (n div 10) @ [char_of (48 + n mod 10)])"

declare nat_to_string.simps [simp del]

definition to_string :: "int \<Rightarrow> string" where
  "to_string i = (if i < 0 then CHR ''-'' # nat_to_string (nat (- i)) else nat_to_string (nat i))"

section \<open>Exceptions and results\<close>

text \<open>
  The exception classes of \<^verbatim>\<open>errors.h\<close>, with their constructor arguments.
  \<open>RuntimeError\<close> stands for \<open>std::runtime_error\<close>, \<open>OutOfRange\<close> for \<open>std::out_of_range\<close>,
  \<open>AssertionFailed\<close> for an \<open>assert\<close> that does not hold and \<open>NullDereference\<close> for the use of a null
  pointer, which end the process. \<open>TransactionAbortException\<close> is the one of
  \<^verbatim>\<open>transaction/txn_defs.h\<close>.
\<close>

datatype AbortReason = LOCK_ON_SHIRINKING | UPGRADE_CONFLICT | DEADLOCK_PREVENTION | CONSTRAINT_VIOLATION

datatype rmdb_error =
    RMDBError string
  | InternalError string
  | UnixError
  | FileNotOpenError int
  | FileNotClosedError string
  | FileExistsError string
  | FileNotFoundError string
  | RecordNotFoundError int int
  | InvalidRecordSizeError int
  | InvalidColLengthError int
  | IndexEntryNotFoundError
  | IndexEntryExistsError
  | DatabaseNotFoundError string
  | DatabaseExistsError string
  | TableNotFoundError string
  | TableExistsError string
  | ColumnNotFoundError string
  | IndexNotFoundError string "string list"
  | IndexExistsError string "string list"
  | InvalidValueCountError
  | StringOverflowError
  | IncompatibleTypeError string string
  | AmbiguousColumnError string
  | SelectNonGroupByError
  | ParserError int int string
  | PageNotExistError string int
  | RuntimeError string
  | AssertionFailed string
  | OutOfRange
  | NullDereference
  | TransactionAbortException int AbortReason string

text \<open>The messages; \<open>strerr\<close> is what \<open>strerror(errno)\<close> returns.\<close>

fun col_list :: "string list \<Rightarrow> string" where
  "col_list [] = []"
| "col_list [c] = c"
| "col_list (c # cs) = c @ '', '' @ col_list cs"

fun what :: "string \<Rightarrow> rmdb_error \<Rightarrow> string" where
  "what strerr (RMDBError msg) = ''Error: '' @ msg"
| "what strerr (InternalError msg) = ''Error: '' @ msg"
| "what strerr UnixError = ''Error: '' @ strerr"
| "what strerr (FileNotOpenError fd) = ''Error: Invalid file descriptor: '' @ to_string fd"
| "what strerr (FileNotClosedError filename) = ''Error: File is opened: '' @ filename"
| "what strerr (FileExistsError filename) = ''Error: File already exists: '' @ filename"
| "what strerr (FileNotFoundError filename) = ''Error: File not found: '' @ filename"
| "what strerr (RecordNotFoundError page_no slot_no) =
     ''Error: Record not found: ('' @ to_string page_no @ '','' @ to_string slot_no @ '')''"
| "what strerr (InvalidRecordSizeError record_size) = ''Error: Invalid record size: '' @ to_string record_size"
| "what strerr (InvalidColLengthError col_len) = ''Error: Invalid column length: '' @ to_string col_len"
| "what strerr IndexEntryNotFoundError = ''Error: Index entry not found''"
| "what strerr IndexEntryExistsError = ''Error: Index entry already exists''"
| "what strerr (DatabaseNotFoundError db_name) = ''Error: Database not found: '' @ db_name"
| "what strerr (DatabaseExistsError db_name) = ''Error: Database already exists: '' @ db_name"
| "what strerr (TableNotFoundError tab_name) = ''Error: Table not found: '' @ tab_name"
| "what strerr (TableExistsError tab_name) = ''Error: Table already exists: '' @ tab_name"
| "what strerr (ColumnNotFoundError col_name) = ''Error: Column not found: '' @ col_name"
| "what strerr (IndexNotFoundError tab_name col_names) =
     ''Error: Index not found: '' @ tab_name @ ''.('' @ col_list col_names @ '')''"
| "what strerr (IndexExistsError tab_name col_names) =
     ''Error: Index already exists: '' @ tab_name @ ''.('' @ col_list col_names @ '')''"
| "what strerr InvalidValueCountError = ''Error: Invalid value count''"
| "what strerr StringOverflowError = ''Error: String is too long''"
| "what strerr (IncompatibleTypeError lhs rhs) = ''Error: Incompatible type error: lhs '' @ lhs @ '', rhs '' @ rhs"
| "what strerr (AmbiguousColumnError col_name) = ''Error: Ambiguous column: '' @ col_name"
| "what strerr SelectNonGroupByError = ''Error: Non-aggregate column not in GROUP BY clause''"
| "what strerr (ParserError line column msg) =
     ''Error: Parser Error at line '' @ to_string line @ '' column '' @ to_string column @ '': '' @ msg"
| "what strerr (PageNotExistError table_name page_no) =
     ''Error: Page '' @ to_string page_no @ '' in table '' @ table_name @ ''not exits''"
| "what strerr (RuntimeError msg) = msg"
| "what strerr (AssertionFailed msg) = msg"
| "what strerr OutOfRange = []"
| "what strerr NullDereference = []"
| "what strerr (TransactionAbortException txn_id reason msg) = ''std::exception''"

definition GetInfo :: "int \<Rightarrow> AbortReason \<Rightarrow> string \<Rightarrow> string" where
  "GetInfo txn_id reason msg =
     ''Transaction '' @ to_string txn_id @
     (case reason of
        LOCK_ON_SHIRINKING \<Rightarrow> '' aborted because it cannot request locks on SHRINKING phase'' @ [CHR 0x0A]
      | UPGRADE_CONFLICT \<Rightarrow> '' aborted because another transaction is waiting for upgrading'' @ [CHR 0x0A]
      | DEADLOCK_PREVENTION \<Rightarrow> '' aborted for deadlock prevention'' @ [CHR 0x0A]
      | CONSTRAINT_VIOLATION \<Rightarrow> '' aborted for constraint_violation'' @ [CHR 0x0A] @ msg @ [CHR 0x0A])"

type_synonym ('a, 's) res = "(rmdb_error + 'a) \<times> 's"

definition bindE :: "('a, 's) res \<Rightarrow> ('a \<Rightarrow> 's \<Rightarrow> ('b, 's) res) \<Rightarrow> ('b, 's) res" where
  "bindE r f = (case r of (Inl e, s) \<Rightarrow> (Inl e, s) | (Inr a, s) \<Rightarrow> f a s)"

lemma bindE_Inl [simp]: "bindE (Inl e, s) f = (Inl e, s)"
  by (simp add: bindE_def)

lemma bindE_Inr [simp]: "bindE (Inr a, s) f = f a s"
  by (simp add: bindE_def)

lemma bindE_InrD [res_simps]:
  "bindE r f = (Inr b, t) \<longleftrightarrow> (\<exists>a s. r = (Inr a, s) \<and> f a s = (Inr b, t))"
  by (auto simp: bindE_def split: prod.splits sum.splits)

section \<open>Lists\<close>

lemma nth_list_update_if: "i < length xs \<Longrightarrow> xs[i := x] ! j = (if i = j then x else xs ! j)"
  by simp

lemma distinct_map_snd_eq:
  "distinct (map snd xs) \<Longrightarrow> (a, f) \<in> set xs \<Longrightarrow> (b, f) \<in> set xs \<Longrightarrow> a = b"
  by (induction xs) (auto simp: rev_image_eqI)

section \<open>Operations that may not return\<close>

type_synonym ('a, 'w) run = "('a, 'w) res option"

definition bindR :: "('a, 'w) run \<Rightarrow> ('a \<Rightarrow> 'w \<Rightarrow> ('b, 'w) run) \<Rightarrow> ('b, 'w) run" where
  "bindR m f = Option.bind m (\<lambda>r. case r of (Inl e, w) \<Rightarrow> Some (Inl e, w) | (Inr a, w) \<Rightarrow> f a w)"

lemma bindR_simps [simp]:
  "bindR None f = None" "bindR (Some (Inl e, w)) f = Some (Inl e, w)" "bindR (Some (Inr a, w)) f = f a w"
  by (simp_all add: bindR_def)

lemma bindR_mono [partial_function_mono]:
  assumes "mono_option B" and "\<And>a w. mono_option (\<lambda>f. C a w f)"
  shows "mono_option (\<lambda>f. bindR (B f) (\<lambda>a w. C a w f))"
proof -
  have "mono_option (\<lambda>f. case r of (Inl e, w) \<Rightarrow> Some (Inl e, w) | (Inr a, w) \<Rightarrow> C a w f)" for r :: "('c, 'd) res"
    using assms(2) by (cases r; cases "fst r") (auto intro: monotoneI option.leq_refl)
  then show ?thesis unfolding bindR_def by (intro partial_function_mono assms)
qed

end
