(* ===== verification/LogRecords.thy ===== *)
theory LogRecords
  imports Prelude
begin

text \<open>
  The records of the write-ahead log, \<^verbatim>\<open>recovery/log_manager.h\<close> and \<^verbatim>\<open>log_defs.h\<close>: the header
  all records share, one record type per class (an extension of the header, as the classes
  extend \<open>LogRecord\<close>), their constructors, and \<open>serialize\<close> and \<open>deserialize\<close> as the sequences of
  \<open>memcpy\<close> and casts at running offsets that the code has. The locale \<open>wire_format\<close> is the
  contract both directions keep; it is interpreted for the header and for every record class.
\<close>

section \<open>Rids and record contents\<close>

datatype Rid = Rid (rid_page: int) (rid_slot: int)

definition Rid_bytes :: "Rid \<Rightarrow> bytes" where
  "Rid_bytes r = int_bytes (rid_page r) @ int_bytes (rid_slot r)"

definition bytes_Rid :: "bytes \<Rightarrow> Rid" where
  "bytes_Rid b = Rid (load_int b 0) (load_int b 4)"

definition Rid_ok :: "Rid \<Rightarrow> bool" where
  "Rid_ok r \<longleftrightarrow> int32 (rid_page r) \<and> int32 (rid_slot r)"

definition Rid_toString :: "Rid \<Rightarrow> string" where
  "Rid_toString r = ''('' @ to_string (rid_page r) @ '', '' @ to_string (rid_slot r) @ '')''"

lemma length_Rid_bytes [simp]: "length (Rid_bytes r) = 8"
  by (simp add: Rid_bytes_def)

lemma bytes_Rid_bytes [simp]: "Rid_ok r \<Longrightarrow> bytes_Rid (Rid_bytes r) = r"
  by (simp add: bytes_Rid_def Rid_bytes_def Rid_ok_def load_int_def slice_append_left slice_append_right)

text \<open>An \<open>RmRecord\<close> is its data; its \<open>size\<close> is the length.\<close>

type_synonym RmRecord = bytes

definition RmRecord_Deserialize :: "bytes \<Rightarrow> nat \<Rightarrow> RmRecord" where
  "RmRecord_Deserialize src off = (let n = nat (load_int src off) in slice (off + 4) n src)"

text \<open>The characters of a string as bytes.\<close>

definition string_bytes :: "string \<Rightarrow> bytes" where
  "string_bytes s = map (\<lambda>c. word_of_nat (of_char c)) s"

definition bytes_string :: "bytes \<Rightarrow> string" where
  "bytes_string b = map (\<lambda>x. char_of (unat x)) b"

lemma length_string_bytes [simp]: "length (string_bytes s) = length s"
  by (simp add: string_bytes_def)

lemma bytes_string_bytes [simp]: "bytes_string (string_bytes s) = s"
proof -
  have "char_of (unat (word_of_nat (of_char c) :: byte)) = c" for c
    by (simp add: unat_of_nat)
  then show ?thesis by (simp add: bytes_string_def string_bytes_def comp_def)
qed

section \<open>Log types and the log header\<close>

datatype LogType = UPDATE | INSERT | DELETE | LT_begin | LT_commit | ABORT | Checkpoint

definition LogType_code :: "LogType \<Rightarrow> int" where
  "LogType_code t =
     (case t of UPDATE \<Rightarrow> 0 | INSERT \<Rightarrow> 1 | DELETE \<Rightarrow> 2 | LT_begin \<Rightarrow> 3 | LT_commit \<Rightarrow> 4 | ABORT \<Rightarrow> 5
      | Checkpoint \<Rightarrow> 6)"

definition LogType_of :: "int \<Rightarrow> LogType option" where
  "LogType_of i =
     (if i = 0 then Some UPDATE else if i = 1 then Some INSERT else if i = 2 then Some DELETE
      else if i = 3 then Some LT_begin else if i = 4 then Some LT_commit else if i = 5 then Some ABORT
      else if i = 6 then Some Checkpoint else None)"

lemma LogType_of_code [simp]: "LogType_of (LogType_code t) = Some t"
  by (cases t) (simp_all add: LogType_of_def LogType_code_def)

lemma int32_LogType_code [simp]: "int32 (LogType_code t)"
  by (cases t) (simp_all add: LogType_code_def int32_def)

definition OFFSET_LOG_TYPE :: nat where
  "OFFSET_LOG_TYPE = 0"

definition OFFSET_LSN :: nat where
  "OFFSET_LSN = 4"

definition OFFSET_LOG_TOT_LEN :: nat where
  "OFFSET_LOG_TOT_LEN = OFFSET_LSN + 4"

definition OFFSET_LOG_TID :: nat where
  "OFFSET_LOG_TID = OFFSET_LOG_TOT_LEN + 4"

definition OFFSET_PREV_LSN :: nat where
  "OFFSET_PREV_LSN = OFFSET_LOG_TID + 4"

definition OFFSET_LOG_DATA :: nat where
  "OFFSET_LOG_DATA = OFFSET_PREV_LSN + 4"

definition LOG_HEADER_SIZE :: nat where
  "LOG_HEADER_SIZE = OFFSET_LOG_DATA"

lemmas log_offsets = OFFSET_LOG_TYPE_def OFFSET_LSN_def OFFSET_LOG_TOT_LEN_def OFFSET_LOG_TID_def
  OFFSET_PREV_LSN_def OFFSET_LOG_DATA_def LOG_HEADER_SIZE_def

record LogRecord =
  log_type :: LogType
  lsn :: int
  log_tot_len :: nat
  log_tid :: int
  prev_lsn :: int

definition LogRecord_serialize :: "'a LogRecord_scheme \<Rightarrow> bytes \<Rightarrow> bytes" where
  "LogRecord_serialize r dest =
     (let dest = memcpy dest OFFSET_LOG_TYPE (int_bytes (LogType_code (log_type r)));
          dest = memcpy dest OFFSET_LSN (int_bytes (lsn r));
          dest = memcpy dest OFFSET_LOG_TOT_LEN (le_bytes 4 (log_tot_len r));
          dest = memcpy dest OFFSET_LOG_TID (int_bytes (log_tid r));
          dest = memcpy dest OFFSET_PREV_LSN (int_bytes (prev_lsn r))
      in dest)"

text \<open>\<open>None\<close> stands for a stored number that is no value of the enumeration.\<close>

definition LogRecord_deserialize :: "bytes \<Rightarrow> LogRecord option" where
  "LogRecord_deserialize src =
     map_option (\<lambda>t.
       \<lparr>log_type = t,
        lsn = load_int src OFFSET_LSN,
        log_tot_len = le_nat (slice OFFSET_LOG_TOT_LEN 4 src),
        log_tid = load_int src OFFSET_LOG_TID,
        prev_lsn = load_int src OFFSET_PREV_LSN\<rparr>)
       (LogType_of (load_int src OFFSET_LOG_TYPE))"

section \<open>The record classes\<close>

definition BeginLogRecord_init :: "int \<Rightarrow> LogRecord" where
  "BeginLogRecord_init txn_id =
     \<lparr>log_type = LT_begin, lsn = INVALID_LSN, log_tot_len = LOG_HEADER_SIZE, log_tid = txn_id,
      prev_lsn = INVALID_LSN\<rparr>"

definition CommitLogRecord_init :: "int \<Rightarrow> LogRecord" where
  "CommitLogRecord_init txn_id =
     \<lparr>log_type = LT_commit, lsn = INVALID_LSN, log_tot_len = LOG_HEADER_SIZE, log_tid = txn_id,
      prev_lsn = INVALID_LSN\<rparr>"

definition AbortLogRecord_init :: "int \<Rightarrow> LogRecord" where
  "AbortLogRecord_init txn_id =
     \<lparr>log_type = ABORT, lsn = INVALID_LSN, log_tot_len = LOG_HEADER_SIZE, log_tid = txn_id,
      prev_lsn = INVALID_LSN\<rparr>"

definition CkpLogRecord_init :: LogRecord where
  "CkpLogRecord_init =
     \<lparr>log_type = Checkpoint, lsn = INVALID_LSN, log_tot_len = LOG_HEADER_SIZE, log_tid = INVALID_TXN_ID,
      prev_lsn = INVALID_LSN\<rparr>"

record InsertLogRecord = LogRecord +
  insert_value :: RmRecord
  insert_rid :: Rid
  insert_table_name :: string
  insert_first_free_page_no :: int
  insert_num_pages :: int

definition InsertLogRecord_init :: "int \<Rightarrow> int \<Rightarrow> RmRecord \<Rightarrow> Rid \<Rightarrow> string \<Rightarrow> int \<Rightarrow> int \<Rightarrow> InsertLogRecord" where
  "InsertLogRecord_init txn_id prev value rid table_name first_free_page_no num_page =
     \<lparr>log_type = INSERT, lsn = INVALID_LSN,
      log_tot_len = LOG_HEADER_SIZE + 4 + length value + 8 + (8 + length table_name) + 4 + 4,
      log_tid = txn_id, prev_lsn = prev,
      insert_value = value, insert_rid = rid, insert_table_name = table_name,
      insert_first_free_page_no = first_free_page_no, insert_num_pages = num_page\<rparr>"

definition InsertLogRecord_serialize :: "InsertLogRecord \<Rightarrow> bytes \<Rightarrow> bytes" where
  "InsertLogRecord_serialize r dest =
     (let dest = LogRecord_serialize r dest;
          offset = OFFSET_LOG_DATA;
          dest = memcpy dest offset (int_bytes (int (length (insert_value r))));
          offset = offset + 4;
          dest = memcpy dest offset (insert_value r);
          offset = offset + length (insert_value r);
          dest = memcpy dest offset (Rid_bytes (insert_rid r));
          offset = offset + 8;
          dest = memcpy dest offset (size_bytes (length (insert_table_name r)));
          offset = offset + 8;
          dest = memcpy dest offset (string_bytes (insert_table_name r));
          offset = offset + length (insert_table_name r);
          dest = memcpy dest offset (int_bytes (insert_first_free_page_no r));
          offset = offset + 4;
          dest = memcpy dest offset (int_bytes (insert_num_pages r))
      in dest)"

definition InsertLogRecord_deserialize :: "bytes \<Rightarrow> InsertLogRecord option" where
  "InsertLogRecord_deserialize src =
     map_option (\<lambda>h.
       let value = RmRecord_Deserialize src OFFSET_LOG_DATA;
           offset = OFFSET_LOG_DATA + nat (load_int src OFFSET_LOG_DATA) + 4;
           rid = bytes_Rid (slice offset 8 src);
           offset = offset + 8;
           table_name_size = bytes_size (slice offset 8 src);
           offset = offset + 8;
           table_name = bytes_string (slice offset table_name_size src);
           offset = offset + table_name_size;
           first_free_page_no = load_int src offset;
           offset = offset + 4;
           num_pages = load_int src offset
       in LogRecord.extend h (InsertLogRecord.fields value rid table_name first_free_page_no num_pages))
       (LogRecord_deserialize src)"

record DeleteLogRecord = LogRecord +
  delete_value :: RmRecord
  delete_rid :: Rid
  delete_table_name :: string
  delete_first_free_page_no :: int
  delete_num_pages :: int

definition DeleteLogRecord_init :: "int \<Rightarrow> int \<Rightarrow> RmRecord \<Rightarrow> Rid \<Rightarrow> string \<Rightarrow> int \<Rightarrow> int \<Rightarrow> DeleteLogRecord" where
  "DeleteLogRecord_init txn_id prev value rid table_name first_free_page_no num_page =
     \<lparr>log_type = DELETE, lsn = INVALID_LSN,
      log_tot_len = LOG_HEADER_SIZE + 4 + length value + 8 + (8 + length table_name) + 4 + 4,
      log_tid = txn_id, prev_lsn = prev,
      delete_value = value, delete_rid = rid, delete_table_name = table_name,
      delete_first_free_page_no = first_free_page_no, delete_num_pages = num_page\<rparr>"

definition DeleteLogRecord_serialize :: "DeleteLogRecord \<Rightarrow> bytes \<Rightarrow> bytes" where
  "DeleteLogRecord_serialize r dest =
     (let dest = LogRecord_serialize r dest;
          offset = OFFSET_LOG_DATA;
          dest = memcpy dest offset (int_bytes (int (length (delete_value r))));
          offset = offset + 4;
          dest = memcpy dest offset (delete_value r);
          offset = offset + length (delete_value r);
          dest = memcpy dest offset (Rid_bytes (delete_rid r));
          offset = offset + 8;
          dest = memcpy dest offset (size_bytes (length (delete_table_name r)));
          offset = offset + 8;
          dest = memcpy dest offset (string_bytes (delete_table_name r));
          offset = offset + length (delete_table_name r);
          dest = memcpy dest offset (int_bytes (delete_first_free_page_no r));
          offset = offset + 4;
          dest = memcpy dest offset (int_bytes (delete_num_pages r))
      in dest)"

definition DeleteLogRecord_deserialize :: "bytes \<Rightarrow> DeleteLogRecord option" where
  "DeleteLogRecord_deserialize src =
     map_option (\<lambda>h.
       let value = RmRecord_Deserialize src OFFSET_LOG_DATA;
           offset = OFFSET_LOG_DATA + nat (load_int src OFFSET_LOG_DATA) + 4;
           rid = bytes_Rid (slice offset 8 src);
           offset = offset + 8;
           table_name_size = bytes_size (slice offset 8 src);
           offset = offset + 8;
           table_name = bytes_string (slice offset table_name_size src);
           offset = offset + table_name_size;
           first_free_page_no = load_int src offset;
           offset = offset + 4;
           num_pages = load_int src offset
       in LogRecord.extend h (DeleteLogRecord.fields value rid table_name first_free_page_no num_pages))
       (LogRecord_deserialize src)"

record UpdateLogRecord = LogRecord +
  old_value :: RmRecord
  new_value :: RmRecord
  update_rid :: Rid
  update_table_name :: string
  update_first_free_page_no :: int
  update_num_pages :: int

definition UpdateLogRecord_init ::
  "int \<Rightarrow> int \<Rightarrow> RmRecord \<Rightarrow> RmRecord \<Rightarrow> Rid \<Rightarrow> string \<Rightarrow> int \<Rightarrow> int \<Rightarrow> UpdateLogRecord" where
  "UpdateLogRecord_init txn_id prev old new rid table_name first_free_page_no num_page =
     \<lparr>log_type = UPDATE, lsn = INVALID_LSN,
      log_tot_len = LOG_HEADER_SIZE + 4 * 2 + (length old + length new) + 8 + (8 + length table_name) + 4 + 4,
      log_tid = txn_id, prev_lsn = prev,
      old_value = old, new_value = new, update_rid = rid, update_table_name = table_name,
      update_first_free_page_no = first_free_page_no, update_num_pages = num_page\<rparr>"

definition UpdateLogRecord_serialize :: "UpdateLogRecord \<Rightarrow> bytes \<Rightarrow> bytes" where
  "UpdateLogRecord_serialize r dest =
     (let dest = LogRecord_serialize r dest;
          offset = OFFSET_LOG_DATA;
          dest = memcpy dest offset (int_bytes (int (length (old_value r))));
          offset = offset + 4;
          dest = memcpy dest offset (old_value r);
          offset = offset + length (old_value r);
          dest = memcpy dest offset (int_bytes (int (length (new_value r))));
          offset = offset + 4;
          dest = memcpy dest offset (new_value r);
          offset = offset + length (new_value r);
          dest = memcpy dest offset (Rid_bytes (update_rid r));
          offset = offset + 8;
          dest = memcpy dest offset (size_bytes (length (update_table_name r)));
          offset = offset + 8;
          dest = memcpy dest offset (string_bytes (update_table_name r));
          offset = offset + length (update_table_name r);
          dest = memcpy dest offset (int_bytes (update_first_free_page_no r));
          offset = offset + 4;
          dest = memcpy dest offset (int_bytes (update_num_pages r))
      in dest)"

definition UpdateLogRecord_deserialize :: "bytes \<Rightarrow> UpdateLogRecord option" where
  "UpdateLogRecord_deserialize src =
     map_option (\<lambda>h.
       let offset = OFFSET_LOG_DATA;
           old = RmRecord_Deserialize src offset;
           offset = offset + (4 + nat (load_int src offset));
           new = RmRecord_Deserialize src offset;
           offset = offset + (4 + nat (load_int src offset));
           rid = bytes_Rid (slice offset 8 src);
           offset = offset + 8;
           table_name_size = bytes_size (slice offset 8 src);
           offset = offset + 8;
           table_name = bytes_string (slice offset table_name_size src);
           offset = offset + table_name_size;
           first_free_page_no = load_int src offset;
           offset = offset + 4;
           num_pages = load_int src offset
       in LogRecord.extend h (UpdateLogRecord.fields old new rid table_name first_free_page_no num_pages))
       (LogRecord_deserialize src)"

section \<open>Any log record\<close>

text \<open>A \<open>LogRecord *\<close>: the classes behind the pointer and the virtual calls on it.\<close>

datatype log_record =
    LR_Header LogRecord
  | LR_Insert InsertLogRecord
  | LR_Delete DeleteLogRecord
  | LR_Update UpdateLogRecord

fun serialize :: "log_record \<Rightarrow> bytes \<Rightarrow> bytes" where
  "serialize (LR_Header r) dest = LogRecord_serialize r dest"
| "serialize (LR_Insert r) dest = InsertLogRecord_serialize r dest"
| "serialize (LR_Delete r) dest = DeleteLogRecord_serialize r dest"
| "serialize (LR_Update r) dest = UpdateLogRecord_serialize r dest"

fun header :: "log_record \<Rightarrow> LogRecord" where
  "header (LR_Header r) = r"
| "header (LR_Insert r) = LogRecord.truncate r"
| "header (LR_Delete r) = LogRecord.truncate r"
| "header (LR_Update r) = LogRecord.truncate r"

fun set_lsn :: "int \<Rightarrow> log_record \<Rightarrow> log_record" where
  "set_lsn n (LR_Header r) = LR_Header (r\<lparr>lsn := n\<rparr>)"
| "set_lsn n (LR_Insert r) = LR_Insert (r\<lparr>lsn := n\<rparr>)"
| "set_lsn n (LR_Delete r) = LR_Delete (r\<lparr>lsn := n\<rparr>)"
| "set_lsn n (LR_Update r) = LR_Update (r\<lparr>lsn := n\<rparr>)"

text \<open>
  How the recovery manager reads a record: the header first, then the class its type names.
\<close>

definition deserialize :: "bytes \<Rightarrow> log_record option" where
  "deserialize src =
     (case LogRecord_deserialize src of
        None \<Rightarrow> None
      | Some h \<Rightarrow>
          (case log_type h of
             INSERT \<Rightarrow> map_option LR_Insert (InsertLogRecord_deserialize src)
           | DELETE \<Rightarrow> map_option LR_Delete (DeleteLogRecord_deserialize src)
           | UPDATE \<Rightarrow> map_option LR_Update (UpdateLogRecord_deserialize src)
           | _ \<Rightarrow> Some (LR_Header h)))"

section \<open>The contract of serialize and deserialize\<close>

locale wire_format =
  fixes enc :: "'r \<Rightarrow> bytes"
    and ok :: "'r \<Rightarrow> bool"
    and tot :: "'r \<Rightarrow> nat"
    and ser :: "'r \<Rightarrow> bytes \<Rightarrow> bytes"
    and deser :: "bytes \<Rightarrow> 'r option"
  assumes ser_enc: "ser r dest = enc r @ drop (length (enc r)) dest"
    and deser_enc: "ok r \<Longrightarrow> deser (enc r @ rest) = Some r"
    and length_enc: "ok r \<Longrightarrow> length (enc r) = tot r"
begin

lemma ser_fits: "ok r \<Longrightarrow> length dest = tot r \<Longrightarrow> ser r dest = enc r"
  by (simp add: ser_enc length_enc)

lemma length_ser: "ok r \<Longrightarrow> length dest = tot r \<Longrightarrow> length (ser r dest) = tot r"
  by (simp add: ser_fits length_enc)

lemma deser_ser: "ok r \<Longrightarrow> tot r \<le> length dest \<Longrightarrow> deser (ser r dest @ rest) = Some r"
  using deser_enc [of r "drop (length (enc r)) dest @ rest"] by (simp add: ser_enc)

lemma enc_inj: "ok r \<Longrightarrow> ok r' \<Longrightarrow> enc r @ x = enc r' @ y \<Longrightarrow> r = r' \<and> x = y"
  by (metis append_eq_append_conv deser_enc option.inject)

end

subsection \<open>Filling a buffer from the left\<close>

lemma memcpy_start: "memcpy (drop k dest) 0 x = x @ drop (k + length x) dest"
  by (simp add: memcpy_def add.commute)

lemma memcpy_append: "length p \<le> off \<Longrightarrow> memcpy (p @ q) off x = p @ memcpy q (off - length p) x"
  by (simp add: memcpy_def)

lemmas memcpy_fill = memcpy_append memcpy_start memcpy_start [of 0, simplified]

lemma slice_field: "off = length p \<Longrightarrow> n = length x \<Longrightarrow> slice off n (p @ x @ rest) = x"
  by (simp add: slice_def)

lemma load_int_field: "off = length p \<Longrightarrow> int32 i \<Longrightarrow> load_int (p @ int_bytes i @ rest) off = i"
  by (simp add: load_int_def slice_field)

subsection \<open>The header\<close>

definition header_enc :: "'a LogRecord_scheme \<Rightarrow> bytes" where
  "header_enc r = int_bytes (LogType_code (log_type r)) @ int_bytes (lsn r) @ le_bytes 4 (log_tot_len r) @
     int_bytes (log_tid r) @ int_bytes (prev_lsn r)"

definition header_ok :: "'a LogRecord_scheme \<Rightarrow> bool" where
  "header_ok r \<longleftrightarrow> int32 (lsn r) \<and> log_tot_len r < 2 ^ 32 \<and> int32 (log_tid r) \<and> int32 (prev_lsn r)"

lemma length_header_enc [simp]: "length (header_enc r) = 20"
  by (simp add: header_enc_def)

lemma LogRecord_serialize_enc: "LogRecord_serialize r dest = header_enc r @ drop 20 dest"
  by (simp add: LogRecord_serialize_def Let_def log_offsets memcpy_fill header_enc_def)

lemma LogRecord_deserialize_enc:
  assumes "header_ok r"
  shows "LogRecord_deserialize (header_enc r @ rest) = Some (LogRecord.truncate r)"
proof -
  have "load_int (header_enc r @ rest) 0 = LogType_code (log_type r)"
    and "load_int (header_enc r @ rest) 4 = lsn r"
    and "le_nat (slice 8 4 (header_enc r @ rest)) = log_tot_len r"
    and "load_int (header_enc r @ rest) 12 = log_tid r"
    and "load_int (header_enc r @ rest) 16 = prev_lsn r"
    using assms by (simp_all add: header_enc_def header_ok_def load_int_def slice_append_left slice_append_right
        le_nat_le_bytes)
  then show ?thesis by (simp add: LogRecord_deserialize_def log_offsets LogRecord.truncate_def)
qed

subsection \<open>Row operations\<close>

definition row_enc :: "Rid \<Rightarrow> string \<Rightarrow> int \<Rightarrow> int \<Rightarrow> bytes" where
  "row_enc rid name first_free num =
     Rid_bytes rid @ size_bytes (length name) @ string_bytes name @ int_bytes first_free @ int_bytes num"

definition value_enc :: "RmRecord \<Rightarrow> bytes" where
  "value_enc v = int_bytes (int (length v)) @ v"

definition row_ok :: "Rid \<Rightarrow> string \<Rightarrow> int \<Rightarrow> int \<Rightarrow> bool" where
  "row_ok rid name first_free num \<longleftrightarrow> Rid_ok rid \<and> length name < 2 ^ 64 \<and> int32 first_free \<and> int32 num"

lemma length_row_enc [simp]: "length (row_enc rid name first_free num) = 24 + length name"
  by (simp add: row_enc_def)

lemma length_value_enc [simp]: "length (value_enc v) = 4 + length v"
  by (simp add: value_enc_def)

lemma value_enc_fields:
  assumes "length v < 2 ^ 31" and "off = length p"
  shows "nat (load_int (p @ value_enc v @ rest) off) = length v"
    and "RmRecord_Deserialize (p @ value_enc v @ rest) off = v"
proof -
  have "int32 (int (length v))" using assms(1) by (simp add: int32_def)
  then have l: "load_int (p @ value_enc v @ rest) off = int (length v)"
    using assms(2) by (simp add: value_enc_def load_int_field)
  then show "nat (load_int (p @ value_enc v @ rest) off) = length v" by simp
  show "RmRecord_Deserialize (p @ value_enc v @ rest) off = v"
    using assms(2) l by (simp add: RmRecord_Deserialize_def value_enc_def slice_append_left slice_append_right)
qed

lemma row_enc_fields:
  assumes "row_ok rid name ff num" and "off = length p"
  shows "bytes_Rid (slice off 8 (p @ row_enc rid name ff num @ rest)) = rid"
    and "bytes_size (slice (off + 8) 8 (p @ row_enc rid name ff num @ rest)) = length name"
    and "bytes_string (slice (off + 16) (length name) (p @ row_enc rid name ff num @ rest)) = name"
    and "load_int (p @ row_enc rid name ff num @ rest) (off + 16 + length name) = ff"
    and "load_int (p @ row_enc rid name ff num @ rest) (off + 20 + length name) = num"
  using assms by (simp_all add: row_enc_def row_ok_def load_int_def slice_append_left slice_append_right)

definition insert_enc :: "InsertLogRecord \<Rightarrow> bytes" where
  "insert_enc r = header_enc r @ value_enc (insert_value r) @
     row_enc (insert_rid r) (insert_table_name r) (insert_first_free_page_no r) (insert_num_pages r)"

definition insert_ok :: "InsertLogRecord \<Rightarrow> bool" where
  "insert_ok r \<longleftrightarrow> header_ok r \<and> log_type r = INSERT \<and> length (insert_value r) < 2 ^ 31 \<and>
     row_ok (insert_rid r) (insert_table_name r) (insert_first_free_page_no r) (insert_num_pages r) \<and>
     log_tot_len r = 48 + length (insert_value r) + length (insert_table_name r)"

definition delete_enc :: "DeleteLogRecord \<Rightarrow> bytes" where
  "delete_enc r = header_enc r @ value_enc (delete_value r) @
     row_enc (delete_rid r) (delete_table_name r) (delete_first_free_page_no r) (delete_num_pages r)"

definition delete_ok :: "DeleteLogRecord \<Rightarrow> bool" where
  "delete_ok r \<longleftrightarrow> header_ok r \<and> log_type r = DELETE \<and> length (delete_value r) < 2 ^ 31 \<and>
     row_ok (delete_rid r) (delete_table_name r) (delete_first_free_page_no r) (delete_num_pages r) \<and>
     log_tot_len r = 48 + length (delete_value r) + length (delete_table_name r)"

definition update_enc :: "UpdateLogRecord \<Rightarrow> bytes" where
  "update_enc r = header_enc r @ value_enc (old_value r) @ value_enc (new_value r) @
     row_enc (update_rid r) (update_table_name r) (update_first_free_page_no r) (update_num_pages r)"

definition update_ok :: "UpdateLogRecord \<Rightarrow> bool" where
  "update_ok r \<longleftrightarrow> header_ok r \<and> log_type r = UPDATE \<and> length (old_value r) < 2 ^ 31 \<and> length (new_value r) < 2 ^ 31 \<and>
     row_ok (update_rid r) (update_table_name r) (update_first_free_page_no r) (update_num_pages r) \<and>
     log_tot_len r = 52 + length (old_value r) + length (new_value r) + length (update_table_name r)"

interpretation header_fmt: wire_format header_enc "\<lambda>r. header_ok r \<and> log_tot_len r = LOG_HEADER_SIZE"
    "log_tot_len :: LogRecord \<Rightarrow> nat" LogRecord_serialize LogRecord_deserialize
  by unfold_locales (simp_all add: LogRecord_serialize_enc LogRecord_deserialize_enc log_offsets LogRecord.truncate_def)

lemma InsertLogRecord_serialize_enc: "InsertLogRecord_serialize r dest = insert_enc r @ drop (length (insert_enc r)) dest"
  by (simp add: InsertLogRecord_serialize_def Let_def LogRecord_serialize_enc log_offsets memcpy_fill insert_enc_def
      value_enc_def row_enc_def ac_simps)

lemma DeleteLogRecord_serialize_enc: "DeleteLogRecord_serialize r dest = delete_enc r @ drop (length (delete_enc r)) dest"
  by (simp add: DeleteLogRecord_serialize_def Let_def LogRecord_serialize_enc log_offsets memcpy_fill delete_enc_def
      value_enc_def row_enc_def ac_simps)

lemma UpdateLogRecord_serialize_enc: "UpdateLogRecord_serialize r dest = update_enc r @ drop (length (update_enc r)) dest"
  by (simp add: UpdateLogRecord_serialize_def Let_def LogRecord_serialize_enc log_offsets memcpy_fill update_enc_def
      value_enc_def row_enc_def ac_simps)

lemma InsertLogRecord_deserialize_enc:
  assumes ok: "insert_ok r"
  shows "InsertLogRecord_deserialize (insert_enc r @ rest) = Some r"
proof -
  let ?h = "header_enc r" and ?v = "value_enc (insert_value r)"
    and ?w = "row_enc (insert_rid r) (insert_table_name r) (insert_first_free_page_no r) (insert_num_pages r)"
  let ?s = "?h @ ?v @ ?w @ rest"
  have "header_ok r" and v: "length (insert_value r) < 2 ^ 31"
    and w: "row_ok (insert_rid r) (insert_table_name r) (insert_first_free_page_no r) (insert_num_pages r)"
    using ok by (simp_all add: insert_ok_def)
  then have h: "LogRecord_deserialize ?s = Some (LogRecord.truncate r)" by (simp add: LogRecord_deserialize_enc)
  note vf = value_enc_fields [OF v, of 20 ?h "?w @ rest", simplified]
  note wf = row_enc_fields [OF w, of "24 + length (insert_value r)" "?h @ ?v" rest, simplified]
  have "InsertLogRecord_deserialize ?s = Some r"
    using vf wf by (simp add: InsertLogRecord_deserialize_def h log_offsets Let_def ac_simps
        LogRecord.defs InsertLogRecord.defs)
  then show ?thesis by (simp add: insert_enc_def)
qed

lemma DeleteLogRecord_deserialize_enc:
  assumes ok: "delete_ok r"
  shows "DeleteLogRecord_deserialize (delete_enc r @ rest) = Some r"
proof -
  let ?h = "header_enc r" and ?v = "value_enc (delete_value r)"
    and ?w = "row_enc (delete_rid r) (delete_table_name r) (delete_first_free_page_no r) (delete_num_pages r)"
  let ?s = "?h @ ?v @ ?w @ rest"
  have "header_ok r" and v: "length (delete_value r) < 2 ^ 31"
    and w: "row_ok (delete_rid r) (delete_table_name r) (delete_first_free_page_no r) (delete_num_pages r)"
    using ok by (simp_all add: delete_ok_def)
  then have h: "LogRecord_deserialize ?s = Some (LogRecord.truncate r)" by (simp add: LogRecord_deserialize_enc)
  note vf = value_enc_fields [OF v, of 20 ?h "?w @ rest", simplified]
  note wf = row_enc_fields [OF w, of "24 + length (delete_value r)" "?h @ ?v" rest, simplified]
  have "DeleteLogRecord_deserialize ?s = Some r"
    using vf wf by (simp add: DeleteLogRecord_deserialize_def h log_offsets Let_def ac_simps
        LogRecord.defs DeleteLogRecord.defs)
  then show ?thesis by (simp add: delete_enc_def)
qed

lemma UpdateLogRecord_deserialize_enc:
  assumes ok: "update_ok r"
  shows "UpdateLogRecord_deserialize (update_enc r @ rest) = Some r"
proof -
  let ?h = "header_enc r" and ?o = "value_enc (old_value r)" and ?v = "value_enc (new_value r)"
    and ?w = "row_enc (update_rid r) (update_table_name r) (update_first_free_page_no r) (update_num_pages r)"
  let ?s = "?h @ ?o @ ?v @ ?w @ rest"
  have "header_ok r" and o: "length (old_value r) < 2 ^ 31" and v: "length (new_value r) < 2 ^ 31"
    and w: "row_ok (update_rid r) (update_table_name r) (update_first_free_page_no r) (update_num_pages r)"
    using ok by (simp_all add: update_ok_def)
  then have h: "LogRecord_deserialize ?s = Some (LogRecord.truncate r)" by (simp add: LogRecord_deserialize_enc)
  note of = value_enc_fields [OF o, of 20 ?h "?v @ ?w @ rest", simplified]
  note vf = value_enc_fields [OF v, of "24 + length (old_value r)" "?h @ ?o" "?w @ rest", simplified]
  note wf = row_enc_fields [OF w, of "28 + length (old_value r) + length (new_value r)" "?h @ ?o @ ?v" rest, simplified]
  have "UpdateLogRecord_deserialize ?s = Some r"
    using of vf wf by (simp add: UpdateLogRecord_deserialize_def h log_offsets Let_def ac_simps
        LogRecord.defs UpdateLogRecord.defs)
  then show ?thesis by (simp add: update_enc_def)
qed

lemma length_row_encs:
  "insert_ok i \<Longrightarrow> length (insert_enc i) = log_tot_len i"
  "delete_ok d \<Longrightarrow> length (delete_enc d) = log_tot_len d"
  "update_ok u \<Longrightarrow> length (update_enc u) = log_tot_len u"
  by (simp_all add: insert_ok_def insert_enc_def delete_ok_def delete_enc_def update_ok_def update_enc_def)

interpretation insert_fmt: wire_format insert_enc insert_ok log_tot_len
    InsertLogRecord_serialize InsertLogRecord_deserialize
  by unfold_locales (simp_all add: InsertLogRecord_serialize_enc InsertLogRecord_deserialize_enc length_row_encs)

interpretation delete_fmt: wire_format delete_enc delete_ok log_tot_len
    DeleteLogRecord_serialize DeleteLogRecord_deserialize
  by unfold_locales (simp_all add: DeleteLogRecord_serialize_enc DeleteLogRecord_deserialize_enc length_row_encs)

interpretation update_fmt: wire_format update_enc update_ok log_tot_len
    UpdateLogRecord_serialize UpdateLogRecord_deserialize
  by unfold_locales (simp_all add: UpdateLogRecord_serialize_enc UpdateLogRecord_deserialize_enc length_row_encs)

subsection \<open>Any record\<close>

fun log_enc :: "log_record \<Rightarrow> bytes" where
  "log_enc (LR_Header r) = header_enc r"
| "log_enc (LR_Insert r) = insert_enc r"
| "log_enc (LR_Delete r) = delete_enc r"
| "log_enc (LR_Update r) = update_enc r"

fun log_ok :: "log_record \<Rightarrow> bool" where
  "log_ok (LR_Header r) \<longleftrightarrow> header_ok r \<and> log_tot_len r = LOG_HEADER_SIZE \<and>
     log_type r \<in> {LT_begin, LT_commit, ABORT, Checkpoint}"
| "log_ok (LR_Insert r) \<longleftrightarrow> insert_ok r"
| "log_ok (LR_Delete r) \<longleftrightarrow> delete_ok r"
| "log_ok (LR_Update r) \<longleftrightarrow> update_ok r"

lemma truncate_sel [simp]:
  "log_type (LogRecord.truncate r) = log_type r" "lsn (LogRecord.truncate r) = lsn r"
  "log_tot_len (LogRecord.truncate r) = log_tot_len r" "log_tid (LogRecord.truncate r) = log_tid r"
  "prev_lsn (LogRecord.truncate r) = prev_lsn r" "header_enc (LogRecord.truncate r) = header_enc r"
  "header_ok (LogRecord.truncate r) = header_ok r"
  by (simp_all add: LogRecord.truncate_def header_enc_def header_ok_def)

lemma log_enc_header: "\<exists>t. log_enc r = header_enc (header r) @ t"
  by (cases r) (auto simp: insert_enc_def delete_enc_def update_enc_def)

lemma log_ok_header: "log_ok r \<Longrightarrow> header_ok (header r) \<and> 20 \<le> log_tot_len (header r)"
  by (cases r) (auto simp: insert_ok_def delete_ok_def update_ok_def log_offsets)

lemma header_set_lsn [simp]: "header (set_lsn n r) = (header r)\<lparr>lsn := n\<rparr>"
  by (cases r) (simp_all add: LogRecord.truncate_def)

lemma log_ok_set_lsn: "log_ok r \<Longrightarrow> int32 n \<Longrightarrow> log_ok (set_lsn n r)"
  by (cases r) (auto simp: header_ok_def insert_ok_def delete_ok_def update_ok_def)

lemma deserialize_header: "log_ok r \<Longrightarrow> LogRecord_deserialize (log_enc r @ rest) = Some (header r)"
proof -
  assume "log_ok r"
  then have "header_ok (header r)" by (simp add: log_ok_header)
  moreover obtain t where "log_enc r = header_enc (header r) @ t" using log_enc_header by blast
  ultimately show ?thesis by (simp add: LogRecord_deserialize_enc LogRecord.truncate_def)
qed

interpretation log_fmt: wire_format log_enc log_ok "\<lambda>r. log_tot_len (header r)" serialize deserialize
proof unfold_locales
  fix r :: log_record and dest rest
  show "serialize r dest = log_enc r @ drop (length (log_enc r)) dest"
    by (cases r) (simp_all add: header_fmt.ser_enc insert_fmt.ser_enc delete_fmt.ser_enc update_fmt.ser_enc)
  assume ok: "log_ok r"
  then show "length (log_enc r) = log_tot_len (header r)"
    by (cases r) (simp_all add: length_row_encs log_offsets)
  have h: "LogRecord_deserialize (log_enc r @ rest) = Some (header r)" using ok by (rule deserialize_header)
  show "deserialize (log_enc r @ rest) = Some r"
    using ok h by (cases r) (auto simp: deserialize_def insert_fmt.deser_enc delete_fmt.deser_enc
        update_fmt.deser_enc insert_ok_def delete_ok_def update_ok_def)
qed

section \<open>Properties\<close>

text \<open>
  C25: log records survive the trip through bytes. A record of any class whose fields are in
  range and whose length field is its length, serialized into a buffer of that length and
  followed by anything, is read back as the same record.
\<close>

theorem log_record_roundtrip:
  assumes "log_ok r" and "length dest = log_tot_len (header r)"
  shows "deserialize (serialize r dest @ rest) = Some r \<and> length (serialize r dest) = log_tot_len (header r)"
  using assms by (simp add: log_fmt.deser_ser log_fmt.length_ser)

definition sample_insert :: InsertLogRecord where
  "sample_insert = InsertLogRecord_init 4 (- 1) [1, 2, 3, 4] (Rid 1 0) ''t'' 1 2"

lemma sample_insert_ok: "log_ok (LR_Insert sample_insert)"
  by (simp add: insert_ok_def sample_insert_def InsertLogRecord_init_def header_ok_def row_ok_def Rid_ok_def
      int32_def INVALID_LSN_def log_offsets)

theorem log_record_roundtrip_witness:
  "deserialize (serialize (LR_Insert sample_insert) (memset 53 0) @ [9]) = Some (LR_Insert sample_insert)"
  using log_record_roundtrip [OF sample_insert_ok, of "memset 53 0" "[9]"]
  by (simp add: sample_insert_def InsertLogRecord_init_def log_offsets)

text \<open>
  The constructors set the length field to the number of bytes that \<open>serialize\<close> writes, for
  every class and every argument in range; a record fresh from its constructor and given a log
  sequence number is therefore one the round trip holds for.
\<close>

theorem constructors_length_exact:
  assumes "int32 tid" and "int32 prev" and "int32 n" and "row_ok rid name ff np"
    and "length old + length new + length name < 2 ^ 31"
  shows "\<forall>r \<in> {LR_Header (BeginLogRecord_init tid), LR_Header (CommitLogRecord_init tid),
        LR_Header (AbortLogRecord_init tid), LR_Header CkpLogRecord_init,
        LR_Insert (InsertLogRecord_init tid prev new rid name ff np),
        LR_Delete (DeleteLogRecord_init tid prev old rid name ff np),
        LR_Update (UpdateLogRecord_init tid prev old new rid name ff np)}.
     log_ok (set_lsn n r)"
proof -
  have "int32 INVALID_LSN" and "int32 INVALID_TXN_ID"
    by (simp_all add: INVALID_LSN_def INVALID_TXN_ID_def int32_def)
  then show ?thesis
    using assms
    by (simp add: header_ok_def insert_ok_def delete_ok_def update_ok_def log_offsets
        BeginLogRecord_init_def CommitLogRecord_init_def AbortLogRecord_init_def CkpLogRecord_init_def
        InsertLogRecord_init_def DeleteLogRecord_init_def UpdateLogRecord_init_def)
qed

theorem constructors_length_exact_witness:
  "log_ok (set_lsn 12 (LR_Delete (DeleteLogRecord_init 4 7 [1, 2] (Rid 3 5) ''t'' 1 2)))"
  using constructors_length_exact [of 4 7 12 "Rid 3 5" "''t''" 1 2 "[1, 2]" "[]"]
  by (simp add: int32_def row_ok_def Rid_ok_def)

end
