(* ===== verification/Values.thy ===== *)
theory Values
  imports LogRecords
begin

text \<open>
  Column types, values, comparison operators and conditions: \<^verbatim>\<open>common/common.h\<close> and \<^verbatim>\<open>defs.h\<close>. An \<open>int\<close> and
  a \<open>float\<close> of a \<open>Value\<close> share their 32 bits, as the members of a union do. A \<open>float\<close> is its
  IEEE 754 single precision bit pattern; comparing two of them and converting an \<open>int\<close> are
  defined on the patterns, and the order is proved to be the order of the numbers they stand for.
  Text is a sequence of bytes, compared as \<open>std::string\<close> compares it.
\<close>

unbundle bit_operations_syntax

section \<open>Single precision floats\<close>

type_synonym f32 = "32 word"

definition f32_neg :: "f32 \<Rightarrow> bool" where
  "f32_neg w \<longleftrightarrow> 2 ^ 31 \<le> unat w"

text \<open>Exponent and fraction together.\<close>

definition f32_abs :: "f32 \<Rightarrow> nat" where
  "f32_abs w = unat w mod 2 ^ 31"

definition f32_nan :: "f32 \<Rightarrow> bool" where
  "f32_nan w \<longleftrightarrow> 255 * 2 ^ 23 < f32_abs w"

definition f32_key :: "f32 \<Rightarrow> int" where
  "f32_key w = (if f32_neg w then - int (f32_abs w) else int (f32_abs w))"

definition f32_lt :: "f32 \<Rightarrow> f32 \<Rightarrow> bool" where
  "f32_lt a b \<longleftrightarrow> \<not> f32_nan a \<and> \<not> f32_nan b \<and> f32_key a < f32_key b"

definition f32_eq :: "f32 \<Rightarrow> f32 \<Rightarrow> bool" where
  "f32_eq a b \<longleftrightarrow> \<not> f32_nan a \<and> \<not> f32_nan b \<and> f32_key a = f32_key b"

text \<open>The number a finite float stands for, in units of \<open>2 ^ (- 149)\<close>.\<close>

definition f32_units :: "f32 \<Rightarrow> int" where
  "f32_units w =
     (let e = f32_abs w div 2 ^ 23; m = f32_abs w mod 2 ^ 23;
          u = (if e = 0 then m else (2 ^ 23 + m) * 2 ^ (e - 1))
      in if f32_neg w then - int u else int u)"

fun bitlen :: "nat \<Rightarrow> nat" where
  "bitlen n = (if n = 0 then 0 else Suc (bitlen (n div 2)))"

declare bitlen.simps [simp del]

definition round_half_even :: "nat \<Rightarrow> nat \<Rightarrow> nat" where
  "round_half_even n d =
     (let q = n div d; r = n mod d
      in if 2 * r > d \<or> 2 * r = d \<and> odd q then q + 1 else q)"

text \<open>\<open>static_cast<float>\<close> of an \<open>int\<close>, rounded to nearest even.\<close>

definition int_to_f32 :: "int \<Rightarrow> f32" where
  "int_to_f32 i =
     (let n = nat \<bar>i\<bar>; k = bitlen n;
          m = (if k \<le> 24 then n * 2 ^ (24 - k) else round_half_even n (2 ^ (k - 24)));
          p = (if n = 0 then 0 else (126 + k) * 2 ^ 23 + m - 2 ^ 23)
      in word_of_nat (if i < 0 then 2 ^ 31 + p else p))"

definition FLT_MAX :: f32 where
  "FLT_MAX = 0x7F7FFFFF"

definition FLT_MIN :: f32 where
  "FLT_MIN = 0x00800000"

section \<open>Values\<close>

datatype ColType = TYPE_INT | TYPE_FLOAT | TYPE_STRING | TYPE_DATETIME

definition coltype2str :: "ColType \<Rightarrow> string" where
  "coltype2str t =
     (case t of TYPE_INT \<Rightarrow> ''INT'' | TYPE_FLOAT \<Rightarrow> ''FLOAT'' | TYPE_STRING \<Rightarrow> ''STRING'' | TYPE_DATETIME \<Rightarrow> ''DATETIME'')"

datatype TabCol = TabCol (tc_tab: string) (tc_col: string)

datatype AggrType = SUM | MAX | MIN | COUNT | COUNT_STAR | NON_AGG

record AggrCol =
  ac_tab_col :: TabCol
  ac_type :: AggrType
  ac_alias :: string

datatype CompOp = OP_EQ | OP_NE | OP_LT | OP_GT | OP_LE | OP_GE

record Value =
  v_type :: ColType
  v_num :: "32 word"
  str_val :: bytes
  v_raw :: "bytes option"

definition int_val :: "Value \<Rightarrow> int" where
  "int_val v = sint (v_num v)"

definition float_val :: "Value \<Rightarrow> f32" where
  "float_val v = v_num v"

definition set_int :: "int \<Rightarrow> Value \<Rightarrow> Value" where
  "set_int i v = v\<lparr>v_type := TYPE_INT, v_num := word_of_int i\<rparr>"

definition set_float :: "f32 \<Rightarrow> Value \<Rightarrow> Value" where
  "set_float f v = v\<lparr>v_type := TYPE_FLOAT, v_num := f\<rparr>"

definition set_str :: "bytes \<Rightarrow> Value \<Rightarrow> Value" where
  "set_str s v = v\<lparr>v_type := TYPE_STRING, str_val := s\<rparr>"

definition set_datetime :: "bytes \<Rightarrow> Value \<Rightarrow> Value" where
  "set_datetime s v = v\<lparr>v_type := TYPE_STRING, str_val := s\<rparr>"

text \<open>\<open>junk\<close> is what the freshly allocated buffer holds before it is written.\<close>

definition init_raw :: "bytes \<Rightarrow> nat \<Rightarrow> Value \<Rightarrow> (unit, Value) res" where
  "init_raw junk len v =
     (if v_raw v \<noteq> None then (Inl (AssertionFailed ''raw == nullptr''), v)
      else let v = v\<lparr>v_raw := Some junk\<rparr>
           in case v_type v of
                TYPE_INT \<Rightarrow> if len \<noteq> 4 then (Inl (AssertionFailed ''len == sizeof(int)''), v)
                            else (Inr (), v\<lparr>v_raw := Some (int_bytes (int_val v))\<rparr>)
              | TYPE_FLOAT \<Rightarrow> if len \<noteq> 4 then (Inl (AssertionFailed ''len == sizeof(float)''), v)
                            else (Inr (), v\<lparr>v_raw := Some (int_bytes (sint (float_val v)))\<rparr>)
              | TYPE_STRING \<Rightarrow> if len < length (str_val v) then (Inl StringOverflowError, v)
                            else (Inr (), v\<lparr>v_raw := Some (memcpy (memset len 0) 0 (str_val v))\<rparr>)
              | TYPE_DATETIME \<Rightarrow> (Inr (), v))"

definition generate_max :: "bytes \<Rightarrow> ColType \<Rightarrow> nat \<Rightarrow> Value \<Rightarrow> (unit, Value) res" where
  "generate_max junk t len v =
     (let v = v\<lparr>v_type := t\<rparr>
      in case t of
           TYPE_INT \<Rightarrow> init_raw junk len (v\<lparr>v_num := word_of_int (2 ^ 31 - 1)\<rparr>)
         | TYPE_FLOAT \<Rightarrow> init_raw junk len (v\<lparr>v_num := FLT_MAX\<rparr>)
         | TYPE_STRING \<Rightarrow> (Inr (), v\<lparr>str_val := take len (str_val v) @ memset (len - length (str_val v)) 126,
              v_raw := Some (memset len 126)\<rparr>)
         | TYPE_DATETIME \<Rightarrow> (Inr (), v))"

definition generate_min :: "bytes \<Rightarrow> ColType \<Rightarrow> nat \<Rightarrow> Value \<Rightarrow> (unit, Value) res" where
  "generate_min junk t len v =
     (let v = v\<lparr>v_type := t\<rparr>
      in case t of
           TYPE_INT \<Rightarrow> init_raw junk len (v\<lparr>v_num := word_of_int (- (2 ^ 31))\<rparr>)
         | TYPE_FLOAT \<Rightarrow> init_raw junk len (v\<lparr>v_num := FLT_MIN\<rparr>)
         | TYPE_STRING \<Rightarrow> (Inr (), v\<lparr>str_val := [], v_raw := Some (memset len 0)\<rparr>)
         | TYPE_DATETIME \<Rightarrow> (Inr (), v))"

section \<open>Comparison\<close>

text \<open>\<open>std::string\<close> compares as sequences of unsigned bytes.\<close>

fun str_less :: "bytes \<Rightarrow> bytes \<Rightarrow> bool" where
  "str_less _ [] = False"
| "str_less [] (y # ys) = True"
| "str_less (x # xs) (y # ys) = (x < y \<or> x = y \<and> str_less xs ys)"

definition comp_int :: "int \<Rightarrow> int \<Rightarrow> CompOp \<Rightarrow> bool" where
  "comp_int l r op =
     (case op of OP_EQ \<Rightarrow> l = r | OP_NE \<Rightarrow> l \<noteq> r | OP_GE \<Rightarrow> l \<ge> r | OP_LE \<Rightarrow> l \<le> r | OP_GT \<Rightarrow> l > r | OP_LT \<Rightarrow> l < r)"

definition comp_float :: "f32 \<Rightarrow> f32 \<Rightarrow> CompOp \<Rightarrow> bool" where
  "comp_float l r op =
     (case op of
        OP_EQ \<Rightarrow> f32_eq l r | OP_NE \<Rightarrow> \<not> f32_eq l r | OP_GE \<Rightarrow> f32_lt r l \<or> f32_eq l r | OP_LE \<Rightarrow> f32_lt l r \<or> f32_eq l r
      | OP_GT \<Rightarrow> f32_lt r l | OP_LT \<Rightarrow> f32_lt l r)"

definition comp_str :: "bytes \<Rightarrow> bytes \<Rightarrow> CompOp \<Rightarrow> bool" where
  "comp_str l r op =
     (case op of
        OP_EQ \<Rightarrow> l = r | OP_NE \<Rightarrow> l \<noteq> r | OP_GE \<Rightarrow> \<not> str_less l r | OP_LE \<Rightarrow> \<not> str_less r l | OP_GT \<Rightarrow> str_less r l
      | OP_LT \<Rightarrow> str_less l r)"

definition ValueComp :: "Value \<Rightarrow> Value \<Rightarrow> CompOp \<Rightarrow> rmdb_error + bool" where
  "ValueComp l r op =
     (if v_type l = TYPE_INT \<and> v_type r = TYPE_INT then Inr (comp_int (int_val l) (int_val r) op)
      else if v_type l = TYPE_FLOAT \<and> v_type r = TYPE_FLOAT then Inr (comp_float (float_val l) (float_val r) op)
      else if v_type l = TYPE_STRING \<and> v_type r = TYPE_STRING then Inr (comp_str (str_val l) (str_val r) op)
      else if v_type l = TYPE_FLOAT \<and> v_type r = TYPE_INT then Inr (comp_float (float_val l) (int_to_f32 (int_val r)) op)
      else if v_type l = TYPE_INT \<and> v_type r = TYPE_FLOAT then Inr (comp_float (int_to_f32 (int_val l)) (float_val r) op)
      else Inl (IncompatibleTypeError [] []))"

definition TypeCompatible :: "ColType \<Rightarrow> ColType \<Rightarrow> bool" where
  "TypeCompatible l r =
     (if l = r then True else if l = TYPE_INT \<and> r = TYPE_FLOAT then True
      else if l = TYPE_FLOAT \<and> r = TYPE_INT then True else False)"

section \<open>Conditions and clauses\<close>

record Condition =
  lhs_col :: TabCol
  c_op :: CompOp
  is_rhs_val :: bool
  rhs_col :: TabCol
  rhs_val :: Value

record HavingCond =
  h_lhs :: AggrCol
  h_op :: CompOp
  h_rhs_val :: Value

record SetClause =
  s_lhs :: TabCol
  s_rhs :: Value

record SubQueryClause =
  sq_lhs :: TabCol
  sq_op :: CompOp
  in_clause :: bool


section \<open>The order of floats\<close>

definition f32_mag :: "nat \<Rightarrow> nat" where
  "f32_mag n = (if n div 2 ^ 23 = 0 then n mod 2 ^ 23 else (2 ^ 23 + n mod 2 ^ 23) * 2 ^ (n div 2 ^ 23 - 1))"

lemma f32_mag_Suc: "f32_mag n < f32_mag (Suc n)"
proof (cases "Suc (n mod 2 ^ 23) = 2 ^ 23")
  case True
  then have "Suc n mod 2 ^ 23 = 0" by (simp add: mod_Suc)
  moreover have "Suc n div 2 ^ 23 = Suc (n div 2 ^ 23)" using True by (simp add: div_Suc mod_Suc)
  ultimately have s: "f32_mag (Suc n) = 2 ^ 23 * 2 ^ (n div 2 ^ 23)" by (simp add: f32_mag_def)
  have m: "n mod 2 ^ 23 < (2 ^ 23 :: nat)" by simp
  show ?thesis
  proof (cases "n div 2 ^ 23")
    case 0
    then show ?thesis using s m by (simp add: f32_mag_def)
  next
    case (Suc e)
    have "(2 ^ 23 + n mod 2 ^ 23) * 2 ^ e < (2 ^ 23 + 2 ^ 23) * (2 ^ e :: nat)" using m by (intro mult_strict_right_mono) auto
    then show ?thesis using s Suc by (simp add: f32_mag_def)
  qed
next
  case False
  then have "Suc n mod 2 ^ 23 = Suc (n mod 2 ^ 23)" "Suc n div 2 ^ 23 = n div 2 ^ 23" by (simp_all add: mod_Suc div_Suc)
  then show ?thesis by (simp add: f32_mag_def)
qed

lemma f32_mag_less: "f32_mag m < f32_mag n \<longleftrightarrow> m < n"
  using f32_mag_Suc by (intro strict_mono_less) (simp add: strict_mono_Suc_iff)

lemma f32_mag_eq: "f32_mag m = f32_mag n \<longleftrightarrow> m = n"
  using f32_mag_less [of m n] f32_mag_less [of n m] by (metis linorder_neq_iff)

lemma f32_mag_0 [simp]: "f32_mag 0 = 0"
  by (simp add: f32_mag_def)

lemma f32_units_mag: "f32_units w = (if f32_neg w then - int (f32_mag (f32_abs w)) else int (f32_mag (f32_abs w)))"
  by (simp add: f32_units_def f32_mag_def Let_def)

lemma f32_key_units: "f32_key a < f32_key b \<longleftrightarrow> f32_units a < f32_units b" "f32_key a = f32_key b \<longleftrightarrow> f32_units a = f32_units b"
proof -
  have pos: "f32_mag n = 0 \<longleftrightarrow> n = 0" for n using f32_mag_eq [of n 0] by simp
  have gt: "0 < f32_mag n \<longleftrightarrow> 0 < n" for n using f32_mag_less [of 0 n] by simp
  have le: "int (f32_mag m) < int (f32_mag n) \<longleftrightarrow> int m < int n" "int (f32_mag m) = int (f32_mag n) \<longleftrightarrow> int m = int n" for m n
    using f32_mag_less f32_mag_eq by simp_all
  have sg: "- int (f32_mag m) < int (f32_mag n) \<longleftrightarrow> - int m < int n" "- int (f32_mag m) = int (f32_mag n) \<longleftrightarrow> - int m = int n"
    "\<not> int (f32_mag m) < - int (f32_mag n)" "int (f32_mag m) = - int (f32_mag n) \<longleftrightarrow> int m = - int n" for m n
    using pos [of m] pos [of n] gt [of m] gt [of n] by (cases m; cases n; simp; linarith)+
  show "f32_key a < f32_key b \<longleftrightarrow> f32_units a < f32_units b"
    unfolding f32_key_def f32_units_mag using le(1) sg(1,3) by (auto split: if_split)
  show "f32_key a = f32_key b \<longleftrightarrow> f32_units a = f32_units b"
    unfolding f32_key_def f32_units_mag using le(2) sg(2,4) by (auto split: if_split)
qed

section \<open>Converting integers\<close>

lemma bitlen_bounds: "0 < n \<Longrightarrow> 2 ^ (bitlen n - 1) \<le> n \<and> n < 2 ^ bitlen n \<and> 0 < bitlen n"
proof (induction n rule: bitlen.induct)
  case (1 n)
  show ?case
  proof (cases "n = 1")
    case True
    then show ?thesis by (simp add: bitlen.simps [of "Suc 0"] bitlen.simps [of 0])
  next
    case False
    then have n: "1 < n" "0 < n div 2" using 1(2) by auto
    have IH: "2 ^ (bitlen (n div 2) - 1) \<le> n div 2 \<and> n div 2 < 2 ^ bitlen (n div 2) \<and> 0 < bitlen (n div 2)"
      using 1(1) n by simp
    obtain k where k: "bitlen (n div 2) = Suc k" using IH by (cases "bitlen (n div 2)") auto
    have b: "bitlen n = Suc (Suc k)" using n k by (simp add: bitlen.simps [of n])
    have lo: "2 ^ k \<le> n div 2" and hi: "n div 2 < 2 * 2 ^ k" using IH k by simp_all
    have "2 * 2 ^ k \<le> n" "n < 4 * 2 ^ k" using lo hi by linarith+
    then show ?thesis using b by simp
  qed
qed

definition f32_bits_of :: "nat \<Rightarrow> nat" where
  "f32_bits_of n =
     (if n = 0 then 0
      else (126 + bitlen n) * 2 ^ 23 +
        (if bitlen n \<le> 24 then n * 2 ^ (24 - bitlen n) else round_half_even n (2 ^ (bitlen n - 24))) - 2 ^ 23)"

lemma int_to_f32_bits: "int_to_f32 i = word_of_nat (if i < 0 then 2 ^ 31 + f32_bits_of (nat \<bar>i\<bar>) else f32_bits_of (nat \<bar>i\<bar>))"
  unfolding int_to_f32_def f32_bits_of_def Let_def by simp

lemma bitlen_le: "n < 2 ^ j \<Longrightarrow> bitlen n \<le> j"
proof (cases "n = 0")
  case False
  assume n: "n < 2 ^ j"
  have "2 ^ (bitlen n - 1) < (2 ^ j :: nat)" using False bitlen_bounds [of n] n by (meson bot_nat_0.not_eq_extremum order_le_less_trans)
  then have "bitlen n - 1 < j" by (simp only: power_strict_increasing_iff)
  then show ?thesis by simp
qed (simp add: bitlen.simps)

lemma f32_bits_small:
  assumes "n \<le> 2 ^ 31"
  shows "f32_bits_of n \<le> 255 * 2 ^ 23"
proof -
  have k: "bitlen n \<le> 32" by (rule bitlen_le) (use assms in simp)
  have "(if bitlen n \<le> 24 then n * 2 ^ (24 - bitlen n) else round_half_even n (2 ^ (bitlen n - 24))) \<le> 2 ^ 24" if n0: "0 < n"
  proof (cases "bitlen n \<le> 24")
    case True
    have "n * 2 ^ (24 - bitlen n) \<le> 2 ^ bitlen n * 2 ^ (24 - bitlen n)" using bitlen_bounds [OF n0] by simp
    then show ?thesis using True by (simp flip: power_add)
  next
    case False
    then have "(2 :: nat) ^ bitlen n = 2 ^ 24 * 2 ^ (bitlen n - 24)" by (metis le_add_diff_inverse nat_le_linear power_add)
    then have "n < 2 ^ 24 * 2 ^ (bitlen n - 24)" using bitlen_bounds [OF n0] by linarith
    then have "n div 2 ^ (bitlen n - 24) < 2 ^ 24" by (simp add: less_mult_imp_div_less)
    then show ?thesis using False by (simp add: round_half_even_def Let_def)
  qed
  then show ?thesis using k by (cases "n = 0") (auto simp: f32_bits_of_def)
qed

lemma int_to_f32_views:
  assumes "\<bar>i\<bar> \<le> 2 ^ 31"
  shows "f32_abs (int_to_f32 i) = f32_bits_of (nat \<bar>i\<bar>)" "f32_neg (int_to_f32 i) \<longleftrightarrow> i < 0" "\<not> f32_nan (int_to_f32 i)"
proof -
  have b: "f32_bits_of (nat \<bar>i\<bar>) \<le> 255 * 2 ^ 23" 
    using assms by (intro f32_bits_small) (simp add: nat_le_iff)
  then have u: "unat (int_to_f32 i) = (if i < 0 then 2 ^ 31 + f32_bits_of (nat \<bar>i\<bar>) else f32_bits_of (nat \<bar>i\<bar>))"
    unfolding int_to_f32_bits by (auto simp: unat_of_nat)
  show "f32_abs (int_to_f32 i) = f32_bits_of (nat \<bar>i\<bar>)" using u b by (auto simp: f32_abs_def)
  then show "\<not> f32_nan (int_to_f32 i)" using b by (simp add: f32_nan_def)
  show "f32_neg (int_to_f32 i) \<longleftrightarrow> i < 0" using u b by (auto simp: f32_neg_def)
qed

lemma f32_bits_exact:
  assumes "n < 2 ^ 24"
  shows "f32_mag (f32_bits_of n) = n * 2 ^ 149"
proof (cases "n = 0")
  case True
  then show ?thesis by (simp add: f32_bits_of_def)
next
  case False
  define k where "k = bitlen n"
  have k: "k \<le> 24" unfolding k_def using assms by (rule bitlen_le)
  have b: "2 ^ (k - 1) \<le> n" "n < 2 ^ k" "0 < k" using False bitlen_bounds [of n] by (simp_all add: k_def)
  have "2 ^ (k - 1) * 2 ^ (24 - k) \<le> n * 2 ^ (24 - k)" using b(1) by simp
  then have lo: "2 ^ 23 \<le> n * 2 ^ (24 - k)" using k b(3) by (simp flip: power_add)
  have "n * 2 ^ (24 - k) < 2 ^ k * 2 ^ (24 - k)" using b(2) by simp
  then have hi: "n * 2 ^ (24 - k) < 2 ^ 24" using k by (simp flip: power_add)
  define r where "r = n * 2 ^ (24 - k) - 2 ^ 23"
  have r: "r < 2 ^ 23" "n * 2 ^ (24 - k) = 2 ^ 23 + r" using lo hi by (auto simp: r_def)
  define p where "p = f32_bits_of n"
  have p: "p = (126 + k) * 2 ^ 23 + r" using False r(2) k by (simp add: p_def f32_bits_of_def k_def [symmetric])
  have d: "p div 2 ^ 23 = 126 + k" "p mod 2 ^ 23 = r" unfolding p using r(1) by (simp_all only: div_mult_self3 mod_mult_self3 div_less mod_less)
  have "f32_mag p = (n * 2 ^ (24 - k)) * 2 ^ (125 + k)" using d r(2) by (simp add: f32_mag_def)
  also have "\<dots> = n * 2 ^ 149" using k by (simp add: mult.assoc flip: power_add)
  finally show ?thesis by (simp add: p_def)
qed

lemma int_to_f32_exact: "\<bar>i\<bar> < 2 ^ 24 \<Longrightarrow> f32_units (int_to_f32 i) = i * 2 ^ 149"
proof -
  assume i: "\<bar>i\<bar> < 2 ^ 24"
  have "f32_mag (f32_bits_of (nat \<bar>i\<bar>)) = nat \<bar>i\<bar> * 2 ^ 149" by (rule f32_bits_exact) (use i in \<open>simp add: nat_less_iff\<close>)
  moreover have "f32_abs (int_to_f32 i) = f32_bits_of (nat \<bar>i\<bar>)" "f32_neg (int_to_f32 i) \<longleftrightarrow> i < 0"
    using int_to_f32_views [of i] i by simp_all
  ultimately show ?thesis unfolding f32_units_mag by (cases "i < 0") simp_all
qed

section \<open>The order of strings\<close>

lemma str_less_irrefl: "\<not> str_less x x"
  by (induction x) auto

lemma str_less_total: "x = y \<or> str_less x y \<or> str_less y x"
proof (induction x y rule: str_less.induct)
  case (1 x)
  then show ?case by (cases x) auto
qed auto

lemma str_less_antisym: "str_less x y \<Longrightarrow> \<not> str_less y x"
  by (induction x y rule: str_less.induct) auto

lemma str_less_trans: "str_less x y \<Longrightarrow> str_less y z \<Longrightarrow> str_less x z"
proof (induction x y arbitrary: z rule: str_less.induct)
  case (2 y ys)
  then show ?case by (cases z) auto
next
  case (3 x xs y ys)
  then show ?case by (cases z) auto
qed simp

section \<open>Properties\<close>

text \<open>Which values the comparison does not see as unordered.\<close>

definition ordered_value :: "Value \<Rightarrow> bool" where
  "ordered_value v \<longleftrightarrow> v_type v \<noteq> TYPE_DATETIME \<and> (v_type v = TYPE_FLOAT \<longrightarrow> \<not> f32_nan (float_val v))"

lemma comp_op_duals:
  "comp_int l r OP_GT = comp_int r l OP_LT" "comp_float a b OP_GT = comp_float b a OP_LT" "comp_str x y OP_GT = comp_str y x OP_LT"
  by (simp_all add: comp_int_def comp_float_def comp_str_def)

lemma int_val_range: "\<bar>int_val v\<bar> \<le> 2 ^ 31"
  using sint_range_size [of "v_num v"] by (simp add: int_val_def abs_le_iff word_size)

lemma comp_float_trichotomy:
  assumes "\<not> f32_nan a" and "\<not> f32_nan b"
  shows "(f32_lt a b \<or> f32_eq a b \<or> f32_lt b a) \<and> \<not> (f32_lt a b \<and> f32_eq a b) \<and> \<not> (f32_lt a b \<and> f32_lt b a) \<and>
    \<not> (f32_eq a b \<and> f32_lt b a)"
  using assms by (auto simp: f32_lt_def f32_eq_def)

text \<open>The answers to the six operators fit together.\<close>

definition total_answers :: "(CompOp \<Rightarrow> rmdb_error + bool) \<Rightarrow> bool" where
  "total_answers c \<longleftrightarrow>
     (\<exists>lt eq gt. c OP_LT = Inr lt \<and> c OP_EQ = Inr eq \<and> c OP_GT = Inr gt \<and>
       (lt \<or> eq \<or> gt) \<and> \<not> (lt \<and> eq) \<and> \<not> (lt \<and> gt) \<and> \<not> (eq \<and> gt) \<and>
       c OP_LE = Inr (lt \<or> eq) \<and> c OP_GE = Inr (gt \<or> eq) \<and> c OP_NE = Inr (\<not> eq))"

lemma total_answers_int: "total_answers (\<lambda>op. Inr (comp_int a b op))"
  by (auto simp: total_answers_def comp_int_def)

lemma total_answers_float: "\<not> f32_nan a \<Longrightarrow> \<not> f32_nan b \<Longrightarrow> total_answers (\<lambda>op. Inr (comp_float a b op))"
  using comp_float_trichotomy [of a b] by (simp add: total_answers_def comp_float_def)

lemma total_answers_str: "total_answers (\<lambda>op. Inr (comp_str a b op))"
  using str_less_irrefl [of a] str_less_antisym [of a b] str_less_total [of a b] by (auto simp: total_answers_def comp_str_def)

lemma int_to_f32_not_nan: "\<not> f32_nan (int_to_f32 (int_val v))"
  using int_to_f32_views(3) [OF int_val_range] .

text \<open>
  C40: the comparison of values is consistent. For two values of compatible types that are not
  datetimes and not NaN, \<open>ValueComp\<close> answers every operator, exactly one of \<open><\<close>, \<open>=\<close> and \<open>>\<close> holds, \<open><=\<close> and
  \<open>>=\<close> are \<open>< or =\<close> and \<open>> or =\<close>, and \<open><>\<close> is the negation of \<open>=\<close>; for values of incompatible
  types it throws.
\<close>

theorem value_comparison_consistent:
  assumes "ordered_value l" and "ordered_value r"
  shows "if TypeCompatible (v_type l) (v_type r)
     then \<exists>lt eq gt. ValueComp l r OP_LT = Inr lt \<and> ValueComp l r OP_EQ = Inr eq \<and> ValueComp l r OP_GT = Inr gt \<and>
       (lt \<or> eq \<or> gt) \<and> \<not> (lt \<and> eq) \<and> \<not> (lt \<and> gt) \<and> \<not> (eq \<and> gt) \<and>
       ValueComp l r OP_LE = Inr (lt \<or> eq) \<and> ValueComp l r OP_GE = Inr (gt \<or> eq) \<and> ValueComp l r OP_NE = Inr (\<not> eq)
     else \<forall>op. ValueComp l r op = Inl (IncompatibleTypeError [] [])"
proof (cases "TypeCompatible (v_type l) (v_type r)")
  case True
  have "total_answers (ValueComp l r)"
    unfolding ValueComp_def using assms True total_answers_int total_answers_float total_answers_str int_to_f32_not_nan
    by (cases "v_type l"; cases "v_type r") (simp_all add: ordered_value_def TypeCompatible_def)
  then show ?thesis using True unfolding total_answers_def by simp
next
  case False
  then show ?thesis by (cases "v_type l"; cases "v_type r") (simp_all add: ValueComp_def TypeCompatible_def)
qed

definition sample_int :: "int \<Rightarrow> Value" where
  "sample_int i = \<lparr>v_type = TYPE_INT, v_num = word_of_int i, str_val = [], v_raw = None\<rparr>"

definition sample_float :: "f32 \<Rightarrow> Value" where
  "sample_float f = \<lparr>v_type = TYPE_FLOAT, v_num = f, str_val = [], v_raw = None\<rparr>"

theorem value_comparison_consistent_witness:
  "\<exists>lt eq gt. ValueComp (sample_int 3) (sample_float 0x40400000) OP_LT = Inr lt \<and>
     ValueComp (sample_int 3) (sample_float 0x40400000) OP_EQ = Inr eq \<and>
     ValueComp (sample_int 3) (sample_float 0x40400000) OP_GT = Inr gt \<and> (lt \<or> eq \<or> gt)"
  using value_comparison_consistent [of "sample_int 3" "sample_float 0x40400000"]
  by (simp add: ordered_value_def sample_int_def sample_float_def TypeCompatible_def f32_nan_def f32_abs_def float_val_def) blast

text \<open>
  Comparing an integer with a float compares the numbers when the integer has at most 24 bits: the
  answer is that of the exact comparison of the integer with the number the float stands for (in units of
  \<open>2 ^ (- 149)\<close>).
\<close>

theorem mixed_comparison_exact:
  assumes "v_type l = TYPE_INT" and "v_type r = TYPE_FLOAT" and "\<bar>int_val l\<bar> < 2 ^ 24" and "\<not> f32_nan (float_val r)"
  shows "ValueComp l r op = Inr (comp_int (int_val l * 2 ^ 149) (f32_units (float_val r)) op)"
proof -
  let ?a = "int_to_f32 (int_val l)"
  have a: "f32_units ?a = int_val l * 2 ^ 149" using assms(3) by (rule int_to_f32_exact)
  have lt: "f32_lt x y \<longleftrightarrow> f32_units x < f32_units y" and eq: "f32_eq x y \<longleftrightarrow> f32_units x = f32_units y"
    if "\<not> f32_nan x" "\<not> f32_nan y" for x y using that f32_key_units by (simp_all add: f32_lt_def f32_eq_def)
  have "comp_float ?a (float_val r) op = comp_int (f32_units ?a) (f32_units (float_val r)) op"
    using lt [OF int_to_f32_not_nan assms(4), of l] lt [OF assms(4) int_to_f32_not_nan, of l] eq [OF int_to_f32_not_nan assms(4), of l]
    by (cases op) (auto simp: comp_float_def comp_int_def)
  then show ?thesis using assms(1,2) a by (simp add: ValueComp_def)
qed

theorem mixed_comparison_exact_witness:
  "ValueComp (sample_int 3) (sample_float 0x40400000) OP_EQ = Inr (comp_int (3 * 2 ^ 149) (f32_units 0x40400000) OP_EQ)"
  using mixed_comparison_exact [of "sample_int 3" "sample_float 0x40400000" OP_EQ]
  by (simp add: sample_int_def sample_float_def f32_nan_def f32_abs_def float_val_def int_val_def)

text \<open>
  With more bits the conversion rounds: the integer 16777217 compares equal to the float 16777216.0 and so
  does the integer 16777216, so equality of values is not transitive.
\<close>

theorem mixed_comparison_lossy:
  "ValueComp (sample_int 16777217) (sample_float 0x4B800000) OP_EQ = Inr True \<and>
   ValueComp (sample_int 16777216) (sample_float 0x4B800000) OP_EQ = Inr True \<and>
   ValueComp (sample_int 16777217) (sample_int 16777216) OP_EQ = Inr False"
proof -
  have "bitlen 16777217 = 25" "bitlen 16777216 = 25" by (simp_all add: bitlen.simps)
  then have "int_to_f32 16777217 = 0x4B800000" "int_to_f32 16777216 = 0x4B800000"
    by (simp_all add: int_to_f32_def Let_def round_half_even_def)
  then show ?thesis
    by (simp add: ValueComp_def sample_int_def sample_float_def comp_float_def comp_int_def int_val_def float_val_def f32_eq_def f32_nan_def
        f32_abs_def)
qed

lemma f32_limits: "f32_key FLT_MAX = 255 * 2 ^ 23 - 1" "\<not> f32_nan FLT_MAX" "f32_key FLT_MIN = 2 ^ 23" "\<not> f32_nan FLT_MIN"
  by (simp_all add: f32_key_def f32_nan_def f32_abs_def f32_neg_def FLT_MAX_def FLT_MIN_def)

lemma sint_of_int32: "int32 i \<Longrightarrow> sint (word_of_int i :: 32 word) = i"
  by (simp add: int32_def sint_sbintrunc' signed_take_bit_int_eq_self_iff)

lemma sint32_range: "sint (w :: 32 word) \<le> 2 ^ 31 - 1" "- (2 ^ 31) \<le> sint w"
  using sint_range_size [of w] by (simp_all add: word_size)

lemma generate_int:
  "generate_max junk TYPE_INT 4 (v\<lparr>v_raw := None\<rparr>) =
     (Inr (), v\<lparr>v_type := TYPE_INT, v_num := word_of_int (2 ^ 31 - 1), v_raw := Some (int_bytes (2 ^ 31 - 1))\<rparr>)"
  "generate_min junk TYPE_INT 4 (v\<lparr>v_raw := None\<rparr>) =
     (Inr (), v\<lparr>v_type := TYPE_INT, v_num := word_of_int (- (2 ^ 31)), v_raw := Some (int_bytes (- (2 ^ 31)))\<rparr>)"
  by (simp_all add: generate_max_def generate_min_def init_raw_def int_val_def)

lemma generate_float:
  "generate_max junk TYPE_FLOAT 4 (v\<lparr>v_raw := None\<rparr>) =
     (Inr (), v\<lparr>v_type := TYPE_FLOAT, v_num := FLT_MAX, v_raw := Some (int_bytes (sint FLT_MAX))\<rparr>)"
  "generate_min junk TYPE_FLOAT 4 (v\<lparr>v_raw := None\<rparr>) =
     (Inr (), v\<lparr>v_type := TYPE_FLOAT, v_num := FLT_MIN, v_raw := Some (int_bytes (sint FLT_MIN))\<rparr>)"
  by (simp_all add: generate_max_def generate_min_def init_raw_def float_val_def)

text \<open>
  The bounds an index search fills in. The generated bounds of an integer column enclose every integer, and the
  generated maximum of a float column is at least every finite float; but the generated minimum of a float
  column, the smallest positive normalised number, is above zero and every negative number.
\<close>

theorem generated_bounds:
  "(v_type x = TYPE_INT \<longrightarrow>
     (\<exists>v. generate_max junk TYPE_INT 4 (u\<lparr>v_raw := None\<rparr>) = (Inr (), v) \<and> ValueComp x v OP_LE = Inr True) \<and>
     (\<exists>v. generate_min junk TYPE_INT 4 (u\<lparr>v_raw := None\<rparr>) = (Inr (), v) \<and> ValueComp x v OP_GE = Inr True)) \<and>
   (v_type x = TYPE_FLOAT \<and> f32_abs (float_val x) < 255 * 2 ^ 23 \<longrightarrow>
     (\<exists>v. generate_max junk TYPE_FLOAT 4 (u\<lparr>v_raw := None\<rparr>) = (Inr (), v) \<and> ValueComp x v OP_LE = Inr True) \<and>
     (f32_neg (float_val x) \<or> f32_abs (float_val x) = 0 \<longrightarrow>
       (\<exists>v. generate_min junk TYPE_FLOAT 4 (u\<lparr>v_raw := None\<rparr>) = (Inr (), v) \<and> ValueComp x v OP_LT = Inr True)))"
proof (intro conjI impI)
  assume t: "v_type x = TYPE_INT"
  show "\<exists>v. generate_max junk TYPE_INT 4 (u\<lparr>v_raw := None\<rparr>) = (Inr (), v) \<and> ValueComp x v OP_LE = Inr True"
    unfolding generate_int using t sint32_range(1) [of "v_num x"] by (simp add: ValueComp_def comp_int_def int_val_def)
  show "\<exists>v. generate_min junk TYPE_INT 4 (u\<lparr>v_raw := None\<rparr>) = (Inr (), v) \<and> ValueComp x v OP_GE = Inr True"
    unfolding generate_int using t sint32_range(2) [of "v_num x"] by (simp add: ValueComp_def comp_int_def int_val_def)
next
  assume t: "v_type x = TYPE_FLOAT \<and> f32_abs (float_val x) < 255 * 2 ^ 23"
  then have k: "\<not> f32_nan (float_val x)" "f32_key (float_val x) \<le> 255 * 2 ^ 23 - 1" by (auto simp: f32_nan_def f32_key_def)
  show "\<exists>v. generate_max junk TYPE_FLOAT 4 (u\<lparr>v_raw := None\<rparr>) = (Inr (), v) \<and> ValueComp x v OP_LE = Inr True"
    unfolding generate_float using t k f32_limits(1,2)
    by (auto simp: ValueComp_def comp_float_def f32_lt_def f32_eq_def float_val_def)
  assume n: "f32_neg (float_val x) \<or> f32_abs (float_val x) = 0"
  then have "f32_key (float_val x) \<le> 0" by (auto simp: f32_key_def)
  then show "\<exists>v. generate_min junk TYPE_FLOAT 4 (u\<lparr>v_raw := None\<rparr>) = (Inr (), v) \<and> ValueComp x v OP_LT = Inr True"
    unfolding generate_float using t k f32_limits(3,4) by (auto simp: ValueComp_def comp_float_def f32_lt_def float_val_def)
qed

theorem generated_bounds_witness:
  "(\<exists>v. generate_max [] TYPE_INT 4 (sample_int 0) = (Inr (), v) \<and> ValueComp (sample_int 7) v OP_LE = Inr True) \<and>
   (\<exists>v. generate_min [] TYPE_FLOAT 4 (sample_int 0) = (Inr (), v) \<and> ValueComp (sample_float 0xC0400000) v OP_LT = Inr True)"
proof -
  have u: "sample_int 0 = (sample_int 0)\<lparr>v_raw := None\<rparr>" by (simp add: sample_int_def)
  have a: "v_type (sample_int 7) = TYPE_INT" "v_type (sample_float 0xC0400000) = TYPE_FLOAT"
    "f32_abs (float_val (sample_float 0xC0400000)) < 255 * 2 ^ 23" "f32_neg (float_val (sample_float 0xC0400000))"
    by (simp_all add: sample_int_def sample_float_def float_val_def f32_abs_def f32_neg_def)
  show ?thesis
    using generated_bounds [of "sample_int 7" "[]" "sample_int 0"] generated_bounds [of "sample_float 0xC0400000" "[]" "sample_int 0"]
      a u by metis
qed

end
