(* ===== verification/SmMeta.thy ===== *)
theory SmMeta
  imports Values "HOL-Library.Char_ord" "HOL-Library.List_Lexorder" "HOL-Library.Multiset"
begin

text \<open>
  The catalogue: columns, indexes, tables and the database of \<^verbatim>\<open>system/sm_meta.h\<close>, the choice of an index for the
  conditions of a query, and the text form in which the catalogue is written to and read from its file.
  A stream that is written is the text written so far; a reader takes the remaining text and gives the
  value and the rest, or None when the stream is left in a failed state (the extracted value is then
  unspecified). The ordered map of tables is a list of entries sorted by name; \<open>char list\<close> carries the
  lexicographic order of \<open>std::string\<close>.
\<close>

section \<open>Formatted streams\<close>

type_synonym 'a reader = "string \<Rightarrow> ('a \<times> string) option"

definition is_ws :: "char \<Rightarrow> bool" where
  "is_ws c \<longleftrightarrow> c \<in> set [CHR '' '', CHR 0x09, CHR 0x0A, CHR 0x0B, CHR 0x0C, CHR 0x0D]"

definition is_digit :: "char \<Rightarrow> bool" where
  "is_digit c \<longleftrightarrow> of_char c - 48 < (10 :: nat) \<and> 48 \<le> (of_char c :: nat)"

abbreviation nl :: string where
  "nl \<equiv> [CHR 0x0A]"

definition read_string :: "string reader" where
  "read_string s =
     (let t = dropWhile is_ws s; w = takeWhile (\<lambda>c. \<not> is_ws c) t
      in if w = [] then None else Some (w, dropWhile (\<lambda>c. \<not> is_ws c) t))"

definition digits_nat :: "string \<Rightarrow> nat" where
  "digits_nat ds = foldl (\<lambda>n c. 10 * n + (of_char c - 48)) 0 ds"

text \<open>The number at the front of the text: white space, a sign, digits.\<close>

definition read_number :: "int reader" where
  "read_number s =
     (let t = dropWhile is_ws s;
          neg = (t \<noteq> [] \<and> hd t = CHR ''-'');
          u = (if t \<noteq> [] \<and> (hd t = CHR ''-'' \<or> hd t = CHR ''+'') then tl t else t);
          ds = takeWhile is_digit u
      in if ds = [] then None
         else Some (if neg then - int (digits_nat ds) else int (digits_nat ds), dropWhile is_digit u))"

definition read_int :: "int reader" where
  "read_int s = (case read_number s of None \<Rightarrow> None | Some (i, r) \<Rightarrow> if int32 i then Some (i, r) else None)"

definition read_size :: "nat reader" where
  "read_size s =
     (case read_number s of None \<Rightarrow> None
      | Some (i, r) \<Rightarrow> if \<bar>i\<bar> < 2 ^ 64 then Some (nat (i mod 2 ^ 64), r) else None)"

definition read_bool :: "bool reader" where
  "read_bool s =
     (case read_number s of None \<Rightarrow> None
      | Some (i, r) \<Rightarrow> if i = 0 then Some (False, r) else if i = 1 then Some (True, r) else None)"

definition ColType_num :: "ColType \<Rightarrow> int" where
  "ColType_num t = (case t of TYPE_INT \<Rightarrow> 0 | TYPE_FLOAT \<Rightarrow> 1 | TYPE_STRING \<Rightarrow> 2 | TYPE_DATETIME \<Rightarrow> 3)"

definition show_ColType :: "ColType \<Rightarrow> string" where
  "show_ColType t = to_string (ColType_num t)"

text \<open>A number that is no enumerator counts as a failure.\<close>

definition read_ColType :: "ColType reader" where
  "read_ColType s =
     (case read_int s of None \<Rightarrow> None
      | Some (i, r) \<Rightarrow>
          if i = 0 then Some (TYPE_INT, r) else if i = 1 then Some (TYPE_FLOAT, r)
          else if i = 2 then Some (TYPE_STRING, r) else if i = 3 then Some (TYPE_DATETIME, r) else None)"

definition rd_bind :: "'a reader \<Rightarrow> ('a \<Rightarrow> 'b reader) \<Rightarrow> 'b reader" where
  "rd_bind m f s = (case m s of None \<Rightarrow> None | Some (a, r) \<Rightarrow> f a r)"

definition rd_return :: "'a \<Rightarrow> 'a reader" where
  "rd_return a s = Some (a, s)"

fun read_n :: "nat \<Rightarrow> 'a reader \<Rightarrow> 'a list reader" where
  "read_n 0 rd = rd_return []"
| "read_n (Suc n) rd = rd_bind rd (\<lambda>x. rd_bind (read_n n rd) (\<lambda>xs. rd_return (x # xs)))"

section \<open>Columns and indexes\<close>

record ColMeta =
  cm_tab_name :: string
  cm_name :: string
  cm_type :: ColType
  cm_len :: int
  cm_offset :: int
  cm_index :: bool

record IndexMeta =
  im_tab_name :: string
  col_tot_len :: int
  col_num :: int
  im_cols :: "ColMeta list"

record TabMeta =
  tm_name :: string
  tm_cols :: "ColMeta list"
  tm_indexes :: "IndexMeta list"

record DbMeta =
  db_name :: string
  db_tabs :: "(string \<times> TabMeta) list"

definition show_ColMeta :: "ColMeta \<Rightarrow> string" where
  "show_ColMeta col =
     cm_tab_name col @ '' '' @ cm_name col @ '' '' @ show_ColType (cm_type col) @ '' '' @ to_string (cm_len col) @ '' '' @
     to_string (cm_offset col) @ '' '' @ to_string (if cm_index col then 1 else 0)"

definition read_ColMeta :: "ColMeta reader" where
  "read_ColMeta =
     rd_bind read_string (\<lambda>t. rd_bind read_string (\<lambda>n. rd_bind read_ColType (\<lambda>ty. rd_bind read_int (\<lambda>l.
     rd_bind read_int (\<lambda>off. rd_bind read_bool (\<lambda>ix. rd_return
       \<lparr>cm_tab_name = t, cm_name = n, cm_type = ty, cm_len = l, cm_offset = off, cm_index = ix\<rparr>))))))"

definition ColMeta_eq :: "ColMeta \<Rightarrow> ColMeta \<Rightarrow> bool" where
  "ColMeta_eq l r \<longleftrightarrow>
     cm_tab_name l = cm_tab_name r \<and> cm_name l = cm_name r \<and> cm_type l = cm_type r \<and> cm_len l = cm_len r \<and>
     cm_offset l = cm_offset r \<and> cm_index l = cm_index r"

definition show_IndexMeta :: "IndexMeta \<Rightarrow> string" where
  "show_IndexMeta ix =
     im_tab_name ix @ '' '' @ to_string (col_tot_len ix) @ '' '' @ to_string (col_num ix) @
     concat (map (\<lambda>col. nl @ show_ColMeta col) (im_cols ix))"

definition read_IndexMeta :: "IndexMeta reader" where
  "read_IndexMeta =
     rd_bind read_string (\<lambda>t. rd_bind read_int (\<lambda>l. rd_bind read_int (\<lambda>n. rd_bind (read_n (nat n) read_ColMeta) (\<lambda>cs.
       rd_return \<lparr>im_tab_name = t, col_tot_len = l, col_num = n, im_cols = cs\<rparr>))))"

definition IndexMeta_eq :: "IndexMeta \<Rightarrow> IndexMeta \<Rightarrow> bool" where
  "IndexMeta_eq l r =
     (if im_tab_name l \<noteq> im_tab_name r then False
      else if col_tot_len l \<noteq> col_tot_len r then False
      else if col_num l \<noteq> col_num r then False
      else if length (im_cols l) \<noteq> length (im_cols r) then False
      else list_all2 ColMeta_eq (im_cols l) (im_cols r))"

definition lhs_name :: "Condition \<Rightarrow> string" where
  "lhs_name cond = tc_col (lhs_col cond)"

fun match_cols :: "ColMeta list \<Rightarrow> Condition list \<Rightarrow> Condition list" where
  "match_cols [] conditions = []"
| "match_cols (col # cols) conditions =
     (case filter (\<lambda>cond. lhs_name cond = cm_name col) conditions of
        [it] \<Rightarrow> it # (if c_op it \<noteq> OP_EQ then [] else match_cols cols conditions)
      | _ \<Rightarrow> [])"

definition MatchIndex :: "IndexMeta \<Rightarrow> Condition list \<Rightarrow> bool \<times> Condition list" where
  "MatchIndex ix conditions =
     (let new_conds = match_cols (im_cols ix) conditions
      in if length new_conds = length conditions then (True, new_conds) else (False, conditions))"

section \<open>Tables\<close>

definition is_col :: "TabMeta \<Rightarrow> string \<Rightarrow> bool" where
  "is_col tab col_name \<longleftrightarrow> find (\<lambda>col. cm_name col = col_name) (tm_cols tab) \<noteq> None"

fun names_match :: "ColMeta list \<Rightarrow> string list \<Rightarrow> bool" where
  "names_match cols [] = True"
| "names_match [] (n # ns) = False"
| "names_match (col # cols) (n # ns) = (cm_name col = n \<and> names_match cols ns)"

definition is_index :: "TabMeta \<Rightarrow> string list \<Rightarrow> bool" where
  "is_index tab col_names \<longleftrightarrow>
     (\<exists>ix\<in>set (tm_indexes tab). col_num ix = int (length col_names) \<and> names_match (im_cols ix) col_names)"

definition valid_set :: "(CompOp \<times> CompOp) list" where
  "valid_set = [(OP_LE, OP_GE), (OP_LE, OP_GT), (OP_LT, OP_GE), (OP_LT, OP_GT), (OP_GE, OP_LE), (OP_GE, OP_LT), (OP_GT, OP_LT), (OP_GT, OP_LE)]"

definition MatchIndexSingle :: "TabMeta \<Rightarrow> Condition list \<Rightarrow> string list \<Rightarrow> bool \<times> string list" where
  "MatchIndexSingle tab conditions index_col_names =
     (if length conditions = 1
      then let ns = index_col_names @ [lhs_name (conditions ! 0)] in (is_index tab ns, ns)
      else if length conditions = 2
      then if (c_op (conditions ! 0), c_op (conditions ! 1)) \<in> set valid_set
           then let ns = index_col_names @ [lhs_name (conditions ! 0)] in (is_index tab ns, ns)
           else (False, index_col_names)
      else (False, index_col_names))"

definition IX_MAX_COL_LEN :: int where
  "IX_MAX_COL_LEN = 512"

fun match_indexes :: "IndexMeta list \<Rightarrow> Condition list \<Rightarrow> int \<Rightarrow> IndexMeta option \<Rightarrow> int \<times> IndexMeta option \<times> Condition list" where
  "match_indexes [] conditions m meta = (m, meta, conditions)"
| "match_indexes (ix # ixs) conditions m meta =
     (if col_num ix < m
      then case MatchIndex ix conditions of
             (True, cs) \<Rightarrow> match_indexes ixs cs (col_num ix) (Some ix)
           | (False, cs) \<Rightarrow> match_indexes ixs cs m meta
      else match_indexes ixs conditions m meta)"

definition MatchIndexMultiple :: "TabMeta \<Rightarrow> Condition list \<Rightarrow> string list \<times> Condition list" where
  "MatchIndexMultiple tab conditions =
     (case match_indexes (tm_indexes tab) conditions (IX_MAX_COL_LEN + 1) None of
        (m, meta, cs) \<Rightarrow>
          (if m \<noteq> IX_MAX_COL_LEN + 1 then (case meta of None \<Rightarrow> [] | Some ix \<Rightarrow> map cm_name (im_cols ix)) else [], cs))"

definition get_index_meta :: "TabMeta \<Rightarrow> string list \<Rightarrow> rmdb_error + IndexMeta" where
  "get_index_meta tab col_names =
     (case find (\<lambda>ix. col_num ix = int (length col_names) \<and> names_match (im_cols ix) col_names) (tm_indexes tab) of
        None \<Rightarrow> Inl (IndexNotFoundError (tm_name tab) col_names)
      | Some ix \<Rightarrow> Inr ix)"

definition get_col :: "TabMeta \<Rightarrow> string \<Rightarrow> rmdb_error + ColMeta" where
  "get_col tab col_name =
     (case find (\<lambda>col. cm_name col = col_name) (tm_cols tab) of
        None \<Rightarrow> Inl (ColumnNotFoundError col_name)
      | Some col \<Rightarrow> Inr col)"

definition show_TabMeta :: "TabMeta \<Rightarrow> string" where
  "show_TabMeta tab =
     tm_name tab @ nl @ to_string (int (length (tm_cols tab))) @ nl @
     concat (map (\<lambda>col. show_ColMeta col @ nl) (tm_cols tab)) @
     to_string (int (length (tm_indexes tab))) @ nl @
     concat (map (\<lambda>ix. show_IndexMeta ix @ nl) (tm_indexes tab))"

definition read_TabMeta :: "TabMeta reader" where
  "read_TabMeta =
     rd_bind read_string (\<lambda>t. rd_bind read_size (\<lambda>n. rd_bind (read_n n read_ColMeta) (\<lambda>cs.
     rd_bind read_size (\<lambda>m. rd_bind (read_n m read_IndexMeta) (\<lambda>ixs.
       rd_return \<lparr>tm_name = t, tm_cols = cs, tm_indexes = ixs\<rparr>)))))"

section \<open>The database\<close>

fun map_put :: "'k :: linorder \<Rightarrow> 'v \<Rightarrow> ('k \<times> 'v) list \<Rightarrow> ('k \<times> 'v) list" where
  "map_put k v [] = [(k, v)]"
| "map_put k v ((j, u) # xs) =
     (if k < j then (k, v) # (j, u) # xs else if k = j then (k, v) # xs else (j, u) # map_put k v xs)"

definition is_table :: "DbMeta \<Rightarrow> string \<Rightarrow> bool" where
  "is_table db tab_name \<longleftrightarrow> map_of (db_tabs db) tab_name \<noteq> None"

definition SetTabMeta :: "DbMeta \<Rightarrow> string \<Rightarrow> TabMeta \<Rightarrow> DbMeta" where
  "SetTabMeta db tab_name meta = db\<lparr>db_tabs := map_put tab_name meta (db_tabs db)\<rparr>"

definition get_table :: "DbMeta \<Rightarrow> string \<Rightarrow> rmdb_error + TabMeta" where
  "get_table db tab_name =
     (case map_of (db_tabs db) tab_name of None \<Rightarrow> Inl (TableNotFoundError tab_name) | Some tab \<Rightarrow> Inr tab)"

definition get_all_indexes :: "DbMeta \<Rightarrow> IndexMeta list" where
  "get_all_indexes db = concat (map (\<lambda>(n, tab). tm_indexes tab) (db_tabs db))"

definition show_DbMeta :: "DbMeta \<Rightarrow> string" where
  "show_DbMeta db =
     db_name db @ nl @ to_string (int (length (db_tabs db))) @ nl @
     concat (map (\<lambda>(n, tab). show_TabMeta tab @ nl) (db_tabs db))"

fun read_tabs :: "nat \<Rightarrow> DbMeta \<Rightarrow> DbMeta reader" where
  "read_tabs 0 db = rd_return db"
| "read_tabs (Suc n) db = rd_bind read_TabMeta (\<lambda>tab. read_tabs n (SetTabMeta db (tm_name tab) tab))"

definition read_DbMeta :: "DbMeta \<Rightarrow> DbMeta reader" where
  "read_DbMeta db = rd_bind read_string (\<lambda>name. rd_bind read_size (\<lambda>n. read_tabs n (db\<lparr>db_name := name\<rparr>)))"

section \<open>Reading what was written\<close>

definition sep :: "string \<Rightarrow> bool" where
  "sep s \<longleftrightarrow> s = [] \<or> is_ws (hd s)"

definition blank :: "string \<Rightarrow> bool" where
  "blank w \<longleftrightarrow> (\<forall>c\<in>set w. is_ws c)"

definition word_text :: "string \<Rightarrow> bool" where
  "word_text w \<longleftrightarrow> w \<noteq> [] \<and> (\<forall>c\<in>set w. \<not> is_ws c)"

lemma is_ws_simps [simp]: "is_ws (CHR '' '')" "is_ws (CHR 0x0A)" "\<not> is_ws (CHR ''-'')"
  by (simp_all add: is_ws_def)

lemma sep_simps [simp]: "sep []" "sep (c # s) \<longleftrightarrow> is_ws c"
  by (simp_all add: sep_def)

lemma blank_simps [simp]: "blank []" "blank (c # s) \<longleftrightarrow> is_ws c \<and> blank s"
  by (auto simp: blank_def)

lemma sep_append: "blank w \<Longrightarrow> w \<noteq> [] \<Longrightarrow> sep (w @ s)"
  by (cases w) auto

lemma skip_blank: "blank w \<Longrightarrow> dropWhile is_ws (w @ s) = dropWhile is_ws s"
  by (simp add: blank_def dropWhile_append2)

lemma takeWhile_sep:
  "\<forall>c\<in>set w. P c \<Longrightarrow> s = [] \<or> \<not> P (hd s) \<Longrightarrow> takeWhile P (w @ s) = w \<and> dropWhile P (w @ s) = s"
  by (cases s) (auto simp: takeWhile_append2 dropWhile_append2)

lemma read_string_word:
  assumes "blank w" and "word_text t" and "sep s"
  shows "read_string (w @ t @ s) = Some (t, s)"
proof -
  have "dropWhile is_ws (w @ t @ s) = t @ s"
    using assms(2) skip_blank [OF assms(1)] by (cases t) (auto simp: word_text_def)
  moreover have "takeWhile (\<lambda>c. \<not> is_ws c) (t @ s) = t \<and> dropWhile (\<lambda>c. \<not> is_ws c) (t @ s) = s"
    by (rule takeWhile_sep) (use assms in \<open>auto simp: word_text_def sep_def\<close>)
  ultimately show ?thesis using assms(2) by (simp add: read_string_def word_text_def)
qed

lemma of_char_digit: "d < 10 \<Longrightarrow> of_char (char_of (48 + d) :: char) = (48 + d :: nat)"
  by (simp add: of_char_of)

lemma is_digit_char: "(d :: nat) < 10 \<Longrightarrow> is_digit (char_of (48 + d))"
  by (simp add: is_digit_def of_char_digit)

lemma nat_to_string_digits: "nat_to_string n \<noteq> [] \<and> (\<forall>c\<in>set (nat_to_string n). is_digit c) \<and> digits_nat (nat_to_string n) = n"
proof (induction n rule: nat_to_string.induct)
  case (1 n)
  show ?case
  proof (cases "n < 10")
    case True
    then show ?thesis using is_digit_char [of n] of_char_digit [of n]
      by (subst (1 2 3) nat_to_string.simps) (simp add: digits_nat_def)
  next
    case False
    then have IH: "nat_to_string (n div 10) \<noteq> []" "\<forall>c\<in>set (nat_to_string (n div 10)). is_digit c"
      "digits_nat (nat_to_string (n div 10)) = n div 10" using 1 by simp_all
    have e: "nat_to_string n = nat_to_string (n div 10) @ [char_of (48 + n mod 10)]"
      using False by (subst nat_to_string.simps) simp
    have d: "n mod 10 < 10" by simp
    show ?thesis unfolding e using IH is_digit_char [OF d] of_char_digit [OF d] by (auto simp: digits_nat_def)
  qed
qed

lemma is_digit_not: "is_digit c \<Longrightarrow> \<not> is_ws c" "is_digit c \<Longrightarrow> c \<noteq> CHR ''-''" "is_digit c \<Longrightarrow> c \<noteq> CHR ''+''"
  by (auto simp: is_digit_def is_ws_def)

lemma read_number_shown:
  assumes "blank w" and "sep s"
  shows "read_number (w @ to_string i @ s) = Some (i, s)"
proof -
  let ?d = "nat_to_string (nat \<bar>i\<bar>)"
  note d = nat_to_string_digits [of "nat \<bar>i\<bar>"]
  obtain c cs where c: "?d = c # cs" "is_digit c" using d by (cases ?d) auto
  have ts: "takeWhile is_digit (?d @ s) = ?d \<and> dropWhile is_digit (?d @ s) = s"
    by (rule takeWhile_sep) (use d assms(2) is_digit_not in \<open>auto simp: sep_def\<close>)
  show ?thesis
  proof (cases "i < 0")
    case True
    then have "dropWhile is_ws (w @ to_string i @ s) = CHR ''-'' # ?d @ s"
      using skip_blank [OF assms(1)] by (simp add: to_string_def)
    then show ?thesis using ts d True by (simp add: read_number_def Let_def)
  next
    case False
    then have "dropWhile is_ws (w @ to_string i @ s) = ?d @ s"
      using skip_blank [OF assms(1)] c is_digit_not [OF c(2)] by (simp add: to_string_def)
    then show ?thesis using ts d False c is_digit_not [OF c(2)] by (simp add: read_number_def Let_def)
  qed
qed

lemma read_int_shown: "blank w \<Longrightarrow> sep s \<Longrightarrow> int32 i \<Longrightarrow> read_int (w @ to_string i @ s) = Some (i, s)"
  by (simp add: read_int_def read_number_shown)

lemma read_size_shown: "blank w \<Longrightarrow> sep s \<Longrightarrow> n < 2 ^ 64 \<Longrightarrow> read_size (w @ to_string (int n) @ s) = Some (n, s)"
  by (simp add: read_size_def read_number_shown)

lemma read_bool_shown: "blank w \<Longrightarrow> sep s \<Longrightarrow> read_bool (w @ to_string (if b then 1 else 0) @ s) = Some (b, s)"
  by (simp add: read_bool_def read_number_shown)

lemma read_ColType_shown: "blank w \<Longrightarrow> sep s \<Longrightarrow> read_ColType (w @ show_ColType t @ s) = Some (t, s)"
  by (cases t) (simp_all add: read_ColType_def show_ColType_def ColType_num_def read_int_shown int32_def)

lemma rd_bind_Some: "m s = Some (a, r) \<Longrightarrow> rd_bind m f s = f a r"
  by (simp add: rd_bind_def)

lemma read_n_shown:
  assumes "\<And>x v s. x \<in> set xs \<Longrightarrow> blank v \<Longrightarrow> sep s \<Longrightarrow> rd (v @ sh x @ s) = Some (x, s)"
    and "blank w" and "w \<noteq> []" and "blank v"
  shows "read_n (length xs) rd (v @ concat (map (\<lambda>x. sh x @ w) xs) @ s) = Some (xs, (if xs = [] then v else w) @ s)"
  using assms(1,4)
proof (induction xs arbitrary: v)
  case Nil
  then show ?case by (simp add: rd_return_def)
next
  case (Cons x xs)
  have "rd (v @ sh x @ w @ concat (map (\<lambda>x. sh x @ w) xs) @ s) = Some (x, w @ concat (map (\<lambda>x. sh x @ w) xs) @ s)"
    using Cons.prems assms(2,3) by (simp add: sep_append)
  moreover have "read_n (length xs) rd (w @ concat (map (\<lambda>x. sh x @ w) xs) @ s) = Some (xs, (if xs = [] then w else w) @ s)"
    using Cons.prems(1) assms(2) by (intro Cons.IH) auto
  ultimately show ?case by (simp add: rd_bind_def rd_return_def)
qed

definition col_wf :: "ColMeta \<Rightarrow> bool" where
  "col_wf c \<longleftrightarrow> word_text (cm_tab_name c) \<and> word_text (cm_name c) \<and> int32 (cm_len c) \<and> int32 (cm_offset c)"

definition index_wf :: "IndexMeta \<Rightarrow> bool" where
  "index_wf ix \<longleftrightarrow>
     word_text (im_tab_name ix) \<and> int32 (col_tot_len ix) \<and> int32 (col_num ix) \<and> col_num ix = int (length (im_cols ix)) \<and>
     list_all col_wf (im_cols ix)"

definition tab_wf :: "TabMeta \<Rightarrow> bool" where
  "tab_wf t \<longleftrightarrow>
     word_text (tm_name t) \<and> length (tm_cols t) < 2 ^ 64 \<and> length (tm_indexes t) < 2 ^ 64 \<and>
     list_all col_wf (tm_cols t) \<and> list_all index_wf (tm_indexes t)"

definition db_wf :: "DbMeta \<Rightarrow> bool" where
  "db_wf db \<longleftrightarrow>
     word_text (db_name db) \<and> length (db_tabs db) < 2 ^ 64 \<and> sorted_wrt (<) (map fst (db_tabs db)) \<and>
     list_all (\<lambda>(n, t). tm_name t = n \<and> tab_wf t) (db_tabs db)"

lemma read_ColMeta_shown:
  assumes "blank w" and "sep s" and "col_wf c"
  shows "read_ColMeta (w @ show_ColMeta c @ s) = Some (c, s)"
  using assms
  by (simp add: read_ColMeta_def show_ColMeta_def col_wf_def rd_bind_def rd_return_def read_string_word
      read_string_word [of "'' ''", simplified] read_ColType_shown [of "'' ''", simplified]
      read_int_shown [of "'' ''", simplified] read_bool_shown [of "'' ''", simplified])

lemma read_n_prefixed:
  assumes "\<And>x s. x \<in> set xs \<Longrightarrow> sep s \<Longrightarrow> rd (nl @ sh x @ s) = Some (x, s)" and "sep s"
  shows "read_n (length xs) rd (concat (map (\<lambda>x. nl @ sh x) xs) @ s) = Some (xs, s)"
  using assms(1)
proof (induction xs)
  case Nil
  then show ?case by (simp add: rd_return_def)
next
  case (Cons x xs)
  have "sep (concat (map (\<lambda>x. nl @ sh x) xs) @ s)" using assms(2) by (cases xs) auto
  then have "rd (nl @ sh x @ concat (map (\<lambda>x. nl @ sh x) xs) @ s) = Some (x, concat (map (\<lambda>x. nl @ sh x) xs) @ s)"
    using Cons.prems by simp
  then show ?case using Cons by (simp add: rd_bind_def rd_return_def)
qed

lemma read_IndexMeta_shown:
  assumes "blank w" and "sep s" and "index_wf ix"
  shows "read_IndexMeta (w @ show_IndexMeta ix @ s) = Some (ix, s)"
proof -
  let ?cs = "concat (map (\<lambda>c. nl @ show_ColMeta c) (im_cols ix)) @ s"
  have cs: "read_n (length (im_cols ix)) read_ColMeta ?cs = Some (im_cols ix, s)"
    by (rule read_n_prefixed)
      (use assms(2,3) in \<open>auto simp: index_wf_def list_all_iff read_ColMeta_shown [of nl, simplified]\<close>)
  have "sep ?cs" using assms(2) by (cases "im_cols ix") auto
  moreover have "int32 (int (length (im_cols ix)))" using assms(3) by (metis index_wf_def)
  ultimately show ?thesis
    using assms cs
    by (simp add: read_IndexMeta_def show_IndexMeta_def index_wf_def rd_bind_def rd_return_def read_string_word
        read_int_shown [of "'' ''", simplified])
qed

lemma read_TabMeta_shown:
  assumes "blank w" and "tab_wf t"
  shows "read_TabMeta (w @ show_TabMeta t @ s) = Some (t, nl @ s)"
proof -
  let ?is = "concat (map (\<lambda>ix. show_IndexMeta ix @ nl) (tm_indexes t)) @ s"
  let ?r = "to_string (int (length (tm_indexes t))) @ nl @ ?is"
  have cs: "read_n (length (tm_cols t)) read_ColMeta (nl @ concat (map (\<lambda>c. show_ColMeta c @ nl) (tm_cols t)) @ ?r) =
      Some (tm_cols t, (if tm_cols t = [] then nl else nl) @ ?r)"
    by (rule read_n_shown) (use assms in \<open>auto simp: tab_wf_def list_all_iff read_ColMeta_shown\<close>)
  have ix: "read_n (length (tm_indexes t)) read_IndexMeta (nl @ ?is) =
      Some (tm_indexes t, (if tm_indexes t = [] then nl else nl) @ s)"
    by (rule read_n_shown) (use assms in \<open>auto simp: tab_wf_def list_all_iff read_IndexMeta_shown\<close>)
  show ?thesis
    using assms cs ix
    by (simp add: read_TabMeta_def show_TabMeta_def tab_wf_def rd_bind_def rd_return_def read_string_word
        read_size_shown [of nl, simplified])
qed

lemma map_of_map_put: "map_of (map_put k v xs) = (map_of xs)(k \<mapsto> v)" if "sorted_wrt (<) (map fst xs)"
  using that by (induction k v xs rule: map_put.induct) (auto simp: fun_eq_iff map_of_eq_None_iff)

lemma set_map_put: "set (map_put k v xs) \<subseteq> insert (k, v) (set xs)"
  by (induction k v xs rule: map_put.induct) auto

lemma length_map_put: "length (map_put k v xs) \<le> Suc (length xs)"
  by (induction k v xs rule: map_put.induct) auto

lemma sorted_map_put:
  assumes "sorted_wrt (<) (map fst xs)"
  shows "sorted_wrt (<) (map fst (map_put k v xs))"
  using assms
proof (induction k v xs rule: map_put.induct)
  case (2 k v j u xs)
  then show ?case using set_map_put [of k v xs] by (auto simp: not_less order_less_le)
qed simp

lemma map_put_last: "\<forall>(j, u)\<in>set xs. j < k \<Longrightarrow> map_put k v xs = xs @ [(k, v)]"
  by (induction xs) auto

lemma read_tabs_shown:
  assumes "list_all (\<lambda>(n, t). tm_name t = n \<and> tab_wf t) ts" and "sorted_wrt (<) (map fst (db_tabs db @ ts))" and "blank w"
  shows "read_tabs (length ts) db (w @ concat (map (\<lambda>(n, t). show_TabMeta t @ nl) ts) @ s) =
    Some (db\<lparr>db_tabs := db_tabs db @ ts\<rparr>, (if ts = [] then w else nl @ nl) @ s)"
  using assms
proof (induction ts arbitrary: db w)
  case Nil
  then show ?case by (simp add: rd_return_def)
next
  case (Cons e ts)
  obtain n t where e: "e = (n, t)" by (cases e)
  have t: "tm_name t = n" "tab_wf t" using Cons.prems(1) e by simp_all
  let ?db = "SetTabMeta db n t"
  have db: "db_tabs ?db = db_tabs db @ [(n, t)]"
    using Cons.prems(2) e by (simp add: SetTabMeta_def) (rule map_put_last, auto simp: sorted_wrt_append)
  then have "?db = db\<lparr>db_tabs := db_tabs db @ [(n, t)]\<rparr>" by (simp add: SetTabMeta_def)
  moreover have "read_tabs (length ts) ?db ((nl @ nl) @ concat (map (\<lambda>(n, t). show_TabMeta t @ nl) ts) @ s) =
      Some (?db\<lparr>db_tabs := db_tabs ?db @ ts\<rparr>, (if ts = [] then nl @ nl else nl @ nl) @ s)"
    using Cons.prems e db by (intro Cons.IH) auto
  ultimately show ?case
    using read_TabMeta_shown [OF Cons.prems(3) t(2), of "nl @ concat (map (\<lambda>(n, t). show_TabMeta t @ nl) ts) @ s"] t e
    by (simp add: rd_bind_def)
qed

lemma read_shown_db:
  assumes "db_wf db"
  obtains rest where "read_DbMeta \<lparr>db_name = [], db_tabs = []\<rparr> (show_DbMeta db) = Some (db, rest)"
proof -
  let ?ts = "concat (map (\<lambda>(n, t). show_TabMeta t @ nl) (db_tabs db))"
  let ?e = "\<lparr>db_name = db_name db, db_tabs = []\<rparr>"
  have "read_tabs (length (db_tabs db)) ?e (nl @ ?ts @ []) =
      Some (?e\<lparr>db_tabs := db_tabs ?e @ db_tabs db\<rparr>, (if db_tabs db = [] then nl else nl @ nl) @ [])"
    by (rule read_tabs_shown) (use assms in \<open>simp_all add: db_wf_def\<close>)
  then show thesis
    using assms that read_string_word [of "[]" "db_name db"]
    by (simp add: read_DbMeta_def show_DbMeta_def db_wf_def rd_bind_def read_size_shown [of nl, simplified])
qed

text \<open>
  C26: the catalogue survives its file. For a database whose names are words and whose entries are keyed by the
  name of their table, reading the written text into an empty catalogue gives the catalogue back.
\<close>

theorem catalogue_roundtrip:
  assumes "db_wf db"
  shows "\<exists>rest. read_DbMeta \<lparr>db_name = [], db_tabs = []\<rparr> (show_DbMeta db) = Some (db, rest)"
  by (rule read_shown_db [OF assms]) blast

definition sample_col :: "string \<Rightarrow> int \<Rightarrow> ColMeta" where
  "sample_col n off = \<lparr>cm_tab_name = ''t'', cm_name = n, cm_type = TYPE_INT, cm_len = 4, cm_offset = off, cm_index = False\<rparr>"

definition sample_index :: IndexMeta where
  "sample_index = \<lparr>im_tab_name = ''t'', col_tot_len = 4, col_num = 1, im_cols = [sample_col ''b'' 4]\<rparr>"

definition sample_tab :: TabMeta where
  "sample_tab = \<lparr>tm_name = ''t'', tm_cols = [sample_col ''a'' 0, sample_col ''b'' 4], tm_indexes = [sample_index]\<rparr>"

definition sample_db :: DbMeta where
  "sample_db = \<lparr>db_name = ''d'', db_tabs = [(''t'', sample_tab)]\<rparr>"

theorem catalogue_roundtrip_witness:
  "\<exists>rest. read_DbMeta \<lparr>db_name = [], db_tabs = []\<rparr> (show_DbMeta sample_db) = Some (sample_db, rest)"
proof (rule catalogue_roundtrip)
  show "db_wf sample_db"
    by (simp add: db_wf_def tab_wf_def index_wf_def col_wf_def word_text_def is_ws_def int32_def sample_db_def sample_tab_def
        sample_index_def sample_col_def)
qed

section \<open>Choosing an index\<close>

lemma case_single_mset:
  assumes "mset xs = mset ys"
  shows "(case xs of [it] \<Rightarrow> f it | _ \<Rightarrow> z) = (case ys of [it] \<Rightarrow> f it | _ \<Rightarrow> z)"
proof -
  have "xs = ys \<or> length xs \<noteq> 1" "length xs = length ys" using assms
    by (auto simp: length_Suc_conv dest: mset_eq_length)
  then show ?thesis by (auto split: list.splits)
qed

lemma match_cols_perm:
  assumes "mset cs = mset ds"
  shows "match_cols cols cs = match_cols cols ds"
proof (induction cols)
  case (Cons col cols)
  have "mset (filter (\<lambda>c. lhs_name c = cm_name col) cs) = mset (filter (\<lambda>c. lhs_name c = cm_name col) ds)"
    using assms by simp
  from case_single_mset [OF this] show ?case unfolding match_cols.simps Cons .
qed simp

lemma match_cols_shape:
  "set (match_cols cols cs) \<subseteq> set cs \<and>
   map lhs_name (match_cols cols cs) = take (length (match_cols cols cs)) (map cm_name cols) \<and>
   (\<forall>c\<in>set (butlast (match_cols cols cs)). c_op c = OP_EQ)"
proof (induction cols)
  case (Cons col cols)
  show ?case
  proof (cases "\<exists>it. filter (\<lambda>c. lhs_name c = cm_name col) cs = [it]")
    case True
    then obtain it where it: "filter (\<lambda>c. lhs_name c = cm_name col) cs = [it]" ..
    then have "it \<in> set (filter (\<lambda>c. lhs_name c = cm_name col) cs)" by simp
    then have "it \<in> set cs" "lhs_name it = cm_name col" by simp_all
    then show ?thesis using it Cons by auto
  next
    case False
    then have "match_cols (col # cols) cs = []" by (auto split: list.splits)
    then show ?thesis by simp
  qed
qed simp

lemma match_cols_subset:
  assumes "distinct (map cm_name cols)"
  shows "mset (match_cols cols cs) \<subseteq># mset cs"
proof -
  have "distinct (map lhs_name (match_cols cols cs))" using match_cols_shape [of cols cs] assms by (metis distinct_take)
  then have "distinct (match_cols cols cs)" by (simp add: distinct_map)
  then have "count (mset (match_cols cols cs)) c \<le> count (mset cs) c" for c
    using match_cols_shape [of cols cs] by (auto simp: distinct_count_atmost_1 count_list_0_iff Suc_le_eq)
  then show ?thesis by (simp add: subseteq_mset_def)
qed

lemma MatchIndex_perm:
  assumes "distinct (map cm_name (im_cols ix))" and "mset cs = mset ds"
  shows "mset (snd (MatchIndex ix cs)) = mset cs" "fst (MatchIndex ix cs) = fst (MatchIndex ix ds)"
    "snd (MatchIndex ix cs) = (if fst (MatchIndex ix ds) then match_cols (im_cols ix) ds else cs)"
proof -
  have "mset xs = mset cs" if "mset xs \<subseteq># mset cs" "length xs = length cs" for xs
    using that by (metis mset_subset_size nat_less_le size_mset subset_mset.le_imp_less_or_eq)
  then show "mset (snd (MatchIndex ix cs)) = mset cs"
    using match_cols_subset [OF assms(1), of cs] by (simp add: MatchIndex_def Let_def)
  show "fst (MatchIndex ix cs) = fst (MatchIndex ix ds)"
    "snd (MatchIndex ix cs) = (if fst (MatchIndex ix ds) then match_cols (im_cols ix) ds else cs)"
    using match_cols_perm [OF assms(2)] mset_eq_length [OF assms(2)] by (simp_all add: MatchIndex_def Let_def)
qed

definition best_index :: "IndexMeta list \<Rightarrow> Condition list \<Rightarrow> IndexMeta \<Rightarrow> bool" where
  "best_index ixs cs ix \<longleftrightarrow>
     ix \<in> set ixs \<and> fst (MatchIndex ix cs) \<and> (\<forall>jx\<in>set ixs. fst (MatchIndex jx cs) \<longrightarrow> col_num ix \<le> col_num jx)"

lemma match_indexes_best:
  assumes "\<forall>ix\<in>set ixs. distinct (map cm_name (im_cols ix))" and "mset ds = mset cs"
    and "match_indexes ixs ds m meta = (k, best, es)"
  shows "mset es = mset cs \<and>
    (k = m \<and> best = meta \<and> es = ds \<and> (\<forall>ix\<in>set ixs. fst (MatchIndex ix cs) \<longrightarrow> m \<le> col_num ix) \<or>
     (\<exists>ix. best = Some ix \<and> k = col_num ix \<and> k < m \<and> best_index ixs cs ix \<and> es = match_cols (im_cols ix) cs))"
  using assms
proof (induction ixs arbitrary: ds m meta)
  case (Cons ix ixs)
  note p = MatchIndex_perm [of ix ds cs]
  have d: "distinct (map cm_name (im_cols ix))" "\<forall>ix\<in>set ixs. distinct (map cm_name (im_cols ix))" using Cons.prems(1) by simp_all
  show ?case
  proof (cases "col_num ix < m \<and> fst (MatchIndex ix cs)")
    case True
    have r: "match_indexes ixs (match_cols (im_cols ix) cs) (col_num ix) (Some ix) = (k, best, es)"
      using Cons.prems(3) True p [OF d(1) Cons.prems(2)] by (cases "MatchIndex ix ds") auto
    have "mset (match_cols (im_cols ix) cs) = mset cs"
      using MatchIndex_perm(1,3) [OF d(1) refl, of cs] True by simp
    from Cons.IH [OF d(2) this r] show ?thesis using True by (auto simp: best_index_def)
  next
    case False
    have "match_indexes ixs ds m meta = (k, best, es)"
      using Cons.prems(3) False p [OF d(1) Cons.prems(2)] by (cases "MatchIndex ix ds") (auto split: if_splits)
    from Cons.IH [OF d(2) Cons.prems(2) this] show ?thesis using False by (auto simp: best_index_def)
  qed
qed simp

text \<open>
  The index chosen for a conjunction of conditions. When the columns of every index are distinct and an index has
  at most \<open>IX_MAX_COL_LEN\<close> columns, \<open>MatchIndexMultiple\<close> reorders the conditions without losing or
  adding one; when some index matches it names the columns of a matching index with the fewest columns, the conditions
  stand in the order of its first columns and all but the last are equalities; when none matches it names no
  column.
\<close>

theorem index_choice_sound:
  assumes "\<forall>ix\<in>set (tm_indexes tab). distinct (map cm_name (im_cols ix)) \<and> col_num ix \<le> IX_MAX_COL_LEN"
  shows "mset (snd (MatchIndexMultiple tab conds)) = mset conds \<and>
    (if \<exists>ix\<in>set (tm_indexes tab). fst (MatchIndex ix conds)
     then \<exists>ix. best_index (tm_indexes tab) conds ix \<and> fst (MatchIndexMultiple tab conds) = map cm_name (im_cols ix) \<and>
       map lhs_name (snd (MatchIndexMultiple tab conds)) = take (length conds) (map cm_name (im_cols ix)) \<and>
       (\<forall>c\<in>set (butlast (snd (MatchIndexMultiple tab conds))). c_op c = OP_EQ)
     else fst (MatchIndexMultiple tab conds) = [])"
proof -
  obtain k best es where r: "match_indexes (tm_indexes tab) conds (IX_MAX_COL_LEN + 1) None = (k, best, es)" by (metis prod_cases3)
  have m: "MatchIndexMultiple tab conds =
      (if k \<noteq> IX_MAX_COL_LEN + 1 then (case best of None \<Rightarrow> [] | Some ix \<Rightarrow> map cm_name (im_cols ix)) else [], es)"
    by (simp add: MatchIndexMultiple_def r)
  have d: "\<forall>ix\<in>set (tm_indexes tab). distinct (map cm_name (im_cols ix))" using assms by auto
  from match_indexes_best [OF d refl r]
  have es: "mset es = mset conds" and c: "k = IX_MAX_COL_LEN + 1 \<and> (\<forall>ix\<in>set (tm_indexes tab). fst (MatchIndex ix conds) \<longrightarrow> IX_MAX_COL_LEN + 1 \<le> col_num ix) \<or>
      (\<exists>ix. best = Some ix \<and> k = col_num ix \<and> k < IX_MAX_COL_LEN + 1 \<and> best_index (tm_indexes tab) conds ix \<and> es = match_cols (im_cols ix) conds)"
    by blast+
  from c show ?thesis
  proof
    assume n: "k = IX_MAX_COL_LEN + 1 \<and> (\<forall>ix\<in>set (tm_indexes tab). fst (MatchIndex ix conds) \<longrightarrow> IX_MAX_COL_LEN + 1 \<le> col_num ix)"
    then have "\<not> (\<exists>ix\<in>set (tm_indexes tab). fst (MatchIndex ix conds))" using assms by fastforce
    then show ?thesis using n m es by simp
  next
    assume "\<exists>ix. best = Some ix \<and> k = col_num ix \<and> k < IX_MAX_COL_LEN + 1 \<and> best_index (tm_indexes tab) conds ix \<and> es = match_cols (im_cols ix) conds"
    then obtain ix where ix: "best = Some ix" "k < IX_MAX_COL_LEN + 1" "best_index (tm_indexes tab) conds ix" "es = match_cols (im_cols ix) conds" by blast
    have "\<exists>ix\<in>set (tm_indexes tab). fst (MatchIndex ix conds)" using ix(3) by (auto simp: best_index_def)
    moreover have "length es = length conds" using es by (rule mset_eq_length)
    ultimately show ?thesis using ix m es match_cols_shape [of "im_cols ix" conds] by auto
  qed
qed

definition sample_cond :: "string \<Rightarrow> CompOp \<Rightarrow> int \<Rightarrow> Condition" where
  "sample_cond n op i = \<lparr>lhs_col = TabCol ''t'' n, c_op = op, is_rhs_val = True, rhs_col = TabCol [] [], rhs_val = sample_int i\<rparr>"

theorem index_choice_sound_witness:
  "fst (MatchIndexMultiple sample_tab [sample_cond ''b'' OP_LT 3]) = [''b''] \<and>
   map lhs_name (snd (MatchIndexMultiple sample_tab [sample_cond ''b'' OP_LT 3])) = [''b'']"
proof -
  have "\<exists>ix\<in>set (tm_indexes sample_tab). fst (MatchIndex ix [sample_cond ''b'' OP_LT 3])"
    by (simp add: sample_tab_def sample_index_def sample_col_def MatchIndex_def sample_cond_def lhs_name_def)
  then show ?thesis
    using index_choice_sound [of sample_tab "[sample_cond ''b'' OP_LT 3]"]
    by (auto simp: sample_tab_def sample_index_def sample_col_def best_index_def IX_MAX_COL_LEN_def)
qed

text \<open>
  The choice for two range conditions looks at one column only: with an index on \<open>a\<close> alone, \<open>a <= 3\<close> and \<open>b >= 5\<close>
  are answered by that index although the second condition is not on its column.
\<close>

theorem single_index_ignores_second_column:
  "MatchIndexSingle (sample_tab\<lparr>tm_indexes := [sample_index\<lparr>im_cols := [sample_col ''a'' 0]\<rparr>]\<rparr>)
     [sample_cond ''a'' OP_LE 3, sample_cond ''b'' OP_GE 5] [] = (True, [''a''])"
  by (simp add: MatchIndexSingle_def valid_set_def is_index_def sample_tab_def sample_index_def sample_col_def sample_cond_def
      lhs_name_def)

end
