(* ===== verification/IxCompare.thy ===== *)
theory IxCompare
  imports SmMeta
begin

text \<open>
  The order of index keys: the \<open>ix_compare\<close> functions at the head of \<^verbatim>\<open>index/ix_index_handle.h\<close>. A key is the
  concatenation of the bytes of its columns; \<open>a + offset\<close> is the key without its first \<open>offset\<close> bytes. Of
  \<open>memcmp\<close> only the sign is specified, and that is what is modelled. On keys whose float columns are not NaN
  the comparison is a total preorder.
\<close>

section \<open>Comparison functions\<close>

fun memcmp :: "bytes \<Rightarrow> bytes \<Rightarrow> nat \<Rightarrow> int" where
  "memcmp (x # xs) (y # ys) (Suc n) = (if x < y then -1 else if y < x then 1 else memcmp xs ys n)"
| "memcmp _ _ _ = 0"

definition ix_compare_col :: "bytes \<Rightarrow> bytes \<Rightarrow> ColType \<Rightarrow> nat \<Rightarrow> rmdb_error + int" where
  "ix_compare_col a b type col_len =
     (case type of
        TYPE_INT \<Rightarrow> let ia = load_int a 0; ib = load_int b 0 in Inr (if ia < ib then -1 else if ia > ib then 1 else 0)
      | TYPE_FLOAT \<Rightarrow> let fa = word_of_int (load_int a 0); fb = word_of_int (load_int b 0)
                      in Inr (if f32_lt fa fb then -1 else if f32_lt fb fa then 1 else 0)
      | TYPE_STRING \<Rightarrow> Inr (memcmp a b col_len)
      | TYPE_DATETIME \<Rightarrow> Inl (InternalError ''Unexpected data type''))"

text \<open>\<open>strlen\<close> of a byte string whose end is followed by a zero byte.\<close>

definition c_str :: "bytes \<Rightarrow> bytes" where
  "c_str s = takeWhile (\<lambda>c. c \<noteq> 0) s"

text \<open>
  The cases of the switch fall through: the integer, the float (the same bytes, in the same place) and the
  string are all set, as far as the type comes first.
\<close>

definition key_value :: "bytes \<Rightarrow> ColType \<Rightarrow> nat \<Rightarrow> Value" where
  "key_value a type col_len =
     \<lparr>v_type = type,
      v_num = (if type = TYPE_INT \<or> type = TYPE_FLOAT then word_of_int (load_int a 0) else 0),
      str_val = (if type = TYPE_DATETIME then [] else c_str (take col_len a)),
      v_raw = None\<rparr>"

definition ix_compare_value :: "bytes \<Rightarrow> Value \<Rightarrow> ColType \<Rightarrow> nat \<Rightarrow> rmdb_error + int" where
  "ix_compare_value a b_val type col_len =
     (case ValueComp (key_value a type col_len) b_val OP_LT of
        Inl e \<Rightarrow> Inl e
      | Inr True \<Rightarrow> Inr (-1)
      | Inr False \<Rightarrow>
          (case ValueComp (key_value a type col_len) b_val OP_GT of
             Inl e \<Rightarrow> Inl e
           | Inr True \<Rightarrow> Inr 1
           | Inr False \<Rightarrow> Inr 0))"

fun ix_compare :: "bytes \<Rightarrow> bytes \<Rightarrow> (ColType \<times> nat) list \<Rightarrow> rmdb_error + int" where
  "ix_compare a b [] = Inr 0"
| "ix_compare a b ((t, l) # cols) =
     (case ix_compare_col a b t l of
        Inl e \<Rightarrow> Inl e
      | Inr res \<Rightarrow> if res \<noteq> 0 then Inr res else ix_compare (drop l a) (drop l b) cols)"

fun ix_compare_values :: "bytes \<Rightarrow> Value list \<Rightarrow> (ColType \<times> nat) list \<Rightarrow> rmdb_error + int" where
  "ix_compare_values a (v # vs) ((t, l) # cols) =
     (case ix_compare_value a v t l of
        Inl e \<Rightarrow> Inl e
      | Inr res \<Rightarrow> if res \<noteq> 0 then Inr res else ix_compare_values (drop l a) vs cols)"
| "ix_compare_values a _ [] = Inr 0"
| "ix_compare_values a [] (c # cols) = Inl OutOfRange"

definition key_cols :: "ColMeta list \<Rightarrow> (ColType \<times> nat) list" where
  "key_cols cols = map (\<lambda>c. (cm_type c, nat (cm_len c))) cols"

definition ix_compare_meta :: "bytes \<Rightarrow> bytes \<Rightarrow> ColMeta list \<Rightarrow> rmdb_error + int" where
  "ix_compare_meta a b cols = ix_compare a b (key_cols cols)"

section \<open>A total preorder\<close>

text \<open>What a search in sorted keys relies on.\<close>

locale key_order =
  fixes K :: "'k set" and cmp :: "'k \<Rightarrow> 'k \<Rightarrow> int"
  assumes cmp_flip: "a \<in> K \<Longrightarrow> b \<in> K \<Longrightarrow> cmp b a = - cmp a b"
    and cmp_trans: "a \<in> K \<Longrightarrow> b \<in> K \<Longrightarrow> c \<in> K \<Longrightarrow> cmp a b \<le> 0 \<Longrightarrow> cmp b c \<le> 0 \<Longrightarrow> cmp a c \<le> 0"
begin

lemma cmp_refl: "a \<in> K \<Longrightarrow> cmp a a = 0"
  using cmp_flip [of a a] by simp

lemma cmp_total: "a \<in> K \<Longrightarrow> b \<in> K \<Longrightarrow> cmp a b \<le> 0 \<or> cmp b a \<le> 0"
  using cmp_flip [of a b] by auto

lemma cmp_cong:
  assumes "a \<in> K" and "b \<in> K" and "c \<in> K" and "cmp a b = 0"
  shows "cmp a c \<le> 0 \<longleftrightarrow> cmp b c \<le> 0" "cmp c a \<le> 0 \<longleftrightarrow> cmp c b \<le> 0"
  using assms cmp_trans cmp_flip [of a b] by (metis neg_equal_0_iff_equal order_refl)+

lemma cmp_less_trans:
  assumes "a \<in> K" and "b \<in> K" and "c \<in> K" and "cmp a b < 0" and "cmp b c \<le> 0"
  shows "cmp a c < 0"
proof (rule ccontr)
  assume "\<not> cmp a c < 0"
  then have "cmp c a \<le> 0" using cmp_flip [of a c] assms(1,3) by simp
  then have "cmp b a \<le> 0" using cmp_trans assms by blast
  then show False using cmp_flip [OF assms(1,2)] assms(4) by linarith
qed

lemma cmp_le_trans:
  assumes "a \<in> K" and "b \<in> K" and "c \<in> K" and "cmp a b \<le> 0" and "cmp b c < 0"
  shows "cmp a c < 0"
proof (rule ccontr)
  assume "\<not> cmp a c < 0"
  then have "cmp c a \<le> 0" using cmp_flip [of a c] assms(1,3) by simp
  then have "cmp c b \<le> 0" using cmp_trans assms by blast
  then show False using cmp_flip [OF assms(2,3)] assms(5) by linarith
qed

end

fun key_ok :: "(ColType \<times> nat) list \<Rightarrow> bytes \<Rightarrow> bool" where
  "key_ok [] k \<longleftrightarrow> True"
| "key_ok ((t, l) # cols) k \<longleftrightarrow>
     (case t of
        TYPE_FLOAT \<Rightarrow> \<not> f32_nan (word_of_int (load_int k 0))
      | TYPE_DATETIME \<Rightarrow> False
      | _ \<Rightarrow> True) \<and> l \<le> length k \<and> key_ok cols (drop l k)"

definition ix_cmp :: "(ColType \<times> nat) list \<Rightarrow> bytes \<Rightarrow> bytes \<Rightarrow> int" where
  "ix_cmp cols a b = (case ix_compare a b cols of Inl e \<Rightarrow> 0 | Inr r \<Rightarrow> r)"

lemma memcmp_flip: "memcmp y x n = - memcmp x y n"
  by (induction x y n rule: memcmp.induct) auto

lemma memcmp_trans: "n \<le> length x \<Longrightarrow> n \<le> length y \<Longrightarrow> n \<le> length z \<Longrightarrow> memcmp x y n \<le> 0 \<Longrightarrow> memcmp y z n \<le> 0 \<Longrightarrow> memcmp x z n \<le> 0"
proof (induction x y n arbitrary: z rule: memcmp.induct)
  case (1 x xs y ys n)
  then obtain u us where "z = u # us" by (cases z) auto
  then show ?case using 1 by (auto split: if_splits)
qed (auto simp: Suc_le_length_iff)

definition col_ok :: "ColType \<Rightarrow> nat \<Rightarrow> bytes \<Rightarrow> bool" where
  "col_ok t l k \<longleftrightarrow>
     (case t of
        TYPE_FLOAT \<Rightarrow> \<not> f32_nan (word_of_int (load_int k 0))
      | TYPE_DATETIME \<Rightarrow> False
      | _ \<Rightarrow> True) \<and> l \<le> length k"

definition col_cmp :: "ColType \<Rightarrow> nat \<Rightarrow> bytes \<Rightarrow> bytes \<Rightarrow> int" where
  "col_cmp t l a b = (case ix_compare_col a b t l of Inl e \<Rightarrow> 0 | Inr r \<Rightarrow> r)"

interpretation col_keys: key_order "{k. col_ok t l k}" "col_cmp t l" for t l
proof
  fix a b assume "a \<in> {k. col_ok t l k}" "b \<in> {k. col_ok t l k}"
  then show "col_cmp t l b a = - col_cmp t l a b"
    by (cases t) (auto simp: col_cmp_def ix_compare_col_def Let_def f32_lt_def memcmp_flip [of b a])
next
  fix a b c
  assume "a \<in> {k. col_ok t l k}" "b \<in> {k. col_ok t l k}" "c \<in> {k. col_ok t l k}" "col_cmp t l a b \<le> 0" "col_cmp t l b c \<le> 0"
  then show "col_cmp t l a c \<le> 0"
    by (cases t)
      (auto simp: col_cmp_def ix_compare_col_def Let_def f32_lt_def col_ok_def split: if_splits intro: memcmp_trans [of l a b c])
qed

lemma key_ok_Cons: "key_ok ((t, l) # cols) k \<longleftrightarrow> col_ok t l k \<and> key_ok cols (drop l k)"
  by (auto simp: col_ok_def)

lemma ix_compare_Inr: "key_ok cols a \<Longrightarrow> ix_compare a b cols = Inr (ix_cmp cols a b)"
proof (induction a b cols rule: ix_compare.induct)
  case (2 a b t l cols)
  have "\<exists>r. ix_compare_col a b t l = Inr r" using 2(2) by (cases t) (auto simp: ix_compare_col_def Let_def)
  then show ?case using 2 by (auto simp: ix_cmp_def split: sum.splits)
qed (simp add: ix_cmp_def)

lemma ix_cmp_Cons:
  assumes "key_ok ((t, l) # cols) a"
  shows "ix_cmp ((t, l) # cols) a b = (if col_cmp t l a b \<noteq> 0 then col_cmp t l a b else ix_cmp cols (drop l a) (drop l b))"
proof -
  obtain r where "ix_compare_col a b t l = Inr r" using assms by (cases t) (auto simp: ix_compare_col_def Let_def)
  then show ?thesis by (auto simp: ix_cmp_def col_cmp_def)
qed

interpretation index_keys: key_order "{k. key_ok cols k}" "ix_cmp cols" for cols
proof
  fix a b assume "a \<in> {k. key_ok cols k}" "b \<in> {k. key_ok cols k}"
  then have "key_ok cols a" "key_ok cols b" by simp_all
  then show "ix_cmp cols b a = - ix_cmp cols a b"
  proof (induction cols arbitrary: a b)
    case (Cons c cols)
    obtain t l where c: "c = (t, l)" by (cases c)
    have ok: "col_ok t l a" "key_ok cols (drop l a)" "col_ok t l b" "key_ok cols (drop l b)"
      using Cons.prems unfolding c key_ok_Cons by blast+
    have "col_cmp t l b a = - col_cmp t l a b" using col_keys.cmp_flip [of a t l b] ok by simp
    then show ?case using ix_cmp_Cons Cons.prems Cons.IH [OF ok(2,4)] unfolding c by simp
  qed (simp add: ix_cmp_def)
next
  fix a b c
  assume "a \<in> {k. key_ok cols k}" "b \<in> {k. key_ok cols k}" "c \<in> {k. key_ok cols k}" "ix_cmp cols a b \<le> 0" "ix_cmp cols b c \<le> 0"
  then have "key_ok cols a" "key_ok cols b" "key_ok cols c" "ix_cmp cols a b \<le> 0" "ix_cmp cols b c \<le> 0" by simp_all
  then show "ix_cmp cols a c \<le> 0"
  proof (induction cols arbitrary: a b c)
    case (Cons d cols)
    obtain t l where d: "d = (t, l)" by (cases d)
    have ok: "a \<in> {k. col_ok t l k}" "b \<in> {k. col_ok t l k}" "c \<in> {k. col_ok t l k}"
      and kk: "key_ok cols (drop l a)" "key_ok cols (drop l b)" "key_ok cols (drop l c)"
      using Cons.prems(1-3) unfolding d key_ok_Cons by blast+
    have le: "col_cmp t l a b \<le> 0" "col_cmp t l b c \<le> 0"
      using ix_cmp_Cons Cons.prems unfolding d by (auto split: if_splits)
    have ac: "col_cmp t l a c \<le> 0" using col_keys.cmp_trans [OF ok le] .
    show ?case
    proof (cases "col_cmp t l a c = 0")
      case True
      have "col_cmp t l a b = 0 \<and> col_cmp t l b c = 0"
        using col_keys.cmp_less_trans [OF ok _ le(2)] col_keys.cmp_le_trans [OF ok le(1)] le True by fastforce
      then have "ix_cmp cols (drop l a) (drop l b) \<le> 0" "ix_cmp cols (drop l b) (drop l c) \<le> 0"
        using ix_cmp_Cons Cons.prems unfolding d by simp_all
      then have "ix_cmp cols (drop l a) (drop l c) \<le> 0" using Cons.IH kk by blast
      then show ?thesis using ix_cmp_Cons Cons.prems True unfolding d by simp
    next
      case False
      then show ?thesis using ix_cmp_Cons Cons.prems ac unfolding d by simp
    qed
  qed (simp add: ix_cmp_def)
qed

section \<open>The order of the values\<close>

text \<open>
  The reference order: column by column, integers and floats by value, strings as sequences of unsigned bytes.
\<close>

definition col_less :: "ColType \<Rightarrow> nat \<Rightarrow> bytes \<Rightarrow> bytes \<Rightarrow> bool" where
  "col_less t l a b =
     (case t of
        TYPE_INT \<Rightarrow> load_int a 0 < load_int b 0
      | TYPE_FLOAT \<Rightarrow> f32_lt (word_of_int (load_int a 0)) (word_of_int (load_int b 0))
      | _ \<Rightarrow> str_less (take l a) (take l b))"

fun key_less :: "(ColType \<times> nat) list \<Rightarrow> bytes \<Rightarrow> bytes \<Rightarrow> bool" where
  "key_less [] a b \<longleftrightarrow> False"
| "key_less ((t, l) # cols) a b \<longleftrightarrow> col_less t l a b \<or> \<not> col_less t l b a \<and> key_less cols (drop l a) (drop l b)"

lemma memcmp_less: "n \<le> length x \<Longrightarrow> n \<le> length y \<Longrightarrow> memcmp x y n < 0 \<longleftrightarrow> str_less (take n x) (take n y)"
  by (induction x y n rule: memcmp.induct) (auto simp: Suc_le_length_iff)

lemma col_cmp_less: "col_ok t l a \<Longrightarrow> col_ok t l b \<Longrightarrow> col_cmp t l a b < 0 \<longleftrightarrow> col_less t l a b"
  using memcmp_less [of l a b] by (cases t) (auto simp: col_cmp_def col_ok_def col_less_def ix_compare_col_def Let_def f32_lt_def)

lemma ix_cmp_less: "key_ok cols a \<Longrightarrow> key_ok cols b \<Longrightarrow> ix_cmp cols a b < 0 \<longleftrightarrow> key_less cols a b"
proof (induction cols arbitrary: a b)
  case (Cons c cols)
  obtain t l where c: "c = (t, l)" by (cases c)
  have ok: "col_ok t l a" "key_ok cols (drop l a)" "col_ok t l b" "key_ok cols (drop l b)"
    using Cons.prems unfolding c key_ok_Cons by blast+
  have "col_cmp t l b a = - col_cmp t l a b" using col_keys.cmp_flip [of a t l b] ok by simp
  then show ?case
    using ix_cmp_Cons [of t l cols a b] Cons.prems(1) Cons.IH [OF ok(2,4)] col_cmp_less [OF ok(1,3)] col_cmp_less [OF ok(3,1)] unfolding c by auto
qed (simp add: ix_cmp_def)

text \<open>
  C28: the order of index keys. On keys long enough for their columns, without a DATETIME column and without NaN in a float column,
  \<open>ix_compare\<close> returns; the result is negative exactly when the first key is less, column by column, in the order of the values, and
  positive exactly when the second is; and a sequence of keys that are not greater than the next is transitive.
\<close>

theorem index_key_order:
  assumes "key_ok (key_cols cols) a" and "key_ok (key_cols cols) b" and "key_ok (key_cols cols) c"
  shows "\<exists>ab bc ac. ix_compare_meta a b cols = Inr ab \<and> ix_compare_meta b c cols = Inr bc \<and> ix_compare_meta a c cols = Inr ac \<and>
    (ab < 0 \<longleftrightarrow> key_less (key_cols cols) a b) \<and> (0 < ab \<longleftrightarrow> key_less (key_cols cols) b a) \<and> (ab \<le> 0 \<and> bc \<le> 0 \<longrightarrow> ac \<le> 0)"
  using assms index_keys.cmp_flip [of a "key_cols cols" b] index_keys.cmp_trans [of a "key_cols cols" b c]
    ix_cmp_less [OF assms(1,2)] ix_cmp_less [OF assms(2,1)]
  by (auto simp: ix_compare_meta_def ix_compare_Inr)

theorem index_key_order_witness:
  "\<exists>ab. ix_compare_meta (int_bytes 3) (int_bytes 5) [sample_col ''a'' 0] = Inr ab \<and> ab < 0"
proof -
  have k: "key_ok (key_cols [sample_col ''a'' 0]) (int_bytes i)" for i by (simp add: key_cols_def sample_col_def)
  have "key_less (key_cols [sample_col ''a'' 0]) (int_bytes 3) (int_bytes 5)"
    by (simp add: key_cols_def sample_col_def col_less_def load_int_def int32_def)
  then show ?thesis using index_key_order [OF k k k, of 3 5 9] by blast
qed

end
