(* ===== verification/Transactions.thy ===== *)
theory Transactions
  imports IxCompare
begin

text \<open>
  Transactions and what they lock: \<^verbatim>\<open>transaction/txn_defs.h\<close> and \<^verbatim>\<open>transaction/transaction.h\<close>. The fields of a
  transaction that name index pages (the latched and the deleted ones) are never read and are left out, as is the
  identifier of its thread.
\<close>

unbundle bit_operations_syntax

section \<open>Definitions\<close>

datatype TransactionState = DEFAULT | GROWING | SHRINKING | COMMITTED | ABORTED

datatype IsolationLevel = READ_UNCOMMITTED | REPEATABLE_READ | READ_COMMITTED | SERIALIZABLE

datatype WType = INSERT_TUPLE | DELETE_TUPLE | UPDATE_TUPLE

record WriteRecord =
  wtype :: WType
  wr_tab_name :: string
  wr_rid :: Rid
  wr_record :: "bytes option"
  wr_record_old :: "bytes option"

definition WriteRecord_insert :: "WType \<Rightarrow> string \<Rightarrow> Rid \<Rightarrow> WriteRecord" where
  "WriteRecord_insert w tab rid = \<lparr>wtype = w, wr_tab_name = tab, wr_rid = rid, wr_record = None, wr_record_old = None\<rparr>"

definition WriteRecord_delete :: "WType \<Rightarrow> string \<Rightarrow> Rid \<Rightarrow> bytes \<Rightarrow> WriteRecord" where
  "WriteRecord_delete w tab rid rec = \<lparr>wtype = w, wr_tab_name = tab, wr_rid = rid, wr_record = Some rec, wr_record_old = None\<rparr>"

definition WriteRecord_update :: "WType \<Rightarrow> string \<Rightarrow> Rid \<Rightarrow> bytes \<Rightarrow> bytes \<Rightarrow> WriteRecord" where
  "WriteRecord_update w tab rid rec old = \<lparr>wtype = w, wr_tab_name = tab, wr_rid = rid, wr_record = Some rec, wr_record_old = Some old\<rparr>"

datatype LockDataType = TABLE | RECORD

datatype LockDataId = LockDataId (ld_fd: int) (ld_rid: Rid) (ld_type: LockDataType)

definition table_lock :: "int \<Rightarrow> LockDataId" where
  "table_lock fd = LockDataId fd (Rid (-1) (-1)) TABLE"

definition record_lock :: "int \<Rightarrow> Rid \<Rightarrow> LockDataId" where
  "record_lock fd rid = LockDataId fd rid RECORD"

definition LockDataId_Get :: "LockDataId \<Rightarrow> 64 word" where
  "LockDataId_Get l =
     (if ld_type l = TABLE then word_of_int (ld_fd l)
      else push_bit 63 1 OR push_bit 31 (word_of_int (ld_fd l)) OR
           push_bit 16 (word_of_int (rid_page (ld_rid l))) OR word_of_int (rid_slot (ld_rid l)))"

record Transaction =
  t_id :: int
  txn_mode :: bool
  t_state :: TransactionState
  isolation_level :: IsolationLevel
  prev_lsn :: int
  start_ts :: int
  write_set :: "WriteRecord list"
  lock_set :: "LockDataId list"

text \<open>\<open>mode\<close> and \<open>ts\<close> are what the fields without initialiser hold.\<close>

definition Transaction_init :: "int \<Rightarrow> bool \<Rightarrow> int \<Rightarrow> Transaction" where
  "Transaction_init txn_id mode ts =
     \<lparr>t_id = txn_id, txn_mode = mode, t_state = DEFAULT, isolation_level = SERIALIZABLE, prev_lsn = INVALID_LSN, start_ts = ts,
      write_set = [], lock_set = []\<rparr>"

definition append_write_record :: "WriteRecord \<Rightarrow> Transaction \<Rightarrow> Transaction" where
  "append_write_record wr txn = txn\<lparr>write_set := write_set txn @ [wr]\<rparr>"

text \<open>\<open>emplace\<close> on the set of locks.\<close>

definition add_lock :: "LockDataId \<Rightarrow> Transaction \<Rightarrow> Transaction" where
  "add_lock l txn = txn\<lparr>lock_set := List.insert l (lock_set txn)\<rparr>"

lemma lock_ids_distinct [simp]: "table_lock fd \<noteq> record_lock fd' rid" "record_lock fd' rid \<noteq> table_lock fd"
  by (simp_all add: table_lock_def record_lock_def)

lemma lock_types [simp]: "ld_type (table_lock fd) = TABLE" "ld_type (record_lock fd rid) = RECORD"
  by (simp_all add: table_lock_def record_lock_def)

lemma add_lock_simps [simp]:
  "t_id (add_lock l txn) = t_id txn" "t_state (add_lock l txn) = t_state txn" "set (lock_set (add_lock l txn)) = insert l (set (lock_set txn))"
  by (simp_all add: add_lock_def)

end
