(* ===== verification/LockManager.thy ===== *)
theory LockManager
  imports Transactions
begin

text \<open>
  The lock manager: \<^verbatim>\<open>transaction/concurrency/lock_manager.h\<close> and \<^verbatim>\<open>lock_manager.cpp\<close>. A lock function runs under the
  latch of its queue until it returns, throws or waits on the condition variable of the queue; it is one step
  from the lock table and the transaction to an outcome. An outcome \<open>Waits w\<close> names the place where
  the function waits, and \<open>resume w\<close> is the rest of the function from there, enabled when the predicate of the
  wait holds. In between any other transaction may take steps. Two places of the source are finer than this: a lock function releases the
  latch of the lock table before it takes the latch of the queue, and the queue latch of \<open>unlock\<close> is commented out. The steps are calls that do not
  overlap there; \<open>LockProperties\<close> shows with a release in two parts that exclusion is lost otherwise.

  The lock table maps a lock to a queue; \<open>Some None\<close> is an entry with a null pointer, which \<open>operator[]\<close> makes. A request
  the code reaches through an iterator is the first one of its transaction in the queue, one it has just
  appended the last one. Of an index handle only its file descriptor is used here. The keys of an
  index are of type int, float or string: comparing others throws, which is not modelled here.
\<close>

section \<open>Requests and queues\<close>

datatype LockMode = SHARED | EXLUCSIVE | GAP | INTENSION_SHARED | INTENSION_EXLUCSIVE

datatype GroupMode = NO_LOCK | GM_S | GM_X | GM_GAP | TAB_X | GM_IS | GM_IX

record Gap =
  lower_key :: "bytes option"
  upper_key :: "bytes option"
  gap_index_meta :: IndexMeta
  gap_conds :: "Condition list"
  gap_ih_fd :: int
  conflicted :: bool

record LockRequest =
  lr_txn_id :: int
  lock_mode :: LockMode
  granted :: bool
  lr_gaps :: "Gap list"

definition LockRequest_init :: "int \<Rightarrow> LockMode \<Rightarrow> LockRequest" where
  "LockRequest_init txn_id mode = \<lparr>lr_txn_id = txn_id, lock_mode = mode, granted = False, lr_gaps = []\<rparr>"

record InsertKey =
  insert_key :: bytes
  ik_index_meta :: IndexMeta
  ik_txn_id :: int
  ik_rid :: Rid
  ik_ih_fd :: int
  is_waited :: bool

record LockRequestQueue =
  request_queue :: "LockRequest list"
  upgrading :: int
  group_mode :: GroupMode
  insert_keys :: "InsertKey list"

definition new_queue :: LockRequestQueue where
  "new_queue = \<lparr>request_queue = [], upgrading = INVALID_TXN_ID, group_mode = NO_LOCK, insert_keys = []\<rparr>"

type_synonym lock_table = "LockDataId \<Rightarrow> LockRequestQueue option option"

text \<open>Find or create the queue of a lock.\<close>

definition get_queue :: "lock_table \<Rightarrow> LockDataId \<Rightarrow> LockRequestQueue" where
  "get_queue tbl l = (case tbl l of Some (Some q) \<Rightarrow> q | _ \<Rightarrow> new_queue)"

definition put_queue :: "LockDataId \<Rightarrow> LockRequestQueue \<Rightarrow> lock_table \<Rightarrow> lock_table" where
  "put_queue l q tbl = tbl(l := Some (Some q))"

fun upd_first :: "('a \<Rightarrow> bool) \<Rightarrow> ('a \<Rightarrow> 'a) \<Rightarrow> 'a list \<Rightarrow> 'a list" where
  "upd_first P f [] = []"
| "upd_first P f (x # xs) = (if P x then f x # xs else x # upd_first P f xs)"

definition upd_last :: "('a \<Rightarrow> bool) \<Rightarrow> ('a \<Rightarrow> 'a) \<Rightarrow> 'a list \<Rightarrow> 'a list" where
  "upd_last P f xs = rev (upd_first P f (rev xs))"

definition own :: "int \<Rightarrow> LockRequest \<Rightarrow> bool" where
  "own tid r \<longleftrightarrow> lr_txn_id r = tid"

definition find_req :: "int \<Rightarrow> LockRequestQueue \<Rightarrow> LockRequest option" where
  "find_req tid q = find (own tid) (request_queue q)"

definition find_last :: "int \<Rightarrow> LockRequestQueue \<Rightarrow> LockRequest option" where
  "find_last tid q = find (own tid) (rev (request_queue q))"

definition upd_req :: "int \<Rightarrow> (LockRequest \<Rightarrow> LockRequest) \<Rightarrow> LockRequestQueue \<Rightarrow> LockRequestQueue" where
  "upd_req tid f q = q\<lparr>request_queue := upd_first (own tid) f (request_queue q)\<rparr>"

definition push_req :: "LockRequest \<Rightarrow> LockRequestQueue \<Rightarrow> LockRequestQueue" where
  "push_req r q = q\<lparr>request_queue := request_queue q @ [r]\<rparr>"

definition other_granted :: "int \<Rightarrow> LockRequestQueue \<Rightarrow> bool" where
  "other_granted tid q \<longleftrightarrow> (\<exists>r\<in>set (request_queue q). lr_txn_id r \<noteq> tid \<and> granted r)"

definition other_write :: "int \<Rightarrow> LockRequestQueue \<Rightarrow> bool" where
  "other_write tid q \<longleftrightarrow> (\<exists>r\<in>set (request_queue q). lr_txn_id r \<noteq> tid \<and> granted r \<and> lock_mode r = EXLUCSIVE)"

definition other_hold :: "int \<Rightarrow> LockRequestQueue \<Rightarrow> bool" where
  "other_hold tid q \<longleftrightarrow>
     (\<exists>r\<in>set (request_queue q). granted r \<and> lr_txn_id r \<noteq> tid \<or>
        group_mode q = GM_GAP \<and> lr_txn_id r \<noteq> tid \<and> lock_mode r = GAP \<and> (\<exists>g\<in>set (lr_gaps r). \<not> conflicted g))"

section \<open>Waiting\<close>

datatype wait =
    WaitSharedHeld LockDataId
  | WaitShared LockDataId
  | WaitUpgrade LockDataId
  | WaitExclusive LockDataId LockDataId
  | WaitGapHeld LockDataId
  | WaitGapFirst LockDataId
  | WaitGapTable LockDataId
  | WaitGapKey LockDataId
  | WaitISHeld LockDataId
  | WaitIS LockDataId
  | WaitIXHeld LockDataId
  | WaitIX LockDataId
  | WaitTabUpgrade LockDataId
  | WaitTabX LockDataId

text \<open>\<open>FallsOff\<close>: the function ends without a return statement, which leaves its result undefined.\<close>

datatype lock_outcome = Returns bool | Throws rmdb_error | Waits wait | FallsOff

type_synonym lock_state = "Transaction \<times> lock_table"

definition wait_die :: "LockRequestQueue \<Rightarrow> int \<Rightarrow> Transaction \<Rightarrow> (unit, LockRequestQueue \<times> Transaction) res" where
  "wait_die q txn_id txn =
     (if \<exists>r\<in>set (request_queue q). t_id txn > lr_txn_id r
      then (Inl (TransactionAbortException txn_id DEADLOCK_PREVENTION []),
            q\<lparr>upgrading := (if upgrading q = t_id txn then INVALID_TXN_ID else upgrading q),
              request_queue := filter (\<lambda>r. lr_txn_id r \<noteq> txn_id) (request_queue q),
              insert_keys := filter (\<lambda>k. ik_txn_id k \<noteq> txn_id) (insert_keys q)\<rparr>,
            txn\<lparr>t_state := ABORTED\<rparr>)
      else (Inr (), q, txn))"

definition wait_die_on :: "LockDataId \<Rightarrow> lock_state \<Rightarrow> (unit, lock_state) res" where
  "wait_die_on l s =
     (case s of (txn, tbl) \<Rightarrow>
        case wait_die (get_queue tbl l) (t_id txn) txn of (r, q, txn') \<Rightarrow> (r, txn', put_queue l q tbl))"

definition gap_wait_die_on :: "LockDataId \<Rightarrow> lock_state \<Rightarrow> (unit, lock_state) res" where
  "gap_wait_die_on l s = (if group_mode (get_queue (snd s) l) = GM_GAP then wait_die_on l s else (Inr (), s))"

definition then_wait :: "wait \<Rightarrow> (unit, lock_state) res \<Rightarrow> lock_outcome \<times> lock_state" where
  "then_wait w r = (case r of (Inl e, s) \<Rightarrow> (Throws e, s) | (Inr _, s) \<Rightarrow> (Waits w, s))"

text \<open>The head of every lock function.\<close>

definition lock_guard :: "lock_state \<Rightarrow> lock_outcome \<times> lock_state \<Rightarrow> lock_outcome \<times> lock_state" where
  "lock_guard s body =
     (case s of (txn, tbl) \<Rightarrow>
        if t_state txn = ABORTED then (Returns False, s)
        else if t_state txn = SHRINKING
        then (Throws (TransactionAbortException (t_id txn) LOCK_ON_SHIRINKING []), txn\<lparr>t_state := ABORTED\<rparr>, tbl)
        else body)"

section \<open>Locks on records\<close>

definition shared_held :: "LockDataId \<Rightarrow> LockRequestQueue \<Rightarrow> lock_state \<Rightarrow> (lock_outcome \<times> lock_state) option" where
  "shared_held l q s =
     (case s of (txn, tbl) \<Rightarrow>
        if group_mode q = GM_X
        then if other_write (t_id txn) q
             then Some (then_wait (WaitSharedHeld l)
                    (wait_die_on l (txn, put_queue l (upd_req (t_id txn) (\<lambda>r. r\<lparr>granted := False\<rparr>) q) tbl)))
             else Some (Returns True, txn, put_queue l (upd_req (t_id txn) (\<lambda>r. r\<lparr>granted := True\<rparr>) q) tbl)
        else if group_mode q = GM_S
        then Some (Returns True, txn, put_queue l (upd_req (t_id txn) (\<lambda>r. r\<lparr>granted := True\<rparr>) q) tbl)
        else None)"

definition shared_new :: "LockDataId \<Rightarrow> LockRequestQueue \<Rightarrow> lock_state \<Rightarrow> lock_outcome \<times> lock_state" where
  "shared_new l q s =
     (case s of (txn, tbl) \<Rightarrow>
        let req = LockRequest_init (t_id txn) SHARED
        in if group_mode q \<noteq> GM_X
           then (Returns True, add_lock l txn, put_queue l ((push_req (req\<lparr>granted := True\<rparr>) q)\<lparr>group_mode := GM_S\<rparr>) tbl)
           else then_wait (WaitShared l) (wait_die_on l (txn, put_queue l (push_req req q) tbl)))"

definition lock_shared_on_record :: "Rid \<Rightarrow> int \<Rightarrow> lock_state \<Rightarrow> lock_outcome \<times> lock_state" where
  "lock_shared_on_record rid tab_fd s =
     lock_guard s
       (let l = record_lock tab_fd rid; q = get_queue (snd s) l
        in case (if find_req (t_id (fst s)) q \<noteq> None then shared_held l q s else None) of
             Some r \<Rightarrow> r
           | None \<Rightarrow> shared_new l q s)"

definition lock_exclusive_on_record :: "Rid \<Rightarrow> int \<Rightarrow> lock_state \<Rightarrow> lock_outcome \<times> lock_state" where
  "lock_exclusive_on_record rid tab_fd s = (Returns True, s)"

definition ix_gt :: "bytes \<Rightarrow> bytes \<Rightarrow> ColMeta list \<Rightarrow> bool" where
  "ix_gt a b cols = (case ix_compare_meta a b cols of Inl e \<Rightarrow> False | Inr r \<Rightarrow> r > 0)"

text \<open>Whether an inserted key lies inside a gap.\<close>

definition in_gap :: "InsertKey \<Rightarrow> Gap \<Rightarrow> bool" where
  "in_gap k g =
     (case (lower_key g, upper_key g) of
        (Some lo, Some hi) \<Rightarrow> ix_gt (insert_key k) lo (im_cols (ik_index_meta k)) \<and> ix_gt hi (insert_key k) (im_cols (ik_index_meta k))
      | _ \<Rightarrow> False)"

definition hits_gap :: "InsertKey \<Rightarrow> LockRequest \<Rightarrow> bool" where
  "hits_gap k r \<longleftrightarrow> (\<exists>g\<in>set (lr_gaps r). ik_txn_id k \<noteq> lr_txn_id r \<and> ik_ih_fd k = gap_ih_fd g \<and> in_gap k g)"

definition new_insert_key :: "int \<Rightarrow> Rid \<Rightarrow> bytes \<Rightarrow> IndexMeta \<Rightarrow> int \<Rightarrow> LockRequestQueue \<Rightarrow> InsertKey" where
  "new_insert_key tid rid key meta ih qt =
     (let k = \<lparr>insert_key = key, ik_index_meta = meta, ik_txn_id = tid, ik_rid = rid, ik_ih_fd = ih, is_waited = False\<rparr>
      in k\<lparr>is_waited := list_ex (hits_gap k) (request_queue qt)\<rparr>)"

definition clear_upgrading :: "int \<Rightarrow> LockRequestQueue \<Rightarrow> LockRequestQueue" where
  "clear_upgrading tid q = (if upgrading q = tid then q\<lparr>upgrading := INVALID_TXN_ID\<rparr> else q)"

definition exclusive_upgrade :: "LockDataId \<Rightarrow> LockDataId \<Rightarrow> bool \<Rightarrow> lock_state \<Rightarrow> lock_outcome \<times> lock_state" where
  "exclusive_upgrade lr lt waited s =
     (case s of (txn, tbl) \<Rightarrow>
        let q = get_queue tbl lr
        in if upgrading q \<noteq> INVALID_TXN_ID
           then (Throws (TransactionAbortException (t_id txn) UPGRADE_CONFLICT []), txn\<lparr>t_state := ABORTED\<rparr>, tbl)
           else let q = q\<lparr>upgrading := t_id txn\<rparr>
                in if other_granted (t_id txn) q \<or> waited
                   then then_wait (WaitUpgrade lr)
                          (bindE (wait_die_on lr (txn, put_queue lr (upd_req (t_id txn) (\<lambda>r. r\<lparr>granted := False, lock_mode := EXLUCSIVE\<rparr>) q) tbl))
                             (\<lambda>_ s. gap_wait_die_on lt s))
                   else (Returns True, txn,
                         put_queue lr (clear_upgrading (t_id txn)
                           ((upd_req (t_id txn) (\<lambda>r. r\<lparr>granted := True, lock_mode := EXLUCSIVE\<rparr>) q)\<lparr>group_mode := GM_X\<rparr>)) tbl))"

definition exclusive_new :: "LockDataId \<Rightarrow> LockDataId \<Rightarrow> bool \<Rightarrow> lock_state \<Rightarrow> lock_outcome \<times> lock_state" where
  "exclusive_new lr lt waited s =
     (case s of (txn, tbl) \<Rightarrow>
        let q = get_queue tbl lr;
            req = LockRequest_init (t_id txn) EXLUCSIVE;
            granted_now = (Returns True, add_lock lt (add_lock lr txn),
              put_queue lr ((push_req (req\<lparr>granted := True\<rparr>) q)\<lparr>group_mode := GM_X\<rparr>) tbl);
            pushed = (txn, put_queue lr (push_req req q) tbl)
        in if request_queue q = []
           then if waited
                then then_wait (WaitExclusive lr lt) (bindE (gap_wait_die_on lt pushed) (\<lambda>_ s. wait_die_on lr s))
                else granted_now
           else if \<not> other_granted (t_id txn) (push_req req q) \<and> \<not> waited
           then granted_now
           else then_wait (WaitExclusive lr lt) (bindE (wait_die_on lr pushed) (\<lambda>_ s. gap_wait_die_on lt s)))"

definition lock_exclusive_on_record_gap :: "Rid \<Rightarrow> int \<Rightarrow> bytes \<Rightarrow> IndexMeta \<Rightarrow> int \<Rightarrow> lock_state \<Rightarrow> lock_outcome \<times> lock_state" where
  "lock_exclusive_on_record_gap rid tab_fd key meta ih s =
     lock_guard s
       (case s of (txn, tbl) \<Rightarrow>
          let lr = record_lock tab_fd rid; lt = table_lock tab_fd;
              tbl = put_queue lr (get_queue tbl lr) tbl;
              qt = get_queue tbl lt;
              k = new_insert_key (t_id txn) rid key meta ih qt;
              tbl = put_queue lt (qt\<lparr>insert_keys := insert_keys qt @ [k]\<rparr>) tbl
          in case find_req (t_id txn) (get_queue tbl lr) of
               Some r \<Rightarrow>
                 if lock_mode r = SHARED then exclusive_upgrade lr lt (is_waited k) (txn, tbl)
                 else if lock_mode r = EXLUCSIVE then (Returns True, txn, tbl)
                 else exclusive_new lr lt (is_waited k) (txn, tbl)
             | None \<Rightarrow> exclusive_new lr lt (is_waited k) (txn, tbl))"

section \<open>Locks on tables\<close>

definition blocks_gap :: "int \<Rightarrow> InsertKey \<Rightarrow> Gap \<Rightarrow> bool" where
  "blocks_gap tid k g \<longleftrightarrow> \<not> is_waited k \<and> ik_txn_id k \<noteq> tid \<and> ik_ih_fd k = gap_ih_fd g \<and> in_gap k g"

definition push_gap :: "Gap \<Rightarrow> LockRequest \<Rightarrow> LockRequest" where
  "push_gap g r = r\<lparr>lr_gaps := lr_gaps r @ [g]\<rparr>"

definition gap_held :: "LockDataId \<Rightarrow> LockRequestQueue \<Rightarrow> Gap \<Rightarrow> lock_state \<Rightarrow> lock_outcome \<times> lock_state" where
  "gap_held l q g s =
     (case s of (txn, tbl) \<Rightarrow>
        let tid = t_id txn;
            wait_conflicted = then_wait (WaitGapHeld l)
              (wait_die_on l (txn, put_queue l (upd_req tid (\<lambda>r. push_gap (g\<lparr>conflicted := True\<rparr>) (r\<lparr>lock_mode := GAP\<rparr>)) q) tbl))
        in if group_mode q = TAB_X
           then if other_write tid q then wait_conflicted
                else (Returns True, txn, put_queue l (upd_req tid (push_gap g) q) tbl)
           else if list_ex (\<lambda>k. blocks_gap tid k g) (insert_keys q) then wait_conflicted
           else (Returns True, txn, put_queue l (upd_req tid (\<lambda>r. push_gap g (r\<lparr>lock_mode := GAP\<rparr>)) q) tbl))"

definition gap_new :: "LockDataId \<Rightarrow> LockRequestQueue \<Rightarrow> Gap \<Rightarrow> lock_state \<Rightarrow> lock_outcome \<times> lock_state" where
  "gap_new l q g s =
     (case s of (txn, tbl) \<Rightarrow>
        let tid = t_id txn;
            g' = g\<lparr>conflicted := list_ex (\<lambda>k. blocks_gap tid k g) (insert_keys q)\<rparr>;
            req = push_gap g' (LockRequest_init tid GAP)
        in if request_queue q = []
           then if conflicted g' then then_wait (WaitGapFirst l) (wait_die_on l (txn, put_queue l (push_req req q) tbl))
                else (Returns True, add_lock l txn, put_queue l ((push_req req q)\<lparr>group_mode := GM_GAP\<rparr>) tbl)
           else if group_mode q = TAB_X
           then let c = g\<lparr>conflicted := True\<rparr>
                in then_wait (WaitGapTable l)
                     (wait_die_on l (txn, put_queue l (push_req (push_gap c (push_gap c (LockRequest_init tid GAP))) q) tbl))
           else if conflicted g' then then_wait (WaitGapKey l) (wait_die_on l (txn, put_queue l (push_req req q) tbl))
           else (Returns True, add_lock l txn, put_queue l (push_req req q) tbl))"

definition lock_GAP_on_table :: "int \<Rightarrow> bytes option \<Rightarrow> bytes option \<Rightarrow> IndexMeta \<Rightarrow> Condition list \<Rightarrow> int \<Rightarrow> lock_state \<Rightarrow> lock_outcome \<times> lock_state" where
  "lock_GAP_on_table tab_fd lo hi meta conds ih s =
     lock_guard s
       (let l = table_lock tab_fd;
            g = \<lparr>lower_key = lo, upper_key = hi, gap_index_meta = meta, gap_conds = conds, gap_ih_fd = ih, conflicted = False\<rparr>;
            q = get_queue (snd s) l;
            q = (if group_mode q \<noteq> TAB_X then q\<lparr>group_mode := GM_GAP\<rparr> else q)
        in case find_req (t_id (fst s)) q of
             Some r \<Rightarrow> gap_held l q g s
           | None \<Rightarrow> gap_new l q g s)"

definition IS_held :: "LockDataId \<Rightarrow> LockRequestQueue \<Rightarrow> lock_state \<Rightarrow> (lock_outcome \<times> lock_state) option" where
  "IS_held l q s =
     (case s of (txn, tbl) \<Rightarrow>
        let tid = t_id txn;
            grant = (Returns True, txn, put_queue l (upd_req tid (\<lambda>r. r\<lparr>granted := True\<rparr>) q) tbl)
        in if group_mode q = GM_GAP \<or> group_mode q = GM_IS \<or> group_mode q = GM_IX then Some grant
           else if group_mode q = TAB_X
           then if other_write tid q
                then Some (then_wait (WaitISHeld l) (wait_die_on l (txn, put_queue l (upd_req tid (\<lambda>r. r\<lparr>granted := False\<rparr>) q) tbl)))
                else Some grant
           else None)"

definition IS_new :: "LockDataId \<Rightarrow> LockRequestQueue \<Rightarrow> lock_state \<Rightarrow> lock_outcome \<times> lock_state" where
  "IS_new l q s =
     (case s of (txn, tbl) \<Rightarrow>
        let req = LockRequest_init (t_id txn) INTENSION_SHARED
        in if request_queue q = []
           then (Returns True, add_lock l txn, put_queue l ((push_req (req\<lparr>granted := True\<rparr>) q)\<lparr>group_mode := GM_IS\<rparr>) tbl)
           else if group_mode q = GM_GAP \<or> group_mode q = GM_IS \<or> group_mode q = GM_IX
           then (Returns True, add_lock l txn, put_queue l (push_req (req\<lparr>granted := True\<rparr>) q) tbl)
           else if group_mode q = TAB_X
           then then_wait (WaitIS l) (wait_die_on l (txn, put_queue l (push_req req q) tbl))
           else (FallsOff, txn, put_queue l (push_req req q) tbl))"

definition lock_IS_on_table :: "int \<Rightarrow> lock_state \<Rightarrow> lock_outcome \<times> lock_state" where
  "lock_IS_on_table tab_fd s =
     lock_guard s
       (let l = table_lock tab_fd; q = get_queue (snd s) l
        in case (if find_req (t_id (fst s)) q \<noteq> None then IS_held l q s else None) of
             Some r \<Rightarrow> r
           | None \<Rightarrow> IS_new l q s)"

definition IX_held :: "LockDataId \<Rightarrow> LockRequestQueue \<Rightarrow> lock_state \<Rightarrow> (lock_outcome \<times> lock_state) option" where
  "IX_held l q s =
     (case s of (txn, tbl) \<Rightarrow>
        let tid = t_id txn
        in if group_mode q = GM_GAP \<or> group_mode q = GM_IX
           then Some (Returns True, txn,
                  put_queue l (upd_req tid (\<lambda>r. r\<lparr>granted := True,
                    lock_mode := (if lock_mode r = INTENSION_SHARED then INTENSION_EXLUCSIVE else lock_mode r)\<rparr>) q) tbl)
           else if group_mode q = GM_IS
           then Some (Returns True, txn,
                  put_queue l ((upd_req tid (\<lambda>r. r\<lparr>granted := True, lock_mode := INTENSION_EXLUCSIVE\<rparr>) q)\<lparr>group_mode := GM_IX\<rparr>) tbl)
           else if group_mode q = TAB_X
           then if other_write tid q
                then Some (then_wait (WaitIXHeld l)
                       (wait_die_on l (txn, put_queue l (upd_req tid (\<lambda>r. r\<lparr>granted := False,
                          lock_mode := (if lock_mode r = GAP then lock_mode r else INTENSION_EXLUCSIVE)\<rparr>) q) tbl)))
                else Some (Returns True, txn, put_queue l (upd_req tid (\<lambda>r. r\<lparr>granted := True\<rparr>) q) tbl)
           else None)"

definition IX_new :: "LockDataId \<Rightarrow> LockRequestQueue \<Rightarrow> lock_state \<Rightarrow> lock_outcome \<times> lock_state" where
  "IX_new l q s =
     (case s of (txn, tbl) \<Rightarrow>
        let req = LockRequest_init (t_id txn) INTENSION_EXLUCSIVE;
            granted_q = push_req (req\<lparr>granted := True\<rparr>) q
        in if request_queue q = [] then (Returns True, add_lock l txn, put_queue l (granted_q\<lparr>group_mode := GM_IX\<rparr>) tbl)
           else if group_mode q = GM_GAP \<or> group_mode q = GM_IX then (Returns True, add_lock l txn, put_queue l granted_q tbl)
           else if group_mode q = GM_IS then (Returns True, add_lock l txn, put_queue l (granted_q\<lparr>group_mode := GM_IX\<rparr>) tbl)
           else if group_mode q = TAB_X then then_wait (WaitIX l) (wait_die_on l (txn, put_queue l (push_req req q) tbl))
           else (Returns True, add_lock l txn, put_queue l (push_req req q) tbl))"

definition lock_IX_on_table :: "int \<Rightarrow> lock_state \<Rightarrow> lock_outcome \<times> lock_state" where
  "lock_IX_on_table tab_fd s =
     lock_guard s
       (let l = table_lock tab_fd; q = get_queue (snd s) l
        in case (if find_req (t_id (fst s)) q \<noteq> None then IX_held l q s else None) of
             Some r \<Rightarrow> r
           | None \<Rightarrow> IX_new l q s)"

definition tab_upgrade :: "LockDataId \<Rightarrow> LockRequestQueue \<Rightarrow> lock_state \<Rightarrow> lock_outcome \<times> lock_state" where
  "tab_upgrade l q s =
     (case s of (txn, tbl) \<Rightarrow>
        if upgrading q \<noteq> INVALID_TXN_ID
        then (Throws (TransactionAbortException (t_id txn) UPGRADE_CONFLICT []), txn\<lparr>t_state := ABORTED\<rparr>, put_queue l q tbl)
        else let q = q\<lparr>upgrading := t_id txn\<rparr>
             in if other_hold (t_id txn) q
                then then_wait (WaitTabUpgrade l)
                       (wait_die_on l (txn, put_queue l (upd_req (t_id txn) (\<lambda>r. r\<lparr>granted := False, lock_mode := EXLUCSIVE\<rparr>) q) tbl))
                else (Returns True, txn,
                      put_queue l (clear_upgrading (t_id txn)
                        ((upd_req (t_id txn) (\<lambda>r. r\<lparr>granted := True, lock_mode := EXLUCSIVE\<rparr>) q)\<lparr>group_mode := TAB_X\<rparr>)) tbl))"

definition tab_new :: "LockDataId \<Rightarrow> LockRequestQueue \<Rightarrow> lock_state \<Rightarrow> lock_outcome \<times> lock_state" where
  "tab_new l q s =
     (case s of (txn, tbl) \<Rightarrow>
        let req = LockRequest_init (t_id txn) EXLUCSIVE;
            granted_now = (Returns True, add_lock l txn,
              put_queue l ((push_req (req\<lparr>granted := True\<rparr>) q)\<lparr>group_mode := TAB_X\<rparr>) tbl)
        in if request_queue q = [] then granted_now
           else if group_mode q \<noteq> NO_LOCK
           then then_wait (WaitTabX l) (wait_die_on l (txn, put_queue l (push_req req q) tbl))
           else granted_now)"

definition lock_exclusive_on_table :: "int \<Rightarrow> lock_state \<Rightarrow> lock_outcome \<times> lock_state" where
  "lock_exclusive_on_table tab_fd s =
     lock_guard s
       (let l = table_lock tab_fd; q = get_queue (snd s) l
        in case find_req (t_id (fst s)) q of Some r \<Rightarrow> tab_upgrade l q s | None \<Rightarrow> tab_new l q s)"

section \<open>Granting and releasing\<close>

definition gap_blocked :: "LockRequestQueue \<Rightarrow> LockRequest \<Rightarrow> Gap \<Rightarrow> bool" where
  "gap_blocked q r g \<longleftrightarrow>
     list_ex (\<lambda>k. \<not> is_waited k \<and> ik_txn_id k \<noteq> lr_txn_id r \<and> IndexMeta_eq (ik_index_meta k) (gap_index_meta g) \<and> in_gap k g) (insert_keys q)"

definition freed_gap :: "LockRequestQueue \<Rightarrow> LockRequest \<Rightarrow> Gap \<Rightarrow> bool" where
  "freed_gap q r g \<longleftrightarrow> \<not> gap_blocked q r g \<and> conflicted g"

definition reset_gaps :: "LockRequestQueue \<Rightarrow> LockRequest \<Rightarrow> LockRequest" where
  "reset_gaps q r = r\<lparr>lr_gaps := map (\<lambda>g. if freed_gap q r g then g\<lparr>conflicted := False\<rparr> else g) (lr_gaps r)\<rparr>"

definition set_req :: "nat \<Rightarrow> LockRequest \<Rightarrow> LockRequestQueue \<Rightarrow> LockRequestQueue" where
  "set_req i r q = q\<lparr>request_queue := (request_queue q)[i := r]\<rparr>"

text \<open>The first part of the loop body of \<open>grant_lock\<close>: a request that is not granted.\<close>

definition grant_pending :: "LockDataType \<Rightarrow> nat \<Rightarrow> LockRequestQueue \<Rightarrow> bool \<times> LockRequestQueue" where
  "grant_pending type i q =
     (let r = request_queue q ! i
      in if granted r then (False, q)
         else if type = TABLE
         then (case lock_mode r of
                 EXLUCSIVE \<Rightarrow>
                   if group_mode q = NO_LOCK then (True, (set_req i (r\<lparr>granted := True\<rparr>) q)\<lparr>group_mode := TAB_X\<rparr>) else (False, q)
               | INTENSION_SHARED \<Rightarrow>
                   if group_mode q \<noteq> TAB_X
                   then (True, (set_req i (r\<lparr>granted := True\<rparr>) q)\<lparr>group_mode := (if group_mode q = NO_LOCK then GM_IS else group_mode q)\<rparr>)
                   else (False, q)
               | INTENSION_EXLUCSIVE \<Rightarrow>
                   if group_mode q \<noteq> TAB_X
                   then (True, (set_req i (r\<lparr>granted := True\<rparr>) q)
                          \<lparr>group_mode := (if group_mode q = NO_LOCK \<or> group_mode q = GM_IS then GM_IX else group_mode q)\<rparr>)
                   else (False, q)
               | GAP \<Rightarrow>
                   if group_mode q \<noteq> TAB_X
                   then (list_ex (freed_gap q r) (lr_gaps r), set_req i (reset_gaps q r) q)
                   else (False, q)
               | SHARED \<Rightarrow> (False, q))
         else if lock_mode r = SHARED \<and> group_mode q \<noteq> GM_X
         then (False, (set_req i (r\<lparr>granted := True\<rparr>) q)\<lparr>group_mode := GM_S\<rparr>)
         else (False, q))"

definition grant_gaps :: "LockDataType \<Rightarrow> nat \<Rightarrow> bool \<times> LockRequestQueue \<Rightarrow> bool \<times> LockRequestQueue" where
  "grant_gaps type i gq =
     (case gq of (is_granted, q) \<Rightarrow>
        let r = request_queue q ! i
        in if type = TABLE \<and> granted r \<and> lock_mode r = GAP
           then let is_granted = (is_granted \<or> list_ex (freed_gap q r) (lr_gaps r));
                    q' = set_req i (reset_gaps q r) q
                in (is_granted, if is_granted \<and> group_mode q' \<noteq> TAB_X then q'\<lparr>group_mode := GM_GAP\<rparr> else q')
           else (is_granted, q))"

definition grant_upgrade :: "LockDataType \<Rightarrow> nat \<Rightarrow> bool \<times> LockRequestQueue \<Rightarrow> LockRequestQueue" where
  "grant_upgrade type i gq =
     (case gq of (is_granted, q) \<Rightarrow>
        let r = request_queue q ! i
        in if type = TABLE \<and> \<not> is_granted \<and> lr_txn_id r = upgrading q \<and> \<not> other_hold (lr_txn_id r) q
           then (set_req i (r\<lparr>granted := True\<rparr>) q)\<lparr>group_mode := TAB_X\<rparr>
           else q)"

definition grant_one :: "LockDataType \<Rightarrow> nat \<Rightarrow> LockRequestQueue \<Rightarrow> LockRequestQueue" where
  "grant_one type i q = grant_upgrade type i (grant_gaps type i (grant_pending type i q))"

definition grant_lock :: "LockDataType \<Rightarrow> LockRequestQueue \<Rightarrow> LockRequestQueue" where
  "grant_lock type q = fold (grant_one type) [0..<length (request_queue q)] q"

definition regroup_table_step :: "LockRequest \<Rightarrow> GroupMode \<Rightarrow> GroupMode" where
  "regroup_table_step r m =
     (let m = (if lock_mode r = GAP \<and> m \<noteq> TAB_X \<and> list_ex (\<lambda>g. \<not> conflicted g) (lr_gaps r) then GM_GAP else m)
      in if granted r
         then (case lock_mode r of
                 EXLUCSIVE \<Rightarrow> TAB_X
               | INTENSION_EXLUCSIVE \<Rightarrow> if m \<noteq> TAB_X \<and> m \<noteq> GM_GAP then GM_IX else m
               | INTENSION_SHARED \<Rightarrow> if m = NO_LOCK then GM_IS else m
               | _ \<Rightarrow> m)
         else m)"

definition regroup_record_step :: "LockRequest \<Rightarrow> GroupMode \<Rightarrow> GroupMode" where
  "regroup_record_step r m =
     (if granted r
      then (case lock_mode r of EXLUCSIVE \<Rightarrow> GM_X | SHARED \<Rightarrow> if m = NO_LOCK then GM_S else m | _ \<Rightarrow> m)
      else m)"

definition regroup :: "LockDataType \<Rightarrow> LockRequestQueue \<Rightarrow> LockRequestQueue" where
  "regroup type q =
     q\<lparr>group_mode := fold (if type = TABLE then regroup_table_step else regroup_record_step) (request_queue q) NO_LOCK\<rparr>"

definition drop_keys :: "int \<Rightarrow> LockRequestQueue \<Rightarrow> LockRequestQueue" where
  "drop_keys tid q = q\<lparr>insert_keys := filter (\<lambda>k. ik_txn_id k \<noteq> tid) (insert_keys q)\<rparr>"

fun remove_first :: "('a \<Rightarrow> bool) \<Rightarrow> 'a list \<Rightarrow> 'a list" where
  "remove_first P [] = []"
| "remove_first P (x # xs) = (if P x then xs else x # remove_first P xs)"

definition erase_req :: "int \<Rightarrow> LockRequestQueue \<Rightarrow> LockRequestQueue" where
  "erase_req tid q = q\<lparr>request_queue := remove_first (own tid) (request_queue q)\<rparr>"

text \<open>Taking the request of the transaction out of its queue; \<open>operator[]\<close> makes a null entry for a table without a queue.\<close>

definition unlock_remove :: "int \<Rightarrow> LockDataId \<Rightarrow> LockRequestQueue \<Rightarrow> lock_table \<Rightarrow> lock_table" where
  "unlock_remove tid l q tbl =
     (if (group_mode q = GM_GAP \<or> group_mode q = TAB_X) \<and> ld_type l = TABLE
      then put_queue l (regroup TABLE (erase_req tid (drop_keys tid q))) tbl
      else if group_mode q = GM_X \<and> ld_type l = RECORD
      then let lt = table_lock (ld_fd l);
               tbl = (case tbl lt of
                        None \<Rightarrow> tbl(lt := Some None)
                      | Some None \<Rightarrow> tbl
                      | Some (Some qt) \<Rightarrow> put_queue lt (drop_keys tid qt) tbl)
           in put_queue l (regroup RECORD (erase_req tid q)) tbl
      else put_queue l (regroup (ld_type l) (erase_req tid q)) tbl)"

text \<open>An insertion that waited for a gap, key number \<open>i\<close> of the queue of table \<open>l\<close>.\<close>

definition grant_waited_key :: "LockDataId \<Rightarrow> nat \<Rightarrow> lock_table \<Rightarrow> (unit, lock_table) res" where
  "grant_waited_key l i tbl =
     (let q = get_queue tbl l; k = insert_keys q ! i
      in if \<not> is_waited k then (Inr (), tbl)
         else let free = \<not> list_ex (hits_gap k) (request_queue q);
                  lr = record_lock (ld_fd l) (ik_rid k)
              in case tbl lr of
                   None \<Rightarrow> (Inl NullDereference, tbl(lr := Some None))
                 | Some None \<Rightarrow> (Inl NullDereference, tbl)
                 | Some (Some qr) \<Rightarrow>
                     (case find_req (ik_txn_id k) qr of
                        None \<Rightarrow> (Inr (), tbl)
                      | Some r \<Rightarrow>
                          if lock_mode r \<noteq> EXLUCSIVE then (Inr (), tbl)
                          else if free \<or> lr_txn_id r = upgrading q
                          then (Inr (),
                                put_queue lr (upd_req (ik_txn_id k) (\<lambda>r. r\<lparr>granted := True\<rparr>) qr)
                                  (put_queue l (q\<lparr>insert_keys := (insert_keys q)[i := k\<lparr>is_waited := False\<rparr>],
                                     group_mode := (if free then group_mode q else GM_X)\<rparr>) tbl))
                          else (Inr (), tbl)))"

fun grant_waited_keys :: "LockDataId \<Rightarrow> nat list \<Rightarrow> lock_table \<Rightarrow> (unit, lock_table) res" where
  "grant_waited_keys l [] tbl = (Inr (), tbl)"
| "grant_waited_keys l (i # is) tbl = bindE (grant_waited_key l i tbl) (\<lambda>_ tbl. grant_waited_keys l is tbl)"

definition grant_record_one :: "nat \<Rightarrow> LockRequestQueue \<Rightarrow> LockRequestQueue" where
  "grant_record_one i q =
     (let r = request_queue q ! i
      in if granted r then q
         else if group_mode q = NO_LOCK \<and> lock_mode r = EXLUCSIVE
         then (set_req i (r\<lparr>granted := True\<rparr>) q)\<lparr>group_mode := GM_X\<rparr>
         else if lr_txn_id r = upgrading q \<and> \<not> other_granted (lr_txn_id r) q
         then (set_req i (r\<lparr>granted := True\<rparr>) q)\<lparr>group_mode := GM_X\<rparr>
         else q)"

definition grant_record :: "LockDataId \<Rightarrow> lock_table \<Rightarrow> lock_table" where
  "grant_record l tbl =
     (let lt = table_lock (ld_fd l)
      in case tbl lt of
           None \<Rightarrow> tbl(lt := Some None)
         | Some None \<Rightarrow> tbl
         | Some (Some qt) \<Rightarrow>
             if group_mode qt \<noteq> GM_GAP \<and> group_mode qt \<noteq> TAB_X
             then let q = get_queue tbl l in put_queue l (fold grant_record_one [0..<length (request_queue q)] q) tbl
             else tbl)"

definition unlock_regrant :: "int \<Rightarrow> LockDataId \<Rightarrow> lock_table \<Rightarrow> (unit, lock_table) res" where
  "unlock_regrant tid l tbl =
     (let q = clear_upgrading tid (get_queue tbl l)
      in if request_queue q = [] \<and> insert_keys q = [] then (Inr (), tbl(l := None))
         else let tbl = put_queue l (grant_lock (ld_type l) q) tbl
              in if ld_type l = TABLE then grant_waited_keys l [0..<length (insert_keys q)] tbl
                 else (Inr (), grant_record l tbl))"

definition unlock :: "LockDataId \<Rightarrow> lock_state \<Rightarrow> lock_outcome \<times> lock_state" where
  "unlock l s =
     (case s of (txn, tbl) \<Rightarrow>
        case tbl l of
          None \<Rightarrow> (Returns False, s)
        | Some None \<Rightarrow> (Throws NullDereference, s)
        | Some (Some q) \<Rightarrow>
            if find_req (t_id txn) q = None then (Returns False, s)
            else case unlock_regrant (t_id txn) l (unlock_remove (t_id txn) l q tbl) of
                   (Inl e, tbl) \<Rightarrow> (Throws e, txn, tbl)
                 | (Inr _, tbl) \<Rightarrow> (Returns True, txn, tbl))"

section \<open>Resuming\<close>

definition req_granted :: "LockRequest option \<Rightarrow> bool" where
  "req_granted r = (case r of None \<Rightarrow> False | Some r \<Rightarrow> granted r)"

definition gap_free_now :: "LockRequest option \<Rightarrow> bool" where
  "gap_free_now r = (case r of None \<Rightarrow> False | Some r \<Rightarrow> lr_gaps r \<noteq> [] \<and> \<not> conflicted (last (lr_gaps r)))"

definition set_group :: "LockDataId \<Rightarrow> (GroupMode \<Rightarrow> GroupMode) \<Rightarrow> lock_table \<Rightarrow> lock_table" where
  "set_group l f tbl = (let q = get_queue tbl l in put_queue l (q\<lparr>group_mode := f (group_mode q)\<rparr>) tbl)"

fun can_resume :: "wait \<Rightarrow> int \<Rightarrow> lock_table \<Rightarrow> bool" where
  "can_resume (WaitSharedHeld l) tid tbl = req_granted (find_req tid (get_queue tbl l))"
| "can_resume (WaitShared l) tid tbl = req_granted (find_last tid (get_queue tbl l))"
| "can_resume (WaitUpgrade l) tid tbl = req_granted (find_req tid (get_queue tbl l))"
| "can_resume (WaitExclusive l lt) tid tbl = req_granted (find_last tid (get_queue tbl l))"
| "can_resume (WaitGapHeld l) tid tbl = gap_free_now (find_req tid (get_queue tbl l))"
| "can_resume (WaitGapFirst l) tid tbl = gap_free_now (find_last tid (get_queue tbl l))"
| "can_resume (WaitGapTable l) tid tbl = gap_free_now (find_last tid (get_queue tbl l))"
| "can_resume (WaitGapKey l) tid tbl = gap_free_now (find_last tid (get_queue tbl l))"
| "can_resume (WaitISHeld l) tid tbl = req_granted (find_req tid (get_queue tbl l))"
| "can_resume (WaitIS l) tid tbl = req_granted (find_last tid (get_queue tbl l))"
| "can_resume (WaitIXHeld l) tid tbl = req_granted (find_req tid (get_queue tbl l))"
| "can_resume (WaitIX l) tid tbl = req_granted (find_last tid (get_queue tbl l))"
| "can_resume (WaitTabUpgrade l) tid tbl = req_granted (find_req tid (get_queue tbl l))"
| "can_resume (WaitTabX l) tid tbl = req_granted (find_last tid (get_queue tbl l))"

definition IX_group :: "int \<Rightarrow> LockRequestQueue \<Rightarrow> GroupMode \<Rightarrow> GroupMode" where
  "IX_group tid q m =
     (if m = GM_GAP then m
      else case find_req tid q of Some r \<Rightarrow> if lock_mode r = GAP then GM_GAP else GM_IX | None \<Rightarrow> GM_IX)"

definition end_upgrade :: "LockDataId \<Rightarrow> int \<Rightarrow> GroupMode \<Rightarrow> lock_table \<Rightarrow> lock_table" where
  "end_upgrade l tid m tbl = put_queue l (clear_upgrading tid ((get_queue tbl l)\<lparr>group_mode := m\<rparr>)) tbl"

fun resume :: "wait \<Rightarrow> lock_state \<Rightarrow> lock_state" where
  "resume (WaitSharedHeld l) (txn, tbl) = (txn, set_group l (\<lambda>m. if m = GM_X then m else GM_S) tbl)"
| "resume (WaitShared l) (txn, tbl) = (add_lock l txn, tbl)"
| "resume (WaitUpgrade l) (txn, tbl) = (txn, end_upgrade l (t_id txn) GM_X tbl)"
| "resume (WaitExclusive l lt) (txn, tbl) = (add_lock lt (add_lock l txn), set_group l (\<lambda>m. GM_X) tbl)"
| "resume (WaitGapHeld l) (txn, tbl) = (txn, tbl)"
| "resume (WaitGapFirst l) (txn, tbl) = (add_lock l txn, set_group l (\<lambda>m. GM_GAP) tbl)"
| "resume (WaitGapTable l) (txn, tbl) = (add_lock l txn, tbl)"
| "resume (WaitGapKey l) (txn, tbl) = (add_lock l txn, tbl)"
| "resume (WaitISHeld l) (txn, tbl) = (txn, set_group l (\<lambda>m. if m = NO_LOCK then GM_IS else m) tbl)"
| "resume (WaitIS l) (txn, tbl) = (add_lock l txn, tbl)"
| "resume (WaitIXHeld l) (txn, tbl) = (txn, set_group l (IX_group (t_id txn) (get_queue tbl l)) tbl)"
| "resume (WaitIX l) (txn, tbl) = (add_lock l txn, tbl)"
| "resume (WaitTabUpgrade l) (txn, tbl) = (txn, end_upgrade l (t_id txn) TAB_X tbl)"
| "resume (WaitTabX l) (txn, tbl) = (add_lock l txn, set_group l (\<lambda>m. TAB_X) tbl)"

section \<open>Interleaved transactions\<close>

record lock_sys =
  sys_table :: lock_table
  sys_txns :: "int \<Rightarrow> Transaction"
  sys_waits :: "int \<Rightarrow> wait option"

datatype lock_op =
    LockShared Rid int
  | LockExclusive Rid int bytes IndexMeta int
  | LockGap int "bytes option" "bytes option" IndexMeta "Condition list" int
  | LockIS int
  | LockIX int
  | LockTable int
  | Unlock LockDataId

fun run_op :: "lock_op \<Rightarrow> lock_state \<Rightarrow> lock_outcome \<times> lock_state" where
  "run_op (LockShared rid fd) s = lock_shared_on_record rid fd s"
| "run_op (LockExclusive rid fd key meta ih) s = lock_exclusive_on_record_gap rid fd key meta ih s"
| "run_op (LockGap fd lo hi meta conds ih) s = lock_GAP_on_table fd lo hi meta conds ih s"
| "run_op (LockIS fd) s = lock_IS_on_table fd s"
| "run_op (LockIX fd) s = lock_IX_on_table fd s"
| "run_op (LockTable fd) s = lock_exclusive_on_table fd s"
| "run_op (Unlock l) s = unlock l s"

text \<open>The queues whose latches a function takes; two of the waits for a gap keep the latch of the queue.\<close>

fun takes_latch :: "lock_op \<Rightarrow> LockDataId list" where
  "takes_latch (LockShared rid fd) = [record_lock fd rid]"
| "takes_latch (LockExclusive rid fd key meta ih) = [record_lock fd rid, table_lock fd]"
| "takes_latch (LockGap fd lo hi meta conds ih) = [table_lock fd]"
| "takes_latch (LockIS fd) = [table_lock fd]"
| "takes_latch (LockIX fd) = [table_lock fd]"
| "takes_latch (LockTable fd) = [table_lock fd]"
| "takes_latch (Unlock l) = []"

fun keeps_latch :: "wait \<Rightarrow> LockDataId \<Rightarrow> bool" where
  "keeps_latch (WaitGapHeld l) l' = (l = l')"
| "keeps_latch (WaitGapTable l) l' = (l = l')"
| "keeps_latch _ l' = False"

definition sys_init :: lock_sys where
  "sys_init = \<lparr>sys_table = (\<lambda>l. None), sys_txns = (\<lambda>t. (Transaction_init t True 0)\<lparr>t_state := GROWING\<rparr>), sys_waits = (\<lambda>t. None)\<rparr>"

definition after_call :: "int \<Rightarrow> lock_outcome \<Rightarrow> lock_state \<Rightarrow> lock_sys \<Rightarrow> lock_sys" where
  "after_call t out s sys =
     \<lparr>sys_table = snd s, sys_txns = (sys_txns sys)(t := fst s),
      sys_waits = (sys_waits sys)(t := (case out of Waits w \<Rightarrow> Some w | _ \<Rightarrow> None))\<rparr>"

inductive lock_step :: "(lock_op \<Rightarrow> bool) \<Rightarrow> lock_sys \<Rightarrow> lock_sys \<Rightarrow> bool" for allowed where
  call: "lock_step allowed sys (after_call t out s sys)"
  if "allowed op" and "sys_waits sys t = None"
    and "\<And>u w l. sys_waits sys u = Some w \<Longrightarrow> l \<in> set (takes_latch op) \<Longrightarrow> \<not> keeps_latch w l"
    and "run_op op (sys_txns sys t, sys_table sys) = (out, s)"
| wake: "lock_step allowed sys (after_call t (Returns True) (resume w (sys_txns sys t, sys_table sys)) sys)"
  if "sys_waits sys t = Some w" and "can_resume w t (sys_table sys)"

inductive lock_reachable :: "(lock_op \<Rightarrow> bool) \<Rightarrow> lock_sys \<Rightarrow> bool" for allowed where
  start: "lock_reachable allowed sys_init"
| step: "lock_reachable allowed sys'" if "lock_reachable allowed sys" and "lock_step allowed sys sys'"

text \<open>Histories in which no transaction locks a gap.\<close>

fun no_gaps :: "lock_op \<Rightarrow> bool" where
  "no_gaps (LockGap fd lo hi meta conds ih) = False"
| "no_gaps _ = True"

end
