(* ===== verification/LockSafety.thy ===== *)
theory LockSafety
  imports LockManager
begin

text \<open>
  The invariant of the lock manager when no transaction locks a gap: what holds of every queue and of the waiting
  transactions, and that every call, every resumption and every release keeps it.
\<close>

section \<open>Lists of requests with distinct transactions\<close>

definition ids :: "LockRequestQueue \<Rightarrow> int set" where
  "ids q = lr_txn_id ` set (request_queue q)"

lemma upd_first_map:
  assumes "distinct (map lr_txn_id xs)"
  shows "upd_first (own t) f xs = map (\<lambda>r. if lr_txn_id r = t then f r else r) xs"
  using assms
proof (induction xs)
  case (Cons x xs)
  have "map (\<lambda>r. if lr_txn_id r = t then f r else r) xs = xs" if "lr_txn_id x = t"
    using Cons.prems that by (intro map_idI) (auto simp: image_iff)
  then show ?case using Cons by (auto simp: own_def)
qed simp

lemma remove_first_filter:
  assumes "distinct (map lr_txn_id xs)"
  shows "remove_first (own t) xs = filter (\<lambda>r. lr_txn_id r \<noteq> t) xs"
  using assms
proof (induction xs)
  case (Cons x xs)
  have "filter (\<lambda>r. lr_txn_id r \<noteq> t) xs = xs" if "lr_txn_id x = t"
    using Cons.prems that by (intro filter_True) (auto simp: image_iff)
  then show ?case using Cons by (auto simp: own_def)
qed simp

lemma list_update_map:
  assumes "distinct (map lr_txn_id xs)" and "i < length xs"
  shows "xs[i := y] = map (\<lambda>r. if lr_txn_id r = lr_txn_id (xs ! i) then y else r) xs"
proof (rule nth_equalityI)
  fix j assume "j < length (xs[i := y])"
  then show "xs[i := y] ! j = map (\<lambda>r. if lr_txn_id r = lr_txn_id (xs ! i) then y else r) xs ! j"
    using assms nth_eq_iff_index_eq [of "map lr_txn_id xs" i j] by (auto simp: nth_list_update)
qed simp

lemma find_req_None: "find_req t q = None \<longleftrightarrow> t \<notin> ids q"
  by (auto simp: find_req_def find_None_iff own_def ids_def)

lemma find_req_Some: "find_req t q = Some r \<Longrightarrow> r \<in> set (request_queue q) \<and> lr_txn_id r = t"
  by (auto simp: find_req_def find_Some_iff own_def)

lemma find_last_Some: "find_last t q = Some r \<Longrightarrow> r \<in> set (request_queue q) \<and> lr_txn_id r = t"
  by (auto simp: find_last_def find_Some_iff own_def rev_nth)

section \<open>The invariant of a queue\<close>

fun mode_ok :: "LockDataType \<Rightarrow> LockMode \<Rightarrow> bool" where
  "mode_ok TABLE m \<longleftrightarrow> m = EXLUCSIVE \<or> m = INTENSION_SHARED \<or> m = INTENSION_EXLUCSIVE"
| "mode_ok RECORD m \<longleftrightarrow> m = EXLUCSIVE \<or> m = SHARED"

fun group_ok :: "LockDataType \<Rightarrow> GroupMode \<Rightarrow> bool" where
  "group_ok TABLE g \<longleftrightarrow> g = NO_LOCK \<or> g = GM_IS \<or> g = GM_IX \<or> g = TAB_X"
| "group_ok RECORD g \<longleftrightarrow> g = NO_LOCK \<or> g = GM_S \<or> g = GM_X"

fun x_group :: "LockDataType \<Rightarrow> GroupMode" where
  "x_group TABLE = TAB_X"
| "x_group RECORD = GM_X"

definition reqs_ok :: "LockDataType \<Rightarrow> (int \<Rightarrow> bool) \<Rightarrow> LockRequestQueue \<Rightarrow> bool" where
  "reqs_ok ty W q \<longleftrightarrow>
     distinct (map lr_txn_id (request_queue q)) \<and>
     (\<forall>r\<in>set (request_queue q). lr_gaps r = [] \<and> mode_ok ty (lock_mode r) \<and> (\<not> granted r \<longrightarrow> W (lr_txn_id r))) \<and>
     (\<forall>k\<in>set (insert_keys q). \<not> is_waited k)"

definition excl_ok :: "LockDataType \<Rightarrow> LockRequestQueue \<Rightarrow> bool" where
  "excl_ok ty q \<longleftrightarrow>
     (\<forall>r\<in>set (request_queue q). granted r \<and> lock_mode r = EXLUCSIVE \<longrightarrow>
        group_mode q = x_group ty \<and> \<not> other_granted (lr_txn_id r) q)"

definition mode_set :: "LockDataType \<Rightarrow> LockRequestQueue \<Rightarrow> bool" where
  "mode_set ty q \<longleftrightarrow> group_ok ty (group_mode q) \<and> (group_mode q = NO_LOCK \<longrightarrow> (\<forall>r\<in>set (request_queue q). \<not> granted r))"

lemmas core_defs = reqs_ok_def excl_ok_def mode_set_def

definition core_ok :: "LockDataType \<Rightarrow> (int \<Rightarrow> bool) \<Rightarrow> LockRequestQueue \<Rightarrow> bool" where
  "core_ok ty W q \<longleftrightarrow> reqs_ok ty W q \<and> excl_ok ty q \<and> mode_set ty q"

definition queue_ok :: "LockDataType \<Rightarrow> (int \<Rightarrow> bool) \<Rightarrow> LockRequestQueue \<Rightarrow> bool" where
  "queue_ok ty W q \<longleftrightarrow> core_ok ty W q \<and> (ty = TABLE \<and> request_queue q \<noteq> [] \<longrightarrow> group_mode q \<noteq> NO_LOCK)"

lemma queue_ok_new [simp]: "queue_ok ty W new_queue"
  by (cases ty) (simp_all add: queue_ok_def core_ok_def core_defs new_queue_def)

lemma core_ok_mono: "core_ok ty W q \<Longrightarrow> (\<And>u. u \<in> ids q \<Longrightarrow> W u \<Longrightarrow> W' u) \<Longrightarrow> core_ok ty W' q"
  by (auto simp: core_ok_def reqs_ok_def ids_def)

lemma queue_ok_mono: "queue_ok ty W q \<Longrightarrow> (\<And>u. u \<in> ids q \<Longrightarrow> W u \<Longrightarrow> W' u) \<Longrightarrow> queue_ok ty W' q"
  using core_ok_mono by (auto simp: queue_ok_def)

text \<open>Changing the request of one transaction.\<close>

lemma upd_req_simps [simp]:
  "group_mode (upd_req t f q) = group_mode q" "insert_keys (upd_req t f q) = insert_keys q" "upgrading (upd_req t f q) = upgrading q"
  by (simp_all add: upd_req_def)

lemma upd_req_set:
  "core_ok ty W q \<Longrightarrow> request_queue (upd_req t f q) = map (\<lambda>r. if lr_txn_id r = t then f r else r) (request_queue q)"
  by (simp add: upd_req_def core_ok_def reqs_ok_def upd_first_map)

lemma distinct_ids_map:
  assumes "distinct (map lr_txn_id xs)" and "\<And>r. r \<in> set xs \<Longrightarrow> lr_txn_id r = t \<Longrightarrow> lr_txn_id (f r) = t"
  shows "distinct (map lr_txn_id (map (\<lambda>r. if lr_txn_id r = t then f r else r) xs))"
proof -
  have "map lr_txn_id (map (\<lambda>r. if lr_txn_id r = t then f r else r) xs) = map lr_txn_id xs" using assms(2) by simp
  then show ?thesis using assms(1) by metis
qed

text \<open>
  A request that becomes granted while no other is granted, or shared while no exclusive one is, keeps the
  invariant; one that stops being granted does too.
\<close>

lemma core_upd_grant:
  assumes c: "core_ok ty W q" and t: "t \<in> ids q" and m: "mode_ok ty m" and g: "group_ok ty g" "g \<noteq> NO_LOCK"
    and x: "if m = EXLUCSIVE then g = x_group ty \<and> \<not> other_granted t q
            else (\<forall>r\<in>set (request_queue q). lr_txn_id r \<noteq> t \<and> granted r \<longrightarrow> lock_mode r \<noteq> EXLUCSIVE)"
    and f: "\<And>r. lr_txn_id r = t \<Longrightarrow> r \<in> set (request_queue q) \<Longrightarrow> lr_txn_id (f r) = t \<and> granted (f r) \<and> lock_mode (f r) = m \<and> lr_gaps (f r) = lr_gaps r"
  shows "core_ok ty W (q\<lparr>request_queue := map (\<lambda>r. if lr_txn_id r = t then f r else r) (request_queue q), group_mode := g\<rparr>)"
proof -
  have d: "distinct (map lr_txn_id (map (\<lambda>r. if lr_txn_id r = t then f r else r) (request_queue q)))"
    by (rule distinct_ids_map) (use c f in \<open>auto simp: core_ok_def reqs_ok_def\<close>)
  have r: "reqs_ok ty W (q\<lparr>request_queue := map (\<lambda>r. if lr_txn_id r = t then f r else r) (request_queue q), group_mode := g\<rparr>)"
    using c d f m by (auto simp: core_ok_def reqs_ok_def)
  have "excl_ok ty (q\<lparr>request_queue := map (\<lambda>r. if lr_txn_id r = t then f r else r) (request_queue q), group_mode := g\<rparr>)"
  proof (cases "m = EXLUCSIVE")
    case True
    then show ?thesis using x f by (auto simp: excl_ok_def other_granted_def)
  next
    case False
    then show ?thesis using x f by (auto simp: excl_ok_def)
  qed
  then show ?thesis using r g by (simp add: core_ok_def mode_set_def)
qed

lemma core_upd_wait:
  assumes c: "core_ok ty W q" and m: "mode_ok ty m"
    and f: "\<And>r. lr_txn_id r = t \<Longrightarrow> lr_txn_id (f r) = t \<and> \<not> granted (f r) \<and> lock_mode (f r) = m \<and> lr_gaps (f r) = lr_gaps r"
  shows "core_ok ty (\<lambda>u. u = t \<or> W u) (q\<lparr>request_queue := map (\<lambda>r. if lr_txn_id r = t then f r else r) (request_queue q)\<rparr>)"
proof -
  have d: "distinct (map lr_txn_id (map (\<lambda>r. if lr_txn_id r = t then f r else r) (request_queue q)))"
    by (rule distinct_ids_map) (use c f in \<open>auto simp: core_ok_def reqs_ok_def\<close>)
  have "reqs_ok ty (\<lambda>u. u = t \<or> W u) (q\<lparr>request_queue := map (\<lambda>r. if lr_txn_id r = t then f r else r) (request_queue q)\<rparr>)"
    using c d f m by (auto simp: core_ok_def reqs_ok_def)
  then show ?thesis using c f by (auto simp: core_ok_def excl_ok_def mode_set_def other_granted_def)
qed

lemma core_push_grant:
  assumes c: "core_ok ty W q" and t: "lr_txn_id r \<notin> ids q" and m: "mode_ok ty (lock_mode r)" "lr_gaps r = []" "granted r"
    and g: "group_ok ty g" "g \<noteq> NO_LOCK"
    and x: "if lock_mode r = EXLUCSIVE then g = x_group ty \<and> (\<forall>r'\<in>set (request_queue q). \<not> granted r')
            else (\<forall>r'\<in>set (request_queue q). granted r' \<longrightarrow> lock_mode r' \<noteq> EXLUCSIVE)"
  shows "core_ok ty W ((push_req r q)\<lparr>group_mode := g\<rparr>)"
proof -
  have "reqs_ok ty W ((push_req r q)\<lparr>group_mode := g\<rparr>)"
    using c t m by (auto simp: core_ok_def reqs_ok_def push_req_def ids_def)
  moreover have "excl_ok ty ((push_req r q)\<lparr>group_mode := g\<rparr>)"
    using x by (cases "lock_mode r = EXLUCSIVE") (auto simp: excl_ok_def push_req_def other_granted_def)
  ultimately show ?thesis using g by (simp add: core_ok_def mode_set_def)
qed

lemma core_push_wait:
  assumes c: "core_ok ty W q" and t: "lr_txn_id r \<notin> ids q" and m: "mode_ok ty (lock_mode r)" "lr_gaps r = []" "\<not> granted r"
  shows "core_ok ty (\<lambda>u. u = lr_txn_id r \<or> W u) (push_req r q)"
proof -
  have "reqs_ok ty (\<lambda>u. u = lr_txn_id r \<or> W u) (push_req r q)" using assms by (auto simp: core_ok_def reqs_ok_def push_req_def ids_def)
  moreover have "excl_ok ty (push_req r q)" 
    using c m(3) by (auto simp: core_ok_def excl_ok_def push_req_def other_granted_def)
  moreover have "mode_set ty (push_req r q)" using c m(3) unfolding core_ok_def mode_set_def by (auto simp: push_req_def)
  ultimately show ?thesis by (simp add: core_ok_def)
qed

lemma core_remove:
  assumes "core_ok ty (\<lambda>u. u = t \<or> W u) q"
  shows "core_ok ty W (q\<lparr>upgrading := n, request_queue := filter (\<lambda>r. lr_txn_id r \<noteq> t) (request_queue q),
    insert_keys := filter P (insert_keys q)\<rparr>)"
  using assms by (auto simp: core_ok_def reqs_ok_def excl_ok_def mode_set_def other_granted_def distinct_map_filter)

section \<open>The invariant of the lock table\<close>

type_synonym waiting = "int \<Rightarrow> LockDataId \<Rightarrow> bool"

definition table_ok :: "waiting \<Rightarrow> lock_table \<Rightarrow> bool" where
  "table_ok W tbl \<longleftrightarrow> (\<forall>l q. tbl l = Some (Some q) \<longrightarrow> queue_ok (ld_type l) (\<lambda>t. W t l) q)"

lemma table_ok_get: "table_ok W tbl \<Longrightarrow> queue_ok (ld_type l) (\<lambda>t. W t l) (get_queue tbl l)"
  by (auto simp: table_ok_def get_queue_def split: option.splits)

lemma table_ok_put:
  "table_ok W tbl \<Longrightarrow> queue_ok (ld_type l) (\<lambda>t. W' t l) q \<Longrightarrow>
   (\<And>u l' . l' \<noteq> l \<Longrightarrow> W u l' \<Longrightarrow> W' u l') \<Longrightarrow> table_ok W' (put_queue l q tbl)"
  unfolding table_ok_def put_queue_def using queue_ok_mono by (metis (no_types, lifting) fun_upd_apply option.inject)

lemma get_put [simp]: "get_queue (put_queue l q tbl) l' = (if l' = l then q else get_queue tbl l')"
  by (simp add: get_queue_def put_queue_def)

lemma put_put [simp]: "put_queue l q (put_queue l q' tbl) = put_queue l q tbl"
  by (simp add: put_queue_def)

fun lock_of :: "wait \<Rightarrow> LockDataId" where
  "lock_of (WaitSharedHeld l) = l"
| "lock_of (WaitShared l) = l"
| "lock_of (WaitUpgrade l) = l"
| "lock_of (WaitExclusive l lt) = l"
| "lock_of (WaitGapHeld l) = l"
| "lock_of (WaitGapFirst l) = l"
| "lock_of (WaitGapTable l) = l"
| "lock_of (WaitGapKey l) = l"
| "lock_of (WaitISHeld l) = l"
| "lock_of (WaitIS l) = l"
| "lock_of (WaitIXHeld l) = l"
| "lock_of (WaitIX l) = l"
| "lock_of (WaitTabUpgrade l) = l"
| "lock_of (WaitTabX l) = l"

text \<open>The waits that occur when no gap is locked.\<close>

fun plain_wait :: "wait \<Rightarrow> bool" where
  "plain_wait (WaitShared l) \<longleftrightarrow> ld_type l = RECORD"
| "plain_wait (WaitUpgrade l) \<longleftrightarrow> ld_type l = RECORD"
| "plain_wait (WaitExclusive l lt) \<longleftrightarrow> ld_type l = RECORD"
| "plain_wait (WaitIS l) \<longleftrightarrow> ld_type l = TABLE"
| "plain_wait (WaitIX l) \<longleftrightarrow> ld_type l = TABLE"
| "plain_wait (WaitTabUpgrade l) \<longleftrightarrow> ld_type l = TABLE"
| "plain_wait (WaitTabX l) \<longleftrightarrow> ld_type l = TABLE"
| "plain_wait _ \<longleftrightarrow> False"

definition waits_at :: "lock_outcome \<Rightarrow> LockDataId \<Rightarrow> bool" where
  "waits_at out l = (case out of Waits w \<Rightarrow> lock_of w = l | _ \<Rightarrow> False)"

lemma waits_at_simps [simp]: "waits_at (Waits w) l \<longleftrightarrow> lock_of w = l" "\<not> waits_at (Returns b) l" "\<not> waits_at (Throws e) l"
  by (simp_all add: waits_at_def)

definition wait_upd :: "int \<Rightarrow> lock_outcome \<Rightarrow> waiting \<Rightarrow> waiting" where
  "wait_upd t out W = (\<lambda>u l. if u = t then waits_at out l else W u l)"

lemma no_wait_eq:
  assumes "\<And>l. \<not> W t l" and "\<And>l. \<not> waits_at out l"
  shows "wait_upd t out W = W"
  using assms by (auto simp: fun_eq_iff wait_upd_def)

fun is_upgrade :: "wait \<Rightarrow> bool" where
  "is_upgrade (WaitUpgrade l) = True"
| "is_upgrade (WaitTabUpgrade l) = True"
| "is_upgrade _ = False"

text \<open>What a call of transaction \<open>t\<close>, which does not wait, does to the table.\<close>

definition call_ok :: "int \<Rightarrow> waiting \<Rightarrow> lock_state \<Rightarrow> lock_outcome \<times> lock_state \<Rightarrow> bool" where
  "call_ok t W s r \<longleftrightarrow>
     (case r of (out, txn', tbl') \<Rightarrow>
        t_id txn' = t \<and> out \<noteq> FallsOff \<and> 
        (\<forall>w. out = Waits w \<longrightarrow> plain_wait w \<and> (is_upgrade w \<longrightarrow> t \<in> ids (get_queue (snd s) (lock_of w)))) \<and>
        table_ok (wait_upd t out W) tbl' \<and>
        set (lock_set (fst s)) \<subseteq> set (lock_set txn') \<and>
        (\<forall>l. t \<in> ids (get_queue tbl' l) \<longrightarrow> t \<in> ids (get_queue (snd s) l) \<or> l \<in> set (lock_set txn') \<or> waits_at out l) \<and>
        (\<forall>l u. u \<noteq> t \<longrightarrow> u \<in> ids (get_queue tbl' l) \<longrightarrow> u \<in> ids (get_queue (snd s) l)))"

lemma call_ok_returns:
  assumes "table_ok W tbl" and "queue_ok (ld_type l) (\<lambda>u. W u l) q" and "\<And>l. \<not> W t l" and "t_id txn = t"
    and "set (lock_set txn0) \<subseteq> set (lock_set txn)" and "t \<in> ids q \<Longrightarrow> t \<in> ids (get_queue tbl l) \<or> l \<in> set (lock_set txn)"
    and "\<And>u. u \<noteq> t \<Longrightarrow> u \<in> ids q \<Longrightarrow> u \<in> ids (get_queue tbl l)"
  shows "call_ok t W (txn0, tbl) (Returns b, txn, put_queue l q tbl)"
proof -
  have "table_ok W (put_queue l q tbl)" using assms(1,2) by (rule table_ok_put)
  then have "table_ok (wait_upd t (Returns b) W) (put_queue l q tbl)"
    by (subst no_wait_eq) (use assms(3) in simp_all)
  then show ?thesis unfolding call_ok_def using assms(4-7) by auto
qed

lemma call_ok_waits:
  assumes "table_ok W tbl" and c: "core_ok (ld_type l) (\<lambda>u. u = t \<or> W u l) q" and g: "ld_type l = TABLE \<Longrightarrow> group_mode q \<noteq> NO_LOCK"
    and W: "\<And>l. \<not> W t l" and t: "t_id txn = t"
    and "plain_wait w" and "lock_of w = l" and "\<And>u. u \<noteq> t \<Longrightarrow> u \<in> ids q \<Longrightarrow> u \<in> ids (get_queue tbl l)"
    and "is_upgrade w \<Longrightarrow> t \<in> ids (get_queue tbl l)"
  shows "call_ok t W (txn, tbl) (then_wait w (wait_die_on l (txn, put_queue l q tbl)))"
proof (cases "\<exists>r\<in>set (request_queue q). t > lr_txn_id r")
  case True
  let ?q = "q\<lparr>upgrading := (if upgrading q = t then INVALID_TXN_ID else upgrading q),
    request_queue := filter (\<lambda>r. lr_txn_id r \<noteq> t) (request_queue q), insert_keys := filter (\<lambda>k. ik_txn_id k \<noteq> t) (insert_keys q)\<rparr>"
  let ?e = "Throws (TransactionAbortException t DEADLOCK_PREVENTION [])"
  have "core_ok (ld_type l) (\<lambda>u. W u l) ?q" by (rule core_remove [OF c])
  then have "queue_ok (ld_type l) (\<lambda>u. W u l) ?q" using g by (simp add: queue_ok_def)
  with assms(1) have "table_ok W (put_queue l ?q tbl)" by (rule table_ok_put)
  then have "table_ok (wait_upd t ?e W) (put_queue l ?q tbl)"
    by (subst no_wait_eq) (use W in simp_all)
  moreover have "t \<notin> ids ?q" "\<And>u. u \<in> ids ?q \<Longrightarrow> u \<in> ids q" by (auto simp: ids_def)
  ultimately show ?thesis using True t assms(8) by (auto simp: call_ok_def then_wait_def wait_die_on_def wait_die_def)
next
  case False
  have "core_ok (ld_type l) (\<lambda>u. wait_upd t (Waits w) W u l) q" by (rule core_ok_mono [OF c]) (use assms(7) in \<open>auto simp: wait_upd_def\<close>)
  then have "queue_ok (ld_type l) (\<lambda>u. wait_upd t (Waits w) W u l) q" using g by (simp add: queue_ok_def)
  then have "table_ok (wait_upd t (Waits w) W) (put_queue l q tbl)"
    by (rule table_ok_put [OF assms(1)]) (use W in \<open>auto simp: wait_upd_def\<close>)
  then show ?thesis using False t assms(6-9) by (auto simp: call_ok_def then_wait_def wait_die_on_def wait_die_def)
qed

section \<open>The lock functions keep the invariant\<close>

lemma core_distinct: "core_ok ty W q \<Longrightarrow> distinct (map lr_txn_id (request_queue q))"
  by (simp add: core_ok_def reqs_ok_def)

lemma core_granted: "core_ok ty W q \<Longrightarrow> r \<in> set (request_queue q) \<Longrightarrow> \<not> W (lr_txn_id r) \<Longrightarrow> granted r"
  by (auto simp: core_ok_def reqs_ok_def)

lemma core_mode: "core_ok ty W q \<Longrightarrow> r \<in> set (request_queue q) \<Longrightarrow> mode_ok ty (lock_mode r)"
  by (auto simp: core_ok_def reqs_ok_def)

lemma core_group: "core_ok ty W q \<Longrightarrow> group_ok ty (group_mode q)"
  by (simp add: core_ok_def mode_set_def)

lemma core_excl:
  "core_ok ty W q \<Longrightarrow> r \<in> set (request_queue q) \<Longrightarrow> granted r \<Longrightarrow> lock_mode r = EXLUCSIVE \<Longrightarrow>
   group_mode q = x_group ty \<and> \<not> other_granted (lr_txn_id r) q"
  by (auto simp: core_ok_def excl_ok_def)

lemma core_not_x: "core_ok ty W q \<Longrightarrow> group_mode q \<noteq> x_group ty \<Longrightarrow> r \<in> set (request_queue q) \<Longrightarrow> granted r \<Longrightarrow> lock_mode r \<noteq> EXLUCSIVE"
  using core_excl by blast

text \<open>A transaction that does not wait and is in the queue is granted there.\<close>

lemma running_member:
  assumes "core_ok ty W q" and "\<not> W t" and "t \<in> ids q"
  shows "\<exists>r\<in>set (request_queue q). lr_txn_id r = t \<and> granted r" and "group_mode q \<noteq> NO_LOCK" and "\<not> other_write t q"
proof -
  obtain r where r: "r \<in> set (request_queue q)" "lr_txn_id r = t" using assms(3) by (auto simp: ids_def)
  have g: "granted r" using core_granted [OF assms(1) r(1)] assms(2) r(2) by simp
  show "\<exists>r\<in>set (request_queue q). lr_txn_id r = t \<and> granted r" using r g by blast
  show "group_mode q \<noteq> NO_LOCK" using assms(1) r(1) g by (auto simp: core_ok_def mode_set_def)
  show "\<not> other_write t q"
  proof
    assume "other_write t q"
    then obtain r' where r': "r' \<in> set (request_queue q)" "lr_txn_id r' \<noteq> t" "granted r'" "lock_mode r' = EXLUCSIVE"
      by (auto simp: other_write_def)
    from core_excl [OF assms(1) r'(1,3,4)] r g r'(2) show False by (auto simp: other_granted_def)
  qed
qed

text \<open>Setting the granted flag of a request that is granted changes nothing.\<close>

lemma regrant_same:
  assumes "core_ok ty W q" and "\<not> W t"
  shows "upd_req t (\<lambda>r. r\<lparr>granted := True\<rparr>) q = q"
proof -
  have "map (\<lambda>r. if lr_txn_id r = t then r\<lparr>granted := True\<rparr> else r) (request_queue q) = request_queue q"
    by (rule map_idI) (use core_granted [OF assms(1)] assms(2) in auto)
  then show ?thesis using upd_req_set [OF assms(1)] by (simp add: upd_req_def)
qed

lemma ids_push [simp]: "ids (push_req r q) = insert (lr_txn_id r) (ids q)"
  by (auto simp: ids_def push_req_def)

lemma ids_group [simp]: "ids (q\<lparr>group_mode := g\<rparr>) = ids q" "ids (q\<lparr>upgrading := n\<rparr>) = ids q" "ids (q\<lparr>insert_keys := ks\<rparr>) = ids q"
  by (simp_all add: ids_def)

lemma ids_upd:
  assumes "core_ok ty W q" and "\<And>r. lr_txn_id (f r) = lr_txn_id r"
  shows "ids (upd_req t f q) = ids q"
proof -
  have "lr_txn_id ` set (map (\<lambda>r. if lr_txn_id r = t then f r else r) (request_queue q)) = lr_txn_id ` set (request_queue q)"
    unfolding set_map image_image by (rule image_cong) (use assms(2) in simp_all)
  then show ?thesis by (simp only: ids_def upd_req_set [OF assms(1)])
qed

lemma push_simps [simp]:
  "group_mode (push_req r q) = group_mode q" "insert_keys (push_req r q) = insert_keys q" "upgrading (push_req r q) = upgrading q"
  by (simp_all add: push_req_def)

lemma LockRequest_init_simps [simp]:
  "lr_txn_id (LockRequest_init t m) = t" "lock_mode (LockRequest_init t m) = m" "\<not> granted (LockRequest_init t m)"
  "lr_gaps (LockRequest_init t m) = []"
  by (simp_all add: LockRequest_init_def)

lemma call_ok_guard:
  assumes "table_ok W tbl" and "\<And>l. \<not> W t l" and "t_id txn = t" and "call_ok t W (txn, tbl) r"
  shows "call_ok t W (txn, tbl) (lock_guard (txn, tbl) r)"
  using assms no_wait_eq [of W t] by (auto simp: lock_guard_def call_ok_def)

lemma lock_shared_call_ok:
  assumes T: "table_ok W tbl" and W: "\<And>l. \<not> W t l" and t: "t_id txn = t"
  shows "call_ok t W (txn, tbl) (lock_shared_on_record rid fd (txn, tbl))"
proof -
  let ?l = "record_lock fd rid"
  define q where "q = get_queue tbl ?l"
  have q: "queue_ok RECORD (\<lambda>u. W u ?l) q" using table_ok_get [OF T, of ?l] by (simp add: q_def)
  then have c: "core_ok RECORD (\<lambda>u. W u ?l) q" by (simp add: queue_ok_def)
  have held: "shared_held ?l q (txn, tbl) = Some (Returns True, txn, put_queue ?l q tbl)" if "t \<in> ids q"
    using running_member(2,3) [OF c _ that] W core_group [OF c] regrant_same [OF c] t by (auto simp: shared_held_def)
  have new: "call_ok t W (txn, tbl) (shared_new ?l q (txn, tbl))" if n: "t \<notin> ids q"
  proof (cases "group_mode q = GM_X")
    case True
    have "core_ok RECORD (\<lambda>u. u = t \<or> W u ?l) (push_req (LockRequest_init t SHARED) q)"
      using core_push_wait [OF c, of "LockRequest_init t SHARED"] n by simp
    then show ?thesis using True T W t by (simp add: shared_new_def) (rule call_ok_waits, auto simp: q_def)
  next
    case False
    have "core_ok RECORD (\<lambda>u. W u ?l) ((push_req ((LockRequest_init t SHARED)\<lparr>granted := True\<rparr>) q)\<lparr>group_mode := GM_S\<rparr>)"
      by (rule core_push_grant [OF c]) (use n False core_not_x [OF c] in auto)
    then show ?thesis using False T W t by (simp add: shared_new_def) (rule call_ok_returns, auto simp: q_def queue_ok_def)
  qed
  have "call_ok t W (txn, tbl) (Returns True, txn, put_queue ?l q tbl)"
    by (rule call_ok_returns) (use T W t q in \<open>auto simp: q_def\<close>)
  then show ?thesis
    unfolding lock_shared_on_record_def using held new T W t
    by (intro call_ok_guard) (auto simp: Let_def find_req_None q_def [symmetric] split: option.splits)
qed

lemma gap_wait_skip:
  assumes "group_mode (get_queue tbl lt) \<noteq> GM_GAP" and "lr \<noteq> lt"
  shows "then_wait w (bindE (wait_die_on lr (txn, tbl)) (\<lambda>_ s. gap_wait_die_on lt s)) = then_wait w (wait_die_on lr (txn, tbl))"
  using assms by (auto simp: wait_die_on_def wait_die_def gap_wait_die_on_def)

lemma core_upgrading [simp]: "core_ok ty W (q\<lparr>upgrading := n\<rparr>) = core_ok ty W q"
  by (simp add: core_ok_def core_defs other_granted_def)

lemma core_clear [simp]: "core_ok ty W (clear_upgrading t q) = core_ok ty W q"
  by (simp add: clear_upgrading_def)

lemma clear_simps [simp]:
  "request_queue (clear_upgrading t q) = request_queue q" "group_mode (clear_upgrading t q) = group_mode q"
  "insert_keys (clear_upgrading t q) = insert_keys q" "ids (clear_upgrading t q) = ids q"
  by (simp_all add: clear_upgrading_def)

lemma core_upd_req_grant:
  assumes c: "core_ok ty W q" and t: "t \<in> ids q" and m: "mode_ok ty m" and g: "group_ok ty g" "g \<noteq> NO_LOCK"
    and x: "if m = EXLUCSIVE then g = x_group ty \<and> \<not> other_granted t q
            else (\<forall>r\<in>set (request_queue q). lr_txn_id r \<noteq> t \<and> granted r \<longrightarrow> lock_mode r \<noteq> EXLUCSIVE)"
    and f: "\<And>r. lr_txn_id r = t \<Longrightarrow> r \<in> set (request_queue q) \<Longrightarrow> lr_txn_id (f r) = t \<and> granted (f r) \<and> lock_mode (f r) = m \<and> lr_gaps (f r) = lr_gaps r"
  shows "core_ok ty W ((upd_req t f q)\<lparr>group_mode := g\<rparr>)"
  using core_upd_grant [OF c t m g x f] upd_req_set [OF c, of t f] by (simp add: upd_req_def)

lemma core_upd_req_wait:
  assumes c: "core_ok ty W q" and m: "mode_ok ty m"
    and f: "\<And>r. lr_txn_id r = t \<Longrightarrow> lr_txn_id (f r) = t \<and> \<not> granted (f r) \<and> lock_mode (f r) = m \<and> lr_gaps (f r) = lr_gaps r"
  shows "core_ok ty (\<lambda>u. u = t \<or> W u) (upd_req t f q)"
  using core_upd_wait [OF c m f] upd_req_set [OF c, of t f] by (simp add: upd_req_def)

lemma call_ok_throws:
  assumes "table_ok W tbl" and "\<And>l. \<not> W t l" and "t_id txn = t"
  shows "call_ok t W (txn, tbl) (Throws e, txn\<lparr>t_state := st\<rparr>, tbl)"
  using assms no_wait_eq [of W t "Throws e"] by (simp add: call_ok_def)

lemma exclusive_upgrade_call_ok:
  assumes T: "table_ok W tbl" and W: "\<And>l. \<not> W t l" and t: "t_id txn = t"
    and i: "t \<in> ids (get_queue tbl (record_lock fd rid))"
  shows "call_ok t W (txn, tbl) (exclusive_upgrade (record_lock fd rid) (table_lock fd) False (txn, tbl))"
proof -
  let ?l = "record_lock fd rid"
  define q where "q = (get_queue tbl ?l)\<lparr>upgrading := t\<rparr>"
  have c: "core_ok RECORD (\<lambda>u. W u ?l) q" using table_ok_get [OF T, of ?l] by (simp add: q_def queue_ok_def)
  have iq: "t \<in> ids q" "ids q = ids (get_queue tbl ?l)" using i by (simp_all add: q_def)
  have g: "group_mode (get_queue tbl (table_lock fd)) \<noteq> GM_GAP"
    using table_ok_get [OF T, of "table_lock fd"] by (auto simp: queue_ok_def dest!: core_group)
  show ?thesis
  proof (cases "upgrading (get_queue tbl ?l) = INVALID_TXN_ID")
    case False
    then show ?thesis using call_ok_throws [OF T W t] t by (simp add: exclusive_upgrade_def Let_def)
  next
    case up: True
    show ?thesis
    proof (cases "other_granted t q")
      case True
      let ?q = "upd_req t (\<lambda>r. r\<lparr>granted := False, lock_mode := EXLUCSIVE\<rparr>) q"
      have w: "core_ok RECORD (\<lambda>u. u = t \<or> W u ?l) ?q" by (rule core_upd_req_wait [OF c]) auto
      have "ids ?q = ids q" by (rule ids_upd [OF c]) simp
      then have "call_ok t W (txn, tbl) (then_wait (WaitUpgrade ?l) (wait_die_on ?l (txn, put_queue ?l ?q tbl)))"
        using iq by (intro call_ok_waits [OF T _ _ W t]) (simp_all add: w)
      then show ?thesis using up True t g by (simp add: exclusive_upgrade_def q_def gap_wait_skip)
    next
      case False
      let ?q = "clear_upgrading t ((upd_req t (\<lambda>r. r\<lparr>granted := True, lock_mode := EXLUCSIVE\<rparr>) q)\<lparr>group_mode := GM_X\<rparr>)"
      have w: "core_ok RECORD (\<lambda>u. W u ?l) ((upd_req t (\<lambda>r. r\<lparr>granted := True, lock_mode := EXLUCSIVE\<rparr>) q)\<lparr>group_mode := GM_X\<rparr>)"
        by (rule core_upd_req_grant [OF c iq(1), where m = EXLUCSIVE]) (use False in auto)
      have "ids ?q = ids q" using ids_upd [OF c, of "\<lambda>r. r\<lparr>granted := True, lock_mode := EXLUCSIVE\<rparr>" t] by simp
      then have "call_ok t W (txn, tbl) (Returns True, txn, put_queue ?l ?q tbl)"
        using iq w by (intro call_ok_returns [OF T _ W t]) (simp_all add: queue_ok_def)
      then show ?thesis using up False t by (simp add: exclusive_upgrade_def q_def)
    qed
  qed
qed

lemma exclusive_new_call_ok:
  assumes T: "table_ok W tbl" and W: "\<And>l. \<not> W t l" and t: "t_id txn = t"
    and i: "t \<notin> ids (get_queue tbl (record_lock fd rid))"
  shows "call_ok t W (txn, tbl) (exclusive_new (record_lock fd rid) (table_lock fd) False (txn, tbl))"
proof -
  let ?l = "record_lock fd rid" and ?lt = "table_lock fd" and ?r = "LockRequest_init t EXLUCSIVE"
  define q where "q = get_queue tbl ?l"
  have c: "core_ok RECORD (\<lambda>u. W u ?l) q" using table_ok_get [OF T, of ?l] by (simp add: q_def queue_ok_def)
  have g: "group_mode (get_queue tbl ?lt) \<noteq> GM_GAP"
    using table_ok_get [OF T, of ?lt] by (auto simp: queue_ok_def dest!: core_group)
  have og: "other_granted t (push_req ?r q) = (\<exists>r\<in>set (request_queue q). granted r)"
    using i by (auto simp: other_granted_def push_req_def q_def ids_def)
  have now: "call_ok t W (txn, tbl)
      (Returns True, add_lock ?lt (add_lock ?l txn), put_queue ?l ((push_req (?r\<lparr>granted := True\<rparr>) q)\<lparr>group_mode := GM_X\<rparr>) tbl)"
    if n: "\<forall>r\<in>set (request_queue q). \<not> granted r"
  proof -
    have "core_ok RECORD (\<lambda>u. W u ?l) ((push_req (?r\<lparr>granted := True\<rparr>) q)\<lparr>group_mode := GM_X\<rparr>)"
      by (rule core_push_grant [OF c]) (use i n in \<open>auto simp: q_def\<close>)
    then show ?thesis using t by (intro call_ok_returns [OF T _ W]) (auto simp: queue_ok_def q_def)
  qed
  have "core_ok RECORD (\<lambda>u. u = t \<or> W u ?l) (push_req ?r q)" using core_push_wait [OF c, of ?r] i by (simp add: q_def)
  then have wait: "call_ok t W (txn, tbl) (then_wait (WaitExclusive ?l ?lt) (wait_die_on ?l (txn, put_queue ?l (push_req ?r q) tbl)))"
    by (intro call_ok_waits [OF T _ _ W t]) (auto simp: q_def)
  show ?thesis
    using now wait og t g by (auto simp: exclusive_new_def Let_def q_def [symmetric] gap_wait_skip)
qed

lemma no_gap_hits: "core_ok ty W q \<Longrightarrow> \<not> list_ex (hits_gap k) (request_queue q)"
  by (auto simp: list_ex_iff hits_gap_def core_ok_def reqs_ok_def)

lemma call_ok_cong:
  assumes "call_ok t W (txn, tbl') r" and "\<And>l. ids (get_queue tbl' l) = ids (get_queue tbl l)"
  shows "call_ok t W (txn, tbl) r"
  using assms by (simp add: call_ok_def)

lemma queue_ok_key:
  assumes "queue_ok ty W q" and "\<not> is_waited k"
  shows "queue_ok ty W (q\<lparr>insert_keys := insert_keys q @ [k]\<rparr>)"
  using assms by (auto simp: queue_ok_def core_ok_def core_defs other_granted_def)

lemma lock_exclusive_call_ok:
  assumes T: "table_ok W tbl" and W: "\<And>l. \<not> W t l" and t: "t_id txn = t"
  shows "call_ok t W (txn, tbl) (lock_exclusive_on_record_gap rid fd key meta ih (txn, tbl))"
proof -
  let ?l = "record_lock fd rid" and ?lt = "table_lock fd"
  define k where "k = new_insert_key t rid key meta ih (get_queue tbl ?lt)"
  define tbl' where "tbl' = put_queue ?lt ((get_queue tbl ?lt)\<lparr>insert_keys := insert_keys (get_queue tbl ?lt) @ [k]\<rparr>) (put_queue ?l (get_queue tbl ?l) tbl)"
  have qt: "queue_ok TABLE (\<lambda>u. W u ?lt) (get_queue tbl ?lt)" and ql: "queue_ok RECORD (\<lambda>u. W u ?l) (get_queue tbl ?l)"
    using table_ok_get [OF T, of ?lt] table_ok_get [OF T, of ?l] by simp_all
  have kw: "\<not> is_waited k" using no_gap_hits qt by (auto simp: k_def new_insert_key_def Let_def queue_ok_def)
  have "table_ok W (put_queue ?l (get_queue tbl ?l) tbl)" by (rule table_ok_put [OF T]) (use ql in simp_all)
  then have T': "table_ok W tbl'" unfolding tbl'_def by (rule table_ok_put) (use queue_ok_key [OF qt kw] in simp_all)
  have i: "ids (get_queue tbl' l) = ids (get_queue tbl l)" for l by (simp add: tbl'_def)
  have ql': "get_queue tbl' ?l = get_queue tbl ?l" by (simp add: tbl'_def)
  have up: "call_ok t W (txn, tbl) (exclusive_upgrade ?l ?lt False (txn, tbl'))" if "t \<in> ids (get_queue tbl ?l)"
    by (rule call_ok_cong [OF exclusive_upgrade_call_ok [OF T' W t] i]) (use that i in simp)
  have new: "call_ok t W (txn, tbl) (exclusive_new ?l ?lt False (txn, tbl'))" if "t \<notin> ids (get_queue tbl ?l)"
    by (rule call_ok_cong [OF exclusive_new_call_ok [OF T' W t] i]) (use that i in simp)
  have same: "call_ok t W (txn, tbl) (Returns True, txn, tbl')"
    using T' t i no_wait_eq [of W t "Returns True"] W by (simp add: call_ok_def)
  have m: "lock_mode r = SHARED \<or> lock_mode r = EXLUCSIVE" "t \<in> ids (get_queue tbl ?l)" if "find_req t (get_queue tbl ?l) = Some r" for r
    using find_req_Some [OF that] ql by (auto simp: queue_ok_def ids_def dest: core_mode)
  have "call_ok t W (txn, tbl)
     (case find_req t (get_queue tbl' ?l) of
        Some r \<Rightarrow> if lock_mode r = SHARED then exclusive_upgrade ?l ?lt (is_waited k) (txn, tbl')
                  else if lock_mode r = EXLUCSIVE then (Returns True, txn, tbl') else exclusive_new ?l ?lt (is_waited k) (txn, tbl')
      | None \<Rightarrow> exclusive_new ?l ?lt (is_waited k) (txn, tbl'))"
    using up new same m kw find_req_None [of t "get_queue tbl ?l"] unfolding ql' by (auto split: option.splits)
  then have "call_ok t W (txn, tbl) (lock_guard (txn, tbl)
     (case find_req t (get_queue tbl' ?l) of
        Some r \<Rightarrow> if lock_mode r = SHARED then exclusive_upgrade ?l ?lt (is_waited k) (txn, tbl')
                  else if lock_mode r = EXLUCSIVE then (Returns True, txn, tbl') else exclusive_new ?l ?lt (is_waited k) (txn, tbl')
      | None \<Rightarrow> exclusive_new ?l ?lt (is_waited k) (txn, tbl')))"
    by (rule call_ok_guard [OF T W t])
  moreover have "get_queue (put_queue ?l (get_queue tbl ?l) tbl) ?lt = get_queue tbl ?lt" by simp
  ultimately show ?thesis
    unfolding lock_exclusive_on_record_gap_def Let_def prod.case t k_def tbl'_def by (simp only:)
qed

lemma own_unique:
  assumes "core_ok ty W q" and "r \<in> set (request_queue q)" and "r' \<in> set (request_queue q)" and "lr_txn_id r = lr_txn_id r'"
  shows "r = r'"
  using core_distinct [OF assms(1)] assms(2-4) by (auto simp: distinct_map inj_on_def)

lemma table_queue:
  assumes "table_ok W tbl"
  shows "core_ok TABLE (\<lambda>u. W u (table_lock fd)) (get_queue tbl (table_lock fd))"
    and "request_queue (get_queue tbl (table_lock fd)) \<noteq> [] \<Longrightarrow> group_mode (get_queue tbl (table_lock fd)) \<noteq> NO_LOCK"
    and "group_mode (get_queue tbl (table_lock fd)) \<in> {NO_LOCK, GM_IS, GM_IX, TAB_X}"
  using table_ok_get [OF assms, of "table_lock fd"] by (auto simp: queue_ok_def dest!: core_group)

lemma call_ok_same:
  assumes T: "table_ok W tbl" and W: "\<And>l. \<not> W t l" and t: "t_id txn = t"
  shows "call_ok t W (txn, tbl) (Returns True, txn, put_queue l (get_queue tbl l) tbl)"
  by (rule call_ok_returns [OF T _ W t]) (use table_ok_get [OF T] in auto)

text \<open>A new request on a table, granted with group mode \<open>g\<close> or left waiting.\<close>

lemma table_new_granted:
  assumes T: "table_ok W tbl" and W: "\<And>l. \<not> W t l" and t: "t_id txn = t" and i: "t \<notin> ids (get_queue tbl (table_lock fd))"
    and m: "mode_ok TABLE m" and g: "group_ok TABLE g" "g \<noteq> NO_LOCK"
    and x: "if m = EXLUCSIVE then g = TAB_X \<and> (\<forall>r'\<in>set (request_queue (get_queue tbl (table_lock fd))). \<not> granted r')
            else (\<forall>r'\<in>set (request_queue (get_queue tbl (table_lock fd))). granted r' \<longrightarrow> lock_mode r' \<noteq> EXLUCSIVE)"
  shows "call_ok t W (txn, tbl) (Returns True, add_lock (table_lock fd) txn,
    put_queue (table_lock fd) ((push_req ((LockRequest_init t m)\<lparr>granted := True\<rparr>) (get_queue tbl (table_lock fd)))\<lparr>group_mode := g\<rparr>) tbl)"
proof -
  have "core_ok TABLE (\<lambda>u. W u (table_lock fd)) ((push_req ((LockRequest_init t m)\<lparr>granted := True\<rparr>) (get_queue tbl (table_lock fd)))\<lparr>group_mode := g\<rparr>)"
    by (rule core_push_grant [OF table_queue(1) [OF T]]) (use i m g x in auto)
  then show ?thesis using t g by (intro call_ok_returns [OF T _ W]) (auto simp: queue_ok_def)
qed

lemma table_new_waits:
  assumes T: "table_ok W tbl" and W: "\<And>l. \<not> W t l" and t: "t_id txn = t" and i: "t \<notin> ids (get_queue tbl (table_lock fd))"
    and m: "mode_ok TABLE m" and g: "group_mode (get_queue tbl (table_lock fd)) \<noteq> NO_LOCK" and w: "plain_wait w" "lock_of w = table_lock fd" "\<not> is_upgrade w"
  shows "call_ok t W (txn, tbl) (then_wait w (wait_die_on (table_lock fd)
    (txn, put_queue (table_lock fd) (push_req (LockRequest_init t m) (get_queue tbl (table_lock fd))) tbl)))"
proof -
  have "core_ok TABLE (\<lambda>u. u = t \<or> W u (table_lock fd)) (push_req (LockRequest_init t m) (get_queue tbl (table_lock fd)))"
    using core_push_wait [OF table_queue(1) [OF T], of "LockRequest_init t m"] i m by simp
  then show ?thesis using g w by (intro call_ok_waits [OF T _ _ W t]) auto
qed

lemma push_same_group: "push_req r q = (push_req r q)\<lparr>group_mode := group_mode q\<rparr>"
  by (simp add: push_req_def)

lemma lock_IS_call_ok:
  assumes T: "table_ok W tbl" and W: "\<And>l. \<not> W t l" and t: "t_id txn = t"
  shows "call_ok t W (txn, tbl) (lock_IS_on_table fd (txn, tbl))"
proof -
  let ?l = "table_lock fd"
  define q where "q = get_queue tbl ?l"
  note tq = table_queue [OF T, of fd, folded q_def]
  have held: "IS_held ?l q (txn, tbl) = Some (Returns True, txn, put_queue ?l q tbl)" if i: "t \<in> ids q"
    using running_member(2,3) [OF tq(1) _ i] W tq(3) regrant_same [OF tq(1)] t by (auto simp: IS_held_def Let_def)
  have new: "call_ok t W (txn, tbl) (IS_new ?l q (txn, tbl))" if i: "t \<notin> ids q"
  proof -
    note gr = table_new_granted [OF T W t i [unfolded q_def], of INTENSION_SHARED, folded q_def]
    have nx: "\<forall>r'\<in>set (request_queue q). granted r' \<longrightarrow> lock_mode r' \<noteq> EXLUCSIVE" if "group_mode q \<noteq> TAB_X"
      using core_not_x [OF tq(1)] that by auto
    consider "request_queue q = []" | "request_queue q \<noteq> []" "group_mode q = GM_IS \<or> group_mode q = GM_IX"
      | "request_queue q \<noteq> []" "group_mode q = TAB_X" using tq(2,3) by auto
    then show ?thesis
    proof cases
      case 1
      then show ?thesis using gr [of GM_IS] t by (simp add: IS_new_def Let_def)
    next
      case 2
      then show ?thesis using gr [of "group_mode q"] nx t push_same_group [of _ q] by (auto simp: IS_new_def Let_def)
    next
      case 3
      then show ?thesis
        using table_new_waits [OF T W t i [unfolded q_def], of INTENSION_SHARED "WaitIS ?l", folded q_def] t by (simp add: IS_new_def Let_def)
    qed
  qed
  show ?thesis
    unfolding lock_IS_on_table_def using held new call_ok_same [OF T W t, of ?l, folded q_def]
    by (intro call_ok_guard [OF T W t]) (auto simp: Let_def find_req_None t q_def [symmetric])
qed

lemma IX_held_ok:
  assumes T: "table_ok W tbl" and W: "\<And>l. \<not> W t l" and t: "t_id txn = t" and i: "t \<in> ids (get_queue tbl (table_lock fd))"
  shows "\<exists>r. IX_held (table_lock fd) (get_queue tbl (table_lock fd)) (txn, tbl) = Some r \<and> call_ok t W (txn, tbl) r"
proof -
  let ?l = "table_lock fd"
  define q where "q = get_queue tbl ?l"
  note tq = table_queue [OF T, of fd, folded q_def] and i = i [folded q_def]
  obtain own where own: "own \<in> set (request_queue q)" "lr_txn_id own = t" "granted own"
    using running_member(1) [OF tq(1) _ i] W by auto
  have uniq: "r = own" if "lr_txn_id r = t" "r \<in> set (request_queue q)" for r using own_unique [OF tq(1) that(2) own(1)] that(1) own(2) by simp
  have upd: "call_ok t W (txn, tbl) (Returns True, txn, put_queue ?l ((upd_req t f q)\<lparr>group_mode := g\<rparr>) tbl)"
    if x: "group_mode q \<noteq> TAB_X" and g: "g = GM_IX"
      and f: "\<And>r. lr_txn_id (f r) = lr_txn_id r \<and> granted (f r) \<and> lr_gaps (f r) = lr_gaps r" "mode_ok TABLE (lock_mode (f own))" "lock_mode (f own) \<noteq> EXLUCSIVE" for f g
  proof -
    have "core_ok TABLE (\<lambda>u. W u ?l) ((upd_req t f q)\<lparr>group_mode := g\<rparr>)"
      by (rule core_upd_req_grant [OF tq(1) i, where m = "lock_mode (f own)"]) (use f g uniq core_not_x [OF tq(1)] x in auto)
    moreover have "ids ((upd_req t f q)\<lparr>group_mode := g\<rparr>) = ids q" using ids_upd [OF tq(1), of f t] f(1) by simp
    ultimately show ?thesis using i g by (intro call_ok_returns [OF T _ W t]) (auto simp: queue_ok_def q_def)
  qed
  have om: "mode_ok TABLE (lock_mode own)" "group_mode q \<noteq> TAB_X \<Longrightarrow> lock_mode own \<noteq> EXLUCSIVE"
    using core_mode [OF tq(1) own(1)] core_not_x [OF tq(1) _ own(1,3)] by auto
  have keep: "upd_req t f q = (upd_req t f q)\<lparr>group_mode := GM_IX\<rparr>" if "group_mode q = GM_IX" for f using that by (simp add: upd_req_def)
  consider "group_mode q = GM_IX" | "group_mode q = GM_IS" | "group_mode q = TAB_X" using tq(3) running_member(2) [OF tq(1) _ i] W by auto
  then have "\<exists>r. IX_held ?l q (txn, tbl) = Some r \<and> call_ok t W (txn, tbl) r"
  proof cases
    case 1
    have "call_ok t W (txn, tbl) (Returns True, txn,
        put_queue ?l ((upd_req t (\<lambda>r. r\<lparr>granted := True, lock_mode := (if lock_mode r = INTENSION_SHARED then INTENSION_EXLUCSIVE else lock_mode r)\<rparr>) q)\<lparr>group_mode := GM_IX\<rparr>) tbl)"
      by (rule upd) (use 1 om in auto)
    then show ?thesis using 1 t keep [OF 1] by (simp add: IX_held_def Let_def)
  next
    case 2
    have "call_ok t W (txn, tbl) (Returns True, txn,
        put_queue ?l ((upd_req t (\<lambda>r. r\<lparr>granted := True, lock_mode := INTENSION_EXLUCSIVE\<rparr>) q)\<lparr>group_mode := GM_IX\<rparr>) tbl)"
      by (rule upd) (use 2 in auto)
    then show ?thesis using 2 t by (simp add: IX_held_def Let_def)
  next
    case 3
    then show ?thesis
      using running_member(3) [OF tq(1) _ i] W t regrant_same [OF tq(1)] call_ok_same [OF T W t, of ?l, folded q_def]
      by (simp add: IX_held_def Let_def)
  qed
  then show ?thesis by (simp add: q_def)
qed

lemma lock_IX_call_ok:
  assumes T: "table_ok W tbl" and W: "\<And>l. \<not> W t l" and t: "t_id txn = t"
  shows "call_ok t W (txn, tbl) (lock_IX_on_table fd (txn, tbl))"
proof -
  let ?l = "table_lock fd"
  define q where "q = get_queue tbl ?l"
  note tq = table_queue [OF T, of fd, folded q_def]
  have new: "call_ok t W (txn, tbl) (IX_new ?l q (txn, tbl))" if i: "t \<notin> ids q"
  proof -
    note gr = table_new_granted [OF T W t i [unfolded q_def], of INTENSION_EXLUCSIVE GM_IX, folded q_def]
    have nx: "\<forall>r'\<in>set (request_queue q). granted r' \<longrightarrow> lock_mode r' \<noteq> EXLUCSIVE" if "group_mode q \<noteq> TAB_X"
      using core_not_x [OF tq(1)] that by auto
    have keep: "push_req r q = (push_req r q)\<lparr>group_mode := GM_IX\<rparr>" if "group_mode q = GM_IX" for r using that by (simp add: push_req_def)
    consider "request_queue q = []" | "request_queue q \<noteq> []" "group_mode q = GM_IX" | "request_queue q \<noteq> []" "group_mode q = GM_IS"
      | "request_queue q \<noteq> []" "group_mode q = TAB_X" using tq(2,3) by auto
    then show ?thesis
    proof cases
      case 1
      then show ?thesis using gr t by (simp add: IX_new_def Let_def)
    next
      case 2
      then show ?thesis using gr nx t keep [OF 2(2)] by (simp add: IX_new_def Let_def)
    next
      case 3
      then show ?thesis using gr nx t by (simp add: IX_new_def Let_def)
    next
      case 4
      then show ?thesis
        using table_new_waits [OF T W t i [unfolded q_def], of INTENSION_EXLUCSIVE "WaitIX ?l", folded q_def] t by (simp add: IX_new_def Let_def)
    qed
  qed
  show ?thesis
    unfolding lock_IX_on_table_def using IX_held_ok [OF T W t, of fd, folded q_def] new
    by (intro call_ok_guard [OF T W t]) (auto simp: Let_def find_req_None t q_def [symmetric])
qed

lemma lock_table_call_ok:
  assumes T: "table_ok W tbl" and W: "\<And>l. \<not> W t l" and t: "t_id txn = t"
  shows "call_ok t W (txn, tbl) (lock_exclusive_on_table fd (txn, tbl))"
proof -
  let ?l = "table_lock fd"
  define q where "q = get_queue tbl ?l"
  note tq = table_queue [OF T, of fd, folded q_def]
  have new: "call_ok t W (txn, tbl) (tab_new ?l q (txn, tbl))" if i: "t \<notin> ids q"
  proof (cases "request_queue q = []")
    case True
    then show ?thesis using table_new_granted [OF T W t i [unfolded q_def], of EXLUCSIVE TAB_X, folded q_def] t by (simp add: tab_new_def Let_def)
  next
    case False
    then show ?thesis
      using table_new_waits [OF T W t i [unfolded q_def], of EXLUCSIVE "WaitTabX ?l", folded q_def] t tq(2) by (simp add: tab_new_def Let_def)
  qed
  have held: "call_ok t W (txn, tbl) (tab_upgrade ?l q (txn, tbl))" if i: "t \<in> ids q"
  proof -
    define u where "u = q\<lparr>upgrading := t\<rparr>"
    have c: "core_ok TABLE (\<lambda>v. W v ?l) u" and iu: "t \<in> ids u" "ids u = ids q" and gu: "group_mode u = group_mode q"
      using tq(1) i by (simp_all add: u_def)
    have ng: "group_mode q \<noteq> NO_LOCK" by (rule running_member(2) [OF tq(1) _ i]) (use W in simp)
    have oh: "other_hold t u = other_granted t u" using tq(3) gu by (auto simp: other_hold_def other_granted_def)
    have w: "call_ok t W (txn, tbl) (then_wait (WaitTabUpgrade ?l)
        (wait_die_on ?l (txn, put_queue ?l (upd_req t (\<lambda>r. r\<lparr>granted := False, lock_mode := EXLUCSIVE\<rparr>) u) tbl)))"
    proof (rule call_ok_waits [OF T _ _ W t])
      show "core_ok (ld_type ?l) (\<lambda>v. v = t \<or> W v ?l) (upd_req t (\<lambda>r. r\<lparr>granted := False, lock_mode := EXLUCSIVE\<rparr>) u)"
        using core_upd_req_wait [OF c, of EXLUCSIVE t] by simp
    qed (use ng gu ids_upd [OF c, of "\<lambda>r. r\<lparr>granted := False, lock_mode := EXLUCSIVE\<rparr>" t] iu q_def in auto)
    have g: "call_ok t W (txn, tbl) (Returns True, txn,
        put_queue ?l (clear_upgrading t ((upd_req t (\<lambda>r. r\<lparr>granted := True, lock_mode := EXLUCSIVE\<rparr>) u)\<lparr>group_mode := TAB_X\<rparr>)) tbl)"
      if n: "\<not> other_granted t u"
    proof -
      have "core_ok TABLE (\<lambda>v. W v ?l) ((upd_req t (\<lambda>r. r\<lparr>granted := True, lock_mode := EXLUCSIVE\<rparr>) u)\<lparr>group_mode := TAB_X\<rparr>)"
        by (rule core_upd_req_grant [OF c iu(1), where m = EXLUCSIVE]) (use n in auto)
      then show ?thesis
        using ids_upd [OF c, of "\<lambda>r. r\<lparr>granted := True, lock_mode := EXLUCSIVE\<rparr>" t] iu
        by (intro call_ok_returns [OF T _ W t]) (auto simp: queue_ok_def q_def)
    qed
    have e: "call_ok t W (txn, tbl) (Throws e, txn\<lparr>t_state := ABORTED\<rparr>, put_queue ?l q tbl)" for e
    proof -
      have "table_ok W (put_queue ?l q tbl)" by (rule table_ok_put [OF T]) (use table_ok_get [OF T, of ?l] q_def in auto)
      then have "call_ok t W (txn, put_queue ?l q tbl) (Throws e, txn\<lparr>t_state := ABORTED\<rparr>, put_queue ?l q tbl)"
        using W t by (rule call_ok_throws)
      then show ?thesis by (rule call_ok_cong) (simp add: q_def)
    qed
    show ?thesis using w g e oh t by (simp add: tab_upgrade_def Let_def u_def [symmetric])
  qed
  show ?thesis
    unfolding lock_exclusive_on_table_def using held new find_req_None [of t q]
    by (intro call_ok_guard [OF T W t]) (auto simp: Let_def t q_def [symmetric] split: option.splits)
qed

section \<open>Releasing keeps the invariant\<close>

lemma regroup_record_fold:
  "fold regroup_record_step rs m =
     (if \<exists>r\<in>set rs. granted r \<and> lock_mode r = EXLUCSIVE then GM_X
      else if m = NO_LOCK \<and> (\<exists>r\<in>set rs. granted r \<and> lock_mode r = SHARED) then GM_S else m)"
  if "m = NO_LOCK \<or> m = GM_S \<or> m = GM_X"
  using that
proof (induction rs arbitrary: m)
  case (Cons r rs)
  have "regroup_record_step r m = NO_LOCK \<or> regroup_record_step r m = GM_S \<or> regroup_record_step r m = GM_X"
    using Cons.prems by (auto simp: regroup_record_step_def split: LockMode.splits)
  from Cons.IH [OF this] show ?case by (auto simp: regroup_record_step_def split: LockMode.splits)
qed simp

lemma regroup_table_fold:
  "fold regroup_table_step rs m =
     (if \<exists>r\<in>set rs. granted r \<and> lock_mode r = EXLUCSIVE then TAB_X
      else if m = TAB_X then TAB_X
      else if \<exists>r\<in>set rs. granted r \<and> lock_mode r = INTENSION_EXLUCSIVE then GM_IX
      else if m = NO_LOCK \<and> (\<exists>r\<in>set rs. granted r \<and> lock_mode r = INTENSION_SHARED) then GM_IS else m)"
  if "m = NO_LOCK \<or> m = GM_IS \<or> m = GM_IX \<or> m = TAB_X" and "\<forall>r\<in>set rs. lr_gaps r = []"
  using that
proof (induction rs arbitrary: m)
  case (Cons r rs)
  have s: "regroup_table_step r m = (if granted r
         then (case lock_mode r of EXLUCSIVE \<Rightarrow> TAB_X | INTENSION_EXLUCSIVE \<Rightarrow> if m \<noteq> TAB_X then GM_IX else m
               | INTENSION_SHARED \<Rightarrow> if m = NO_LOCK then GM_IS else m | _ \<Rightarrow> m) else m)"
    using Cons.prems by (auto simp: regroup_table_step_def split: LockMode.splits)
  have "regroup_table_step r m = NO_LOCK \<or> regroup_table_step r m = GM_IS \<or> regroup_table_step r m = GM_IX \<or> regroup_table_step r m = TAB_X"
    using Cons.prems(1) unfolding s by (auto split: LockMode.splits)
  moreover have "\<forall>r\<in>set rs. lr_gaps r = []" using Cons.prems(2) by simp
  ultimately have ih: "fold regroup_table_step rs (regroup_table_step r m) =
     (if \<exists>r\<in>set rs. granted r \<and> lock_mode r = EXLUCSIVE then TAB_X
      else if regroup_table_step r m = TAB_X then TAB_X
      else if \<exists>r\<in>set rs. granted r \<and> lock_mode r = INTENSION_EXLUCSIVE then GM_IX
      else if regroup_table_step r m = NO_LOCK \<and> (\<exists>r\<in>set rs. granted r \<and> lock_mode r = INTENSION_SHARED) then GM_IS
      else regroup_table_step r m)" by (rule Cons.IH)
  show ?case unfolding fold_simps ih unfolding s using Cons.prems(1) by (cases "granted r"; cases "lock_mode r") (simp_all, blast+)
qed simp

lemma core_regroup:
  assumes r: "reqs_ok ty W q" and x: "\<forall>r\<in>set (request_queue q). granted r \<and> lock_mode r = EXLUCSIVE \<longrightarrow> \<not> other_granted (lr_txn_id r) q"
  shows "core_ok ty W (regroup ty q)"
proof -
  have m: "\<forall>r\<in>set (request_queue q). mode_ok ty (lock_mode r) \<and> lr_gaps r = []" using r by (simp add: reqs_ok_def)
  have "reqs_ok ty W (regroup ty q)" using r by (simp add: reqs_ok_def regroup_def)
  moreover have og: "other_granted t (regroup ty q) = other_granted t q" for t by (simp add: regroup_def other_granted_def)
  moreover have "excl_ok ty (regroup ty q) \<and> mode_set ty (regroup ty q)"
  proof (cases ty)
    case TABLE
    have "group_mode (regroup ty q) = fold regroup_table_step (request_queue q) NO_LOCK" by (simp add: regroup_def TABLE)
    also have "\<dots> = (if \<exists>r\<in>set (request_queue q). granted r \<and> lock_mode r = EXLUCSIVE then TAB_X
      else if \<exists>r\<in>set (request_queue q). granted r \<and> lock_mode r = INTENSION_EXLUCSIVE then GM_IX
      else if \<exists>r\<in>set (request_queue q). granted r \<and> lock_mode r = INTENSION_SHARED then GM_IS else NO_LOCK)"
      using regroup_table_fold [of NO_LOCK "request_queue q"] m by simp
    finally have g: "group_mode (regroup ty q) = \<dots>" .
    have "request_queue (regroup ty q) = request_queue q" by (simp add: regroup_def)
    then show ?thesis using g x m TABLE unfolding excl_ok_def mode_set_def og by (auto split: if_splits)
  next
    case RECORD
    have "group_mode (regroup ty q) = fold regroup_record_step (request_queue q) NO_LOCK" by (simp add: regroup_def RECORD)
    also have "\<dots> = (if \<exists>r\<in>set (request_queue q). granted r \<and> lock_mode r = EXLUCSIVE then GM_X
      else if \<exists>r\<in>set (request_queue q). granted r \<and> lock_mode r = SHARED then GM_S else NO_LOCK)"
      using regroup_record_fold [of NO_LOCK "request_queue q"] by simp
    finally have g: "group_mode (regroup ty q) = \<dots>" .
    have "request_queue (regroup ty q) = request_queue q" by (simp add: regroup_def)
    then show ?thesis using g x m RECORD unfolding excl_ok_def mode_set_def og by (auto split: if_splits)
  qed
  ultimately show ?thesis by (simp add: core_ok_def)
qed

lemma core_set_req:
  assumes c: "core_ok ty W q" and i: "i < length (request_queue q)" and g: "group_ok ty g" "g \<noteq> NO_LOCK"
    and x: "if lock_mode (request_queue q ! i) = EXLUCSIVE then g = x_group ty \<and> \<not> other_granted (lr_txn_id (request_queue q ! i)) q
            else (\<forall>r\<in>set (request_queue q). lr_txn_id r \<noteq> lr_txn_id (request_queue q ! i) \<and> granted r \<longrightarrow> lock_mode r \<noteq> EXLUCSIVE)"
  shows "core_ok ty W ((set_req i ((request_queue q ! i)\<lparr>granted := True\<rparr>) q)\<lparr>group_mode := g\<rparr>)"
proof -
  let ?r = "request_queue q ! i"
  have r: "?r \<in> set (request_queue q)" using i by simp
  have "core_ok ty W (q\<lparr>request_queue := map (\<lambda>r. if lr_txn_id r = lr_txn_id ?r then ?r\<lparr>granted := True\<rparr> else r) (request_queue q), group_mode := g\<rparr>)"
    by (rule core_upd_grant [OF c _ core_mode [OF c r] g x]) (use r own_unique [OF c _ r] in \<open>auto simp: ids_def\<close>)
  then show ?thesis using list_update_map [OF core_distinct [OF c] i] by (simp add: set_req_def)
qed

definition grants_kept :: "LockRequestQueue \<Rightarrow> LockRequestQueue \<Rightarrow> bool" where
  "grants_kept q q' \<longleftrightarrow> ids q' = ids q \<and> length (request_queue q') = length (request_queue q) \<and> insert_keys q' = insert_keys q \<and>
     (group_mode q \<noteq> NO_LOCK \<longrightarrow> group_mode q' \<noteq> NO_LOCK)"

lemma grants_kept_refl [simp]: "grants_kept q q"
  by (simp add: grants_kept_def)

lemma grants_kept_trans: "grants_kept p q \<Longrightarrow> grants_kept q r \<Longrightarrow> grants_kept p r"
  by (auto simp: grants_kept_def)

lemma grants_kept_set:
  assumes "i < length (request_queue q)" and "g \<noteq> NO_LOCK"
  shows "grants_kept q ((set_req i ((request_queue q ! i)\<lparr>granted := True\<rparr>) q)\<lparr>group_mode := g\<rparr>)"
proof -
  have "map lr_txn_id ((request_queue q)[i := (request_queue q ! i)\<lparr>granted := True\<rparr>]) = map lr_txn_id (request_queue q)"
    using assms(1) by (simp add: map_update list_update_same_conv)
  then have "lr_txn_id ` set ((request_queue q)[i := (request_queue q ! i)\<lparr>granted := True\<rparr>]) = lr_txn_id ` set (request_queue q)"
    by (metis set_map)
  then show ?thesis using assms(2) by (simp add: grants_kept_def set_req_def ids_def)
qed

lemma grant_set_ok:
  assumes "core_ok ty W q" and "i < length (request_queue q)" and "group_ok ty g" and "g \<noteq> NO_LOCK"
    and "if lock_mode (request_queue q ! i) = EXLUCSIVE then g = x_group ty \<and> \<not> other_granted (lr_txn_id (request_queue q ! i)) q
         else (\<forall>r\<in>set (request_queue q). lr_txn_id r \<noteq> lr_txn_id (request_queue q ! i) \<and> granted r \<longrightarrow> lock_mode r \<noteq> EXLUCSIVE)"
    and "q' = (set_req i ((request_queue q ! i)\<lparr>granted := True\<rparr>) q)\<lparr>group_mode := g\<rparr>"
  shows "core_ok ty W q' \<and> grants_kept q q' \<and> group_mode q' = g"
  using core_set_req [OF assms(1-5)] grants_kept_set [OF assms(2,4)] assms(6) by simp

lemma grant_alone_ok:
  assumes "core_ok ty W q" and "i < length (request_queue q)" and "\<not> other_granted (lr_txn_id (request_queue q ! i)) q"
    and "q' = (set_req i ((request_queue q ! i)\<lparr>granted := True\<rparr>) q)\<lparr>group_mode := x_group ty\<rparr>"
  shows "core_ok ty W q' \<and> grants_kept q q' \<and> group_mode q' = x_group ty"
  by (rule grant_set_ok [OF assms(1,2) _ _ _ assms(4)]) (use assms(3) in \<open>cases ty; auto simp: other_granted_def\<close>)+

lemma grant_pending_ok:
  assumes c: "core_ok ty W q" and i: "i < length (request_queue q)" and q': "grant_pending ty i q = (b, q')"
  shows "core_ok ty W q' \<and> grants_kept q q' \<and> (ty = TABLE \<longrightarrow> group_mode q' \<noteq> NO_LOCK)"
proof -
  let ?r = "request_queue q ! i"
  have r: "?r \<in> set (request_queue q)" using i by simp
  have m: "mode_ok ty (lock_mode ?r)" by (rule core_mode [OF c r])
  have g: "group_ok ty (group_mode q)" by (rule core_group [OF c])
  have n: "group_mode q = NO_LOCK \<Longrightarrow> r \<in> set (request_queue q) \<Longrightarrow> \<not> granted r" for r using c by (simp add: core_ok_def mode_set_def)
  note gs = grant_set_ok [OF c i] and nx = core_not_x [OF c]
  show ?thesis
  proof (cases "granted ?r")
    case True
    then show ?thesis using q' c n [OF _ r] by (auto simp: grant_pending_def)
  next
    case ng: False
    show ?thesis
    proof (cases ty)
      case TABLE
      note tb = this
      consider "lock_mode ?r = EXLUCSIVE" | "lock_mode ?r = INTENSION_SHARED" | "lock_mode ?r = INTENSION_EXLUCSIVE" using m TABLE by auto
      then show ?thesis
      proof cases
        case 1
        show ?thesis
        proof (cases "group_mode q = NO_LOCK")
          case True
          then have "q' = (set_req i (?r\<lparr>granted := True\<rparr>) q)\<lparr>group_mode := TAB_X\<rparr>" using q' ng tb 1 by (simp add: grant_pending_def Let_def)
          from gs [OF _ _ _ this] show ?thesis using 1 tb n [OF True] by (auto simp: other_granted_def)
        next
          case False
          then show ?thesis using q' ng tb 1 c by (simp add: grant_pending_def Let_def)
        qed
      next
        case 2
        show ?thesis
        proof (cases "group_mode q = TAB_X")
          case False
          then have "q' = (set_req i (?r\<lparr>granted := True\<rparr>) q)\<lparr>group_mode := (if group_mode q = NO_LOCK then GM_IS else group_mode q)\<rparr>"
            using q' ng tb 2 by (simp add: grant_pending_def Let_def)
          from gs [OF _ _ _ this] show ?thesis using 2 tb g nx False by (auto split: if_splits)
        qed (use q' ng tb 2 c in \<open>simp add: grant_pending_def Let_def\<close>)
      next
        case 3
        show ?thesis
        proof (cases "group_mode q = TAB_X")
          case False
          then have "q' = (set_req i (?r\<lparr>granted := True\<rparr>) q)\<lparr>group_mode := (if group_mode q = NO_LOCK \<or> group_mode q = GM_IS then GM_IX else group_mode q)\<rparr>"
            using q' ng tb 3 by (simp add: grant_pending_def Let_def)
          from gs [OF _ _ _ this] show ?thesis using 3 tb g nx False by (auto split: if_splits)
        qed (use q' ng tb 3 c in \<open>simp add: grant_pending_def Let_def\<close>)
      qed
    next
      case RECORD
      show ?thesis
      proof (cases "lock_mode ?r = SHARED \<and> group_mode q \<noteq> GM_X")
        case True
        then have "q' = (set_req i (?r\<lparr>granted := True\<rparr>) q)\<lparr>group_mode := GM_S\<rparr>" using q' ng RECORD by (simp add: grant_pending_def Let_def)
        from gs [OF _ _ _ this] show ?thesis using True RECORD nx by auto
      next
        case False
        then show ?thesis using q' ng RECORD c by (auto simp: grant_pending_def Let_def)
      qed
    qed
  qed
qed

lemma grant_one_ok:
  assumes c: "core_ok ty W q" and i: "i < length (request_queue q)"
  shows "core_ok ty W (grant_one ty i q) \<and> grants_kept q (grant_one ty i q) \<and> (ty = TABLE \<longrightarrow> group_mode (grant_one ty i q) \<noteq> NO_LOCK)"
proof -
  obtain b p where p: "grant_pending ty i q = (b, p)" by (cases "grant_pending ty i q")
  note gp = grant_pending_ok [OF c i p]
  have cp: "core_ok ty W p" and ip: "i < length (request_queue p)" using gp i by (auto simp: grants_kept_def)
  have "lock_mode (request_queue p ! i) \<noteq> GAP" using core_mode [OF cp nth_mem [OF ip]] by (cases ty) auto
  then have gg: "grant_gaps ty i (b, p) = (b, p)" by (simp add: grant_gaps_def Let_def)
  show ?thesis
  proof (cases "ty = TABLE \<and> \<not> b \<and> lr_txn_id (request_queue p ! i) = upgrading p \<and> \<not> other_hold (lr_txn_id (request_queue p ! i)) p")
    case True
    have og: "\<not> other_granted (lr_txn_id (request_queue p ! i)) p" using True by (auto simp: other_hold_def other_granted_def)
    have e: "grant_one ty i q = (set_req i ((request_queue p ! i)\<lparr>granted := True\<rparr>) p)\<lparr>group_mode := TAB_X\<rparr>"
      unfolding grant_one_def p gg grant_upgrade_def prod.case Let_def by (rule if_P [OF True])
    then have "core_ok ty W (grant_one ty i q) \<and> grants_kept p (grant_one ty i q) \<and> group_mode (grant_one ty i q) = TAB_X"
      using grant_alone_ok [OF cp ip og] True by simp
    then show ?thesis using gp by (auto intro: grants_kept_trans)
  next
    case False
    then have "grant_one ty i q = p" unfolding grant_one_def p gg grant_upgrade_def prod.case Let_def by auto
    then show ?thesis using gp by metis
  qed
qed

lemma fold_ok:
  assumes "\<And>i q. core_ok ty W q \<Longrightarrow> i < length (request_queue q) \<Longrightarrow> core_ok ty W (f i q) \<and> grants_kept q (f i q)"
    and "core_ok ty W q" and "\<forall>i\<in>set is. i < length (request_queue q)"
  shows "core_ok ty W (fold f is q) \<and> grants_kept q (fold f is q)"
  using assms(2,3)
proof (induction "is" arbitrary: q)
  case (Cons i "is")
  have "core_ok ty W (f i q)" "grants_kept q (f i q)" using assms(1) Cons.prems by auto
  moreover have "core_ok ty W (fold f is (f i q)) \<and> grants_kept (f i q) (fold f is (f i q))"
    by (rule Cons.IH) (use calculation Cons.prems(2) in \<open>auto simp: grants_kept_def\<close>)
  ultimately show ?case by (auto intro: grants_kept_trans)
qed simp

lemma grant_lock_ok:
  assumes c: "core_ok ty W q"
  shows "queue_ok ty W (grant_lock ty q) \<and> grants_kept q (grant_lock ty q)"
proof (cases "request_queue q")
  case Nil
  then show ?thesis using c by (simp add: grant_lock_def queue_ok_def)
next
  case (Cons r rs)
  define p where "p = grant_one ty 0 q"
  have p: "core_ok ty W p" "grants_kept q p" "ty = TABLE \<longrightarrow> group_mode p \<noteq> NO_LOCK"
    using grant_one_ok [OF c, of 0] Cons by (simp_all add: p_def)
  have e: "grant_lock ty q = fold (grant_one ty) [1..<length (request_queue q)] p"
    using Cons by (simp add: grant_lock_def p_def upt_conv_Cons del: upt.simps)
  have "core_ok ty W (grant_lock ty q) \<and> grants_kept p (grant_lock ty q)"
    unfolding e by (rule fold_ok) (use grant_one_ok p in \<open>auto simp: grants_kept_def\<close>)
  then show ?thesis using p by (auto simp: queue_ok_def grants_kept_def)
qed

lemma grant_record_one_ok:
  assumes c: "core_ok RECORD W q" and i: "i < length (request_queue q)"
  shows "core_ok RECORD W (grant_record_one i q) \<and> grants_kept q (grant_record_one i q)"
proof -
  let ?r = "request_queue q ! i"
  have n: "group_mode q = NO_LOCK \<Longrightarrow> r \<in> set (request_queue q) \<Longrightarrow> \<not> granted r" for r using c by (simp add: core_ok_def mode_set_def)
  show ?thesis
  proof (cases "\<not> granted ?r \<and> (group_mode q = NO_LOCK \<and> lock_mode ?r = EXLUCSIVE \<or> lr_txn_id ?r = upgrading q \<and> \<not> other_granted (lr_txn_id ?r) q)")
    case True
    then have og: "\<not> other_granted (lr_txn_id ?r) q" using n by (auto simp: other_granted_def)
    have "grant_record_one i q = (set_req i (?r\<lparr>granted := True\<rparr>) q)\<lparr>group_mode := GM_X\<rparr>" using True by (auto simp: grant_record_one_def Let_def)
    then show ?thesis using grant_alone_ok [OF c i og] by simp
  next
    case False
    then have "grant_record_one i q = q" by (auto simp: grant_record_one_def Let_def)
    then show ?thesis using c by simp
  qed
qed

lemma core_erase:
  assumes c: "core_ok ty W q"
  shows "core_ok ty W (regroup ty (erase_req t (q\<lparr>insert_keys := filter P (insert_keys q)\<rparr>)))"
    and "ids (regroup ty (erase_req t (q\<lparr>insert_keys := filter P (insert_keys q)\<rparr>))) = ids q - {t}"
proof -
  have f: "request_queue (erase_req t (q\<lparr>insert_keys := filter P (insert_keys q)\<rparr>)) = filter (\<lambda>r. lr_txn_id r \<noteq> t) (request_queue q)"
    using remove_first_filter [OF core_distinct [OF c]] by (simp add: erase_req_def)
  have k: "insert_keys (erase_req t (q\<lparr>insert_keys := filter P (insert_keys q)\<rparr>)) = filter P (insert_keys q)" by (simp add: erase_req_def)
  show "core_ok ty W (regroup ty (erase_req t (q\<lparr>insert_keys := filter P (insert_keys q)\<rparr>)))"
    by (rule core_regroup) (use c in \<open>auto simp: f k core_ok_def reqs_ok_def excl_ok_def other_granted_def distinct_map_filter\<close>)
  show "ids (regroup ty (erase_req t (q\<lparr>insert_keys := filter P (insert_keys q)\<rparr>))) = ids q - {t}"
    using f by (auto simp: ids_def regroup_def)
qed

lemma core_erase_plain: "core_ok ty W q \<Longrightarrow> core_ok ty W (regroup ty (erase_req t q)) \<and> ids (regroup ty (erase_req t q)) = ids q - {t}"
  using core_erase [of ty W q t "\<lambda>_. True"] by simp

lemma table_ok_null: "table_ok W tbl \<Longrightarrow> tbl l = None \<Longrightarrow> table_ok W (tbl(l := Some None))"
  by (simp add: table_ok_def)

lemma get_null [simp]: "tbl l = None \<Longrightarrow> get_queue (tbl(l := Some None)) l' = get_queue tbl l'"
  by (simp add: get_queue_def)

lemma queue_ok_drop: "queue_ok ty W q \<Longrightarrow> queue_ok ty W (drop_keys t q)"
  by (simp add: drop_keys_def queue_ok_def core_ok_def core_defs other_granted_def)

lemma unlock_remove_ok:
  assumes T: "table_ok W tbl" and q: "tbl l = Some (Some q)"
  shows "\<exists>tbl0 q1. unlock_remove t l q tbl = put_queue l q1 tbl0 \<and> table_ok W tbl0 \<and> core_ok (ld_type l) (\<lambda>u. W u l) q1 \<and>
    ids q1 = ids q - {t} \<and> (\<forall>l'. ids (get_queue tbl0 l') = ids (get_queue tbl l'))"
proof -
  have c: "core_ok (ld_type l) (\<lambda>u. W u l) q" using T q by (simp add: table_ok_def queue_ok_def)
  have c': "core_ok TABLE (\<lambda>u. W u l) (regroup TABLE (erase_req t (drop_keys t q))) \<and> ids (regroup TABLE (erase_req t (drop_keys t q))) = ids q - {t}"
    if "ld_type l = TABLE" using core_erase [OF c, of t] that by (simp add: drop_keys_def)
  let ?lt = "table_lock (ld_fd l)"
  let ?tbl = "case tbl ?lt of None \<Rightarrow> tbl(?lt := Some None) | Some None \<Rightarrow> tbl | Some (Some qt) \<Rightarrow> put_queue ?lt (drop_keys t qt) tbl"
  have t1: "table_ok W ?tbl \<and> (\<forall>l'. ids (get_queue ?tbl l') = ids (get_queue tbl l'))"
  proof (cases "tbl ?lt")
    case None
    then show ?thesis using table_ok_null [OF T None] by simp
  next
    case (Some e)
    show ?thesis
    proof (cases e)
      case None
      then show ?thesis using Some T by simp
    next
      case (Some qt)
      with \<open>tbl ?lt = Some e\<close> have qt: "tbl ?lt = Some (Some qt)" by simp
      have "queue_ok TABLE (\<lambda>u. W u ?lt) (drop_keys t qt)"
        using queue_ok_drop table_ok_get [OF T, of ?lt] qt by (simp add: get_queue_def)
      then have "table_ok W (put_queue ?lt (drop_keys t qt) tbl)" by (intro table_ok_put [OF T]) simp_all
      moreover have "get_queue tbl ?lt = qt" by (simp add: get_queue_def qt)
      ultimately show ?thesis using qt by (auto simp: drop_keys_def ids_def)
    qed
  qed
  consider "(group_mode q = GM_GAP \<or> group_mode q = TAB_X) \<and> ld_type l = TABLE"
    | "\<not> ((group_mode q = GM_GAP \<or> group_mode q = TAB_X) \<and> ld_type l = TABLE)" "group_mode q = GM_X \<and> ld_type l = RECORD"
    | "\<not> ((group_mode q = GM_GAP \<or> group_mode q = TAB_X) \<and> ld_type l = TABLE)" "\<not> (group_mode q = GM_X \<and> ld_type l = RECORD)" by blast
  then show ?thesis
  proof cases
    case 1
    then have "unlock_remove t l q tbl = put_queue l (regroup TABLE (erase_req t (drop_keys t q))) tbl" by (simp add: unlock_remove_def)
    then show ?thesis using c' 1 T by auto
  next
    case 2
    then have "unlock_remove t l q tbl = put_queue l (regroup RECORD (erase_req t q)) ?tbl" by (simp add: unlock_remove_def Let_def)
    then show ?thesis using core_erase_plain [OF c, of t] 2(2) t1 by auto
  next
    case 3
    then have "unlock_remove t l q tbl = put_queue l (regroup (ld_type l) (erase_req t q)) tbl" by (auto simp: unlock_remove_def)
    then show ?thesis using core_erase_plain [OF c, of t] T by auto
  qed
qed

lemma grant_waited_none:
  assumes "\<forall>k\<in>set (insert_keys (get_queue tbl l)). \<not> is_waited k" and "\<forall>i\<in>set is. i < length (insert_keys (get_queue tbl l))"
  shows "grant_waited_keys l is tbl = (Inr (), tbl)"
  using assms by (induction "is") (auto simp: grant_waited_key_def Let_def)

lemma grant_record_ok:
  assumes T: "table_ok W tbl" and l: "ld_type l = RECORD"
  shows "table_ok W (grant_record l tbl) \<and> (\<forall>l'. ids (get_queue (grant_record l tbl) l') = ids (get_queue tbl l'))"
proof -
  let ?q = "get_queue tbl l"
  let ?q' = "fold grant_record_one [0..<length (request_queue ?q)] ?q"
  have c: "core_ok RECORD (\<lambda>u. W u l) ?q" using table_ok_get [OF T, of l] l by (simp add: queue_ok_def)
  have f: "core_ok RECORD (\<lambda>u. W u l) ?q' \<and> grants_kept ?q ?q'" by (rule fold_ok) (use grant_record_one_ok c in auto)
  then have "table_ok W (put_queue l ?q' tbl)" by (intro table_ok_put [OF T]) (simp_all add: queue_ok_def l)
  then show ?thesis
    using T f table_ok_null [OF T] by (auto simp: grant_record_def Let_def grants_kept_def split: option.splits)
qed

lemma unlock_regrant_ok:
  assumes T: "table_ok W tbl" and c: "core_ok (ld_type l) (\<lambda>u. W u l) q"
  shows "\<exists>tbl'. unlock_regrant t l (put_queue l q tbl) = (Inr (), tbl') \<and> table_ok W tbl' \<and> ids (get_queue tbl' l) = ids q \<and>
    (\<forall>l'. l' \<noteq> l \<longrightarrow> ids (get_queue tbl' l') = ids (get_queue tbl l'))"
proof -
  define p where "p = clear_upgrading t q"
  have cp: "core_ok (ld_type l) (\<lambda>u. W u l) p" using c by (simp add: p_def)
  note g = grant_lock_ok [OF cp]
  define tbl1 where "tbl1 = put_queue l (grant_lock (ld_type l) p) tbl"
  have T1: "table_ok W tbl1" unfolding tbl1_def by (rule table_ok_put [OF T]) (use g in simp_all)
  have i1: "ids (get_queue tbl1 l) = ids q" "insert_keys (get_queue tbl1 l) = insert_keys p" "l' \<noteq> l \<Longrightarrow> get_queue tbl1 l' = get_queue tbl l'" for l'
    using g by (simp_all add: tbl1_def grants_kept_def p_def)
  consider "request_queue p = [] \<and> insert_keys p = []" | "\<not> (request_queue p = [] \<and> insert_keys p = [])" "ld_type l = TABLE"
    | "\<not> (request_queue p = [] \<and> insert_keys p = [])" "ld_type l = RECORD" by (cases "ld_type l") auto
  then show ?thesis
  proof cases
    case 1
    then have "unlock_regrant t l (put_queue l q tbl) = (Inr (), (put_queue l q tbl)(l := None))"
      by (simp add: unlock_regrant_def Let_def p_def)
    moreover have "table_ok W ((put_queue l q tbl)(l := None))" using T by (auto simp: table_ok_def put_queue_def)
    moreover have "ids q = {}" using 1 by (simp add: p_def ids_def)
    ultimately show ?thesis by (auto simp: get_queue_def put_queue_def new_queue_def ids_def)
  next
    case 2
    have "\<forall>k\<in>set (insert_keys p). \<not> is_waited k" using cp by (simp add: core_ok_def reqs_ok_def)
    then have "grant_waited_keys l [0..<length (insert_keys p)] tbl1 = (Inr (), tbl1)" by (intro grant_waited_none) (auto simp: i1)
    then have "unlock_regrant t l (put_queue l q tbl) = (Inr (), tbl1)"
      using 2 by (auto simp: unlock_regrant_def Let_def p_def tbl1_def)
    then show ?thesis using T1 i1 by auto
  next
    case 3
    then have "unlock_regrant t l (put_queue l q tbl) = (Inr (), grant_record l tbl1)"
      by (auto simp: unlock_regrant_def Let_def p_def tbl1_def)
    then show ?thesis using grant_record_ok [OF T1 3(2)] i1 by auto
  qed
qed

lemma unlock_shape:
  assumes T: "table_ok W tbl" and t: "t_id txn = t"
  shows "\<exists>out tbl'. unlock l (txn, tbl) = (out, txn, tbl') \<and> table_ok W tbl' \<and> (\<forall>l. \<not> waits_at out l) \<and> out \<noteq> FallsOff \<and> (\<forall>w. out \<noteq> Waits w) \<and>
    t \<notin> ids (get_queue tbl' l) \<and> (\<forall>l'. ids (get_queue tbl' l') \<subseteq> ids (get_queue tbl l'))"
proof (cases "\<exists>q. tbl l = Some (Some q) \<and> t \<in> ids q")
  case False
  then have "t \<notin> ids (get_queue tbl l)" by (auto simp: get_queue_def new_queue_def ids_def split: option.splits)
  then show ?thesis using False T t find_req_None by (auto simp: unlock_def split: option.splits)
next
  case True
  then obtain q where q: "tbl l = Some (Some q)" "t \<in> ids q" by blast
  obtain tbl0 q1 where r: "unlock_remove t l q tbl = put_queue l q1 tbl0" "table_ok W tbl0" "core_ok (ld_type l) (\<lambda>u. W u l) q1"
    "ids q1 = ids q - {t}" "\<forall>l'. ids (get_queue tbl0 l') = ids (get_queue tbl l')" using unlock_remove_ok [OF T q(1)] by blast
  obtain tbl' where g: "unlock_regrant t l (put_queue l q1 tbl0) = (Inr (), tbl')" "table_ok W tbl'" "ids (get_queue tbl' l) = ids q1"
    "\<forall>l'. l' \<noteq> l \<longrightarrow> ids (get_queue tbl' l') = ids (get_queue tbl0 l')" using unlock_regrant_ok [OF r(2,3)] by blast
  have gl: "get_queue tbl l = q" using q(1) by (simp add: get_queue_def)
  have "ids (get_queue tbl' l') \<subseteq> ids (get_queue tbl l')" for l' using g r gl by (cases "l' = l") auto
  moreover have "unlock l (txn, tbl) = (Returns True, txn, tbl')" using q t r(1) g(1) find_req_None [of t q] by (simp add: unlock_def)
  ultimately show ?thesis using g(2,3) r(4) by auto
qed

lemma unlock_call_ok:
  assumes T: "table_ok W tbl" and W: "\<And>l. \<not> W t l" and t: "t_id txn = t"
  shows "call_ok t W (txn, tbl) (unlock l (txn, tbl))"
  using unlock_shape [OF T t, of l] no_wait_eq [of W t, OF W] t by (fastforce simp: call_ok_def)

lemma run_op_ok:
  assumes T: "table_ok W tbl" and W: "\<And>l. \<not> W t l" and t: "t_id txn = t" and "no_gaps op"
  shows "call_ok t W (txn, tbl) (run_op op (txn, tbl))"
  using assms lock_shared_call_ok [OF T W t] lock_exclusive_call_ok [OF T W t] lock_IS_call_ok [OF T W t] lock_IX_call_ok [OF T W t]
    lock_table_call_ok [OF T W t] unlock_call_ok [OF T W t]
  by (cases op) simp_all

section \<open>The invariant of the system\<close>

definition sys_W :: "lock_sys \<Rightarrow> waiting" where
  "sys_W sys t l = (case sys_waits sys t of Some w \<Rightarrow> lock_of w = l | None \<Rightarrow> False)"

definition lock_inv :: "lock_sys \<Rightarrow> bool" where
  "lock_inv sys \<longleftrightarrow>
     (\<forall>t. t_id (sys_txns sys t) = t) \<and>
     (\<forall>t w. sys_waits sys t = Some w \<longrightarrow> plain_wait w \<and> (is_upgrade w \<longrightarrow> lock_of w \<in> set (lock_set (sys_txns sys t)))) \<and>
     table_ok (sys_W sys) (sys_table sys) \<and>
     (\<forall>l t. t \<in> ids (get_queue (sys_table sys) l) \<longrightarrow> l \<in> set (lock_set (sys_txns sys t)) \<or> sys_W sys t l)"

lemma sys_W_after: "sys_W (after_call t out s sys) = wait_upd t out (sys_W sys)"
  by (auto simp: fun_eq_iff sys_W_def after_call_def wait_upd_def waits_at_def split: lock_outcome.splits)

lemma lock_inv_init: "lock_inv sys_init"
  by (simp add: lock_inv_def sys_init_def Transaction_init_def table_ok_def get_queue_def new_queue_def ids_def)

lemma lock_inv_call:
  assumes I: "lock_inv sys" and w: "sys_waits sys t = None" and c: "call_ok t (sys_W sys) (sys_txns sys t, sys_table sys) (out, s)"
  shows "lock_inv (after_call t out s sys)"
proof -
  obtain txn tbl where s: "s = (txn, tbl)" by (cases s)
  have cover: "u \<in> ids (get_queue (sys_table sys) l) \<Longrightarrow> l \<in> set (lock_set (sys_txns sys u)) \<or> sys_W sys u l" for u l
    using I by (simp add: lock_inv_def)
  have nw: "\<not> sys_W sys t l" for l using w by (simp add: sys_W_def)
  from c have k: "t_id txn = t" "\<And>w. out = Waits w \<Longrightarrow> plain_wait w \<and> (is_upgrade w \<longrightarrow> t \<in> ids (get_queue (sys_table sys) (lock_of w)))"
    "table_ok (wait_upd t out (sys_W sys)) tbl" "set (lock_set (sys_txns sys t)) \<subseteq> set (lock_set txn)"
    "\<And>l. t \<in> ids (get_queue tbl l) \<Longrightarrow> t \<in> ids (get_queue (sys_table sys) l) \<or> l \<in> set (lock_set txn) \<or> waits_at out l"
    "\<And>l u. u \<noteq> t \<Longrightarrow> u \<in> ids (get_queue tbl l) \<Longrightarrow> u \<in> ids (get_queue (sys_table sys) l)"
    unfolding call_ok_def s by auto
  have up: "lock_of w \<in> set (lock_set txn)" if "out = Waits w" "is_upgrade w" for w
    using k(2) [OF that(1)] that(2) cover [of t "lock_of w"] nw k(4) by auto
  have cov: "l \<in> set (lock_set (if u = t then txn else sys_txns sys u)) \<or> wait_upd t out (sys_W sys) u l" if "u \<in> ids (get_queue tbl l)" for u l
    using that k(4) k(5) [of l] k(6) [of u l] cover [of u l] nw by (auto simp: wait_upd_def)
  have wt: "plain_wait w' \<and> (is_upgrade w' \<longrightarrow> lock_of w' \<in> set (lock_set (if u = t then txn else sys_txns sys u)))"
    if "((sys_waits sys)(t := (case out of Waits w \<Rightarrow> Some w | _ \<Rightarrow> None))) u = Some w'" for u w'
    using that I k(2) up by (auto simp: lock_inv_def split: if_splits lock_outcome.splits)
  show ?thesis
    unfolding lock_inv_def sys_W_after using k(1,3) cov wt I by (auto simp: after_call_def s lock_inv_def)
qed

lemma core_awake:
  assumes c: "core_ok ty W q" and r: "r \<in> set (request_queue q)" "lr_txn_id r = t" "granted r"
  shows "core_ok ty (\<lambda>u. u \<noteq> t \<and> W u) q"
proof -
  have "granted r'" if "r' \<in> set (request_queue q)" "lr_txn_id r' = t" for r' using own_unique [OF c r(1) that(1)] that(2) r(2,3) by simp
  then show ?thesis using c by (auto simp: core_ok_def reqs_ok_def)
qed

lemma can_resume_granted:
  assumes "plain_wait w" and "can_resume w t tbl"
  shows "\<exists>r\<in>set (request_queue (get_queue tbl (lock_of w))). lr_txn_id r = t \<and> granted r"
proof -
  have "\<exists>r\<in>set (request_queue q). lr_txn_id r = t \<and> granted r" if "req_granted (find_req t q) \<or> req_granted (find_last t q)" for q
    using that find_req_Some [of t q] find_last_Some [of t q] by (auto simp: req_granted_def split: option.splits)
  then show ?thesis using assms by (cases w) auto
qed

text \<open>Resuming changes at most the group mode and the upgrading mark of the queue.\<close>

definition marked :: "LockDataType \<Rightarrow> LockRequestQueue \<Rightarrow> LockRequestQueue \<Rightarrow> bool" where
  "marked ty q q' \<longleftrightarrow> request_queue q' = request_queue q \<and> insert_keys q' = insert_keys q \<and> group_mode q' = x_group ty"

lemma core_marked: "core_ok ty W q \<Longrightarrow> marked ty q q' \<Longrightarrow> queue_ok ty W q'"
  by (cases ty) (auto simp: marked_def queue_ok_def core_ok_def core_defs other_granted_def)

lemma resume_shape:
  assumes "plain_wait w" and "resume w (txn, tbl) = (txn', tbl')"
  shows "(tbl' = tbl \<or> (\<exists>q'. tbl' = put_queue (lock_of w) q' tbl \<and> marked (ld_type (lock_of w)) (get_queue tbl (lock_of w)) q')) \<and>
    t_id txn' = t_id txn \<and> set (lock_set txn) \<subseteq> set (lock_set txn') \<and> (is_upgrade w \<or> lock_of w \<in> set (lock_set txn'))"
  using assms by (cases w) (auto simp: end_upgrade_def set_group_def Let_def marked_def)

lemma lock_inv_wake:
  assumes I: "lock_inv sys" and w: "sys_waits sys t = Some w" and r: "can_resume w t (sys_table sys)"
  shows "lock_inv (after_call t (Returns True) (resume w (sys_txns sys t, sys_table sys)) sys)"
proof -
  let ?l = "lock_of w" and ?tbl = "sys_table sys" and ?W = "wait_upd t (Returns True) (sys_W sys)"
  have pw: "plain_wait w" and T: "table_ok (sys_W sys) ?tbl" and up: "is_upgrade w \<longrightarrow> ?l \<in> set (lock_set (sys_txns sys t))"
    and cover: "\<And>u l. u \<in> ids (get_queue ?tbl l) \<Longrightarrow> l \<in> set (lock_set (sys_txns sys u)) \<or> sys_W sys u l"
    using I w by (auto simp: lock_inv_def)
  obtain txn' tbl' where s: "resume w (sys_txns sys t, ?tbl) = (txn', tbl')" by (cases "resume w (sys_txns sys t, ?tbl)")
  note sh = resume_shape [OF pw s]
  obtain q0 where q0: "q0 \<in> set (request_queue (get_queue ?tbl ?l))" "lr_txn_id q0 = t" "granted q0" using can_resume_granted [OF pw r] by blast
  have qo: "queue_ok (ld_type ?l) (\<lambda>u. sys_W sys u ?l) (get_queue ?tbl ?l)" by (rule table_ok_get [OF T])
  have cw: "core_ok (ld_type ?l) (\<lambda>u. ?W u ?l) (get_queue ?tbl ?l)"
  proof (rule core_ok_mono)
    show "core_ok (ld_type ?l) (\<lambda>u. u \<noteq> t \<and> sys_W sys u ?l) (get_queue ?tbl ?l)" using core_awake [OF _ q0] qo by (simp add: queue_ok_def)
  qed (auto simp: wait_upd_def)
  have other: "sys_W sys u l \<Longrightarrow> ?W u l" if "l \<noteq> ?l" for u l using that w by (auto simp: wait_upd_def sys_W_def)
  have keep: "table_ok ?W (put_queue ?l (get_queue ?tbl ?l) ?tbl)"
    by (rule table_ok_put [OF T]) (use cw qo other in \<open>auto simp: queue_ok_def\<close>)
  have same: "table_ok ?W ?tbl"
    unfolding table_ok_def
  proof (intro allI impI)
    fix l q assume q: "?tbl l = Some (Some q)"
    show "queue_ok (ld_type l) (\<lambda>u. ?W u l) q"
      using keep q T other by (cases "l = ?l") (auto simp: table_ok_def put_queue_def get_queue_def intro: queue_ok_mono)
  qed
  have x: "table_ok ?W (put_queue ?l q' ?tbl)" if "marked (ld_type ?l) (get_queue ?tbl ?l) q'" for q'
    by (rule table_ok_put [OF T]) (use core_marked [OF cw that] other in auto)
  have T': "table_ok ?W tbl'" using sh same x by auto
  have i: "ids (get_queue tbl' l) = ids (get_queue ?tbl l)" for l using sh by (cases "l = ?l") (auto simp: marked_def ids_def)
  have lk: "set (lock_set (sys_txns sys t)) \<subseteq> set (lock_set txn')" "?l \<in> set (lock_set txn')" "t_id txn' = t"
    using sh up I by (auto simp: lock_inv_def)
  have cov: "l \<in> set (lock_set (if u = t then txn' else sys_txns sys u)) \<or> ?W u l" if "u \<in> ids (get_queue tbl' l)" for u l
    using that cover [of u l] i lk w by (auto simp: wait_upd_def sys_W_def)
  show ?thesis
    unfolding lock_inv_def sys_W_after using T' cov lk(3) I by (auto simp: after_call_def s lock_inv_def)
qed

lemma lock_reachable_inv:
  assumes "lock_reachable no_gaps sys"
  shows "lock_inv sys"
  using assms
proof induction
  case start
  show ?case by (rule lock_inv_init)
next
  case (step sys sys')
  from step(2) show ?case
  proof cases
    case (call op t out s)
    have "call_ok t (sys_W sys) (sys_txns sys t, sys_table sys) (run_op op (sys_txns sys t, sys_table sys))"
      by (rule run_op_ok) (use step(3) call in \<open>auto simp: lock_inv_def sys_W_def\<close>)
    then show ?thesis using lock_inv_call [OF step(3) call(3)] call by simp
  next
    case (wake t w)
    then show ?thesis using lock_inv_wake [OF step(3)] by simp
  qed
qed

end
