(* ===== verification/LockProperties.thy ===== *)
theory LockProperties
  imports LockSafety
begin

text \<open>
  What the lock manager guarantees, and what it does not: mutual exclusion and complete release when no gap is
  locked and calls do not overlap, the wait-die rule, and histories in which transactions deadlock, a lock is never granted, or two
  transactions hold conflicting locks.
\<close>

section \<open>Properties\<close>

text \<open>
  C5: mutual exclusion for calls that do not overlap. Transactions call the lock manager in any order; each call runs
  alone until it returns, throws or waits, and a transaction that waited goes on alone once it is woken. In every state reached
  this way without locking gaps: when a transaction has an exclusive lock on a record or a table, no other transaction has any
  lock on it. Calls that overlap are not covered: \<open>unlock\<close> works on a queue without its latch, and
  \<open>overlapping_unlock_breaks_exclusion\<close> below shows what can happen then.
\<close>

theorem exclusive_lock_excludes:
  assumes "lock_reachable no_gaps sys" and "sys_table sys l = Some (Some q)"
    and "r \<in> set (request_queue q)" and "granted r" and "lock_mode r = EXLUCSIVE"
    and "r' \<in> set (request_queue q)" and "granted r'"
  shows "lr_txn_id r' = lr_txn_id r"
proof -
  have "table_ok (sys_W sys) (sys_table sys)" using lock_reachable_inv [OF assms(1)] by (simp add: lock_inv_def)
  then have "core_ok (ld_type l) (\<lambda>t. sys_W sys t l) q" using assms(2) by (auto simp: table_ok_def queue_ok_def)
  from core_excl [OF this assms(3-5)] show ?thesis using assms(6,7) by (auto simp: other_granted_def)
qed

text \<open>Sequences of calls.\<close>

fun calls :: "(int \<times> lock_op) list \<Rightarrow> lock_sys \<Rightarrow> lock_sys" where
  "calls [] sys = sys"
| "calls ((t, op) # ops) sys =
     (case run_op op (sys_txns sys t, sys_table sys) of (out, s) \<Rightarrow> calls ops (after_call t out s sys))"

fun latching :: "lock_outcome \<Rightarrow> bool" where
  "latching (Waits (WaitGapHeld l)) = True"
| "latching (Waits (WaitGapTable l)) = True"
| "latching _ = False"

fun callable :: "(lock_op \<Rightarrow> bool) \<Rightarrow> (int \<times> lock_op) list \<Rightarrow> lock_sys \<Rightarrow> bool" where
  "callable allowed [] sys \<longleftrightarrow> True"
| "callable allowed ((t, op) # ops) sys \<longleftrightarrow>
     allowed op \<and> sys_waits sys t = None \<and>
     (case run_op op (sys_txns sys t, sys_table sys) of (out, s) \<Rightarrow> \<not> latching out \<and> callable allowed ops (after_call t out s sys))"

lemma calls_reachable:
  assumes "lock_reachable allowed sys" and "\<And>u w l. sys_waits sys u = Some w \<Longrightarrow> \<not> keeps_latch w l" and "callable allowed ops sys"
  shows "lock_reachable allowed (calls ops sys)"
  using assms
proof (induction ops arbitrary: sys)
  case (Cons c ops)
  obtain t op where c: "c = (t, op)" by (cases c)
  obtain out s where r: "run_op op (sys_txns sys t, sys_table sys) = (out, s)" by (cases "run_op op (sys_txns sys t, sys_table sys)")
  have k: "allowed op" "sys_waits sys t = None" "\<not> latching out" "callable allowed ops (after_call t out s sys)"
    using Cons.prems(3) c r by simp_all
  have "lock_step allowed sys (after_call t out s sys)" using k(1,2) r Cons.prems(2) by (intro lock_step.call) auto
  with Cons.prems(1) have "lock_reachable allowed (after_call t out s sys)" by (rule lock_reachable.step)
  moreover have "\<not> keeps_latch w l" if "sys_waits (after_call t out s sys) u = Some w" for u w l
    using that Cons.prems(2) [of u w l] k(3) by (cases w) (auto simp: after_call_def split: if_splits lock_outcome.splits)
  ultimately show ?case using Cons.IH k(4) c r by simp
qed simp

lemma release_calls:
  assumes "table_ok W (sys_table sys)" and "t_id (sys_txns sys t) = t"
  shows "(\<forall>l. ids (get_queue (sys_table (calls (map (\<lambda>l. (t, Unlock l)) ls) sys)) l) \<subseteq> ids (get_queue (sys_table sys) l)) \<and>
    (\<forall>l\<in>set ls. t \<notin> ids (get_queue (sys_table (calls (map (\<lambda>l. (t, Unlock l)) ls) sys)) l))"
  using assms
proof (induction ls arbitrary: sys)
  case (Cons l ls)
  obtain out tbl' where u: "unlock l (sys_txns sys t, sys_table sys) = (out, sys_txns sys t, tbl')" "table_ok W tbl'"
    "t \<notin> ids (get_queue tbl' l)" "\<forall>l'. ids (get_queue tbl' l') \<subseteq> ids (get_queue (sys_table sys) l')"
    using unlock_shape [OF Cons.prems, of l] by blast
  let ?s = "after_call t out (sys_txns sys t, tbl') sys"
  have s: "sys_table ?s = tbl'" "t_id (sys_txns ?s t) = t" using Cons.prems(2) by (simp_all add: after_call_def)
  have e: "calls (map (\<lambda>l. (t, Unlock l)) (l # ls)) sys = calls (map (\<lambda>l. (t, Unlock l)) ls) ?s" using u(1) by simp
  from Cons.IH [of ?s] s u(2) show ?case unfolding e using u(3,4) by auto
qed simp

text \<open>
  C24: a transaction can release everything it requested. In every state reached by calls that do not overlap and lock no gaps,
  when a transaction that does not wait unlocks the locks of its lock set, in any order and without calls of others in
  between, no queue holds a request of it any more.
\<close>

theorem unlocking_the_lock_set_releases_all:
  assumes "lock_reachable no_gaps sys" and "sys_waits sys t = None" and "set ls = set (lock_set (sys_txns sys t))"
  shows "t \<notin> ids (get_queue (sys_table (calls (map (\<lambda>l. (t, Unlock l)) ls) sys)) l)"
proof -
  have I: "lock_inv sys" by (rule lock_reachable_inv [OF assms(1)])
  have "\<not> sys_W sys t l" using assms(2) by (simp add: sys_W_def)
  then have "t \<in> ids (get_queue (sys_table sys) l) \<longrightarrow> l \<in> set ls" using I assms(3) unfolding lock_inv_def by blast
  then show ?thesis using release_calls [of "sys_W sys" sys t ls] I by (auto simp: lock_inv_def)
qed

lemma wait_die_waits:
  assumes "then_wait w (wait_die_on l (txn, tbl)) = (Waits w', txn', tbl')"
  shows "w' = w \<and> (\<forall>r\<in>set (request_queue (get_queue tbl' l)). t_id txn \<le> lr_txn_id r)"
  using assms by (auto simp: then_wait_def wait_die_on_def wait_die_def not_less split: if_splits)

lemma wait_die_waits_gap:
  assumes "then_wait w (bindE (wait_die_on l (txn, tbl)) (\<lambda>_ s. gap_wait_die_on lt s)) = (Waits w', txn', tbl')"
  shows "w' = w \<and> (\<forall>r\<in>set (request_queue (get_queue tbl' l)). t_id txn \<le> lr_txn_id r)"
  using assms by (auto simp: then_wait_def wait_die_on_def wait_die_def gap_wait_die_on_def not_less split: if_splits)

lemma gap_wait_die_waits:
  assumes "then_wait w (bindE (gap_wait_die_on lt (txn, tbl)) (\<lambda>_ s. wait_die_on l s)) = (Waits w', txn', tbl')"
  shows "w' = w \<and> (\<forall>r\<in>set (request_queue (get_queue tbl' l)). t_id txn \<le> lr_txn_id r)"
  using assms by (auto simp: then_wait_def wait_die_on_def wait_die_def gap_wait_die_on_def not_less split: if_splits)

lemmas waits_dest = wait_die_waits wait_die_waits_gap gap_wait_die_waits

lemma unlock_not_waits: "unlock l s \<noteq> (Waits w, s')"
  by (auto simp: unlock_def split: prod.splits option.splits sum.splits)

text \<open>
  C32: wait-die. Whenever a call of any kind goes to wait, with gaps or without, its transaction is the oldest in the
  queue it waits in: every request there belongs to it or to a transaction with a greater number.
\<close>

theorem waiter_is_oldest:
  assumes "run_op op (txn, tbl) = (Waits w, txn', tbl')"
  shows "\<forall>r\<in>set (request_queue (get_queue tbl' (lock_of w))). t_id txn \<le> lr_txn_id r"
proof (cases op)
  case (LockShared rid fd)
  then show ?thesis using assms
    by (auto simp: lock_shared_on_record_def lock_guard_def shared_held_def shared_new_def Let_def split: if_splits option.splits dest!: waits_dest)
next
  case (LockExclusive rid fd key meta ih)
  then show ?thesis using assms
    by (auto simp: lock_exclusive_on_record_gap_def lock_guard_def exclusive_upgrade_def exclusive_new_def Let_def
        split: if_splits option.splits dest!: waits_dest)
next
  case (LockGap fd lo hi meta conds ih)
  then show ?thesis using assms
    by (auto simp: lock_GAP_on_table_def lock_guard_def gap_held_def gap_new_def Let_def split: if_splits option.splits dest!: waits_dest)
next
  case (LockIS fd)
  then show ?thesis using assms
    by (auto simp: lock_IS_on_table_def lock_guard_def IS_held_def IS_new_def Let_def split: if_splits option.splits dest!: waits_dest)
next
  case (LockIX fd)
  then show ?thesis using assms
    by (auto simp: lock_IX_on_table_def lock_guard_def IX_held_def IX_new_def Let_def split: if_splits option.splits dest!: waits_dest)
next
  case (LockTable fd)
  then show ?thesis using assms
    by (auto simp: lock_exclusive_on_table_def lock_guard_def tab_upgrade_def tab_new_def Let_def split: if_splits option.splits dest!: waits_dest)
next
  case (Unlock l)
  then show ?thesis using assms unlock_not_waits by simp
qed

section \<open>Histories\<close>

definition sample_key :: "int \<Rightarrow> bytes" where
  "sample_key i = int_bytes i"

definition ask_x :: "int \<Rightarrow> int \<Rightarrow> lock_op" where
  "ask_x slot k = LockExclusive (Rid 1 slot) 3 (sample_key k) sample_index 4"

definition ask_s :: "int \<Rightarrow> lock_op" where
  "ask_s slot = LockShared (Rid 1 slot) 3"

definition ask_gap :: "int \<Rightarrow> int \<Rightarrow> lock_op" where
  "ask_gap lo hi = LockGap 3 (Some (sample_key lo)) (Some (sample_key hi)) sample_index [] 4"

definition deadlock_history :: "(int \<times> lock_op) list" where
  "deadlock_history = [(1, ask_x 0 10), (5, ask_s 1), (1, ask_x 1 11), (0, ask_s 1), (0, ask_x 0 12), (5, Unlock (record_lock 3 (Rid 1 1)))]"

text \<open>
  Wait-die does not prevent deadlocks here, because a shared request is granted at once although an older
  request waits: transactions 1 and 0 come to wait for each other, no other transaction has a lock, and neither can go
  on.
\<close>

theorem wait_die_admits_deadlock:
  "lock_reachable no_gaps (calls deadlock_history sys_init) \<and>
   (\<exists>w0 w1. sys_waits (calls deadlock_history sys_init) 0 = Some w0 \<and> sys_waits (calls deadlock_history sys_init) 1 = Some w1 \<and>
     \<not> can_resume w0 0 (sys_table (calls deadlock_history sys_init)) \<and> \<not> can_resume w1 1 (sys_table (calls deadlock_history sys_init)))"
proof -
  have c: "callable no_gaps deadlock_history sys_init" by code_simp
  have r: "lock_reachable no_gaps (calls deadlock_history sys_init)"
    by (rule calls_reachable [OF lock_reachable.start _ c]) (simp add: sys_init_def)
  have "sys_waits (calls deadlock_history sys_init) 0 = Some (WaitExclusive (record_lock 3 (Rid 1 0)) (table_lock 3))" by code_simp
  moreover have "sys_waits (calls deadlock_history sys_init) 1 = Some (WaitExclusive (record_lock 3 (Rid 1 1)) (table_lock 3))" by code_simp
  moreover have "\<not> can_resume (WaitExclusive (record_lock 3 (Rid 1 0)) (table_lock 3)) 0 (sys_table (calls deadlock_history sys_init))" by code_simp
  moreover have "\<not> can_resume (WaitExclusive (record_lock 3 (Rid 1 1)) (table_lock 3)) 1 (sys_table (calls deadlock_history sys_init))" by code_simp
  ultimately show ?thesis using r by blast
qed

definition gap_history :: "(int \<times> lock_op) list" where
  "gap_history = [(5, ask_s 0), (7, ask_gap 0 20), (1, ask_x 0 10), (7, Unlock (table_lock 3))]"

definition lost_history :: "(int \<times> lock_op) list" where
  "lost_history = [(1, ask_gap 0 20), (2, ask_s 0), (1, ask_x 0 10), (2, Unlock (record_lock 3 (Rid 1 0)))]"

text \<open>
  With gap locks the guarantees fail. When a gap is released, an insertion that waited for it is granted its exclusive lock
  although another transaction still has a shared lock on the record; and a transaction that has locked a gap itself and
  waits for a record is not granted the lock when the only other holder releases it, so it waits with nobody
  left to wait for.
\<close>

theorem gap_locks_break_guarantees:
  "lock_reachable (\<lambda>op. True) (calls gap_history sys_init) \<and>
   map (\<lambda>r. (lr_txn_id r, lock_mode r, granted r)) (request_queue (get_queue (sys_table (calls gap_history sys_init)) (record_lock 3 (Rid 1 0)))) =
     [(5, SHARED, True), (1, EXLUCSIVE, True)] \<and>
   lock_reachable (\<lambda>op. True) (calls lost_history sys_init) \<and>
   map (\<lambda>r. (lr_txn_id r, lock_mode r, granted r)) (request_queue (get_queue (sys_table (calls lost_history sys_init)) (record_lock 3 (Rid 1 0)))) =
     [(1, EXLUCSIVE, False)]"
proof -
  have c: "callable (\<lambda>op. True) gap_history sys_init" "callable (\<lambda>op. True) lost_history sys_init" by code_simp+
  have r: "lock_reachable (\<lambda>op. True) (calls ops sys_init)" if "callable (\<lambda>op. True) ops sys_init" for ops
    by (rule calls_reachable [OF lock_reachable.start _ that]) (simp add: sys_init_def)
  have "map (\<lambda>r. (lr_txn_id r, lock_mode r, granted r)) (request_queue (get_queue (sys_table (calls gap_history sys_init)) (record_lock 3 (Rid 1 0)))) =
     [(5, SHARED, True), (1, EXLUCSIVE, True)]" by code_simp
  moreover have "map (\<lambda>r. (lr_txn_id r, lock_mode r, granted r)) (request_queue (get_queue (sys_table (calls lost_history sys_init)) (record_lock 3 (Rid 1 0)))) =
     [(1, EXLUCSIVE, False)]" by code_simp
  ultimately show ?thesis using r [OF c(1)] r [OF c(2)] by blast
qed

text \<open>
  The guarantees are about calls that do not overlap. In the source the queue latch of \<open>unlock\<close> is commented out, so another
  call can run between the erasure of the request and the assignment of the group mode that was computed for the requests that
  were left. \<open>unlock_first\<close> is the part of the release of a record before that point, and \<open>unlock_last\<close> the part from it on,
  with the group mode \<open>g\<close> computed before. When an exclusive request of another transaction comes in between, it is granted, its
  group mode is overwritten, and a third transaction is granted a shared lock on the same record.
\<close>

definition unlock_first :: "int \<Rightarrow> LockDataId \<Rightarrow> lock_sys \<Rightarrow> GroupMode \<times> lock_sys" where
  "unlock_first tid l sys =
     (let q = erase_req tid (get_queue (sys_table sys) l); lt = table_lock (ld_fd l)
      in (group_mode (regroup RECORD q),
          sys\<lparr>sys_table := put_queue l q (put_queue lt (drop_keys tid (get_queue (sys_table sys) lt)) (sys_table sys))\<rparr>))"

definition unlock_last :: "int \<Rightarrow> LockDataId \<Rightarrow> GroupMode \<Rightarrow> lock_sys \<Rightarrow> lock_sys" where
  "unlock_last tid l g sys =
     sys\<lparr>sys_table := snd (unlock_regrant tid l (put_queue l ((get_queue (sys_table sys) l)\<lparr>group_mode := g\<rparr>) (sys_table sys)))\<rparr>"

lemma unlock_in_two_parts:
  assumes "sys_table sys l = Some (Some q)" and "ld_type l = RECORD" and "group_mode q = GM_X" and "find_req t q \<noteq> None"
    and "sys_table sys (table_lock (ld_fd l)) = Some (Some qt)" and "t_id (sys_txns sys t) = t"
  shows "sys_table (case unlock_first t l sys of (g, sys) \<Rightarrow> unlock_last t l g sys) =
    snd (snd (unlock l (sys_txns sys t, sys_table sys)))"
proof -
  have ne: "table_lock (ld_fd l) \<noteq> l" using assms(2) by (cases l) (auto simp: table_lock_def)
  have "unlock_first t l sys = (group_mode (regroup RECORD (erase_req t q)),
      sys\<lparr>sys_table := put_queue l (erase_req t q) (put_queue (table_lock (ld_fd l)) (drop_keys t qt) (sys_table sys))\<rparr>)"
    using assms(1,5) by (simp add: unlock_first_def get_queue_def Let_def)
  moreover have "unlock_remove t l q (sys_table sys) =
      put_queue l (regroup RECORD (erase_req t q)) (put_queue (table_lock (ld_fd l)) (drop_keys t qt) (sys_table sys))"
    using assms(2,3,5) by (simp add: unlock_remove_def Let_def)
  moreover obtain r where "find_req t q = Some r" using assms(4) by blast
  ultimately show ?thesis using assms(1,6) ne
    by (simp add: unlock_last_def unlock_def get_queue_def put_queue_def regroup_def split: sum.splits prod.splits)
qed

theorem overlapping_unlock_breaks_exclusion:
  "case unlock_first 1 (record_lock 3 (Rid 1 0)) (calls [(1, LockIX 3), (1, ask_x 0 10)] sys_init) of
     (g, sys) \<Rightarrow>
       map (\<lambda>r. (lr_txn_id r, lock_mode r, granted r))
         (request_queue (get_queue (sys_table (calls [(3, ask_s 0)] (unlock_last 1 (record_lock 3 (Rid 1 0)) g
            (calls [(2, LockIX 3), (2, ask_x 0 11)] sys)))) (record_lock 3 (Rid 1 0)))) =
       [(2, EXLUCSIVE, True), (3, SHARED, True)]"
  by code_simp

section \<open>Witnesses\<close>

definition sample_history :: "(int \<times> lock_op) list" where
  "sample_history = [(1, LockIX 3), (1, ask_x 0 10), (2, LockIX 3), (2, ask_s 1)]"

lemma sample_history_reachable: "lock_reachable no_gaps (calls sample_history sys_init)"
proof -
  have "callable no_gaps sample_history sys_init" by code_simp
  then show ?thesis by (intro calls_reachable [OF lock_reachable.start]) (simp_all add: sys_init_def)
qed

definition sample_queue :: LockRequestQueue where
  "sample_queue = get_queue (sys_table (calls sample_history sys_init)) (record_lock 3 (Rid 1 0))"

theorem exclusive_lock_excludes_witness:
  "\<exists>r\<in>set (request_queue sample_queue). granted r \<and> lock_mode r = EXLUCSIVE \<and>
     (\<forall>r'\<in>set (request_queue sample_queue). granted r' \<longrightarrow> lr_txn_id r' = lr_txn_id r)"
proof -
  let ?r = "\<lparr>lr_txn_id = 1, lock_mode = EXLUCSIVE, granted = True, lr_gaps = []\<rparr>"
  have "request_queue sample_queue = [\<lparr>lr_txn_id = 1, lock_mode = EXLUCSIVE, granted = True, lr_gaps = []\<rparr>]" by code_simp
  then have r: "?r \<in> set (request_queue sample_queue)" by simp
  have q: "sys_table (calls sample_history sys_init) (record_lock 3 (Rid 1 0)) = Some (Some sample_queue)"
  proof -
    have "case sys_table (calls sample_history sys_init) (record_lock 3 (Rid 1 0)) of Some (Some q) \<Rightarrow> True | _ \<Rightarrow> False" by code_simp
    then show ?thesis by (auto simp: sample_queue_def get_queue_def split: option.splits)
  qed
  have "lr_txn_id r' = lr_txn_id ?r" if "r' \<in> set (request_queue sample_queue)" "granted r'" for r'
    by (rule exclusive_lock_excludes [OF sample_history_reachable q r _ _ that]) simp_all
  then show ?thesis by (intro bexI [OF _ r]) simp
qed

theorem unlocking_the_lock_set_releases_all_witness:
  "1 \<notin> ids (get_queue (sys_table (calls (map (\<lambda>l. (1, Unlock l)) [table_lock 3, record_lock 3 (Rid 1 0)]) (calls sample_history sys_init))) (table_lock 3))"
proof (rule unlocking_the_lock_set_releases_all [OF sample_history_reachable])
  show "sys_waits (calls sample_history sys_init) 1 = None" by code_simp
  have "set (lock_set (sys_txns (calls sample_history sys_init) 1)) = set [record_lock 3 (Rid 1 0), table_lock 3]" by code_simp
  then show "set [table_lock 3, record_lock 3 (Rid 1 0)] = set (lock_set (sys_txns (calls sample_history sys_init) 1))" by auto
qed

theorem waiter_is_oldest_witness:
  "\<exists>w txn tbl. run_op (ask_x 1 11) (sys_txns (calls sample_history sys_init) 1, sys_table (calls sample_history sys_init)) = (Waits w, txn, tbl) \<and>
     (\<forall>r\<in>set (request_queue (get_queue tbl (lock_of w))). t_id (sys_txns (calls sample_history sys_init) 1) \<le> lr_txn_id r)"
proof -
  let ?s = "(sys_txns (calls sample_history sys_init) 1, sys_table (calls sample_history sys_init))"
  have "case fst (run_op (ask_x 1 11) ?s) of Waits w \<Rightarrow> True | _ \<Rightarrow> False" by code_simp
  then obtain w txn tbl where r: "run_op (ask_x 1 11) ?s = (Waits w, txn, tbl)"
    by (cases "run_op (ask_x 1 11) ?s") (auto split: lock_outcome.splits)
  from waiter_is_oldest [OF this] r show ?thesis by blast
qed

end
