(* ===== verification/Bitmap.thy ===== *)
theory Bitmap
  imports Prelude
begin

unbundle bit_operations_syntax

text \<open>
  \<open>Bitmap\<close> of \<^verbatim>\<open>record/bitmap.h\<close>. A bitmap is a part of a page: the pointer \<open>bm\<close> is the offset of its
  first byte in the buffer it lives in. Bits are numbered from the most significant bit of
  the first byte.
\<close>

section \<open>The operations\<close>

definition BITMAP_WIDTH :: nat where
  "BITMAP_WIDTH = 8"

definition BITMAP_HIGHEST_BIT :: byte where
  "BITMAP_HIGHEST_BIT = 0x80"

definition get_bucket :: "nat \<Rightarrow> nat" where
  "get_bucket pos = pos div BITMAP_WIDTH"

definition get_bit :: "nat \<Rightarrow> byte" where
  "get_bit pos = drop_bit (pos mod BITMAP_WIDTH) BITMAP_HIGHEST_BIT"

definition bm_init :: "nat \<Rightarrow> nat \<Rightarrow> bytes \<Rightarrow> bytes" where
  "bm_init bm sz buf = memcpy buf bm (memset sz 0)"

definition bm_set :: "nat \<Rightarrow> nat \<Rightarrow> bytes \<Rightarrow> bytes" where
  "bm_set bm pos buf = buf[bm + get_bucket pos := (buf ! (bm + get_bucket pos)) OR get_bit pos]"

definition bm_reset :: "nat \<Rightarrow> nat \<Rightarrow> bytes \<Rightarrow> bytes" where
  "bm_reset bm pos buf = buf[bm + get_bucket pos := (buf ! (bm + get_bucket pos)) AND NOT (get_bit pos)]"

definition is_set :: "nat \<Rightarrow> nat \<Rightarrow> bytes \<Rightarrow> bool" where
  "is_set bm pos buf \<longleftrightarrow> (buf ! (bm + get_bucket pos)) AND get_bit pos \<noteq> 0"

function next_bit_from :: "bool \<Rightarrow> nat \<Rightarrow> nat \<Rightarrow> nat \<Rightarrow> bytes \<Rightarrow> nat" where
  "next_bit_from b bm max_n i buf =
     (if i < max_n then if is_set bm i buf = b then i else next_bit_from b bm max_n (i + 1) buf else max_n)"
  by pat_completeness auto

termination
  by (relation "measure (\<lambda>(b, bm, max_n, i, buf). max_n - i)") auto

declare next_bit_from.simps [simp del]

definition next_bit :: "bool \<Rightarrow> nat \<Rightarrow> nat \<Rightarrow> int \<Rightarrow> bytes \<Rightarrow> nat" where
  "next_bit b bm max_n cur buf = next_bit_from b bm max_n (nat (cur + 1)) buf"

definition first_bit :: "bool \<Rightarrow> nat \<Rightarrow> nat \<Rightarrow> bytes \<Rightarrow> nat" where
  "first_bit b bm max_n buf = next_bit b bm max_n (- 1) buf"

section \<open>Bits\<close>

lemma bit_get_bit: "bit (get_bit pos) k \<longleftrightarrow> k = 7 - pos mod 8"
proof -
  have h: "BITMAP_HIGHEST_BIT = 2 ^ 7" by (simp add: BITMAP_HIGHEST_BIT_def)
  have "bit BITMAP_HIGHEST_BIT k \<longleftrightarrow> k = 7" for k unfolding h bit_exp_iff by auto
  then have "bit (get_bit pos) k \<longleftrightarrow> pos mod 8 + k = 7"
    by (simp add: get_bit_def BITMAP_WIDTH_def bit_drop_bit_eq)
  moreover have "pos mod 8 < 8" by simp
  ultimately show ?thesis by arith
qed

lemma and_get_bit: "x AND get_bit pos \<noteq> 0 \<longleftrightarrow> bit x (7 - pos mod 8)" for x :: byte
proof -
  have "x AND get_bit pos = 0 \<longleftrightarrow> (\<forall>k < 8. \<not> bit (x AND get_bit pos) k)" by (simp add: bit_eq_iff)
  also have "\<dots> \<longleftrightarrow> \<not> bit x (7 - pos mod 8)"
    using less_Suc_eq_le [of "7 - pos mod 8" 7] by (auto simp: bit_and_iff bit_get_bit)
  finally show ?thesis by blast
qed

lemma is_set_bit: "is_set bm pos buf \<longleftrightarrow> bit (buf ! (bm + pos div 8)) (7 - pos mod 8)"
  by (simp add: is_set_def and_get_bit get_bucket_def BITMAP_WIDTH_def)

lemma bit_index_inj: "p div 8 = q div 8 \<Longrightarrow> 7 - p mod 8 = 7 - q mod 8 \<Longrightarrow> p = q" for p q :: nat
proof -
  assume d: "p div 8 = q div 8" and m: "7 - p mod 8 = 7 - q mod 8"
  have "p mod 8 < 8" "q mod 8 < 8" by simp_all
  with m have "p mod 8 = q mod 8" by arith
  with d show ?thesis by (metis div_mult_mod_eq)
qed

lemma length_bm [simp]: "length (bm_set bm pos buf) = length buf" "length (bm_reset bm pos buf) = length buf"
  by (simp_all add: bm_set_def bm_reset_def)

lemma is_set_bm_set:
  assumes "bm + p div 8 < length buf"
  shows "is_set bm q (bm_set bm p buf) \<longleftrightarrow> q = p \<or> is_set bm q buf"
proof (cases "q div 8 = p div 8")
  case True
  then show ?thesis
    using assms bit_index_inj [of q p]
    by (auto simp: is_set_bit bm_set_def get_bucket_def BITMAP_WIDTH_def bit_or_iff bit_get_bit)
next
  case False
  then have "q \<noteq> p" by auto
  with False show ?thesis by (simp add: is_set_bit bm_set_def get_bucket_def BITMAP_WIDTH_def)
qed

lemma is_set_bm_reset:
  assumes "bm + p div 8 < length buf"
  shows "is_set bm q (bm_reset bm p buf) \<longleftrightarrow> q \<noteq> p \<and> is_set bm q buf"
proof (cases "q div 8 = p div 8")
  case True
  have "7 - q mod 8 < (8 :: nat)" by simp
  with True show ?thesis
    using assms bit_index_inj [of q p]
    by (auto simp: is_set_bit bm_reset_def get_bucket_def BITMAP_WIDTH_def bit_and_iff bit_not_iff bit_get_bit)
next
  case False
  then have "q \<noteq> p" by auto
  with False show ?thesis by (simp add: is_set_bit bm_reset_def get_bucket_def BITMAP_WIDTH_def)
qed

lemma is_set_bm_init:
  assumes "bm + sz \<le> length buf" and "q div 8 < sz"
  shows "\<not> is_set bm q (bm_init bm sz buf)"
  using assms by (simp add: is_set_bit bm_init_def nth_memcpy memset_def)

text \<open>A bitmap is read only inside its own bytes.\<close>

lemma is_set_cong:
  "buf ! (bm + q div 8) = buf' ! (bm + q div 8) \<Longrightarrow> is_set bm q buf = is_set bm q buf'"
  by (simp add: is_set_bit)

lemma slice_bm_other:
  assumes "o2 + n \<le> bm + p div 8 \<or> bm + p div 8 < o2"
  shows "slice o2 n (bm_set bm p buf) = slice o2 n buf" "slice o2 n (bm_reset bm p buf) = slice o2 n buf"
proof -
  have "take n (drop o2 (buf[k := x])) = take n (drop o2 buf)" if "o2 + n \<le> k \<or> k < o2" for k and x :: byte
    using that by (auto simp: list_eq_iff_nth_eq)
  with assms show "slice o2 n (bm_set bm p buf) = slice o2 n buf" "slice o2 n (bm_reset bm p buf) = slice o2 n buf"
    by (simp_all add: slice_def bm_set_def bm_reset_def get_bucket_def BITMAP_WIDTH_def)
qed

section \<open>Searching\<close>

lemma next_bit_from_spec:
  "i \<le> max_n \<Longrightarrow> next_bit_from b bm max_n i buf \<le> max_n \<and> i \<le> next_bit_from b bm max_n i buf \<and>
     (\<forall>j. i \<le> j \<and> j < next_bit_from b bm max_n i buf \<longrightarrow> is_set bm j buf \<noteq> b) \<and>
     (next_bit_from b bm max_n i buf < max_n \<longrightarrow> is_set bm (next_bit_from b bm max_n i buf) buf = b)"
proof (induction b bm max_n i buf rule: next_bit_from.induct)
  case (1 b bm max_n i buf)
  show ?case
  proof (cases "i < max_n \<and> is_set bm i buf \<noteq> b")
    case True
    then have IH: "next_bit_from b bm max_n (i + 1) buf \<le> max_n \<and> i + 1 \<le> next_bit_from b bm max_n (i + 1) buf \<and>
       (\<forall>j. i + 1 \<le> j \<and> j < next_bit_from b bm max_n (i + 1) buf \<longrightarrow> is_set bm j buf \<noteq> b) \<and>
       (next_bit_from b bm max_n (i + 1) buf < max_n \<longrightarrow> is_set bm (next_bit_from b bm max_n (i + 1) buf) buf = b)"
      using 1 by simp
    have e: "next_bit_from b bm max_n i buf = next_bit_from b bm max_n (i + 1) buf"
      using True by (subst next_bit_from.simps) simp
    show ?thesis unfolding e using IH True by (metis Suc_eq_plus1 Suc_leI Suc_leD le_neq_implies_less)
  next
    case False
    then show ?thesis using 1(2) by (subst (1 2 3 4 5) next_bit_from.simps) auto
  qed
qed

lemma next_bit_from_eqI:
  assumes "i \<le> k" and "k < max_n" and "is_set bm k buf = b" and "\<And>j. i \<le> j \<Longrightarrow> j < k \<Longrightarrow> is_set bm j buf \<noteq> b"
  shows "next_bit_from b bm max_n i buf = k"
proof -
  let ?r = "next_bit_from b bm max_n i buf"
  have s: "i \<le> ?r" "\<forall>j. i \<le> j \<and> j < ?r \<longrightarrow> is_set bm j buf \<noteq> b" "?r < max_n \<longrightarrow> is_set bm ?r buf = b"
    using next_bit_from_spec [of i max_n b bm buf] assms(1,2) by auto
  have "\<not> k < ?r" using s(2) assms(1,3) by blast
  moreover have "\<not> ?r < k" using s(1,3) assms(2,4) by auto
  ultimately show ?thesis by simp
qed

lemma first_bit_spec:
  "first_bit b bm max_n buf \<le> max_n \<and> (\<forall>j < first_bit b bm max_n buf. is_set bm j buf \<noteq> b) \<and>
     (first_bit b bm max_n buf < max_n \<longrightarrow> is_set bm (first_bit b bm max_n buf) buf = b)"
  using next_bit_from_spec [of 0 max_n b bm buf] by (simp add: first_bit_def next_bit_def)

section \<open>Properties\<close>

text \<open>
  C36: \<open>set\<close>, \<open>reset\<close> and \<open>is_set\<close> are the operations of a set of positions, and \<open>next_bit\<close> finds
  the first position after \<open>cur\<close> with the wanted value, or returns \<open>max_n\<close> when there is none.
\<close>

theorem bitmap_is_set_of_positions:
  assumes "bm + p div 8 < length buf" and "- 1 \<le> cur" and "cur < int max_n"
  shows "(is_set bm q (bm_set bm p buf) \<longleftrightarrow> q = p \<or> is_set bm q buf) \<and>
    (is_set bm q (bm_reset bm p buf) \<longleftrightarrow> q \<noteq> p \<and> is_set bm q buf) \<and>
    next_bit b bm max_n cur buf = (LEAST i. nat (cur + 1) \<le> i \<and> (i < max_n \<longrightarrow> is_set bm i buf = b))"
proof -
  let ?r = "next_bit b bm max_n cur buf"
  have "nat (cur + 1) \<le> max_n" using assms(2,3) by arith
  then have s: "nat (cur + 1) \<le> ?r" "?r \<le> max_n" "\<forall>j. nat (cur + 1) \<le> j \<and> j < ?r \<longrightarrow> is_set bm j buf \<noteq> b"
      "?r < max_n \<longrightarrow> is_set bm ?r buf = b"
    using next_bit_from_spec [of "nat (cur + 1)" max_n b bm buf] by (simp_all add: next_bit_def)
  have "(LEAST i. nat (cur + 1) \<le> i \<and> (i < max_n \<longrightarrow> is_set bm i buf = b)) = ?r"
  proof (rule Least_equality)
    show "?r \<le> i" if "nat (cur + 1) \<le> i \<and> (i < max_n \<longrightarrow> is_set bm i buf = b)" for i
      using s(2,3) that by (meson leI le_trans order.strict_trans2)
  qed (use s in simp)
  then show ?thesis using is_set_bm_set [OF assms(1)] is_set_bm_reset [OF assms(1)] by simp
qed

theorem bitmap_is_set_of_positions_witness:
  "is_set 0 3 (bm_set 0 3 [0x80]) \<and> \<not> is_set 0 3 (bm_reset 0 3 [0xff]) \<and>
   next_bit False 0 8 0 [0xf0] = (LEAST i. nat (0 + 1) \<le> i \<and> (i < 8 \<longrightarrow> is_set 0 i [0xf0] = False))"
  using bitmap_is_set_of_positions [of 0 3 "[0x80]" 0 8 3 False] bitmap_is_set_of_positions [of 0 3 "[0xff]" 0 8 3 False]
    bitmap_is_set_of_positions [of 0 3 "[0xf0]" 0 8 3 False]
  by simp

end
