(* ===== verification/DiskManager.thy ===== *)
theory DiskManager
  imports Prelude
begin

text \<open>
  \<open>DiskManager\<close> of \<^verbatim>\<open>storage/disk_manager.cpp\<close>: pages of open files, the table of open
  files, page allocation and the log file, over the POSIX calls it makes.

  The POSIX part models what the code relies on: regular files as byte strings, descriptors
  with a file position, \<open>open\<close> with the lowest free descriptor, \<open>lseek\<close>, \<open>read\<close> that
  returns fewer bytes at the end of a file, \<open>write\<close> that fills a hole with zeros and writes
  fewer bytes when the file would pass the size limit, \<open>stat\<close> and \<open>unlink\<close>. Directories and
  the shell commands that make and remove them are left out.
\<close>

section \<open>POSIX files\<close>

record posix =
  px_files :: "string \<rightharpoonup> bytes"
  px_fds :: "int \<rightharpoonup> string \<times> nat"
  px_fd_limit :: nat
  px_max_file :: nat

definition px_new_fd :: "posix \<Rightarrow> int option" where
  "px_new_fd s = map_option int (find (\<lambda>i. px_fds s (int i) = None) [3 ..< px_fd_limit s])"

definition px_open :: "string \<Rightarrow> posix \<Rightarrow> int \<times> posix" where
  "px_open path s =
     (case px_files s path of
        None \<Rightarrow> (- 1, s)
      | Some _ \<Rightarrow>
          (case px_new_fd s of
             None \<Rightarrow> (- 1, s)
           | Some fd \<Rightarrow> (fd, s\<lparr>px_fds := (px_fds s)(fd \<mapsto> (path, 0))\<rparr>)))"

definition px_open_creat :: "string \<Rightarrow> posix \<Rightarrow> int \<times> posix" where
  "px_open_creat path s =
     (case px_new_fd s of
        None \<Rightarrow> (- 1, s)
      | Some fd \<Rightarrow>
          (fd, s\<lparr>px_files := (px_files s)(path \<mapsto> (case px_files s path of None \<Rightarrow> [] | Some c \<Rightarrow> c)),
                px_fds := (px_fds s)(fd \<mapsto> (path, 0))\<rparr>))"

definition px_close :: "int \<Rightarrow> posix \<Rightarrow> int \<times> posix" where
  "px_close fd s =
     (case px_fds s fd of None \<Rightarrow> (- 1, s) | Some _ \<Rightarrow> (0, s\<lparr>px_fds := (px_fds s)(fd := None)\<rparr>))"

definition px_lseek_set :: "int \<Rightarrow> int \<Rightarrow> posix \<Rightarrow> int \<times> posix" where
  "px_lseek_set fd off s =
     (case px_fds s fd of
        None \<Rightarrow> (- 1, s)
      | Some (path, _) \<Rightarrow>
          if off < 0 then (- 1, s) else (off, s\<lparr>px_fds := (px_fds s)(fd \<mapsto> (path, nat off))\<rparr>))"

definition px_lseek_end :: "int \<Rightarrow> posix \<Rightarrow> int \<times> posix" where
  "px_lseek_end fd s =
     (case px_fds s fd of
        None \<Rightarrow> (- 1, s)
      | Some (path, _) \<Rightarrow>
          (case px_files s path of
             None \<Rightarrow> (- 1, s)
           | Some c \<Rightarrow> (int (length c), s\<lparr>px_fds := (px_fds s)(fd \<mapsto> (path, length c))\<rparr>)))"

definition write_at :: "bytes \<Rightarrow> nat \<Rightarrow> bytes \<Rightarrow> bytes" where
  "write_at c pos b = (if b = [] then c else memcpy (c @ memset (pos - length c) 0) pos b)"

definition px_write :: "int \<Rightarrow> bytes \<Rightarrow> posix \<Rightarrow> int \<times> posix" where
  "px_write fd buf s =
     (case px_fds s fd of
        None \<Rightarrow> (- 1, s)
      | Some (path, pos) \<Rightarrow>
          (case px_files s path of
             None \<Rightarrow> (- 1, s)
           | Some c \<Rightarrow>
               let b = take (px_max_file s - pos) buf
               in (int (length b),
                   s\<lparr>px_files := (px_files s)(path \<mapsto> write_at c pos b),
                     px_fds := (px_fds s)(fd \<mapsto> (path, pos + length b))\<rparr>)))"

definition px_read :: "int \<Rightarrow> nat \<Rightarrow> posix \<Rightarrow> (int \<times> bytes) \<times> posix" where
  "px_read fd n s =
     (case px_fds s fd of
        None \<Rightarrow> ((- 1, []), s)
      | Some (path, pos) \<Rightarrow>
          (case px_files s path of
             None \<Rightarrow> ((- 1, []), s)
           | Some c \<Rightarrow>
               let b = slice pos n c
               in ((int (length b), b), s\<lparr>px_fds := (px_fds s)(fd \<mapsto> (path, pos + length b))\<rparr>)))"

definition px_unlink :: "string \<Rightarrow> posix \<Rightarrow> int \<times> posix" where
  "px_unlink path s =
     (case px_files s path of
        None \<Rightarrow> (- 1, s)
      | Some _ \<Rightarrow> (0, s\<lparr>px_files := (px_files s)(path := None)\<rparr>))"

section \<open>The disk manager\<close>

definition MAX_FD :: int where
  "MAX_FD = 8192"

definition LOG_FILE_NAME :: string where
  "LOG_FILE_NAME = ''db.log''"

record disk_manager =
  path2fd :: "string \<rightharpoonup> int"
  fd2path :: "int \<rightharpoonup> string"
  log_fd :: int
  fd2pageno :: "int \<Rightarrow> int"
  os :: posix

definition DiskManager_init :: "posix \<Rightarrow> disk_manager" where
  "DiskManager_init s =
     \<lparr>path2fd = Map.empty, fd2path = Map.empty, log_fd = - 1, fd2pageno = (\<lambda>_. 0), os = s\<rparr>"

text \<open>
  \<open>page_no * PAGE_SIZE\<close> is computed in \<open>int\<close> before it is widened to \<open>off_t\<close>.
\<close>

definition page_offset :: "int \<Rightarrow> int" where
  "page_offset page_no = to_int32 (page_no * int PAGE_SIZE)"

definition write_page :: "int \<Rightarrow> int \<Rightarrow> bytes \<Rightarrow> disk_manager \<Rightarrow> (unit, disk_manager) res" where
  "write_page fd page_no buf d =
     (let offset_in_file = page_offset page_no;
          (r, s1) = px_lseek_set fd offset_in_file (os d)
      in if r = - 1 then (Inl (RuntimeError ''DiskManager::write_page Error: lseek failed''), d\<lparr>os := s1\<rparr>)
         else let (bytes_written, s2) = px_write fd buf s1
              in if bytes_written \<noteq> int (length buf)
                 then (Inl (InternalError ''DiskManager::write_page Error''), d\<lparr>os := s2\<rparr>)
                 else (Inr (), d\<lparr>os := s2\<rparr>))"

definition read_page :: "int \<Rightarrow> int \<Rightarrow> nat \<Rightarrow> disk_manager \<Rightarrow> (bytes, disk_manager) res" where
  "read_page fd page_no num_bytes d =
     (let offset_in_file = page_offset page_no;
          (r, s1) = px_lseek_set fd offset_in_file (os d)
      in if r = - 1 then (Inl (InternalError ''DiskManager::read_page Error: lseek failed''), d\<lparr>os := s1\<rparr>)
         else let ((bytes_read, b), s2) = px_read fd num_bytes s1
              in if bytes_read \<noteq> int num_bytes
                 then (Inl (InternalError ''DiskManager::read_page Error''), d\<lparr>os := s2\<rparr>)
                 else (Inr b, d\<lparr>os := s2\<rparr>))"

text \<open>The bytes \<open>read_page\<close> leaves in the caller's buffer, also when it then throws.\<close>

definition read_page_bytes :: "int \<Rightarrow> int \<Rightarrow> nat \<Rightarrow> disk_manager \<Rightarrow> bytes" where
  "read_page_bytes fd page_no num_bytes d =
     (let (r, s1) = px_lseek_set fd (page_offset page_no) (os d)
      in if r = - 1 then [] else snd (fst (px_read fd num_bytes s1)))"

definition allocate_page :: "int \<Rightarrow> disk_manager \<Rightarrow> (int, disk_manager) res" where
  "allocate_page fd d =
     (if 0 \<le> fd \<and> fd < MAX_FD
      then (Inr (fd2pageno d fd), d\<lparr>fd2pageno := (fd2pageno d)(fd := to_int32 (fd2pageno d fd + 1))\<rparr>)
      else (Inl (AssertionFailed ''fd >= 0 && fd < MAX_FD''), d))"

definition set_fd2pageno :: "int \<Rightarrow> int \<Rightarrow> disk_manager \<Rightarrow> disk_manager" where
  "set_fd2pageno fd start_page_no d = d\<lparr>fd2pageno := (fd2pageno d)(fd := start_page_no)\<rparr>"

definition get_fd2pageno :: "int \<Rightarrow> disk_manager \<Rightarrow> int" where
  "get_fd2pageno fd d = fd2pageno d fd"

definition is_file :: "string \<Rightarrow> disk_manager \<Rightarrow> bool" where
  "is_file path d \<longleftrightarrow> px_files (os d) path \<noteq> None"

definition create_file :: "string \<Rightarrow> disk_manager \<Rightarrow> (unit, disk_manager) res" where
  "create_file path d =
     (if is_file path d then (Inl (FileExistsError ''DiskManager::create_file Error: file already exists''), d)
      else let (fd, s1) = px_open_creat path (os d)
           in if fd = - 1 then (Inl (InternalError ''DiskManager::create_file Error: open failed''), d\<lparr>os := s1\<rparr>)
              else let (_, s2) = px_close fd s1 in (Inr (), d\<lparr>os := s2\<rparr>))"

definition destroy_file :: "string \<Rightarrow> disk_manager \<Rightarrow> (unit, disk_manager) res" where
  "destroy_file path d =
     (if path2fd d path \<noteq> None then (Inl (FileNotClosedError ''DiskManager::destroy_file Error: file is open''), d)
      else let (r, s) = px_unlink path (os d)
           in if r = - 1 then (Inl (FileNotFoundError ''DiskManager::destroy_file Error: unlink failed''), d\<lparr>os := s\<rparr>)
              else (Inr (), d\<lparr>os := s\<rparr>))"

definition open_file :: "string \<Rightarrow> disk_manager \<Rightarrow> (int, disk_manager) res" where
  "open_file path d =
     (if path2fd d path \<noteq> None then (Inl (FileNotClosedError ''DiskManager::open_file Error: file already open''), d)
      else let (fd, s) = px_open path (os d)
           in if fd = - 1 then (Inl (FileNotFoundError ''DiskManager::open_file Error: open failed''), d\<lparr>os := s\<rparr>)
              else (Inr fd, d\<lparr>path2fd := (path2fd d)(path \<mapsto> fd), fd2path := (fd2path d)(fd \<mapsto> path), os := s\<rparr>))"

definition close_file :: "int \<Rightarrow> disk_manager \<Rightarrow> (unit, disk_manager) res" where
  "close_file fd d =
     (case fd2path d fd of
        None \<Rightarrow> (Inl (FileNotOpenError fd), d)
      | Some path \<Rightarrow>
          let (r, s) = px_close fd (os d)
          in if r = - 1 then (Inl (FileExistsError ''DiskManager::close_file Error: close failed''), d\<lparr>os := s\<rparr>)
             else (Inr (), d\<lparr>path2fd := (path2fd d)(path := None), fd2path := (fd2path d)(fd := None), os := s\<rparr>))"

definition get_file_size :: "string \<Rightarrow> disk_manager \<Rightarrow> int" where
  "get_file_size file_name d =
     (case px_files (os d) file_name of None \<Rightarrow> - 1 | Some c \<Rightarrow> to_int32 (int (length c)))"

definition get_file_name :: "int \<Rightarrow> disk_manager \<Rightarrow> (string, disk_manager) res" where
  "get_file_name fd d =
     (case fd2path d fd of None \<Rightarrow> (Inl (FileNotOpenError fd), d) | Some path \<Rightarrow> (Inr path, d))"

definition get_file_fd :: "string \<Rightarrow> disk_manager \<Rightarrow> (int, disk_manager) res" where
  "get_file_fd file_name d =
     (case path2fd d file_name of None \<Rightarrow> open_file file_name d | Some fd \<Rightarrow> (Inr fd, d))"

text \<open>Both log operations open the log file at the first use.\<close>

definition open_log :: "disk_manager \<Rightarrow> (unit, disk_manager) res" where
  "open_log d =
     (if log_fd d = - 1
      then bindE (open_file LOG_FILE_NAME d) (\<lambda>fd d1. (Inr (), d1\<lparr>log_fd := fd\<rparr>))
      else (Inr (), d))"

definition read_log :: "nat \<Rightarrow> nat \<Rightarrow> disk_manager \<Rightarrow> (int \<times> bytes, disk_manager) res" where
  "read_log sz offset d =
     bindE (open_log d) (\<lambda>_ d1.
       let file_size = get_file_size LOG_FILE_NAME d1
       in if int offset > file_size then (Inr (- 1, []), d1)
          else let n = min sz (nat (file_size - int offset))
               in if n = 0 then (Inr (0, []), d1)
                  else let (_, s1) = px_lseek_set (log_fd d1) (int offset) (os d1);
                           ((bytes_read, b), s2) = px_read (log_fd d1) n s1
                       in if bytes_read = int n then (Inr (bytes_read, b), d1\<lparr>os := s2\<rparr>)
                          else (Inl (AssertionFailed ''bytes_read == size''), d1\<lparr>os := s2\<rparr>))"

definition write_log :: "bytes \<Rightarrow> disk_manager \<Rightarrow> (unit, disk_manager) res" where
  "write_log log_data d =
     bindE (open_log d) (\<lambda>_ d1.
       let (_, s1) = px_lseek_end (log_fd d1) (os d1);
           (bytes_write, s2) = px_write (log_fd d1) log_data s1
       in if bytes_write \<noteq> int (length log_data) then (Inl UnixError, d1\<lparr>os := s2\<rparr>)
          else (Inr (), d1\<lparr>os := s2\<rparr>))"

definition SetLogFd :: "int \<Rightarrow> disk_manager \<Rightarrow> disk_manager" where
  "SetLogFd fd d = d\<lparr>log_fd := fd\<rparr>"

definition GetLogFd :: "disk_manager \<Rightarrow> int" where
  "GetLogFd d = log_fd d"

section \<open>Writing into a file\<close>

lemma length_write_at: "b \<noteq> [] \<Longrightarrow> length (write_at c pos b) = max (length c) (pos + length b)"
  by (auto simp: write_at_def memcpy_def memset_def max_def)

lemma slice_write_at_same: "n = length b \<Longrightarrow> slice pos n (write_at c pos b) = b"
  by (cases "b = []") (simp_all add: write_at_def slice_memcpy_same, simp add: slice_def)

lemma slice_write_at_other:
  assumes "o2 + n \<le> length c" and "o2 + n \<le> pos \<or> pos + length b \<le> o2"
  shows "slice o2 n (write_at c pos b) = slice o2 n c"
proof (cases "b = []")
  case True
  then show ?thesis by (simp add: write_at_def)
next
  case False
  let ?c = "c @ memset (pos - length c) 0"
  have "slice o2 n (memcpy ?c pos b) = slice o2 n ?c"
    using assms(2) by (elim disjE) (simp_all add: slice_memcpy_before slice_memcpy_after)
  also have "\<dots> = slice o2 n c" using assms(1) by (rule slice_append_left)
  finally show ?thesis using False by (simp add: write_at_def)
qed

lemma write_at_end: "write_at c (length c) b = c @ b"
  by (simp add: write_at_def memcpy_def memset_def)

section \<open>The table of open files\<close>

text \<open>
  The two hash tables are inverse to each other and agree with the descriptors of the system,
  and an open file exists. The size limit of a file is above what a 32-bit offset can reach.
\<close>

definition disk_inv :: "disk_manager \<Rightarrow> bool" where
  "disk_inv d \<longleftrightarrow>
     (\<forall>p fd. path2fd d p = Some fd \<longleftrightarrow> fd2path d fd = Some p) \<and>
     (\<forall>fd p. fd2path d fd = Some p \<longrightarrow>
        0 \<le> fd \<and> (\<exists>pos. px_fds (os d) fd = Some (p, pos)) \<and> px_files (os d) p \<noteq> None) \<and>
     (log_fd d \<noteq> - 1 \<longrightarrow> fd2path d (log_fd d) = Some LOG_FILE_NAME) \<and>
     2 ^ 31 \<le> px_max_file (os d)"

lemma disk_inv_init: "2 ^ 31 \<le> px_max_file s \<Longrightarrow> disk_inv (DiskManager_init s)"
  by (simp add: disk_inv_def DiskManager_init_def)

lemma disk_inv_tables: "disk_inv d \<Longrightarrow> path2fd d p = Some fd \<longleftrightarrow> fd2path d fd = Some p"
  by (simp add: disk_inv_def)

lemma disk_inv_same_fd: "disk_inv d \<Longrightarrow> fd2path d f = Some p \<Longrightarrow> fd2path d g = Some p \<Longrightarrow> f = g"
  by (metis disk_inv_tables option.inject)

lemma disk_inv_closed: "disk_inv d \<Longrightarrow> path2fd d p = None \<Longrightarrow> fd2path d f \<noteq> Some p"
  by (metis disk_inv_tables option.distinct(1))

lemma disk_inv_openD:
  assumes "disk_inv d" and "fd2path d fd = Some p"
  obtains pos c where "px_fds (os d) fd = Some (p, pos)" and "px_files (os d) p = Some c" and "0 \<le> fd"
  using assms unfolding disk_inv_def by blast

lemma px_new_fd_fresh: "px_new_fd s = Some fd \<Longrightarrow> px_fds s fd = None \<and> 3 \<le> fd"
  by (auto simp: px_new_fd_def find_Some_iff)

lemma disk_inv_new_fd:
  "disk_inv d \<Longrightarrow> px_new_fd (os d) = Some fd \<Longrightarrow> fd2path d fd = None"
  using px_new_fd_fresh [of "os d" fd] by (cases "fd2path d fd") (auto elim: disk_inv_openD)

lemma open_file_cases:
  assumes "disk_inv d"
  obtains (already) fd where "path2fd d path = Some fd"
      "open_file path d = (Inl (FileNotClosedError ''DiskManager::open_file Error: file already open''), d)"
  | (fail) "path2fd d path = None" "px_files (os d) path = None \<or> px_new_fd (os d) = None"
      "open_file path d = (Inl (FileNotFoundError ''DiskManager::open_file Error: open failed''), d)"
  | (ok) fd c where "path2fd d path = None" "px_files (os d) path = Some c" "px_new_fd (os d) = Some fd"
      "open_file path d = (Inr fd, d\<lparr>path2fd := (path2fd d)(path \<mapsto> fd), fd2path := (fd2path d)(fd \<mapsto> path),
         os := (os d)\<lparr>px_fds := (px_fds (os d))(fd \<mapsto> (path, 0))\<rparr>\<rparr>)"
proof (cases "path2fd d path")
  case (Some fd)
  then show thesis by (intro already) (auto simp: open_file_def)
next
  case None
  show thesis
  proof (cases "px_files (os d) path")
    case n: None
    then show thesis using None by (intro fail) (auto simp: open_file_def px_open_def)
  next
    case (Some c)
    show thesis
    proof (cases "px_new_fd (os d)")
      case n: None
      then show thesis using None Some by (intro fail) (auto simp: open_file_def px_open_def)
    next
      case fd: (Some fd)
      then have "fd \<noteq> - 1" using px_new_fd_fresh [OF fd] by auto
      then show thesis using fd Some None by (intro ok) (auto simp: open_file_def px_open_def)
    qed
  qed
qed

lemma disk_inv_open_file: "disk_inv d \<Longrightarrow> disk_inv (snd (open_file path d))"
proof (rule open_file_cases [of d path])
  fix fd c
  assume d: "disk_inv d" and p: "path2fd d path = None" and c: "px_files (os d) path = Some c"
    and fd: "px_new_fd (os d) = Some fd"
    and o: "open_file path d = (Inr fd, d\<lparr>path2fd := (path2fd d)(path \<mapsto> fd), fd2path := (fd2path d)(fd \<mapsto> path),
         os := (os d)\<lparr>px_fds := (px_fds (os d))(fd \<mapsto> (path, 0))\<rparr>\<rparr>)"
  have n: "fd2path d fd = None" using d fd by (rule disk_inv_new_fd)
  have f: "px_fds (os d) fd = None" "3 \<le> fd" using px_new_fd_fresh [OF fd] by auto
  show ?thesis
    unfolding o using d p c n f disk_inv_closed [OF d p] by (auto simp: disk_inv_def)
qed simp_all

lemma disk_inv_close_file:
  assumes d: "disk_inv d" and fd: "fd \<noteq> log_fd d"
  shows "disk_inv (snd (close_file fd d))"
proof (cases "fd2path d fd")
  case None
  with d show ?thesis by (simp add: close_file_def)
next
  case (Some p)
  then obtain pos where "px_fds (os d) fd = Some (p, pos)" using d by (auto elim: disk_inv_openD)
  then have c: "close_file fd d = (Inr (), d\<lparr>path2fd := (path2fd d)(p := None),
      fd2path := (fd2path d)(fd := None), os := (os d)\<lparr>px_fds := (px_fds (os d))(fd := None)\<rparr>\<rparr>)"
    using Some by (simp add: close_file_def px_close_def)
  have u: "fd2path d f = Some p \<longleftrightarrow> f = fd" for f
    using d Some by (metis disk_inv_same_fd)
  have t: "path2fd d q = Some f \<longleftrightarrow> fd2path d f = Some q" for q f using d by (rule disk_inv_tables)
  have l: "log_fd d \<noteq> - 1 \<longrightarrow> fd2path d (log_fd d) = Some LOG_FILE_NAME"
    and m: "2 ^ 31 \<le> px_max_file (os d)" using d unfolding disk_inv_def by blast+
  have o: "0 \<le> f \<and> (\<exists>pos. px_fds (os d) f = Some (q, pos)) \<and> px_files (os d) q \<noteq> None"
    if "fd2path d f = Some q" for f q using d that by (auto elim: disk_inv_openD)
  have "((path2fd d)(p := None)) q = Some f \<longleftrightarrow> ((fd2path d)(fd := None)) f = Some q" for q f
    using u [of f] Some t [of q f] by auto
  moreover have "0 \<le> f \<and> (\<exists>pos. ((px_fds (os d))(fd := None)) f = Some (q, pos)) \<and> px_files (os d) q \<noteq> None"
    if "((fd2path d)(fd := None)) f = Some q" for f q
    using that o [of f q] by (auto split: if_splits)
  moreover have "log_fd d \<noteq> - 1 \<longrightarrow> ((fd2path d)(fd := None)) (log_fd d) = Some LOG_FILE_NAME"
    using l fd by simp
  ultimately show ?thesis unfolding c using m by (simp add: disk_inv_def del: fun_upd_apply)
qed

lemma disk_inv_create_file:
  assumes d: "disk_inv d"
  shows "disk_inv (snd (create_file path d))"
proof (cases "is_file path d \<or> px_new_fd (os d) = None")
  case True
  then show ?thesis using d by (auto simp: create_file_def px_open_creat_def)
next
  case False
  then obtain fd where fd: "px_new_fd (os d) = Some fd" by auto
  then have "fd \<noteq> - 1" and "fd2path d fd = None"
    using px_new_fd_fresh [OF fd] disk_inv_new_fd [OF d fd] by auto
  then show ?thesis using False fd d
    by (auto simp: create_file_def px_open_creat_def px_close_def disk_inv_def is_file_def)
qed

lemma disk_inv_destroy_file:
  assumes d: "disk_inv d"
  shows "disk_inv (snd (destroy_file path d))"
proof (cases "path2fd d path = None \<and> px_files (os d) path \<noteq> None")
  case True
  then have "\<And>fd. fd2path d fd \<noteq> Some path" using disk_inv_closed [OF d] by blast
  with True d show ?thesis by (auto simp: destroy_file_def px_unlink_def disk_inv_def)
next
  case False
  then show ?thesis using d by (auto simp: destroy_file_def px_unlink_def)
qed

section \<open>Pages of a file\<close>

text \<open>
  \<open>disk_page d fd n\<close> is what the file open as \<open>fd\<close> holds at page \<open>n\<close>, if the file reaches
  that far. A page number is addressable when its byte offset is an \<open>int\<close>.
\<close>

definition page_ok :: "int \<Rightarrow> bool" where
  "page_ok n \<longleftrightarrow> 0 \<le> n \<and> n < 2 ^ 19"

definition disk_page :: "disk_manager \<Rightarrow> int \<Rightarrow> int \<Rightarrow> bytes option" where
  "disk_page d fd n =
     (case fd2path d fd of
        None \<Rightarrow> None
      | Some p \<Rightarrow>
          (case px_files (os d) p of
             None \<Rightarrow> None
           | Some c \<Rightarrow> if nat n * PAGE_SIZE + PAGE_SIZE \<le> length c
                       then Some (slice (nat n * PAGE_SIZE) PAGE_SIZE c) else None))"

lemma length_disk_page: "disk_page d fd n = Some b \<Longrightarrow> length b = PAGE_SIZE"
  by (auto simp: disk_page_def split: option.splits if_splits)

lemma page_offset_ok: "page_ok n \<Longrightarrow> page_offset n = int (nat n * PAGE_SIZE)"
proof -
  assume n: "page_ok n"
  then have "int32 (n * 4096)" by (simp add: page_ok_def int32_def)
  then show ?thesis using n by (simp add: page_offset_def PAGE_SIZE_def page_ok_def)
qed

lemma nat_page_ok: "page_ok n \<Longrightarrow> nat n < 524288"
  by (auto simp: page_ok_def)

lemma write_page_eq:
  assumes d: "disk_inv d" and fd: "fd2path d fd = Some p" and c: "px_files (os d) p = Some c"
    and n: "page_ok n" and b: "length buf = PAGE_SIZE"
  shows "write_page fd n buf d = (Inr (), d\<lparr>os := (os d)
     \<lparr>px_files := (px_files (os d))(p \<mapsto> write_at c (nat n * PAGE_SIZE) buf),
      px_fds := (px_fds (os d))(fd \<mapsto> (p, nat n * PAGE_SIZE + PAGE_SIZE))\<rparr>\<rparr>)"
proof -
  obtain pos where pos: "px_fds (os d) fd = Some (p, pos)" using d fd by (auto elim: disk_inv_openD)
  have "2 ^ 31 \<le> px_max_file (os d)" using d by (simp add: disk_inv_def)
  then have "length buf \<le> px_max_file (os d) - nat n * PAGE_SIZE"
    using nat_page_ok [OF n] b by (simp add: PAGE_SIZE_def)
  then have t: "take (px_max_file (os d) - nat n * PAGE_SIZE) buf = buf"
    and m: "min PAGE_SIZE (px_max_file (os d) - nat n * PAGE_SIZE) = PAGE_SIZE" using b by simp_all
  show ?thesis
    using pos c b by (simp add: write_page_def page_offset_ok [OF n] px_lseek_set_def px_write_def t m
        del: of_nat_mult)
qed

lemma read_page_eq:
  assumes d: "disk_inv d" and b: "disk_page d fd n = Some b" and n: "page_ok n"
  shows "\<exists>p. fd2path d fd = Some p \<and> read_page fd n PAGE_SIZE d = (Inr b, d\<lparr>os := (os d)
     \<lparr>px_fds := (px_fds (os d))(fd \<mapsto> (p, nat n * PAGE_SIZE + PAGE_SIZE))\<rparr>\<rparr>)"
proof -
  obtain p c where p: "fd2path d fd = Some p" and c: "px_files (os d) p = Some c"
    and l: "nat n * PAGE_SIZE + PAGE_SIZE \<le> length c" and b': "b = slice (nat n * PAGE_SIZE) PAGE_SIZE c"
    using b by (auto simp: disk_page_def split: option.splits if_splits)
  obtain pos where pos: "px_fds (os d) fd = Some (p, pos)" using d p by (auto elim: disk_inv_openD)
  show ?thesis
    using pos c p l by (simp add: read_page_def page_offset_ok [OF n] px_lseek_set_def px_read_def b'
        del: of_nat_mult)
qed

lemma disk_page_moved_fd:
  "disk_page (d\<lparr>os := (os d)\<lparr>px_fds := m\<rparr>\<rparr>) = disk_page d"
  by (auto simp: disk_page_def fun_eq_iff split: option.splits)

lemma disk_inv_moved_fd:
  "disk_inv d \<Longrightarrow> fd2path d fd = Some p \<Longrightarrow>
     disk_inv (d\<lparr>os := (os d)\<lparr>px_fds := (px_fds (os d))(fd \<mapsto> (p, k))\<rparr>\<rparr>)"
  by (auto simp: disk_inv_def)

lemma disk_page_file_update:
  "disk_page (d\<lparr>os := (os d)\<lparr>px_files := (px_files (os d))(p \<mapsto> c), px_fds := m\<rparr>\<rparr>) fd n =
     (if fd2path d fd = Some p
      then if nat n * PAGE_SIZE + PAGE_SIZE \<le> length c
           then Some (slice (nat n * PAGE_SIZE) PAGE_SIZE c) else None
      else disk_page d fd n)"
  by (auto simp: disk_page_def split: option.splits)

lemma page_ranges_disjoint:
  assumes "page_ok n" and "page_ok m" and "m \<noteq> n"
  shows "nat m * PAGE_SIZE + PAGE_SIZE \<le> nat n * PAGE_SIZE \<or> nat n * PAGE_SIZE + PAGE_SIZE \<le> nat m * PAGE_SIZE"
proof -
  have "nat m < nat n \<or> nat n < nat m" using assms by (auto simp: page_ok_def)
  then show ?thesis unfolding PAGE_SIZE_def by linarith
qed

text \<open>What \<open>write_page\<close> does to the pages.\<close>

lemma write_page_ok:
  assumes d: "disk_inv d" and fd: "fd2path d fd \<noteq> None" and n: "page_ok n" and b: "length buf = PAGE_SIZE"
  shows "\<exists>d'. write_page fd n buf d = (Inr (), d') \<and> disk_inv d' \<and> fd2path d' = fd2path d \<and>
     log_fd d' = log_fd d \<and> fd2pageno d' = fd2pageno d \<and>
     disk_page d' fd n = Some buf \<and>
     (\<forall>fd' m a. page_ok m \<longrightarrow> (fd', m) \<noteq> (fd, n) \<longrightarrow> disk_page d fd' m = Some a \<longrightarrow> disk_page d' fd' m = Some a)"
proof -
  obtain p where p: "fd2path d fd = Some p" using fd by auto
  then obtain c where c: "px_files (os d) p = Some c" using d by (auto elim: disk_inv_openD)
  let ?w = "write_at c (nat n * PAGE_SIZE) buf"
  let ?d = "d\<lparr>os := (os d)\<lparr>px_files := (px_files (os d))(p \<mapsto> ?w),
      px_fds := (px_fds (os d))(fd \<mapsto> (p, nat n * PAGE_SIZE + PAGE_SIZE))\<rparr>\<rparr>"
  have buf: "buf \<noteq> []" using b by (auto simp: PAGE_SIZE_def)
  have w: "write_page fd n buf d = (Inr (), ?d)" using d p c n b by (rule write_page_eq)
  have same: "disk_page ?d fd n = Some buf"
    using p b buf by (simp add: disk_page_file_update length_write_at slice_write_at_same)
  have other: "disk_page ?d fd' m = Some a"
    if m: "page_ok m" and ne: "(fd', m) \<noteq> (fd, n)" and a: "disk_page d fd' m = Some a" for fd' m a
  proof (cases "fd2path d fd' = Some p")
    case False
    then show ?thesis using a by (simp only: disk_page_file_update if_False)
  next
    case True
    with p d have "fd' = fd" by (metis disk_inv_same_fd)
    with ne have "m \<noteq> n" by simp
    from page_ranges_disjoint [OF n m this] True a c buf b show ?thesis
      by (auto simp: disk_page_file_update disk_page_def length_write_at slice_write_at_other split: if_splits)
  qed
  have inv: "disk_inv ?d" using d p by (auto simp: disk_inv_def)
  show ?thesis
    by (intro exI [of _ ?d] conjI) (use w inv same other in auto)
qed

lemma read_page_ok:
  assumes d: "disk_inv d" and b: "disk_page d fd n = Some b" and n: "page_ok n"
  shows "\<exists>d'. read_page fd n PAGE_SIZE d = (Inr b, d') \<and> disk_inv d' \<and> fd2path d' = fd2path d \<and>
     log_fd d' = log_fd d \<and> fd2pageno d' = fd2pageno d \<and> disk_page d' = disk_page d"
proof -
  from read_page_eq [OF assms] obtain p where "fd2path d fd = Some p"
    and "read_page fd n PAGE_SIZE d = (Inr b, d\<lparr>os := (os d)
     \<lparr>px_fds := (px_fds (os d))(fd \<mapsto> (p, nat n * PAGE_SIZE + PAGE_SIZE))\<rparr>\<rparr>)" by blast
  then show ?thesis by (simp add: disk_inv_moved_fd d disk_page_moved_fd)
qed

text \<open>
  The contract of the disk manager that the buffer pool relies on: a page of an open file reads
  as what was last written to it, and writing one page keeps every other page.
\<close>

locale page_disk =
  fixes invar :: "'d \<Rightarrow> bool"
    and opened :: "'d \<Rightarrow> int \<Rightarrow> bool"
    and page :: "'d \<Rightarrow> int \<Rightarrow> int \<Rightarrow> bytes option"
    and wr :: "int \<Rightarrow> int \<Rightarrow> bytes \<Rightarrow> 'd \<Rightarrow> (unit, 'd) res"
    and rd :: "int \<Rightarrow> int \<Rightarrow> nat \<Rightarrow> 'd \<Rightarrow> (bytes, 'd) res"
  assumes wr_ok: "invar d \<Longrightarrow> opened d fd \<Longrightarrow> page_ok n \<Longrightarrow> length buf = PAGE_SIZE \<Longrightarrow>
      \<exists>d'. wr fd n buf d = (Inr (), d') \<and> invar d' \<and> opened d' = opened d \<and> page d' fd n = Some buf \<and>
        (\<forall>fd' m a. page_ok m \<longrightarrow> (fd', m) \<noteq> (fd, n) \<longrightarrow> page d fd' m = Some a \<longrightarrow> page d' fd' m = Some a)"
    and rd_ok: "invar d \<Longrightarrow> page d fd n = Some b \<Longrightarrow> page_ok n \<Longrightarrow>
      \<exists>d'. rd fd n PAGE_SIZE d = (Inr b, d') \<and> invar d' \<and> opened d' = opened d \<and> page d' = page d"
    and page_opened: "page d fd n = Some b \<Longrightarrow> opened d fd"
    and page_length: "page d fd n = Some b \<Longrightarrow> length b = PAGE_SIZE"
begin

lemma wr_rd:
  assumes "invar d" and "opened d fd" and "page_ok n" and "length buf = PAGE_SIZE"
  obtains d1 d2 where "wr fd n buf d = (Inr (), d1)" and "rd fd n PAGE_SIZE d1 = (Inr buf, d2)"
    and "page d2 = page d1" and "page d2 fd n = Some buf" and "invar d2"
    and "\<And>fd' m a. page_ok m \<Longrightarrow> (fd', m) \<noteq> (fd, n) \<Longrightarrow> page d fd' m = Some a \<Longrightarrow> page d2 fd' m = Some a"
proof -
  from wr_ok [OF assms] obtain d1 where w: "wr fd n buf d = (Inr (), d1)" and i: "invar d1"
    and p: "page d1 fd n = Some buf"
    and o: "\<And>fd' m a. page_ok m \<Longrightarrow> (fd', m) \<noteq> (fd, n) \<Longrightarrow> page d fd' m = Some a \<Longrightarrow> page d1 fd' m = Some a"
    by blast
  from rd_ok [OF i p assms(3)] obtain d2 where "rd fd n PAGE_SIZE d1 = (Inr buf, d2)" and "invar d2"
    and "page d2 = page d1" by blast
  with w p o show thesis by (intro that [of d1 d2]) simp_all
qed

lemma page_kept_or_new:
  assumes "invar d" and "opened d fd" and "page_ok n" and "length buf = PAGE_SIZE"
    and "wr fd n buf d = (Inr (), d')" and "page_ok m" and "page d fd' m = Some a"
  shows "page d' fd' m = Some (if (fd', m) = (fd, n) then buf else a)"
  using wr_ok [OF assms(1-4)] assms(5-7) by auto

end

definition disk_opened :: "disk_manager \<Rightarrow> int \<Rightarrow> bool" where
  "disk_opened d fd \<longleftrightarrow> fd2path d fd \<noteq> None"

interpretation disk: page_disk disk_inv disk_opened disk_page write_page read_page
proof unfold_locales
  fix d fd n and buf :: bytes
  assume "disk_inv d" "disk_opened d fd" "page_ok n" "length buf = PAGE_SIZE"
  then obtain d' where "write_page fd n buf d = (Inr (), d')" "disk_inv d'" "fd2path d' = fd2path d"
      "disk_page d' fd n = Some buf"
      "\<forall>fd' m a. page_ok m \<longrightarrow> (fd', m) \<noteq> (fd, n) \<longrightarrow> disk_page d fd' m = Some a \<longrightarrow> disk_page d' fd' m = Some a"
    using write_page_ok [of d fd n buf] by (auto simp: disk_opened_def)
  then show "\<exists>d'. write_page fd n buf d = (Inr (), d') \<and> disk_inv d' \<and> disk_opened d' = disk_opened d \<and>
      disk_page d' fd n = Some buf \<and>
      (\<forall>fd' m a. page_ok m \<longrightarrow> (fd', m) \<noteq> (fd, n) \<longrightarrow> disk_page d fd' m = Some a \<longrightarrow> disk_page d' fd' m = Some a)"
    by (intro exI [of _ d']) (simp add: fun_eq_iff disk_opened_def)
next
  fix d fd n b
  assume "disk_inv d" "disk_page d fd n = Some b" "page_ok n"
  from read_page_ok [OF this] show "\<exists>d'. read_page fd n PAGE_SIZE d = (Inr b, d') \<and> disk_inv d' \<and>
      disk_opened d' = disk_opened d \<and> disk_page d' = disk_page d"
    by (auto simp: fun_eq_iff disk_opened_def)
next
  fix d fd n b
  assume "disk_page d fd n = Some b"
  then show "disk_opened d fd" by (auto simp: disk_page_def disk_opened_def split: option.splits)
qed (rule length_disk_page)

section \<open>The log file\<close>

definition log_ready :: "disk_manager \<Rightarrow> bool" where
  "log_ready d \<longleftrightarrow> px_files (os d) LOG_FILE_NAME \<noteq> None \<and>
     (log_fd d \<noteq> - 1 \<or> path2fd d LOG_FILE_NAME = None \<and> px_new_fd (os d) \<noteq> None)"

lemma open_log_ok:
  assumes d: "disk_inv d" and r: "log_ready d"
  shows "\<exists>d'. open_log d = (Inr (), d') \<and> disk_inv d' \<and> log_fd d' \<noteq> - 1 \<and>
     px_files (os d') = px_files (os d) \<and> px_max_file (os d') = px_max_file (os d) \<and>
     fd2path d \<subseteq>\<^sub>m fd2path d' \<and> fd2pageno d' = fd2pageno d"
proof (cases "log_fd d = - 1")
  case False
  with d show ?thesis by (simp add: open_log_def)
next
  case True
  with r obtain fd c where fd: "px_new_fd (os d) = Some fd" and n: "path2fd d LOG_FILE_NAME = None"
    and c: "px_files (os d) LOG_FILE_NAME = Some c" by (auto simp: log_ready_def)
  let ?d = "d\<lparr>path2fd := (path2fd d)(LOG_FILE_NAME \<mapsto> fd), fd2path := (fd2path d)(fd \<mapsto> LOG_FILE_NAME),
      os := (os d)\<lparr>px_fds := (px_fds (os d))(fd \<mapsto> (LOG_FILE_NAME, 0))\<rparr>\<rparr>"
  have o: "open_file LOG_FILE_NAME d = (Inr fd, ?d)"
    using d by (rule open_file_cases [of d LOG_FILE_NAME]) (use fd n c in auto)
  have f: "fd2path d fd = None" using d fd by (rule disk_inv_new_fd)
  have "disk_inv ?d" using disk_inv_open_file [OF d, of LOG_FILE_NAME] o by simp
  then have "disk_inv (?d\<lparr>log_fd := fd\<rparr>)" by (auto simp: disk_inv_def)
  moreover have "fd \<noteq> - 1" using px_new_fd_fresh [OF fd] by auto
  moreover have "fd2path d \<subseteq>\<^sub>m (fd2path d)(fd \<mapsto> LOG_FILE_NAME)"
    using f by (auto simp: map_le_def)
  ultimately show ?thesis using True o by (simp add: open_log_def)
qed

lemma disk_page_more:
  assumes "fd2path d \<subseteq>\<^sub>m fd2path d'"
    and "\<And>p c. px_files (os d) p = Some c \<Longrightarrow> \<exists>e. px_files (os d') p = Some (c @ e)"
    and "disk_page d fd n = Some a"
  shows "disk_page d' fd n = Some a"
proof -
  obtain p c where p: "fd2path d fd = Some p" and c: "px_files (os d) p = Some c"
    and l: "nat n * PAGE_SIZE + PAGE_SIZE \<le> length c" and a: "a = slice (nat n * PAGE_SIZE) PAGE_SIZE c"
    using assms(3) by (auto simp: disk_page_def split: option.splits if_splits)
  from assms(2) [OF c] obtain e where "px_files (os d') p = Some (c @ e)" by blast
  moreover have "fd2path d' fd = Some p" using assms(1) p by (auto simp: map_le_def dom_def)
  ultimately show ?thesis using l a by (simp add: disk_page_def slice_append_left)
qed

lemma write_log_ok:
  assumes d: "disk_inv d" and r: "log_ready d" and c: "px_files (os d) LOG_FILE_NAME = Some c"
    and room: "length c + length buf \<le> px_max_file (os d)"
  shows "\<exists>d'. write_log buf d = (Inr (), d') \<and> disk_inv d' \<and> log_fd d' \<noteq> - 1 \<and>
     px_files (os d') = (px_files (os d))(LOG_FILE_NAME \<mapsto> c @ buf) \<and>
     px_max_file (os d') = px_max_file (os d) \<and>
     fd2path d \<subseteq>\<^sub>m fd2path d' \<and> fd2pageno d' = fd2pageno d"
proof -
  from open_log_ok [OF d r] obtain d1 where o: "open_log d = (Inr (), d1)" and i: "disk_inv d1"
    and l: "log_fd d1 \<noteq> - 1" and f: "px_files (os d1) = px_files (os d)"
    and m: "px_max_file (os d1) = px_max_file (os d)" and t: "fd2path d \<subseteq>\<^sub>m fd2path d1"
    and n: "fd2pageno d1 = fd2pageno d" by blast
  have lp: "fd2path d1 (log_fd d1) = Some LOG_FILE_NAME" using i l by (simp add: disk_inv_def)
  with i obtain pos where pos: "px_fds (os d1) (log_fd d1) = Some (LOG_FILE_NAME, pos)"
    by (auto elim: disk_inv_openD)
  let ?d = "d1\<lparr>os := (os d1)\<lparr>px_files := (px_files (os d1))(LOG_FILE_NAME \<mapsto> c @ buf),
      px_fds := (px_fds (os d1))(log_fd d1 \<mapsto> (LOG_FILE_NAME, length c + length buf))\<rparr>\<rparr>"
  have le: "length buf \<le> px_max_file (os d) - length c" using room by simp
  then have tk: "take (px_max_file (os d1) - length c) buf = buf" using m by simp
  have "write_log buf d = (Inr (), ?d)"
    using o pos c f le m by (simp add: write_log_def px_lseek_end_def px_write_def write_at_end tk Let_def min_def)
  moreover have "disk_inv ?d" using i lp by (auto simp: disk_inv_def)
  ultimately show ?thesis using l f m t n by (simp add: exI [of _ ?d])
qed

lemma read_log_ok:
  assumes d: "disk_inv d" and l: "log_fd d \<noteq> - 1" and c: "px_files (os d) LOG_FILE_NAME = Some c"
    and len: "length c < 2 ^ 31" and off: "off \<le> length c"
  shows "\<exists>d'. read_log n off d = (Inr (int (min n (length c - off)), slice off n c), d') \<and> disk_inv d' \<and>
     px_files (os d') = px_files (os d)"
proof -
  have lp: "fd2path d (log_fd d) = Some LOG_FILE_NAME" using d l by (simp add: disk_inv_def)
  with d obtain pos where pos: "px_fds (os d) (log_fd d) = Some (LOG_FILE_NAME, pos)"
    by (auto elim: disk_inv_openD)
  have o: "open_log d = (Inr (), d)" using l by (simp add: open_log_def)
  have fs: "get_file_size LOG_FILE_NAME d = int (length c)"
    using c len by (simp add: get_file_size_def int32_def)
  let ?n = "min n (length c - off)"
  have dif: "nat (int (length c) - int off) = length c - off" using off by linarith
  have sl: "slice off ?n c = slice off n c" by (auto simp: slice_def min_def)
  show ?thesis
  proof (cases "?n = 0")
    case True
    then have "slice off n c = []" using off by (auto simp: slice_def min_def split: if_splits)
    with True o fs off dif d show ?thesis by (simp add: read_log_def)
  next
    case False
    let ?d = "d\<lparr>os := (os d)\<lparr>px_fds := (px_fds (os d))(log_fd d \<mapsto> (LOG_FILE_NAME, off + ?n))\<rparr>\<rparr>"
    have "length (slice off ?n c) = ?n" by (simp add: slice_def)
    with False o fs off dif pos c sl have "read_log n off d = (Inr (int ?n, slice off n c), ?d)"
      by (auto simp: read_log_def px_lseek_set_def px_read_def Let_def min_def split: if_splits)
    moreover have "disk_inv ?d" using d lp by (rule disk_inv_moved_fd)
    ultimately show ?thesis by (intro exI [of _ ?d]) simp
  qed
qed

section \<open>Reachable states\<close>

text \<open>
  The states a sequence of calls can lead to. Calls may fail; a caller keeps away from closing
  the descriptor of the log.
\<close>

inductive disk_reachable :: "posix \<Rightarrow> disk_manager \<Rightarrow> bool" for s where
  r_init: "disk_reachable s (DiskManager_init s)"
| r_create: "disk_reachable s d \<Longrightarrow> disk_reachable s (snd (create_file path d))"
| r_destroy: "disk_reachable s d \<Longrightarrow> disk_reachable s (snd (destroy_file path d))"
| r_open: "disk_reachable s d \<Longrightarrow> disk_reachable s (snd (open_file path d))"
| r_get_fd: "disk_reachable s d \<Longrightarrow> disk_reachable s (snd (get_file_fd path d))"
| r_close: "disk_reachable s d \<Longrightarrow> fd \<noteq> log_fd d \<Longrightarrow> disk_reachable s (snd (close_file fd d))"
| r_write: "disk_reachable s d \<Longrightarrow> disk_reachable s (snd (write_page fd n buf d))"
| r_read: "disk_reachable s d \<Longrightarrow> disk_reachable s (snd (read_page fd n k d))"
| r_alloc: "disk_reachable s d \<Longrightarrow> disk_reachable s (snd (allocate_page fd d))"
| r_set: "disk_reachable s d \<Longrightarrow> disk_reachable s (set_fd2pageno fd n d)"
| r_write_log: "disk_reachable s d \<Longrightarrow> disk_reachable s (snd (write_log buf d))"
| r_read_log: "disk_reachable s d \<Longrightarrow> disk_reachable s (snd (read_log n off d))"

lemma disk_inv_os:
  assumes d: "disk_inv d" and max: "px_max_file s = px_max_file (os d)"
    and fds: "\<And>fd p pos. px_fds (os d) fd = Some (p, pos) \<Longrightarrow> \<exists>k. px_fds s fd = Some (p, k)"
    and files: "\<And>p. px_files (os d) p \<noteq> None \<Longrightarrow> px_files s p \<noteq> None"
  shows "disk_inv (d\<lparr>os := s\<rparr>)"
proof -
  have "0 \<le> fd \<and> (\<exists>pos. px_fds s fd = Some (p, pos)) \<and> px_files s p \<noteq> None"
    if o: "fd2path d fd = Some p" for fd p
  proof -
    from d o obtain pos c where "px_fds (os d) fd = Some (p, pos)" "px_files (os d) p = Some c" "0 \<le> fd"
      by (rule disk_inv_openD)
    with fds files show ?thesis by (metis option.distinct(1))
  qed
  with d max show ?thesis by (simp add: disk_inv_def)
qed

text \<open>No call on a descriptor closes a descriptor, removes a file or changes the size limit.\<close>

definition px_grows :: "posix \<Rightarrow> posix \<Rightarrow> bool" where
  "px_grows s t \<longleftrightarrow> px_max_file t = px_max_file s \<and>
     (\<forall>fd p pos. px_fds s fd = Some (p, pos) \<longrightarrow> (\<exists>k. px_fds t fd = Some (p, k))) \<and>
     (\<forall>p. px_files s p \<noteq> None \<longrightarrow> px_files t p \<noteq> None)"

lemma px_grows_calls:
  "px_lseek_set fd off s = (r, t) \<Longrightarrow> px_grows s t"
  "px_lseek_end fd s = (r, t) \<Longrightarrow> px_grows s t"
  "px_write fd buf s = (r, t) \<Longrightarrow> px_grows s t"
  "px_read fd n s = (rb, t) \<Longrightarrow> px_grows s t"
  by (auto simp: px_grows_def px_lseek_set_def px_lseek_end_def px_write_def px_read_def Let_def
      split: option.splits prod.splits if_splits)

lemma px_grows_trans: "px_grows s t \<Longrightarrow> px_grows t u \<Longrightarrow> px_grows s u"
  unfolding px_grows_def by (metis (no_types, lifting))

lemma disk_inv_grows: "disk_inv d \<Longrightarrow> px_grows (os d) s \<Longrightarrow> disk_inv (d\<lparr>os := s\<rparr>)"
  by (rule disk_inv_os) (auto simp: px_grows_def)

lemma disk_inv_write_page: "disk_inv d \<Longrightarrow> disk_inv (snd (write_page fd n buf d))"
  by (auto simp: write_page_def Let_def split: prod.split
      intro!: disk_inv_grows dest!: px_grows_calls intro: px_grows_trans)

lemma disk_inv_read_page: "disk_inv d \<Longrightarrow> disk_inv (snd (read_page fd n k d))"
  by (auto simp: read_page_def Let_def split: prod.split
      intro!: disk_inv_grows dest!: px_grows_calls intro: px_grows_trans)

lemma disk_inv_open_log:
  assumes "disk_inv d"
  shows "disk_inv (snd (open_log d))"
proof (cases "log_fd d = - 1")
  case False
  with assms show ?thesis by (simp add: open_log_def)
next
  case True
  show ?thesis
    using assms disk_inv_open_file [OF assms, of LOG_FILE_NAME]
    by (rule_tac open_file_cases [of d LOG_FILE_NAME]) (auto simp: open_log_def True disk_inv_def)
qed

lemma disk_inv_write_log:
  assumes "disk_inv d"
  shows "disk_inv (snd (write_log buf d))"
proof (cases "open_log d")
  case (Pair r d1)
  then have d1: "disk_inv d1" using disk_inv_open_log [OF assms] by simp
  show ?thesis
    using Pair d1 by (cases r) (auto simp: write_log_def Let_def split: prod.split
        intro!: disk_inv_grows dest!: px_grows_calls intro: px_grows_trans)
qed

lemma disk_inv_read_log:
  assumes "disk_inv d"
  shows "disk_inv (snd (read_log n off d))"
proof (cases "open_log d")
  case (Pair r d1)
  then have d1: "disk_inv d1" using disk_inv_open_log [OF assms] by simp
  show ?thesis
    using Pair d1 by (cases r) (auto simp: read_log_def Let_def split: prod.split
        intro!: disk_inv_grows dest!: px_grows_calls intro: px_grows_trans)
qed

lemma disk_reachable_inv: "disk_reachable s d \<Longrightarrow> 2 ^ 31 \<le> px_max_file s \<Longrightarrow> disk_inv d"
proof (induction rule: disk_reachable.induct)
  case r_init
  then show ?case by (rule disk_inv_init)
next
  case (r_get_fd d path)
  then show ?case
    by (auto simp: get_file_fd_def disk_inv_open_file split: option.split)
next
  case (r_alloc d fd)
  then show ?case by (auto simp: allocate_page_def disk_inv_def)
next
  case (r_set d fd n)
  then show ?case by (auto simp: set_fd2pageno_def disk_inv_def)
qed (simp_all add: disk_inv_create_file disk_inv_destroy_file disk_inv_open_file disk_inv_close_file
    disk_inv_write_page disk_inv_read_page disk_inv_write_log disk_inv_read_log)

section \<open>Properties\<close>

text \<open>A small disk that the witnesses use: one table file and the log file exist, both closed.\<close>

definition sample_posix :: posix where
  "sample_posix = \<lparr>px_files = [''t'' \<mapsto> [], LOG_FILE_NAME \<mapsto> [7]], px_fds = Map.empty, px_fd_limit = 64,
     px_max_file = 2 ^ 32\<rparr>"

definition sample_disk :: disk_manager where
  "sample_disk = snd (open_file ''t'' (DiskManager_init sample_posix))"

lemma sample_new_fd:
  "px_new_fd sample_posix = Some 3"
  "px_new_fd (sample_posix\<lparr>px_fds := [3 \<mapsto> x]\<rparr>) = Some 4"
  by (simp_all add: px_new_fd_def sample_posix_def upt_conv_Cons)

lemma sample_disk_eq:
  "sample_disk = \<lparr>path2fd = [''t'' \<mapsto> 3], fd2path = [3 \<mapsto> ''t''], log_fd = - 1, fd2pageno = (\<lambda>_. 0),
     os = sample_posix\<lparr>px_fds := [3 \<mapsto> (''t'', 0)]\<rparr>\<rparr>"
proof -
  have "px_files sample_posix ''t'' = Some []" by (simp add: sample_posix_def LOG_FILE_NAME_def)
  moreover have "px_fds sample_posix = Map.empty" by (simp add: sample_posix_def)
  ultimately show ?thesis
    by (simp add: sample_disk_def open_file_def DiskManager_init_def px_open_def sample_new_fd)
qed

lemma sample_disk_inv: "disk_inv sample_disk"
  unfolding sample_disk_def
  by (rule disk_inv_open_file, rule disk_inv_init) (simp add: sample_posix_def)

lemma sample_disk_opened: "disk_opened sample_disk 3"
  by (simp add: disk_opened_def sample_disk_eq)

lemma sample_disk_log:
  "log_ready sample_disk" "px_files (os sample_disk) LOG_FILE_NAME = Some [7]"
  "px_max_file (os sample_disk) = 2 ^ 32"
  by (simp_all add: log_ready_def sample_disk_eq sample_new_fd)
    (simp_all add: sample_posix_def LOG_FILE_NAME_def)

text \<open>
  C30: pages are stored faithfully. On an open file, writing a page at an addressable number
  succeeds, reading it back gives the bytes written, and every other stored page of every open
  file still reads as before.
\<close>

theorem write_page_then_read_page:
  assumes "disk_inv d" and "disk_opened d fd" and "page_ok n" and "length buf = PAGE_SIZE"
  shows "\<exists>d1 d2. write_page fd n buf d = (Inr (), d1) \<and> read_page fd n PAGE_SIZE d1 = (Inr buf, d2) \<and>
     (\<forall>fd' m a. page_ok m \<longrightarrow> (fd', m) \<noteq> (fd, n) \<longrightarrow> disk_page d fd' m = Some a \<longrightarrow>
        (\<exists>d3. read_page fd' m PAGE_SIZE d2 = (Inr a, d3)))"
proof -
  from assms obtain d1 d2 where w: "write_page fd n buf d = (Inr (), d1)"
    and r: "read_page fd n PAGE_SIZE d1 = (Inr buf, d2)" and inv: "disk_inv d2"
    and o: "\<And>fd' m a. page_ok m \<Longrightarrow> (fd', m) \<noteq> (fd, n) \<Longrightarrow> disk_page d fd' m = Some a \<Longrightarrow> disk_page d2 fd' m = Some a"
    by (rule disk.wr_rd) blast
  have "\<exists>d3. read_page fd' m PAGE_SIZE d2 = (Inr a, d3)"
    if "page_ok m" "(fd', m) \<noteq> (fd, n)" "disk_page d fd' m = Some a" for fd' m a
    using disk.rd_ok [OF inv o [OF that] that(1)] by auto
  with w r show ?thesis by simp
qed

theorem write_page_then_read_page_witness:
  "\<exists>d1 d2. write_page 3 5 (memset PAGE_SIZE 9) sample_disk = (Inr (), d1) \<and>
     read_page 3 5 PAGE_SIZE d1 = (Inr (memset PAGE_SIZE 9), d2)"
proof -
  have "page_ok 5" by (simp add: page_ok_def)
  from write_page_then_read_page [OF sample_disk_inv sample_disk_opened this, of "memset PAGE_SIZE 9"]
  show ?thesis by auto
qed

text \<open>
  The offset of a page is computed as a 32-bit product, so page numbers wrap. Page \<open>2\<^sup>2\<^sup>0\<close> is
  written over page 0 of the file (and page \<open>2\<^sup>2\<^sup>0 + k\<close> over page \<open>k\<close>), and page \<open>2\<^sup>1\<^sup>9\<close> is refused
  with the error of a failed \<open>lseek\<close>.
\<close>

theorem page_number_wraps:
  "write_page fd (2 ^ 20 + k) buf d = write_page fd k buf d \<and>
   read_page fd (2 ^ 20 + k) m d = read_page fd k m d \<and>
   fst (write_page fd (2 ^ 19) buf d) = Inl (RuntimeError ''DiskManager::write_page Error: lseek failed'')"
proof -
  have "(2 ^ 20 + k) * 4096 + 2 ^ 31 = (k * 4096 + 2 ^ 31) + 2 ^ 32" by simp
  then have "page_offset (2 ^ 20 + k) = page_offset k"
    by (simp only: page_offset_def PAGE_SIZE_def to_int32_def of_nat_numeral mod_add_self2)
  then have "write_page fd (2 ^ 20 + k) buf d = write_page fd k buf d"
    and "read_page fd (2 ^ 20 + k) m d = read_page fd k m d"
    by (simp_all only: write_page_def read_page_def)
  moreover have "page_offset (2 ^ 19) = - (2 ^ 31)"
    by (simp add: page_offset_def PAGE_SIZE_def to_int32_def)
  then have "fst (write_page fd (2 ^ 19) buf d) = Inl (RuntimeError ''DiskManager::write_page Error: lseek failed'')"
    by (simp add: write_page_def px_lseek_set_def split: option.split)
  ultimately show ?thesis by blast
qed

text \<open>
  C38: in every state a sequence of calls can reach, the two tables of open files are inverse
  to each other, every entry is a descriptor the system has open on that very path, and a file
  that is open can be neither opened a second time nor destroyed.
\<close>

theorem open_file_table_sound:
  assumes "disk_reachable s d" and "2 ^ 31 \<le> px_max_file s"
  shows "(path2fd d path = Some fd \<longleftrightarrow> fd2path d fd = Some path) \<and>
    (path2fd d path = Some fd \<longrightarrow>
       (\<exists>pos. px_fds (os d) fd = Some (path, pos)) \<and> is_file path d \<and>
       open_file path d = (Inl (FileNotClosedError ''DiskManager::open_file Error: file already open''), d) \<and>
       destroy_file path d = (Inl (FileNotClosedError ''DiskManager::destroy_file Error: file is open''), d))"
proof -
  have d: "disk_inv d" using assms by (rule disk_reachable_inv)
  have t: "path2fd d path = Some fd \<longleftrightarrow> fd2path d fd = Some path" using d by (rule disk_inv_tables)
  moreover have "(\<exists>pos. px_fds (os d) fd = Some (path, pos)) \<and> is_file path d" if "path2fd d path = Some fd"
    using d that t by (auto elim!: disk_inv_openD simp: is_file_def)
  moreover have "open_file path d = (Inl (FileNotClosedError ''DiskManager::open_file Error: file already open''), d)"
    and "destroy_file path d = (Inl (FileNotClosedError ''DiskManager::destroy_file Error: file is open''), d)"
    if "path2fd d path = Some fd" using that by (simp_all add: open_file_def destroy_file_def)
  ultimately show ?thesis by blast
qed

theorem open_file_table_sound_witness:
  "path2fd sample_disk ''t'' = Some 3 \<and> fd2path sample_disk 3 = Some ''t'' \<and>
   destroy_file ''t'' sample_disk = (Inl (FileNotClosedError ''DiskManager::destroy_file Error: file is open''), sample_disk)"
proof -
  have "disk_reachable sample_posix sample_disk"
    unfolding sample_disk_def by (intro r_open r_init)
  from open_file_table_sound [OF this, of "''t''" 3] show ?thesis
    by (simp add: sample_posix_def) (simp add: sample_disk_eq)
qed

text \<open>
  The log is append-only and durable. \<open>write_log\<close> puts its bytes at the end of the log
  file, opening it when needed, \<open>read_log\<close> at that position gives them back, and no page of any
  open file changes.
\<close>

theorem write_log_then_read_log:
  assumes "disk_inv d" and "log_ready d" and "px_files (os d) LOG_FILE_NAME = Some c"
    and "length c + length buf < 2 ^ 31"
  shows "\<exists>d1 d2. write_log buf d = (Inr (), d1) \<and>
     read_log (length buf) (length c) d1 = (Inr (int (length buf), buf), d2) \<and>
     px_files (os d1) LOG_FILE_NAME = Some (c @ buf) \<and>
     (\<forall>fd n a. disk_page d fd n = Some a \<longrightarrow> disk_page d1 fd n = Some a)"
proof -
  have "2 ^ 31 \<le> px_max_file (os d)" using assms(1) by (simp add: disk_inv_def)
  with assms(4) have "length c + length buf \<le> px_max_file (os d)" by simp
  from write_log_ok [OF assms(1-3) this] obtain d1 where w: "write_log buf d = (Inr (), d1)"
    and i: "disk_inv d1" and l: "log_fd d1 \<noteq> - 1"
    and f: "px_files (os d1) = (px_files (os d))(LOG_FILE_NAME \<mapsto> c @ buf)"
    and t: "fd2path d \<subseteq>\<^sub>m fd2path d1" by blast
  have c: "px_files (os d1) LOG_FILE_NAME = Some (c @ buf)" using f by simp
  have "slice (length c) (length buf) (c @ buf) = buf" by (simp add: slice_def)
  with read_log_ok [OF i l c, of "length c" "length buf"] assms(4)
  obtain d2 where r: "read_log (length buf) (length c) d1 = (Inr (int (length buf), buf), d2)" by auto
  have "disk_page d1 fd n = Some a" if "disk_page d fd n = Some a" for fd n a
    by (rule disk_page_more [OF t _ that]) (use assms(3) f in auto)
  with w r c show ?thesis by blast
qed

theorem write_log_then_read_log_witness:
  "\<exists>d1 d2. write_log [1, 2] sample_disk = (Inr (), d1) \<and>
     read_log (length [1 :: byte, 2]) (length [7 :: byte]) d1 = (Inr (int (length [1 :: byte, 2]), [1, 2]), d2)"
  using write_log_then_read_log [OF sample_disk_inv sample_disk_log(1,2), of "[1, 2]"] by auto

end
