(* ===== verification/LogManager.thy ===== *)
theory LogManager
  imports DiskManager LogRecords
begin

text \<open>
  \<open>LogManager\<close> of \<^verbatim>\<open>recovery/log_manager.cpp\<close>: log sequence numbers, the log buffer and its flush
  to the log file. The disk manager is shared with the rest of the storage engine, so the
  operations work on a log manager and a disk manager together.

  The buffer array is modelled by its used part; \<open>offset_\<close> is its length and the bytes behind
  it are not read. \<open>persist_lsn_\<close> is not initialised by the constructor: its first value is an
  argument of \<open>LogManager_init\<close>.
\<close>

section \<open>The model\<close>

record log_manager =
  global_lsn :: int
  log_buffer :: bytes
  persist_lsn :: int

definition LogManager_init :: "int \<Rightarrow> log_manager" where
  "LogManager_init junk = \<lparr>global_lsn = 0, log_buffer = [], persist_lsn = junk\<rparr>"

definition is_full :: "bytes \<Rightarrow> nat \<Rightarrow> bool" where
  "is_full buffer append_size \<longleftrightarrow> length buffer + append_size > LOG_BUFFER_SIZE"

definition flush_log_to_disk ::
  "log_manager \<times> disk_manager \<Rightarrow> (unit, log_manager \<times> disk_manager) res" where
  "flush_log_to_disk s =
     (case s of (lm, d) \<Rightarrow>
        if log_buffer lm = [] then (Inr (), (lm, d))
        else (case write_log (log_buffer lm) d of
                (Inl e, d1) \<Rightarrow> (Inl e, (lm, d1))
              | (Inr _, d1) \<Rightarrow> (Inr (), (lm\<lparr>log_buffer := [], persist_lsn := global_lsn lm\<rparr>, d1))))"

text \<open>
  The record is serialized into a fresh array of \<open>log_tot_len_\<close> bytes, which it fills. The source takes the latch only after the test for
  room; the definition is a call that no other call overlaps.
\<close>

definition add_log_to_buffer ::
  "log_record \<Rightarrow> log_manager \<times> disk_manager \<Rightarrow> (int \<times> log_record, log_manager \<times> disk_manager) res" where
  "add_log_to_buffer r s =
     (let log_record_size = log_tot_len (header r)
      in bindE (if is_full (log_buffer (fst s)) log_record_size then flush_log_to_disk s else (Inr (), s))
           (\<lambda>_ (lm, d).
              let r = set_lsn (global_lsn lm) r;
                  dest = serialize r (memset log_record_size 0)
              in (Inr (lsn (header r), r),
                  (lm\<lparr>global_lsn := to_int32 (global_lsn lm + 1), log_buffer := log_buffer lm @ dest\<rparr>, d))))"

definition get_lsn :: "log_manager \<Rightarrow> int" where
  "get_lsn lm = global_lsn lm"

definition get_persist_lsn :: "log_manager \<Rightarrow> int" where
  "get_persist_lsn lm = persist_lsn lm"

section \<open>The invariant\<close>

text \<open>
  The log file exists and can be opened, and has room for what is buffered. \<open>log_stream\<close> is
  the log as a whole: what is in the file, then what is in the buffer.
\<close>

definition log_file :: "disk_manager \<Rightarrow> bytes" where
  "log_file d = (case px_files (os d) LOG_FILE_NAME of None \<Rightarrow> [] | Some c \<Rightarrow> c)"

definition log_stream :: "log_manager \<times> disk_manager \<Rightarrow> bytes" where
  "log_stream s = log_file (snd s) @ log_buffer (fst s)"

definition log_inv :: "log_manager \<times> disk_manager \<Rightarrow> bool" where
  "log_inv s \<longleftrightarrow> disk_inv (snd s) \<and> log_ready (snd s) \<and> length (log_buffer (fst s)) \<le> LOG_BUFFER_SIZE \<and>
     length (log_stream s) \<le> px_max_file (os (snd s)) \<and> int32 (global_lsn (fst s))"

text \<open>Everything a client of the disk can see stays when the log grows.\<close>

definition pages_kept :: "disk_manager \<Rightarrow> disk_manager \<Rightarrow> bool" where
  "pages_kept d d' \<longleftrightarrow> fd2path d \<subseteq>\<^sub>m fd2path d' \<and> fd2pageno d' = fd2pageno d \<and>
     px_max_file (os d') = px_max_file (os d) \<and>
     (\<forall>fd n a. disk_page d fd n = Some a \<longrightarrow> disk_page d' fd n = Some a)"

lemma pages_kept_refl [simp]: "pages_kept d d"
  by (simp add: pages_kept_def)

lemma pages_kept_trans: "pages_kept d d' \<Longrightarrow> pages_kept d' d'' \<Longrightarrow> pages_kept d d''"
  by (auto simp: pages_kept_def intro: map_le_trans)

lemma pages_kept_opened: "pages_kept d d' \<Longrightarrow> disk_opened d fd \<Longrightarrow> disk_opened d' fd"
  by (auto simp: pages_kept_def disk_opened_def map_le_def dom_def)

lemma write_log_stream:
  assumes "disk_inv d" and "log_ready d" and "length (log_file d) + length buf \<le> px_max_file (os d)"
  shows "\<exists>d'. write_log buf d = (Inr (), d') \<and> disk_inv d' \<and> log_ready d' \<and> log_file d' = log_file d @ buf \<and>
     pages_kept d d'"
proof -
  from assms(2) obtain c where c: "px_files (os d) LOG_FILE_NAME = Some c" by (auto simp: log_ready_def)
  then have l: "log_file d = c" by (simp add: log_file_def)
  from write_log_ok [OF assms(1,2) c] assms(3) l obtain d' where w: "write_log buf d = (Inr (), d')"
    and i: "disk_inv d'" and n: "log_fd d' \<noteq> - 1"
    and f: "px_files (os d') = (px_files (os d))(LOG_FILE_NAME \<mapsto> c @ buf)"
    and m: "px_max_file (os d') = px_max_file (os d)"
    and t: "fd2path d \<subseteq>\<^sub>m fd2path d'" "fd2pageno d' = fd2pageno d" by auto
  have "disk_page d' fd n = Some a" if "disk_page d fd n = Some a" for fd n a
    by (rule disk_page_more [OF t(1) _ that]) (use c f in auto)
  with w i n f t m l show ?thesis by (auto simp: log_ready_def log_file_def pages_kept_def)
qed

lemma flush_log_ok:
  assumes "log_inv (lm, d)"
  obtains d' where "flush_log_to_disk (lm, d) = (Inr (), (if log_buffer lm = [] then lm
        else lm\<lparr>log_buffer := [], persist_lsn := global_lsn lm\<rparr>, d'))"
    and "log_file d' = log_file d @ log_buffer lm" and "pages_kept d d'" and "disk_inv d'" and "log_ready d'"
proof (cases "log_buffer lm = []")
  case True
  with assms show thesis by (intro that [of d]) (simp_all add: flush_log_to_disk_def log_inv_def)
next
  case False
  from assms have "disk_inv d" "log_ready d" "length (log_file d) + length (log_buffer lm) \<le> px_max_file (os d)"
    by (simp_all add: log_inv_def log_stream_def)
  from write_log_stream [OF this] obtain d' where "write_log (log_buffer lm) d = (Inr (), d')"
    and "disk_inv d'" "log_ready d'" "log_file d' = log_file d @ log_buffer lm" "pages_kept d d'" by blast
  with False show thesis by (intro that [of d']) (simp_all add: flush_log_to_disk_def)
qed

lemma flush_log_inv:
  assumes "log_inv (lm, d)" and "flush_log_to_disk (lm, d) = (r, s')"
  shows "r = Inr () \<and> log_inv s' \<and> log_stream s' = log_stream (lm, d) \<and> log_buffer (fst s') = [] \<and>
     log_file (snd s') = log_stream (lm, d) \<and>
     global_lsn (fst s') = global_lsn lm \<and> pages_kept d (snd s')"
proof -
  from assms(1) obtain d' where "flush_log_to_disk (lm, d) = (Inr (), (if log_buffer lm = [] then lm
        else lm\<lparr>log_buffer := [], persist_lsn := global_lsn lm\<rparr>, d'))"
    and "log_file d' = log_file d @ log_buffer lm" "pages_kept d d'" "disk_inv d'" "log_ready d'"
    by (rule flush_log_ok)
  with assms show ?thesis by (auto simp: log_inv_def log_stream_def pages_kept_def)
qed

lemma add_log_ok:
  assumes inv: "log_inv s" and r: "log_ok r" and fits: "log_tot_len (header r) \<le> LOG_BUFFER_SIZE"
    and room: "length (log_stream s) + log_tot_len (header r) \<le> px_max_file (os (snd s))"
    and lsn: "int32 (global_lsn (fst s) + 1)"
  shows "\<exists>s'. add_log_to_buffer r s = (Inr (global_lsn (fst s), set_lsn (global_lsn (fst s)) r), s') \<and>
     log_inv s' \<and> log_stream s' = log_stream s @ log_enc (set_lsn (global_lsn (fst s)) r) \<and>
     global_lsn (fst s') = global_lsn (fst s) + 1 \<and> pages_kept (snd s) (snd s')"
proof -
  let ?n = "log_tot_len (header r)" and ?g = "global_lsn (fst s)"
  obtain lm d where s: "s = (lm, d)" by force
  obtain e lm1 d1 where f: "(if is_full (log_buffer lm) ?n then flush_log_to_disk (lm, d) else (Inr (), (lm, d)))
      = (e, (lm1, d1))" by (metis prod.exhaust)
  have inv1: "e = Inr () \<and> log_inv (lm1, d1) \<and> log_stream (lm1, d1) = log_stream s \<and> global_lsn lm1 = ?g \<and>
      pages_kept d d1 \<and> length (log_buffer lm1) + ?n \<le> LOG_BUFFER_SIZE"
  proof (cases "is_full (log_buffer lm) ?n")
    case True
    with f have "flush_log_to_disk (lm, d) = (e, (lm1, d1))" by simp
    from flush_log_inv [OF _ this] inv s fits show ?thesis by auto
  next
    case False
    with f inv s show ?thesis by (auto simp: is_full_def)
  qed
  have okl: "log_ok (set_lsn ?g r)" using r inv by (simp add: log_ok_set_lsn log_inv_def)
  have ser: "serialize (set_lsn ?g r) (memset ?n 0) = log_enc (set_lsn ?g r)"
    by (rule log_fmt.ser_fits [OF okl]) simp
  have len: "length (log_enc (set_lsn ?g r)) = ?n" using log_fmt.length_enc [OF okl] by simp
  let ?s = "(lm1\<lparr>global_lsn := ?g + 1, log_buffer := log_buffer lm1 @ log_enc (set_lsn ?g r)\<rparr>, d1)"
  have "add_log_to_buffer r s = (Inr (?g, set_lsn ?g r), ?s)"
    using f inv1 lsn ser by (simp add: add_log_to_buffer_def s Let_def)
  moreover have str: "log_stream ?s = log_stream s @ log_enc (set_lsn ?g r)"
    using inv1 by (simp add: log_stream_def)
  moreover have "log_inv ?s"
    using inv1 room lsn len str by (auto simp: log_inv_def s pages_kept_def)
  ultimately show ?thesis using inv1 s by auto
qed

section \<open>Data files beside the log\<close>

text \<open>
  Reading and writing pages of a file other than the log keeps the log manager's invariant and
  the log.
\<close>

definition data_fd :: "disk_manager \<Rightarrow> int \<Rightarrow> bool" where
  "data_fd d fd \<longleftrightarrow> (\<exists>p. fd2path d fd = Some p \<and> p \<noteq> LOG_FILE_NAME)"

lemma data_fd_opened: "data_fd d fd \<Longrightarrow> disk_opened d fd"
  by (auto simp: data_fd_def disk_opened_def)

lemma data_fd_kept: "pages_kept d d' \<Longrightarrow> data_fd d fd \<Longrightarrow> data_fd d' fd"
  by (auto simp: pages_kept_def data_fd_def map_le_def dom_def)

lemma px_new_fd_same_dom:
  "dom (px_fds s) = dom (px_fds t) \<Longrightarrow> px_fd_limit s = px_fd_limit t \<Longrightarrow> px_new_fd s = px_new_fd t"
proof -
  assume d: "dom (px_fds s) = dom (px_fds t)" and l: "px_fd_limit s = px_fd_limit t"
  have "px_fds s i = None \<longleftrightarrow> px_fds t i = None" for i using d by (metis domIff)
  then show ?thesis by (simp add: px_new_fd_def l)
qed

lemma write_page_log:
  assumes d: "disk_inv d" and fd: "data_fd d fd" and n: "page_ok n" and b: "length buf = PAGE_SIZE"
  obtains d' where "write_page fd n buf d = (Inr (), d')" and "disk_inv d'" and "fd2path d' = fd2path d"
    and "fd2pageno d' = fd2pageno d" and "log_file d' = log_file d" and "log_ready d' = log_ready d"
    and "px_max_file (os d') = px_max_file (os d)"
    and "disk_page d' fd n = Some buf"
    and "\<And>fd' m a. page_ok m \<Longrightarrow> (fd', m) \<noteq> (fd, n) \<Longrightarrow> disk_page d fd' m = Some a \<Longrightarrow> disk_page d' fd' m = Some a"
proof -
  from fd obtain p where p: "fd2path d fd = Some p" "p \<noteq> LOG_FILE_NAME" by (auto simp: data_fd_def)
  then obtain pos c where pos: "px_fds (os d) fd = Some (p, pos)" and c: "px_files (os d) p = Some c"
    using d by (auto elim: disk_inv_openD)
  note w = write_page_eq [OF d p(1) c n b]
  obtain d' where d': "write_page fd n buf d = (Inr (), d')" "disk_inv d'" "fd2path d' = fd2path d"
      "fd2pageno d' = fd2pageno d" "disk_page d' fd n = Some buf"
      "\<And>fd' m a. page_ok m \<Longrightarrow> (fd', m) \<noteq> (fd, n) \<Longrightarrow> disk_page d fd' m = Some a \<Longrightarrow> disk_page d' fd' m = Some a"
    using write_page_ok [OF d _ n b, of fd] p by auto
  have "px_new_fd (os d') = px_new_fd (os d)"
    using w d'(1) pos by (intro px_new_fd_same_dom) auto
  then have l: "log_file d' = log_file d" "log_ready d' = log_ready d" "px_max_file (os d') = px_max_file (os d)"
    using w d'(1) p(2) by (auto simp: log_file_def log_ready_def)
  show thesis by (rule that [OF d'(1-4) l d'(5,6)])
qed

lemma read_page_log:
  assumes d: "disk_inv d" and b: "disk_page d fd n = Some b" and n: "page_ok n"
  obtains d' where "read_page fd n PAGE_SIZE d = (Inr b, d')" and "disk_inv d'" and "fd2path d' = fd2path d"
    and "fd2pageno d' = fd2pageno d" and "log_file d' = log_file d" and "log_ready d' = log_ready d"
    and "px_max_file (os d') = px_max_file (os d)" and "disk_page d' = disk_page d"
proof -
  from read_page_eq [OF assms] obtain p where p: "fd2path d fd = Some p"
    and r: "read_page fd n PAGE_SIZE d = (Inr b, d\<lparr>os := (os d)
     \<lparr>px_fds := (px_fds (os d))(fd \<mapsto> (p, nat n * PAGE_SIZE + PAGE_SIZE))\<rparr>\<rparr>)" (is "_ = (_, ?d)") by blast
  obtain pos where pos: "px_fds (os d) fd = Some (p, pos)" using d p by (auto elim: disk_inv_openD)
  have "px_new_fd (os ?d) = px_new_fd (os d)"
    using pos by (intro px_new_fd_same_dom) auto
  then have "log_file ?d = log_file d" "log_ready ?d = log_ready d"
    by (auto simp: log_file_def log_ready_def)
  with r disk_inv_moved_fd [OF d p] show thesis
    by (intro that [of ?d]) (simp_all add: disk_page_moved_fd)
qed

section \<open>Runs of the log manager\<close>

text \<open>
  Any mix of appends and flushes. The run returns the records as they were logged, with their
  sequence numbers.
\<close>

datatype log_op = LAdd log_record | LFlush

fun log_run :: "log_op list \<Rightarrow> log_manager \<times> disk_manager \<Rightarrow> (log_record list, log_manager \<times> disk_manager) res" where
  "log_run [] s = (Inr [], s)"
| "log_run (LAdd r # ops) s =
     bindE (add_log_to_buffer r s) (\<lambda>(_, r') s1. bindE (log_run ops s1) (\<lambda>rs s2. (Inr (r' # rs), s2)))"
| "log_run (LFlush # ops) s = bindE (flush_log_to_disk s) (\<lambda>_ s1. log_run ops s1)"

fun added :: "log_op list \<Rightarrow> log_record list" where
  "added [] = []"
| "added (LAdd r # ops) = r # added ops"
| "added (LFlush # ops) = added ops"

fun number_from :: "int \<Rightarrow> log_record list \<Rightarrow> log_record list" where
  "number_from g [] = []"
| "number_from g (r # rs) = set_lsn g r # number_from (g + 1) rs"

definition log_size :: "log_record list \<Rightarrow> nat" where
  "log_size rs = (\<Sum>r \<leftarrow> rs. log_tot_len (header r))"

definition loggable :: "log_record list \<Rightarrow> bool" where
  "loggable rs \<longleftrightarrow> (\<forall>r \<in> set rs. log_ok r \<and> log_tot_len (header r) \<le> LOG_BUFFER_SIZE)"

lemma log_run_ok:
  "log_inv s \<Longrightarrow> loggable (added ops) \<Longrightarrow>
   length (log_stream s) + log_size (added ops) \<le> px_max_file (os (snd s)) \<Longrightarrow>
   global_lsn (fst s) + int (length (added ops)) < 2 ^ 31 \<Longrightarrow>
   \<exists>s'. log_run ops s = (Inr (number_from (global_lsn (fst s)) (added ops)), s') \<and> log_inv s' \<and>
     log_stream s' = log_stream s @ concat (map log_enc (number_from (global_lsn (fst s)) (added ops))) \<and>
     global_lsn (fst s') = global_lsn (fst s) + int (length (added ops)) \<and> pages_kept (snd s) (snd s')"
proof (induction ops arbitrary: s)
  case Nil
  then show ?case by simp
next
  case (Cons x ops)
  note prems = Cons.prems
  show ?case
  proof (cases x)
    case (LAdd r)
    let ?g = "global_lsn (fst s)"
    have ok: "log_ok (set_lsn ?g r)" using prems(1,2) LAdd by (simp add: loggable_def log_ok_set_lsn log_inv_def)
    have "int32 (?g + 1)" using prems(1,4) LAdd by (auto simp: log_inv_def int32_def)
    with add_log_ok [of s r] prems LAdd obtain s1 where
      a: "add_log_to_buffer r s = (Inr (?g, set_lsn ?g r), s1)" and i: "log_inv s1"
      and st: "log_stream s1 = log_stream s @ log_enc (set_lsn ?g r)" and g: "global_lsn (fst s1) = ?g + 1"
      and k: "pages_kept (snd s) (snd s1)" by (auto simp: loggable_def log_size_def)
    have "length (log_stream s1) = length (log_stream s) + log_tot_len (header r)"
      using log_fmt.length_enc [OF ok] st by simp
    then have "length (log_stream s1) + log_size (added ops) \<le> px_max_file (os (snd s1))"
      using prems(3) k LAdd by (simp add: log_size_def pages_kept_def)
    with Cons.IH [of s1] i g prems LAdd obtain s2 where
      "log_run ops s1 = (Inr (number_from (?g + 1) (added ops)), s2)" "log_inv s2"
      "log_stream s2 = log_stream s1 @ concat (map log_enc (number_from (?g + 1) (added ops)))"
      "global_lsn (fst s2) = ?g + 1 + int (length (added ops))" "pages_kept (snd s1) (snd s2)"
      by (auto simp: loggable_def)
    with LAdd a st k show ?thesis by (auto intro: pages_kept_trans)
  next
    case LFlush
    obtain lm d e s1 where s: "s = (lm, d)" and f: "flush_log_to_disk (lm, d) = (e, s1)"
      by (metis prod.exhaust)
    from flush_log_inv [OF _ f] prems(1) s have e: "e = Inr ()" and i: "log_inv s1"
      and st: "log_stream s1 = log_stream s" and g: "global_lsn (fst s1) = global_lsn (fst s)"
      and k: "pages_kept (snd s) (snd s1)" by auto
    from Cons.IH [of s1] i st g k prems LFlush obtain s2 where
      "log_run ops s1 = (Inr (number_from (global_lsn (fst s)) (added ops)), s2)" "log_inv s2"
      "log_stream s2 = log_stream s1 @ concat (map log_enc (number_from (global_lsn (fst s)) (added ops)))"
      "global_lsn (fst s2) = global_lsn (fst s) + int (length (added ops))" "pages_kept (snd s1) (snd s2)"
      by (auto simp: pages_kept_def)
    with LFlush s f e st k show ?thesis by (auto intro: pages_kept_trans)
  qed
qed

section \<open>Properties\<close>

text \<open>
  C19: the log on disk is the sequence of the logged records. Whatever appends and flushes are
  made and in whatever order the buffer fills up, every append returns the next sequence number,
  and after a final flush the log file is its old content followed by the records in the order
  of the calls, none lost, repeated or reordered, while no data page has changed.
\<close>

theorem log_file_is_record_sequence:
  assumes "log_inv s" and "loggable (added ops)"
    and "length (log_stream s) + log_size (added ops) \<le> px_max_file (os (snd s))"
    and "global_lsn (fst s) + int (length (added ops)) < 2 ^ 31"
  shows "\<exists>s'. log_run (ops @ [LFlush]) s = (Inr (number_from (global_lsn (fst s)) (added ops)), s') \<and>
     log_file (snd s') = log_stream s @ concat (map log_enc (number_from (global_lsn (fst s)) (added ops))) \<and>
     log_buffer (fst s') = [] \<and>
     (\<forall>fd n a. disk_page (snd s) fd n = Some a \<longrightarrow> disk_page (snd s') fd n = Some a)"
proof -
  have run: "log_run (ops @ [LFlush]) t = bindE (log_run ops t) (\<lambda>rs t1. bindE (flush_log_to_disk t1) (\<lambda>_ t2. (Inr rs, t2)))"
    for t
    by (induction ops t rule: log_run.induct)
      (auto simp: bindE_def split: prod.splits sum.splits)
  from log_run_ok [OF assms] obtain lm d where
      r: "log_run ops s = (Inr (number_from (global_lsn (fst s)) (added ops)), (lm, d))" and i: "log_inv (lm, d)"
      and st: "log_stream (lm, d) = log_stream s @ concat (map log_enc (number_from (global_lsn (fst s)) (added ops)))"
      and k: "pages_kept (snd s) d" by auto
  obtain e s2 where f: "flush_log_to_disk (lm, d) = (e, s2)" by (metis prod.exhaust)
  have "e = Inr () \<and> log_buffer (fst s2) = [] \<and> log_file (snd s2) = log_stream (lm, d) \<and> pages_kept d (snd s2)"
    using flush_log_inv [OF i f] by simp
  with run [of s] r f st k show ?thesis by (auto simp: pages_kept_def)
qed

lemma sample_log_inv: "log_inv (LogManager_init 0, sample_disk)"
  by (simp add: log_inv_def LogManager_init_def sample_disk_inv sample_disk_log log_stream_def log_file_def int32_def)

theorem log_file_is_record_sequence_witness:
  "\<exists>s'. log_run ([LAdd (LR_Insert sample_insert), LFlush, LAdd (LR_Header (CommitLogRecord_init 4))] @ [LFlush])
       (LogManager_init 0, sample_disk)
     = (Inr [set_lsn 0 (LR_Insert sample_insert), set_lsn 1 (LR_Header (CommitLogRecord_init 4))], s') \<and>
     log_file (snd s') = 7 # log_enc (set_lsn 0 (LR_Insert sample_insert)) @
       log_enc (set_lsn 1 (LR_Header (CommitLogRecord_init 4)))"
proof -
  let ?ops = "[LAdd (LR_Insert sample_insert), LFlush, LAdd (LR_Header (CommitLogRecord_init 4))]"
  have "log_ok (LR_Header (CommitLogRecord_init 4))"
    by (simp add: CommitLogRecord_init_def header_ok_def int32_def INVALID_LSN_def log_offsets)
  then have "loggable (added ?ops)"
    using sample_insert_ok
    by (simp add: loggable_def sample_insert_def InsertLogRecord_init_def CommitLogRecord_init_def log_offsets
        LOG_BUFFER_SIZE_def PAGE_SIZE_def)
  moreover have "length (log_stream (LogManager_init 0, sample_disk)) + log_size (added ?ops)
      \<le> px_max_file (os (snd (LogManager_init 0, sample_disk)))"
    by (simp add: log_size_def sample_insert_def InsertLogRecord_init_def CommitLogRecord_init_def log_offsets
        log_stream_def LogManager_init_def log_file_def sample_disk_log)
  moreover have "global_lsn (fst (LogManager_init 0, sample_disk)) + int (length (added ?ops)) < 2 ^ 31"
    by (simp add: LogManager_init_def)
  ultimately show ?thesis
    using log_file_is_record_sequence [OF sample_log_inv, of ?ops]
    by (auto simp: LogManager_init_def log_stream_def log_file_def sample_disk_log simp del: set_lsn.simps log_run.simps)
qed

text \<open>
  \<open>persist_lsn_\<close> runs ahead of the log file. After a flush and one more append, the record just
  appended has the sequence number \<open>get_persist_lsn\<close> returns, although it is in the buffer only
  and the log file is still what the flush left: a page stamped with this number passes the
  test \<open>get_page_lsn() > get_persist_lsn()\<close> of the buffer pool and is written before its record.
\<close>

theorem persist_lsn_names_unflushed_record:
  assumes inv: "log_inv (lm, d)" and ne: "log_buffer lm \<noteq> []" and r: "log_ok r"
    and fits: "log_tot_len (header r) \<le> LOG_BUFFER_SIZE"
    and room: "length (log_stream (lm, d)) + log_tot_len (header r) \<le> px_max_file (os d)"
    and lsn: "int32 (global_lsn lm + 1)"
  shows "\<exists>s1 l r' lm2 d2. flush_log_to_disk (lm, d) = (Inr (), s1) \<and>
     add_log_to_buffer r s1 = (Inr (l, r'), (lm2, d2)) \<and>
     get_persist_lsn lm2 = l \<and> log_buffer lm2 = log_enc r' \<and> log_file d2 = log_stream (lm, d)"
proof -
  obtain d1 where f: "flush_log_to_disk (lm, d) = (Inr (), (lm\<lparr>log_buffer := [], persist_lsn := global_lsn lm\<rparr>, d1))"
    by (rule flush_log_ok [OF inv]) (use ne in simp)
  let ?lm = "lm\<lparr>log_buffer := [], persist_lsn := global_lsn lm\<rparr>"
  have l1: "log_file d1 = log_stream (lm, d)" using flush_log_inv [OF inv f] by simp
  have nf: "\<not> is_full (log_buffer ?lm) (log_tot_len (header r))" using fits by (simp add: is_full_def)
  have ok: "log_ok (set_lsn (global_lsn lm) r)" using r inv by (simp add: log_ok_set_lsn log_inv_def)
  have "serialize (set_lsn (global_lsn lm) r) (memset (log_tot_len (header r)) 0) = log_enc (set_lsn (global_lsn lm) r)"
    by (rule log_fmt.ser_fits [OF ok]) simp
  with nf f l1 show ?thesis by (simp add: add_log_to_buffer_def Let_def get_persist_lsn_def)
qed

lemma sample_log_inv_buffered:
  "log_inv (\<lparr>global_lsn = 1, log_buffer = [1], persist_lsn = 0\<rparr>, sample_disk)"
  by (simp add: log_inv_def sample_disk_inv sample_disk_log log_stream_def log_file_def int32_def LOG_BUFFER_SIZE_def PAGE_SIZE_def)

theorem persist_lsn_names_unflushed_record_witness:
  "\<exists>s1 l r' lm2 d2. flush_log_to_disk (\<lparr>global_lsn = 1, log_buffer = [1], persist_lsn = 0\<rparr>, sample_disk) = (Inr (), s1) \<and>
     add_log_to_buffer (LR_Insert sample_insert) s1 = (Inr (l, r'), (lm2, d2)) \<and>
     get_persist_lsn lm2 = l \<and> log_buffer lm2 = log_enc r' \<and>
     log_file d2 = log_stream (\<lparr>global_lsn = 1, log_buffer = [1], persist_lsn = 0\<rparr>, sample_disk)"
  by (rule persist_lsn_names_unflushed_record [OF sample_log_inv_buffered _ sample_insert_ok])
    (simp_all add: sample_insert_def InsertLogRecord_init_def log_offsets LOG_BUFFER_SIZE_def PAGE_SIZE_def log_stream_def
      log_file_def sample_disk_log int32_def)

end
