(* ===== verification/LruReplacer.thy ===== *)
theory LruReplacer
  imports Prelude
begin

text \<open>
  The page replacer: the interface \<open>Replacer\<close> of \<^verbatim>\<open>replacer/replacer.h\<close> as a locale, its
  LRU implementation \<open>LRUReplacer\<close> of \<^verbatim>\<open>replacer/lru_replacer.cpp\<close>, and the interpretation
  that discharges the interface's laws for the implementation.

  A \<open>std::list\<close> iterator stays valid while other nodes come and go, and \<open>LRUhash\<close> stores
  such iterators. The list is therefore modelled as nodes with addresses: \<open>LRUlist\<close> holds
  pairs of a node address and the frame stored in the node, \<open>LRUhash\<close> maps a frame to a
  node address, and a new node gets the next address that was never used.
\<close>

section \<open>The model\<close>

record lru =
  LRUlist :: "(nat \<times> nat) list"
  LRUhash :: "nat \<rightharpoonup> nat"
  max_size :: nat
  next_node :: nat

definition LRUReplacer_init :: "nat \<Rightarrow> lru" where
  "LRUReplacer_init num_pages =
     \<lparr>LRUlist = [], LRUhash = Map.empty, max_size = num_pages, next_node = 0\<rparr>"

definition lru_victim :: "lru \<Rightarrow> nat option \<times> lru" where
  "lru_victim s =
     (if LRUlist s = [] then (None, s)
      else let frame_id = snd (last (LRUlist s))
           in (Some frame_id,
               s\<lparr>LRUlist := butlast (LRUlist s), LRUhash := (LRUhash s)(frame_id := None)\<rparr>))"

definition lru_pin :: "nat \<Rightarrow> lru \<Rightarrow> lru" where
  "lru_pin frame_id s =
     (case LRUhash s frame_id of
        None \<Rightarrow> s
      | Some list_it \<Rightarrow>
          s\<lparr>LRUlist := filter (\<lambda>(node, _). node \<noteq> list_it) (LRUlist s),
            LRUhash := (LRUhash s)(frame_id := None)\<rparr>)"

definition lru_unpin :: "nat \<Rightarrow> lru \<Rightarrow> lru" where
  "lru_unpin frame_id s =
     (case LRUhash s frame_id of
        None \<Rightarrow>
          s\<lparr>LRUlist := (next_node s, frame_id) # LRUlist s,
            LRUhash := (LRUhash s)(frame_id \<mapsto> next_node s),
            next_node := Suc (next_node s)\<rparr>
      | Some _ \<Rightarrow> s)"

definition lru_Size :: "lru \<Rightarrow> nat" where
  "lru_Size s = length (LRUlist s)"

section \<open>The invariant\<close>

definition lru_frames :: "lru \<Rightarrow> nat list" where
  "lru_frames s = map snd (LRUlist s)"

definition lru_inv :: "lru \<Rightarrow> bool" where
  "lru_inv s \<longleftrightarrow>
     distinct (map fst (LRUlist s)) \<and> distinct (map snd (LRUlist s)) \<and>
     (\<forall>n f. (n, f) \<in> set (LRUlist s) \<longleftrightarrow> LRUhash s f = Some n) \<and>
     (\<forall>n \<in> fst ` set (LRUlist s). n < next_node s)"

lemma lru_inv_init [simp]: "lru_inv (LRUReplacer_init n)"
  by (simp add: lru_inv_def LRUReplacer_init_def)

lemma lru_frames_init [simp]: "lru_frames (LRUReplacer_init n) = []"
  by (simp add: lru_frames_def LRUReplacer_init_def)

lemma lru_hash_None: "lru_inv s \<Longrightarrow> LRUhash s f = None \<longleftrightarrow> f \<notin> set (lru_frames s)"
proof -
  assume "lru_inv s"
  then have *: "\<And>n. (n, f) \<in> set (LRUlist s) \<longleftrightarrow> LRUhash s f = Some n" by (simp add: lru_inv_def)
  have "f \<in> set (lru_frames s) \<longleftrightarrow> (\<exists>n. (n, f) \<in> set (LRUlist s))"
    by (force simp: lru_frames_def)
  then show ?thesis using * by (cases "LRUhash s f") auto
qed

lemma filter_snd_key:
  "distinct (map fst xs) \<Longrightarrow> distinct (map snd xs) \<Longrightarrow> (n, f) \<in> set xs \<Longrightarrow>
     filter (\<lambda>(m, _). m \<noteq> n) xs = filter (\<lambda>(_, g). g \<noteq> f) xs"
  by (rule filter_cong) (auto dest: eq_key_imp_eq_value distinct_map_snd_eq)

lemma lru_pin_list:
  assumes "lru_inv s"
  shows "LRUlist (lru_pin f s) = filter (\<lambda>(_, g). g \<noteq> f) (LRUlist s)"
proof (cases "LRUhash s f")
  case None
  with assms have "f \<notin> snd ` set (LRUlist s)" by (simp add: lru_hash_None lru_frames_def)
  then have "filter (\<lambda>(_, g). g \<noteq> f) (LRUlist s) = LRUlist s"
    by (auto simp: filter_id_conv image_iff)
  then show ?thesis using None by (simp add: lru_pin_def)
next
  case (Some n)
  with assms have "(n, f) \<in> set (LRUlist s)" by (simp add: lru_inv_def)
  with assms have "filter (\<lambda>(m, _). m \<noteq> n) (LRUlist s) = filter (\<lambda>(_, g). g \<noteq> f) (LRUlist s)"
    by (intro filter_snd_key) (auto simp: lru_inv_def)
  with Some show ?thesis by (simp add: lru_pin_def)
qed

lemma lru_frames_pin: "lru_inv s \<Longrightarrow> lru_frames (lru_pin f s) = filter (\<lambda>g. g \<noteq> f) (lru_frames s)"
  by (simp add: lru_frames_def lru_pin_list filter_map comp_def case_prod_unfold)

lemma lru_inv_pin: "lru_inv s \<Longrightarrow> lru_inv (lru_pin f s)"
proof (cases "LRUhash s f")
  case None
  then show "lru_inv s \<Longrightarrow> ?thesis" by (simp add: lru_pin_def)
next
  case (Some n)
  assume s: "lru_inv s"
  let ?t = "lru_pin f s"
  have l: "LRUlist ?t = filter (\<lambda>(_, g). g \<noteq> f) (LRUlist s)" using s by (rule lru_pin_list)
  have h: "LRUhash ?t = (LRUhash s)(f := None)" and x: "next_node ?t = next_node s"
    using Some by (simp_all add: lru_pin_def)
  have "distinct (map fst (LRUlist ?t))" and "distinct (map snd (LRUlist ?t))"
    using s by (simp_all add: l lru_inv_def distinct_map_filter)
  with s show ?thesis by (auto simp: lru_inv_def l h x)
qed

lemma lru_frames_unpin:
  "lru_inv s \<Longrightarrow> lru_frames (lru_unpin f s) = (if f \<in> set (lru_frames s) then lru_frames s else f # lru_frames s)"
proof (cases "LRUhash s f")
  case None
  assume "lru_inv s"
  with None have "f \<notin> set (lru_frames s)" by (simp add: lru_hash_None)
  with None show ?thesis by (simp add: lru_unpin_def lru_frames_def)
next
  case (Some n)
  assume "lru_inv s"
  with Some have "f \<in> set (lru_frames s)" using lru_hash_None [of s f] by auto
  with Some show ?thesis by (simp add: lru_unpin_def)
qed

lemma lru_inv_unpin: "lru_inv s \<Longrightarrow> lru_inv (lru_unpin f s)"
proof (cases "LRUhash s f")
  case None
  assume s: "lru_inv s"
  with None have "f \<notin> snd ` set (LRUlist s)" by (simp add: lru_hash_None lru_frames_def)
  moreover have "next_node s \<notin> fst ` set (LRUlist s)" using s by (auto simp: lru_inv_def)
  ultimately show ?thesis using s None
    by (auto simp: lru_inv_def lru_unpin_def rev_image_eqI less_Suc_eq)
next
  case (Some n)
  then show "lru_inv s \<Longrightarrow> ?thesis" by (simp add: lru_unpin_def)
qed

lemma lru_victim_Nil: "lru_frames s = [] \<Longrightarrow> lru_victim s = (None, s)"
  by (simp add: lru_victim_def lru_frames_def)

lemma lru_victim_snoc:
  assumes s: "lru_inv s" and f: "lru_frames s = fs @ [f]"
  shows "\<exists>s'. lru_victim s = (Some f, s') \<and> lru_frames s' = fs \<and> lru_inv s'"
proof -
  from f obtain xs n where xs: "LRUlist s = xs @ [(n, f)]" and fs: "fs = map snd xs"
    by (auto simp: lru_frames_def map_eq_append_conv)
  let ?s = "s\<lparr>LRUlist := xs, LRUhash := (LRUhash s)(f := None)\<rparr>"
  have "lru_victim s = (Some f, ?s)" using xs by (simp add: lru_victim_def)
  moreover have "lru_inv ?s" using s xs by (auto simp: lru_inv_def rev_image_eqI)
  ultimately show ?thesis by (simp add: lru_frames_def fs)
qed

section \<open>The interface of replacer.h\<close>

text \<open>
  What \<open>Replacer\<close> promises its client, the buffer pool: the evictable frames are a set,
  \<open>unpin\<close> adds a frame, \<open>pin\<close> removes one, \<open>victim\<close> removes and returns some evictable frame
  and fails only when there is none, and \<open>Size\<close> counts them.
\<close>

locale replacer =
  fixes evictable :: "'s \<Rightarrow> nat set"
    and invar :: "'s \<Rightarrow> bool"
    and victim :: "'s \<Rightarrow> nat option \<times> 's"
    and pin :: "nat \<Rightarrow> 's \<Rightarrow> 's"
    and unpin :: "nat \<Rightarrow> 's \<Rightarrow> 's"
    and Size :: "'s \<Rightarrow> nat"
  assumes victim_None: "invar s \<Longrightarrow> evictable s = {} \<Longrightarrow> victim s = (None, s)"
    and victim_Some: "invar s \<Longrightarrow> evictable s \<noteq> {} \<Longrightarrow>
      \<exists>f s'. victim s = (Some f, s') \<and> f \<in> evictable s \<and> evictable s' = evictable s - {f} \<and> invar s'"
    and evictable_pin: "invar s \<Longrightarrow> evictable (pin f s) = evictable s - {f}"
    and evictable_unpin: "invar s \<Longrightarrow> evictable (unpin f s) = insert f (evictable s)"
    and invar_pin: "invar s \<Longrightarrow> invar (pin f s)"
    and invar_unpin: "invar s \<Longrightarrow> invar (unpin f s)"
    and Size_card: "invar s \<Longrightarrow> Size s = card (evictable s)"
begin

lemma victim_cases:
  assumes "invar s"
  obtains (none) "evictable s = {}" "victim s = (None, s)"
  | (some) f s' where "victim s = (Some f, s')" "f \<in> evictable s"
      "evictable s' = evictable s - {f}" "invar s'"
  using victim_None victim_Some assms by blast

lemma victim_not_evictable:
  assumes "invar s" and "victim s = (Some f, s')"
  shows "f \<in> evictable s" and "evictable s' = evictable s - {f}" and "invar s'"
  using assms by (auto elim: victim_cases)

lemma victim_fails: "invar s \<Longrightarrow> victim s = (None, s') \<Longrightarrow> evictable s = {} \<and> s' = s"
  by (auto elim: victim_cases)

end

definition lru_evictable :: "lru \<Rightarrow> nat set" where
  "lru_evictable s = set (lru_frames s)"

interpretation lru: replacer lru_evictable lru_inv lru_victim lru_pin lru_unpin lru_Size
proof (unfold_locales)
  fix s f
  assume s: "lru_inv s"
  show "lru_evictable (lru_pin f s) = lru_evictable s - {f}"
    using s by (auto simp: lru_evictable_def lru_frames_pin)
  show "lru_evictable (lru_unpin f s) = insert f (lru_evictable s)"
    using s by (auto simp: lru_evictable_def lru_frames_unpin)
  show "lru_inv (lru_pin f s)" using s by (rule lru_inv_pin)
  show "lru_inv (lru_unpin f s)" using s by (rule lru_inv_unpin)
  show "lru_Size s = card (lru_evictable s)"
    using s by (simp add: lru_Size_def lru_evictable_def lru_frames_def lru_inv_def
        distinct_card [of "map snd (LRUlist s)", simplified, symmetric])
  show "lru_evictable s = {} \<Longrightarrow> lru_victim s = (None, s)"
    by (rule lru_victim_Nil) (simp add: lru_evictable_def)
  show "\<exists>f s'. lru_victim s = (Some f, s') \<and> f \<in> lru_evictable s \<and>
      lru_evictable s' = lru_evictable s - {f} \<and> lru_inv s'" if "lru_evictable s \<noteq> {}"
  proof -
    from that obtain fs f where f: "lru_frames s = fs @ [f]"
      by (cases "lru_frames s" rule: rev_cases) (auto simp: lru_evictable_def)
    have "f \<notin> set fs" using s f by (auto simp: lru_inv_def lru_frames_def dest: arg_cong [where f = distinct])
    with lru_victim_snoc [OF s f] f show ?thesis by (fastforce simp: lru_evictable_def)
  qed
qed

section \<open>Runs of the replacer\<close>

text \<open>The calls a client can make, and a run of them that collects the victims.\<close>

datatype rep_op = RPin nat | RUnpin nat | RVictim

fun rep_step :: "rep_op \<Rightarrow> lru \<Rightarrow> nat option \<times> lru" where
  "rep_step (RPin f) s = (None, lru_pin f s)"
| "rep_step (RUnpin f) s = (None, lru_unpin f s)"
| "rep_step RVictim s = lru_victim s"

fun rep_run :: "rep_op list \<Rightarrow> lru \<Rightarrow> nat list \<times> lru" where
  "rep_run [] s = ([], s)"
| "rep_run (x # xs) s =
     (let (v, s') = rep_step x s; (vs, t) = rep_run xs s'
      in ((case v of None \<Rightarrow> [] | Some f \<Rightarrow> [f]) @ vs, t))"

lemma rep_step_inv: "lru_inv s \<Longrightarrow> lru_inv (snd (rep_step x s))"
proof (cases x)
  case RVictim
  assume s: "lru_inv s"
  then show ?thesis unfolding RVictim by (rule lru.victim_cases) (simp_all add: s)
qed (simp_all add: lru.invar_pin lru.invar_unpin)

lemma rep_step_not_evictable:
  assumes "lru_inv s" and "f \<notin> lru_evictable s" and "x \<noteq> RUnpin f"
  shows "fst (rep_step x s) \<noteq> Some f \<and> f \<notin> lru_evictable (snd (rep_step x s))"
proof (cases x)
  case RVictim
  from assms(1) show ?thesis
    unfolding RVictim by (rule lru.victim_cases) (use assms(2) in auto)
qed (use assms in \<open>simp_all add: lru.evictable_pin lru.evictable_unpin\<close>)

lemma rep_run_not_evictable:
  "lru_inv s \<Longrightarrow> f \<notin> lru_evictable s \<Longrightarrow> RUnpin f \<notin> set xs \<Longrightarrow> f \<notin> set (fst (rep_run xs s))"
proof (induction xs arbitrary: s)
  case Nil
  then show ?case by simp
next
  case (Cons x xs)
  obtain v s' where v: "rep_step x s = (v, s')" by force
  have "v \<noteq> Some f" and "f \<notin> lru_evictable s'"
    using rep_step_not_evictable [of s f x] Cons.prems v by auto
  moreover have "lru_inv s'" using rep_step_inv [of s x] Cons.prems(1) v by simp
  ultimately show ?case
    using Cons.IH [of s'] Cons.prems(3) v by (auto split: prod.splits option.splits)
qed

section \<open>Properties\<close>

text \<open>
  C27: a pinned frame is never chosen as a victim. After \<open>pin f\<close>, whatever calls follow, no
  \<open>victim\<close> call returns \<open>f\<close> until \<open>unpin f\<close> is called.
\<close>

theorem pinned_frame_never_victim:
  assumes "lru_inv s" and "RUnpin f \<notin> set ops"
  shows "f \<notin> set (fst (rep_run ops (lru_pin f s)))"
  using assms by (intro rep_run_not_evictable) (simp_all add: lru.invar_pin lru.evictable_pin)

theorem pinned_frame_never_victim_witness:
  "7 \<notin> set (fst (rep_run [RUnpin 3, RVictim, RVictim] (lru_pin 7 (lru_unpin 7 (LRUReplacer_init 2)))))"
  by (rule pinned_frame_never_victim) (simp_all add: lru.invar_unpin)

lemma lru_frames_fold_unpin:
  "lru_inv s \<Longrightarrow> distinct (rev fs @ lru_frames s) \<Longrightarrow>
     lru_inv (fold lru_unpin fs s) \<and> lru_frames (fold lru_unpin fs s) = rev fs @ lru_frames s"
proof (induction fs arbitrary: s)
  case Nil
  then show ?case by simp
next
  case (Cons f fs)
  then have "lru_inv (lru_unpin f s)" and "lru_frames (lru_unpin f s) = f # lru_frames s"
    by (auto simp: lru.invar_unpin lru_frames_unpin)
  with Cons.IH [of "lru_unpin f s"] Cons.prems(2) show ?case by auto
qed

lemma rep_run_victims:
  "lru_inv s \<Longrightarrow> fst (rep_run (replicate (length (lru_frames s)) RVictim) s) = rev (lru_frames s)"
proof (induction "lru_frames s" arbitrary: s rule: rev_induct)
  case Nil
  then show ?case by simp
next
  case (snoc f fs)
  from lru_victim_snoc [OF snoc.prems snoc.hyps(2) [symmetric]]
  obtain s' where "lru_victim s = (Some f, s')" and fs: "lru_frames s' = fs" and "lru_inv s'" by blast
  moreover from this snoc.hyps(1) [of s']
  have "fst (rep_run (replicate (length fs) RVictim) s') = rev fs" by simp
  ultimately show ?case
    by (simp add: snoc.hyps(2) [symmetric] case_prod_unfold)
qed

text \<open>
  The policy is least recently unpinned first. Frames unpinned in the order \<open>fs\<close> into an
  empty replacer are evicted in exactly that order, each of them once.
\<close>

theorem lru_evicts_in_unpin_order:
  assumes "distinct fs"
  shows "fst (rep_run (map RUnpin fs @ replicate (length fs) RVictim) (LRUReplacer_init n)) = fs"
proof -
  let ?s = "fold lru_unpin fs (LRUReplacer_init n)"
  have fold: "fst (rep_run (map RUnpin fs @ ops) t) = fst (rep_run ops (fold lru_unpin fs t))" for ops t
    by (induction fs arbitrary: t) (auto split: prod.splits)
  have "lru_inv ?s \<and> lru_frames ?s = rev fs"
    using lru_frames_fold_unpin [of "LRUReplacer_init n" fs] assms by simp
  with rep_run_victims [of ?s] show ?thesis by (simp add: fold)
qed

theorem lru_evicts_in_unpin_order_witness:
  "fst (rep_run (map RUnpin [4, 1, 6] @ replicate (length [4, 1, 6 :: nat]) RVictim)
     (LRUReplacer_init 8)) = [4, 1, 6]"
  by (rule lru_evicts_in_unpin_order) simp

end
