(* ===== verification/BufferPool.thy ===== *)
theory BufferPool
  imports LogManager LruReplacer
begin

text \<open>
  \<open>BufferPoolManager\<close> of \<^verbatim>\<open>storage/buffer_pool_manager.cpp\<close> over the replacer, the disk manager
  and the log manager, and the pages of \<^verbatim>\<open>storage/page.h\<close>.

  A \<open>Page *\<close> is the index of its frame in \<open>pages_\<close>, \<open>None\<close> the null pointer. The hash table
  \<open>page_table_\<close> is an association list: its order stands for the order in which \<open>flush_all_pages\<close>
  iterates over the table. The bytes a caller changes through a page pointer it holds are
  changed by \<open>set_data\<close>. Every operation holds the latch from start to end, so operations are
  atomic.
\<close>

section \<open>Pages\<close>

datatype PageId = PageId (pid_fd: int) (pid_no: int)

definition PageId_less :: "PageId \<Rightarrow> PageId \<Rightarrow> bool" where
  "PageId_less a x = (if pid_fd a < pid_fd x then True else pid_no a < pid_no x)"

definition PageId_toString :: "PageId \<Rightarrow> string" where
  "PageId_toString p = ''{fd: '' @ to_string (pid_fd p) @ '' page_no: '' @ to_string (pid_no p) @ ''}''"

record page =
  pg_id :: PageId
  pg_data :: bytes
  pg_dirty :: bool
  pg_pin :: int

definition Page_init :: "int \<Rightarrow> page" where
  "Page_init junk_fd =
     \<lparr>pg_id = PageId junk_fd INVALID_PAGE_ID, pg_data = memset PAGE_SIZE 0, pg_dirty = False, pg_pin = 0\<rparr>"

definition OFFSET_PAGE_HDR :: nat where
  "OFFSET_PAGE_HDR = 4"

definition get_page_lsn :: "page \<Rightarrow> int" where
  "get_page_lsn p = load_int (pg_data p) 0"

definition set_page_lsn :: "int \<Rightarrow> page \<Rightarrow> page" where
  "set_page_lsn page_lsn p = p\<lparr>pg_data := store_int (pg_data p) 0 page_lsn\<rparr>"

section \<open>The buffer pool\<close>

record bpm =
  pool_size :: nat
  pages :: "page list"
  page_table :: "(PageId \<times> nat) list"
  free_list :: "nat list"
  disk :: disk_manager
  replacer :: lru
  log_mgr :: "log_manager option"

definition pt_erase :: "PageId \<Rightarrow> (PageId \<times> nat) list \<Rightarrow> (PageId \<times> nat) list" where
  "pt_erase p t = filter (\<lambda>(q, _). q \<noteq> p) t"

definition BufferPoolManager_init :: "nat \<Rightarrow> int \<Rightarrow> disk_manager \<Rightarrow> log_manager option \<Rightarrow> bpm" where
  "BufferPoolManager_init n junk_fd d lm =
     \<lparr>pool_size = n, pages = replicate n (Page_init junk_fd), page_table = [], free_list = [0 ..< n],
      disk = d, replacer = LRUReplacer_init n, log_mgr = lm\<rparr>"

definition upd_page :: "nat \<Rightarrow> (page \<Rightarrow> page) \<Rightarrow> bpm \<Rightarrow> bpm" where
  "upd_page f g b = b\<lparr>pages := (pages b)[f := g (pages b ! f)]\<rparr>"

definition mark_dirty :: "nat \<Rightarrow> bpm \<Rightarrow> bpm" where
  "mark_dirty f b = upd_page f (\<lambda>p. p\<lparr>pg_dirty := True\<rparr>) b"

definition set_data :: "nat \<Rightarrow> bytes \<Rightarrow> bpm \<Rightarrow> bpm" where
  "set_data f data b = upd_page f (\<lambda>p. p\<lparr>pg_data := data\<rparr>) b"

definition find_victim_page :: "bpm \<Rightarrow> nat option \<times> bpm" where
  "find_victim_page b =
     (case free_list b of
        [] \<Rightarrow> (case lru_victim (replacer b) of (v, r) \<Rightarrow> (v, b\<lparr>replacer := r\<rparr>))
      | frame_id # fs \<Rightarrow> (Some frame_id, b\<lparr>free_list := fs\<rparr>))"

text \<open>The call of \<open>flush_log_to_disk\<close> on the log manager and the disk the pool shares with it.\<close>

definition flush_log :: "bpm \<Rightarrow> (unit, bpm) res" where
  "flush_log b =
     (case log_mgr b of
        None \<Rightarrow> (Inr (), b)
      | Some lm \<Rightarrow> (case flush_log_to_disk (lm, disk b) of
            (r, (lm', d')) \<Rightarrow> (r, b\<lparr>log_mgr := Some lm', disk := d'\<rparr>)))"

definition write_out :: "PageId \<Rightarrow> bytes \<Rightarrow> bpm \<Rightarrow> (unit, bpm) res" where
  "write_out p data b =
     (case write_page (pid_fd p) (pid_no p) data (disk b) of (r, d') \<Rightarrow> (r, b\<lparr>disk := d'\<rparr>))"

definition update_page :: "nat \<Rightarrow> PageId \<Rightarrow> bpm \<Rightarrow> (unit, bpm) res" where
  "update_page f new_page_id b =
     bindE (case log_mgr b of
              None \<Rightarrow> (Inr (), b)
            | Some lm \<Rightarrow> if get_page_lsn (pages b ! f) > get_persist_lsn lm then flush_log b else (Inr (), b))
       (\<lambda>_ b.
     bindE (if pg_dirty (pages b ! f)
            then bindE (write_out (pg_id (pages b ! f)) (pg_data (pages b ! f)) b)
                   (\<lambda>_ b. (Inr (), upd_page f (\<lambda>p. p\<lparr>pg_dirty := False\<rparr>) b))
            else (Inr (), b))
       (\<lambda>_ b.
          let b = b\<lparr>page_table := (new_page_id, f) # pt_erase new_page_id (pt_erase (pg_id (pages b ! f)) (page_table b))\<rparr>;
              b = upd_page f (\<lambda>p. p\<lparr>pg_id := new_page_id, pg_data := memset PAGE_SIZE 0, pg_dirty := False, pg_pin := 0\<rparr>) b
          in (Inr (), b)))"

definition pin_frame :: "nat \<Rightarrow> bpm \<Rightarrow> bpm" where
  "pin_frame f b =
     (let b = upd_page f (\<lambda>p. p\<lparr>pg_pin := pg_pin p + 1\<rparr>) b in b\<lparr>replacer := lru_pin f (replacer b)\<rparr>)"

definition fetch_page :: "PageId \<Rightarrow> bpm \<Rightarrow> (nat option, bpm) res" where
  "fetch_page p b =
     (case map_of (page_table b) p of
        Some f \<Rightarrow> (Inr (Some f), pin_frame f b)
      | None \<Rightarrow>
          (case find_victim_page b of
             (None, b) \<Rightarrow> (Inr None, b)
           | (Some f, b) \<Rightarrow>
               bindE (update_page f p b)
                 (\<lambda>_ b. case read_page (pid_fd p) (pid_no p) PAGE_SIZE (disk b) of
                     (Inl e, d) \<Rightarrow>
                       (Inl e, set_data f (memcpy (pg_data (pages b ! f)) 0
                          (read_page_bytes (pid_fd p) (pid_no p) PAGE_SIZE (disk b))) (b\<lparr>disk := d\<rparr>))
                   | (Inr data, d) \<Rightarrow> (Inr (Some f), pin_frame f (set_data f data (b\<lparr>disk := d\<rparr>))))))"

definition unpin_page :: "PageId \<Rightarrow> bool \<Rightarrow> bpm \<Rightarrow> bool \<times> bpm" where
  "unpin_page p is_dirty b =
     (case map_of (page_table b) p of
        None \<Rightarrow> (False, b)
      | Some f \<Rightarrow>
          if pg_pin (pages b ! f) = 0 then (False, b)
          else let b = upd_page f (\<lambda>p. p\<lparr>pg_pin := pg_pin p - 1\<rparr>) b;
                   b = (if pg_pin (pages b ! f) = 0 then b\<lparr>replacer := lru_unpin f (replacer b)\<rparr> else b);
                   b = (if is_dirty then upd_page f (\<lambda>p. p\<lparr>pg_dirty := True\<rparr>) b else b)
               in (True, b))"

definition flush_page :: "PageId \<Rightarrow> bpm \<Rightarrow> (bool, bpm) res" where
  "flush_page p b =
     (case map_of (page_table b) p of
        None \<Rightarrow> (Inr False, b)
      | Some f \<Rightarrow> bindE (write_out p (pg_data (pages b ! f)) b)
                    (\<lambda>_ b. (Inr True, upd_page f (\<lambda>p. p\<lparr>pg_dirty := False\<rparr>) b)))"

definition new_page :: "int \<Rightarrow> bpm \<Rightarrow> ((PageId \<times> nat) option, bpm) res" where
  "new_page fd b =
     (case find_victim_page b of
        (None, b) \<Rightarrow> (Inr None, b)
      | (Some f, b) \<Rightarrow>
          (case allocate_page fd (disk b) of
             (Inl e, d) \<Rightarrow> (Inl e, b\<lparr>disk := d\<rparr>)
           | (Inr page_no, d) \<Rightarrow>
               let p = PageId fd page_no
               in bindE (update_page f p (b\<lparr>disk := d\<rparr>))
                    (\<lambda>_ b. let b = pin_frame f b
                           in bindE (write_out p (pg_data (pages b ! f)) b) (\<lambda>_ b. (Inr (Some (p, f)), b)))))"

definition delete_page :: "PageId \<Rightarrow> bpm \<Rightarrow> (bool, bpm) res" where
  "delete_page p b =
     (case map_of (page_table b) p of
        None \<Rightarrow> (Inr True, b)
      | Some f \<Rightarrow>
          if pg_pin (pages b ! f) > 0 then (Inr False, b)
          else bindE (if pg_dirty (pages b ! f)
                      then write_out (pg_id (pages b ! f)) (pg_data (pages b ! f)) b else (Inr (), b))
                 (\<lambda>_ b. let b = b\<lparr>page_table := pt_erase p (page_table b), free_list := free_list b @ [f]\<rparr>
                        in (Inr True, upd_page f (\<lambda>_. \<lparr>pg_id = PageId (- 1) INVALID_PAGE_ID,
                              pg_data = memset PAGE_SIZE 0, pg_dirty = False, pg_pin = 0\<rparr>) b)))"

fun flush_entries :: "(PageId \<times> nat) list \<Rightarrow> int \<Rightarrow> bpm \<Rightarrow> (unit, bpm) res" where
  "flush_entries [] fd b = (Inr (), b)"
| "flush_entries ((p, f) # es) fd b =
     (if fd = pid_fd p
      then bindE (write_out (PageId fd (pid_no p)) (pg_data (pages b ! f)) b)
             (\<lambda>_ b. flush_entries es fd (upd_page f (\<lambda>p. p\<lparr>pg_dirty := False\<rparr>) b))
      else flush_entries es fd b)"

definition flush_all_pages :: "int \<Rightarrow> bpm \<Rightarrow> (unit, bpm) res" where
  "flush_all_pages fd b = flush_entries (page_table b) fd b"

section \<open>Environment of the pool: disk and log\<close>

definition env_ok :: "bpm \<Rightarrow> bool" where
  "env_ok b \<longleftrightarrow> disk_inv (disk b) \<and> (\<forall>lm. log_mgr b = Some lm \<longrightarrow> log_inv (lm, disk b))"

definition dpage :: "disk_manager \<Rightarrow> PageId \<Rightarrow> bytes option" where
  "dpage d p = disk_page d (pid_fd p) (pid_no p)"

definition valid_pid :: "disk_manager \<Rightarrow> PageId \<Rightarrow> bool" where
  "valid_pid d p \<longleftrightarrow> page_ok (pid_no p) \<and> data_fd d (pid_fd p)"

text \<open>The disk may only have changed at the pages of \<open>P\<close>; files stay open.\<close>

definition disk_mono :: "PageId set \<Rightarrow> disk_manager \<Rightarrow> disk_manager \<Rightarrow> bool" where
  "disk_mono P d d' \<longleftrightarrow> fd2path d \<subseteq>\<^sub>m fd2path d' \<and> fd2pageno d' = fd2pageno d \<and>
     (\<forall>q a. q \<notin> P \<longrightarrow> page_ok (pid_no q) \<longrightarrow> dpage d q = Some a \<longrightarrow> dpage d' q = Some a)"

lemma disk_mono_refl [simp]: "disk_mono P d d"
  by (simp add: disk_mono_def)

lemma disk_mono_trans: "disk_mono P d d' \<Longrightarrow> disk_mono Q d' d'' \<Longrightarrow> disk_mono (P \<union> Q) d d''"
  by (auto simp: disk_mono_def intro: map_le_trans)

lemma disk_mono_page:
  "disk_mono P d d' \<Longrightarrow> q \<notin> P \<Longrightarrow> page_ok (pid_no q) \<Longrightarrow> dpage d q = Some a \<Longrightarrow> dpage d' q = Some a"
  by (simp add: disk_mono_def)

lemma disk_mono_valid: "disk_mono P d d' \<Longrightarrow> valid_pid d p \<Longrightarrow> valid_pid d' p"
  by (auto simp: disk_mono_def valid_pid_def data_fd_def map_le_def dom_def)

lemma disk_mono_pageno: "disk_mono P d d' \<Longrightarrow> fd2pageno d' = fd2pageno d"
  by (simp add: disk_mono_def)

lemma pages_kept_mono: "pages_kept d d' \<Longrightarrow> disk_mono P d d'"
  by (auto simp: pages_kept_def disk_mono_def dpage_def)

lemma flush_log_mono:
  assumes "env_ok b"
  obtains lm d where "flush_log b = (Inr (), b\<lparr>log_mgr := lm, disk := d\<rparr>)" and "env_ok (b\<lparr>log_mgr := lm, disk := d\<rparr>)"
    and "disk_mono {} (disk b) d"
proof (cases "log_mgr b")
  case None
  then show thesis using assms by (intro that [where lm = None and d = "disk b"]) (simp_all add: flush_log_def env_ok_def)
next
  case (Some lm)
  obtain r lm' d' where f: "flush_log_to_disk (lm, disk b) = (r, (lm', d'))" by (metis prod.exhaust)
  have "log_inv (lm, disk b)" using assms Some by (simp add: env_ok_def)
  from flush_log_inv [OF this f] have "r = Inr ()" "log_inv (lm', d')" "pages_kept (disk b) d'" by simp_all
  with Some f show thesis
    by (intro that [where lm = "Some lm'" and d = d']) (simp_all add: flush_log_def env_ok_def log_inv_def pages_kept_mono)
qed

lemma write_out_mono:
  assumes b: "env_ok b" and p: "valid_pid (disk b) p" and len: "length data = PAGE_SIZE"
  obtains d where "write_out p data b = (Inr (), b\<lparr>disk := d\<rparr>)" and "env_ok (b\<lparr>disk := d\<rparr>)"
    and "disk_mono {p} (disk b) d" and "dpage d p = Some data"
proof -
  have i: "disk_inv (disk b)" using b by (simp add: env_ok_def)
  have pp: "data_fd (disk b) (pid_fd p)" "page_ok (pid_no p)" using p by (simp_all add: valid_pid_def)
  obtain d where w: "write_page (pid_fd p) (pid_no p) data (disk b) = (Inr (), d)" and di: "disk_inv d"
    and t: "fd2path d = fd2path (disk b)" "fd2pageno d = fd2pageno (disk b)"
    and l: "log_file d = log_file (disk b)" "log_ready d = log_ready (disk b)"
      "px_max_file (os d) = px_max_file (os (disk b))"
    and same: "disk_page d (pid_fd p) (pid_no p) = Some data"
    and other: "\<And>fd' m a. page_ok m \<Longrightarrow> (fd', m) \<noteq> (pid_fd p, pid_no p) \<Longrightarrow> disk_page (disk b) fd' m = Some a \<Longrightarrow> disk_page d fd' m = Some a"
    by (rule write_page_log [OF i pp len]) blast
  have "disk_mono {p} (disk b) d"
    unfolding disk_mono_def
  proof (intro conjI allI impI)
    fix q a
    assume "q \<notin> {p}" "page_ok (pid_no q)" "dpage (disk b) q = Some a"
    then show "dpage d q = Some a" using other [of "pid_no q" "pid_fd q" a] by (cases p, cases q) (auto simp: dpage_def)
  qed (simp_all add: t)
  moreover have "env_ok (b\<lparr>disk := d\<rparr>)"
    using b di l by (auto simp: env_ok_def log_inv_def log_stream_def)
  moreover have "write_out p data b = (Inr (), b\<lparr>disk := d\<rparr>)" using w by (simp add: write_out_def)
  ultimately show thesis using same by (intro that [of d]) (simp_all add: dpage_def)
qed

lemma read_page_mono:
  assumes b: "env_ok b" and p: "dpage (disk b) p = Some data" "page_ok (pid_no p)"
  obtains d where "read_page (pid_fd p) (pid_no p) PAGE_SIZE (disk b) = (Inr data, d)" and "env_ok (b\<lparr>disk := d\<rparr>)"
    and "disk_mono {} (disk b) d"
proof -
  have i: "disk_inv (disk b)" using b by (simp add: env_ok_def)
  from p have q: "disk_page (disk b) (pid_fd p) (pid_no p) = Some data" by (simp add: dpage_def)
  obtain d where r: "read_page (pid_fd p) (pid_no p) PAGE_SIZE (disk b) = (Inr data, d)" and "disk_inv d"
    "fd2path d = fd2path (disk b)" "fd2pageno d = fd2pageno (disk b)"
    "log_file d = log_file (disk b)" "log_ready d = log_ready (disk b)"
    "px_max_file (os d) = px_max_file (os (disk b))" "disk_page d = disk_page (disk b)"
    by (rule read_page_log [OF i q p(2)])
  with b show thesis
    by (intro that [of d]) (auto simp: env_ok_def log_inv_def log_stream_def disk_mono_def dpage_def)
qed

lemma env_ok_cong:
  "disk b' = disk b \<Longrightarrow> log_mgr b' = log_mgr b \<Longrightarrow> env_ok b' = env_ok b"
  by (simp add: env_ok_def)

section \<open>The invariant of the pool\<close>

definition frames_ok :: "bpm \<Rightarrow> bool" where
  "frames_ok b \<longleftrightarrow> length (pages b) = pool_size b \<and>
     (\<forall>f < pool_size b. 0 \<le> pg_pin (pages b ! f) \<and> length (pg_data (pages b ! f)) = PAGE_SIZE)"

definition table_ok :: "bpm \<Rightarrow> bool" where
  "table_ok b \<longleftrightarrow> distinct (map fst (page_table b)) \<and> distinct (map snd (page_table b)) \<and>
     (\<forall>(p, f) \<in> set (page_table b). f < pool_size b \<and> pg_id (pages b ! f) = p \<and> valid_pid (disk b) p)"

definition free_ok :: "nat set \<Rightarrow> bpm \<Rightarrow> bool" where
  "free_ok X b \<longleftrightarrow> distinct (free_list b) \<and>
     (\<forall>f \<in> set (free_list b). f < pool_size b \<and> f \<notin> snd ` set (page_table b) \<and>
        pid_no (pg_id (pages b ! f)) = - 1 \<and> \<not> pg_dirty (pages b ! f) \<and> pg_pin (pages b ! f) = 0) \<and>
     (\<forall>f < pool_size b. f \<notin> X \<longrightarrow> f \<in> set (free_list b) \<or> f \<in> snd ` set (page_table b))"

definition repl_ok :: "nat set \<Rightarrow> bpm \<Rightarrow> bool" where
  "repl_ok X b \<longleftrightarrow> lru_inv (replacer b) \<and> lru_evictable (replacer b) \<subseteq> {..< pool_size b} \<and>
     (\<forall>(p, f) \<in> set (page_table b). f \<notin> X \<longrightarrow> (f \<in> lru_evictable (replacer b) \<longleftrightarrow> pg_pin (pages b ! f) = 0))"

definition sync_ok :: "nat set \<Rightarrow> bpm \<Rightarrow> bool" where
  "sync_ok X b \<longleftrightarrow> (\<forall>(p, f) \<in> set (page_table b). f \<notin> X \<longrightarrow>
     (\<exists>a. dpage (disk b) p = Some a \<and>
        (pg_pin (pages b ! f) = 0 \<and> \<not> pg_dirty (pages b ! f) \<longrightarrow> pg_data (pages b ! f) = a)))"

definition bpm_inv :: "bpm \<Rightarrow> bool" where
  "bpm_inv b \<longleftrightarrow> env_ok b \<and> frames_ok b \<and> table_ok b \<and> free_ok {} b \<and> repl_ok {} b \<and> sync_ok {} b"

text \<open>What a page holds for the users of the pool.\<close>

definition content :: "bpm \<Rightarrow> PageId \<Rightarrow> bytes option" where
  "content b p = (case map_of (page_table b) p of None \<Rightarrow> dpage (disk b) p | Some f \<Rightarrow> Some (pg_data (pages b ! f)))"

lemma map_of_table:
  assumes "table_ok b"
  shows "map_of (page_table b) p = Some f \<longleftrightarrow> (p, f) \<in> set (page_table b)"
  using assms by (auto simp: table_ok_def)

lemma table_okD:
  assumes "table_ok b" and "(p, f) \<in> set (page_table b)"
  shows "f < pool_size b" and "pg_id (pages b ! f) = p" and "valid_pid (disk b) p"
  using assms by (auto simp: table_ok_def)

lemma table_frame_unique:
  "table_ok b \<Longrightarrow> (p, f) \<in> set (page_table b) \<Longrightarrow> (q, f) \<in> set (page_table b) \<Longrightarrow> p = q"
  by (auto simp: table_ok_def dest: distinct_map_snd_eq)

lemma table_page_unique:
  "table_ok b \<Longrightarrow> (p, f) \<in> set (page_table b) \<Longrightarrow> (p, g) \<in> set (page_table b) \<Longrightarrow> f = g"
  by (auto simp: table_ok_def dest: eq_key_imp_eq_value)

text \<open>Which parts of the invariant a field does not touch.\<close>

lemma inv_untouched [simp]:
  "env_ok (b\<lparr>free_list := fl\<rparr>) = env_ok b" "env_ok (b\<lparr>replacer := r\<rparr>) = env_ok b"
  "env_ok (b\<lparr>page_table := t\<rparr>) = env_ok b" "env_ok (b\<lparr>pages := ps\<rparr>) = env_ok b"
  "frames_ok (b\<lparr>free_list := fl\<rparr>) = frames_ok b" "frames_ok (b\<lparr>replacer := r\<rparr>) = frames_ok b"
  "frames_ok (b\<lparr>page_table := t\<rparr>) = frames_ok b" "frames_ok (b\<lparr>disk := d\<rparr>) = frames_ok b"
  "frames_ok (b\<lparr>log_mgr := lm\<rparr>) = frames_ok b"
  "table_ok (b\<lparr>free_list := fl\<rparr>) = table_ok b" "table_ok (b\<lparr>replacer := r\<rparr>) = table_ok b"
  "table_ok (b\<lparr>log_mgr := lm\<rparr>) = table_ok b"
  "free_ok X (b\<lparr>replacer := r\<rparr>) = free_ok X b" "free_ok X (b\<lparr>disk := d\<rparr>) = free_ok X b"
  "free_ok X (b\<lparr>log_mgr := lm\<rparr>) = free_ok X b"
  "repl_ok X (b\<lparr>free_list := fl\<rparr>) = repl_ok X b" "repl_ok X (b\<lparr>disk := d\<rparr>) = repl_ok X b"
  "repl_ok X (b\<lparr>log_mgr := lm\<rparr>) = repl_ok X b"
  "sync_ok X (b\<lparr>free_list := fl\<rparr>) = sync_ok X b" "sync_ok X (b\<lparr>replacer := r\<rparr>) = sync_ok X b"
  "sync_ok X (b\<lparr>log_mgr := lm\<rparr>) = sync_ok X b"
  by (simp_all add: env_ok_def frames_ok_def table_ok_def free_ok_def repl_ok_def sync_ok_def)

section \<open>Finding a frame\<close>

text \<open>The pool after a frame was taken from the free list or the replacer.\<close>

definition detached :: "nat \<Rightarrow> bpm \<Rightarrow> bool" where
  "detached f b \<longleftrightarrow> env_ok b \<and> frames_ok b \<and> table_ok b \<and> free_ok {f} b \<and> repl_ok {f} b \<and> sync_ok {} b \<and>
     f < pool_size b \<and> f \<notin> set (free_list b) \<and> pg_pin (pages b ! f) = 0 \<and>
     (f \<notin> snd ` set (page_table b) \<longrightarrow> \<not> pg_dirty (pages b ! f) \<and> pid_no (pg_id (pages b ! f)) = - 1)"

definition all_pinned :: "bpm \<Rightarrow> bool" where
  "all_pinned b \<longleftrightarrow> free_list b = [] \<and> (\<forall>f < pool_size b. pg_pin (pages b ! f) > 0)"

lemma find_victim_cases:
  assumes b: "bpm_inv b"
  obtains (none) "find_victim_page b = (None, b)" "all_pinned b"
  | (some) f fl r where "find_victim_page b = (Some f, b\<lparr>free_list := fl, replacer := r\<rparr>)"
      "detached f (b\<lparr>free_list := fl, replacer := r\<rparr>)" "pg_pin (pages b ! f) = 0" "f < pool_size b"
proof (cases "free_list b")
  case (Cons f fl)
  let ?b = "b\<lparr>free_list := fl, replacer := replacer b\<rparr>"
  have "find_victim_page b = (Some f, ?b)" using Cons by (simp add: find_victim_page_def)
  moreover have "detached f ?b"
    using b Cons by (simp add: detached_def bpm_inv_def) (auto simp: free_ok_def repl_ok_def)
  ultimately show thesis using some [where f = f and fl = fl and r = "replacer b"] b Cons by (auto simp: bpm_inv_def free_ok_def)
next
  case Nil
  have i: "lru_inv (replacer b)" using b by (simp add: bpm_inv_def repl_ok_def)
  have m: "f \<in> snd ` set (page_table b)" if "f < pool_size b" for f
    using b that Nil by (auto simp: bpm_inv_def free_ok_def)
  have e: "f \<in> lru_evictable (replacer b) \<longleftrightarrow> pg_pin (pages b ! f) = 0" if "f < pool_size b" for f
    using b m [OF that] by (auto simp: bpm_inv_def repl_ok_def)
  from i show thesis
  proof (cases rule: lru.victim_cases)
    case none': none
    then have "find_victim_page b = (None, b)" using Nil by (simp add: find_victim_page_def)
    moreover have "all_pinned b"
      using e none'(1) b Nil by (force simp: all_pinned_def bpm_inv_def frames_ok_def)
    ultimately show thesis by (rule none)
  next
    case some': (some f r)
    let ?b = "b\<lparr>free_list := [], replacer := r\<rparr>"
    have f: "f < pool_size b" using b some'(2) by (auto simp: bpm_inv_def repl_ok_def)
    have "find_victim_page b = (Some f, ?b)" using Nil some'(1) by (simp add: find_victim_page_def)
    moreover have "free_ok {f} ?b" using b Nil m by (auto simp: bpm_inv_def free_ok_def)
    moreover have "repl_ok {f} ?b" using b some' by (auto simp: bpm_inv_def repl_ok_def)
    moreover have "pg_pin (pages b ! f) = 0" using e [OF f] some'(2) by simp
    ultimately have "find_victim_page b = (Some f, ?b)" "detached f ?b"
      using b f m [OF f] by (simp_all add: detached_def bpm_inv_def)
    then show thesis using e [OF f] some'(2) f by (intro some) auto
  qed
qed

section \<open>Changing what a frame holds\<close>

lemma table_ok_mono: "table_ok b \<Longrightarrow> disk_mono P (disk b) d \<Longrightarrow> table_ok (b\<lparr>disk := d\<rparr>)"
  by (auto simp: table_ok_def intro: disk_mono_valid)

lemma sync_okD:
  assumes "sync_ok X b" and "(p, f) \<in> set (page_table b)" and "f \<notin> X"
  obtains a where "dpage (disk b) p = Some a"
    and "pg_pin (pages b ! f) = 0 \<Longrightarrow> \<not> pg_dirty (pages b ! f) \<Longrightarrow> pg_data (pages b ! f) = a"
  using bspec [OF assms(1) [unfolded sync_ok_def] assms(2)] assms(3) by auto

lemma sync_ok_mono:
  assumes "table_ok b" and "sync_ok X b" and "disk_mono P (disk b) d"
    and "\<And>p f. (p, f) \<in> set (page_table b) \<Longrightarrow> p \<in> P \<Longrightarrow> f \<in> X"
  shows "sync_ok X (b\<lparr>disk := d\<rparr>)"
  unfolding sync_ok_def
proof (clarsimp)
  fix p f
  assume pf: "(p, f) \<in> set (page_table b)" "f \<notin> X"
  from assms(2) pf obtain a where a: "dpage (disk b) p = Some a"
    "pg_pin (pages b ! f) = 0 \<Longrightarrow> \<not> pg_dirty (pages b ! f) \<Longrightarrow> pg_data (pages b ! f) = a"
    by (rule sync_okD) blast
  have "dpage d p = Some a"
    using assms(3) _ _ a(1) by (rule disk_mono_page) (use assms(1,4) pf in \<open>auto simp: table_ok_def valid_pid_def\<close>)
  with a(2) show "\<exists>a. dpage d p = Some a \<and>
      (pg_pin (pages b ! f) = 0 \<and> \<not> pg_dirty (pages b ! f) \<longrightarrow> pg_data (pages b ! f) = a)" by blast
qed

text \<open>The page that a frame holds after \<open>update_page\<close>, before it is read or initialised.\<close>

abbreviation reset_page :: "PageId \<Rightarrow> page" where
  "reset_page p \<equiv> \<lparr>pg_id = p, pg_data = memset PAGE_SIZE 0, pg_dirty = False, pg_pin = 0\<rparr>"

lemma reset_page_eq:
  "(x :: page)\<lparr>pg_id := p, pg_data := memset PAGE_SIZE 0, pg_dirty := False, pg_pin := 0\<rparr> = reset_page p"
  by simp

lemma update_page_ok:
  assumes b: "detached f b"
  obtains lm d where
    "update_page f p b = (Inr (), b\<lparr>log_mgr := lm, disk := d,
       page_table := (p, f) # pt_erase p (pt_erase (pg_id (pages b ! f)) (page_table b)),
       pages := (pages b)[f := reset_page p]\<rparr>)"
    and "env_ok (b\<lparr>log_mgr := lm, disk := d\<rparr>)"
    and "disk_mono {q. (q, f) \<in> set (page_table b)} (disk b) d"
    and "\<And>q. (q, f) \<in> set (page_table b) \<Longrightarrow> dpage d q = Some (pg_data (pages b ! f))"
proof -
  let ?pg = "pages b ! f"
  let ?P = "{q. (q, f) \<in> set (page_table b)}"
  have parts: "env_ok b" "frames_ok b" "table_ok b" "sync_ok {} b" "f < pool_size b" "pg_pin ?pg = 0"
    using b by (simp_all add: detached_def)
  have fl: "f < length (pages b)" and len: "length (pg_data ?pg) = PAGE_SIZE"
    using parts(2,5) by (simp_all add: frames_ok_def)
  obtain lm1 d1 where s1: "(case log_mgr b of None \<Rightarrow> (Inr (), b)
      | Some lm \<Rightarrow> if get_page_lsn ?pg > get_persist_lsn lm then flush_log b else (Inr (), b))
      = (Inr (), b\<lparr>log_mgr := lm1, disk := d1\<rparr>)" and e1: "env_ok (b\<lparr>log_mgr := lm1, disk := d1\<rparr>)"
    and m1: "disk_mono {} (disk b) d1"
  proof -
    obtain lm d where fl: "flush_log b = (Inr (), b\<lparr>log_mgr := lm, disk := d\<rparr>)"
      "env_ok (b\<lparr>log_mgr := lm, disk := d\<rparr>)" "disk_mono {} (disk b) d"
      using parts(1) by (rule flush_log_mono)
    show thesis
    proof (cases "\<exists>lm. log_mgr b = Some lm \<and> get_page_lsn ?pg > get_persist_lsn lm")
      case True
      with fl show thesis by (intro that [where ?lm1.0 = lm and ?d1.0 = d]) auto
    next
      case False
      with parts(1) show thesis
        by (intro that [where ?lm1.0 = "log_mgr b" and ?d1.0 = "disk b"]) (auto split: option.splits)
    qed
  qed
  let ?b1 = "b\<lparr>log_mgr := lm1, disk := d1\<rparr>"
  show thesis
  proof (cases "pg_dirty ?pg")
    case False
    have "dpage d1 q = Some (pg_data ?pg)" if q: "(q, f) \<in> set (page_table b)" for q
    proof -
      have "dpage (disk b) q = Some (pg_data ?pg)" using q parts(4,6) False by (auto elim: sync_okD)
      then show ?thesis using disk_mono_page [OF m1, of q] table_okD(3) [OF parts(3) q] by (simp add: valid_pid_def)
    qed
    moreover have "disk_mono ?P (disk b) d1" using disk_mono_trans [OF m1, of ?P d1] by simp
    moreover have "update_page f p b = (Inr (), b\<lparr>log_mgr := lm1, disk := d1,
       page_table := (p, f) # pt_erase p (pt_erase (pg_id (pages b ! f)) (page_table b)),
       pages := (pages b)[f := reset_page p]\<rparr>)"
      using False by (simp add: update_page_def s1 upd_page_def Let_def reset_page_eq)
    ultimately show thesis using e1 by (intro that [where lm = lm1 and d = d1]) auto
  next
    case True
    then have "f \<in> snd ` set (page_table b)" using b by (auto simp: detached_def)
    then obtain q where q: "(q, f) \<in> set (page_table b)" by auto
    have id: "pg_id ?pg = q" and vq: "valid_pid (disk b) q" using table_okD [OF parts(3) q] by simp_all
    have P: "?P = {q}" using q table_frame_unique [OF parts(3)] by blast
    have "valid_pid (disk ?b1) q" using disk_mono_valid [OF m1 vq] by simp
    from write_out_mono [OF e1 this len] obtain d2 where w: "write_out q (pg_data ?pg) ?b1 = (Inr (), ?b1\<lparr>disk := d2\<rparr>)"
      and e2: "env_ok (?b1\<lparr>disk := d2\<rparr>)" and m2: "disk_mono {q} d1 d2" and dq: "dpage d2 q = Some (pg_data ?pg)"
      by auto
    have "disk_mono ?P (disk b) d2" using disk_mono_trans [OF m1 m2] P by simp
    moreover have "update_page f p b = (Inr (), b\<lparr>log_mgr := lm1, disk := d2,
       page_table := (p, f) # pt_erase p (pt_erase (pg_id (pages b ! f)) (page_table b)),
       pages := (pages b)[f := reset_page p]\<rparr>)"
      using True w fl by (simp add: update_page_def s1 id upd_page_def Let_def reset_page_eq)
    ultimately show thesis using e2 dq P by (intro that [where lm = lm1 and d = d2]) auto
  qed
qed

text \<open>The pool after \<open>update_page\<close>: frame \<open>f\<close> holds page \<open>p\<close>, zeroed and not pinned yet.\<close>

definition moved :: "nat \<Rightarrow> PageId \<Rightarrow> log_manager option \<Rightarrow> disk_manager \<Rightarrow> bpm \<Rightarrow> bpm" where
  "moved f p lm d b = b\<lparr>log_mgr := lm, disk := d,
     page_table := (p, f) # filter (\<lambda>(_, g). g \<noteq> f) (page_table b), pages := (pages b)[f := reset_page p]\<rparr>"

lemma pt_erase_frame:
  assumes "detached f b" and "map_of (page_table b) p = None"
  shows "pt_erase p (pt_erase (pg_id (pages b ! f)) (page_table b)) = filter (\<lambda>(_, g). g \<noteq> f) (page_table b)"
proof -
  have t: "table_ok b" using assms(1) by (simp add: detached_def)
  have "q \<noteq> p \<and> (q \<noteq> pg_id (pages b ! f) \<longleftrightarrow> g \<noteq> f)" if qg: "(q, g) \<in> set (page_table b)" for q g
  proof (intro conjI iffI notI)
    assume "q = p"
    with qg assms(2) show False by (auto simp: map_of_eq_None_iff image_iff)
  next
    assume "q \<noteq> pg_id (pages b ! f)" "g = f"
    with table_okD(2) [OF t qg] show False by simp
  next
    assume gf: "g \<noteq> f" and q: "q = pg_id (pages b ! f)"
    show False
    proof (cases "f \<in> snd ` set (page_table b)")
      case True
      then obtain r where r: "(r, f) \<in> set (page_table b)" by auto
      with table_okD(2) [OF t r] q have "r = q" by simp
      with table_page_unique [OF t] qg r gf show False by blast
    next
      case False
      with assms(1) have "pid_no q = - 1" using q by (simp add: detached_def)
      with table_okD(3) [OF t qg] show False by (simp add: valid_pid_def page_ok_def)
    qed
  qed
  then show ?thesis by (auto simp: pt_erase_def intro!: filter_cong)
qed

lemma moved_parts:
  assumes b: "detached f b" and p: "map_of (page_table b) p = None" "valid_pid (disk b) p"
    and env: "env_ok (b\<lparr>log_mgr := lm, disk := d\<rparr>)"
    and mono: "disk_mono {q. (q, f) \<in> set (page_table b)} (disk b) d"
  shows "env_ok (moved f p lm d b)" and "frames_ok (moved f p lm d b)" and "table_ok (moved f p lm d b)"
    and "free_ok {} (moved f p lm d b)" and "repl_ok {f} (moved f p lm d b)" and "sync_ok {f} (moved f p lm d b)"
proof -
  have parts: "frames_ok b" "table_ok b" "free_ok {f} b" "repl_ok {f} b" "sync_ok {} b" "f < pool_size b"
    "f \<notin> set (free_list b)"
    using b by (simp_all add: detached_def)
  have fl: "f < length (pages b)" using parts(1,6) by (simp add: frames_ok_def)
  have np: "(p, g) \<notin> set (page_table b)" for g using p(1) by (force simp: map_of_eq_None_iff)
  show "env_ok (moved f p lm d b)" using env by (simp add: moved_def)
  show "frames_ok (moved f p lm d b)"
    using parts(1) fl by (auto simp: moved_def frames_ok_def nth_list_update)
  show "table_ok (moved f p lm d b)"
    using parts(2,6) fl np disk_mono_valid [OF mono] p(2)
    by (auto simp: moved_def table_ok_def nth_list_update distinct_map_filter image_iff)
  have fr: "snd ` set (filter (\<lambda>(_, g). g \<noteq> f) (page_table b)) = snd ` set (page_table b) - {f}" by force
  show "free_ok {} (moved f p lm d b)"
    using parts(3,7) fl by (auto simp: moved_def free_ok_def nth_list_update fr simp del: set_filter)
  show "repl_ok {f} (moved f p lm d b)"
    using parts(4) fl by (auto simp: moved_def repl_ok_def nth_list_update)
  have "sync_ok {f} (b\<lparr>disk := d\<rparr>)"
    using parts(2) _ mono by (rule sync_ok_mono) (use parts(2,5) in \<open>auto simp: sync_ok_def dest: table_page_unique\<close>)
  then show "sync_ok {f} (moved f p lm d b)"
    using fl by (auto simp: moved_def sync_ok_def nth_list_update)
qed

lemma moved_content:
  assumes b: "detached f b" and p: "map_of (page_table b) p = None"
    and mono: "disk_mono {q. (q, f) \<in> set (page_table b)} (disk b) d"
    and old: "\<And>q. (q, f) \<in> set (page_table b) \<Longrightarrow> dpage d q = Some (pg_data (pages b ! f))"
    and q: "q \<noteq> p" "page_ok (pid_no q)" "content b q = Some c"
  shows "content (moved f p lm d b) q = Some c"
proof (cases "map_of (page_table b) q")
  case None
  then have nq: "\<And>g. (q, g) \<notin> set (page_table b)" by (force simp: map_of_eq_None_iff)
  then have "map_of (filter (\<lambda>(_, g). g \<noteq> f) (page_table b)) q = None" by (auto simp: map_of_eq_None_iff)
  moreover have "dpage d q = Some c"
    using mono _ q(2) by (rule disk_mono_page) (use None nq q(3) in \<open>auto simp: content_def\<close>)
  ultimately show ?thesis using q(1) by (simp add: content_def moved_def)
next
  case (Some g)
  have t: "table_ok b" and fl: "f < length (pages b)" using b by (auto simp: detached_def frames_ok_def)
  have qg: "(q, g) \<in> set (page_table b)" using Some by (rule map_of_SomeD)
  have c: "c = pg_data (pages b ! g)" using Some q(3) by (simp add: content_def)
  show ?thesis
  proof (cases "g = f")
    case True
    have "map_of (filter (\<lambda>(_, g). g \<noteq> f) (page_table b)) q = None"
      using table_page_unique [OF t qg] True by (auto simp: map_of_eq_None_iff)
    then show ?thesis using q(1) old qg c True by (simp add: content_def moved_def)
  next
    case False
    have "map_of (filter (\<lambda>(_, g). g \<noteq> f) (page_table b)) q = Some g"
      using t qg False by (auto simp: table_ok_def distinct_map_filter intro!: map_of_is_SomeI)
    then show ?thesis using q(1) c False by (simp add: content_def moved_def)
  qed
qed

section \<open>Pins\<close>

definition pin_of :: "bpm \<Rightarrow> PageId \<Rightarrow> int" where
  "pin_of b p = (case map_of (page_table b) p of None \<Rightarrow> 0 | Some f \<Rightarrow> pg_pin (pages b ! f))"

definition synced :: "bpm \<Rightarrow> PageId \<Rightarrow> bool" where
  "synced b p \<longleftrightarrow> (\<forall>f. map_of (page_table b) p = Some f \<longrightarrow>
     pg_dirty (pages b ! f) \<or> dpage (disk b) p = Some (pg_data (pages b ! f)))"

lemma views_untouched [simp]:
  "content (b\<lparr>free_list := fl\<rparr>) = content b" "content (b\<lparr>replacer := r\<rparr>) = content b"
  "content (b\<lparr>log_mgr := lm\<rparr>) = content b"
  "pin_of (b\<lparr>free_list := fl\<rparr>) = pin_of b" "pin_of (b\<lparr>replacer := r\<rparr>) = pin_of b"
  "pin_of (b\<lparr>log_mgr := lm\<rparr>) = pin_of b" "pin_of (b\<lparr>disk := d\<rparr>) = pin_of b"
  "synced (b\<lparr>free_list := fl\<rparr>) = synced b" "synced (b\<lparr>replacer := r\<rparr>) = synced b"
  "synced (b\<lparr>log_mgr := lm\<rparr>) = synced b"
  by (simp_all add: fun_eq_iff content_def pin_of_def synced_def split: option.split)

text \<open>
  What the holders of pinned pages rely on: between two states of the pool, the pages other
  than \<open>p\<close> keep their content and their pins, a pinned page stays in its frame, and nothing that
  was safely on disk or marked dirty is unmarked.
\<close>

definition pool_frame :: "PageId set \<Rightarrow> bpm \<Rightarrow> bpm \<Rightarrow> bool" where
  "pool_frame P b b' \<longleftrightarrow>
     pool_size b' = pool_size b \<and> fst ` set (page_table b') \<subseteq> fst ` set (page_table b) \<union> P \<and>
     (\<forall>q. valid_pid (disk b) q \<longrightarrow> valid_pid (disk b') q) \<and>
     (\<forall>q c. q \<notin> P \<longrightarrow> page_ok (pid_no q) \<longrightarrow> content b q = Some c \<longrightarrow> content b' q = Some c) \<and>
     (\<forall>q. q \<notin> P \<longrightarrow> pin_of b' q = pin_of b q) \<and>
     (\<forall>q. pin_of b q > 0 \<longrightarrow> map_of (page_table b') q = map_of (page_table b) q) \<and>
     (\<forall>q. q \<notin> P \<longrightarrow> pin_of b q > 0 \<longrightarrow> synced b q \<longrightarrow> synced b' q)"

lemma pool_frame_refl [simp]: "pool_frame P b b"
  by (simp add: pool_frame_def)

lemma bpm_invD:
  assumes "bpm_inv b"
  shows "env_ok b" "frames_ok b" "table_ok b" "free_ok {} b" "repl_ok {} b" "sync_ok {} b"
  using assms by (simp_all add: bpm_inv_def)

lemma pin_of_nonneg: "bpm_inv b \<Longrightarrow> 0 \<le> pin_of b p"
  by (auto simp: bpm_inv_def pin_of_def frames_ok_def dest!: map_of_SomeD table_okD(1) split: option.split)

lemma pin_frame_sel [simp]:
  "page_table (pin_frame f b) = page_table b" "disk (pin_frame f b) = disk b"
  "log_mgr (pin_frame f b) = log_mgr b" "free_list (pin_frame f b) = free_list b"
  "pool_size (pin_frame f b) = pool_size b" "replacer (pin_frame f b) = lru_pin f (replacer b)"
  "pages (pin_frame f b) = (pages b)[f := (pages b ! f)\<lparr>pg_pin := pg_pin (pages b ! f) + 1\<rparr>]"
  by (simp_all add: pin_frame_def upd_page_def)

lemma set_data_sel [simp]:
  "page_table (set_data f c b) = page_table b" "disk (set_data f c b) = disk b"
  "log_mgr (set_data f c b) = log_mgr b" "free_list (set_data f c b) = free_list b"
  "pool_size (set_data f c b) = pool_size b" "replacer (set_data f c b) = replacer b"
  "pages (set_data f c b) = (pages b)[f := (pages b ! f)\<lparr>pg_data := c\<rparr>]"
  by (simp_all add: set_data_def upd_page_def)

lemma attach_pin:
  assumes "env_ok b" "frames_ok b" "table_ok b" "free_ok {} b" "repl_ok {f} b" "sync_ok {f} b"
    and p: "(p, f) \<in> set (page_table b)" and a: "dpage (disk b) p = Some a" and len: "length c = PAGE_SIZE"
  shows "bpm_inv (pin_frame f (set_data f c b))"
proof -
  let ?b = "pin_frame f (set_data f c b)"
  have f: "f < pool_size b" using assms(3) p by (rule table_okD)
  then have fl: "f < length (pages b)" using assms(2) by (simp add: frames_ok_def)
  have pg: "pages ?b = (pages b)[f := (pages b ! f)\<lparr>pg_data := c, pg_pin := pg_pin (pages b ! f) + 1\<rparr>]"
    using fl by simp
  have pin: "0 \<le> pg_pin (pages b ! f)" using assms(2) f by (simp add: frames_ok_def)
  have u: "q = p" if "(q, f) \<in> set (page_table b)" for q using assms(3) that p by (rule table_frame_unique)
  have nf: "f \<notin> set (free_list b)" using assms(4) p by (force simp: free_ok_def)
  have "env_ok ?b" using assms(1) by (simp add: env_ok_def)
  moreover have "frames_ok ?b" using assms(2) pin fl len by (simp add: frames_ok_def pg nth_list_update)
  moreover have "table_ok ?b" using assms(3) fl by (auto simp: table_ok_def pg nth_list_update)
  moreover have "free_ok {} ?b" using assms(4) fl nf by (auto simp: free_ok_def pg nth_list_update)
  moreover have "repl_ok {} ?b"
    using assms(5) fl pin by (auto simp: repl_ok_def pg nth_list_update lru.evictable_pin lru.invar_pin)
  moreover have "sync_ok {} ?b"
    using assms(6) fl pin a u by (auto simp: sync_ok_def pg nth_list_update)
  ultimately show ?thesis by (simp add: bpm_inv_def)
qed

lemma weaken_parts: "repl_ok {} b \<Longrightarrow> repl_ok X b" "sync_ok {} b \<Longrightarrow> sync_ok X b"
  by (auto simp: repl_ok_def sync_ok_def)

definition fetched :: "PageId \<Rightarrow> bytes \<Rightarrow> nat \<Rightarrow> bpm \<Rightarrow> bpm \<Rightarrow> bool" where
  "fetched p c f b b' \<longleftrightarrow> bpm_inv b' \<and> map_of (page_table b') p = Some f \<and> pg_data (pages b' ! f) = c \<and>
     pin_of b' p = pin_of b p + 1 \<and> (synced b p \<longrightarrow> synced b' p) \<and> pool_frame {p} b b'"

lemma fetch_resident:
  assumes b: "bpm_inv b" and p: "map_of (page_table b) p = Some f"
  shows "fetch_page p b = (Inr (Some f), pin_frame f b)" and "fetched p (pg_data (pages b ! f)) f b (pin_frame f b)"
proof -
  note parts = bpm_invD [OF b]
  have pf: "(p, f) \<in> set (page_table b)" using p by (rule map_of_SomeD)
  have fl: "f < length (pages b)" using table_okD(1) [OF parts(3) pf] parts(2) by (simp add: frames_ok_def)
  obtain a where a: "dpage (disk b) p = Some a" using parts(6) pf by (rule sync_okD) auto
  have len: "length (pg_data (pages b ! f)) = PAGE_SIZE"
    using table_okD(1) [OF parts(3) pf] parts(2) by (simp add: frames_ok_def)
  have sd: "set_data f (pg_data (pages b ! f)) b = b" by (simp add: set_data_def upd_page_def)
  have inv: "bpm_inv (pin_frame f b)"
    using attach_pin [OF parts(1-4) weaken_parts(1) [OF parts(5)] weaken_parts(2) [OF parts(6)] pf a len]
    by (simp only: sd)
  have other: "g \<noteq> f" if "q \<noteq> p" "map_of (page_table b) q = Some g" for q g
    using that table_frame_unique [OF parts(3) _ pf] by (auto dest: map_of_SomeD)
  show "fetch_page p b = (Inr (Some f), pin_frame f b)" using p by (simp add: fetch_page_def)
  show "fetched p (pg_data (pages b ! f)) f b (pin_frame f b)"
    using inv p fl other
    by (auto simp: fetched_def pool_frame_def content_def pin_of_def synced_def nth_list_update split: option.splits)
qed

text \<open>Taking a frame for a page that is not resident.\<close>

lemma moved_frame:
  assumes b: "detached f b" and p: "map_of (page_table b) p = None"
    and mono: "disk_mono {q. (q, f) \<in> set (page_table b)} (disk b) d"
    and old: "\<And>q. (q, f) \<in> set (page_table b) \<Longrightarrow> dpage d q = Some (pg_data (pages b ! f))"
  shows "pool_frame {p} b (moved f p lm d b)" and "map_of (page_table (moved f p lm d b)) p = Some f"
    and "pages (moved f p lm d b) ! f = reset_page p"
proof -
  have t: "table_ok b" and fl: "f < length (pages b)" and pin: "pg_pin (pages b ! f) = 0"
    using b by (auto simp: detached_def frames_ok_def)
  have pinned: "map_of (filter (\<lambda>(_, g). g \<noteq> f) (page_table b)) q = Some g"
    if "map_of (page_table b) q = Some g" "g \<noteq> f" for q g
    using that t by (auto simp: table_ok_def distinct_map_filter intro!: map_of_is_SomeI dest: map_of_SomeD)
  have gone: "map_of (filter (\<lambda>(_, g). g \<noteq> f) (page_table b)) q = None"
    if "map_of (page_table b) q = Some f \<or> map_of (page_table b) q = None" for q
    using that table_page_unique [OF t, of q f]
    by (force simp: map_of_eq_None_iff dest: map_of_SomeD)
  have pins: "pin_of (moved f p lm d b) q = pin_of b q" if "q \<noteq> p" for q
  proof (cases "map_of (page_table b) q")
    case (Some g)
    then show ?thesis using pinned [OF Some] gone [of q] pin that by (cases "g = f") (auto simp: pin_of_def moved_def)
  qed (use that gone [of q] in \<open>simp add: pin_of_def moved_def\<close>)
  have stay: "q \<noteq> p \<and> (\<exists>g. g \<noteq> f \<and> map_of (page_table b) q = Some g)" if "pin_of b q > 0" for q
    using that p pin by (cases "map_of (page_table b) q") (auto simp: pin_of_def)
  show "pool_frame {p} b (moved f p lm d b)"
    unfolding pool_frame_def
  proof (intro conjI allI impI)
    fix q c
    show "pool_size (moved f p lm d b) = pool_size b" by (simp add: moved_def)
    show "fst ` set (page_table (moved f p lm d b)) \<subseteq> fst ` set (page_table b) \<union> {p}" by (auto simp: moved_def)
    show "content (moved f p lm d b) q = Some c" if "q \<notin> {p}" "page_ok (pid_no q)" "content b q = Some c"
      using moved_content [OF b p mono old] that by simp
    show "valid_pid (disk (moved f p lm d b)) q" if "valid_pid (disk b) q"
      using disk_mono_valid [OF mono that] by (simp add: moved_def)
    show "pin_of (moved f p lm d b) q = pin_of b q" if "q \<notin> {p}" using pins that by simp
    assume q: "pin_of b q > 0"
    then obtain g where g: "q \<noteq> p" "g \<noteq> f" "map_of (page_table b) q = Some g" using stay by blast
    then show m: "map_of (page_table (moved f p lm d b)) q = map_of (page_table b) q"
      using pinned by (simp add: moved_def)
    assume "synced b q"
    moreover have "dpage d q = Some a" if "dpage (disk b) q = Some a" for a
    proof (rule disk_mono_page [OF mono _ _ that])
      show "q \<notin> {q. (q, f) \<in> set (page_table b)}" using g table_page_unique [OF t] by (auto dest: map_of_SomeD)
      show "page_ok (pid_no q)" using table_okD(3) [OF t map_of_SomeD [OF g(3)]] by (simp add: valid_pid_def)
    qed
    ultimately show "synced (moved f p lm d b) q" using g m by (auto simp: synced_def moved_def)
  qed
  show "map_of (page_table (moved f p lm d b)) p = Some f" by (simp add: moved_def)
  show "pages (moved f p lm d b) ! f = reset_page p" using fl by (simp add: moved_def)
qed

lemma pool_frame_table: "pool_frame P b b' \<Longrightarrow> fst ` set (page_table b') \<subseteq> fst ` set (page_table b) \<union> P"
  by (simp add: pool_frame_def)

lemma pool_frame_trans:
  assumes "pool_frame P b b'" and "pool_frame P b' b''" and "\<And>q. q \<in> P \<Longrightarrow> pin_of b q > 0 \<Longrightarrow> pin_of b' q > 0"
  shows "pool_frame P b b''"
  unfolding pool_frame_def
proof (intro conjI allI impI)
  fix q c
  show "pool_size b'' = pool_size b" using assms(1,2) by (simp add: pool_frame_def)
  show "fst ` set (page_table b'') \<subseteq> fst ` set (page_table b) \<union> P"
    using pool_frame_table [OF assms(1)] pool_frame_table [OF assms(2)] by blast
  show "valid_pid (disk b'') q" if "valid_pid (disk b) q" using assms(1,2) that by (simp add: pool_frame_def)
  show "content b'' q = Some c" if "q \<notin> P" "page_ok (pid_no q)" "content b q = Some c"
    using assms(1,2) that by (simp add: pool_frame_def)
  show "pin_of b'' q = pin_of b q" if "q \<notin> P" using assms(1,2) that by (simp add: pool_frame_def)
  assume q: "pin_of b q > 0"
  then have q': "pin_of b' q > 0" using assms(1,3) by (cases "q \<in> P") (simp_all add: pool_frame_def)
  show "map_of (page_table b'') q = map_of (page_table b) q" using assms(1,2) q q' by (simp add: pool_frame_def)
  show "synced b'' q" if "q \<notin> P" "synced b q" using assms(1,2) q q' that by (simp add: pool_frame_def)
qed

lemma pool_frame_free_repl: "pool_frame P b (b\<lparr>free_list := fl, replacer := r\<rparr>)"
  by (simp add: pool_frame_def)

lemma pool_frame_disk:
  assumes t: "table_ok b" and mono: "disk_mono P (disk b) d"
  shows "pool_frame P b (b\<lparr>disk := d\<rparr>)"
  unfolding pool_frame_def
proof (intro conjI allI impI)
  fix q c
  show "valid_pid (disk (b\<lparr>disk := d\<rparr>)) q" if "valid_pid (disk b) q" using disk_mono_valid [OF mono that] by simp
  show "content (b\<lparr>disk := d\<rparr>) q = Some c" if "q \<notin> P" "page_ok (pid_no q)" "content b q = Some c"
    using that disk_mono_page [OF mono] by (auto simp: content_def split: option.splits)
  assume q: "q \<notin> P" "pin_of b q > 0" "synced b q"
  then obtain g where g: "map_of (page_table b) q = Some g" by (cases "map_of (page_table b) q") (auto simp: pin_of_def)
  have "page_ok (pid_no q)" using table_okD(3) [OF t map_of_SomeD [OF g]] by (simp add: valid_pid_def)
  then show "synced (b\<lparr>disk := d\<rparr>) q" using q disk_mono_page [OF mono] by (auto simp: synced_def)
qed simp_all

lemma pool_frame_at:
  assumes t: "table_ok b" and p: "(p, f) \<in> set (page_table b)"
  shows "pool_frame {p} b (b\<lparr>pages := (pages b)[f := x], replacer := r\<rparr>)"
proof -
  have gf: "g \<noteq> f" if "q \<noteq> p" "map_of (page_table b) q = Some g" for q g
    using that table_frame_unique [OF t _ p] by (auto dest: map_of_SomeD)
  have "content (b\<lparr>pages := (pages b)[f := x]\<rparr>) q = content b q \<and> pin_of (b\<lparr>pages := (pages b)[f := x]\<rparr>) q = pin_of b q \<and>
      synced (b\<lparr>pages := (pages b)[f := x]\<rparr>) q = synced b q" if "q \<noteq> p" for q
    using gf [OF that] by (cases "map_of (page_table b) q") (simp_all add: content_def pin_of_def synced_def)
  then show ?thesis by (auto simp: pool_frame_def)
qed

text \<open>\<open>ready f p b\<close>: frame \<open>f\<close> was given to page \<open>p\<close>; its bytes and its pin are still to be set.\<close>

definition ready :: "nat \<Rightarrow> PageId \<Rightarrow> bpm \<Rightarrow> bool" where
  "ready f p b \<longleftrightarrow> env_ok b \<and> frames_ok b \<and> table_ok b \<and> free_ok {} b \<and> repl_ok {f} b \<and> sync_ok {f} b \<and>
     map_of (page_table b) p = Some f \<and> pages b ! f = reset_page p"

lemma take_frame:
  assumes b: "detached f b" and p: "map_of (page_table b) p = None" "valid_pid (disk b) p"
  obtains b' where "update_page f p b = (Inr (), b')" and "ready f p b'" and "pool_frame {p} b b'"
    and "\<And>c. dpage (disk b) p = Some c \<Longrightarrow> dpage (disk b') p = Some c" and "fd2pageno (disk b') = fd2pageno (disk b)"
proof -
  obtain lm d where u: "update_page f p b = (Inr (), b\<lparr>log_mgr := lm, disk := d,
       page_table := (p, f) # pt_erase p (pt_erase (pg_id (pages b ! f)) (page_table b)),
       pages := (pages b)[f := reset_page p]\<rparr>)"
    and env: "env_ok (b\<lparr>log_mgr := lm, disk := d\<rparr>)"
    and mono: "disk_mono {q. (q, f) \<in> set (page_table b)} (disk b) d"
    and old: "\<And>q. (q, f) \<in> set (page_table b) \<Longrightarrow> dpage d q = Some (pg_data (pages b ! f))"
    using update_page_ok [OF b] by blast
  let ?b = "moved f p lm d b"
  have "update_page f p b = (Inr (), ?b)" unfolding u moved_def pt_erase_frame [OF b p(1)] ..
  moreover have "ready f p ?b"
    using moved_parts [OF b p env mono] moved_frame [OF b p(1) mono old, where lm = lm] by (simp add: ready_def)
  moreover have "dpage (disk ?b) p = Some c" if "dpage (disk b) p = Some c" for c
  proof -
    have "(p, f) \<notin> set (page_table b)" using p(1) by (force simp: map_of_eq_None_iff)
    with disk_mono_page [OF mono _ _ that] p(2) show ?thesis by (simp add: valid_pid_def moved_def)
  qed
  moreover have "fd2pageno (disk ?b) = fd2pageno (disk b)" using disk_mono_pageno [OF mono] by (simp add: moved_def)
  ultimately show thesis
    using that moved_frame(1) [OF b p(1) mono old, where lm = lm] by blast
qed

lemma install:
  assumes b: "ready f p b" and env: "env_ok (b\<lparr>disk := d\<rparr>)" and mono: "disk_mono {p} (disk b) d"
    and a: "dpage d p = Some a" and len: "length c = PAGE_SIZE"
  defines "b' \<equiv> pin_frame f (set_data f c (b\<lparr>disk := d\<rparr>))"
  shows "bpm_inv b'" and "pool_frame {p} b b'" and "map_of (page_table b') p = Some f"
    and "pg_data (pages b' ! f) = c" and "pin_of b' p = 1" and "a = c \<Longrightarrow> synced b' p"
proof -
  let ?b = "b\<lparr>disk := d\<rparr>"
  have parts: "frames_ok b" "table_ok b" "free_ok {} b" "repl_ok {f} b" "sync_ok {f} b"
      "map_of (page_table b) p = Some f" "pages b ! f = reset_page p"
    using b by (simp_all add: ready_def)
  have pf: "(p, f) \<in> set (page_table b)" using parts(6) by (rule map_of_SomeD)
  have fl: "f < length (pages b)" using table_okD(1) [OF parts(2) pf] parts(1) by (simp add: frames_ok_def)
  have t: "table_ok ?b" using parts(2) mono by (rule table_ok_mono)
  have s: "sync_ok {f} ?b"
    using parts(2,5) mono by (rule sync_ok_mono) (use table_page_unique [OF parts(2) pf] in auto)
  show "bpm_inv b'"
    unfolding b'_def by (rule attach_pin [OF env _ t _ _ s _ _ len, of p a]) (use parts pf a in simp_all)
  have "pool_frame {p} b ?b" using parts(2) mono by (rule pool_frame_disk)
  moreover have "pool_frame {p} ?b b'"
  proof -
    have "b' = ?b\<lparr>pages := (pages ?b)[f := (pages ?b ! f)\<lparr>pg_data := c, pg_pin := pg_pin (pages ?b ! f) + 1\<rparr>],
        replacer := lru_pin f (replacer ?b)\<rparr>"
      using fl by (simp add: b'_def pin_frame_def set_data_def upd_page_def)
    then show ?thesis using pool_frame_at [OF t, of p f] pf by simp
  qed
  ultimately show "pool_frame {p} b b'" by (rule pool_frame_trans) simp
  show "map_of (page_table b') p = Some f" "pg_data (pages b' ! f) = c" "pin_of b' p = 1"
    using parts(6,7) fl by (simp_all add: b'_def pin_of_def)
  show "synced b' p" if "a = c" using that parts(6) fl a by (simp add: b'_def synced_def)
qed

lemma fetch_page_ok:
  assumes b: "bpm_inv b" and v: "valid_pid (disk b) p" and c: "content b p = Some c"
  obtains (full) "fetch_page p b = (Inr None, b)" "all_pinned b" "map_of (page_table b) p = None"
  | (ok) f b' where "fetch_page p b = (Inr (Some f), b')" "fetched p c f b b'"
proof (cases "map_of (page_table b) p")
  case (Some f)
  with c have "c = pg_data (pages b ! f)" by (simp add: content_def)
  with fetch_resident [OF b Some] show thesis by (intro ok) simp_all
next
  case None
  from b show thesis
  proof (cases rule: find_victim_cases)
    case none
    with None show thesis by (intro full) (simp_all add: fetch_page_def)
  next
    case (some f fl r)
    let ?b1 = "b\<lparr>free_list := fl, replacer := r\<rparr>"
    obtain b2 where u: "update_page f p ?b1 = (Inr (), b2)" and r2: "ready f p b2" and f2: "pool_frame {p} ?b1 b2"
      and d2: "\<And>c. dpage (disk ?b1) p = Some c \<Longrightarrow> dpage (disk b2) p = Some c"
      by (rule take_frame [OF some(2), of p]) (use None v in auto)
    have dp: "dpage (disk b2) p = Some c" using d2 None c by (simp add: content_def)
    have pok: "page_ok (pid_no p)" and e2: "env_ok b2" using v r2 by (simp_all add: valid_pid_def ready_def)
    obtain d where rd: "read_page (pid_fd p) (pid_no p) PAGE_SIZE (disk b2) = (Inr c, d)"
      and e: "env_ok (b2\<lparr>disk := d\<rparr>)" and m: "disk_mono {} (disk b2) d"
      using read_page_mono [OF e2 dp pok] by blast
    have dp': "dpage d p = Some c" using disk_mono_page [OF m _ pok dp] by simp
    have m': "disk_mono {p} (disk b2) d" using disk_mono_trans [OF m, of "{p}" d] by simp
    have len: "length c = PAGE_SIZE" using dp by (simp add: dpage_def length_disk_page)
    note ins = install [OF r2 e m' dp' len]
    have "pool_frame {p} b b2"
      using pool_frame_trans [OF pool_frame_free_repl [where P = "{p}" and b = b and fl = fl and r = r] f2] by simp
    then have "pool_frame {p} b (pin_frame f (set_data f c (b2\<lparr>disk := d\<rparr>)))"
      by (rule pool_frame_trans) (use ins(2) None in \<open>auto simp: pin_of_def\<close>)
    moreover have "pin_of b p = 0" using None by (simp add: pin_of_def)
    ultimately have "fetched p c f b (pin_frame f (set_data f c (b2\<lparr>disk := d\<rparr>)))"
      using ins by (simp add: fetched_def)
    moreover have "fetch_page p b = (Inr (Some f), pin_frame f (set_data f c (b2\<lparr>disk := d\<rparr>)))"
      using None some(1) u rd by (simp add: fetch_page_def)
    ultimately show thesis by (intro ok)
  qed
qed

section \<open>Changing and releasing a page\<close>

text \<open>
  A change of the frame of a resident page \<open>p\<close> that is allowed: the bytes and the flags of the
  page and its presence in the replacer.
\<close>

lemma touch_page:
  assumes b: "bpm_inv b" and p: "map_of (page_table b) p = Some f"
    and x: "pg_id x = p" "0 \<le> pg_pin x" "length (pg_data x) = PAGE_SIZE"
    and sync: "pg_pin x = 0 \<Longrightarrow> \<not> pg_dirty x \<Longrightarrow> dpage (disk b) p = Some (pg_data x)"
    and r: "lru_inv r" "lru_evictable r = (if pg_pin x = 0 then insert f (lru_evictable (replacer b))
        else lru_evictable (replacer b) - {f})"
  shows "bpm_inv (b\<lparr>pages := (pages b)[f := x], replacer := r\<rparr>)"
proof -
  let ?b = "b\<lparr>pages := (pages b)[f := x], replacer := r\<rparr>"
  note parts = bpm_invD [OF b]
  have pf: "(p, f) \<in> set (page_table b)" using p by (rule map_of_SomeD)
  have f: "f < pool_size b" using parts(3) pf by (rule table_okD)
  then have fl: "f < length (pages b)" using parts(2) by (simp add: frames_ok_def)
  have u: "q = p" if "(q, f) \<in> set (page_table b)" for q using parts(3) that pf by (rule table_frame_unique)
  have nf: "f \<notin> set (free_list b)" using parts(4) pf by (force simp: free_ok_def)
  obtain a where a: "dpage (disk b) p = Some a" using parts(6) pf by (rule sync_okD) auto
  have "frames_ok ?b" using parts(2) fl x by (simp add: frames_ok_def nth_list_update)
  moreover have "table_ok ?b" using parts(3) fl x(1) u by (auto simp: table_ok_def nth_list_update)
  moreover have "free_ok {} ?b" using parts(4) fl nf by (auto simp: free_ok_def nth_list_update)
  moreover have "repl_ok {} ?b"
    using parts(5) fl f r by (auto simp: repl_ok_def nth_list_update split: if_splits)
  moreover have "sync_ok {} ?b"
    using parts(6) fl a u sync by (auto simp: sync_ok_def nth_list_update)
  ultimately show ?thesis using parts(1) by (simp add: bpm_inv_def)
qed

lemma resident_facts:
  assumes b: "bpm_inv b" and p: "map_of (page_table b) p = Some f"
  shows "f < length (pages b)" "pg_id (pages b ! f) = p" "0 \<le> pg_pin (pages b ! f)"
    "length (pg_data (pages b ! f)) = PAGE_SIZE" "lru_inv (replacer b)" "valid_pid (disk b) p"
    "f \<in> lru_evictable (replacer b) \<longleftrightarrow> pg_pin (pages b ! f) = 0"
  using bpm_invD [OF b] table_okD [OF bpm_invD(3) [OF b] map_of_SomeD [OF p]] map_of_SomeD [OF p]
  by (auto simp: frames_ok_def repl_ok_def)

lemma set_data_ok:
  assumes b: "bpm_inv b" and p: "map_of (page_table b) p = Some f" and pin: "pin_of b p > 0"
    and len: "length c = PAGE_SIZE"
  shows "bpm_inv (set_data f c b)" and "content (set_data f c b) p = Some c"
    and "pin_of (set_data f c b) p = pin_of b p" and "pool_frame {p} b (set_data f c b)"
proof -
  note rf = resident_facts [OF b p]
  let ?x = "(pages b ! f)\<lparr>pg_data := c\<rparr>"
  have e: "set_data f c b = b\<lparr>pages := (pages b)[f := ?x], replacer := replacer b\<rparr>"
    by (simp add: set_data_def upd_page_def)
  have "pg_pin (pages b ! f) > 0" using pin p by (simp add: pin_of_def)
  then show "bpm_inv (set_data f c b)"
    unfolding e by (intro touch_page [OF b p]) (use rf len in auto)
  show "content (set_data f c b) p = Some c" "pin_of (set_data f c b) p = pin_of b p"
    using rf(1) p by (simp_all add: content_def pin_of_def)
  show "pool_frame {p} b (set_data f c b)"
    unfolding e using bpm_invD(3) [OF b] map_of_SomeD [OF p] by (rule pool_frame_at)
qed

lemma unpin_page_ok:
  assumes b: "bpm_inv b" and p: "map_of (page_table b) p = Some f" and pin: "pin_of b p > 0"
    and safe: "is_dirty \<or> synced b p \<or> pin_of b p > 1"
  obtains b' where "unpin_page p is_dirty b = (True, b')" and "bpm_inv b'" and "pool_frame {p} b b'"
    and "content b' p = content b p" and "pin_of b' p = pin_of b p - 1"
    and "map_of (page_table b') p = Some f" and "is_dirty \<or> synced b p \<Longrightarrow> synced b' p"
proof -
  note rf = resident_facts [OF b p]
  let ?pg = "pages b ! f"
  let ?x = "?pg\<lparr>pg_pin := pg_pin ?pg - 1, pg_dirty := is_dirty \<or> pg_dirty ?pg\<rparr>"
  let ?r = "if pg_pin ?pg = 1 then lru_unpin f (replacer b) else replacer b"
  let ?b = "b\<lparr>pages := (pages b)[f := ?x], replacer := ?r\<rparr>"
  have pp: "pg_pin ?pg > 0" using pin p by (simp add: pin_of_def)
  have "unpin_page p is_dirty b = (True, ?b)"
    using p pp rf(1) by (cases is_dirty) (auto simp: unpin_page_def upd_page_def Let_def)
  moreover have "bpm_inv ?b"
  proof (rule touch_page [OF b p])
    show "dpage (disk b) p = Some (pg_data ?x)" if "pg_pin ?x = 0" "\<not> pg_dirty ?x"
      using safe that p by (auto simp: synced_def pin_of_def)
  qed (use rf pp in \<open>auto simp: lru.invar_unpin lru.evictable_unpin\<close>)
  moreover have "pool_frame {p} b ?b"
    using bpm_invD(3) [OF b] map_of_SomeD [OF p] by (rule pool_frame_at)
  moreover have "content ?b p = content b p" "pin_of ?b p = pin_of b p - 1" "map_of (page_table ?b) p = Some f"
    "is_dirty \<or> synced b p \<Longrightarrow> synced ?b p"
    using p rf(1) by (auto simp: content_def pin_of_def synced_def)
  ultimately show thesis by (rule that)
qed

lemma unpin_page_fails: "bpm_inv b \<Longrightarrow> pin_of b p = 0 \<Longrightarrow> unpin_page p is_dirty b = (False, b)"
  by (auto simp: unpin_page_def pin_of_def split: option.split)

section \<open>Flushing, deleting and creating pages\<close>

lemma write_back:
  assumes b: "bpm_inv b" and p: "map_of (page_table b) p = Some f"
  obtains d where "write_out p (pg_data (pages b ! f)) b = (Inr (), b\<lparr>disk := d\<rparr>)"
    and "bpm_inv (b\<lparr>disk := d\<rparr>)" and "pool_frame {} b (b\<lparr>disk := d\<rparr>)"
    and "dpage d p = Some (pg_data (pages b ! f))" and "disk_mono {p} (disk b) d"
proof -
  note rf = resident_facts [OF b p] and parts = bpm_invD [OF b]
  let ?c = "pg_data (pages b ! f)"
  from write_out_mono [OF parts(1) rf(6,4)] obtain d where w: "write_out p ?c b = (Inr (), b\<lparr>disk := d\<rparr>)"
    and e: "env_ok (b\<lparr>disk := d\<rparr>)" and m: "disk_mono {p} (disk b) d" and dp: "dpage d p = Some ?c" by blast
  have pf: "(p, f) \<in> set (page_table b)" using p by (rule map_of_SomeD)
  have "sync_ok {f} (b\<lparr>disk := d\<rparr>)"
    using parts(3) weaken_parts(2) [OF parts(6)] m
    by (rule sync_ok_mono) (use table_page_unique [OF parts(3) pf] in auto)
  then have "sync_ok {} (b\<lparr>disk := d\<rparr>)"
    using dp table_frame_unique [OF parts(3) _ pf] by (auto simp: sync_ok_def)
  then have inv: "bpm_inv (b\<lparr>disk := d\<rparr>)"
    using e parts table_ok_mono [OF parts(3) m] by (simp add: bpm_inv_def)
  have fr: "pool_frame {p} b (b\<lparr>disk := d\<rparr>)" using parts(3) m by (rule pool_frame_disk)
  have "pool_frame {} b (b\<lparr>disk := d\<rparr>)"
    unfolding pool_frame_def
  proof (intro conjI allI impI)
    fix q c
    show "content (b\<lparr>disk := d\<rparr>) q = Some c" if "page_ok (pid_no q)" "content b q = Some c"
      using fr that p by (cases "q = p") (auto simp: pool_frame_def content_def)
    show "synced (b\<lparr>disk := d\<rparr>) q" if "pin_of b q > 0" "synced b q"
      using fr that p dp by (cases "q = p") (auto simp: pool_frame_def synced_def)
  qed (use fr in \<open>auto simp: pool_frame_def\<close>)
  with w inv dp m show thesis by (intro that)
qed

lemma mark_clean:
  assumes b: "bpm_inv b" and p: "map_of (page_table b) p = Some f" and d: "dpage (disk b) p = Some (pg_data (pages b ! f))"
  shows "bpm_inv (upd_page f (\<lambda>p. p\<lparr>pg_dirty := False\<rparr>) b)" and "pool_frame {} b (upd_page f (\<lambda>p. p\<lparr>pg_dirty := False\<rparr>) b)"
    and "page_table (upd_page f (\<lambda>p. p\<lparr>pg_dirty := False\<rparr>) b) = page_table b"
    and "disk (upd_page f (\<lambda>p. p\<lparr>pg_dirty := False\<rparr>) b) = disk b"
    and "map pg_data (pages (upd_page f (\<lambda>p. p\<lparr>pg_dirty := False\<rparr>) b)) = map pg_data (pages b)"
proof -
  note rf = resident_facts [OF b p]
  let ?x = "(pages b ! f)\<lparr>pg_dirty := False\<rparr>"
  have e: "upd_page f (\<lambda>p. p\<lparr>pg_dirty := False\<rparr>) b = b\<lparr>pages := (pages b)[f := ?x], replacer := replacer b\<rparr>"
    by (simp add: upd_page_def)
  show "bpm_inv (upd_page f (\<lambda>p. p\<lparr>pg_dirty := False\<rparr>) b)"
    unfolding e by (rule touch_page [OF b p]) (use rf d in auto)
  have fr: "pool_frame {p} b (upd_page f (\<lambda>p. p\<lparr>pg_dirty := False\<rparr>) b)"
    unfolding e using bpm_invD(3) [OF b] map_of_SomeD [OF p] by (rule pool_frame_at)
  show "pool_frame {} b (upd_page f (\<lambda>p. p\<lparr>pg_dirty := False\<rparr>) b)"
    unfolding pool_frame_def
  proof (intro conjI allI impI)
    fix q c
    let ?b = "upd_page f (\<lambda>p. p\<lparr>pg_dirty := False\<rparr>) b"
    show "fst ` set (page_table ?b) \<subseteq> fst ` set (page_table b) \<union> {}" by (simp add: upd_page_def)
    show "content ?b q = Some c" if "page_ok (pid_no q)" "content b q = Some c"
      using fr that p rf(1) by (cases "q = p") (auto simp: pool_frame_def content_def upd_page_def)
    show "pin_of ?b q = pin_of b q"
      using fr p rf(1) by (cases "q = p") (auto simp: pool_frame_def pin_of_def upd_page_def)
    show "synced ?b q" if "pin_of b q > 0" "synced b q"
      using fr that p rf(1) d by (cases "q = p") (auto simp: pool_frame_def synced_def upd_page_def)
  qed (use fr in \<open>auto simp: pool_frame_def\<close>)
  show "page_table (upd_page f (\<lambda>p. p\<lparr>pg_dirty := False\<rparr>) b) = page_table b"
    "disk (upd_page f (\<lambda>p. p\<lparr>pg_dirty := False\<rparr>) b) = disk b"
    "map pg_data (pages (upd_page f (\<lambda>p. p\<lparr>pg_dirty := False\<rparr>) b)) = map pg_data (pages b)"
    using rf(1) by (simp_all add: upd_page_def map_update list_update_same_conv)
qed

lemma flush_page_ok:
  assumes b: "bpm_inv b" and p: "map_of (page_table b) p = Some f"
  obtains b' where "flush_page p b = (Inr True, b')" and "bpm_inv b'" and "pool_frame {} b b'"
    and "dpage (disk b') p = content b p" and "disk_mono {p} (disk b) (disk b')"
proof -
  obtain d where w: "write_out p (pg_data (pages b ! f)) b = (Inr (), b\<lparr>disk := d\<rparr>)"
    and i: "bpm_inv (b\<lparr>disk := d\<rparr>)" and fr: "pool_frame {} b (b\<lparr>disk := d\<rparr>)"
    and dp: "dpage d p = Some (pg_data (pages b ! f))" and m: "disk_mono {p} (disk b) d"
    by (rule write_back [OF b p])
  let ?b = "b\<lparr>disk := d\<rparr>"
  note mc = mark_clean [OF i, of p f]
  have "pool_frame {} b (upd_page f (\<lambda>p. p\<lparr>pg_dirty := False\<rparr>) ?b)"
    by (rule pool_frame_trans [OF fr]) (use mc(2) p dp in auto)
  with w mc p dp m show thesis
    by (intro that [of "upd_page f (\<lambda>p. p\<lparr>pg_dirty := False\<rparr>) ?b"]) (simp_all add: flush_page_def content_def)
qed

lemma content_data_cong:
  assumes "page_table b' = page_table b" and "map pg_data (pages b') = map pg_data (pages b)" and "table_ok b" and "frames_ok b"
    and "map_of (page_table b) q \<noteq> None"
  shows "content b' q = content b q"
proof -
  obtain g where g: "map_of (page_table b) q = Some g" using assms(5) by auto
  then have "g < length (pages b)"
    using table_okD(1) [OF assms(3) map_of_SomeD [OF g]] assms(4) by (simp add: frames_ok_def)
  moreover have "length (pages b') = length (pages b)" using assms(2) by (metis length_map)
  ultimately have "pg_data (pages b' ! g) = pg_data (pages b ! g)" using assms(2) by (metis nth_map)
  then show ?thesis using g assms(1) by (simp add: content_def)
qed

lemma flush_entries_ok:
  "bpm_inv b \<Longrightarrow> set es \<subseteq> set (page_table b) \<Longrightarrow>
   \<exists>b'. flush_entries es fd b = (Inr (), b') \<and> bpm_inv b' \<and> pool_frame {} b b' \<and> page_table b' = page_table b \<and>
     map pg_data (pages b') = map pg_data (pages b) \<and>
     (\<forall>q. map_of (page_table b) q \<noteq> None \<longrightarrow> dpage (disk b) q = content b q \<or> pid_fd q = fd \<and> q \<in> fst ` set es \<longrightarrow>
        dpage (disk b') q = content b q)"
proof (induction es arbitrary: b)
  case Nil
  then show ?case by simp
next
  case (Cons e es)
  obtain p f where e: "e = (p, f)" by force
  have pf: "map_of (page_table b) p = Some f" using Cons.prems e by (simp add: map_of_table bpm_invD)
  show ?case
  proof (cases "fd = pid_fd p")
    case False
    with Cons.IH [OF Cons.prems(1)] Cons.prems(2) e show ?thesis by auto
  next
    case True
    obtain d where w: "write_out p (pg_data (pages b ! f)) b = (Inr (), b\<lparr>disk := d\<rparr>)"
      and i: "bpm_inv (b\<lparr>disk := d\<rparr>)" and fr: "pool_frame {} b (b\<lparr>disk := d\<rparr>)"
      and dp: "dpage d p = Some (pg_data (pages b ! f))" and m: "disk_mono {p} (disk b) d"
      by (rule write_back [OF Cons.prems(1) pf])
    let ?b = "upd_page f (\<lambda>p. p\<lparr>pg_dirty := False\<rparr>) (b\<lparr>disk := d\<rparr>)"
    note mc = mark_clean [OF i, of p f, simplified, OF pf dp]
    have fr1: "pool_frame {} b ?b" by (rule pool_frame_trans [OF fr mc(2)]) simp
    have cont: "content ?b q = content b q" if "map_of (page_table b) q \<noteq> None" for q
      using mc(3,5) bpm_invD(2,3) [OF Cons.prems(1)] that by (intro content_data_cong) simp_all
    from Cons.IH [OF mc(1)] Cons.prems(2) mc(3) obtain b' where
      b': "flush_entries es fd ?b = (Inr (), b')" "bpm_inv b'" "pool_frame {} ?b b'" "page_table b' = page_table b"
        "map pg_data (pages b') = map pg_data (pages b)"
        "\<And>q. map_of (page_table b) q \<noteq> None \<Longrightarrow> dpage (disk ?b) q = content ?b q \<or> pid_fd q = fd \<and> q \<in> fst ` set es \<Longrightarrow>
          dpage (disk b') q = content ?b q"
      using mc(5) by auto
    have run: "flush_entries (e # es) fd b = (Inr (), b')" using True e w b'(1) by simp
    have fr2: "pool_frame {} b b'" by (rule pool_frame_trans [OF fr1 b'(3)]) simp
    have "dpage (disk b') q = content b q"
      if q: "map_of (page_table b) q \<noteq> None" "dpage (disk b) q = content b q \<or> pid_fd q = fd \<and> q \<in> fst ` set (e # es)" for q
    proof -
      have "dpage d q = content b q \<or> pid_fd q = fd \<and> q \<in> fst ` set es"
      proof (cases "q = p")
        case False
        obtain g where g: "map_of (page_table b) q = Some g" using q(1) by auto
        then have "page_ok (pid_no q)" using resident_facts(6) [OF Cons.prems(1) g] by (simp add: valid_pid_def)
        then have "dpage (disk b) q = content b q \<Longrightarrow> dpage d q = content b q"
          using disk_mono_page [OF m, of q] False g by (simp add: content_def)
        then show ?thesis using q(2) e False by auto
      qed (use dp pf in \<open>simp add: content_def\<close>)
      then show ?thesis using b'(6) [OF q(1)] cont [OF q(1)] mc(4) by auto
    qed
    with run b'(2,4,5) fr2 show ?thesis by blast
  qed
qed

lemma flush_all_ok:
  assumes "bpm_inv b"
  obtains b' where "flush_all_pages fd b = (Inr (), b')" and "bpm_inv b'" and "pool_frame {} b b'"
    and "\<And>p. pid_fd p = fd \<Longrightarrow> content b p \<noteq> None \<Longrightarrow> map_of (page_table b) p \<noteq> None \<Longrightarrow> dpage (disk b') p = content b p"
proof -
  from flush_entries_ok [OF assms subset_refl, of fd] obtain b' where
    b': "flush_entries (page_table b) fd b = (Inr (), b')" "bpm_inv b'" "pool_frame {} b b'"
      "\<And>q. map_of (page_table b) q \<noteq> None \<Longrightarrow> dpage (disk b) q = content b q \<or> pid_fd q = fd \<and> q \<in> fst ` set (page_table b) \<Longrightarrow>
        dpage (disk b') q = content b q" by blast
  have "dpage (disk b') p = content b p" if "pid_fd p = fd" "map_of (page_table b) p \<noteq> None" for p
    using b'(4) [of p] that by (force dest: map_of_SomeD)
  with b' show thesis by (intro that [of b']) (simp_all add: flush_all_pages_def)
qed

lemma erase_free:
  assumes b: "bpm_inv b" and p: "map_of (page_table b) p = Some f" and pin: "pg_pin (pages b ! f) = 0"
    and d: "dpage (disk b) p = Some (pg_data (pages b ! f))" and x: "pid_no (pg_id x) = - 1" "\<not> pg_dirty x" "pg_pin x = 0"
      "length (pg_data x) = PAGE_SIZE"
  defines "b' \<equiv> b\<lparr>page_table := pt_erase p (page_table b), free_list := free_list b @ [f], pages := (pages b)[f := x]\<rparr>"
  shows "bpm_inv b'" and "pool_frame {} b b'" and "content b' p = content b p"
proof -
  note rf = resident_facts [OF b p] and parts = bpm_invD [OF b]
  have pf: "(p, f) \<in> set (page_table b)" using p by (rule map_of_SomeD)
  have f: "f < pool_size b" using parts(3) pf by (rule table_okD)
  have u: "q = p \<longleftrightarrow> g = f" if "(q, g) \<in> set (page_table b)" for q g
    using that pf table_frame_unique [OF parts(3)] table_page_unique [OF parts(3)] by blast
  have nf: "f \<notin> set (free_list b)" using parts(4) pf by (force simp: free_ok_def)
  have er: "pt_erase p (page_table b) = filter (\<lambda>(_, g). g \<noteq> f) (page_table b)"
    unfolding pt_erase_def using u by (intro filter_cong) auto
  have fr: "snd ` set (pt_erase p (page_table b)) = snd ` set (page_table b) - {f}" unfolding er by force
  have "frames_ok b'" using parts(2) x rf(1) by (simp add: b'_def frames_ok_def nth_list_update)
  moreover have "table_ok b'"
    using parts(3) rf(1) by (auto simp: b'_def table_ok_def er distinct_map_filter nth_list_update)
  moreover have "free_ok {} b'"
    using parts(4) rf(1) f nf x by (auto simp: b'_def free_ok_def fr nth_list_update)
  moreover have "repl_ok {} b'" using parts(5) rf(1) by (auto simp: b'_def repl_ok_def er nth_list_update)
  moreover have "sync_ok {} b'" using parts(6) rf(1) by (auto simp: b'_def sync_ok_def er nth_list_update)
  ultimately show "bpm_inv b'" using parts(1) by (simp add: bpm_inv_def b'_def)
  have look: "map_of (page_table b') q = (if q = p then None else map_of (page_table b) q)" for q
  proof -
    have "map_of (filter (\<lambda>(q, _). q \<noteq> p) t) q = (if q = p then None else map_of t q)" for t :: "(PageId \<times> nat) list"
      by (induction t) auto
    then show ?thesis by (simp add: b'_def pt_erase_def)
  qed
  have gf: "g \<noteq> f" if "q \<noteq> p" "map_of (page_table b) q = Some g" for q g
    using u that by (auto dest: map_of_SomeD)
  show c: "content b' p = content b p" using look [of p] d p by (simp add: content_def b'_def)
  have pin': "pin_of b' q = pin_of b q" for q
    using look [of q] gf [of q] p pin by (cases "map_of (page_table b) q") (auto simp: pin_of_def b'_def)
  have "synced b' q" if "synced b q" for q
    using that look [of q] gf [of q] by (auto simp: synced_def b'_def split: if_splits)
  moreover have "content b' q = content b q" for q
    using c look [of q] gf [of q] by (cases "q = p"; cases "map_of (page_table b) q") (auto simp: content_def b'_def)
  moreover have "map_of (page_table b') q = map_of (page_table b) q" if "pin_of b q > 0" for q
    using look [of q] that p pin by (auto simp: pin_of_def)
  moreover have "fst ` set (page_table b') \<subseteq> fst ` set (page_table b)" by (auto simp: b'_def pt_erase_def)
  ultimately show "pool_frame {} b b'" using pin' by (simp add: pool_frame_def b'_def)
qed

lemma delete_page_ok:
  assumes b: "bpm_inv b" and p: "map_of (page_table b) p = Some f" and pin: "pin_of b p = 0"
  obtains b' where "delete_page p b = (Inr True, b')" and "bpm_inv b'" and "pool_frame {} b b'"
    and "map_of (page_table b') p = None" and "content b' p = content b p"
proof -
  note rf = resident_facts [OF b p] and parts = bpm_invD [OF b]
  have pp: "pg_pin (pages b ! f) = 0" using pin p by (simp add: pin_of_def)
  let ?w = "if pg_dirty (pages b ! f) then write_out (pg_id (pages b ! f)) (pg_data (pages b ! f)) b else (Inr (), b)"
  obtain d where w: "?w = (Inr (), b\<lparr>disk := d\<rparr>)" and i: "bpm_inv (b\<lparr>disk := d\<rparr>)" and fr: "pool_frame {} b (b\<lparr>disk := d\<rparr>)"
    and dp: "dpage d p = Some (pg_data (pages b ! f))"
  proof (cases "pg_dirty (pages b ! f)")
    case True
    then show thesis using that write_back [OF b p] rf(2) by auto
  next
    case False
    obtain a where "dpage (disk b) p = Some a" "pg_data (pages b ! f) = a"
      using parts(6) map_of_SomeD [OF p] by (rule sync_okD) (use pp False in auto)
    with False b show thesis by (intro that [of "disk b"]) simp_all
  qed
  let ?x = "\<lparr>pg_id = PageId (- 1) INVALID_PAGE_ID, pg_data = memset PAGE_SIZE 0, pg_dirty = False, pg_pin = 0\<rparr>"
  let ?b = "b\<lparr>disk := d\<rparr>"
  let ?b' = "?b\<lparr>page_table := pt_erase p (page_table b), free_list := free_list b @ [f], pages := (pages b)[f := ?x]\<rparr>"
  note ef = erase_free [OF i, of p f ?x, simplified, OF p pp dp, simplified INVALID_PAGE_ID_def, simplified]
  have "delete_page p b = (Inr True, ?b')"
    using p pp w by (simp add: delete_page_def Let_def upd_page_def split: if_splits)
  moreover have "pool_frame {} b ?b'"
    by (rule pool_frame_trans [OF fr]) (use ef(2) in \<open>simp_all add: INVALID_PAGE_ID_def\<close>)
  moreover have "content ?b' p = content b p"
    using ef(3) p by (simp add: INVALID_PAGE_ID_def) (simp add: content_def)
  moreover have "map_of (page_table ?b') p = None" by (simp add: pt_erase_def map_of_eq_None_iff image_iff)
  moreover have "bpm_inv ?b'" using ef(1) by (simp add: INVALID_PAGE_ID_def)
  ultimately show thesis by (intro that [of ?b'])
qed

lemma pageno_untouched [simp]:
  "disk_inv (d\<lparr>fd2pageno := m\<rparr>) = disk_inv d" "dpage (d\<lparr>fd2pageno := m\<rparr>) = dpage d"
  "valid_pid (d\<lparr>fd2pageno := m\<rparr>) = valid_pid d" "log_inv (lm, d\<lparr>fd2pageno := m\<rparr>) = log_inv (lm, d)"
  by (auto simp: disk_inv_def dpage_def disk_page_def valid_pid_def data_fd_def log_inv_def log_ready_def log_stream_def
      log_file_def fun_eq_iff split: option.split)

lemma detached_alloc: "detached f b \<Longrightarrow> detached f (b\<lparr>disk := (disk b)\<lparr>fd2pageno := m\<rparr>\<rparr>)"
  by (simp add: detached_def) (auto simp: env_ok_def table_ok_def sync_ok_def)

lemma views_alloc [simp]:
  "content (b\<lparr>disk := (disk b)\<lparr>fd2pageno := m\<rparr>\<rparr>) = content b"
  "synced (b\<lparr>disk := (disk b)\<lparr>fd2pageno := m\<rparr>\<rparr>) = synced b"
  by (simp_all add: fun_eq_iff content_def synced_def split: option.split)

lemma pool_frame_alloc: "pool_frame P b (b\<lparr>free_list := fl, replacer := r, disk := (disk b)\<lparr>fd2pageno := m\<rparr>\<rparr>)"
proof -
  have "pool_frame P (b\<lparr>free_list := fl, replacer := r\<rparr>) (b\<lparr>free_list := fl, replacer := r, disk := (disk b)\<lparr>fd2pageno := m\<rparr>\<rparr>)"
    using views_alloc [where b = "b\<lparr>free_list := fl, replacer := r\<rparr>" and m = m] by (simp add: pool_frame_def)
  with pool_frame_free_repl show ?thesis by (rule pool_frame_trans) simp
qed

lemma write_out_pin:
  assumes "write_out p c b = (r, b\<lparr>disk := d\<rparr>)"
  shows "write_out p c (pin_frame f b) = (r, (pin_frame f b)\<lparr>disk := d\<rparr>)"
proof -
  obtain r' d' where w: "write_page (pid_fd p) (pid_no p) c (disk b) = (r', d')" by force
  with assms have "r' = r" and e: "b\<lparr>disk := d'\<rparr> = b\<lparr>disk := d\<rparr>" by (simp_all add: write_out_def)
  from arg_cong [OF e, of disk] have "d' = d" by simp
  with w \<open>r' = r\<close> show ?thesis by (simp add: write_out_def)
qed

lemma new_page_ok:
  assumes b: "bpm_inv b" and fd: "0 \<le> fd" "fd < MAX_FD" and n: "n = fd2pageno (disk b) fd"
    and v: "valid_pid (disk b) (PageId fd n)" and new: "map_of (page_table b) (PageId fd n) = None"
  obtains (full) "new_page fd b = (Inr None, b)" "all_pinned b"
  | (ok) f b' where "new_page fd b = (Inr (Some (PageId fd n, f)), b')"
      "fetched (PageId fd n) (memset PAGE_SIZE 0) f b b'" "synced b' (PageId fd n)"
      "fd2pageno (disk b') = (fd2pageno (disk b))(fd := n + 1)"
  using b
proof (cases rule: find_victim_cases)
  case none
  then show thesis by (intro full) (simp_all add: new_page_def)
next
  case (some f fl r)
  let ?p = "PageId fd n" and ?z = "memset PAGE_SIZE 0"
  let ?d = "(disk b)\<lparr>fd2pageno := (fd2pageno (disk b))(fd := n + 1)\<rparr>"
  let ?b1 = "b\<lparr>free_list := fl, replacer := r, disk := ?d\<rparr>"
  have "int32 (n + 1)" using v by (simp add: valid_pid_def page_ok_def int32_def)
  then have al: "allocate_page fd (disk b) = (Inr n, ?d)" using fd n by (simp add: allocate_page_def)
  have det: "detached f ?b1" using detached_alloc [OF some(2), where m = "(fd2pageno (disk b))(fd := n + 1)"] by simp
  obtain b2 where u: "update_page f ?p ?b1 = (Inr (), b2)" and r2: "ready f ?p b2" and f2: "pool_frame {?p} ?b1 b2"
    and pn: "fd2pageno (disk b2) = fd2pageno (disk ?b1)"
    by (rule take_frame [OF det, of ?p]) (use new v in auto)
  have m2: "pages b2 ! f = reset_page ?p" and e2: "env_ok b2" and k2: "map_of (page_table b2) ?p = Some f"
    and fl2: "f < length (pages b2)"
    using r2 table_okD(1) [of b2 ?p f] by (auto simp: ready_def frames_ok_def dest: map_of_SomeD)
  have v2: "valid_pid (disk b2) ?p" using f2 v by (simp add: pool_frame_def)
  obtain d where w: "write_out ?p ?z b2 = (Inr (), b2\<lparr>disk := d\<rparr>)" and e: "env_ok (b2\<lparr>disk := d\<rparr>)"
    and m: "disk_mono {?p} (disk b2) d" and dp: "dpage d ?p = Some ?z"
    using write_out_mono [OF e2 v2, of ?z] by auto
  let ?b = "pin_frame f (set_data f ?z (b2\<lparr>disk := d\<rparr>))"
  note ins = install [OF r2 e m dp length_memset]
  have "pool_frame {?p} b b2"
    by (rule pool_frame_trans [OF pool_frame_alloc f2]) simp
  then have fr: "pool_frame {?p} b ?b"
    by (rule pool_frame_trans) (use ins(2) new in \<open>auto simp: pin_of_def\<close>)
  have "set_data f ?z (b2\<lparr>disk := d\<rparr>) = b2\<lparr>disk := d\<rparr>"
    using m2 fl2 by (simp add: set_data_def upd_page_def list_update_same_conv)
  then have pin: "?b = (pin_frame f b2)\<lparr>disk := d\<rparr>" by (simp add: pin_frame_def upd_page_def)
  have "write_out ?p ?z (pin_frame f b2) = (Inr (), (pin_frame f b2)\<lparr>disk := d\<rparr>)"
    using w by (rule write_out_pin)
  then have run: "new_page fd b = (Inr (Some (?p, f)), ?b)"
    unfolding pin using some(1) al u m2 fl2 by (simp add: new_page_def Let_def)
  have "fetched ?p ?z f b ?b" using ins fr new by (simp add: fetched_def pin_of_def)
  moreover have "fd2pageno (disk ?b) = (fd2pageno (disk b))(fd := n + 1)"
    using disk_mono_pageno [OF m] pn by simp
  ultimately show thesis using run ins(6) [OF refl] by (intro ok)
qed

section \<open>Capacity\<close>

definition pinned_pages :: "bpm \<Rightarrow> PageId set" where
  "pinned_pages b = {p. 0 < pin_of b p}"

lemma pinned_pages_subset: "pinned_pages b \<subseteq> fst ` set (page_table b)"
  by (force simp: pinned_pages_def pin_of_def dest: map_of_SomeD split: option.splits)

lemma pinned_pages_all:
  assumes b: "bpm_inv b"
  shows "card (pinned_pages b) \<le> pool_size b" and "all_pinned b \<longleftrightarrow> card (pinned_pages b) = pool_size b"
proof -
  note parts = bpm_invD [OF b]
  have len: "length (page_table b) = card (snd ` set (page_table b))"
    using parts(3) distinct_card [of "map snd (page_table b)"] by (simp add: table_ok_def)
  have lenf: "card (fst ` set (page_table b)) = length (page_table b)"
    using parts(3) distinct_card [of "map fst (page_table b)"] by (simp add: table_ok_def)
  have sub: "snd ` set (page_table b) \<subseteq> {..< pool_size b}" using parts(3) by (auto simp: table_ok_def)
  have le: "length (page_table b) \<le> pool_size b"
    unfolding len using card_mono [OF _ sub] by simp
  have pc: "card (pinned_pages b) \<le> length (page_table b)"
    using card_mono [OF _ pinned_pages_subset [of b]] lenf by simp
  with le show "card (pinned_pages b) \<le> pool_size b" by simp
  show "all_pinned b \<longleftrightarrow> card (pinned_pages b) = pool_size b"
  proof
    assume a: "all_pinned b"
    then have "snd ` set (page_table b) = {..< pool_size b}"
      using sub parts(4) by (auto simp: all_pinned_def free_ok_def)
    then have l: "length (page_table b) = pool_size b" using len by simp
    have "fst ` set (page_table b) \<subseteq> pinned_pages b"
      using a parts(3) by (auto simp: pinned_pages_def pin_of_def all_pinned_def map_of_table [OF parts(3)] table_ok_def
          simp del: map_of_eq_Some_iff split: option.split)
    then have "pinned_pages b = fst ` set (page_table b)" using pinned_pages_subset [of b] by auto
    then show "card (pinned_pages b) = pool_size b" using lenf l by simp
  next
    assume c: "card (pinned_pages b) = pool_size b"
    then have l: "length (page_table b) = pool_size b" using pc le by simp
    then have full: "snd ` set (page_table b) = {..< pool_size b}"
      using card_subset_eq [OF _ sub] len by simp
    have "pinned_pages b = fst ` set (page_table b)"
      using card_subset_eq [OF _ pinned_pages_subset [of b]] c lenf l by simp
    then have "0 < pg_pin (pages b ! f)" if "(p, f) \<in> set (page_table b)" for p f
      using that by (force simp: pinned_pages_def pin_of_def map_of_table [OF parts(3), THEN iffD2])
    then have "\<forall>f < pool_size b. 0 < pg_pin (pages b ! f)" using full
      by (metis (no_types, lifting) image_iff lessThan_iff prod.collapse)
    moreover have "free_list b = []" using parts(4) full by (cases "free_list b") (auto simp: free_ok_def)
    ultimately show "all_pinned b" by (simp add: all_pinned_def)
  qed
qed

end
