(* ===== verification/RmPage.thy ===== *)
theory RmPage
  imports Bitmap BufferPool
begin

text \<open>
  The pages of a table file: the file header and the page header of \<^verbatim>\<open>record/rm_defs.h\<close>, the layout
  of \<open>RmPageHandle\<close> in \<^verbatim>\<open>record/rm_file_handle.h\<close> (log sequence number, page header, bitmap, slots), and
  what each primitive write into a page does to the four things a page holds: the free-page
  link, the record count, the bitmap and the slots.
\<close>

section \<open>Headers and layout\<close>

definition RM_NO_PAGE :: int where
  "RM_NO_PAGE = - 1"

definition RM_FILE_HDR_PAGE :: int where
  "RM_FILE_HDR_PAGE = 0"

definition RM_FIRST_RECORD_PAGE :: int where
  "RM_FIRST_RECORD_PAGE = 1"

definition RM_MAX_RECORD_SIZE :: int where
  "RM_MAX_RECORD_SIZE = 512"

record RmFileHdr =
  record_size :: int
  num_pages :: int
  num_records_per_page :: int
  first_free_page_no :: int
  bitmap_size :: int

definition RmFileHdr_bytes :: "RmFileHdr \<Rightarrow> bytes" where
  "RmFileHdr_bytes h = int_bytes (record_size h) @ int_bytes (num_pages h) @ int_bytes (num_records_per_page h) @
     int_bytes (first_free_page_no h) @ int_bytes (bitmap_size h)"

definition bytes_RmFileHdr :: "bytes \<Rightarrow> RmFileHdr" where
  "bytes_RmFileHdr b =
     \<lparr>record_size = load_int b 0, num_pages = load_int b 4, num_records_per_page = load_int b 8,
      first_free_page_no = load_int b 12, bitmap_size = load_int b 16\<rparr>"

definition RmFileHdr_size :: nat where
  "RmFileHdr_size = 20"

definition RmPageHdr_size :: nat where
  "RmPageHdr_size = 8"

text \<open>The header \<open>create_file\<close> computes from the size of a record.\<close>

definition RmFileHdr_init :: "int \<Rightarrow> RmFileHdr" where
  "RmFileHdr_init rs =
     (let n = (int BITMAP_WIDTH * (int PAGE_SIZE - 1 - int RmFileHdr_size) + 1) div (1 + rs * int BITMAP_WIDTH)
      in \<lparr>record_size = rs, num_pages = 1, num_records_per_page = n, first_free_page_no = RM_NO_PAGE,
          bitmap_size = (n + int BITMAP_WIDTH - 1) div int BITMAP_WIDTH\<rparr>)"

abbreviation rec_size :: "RmFileHdr \<Rightarrow> nat" where
  "rec_size h \<equiv> nat (record_size h)"

abbreviation per_page :: "RmFileHdr \<Rightarrow> nat" where
  "per_page h \<equiv> nat (num_records_per_page h)"

abbreviation bm_size :: "RmFileHdr \<Rightarrow> nat" where
  "bm_size h \<equiv> nat (bitmap_size h)"

definition bitmap_off :: nat where
  "bitmap_off = RmPageHdr_size + OFFSET_PAGE_HDR"

definition slots_off :: "RmFileHdr \<Rightarrow> nat" where
  "slots_off h = bitmap_off + bm_size h"

definition get_slot :: "RmFileHdr \<Rightarrow> nat \<Rightarrow> nat" where
  "get_slot h slot_no = slots_off h + slot_no * rec_size h"

definition get_next_free :: "bytes \<Rightarrow> int" where
  "get_next_free d = load_int d OFFSET_PAGE_HDR"

definition set_next_free :: "int \<Rightarrow> bytes \<Rightarrow> bytes" where
  "set_next_free v d = store_int d OFFSET_PAGE_HDR v"

definition get_num_records :: "bytes \<Rightarrow> int" where
  "get_num_records d = load_int d (OFFSET_PAGE_HDR + 4)"

definition set_num_records :: "int \<Rightarrow> bytes \<Rightarrow> bytes" where
  "set_num_records v d = store_int d (OFFSET_PAGE_HDR + 4) v"

definition set_lsn_bytes :: "int \<Rightarrow> bytes \<Rightarrow> bytes" where
  "set_lsn_bytes l d = store_int d 0 l"

definition put_slot :: "RmFileHdr \<Rightarrow> nat \<Rightarrow> bytes \<Rightarrow> bytes \<Rightarrow> bytes" where
  "put_slot h slot_no buf d = memcpy d (get_slot h slot_no) (take (rec_size h) buf)"

lemmas page_layout = bitmap_off_def RmPageHdr_size_def OFFSET_PAGE_HDR_def get_next_free_def set_next_free_def
  get_num_records_def set_num_records_def set_lsn_bytes_def

section \<open>The layout fits into a page\<close>

definition layout_ok :: "RmFileHdr \<Rightarrow> bool" where
  "layout_ok h \<longleftrightarrow> 1 \<le> record_size h \<and> record_size h \<le> RM_MAX_RECORD_SIZE \<and>
     num_records_per_page h = num_records_per_page (RmFileHdr_init (record_size h)) \<and>
     bitmap_size h = bitmap_size (RmFileHdr_init (record_size h))"

lemma layout_init: "1 \<le> rs \<Longrightarrow> rs \<le> RM_MAX_RECORD_SIZE \<Longrightarrow> layout_ok (RmFileHdr_init rs)"
  by (simp add: layout_ok_def RmFileHdr_init_def Let_def)

lemma layout_numbers:
  assumes "layout_ok h"
  shows "0 < num_records_per_page h" and "num_records_per_page h \<le> 3622"
    and "num_records_per_page h \<le> 8 * bitmap_size h" and "0 \<le> bitmap_size h"
    and "12 + bitmap_size h + num_records_per_page h * record_size h \<le> 4096"
proof -
  let ?rs = "record_size h" and ?n = "num_records_per_page h" and ?b = "bitmap_size h"
  have rs: "1 \<le> ?rs" "?rs \<le> 512" using assms by (simp_all add: layout_ok_def RM_MAX_RECORD_SIZE_def)
  have n: "?n = 32601 div (1 + ?rs * 8)" and b: "?b = (?n + 7) div 8"
    using assms by (simp_all add: layout_ok_def RmFileHdr_init_def Let_def BITMAP_WIDTH_def PAGE_SIZE_def RmFileHdr_size_def)
  let ?k = "1 + ?rs * 8"
  have k: "0 < ?k" "?k \<le> 32601" using rs by simp_all
  have "?n * ?k + 32601 mod ?k = 32601" unfolding n by (rule div_mult_mod_eq)
  moreover have "0 \<le> 32601 mod ?k" using k(1) by (rule pos_mod_sign)
  ultimately have lo: "?n * ?k \<le> 32601" by linarith
  have "?k div ?k \<le> 32601 div ?k" using k(2,1) by (rule zdiv_mono1)
  then have "1 \<le> ?n" unfolding n using k(1) by simp
  then show "0 < ?n" by simp
  have "?n * 9 \<le> ?n * (1 + ?rs * 8)" using rs \<open>1 \<le> ?n\<close> by (intro mult_left_mono) auto
  then have "?n * 9 \<le> 32601" using lo by linarith
  then show "?n \<le> 3622" by linarith
  show "?n \<le> 8 * ?b" unfolding b by linarith
  show "0 \<le> ?b" unfolding b using \<open>1 \<le> ?n\<close> by simp
  have "8 * ?b \<le> ?n + 7" unfolding b by linarith
  moreover have "8 * (?n * ?rs) = ?n * (1 + ?rs * 8) - ?n" by (simp add: algebra_simps)
  ultimately show "12 + ?b + ?n * ?rs \<le> 4096" using lo by linarith
qed

lemma layout_fits:
  assumes h: "layout_ok h" and i: "i < per_page h"
  shows "bitmap_off + i div 8 < slots_off h" and "slots_off h \<le> get_slot h i"
    and "get_slot h i + rec_size h \<le> PAGE_SIZE"
proof -
  note n = layout_numbers [OF h]
  have rs: "0 \<le> record_size h" using h by (simp add: layout_ok_def)
  have "int i < num_records_per_page h" using i by linarith
  then have i8: "int i < 8 * bitmap_size h" using n(3) by linarith
  then have "i div 8 < bm_size h" using n(4) by linarith
  then show "bitmap_off + i div 8 < slots_off h" by (simp add: slots_off_def)
  show "slots_off h \<le> get_slot h i" by (simp add: get_slot_def)
  have "(int i + 1) * record_size h \<le> num_records_per_page h * record_size h"
    using \<open>int i < num_records_per_page h\<close> rs by (intro mult_right_mono) auto
  then have "12 + bitmap_size h + (int i + 1) * record_size h \<le> 4096" using n(5) by linarith
  then have "int (12 + bm_size h + (i + 1) * rec_size h) \<le> 4096" using n(4) rs by (simp add: algebra_simps)
  then have "12 + bm_size h + (i + 1) * rec_size h \<le> 4096" by linarith
  then show "get_slot h i + rec_size h \<le> PAGE_SIZE"
    by (simp add: get_slot_def slots_off_def page_layout PAGE_SIZE_def algebra_simps)
qed

section \<open>What a page holds\<close>

definition page_slot :: "RmFileHdr \<Rightarrow> bytes \<Rightarrow> nat \<Rightarrow> bytes option" where
  "page_slot h d i =
     (if i < per_page h \<and> is_set bitmap_off i d then Some (slice (get_slot h i) (rec_size h) d) else None)"

definition page_count :: "RmFileHdr \<Rightarrow> bytes \<Rightarrow> nat" where
  "page_count h d = card {i. i < per_page h \<and> is_set bitmap_off i d}"

definition page_wf :: "RmFileHdr \<Rightarrow> bytes \<Rightarrow> bool" where
  "page_wf h d \<longleftrightarrow> length d = PAGE_SIZE \<and> get_num_records d = int (page_count h d)"

lemma page_count_le: "page_count h d \<le> per_page h"
  using card_mono [of "{..< per_page h}" "{i. i < per_page h \<and> is_set bitmap_off i d}"]
  by (auto simp: page_count_def)

lemma page_slot_dom: "dom (page_slot h d) = {i. i < per_page h \<and> is_set bitmap_off i d}"
  by (auto simp: page_slot_def dom_def)

lemma page_count_dom: "page_count h d = card (dom (page_slot h d))"
  by (simp add: page_count_def page_slot_dom)

text \<open>The primitive writes.\<close>

lemma ints_of_page [simp]:
  assumes "length d = PAGE_SIZE"
  shows "int32 v \<Longrightarrow> get_next_free (set_next_free v d) = v" "get_num_records (set_next_free v d) = get_num_records d"
    "int32 v \<Longrightarrow> get_num_records (set_num_records v d) = v" "get_next_free (set_num_records v d) = get_next_free d"
    "get_next_free (set_lsn_bytes v d) = get_next_free d" "get_num_records (set_lsn_bytes v d) = get_num_records d"
    "length (set_next_free v d) = PAGE_SIZE" "length (set_num_records v d) = PAGE_SIZE" "length (set_lsn_bytes v d) = PAGE_SIZE"
    "load_int (set_next_free v d) 0 = load_int d 0" "load_int (set_num_records v d) 0 = load_int d 0"
  using assms by (simp_all add: page_layout buffer_simps PAGE_SIZE_def)

lemma int32_of_page: "length d = PAGE_SIZE \<Longrightarrow> int32 (get_next_free d) \<and> int32 (get_num_records d)"
  by (simp add: page_layout int32_load_int PAGE_SIZE_def)

lemma nth_store_int: "k < off \<or> off + 4 \<le> k \<Longrightarrow> off + 4 \<le> length d \<Longrightarrow> k < length d \<Longrightarrow> store_int d off v ! k = d ! k"
  by (auto simp: store_int_def nth_memcpy)

lemma page_slot_cong:
  assumes "\<And>i. i < per_page h \<Longrightarrow> is_set bitmap_off i d = is_set bitmap_off i d'"
    and "\<And>i. i < per_page h \<Longrightarrow> slice (get_slot h i) (rec_size h) d = slice (get_slot h i) (rec_size h) d'"
  shows "page_slot h d = page_slot h d'"
  using assms by (auto simp: page_slot_def fun_eq_iff)

lemma page_slot_ints [simp]:
  assumes h: "layout_ok h" and d: "length d = PAGE_SIZE"
  shows "page_slot h (set_next_free v d) = page_slot h d" "page_slot h (set_num_records v d) = page_slot h d"
    "page_slot h (set_lsn_bytes v d) = page_slot h d"
proof -
  have "page_slot h (store_int d off v) = page_slot h d" if off: "off + 4 \<le> bitmap_off" for off
  proof (rule page_slot_cong)
    fix i
    assume i: "i < per_page h"
    note fit = layout_fits [OF h i]
    have off2: "off + 4 \<le> length d" using off fit d by (simp add: slots_off_def)
    have "store_int d off v ! (bitmap_off + i div 8) = d ! (bitmap_off + i div 8)"
      using off off2 fit d by (intro nth_store_int) auto
    then show "is_set bitmap_off i (store_int d off v) = is_set bitmap_off i d" by (rule is_set_cong)
    show "slice (get_slot h i) (rec_size h) (store_int d off v) = slice (get_slot h i) (rec_size h) d"
      using off off2 fit by (intro slice_store_int_other) (auto simp: slots_off_def)
  qed
  then show "page_slot h (set_next_free v d) = page_slot h d" "page_slot h (set_num_records v d) = page_slot h d"
    "page_slot h (set_lsn_bytes v d) = page_slot h d"
    by (simp_all add: page_layout)
qed

lemma slot_ranges_disjoint:
  assumes "i \<noteq> j"
  shows "get_slot h i + rec_size h \<le> get_slot h j \<or> get_slot h j + rec_size h \<le> get_slot h i"
proof -
  have "(i + 1) * rec_size h \<le> j * rec_size h \<or> (j + 1) * rec_size h \<le> i * rec_size h"
    using assms by (metis Suc_eq_plus1 Suc_leI linorder_neqE_nat mult_le_mono1)
  then show ?thesis by (auto simp: get_slot_def algebra_simps)
qed

lemma put_slot_views:
  assumes h: "layout_ok h" and d: "length d = PAGE_SIZE" and i: "i < per_page h" and b: "length buf = rec_size h"
  shows "length (put_slot h i buf d) = PAGE_SIZE" "get_next_free (put_slot h i buf d) = get_next_free d"
    "get_num_records (put_slot h i buf d) = get_num_records d"
    "q < per_page h \<Longrightarrow> is_set bitmap_off q (put_slot h i buf d) = is_set bitmap_off q d"
    "slice (get_slot h i) (rec_size h) (put_slot h i buf d) = buf"
    "q \<noteq> i \<Longrightarrow> slice (get_slot h q) (rec_size h) (put_slot h i buf d) = slice (get_slot h q) (rec_size h) d"
proof -
  note fit = layout_fits [OF h i]
  have p: "put_slot h i buf d = memcpy d (get_slot h i) buf" using b by (simp add: put_slot_def)
  have lo: "bitmap_off \<le> get_slot h i" using fit by simp
  show "length (put_slot h i buf d) = PAGE_SIZE" using fit d b by (simp add: p)
  show "get_next_free (put_slot h i buf d) = get_next_free d" "get_num_records (put_slot h i buf d) = get_num_records d"
    using lo fit d unfolding p by (simp_all add: page_layout load_int_memcpy_other)
  show "is_set bitmap_off q (put_slot h i buf d) = is_set bitmap_off q d" if "q < per_page h"
  proof (rule is_set_cong)
    show "put_slot h i buf d ! (bitmap_off + q div 8) = d ! (bitmap_off + q div 8)"
      using layout_fits [OF h that] fit d b by (simp add: p nth_memcpy)
  qed
  show "slice (get_slot h i) (rec_size h) (put_slot h i buf d) = buf"
    using fit d b by (simp add: p slice_memcpy_same)
  show "slice (get_slot h q) (rec_size h) (put_slot h i buf d) = slice (get_slot h q) (rec_size h) d" if "q \<noteq> i"
    using slot_ranges_disjoint [OF that, of h] fit d b
    by (auto simp: p intro: slice_memcpy_before slice_memcpy_after)
qed

lemma bm_views:
  assumes h: "layout_ok h" and d: "length d = PAGE_SIZE" and i: "i < per_page h"
  shows "get_next_free (bm_set bitmap_off i d) = get_next_free d" "get_num_records (bm_set bitmap_off i d) = get_num_records d"
    "get_next_free (bm_reset bitmap_off i d) = get_next_free d" "get_num_records (bm_reset bitmap_off i d) = get_num_records d"
    "q < per_page h \<Longrightarrow> slice (get_slot h q) (rec_size h) (bm_set bitmap_off i d) = slice (get_slot h q) (rec_size h) d"
    "q < per_page h \<Longrightarrow> slice (get_slot h q) (rec_size h) (bm_reset bitmap_off i d) = slice (get_slot h q) (rec_size h) d"
    "is_set bitmap_off q (bm_set bitmap_off i d) \<longleftrightarrow> q = i \<or> is_set bitmap_off q d"
    "is_set bitmap_off q (bm_reset bitmap_off i d) \<longleftrightarrow> q \<noteq> i \<and> is_set bitmap_off q d"
proof -
  note fit = layout_fits [OF h i]
  have b: "bitmap_off + i div 8 < length d" using fit d by simp
  show "is_set bitmap_off q (bm_set bitmap_off i d) \<longleftrightarrow> q = i \<or> is_set bitmap_off q d" using b by (rule is_set_bm_set)
  show "is_set bitmap_off q (bm_reset bitmap_off i d) \<longleftrightarrow> q \<noteq> i \<and> is_set bitmap_off q d" using b by (rule is_set_bm_reset)
  show "slice (get_slot h q) (rec_size h) (bm_set bitmap_off i d) = slice (get_slot h q) (rec_size h) d"
    "slice (get_slot h q) (rec_size h) (bm_reset bitmap_off i d) = slice (get_slot h q) (rec_size h) d" if "q < per_page h"
    using layout_fits [OF h that] fit by (auto intro!: slice_bm_other)
qed (simp_all add: page_layout load_int_def slice_bm_other)

section \<open>Inserting and deleting in a page\<close>

lemma page_slot_insert:
  assumes h: "layout_ok h" and d: "length d = PAGE_SIZE" and i: "i < per_page h" and b: "length buf = rec_size h"
  shows "page_slot h (bm_set bitmap_off i (put_slot h i buf d)) = (page_slot h d)(i \<mapsto> buf)"
    and "page_slot h (put_slot h i buf (bm_set bitmap_off i d)) = (page_slot h d)(i \<mapsto> buf)"
proof -
  note pv = put_slot_views [OF h d i b]
  show "page_slot h (bm_set bitmap_off i (put_slot h i buf d)) = (page_slot h d)(i \<mapsto> buf)"
    using pv bm_views [OF h pv(1) i] i by (auto simp: page_slot_def fun_eq_iff)
  show "page_slot h (put_slot h i buf (bm_set bitmap_off i d)) = (page_slot h d)(i \<mapsto> buf)"
    using put_slot_views [OF h _ i b, of "bm_set bitmap_off i d"] bm_views [OF h d i] i d by (auto simp: page_slot_def fun_eq_iff)
qed

lemma page_slot_delete:
  assumes h: "layout_ok h" and d: "length d = PAGE_SIZE" and i: "i < per_page h"
  shows "page_slot h (bm_reset bitmap_off i d) = (page_slot h d)(i := None)"
  using bm_views [OF h d i] by (auto simp: page_slot_def fun_eq_iff)

lemma page_slot_update:
  assumes h: "layout_ok h" and d: "length d = PAGE_SIZE" and i: "i < per_page h" and b: "length buf = rec_size h"
    and set: "page_slot h d i \<noteq> None"
  shows "page_slot h (put_slot h i buf d) = (page_slot h d)(i \<mapsto> buf)"
  using put_slot_views [OF h d i b] set i by (auto simp: page_slot_def fun_eq_iff split: if_splits)

lemma page_slot_init:
  assumes h: "layout_ok h" and d: "length d = PAGE_SIZE"
  shows "page_slot h (bm_init bitmap_off (bm_size h) d) = Map.empty"
    and "length (bm_init bitmap_off (bm_size h) d) = PAGE_SIZE"
    and "get_next_free (bm_init bitmap_off (bm_size h) d) = get_next_free d"
    and "get_num_records (bm_init bitmap_off (bm_size h) d) = get_num_records d"
proof -
  have fit: "bitmap_off + bm_size h \<le> length d"
    using layout_fits [OF h, of 0] layout_numbers(1) [OF h] d by (simp add: slots_off_def get_slot_def)
  have "\<not> is_set bitmap_off i (bm_init bitmap_off (bm_size h) d)" if "i < per_page h" for i
    using fit layout_fits(1) [OF h that] by (intro is_set_bm_init) (simp_all add: slots_off_def)
  then show "page_slot h (bm_init bitmap_off (bm_size h) d) = Map.empty" by (auto simp: page_slot_def fun_eq_iff)
  show "length (bm_init bitmap_off (bm_size h) d) = PAGE_SIZE" using fit d by (simp add: bm_init_def)
  show "get_next_free (bm_init bitmap_off (bm_size h) d) = get_next_free d"
    "get_num_records (bm_init bitmap_off (bm_size h) d) = get_num_records d"
    using fit by (simp_all add: bm_init_def page_layout load_int_memcpy_other)
qed

text \<open>\<open>first_bit\<close> finds a free slot of a page that is not full.\<close>

lemma first_free_slot:
  assumes "page_count h d < per_page h"
  shows "first_bit False bitmap_off (per_page h) d < per_page h"
    and "page_slot h d (first_bit False bitmap_off (per_page h) d) = None"
proof -
  let ?r = "first_bit False bitmap_off (per_page h) d"
  have s: "?r \<le> per_page h" "\<forall>j < ?r. is_set bitmap_off j d" "?r < per_page h \<longrightarrow> \<not> is_set bitmap_off ?r d"
    using first_bit_spec [of False bitmap_off "per_page h" d] by auto
  show lt: "?r < per_page h"
  proof (rule ccontr)
    assume "\<not> ?r < per_page h"
    then have "{i. i < per_page h \<and> is_set bitmap_off i d} = {..< per_page h}" using s by auto
    then show False using assms by (simp add: page_count_def)
  qed
  show "page_slot h d ?r = None" using s(3) lt by (simp add: page_slot_def)
qed

end
