(* ===== verification/PagePool.thy ===== *)
theory PagePool
  imports BufferPool
begin

text \<open>
  What the buffer pool promises its clients. The locale \<open>page_pool\<close> is the contract the record
  and index layers use, with the read-modify-write cycle proved once inside it, and it is
  interpreted on the buffer pool. The second part is a specification of the pool as a plain store
  of pages with pin counts, without frames, replacer, dirty flags or disk, and the theorem
  that the pool implements it for every sequence of calls of a client that marks the pages it
  changed.
\<close>

section \<open>The contract of the buffer pool\<close>

locale page_pool =
  fixes invar :: "'b \<Rightarrow> bool"
    and valid :: "'b \<Rightarrow> PageId \<Rightarrow> bool"
    and cont :: "'b \<Rightarrow> PageId \<Rightarrow> bytes option"
    and pins :: "'b \<Rightarrow> PageId \<Rightarrow> int"
    and frame :: "'b \<Rightarrow> PageId \<Rightarrow> nat option"
    and data :: "'b \<Rightarrow> nat \<Rightarrow> bytes"
    and cap :: "'b \<Rightarrow> nat"
    and clean :: "'b \<Rightarrow> PageId \<Rightarrow> bool"
    and keeps :: "PageId set \<Rightarrow> 'b \<Rightarrow> 'b \<Rightarrow> bool"
    and fetch :: "PageId \<Rightarrow> 'b \<Rightarrow> (nat option, 'b) res"
    and store :: "nat \<Rightarrow> bytes \<Rightarrow> 'b \<Rightarrow> 'b"
    and unpin :: "PageId \<Rightarrow> bool \<Rightarrow> 'b \<Rightarrow> bool \<times> 'b"
  assumes fetch_law: "invar b \<Longrightarrow> valid b p \<Longrightarrow> cont b p = Some c \<Longrightarrow> card {q. 0 < pins b q} < cap b \<Longrightarrow>
      \<exists>f b'. fetch p b = (Inr (Some f), b') \<and> invar b' \<and> frame b' p = Some f \<and> data b' f = c \<and>
        cont b' p = Some c \<and> pins b' p = pins b p + 1 \<and> (clean b p \<longrightarrow> clean b' p) \<and> keeps {p} b b'"
    and store_law: "invar b \<Longrightarrow> frame b p = Some f \<Longrightarrow> 0 < pins b p \<Longrightarrow> length c = PAGE_SIZE \<Longrightarrow>
      invar (store f c b) \<and> frame (store f c b) p = Some f \<and> data (store f c b) f = c \<and> cont (store f c b) p = Some c \<and>
        pins (store f c b) p = pins b p \<and> keeps {p} b (store f c b)"
    and unpin_law: "invar b \<Longrightarrow> frame b p = Some f \<Longrightarrow> 0 < pins b p \<Longrightarrow> dirty \<or> clean b p \<or> 1 < pins b p \<Longrightarrow>
      \<exists>b'. unpin p dirty b = (True, b') \<and> invar b' \<and> cont b' p = cont b p \<and> pins b' p = pins b p - 1 \<and>
        (dirty \<or> clean b p \<longrightarrow> clean b' p) \<and> keeps {p} b b'"
    and pins_nonneg: "invar b \<Longrightarrow> 0 \<le> pins b p"
    and unpinned_clean: "invar b \<Longrightarrow> pins b p = 0 \<Longrightarrow> clean b p"
    and keeps_valid: "keeps P b b' \<Longrightarrow> valid b q \<Longrightarrow> valid b' q"
    and keeps_cont: "keeps P b b' \<Longrightarrow> q \<notin> P \<Longrightarrow> valid b q \<Longrightarrow> cont b q = Some c \<Longrightarrow> cont b' q = Some c"
    and keeps_pins: "keeps P b b' \<Longrightarrow> q \<notin> P \<Longrightarrow> pins b' q = pins b q"
    and keeps_cap: "keeps P b b' \<Longrightarrow> cap b' = cap b"
begin

text \<open>
  Two states that a client cannot tell apart except at the pages of \<open>P\<close>.
\<close>

definition same_but :: "PageId set \<Rightarrow> 'b \<Rightarrow> 'b \<Rightarrow> bool" where
  "same_but P b b' \<longleftrightarrow> cap b' = cap b \<and> pins b' = pins b \<and> (\<forall>q. valid b q \<longrightarrow> valid b' q) \<and>
     (\<forall>q c. q \<notin> P \<longrightarrow> valid b q \<longrightarrow> cont b q = Some c \<longrightarrow> cont b' q = Some c)"

lemma same_but_refl: "same_but P b b"
  by (simp add: same_but_def)

lemma same_but_trans: "same_but P b b' \<Longrightarrow> same_but Q b' b'' \<Longrightarrow> same_but (P \<union> Q) b b''"
  by (auto simp: same_but_def)

lemma same_but_mono: "same_but P b b' \<Longrightarrow> P \<subseteq> Q \<Longrightarrow> same_but Q b b'"
  by (auto simp: same_but_def)

text \<open>Fetch a page, change its bytes, release it as dirty.\<close>

lemma read_modify_write:
  assumes b: "invar b" and v: "valid b p" and c: "cont b p = Some c" and room: "card {q. 0 < pins b q} < cap b"
  obtains f b1 where "fetch p b = (Inr (Some f), b1)" and "data b1 f = c"
    and "\<And>c'. length c' = PAGE_SIZE \<Longrightarrow>
      \<exists>b2. unpin p True (store f c' b1) = (True, b2) \<and> invar b2 \<and> cont b2 p = Some c' \<and> same_but {p} b b2"
proof -
  from fetch_law [OF assms] obtain f b1 where f: "fetch p b = (Inr (Some f), b1)" "invar b1" "frame b1 p = Some f"
    "data b1 f = c" "pins b1 p = pins b p + 1" and k1: "keeps {p} b b1" by blast
  have p1: "0 < pins b1 p" using f(5) pins_nonneg [OF b, of p] by simp
  have "\<exists>b2. unpin p True (store f c' b1) = (True, b2) \<and> invar b2 \<and> cont b2 p = Some c' \<and> same_but {p} b b2"
    if l: "length c' = PAGE_SIZE" for c'
  proof -
    let ?s = "store f c' b1"
    have s: "invar ?s" "frame ?s p = Some f" "cont ?s p = Some c'" "pins ?s p = pins b1 p" and ks: "keeps {p} b1 ?s"
      using store_law [OF f(2,3) p1 l] by blast+
    from unpin_law [OF s(1,2), of True] s(4) p1 obtain b2 where
      u: "unpin p True ?s = (True, b2)" "invar b2" "cont b2 p = cont ?s p" "pins b2 p = pins ?s p - 1"
      and ku: "keeps {p} ?s b2" by auto
    have "pins b2 = pins b"
    proof
      fix q show "pins b2 q = pins b q"
        using keeps_pins [OF k1, of q] keeps_pins [OF ks, of q] keeps_pins [OF ku, of q] u(4) s(4) f(5)
        by (cases "q = p") auto
    qed
    moreover have "valid b2 q" if "valid b q" for q
      using keeps_valid [OF ku keeps_valid [OF ks keeps_valid [OF k1 that]]] .
    moreover have "cont b2 q = Some x" if "q \<noteq> p" "valid b q" "cont b q = Some x" for q x
    proof -
      have q: "q \<notin> {p}" using that(1) by simp
      have v1: "valid b1 q" and vs: "valid ?s q" using keeps_valid [OF k1 that(2)] keeps_valid [OF ks] by auto
      have "cont b1 q = Some x" using keeps_cont [OF k1 q that(2,3)] .
      then have "cont ?s q = Some x" using keeps_cont [OF ks q v1] by simp
      then show ?thesis using keeps_cont [OF ku q vs] by simp
    qed
    moreover have "cap b2 = cap b" using keeps_cap [OF k1] keeps_cap [OF ks] keeps_cap [OF ku] by simp
    ultimately have "same_but {p} b b2" by (simp add: same_but_def)
    with u s(3) show ?thesis by auto
  qed
  with f show thesis by (intro that)
qed

text \<open>Fetch a page, read it, release it.\<close>

lemma read_only:
  assumes b: "invar b" and v: "valid b p" and c: "cont b p = Some c" and room: "card {q. 0 < pins b q} < cap b"
  obtains f b1 b2 where "fetch p b = (Inr (Some f), b1)" and "data b1 f = c" and "unpin p False b1 = (True, b2)"
    and "invar b2" and "same_but {} b b2"
proof -
  from fetch_law [OF assms] obtain f b1 where f: "fetch p b = (Inr (Some f), b1)" "invar b1" "frame b1 p = Some f"
    "data b1 f = c" "pins b1 p = pins b p + 1" "clean b p \<longrightarrow> clean b1 p" "cont b1 p = Some c" and k1: "keeps {p} b b1"
    by blast
  have p1: "0 < pins b1 p" using f(5) pins_nonneg [OF b, of p] by simp
  have "clean b1 p \<or> 1 < pins b1 p"
    using unpinned_clean [OF b, of p] f(5,6) pins_nonneg [OF b, of p] by (cases "pins b p = 0") auto
  with unpin_law [OF f(2,3) p1, of False] obtain b2 where
    u: "unpin p False b1 = (True, b2)" "invar b2" "cont b2 p = cont b1 p" "pins b2 p = pins b1 p - 1"
    and ku: "keeps {p} b1 b2" by auto
  have "pins b2 = pins b"
  proof
    fix q show "pins b2 q = pins b q"
      using keeps_pins [OF k1, of q] keeps_pins [OF ku, of q] u(4) f(5) by (cases "q = p") auto
  qed
  moreover have "cont b2 q = Some x" if "valid b q" "cont b q = Some x" for q x
  proof (cases "q = p")
    case True
    with that(2) c f(7) u(3) show ?thesis by simp
  next
    case False
    then have q: "q \<notin> {p}" by simp
    show ?thesis using keeps_cont [OF ku q keeps_valid [OF k1 that(1)] keeps_cont [OF k1 q that]] .
  qed
  ultimately have "same_but {} b b2"
    using keeps_valid [OF ku keeps_valid [OF k1]] keeps_cap [OF k1] keeps_cap [OF ku] by (simp add: same_but_def)
  with f u show thesis by (intro that)
qed

end

interpretation pool: page_pool bpm_inv "\<lambda>b. valid_pid (disk b)" content pin_of "\<lambda>b. map_of (page_table b)"
    "\<lambda>b f. pg_data (pages b ! f)" pool_size synced pool_frame fetch_page set_data unpin_page
proof unfold_locales
  fix b p c
  assume b: "bpm_inv b" and v: "valid_pid (disk b) p" and c: "content b p = Some c"
    and room: "card {q. 0 < pin_of b q} < pool_size b"
  have "\<not> all_pinned b" using pinned_pages_all [OF b] room by (simp add: pinned_pages_def)
  with fetch_page_ok [OF b v c] obtain f b' where "fetch_page p b = (Inr (Some f), b')" "fetched p c f b b'" by metis
  then show "\<exists>f b'. fetch_page p b = (Inr (Some f), b') \<and> bpm_inv b' \<and> map_of (page_table b') p = Some f \<and>
      pg_data (pages b' ! f) = c \<and> content b' p = Some c \<and> pin_of b' p = pin_of b p + 1 \<and>
      (synced b p \<longrightarrow> synced b' p) \<and> pool_frame {p} b b'"
    by (auto simp: fetched_def content_def)
next
  fix b p f and c :: bytes
  assume b: "bpm_inv b" "map_of (page_table b) p = Some f" "0 < pin_of b p" "length c = PAGE_SIZE"
  have "f < length (pages b)" using b(1,2) by (rule resident_facts)
  then show "bpm_inv (set_data f c b) \<and> map_of (page_table (set_data f c b)) p = Some f \<and>
      pg_data (pages (set_data f c b) ! f) = c \<and> content (set_data f c b) p = Some c \<and>
      pin_of (set_data f c b) p = pin_of b p \<and> pool_frame {p} b (set_data f c b)"
    using set_data_ok [OF b] b(2) by simp
next
  fix b p f dirty
  assume b: "bpm_inv b" "map_of (page_table b) p = Some f" "0 < pin_of b p" "dirty \<or> synced b p \<or> 1 < pin_of b p"
  then obtain b' where "unpin_page p dirty b = (True, b')" "bpm_inv b'" "pool_frame {p} b b'"
    "content b' p = content b p" "pin_of b' p = pin_of b p - 1" "dirty \<or> synced b p \<longrightarrow> synced b' p"
    using unpin_page_ok [OF b] by metis
  then show "\<exists>b'. unpin_page p dirty b = (True, b') \<and> bpm_inv b' \<and> content b' p = content b p \<and>
      pin_of b' p = pin_of b p - 1 \<and> (dirty \<or> synced b p \<longrightarrow> synced b' p) \<and> pool_frame {p} b b'" by blast
next
  fix b p
  show "bpm_inv b \<Longrightarrow> 0 \<le> pin_of b p" by (rule pin_of_nonneg)
  show "synced b p" if b: "bpm_inv b" and z: "pin_of b p = 0"
    unfolding synced_def
  proof (intro allI impI)
    fix f
    assume m: "map_of (page_table b) p = Some f"
    with z have "pg_pin (pages b ! f) = 0" by (simp add: pin_of_def)
    with bpm_invD(6) [OF b] map_of_SomeD [OF m]
    show "pg_dirty (pages b ! f) \<or> dpage (disk b) p = Some (pg_data (pages b ! f))"
      by (auto elim: sync_okD)
  qed
qed (auto simp: pool_frame_def valid_pid_def)

section \<open>The pool as a store of pages\<close>

text \<open>
  The specification: the content of every page that exists, the number of pins of each page,
  the pages changed by a client that has not yet said so, and the next page number of each file.
\<close>

record store =
  st_page :: "PageId \<rightharpoonup> bytes"
  st_pins :: "PageId \<Rightarrow> int"
  st_changed :: "PageId set"
  st_next :: "int \<Rightarrow> int"

datatype pool_op = PFetch PageId | PStore PageId bytes | PUnpin PageId bool | PFlush PageId | PFlushAll int
  | PDelete PageId | PNew int

datatype pool_obs = OPage bytes | ONull | OBool bool | OUnit | ONew PageId bytes

definition st_full :: "nat \<Rightarrow> store \<Rightarrow> bool" where
  "st_full n s \<longleftrightarrow> card {q. 0 < st_pins s q} = n"

text \<open>The discipline of the clients.\<close>

fun st_allowed :: "int set \<Rightarrow> pool_op \<Rightarrow> store \<Rightarrow> bool" where
  "st_allowed F (PFetch p) s \<longleftrightarrow> st_page s p \<noteq> None"
| "st_allowed F (PStore p c) s \<longleftrightarrow> 0 < st_pins s p \<and> length c = PAGE_SIZE"
| "st_allowed F (PUnpin p dirty) s \<longleftrightarrow> st_page s p \<noteq> None \<and> (dirty \<or> p \<notin> st_changed s \<or> 1 < st_pins s p)"
| "st_allowed F (PFlush p) s \<longleftrightarrow> 0 < st_pins s p"
| "st_allowed F (PFlushAll fd) s \<longleftrightarrow> True"
| "st_allowed F (PDelete p) s \<longleftrightarrow> 0 < st_pins s p \<or> st_page s p \<noteq> None"
| "st_allowed F (PNew fd) s \<longleftrightarrow> fd \<in> F \<and> page_ok (st_next s fd)"

fun st_step :: "nat \<Rightarrow> pool_op \<Rightarrow> store \<Rightarrow> pool_obs \<times> store" where
  "st_step n (PFetch p) s =
     (if st_pins s p = 0 \<and> st_full n s then (ONull, s)
      else (OPage (the (st_page s p)), s\<lparr>st_pins := (st_pins s)(p := st_pins s p + 1)\<rparr>))"
| "st_step n (PStore p c) s = (OUnit, s\<lparr>st_page := (st_page s)(p \<mapsto> c), st_changed := insert p (st_changed s)\<rparr>)"
| "st_step n (PUnpin p dirty) s =
     (if st_pins s p = 0 then (OBool False, s)
      else (OBool True, s\<lparr>st_pins := (st_pins s)(p := st_pins s p - 1),
              st_changed := (if dirty then st_changed s - {p} else st_changed s)\<rparr>))"
| "st_step n (PFlush p) s = (OBool True, s\<lparr>st_changed := st_changed s - {p}\<rparr>)"
| "st_step n (PFlushAll fd) s = (OUnit, s)"
| "st_step n (PDelete p) s = (OBool (st_pins s p = 0), s)"
| "st_step n (PNew fd) s =
     (if st_full n s then (ONull, s)
      else let p = PageId fd (st_next s fd)
           in (ONew p (memset PAGE_SIZE 0),
               s\<lparr>st_page := (st_page s)(p \<mapsto> memset PAGE_SIZE 0), st_pins := (st_pins s)(p := 1),
                 st_changed := st_changed s - {p}, st_next := (st_next s)(fd := st_next s fd + 1)\<rparr>))"

text \<open>The same calls on the buffer pool.\<close>

fun pool_step :: "pool_op \<Rightarrow> bpm \<Rightarrow> (pool_obs, bpm) res" where
  "pool_step (PFetch p) b =
     bindE (fetch_page p b) (\<lambda>r b. (Inr (case r of None \<Rightarrow> ONull | Some f \<Rightarrow> OPage (pg_data (pages b ! f))), b))"
| "pool_step (PStore p c) b = (Inr OUnit, set_data (the (map_of (page_table b) p)) c b)"
| "pool_step (PUnpin p dirty) b = (case unpin_page p dirty b of (r, b) \<Rightarrow> (Inr (OBool r), b))"
| "pool_step (PFlush p) b = bindE (flush_page p b) (\<lambda>r b. (Inr (OBool r), b))"
| "pool_step (PFlushAll fd) b = bindE (flush_all_pages fd b) (\<lambda>_ b. (Inr OUnit, b))"
| "pool_step (PDelete p) b = bindE (delete_page p b) (\<lambda>r b. (Inr (OBool r), b))"
| "pool_step (PNew fd) b =
     bindE (new_page fd b) (\<lambda>r b. (Inr (case r of None \<Rightarrow> ONull | Some (p, f) \<Rightarrow> ONew p (pg_data (pages b ! f))), b))"

section \<open>The pool implements the store\<close>

definition represents :: "int set \<Rightarrow> bpm \<Rightarrow> store \<Rightarrow> bool" where
  "represents F b s \<longleftrightarrow> bpm_inv b \<and> pin_of b = st_pins s \<and> fd2pageno (disk b) = st_next s \<and>
     (\<forall>p c. st_page s p = Some c \<longrightarrow> valid_pid (disk b) p \<and> content b p = Some c \<and> pid_no p < st_next s (pid_fd p)) \<and>
     fst ` set (page_table b) \<subseteq> dom (st_page s) \<and>
     (\<forall>p. p \<notin> st_changed s \<longrightarrow> synced b p) \<and>
     (\<forall>fd \<in> F. 0 \<le> fd \<and> fd < MAX_FD \<and> (\<forall>n. page_ok n \<longrightarrow> valid_pid (disk b) (PageId fd n)))"

lemma representsD:
  assumes "represents F b s"
  shows "bpm_inv b" "pin_of b = st_pins s" "fd2pageno (disk b) = st_next s"
    "\<And>p c. st_page s p = Some c \<Longrightarrow> valid_pid (disk b) p \<and> content b p = Some c"
    "\<And>p. p \<notin> st_changed s \<Longrightarrow> synced b p"
  using assms by (auto simp: represents_def)

lemma represents_table: "represents F b s \<Longrightarrow> fst ` set (page_table b) \<subseteq> dom (st_page s)"
  by (simp add: represents_def)

lemma represents_files:
  "represents F b s \<Longrightarrow> fd \<in> F \<Longrightarrow> 0 \<le> fd \<and> fd < MAX_FD \<and> (page_ok n \<longrightarrow> valid_pid (disk b) (PageId fd n))"
  by (simp add: represents_def)

lemma represents_bound: "represents F b s \<Longrightarrow> st_page s p = Some c \<Longrightarrow> pid_no p < st_next s (pid_fd p)"
  by (simp add: represents_def)

lemma pageno_disk:
  "fd2pageno (snd (write_page fd n buf d)) = fd2pageno d" "fd2pageno (snd (read_page fd n k d)) = fd2pageno d"
  "fd2pageno (snd (write_log buf d)) = fd2pageno d"
  by (auto simp: write_page_def read_page_def write_log_def open_log_def open_file_def bindE_def Let_def
      split: prod.split sum.split)

lemma pageno_flush_log: "fd2pageno (disk (snd (flush_log b))) = fd2pageno (disk b)"
  using pageno_disk(3) [of _ "disk b"]
  by (auto simp: flush_log_def flush_log_to_disk_def split: option.split prod.split sum.split) (metis snd_conv)+

lemma pageno_write_out: "fd2pageno (disk (snd (write_out p c b))) = fd2pageno (disk b)"
  using pageno_disk(1) [of "pid_fd p" "pid_no p" c "disk b"] by (auto simp: write_out_def split: prod.split)

lemma pageno_update_page: "fd2pageno (disk (snd (update_page f p b))) = fd2pageno (disk b)"
proof -
  obtain r b1 where l: "(case log_mgr b of None \<Rightarrow> (Inr (), b)
      | Some lm \<Rightarrow> if get_page_lsn (pages b ! f) > get_persist_lsn lm then flush_log b else (Inr (), b)) = (r, b1)"
    by force
  then have e1: "fd2pageno (disk b1) = fd2pageno (disk b)"
    using pageno_flush_log [of b] by (auto split: option.splits if_splits) 
  obtain w b2 where w: "write_out (pg_id (pages b1 ! f)) (pg_data (pages b1 ! f)) b1 = (w, b2)" by force
  then have e2: "fd2pageno (disk b2) = fd2pageno (disk b1)"
    using pageno_write_out [of "pg_id (pages b1 ! f)" "pg_data (pages b1 ! f)" b1] by simp
  show ?thesis
    using e1 e2 by (cases r; cases w) (auto simp: update_page_def l w upd_page_def Let_def)
qed

lemma pageno_find_victim: "disk (snd (find_victim_page b)) = disk b"
  by (auto simp: find_victim_page_def split: list.split prod.split)

lemma pageno_fetch: "fd2pageno (disk (snd (fetch_page p b))) = fd2pageno (disk b)"
proof (cases "map_of (page_table b) p")
  case None
  obtain v b1 where v: "find_victim_page b = (v, b1)" by force
  then have d1: "disk b1 = disk b" using pageno_find_victim [of b] by simp
  show ?thesis
  proof (cases v)
    case (Some f)
    obtain r b2 where u: "update_page f p b1 = (r, b2)" by force
    then have "fd2pageno (disk b2) = fd2pageno (disk b)" using pageno_update_page [of f p b1] d1 by simp
    then show ?thesis
      using None v Some u pageno_disk(2) [of "pid_fd p" "pid_no p" PAGE_SIZE "disk b2"]
      by (cases r) (auto simp: fetch_page_def split: prod.split sum.split)
  qed (use None v d1 in \<open>simp add: fetch_page_def\<close>)
qed (simp add: fetch_page_def)

lemma pageno_unpin: "fd2pageno (disk (snd (unpin_page p dirty b))) = fd2pageno (disk b)"
  by (auto simp: unpin_page_def upd_page_def Let_def split: option.split)

lemma pageno_flush_page: "fd2pageno (disk (snd (flush_page p b))) = fd2pageno (disk b)"
proof (cases "map_of (page_table b) p")
  case (Some f)
  then show ?thesis using pageno_write_out [of p "pg_data (pages b ! f)" b]
    by (auto simp: flush_page_def upd_page_def bindE_def split: prod.split sum.split)
qed (simp add: flush_page_def)

lemma pageno_flush_entries: "fd2pageno (disk (snd (flush_entries es fd b))) = fd2pageno (disk b)"
proof (induction es fd b rule: flush_entries.induct)
  case (2 p f es fd b)
  obtain r b1 where w: "write_out (PageId fd (pid_no p)) (pg_data (pages b ! f)) b = (r, b1)" by force
  then have "fd2pageno (disk b1) = fd2pageno (disk b)"
    using pageno_write_out [of "PageId fd (pid_no p)" "pg_data (pages b ! f)" b] by simp
  with 2 w show ?case by (cases r) (auto simp: upd_page_def)
qed simp

lemma pageno_delete: "fd2pageno (disk (snd (delete_page p b))) = fd2pageno (disk b)"
proof (cases "map_of (page_table b) p")
  case (Some f)
  then show ?thesis using pageno_write_out [of "pg_id (pages b ! f)" "pg_data (pages b ! f)" b]
    by (auto simp: delete_page_def upd_page_def bindE_def Let_def split: prod.split sum.split)
qed (simp add: delete_page_def)

text \<open>
  A step of the pool that touches only the page \<open>p\<close> preserves the representation when it does to
  \<open>p\<close> what the store does.
\<close>

lemma represents_step:
  assumes r: "represents F b s" and k: "pool_frame {p} b b'" and i: "bpm_inv b'"
    and t: "st_page t = (st_page s)(p \<mapsto> c)" "st_pins t = (st_pins s)(p := n)" "st_next t = fd2pageno (disk b')"
      "st_changed s - {p} \<subseteq> st_changed t"
    and c: "content b' p = Some c" "pin_of b' p = n" "p \<notin> st_changed t \<Longrightarrow> synced b' p"
    and v: "valid_pid (disk b') p" "pid_no p < fd2pageno (disk b') (pid_fd p)"
    and nx: "\<And>fd. st_next s fd \<le> fd2pageno (disk b') fd"
  shows "represents F b' t"
proof -
  have pins: "pin_of b' = st_pins t"
    using k t(2) c(2) representsD(2) [OF r] by (auto simp: pool_frame_def fun_eq_iff)
  have pages: "valid_pid (disk b') q \<and> content b' q = Some x \<and> pid_no q < st_next t (pid_fd q)"
    if "st_page t q = Some x" for q x
  proof (cases "q = p")
    case False
    with that t(1) have q: "valid_pid (disk b) q" "content b q = Some x" "pid_no q < st_next s (pid_fd q)"
      using r by (auto simp: represents_def)
    with k False nx [of "pid_fd q"] t(3) show ?thesis by (auto simp: pool_frame_def valid_pid_def)
  qed (use that t c v in auto)
  have tab: "fst ` set (page_table b') \<subseteq> dom (st_page t)"
  proof -
    have "fst ` set (page_table b') \<subseteq> dom (st_page s) \<union> {p}"
      using pool_frame_table [OF k] represents_table [OF r] by blast
    then show ?thesis using t(1) by simp
  qed
  have syn: "synced b' q" if "q \<notin> st_changed t" for q
  proof (cases "q = p")
    case False
    then have s: "synced b q" using representsD(5) [OF r, of q] that t(4) by auto
    show ?thesis
    proof (cases "pin_of b q > 0")
      case True
      with k s False show ?thesis by (simp add: pool_frame_def)
    next
      case z: False
      with pin_of_nonneg [OF representsD(1) [OF r], of q] k False have "pin_of b' q = 0" by (auto simp: pool_frame_def)
      with i show ?thesis by (rule pool.unpinned_clean)
    qed
  qed (use c(3) that in simp)
  have "\<forall>fd \<in> F. 0 \<le> fd \<and> fd < MAX_FD \<and> (\<forall>n. page_ok n \<longrightarrow> valid_pid (disk b') (PageId fd n))"
    using r k by (auto simp: represents_def pool_frame_def)
  with i pins t(3) pages tab syn show ?thesis by (simp add: represents_def)
qed

lemma represents_same:
  assumes r: "represents F b s" and k: "pool_frame {} b b'" and i: "bpm_inv b'"
    and n: "fd2pageno (disk b') = fd2pageno (disk b)"
    and x: "\<And>q. q \<in> X \<Longrightarrow> synced b' q"
  shows "represents F b' (s\<lparr>st_changed := st_changed s - X\<rparr>)"
proof -
  have pins: "pin_of b' = st_pins s" using k representsD(2) [OF r] by (auto simp: pool_frame_def fun_eq_iff)
  have syn: "synced b' q" if "q \<notin> st_changed s - X" for q
  proof (cases "q \<in> X \<or> pin_of b' q = 0")
    case True
    with x i show ?thesis by (auto intro: pool.unpinned_clean)
  next
    case False
    then have "synced b q" "pin_of b q > 0"
      using representsD(5) [OF r, of q] that pin_of_nonneg [OF i, of q] k by (auto simp: pool_frame_def)
    with k show ?thesis by (simp add: pool_frame_def)
  qed
  have tab: "fst ` set (page_table b') \<subseteq> dom (st_page s)"
    using pool_frame_table [OF k] represents_table [OF r] by blast
  have pages: "valid_pid (disk b') q \<and> content b' q = Some x \<and> pid_no q < st_next s (pid_fd q)"
    if "st_page s q = Some x" for q x
  proof -
    have "valid_pid (disk b) q" "content b q = Some x" "pid_no q < st_next s (pid_fd q)"
      using r that by (simp_all add: represents_def)
    with k show ?thesis by (simp add: pool_frame_def valid_pid_def)
  qed
  have files: "0 \<le> fd \<and> fd < MAX_FD \<and> (page_ok m \<longrightarrow> valid_pid (disk b') (PageId fd m))" if "fd \<in> F" for fd m
    using represents_files [OF r that] k by (simp add: pool_frame_def)
  show ?thesis
    using i pins n representsD(3) [OF r] pages tab syn files by (simp add: represents_def)
qed

lemma find_victim_full: "bpm_inv b \<Longrightarrow> all_pinned b \<Longrightarrow> find_victim_page b = (None, b)"
  by (rule find_victim_cases [of b]) (auto simp: all_pinned_def)

lemma fetch_full:
  assumes "bpm_inv b" and "all_pinned b" and "pin_of b p = 0"
  shows "fetch_page p b = (Inr None, b)"
proof (cases "map_of (page_table b) p")
  case None
  then show ?thesis using find_victim_full [OF assms(1,2)] by (simp add: fetch_page_def)
next
  case (Some f)
  then have "f < pool_size b" using table_okD(1) [OF bpm_invD(3) [OF assms(1)] map_of_SomeD] by blast
  with assms(2,3) Some show ?thesis by (auto simp: all_pinned_def pin_of_def)
qed

lemma represents_full: "represents F b s \<Longrightarrow> st_full (pool_size b) s \<longleftrightarrow> all_pinned b"
  using pinned_pages_all(2) [of b] by (simp add: representsD st_full_def pinned_pages_def)

lemma represents_pinned:
  assumes r: "represents F b s" and p: "0 < st_pins s p"
  obtains f c where "map_of (page_table b) p = Some f" and "st_page s p = Some c" and "content b p = Some c"
    and "valid_pid (disk b) p" and "pid_no p < fd2pageno (disk b) (pid_fd p)" and "0 < pin_of b p"
proof -
  have pin: "0 < pin_of b p" using p representsD(2) [OF r] by simp
  then obtain f where f: "map_of (page_table b) p = Some f"
    by (cases "map_of (page_table b) p") (auto simp: pin_of_def)
  then have "p \<in> fst ` set (page_table b)" by (force dest: map_of_SomeD)
  then obtain c where "st_page s p = Some c" using represents_table [OF r] by blast
  with f pin r show thesis by (intro that) (auto simp: represents_def)
qed

definition simulates :: "int set \<Rightarrow> pool_op \<Rightarrow> bpm \<Rightarrow> store \<Rightarrow> bool" where
  "simulates F op b s \<longleftrightarrow> (\<exists>b'. pool_step op b = (Inr (fst (st_step (pool_size b) op s)), b') \<and>
     represents F b' (snd (st_step (pool_size b) op s)) \<and> pool_size b' = pool_size b \<and>
     (\<forall>q. 0 < pin_of b q \<longrightarrow> map_of (page_table b') q = map_of (page_table b) q))"

lemma sim_fetch:
  assumes r: "represents F b s" and a: "st_allowed F (PFetch p) s"
  shows "simulates F (PFetch p) b s"
proof -
  note rd = representsD [OF r]
  obtain c where c: "st_page s p = Some c" using a by auto
  then have vc: "valid_pid (disk b) p" "content b p = Some c" "pid_no p < fd2pageno (disk b) (pid_fd p)"
    using r by (auto simp: represents_def)
  show ?thesis
  proof (cases "st_pins s p = 0 \<and> st_full (pool_size b) s")
    case True
    then have "fetch_page p b = (Inr None, b)" using rd(1,2) represents_full [OF r] by (intro fetch_full) simp_all
    with True r show ?thesis by (simp add: simulates_def)
  next
    case False
    from rd(1) vc(1,2) show ?thesis
    proof (cases rule: fetch_page_ok)
      case full
      with fun_cong [OF rd(2), of p] have "st_pins s p = 0" by (simp add: pin_of_def)
      with full(2) False represents_full [OF r] show ?thesis by simp
    next
      case (ok f b')
      let ?t = "s\<lparr>st_pins := (st_pins s)(p := st_pins s p + 1)\<rparr>"
      have pn: "fd2pageno (disk b') = st_next s" using pageno_fetch [of p b] ok(1) rd(3) by simp
      have k: "pool_frame {p} b b'" "bpm_inv b'" using ok(2) by (simp_all add: fetched_def)
      have "represents F b' ?t"
        by (rule represents_step [OF r k, of _ c])
          (use ok(2) c vc pn rd in \<open>auto simp: fetched_def content_def pool_frame_def fun_upd_idem\<close>)
      with False ok c show ?thesis by (simp add: simulates_def fetched_def pool_frame_def)
    qed
  qed
qed

lemma sim_store:
  assumes r: "represents F b s" and a: "st_allowed F (PStore p c) s"
  shows "simulates F (PStore p c) b s"
proof -
  note rd = representsD [OF r]
  have len: "length c = PAGE_SIZE" and p: "0 < st_pins s p" using a by simp_all
  from r p obtain f c0 where m: "map_of (page_table b) p = Some f" and v: "valid_pid (disk b) p"
    "pid_no p < fd2pageno (disk b) (pid_fd p)" and pin: "0 < pin_of b p" by (rule represents_pinned)
  note so = set_data_ok [OF rd(1) m pin len]
  let ?t = "s\<lparr>st_page := (st_page s)(p \<mapsto> c), st_changed := insert p (st_changed s)\<rparr>"
  have "represents F (set_data f c b) ?t"
    by (rule represents_step [OF r so(4,1), of _ c]) (use so v rd pin in \<open>auto simp: fun_eq_iff\<close>)
  with m show ?thesis by (simp add: simulates_def)
qed

lemma sim_unpin:
  assumes r: "represents F b s" and a: "st_allowed F (PUnpin p dirty) s"
  shows "simulates F (PUnpin p dirty) b s"
proof (cases "st_pins s p = 0")
  case True
  then have "unpin_page p dirty b = (False, b)" using representsD [OF r] by (intro unpin_page_fails) simp_all
  with True r show ?thesis by (simp add: simulates_def)
next
  case False
  note rd = representsD [OF r]
  have p: "0 < st_pins s p" using False pin_of_nonneg [OF rd(1), of p] rd(2) by simp
  from r p obtain f c where m: "map_of (page_table b) p = Some f" and c: "st_page s p = Some c" "content b p = Some c"
    and v: "valid_pid (disk b) p" "pid_no p < fd2pageno (disk b) (pid_fd p)" and pin: "0 < pin_of b p"
    by (rule represents_pinned)
  have "dirty \<or> synced b p \<or> 1 < pin_of b p" using a rd(2,5) by auto
  with rd(1) m pin obtain b' where u: "unpin_page p dirty b = (True, b')" "bpm_inv b'" "pool_frame {p} b b'"
    "content b' p = content b p" "pin_of b' p = pin_of b p - 1" "dirty \<or> synced b p \<Longrightarrow> synced b' p"
    by (rule unpin_page_ok) blast
  have pn: "fd2pageno (disk b') = st_next s" using pageno_unpin [of p dirty b] u(1) rd(3) by simp
  let ?t = "s\<lparr>st_pins := (st_pins s)(p := st_pins s p - 1), st_changed := (if dirty then st_changed s - {p} else st_changed s)\<rparr>"
  have syn: "synced b' p" if "p \<notin> st_changed ?t" using that u(6) rd(5) by (cases dirty) auto
  have vp: "valid_pid (disk b') p" using u(3) v(1) by (simp add: pool_frame_def)
  have "represents F b' ?t"
    by (rule represents_step [OF r u(3,2), of _ c]) (use u(4,5) syn vp c v pn rd in \<open>auto simp: fun_upd_idem\<close>)
  with False u(1,3) show ?thesis by (simp add: simulates_def pool_frame_def)
qed

lemma sim_flush:
  assumes r: "represents F b s" and a: "st_allowed F (PFlush p) s"
  shows "simulates F (PFlush p) b s"
proof -
  note rd = representsD [OF r]
  from a have p: "0 < st_pins s p" by simp
  from r p obtain f c where m: "map_of (page_table b) p = Some f" and v: "valid_pid (disk b) p" "content b p = Some c"
    and pin: "0 < pin_of b p" by (rule represents_pinned)
  from rd(1) m obtain b' where f: "flush_page p b = (Inr True, b')" "bpm_inv b'" "pool_frame {} b b'"
    "dpage (disk b') p = content b p" by (rule flush_page_ok)
  have m': "map_of (page_table b') p = Some f" "content b' p = content b p"
    using f(3) pin m v by (simp_all add: pool_frame_def valid_pid_def)
  then have "synced b' p" using f(4) m' by (simp add: synced_def content_def)
  moreover have "fd2pageno (disk b') = fd2pageno (disk b)" using pageno_flush_page [of p b] f(1) by simp
  ultimately have "represents F b' (s\<lparr>st_changed := st_changed s - {p}\<rparr>)"
    using r f(3,2) by (intro represents_same) auto
  with f show ?thesis by (simp add: simulates_def pool_frame_def)
qed

lemma sim_flush_all:
  assumes r: "represents F b s"
  shows "simulates F (PFlushAll fd) b s"
proof -
  from representsD(1) [OF r] obtain b' where f: "flush_all_pages fd b = (Inr (), b')" "bpm_inv b'" "pool_frame {} b b'"
    by (rule flush_all_ok [of b fd])
  have "fd2pageno (disk b') = fd2pageno (disk b)"
    using pageno_flush_entries [of "page_table b" fd b] f(1) by (simp add: flush_all_pages_def)
  with r f have "represents F b' (s\<lparr>st_changed := st_changed s - {}\<rparr>)" by (intro represents_same) auto
  with f show ?thesis by (simp add: simulates_def pool_frame_def)
qed

lemma sim_delete:
  assumes r: "represents F b s"
  shows "simulates F (PDelete p) b s"
proof (cases "map_of (page_table b) p")
  case None
  then have "st_pins s p = 0" using fun_cong [OF representsD(2) [OF r], of p] by (simp add: pin_of_def)
  with None r show ?thesis by (simp add: simulates_def delete_page_def)
next
  case (Some f)
  then have pin: "st_pins s p = pg_pin (pages b ! f)" using fun_cong [OF representsD(2) [OF r], of p] by (simp add: pin_of_def)
  show ?thesis
  proof (cases "st_pins s p = 0")
    case False
    then have "0 < pg_pin (pages b ! f)" using pin resident_facts(3) [OF representsD(1) [OF r] Some] by simp
    with Some False r show ?thesis by (simp add: simulates_def delete_page_def)
  next
    case True
    with representsD(1,2) [OF r] Some obtain b' where f: "delete_page p b = (Inr True, b')" "bpm_inv b'" "pool_frame {} b b'"
      by (metis delete_page_ok)
    have "fd2pageno (disk b') = fd2pageno (disk b)" using pageno_delete [of p b] f(1) by simp
    with r f have "represents F b' (s\<lparr>st_changed := st_changed s - {}\<rparr>)" by (intro represents_same) auto
    with f True show ?thesis by (simp add: simulates_def pool_frame_def)
  qed
qed

lemma sim_new:
  assumes r: "represents F b s" and a: "st_allowed F (PNew fd) s"
  shows "simulates F (PNew fd) b s"
proof -
  note rd = representsD [OF r]
  let ?n = "st_next s fd" and ?p = "PageId fd (st_next s fd)"
  have fd: "0 \<le> fd" "fd < MAX_FD" and v: "valid_pid (disk b) ?p" and ok: "page_ok ?n"
    using represents_files [OF r, of fd ?n] a by auto
  have fresh: "st_page s ?p = None" using represents_bound [OF r, of ?p] by (cases "st_page s ?p") auto
  then have "?p \<notin> fst ` set (page_table b)" using represents_table [OF r] by auto
  then have new: "map_of (page_table b) ?p = None" by (simp add: map_of_eq_None_iff)
  have n: "?n = fd2pageno (disk b) fd" using rd(3) by simp
  show ?thesis
  proof (cases "st_full (pool_size b) s")
    case True
    then have "find_victim_page b = (None, b)" using rd(1) represents_full [OF r] by (intro find_victim_full) simp_all
    with True r show ?thesis by (simp add: simulates_def new_page_def)
  next
    case False
    from rd(1) fd n v new show ?thesis
    proof (cases rule: new_page_ok)
      case full
      with False represents_full [OF r] show ?thesis by simp
    next
      case (ok f b')
      let ?z = "memset PAGE_SIZE 0"
      let ?t = "s\<lparr>st_page := (st_page s)(?p \<mapsto> ?z), st_pins := (st_pins s)(?p := 1),
          st_changed := st_changed s - {?p}, st_next := (st_next s)(fd := ?n + 1)\<rparr>"
      have k: "pool_frame {?p} b b'" "bpm_inv b'" and z: "content b' ?p = Some ?z" "pin_of b' ?p = 1"
        "pg_data (pages b' ! f) = ?z"
        using ok(2) new by (auto simp: fetched_def content_def pin_of_def)
      have "represents F b' ?t"
        by (rule represents_step [OF r k, of _ ?z]) (use ok(3,4) z v k rd in \<open>auto simp: pool_frame_def\<close>)
      with False ok(1) z k show ?thesis by (simp add: simulates_def Let_def pool_frame_def)
    qed
  qed
qed

lemma pool_step_simulates:
  "represents F b s \<Longrightarrow> st_allowed F op s \<Longrightarrow> simulates F op b s"
  by (cases op) (auto intro: sim_fetch sim_store sim_unpin sim_flush sim_flush_all sim_delete sim_new
      simp del: st_allowed.simps)

section \<open>Runs\<close>

fun pool_run :: "pool_op list \<Rightarrow> bpm \<Rightarrow> (pool_obs list, bpm) res" where
  "pool_run [] b = (Inr [], b)"
| "pool_run (op # ops) b = bindE (pool_step op b) (\<lambda>x b. bindE (pool_run ops b) (\<lambda>xs b. (Inr (x # xs), b)))"

fun st_run :: "nat \<Rightarrow> pool_op list \<Rightarrow> store \<Rightarrow> pool_obs list \<times> store" where
  "st_run n [] s = ([], s)"
| "st_run n (op # ops) s = (case st_step n op s of (x, s) \<Rightarrow> case st_run n ops s of (xs, s) \<Rightarrow> (x # xs, s))"

fun st_allowed_run :: "int set \<Rightarrow> nat \<Rightarrow> pool_op list \<Rightarrow> store \<Rightarrow> bool" where
  "st_allowed_run F n [] s \<longleftrightarrow> True"
| "st_allowed_run F n (op # ops) s \<longleftrightarrow> st_allowed F op s \<and> st_allowed_run F n ops (snd (st_step n op s))"

lemma pins_positive_step:
  "0 < st_pins s q \<Longrightarrow> op \<notin> {PUnpin q True, PUnpin q False} \<Longrightarrow> st_allowed F op s \<Longrightarrow>
     0 < st_pins (snd (st_step n op s)) q"
  by (cases op) (auto simp: Let_def)

lemma pool_run_simulates:
  "represents F b s \<Longrightarrow> st_allowed_run F (pool_size b) ops s \<Longrightarrow>
   \<exists>b'. pool_run ops b = (Inr (fst (st_run (pool_size b) ops s)), b') \<and>
     represents F b' (snd (st_run (pool_size b) ops s)) \<and> pool_size b' = pool_size b \<and>
     (\<forall>q. 0 < st_pins s q \<longrightarrow> PUnpin q True \<notin> set ops \<longrightarrow> PUnpin q False \<notin> set ops \<longrightarrow>
        map_of (page_table b') q = map_of (page_table b) q)"
proof (induction ops arbitrary: b s)
  case Nil
  then show ?case by simp
next
  case (Cons op ops)
  obtain x t where st: "st_step (pool_size b) op s = (x, t)" by force
  from pool_step_simulates [OF Cons.prems(1), of op] Cons.prems(2) st obtain b1 where
    p: "pool_step op b = (Inr x, b1)" "represents F b1 t" "pool_size b1 = pool_size b"
      "\<forall>q. 0 < st_pins s q \<longrightarrow> map_of (page_table b1) q = map_of (page_table b) q" using representsD(2) [OF Cons.prems(1)] by (auto simp: simulates_def)
  from Cons.IH [OF p(2)] Cons.prems(2) st p(3) obtain b2 where
    "pool_run ops b1 = (Inr (fst (st_run (pool_size b) ops t)), b2)" "represents F b2 (snd (st_run (pool_size b) ops t))"
    "pool_size b2 = pool_size b"
    "\<forall>q. 0 < st_pins t q \<longrightarrow> PUnpin q True \<notin> set ops \<longrightarrow> PUnpin q False \<notin> set ops \<longrightarrow>
        map_of (page_table b2) q = map_of (page_table b1) q" by auto
  moreover have "0 < st_pins t q" if "0 < st_pins s q" "PUnpin q True \<notin> set (op # ops)" "PUnpin q False \<notin> set (op # ops)" for q
    using pins_positive_step [of s q op F "pool_size b"] that Cons.prems(2) st by auto
  ultimately show ?case using p st by (auto split: prod.splits)
qed

section \<open>The first state\<close>

definition store_init :: "(PageId \<rightharpoonup> bytes) \<Rightarrow> disk_manager \<Rightarrow> store" where
  "store_init P d = \<lparr>st_page = P, st_pins = (\<lambda>_. 0), st_changed = {}, st_next = fd2pageno d\<rparr>"

lemma bpm_inv_init:
  assumes "disk_inv d" and "\<And>l. lm = Some l \<Longrightarrow> log_inv (l, d)"
  shows "bpm_inv (BufferPoolManager_init n junk d lm)"
  using assms
  by (auto simp: bpm_inv_def env_ok_def frames_ok_def table_ok_def free_ok_def repl_ok_def sync_ok_def lru_evictable_def
      BufferPoolManager_init_def Page_init_def INVALID_PAGE_ID_def)

lemma represents_init:
  assumes "disk_inv d" and "\<And>l. lm = Some l \<Longrightarrow> log_inv (l, d)"
    and "\<And>p c. P p = Some c \<Longrightarrow> valid_pid d p \<and> dpage d p = Some c \<and> pid_no p < fd2pageno d (pid_fd p)"
    and "\<And>fd. fd \<in> F \<Longrightarrow> 0 \<le> fd \<and> fd < MAX_FD \<and> data_fd d fd"
  shows "represents F (BufferPoolManager_init n junk d lm) (store_init P d)"
proof -
  have "bpm_inv (BufferPoolManager_init n junk d lm)" using assms(1,2) by (rule bpm_inv_init)
  moreover have "pin_of (BufferPoolManager_init n junk d lm) = (\<lambda>_. 0)"
    by (simp add: fun_eq_iff pin_of_def BufferPoolManager_init_def)
  ultimately show ?thesis
    using assms(3,4)
    by (auto simp: represents_def store_init_def content_def synced_def valid_pid_def) (auto simp: BufferPoolManager_init_def)
qed

section \<open>Properties\<close>

text \<open>
  C2: the buffer pool implements a store of pages. For every sequence of fetch, write, unpin,
  flush, delete and new-page calls in which clients write only to pages they hold and release a
  page they changed as dirty, the pool gives exactly the answers of a plain store of pages with
  pin counts: whatever was evicted, written back and read again in between, a fetch returns
  the bytes last written to the page, a null pointer is returned exactly when the page is not
  held by anyone and every frame is pinned, and no call fails.
\<close>

theorem buffer_pool_implements_store:
  assumes "represents F b s" and "st_allowed_run F (pool_size b) ops s"
  shows "\<exists>b'. pool_run ops b = (Inr (fst (st_run (pool_size b) ops s)), b') \<and>
     represents F b' (snd (st_run (pool_size b) ops s))"
  using pool_run_simulates [OF assms] by blast

lemma pinned_upd: "{q. 0 < (f(p := n)) q} = (if 0 < n then insert p {q. 0 < f q} else {q. 0 < f q} - {p})"
  for n :: int
  by auto

lemma sample_data_fd: "data_fd sample_disk 3"
  by (simp add: data_fd_def sample_disk_eq LOG_FILE_NAME_def)

lemma sample_pool:
  "represents {3} (BufferPoolManager_init n 0 sample_disk (Some (LogManager_init 0))) (store_init Map.empty sample_disk)"
  using sample_data_fd sample_disk_inv sample_log_inv by (intro represents_init) (auto simp: MAX_FD_def)

text \<open>One frame only: the second page evicts the first, which is read back as it was written.\<close>

theorem buffer_pool_implements_store_witness:
  "\<exists>b'. pool_run [PNew 3, PStore (PageId 3 0) (memset PAGE_SIZE 5), PUnpin (PageId 3 0) True, PNew 3, PFetch (PageId 3 0),
         PUnpin (PageId 3 1) False, PFetch (PageId 3 0)]
       (BufferPoolManager_init 1 0 sample_disk (Some (LogManager_init 0))) =
     (Inr [ONew (PageId 3 0) (memset PAGE_SIZE 0), OUnit, OBool True, ONew (PageId 3 1) (memset PAGE_SIZE 0), ONull,
         OBool True, OPage (memset PAGE_SIZE 5)], b')"
proof -
  let ?ops = "[PNew 3, PStore (PageId 3 0) (memset PAGE_SIZE 5), PUnpin (PageId 3 0) True, PNew 3, PFetch (PageId 3 0),
         PUnpin (PageId 3 1) False, PFetch (PageId 3 0)]"
  let ?s = "store_init Map.empty sample_disk"
  have run: "fst (st_run 1 ?ops ?s) = [ONew (PageId 3 0) (memset PAGE_SIZE 0), OUnit, OBool True,
      ONew (PageId 3 1) (memset PAGE_SIZE 0), ONull, OBool True, OPage (memset PAGE_SIZE 5)]"
    and ok: "st_allowed_run {3} 1 ?ops ?s"
    by (simp_all add: store_init_def st_full_def Let_def page_ok_def pinned_upd sample_disk_eq fun_upd_same fun_upd_other
        del: fun_upd_apply)
  have "pool_size (BufferPoolManager_init 1 0 sample_disk (Some (LogManager_init 0))) = 1"
    by (simp add: BufferPoolManager_init_def)
  with buffer_pool_implements_store [OF sample_pool [of 1], of ?ops] ok run
  show ?thesis by (auto simp del: pool_run.simps st_run.simps st_allowed_run.simps)
qed



text \<open>
  C34: \<open>flush_all_pages\<close> makes a file durable. It writes every page of the file that is in the
  pool, changes the content of no page for the users of the pool, and afterwards the disk holds
  for every page of the file exactly what the pool holds.
\<close>

theorem flush_all_pages_durable:
  assumes "bpm_inv b"
  shows "\<exists>b'. flush_all_pages fd b = (Inr (), b') \<and> bpm_inv b' \<and>
     (\<forall>p c. page_ok (pid_no p) \<longrightarrow> content b p = Some c \<longrightarrow>
        content b' p = Some c \<and> (pid_fd p = fd \<longrightarrow> dpage (disk b') p = Some c))"
proof -
  from assms obtain b' where f: "flush_all_pages fd b = (Inr (), b')" "bpm_inv b'" "pool_frame {} b b'"
    and d: "\<And>p. pid_fd p = fd \<Longrightarrow> content b p \<noteq> None \<Longrightarrow> map_of (page_table b) p \<noteq> None \<Longrightarrow> dpage (disk b') p = content b p"
    by (rule flush_all_ok [of b fd]) blast
  have "content b' p = Some c \<and> (pid_fd p = fd \<longrightarrow> dpage (disk b') p = Some c)"
    if p: "page_ok (pid_no p)" "content b p = Some c" for p c
  proof (intro conjI impI)
    show c': "content b' p = Some c" using f(3) p by (simp add: pool_frame_def)
    assume fd: "pid_fd p = fd"
    show "dpage (disk b') p = Some c"
    proof (cases "map_of (page_table b) p")
      case (Some g)
      then show ?thesis using d [OF fd] p(2) by simp
    next
      case None
      then have "p \<notin> fst ` set (page_table b')"
        using pool_frame_table [OF f(3)] by (auto simp: map_of_eq_None_iff)
      then have "map_of (page_table b') p = None" by (simp add: map_of_eq_None_iff)
      then show ?thesis using c' by (simp add: content_def)
    qed
  qed
  with f show ?thesis by blast
qed

text \<open>
  A page of the file is in the pool, with bytes that are not the ones on the disk; the flush writes it: a first
  flush writes the new page with its zero bytes, and neither a store nor an unpin touches the disk.
\<close>

lemma store_unpin_disk: "disk (snd (pool_run [PStore p c, PUnpin q d] b)) = disk b"
  by (simp add: set_data_def upd_page_def unpin_page_def Let_def split: option.split)

theorem flush_all_pages_durable_witness:
  "\<exists>xs b b'. pool_run [PNew 3, PFlushAll 3, PStore (PageId 3 0) (memset PAGE_SIZE 5), PUnpin (PageId 3 0) True]
       (BufferPoolManager_init 2 0 sample_disk (Some (LogManager_init 0))) = (Inr xs, b) \<and>
     content b (PageId 3 0) = Some (memset PAGE_SIZE 5) \<and> dpage (disk b) (PageId 3 0) = Some (memset PAGE_SIZE 0) \<and>
     flush_all_pages 3 b = (Inr (), b') \<and> dpage (disk b') (PageId 3 0) = Some (memset PAGE_SIZE 5)"
proof -
  let ?ops = "[PStore (PageId 3 0) (memset PAGE_SIZE 5), PUnpin (PageId 3 0) True]"
  let ?b = "BufferPoolManager_init 2 0 sample_disk (Some (LogManager_init 0))" and ?s = "store_init Map.empty sample_disk"
  let ?s1 = "snd (st_step 2 (PNew 3) ?s)"
  have a: "st_allowed {3} (PNew 3) ?s" "st_page ?s1 (PageId 3 0) = Some (memset PAGE_SIZE 0)"
    "st_allowed_run {3} 2 ?ops ?s1" "st_page (snd (st_run 2 ?ops ?s1)) (PageId 3 0) = Some (memset PAGE_SIZE 5)"
    by (simp_all add: store_init_def st_full_def Let_def page_ok_def pinned_upd sample_disk_eq fun_upd_same fun_upd_other
        del: fun_upd_apply)
  have n: "pool_size ?b = 2" by (simp add: BufferPoolManager_init_def)
  from pool_step_simulates [OF sample_pool [of 2] a(1)] n obtain x b0 where b0: "pool_step (PNew 3) ?b = (Inr x, b0)"
    "represents {3} b0 ?s1" "pool_size b0 = 2"
    by (auto simp: simulates_def simp del: pool_step.simps st_step.simps)
  obtain b1 where f: "flush_all_pages 3 b0 = (Inr (), b1)" "dpage (disk b1) (PageId 3 0) = Some (memset PAGE_SIZE 0)"
    using flush_all_pages_durable [OF representsD(1) [OF b0(2)], of 3] representsD(4) [OF b0(2) a(2)] by (auto simp: page_ok_def)
  have b1: "pool_step (PFlushAll 3) b0 = (Inr OUnit, b1)" "represents {3} b1 ?s1" "pool_size b1 = 2"
    using sim_flush_all [OF b0(2), of 3] f(1) b0(3) by (auto simp: simulates_def simp del: st_step.simps(7))
  from pool_run_simulates [OF b1(2), of ?ops] a(3) b1(3) obtain xs b where b: "pool_run ?ops b1 = (Inr xs, b)"
    "represents {3} b (snd (st_run 2 ?ops ?s1))" by (auto simp del: pool_run.simps st_run.simps st_allowed_run.simps st_step.simps)
  have run: "pool_run (PNew 3 # PFlushAll 3 # ?ops) ?b = (Inr (x # OUnit # xs), b)"
    using b0(1) b1(1) b(1) by (simp only: pool_run.simps(2) [of "PNew 3"] pool_run.simps(2) [of "PFlushAll 3"] bindE_Inr)
  have "disk b = disk b1" using store_unpin_disk [of "PageId 3 0" "memset PAGE_SIZE 5" "PageId 3 0" True b1] b(1) by simp
  moreover have c: "content b (PageId 3 0) = Some (memset PAGE_SIZE 5)" using representsD(4) [OF b(2) a(4)] by simp
  moreover obtain b' where "flush_all_pages 3 b = (Inr (), b')" "dpage (disk b') (PageId 3 0) = Some (memset PAGE_SIZE 5)"
    using flush_all_pages_durable [OF representsD(1) [OF b(2)], of 3] c by (auto simp: page_ok_def)
  ultimately show ?thesis using run f(2) by metis
qed

lemma read_page_short:
  assumes "disk_inv d" and "data_fd d fd" and "page_ok n" and "disk_page d fd n = None"
  shows "\<exists>e d'. read_page fd n PAGE_SIZE d = (Inl e, d')"
proof -
  from assms(2) obtain p where p: "fd2path d fd = Some p" by (auto simp: data_fd_def)
  with assms(1) obtain pos c where "px_fds (os d) fd = Some (p, pos)" and c: "px_files (os d) p = Some c"
    by (auto elim: disk_inv_openD)
  moreover have "length c < nat n * PAGE_SIZE + PAGE_SIZE"
    using assms(4) p c by (auto simp: disk_page_def split: if_splits)
  then have "length (slice (nat n * PAGE_SIZE) PAGE_SIZE c) \<noteq> PAGE_SIZE"
    by (auto simp: slice_def min_def PAGE_SIZE_def split: if_splits)
  ultimately show ?thesis
    by (auto simp: read_page_def page_offset_ok [OF assms(3)] px_lseek_set_def px_read_def Let_def simp del: of_nat_mult)
qed

text \<open>
  A failed fetch leaves the pool in a wrong state. Fetching a page that lies behind the end
  of its file throws, but the page table already maps the page to the frame that was taken for
  it; the next fetch of that page succeeds and hands out the frame.
\<close>

theorem failed_fetch_leaves_entry:
  assumes b: "bpm_inv b" and v: "valid_pid (disk b) p" and n: "map_of (page_table b) p = None"
    and short: "dpage (disk b) p = None" and free: "free_list b \<noteq> []" and log: "log_mgr b = None"
  shows "\<exists>e b1 f b2. fetch_page p b = (Inl e, b1) \<and> fetch_page p b1 = (Inr (Some f), b2)"
proof -
  obtain f fl where fl: "free_list b = f # fl" using free by (cases "free_list b") auto
  have clean: "\<not> pg_dirty (pages b ! f)" using bpm_invD(4) [OF b] fl by (simp add: free_ok_def)
  have "disk_inv (disk b)" using bpm_invD(1) [OF b] by (simp add: env_ok_def)
  with read_page_short [of "disk b" "pid_fd p" "pid_no p"] v short obtain e d where
    rd: "read_page (pid_fd p) (pid_no p) PAGE_SIZE (disk b) = (Inl e, d)" by (auto simp: valid_pid_def dpage_def)
  obtain b2 where u: "update_page f p (b\<lparr>free_list := fl\<rparr>) = (Inr (), b2)" "disk b2 = disk b"
    "map_of (page_table b2) p = Some f"
    using log clean by (auto simp: update_page_def upd_page_def Let_def)
  have f1: "fetch_page p b = (Inl e, set_data f (memcpy (pg_data (pages b2 ! f)) 0
      (read_page_bytes (pid_fd p) (pid_no p) PAGE_SIZE (disk b2))) (b2\<lparr>disk := d\<rparr>))" (is "_ = (_, ?b1)")
    using n fl u rd by (simp add: fetch_page_def find_victim_page_def)
  have "map_of (page_table ?b1) p = Some f" using u(3) by simp
  then have "fetch_page p ?b1 = (Inr (Some f), pin_frame f ?b1)" by (simp add: fetch_page_def)
  with f1 show ?thesis by blast
qed

theorem failed_fetch_leaves_entry_witness:
  "\<exists>e b1 f b2. fetch_page (PageId 3 0) (BufferPoolManager_init 1 0 sample_disk None) = (Inl e, b1) \<and>
     fetch_page (PageId 3 0) b1 = (Inr (Some f), b2)"
proof (rule failed_fetch_leaves_entry)
  show "bpm_inv (BufferPoolManager_init 1 0 sample_disk None)" by (rule bpm_inv_init [OF sample_disk_inv]) simp
  have t: "px_files sample_posix ''t'' = Some []" by (simp add: sample_posix_def LOG_FILE_NAME_def)
  then show "dpage (disk (BufferPoolManager_init 1 0 sample_disk None)) (PageId 3 0) = None"
    by (simp add: dpage_def disk_page_def BufferPoolManager_init_def sample_disk_eq PAGE_SIZE_def)
qed (use sample_data_fd in \<open>simp_all add: BufferPoolManager_init_def valid_pid_def page_ok_def\<close>)

end
