(* ===== verification/RmFile.thy ===== *)
theory RmFile
  imports RmPage PagePool LogRecords
begin

text \<open>
  \<open>RmFileHandle\<close> of \<^verbatim>\<open>record/rm_file_handle.cpp\<close> and \<open>RmManager\<close> of \<^verbatim>\<open>record/rm_manager.h\<close>: the records of
  a table file. The state of a handle is its descriptor, its copy of the file header and the
  buffer pool it works on, whose disk manager is the one the handle writes its header with.

  The \<open>Context\<close> of an operation enters as what the operation takes from it: for the writers the
  log sequence number \<open>log_mgr_->get_lsn()\<close>, for \<open>get_record\<close> the outcome of the lock request it
  makes first; \<open>None\<close> is the null context. A null page pointer that is used ends in
  \<open>NullDereference\<close>.
\<close>

section \<open>The file handle\<close>

record rm_file =
  rm_fd :: int
  file_hdr :: RmFileHdr
  pool :: bpm

definition lift_pool :: "('a, bpm) res \<Rightarrow> rm_file \<Rightarrow> ('a, rm_file) res" where
  "lift_pool r rm = (case r of (x, b) \<Rightarrow> (x, rm\<lparr>pool := b\<rparr>))"

definition page_bytes :: "nat \<Rightarrow> rm_file \<Rightarrow> bytes" where
  "page_bytes f rm = pg_data (pages (pool rm) ! f)"

definition put_bytes :: "nat \<Rightarrow> bytes \<Rightarrow> rm_file \<Rightarrow> rm_file" where
  "put_bytes f d rm = rm\<lparr>pool := set_data f d (pool rm)\<rparr>"

definition page_no_of :: "nat \<Rightarrow> rm_file \<Rightarrow> int" where
  "page_no_of f rm = pid_no (pg_id (pages (pool rm) ! f))"

definition unpin :: "int \<Rightarrow> bool \<Rightarrow> rm_file \<Rightarrow> rm_file" where
  "unpin page_no dirty rm = rm\<lparr>pool := snd (unpin_page (PageId (rm_fd rm) page_no) dirty (pool rm))\<rparr>"

definition write_hdr :: "rm_file \<Rightarrow> (unit, rm_file) res" where
  "write_hdr rm = lift_pool (write_out (PageId (rm_fd rm) RM_FILE_HDR_PAGE) (RmFileHdr_bytes (file_hdr rm)) (pool rm)) rm"

definition set_first_free :: "int \<Rightarrow> rm_file \<Rightarrow> rm_file" where
  "set_first_free n rm = rm\<lparr>file_hdr := (file_hdr rm)\<lparr>first_free_page_no := n\<rparr>\<rparr>"

definition fetch_page_handle :: "int \<Rightarrow> rm_file \<Rightarrow> (nat option, rm_file) res" where
  "fetch_page_handle page_no rm = lift_pool (fetch_page (PageId (rm_fd rm) page_no) (pool rm)) rm"

text \<open>The use of the handle: a null page is an error.\<close>

definition use_page :: "(nat option, rm_file) res \<Rightarrow> (nat \<Rightarrow> rm_file \<Rightarrow> ('a, rm_file) res) \<Rightarrow> ('a, rm_file) res" where
  "use_page r k = bindE r (\<lambda>f rm. case f of None \<Rightarrow> (Inl NullDereference, rm) | Some f \<Rightarrow> k f rm)"

definition create_new_page_handle :: "rm_file \<Rightarrow> (nat option, rm_file) res" where
  "create_new_page_handle rm =
     bindE (lift_pool (new_page (rm_fd rm) (pool rm)) rm)
       (\<lambda>r rm. case r of
            None \<Rightarrow> (Inr None, rm)
          | Some (page_id, f) \<Rightarrow>
              let d = page_bytes f rm;
                  d = set_num_records 0 d;
                  d = set_next_free RM_NO_PAGE d;
                  d = bm_init bitmap_off (bm_size (file_hdr rm)) d;
                  rm = put_bytes f d rm;
                  rm = set_first_free (pid_no page_id) rm;
                  rm = rm\<lparr>file_hdr := (file_hdr rm)\<lparr>num_pages := num_pages (file_hdr rm) + 1\<rparr>\<rparr>
              in bindE (write_hdr rm) (\<lambda>_ rm. (Inr (Some f), rm)))"

definition create_page_handle :: "rm_file \<Rightarrow> (nat option, rm_file) res" where
  "create_page_handle rm =
     (if first_free_page_no (file_hdr rm) \<noteq> - 1 then fetch_page_handle (first_free_page_no (file_hdr rm)) rm
      else create_new_page_handle rm)"

definition release_page_handle :: "nat \<Rightarrow> rm_file \<Rightarrow> (unit, rm_file) res" where
  "release_page_handle f rm =
     (if page_no_of f rm = first_free_page_no (file_hdr rm) then (Inr (), rm)
      else let rm = put_bytes f (set_next_free (first_free_page_no (file_hdr rm)) (page_bytes f rm)) rm;
               rm = set_first_free (page_no_of f rm) rm
           in write_hdr rm)"

text \<open>A page that became full leaves the list of pages with free slots.\<close>

definition retire_if_full :: "nat \<Rightarrow> rm_file \<Rightarrow> (unit, rm_file) res" where
  "retire_if_full f rm =
     (if get_num_records (page_bytes f rm) \<ge> num_records_per_page (file_hdr rm)
      then let rm = set_first_free (get_next_free (page_bytes f rm)) rm;
               rm = put_bytes f (set_next_free RM_NO_PAGE (page_bytes f rm)) rm
           in write_hdr rm
      else (Inr (), rm))"

definition stamp_lsn :: "int option \<Rightarrow> nat \<Rightarrow> rm_file \<Rightarrow> rm_file" where
  "stamp_lsn ctx f rm =
     (case ctx of None \<Rightarrow> rm | Some l \<Rightarrow> put_bytes f (set_lsn_bytes l (page_bytes f rm)) rm)"

section \<open>Records\<close>

definition is_record :: "Rid \<Rightarrow> rm_file \<Rightarrow> (bool, rm_file) res" where
  "is_record rid rm =
     use_page (fetch_page_handle (rid_page rid) rm)
       (\<lambda>f rm. (Inr (is_set bitmap_off (nat (rid_slot rid)) (page_bytes f rm)), rm))"

definition get_record :: "(rmdb_error + unit) option \<Rightarrow> Rid \<Rightarrow> rm_file \<Rightarrow> (RmRecord, rm_file) res" where
  "get_record lock rid rm =
     bindE (case lock of None \<Rightarrow> (Inr (), rm) | Some r \<Rightarrow> (r, rm))
       (\<lambda>_ rm. use_page (fetch_page_handle (rid_page rid) rm)
          (\<lambda>f rm. let data = get_slot (file_hdr rm) (nat (rid_slot rid));
                      page_no = page_no_of f rm;
                      rm = unpin page_no True rm
                  in (Inr (slice data (rec_size (file_hdr rm)) (page_bytes f rm)), rm)))"

definition insert_record :: "bytes \<Rightarrow> int option \<Rightarrow> rm_file \<Rightarrow> (Rid, rm_file) res" where
  "insert_record buf ctx rm =
     use_page (create_page_handle rm)
       (\<lambda>f rm. let d = page_bytes f rm;
                   offset = first_bit False bitmap_off (per_page (file_hdr rm)) d;
                   d = put_slot (file_hdr rm) offset buf d;
                   d = bm_set bitmap_off offset d;
                   d = set_num_records (get_num_records d + 1) d;
                   rm = put_bytes f d rm
               in bindE (retire_if_full f rm)
                    (\<lambda>_ rm. let rm = stamp_lsn ctx f rm;
                                page_no = page_no_of f rm;
                                rm = unpin page_no True rm
                            in (Inr (Rid page_no (int offset)), rm)))"

definition insert_record_at :: "Rid \<Rightarrow> bytes \<Rightarrow> rm_file \<Rightarrow> (unit, rm_file) res" where
  "insert_record_at rid buf rm =
     use_page (fetch_page_handle (rid_page rid) rm)
       (\<lambda>f rm. let d = bm_set bitmap_off (nat (rid_slot rid)) (page_bytes f rm);
                   d = put_slot (file_hdr rm) (nat (rid_slot rid)) buf d;
                   rm = put_bytes f d rm
               in (Inr (), unpin (page_no_of f rm) True rm))"

definition delete_record :: "Rid \<Rightarrow> int option \<Rightarrow> rm_file \<Rightarrow> (unit, rm_file) res" where
  "delete_record rid ctx rm =
     use_page (fetch_page_handle (rid_page rid) rm)
       (\<lambda>f rm. let d = bm_reset bitmap_off (nat (rid_slot rid)) (page_bytes f rm);
                   d = set_num_records (get_num_records d - 1) d;
                   rm = put_bytes f d rm
               in bindE (if get_num_records (page_bytes f rm) = num_records_per_page (file_hdr rm) - 1
                         then release_page_handle f rm else (Inr (), rm))
                    (\<lambda>_ rm. let page_no = page_no_of f rm;
                                rm = stamp_lsn ctx f rm
                            in (Inr (), unpin page_no True rm)))"

definition update_record :: "Rid \<Rightarrow> bytes \<Rightarrow> int option \<Rightarrow> rm_file \<Rightarrow> (unit, rm_file) res" where
  "update_record rid buf ctx rm =
     use_page (fetch_page_handle (rid_page rid) rm)
       (\<lambda>f rm. let rm = put_bytes f (put_slot (file_hdr rm) (nat (rid_slot rid)) buf (page_bytes f rm)) rm;
                   page_no = page_no_of f rm;
                   rm = stamp_lsn ctx f rm
               in (Inr (), unpin page_no True rm))"

section \<open>Redo and undo\<close>

definition restore_hdr :: "int \<Rightarrow> int \<Rightarrow> rm_file \<Rightarrow> rm_file" where
  "restore_hdr first_free np rm =
     rm\<lparr>file_hdr := (file_hdr rm)\<lparr>first_free_page_no := first_free, num_pages := np\<rparr>\<rparr>"

definition insert_redo :: "InsertLogRecord \<Rightarrow> rm_file \<Rightarrow> (unit, rm_file) res" where
  "insert_redo log rm =
     (let rm = restore_hdr (insert_first_free_page_no log) (insert_num_pages log) rm;
          rid = insert_rid log
      in use_page (fetch_page_handle (rid_page rid) rm)
           (\<lambda>f rm. let d = bm_set bitmap_off (nat (rid_slot rid)) (page_bytes f rm);
                       d = put_slot (file_hdr rm) (nat (rid_slot rid)) (insert_value log) d;
                       d = set_num_records (get_num_records d + 1) d;
                       rm = put_bytes f d rm
                   in bindE (retire_if_full f rm)
                        (\<lambda>_ rm. let rm = stamp_lsn (Some (lsn log)) f rm
                                in (Inr (), rm\<lparr>pool := snd (unpin_page (pg_id (pages (pool rm) ! f)) True (pool rm))\<rparr>))))"

definition update_redo :: "UpdateLogRecord \<Rightarrow> rm_file \<Rightarrow> (unit, rm_file) res" where
  "update_redo log rm =
     (let rm = restore_hdr (update_first_free_page_no log) (update_num_pages log) rm;
          rid = update_rid log
      in use_page (fetch_page_handle (rid_page rid) rm)
           (\<lambda>f rm. let rm = put_bytes f (put_slot (file_hdr rm) (nat (rid_slot rid)) (new_value log) (page_bytes f rm)) rm;
                       rm = stamp_lsn (Some (lsn log)) f rm
                   in (Inr (), unpin (rid_page rid) True rm)))"

definition delete_redo :: "DeleteLogRecord \<Rightarrow> rm_file \<Rightarrow> (unit, rm_file) res" where
  "delete_redo log rm =
     (let rm = restore_hdr (delete_first_free_page_no log) (delete_num_pages log) rm;
          rid = delete_rid log
      in use_page (fetch_page_handle (rid_page rid) rm)
           (\<lambda>f rm. let d = bm_reset bitmap_off (nat (rid_slot rid)) (page_bytes f rm);
                       d = set_num_records (get_num_records d - 1) d;
                       rm = put_bytes f d rm
                   in bindE (if get_num_records (page_bytes f rm) = num_records_per_page (file_hdr rm) - 1
                             then release_page_handle f rm else (Inr (), rm))
                        (\<lambda>_ rm. let rm = stamp_lsn (Some (lsn log)) f rm
                                in (Inr (), unpin (rid_page rid) True rm))))"

definition insert_undo :: "Rid \<Rightarrow> rm_file \<Rightarrow> (unit, rm_file) res" where
  "insert_undo rid rm = delete_record rid None rm"

definition delete_undo :: "Rid \<Rightarrow> bytes \<Rightarrow> rm_file \<Rightarrow> (unit, rm_file) res" where
  "delete_undo rid buf rm = insert_record_at rid buf rm"

definition update_undo :: "Rid \<Rightarrow> bytes \<Rightarrow> rm_file \<Rightarrow> (unit, rm_file) res" where
  "update_undo rid buf rm =
     use_page (fetch_page_handle (rid_page rid) rm)
       (\<lambda>f rm. let rm = put_bytes f (put_slot (file_hdr rm) (nat (rid_slot rid)) buf (page_bytes f rm)) rm
               in (Inr (), unpin (rid_page rid) True rm))"

section \<open>The record manager\<close>

definition rm_create_file :: "string \<Rightarrow> int \<Rightarrow> disk_manager \<Rightarrow> (unit, disk_manager) res" where
  "rm_create_file filename rs d =
     (if rs < 1 \<or> rs > RM_MAX_RECORD_SIZE then (Inl (InvalidRecordSizeError rs), d)
      else bindE (create_file filename d)
             (\<lambda>_ d. bindE (open_file filename d)
                (\<lambda>fd d. bindE (write_page fd RM_FILE_HDR_PAGE (RmFileHdr_bytes (RmFileHdr_init rs)) d)
                   (\<lambda>_ d. close_file fd d))))"

definition rm_destroy_file :: "string \<Rightarrow> disk_manager \<Rightarrow> (unit, disk_manager) res" where
  "rm_destroy_file filename d = destroy_file filename d"

definition RmFileHandle_init :: "int \<Rightarrow> bpm \<Rightarrow> (rm_file, bpm) res" where
  "RmFileHandle_init fd b =
     (case read_page fd RM_FILE_HDR_PAGE RmFileHdr_size (disk b) of
        (Inl e, d) \<Rightarrow> (Inl e, b\<lparr>disk := d\<rparr>)
      | (Inr bs, d) \<Rightarrow>
          let h = bytes_RmFileHdr bs;
              b = b\<lparr>disk := set_fd2pageno fd (num_pages h) d\<rparr>
          in (Inr \<lparr>rm_fd = fd, file_hdr = h, pool = b\<rparr>, b))"

definition rm_open_file :: "string \<Rightarrow> bpm \<Rightarrow> (rm_file, bpm) res" where
  "rm_open_file filename b =
     (case open_file filename (disk b) of
        (Inl e, d) \<Rightarrow> (Inl e, b\<lparr>disk := d\<rparr>)
      | (Inr fd, d) \<Rightarrow> RmFileHandle_init fd (b\<lparr>disk := d\<rparr>))"

definition rm_close_file :: "rm_file \<Rightarrow> (unit, bpm) res" where
  "rm_close_file rm =
     bindE (write_out (PageId (rm_fd rm) RM_FILE_HDR_PAGE) (RmFileHdr_bytes (file_hdr rm)) (pool rm))
       (\<lambda>_ b. bindE (flush_all_pages (rm_fd rm) b)
          (\<lambda>_ b. case close_file (rm_fd rm) (disk b) of (r, d) \<Rightarrow> (r, b\<lparr>disk := d\<rparr>)))"

end
