(* ===== verification/RmChain.thy ===== *)
theory RmChain
  imports RmPage
begin

text \<open>
  The pages of a table file as a whole, apart from the buffer pool: every page counts its records
  right, and the free-page list, which starts in the file header and runs through the page
  headers, reaches exactly the pages that have a free slot, each once. The records of the file
  are a finite map from record ids; inserting, deleting and updating in one page are the
  corresponding updates of the map.
\<close>

section \<open>Files of pages\<close>

text \<open>The header fields that are not part of the layout.\<close>

lemma layout_fields [simp]:
  "layout_ok (h\<lparr>first_free_page_no := x\<rparr>) = layout_ok h" "layout_ok (h\<lparr>num_pages := y\<rparr>) = layout_ok h"
  "page_slot (h\<lparr>first_free_page_no := x\<rparr>) = page_slot h" "page_slot (h\<lparr>num_pages := y\<rparr>) = page_slot h"
  "page_count (h\<lparr>first_free_page_no := x\<rparr>) = page_count h" "page_count (h\<lparr>num_pages := y\<rparr>) = page_count h"
  "page_wf (h\<lparr>first_free_page_no := x\<rparr>) = page_wf h" "page_wf (h\<lparr>num_pages := y\<rparr>) = page_wf h"
  "put_slot (h\<lparr>first_free_page_no := x\<rparr>) = put_slot h" "put_slot (h\<lparr>num_pages := y\<rparr>) = put_slot h"
  "get_slot (h\<lparr>first_free_page_no := x\<rparr>) = get_slot h" "get_slot (h\<lparr>num_pages := y\<rparr>) = get_slot h"
  by (auto simp: layout_ok_def page_slot_def page_count_def page_wf_def put_slot_def get_slot_def slots_off_def fun_eq_iff)

fun chain :: "(int \<Rightarrow> int) \<Rightarrow> int \<Rightarrow> int list \<Rightarrow> bool" where
  "chain nx p [] \<longleftrightarrow> p = RM_NO_PAGE"
| "chain nx p (q # qs) \<longleftrightarrow> p = q \<and> p \<noteq> RM_NO_PAGE \<and> chain nx (nx q) qs"

lemma chain_links: "chain nx p qs \<Longrightarrow> (\<And>q. q \<in> set qs \<Longrightarrow> nx' q = nx q) \<Longrightarrow> chain nx' p qs"
  by (induction qs arbitrary: p) auto

definition data_pages :: "RmFileHdr \<Rightarrow> int set" where
  "data_pages h = {n. RM_FIRST_RECORD_PAGE \<le> n \<and> n < num_pages h}"

definition has_room :: "RmFileHdr \<Rightarrow> bytes \<Rightarrow> bool" where
  "has_room h d \<longleftrightarrow> page_count h d < per_page h"

definition file_wf :: "RmFileHdr \<Rightarrow> (int \<Rightarrow> bytes) \<Rightarrow> bool" where
  "file_wf h g \<longleftrightarrow> layout_ok h \<and> 1 \<le> num_pages h \<and> num_pages h \<le> 2 ^ 19 \<and> (\<forall>n \<in> data_pages h. page_wf h (g n)) \<and>
     (\<exists>ps. chain (\<lambda>n. get_next_free (g n)) (first_free_page_no h) ps \<and> distinct ps \<and>
        set ps = {n \<in> data_pages h. has_room h (g n)})"

definition file_map :: "RmFileHdr \<Rightarrow> (int \<Rightarrow> bytes) \<Rightarrow> Rid \<rightharpoonup> bytes" where
  "file_map h g r = (if rid_page r \<in> data_pages h \<and> 0 \<le> rid_slot r then page_slot h (g (rid_page r)) (nat (rid_slot r)) else None)"

lemma has_room_fields [simp]:
  "has_room (h\<lparr>first_free_page_no := x\<rparr>) = has_room h" "has_room (h\<lparr>num_pages := y\<rparr>) = has_room h"
  "data_pages (h\<lparr>first_free_page_no := x\<rparr>) = data_pages h"
  by (simp_all add: fun_eq_iff has_room_def data_pages_def)

lemma file_wfD:
  assumes "file_wf h g"
  shows "layout_ok h" "1 \<le> num_pages h" "num_pages h \<le> 2 ^ 19" "\<And>n. n \<in> data_pages h \<Longrightarrow> page_wf h (g n)"
    "\<And>n. n \<in> data_pages h \<Longrightarrow> length (g n) = PAGE_SIZE"
  using assms by (auto simp: file_wf_def page_wf_def)

lemma file_wf_chain:
  assumes "file_wf h g"
  obtains ps where "chain (\<lambda>n. get_next_free (g n)) (first_free_page_no h) ps" "distinct ps"
    "set ps = {n \<in> data_pages h. has_room h (g n)}"
  using assms by (auto simp: file_wf_def)

lemma data_page_int32: "file_wf h g \<Longrightarrow> n \<in> data_pages h \<Longrightarrow> int32 n \<and> n \<noteq> RM_NO_PAGE \<and> page_ok n \<and> n \<noteq> 0"
  by (auto simp: file_wf_def data_pages_def int32_def RM_FIRST_RECORD_PAGE_def RM_NO_PAGE_def page_ok_def)

lemma first_free_page:
  assumes "file_wf h g"
  shows "first_free_page_no h = RM_NO_PAGE \<or> first_free_page_no h \<in> data_pages h \<and> has_room h (g (first_free_page_no h))"
    and "int32 (first_free_page_no h)"
proof -
  obtain ps where "chain (\<lambda>n. get_next_free (g n)) (first_free_page_no h) ps"
    and s: "set ps = {n \<in> data_pages h. has_room h (g n)}" using assms by (rule file_wf_chain)
  then have c: "first_free_page_no h = RM_NO_PAGE \<or> first_free_page_no h \<in> set ps" by (cases ps) auto
  then show "first_free_page_no h = RM_NO_PAGE \<or> first_free_page_no h \<in> data_pages h \<and> has_room h (g (first_free_page_no h))"
    using s by simp
  show "int32 (first_free_page_no h)" using c s data_page_int32 [OF assms] by (auto simp: RM_NO_PAGE_def int32_def)
qed

text \<open>Changing one page: the map changes at that page only.\<close>

lemma file_map_page:
  assumes "n \<in> data_pages h" and "\<And>k. k \<in> data_pages h \<Longrightarrow> k \<noteq> n \<Longrightarrow> g' k = g k"
    and "page_slot h (g' n) = (page_slot h (g n))(i := x)"
  shows "file_map h g' = (file_map h g)(Rid n (int i) := x)"
proof
  fix r
  obtain m k where r: "r = Rid m k" by (cases r)
  show "file_map h g' r = ((file_map h g)(Rid n (int i) := x)) r"
  proof (cases "m = n")
    case True
    then show ?thesis using assms(1,3) r by (auto simp: file_map_def nat_eq_iff)
  next
    case False
    then show ?thesis using assms(2) [of m] r by (simp add: file_map_def)
  qed
qed

lemma count_upd:
  assumes "n < per_page h"
  shows "page_slot h d' = (page_slot h d)(n \<mapsto> b) \<Longrightarrow> page_slot h d n = None \<Longrightarrow> page_count h d' = Suc (page_count h d)"
    and "page_slot h d' = (page_slot h d)(n := None) \<Longrightarrow> page_slot h d n \<noteq> None \<Longrightarrow> Suc (page_count h d') = page_count h d"
    and "page_slot h d' = (page_slot h d)(n \<mapsto> b) \<Longrightarrow> page_slot h d n \<noteq> None \<Longrightarrow> page_count h d' = page_count h d"
proof -
  have f: "finite (dom (page_slot h d))" for d
    by (rule finite_subset [of _ "{..< per_page h}"]) (auto simp: page_slot_dom)
  show "page_slot h d' = (page_slot h d)(n \<mapsto> b) \<Longrightarrow> page_slot h d n = None \<Longrightarrow> page_count h d' = Suc (page_count h d)"
    using f [of d] by (simp add: page_count_dom domIff)
  show "page_slot h d' = (page_slot h d)(n := None) \<Longrightarrow> page_slot h d n \<noteq> None \<Longrightarrow> Suc (page_count h d') = page_count h d"
    using card_Suc_Diff1 [OF f [of d], of n] by (simp add: page_count_dom domIff)
  show "page_slot h d' = (page_slot h d)(n \<mapsto> b) \<Longrightarrow> page_slot h d n \<noteq> None \<Longrightarrow> page_count h d' = page_count h d"
    by (auto simp: page_count_dom insert_absorb domI)
qed

lemma room_pages:
  assumes "n \<in> data_pages h" and "\<And>k. k \<in> data_pages h \<Longrightarrow> k \<noteq> n \<Longrightarrow> g' k = g k"
  shows "{k \<in> data_pages h. has_room h (g' k)} =
    (if has_room h (g' n) then insert n {k \<in> data_pages h. has_room h (g k)} else {k \<in> data_pages h. has_room h (g k)} - {n})"
    (is "?L = ?R")
proof (rule set_eqI)
  fix k show "k \<in> ?L \<longleftrightarrow> k \<in> ?R" using assms(1) assms(2) [of k] by (cases "k = n") auto
qed

text \<open>A page that keeps its link and whether it has room.\<close>

lemma file_wf_keep:
  assumes "file_wf h g" and "n \<in> data_pages h" and "\<And>k. k \<in> data_pages h \<Longrightarrow> k \<noteq> n \<Longrightarrow> g' k = g k"
    and "page_wf h (g' n)" and "get_next_free (g' n) = get_next_free (g n)" and "has_room h (g' n) = has_room h (g n)"
  shows "file_wf h g'"
proof -
  obtain ps where ps: "chain (\<lambda>n. get_next_free (g n)) (first_free_page_no h) ps" "distinct ps"
    "set ps = {n \<in> data_pages h. has_room h (g n)}" using assms(1) by (rule file_wf_chain)
  have "chain (\<lambda>n. get_next_free (g' n)) (first_free_page_no h) ps"
    by (rule chain_links [OF ps(1)]) (use ps(3) assms(3,5) in \<open>metis (no_types, lifting) mem_Collect_eq\<close>)
  moreover have "{n \<in> data_pages h. has_room h (g' n)} = {n \<in> data_pages h. has_room h (g n)}"
    by (subst room_pages [of n h g' g]) (use assms(2,3,6) in auto)
  ultimately show ?thesis
    unfolding file_wf_def using file_wfD [OF assms(1)] ps assms(3,4) by (metis (no_types, lifting))
qed

text \<open>The first page of the list became full and leaves it.\<close>

lemma file_wf_retire:
  assumes w: "file_wf h g" and n: "n = first_free_page_no h" "n \<in> data_pages h"
    and o: "\<And>k. k \<in> data_pages h \<Longrightarrow> k \<noteq> n \<Longrightarrow> g' k = g k" and p: "page_wf h (g' n)" "\<not> has_room h (g' n)"
  shows "file_wf (h\<lparr>first_free_page_no := get_next_free (g n)\<rparr>) g'"
proof -
  obtain ps where ps: "chain (\<lambda>n. get_next_free (g n)) n ps" "distinct ps"
    "set ps = {n \<in> data_pages h. has_room h (g n)}" using w n(1) by (auto elim: file_wf_chain)
  have "n \<noteq> RM_NO_PAGE" using data_page_int32 [OF w n(2)] by simp
  then obtain qs where qs: "ps = n # qs" "chain (\<lambda>n. get_next_free (g n)) (get_next_free (g n)) qs"
    using ps(1) by (cases ps) auto
  have "chain (\<lambda>n. get_next_free (g' n)) (get_next_free (g n)) qs"
    by (rule chain_links [OF qs(2)]) (use qs(1) ps(2,3) o in fastforce)
  moreover have "set qs = {n \<in> data_pages h. has_room h (g' n)}"
    by (subst room_pages [of n h g' g, OF n(2)]) (erule (1) o, use ps(2,3) qs(1) p(2) in auto)
  moreover have "\<forall>k \<in> data_pages h. page_wf h (g' k)" using p(1) o file_wfD(4) [OF w] by metis
  ultimately show ?thesis
    unfolding file_wf_def using file_wfD [OF w] ps(2) qs(1) by auto
qed

text \<open>A full page got room and becomes the first of the list.\<close>

lemma file_wf_release:
  assumes w: "file_wf h g" and n: "n \<in> data_pages h" "\<not> has_room h (g n)"
    and o: "\<And>k. k \<in> data_pages h \<Longrightarrow> k \<noteq> n \<Longrightarrow> g' k = g k" and p: "page_wf h (g' n)" "has_room h (g' n)"
    and l: "get_next_free (g' n) = first_free_page_no h"
  shows "file_wf (h\<lparr>first_free_page_no := n\<rparr>) g'" and "n \<noteq> first_free_page_no h"
proof -
  obtain ps where ps: "chain (\<lambda>n. get_next_free (g n)) (first_free_page_no h) ps" "distinct ps"
    "set ps = {n \<in> data_pages h. has_room h (g n)}" using w by (rule file_wf_chain)
  have nn: "n \<noteq> RM_NO_PAGE" using data_page_int32 [OF w n(1)] by simp
  have np: "n \<notin> set ps" using ps(3) n(2) by simp
  have "chain (\<lambda>n. get_next_free (g' n)) (first_free_page_no h) ps"
    by (rule chain_links [OF ps(1)]) (use ps(3) np o in fastforce)
  then have "chain (\<lambda>n. get_next_free (g' n)) n (n # ps)" using nn l by simp
  moreover have "set (n # ps) = {n \<in> data_pages h. has_room h (g' n)}"
    by (subst room_pages [of n h g' g, OF n(1)]) (erule (1) o, use ps(3) p(2) in auto)
  moreover have "distinct (n # ps)" using ps(2) np by simp
  moreover have "\<forall>k \<in> data_pages h. page_wf h (g' k)" using p(1) o file_wfD(4) [OF w] by metis
  ultimately show "file_wf (h\<lparr>first_free_page_no := n\<rparr>) g'"
    unfolding file_wf_def using file_wfD(1-3) [OF w] by (intro conjI exI [of _ "n # ps"]) simp_all
  show "n \<noteq> first_free_page_no h" using first_free_page(1) [OF w] n(2) nn by auto
qed

text \<open>A new empty page behind the others, when no page has room.\<close>

lemma file_wf_new:
  assumes w: "file_wf h g" and no: "first_free_page_no h = RM_NO_PAGE" and lim: "num_pages h < 2 ^ 19"
    and o: "\<And>k. k \<in> data_pages h \<Longrightarrow> g' k = g k"
    and p: "page_slot h (g' (num_pages h)) = Map.empty" "get_num_records (g' (num_pages h)) = 0"
      "get_next_free (g' (num_pages h)) = RM_NO_PAGE" "length (g' (num_pages h)) = PAGE_SIZE"
  shows "file_wf (h\<lparr>first_free_page_no := num_pages h, num_pages := num_pages h + 1\<rparr>) g'"
    and "file_map (h\<lparr>first_free_page_no := num_pages h, num_pages := num_pages h + 1\<rparr>) g' = file_map h g"
proof -
  let ?h = "h\<lparr>first_free_page_no := num_pages h, num_pages := num_pages h + 1\<rparr>" and ?n = "num_pages h"
  have dp: "data_pages ?h = insert ?n (data_pages h)" and nd: "?n \<notin> data_pages h"
    using file_wfD(2) [OF w] by (auto simp: data_pages_def RM_FIRST_RECORD_PAGE_def)
  obtain ps where ps: "chain (\<lambda>n. get_next_free (g n)) (first_free_page_no h) ps"
    "set ps = {n \<in> data_pages h. has_room h (g n)}" using w by (rule file_wf_chain)
  then have e: "{n \<in> data_pages h. has_room h (g n)} = {}" using no by (cases ps) auto
  have c0: "page_count h (g' ?n) = 0" using p(1) by (simp add: page_count_dom)
  then have r: "has_room h (g' ?n)" using layout_numbers(1) [OF file_wfD(1) [OF w]] by (simp add: has_room_def)
  have "page_wf h (g' ?n)" using c0 p by (simp add: page_wf_def)
  moreover have "chain (\<lambda>n. get_next_free (g' n)) ?n [?n]"
    using p(3) file_wfD(2) [OF w] by (simp add: RM_NO_PAGE_def)
  moreover have "set [?n] = {n \<in> data_pages ?h. has_room ?h (g' n)}"
    using e o r dp by auto
  ultimately show "file_wf ?h g'"
    unfolding file_wf_def using file_wfD [OF w] lim o dp
    by (intro conjI exI [of _ "[?n]"]) (auto simp del: chain.simps)
  show "file_map ?h g' = file_map h g"
    using dp nd o p(1) by (auto simp: fun_eq_iff file_map_def)
qed

section \<open>Inserting, deleting and updating in a page\<close>

definition page_insert :: "RmFileHdr \<Rightarrow> bytes \<Rightarrow> bytes \<Rightarrow> bytes" where
  "page_insert h buf d =
     (let i = first_bit False bitmap_off (per_page h) d; d = bm_set bitmap_off i (put_slot h i buf d)
      in set_num_records (get_num_records d + 1) d)"

definition page_delete :: "nat \<Rightarrow> bytes \<Rightarrow> bytes" where
  "page_delete i d = (let d = bm_reset bitmap_off i d in set_num_records (get_num_records d - 1) d)"

lemma num_records_bound: "layout_ok h \<Longrightarrow> page_wf h d \<Longrightarrow> 0 \<le> get_num_records d \<and> get_num_records d \<le> 3622"
  using page_count_le [of h d] layout_numbers [of h] by (simp add: page_wf_def)

lemma page_insert_ok:
  assumes h: "layout_ok h" and d: "page_wf h d" and r: "has_room h d" and b: "length buf = rec_size h"
  defines "i \<equiv> first_bit False bitmap_off (per_page h) d"
  shows "page_slot h (page_insert h buf d) = (page_slot h d)(i \<mapsto> buf)" "page_wf h (page_insert h buf d)"
    "get_next_free (page_insert h buf d) = get_next_free d" "page_slot h d i = None" "i < per_page h"
    "page_count h (page_insert h buf d) = Suc (page_count h d)"
proof -
  have len: "length d = PAGE_SIZE" using d by (simp add: page_wf_def)
  show i: "i < per_page h" and e: "page_slot h d i = None"
    unfolding i_def using r first_free_slot [of h d] by (simp_all add: has_room_def)
  let ?d = "bm_set bitmap_off i (put_slot h i buf d)"
  note pv = put_slot_views [OF h len i b] and bv = bm_views [OF h put_slot_views(1) [OF h len i b] i]
  have n: "get_num_records ?d = get_num_records d" using pv bv by simp
  have l: "length ?d = PAGE_SIZE" using pv by simp
  have eq: "page_insert h buf d = set_num_records (get_num_records d + 1) ?d"
    using n by (simp add: page_insert_def i_def [symmetric])
  show s: "page_slot h (page_insert h buf d) = (page_slot h d)(i \<mapsto> buf)"
    using page_slot_insert(1) [OF h len i b] l h by (simp add: eq)
  show c: "page_count h (page_insert h buf d) = Suc (page_count h d)" using count_upd(1) [OF i s e] .
  show "page_wf h (page_insert h buf d)"
    using c l d num_records_bound [OF h d] by (simp add: page_wf_def eq int32_def)
  show "get_next_free (page_insert h buf d) = get_next_free d" using l bv pv by (simp add: eq)
qed

lemma page_delete_ok:
  assumes h: "layout_ok h" and d: "page_wf h d" and s: "page_slot h d i \<noteq> None"
  shows "page_slot h (page_delete i d) = (page_slot h d)(i := None)" "page_wf h (page_delete i d)"
    "get_next_free (page_delete i d) = get_next_free d" "Suc (page_count h (page_delete i d)) = page_count h d"
proof -
  have len: "length d = PAGE_SIZE" using d by (simp add: page_wf_def)
  have i: "i < per_page h" using s by (auto simp: page_slot_def split: if_splits)
  note bv = bm_views [OF h len i]
  have eq: "page_delete i d = set_num_records (get_num_records d - 1) (bm_reset bitmap_off i d)"
    using bv by (simp add: page_delete_def)
  show sl: "page_slot h (page_delete i d) = (page_slot h d)(i := None)"
    using page_slot_delete [OF h len i] len h by (simp add: eq)
  show c: "Suc (page_count h (page_delete i d)) = page_count h d" using count_upd(2) [OF i sl s] .
  show "page_wf h (page_delete i d)"
    using c len d num_records_bound [OF h d] by (auto simp: page_wf_def eq int32_def)
  show "get_next_free (page_delete i d) = get_next_free d" using len bv by (simp add: eq)
qed

lemma page_update_ok:
  assumes h: "layout_ok h" and d: "page_wf h d" and s: "page_slot h d i \<noteq> None" and b: "length buf = rec_size h"
  shows "page_slot h (put_slot h i buf d) = (page_slot h d)(i \<mapsto> buf)" "page_wf h (put_slot h i buf d)"
    "get_next_free (put_slot h i buf d) = get_next_free d" "page_count h (put_slot h i buf d) = page_count h d"
proof -
  have len: "length d = PAGE_SIZE" using d by (simp add: page_wf_def)
  have i: "i < per_page h" using s by (auto simp: page_slot_def split: if_splits)
  note pv = put_slot_views [OF h len i b]
  show sl: "page_slot h (put_slot h i buf d) = (page_slot h d)(i \<mapsto> buf)" using page_slot_update [OF h len i b s] .
  show c: "page_count h (put_slot h i buf d) = page_count h d" using count_upd(3) [OF i sl s] .
  show "page_wf h (put_slot h i buf d)" using c pv d by (simp add: page_wf_def)
  show "get_next_free (put_slot h i buf d) = get_next_free d" using pv by simp
qed

text \<open>Writing the log sequence number or a link changes no record.\<close>

lemma page_ints_wf:
  assumes "layout_ok h" and "page_wf h d"
  shows "page_wf h (set_lsn_bytes l d)" "page_count h (set_lsn_bytes l d) = page_count h d"
    "page_wf h (set_next_free v d)" "page_count h (set_next_free v d) = page_count h d"
    "has_room h (set_lsn_bytes l d) = has_room h d" "has_room h (set_next_free v d) = has_room h d"
  using assms by (simp_all add: page_wf_def page_count_dom has_room_def)

end
