(* ===== verification/RmRecords.thy ===== *)
theory RmRecords
  imports RmFile RmChain
begin

text \<open>
  The operations of the file handle over the buffer pool. An operation holds one page of the
  file (\<open>holds\<close>), changes its bytes, writes the file header past the buffer pool and releases
  the page; the lemmas carry the content of all other pages, the pins and the other files
  through these steps. The theorems say that the operations implement a finite map from
  record ids to records.
\<close>

section \<open>Writing the file header\<close>

lemma length_RmFileHdr_bytes [simp]: "length (RmFileHdr_bytes h) = RmFileHdr_size"
  by (simp add: RmFileHdr_bytes_def RmFileHdr_size_def)

lemma write_short_page:
  assumes d: "disk_inv d" and fd: "data_fd d fd" and b: "buf \<noteq> []" "length buf \<le> PAGE_SIZE"
  obtains d' where "write_page fd 0 buf d = (Inr (), d')" and "disk_inv d'" and "fd2path d' = fd2path d"
    and "fd2pageno d' = fd2pageno d" and "log_file d' = log_file d" and "log_ready d' = log_ready d"
    and "px_max_file (os d') = px_max_file (os d)"
    and "\<And>fd' m a. page_ok m \<Longrightarrow> (fd', m) \<noteq> (fd, 0) \<Longrightarrow> disk_page d fd' m = Some a \<Longrightarrow> disk_page d' fd' m = Some a"
    and "\<And>a. disk_page d fd 0 = Some a \<Longrightarrow> disk_page d' fd 0 = Some (memcpy a 0 buf)"
proof -
  from fd obtain p where p: "fd2path d fd = Some p" "p \<noteq> LOG_FILE_NAME" by (auto simp: data_fd_def)
  then obtain pos c where pos: "px_fds (os d) fd = Some (p, pos)" and c: "px_files (os d) p = Some c"
    using d by (auto elim: disk_inv_openD)
  have "length buf \<le> px_max_file (os d)" using d b(2) by (simp add: disk_inv_def PAGE_SIZE_def)
  then have t: "take (px_max_file (os d)) buf = buf" "min (length buf) (px_max_file (os d)) = length buf" by simp_all
  let ?d = "d\<lparr>os := (os d)\<lparr>px_files := (px_files (os d))(p \<mapsto> write_at c 0 buf),
      px_fds := (px_fds (os d))(fd \<mapsto> (p, length buf))\<rparr>\<rparr>"
  have "page_offset 0 = 0" by (simp add: page_offset_def to_int32_def)
  then have w: "write_page fd 0 buf d = (Inr (), ?d)"
    using pos c t by (simp add: write_page_def px_lseek_set_def px_write_def)
  have di: "disk_inv ?d" using d p by (auto simp: disk_inv_def)
  have "px_new_fd (os ?d) = px_new_fd (os d)" using pos by (intro px_new_fd_same_dom) auto
  then have l: "log_file ?d = log_file d" "log_ready ?d = log_ready d" using p(2) by (auto simp: log_file_def log_ready_def)
  have other: "disk_page ?d fd' m = Some a"
    if m: "page_ok m" and ne: "(fd', m) \<noteq> (fd, 0)" and a: "disk_page d fd' m = Some a" for fd' m a
  proof (cases "fd2path d fd' = Some p")
    case False
    then show ?thesis using a by (simp only: disk_page_file_update if_False)
  next
    case True
    with p d have "fd' = fd" by (metis disk_inv_same_fd)
    with ne m have "length buf \<le> nat m * PAGE_SIZE" using b(2) by (auto simp: page_ok_def PAGE_SIZE_def)
    then show ?thesis using True a c b(1)
      by (auto simp: disk_page_file_update disk_page_def length_write_at slice_write_at_other split: if_splits)
  qed
  have same: "disk_page ?d fd 0 = Some (memcpy a 0 buf)" if a: "disk_page d fd 0 = Some a" for a
  proof -
    have lc: "PAGE_SIZE \<le> length c" and a': "a = take PAGE_SIZE c"
      using a p(1) c by (auto simp: disk_page_def slice_def split: if_splits)
    have "take PAGE_SIZE (memcpy c 0 buf) = memcpy (take PAGE_SIZE c) 0 buf"
      using b(2) lc by (simp add: memcpy_def drop_take)
    then show ?thesis
      using p(1) b lc a' by (simp add: disk_page_file_update length_write_at write_at_def memset_def slice_def)
  qed
  show thesis by (rule that [OF w di _ _ l _ other same]) simp_all
qed

lemma write_hdr_mono:
  assumes b: "env_ok b" and fd: "data_fd (disk b) fd"
  obtains d where "write_out (PageId fd RM_FILE_HDR_PAGE) (RmFileHdr_bytes h) b = (Inr (), b\<lparr>disk := d\<rparr>)"
    and "env_ok (b\<lparr>disk := d\<rparr>)" and "disk_mono {PageId fd 0} (disk b) d"
    and "\<And>a. dpage (disk b) (PageId fd 0) = Some a \<Longrightarrow> dpage d (PageId fd 0) = Some (memcpy a 0 (RmFileHdr_bytes h))"
proof -
  have i: "disk_inv (disk b)" using b by (simp add: env_ok_def)
  have len: "RmFileHdr_bytes h \<noteq> []" "length (RmFileHdr_bytes h) \<le> PAGE_SIZE"
    by (simp_all add: RmFileHdr_size_def PAGE_SIZE_def flip: length_greater_0_conv)
  obtain d where w: "write_page fd 0 (RmFileHdr_bytes h) (disk b) = (Inr (), d)" and di: "disk_inv d"
    and t: "fd2path d = fd2path (disk b)" "fd2pageno d = fd2pageno (disk b)"
    and l: "log_file d = log_file (disk b)" "log_ready d = log_ready (disk b)"
      "px_max_file (os d) = px_max_file (os (disk b))"
    and other: "\<And>fd' m a. page_ok m \<Longrightarrow> (fd', m) \<noteq> (fd, 0) \<Longrightarrow> disk_page (disk b) fd' m = Some a \<Longrightarrow> disk_page d fd' m = Some a"
    and same: "\<And>a. disk_page (disk b) fd 0 = Some a \<Longrightarrow> disk_page d fd 0 = Some (memcpy a 0 (RmFileHdr_bytes h))"
    by (rule write_short_page [OF i fd len]) blast
  have "disk_mono {PageId fd 0} (disk b) d"
    unfolding disk_mono_def
  proof (intro conjI allI impI)
    fix q a
    assume "q \<notin> {PageId fd 0}" "page_ok (pid_no q)" "dpage (disk b) q = Some a"
    then show "dpage d q = Some a" using other [of "pid_no q" "pid_fd q" a] by (cases q) (auto simp: dpage_def)
  qed (simp_all add: t)
  moreover have "env_ok (b\<lparr>disk := d\<rparr>)"
    using b di l by (auto simp: env_ok_def log_inv_def log_stream_def)
  moreover have "write_out (PageId fd RM_FILE_HDR_PAGE) (RmFileHdr_bytes h) b = (Inr (), b\<lparr>disk := d\<rparr>)"
    using w by (simp add: write_out_def RM_FILE_HDR_PAGE_def)
  ultimately show thesis using same by (intro that [of d]) (simp_all add: dpage_def)
qed

section \<open>Holding a page\<close>

abbreviation pid_of :: "rm_file \<Rightarrow> int \<Rightarrow> PageId" where
  "pid_of rm n \<equiv> PageId (rm_fd rm) n"

definition holds :: "(int \<Rightarrow> int) \<Rightarrow> rm_file \<Rightarrow> int \<Rightarrow> nat \<Rightarrow> bytes \<Rightarrow> rm_file \<Rightarrow> bool" where
  "holds m rm0 n f c rm \<longleftrightarrow> rm_fd rm = rm_fd rm0 \<and> bpm_inv (pool rm) \<and> n \<noteq> 0 \<and>
     map_of (page_table (pool rm)) (pid_of rm0 n) = Some f \<and> page_bytes f rm = c \<and>
     pin_of (pool rm) (pid_of rm0 n) = pin_of (pool rm0) (pid_of rm0 n) + 1 \<and>
     0 \<le> pin_of (pool rm0) (pid_of rm0 n) \<and> pin_of (pool rm0) (pid_of rm0 0) = 0 \<and>
     pool_frame {pid_of rm0 n, pid_of rm0 0} (pool rm0) (pool rm) \<and>
     map_of (page_table (pool rm)) (pid_of rm0 0) = None \<and> fd2pageno (disk (pool rm)) = m \<and>
     (\<forall>fd. fd \<noteq> rm_fd rm0 \<longrightarrow> m fd = fd2pageno (disk (pool rm0)) fd)"

lemma pool_frame_mono: "pool_frame P b b' \<Longrightarrow> P \<subseteq> Q \<Longrightarrow> pool_frame Q b b'"
  unfolding pool_frame_def by (intro conjI) blast+

lemma holdsD:
  assumes "holds m rm0 n f c rm"
  shows "page_bytes f rm = c" "page_no_of f rm = n" "rm_fd rm = rm_fd rm0" "length c = PAGE_SIZE"
    "pg_id (pages (pool rm) ! f) = pid_of rm0 n" "f < length (pages (pool rm))"
proof -
  have b: "bpm_inv (pool rm)" "map_of (page_table (pool rm)) (pid_of rm0 n) = Some f" "page_bytes f rm = c"
    using assms by (simp_all add: holds_def)
  from resident_facts [OF b(1,2)] b(3) show "page_no_of f rm = n" "length c = PAGE_SIZE"
    "pg_id (pages (pool rm) ! f) = pid_of rm0 n" "f < length (pages (pool rm))"
    by (simp_all add: page_no_of_def page_bytes_def)
qed (use assms in \<open>simp_all add: holds_def\<close>)

lemma holds_hdr [simp]:
  "holds m rm0 n f c (rm\<lparr>file_hdr := h\<rparr>) = holds m rm0 n f c rm"
  by (simp add: holds_def page_bytes_def)

lemma holds_put:
  assumes r: "holds m rm0 n f c rm" and l: "length c' = PAGE_SIZE"
  shows "holds m rm0 n f c' (put_bytes f c' rm)"
proof -
  let ?p = "pid_of rm0 n" and ?b = "pool rm"
  have b: "bpm_inv ?b" "map_of (page_table ?b) ?p = Some f" "0 < pin_of ?b ?p" "pool_frame {?p, pid_of rm0 0} (pool rm0) ?b"
    using r by (auto simp: holds_def)
  note s = set_data_ok [OF b(1-3) l]
  have "pool_frame {?p, pid_of rm0 0} ?b (set_data f c' ?b)" using s(4) by (rule pool_frame_mono) simp
  with b(4) have "pool_frame {?p, pid_of rm0 0} (pool rm0) (set_data f c' ?b)"
    by (rule pool_frame_trans) (use b(2,3) r in \<open>auto simp: holds_def pin_of_def\<close>)
  then show ?thesis using r s holdsD(6) [OF r] by (simp add: holds_def put_bytes_def page_bytes_def)
qed


lemma write_hdr_pool:
  assumes b: "bpm_inv b" and fd: "data_fd (disk b) fd" and n: "map_of (page_table b) (PageId fd 0) = None"
  obtains d where "write_out (PageId fd RM_FILE_HDR_PAGE) (RmFileHdr_bytes h) b = (Inr (), b\<lparr>disk := d\<rparr>)"
    and "bpm_inv (b\<lparr>disk := d\<rparr>)" and "pool_frame {PageId fd 0} b (b\<lparr>disk := d\<rparr>)" and "fd2pageno d = fd2pageno (disk b)"
    and "\<And>a. dpage (disk b) (PageId fd 0) = Some a \<Longrightarrow> dpage d (PageId fd 0) = Some (memcpy a 0 (RmFileHdr_bytes h))"
proof -
  note parts = bpm_invD [OF b]
  obtain d where w: "write_out (PageId fd RM_FILE_HDR_PAGE) (RmFileHdr_bytes h) b = (Inr (), b\<lparr>disk := d\<rparr>)"
    and e: "env_ok (b\<lparr>disk := d\<rparr>)" and m: "disk_mono {PageId fd 0} (disk b) d"
    and s: "\<And>a. dpage (disk b) (PageId fd 0) = Some a \<Longrightarrow> dpage d (PageId fd 0) = Some (memcpy a 0 (RmFileHdr_bytes h))"
    by (rule write_hdr_mono [OF parts(1) fd, of h]) blast
  have "sync_ok {} (b\<lparr>disk := d\<rparr>)"
    using parts(3,6) m by (rule sync_ok_mono) (use n in \<open>force simp: map_of_eq_None_iff\<close>)
  moreover have "table_ok (b\<lparr>disk := d\<rparr>)" using parts(3) m by (rule table_ok_mono)
  ultimately have "bpm_inv (b\<lparr>disk := d\<rparr>)" using parts e by (simp add: bpm_inv_def)
  with w s pool_frame_disk [OF parts(3) m] disk_mono_pageno [OF m] show thesis by (intro that)
qed

lemma data_fd_frame:
  assumes "pool_frame P b b'" and "data_fd (disk b) fd"
  shows "data_fd (disk b') fd"
proof -
  have "valid_pid (disk b) (PageId fd 0)" using assms(2) by (simp add: valid_pid_def page_ok_def)
  with assms(1) have "valid_pid (disk b') (PageId fd 0)" by (simp add: pool_frame_def)
  then show ?thesis by (simp add: valid_pid_def)
qed

lemma holds_write_hdr:
  assumes r: "holds m rm0 n f c rm" and fd: "data_fd (disk (pool rm0)) (rm_fd rm0)"
  obtains rm' where "write_hdr rm = (Inr (), rm')" and "holds m rm0 n f c rm'" and "file_hdr rm' = file_hdr rm"
proof -
  let ?p = "pid_of rm0 n" and ?q = "pid_of rm0 0" and ?b = "pool rm"
  have b: "bpm_inv ?b" "map_of (page_table ?b) ?q = None" "pool_frame {?p, ?q} (pool rm0) ?b" "rm_fd rm = rm_fd rm0"
    using r by (auto simp: holds_def)
  obtain d where w: "write_out (PageId (rm_fd rm0) RM_FILE_HDR_PAGE) (RmFileHdr_bytes (file_hdr rm)) ?b = (Inr (), ?b\<lparr>disk := d\<rparr>)"
    and i: "bpm_inv (?b\<lparr>disk := d\<rparr>)" and fr: "pool_frame {?q} ?b (?b\<lparr>disk := d\<rparr>)" and pn: "fd2pageno d = fd2pageno (disk ?b)"
    by (rule write_hdr_pool [OF b(1) data_fd_frame [OF b(3) fd] b(2), of "file_hdr rm"]) blast
  have "pool_frame {?p, ?q} ?b (?b\<lparr>disk := d\<rparr>)" using fr by (rule pool_frame_mono) simp
  with b(3) have f2: "pool_frame {?p, ?q} (pool rm0) (?b\<lparr>disk := d\<rparr>)"
    by (rule pool_frame_trans) (use r in \<open>auto simp: holds_def\<close>)
  let ?rm = "rm\<lparr>pool := ?b\<lparr>disk := d\<rparr>\<rparr>"
  have "write_hdr rm = (Inr (), ?rm)" using w b(4) by (simp add: write_hdr_def lift_pool_def)
  moreover have "holds m rm0 n f c ?rm" using r i f2 pn by (simp add: holds_def page_bytes_def)
  ultimately show thesis by (intro that [of ?rm]) simp_all
qed


section \<open>The file over the pool\<close>

definition page_of :: "rm_file \<Rightarrow> int \<Rightarrow> bytes" where
  "page_of rm n = the (content (pool rm) (pid_of rm n))"

definition pool_side :: "rm_file \<Rightarrow> bool" where
  "pool_side rm \<longleftrightarrow> bpm_inv (pool rm) \<and> card {q. 0 < pin_of (pool rm) q} < pool_size (pool rm) \<and>
     0 \<le> rm_fd rm \<and> rm_fd rm < MAX_FD \<and> data_fd (disk (pool rm)) (rm_fd rm) \<and>
     fd2pageno (disk (pool rm)) (rm_fd rm) = num_pages (file_hdr rm) \<and>
     (\<forall>q \<in> fst ` set (page_table (pool rm)). pid_fd q = rm_fd rm \<longrightarrow> pid_no q \<in> data_pages (file_hdr rm)) \<and>
     (\<forall>n \<in> data_pages (file_hdr rm). content (pool rm) (pid_of rm n) \<noteq> None)"

definition rm_inv :: "rm_file \<Rightarrow> bool" where
  "rm_inv rm \<longleftrightarrow> pool_side rm \<and> file_wf (file_hdr rm) (page_of rm)"

definition rm_map :: "rm_file \<Rightarrow> Rid \<rightharpoonup> bytes" where
  "rm_map rm = file_map (file_hdr rm) (page_of rm)"

text \<open>No pin is left over and the pages of other files are as they were.\<close>

definition others_kept :: "rm_file \<Rightarrow> rm_file \<Rightarrow> bool" where
  "others_kept rm rm' \<longleftrightarrow> rm_fd rm' = rm_fd rm \<and> pin_of (pool rm') = pin_of (pool rm) \<and> pool_size (pool rm') = pool_size (pool rm) \<and>
     (\<forall>q c. pid_fd q \<noteq> rm_fd rm \<longrightarrow> page_ok (pid_no q) \<longrightarrow> content (pool rm) q = Some c \<longrightarrow> content (pool rm') q = Some c) \<and>
     (\<forall>fd. fd \<noteq> rm_fd rm \<longrightarrow> fd2pageno (disk (pool rm')) fd = fd2pageno (disk (pool rm)) fd) \<and>
     (\<forall>q \<in> fst ` set (page_table (pool rm')). pid_fd q \<noteq> rm_fd rm \<longrightarrow> q \<in> fst ` set (page_table (pool rm))) \<and>
     (\<forall>fd. data_fd (disk (pool rm)) fd \<longrightarrow> data_fd (disk (pool rm')) fd)"

lemma not_resident:
  assumes "pool_side rm" and "n \<notin> data_pages (file_hdr rm)"
  shows "map_of (page_table (pool rm)) (pid_of rm n) = None"
  using assms by (force simp: pool_side_def map_of_eq_None_iff)

lemma hdr_not_data: "0 \<notin> data_pages h"
  by (simp add: data_pages_def RM_FIRST_RECORD_PAGE_def)

lemma holds_fetched:
  assumes s: "pool_side rm" and f: "fetched (pid_of rm n) c f (pool rm) b'" and n: "n \<noteq> 0"
    and pn: "\<And>fd. fd \<noteq> rm_fd rm \<Longrightarrow> fd2pageno (disk b') fd = fd2pageno (disk (pool rm)) fd"
  shows "holds (fd2pageno (disk b')) rm n f c (rm\<lparr>pool := b'\<rparr>)"
proof -
  have h: "map_of (page_table (pool rm)) (pid_of rm 0) = None" using s hdr_not_data by (rule not_resident)
  have i: "bpm_inv (pool rm)" using s by (simp add: pool_side_def)
  have fr: "pool_frame {pid_of rm n} (pool rm) b'" using f by (simp add: fetched_def)
  have "fst ` set (page_table b') \<subseteq> fst ` set (page_table (pool rm)) \<union> {pid_of rm n}" using fr by (rule pool_frame_table)
  then have "map_of (page_table b') (pid_of rm 0) = None" using h n by (auto simp: map_of_eq_None_iff)
  moreover have "pool_frame {pid_of rm n, pid_of rm 0} (pool rm) b'" using fr by (rule pool_frame_mono) simp
  moreover have "pin_of (pool rm) (pid_of rm 0) = 0" using h by (simp add: pin_of_def)
  ultimately show ?thesis
    using f n h pn pin_of_nonneg [OF i] by (simp add: holds_def fetched_def page_bytes_def)
qed

lemma holds_fetch:
  assumes r: "pool_side rm" and n: "n \<in> data_pages (file_hdr rm)" "page_ok n"
  obtains f rm' where "fetch_page_handle n rm = (Inr (Some f), rm')"
    and "holds (fd2pageno (disk (pool rm))) rm n f (page_of rm n) rm'" and "file_hdr rm' = file_hdr rm"
proof -
  have i: "bpm_inv (pool rm)" and v: "valid_pid (disk (pool rm)) (pid_of rm n)"
    and room: "card {q. 0 < pin_of (pool rm) q} < pool_size (pool rm)"
    and c: "content (pool rm) (pid_of rm n) = Some (page_of rm n)"
    using r n by (auto simp: pool_side_def valid_pid_def page_of_def)
  have "\<not> all_pinned (pool rm)" using pinned_pages_all [OF i] room by (simp add: pinned_pages_def)
  with fetch_page_ok [OF i v c] obtain f b' where
    f: "fetch_page (pid_of rm n) (pool rm) = (Inr (Some f), b')" "fetched (pid_of rm n) (page_of rm n) f (pool rm) b'" by metis
  have "fd2pageno (disk b') = fd2pageno (disk (pool rm))" using pageno_fetch [of "pid_of rm n" "pool rm"] f(1) by simp
  moreover have "n \<noteq> 0" using n(1) hdr_not_data by auto
  ultimately show thesis
    using f(1) holds_fetched [OF r f(2)] by (intro that [of f "rm\<lparr>pool := b'\<rparr>"]) (simp_all add: fetch_page_handle_def lift_pool_def)
qed

lemma holds_new:
  assumes r: "pool_side rm" and n: "n = num_pages (file_hdr rm)" "page_ok n" "n \<noteq> 0"
  obtains f b' where "new_page (rm_fd rm) (pool rm) = (Inr (Some (pid_of rm n, f)), b')"
    and "holds ((fd2pageno (disk (pool rm)))(rm_fd rm := n + 1)) rm n f (memset PAGE_SIZE 0) (rm\<lparr>pool := b'\<rparr>)"
proof -
  have i: "bpm_inv (pool rm)" and v: "valid_pid (disk (pool rm)) (pid_of rm n)" and fd: "0 \<le> rm_fd rm" "rm_fd rm < MAX_FD"
    and room: "card {q. 0 < pin_of (pool rm) q} < pool_size (pool rm)" and fn: "n = fd2pageno (disk (pool rm)) (rm_fd rm)"
    using r n by (auto simp: pool_side_def valid_pid_def)
  have new: "map_of (page_table (pool rm)) (pid_of rm n) = None"
    using r by (rule not_resident) (simp add: n data_pages_def)
  have np: "\<not> all_pinned (pool rm)" using pinned_pages_all [OF i] room by (simp add: pinned_pages_def)
  from new_page_ok [OF i fd fn v new] np obtain f b' where
    f: "new_page (rm_fd rm) (pool rm) = (Inr (Some (pid_of rm n, f)), b')"
      "fetched (pid_of rm n) (memset PAGE_SIZE 0) f (pool rm) b'"
      "fd2pageno (disk b') = (fd2pageno (disk (pool rm)))(rm_fd rm := n + 1)" by metis
  show thesis using f(1) holds_fetched [OF r f(2) n(3)] f(3) by (intro that) simp_all
qed

text \<open>Releasing the page ends the operation.\<close>

lemma released_gen:
  assumes s: "pool_side rm0" and r: "holds m rm0 n f c rm"
    and h: "m (rm_fd rm0) = num_pages (file_hdr rm)" "data_pages (file_hdr rm) = insert n (data_pages (file_hdr rm0))"
    and ok: "\<And>k. k \<in> data_pages (file_hdr rm) \<Longrightarrow> page_ok k"
    and safe: "dirty \<or> synced (pool rm) (pid_of rm0 n) \<or> 1 < pin_of (pool rm) (pid_of rm0 n)"
    and e: "rm' = unpin n dirty rm"
  shows "pool_side rm'" and "file_hdr rm' = file_hdr rm" and "page_of rm' n = c"
    and "\<And>k. k \<in> data_pages (file_hdr rm0) \<Longrightarrow> k \<noteq> n \<Longrightarrow> page_of rm' k = page_of rm0 k"
    and "others_kept rm0 rm'" and "page_bytes f rm' = c"
proof -
  let ?p = "pid_of rm0 n" and ?q = "pid_of rm0 0" and ?b = "pool rm"
  have b: "bpm_inv ?b" "map_of (page_table ?b) ?p = Some f" "0 < pin_of ?b ?p" "pool_frame {?p, ?q} (pool rm0) ?b"
    "rm_fd rm = rm_fd rm0" "fd2pageno (disk ?b) = m" "map_of (page_table ?b) ?q = None"
    using r by (auto simp: holds_def)
  obtain b' where u: "unpin_page ?p dirty ?b = (True, b')" "bpm_inv b'" "pool_frame {?p} ?b b'"
    "content b' ?p = content ?b ?p" "pin_of b' ?p = pin_of ?b ?p - 1" "map_of (page_table b') ?p = Some f"
    using unpin_page_ok [OF b(1-3) safe] by metis
  have rm': "rm' = rm\<lparr>pool := b'\<rparr>" using u(1) b(5) by (simp add: e unpin_def)
  then show fh: "file_hdr rm' = file_hdr rm" by simp
  have cp: "content b' ?p = Some c" using u(4) b(2) holdsD(1) [OF r] by (simp add: content_def page_bytes_def)
  then show "page_of rm' n = c" using b(5) by (simp add: page_of_def rm')
  show "page_bytes f rm' = c" using cp u(6) by (simp add: page_bytes_def rm' content_def)
  have "pool_frame {?p, ?q} ?b b'" using u(3) by (rule pool_frame_mono) simp
  with b(4) have fr: "pool_frame {?p, ?q} (pool rm0) b'"
    by (rule pool_frame_trans) (use r in \<open>auto simp: holds_def\<close>)
  have keep: "content b' q = Some a" if "q \<notin> {?p, ?q}" "page_ok (pid_no q)" "content (pool rm0) q = Some a" for q a
    using fr that unfolding pool_frame_def by blast
  show po: "page_of rm' k = page_of rm0 k" if "k \<in> data_pages (file_hdr rm0)" "k \<noteq> n" for k
  proof -
    from that(1) s obtain a where "content (pool rm0) (pid_of rm0 k) = Some a" by (fastforce simp: pool_side_def)
    moreover from this have "content b' (pid_of rm0 k) = Some a"
      using that ok [of k] h(2) hdr_not_data [of "file_hdr rm0"] by (intro keep) auto
    ultimately show ?thesis using b(5) by (simp add: page_of_def rm')
  qed
  have hq: "map_of (page_table b') ?q = None"
    using pool_frame_table [OF u(3)] b(7) holds_def [of m rm0 n f c rm] r by (auto simp: map_of_eq_None_iff)
  have pins: "pin_of b' q = pin_of (pool rm0) q" for q
  proof (cases "q = ?p")
    case True
    then show ?thesis using u(5) r by (simp add: holds_def)
  next
    case False
    then show ?thesis
    proof (cases "q = ?q")
      case True
      then show ?thesis using hq r by (simp add: pin_of_def holds_def)
    qed (use fr False in \<open>simp add: pool_frame_def\<close>)
  qed
  have size: "pool_size b' = pool_size (pool rm0)" using fr by (simp add: pool_frame_def)
  have pn: "fd2pageno (disk b') = m" using pageno_unpin [of ?p dirty ?b] u(1) b(6) by simp
  show "others_kept rm0 rm'"
    unfolding others_kept_def
  proof (intro conjI allI impI)
    fix q a
    assume "pid_fd q \<noteq> rm_fd rm0" "page_ok (pid_no q)" "content (pool rm0) q = Some a"
    then show "content (pool rm') q = Some a" using keep [of q a] by (cases q) (simp add: rm')
  next
    fix fd
    assume "fd \<noteq> rm_fd rm0"
    then show "fd2pageno (disk (pool rm')) fd = fd2pageno (disk (pool rm0)) fd" using pn r by (simp add: rm' holds_def)
  next
    show "\<forall>q \<in> fst ` set (page_table (pool rm')). pid_fd q \<noteq> rm_fd rm0 \<longrightarrow> q \<in> fst ` set (page_table (pool rm0))"
      using pool_frame_table [OF fr] by (auto simp: rm')
  next
    fix fd
    assume "data_fd (disk (pool rm0)) fd"
    then show "data_fd (disk (pool rm')) fd" using data_fd_frame [OF fr] by (simp add: rm')
  qed (use b(5) pins size in \<open>simp_all add: rm' fun_eq_iff\<close>)
  have "content b' (pid_of rm0 k) \<noteq> None" if "k \<in> data_pages (file_hdr rm)" for k
  proof (cases "k = n")
    case False
    then have k: "k \<in> data_pages (file_hdr rm0)" using that h(2) by simp
    then obtain a where "content (pool rm0) (pid_of rm0 k) = Some a" using s by (fastforce simp: pool_side_def)
    then have "content b' (pid_of rm0 k) = Some a"
      using False k ok [OF that] hdr_not_data [of "file_hdr rm0"] by (intro keep) auto
    then show ?thesis by simp
  qed (use cp in simp)
  moreover have "pid_no q \<in> data_pages (file_hdr rm)" if q: "q \<in> fst ` set (page_table b')" "pid_fd q = rm_fd rm0" for q
  proof -
    have "q \<in> fst ` set (page_table (pool rm0)) \<or> q = ?p \<or> q = ?q" using pool_frame_table [OF fr] q(1) by blast
    moreover have "q \<noteq> ?q" using hq q(1) by (metis map_of_eq_None_iff)
    ultimately show ?thesis using s q(2) h(2) by (auto simp: pool_side_def)
  qed
  ultimately show "pool_side rm'"
    using s b(5) pn h(1) u(2) pins size data_fd_frame [OF fr] by (simp add: pool_side_def rm')
qed


lemma released:
  assumes "pool_side rm0" and "holds m rm0 n f c rm"
    and "m (rm_fd rm0) = num_pages (file_hdr rm)" "data_pages (file_hdr rm) = insert n (data_pages (file_hdr rm0))"
    and "\<And>k. k \<in> data_pages (file_hdr rm) \<Longrightarrow> page_ok k"
  shows "pool_side (unpin n True rm)" and "file_hdr (unpin n True rm) = file_hdr rm" and "page_of (unpin n True rm) n = c"
    and "\<And>k. k \<in> data_pages (file_hdr rm0) \<Longrightarrow> k \<noteq> n \<Longrightarrow> page_of (unpin n True rm) k = page_of rm0 k"
    and "others_kept rm0 (unpin n True rm)" and "page_bytes f (unpin n True rm) = c"
  using released_gen [OF assms(1-4) _ _ refl, of True] assms(5) by blast+

text \<open>An operation on one page of a well-formed file.\<close>

lemma data_page_ok: "rm_inv rm \<Longrightarrow> k \<in> data_pages (file_hdr rm) \<Longrightarrow> page_ok k"
  using data_page_int32 [of "file_hdr rm" "page_of rm"] by (simp add: rm_inv_def)

lemma rm_invD:
  assumes "rm_inv rm"
  shows "pool_side rm" "file_wf (file_hdr rm) (page_of rm)" "layout_ok (file_hdr rm)" "data_fd (disk (pool rm)) (rm_fd rm)"
    "fd2pageno (disk (pool rm)) (rm_fd rm) = num_pages (file_hdr rm)"
  using assms by (auto simp: rm_inv_def pool_side_def file_wfD)

text \<open>
  The page is held and the file is the file of \<open>h\<close> and \<open>g\<close>, which has the same records as at the
  start of the operation: nothing was done yet, or an empty page was added.
\<close>

definition working :: "(int \<Rightarrow> int) \<Rightarrow> rm_file \<Rightarrow> int \<Rightarrow> nat \<Rightarrow> RmFileHdr \<Rightarrow> (int \<Rightarrow> bytes) \<Rightarrow> rm_file \<Rightarrow> bool" where
  "working m rm n f h g rm1 \<longleftrightarrow> holds m rm n f (g n) rm1 \<and> m (rm_fd rm) = num_pages h \<and> file_hdr rm1 = h \<and> file_wf h g \<and>
     file_map h g = rm_map rm \<and> data_pages h = insert n (data_pages (file_hdr rm)) \<and> record_size h = record_size (file_hdr rm) \<and>
     (\<forall>k \<in> data_pages (file_hdr rm). k \<noteq> n \<longrightarrow> g k = page_of rm k)"

lemma workingD:
  assumes "working m rm n f h g rm1"
  shows "holds m rm n f (g n) rm1" "m (rm_fd rm) = num_pages h" "file_hdr rm1 = h" "file_wf h g"
    "file_map h g = rm_map rm" "data_pages h = insert n (data_pages (file_hdr rm))" "n \<in> data_pages h"
    "\<And>k. k \<in> data_pages (file_hdr rm) \<Longrightarrow> k \<noteq> n \<Longrightarrow> g k = page_of rm k" "layout_ok h" "page_wf h (g n)"
    "length (g n) = PAGE_SIZE" "page_bytes f rm1 = g n" "page_no_of f rm1 = n" "record_size h = record_size (file_hdr rm)"
  using assms holdsD [of m rm n f "g n" rm1] file_wfD [of h g] by (auto simp: working_def)

lemma working_fetch:
  assumes i: "rm_inv rm" and n: "n \<in> data_pages (file_hdr rm)"
  obtains f rm1 where "fetch_page_handle n rm = (Inr (Some f), rm1)"
    and "working (fd2pageno (disk (pool rm))) rm n f (file_hdr rm) (page_of rm) rm1"
proof -
  note w = rm_invD [OF i]
  obtain f rm1 where "fetch_page_handle n rm = (Inr (Some f), rm1)" "file_hdr rm1 = file_hdr rm"
    "holds (fd2pageno (disk (pool rm))) rm n f (page_of rm n) rm1"
    using holds_fetch [OF w(1) n data_page_ok [OF i n]] by metis
  then show thesis using w n by (intro that [of f rm1]) (auto simp: working_def rm_map_def)
qed

lemma put_bytes_hdr [simp]: "file_hdr (put_bytes f c rm) = file_hdr rm" "rm_fd (put_bytes f c rm) = rm_fd rm"
  by (simp_all add: put_bytes_def)

lemma working_new:
  assumes i: "rm_inv rm" and n: "n = num_pages (file_hdr rm)" "n < 2 ^ 19" and no: "first_free_page_no (file_hdr rm) = RM_NO_PAGE"
  obtains m f g rm1 where "create_new_page_handle rm = (Inr (Some f), rm1)"
    and "working m rm n f ((file_hdr rm)\<lparr>first_free_page_no := n, num_pages := n + 1\<rparr>) g rm1"
    and "page_slot (file_hdr rm) (g n) = Map.empty"
proof -
  note w = rm_invD [OF i]
  let ?h = "file_hdr rm" and ?m = "(fd2pageno (disk (pool rm)))(rm_fd rm := n + 1)"
  let ?h' = "?h\<lparr>first_free_page_no := n, num_pages := n + 1\<rparr>"
  have ok: "page_ok n" "n \<noteq> 0" using n file_wfD(2) [OF w(2)] by (auto simp: page_ok_def)
  obtain f b1 where f: "new_page (rm_fd rm) (pool rm) = (Inr (Some (pid_of rm n, f)), b1)"
    and r1: "holds ?m rm n f (memset PAGE_SIZE 0) (rm\<lparr>pool := b1\<rparr>)"
    using holds_new [OF w(1) n(1) ok] by metis
  let ?z = "set_next_free RM_NO_PAGE (set_num_records 0 (memset PAGE_SIZE 0))"
  let ?c = "bm_init bitmap_off (bm_size ?h) ?z"
  have c0: "length ?z = PAGE_SIZE" "get_next_free ?z = RM_NO_PAGE" "get_num_records ?z = 0"
    by (simp_all add: RM_NO_PAGE_def int32_def)
  note pi = page_slot_init [OF w(3) c0(1)]
  let ?rmb = "(put_bytes f ?c (rm\<lparr>pool := b1\<rparr>))\<lparr>file_hdr := ?h'\<rparr>"
  have "holds ?m rm n f ?c ?rmb" using holds_put [OF r1 pi(2)] by simp
  then obtain rm3 where w3: "write_hdr ?rmb = (Inr (), rm3)" and r3: "holds ?m rm n f ?c rm3" and "file_hdr rm3 = file_hdr ?rmb"
    using w(4) by (rule holds_write_hdr)
  then have h3: "file_hdr rm3 = ?h'" by simp
  have "create_new_page_handle rm = (Inr (Some f), rm3)"
    using f w3 holdsD(1) [OF r1] n(1)
    by (simp add: create_new_page_handle_def lift_pool_def Let_def set_first_free_def)
  moreover have nd: "n \<notin> data_pages ?h" using n by (simp add: data_pages_def)
  define g where "g = (page_of rm)(n := ?c)"
  have o: "g k = page_of rm k" if "k \<in> data_pages ?h" for k using that nd by (auto simp: g_def)
  have gn: "g n = ?c" by (simp add: g_def)
  have "file_wf ?h' g" "file_map ?h' g = file_map ?h (page_of rm)"
    using file_wf_new [OF w(2) no n(2) [unfolded n(1)] o, folded n(1)] pi c0 gn by simp_all
  then have "working ?m rm n f ?h' g rm3"
    using r3 h3 n o gn file_wfD(2) [OF w(2)]
    by (auto simp: working_def rm_map_def data_pages_def RM_FIRST_RECORD_PAGE_def)
  ultimately show thesis using pi(1) gn by (intro that [of f rm3 ?m g]) auto
qed

text \<open>The header after the page became the bytes \<open>c\<close>, whatever its log sequence number.\<close>

definition settled :: "RmFileHdr \<Rightarrow> (int \<Rightarrow> bytes) \<Rightarrow> int \<Rightarrow> bytes \<Rightarrow> RmFileHdr \<Rightarrow> bool" where
  "settled h g n c h' \<longleftrightarrow> (\<exists>x. h' = h\<lparr>first_free_page_no := x\<rparr>) \<and> page_wf h c \<and>
     (\<forall>g'. (\<forall>k \<in> data_pages h. k \<noteq> n \<longrightarrow> g' k = g k) \<longrightarrow> page_wf h (g' n) \<longrightarrow> get_next_free (g' n) = get_next_free c \<longrightarrow>
        has_room h (g' n) = has_room h c \<longrightarrow> file_wf h' g')"

lemma settled_keep:
  assumes "file_wf h g" and "n \<in> data_pages h" and "page_wf h c" and "get_next_free c = get_next_free (g n)"
    and "has_room h c = has_room h (g n)"
  shows "settled h g n c h"
  using assms file_wf_keep [OF assms(1,2)] by (auto simp: settled_def intro: exI [of _ "first_free_page_no h"])

lemma settled_retire:
  assumes "file_wf h g" and "n = first_free_page_no h" "n \<in> data_pages h" and "page_wf h c" "\<not> has_room h c"
  shows "settled h g n c (h\<lparr>first_free_page_no := get_next_free (g n)\<rparr>)"
  using assms file_wf_retire [OF assms(1-3)] by (auto simp: settled_def)

lemma settled_release:
  assumes "file_wf h g" and "n \<in> data_pages h" "\<not> has_room h (g n)" and "page_wf h c" "has_room h c"
    and "get_next_free c = first_free_page_no h"
  shows "settled h g n c (h\<lparr>first_free_page_no := n\<rparr>)"
  using assms file_wf_release [OF assms(1-3)] by (auto simp: settled_def)

lemma holds_stamp:
  assumes "holds m rm0 n f c rm"
  shows "holds m rm0 n f (case ctx of None \<Rightarrow> c | Some l \<Rightarrow> set_lsn_bytes l c) (stamp_lsn ctx f rm)"
    and "file_hdr (stamp_lsn ctx f rm) = file_hdr rm"
  using assms holds_put [OF assms] holdsD [OF assms]
  by (auto simp: stamp_lsn_def split: option.split)

lemma stamp_views:
  assumes h: "layout_ok h" and c: "page_wf h c"
  shows "page_slot h (case ctx of None \<Rightarrow> c | Some l \<Rightarrow> set_lsn_bytes l c) = page_slot h c"
    "page_wf h (case ctx of None \<Rightarrow> c | Some l \<Rightarrow> set_lsn_bytes l c)"
    "get_next_free (case ctx of None \<Rightarrow> c | Some l \<Rightarrow> set_lsn_bytes l c) = get_next_free c"
    "has_room h (case ctx of None \<Rightarrow> c | Some l \<Rightarrow> set_lsn_bytes l c) = has_room h c"
  using assms page_ints_wf [OF h c] by (auto simp: page_wf_def split: option.split)

text \<open>The end of every operation: stamp the page and release it.\<close>

lemma finish_op:
  assumes i: "rm_inv rm" and wk: "working m rm n f h g rm1" and r: "holds m rm n f c rm3"
    and st: "settled h g n c (file_hdr rm3)" and sl: "page_slot h c = (page_slot h (g n))(s := v)"
    and e: "rm' = unpin n True (stamp_lsn ctx f rm3)"
  shows "rm_inv rm'" and "rm_map rm' = (rm_map rm)(Rid n (int s) := v)" and "others_kept rm rm'"
    and "record_size (file_hdr rm') = record_size (file_hdr rm)" and "num_pages (file_hdr rm') = num_pages h"
proof -
  note wd = workingD [OF wk] and r5 = holds_stamp [OF r, of ctx]
  obtain x where x: "file_hdr rm3 = h\<lparr>first_free_page_no := x\<rparr>" and pw: "page_wf h c" using st by (auto simp: settled_def)
  let ?rm = "stamp_lsn ctx f rm3"
  have np: "m (rm_fd rm) = num_pages (file_hdr ?rm)" and dp: "data_pages (file_hdr ?rm) = insert n (data_pages (file_hdr rm))"
    using wd(2,6) x r5(2) by simp_all
  have ok: "page_ok k" if "k \<in> data_pages (file_hdr ?rm)" for k
    using data_page_int32 [OF wd(4)] that x r5(2) by simp
  note rel = released [OF rm_invD(1) [OF i] r5(1) np dp ok, folded e] and sv = stamp_views [OF wd(9) pw, of ctx]
  have other: "page_of rm' k = g k" if "k \<in> data_pages h" "k \<noteq> n" for k
    using rel(4) [of k] wd(8) [of k] that wd(6) by simp
  have "page_slot h (page_of rm' n) = (page_slot h (g n))(s := v)" using rel(3) sv(1) sl by simp
  then have "file_map h (page_of rm') = (file_map h g)(Rid n (int s) := v)"
    by (intro file_map_page wd(7)) (use other in auto)
  moreover have "file_map (file_hdr rm') = file_map h"
    using rel(2) r5(2) x by (auto simp: fun_eq_iff file_map_def)
  ultimately show "rm_map rm' = (rm_map rm)(Rid n (int s) := v)" using wd(5) by (simp add: rm_map_def)
  have "file_wf (file_hdr rm3) (page_of rm')"
    using st other rel(3) sv by (simp add: settled_def)
  then show "rm_inv rm'" using rel(1,2) r5(2) by (simp add: rm_inv_def)
  show "others_kept rm rm'" by (rule rel(5))
  show "record_size (file_hdr rm') = record_size (file_hdr rm)" "num_pages (file_hdr rm') = num_pages h"
    using rel(2) r5(2) x wd(14) by simp_all
qed

section \<open>The operations\<close>

lemma rm_map_page:
  assumes "rm_map rm r = Some x"
  shows "rid_page r \<in> data_pages (file_hdr rm)" "0 \<le> rid_slot r"
    "page_slot (file_hdr rm) (page_of rm (rid_page r)) (nat (rid_slot r)) = Some x"
    "Rid (rid_page r) (int (nat (rid_slot r))) = r"
  using assms by (auto simp: rm_map_def file_map_def split: if_splits)

lemma update_record_ok:
  assumes i: "rm_inv rm" and r: "rm_map rm r = Some x" and b: "length buf = rec_size (file_hdr rm)"
  shows "\<exists>rm'. update_record r buf ctx rm = (Inr (), rm') \<and> rm_inv rm' \<and> rm_map rm' = (rm_map rm)(r \<mapsto> buf) \<and>
     others_kept rm rm' \<and> record_size (file_hdr rm') = record_size (file_hdr rm)"
proof -
  let ?n = "rid_page r" and ?s = "nat (rid_slot r)" and ?h = "file_hdr rm"
  note rp = rm_map_page [OF r]
  obtain f rm1 where f: "fetch_page_handle ?n rm = (Inr (Some f), rm1)"
    and wk: "working (fd2pageno (disk (pool rm))) rm ?n f ?h (page_of rm) rm1" using working_fetch [OF i rp(1)] by metis
  note wd = workingD [OF wk]
  note up = page_update_ok [OF wd(9,10) _ b, of ?s, simplified rp(3), simplified]
  let ?rmb = "put_bytes f (put_slot ?h ?s buf (page_of rm ?n)) rm1"
  have r2: "holds (fd2pageno (disk (pool rm))) rm ?n f (put_slot ?h ?s buf (page_of rm ?n)) ?rmb"
    using wd(1) by (rule holds_put) (use up(2) in \<open>simp add: page_wf_def\<close>)
  have "settled ?h (page_of rm) ?n (put_slot ?h ?s buf (page_of rm ?n)) (file_hdr ?rmb)"
    using settled_keep [OF wd(4,7) up(2,3)] up(4) wd(3) by (simp add: has_room_def)
  note fin = finish_op [where ctx = ctx, OF i wk r2 this up(1) refl, unfolded rp(4)]
  have "update_record r buf ctx rm = (Inr (), unpin ?n True (stamp_lsn ctx f ?rmb))"
    using f wd(3,12) holdsD(2) [OF r2] by (simp add: update_record_def use_page_def Let_def)
  with fin show ?thesis by blast
qed

text \<open>A page that was full goes to the front of the free list.\<close>

lemma release_ok:
  assumes i: "rm_inv rm" and wk: "working m rm n f h g rm1" and r: "holds m rm n f c rm2" and hd: "file_hdr rm2 = h"
    and full: "\<not> has_room h (g n)" and c: "page_wf h c" "has_room h c"
  obtains c3 rm3 where "release_page_handle f rm2 = (Inr (), rm3)" and "holds m rm n f c3 rm3"
    and "settled h g n c3 (file_hdr rm3)" and "page_slot h c3 = page_slot h c"
proof -
  note wd = workingD [OF wk]
  let ?e = "set_next_free (first_free_page_no h) c"
  have len: "length c = PAGE_SIZE" using c by (simp add: page_wf_def)
  have l3: "get_next_free ?e = first_free_page_no h" using first_free_page(2) [OF wd(4)] len by simp
  have p3: "page_wf h ?e" "page_slot h ?e = page_slot h c" "has_room h ?e"
    using page_ints_wf [OF wd(9) c(1)] len wd(9) c(2) by simp_all
  have nf: "n \<noteq> first_free_page_no h" using first_free_page(1) [OF wd(4)] full data_page_int32 [OF wd(4,7)] by auto
  have r3: "holds m rm n f ?e (put_bytes f ?e rm2)" using r by (rule holds_put) (use len in simp)
  then have "holds m rm n f ?e (set_first_free n (put_bytes f ?e rm2))" by (simp add: set_first_free_def)
  then obtain rm3 where w3: "write_hdr (set_first_free n (put_bytes f ?e rm2)) = (Inr (), rm3)" and "holds m rm n f ?e rm3"
    and h3: "file_hdr rm3 = file_hdr (set_first_free n (put_bytes f ?e rm2))"
    using rm_invD(4) [OF i] by (rule holds_write_hdr)
  moreover have "release_page_handle f rm2 = (Inr (), rm3)"
    using nf w3 holdsD(1,2) [OF r] holdsD(2) [OF r3] hd by (simp add: release_page_handle_def Let_def)
  moreover have "settled h g n ?e (file_hdr rm3)"
    using settled_release [OF wd(4,7) full p3(1,3) l3] h3 hd by (simp add: set_first_free_def)
  ultimately show thesis using p3(2) by (intro that)
qed

text \<open>A page that is full leaves the free list.\<close>

lemma retire_ok:
  assumes i: "rm_inv rm" and wk: "working m rm n f h g rm1" and r: "holds m rm n f c rm2" and hd: "file_hdr rm2 = h"
    and n: "n = first_free_page_no h" and c: "page_wf h c" "get_next_free c = get_next_free (g n)" and room: "has_room h (g n)"
  obtains c3 rm3 where "retire_if_full f rm2 = (Inr (), rm3)" and "holds m rm n f c3 rm3"
    and "settled h g n c3 (file_hdr rm3)" and "page_slot h c3 = page_slot h c"
proof (cases "has_room h c")
  case True
  then have "retire_if_full f rm2 = (Inr (), rm2)"
    using holdsD(1) [OF r] c(1) hd by (auto simp: retire_if_full_def page_wf_def has_room_def)
  then show thesis using that [OF _ r] settled_keep [OF workingD(4,7) [OF wk] c] True room hd by simp
next
  case False
  note wd = workingD [OF wk]
  let ?e = "set_next_free RM_NO_PAGE c"
  let ?rmc = "put_bytes f ?e (set_first_free (get_next_free c) rm2)"
  have len: "length c = PAGE_SIZE" using c by (simp add: page_wf_def)
  have p3: "page_wf h ?e" "page_slot h ?e = page_slot h c" "\<not> has_room h ?e"
    using page_ints_wf [OF wd(9) c(1)] len wd(9) False by simp_all
  have r2: "holds m rm n f c (set_first_free (get_next_free c) rm2)" using r by (simp add: set_first_free_def)
  then have "holds m rm n f ?e ?rmc" by (rule holds_put) (use len in simp)
  then obtain rm3 where w3: "write_hdr ?rmc = (Inr (), rm3)" and "holds m rm n f ?e rm3" and h3: "file_hdr rm3 = file_hdr ?rmc"
    using rm_invD(4) [OF i] by (rule holds_write_hdr)
  moreover have "retire_if_full f rm2 = (Inr (), rm3)"
    using False w3 holdsD(1) [OF r] holdsD(1) [OF r2] hd c(1) by (auto simp: retire_if_full_def Let_def page_wf_def has_room_def)
  moreover have "settled h g n ?e (file_hdr rm3)"
    using settled_retire [OF wd(4) n wd(7) p3(1,3)] h3 hd c(2) by (simp add: set_first_free_def)
  ultimately show thesis using p3(2) by (intro that)
qed

lemma delete_record_ok:
  assumes i: "rm_inv rm" and r: "rm_map rm r = Some x"
  shows "\<exists>rm'. delete_record r ctx rm = (Inr (), rm') \<and> rm_inv rm' \<and> rm_map rm' = (rm_map rm)(r := None) \<and>
     others_kept rm rm' \<and> record_size (file_hdr rm') = record_size (file_hdr rm) \<and> num_pages (file_hdr rm') = num_pages (file_hdr rm)"
proof -
  let ?n = "rid_page r" and ?s = "nat (rid_slot r)" and ?h = "file_hdr rm" and ?m = "fd2pageno (disk (pool rm))"
  note rp = rm_map_page [OF r]
  obtain f rm1 where f: "fetch_page_handle ?n rm = (Inr (Some f), rm1)"
    and wk: "working ?m rm ?n f ?h (page_of rm) rm1" using working_fetch [OF i rp(1)] by metis
  note wd = workingD [OF wk]
  note dl = page_delete_ok [OF wd(9,10), of ?s, simplified rp(3), simplified]
  let ?c = "page_delete ?s (page_of rm ?n)"
  let ?rmb = "put_bytes f ?c rm1"
  have r2: "holds ?m rm ?n f ?c ?rmb"
    using wd(1) by (rule holds_put) (use dl(2) in \<open>simp add: page_wf_def\<close>)
  have full: "get_num_records ?c = num_records_per_page ?h - 1 \<longleftrightarrow> \<not> has_room ?h (page_of rm ?n)"
    using dl(2,4) page_count_le [of ?h "page_of rm ?n"] layout_numbers(1) [OF wd(9)] by (auto simp: page_wf_def has_room_def)
  have room: "has_room ?h ?c" using dl(4) page_count_le [of ?h "page_of rm ?n"] by (simp add: has_room_def)
  let ?x = "if get_num_records (page_bytes f ?rmb) = num_records_per_page (file_hdr ?rmb) - 1
      then release_page_handle f ?rmb else (Inr (), ?rmb)"
  have run: "delete_record r ctx rm =
      bindE ?x (\<lambda>_ rm. (Inr (), unpin (page_no_of f rm) True (stamp_lsn ctx f rm)))"
    using f wd(12) by (simp add: delete_record_def use_page_def Let_def page_delete_def)
  obtain c rm3 where x: "?x = (Inr (), rm3)" and r3: "holds ?m rm ?n f c rm3" "settled ?h (page_of rm) ?n c (file_hdr rm3)"
    "page_slot ?h c = page_slot ?h ?c"
  proof (cases "has_room ?h (page_of rm ?n)")
    case True
    then have "?x = (Inr (), ?rmb)" using full holdsD(1) [OF r2] wd(3) by simp
    then show thesis using that [OF _ r2] settled_keep [OF wd(4,7) dl(2,3)] True room wd(3) by simp
  next
    case False
    obtain c rm3 where "release_page_handle f ?rmb = (Inr (), rm3)" "holds ?m rm ?n f c rm3"
      "settled ?h (page_of rm) ?n c (file_hdr rm3)" "page_slot ?h c = page_slot ?h ?c"
      by (rule release_ok [OF i wk r2 _ False dl(2) room]) (use wd(3) in auto)
    then show thesis using that full holdsD(1) [OF r2] wd(3) False by simp
  qed
  have "page_slot ?h c = (page_slot ?h (page_of rm ?n))(?s := None)" using r3(3) dl(1) by simp
  note fin = finish_op [where ctx = ctx, OF i wk r3(1,2) this refl, unfolded rp(4)]
  have "delete_record r ctx rm = (Inr (), unpin ?n True (stamp_lsn ctx f rm3))" using run x holdsD(2) [OF r3(1)] by simp
  with fin show ?thesis by blast
qed


lemma create_page_ok:
  assumes i: "rm_inv rm" and lim: "num_pages (file_hdr rm) < 2 ^ 19"
  obtains m n f h g rm1 where "create_page_handle rm = (Inr (Some f), rm1)" and "working m rm n f h g rm1"
    and "n = first_free_page_no h" and "has_room h (g n)" and "num_pages h \<le> num_pages (file_hdr rm) + 1"
proof (cases "first_free_page_no (file_hdr rm) = RM_NO_PAGE")
  case True
  obtain m f g rm1 where "create_new_page_handle rm = (Inr (Some f), rm1)"
    and w: "working m rm (num_pages (file_hdr rm)) f ((file_hdr rm)
       \<lparr>first_free_page_no := num_pages (file_hdr rm), num_pages := num_pages (file_hdr rm) + 1\<rparr>) g rm1"
    and "page_slot (file_hdr rm) (g (num_pages (file_hdr rm))) = Map.empty"
    using working_new [OF i refl lim True] by metis
  moreover have "0 < num_records_per_page (file_hdr rm)" using layout_numbers(1) [OF rm_invD(3) [OF i]] .
  ultimately show thesis
    using True by (intro that [OF _ w]) (simp_all add: create_page_handle_def RM_NO_PAGE_def has_room_def page_count_dom)
next
  case False
  then have n: "first_free_page_no (file_hdr rm) \<in> data_pages (file_hdr rm)"
    "has_room (file_hdr rm) (page_of rm (first_free_page_no (file_hdr rm)))"
    using first_free_page(1) [OF rm_invD(2) [OF i]] by auto
  obtain f rm1 where "fetch_page_handle (first_free_page_no (file_hdr rm)) rm = (Inr (Some f), rm1)"
    and w: "working (fd2pageno (disk (pool rm))) rm (first_free_page_no (file_hdr rm)) f (file_hdr rm) (page_of rm) rm1"
    using working_fetch [OF i n(1)] by metis
  then show thesis using False n by (intro that [OF _ w]) (simp_all add: create_page_handle_def RM_NO_PAGE_def)
qed

lemma insert_record_ok:
  assumes i: "rm_inv rm" and b: "length buf = rec_size (file_hdr rm)" and lim: "num_pages (file_hdr rm) < 2 ^ 19"
  shows "\<exists>r rm'. insert_record buf ctx rm = (Inr r, rm') \<and> rm_map rm r = None \<and> rm_inv rm' \<and>
     rm_map rm' = (rm_map rm)(r \<mapsto> buf) \<and> others_kept rm rm' \<and> record_size (file_hdr rm') = record_size (file_hdr rm) \<and>
     num_pages (file_hdr rm') \<le> num_pages (file_hdr rm) + 1"
proof -
  obtain m n f h g rm1 where cr: "create_page_handle rm = (Inr (Some f), rm1)" and wk: "working m rm n f h g rm1"
    and n: "n = first_free_page_no h" "has_room h (g n)" and np: "num_pages h \<le> num_pages (file_hdr rm) + 1"
    using create_page_ok [OF i lim] by metis
  note wd = workingD [OF wk]
  let ?s = "first_bit False bitmap_off (per_page h) (g n)" and ?c = "page_insert h buf (g n)"
  have "length buf = rec_size h" using b wd(14) by simp
  note ins = page_insert_ok [OF wd(9,10) n(2) this]
  let ?rmb = "put_bytes f ?c rm1"
  have r2: "holds m rm n f ?c ?rmb" using wd(1) by (rule holds_put) (use ins(2) in \<open>simp add: page_wf_def\<close>)
  obtain c rm3 where x: "retire_if_full f ?rmb = (Inr (), rm3)" and r3: "holds m rm n f c rm3"
    and st: "settled h g n c (file_hdr rm3)" and sl: "page_slot h c = page_slot h ?c"
    by (rule retire_ok [OF i wk r2 _ n(1) ins(2,3) n(2)]) (use wd(3) in auto)
  have "page_slot h c = (page_slot h (g n))(?s := Some buf)" using sl ins(1) by simp
  note fin = finish_op [where ctx = ctx, OF i wk r3 st this refl]
  have "insert_record buf ctx rm = (Inr (Rid n (int ?s)), unpin n True (stamp_lsn ctx f rm3))"
    using cr wd(3,12) x holdsD(2) [OF holds_stamp(1) [OF r3, of ctx]]
    by (simp add: insert_record_def use_page_def Let_def page_insert_def)
  moreover have "rm_map rm (Rid n (int ?s)) = None" using ins(4) wd(5) [symmetric] by (simp add: file_map_def)
  moreover have "num_pages (file_hdr (unpin n True (stamp_lsn ctx f rm3))) \<le> num_pages (file_hdr rm) + 1" using fin(5) np by simp
  ultimately show ?thesis using fin(1-4) by blast
qed


section \<open>Reading a page\<close>

definition rm_same :: "rm_file \<Rightarrow> rm_file \<Rightarrow> bool" where
  "rm_same rm rm' \<longleftrightarrow> file_hdr rm' = file_hdr rm \<and> pool_side rm' \<and> (\<forall>n \<in> data_pages (file_hdr rm). page_of rm' n = page_of rm n) \<and>
     others_kept rm rm'"

lemma rm_same_refl: "rm_inv rm \<Longrightarrow> rm_same rm rm"
  by (simp add: rm_same_def rm_inv_def others_kept_def)

lemma others_kept_trans:
  assumes "others_kept rm rm'" and "others_kept rm' rm''"
  shows "others_kept rm rm''"
  unfolding others_kept_def
proof (intro conjI)
  have fd: "rm_fd rm' = rm_fd rm" using assms(1) by (simp add: others_kept_def)
  show "\<forall>q c. pid_fd q \<noteq> rm_fd rm \<longrightarrow> page_ok (pid_no q) \<longrightarrow> content (pool rm) q = Some c \<longrightarrow> content (pool rm'') q = Some c"
    using assms fd by (simp add: others_kept_def)
  show "\<forall>q \<in> fst ` set (page_table (pool rm'')). pid_fd q \<noteq> rm_fd rm \<longrightarrow> q \<in> fst ` set (page_table (pool rm))"
    using assms fd unfolding others_kept_def by metis
qed (use assms in \<open>simp_all add: others_kept_def\<close>)

lemma rm_same_trans: "rm_same rm rm' \<Longrightarrow> rm_same rm' rm'' \<Longrightarrow> rm_same rm rm''"
  by (auto simp: rm_same_def intro: others_kept_trans)

lemma rm_same_file_wf:
  assumes w: "file_wf h g" and p: "\<And>n. n \<in> data_pages h \<Longrightarrow> g' n = g n"
  shows "file_wf h g'"
proof -
  obtain ps where ps: "chain (\<lambda>n. get_next_free (g n)) (first_free_page_no h) ps" "distinct ps"
    "set ps = {n \<in> data_pages h. has_room h (g n)}" using w by (rule file_wf_chain)
  have "chain (\<lambda>n. get_next_free (g' n)) (first_free_page_no h) ps"
    by (rule chain_links [OF ps(1)]) (use ps(3) p in auto)
  then show ?thesis using file_wfD [OF w] ps p by (auto simp: file_wf_def intro!: exI [of _ ps])
qed

lemma rm_same_keeps:
  assumes "rm_inv rm" and "rm_same rm rm'"
  shows "rm_inv rm'" "rm_map rm' = rm_map rm"
proof -
  have h: "file_hdr rm' = file_hdr rm" and p: "\<And>n. n \<in> data_pages (file_hdr rm) \<Longrightarrow> page_of rm' n = page_of rm n"
    using assms(2) by (auto simp: rm_same_def)
  show "rm_map rm' = rm_map rm" using h p by (auto simp: rm_map_def file_map_def fun_eq_iff)
  show "rm_inv rm'" using rm_same_file_wf [OF rm_invD(2) [OF assms(1)] p] assms(2) h by (simp add: rm_inv_def rm_same_def)
qed

lemma read_page_handle:
  assumes i: "rm_inv rm" and n: "n \<in> data_pages (file_hdr rm)"
  obtains f rm1 where "fetch_page_handle n rm = (Inr (Some f), rm1)" and "page_bytes f rm1 = page_of rm n"
    and "file_hdr rm1 = file_hdr rm" and "rm_same rm (unpin n False rm1)"
proof -
  note s = rm_invD(1) [OF i]
  have b: "bpm_inv (pool rm)" and v: "valid_pid (disk (pool rm)) (pid_of rm n)"
    and room: "card {q. 0 < pin_of (pool rm) q} < pool_size (pool rm)"
    and c: "content (pool rm) (pid_of rm n) = Some (page_of rm n)"
    using s n data_page_ok [OF i n] by (auto simp: pool_side_def valid_pid_def page_of_def)
  have "\<not> all_pinned (pool rm)" using pinned_pages_all [OF b] room by (simp add: pinned_pages_def)
  with fetch_page_ok [OF b v c] obtain f b' where
    f: "fetch_page (pid_of rm n) (pool rm) = (Inr (Some f), b')" and ft: "fetched (pid_of rm n) (page_of rm n) f (pool rm) b'" by metis
  let ?rm = "rm\<lparr>pool := b'\<rparr>"
  have n0: "n \<noteq> 0" using n hdr_not_data by auto
  have "fd2pageno (disk b') = fd2pageno (disk (pool rm))" using pageno_fetch [of "pid_of rm n" "pool rm"] f by simp
  then have h: "holds (fd2pageno (disk b')) rm n f (page_of rm n) ?rm" using holds_fetched [OF s ft n0] by simp
  have "synced (pool rm) (pid_of rm n)" if "pin_of (pool rm) (pid_of rm n) = 0" using pool.unpinned_clean [OF b that] .
  then have safe: "False \<or> synced (pool ?rm) (pid_of rm n) \<or> 1 < pin_of (pool ?rm) (pid_of rm n)"
    using ft pin_of_nonneg [OF b, of "pid_of rm n"] by (auto simp: fetched_def)
  have np: "fd2pageno (disk b') (rm_fd rm) = num_pages (file_hdr ?rm)" "data_pages (file_hdr ?rm) = insert n (data_pages (file_hdr rm))"
    using pageno_fetch [of "pid_of rm n" "pool rm"] f rm_invD(5) [OF i] n by auto
  have ok: "page_ok k" if "k \<in> data_pages (file_hdr ?rm)" for k using data_page_ok [OF i] that by simp
  note rel = released_gen [OF s h np ok safe refl]
  have "rm_same rm (unpin n False ?rm)"
    unfolding rm_same_def using rel by simp (metis rel(3) rel(4))
  then show thesis using f holdsD(1) [OF h] by (intro that [of f ?rm]) (simp_all add: fetch_page_handle_def lift_pool_def)
qed

lemma get_record_same:
  assumes i: "rm_inv rm" and r: "rm_map rm r = Some x" and l: "lock = None \<or> lock = Some (Inr ())"
  obtains rm' where "get_record lock r rm = (Inr x, rm')" and "rm_same rm rm'"
proof -
  let ?n = "rid_page r" and ?h = "file_hdr rm"
  note rp = rm_map_page [OF r]
  obtain f rm1 where f: "fetch_page_handle ?n rm = (Inr (Some f), rm1)"
    and wk: "working (fd2pageno (disk (pool rm))) rm ?n f ?h (page_of rm) rm1" using working_fetch [OF i rp(1)] by metis
  note wd = workingD [OF wk]
  have np: "fd2pageno (disk (pool rm)) (rm_fd rm) = num_pages (file_hdr rm1)"
    "data_pages (file_hdr rm1) = insert ?n (data_pages ?h)" using wd(2,3,6) by simp_all
  note rel = released [OF rm_invD(1) [OF i] wd(1) np]
  have ok: "\<And>k. k \<in> data_pages (file_hdr rm1) \<Longrightarrow> page_ok k" using data_page_ok [OF i] wd(3) by simp
  have "get_record lock r rm = (Inr x, unpin ?n True rm1)"
    using f wd(3,13) l rp(3) rel(2,6) [OF ok] by (auto simp: get_record_def use_page_def Let_def page_slot_def split: if_splits)
  moreover have "rm_same rm (unpin ?n True rm1)"
    unfolding rm_same_def using rel [OF ok] wd(3) by simp (metis rel(3,4) [OF ok])
  ultimately show thesis by (rule that)
qed

lemma get_record_ok:
  assumes i: "rm_inv rm" and r: "rm_map rm r = Some x" and l: "lock = None \<or> lock = Some (Inr ())"
  shows "\<exists>rm'. get_record lock r rm = (Inr x, rm') \<and> rm_inv rm' \<and> rm_map rm' = rm_map rm \<and> others_kept rm rm' \<and>
     record_size (file_hdr rm') = record_size (file_hdr rm)"
proof -
  obtain rm' where g: "get_record lock r rm = (Inr x, rm')" "rm_same rm rm'" by (rule get_record_same [OF assms])
  then show ?thesis using rm_same_keeps [OF i g(2)] by (simp add: rm_same_def)
qed

section \<open>A map of records\<close>

text \<open>
  The contract the executors, the transaction manager and recovery rely on: a table file is a map
  from record ids to records. The clients' argument about a record that is written once and
  read later is made inside the locale.
\<close>

locale record_store =
  fixes invar :: "'s \<Rightarrow> bool"
    and view :: "'s \<Rightarrow> Rid \<rightharpoonup> bytes"
    and fits :: "'s \<Rightarrow> bytes \<Rightarrow> bool"
    and room :: "'s \<Rightarrow> bool"
    and ins :: "bytes \<Rightarrow> 's \<Rightarrow> (Rid, 's) res"
    and del :: "Rid \<Rightarrow> 's \<Rightarrow> (unit, 's) res"
    and upd :: "Rid \<Rightarrow> bytes \<Rightarrow> 's \<Rightarrow> (unit, 's) res"
    and get :: "Rid \<Rightarrow> 's \<Rightarrow> (bytes, 's) res"
  assumes ins_law: "invar s \<Longrightarrow> fits s b \<Longrightarrow> room s \<Longrightarrow>
      \<exists>r s'. ins b s = (Inr r, s') \<and> view s r = None \<and> invar s' \<and> view s' = (view s)(r \<mapsto> b) \<and> fits s' = fits s"
    and del_law: "invar s \<Longrightarrow> view s r = Some x \<Longrightarrow>
      \<exists>s'. del r s = (Inr (), s') \<and> invar s' \<and> view s' = (view s)(r := None) \<and> fits s' = fits s"
    and upd_law: "invar s \<Longrightarrow> view s r = Some x \<Longrightarrow> fits s b \<Longrightarrow>
      \<exists>s'. upd r b s = (Inr (), s') \<and> invar s' \<and> view s' = (view s)(r \<mapsto> b) \<and> fits s' = fits s"
    and get_law: "invar s \<Longrightarrow> view s r = Some x \<Longrightarrow>
      \<exists>s'. get r s = (Inr x, s') \<and> invar s' \<and> view s' = view s \<and> fits s' = fits s"
begin

lemma insert_then_get:
  assumes "invar s" and "fits s b" and "room s"
  shows "\<exists>r s1 s2. ins b s = (Inr r, s1) \<and> get r s1 = (Inr b, s2) \<and> invar s2 \<and> view s2 = (view s)(r \<mapsto> b)"
proof -
  from ins_law [OF assms] obtain r s1 where s1: "ins b s = (Inr r, s1)" "invar s1" "view s1 = (view s)(r \<mapsto> b)" by blast
  with get_law [OF s1(2), of r b] show ?thesis by auto
qed

lemma delete_undoes_insert:
  assumes "invar s" and "fits s b" and "room s"
  shows "\<exists>r s1 s2. ins b s = (Inr r, s1) \<and> del r s1 = (Inr (), s2) \<and> invar s2 \<and> view s2 = view s"
proof -
  from ins_law [OF assms] obtain r s1 where
    s1: "ins b s = (Inr r, s1)" "invar s1" "view s1 = (view s)(r \<mapsto> b)" "view s r = None" by blast
  moreover from del_law [OF s1(2), of r b] s1(3) obtain s2 where
    "del r s1 = (Inr (), s2)" "invar s2" "view s2 = (view s1)(r := None)" by auto
  moreover from this s1(3,4) have "view s2 = view s" by (auto simp: fun_upd_idem)
  ultimately show ?thesis by blast
qed

lemma update_undoes_update:
  assumes "invar s" and "view s r = Some old" and "fits s new" and "fits s old"
  shows "\<exists>s1 s2. upd r new s = (Inr (), s1) \<and> upd r old s1 = (Inr (), s2) \<and> invar s2 \<and> view s2 = view s"
proof -
  from upd_law [OF assms(1-3)] obtain s1 where
    s1: "upd r new s = (Inr (), s1)" "invar s1" "view s1 = (view s)(r \<mapsto> new)" "fits s1 = fits s" by blast
  moreover from upd_law [OF s1(2), of r new old] s1(3,4) assms(4) obtain s2 where
    "upd r old s1 = (Inr (), s2)" "invar s2" "view s2 = (view s1)(r \<mapsto> old)" by auto
  moreover from this s1(3) assms(2) have "view s2 = view s" by (auto simp: fun_upd_idem)
  ultimately show ?thesis by blast
qed

end

abbreviation rm_fits :: "rm_file \<Rightarrow> bytes \<Rightarrow> bool" where
  "rm_fits rm b \<equiv> length b = rec_size (file_hdr rm)"

abbreviation rm_room :: "rm_file \<Rightarrow> bool" where
  "rm_room rm \<equiv> num_pages (file_hdr rm) < 2 ^ 19"

interpretation records: record_store rm_inv rm_map rm_fits rm_room "\<lambda>b. insert_record b ctx" "\<lambda>r. delete_record r ctx"
    "\<lambda>r b. update_record r b ctx" "get_record None"
  for ctx
proof unfold_locales
  fix s b
  assume "rm_inv s" "rm_fits s b" "rm_room s"
  from insert_record_ok [OF this, of ctx]
  show "\<exists>r s'. insert_record b ctx s = (Inr r, s') \<and> rm_map s r = None \<and> rm_inv s' \<and> rm_map s' = (rm_map s)(r \<mapsto> b) \<and>
      rm_fits s' = rm_fits s" by force
next
  fix s r x
  assume a: "rm_inv s" "rm_map s r = Some x"
  from delete_record_ok [OF a, of ctx]
  show "\<exists>s'. delete_record r ctx s = (Inr (), s') \<and> rm_inv s' \<and> rm_map s' = (rm_map s)(r := None) \<and> rm_fits s' = rm_fits s"
    by force
  from get_record_ok [OF a, of None]
  show "\<exists>s'. get_record None r s = (Inr x, s') \<and> rm_inv s' \<and> rm_map s' = rm_map s \<and> rm_fits s' = rm_fits s" by force
  fix b
  assume "rm_fits s b"
  from update_record_ok [OF a this, of ctx]
  show "\<exists>s'. update_record r b ctx s = (Inr (), s') \<and> rm_inv s' \<and> rm_map s' = (rm_map s)(r \<mapsto> b) \<and> rm_fits s' = rm_fits s"
    by force
qed

section \<open>Reachable files\<close>

datatype rec_op = RInsert bytes | RDelete Rid | RUpdate Rid bytes | RGet Rid

fun rm_step :: "rec_op \<Rightarrow> int option \<Rightarrow> rm_file \<Rightarrow> (Rid option \<times> bytes, rm_file) res" where
  "rm_step (RInsert b) ctx rm = bindE (insert_record b ctx rm) (\<lambda>r rm. (Inr (Some r, []), rm))"
| "rm_step (RDelete r) ctx rm = bindE (delete_record r ctx rm) (\<lambda>_ rm. (Inr (None, []), rm))"
| "rm_step (RUpdate r b) ctx rm = bindE (update_record r b ctx rm) (\<lambda>_ rm. (Inr (None, []), rm))"
| "rm_step (RGet r) ctx rm = bindE (get_record None r rm) (\<lambda>x rm. (Inr (None, x), rm))"

fun rec_allowed :: "rec_op \<Rightarrow> rm_file \<Rightarrow> bool" where
  "rec_allowed (RInsert b) rm \<longleftrightarrow> rm_fits rm b \<and> rm_room rm"
| "rec_allowed (RDelete r) rm \<longleftrightarrow> rm_map rm r \<noteq> None"
| "rec_allowed (RUpdate r b) rm \<longleftrightarrow> rm_map rm r \<noteq> None \<and> rm_fits rm b"
| "rec_allowed (RGet r) rm \<longleftrightarrow> rm_map rm r \<noteq> None"

text \<open>What the map of records answers and becomes.\<close>

fun rec_spec :: "rec_op \<Rightarrow> (Rid \<rightharpoonup> bytes) \<Rightarrow> Rid option \<times> bytes \<Rightarrow> (Rid \<rightharpoonup> bytes) \<Rightarrow> bool" where
  "rec_spec (RInsert b) M (ro, x) M' \<longleftrightarrow> (\<exists>r. ro = Some r \<and> M r = None \<and> M' = M(r \<mapsto> b))"
| "rec_spec (RDelete r) M (ro, x) M' \<longleftrightarrow> M' = M(r := None)"
| "rec_spec (RUpdate r b) M (ro, x) M' \<longleftrightarrow> M' = M(r \<mapsto> b)"
| "rec_spec (RGet r) M (ro, x) M' \<longleftrightarrow> M r = Some x \<and> M' = M"

lemma rm_step_ok:
  assumes i: "rm_inv rm" and a: "rec_allowed op rm"
  shows "\<exists>obs rm'. rm_step op ctx rm = (Inr obs, rm') \<and> rec_spec op (rm_map rm) obs (rm_map rm') \<and> rm_inv rm' \<and> others_kept rm rm'"
proof (cases op)
  case (RInsert b)
  with insert_record_ok [OF i, of b ctx] a show ?thesis by fastforce
next
  case (RDelete r)
  with delete_record_ok [OF i, of r _ ctx] a show ?thesis by fastforce
next
  case (RUpdate r b)
  with update_record_ok [OF i, of r _ b ctx] a show ?thesis by fastforce
next
  case (RGet r)
  with get_record_ok [OF i, of r _ None] a show ?thesis by fastforce
qed

section \<open>An empty file\<close>

definition sample_rm :: rm_file where
  "sample_rm = \<lparr>rm_fd = 3, file_hdr = RmFileHdr_init 4,
     pool = BufferPoolManager_init 2 0 (set_fd2pageno 3 1 sample_disk) None\<rparr>"

lemma rm_inv_empty:
  assumes b: "bpm_inv b" and room: "card {q. 0 < pin_of b q} < pool_size b" and fd: "0 \<le> fd" "fd < MAX_FD" "data_fd (disk b) fd"
    and n: "fd2pageno (disk b) fd = 1" and rs: "1 \<le> rs" "rs \<le> RM_MAX_RECORD_SIZE"
    and none: "\<And>q. q \<in> fst ` set (page_table b) \<Longrightarrow> pid_fd q \<noteq> fd"
  shows "rm_inv \<lparr>rm_fd = fd, file_hdr = RmFileHdr_init rs, pool = b\<rparr>"
    and "rm_map \<lparr>rm_fd = fd, file_hdr = RmFileHdr_init rs, pool = b\<rparr> = Map.empty"
proof -
  have d: "data_pages (RmFileHdr_init rs) = {}"
    by (auto simp: data_pages_def RmFileHdr_init_def Let_def RM_FIRST_RECORD_PAGE_def)
  have c: "chain nx (first_free_page_no (RmFileHdr_init rs)) []" for nx by (simp add: RmFileHdr_init_def Let_def)
  have np: "num_pages (RmFileHdr_init rs) = 1" by (simp add: RmFileHdr_init_def Let_def)
  have "file_wf (RmFileHdr_init rs) g" for g
    unfolding file_wf_def using layout_init [OF rs] np d c by (intro conjI exI [of _ "[]"]) (auto simp del: chain.simps)
  then show "rm_inv \<lparr>rm_fd = fd, file_hdr = RmFileHdr_init rs, pool = b\<rparr>"
    using b room fd n none np by (auto simp: rm_inv_def pool_side_def d)
  show "rm_map \<lparr>rm_fd = fd, file_hdr = RmFileHdr_init rs, pool = b\<rparr> = Map.empty"
    by (simp add: rm_map_def file_map_def fun_eq_iff d)
qed

lemma sample_rm_ok: "rm_inv sample_rm" "rm_map sample_rm = Map.empty" "rm_room sample_rm" "rm_fits sample_rm [1, 2, 3, 4]"
proof -
  let ?d = "set_fd2pageno 3 1 sample_disk" and ?b = "BufferPoolManager_init 2 0 (set_fd2pageno 3 1 sample_disk) None"
  have d: "disk_inv ?d" "data_fd ?d 3" using sample_disk_inv sample_data_fd by (simp_all add: set_fd2pageno_def data_fd_def)
  have b: "bpm_inv ?b" by (rule bpm_inv_init) (use d in simp_all)
  have p: "pin_of ?b = (\<lambda>_. 0)" by (simp add: fun_eq_iff pin_of_def BufferPoolManager_init_def)
  note e = rm_inv_empty [OF b, of 3 4]
  show "rm_inv sample_rm" "rm_map sample_rm = Map.empty"
    using e p d by (simp_all add: sample_rm_def BufferPoolManager_init_def MAX_FD_def RM_MAX_RECORD_SIZE_def set_fd2pageno_def)
  show "rm_room sample_rm" "rm_fits sample_rm [1, 2, 3, 4]" by (simp_all add: sample_rm_def RmFileHdr_init_def Let_def)
qed


section \<open>Undo\<close>

lemma update_undo_ok:
  assumes i: "rm_inv rm" and r: "rm_map rm r = Some x" and b: "length buf = rec_size (file_hdr rm)"
  shows "\<exists>rm'. update_undo r buf rm = (Inr (), rm') \<and> rm_inv rm' \<and> rm_map rm' = (rm_map rm)(r \<mapsto> buf) \<and> others_kept rm rm'"
proof -
  have "update_undo r buf rm = update_record r buf None rm"
  proof -
    obtain f rm1 where f: "fetch_page_handle (rid_page r) rm = (Inr (Some f), rm1)"
      and wk: "working (fd2pageno (disk (pool rm))) rm (rid_page r) f (file_hdr rm) (page_of rm) rm1"
      using working_fetch [OF i rm_map_page(1) [OF r]] by metis
    have "page_no_of f (put_bytes f c rm1) = page_no_of f rm1" for c
      using holdsD(6) [OF workingD(1) [OF wk]] by (simp add: page_no_of_def put_bytes_def)
    then show ?thesis
      using f workingD(13) [OF wk] by (simp add: update_undo_def update_record_def use_page_def stamp_lsn_def Let_def)
  qed
  with update_record_ok [OF assms, of None] show ?thesis by auto
qed

lemma insert_record_at_ok:
  assumes i: "rm_inv rm" and n: "rid_page r \<in> data_pages (file_hdr rm)" and s: "0 \<le> rid_slot r" "rid_slot r < num_records_per_page (file_hdr rm)"
    and new: "rm_map rm r = None" and b: "length buf = rec_size (file_hdr rm)"
  shows "\<exists>rm'. insert_record_at r buf rm = (Inr (), rm') \<and> rm_map rm' = (rm_map rm)(r \<mapsto> buf) \<and> others_kept rm rm' \<and>
     file_hdr rm' = file_hdr rm \<and> get_num_records (page_of rm' (rid_page r)) = int (page_count (file_hdr rm) (page_of rm' (rid_page r))) - 1"
proof -
  let ?n = "rid_page r" and ?s = "nat (rid_slot r)" and ?h = "file_hdr rm" and ?m = "fd2pageno (disk (pool rm))"
  obtain f rm1 where f: "fetch_page_handle ?n rm = (Inr (Some f), rm1)" and wk: "working ?m rm ?n f ?h (page_of rm) rm1"
    using working_fetch [OF i n] by metis
  note wd = workingD [OF wk]
  have sl: "?s < per_page ?h" using s by simp
  let ?c = "put_slot ?h ?s buf (bm_set bitmap_off ?s (page_of rm ?n))"
  have ps: "page_slot ?h ?c = (page_slot ?h (page_of rm ?n))(?s \<mapsto> buf)"
    using page_slot_insert(2) [OF wd(9,11) sl b] .
  note bv = bm_views [OF wd(9,11) sl] and pv = put_slot_views [OF wd(9) _ sl b, of "bm_set bitmap_off ?s (page_of rm ?n)"]
  have r2: "holds ?m rm ?n f ?c (put_bytes f ?c rm1)" using wd(1) by (rule holds_put) (use pv wd(11) in simp)
  have np: "?m (rm_fd rm) = num_pages (file_hdr (put_bytes f ?c rm1))"
    "data_pages (file_hdr (put_bytes f ?c rm1)) = insert ?n (data_pages ?h)" using wd(2,3,6) by simp_all
  have ok: "page_ok k" if "k \<in> data_pages (file_hdr (put_bytes f ?c rm1))" for k
    using data_page_int32 [OF wd(4)] that wd(3) by simp
  note rel = released [OF rm_invD(1) [OF i] r2 np ok]
  let ?rm = "unpin ?n True (put_bytes f ?c rm1)"
  have run: "insert_record_at r buf rm = (Inr (), ?rm)"
    using f wd(3,12) holdsD(2) [OF r2] by (simp add: insert_record_at_def use_page_def Let_def)
  have "file_map ?h (page_of ?rm) = (file_map ?h (page_of rm))(Rid ?n (int ?s) \<mapsto> buf)"
    by (rule file_map_page [OF n]) (use rel ps in auto)
  then have m: "rm_map ?rm = (rm_map rm)(r \<mapsto> buf)" using rel(2) wd(3) s by (simp add: rm_map_def)
  have "page_slot ?h (page_of rm ?n) ?s = None" using new n s by (simp add: rm_map_def file_map_def)
  then have "page_count ?h ?c = Suc (page_count ?h (page_of rm ?n))" using count_upd(1) [OF sl ps] by simp
  moreover have "get_num_records ?c = get_num_records (page_of rm ?n)" using pv bv wd(11) by simp
  ultimately have "get_num_records (page_of ?rm ?n) = int (page_count ?h (page_of ?rm ?n)) - 1"
    using wd(10) rel(3) by (simp add: page_wf_def)
  with run m rel(2,5) wd(3) show ?thesis by auto
qed

lemma is_record_ok:
  assumes i: "rm_inv rm" and n: "rid_page r \<in> data_pages (file_hdr rm)" and s: "0 \<le> rid_slot r" "rid_slot r < num_records_per_page (file_hdr rm)"
  shows "\<exists>rm'. is_record r rm = (Inr (rm_map rm r \<noteq> None), rm') \<and>
     pin_of (pool rm') (PageId (rm_fd rm) (rid_page r)) = pin_of (pool rm) (PageId (rm_fd rm) (rid_page r)) + 1"
proof -
  obtain f rm1 where f: "fetch_page_handle (rid_page r) rm = (Inr (Some f), rm1)"
    and wk: "working (fd2pageno (disk (pool rm))) rm (rid_page r) f (file_hdr rm) (page_of rm) rm1"
    using working_fetch [OF i n] by metis
  note wd = workingD [OF wk]
  have "nat (rid_slot r) < per_page (file_hdr rm)" using s by simp
  then have "rm_map rm r \<noteq> None \<longleftrightarrow> is_set bitmap_off (nat (rid_slot r)) (page_of rm (rid_page r))"
    using n s by (simp add: rm_map_def file_map_def page_slot_def)
  then show ?thesis using f wd(1,12) by (simp add: is_record_def use_page_def holds_def)
qed

text \<open>
  The files that the operations on records and the undo of an insertion and of an update lead to. The undo of a deletion is left out:
  it does not count the record it puts back (\<open>delete_undo_loses_count\<close>).
\<close>

inductive rm_reachable :: "rm_file \<Rightarrow> rm_file \<Rightarrow> bool" for rm0 where
  start: "rm_reachable rm0 rm0"
| step: "rm_reachable rm0 rm \<Longrightarrow> rec_allowed op rm \<Longrightarrow> rm_step op ctx rm = (Inr obs, rm') \<Longrightarrow> rm_reachable rm0 rm'"
| undo_insert: "rm_reachable rm0 rm \<Longrightarrow> rm_map rm r = Some x \<Longrightarrow> insert_undo r rm = (Inr (), rm') \<Longrightarrow> rm_reachable rm0 rm'"
| undo_update: "rm_reachable rm0 rm \<Longrightarrow> rm_map rm r = Some x \<Longrightarrow> rm_fits rm b \<Longrightarrow> update_undo r b rm = (Inr (), rm') \<Longrightarrow> rm_reachable rm0 rm'"

lemma rm_reachable_inv: "rm_reachable rm0 rm \<Longrightarrow> rm_inv rm0 \<Longrightarrow> rm_inv rm"
proof (induction rule: rm_reachable.induct)
  case (step rm op ctx obs rm')
  with rm_step_ok [of rm op ctx] show ?case by auto
next
  case (undo_insert rm r x rm')
  with delete_record_ok [of rm r x None] show ?case by (auto simp: insert_undo_def)
next
  case (undo_update rm r x b rm')
  with update_undo_ok [of rm r x b] show ?case by auto
qed

lemma sample_one_record:
  obtains r rm where "rm_reachable sample_rm rm" and "rm_map rm = [r \<mapsto> [1, 2, 3, 4]]"
proof -
  have a: "rec_allowed (RInsert [1, 2, 3, 4]) sample_rm" using sample_rm_ok by simp
  from rm_step_ok [OF sample_rm_ok(1) a, of None] obtain r x rm where
    s: "rm_step (RInsert [1, 2, 3, 4]) None sample_rm = (Inr (Some r, x), rm)" "rm_map rm = [r \<mapsto> [1, 2, 3, 4]]"
    using sample_rm_ok(2) by (auto simp del: rm_step.simps)
  then show thesis using that rm_reachable.step [OF rm_reachable.start a s(1)] by blast
qed

section \<open>Properties\<close>

text \<open>
  C4: a table file is a map from record ids to records. In every state that insertions,
  deletions, updates and reads of present records and the undo of insertions and updates lead to, each of these operations succeeds:
  an insertion returns a record id that was not in use and adds exactly this record, a deletion
  removes exactly its record, an update replaces exactly its record, and a read returns the
  record last written. No operation leaves a page pinned or changes a page of another file.
\<close>

theorem record_file_implements_map:
  assumes "rm_inv rm0" and "rm_reachable rm0 rm" and "rec_allowed op rm"
  shows "\<exists>obs rm'. rm_step op ctx rm = (Inr obs, rm') \<and> rec_spec op (rm_map rm) obs (rm_map rm') \<and> rm_inv rm' \<and> others_kept rm rm'"
  using rm_step_ok [OF rm_reachable_inv [OF assms(2,1)] assms(3)] .

theorem record_file_implements_map_witness:
  "\<exists>r rm1 rm2. rm_step (RInsert [1, 2, 3, 4]) None sample_rm = (Inr (Some r, []), rm1) \<and>
     rm_step (RGet r) None rm1 = (Inr (None, [1, 2, 3, 4]), rm2)"
proof -
  have a: "rec_allowed (RInsert [1, 2, 3, 4]) sample_rm" using sample_rm_ok by simp
  from record_file_implements_map [OF sample_rm_ok(1) rm_reachable.start a, of None] obtain r x rm1 where
    s: "rm_step (RInsert [1, 2, 3, 4]) None sample_rm = (Inr (Some r, x), rm1)" "rm_map rm1 = (rm_map sample_rm)(r \<mapsto> [1, 2, 3, 4])"
    by (auto simp del: rm_step.simps)
  have re: "rm_reachable sample_rm rm1" using rm_reachable.step [OF rm_reachable.start a s(1)] .
  have "rec_allowed (RGet r) rm1" using s(2) by simp
  from record_file_implements_map [OF sample_rm_ok(1) re this, of None] obtain ro y rm2 where
    "rm_step (RGet r) None rm1 = (Inr (ro, y), rm2)" "rm_map rm1 r = Some y" by (auto simp del: rm_step.simps)
  moreover from this(1) have "ro = None" by (auto simp: bindE_def split: prod.splits sum.splits)
  moreover have "x = []" using s(1) by (auto simp: bindE_def split: prod.splits sum.splits)
  ultimately show ?thesis using s by auto
qed

text \<open>
  C20: the free-page list is exact. In every file that insertions, deletions, updates and reads of present records and the undo of
  insertions and updates lead to, the list that starts in the file
  header and is linked through the page headers ends, visits no page twice and visits exactly
  the pages that have a free slot; and the record count in every page header is the number of
  records in the page.
\<close>

theorem free_page_list_exact:
  assumes "rm_inv rm0" and "rm_reachable rm0 rm"
  shows "\<exists>ps. chain (\<lambda>n. get_next_free (page_of rm n)) (first_free_page_no (file_hdr rm)) ps \<and> distinct ps \<and>
       set ps = {n. 1 \<le> n \<and> n < num_pages (file_hdr rm) \<and>
          card {i. rm_map rm (Rid n i) \<noteq> None} < per_page (file_hdr rm)} \<and>
       (\<forall>n. 1 \<le> n \<and> n < num_pages (file_hdr rm) \<longrightarrow>
          get_num_records (page_of rm n) = int (card {i. rm_map rm (Rid n i) \<noteq> None}))"
proof -
  have w: "file_wf (file_hdr rm) (page_of rm)" using rm_reachable_inv [OF assms(2,1)] by (simp add: rm_inv_def)
  have "card {i. rm_map rm (Rid n i) \<noteq> None} = page_count (file_hdr rm) (page_of rm n)" if "n \<in> data_pages (file_hdr rm)" for n
  proof -
    have "{i. rm_map rm (Rid n i) \<noteq> None} = int ` dom (page_slot (file_hdr rm) (page_of rm n))"
      using that by (force simp: rm_map_def file_map_def image_iff)
    then show ?thesis by (simp add: page_count_dom card_image)
  qed
  moreover have "n \<in> data_pages (file_hdr rm) \<longleftrightarrow> 1 \<le> n \<and> n < num_pages (file_hdr rm)" for n
    by (simp add: data_pages_def RM_FIRST_RECORD_PAGE_def)
  ultimately have c: "card {i. rm_map rm (Rid n i) \<noteq> None} = page_count (file_hdr rm) (page_of rm n)"
    if "1 \<le> n" "n < num_pages (file_hdr rm)" for n using that by blast
  from w obtain ps where "chain (\<lambda>n. get_next_free (page_of rm n)) (first_free_page_no (file_hdr rm)) ps" "distinct ps"
    "set ps = {n \<in> data_pages (file_hdr rm). has_room (file_hdr rm) (page_of rm n)}" by (rule file_wf_chain)
  moreover have "get_num_records (page_of rm n) = int (card {i. rm_map rm (Rid n i) \<noteq> None})"
    if "1 \<le> n \<and> n < num_pages (file_hdr rm)" for n
    using file_wfD(4) [OF w, of n] c [of n] that by (auto simp: data_pages_def RM_FIRST_RECORD_PAGE_def page_wf_def)
  ultimately show ?thesis
    using c by (intro exI [of _ ps]) (auto simp: data_pages_def RM_FIRST_RECORD_PAGE_def has_room_def)
qed

theorem free_page_list_exact_witness:
  "\<exists>r rm ps. rm_map rm = [r \<mapsto> [1, 2, 3, 4]] \<and> chain (\<lambda>n. get_next_free (page_of rm n)) (first_free_page_no (file_hdr rm)) ps \<and>
     set ps = {n. 1 \<le> n \<and> n < num_pages (file_hdr rm) \<and> card {i. rm_map rm (Rid n i) \<noteq> None} < per_page (file_hdr rm)}"
proof -
  obtain r rm where r: "rm_reachable sample_rm rm" "rm_map rm = [r \<mapsto> [1, 2, 3, 4]]" by (rule sample_one_record)
  show ?thesis by (rule exI [of _ r], rule exI [of _ rm]) (use free_page_list_exact [OF sample_rm_ok(1) r(1)] r(2) in blast)
qed

text \<open>
  C37: undoing gives back the records. Undoing an insertion at once leaves the records of the
  file as they were before it, and so does undoing an update with the record's old bytes.
\<close>

theorem undo_restores_records:
  assumes "rm_inv rm" and "rm_fits rm buf" and "rm_room rm"
  shows "(\<exists>r rm1 rm2. insert_record buf ctx rm = (Inr r, rm1) \<and> insert_undo r rm1 = (Inr (), rm2) \<and>
       rm_inv rm2 \<and> rm_map rm2 = rm_map rm) \<and>
     (\<forall>q old. rm_map rm q = Some old \<and> rm_fits rm old \<longrightarrow>
       (\<exists>rm1 rm2. update_record q buf ctx rm = (Inr (), rm1) \<and> update_undo q old rm1 = (Inr (), rm2) \<and>
          rm_inv rm2 \<and> rm_map rm2 = rm_map rm))"
proof (intro conjI allI impI)
  from insert_record_ok [OF assms, of ctx] obtain r rm1 where
    s1: "insert_record buf ctx rm = (Inr r, rm1)" "rm_map rm r = None" "rm_inv rm1" "rm_map rm1 = (rm_map rm)(r \<mapsto> buf)" by blast
  moreover from delete_record_ok [OF s1(3), of r buf None] s1(4) obtain rm2 where
    "insert_undo r rm1 = (Inr (), rm2)" "rm_inv rm2" "rm_map rm2 = (rm_map rm1)(r := None)" by (auto simp: insert_undo_def)
  moreover from this s1 have "rm_map rm2 = rm_map rm" by (auto simp: fun_upd_idem)
  ultimately show "\<exists>r rm1 rm2. insert_record buf ctx rm = (Inr r, rm1) \<and> insert_undo r rm1 = (Inr (), rm2) \<and>
      rm_inv rm2 \<and> rm_map rm2 = rm_map rm" by blast
next
  fix q old
  assume "rm_map rm q = Some old \<and> rm_fits rm old"
  then have q: "rm_map rm q = Some old" "rm_fits rm old" by simp_all
  from update_record_ok [OF assms(1) q(1) assms(2), of ctx] obtain rm1 where
    s1: "update_record q buf ctx rm = (Inr (), rm1)" "rm_inv rm1" "rm_map rm1 = (rm_map rm)(q \<mapsto> buf)"
      "record_size (file_hdr rm1) = record_size (file_hdr rm)" by blast
  moreover from update_undo_ok [OF s1(2), of q buf old] s1(3,4) q(2) obtain rm2 where
    "update_undo q old rm1 = (Inr (), rm2)" "rm_inv rm2" "rm_map rm2 = (rm_map rm1)(q \<mapsto> old)" by auto
  moreover from this s1(3) q(1) have "rm_map rm2 = rm_map rm" by (auto simp: fun_upd_idem)
  ultimately show "\<exists>rm1 rm2. update_record q buf ctx rm = (Inr (), rm1) \<and> update_undo q old rm1 = (Inr (), rm2) \<and>
      rm_inv rm2 \<and> rm_map rm2 = rm_map rm" by blast
qed

theorem undo_restores_records_witness:
  "\<exists>r rm1 rm2. insert_record [1, 2, 3, 4] None sample_rm = (Inr r, rm1) \<and> insert_undo r rm1 = (Inr (), rm2) \<and> rm_map rm2 = Map.empty"
  using undo_restores_records [OF sample_rm_ok(1,4,3), of None] sample_rm_ok(2) by auto

text \<open>
  \<open>is_record\<close> answers whether the record exists, and keeps the page pinned: every call leaves
  one more pin on the page, which no later call takes back.
\<close>

theorem is_record_keeps_pin:
  assumes "rm_inv rm" and "1 \<le> rid_page r" and "rid_page r < num_pages (file_hdr rm)"
    and "0 \<le> rid_slot r" and "rid_slot r < num_records_per_page (file_hdr rm)"
  shows "\<exists>rm'. is_record r rm = (Inr (rm_map rm r \<noteq> None), rm') \<and>
     pin_of (pool rm') (PageId (rm_fd rm) (rid_page r)) = pin_of (pool rm) (PageId (rm_fd rm) (rid_page r)) + 1"
  using is_record_ok [OF assms(1) _ assms(4,5)] assms(2,3) by (simp add: data_pages_def RM_FIRST_RECORD_PAGE_def)

text \<open>
  Undoing a deletion puts the record back but not the record count. After \<open>delete_undo\<close> the
  records are as before the deletion, and the page header counts one record less than
  the page holds, so the page is not taken off the free-page list when it is full.
\<close>

theorem delete_undo_loses_count:
  assumes i: "rm_inv rm" and r: "rm_map rm r = Some old" and b: "rm_fits rm old"
  shows "\<exists>rm1 rm2. delete_record r ctx rm = (Inr (), rm1) \<and> delete_undo r old rm1 = (Inr (), rm2) \<and> rm_map rm2 = rm_map rm \<and>
     get_num_records (page_of rm2 (rid_page r)) = int (page_count (file_hdr rm2) (page_of rm2 (rid_page r))) - 1"
proof -
  from delete_record_ok [OF i r, of ctx] obtain rm1 where
    s1: "delete_record r ctx rm = (Inr (), rm1)" "rm_inv rm1" "rm_map rm1 = (rm_map rm)(r := None)"
    "record_size (file_hdr rm1) = record_size (file_hdr rm)" "num_pages (file_hdr rm1) = num_pages (file_hdr rm)" by blast
  note lay = rm_invD(3) [OF i] rm_invD(3) [OF s1(2)]
  have "num_records_per_page (file_hdr rm1) = num_records_per_page (file_hdr rm)" using lay s1(4) by (simp add: layout_ok_def)
  moreover have "nat (rid_slot r) < per_page (file_hdr rm)" using rm_map_page(3) [OF r] by (simp add: page_slot_def split: if_splits)
  moreover have "rid_page r \<in> data_pages (file_hdr rm1)"
    using s1(5) rm_map_page(1) [OF r] by (simp add: data_pages_def)
  ultimately obtain rm2 where "insert_record_at r old rm1 = (Inr (), rm2)" "rm_map rm2 = (rm_map rm1)(r \<mapsto> old)" "file_hdr rm2 = file_hdr rm1"
    "get_num_records (page_of rm2 (rid_page r)) = int (page_count (file_hdr rm1) (page_of rm2 (rid_page r))) - 1"
    using insert_record_at_ok [OF s1(2), of r old] rm_map_page(2) [OF r] s1(3,4) b by auto
  with s1 r show ?thesis by (auto simp: delete_undo_def fun_upd_idem)
qed


lemma sample_inserted:
  obtains r rm where "rm_inv rm" and "rm_map rm = [r \<mapsto> [1, 2, 3, 4]]" and "rm_fits rm [1, 2, 3, 4]" and "rm_room rm"
proof -
  have "num_pages (file_hdr sample_rm) = 1" by (simp add: sample_rm_def RmFileHdr_init_def Let_def)
  then show thesis using insert_record_ok [OF sample_rm_ok(1,4,3), of None] sample_rm_ok(2,4) by (force intro: that)
qed

theorem delete_undo_loses_count_witness:
  "\<exists>r rm rm1 rm2. rm_map rm = [r \<mapsto> [1, 2, 3, 4]] \<and> delete_record r None rm = (Inr (), rm1) \<and>
     delete_undo r [1, 2, 3, 4] rm1 = (Inr (), rm2) \<and>
     get_num_records (page_of rm2 (rid_page r)) = int (page_count (file_hdr rm2) (page_of rm2 (rid_page r))) - 1"
proof -
  obtain r rm where s: "rm_inv rm" "rm_map rm = [r \<mapsto> [1, 2, 3, 4]]" "rm_fits rm [1, 2, 3, 4]" by (rule sample_inserted)
  with delete_undo_loses_count [OF s(1) _ s(3), of r None] show ?thesis by auto
qed

theorem is_record_keeps_pin_witness:
  "\<exists>r rm rm'. is_record r rm = (Inr True, rm') \<and>
     pin_of (pool rm') (PageId (rm_fd rm) (rid_page r)) = pin_of (pool rm) (PageId (rm_fd rm) (rid_page r)) + 1"
proof -
  obtain r rm where s: "rm_inv rm" "rm_map rm = [r \<mapsto> [1, 2, 3, 4]]" by (rule sample_inserted)
  then have "rm_map rm r = Some [1, 2, 3, 4]" by simp
  note p = rm_map_page [OF this]
  then have "nat (rid_slot r) < per_page (file_hdr rm)" by (simp add: page_slot_def split: if_splits)
  with is_record_keeps_pin [OF s(1), of r] p s(2) show ?thesis by (auto simp: data_pages_def RM_FIRST_RECORD_PAGE_def)
qed

text \<open>
  C39: the records of a page fit. For every record size that \<open>create_file\<close> accepts, a page
  holds at least one record, the bitmap has a bit for every slot, the bitmap ends before the
  first slot, the slots do not overlap and the last one ends inside the page.
\<close>

theorem record_layout_fits:
  assumes "1 \<le> rs" and "rs \<le> RM_MAX_RECORD_SIZE" and "h = RmFileHdr_init rs"
  shows "0 < per_page h \<and>
     (\<forall>i < per_page h. bitmap_off + i div BITMAP_WIDTH < slots_off h \<and> slots_off h \<le> get_slot h i \<and>
        get_slot h i + nat rs \<le> get_slot h (Suc i) \<and> get_slot h i + nat rs \<le> PAGE_SIZE)"
proof -
  have h: "layout_ok h" using layout_init [OF assms(1,2)] assms(3) by simp
  have rs: "record_size h = rs" using assms(3) by (simp add: RmFileHdr_init_def Let_def)
  have "0 < per_page h" using layout_numbers(1) [OF h] by simp
  with layout_fits [OF h] rs show ?thesis by (auto simp: BITMAP_WIDTH_def get_slot_def)
qed

theorem record_layout_fits_witness:
  "0 < per_page (RmFileHdr_init 512) \<and> get_slot (RmFileHdr_init 512) 6 + 512 \<le> PAGE_SIZE"
proof -
  have "per_page (RmFileHdr_init 512) = 7" by (simp add: RmFileHdr_init_def Let_def BITMAP_WIDTH_def PAGE_SIZE_def RmFileHdr_size_def)
  with record_layout_fits [of 512, OF _ _ refl] show ?thesis by (simp add: RM_MAX_RECORD_SIZE_def)
qed

end
