(* ===== verification/RmScan.thy ===== *)
theory RmScan
  imports RmRecords
begin

text \<open>
  \<open>RmScan\<close> of \<^verbatim>\<open>record/rm_scan.cpp\<close>: the scan of a table file, and the contract \<open>RecScan\<close> of \<^verbatim>\<open>defs.h\<close>. The
  scan keeps the header fields it read when it was created. The theorem of this theory says that a scan
  visits every record of the file exactly once, in the order of the record ids, and stops.
\<close>

section \<open>The scan\<close>

record rm_scan =
  scan_rid :: Rid
  scan_num_pages :: int
  scan_num_records :: int
  scan_end :: int

text \<open>The loop of the constructor that looks for the first record.\<close>

function scan_first :: "int \<Rightarrow> Rid \<Rightarrow> int \<Rightarrow> int \<Rightarrow> rm_file \<Rightarrow> (Rid, rm_file) res" where
  "scan_first i rid np nr rm =
     (if i < np then
        use_page (fetch_page_handle i rm)
          (\<lambda>f rm. let j = int (next_bit True bitmap_off (nat nr) (- 1) (page_bytes f rm));
                      rm = unpin i False rm
                  in if j \<noteq> nr then (Inr (Rid i j), rm)
                     else let rid = (if i = np - 1 then Rid i j else rid);
                              rid = Rid (rid_page rid + 1) (- 1)
                          in scan_first (i + 1) rid np nr rm)
      else (Inr rid, rm))"
  by pat_completeness auto
termination by (relation "measure (\<lambda>(i, _, np, _). nat (np - i))") auto

text \<open>The loop that looks for the last page with a record.\<close>

function scan_last :: "int \<Rightarrow> int \<Rightarrow> rm_file \<Rightarrow> (int, rm_file) res" where
  "scan_last i nr rm =
     (if i > 0 then
        use_page (fetch_page_handle i rm)
          (\<lambda>f rm. let j = int (next_bit True bitmap_off (nat nr) (- 1) (page_bytes f rm));
                      rm = unpin i False rm
                  in if j \<noteq> nr then (Inr i, rm) else scan_last (i - 1) nr rm)
      else (Inr INVALID_PAGE_ID, rm))"
  by pat_completeness auto
termination by (relation "measure (\<lambda>(i, _). nat i)") auto

definition RmScan_init :: "Rid \<Rightarrow> rm_file \<Rightarrow> (rm_scan, rm_file) res" where
  "RmScan_init junk rm =
     (let np = num_pages (file_hdr rm); nr = num_records_per_page (file_hdr rm)
      in bindE (scan_first 1 junk np nr rm)
           (\<lambda>rid rm. bindE (scan_last (np - 1) nr rm)
              (\<lambda>e rm. (Inr \<lparr>scan_rid = rid, scan_num_pages = np, scan_num_records = nr, scan_end = e\<rparr>, rm))))"

function scan_next :: "int \<Rightarrow> Rid \<Rightarrow> int \<Rightarrow> int \<Rightarrow> rm_file \<Rightarrow> (Rid, rm_file) res" where
  "scan_next i rid e nr rm =
     (if i \<le> e then
        use_page (fetch_page_handle i rm)
          (\<lambda>f rm. let j = int (next_bit True bitmap_off (nat nr) (rid_slot rid) (page_bytes f rm));
                      rm = unpin i False rm
                  in if j \<noteq> nr then (Inr (Rid i j), rm)
                     else scan_next (i + 1) (Rid (rid_page rid + 1) (- 1)) e nr rm)
      else (Inr rid, rm))"
  by pat_completeness auto
termination by (relation "measure (\<lambda>(i, _, e, _). nat (e + 1 - i))") auto

definition rm_scan_next :: "rm_scan \<Rightarrow> rm_file \<Rightarrow> (rm_scan, rm_file) res" where
  "rm_scan_next sc rm =
     bindE (scan_next (rid_page (scan_rid sc)) (scan_rid sc) (scan_end sc) (scan_num_records sc) rm)
       (\<lambda>rid rm. (Inr (sc\<lparr>scan_rid := rid\<rparr>), rm))"

definition rm_scan_is_end :: "rm_scan \<Rightarrow> bool" where
  "rm_scan_is_end sc \<longleftrightarrow> (if scan_end sc = INVALID_PAGE_ID then True else rid_page (scan_rid sc) > scan_end sc)"

definition rm_scan_rid :: "rm_scan \<Rightarrow> Rid" where
  "rm_scan_rid sc = scan_rid sc"

text \<open>A client that visits the records until the end; the fuel bounds the number of records.\<close>

fun scan_collect :: "nat \<Rightarrow> rm_scan \<Rightarrow> rm_file \<Rightarrow> (Rid list, rm_file) res option" where
  "scan_collect 0 sc rm = None"
| "scan_collect (Suc k) sc rm =
     (if rm_scan_is_end sc then Some (Inr [], rm)
      else case rm_scan_next sc rm of
             (Inl e, rm) \<Rightarrow> Some (Inl e, rm)
           | (Inr sc', rm) \<Rightarrow>
               (case scan_collect k sc' rm of
                  None \<Rightarrow> None
                | Some r \<Rightarrow> Some (bindE r (\<lambda>rs rm. (Inr (rm_scan_rid sc # rs), rm)))))"

declare scan_first.simps [simp del] scan_last.simps [simp del] scan_next.simps [simp del]


section \<open>What is left of a scan\<close>

definition slots_from :: "RmFileHdr \<Rightarrow> bytes \<Rightarrow> nat \<Rightarrow> nat list" where
  "slots_from h d k = filter (\<lambda>i. page_slot h d i \<noteq> None) [k ..< per_page h]"

definition page_rids :: "rm_file \<Rightarrow> int \<Rightarrow> nat \<Rightarrow> Rid list" where
  "page_rids rm n k = map (\<lambda>i. Rid n (int i)) (slots_from (file_hdr rm) (page_of rm n) k)"

text \<open>The records from slot \<open>k\<close> of page \<open>n\<close> on, up to page \<open>e\<close>.\<close>

definition rids_upto :: "rm_file \<Rightarrow> int \<Rightarrow> nat \<Rightarrow> int \<Rightarrow> Rid list" where
  "rids_upto rm n k e = (if n \<le> e then page_rids rm n k @ concat (map (\<lambda>m. page_rids rm m 0) [n + 1..e]) else [])"

lemma slots_from_next:
  assumes "k \<le> per_page h"
  shows "slots_from h d k = (if next_bit_from True bitmap_off (per_page h) k d = per_page h then []
     else next_bit_from True bitmap_off (per_page h) k d # slots_from h d (Suc (next_bit_from True bitmap_off (per_page h) k d)))"
  using assms
proof (induction "per_page h - k" arbitrary: k)
  case 0
  then show ?case by (simp add: slots_from_def next_bit_from.simps)
next
  case (Suc x)
  then have k: "k < per_page h" by simp
  then have c: "slots_from h d k = (if is_set bitmap_off k d then k # slots_from h d (Suc k) else slots_from h d (Suc k))"
    by (simp add: slots_from_def page_slot_def upt_conv_Cons)
  show ?case
  proof (cases "is_set bitmap_off k d")
    case True
    then show ?thesis using k c by (simp add: next_bit_from.simps [of True bitmap_off "per_page h" k])
  next
    case False
    have "slots_from h d (Suc k) = (if next_bit_from True bitmap_off (per_page h) (Suc k) d = per_page h then []
     else next_bit_from True bitmap_off (per_page h) (Suc k) d #
       slots_from h d (Suc (next_bit_from True bitmap_off (per_page h) (Suc k) d)))"
      using Suc k by (intro Suc.hyps(1)) auto
    then show ?thesis using False k c by (simp add: next_bit_from.simps [of True bitmap_off "per_page h" k])
  qed
qed

lemma rids_upto_step: "n \<le> e \<Longrightarrow> rids_upto rm n k e = page_rids rm n k @ rids_upto rm (n + 1) 0 e"
  by (auto simp: rids_upto_def upto_rec1 [of "n + 1" e])

text \<open>Two states of a file with the same pages of records.\<close>

definition rm_alike :: "rm_file \<Rightarrow> rm_file \<Rightarrow> bool" where
  "rm_alike rm rm' \<longleftrightarrow> file_hdr rm' = file_hdr rm \<and> (\<forall>n \<in> data_pages (file_hdr rm). page_of rm' n = page_of rm n)"

lemma rm_same_alike: "rm_same rm rm' \<Longrightarrow> rm_alike rm rm'"
  by (simp add: rm_same_def rm_alike_def)

lemma page_rids_alike: "rm_alike rm rm' \<Longrightarrow> 1 \<le> m \<Longrightarrow> m < num_pages (file_hdr rm) \<Longrightarrow> page_rids rm' m k = page_rids rm m k"
  by (simp add: page_rids_def rm_alike_def data_pages_def RM_FIRST_RECORD_PAGE_def)

lemma rids_upto_alike:
  assumes "rm_alike rm rm'" and "1 \<le> n" and "e < num_pages (file_hdr rm)"
  shows "rids_upto rm' n k e = rids_upto rm n k e"
  using assms page_rids_alike [OF assms(1)] by (auto simp: rids_upto_def intro!: arg_cong [where f = concat])

lemmas rids_upto_same = rids_upto_alike [OF rm_same_alike]

section \<open>The loops\<close>

text \<open>One page of a scan.\<close>

lemma scan_page:
  assumes i: "rm_inv rm" and n: "n \<in> data_pages (file_hdr rm)" and s: "- 1 \<le> s" "s < num_records_per_page (file_hdr rm)"
  obtains f rm1 j where "fetch_page_handle n rm = (Inr (Some f), rm1)" and "rm_same rm (unpin n False rm1)"
    and "int (next_bit True bitmap_off (nat (num_records_per_page (file_hdr rm))) s (page_bytes f rm1)) = j"
    and "j = num_records_per_page (file_hdr rm) \<and> page_rids rm n (nat (s + 1)) = [] \<or>
      0 \<le> j \<and> j < num_records_per_page (file_hdr rm) \<and> page_rids rm n (nat (s + 1)) = Rid n j # page_rids rm n (nat (j + 1))"
proof -
  obtain f rm1 where f: "fetch_page_handle n rm = (Inr (Some f), rm1)" "page_bytes f rm1 = page_of rm n"
    "rm_same rm (unpin n False rm1)" using read_page_handle [OF i n] by metis
  let ?h = "file_hdr rm"
  have p: "0 < num_records_per_page ?h" using layout_numbers(1) [OF rm_invD(3) [OF i]] .
  have k: "nat (s + 1) \<le> per_page ?h" using s by simp
  define j where "j = next_bit_from True bitmap_off (per_page ?h) (nat (s + 1)) (page_of rm n)"
  have j: "j \<le> per_page ?h" using next_bit_from_spec [OF k] by (simp add: j_def)
  have "j = per_page ?h \<and> page_rids rm n (nat (s + 1)) = [] \<or>
     j < per_page ?h \<and> page_rids rm n (nat (s + 1)) = Rid n (int j) # page_rids rm n (Suc j)"
    using slots_from_next [OF k, of "page_of rm n", folded j_def] j by (auto simp: page_rids_def)
  then have "int j = num_records_per_page ?h \<and> page_rids rm n (nat (s + 1)) = [] \<or>
      0 \<le> int j \<and> int j < num_records_per_page ?h \<and> page_rids rm n (nat (s + 1)) = Rid n (int j) # page_rids rm n (nat (int j + 1))"
    using p by (simp add: nat_add_distrib) linarith
  then show thesis using f by (intro that [of f rm1 "int j"]) (simp_all add: next_bit_def j_def)
qed

definition at_hd :: "rm_file \<Rightarrow> int \<Rightarrow> Rid list \<Rightarrow> Rid \<Rightarrow> bool" where
  "at_hd rm e L rid \<longleftrightarrow> (case L of [] \<Rightarrow> e < rid_page rid
     | r # rs \<Rightarrow> rid = r \<and> rs = rids_upto rm (rid_page r) (nat (rid_slot r + 1)) e \<and> 1 \<le> rid_page r \<and> rid_page r \<le> e \<and>
         0 \<le> rid_slot r \<and> rid_slot r < num_records_per_page (file_hdr rm))"

lemma at_hd_alike: "rm_alike rm rm' \<Longrightarrow> e < num_pages (file_hdr rm) \<Longrightarrow> at_hd rm' e L rid = at_hd rm e L rid"
  by (auto simp: at_hd_def rids_upto_alike rm_alike_def split: list.split)

lemmas at_hd_same = at_hd_alike [OF rm_same_alike]

lemma scan_next_ok:
  assumes "rm_inv rm" and "e < num_pages (file_hdr rm)" and "1 \<le> i" and "rid_page rid = i"
    and "- 1 \<le> rid_slot rid" and "rid_slot rid < num_records_per_page (file_hdr rm)"
  shows "\<exists>rid' rm'. scan_next i rid e (num_records_per_page (file_hdr rm)) rm = (Inr rid', rm') \<and> rm_same rm rm' \<and>
     at_hd rm e (rids_upto rm i (nat (rid_slot rid + 1)) e) rid'"
  using assms
proof (induction "nat (e + 1 - i)" arbitrary: i rid rm)
  case 0
  then have "scan_next i rid e (num_records_per_page (file_hdr rm)) rm = (Inr rid, rm)" by (simp add: scan_next.simps)
  then show ?case using 0 rm_same_refl by (auto simp: at_hd_def rids_upto_def)
next
  case (Suc x)
  then have ie: "i \<le> e" by simp
  have n: "i \<in> data_pages (file_hdr rm)" using ie Suc.prems by (simp add: data_pages_def RM_FIRST_RECORD_PAGE_def)
  obtain f rm1 j where f: "fetch_page_handle i rm = (Inr (Some f), rm1)" and sm: "rm_same rm (unpin i False rm1)"
    and nb: "int (next_bit True bitmap_off (nat (num_records_per_page (file_hdr rm))) (rid_slot rid) (page_bytes f rm1)) = j"
    and j: "j = num_records_per_page (file_hdr rm) \<and> page_rids rm i (nat (rid_slot rid + 1)) = [] \<or>
      0 \<le> j \<and> j < num_records_per_page (file_hdr rm) \<and>
        page_rids rm i (nat (rid_slot rid + 1)) = Rid i j # page_rids rm i (nat (j + 1))"
    by (rule scan_page [OF Suc.prems(1) n Suc.prems(5,6)])
  let ?rm = "unpin i False rm1" and ?nr = "num_records_per_page (file_hdr rm)"
  have run: "scan_next i rid e ?nr rm = (if j \<noteq> ?nr then (Inr (Rid i j), ?rm) else scan_next (i + 1) (Rid (i + 1) (- 1)) e ?nr ?rm)"
    using f nb ie Suc.prems(4) by (simp add: scan_next.simps [of i] use_page_def Let_def)
  show ?case
  proof (cases "j = ?nr")
    case False
    then show ?thesis using j run sm ie Suc.prems
      by (auto simp: rids_upto_step [OF ie] at_hd_def)
  next
    case True
    have h: "file_hdr ?rm = file_hdr rm" using sm by (simp add: rm_same_def)
    have "0 < ?nr" using layout_numbers(1) [OF rm_invD(3) [OF Suc.prems(1)]] .
    moreover have "x = nat (e + 1 - (i + 1))" using Suc.hyps(2) by simp
    note Suc.hyps(1) [OF this, of ?rm "Rid (i + 1) (- 1)"]
    ultimately obtain rid' rm' where r: "scan_next (i + 1) (Rid (i + 1) (- 1)) e ?nr ?rm = (Inr rid', rm')" "rm_same ?rm rm'"
      "at_hd ?rm e (rids_upto ?rm (i + 1) 0 e) rid'" using Suc.prems rm_same_keeps(1) [OF Suc.prems(1) sm] h by auto
    have "rids_upto rm i (nat (rid_slot rid + 1)) e = rids_upto rm (i + 1) 0 e"
      using j True by (simp add: rids_upto_step [OF ie])
    moreover have "at_hd rm e (rids_upto rm (i + 1) 0 e) rid'"
      using r(3) at_hd_same [OF sm] rids_upto_same [OF sm] Suc.prems by simp
    ultimately show ?thesis using run True r rm_same_trans [OF sm r(2)] by auto
  qed
qed


lemma scan_first_ok:
  assumes "rm_inv rm" and "1 \<le> i"
  shows "\<exists>rid' rm'. scan_first i rid (num_pages (file_hdr rm)) (num_records_per_page (file_hdr rm)) rm = (Inr rid', rm') \<and> rm_same rm rm' \<and>
     (rids_upto rm i 0 (num_pages (file_hdr rm) - 1) \<noteq> [] \<longrightarrow>
        at_hd rm (num_pages (file_hdr rm) - 1) (rids_upto rm i 0 (num_pages (file_hdr rm) - 1)) rid')"
  using assms
proof (induction "nat (num_pages (file_hdr rm) - i)" arbitrary: i rid rm)
  case 0
  then have "scan_first i rid (num_pages (file_hdr rm)) (num_records_per_page (file_hdr rm)) rm = (Inr rid, rm)"
    by (simp add: scan_first.simps)
  then show ?case using 0 rm_same_refl by (auto simp: rids_upto_def)
next
  case (Suc x)
  let ?np = "num_pages (file_hdr rm)" and ?nr = "num_records_per_page (file_hdr rm)"
  have ie: "i \<le> ?np - 1" using Suc.hyps(2) by simp
  have n: "i \<in> data_pages (file_hdr rm)" using ie Suc.prems by (simp add: data_pages_def RM_FIRST_RECORD_PAGE_def)
  have p: "0 < ?nr" using layout_numbers(1) [OF rm_invD(3) [OF Suc.prems(1)]] .
  obtain f rm1 j where f: "fetch_page_handle i rm = (Inr (Some f), rm1)" and sm: "rm_same rm (unpin i False rm1)"
    and nb: "int (next_bit True bitmap_off (nat ?nr) (- 1) (page_bytes f rm1)) = j"
    and j: "j = ?nr \<and> page_rids rm i 0 = [] \<or> 0 \<le> j \<and> j < ?nr \<and> page_rids rm i 0 = Rid i j # page_rids rm i (nat (j + 1))"
    using scan_page [OF Suc.prems(1) n, of "- 1"] p by auto
  let ?rm = "unpin i False rm1"
  define rid0 where "rid0 = Rid (rid_page (if i = ?np - 1 then Rid i j else rid) + 1) (- 1)"
  have run: "scan_first i rid ?np ?nr rm = (if j \<noteq> ?nr then (Inr (Rid i j), ?rm) else scan_first (i + 1) rid0 ?np ?nr ?rm)"
    using f nb ie by (simp add: scan_first.simps [of i] use_page_def Let_def rid0_def cong del: if_weak_cong)
  show ?case
  proof (cases "j = ?nr")
    case False
    then show ?thesis using j run sm ie Suc.prems by (auto simp: rids_upto_step [OF ie] at_hd_def)
  next
    case True
    have h: "file_hdr ?rm = file_hdr rm" using sm by (simp add: rm_same_def)
    moreover have "x = nat (num_pages (file_hdr ?rm) - (i + 1))" using Suc.hyps(2) h by simp
    note Suc.hyps(1) [OF this, of rid0]
    ultimately obtain rid' rm' where r: "scan_first (i + 1) rid0 ?np ?nr ?rm = (Inr rid', rm')" "rm_same ?rm rm'"
      "rids_upto ?rm (i + 1) 0 (?np - 1) \<noteq> [] \<longrightarrow> at_hd ?rm (?np - 1) (rids_upto ?rm (i + 1) 0 (?np - 1)) rid'"
      using Suc.prems rm_same_keeps(1) [OF Suc.prems(1) sm] by auto
    have "rids_upto rm i 0 (?np - 1) = rids_upto rm (i + 1) 0 (?np - 1)"
      using j True by (simp add: rids_upto_step [OF ie])
    moreover have "rids_upto rm (i + 1) 0 (?np - 1) \<noteq> [] \<longrightarrow> at_hd rm (?np - 1) (rids_upto rm (i + 1) 0 (?np - 1)) rid'"
      using r(3) at_hd_same [OF sm] rids_upto_same [OF sm] Suc.prems by simp
    ultimately show ?thesis using run True r rm_same_trans [OF sm r(2)] by auto
  qed
qed

lemma scan_last_ok:
  assumes "rm_inv rm" and "i < num_pages (file_hdr rm)"
  shows "\<exists>e rm'. scan_last i (num_records_per_page (file_hdr rm)) rm = (Inr e, rm') \<and> rm_same rm rm' \<and>
     (e = INVALID_PAGE_ID \<or> 1 \<le> e \<and> e \<le> i \<and> page_rids rm e 0 \<noteq> []) \<and>
     (\<forall>m. max 0 e < m \<and> m \<le> i \<longrightarrow> page_rids rm m 0 = [])"
  using assms
proof (induction "nat i" arbitrary: i rm)
  case 0
  then have "scan_last i (num_records_per_page (file_hdr rm)) rm = (Inr INVALID_PAGE_ID, rm)" by (simp add: scan_last.simps)
  then show ?case using 0 rm_same_refl by (auto simp: INVALID_PAGE_ID_def)
next
  case (Suc x)
  let ?nr = "num_records_per_page (file_hdr rm)"
  have i1: "1 \<le> i" using Suc.hyps(2) by simp
  have n: "i \<in> data_pages (file_hdr rm)" using i1 Suc.prems by (simp add: data_pages_def RM_FIRST_RECORD_PAGE_def)
  have p: "0 < ?nr" using layout_numbers(1) [OF rm_invD(3) [OF Suc.prems(1)]] .
  obtain f rm1 j where f: "fetch_page_handle i rm = (Inr (Some f), rm1)" and sm: "rm_same rm (unpin i False rm1)"
    and nb: "int (next_bit True bitmap_off (nat ?nr) (- 1) (page_bytes f rm1)) = j"
    and j: "j = ?nr \<and> page_rids rm i 0 = [] \<or> 0 \<le> j \<and> j < ?nr \<and> page_rids rm i 0 = Rid i j # page_rids rm i (nat (j + 1))"
    using scan_page [OF Suc.prems(1) n, of "- 1"] p by auto
  let ?rm = "unpin i False rm1"
  have run: "scan_last i ?nr rm = (if j \<noteq> ?nr then (Inr i, ?rm) else scan_last (i - 1) ?nr ?rm)"
    using f nb i1 by (simp add: scan_last.simps [of i] use_page_def Let_def)
  show ?case
  proof (cases "j = ?nr")
    case False
    then show ?thesis using j run sm i1 by auto
  next
    case True
    have h: "file_hdr ?rm = file_hdr rm" using sm by (simp add: rm_same_def)
    have pr: "page_rids ?rm m 0 = page_rids rm m 0" if "1 \<le> m" "m < num_pages (file_hdr rm)" for m
      using sm that by (simp add: page_rids_def rm_same_def data_pages_def RM_FIRST_RECORD_PAGE_def)
    have "x = nat (i - 1)" using Suc.hyps(2) by simp
    from Suc.hyps(1) [OF this, of ?rm] h Suc.prems rm_same_keeps(1) [OF Suc.prems(1) sm]
    obtain e rm' where r: "scan_last (i - 1) ?nr ?rm = (Inr e, rm')" "rm_same ?rm rm'"
      "e = INVALID_PAGE_ID \<or> 1 \<le> e \<and> e \<le> i - 1 \<and> page_rids ?rm e 0 \<noteq> []"
      "\<And>m. max 0 e < m \<Longrightarrow> m \<le> i - 1 \<Longrightarrow> page_rids ?rm m 0 = []" by auto
    have "page_rids rm m 0 = []" if "max 0 e < m" "m \<le> i" for m
      using r(4) [of m] pr [of m] that j True Suc.prems(2) by (cases "m = i") auto
    moreover have "e = INVALID_PAGE_ID \<or> 1 \<le> e \<and> e \<le> i \<and> page_rids rm e 0 \<noteq> []"
      using r(3) pr [of e] Suc.prems(2) by auto
    ultimately show ?thesis using run True r(1) rm_same_trans [OF sm r(2)] by auto
  qed
qed


section \<open>The whole scan\<close>

text \<open>The records of a file in the order of a scan, and a scan that still has to visit the records \<open>L\<close>.\<close>

definition rm_rids :: "rm_file \<Rightarrow> Rid list" where
  "rm_rids rm = rids_upto rm 1 0 (num_pages (file_hdr rm) - 1)"

definition scan_at :: "rm_file \<Rightarrow> rm_scan \<Rightarrow> Rid list \<Rightarrow> bool" where
  "scan_at rm sc L \<longleftrightarrow> scan_num_records sc = num_records_per_page (file_hdr rm) \<and> scan_end sc < num_pages (file_hdr rm) \<and>
     (if scan_end sc = INVALID_PAGE_ID then L = [] else at_hd rm (scan_end sc) L (scan_rid sc))"

lemma scan_at_alike: "rm_alike rm rm' \<Longrightarrow> scan_at rm' sc L = scan_at rm sc L"
  using at_hd_alike [of rm rm'] by (auto simp: scan_at_def rm_alike_def)

lemma rm_rids_alike: "rm_alike rm rm' \<Longrightarrow> rm_rids rm' = rm_rids rm"
  using rids_upto_alike [of rm rm' 1] by (simp add: rm_rids_def rm_alike_def)

lemma scan_at_is_end: "scan_at rm sc L \<Longrightarrow> rm_scan_is_end sc \<longleftrightarrow> L = []"
  by (auto simp: scan_at_def rm_scan_is_end_def at_hd_def split: if_splits list.splits)

lemma scan_at_rid: "scan_at rm sc (r # L) \<Longrightarrow> rm_scan_rid sc = r"
  by (auto simp: scan_at_def rm_scan_rid_def at_hd_def split: if_splits)

lemma scan_at_next:
  assumes i: "rm_inv rm" and a: "scan_at rm sc (r # L)"
  obtains sc' rm' where "rm_scan_next sc rm = (Inr sc', rm')" and "rm_same rm rm'" and "scan_at rm' sc' L"
proof -
  let ?e = "scan_end sc"
  have e: "?e \<noteq> INVALID_PAGE_ID" "?e < num_pages (file_hdr rm)" "scan_num_records sc = num_records_per_page (file_hdr rm)"
    and h: "at_hd rm ?e (r # L) (scan_rid sc)" using a by (auto simp: scan_at_def split: if_splits)
  have r: "scan_rid sc = r" "L = rids_upto rm (rid_page r) (nat (rid_slot r + 1)) ?e" "1 \<le> rid_page r"
    "0 \<le> rid_slot r" "rid_slot r < num_records_per_page (file_hdr rm)" using h by (simp_all add: at_hd_def)
  from scan_next_ok [OF i e(2) r(3) refl] r(4,5) obtain rid' rm' where
    n: "scan_next (rid_page r) r ?e (num_records_per_page (file_hdr rm)) rm = (Inr rid', rm')" and sm: "rm_same rm rm'"
    and h: "at_hd rm ?e L rid'" using r(2) by auto
  have "scan_at rm (sc\<lparr>scan_rid := rid'\<rparr>) L" using h e by (simp add: scan_at_def)
  then have "scan_at rm' (sc\<lparr>scan_rid := rid'\<rparr>) L" unfolding scan_at_alike [OF rm_same_alike [OF sm]] .
  then show thesis using n e(3) r(1) sm by (intro that [of "sc\<lparr>scan_rid := rid'\<rparr>" rm']) (simp_all add: rm_scan_next_def)
qed

lemma scan_collect_ok:
  assumes "rm_inv rm" and "scan_at rm sc L" and "length L < k"
  shows "\<exists>rm'. scan_collect k sc rm = Some (Inr L, rm') \<and> rm_same rm rm'"
  using assms
proof (induction L arbitrary: k sc rm)
  case Nil
  then show ?case using rm_same_refl scan_at_is_end by (cases k) auto
next
  case (Cons r L)
  obtain k' where k: "k = Suc k'" "length L < k'" using Cons.prems(3) by (cases k) auto
  obtain sc' rm' where n: "rm_scan_next sc rm = (Inr sc', rm')" "rm_same rm rm'" "scan_at rm' sc' L"
    by (rule scan_at_next [OF Cons.prems(1,2)])
  from Cons.IH [OF rm_same_keeps(1) [OF Cons.prems(1) n(2)] n(3) k(2)] obtain rm'' where
    c: "scan_collect k' sc' rm' = Some (Inr L, rm'')" "rm_same rm' rm''" by blast
  then have "scan_collect k sc rm = Some (Inr (r # L), rm'')"
    using k(1) n(1) scan_at_is_end [OF Cons.prems(2)] scan_at_rid [OF Cons.prems(2)] by simp
  then show ?case using rm_same_trans [OF n(2) c(2)] by blast
qed

definition rid_less :: "Rid \<Rightarrow> Rid \<Rightarrow> bool" where
  "rid_less a b \<longleftrightarrow> rid_page a < rid_page b \<or> rid_page a = rid_page b \<and> rid_slot a < rid_slot b"

lemma page_rids_sorted: "sorted_wrt rid_less (page_rids rm n k)"
proof -
  have "sorted_wrt (<) (slots_from h d k)" for h d by (simp add: slots_from_def sorted_wrt_filter)
  then show ?thesis by (simp add: page_rids_def sorted_wrt_map rid_less_def)
qed

lemma set_page_rids:
  assumes n: "n \<in> data_pages (file_hdr rm)"
  shows "set (page_rids rm n 0) = {r. rid_page r = n \<and> rm_map rm r \<noteq> None}"
proof (intro set_eqI iffI)
  fix r
  assume "r \<in> set (page_rids rm n 0)"
  then show "r \<in> {r. rid_page r = n \<and> rm_map rm r \<noteq> None}"
    using n by (auto simp: page_rids_def slots_from_def rm_map_def file_map_def)
next
  fix r
  assume "r \<in> {r. rid_page r = n \<and> rm_map rm r \<noteq> None}"
  then obtain x where r: "rid_page r = n" "rm_map rm r = Some x" by auto
  note p = rm_map_page [OF r(2)]
  then have "nat (rid_slot r) < per_page (file_hdr rm)" by (simp add: page_slot_def split: if_splits)
  then have "nat (rid_slot r) \<in> set (slots_from (file_hdr rm) (page_of rm n) 0)" using p(3) r(1) by (simp add: slots_from_def)
  then have "Rid n (int (nat (rid_slot r))) \<in> set (page_rids rm n 0)" unfolding page_rids_def set_map by (rule imageI)
  then show "r \<in> set (page_rids rm n 0)" unfolding p(4) [unfolded r(1)] .
qed

lemma rids_upto_all:
  assumes "1 \<le> n" and "e < num_pages (file_hdr rm)"
  shows "set (rids_upto rm n 0 e) = {r. n \<le> rid_page r \<and> rid_page r \<le> e \<and> rm_map rm r \<noteq> None} \<and> sorted_wrt rid_less (rids_upto rm n 0 e)"
  using assms
proof (induction "nat (e + 1 - n)" arbitrary: n)
  case 0
  then show ?case by (auto simp: rids_upto_def)
next
  case (Suc x)
  then have ne: "n \<le> e" by simp
  have IH: "set (rids_upto rm (n + 1) 0 e) = {r. n + 1 \<le> rid_page r \<and> rid_page r \<le> e \<and> rm_map rm r \<noteq> None} \<and>
      sorted_wrt rid_less (rids_upto rm (n + 1) 0 e)"
    using Suc by (intro Suc.hyps(1)) auto
  have n: "n \<in> data_pages (file_hdr rm)" using ne Suc.prems by (simp add: data_pages_def RM_FIRST_RECORD_PAGE_def)
  show ?case
    using IH set_page_rids [OF n] page_rids_sorted ne by (auto simp: rids_upto_step [OF ne] sorted_wrt_append rid_less_def)
qed

lemma rids_upto_cut:
  assumes "\<And>m. e < m \<Longrightarrow> m \<le> e' \<Longrightarrow> page_rids rm m 0 = []" and "n \<le> e" and "e \<le> e'"
  shows "rids_upto rm n k e' = rids_upto rm n k e"
proof -
  have "concat (map (\<lambda>m. page_rids rm m 0) [e + 1..e']) = []" using assms(1) by simp
  moreover have "[n + 1..e'] = [n + 1..e] @ [e + 1..e']" using assms(2,3) upto_split1 [of "n + 1" "e + 1" e'] by (cases "e = e'") auto
  ultimately show ?thesis using assms(2,3) by (simp add: rids_upto_def)
qed


lemma rm_rids_set:
  shows "set (rm_rids rm) = dom (rm_map rm)" and "sorted_wrt rid_less (rm_rids rm)" and "distinct (rm_rids rm)"
proof -
  have dom: "rid_page r \<in> data_pages (file_hdr rm)" if "rm_map rm r = Some x" for r x using rm_map_page(1) [OF that] .
  show "set (rm_rids rm) = dom (rm_map rm)" and s: "sorted_wrt rid_less (rm_rids rm)"
    using rids_upto_all [of 1 "num_pages (file_hdr rm) - 1" rm] dom
    by (force simp: rm_rids_def dom_def data_pages_def RM_FIRST_RECORD_PAGE_def)+
  have "sorted_wrt rid_less rs \<Longrightarrow> distinct rs" for rs by (induction rs) (auto simp: rid_less_def)
  then show "distinct (rm_rids rm)" using s .
qed

lemma RmScan_init_ok:
  assumes i: "rm_inv rm"
  obtains sc rm1 where "RmScan_init junk rm = (Inr sc, rm1)" and "rm_same rm rm1" and "scan_at rm1 sc (rm_rids rm)"
proof -
  let ?h = "file_hdr rm" and ?rs = "rm_rids rm"
  let ?np = "num_pages ?h" and ?nr = "num_records_per_page ?h"
  obtain rid rm1 where a: "scan_first 1 junk ?np ?nr rm = (Inr rid, rm1)" "rm_same rm rm1" "?rs \<noteq> [] \<longrightarrow> at_hd rm (?np - 1) ?rs rid"
    using scan_first_ok [OF i, of 1 junk] by (auto simp: rm_rids_def)
  note i1 = rm_same_keeps [OF i a(2)]
  have h1: "file_hdr rm1 = ?h" using a(2) by (simp add: rm_same_def)
  have np: "1 \<le> ?np" using file_wfD(2) [OF rm_invD(2) [OF i]] .
  obtain e rm2 where b: "scan_last (?np - 1) ?nr rm1 = (Inr e, rm2)" "rm_same rm1 rm2"
    "e = INVALID_PAGE_ID \<or> 1 \<le> e \<and> e \<le> ?np - 1 \<and> page_rids rm1 e 0 \<noteq> []"
    "\<And>m. max 0 e < m \<Longrightarrow> m \<le> ?np - 1 \<Longrightarrow> page_rids rm1 m 0 = []"
    using scan_last_ok [OF i1(1), of "?np - 1"] h1 by auto
  have pr: "page_rids rm1 m 0 = page_rids rm m 0" if "1 \<le> m" "m \<le> ?np - 1" for m
    using page_rids_alike [OF rm_same_alike [OF a(2)]] that by simp
  have sm: "rm_same rm rm2" using rm_same_trans [OF a(2) b(2)] .
  let ?sc = "\<lparr>scan_rid = rid, scan_num_pages = ?np, scan_num_records = ?nr, scan_end = e\<rparr>"
  have init: "RmScan_init junk rm = (Inr ?sc, rm2)" using a(1) b(1) by (simp add: RmScan_init_def Let_def)
  have "scan_at rm ?sc ?rs"
  proof (cases "e = INVALID_PAGE_ID")
    case True
    then have "page_rids rm m 0 = []" if "1 \<le> m" "m \<le> ?np - 1" for m using b(4) [of m] pr [of m] that by (simp add: INVALID_PAGE_ID_def)
    then have "?rs = []" by (auto simp: rm_rids_def rids_upto_def)
    then show ?thesis using True np by (simp add: scan_at_def INVALID_PAGE_ID_def)
  next
    case False
    with b(3) pr have e: "1 \<le> e" "e \<le> ?np - 1" "page_rids rm e 0 \<noteq> []" by auto
    have cut: "?rs = rids_upto rm 1 0 e" "\<And>n k. n \<le> e \<Longrightarrow> rids_upto rm n k (?np - 1) = rids_upto rm n k e"
      unfolding rm_rids_def using b(4) pr e by (auto intro!: rids_upto_cut)
    have "\<exists>r \<in> set ?rs. rid_page r = e"
      using rids_upto_all [of 1 "?np - 1" rm] set_page_rids [of e rm] e
      by (fastforce simp: rm_rids_def data_pages_def RM_FIRST_RECORD_PAGE_def neq_Nil_conv)
    then have ne: "?rs \<noteq> []" by auto
    then obtain r ts where rt: "?rs = r # ts" by (cases ?rs) auto
    have "r \<in> set (rids_upto rm 1 0 e)" unfolding cut(1) [symmetric] rt by simp
    then have "rid_page r \<le> e" using rids_upto_all [of 1 e rm] e by simp
    then have "at_hd rm e ?rs rid" using a(3) ne rt cut(2) [of "rid_page r"] by (simp add: at_hd_def)
    then show ?thesis using False e by (simp add: scan_at_def)
  qed
  then show thesis using init sm scan_at_alike [OF rm_same_alike [OF sm]] by (intro that [of ?sc rm2]) simp_all
qed

section \<open>Properties\<close>

text \<open>
  C23: a scan visits every record. On every reachable file, creating a scan and advancing it
  until \<open>is_end\<close> visits the ids of all records of the file exactly once, in increasing order, then
  stops; the steps it takes are bounded by the number of records, it changes no record and
  it leaves no page pinned.
\<close>

theorem scan_visits_every_record:
  assumes "rm_inv rm0" and "rm_reachable rm0 rm" and "card (dom (rm_map rm)) < k"
  shows "\<exists>sc rm1 rs rm2. RmScan_init junk rm = (Inr sc, rm1) \<and> scan_collect k sc rm1 = Some (Inr rs, rm2) \<and>
     set rs = dom (rm_map rm) \<and> sorted_wrt rid_less rs \<and> distinct rs \<and> rm_inv rm2 \<and> rm_map rm2 = rm_map rm \<and> others_kept rm rm2"
proof -
  have i: "rm_inv rm" using rm_reachable_inv [OF assms(2,1)] .
  note rs = rm_rids_set [of rm]
  obtain sc rm1 where s: "RmScan_init junk rm = (Inr sc, rm1)" "rm_same rm rm1" "scan_at rm1 sc (rm_rids rm)"
    by (rule RmScan_init_ok [OF i])
  have "length (rm_rids rm) < k" using distinct_card [OF rs(3)] rs(1) assms(3) by simp
  from scan_collect_ok [OF rm_same_keeps(1) [OF i s(2)] s(3) this] obtain rm2 where
    c: "scan_collect k sc rm1 = Some (Inr (rm_rids rm), rm2)" "rm_same rm rm2" using rm_same_trans [OF s(2)] by blast
  with s(1) rs rm_same_keeps [OF i c(2)] show ?thesis by (auto simp: rm_same_def)
qed

theorem scan_visits_every_record_witness:
  "\<exists>r rm sc rm1 rm2. rm_map rm = [r \<mapsto> [1, 2, 3, 4]] \<and> RmScan_init (Rid 0 0) rm = (Inr sc, rm1) \<and>
     scan_collect 2 sc rm1 = Some (Inr [r], rm2)"
proof -
  obtain r rm where r: "rm_reachable sample_rm rm" "rm_map rm = [r \<mapsto> [1, 2, 3, 4]]" by (rule sample_one_record)
  then have "card (dom (rm_map rm)) < 2" by simp
  from scan_visits_every_record [OF sample_rm_ok(1) r(1) this, of "Rid 0 0"] obtain sc rm1 rs rm2 where
    s: "RmScan_init (Rid 0 0) rm = (Inr sc, rm1)" "scan_collect 2 sc rm1 = Some (Inr rs, rm2)" "set rs = {r}" "distinct rs"
    using r(2) by auto
  then have "rs = [r]" by (cases rs) (auto simp: subset_singleton_iff)
  then show ?thesis using s r(2) by blast
qed

end
