(* ===== verification/Tables.thy ===== *)
theory Tables
  imports RmScan SmMeta
begin

text \<open>
  The open tables of a database: the part of \<open>SmManager\<close> (\<^verbatim>\<open>system/sm_manager.h\<close>) the executors use, the catalogue
  \<open>db_\<close>, the file handles \<open>fhs_\<close> and the buffer pool that all handles share. A handle is reached through the name
  of its table. What one table file does through the shared pool leaves the other tables as they are, so every
  statement about one file becomes a statement about the database.
\<close>

section \<open>The open tables\<close>

record sm_manager =
  sm_db :: DbMeta
  sm_fhs :: "string \<Rightarrow> (int \<times> RmFileHdr) option"
  sm_pool :: bpm

definition handle :: "int \<times> RmFileHdr \<Rightarrow> bpm \<Rightarrow> rm_file" where
  "handle fh b = \<lparr>rm_fd = fst fh, file_hdr = snd fh, pool = b\<rparr>"

lemma handle_simps [simp]:
  "rm_fd (handle fh b) = fst fh" "file_hdr (handle fh b) = snd fh" "pool (handle fh b) = b"
  by (simp_all add: handle_def)

lemma handle_eta [simp]: "handle (rm_fd rm, file_hdr rm) (pool rm) = rm"
  by (simp add: handle_def)

text \<open>\<open>fhs_.at(tab_name)\<close>, and an operation of the handle.\<close>

definition on_table :: "string \<Rightarrow> (rm_file \<Rightarrow> ('a, rm_file) res) \<Rightarrow> sm_manager \<Rightarrow> ('a, sm_manager) res" where
  "on_table t f sm =
     (case sm_fhs sm t of
        None \<Rightarrow> (Inl OutOfRange, sm)
      | Some fh \<Rightarrow>
          (case f (handle fh (sm_pool sm)) of
             (r, rm) \<Rightarrow> (r, sm\<lparr>sm_fhs := (sm_fhs sm)(t \<mapsto> (rm_fd rm, file_hdr rm)), sm_pool := pool rm\<rparr>)))"

section \<open>The invariant and the contents\<close>

definition sm_inv :: "sm_manager \<Rightarrow> bool" where
  "sm_inv sm \<longleftrightarrow> (\<forall>t fh. sm_fhs sm t = Some fh \<longrightarrow> rm_inv (handle fh (sm_pool sm))) \<and>
     (\<forall>t u fh fh'. sm_fhs sm t = Some fh \<longrightarrow> sm_fhs sm u = Some fh' \<longrightarrow> fst fh = fst fh' \<longrightarrow> t = u)"

lemma sm_invD: "sm_inv sm \<Longrightarrow> sm_fhs sm t = Some fh \<Longrightarrow> rm_inv (handle fh (sm_pool sm))"
  unfolding sm_inv_def by blast

lemma sm_inv_fd: "sm_inv sm \<Longrightarrow> sm_fhs sm t = Some fh \<Longrightarrow> sm_fhs sm u = Some fh' \<Longrightarrow> u \<noteq> t \<Longrightarrow> fst fh' \<noteq> fst fh"
  unfolding sm_inv_def by metis

definition table_map :: "sm_manager \<Rightarrow> string \<Rightarrow> Rid \<rightharpoonup> bytes" where
  "table_map sm t = (case sm_fhs sm t of None \<Rightarrow> Map.empty | Some fh \<Rightarrow> rm_map (handle fh (sm_pool sm)))"

text \<open>The ids of the records of a table in the order of a scan, and the records.\<close>

definition table_rids :: "sm_manager \<Rightarrow> string \<Rightarrow> Rid list" where
  "table_rids sm t = (case sm_fhs sm t of None \<Rightarrow> [] | Some fh \<Rightarrow> rm_rids (handle fh (sm_pool sm)))"

definition table_rows :: "sm_manager \<Rightarrow> string \<Rightarrow> bytes list" where
  "table_rows sm t = map (\<lambda>r. the (table_map sm t r)) (table_rids sm t)"

lemma table_rids_set:
  "set (table_rids sm t) = dom (table_map sm t)" "sorted_wrt rid_less (table_rids sm t)" "distinct (table_rids sm t)"
  by (simp_all add: table_rids_def table_map_def rm_rids_set split: option.split)

text \<open>Nothing that a reader of tables can see differs.\<close>

definition sm_same :: "sm_manager \<Rightarrow> sm_manager \<Rightarrow> bool" where
  "sm_same sm sm' \<longleftrightarrow> sm_inv sm' \<and> sm_db sm' = sm_db sm \<and> sm_fhs sm' = sm_fhs sm \<and>
     pin_of (sm_pool sm') = pin_of (sm_pool sm) \<and>
     (\<forall>t fh. sm_fhs sm t = Some fh \<longrightarrow> rm_alike (handle fh (sm_pool sm)) (handle fh (sm_pool sm')))"

lemma sm_same_refl: "sm_inv sm \<Longrightarrow> sm_same sm sm"
  by (simp add: sm_same_def rm_alike_def)

lemma sm_same_trans: "sm_same sm sm' \<Longrightarrow> sm_same sm' sm'' \<Longrightarrow> sm_same sm sm''"
  by (fastforce simp: sm_same_def rm_alike_def)

lemma sm_same_inv: "sm_same sm sm' \<Longrightarrow> sm_inv sm'"
  by (simp add: sm_same_def)

lemma rm_map_alike: "rm_alike rm rm' \<Longrightarrow> rm_map rm' = rm_map rm"
  by (auto simp: rm_alike_def rm_map_def file_map_def fun_eq_iff)

lemma sm_same_table:
  assumes "sm_same sm sm'"
  shows "table_map sm' t = table_map sm t" "table_rids sm' t = table_rids sm t" "table_rows sm' t = table_rows sm t"
proof -
  show m: "table_map sm' t = table_map sm t" and r: "table_rids sm' t = table_rids sm t"
    using assms by (auto simp: sm_same_def table_map_def table_rids_def rm_map_alike rm_rids_alike split: option.split)
  show "table_rows sm' t = table_rows sm t" by (simp add: table_rows_def m r)
qed

section \<open>One table among others\<close>

text \<open>An operation of one file leaves every other file of the pool as it was.\<close>

lemma other_file:
  assumes o: "others_kept rm rm'" and b: "bpm_inv (pool rm')"
    and i: "rm_inv (handle fh (pool rm))" and ne: "fst fh \<noteq> rm_fd rm"
  shows "rm_inv (handle fh (pool rm')) \<and> rm_alike (handle fh (pool rm)) (handle fh (pool rm'))"
proof -
  let ?r = "handle fh (pool rm)" and ?r' = "handle fh (pool rm')"
  note s = rm_invD(1) [OF i, unfolded pool_side_def]
  have keep: "content (pool rm') (PageId (fst fh) n) = content (pool rm) (PageId (fst fh) n)" if n: "n \<in> data_pages (snd fh)" for n
  proof -
    obtain c where c: "content (pool rm) (PageId (fst fh) n) = Some c" using s n by force
    have "page_ok n" using data_page_ok [OF i] n by simp
    then show ?thesis using o ne c unfolding others_kept_def by simp
  qed
  then have alike: "rm_alike ?r ?r'" by (simp add: rm_alike_def page_of_def)
  have tab: "pid_no q \<in> data_pages (snd fh)" if "q \<in> fst ` set (page_table (pool rm'))" "pid_fd q = fst fh" for q
  proof -
    have "q \<in> fst ` set (page_table (pool rm))" using o ne that unfolding others_kept_def by metis
    then show ?thesis using s that(2) by auto
  qed
  have "pool_side ?r'"
    unfolding pool_side_def using s b o ne keep tab by (simp add: others_kept_def)
  moreover have "file_wf (snd fh) (page_of ?r')"
    using rm_same_file_wf [of "snd fh" "page_of ?r" "page_of ?r'"] rm_invD(2) [OF i] alike by (simp add: rm_alike_def)
  ultimately show ?thesis using alike by (simp add: rm_inv_def)
qed

lemma on_table_other:
  assumes i: "sm_inv sm" and fh: "sm_fhs sm t = Some fh"
    and rm: "rm_inv rm" and o: "others_kept (handle fh (sm_pool sm)) rm" and u: "u \<noteq> t" "sm_fhs sm u = Some fh'"
  shows "rm_inv (handle fh' (pool rm)) \<and> rm_alike (handle fh' (sm_pool sm)) (handle fh' (pool rm))"
proof -
  have "fst fh' \<noteq> fst fh" using sm_inv_fd [OF i fh u(2,1)] .
  moreover have "rm_inv (handle fh' (sm_pool sm))" using sm_invD [OF i u(2)] .
  moreover have "bpm_inv (pool rm)" using rm_invD(1) [OF rm] by (simp add: pool_side_def)
  ultimately show ?thesis using other_file [OF o] by simp
qed

text \<open>An operation that changes one table.\<close>

lemma on_table_ok:
  assumes i: "sm_inv sm" and fh: "sm_fhs sm t = Some fh" and f: "f (handle fh (sm_pool sm)) = (r, rm)"
    and rm: "rm_inv rm" and o: "others_kept (handle fh (sm_pool sm)) rm"
  obtains sm' where "on_table t f sm = (r, sm')" and "sm_inv sm'" and "sm_db sm' = sm_db sm"
    and "table_map sm' = (table_map sm)(t := rm_map rm)" and "sm_fhs sm' = (sm_fhs sm)(t \<mapsto> (rm_fd rm, file_hdr rm))"
proof -
  let ?sm = "sm\<lparr>sm_fhs := (sm_fhs sm)(t \<mapsto> (rm_fd rm, file_hdr rm)), sm_pool := pool rm\<rparr>"
  note other = on_table_other [OF i fh rm o]
  have fd: "rm_fd rm = fst fh" using o by (simp add: others_kept_def)
  have "sm_inv ?sm"
    unfolding sm_inv_def
  proof (intro conjI allI impI)
    fix u fh'
    assume "sm_fhs ?sm u = Some fh'"
    then show "rm_inv (handle fh' (sm_pool ?sm))" using rm other [of u fh'] by (auto split: if_splits)
  next
    fix u v fh' fh''
    assume a: "sm_fhs ?sm u = Some fh'" "sm_fhs ?sm v = Some fh''" "fst fh' = fst fh''"
    have old: "\<exists>g. sm_fhs sm x = Some g \<and> fst g = fst fh'" if "sm_fhs ?sm x = Some fh'" for x fh'
      using that fh fd by (cases fh; cases fh') (auto split: if_splits)
    show "u = v" using old [OF a(1)] old [OF a(2)] a(3) sm_inv_fd [OF i] by metis
  qed
  moreover have "table_map ?sm = (table_map sm)(t := rm_map rm)"
    using other rm_map_alike by (auto simp: table_map_def fun_eq_iff split: option.split)
  ultimately show thesis using fh f by (intro that [of ?sm]) (simp_all add: on_table_def)
qed

text \<open>An operation that only reads.\<close>

lemma on_table_read:
  assumes i: "sm_inv sm" and fh: "sm_fhs sm t = Some fh" and f: "f (handle fh (sm_pool sm)) = (r, rm)"
    and s: "rm_same (handle fh (sm_pool sm)) rm"
  obtains sm' where "on_table t f sm = (r, sm')" and "sm_same sm sm'" and "handle fh (sm_pool sm') = rm"
proof -
  let ?rm = "handle fh (sm_pool sm)" and ?sm = "sm\<lparr>sm_pool := pool rm\<rparr>"
  have inv: "rm_inv ?rm" using sm_invD [OF i fh] .
  have rm: "rm_inv rm" "rm_fd rm = fst fh" "file_hdr rm = snd fh" and o: "others_kept ?rm rm"
    using rm_same_keeps(1) [OF inv s] s by (simp_all add: rm_same_def others_kept_def)
  note other = on_table_other [OF i fh rm(1) o]
  have h: "handle fh (pool rm) = rm" using rm(2,3) by (metis handle_eta prod.collapse)
  have all: "rm_inv (handle fh' (pool rm)) \<and> rm_alike (handle fh' (sm_pool sm)) (handle fh' (pool rm))"
    if "sm_fhs sm u = Some fh'" for u fh' using other [of u fh'] that fh h rm(1) rm_same_alike [OF s] by (cases "u = t") auto
  have "sm_inv ?sm" using i all by (simp add: sm_inv_def)
  then have "sm_same sm ?sm" using all o by (simp add: sm_same_def others_kept_def)
  moreover have "on_table t f sm = (r, ?sm)" using fh f rm(2,3) by (simp add: on_table_def fun_upd_idem)
  ultimately show thesis using h by (intro that [of ?sm]) simp_all
qed

text \<open>A change of the disk or the log under the pool that leaves the pages of the open tables as they are.\<close>

lemma sm_env_files:
  assumes i: "sm_inv sm"
    and f: "\<And>t fh. sm_fhs sm t = Some fh \<Longrightarrow> data_fd d (fst fh) \<and> fd2pageno d (fst fh) = fd2pageno (disk (sm_pool sm)) (fst fh) \<and>
       (\<forall>n c. page_ok n \<longrightarrow> dpage (disk (sm_pool sm)) (PageId (fst fh) n) = Some c \<longrightarrow> dpage d (PageId (fst fh) n) = Some c)"
  shows "table_map (sm\<lparr>sm_pool := (sm_pool sm)\<lparr>log_mgr := lm, disk := d\<rparr>\<rparr>) = table_map sm"
    and "(\<And>t fh. sm_fhs sm t = Some fh \<Longrightarrow> bpm_inv ((sm_pool sm)\<lparr>log_mgr := lm, disk := d\<rparr>)) \<Longrightarrow>
       sm_same sm (sm\<lparr>sm_pool := (sm_pool sm)\<lparr>log_mgr := lm, disk := d\<rparr>\<rparr>)"
proof -
  let ?b = "sm_pool sm" and ?b' = "(sm_pool sm)\<lparr>log_mgr := lm, disk := d\<rparr>" and ?sm = "sm\<lparr>sm_pool := (sm_pool sm)\<lparr>log_mgr := lm, disk := d\<rparr>\<rparr>"
  have keep: "content ?b' (PageId (fst fh) n) = content ?b (PageId (fst fh) n)" "content ?b (PageId (fst fh) n) \<noteq> None"
    if t: "sm_fhs sm t = Some fh" and n: "n \<in> data_pages (snd fh)" for t fh n
  proof -
    have h: "rm_inv (handle fh ?b)" using sm_invD [OF i t] .
    then obtain c where c: "content ?b (PageId (fst fh) n) = Some c" using n by (force simp: rm_inv_def pool_side_def)
    moreover have "page_ok n" using data_page_ok [OF h, of n] n by simp
    ultimately show "content ?b' (PageId (fst fh) n) = content ?b (PageId (fst fh) n)" "content ?b (PageId (fst fh) n) \<noteq> None"
      using f [OF t] by (auto simp: content_def split: option.splits)
  qed
  have alike: "rm_alike (handle fh ?b) (handle fh ?b')" if "sm_fhs sm t = Some fh" for t fh
    using keep(1) [OF that] by (simp add: rm_alike_def page_of_def)
  show "table_map ?sm = table_map sm" using alike rm_map_alike by (auto simp: table_map_def fun_eq_iff split: option.split)
  show "sm_same sm ?sm" if e: "\<And>t fh. sm_fhs sm t = Some fh \<Longrightarrow> bpm_inv ?b'"
  proof -
    have "rm_inv (handle fh ?b')" if fh: "sm_fhs sm t = Some fh" for t fh
    proof -
      have h: "rm_inv (handle fh ?b)" using sm_invD [OF i fh] .
      then have s: "pool_side (handle fh ?b)" and wf: "file_wf (snd fh) (page_of (handle fh ?b))" by (simp_all add: rm_inv_def)
      have "file_wf (snd fh) (page_of (handle fh ?b'))"
        using rm_same_file_wf [OF wf] alike [OF fh] by (simp add: rm_alike_def)
      moreover have "pin_of ?b' = pin_of ?b" "pool_size ?b' = pool_size ?b" "page_table ?b' = page_table ?b" by (simp_all add: pin_of_def fun_eq_iff)
      ultimately show ?thesis using s keep [OF fh] e [OF fh] f [OF fh] by (simp add: rm_inv_def pool_side_def)
    qed
    then have "sm_inv ?sm" using i by (simp add: sm_inv_def)
    then show ?thesis using alike by (simp add: sm_same_def pin_of_def fun_eq_iff)
  qed
qed

end
