(* ===== verification/Executors.thy ===== *)
theory Executors
  imports Tables IxCompare
begin

text \<open>
  The interface of the query executors, \<open>AbstractExecutor\<close> of \<^verbatim>\<open>execution/executor_abstract.h\<close>. The virtual methods
  of a class are a record of operations over the state \<open>'s\<close> of an object of the class and the state \<open>'w\<close> of the
  database; an executor that works on other executors takes their records as arguments. An operation may throw, and
  it may run forever: it returns \<open>None\<close> then.

  The locale \<open>cursor\<close> is what the interface promises its clients: from \<open>beginTuple\<close> on, an executor delivers the
  tuples of a list, one for each \<open>nextTuple\<close>, until \<open>is_end\<close>. \<open>restartable\<close> executors can be started again at any
  time, \<open>rereadable\<close> ones give the current tuple more than once. The client's argument, that a loop over the executor
  is the loop over the list, is made once in \<open>cursor\<close>.
\<close>

section \<open>The interface\<close>

record ('s, 'w) executor =
  beginTuple :: "'s \<Rightarrow> 'w \<Rightarrow> ('s, 'w) run"
  nextTuple :: "'s \<Rightarrow> 'w \<Rightarrow> ('s, 'w) run"
  is_end :: "'s \<Rightarrow> bool"
  Next :: "'s \<Rightarrow> 'w \<Rightarrow> (RmRecord option \<times> 's, 'w) run"
  exec_rid :: "'s \<Rightarrow> Rid"
  exec_cols :: "'s \<Rightarrow> ColMeta list"
  tupleLen :: "'s \<Rightarrow> nat"

text \<open>The columns and the length of the tuples are set by the constructor.\<close>

definition same_shape :: "('s, 'w) executor \<Rightarrow> 's \<Rightarrow> 's \<Rightarrow> bool" where
  "same_shape ops s s' \<longleftrightarrow> exec_cols ops s' = exec_cols ops s \<and> tupleLen ops s' = tupleLen ops s"

definition find_col :: "ColMeta list \<Rightarrow> TabCol \<Rightarrow> rmdb_error + ColMeta" where
  "find_col rec_cols target =
     (case find (\<lambda>col. cm_tab_name col = tc_tab target \<and> cm_name col = tc_col target) rec_cols of
        None \<Rightarrow> Inl (ColumnNotFoundError (tc_tab target @ ''.'' @ tc_col target))
      | Some col \<Rightarrow> Inr col)"

text \<open>\<open>getValue\<close>, which every executor has: the value of a column of a tuple.\<close>

definition col_value :: "ColMeta \<Rightarrow> RmRecord \<Rightarrow> Value" where
  "col_value col tuple =
     (let col_raw = slice (nat (cm_offset col)) (nat (cm_len col)) tuple
      in \<lparr>v_type = cm_type col,
          v_num = (if cm_type col = TYPE_INT \<or> cm_type col = TYPE_FLOAT then word_of_int (load_int col_raw 0) else 0),
          str_val = (if cm_type col = TYPE_STRING then c_str col_raw else []),
          v_raw = None\<rparr>)"

definition getValue :: "ColMeta list \<Rightarrow> TabCol \<Rightarrow> RmRecord \<Rightarrow> rmdb_error + Value" where
  "getValue cols col tuple = (case find_col cols col of Inl e \<Rightarrow> Inl e | Inr c \<Rightarrow> Inr (col_value c tuple))"

text \<open>The loop over the conditions; \<open>cmp\<close> is the comparison an executor makes.\<close>

fun eval_conds :: "(Condition \<Rightarrow> Value \<Rightarrow> Value \<Rightarrow> rmdb_error + bool) \<Rightarrow> ColMeta list \<Rightarrow> Condition list \<Rightarrow> RmRecord \<Rightarrow> rmdb_error + bool" where
  "eval_conds cmp cols [] tuple = Inr True"
| "eval_conds cmp cols (cond # conds) tuple =
     (case getValue cols (lhs_col cond) tuple of
        Inl e \<Rightarrow> Inl e
      | Inr left \<Rightarrow>
          (case (if is_rhs_val cond then Inr (rhs_val cond) else getValue cols (rhs_col cond) tuple) of
             Inl e \<Rightarrow> Inl e
           | Inr right \<Rightarrow>
               (case cmp cond left right of
                  Inl e \<Rightarrow> Inl e
                | Inr False \<Rightarrow> Inr False
                | Inr True \<Rightarrow> eval_conds cmp cols conds tuple)))"

section \<open>What a condition means\<close>

text \<open>
  The columns of a condition exist and can be compared, and the condition holds of a tuple. Evaluation of well-typed
  conditions never throws and gives the conjunction, for the comparison every executor makes.
\<close>

definition comparable :: "ColType \<Rightarrow> ColType \<Rightarrow> bool" where
  "comparable l r \<longleftrightarrow> TypeCompatible l r \<and> l \<noteq> TYPE_DATETIME"

definition rhs_value :: "ColMeta list \<Rightarrow> Condition \<Rightarrow> RmRecord \<Rightarrow> rmdb_error + Value" where
  "rhs_value cols cond tuple = (if is_rhs_val cond then Inr (rhs_val cond) else getValue cols (rhs_col cond) tuple)"

definition cond_typed :: "ColMeta list \<Rightarrow> Condition \<Rightarrow> bool" where
  "cond_typed cols cond \<longleftrightarrow>
     (case find_col cols (lhs_col cond) of
        Inl _ \<Rightarrow> False
      | Inr l \<Rightarrow>
          if is_rhs_val cond then comparable (cm_type l) (v_type (rhs_val cond))
          else (case find_col cols (rhs_col cond) of Inl _ \<Rightarrow> False | Inr r \<Rightarrow> comparable (cm_type l) (cm_type r)))"

definition cond_holds :: "ColMeta list \<Rightarrow> RmRecord \<Rightarrow> Condition \<Rightarrow> bool" where
  "cond_holds cols tuple cond \<longleftrightarrow>
     (case (getValue cols (lhs_col cond) tuple, rhs_value cols cond tuple) of
        (Inr l, Inr r) \<Rightarrow> ValueComp l r (c_op cond) = Inr True
      | _ \<Rightarrow> False)"

lemma col_value_type [simp]: "v_type (col_value c tuple) = cm_type c"
  by (simp add: col_value_def Let_def)

lemma cond_typed_values:
  assumes "cond_typed cols cond"
  obtains l r where "getValue cols (lhs_col cond) tuple = Inr l" and "rhs_value cols cond tuple = Inr r"
    and "comparable (v_type l) (v_type r)"
  using assms by (auto simp: cond_typed_def getValue_def rhs_value_def split: sum.splits if_splits)

lemma ValueComp_answers: "comparable (v_type l) (v_type r) \<Longrightarrow> \<exists>b. ValueComp l r op = Inr b"
  by (cases "v_type l"; cases "v_type r") (auto simp: comparable_def TypeCompatible_def ValueComp_def)

lemma eval_conds_meaning:
  assumes "\<And>cond l r. comparable (v_type l) (v_type r) \<Longrightarrow> cmp cond l r = ValueComp l r (c_op cond)"
    and "\<forall>cond \<in> set conds. cond_typed cols cond"
  shows "eval_conds cmp cols conds tuple = Inr (\<forall>cond \<in> set conds. cond_holds cols tuple cond)"
  using assms(2)
proof (induction conds)
  case (Cons cond conds)
  obtain l r where v: "getValue cols (lhs_col cond) tuple = Inr l" "rhs_value cols cond tuple = Inr r" "comparable (v_type l) (v_type r)"
    using cond_typed_values Cons.prems by (metis list.set_intros(1))
  obtain b where "ValueComp l r (c_op cond) = Inr b" using ValueComp_answers [OF v(3)] by blast
  then show ?case using v assms(1) [OF v(3)] Cons by (cases b) (simp_all add: cond_holds_def rhs_value_def)
qed simp

section \<open>Loops over an executor\<close>

text \<open>
  \<open>for (e->beginTuple(); !e->is_end(); e->nextTuple())\<close> with a body that uses the tuple; the body may throw, and it
  breaks the loop when it returns \<open>True\<close>.
\<close>

partial_function (option) tuple_loop ::
    "('s, 'w) executor \<Rightarrow> (RmRecord \<Rightarrow> 'a \<Rightarrow> rmdb_error + bool \<times> 'a) \<Rightarrow> 'a \<Rightarrow> 's \<Rightarrow> 'w \<Rightarrow> ('a \<times> 's, 'w) run" where
  "tuple_loop ops f a s w =
     (if is_end ops s then Some (Inr (a, s), w)
      else bindR (Next ops s w)
             (\<lambda>ts w. case fst ts of
                None \<Rightarrow> Some (Inl NullDereference, w)
              | Some t \<Rightarrow>
                  (case f t a of
                     Inl e \<Rightarrow> Some (Inl e, w)
                   | Inr ba \<Rightarrow>
                       if fst ba then Some (Inr (snd ba, snd ts), w)
                       else bindR (nextTuple ops (snd ts) w) (\<lambda>s w. tuple_loop ops f (snd ba) s w))))"

definition for_tuples ::
    "('s, 'w) executor \<Rightarrow> (RmRecord \<Rightarrow> 'a \<Rightarrow> rmdb_error + bool \<times> 'a) \<Rightarrow> 'a \<Rightarrow> 's \<Rightarrow> 'w \<Rightarrow> ('a \<times> 's, 'w) run" where
  "for_tuples ops f a s w = bindR (beginTuple ops s w) (tuple_loop ops f a)"

text \<open>The same loop over a list.\<close>

fun list_loop :: "('t \<Rightarrow> 'a \<Rightarrow> rmdb_error + bool \<times> 'a) \<Rightarrow> 'a \<Rightarrow> 't list \<Rightarrow> rmdb_error + 'a" where
  "list_loop f a [] = Inr a"
| "list_loop f a (x # xs) =
     (case f x a of Inl e \<Rightarrow> Inl e | Inr ba \<Rightarrow> if fst ba then Inr (snd ba) else list_loop f (snd ba) xs)"

text \<open>The body that keeps every tuple.\<close>

definition keep :: "'t \<Rightarrow> 't list \<Rightarrow> rmdb_error + bool \<times> 't list" where
  "keep t acc = Inr (False, acc @ [t])"

lemma list_loop_keep [simp]: "list_loop keep a L = Inr (a @ L)"
  by (induction L arbitrary: a) (simp_all add: keep_def)

section \<open>The contract\<close>

text \<open>The states of the database a reader cannot tell apart.\<close>

locale world =
  fixes same :: "'w \<Rightarrow> 'w \<Rightarrow> bool"
  assumes same_trans: "same w w' \<Longrightarrow> same w' w'' \<Longrightarrow> same w w''"
    and same_target: "same w w' \<Longrightarrow> same w' w'"

text \<open>
  \<open>fresh s w A\<close>: started in \<open>w\<close>, the executor \<open>s\<close> delivers the tuples \<open>A\<close>. \<open>at s w A L\<close>: of these the tuples \<open>L\<close> are
  left, the first one is the current tuple. \<open>seen s w A L\<close>: the same, but the current tuple was read.
\<close>

locale cursor = world same
  for same :: "'w \<Rightarrow> 'w \<Rightarrow> bool" +
  fixes ops :: "('s, 'w) executor"
    and fresh :: "'s \<Rightarrow> 'w \<Rightarrow> RmRecord list \<Rightarrow> bool"
    and at :: "'s \<Rightarrow> 'w \<Rightarrow> RmRecord list \<Rightarrow> RmRecord list \<Rightarrow> bool"
    and seen :: "'s \<Rightarrow> 'w \<Rightarrow> RmRecord list \<Rightarrow> RmRecord list \<Rightarrow> bool"
  assumes begin_law: "fresh s w A \<Longrightarrow>
      \<exists>s' w'. beginTuple ops s w = Some (Inr s', w') \<and> same w w' \<and> at s' w' A A \<and> same_shape ops s s'"
    and end_law: "at s w A L \<Longrightarrow> is_end ops s \<longleftrightarrow> L = []"
    and get_law: "at s w A (x # L) \<Longrightarrow>
      \<exists>s' w'. Next ops s w = Some (Inr (Some x, s'), w') \<and> same w w' \<and> seen s' w' A (x # L) \<and> same_shape ops s s'"
    and next_law: "at s w A (x # L) \<or> seen s w A (x # L) \<Longrightarrow>
      \<exists>s' w'. nextTuple ops s w = Some (Inr s', w') \<and> same w w' \<and> at s' w' A L \<and> same_shape ops s s'"
    and stable: "same w w' \<Longrightarrow> fresh s w A \<Longrightarrow> fresh s w' A" "same w w' \<Longrightarrow> at s w A L \<Longrightarrow> at s w' A L"
      "same w w' \<Longrightarrow> seen s w A L \<Longrightarrow> seen s w' A L"
begin

abbreviation started :: "'s \<Rightarrow> 'w \<Rightarrow> RmRecord list \<Rightarrow> bool" where
  "started s w A \<equiv> \<exists>L. at s w A L \<or> seen s w A L"

lemma tuple_loop_list:
  assumes "at s w A L" and "same w w"
  shows "\<exists>s' w'. tuple_loop ops f a s w = Some (case list_loop f a L of Inl e \<Rightarrow> Inl e | Inr b \<Rightarrow> Inr (b, s'), w') \<and>
     same w w' \<and> started s' w' A"
  using assms
proof (induction L arbitrary: a s w)
  case Nil
  then show ?case using end_law [OF Nil(1)] by (subst tuple_loop.simps) auto
next
  case (Cons x L)
  obtain s1 w1 where g: "Next ops s w = Some (Inr (Some x, s1), w1)" "same w w1" "seen s1 w1 A (x # L)"
    using get_law [OF Cons.prems(1)] by blast
  obtain s2 w2 where n: "nextTuple ops s1 w1 = Some (Inr s2, w2)" "same w1 w2" "at s2 w2 A L" using next_law g(3) by blast
  have e: "\<not> is_end ops s" using end_law [OF Cons.prems(1)] by simp
  have run: "tuple_loop ops f a s w =
      (case f x a of Inl e \<Rightarrow> Some (Inl e, w1)
       | Inr ba \<Rightarrow> if fst ba then Some (Inr (snd ba, s1), w1) else tuple_loop ops f (snd ba) s2 w2)"
    using e g(1) n(1) by (subst tuple_loop.simps) (simp split: sum.split)
  show ?case
  proof (cases "f x a")
    case (Inr ba)
    obtain s' w' where "tuple_loop ops f (snd ba) s2 w2 =
        Some (case list_loop f (snd ba) L of Inl e \<Rightarrow> Inl e | Inr b \<Rightarrow> Inr (b, s'), w')" "same w2 w'" "started s' w' A"
      using Cons.IH [OF n(3) same_target [OF n(2)]] by blast
    then show ?thesis using run Inr g(2,3) same_trans [OF same_trans [OF g(2) n(2)]] by auto
  qed (use run g(2,3) in auto)
qed

lemma loop_over_tuples:
  assumes "fresh s w A"
  shows "\<exists>s' w'. for_tuples ops f a s w = Some (case list_loop f a A of Inl e \<Rightarrow> Inl e | Inr b \<Rightarrow> Inr (b, s'), w') \<and>
     same w w' \<and> started s' w' A"
proof -
  obtain s1 w1 where b: "beginTuple ops s w = Some (Inr s1, w1)" "same w w1" "at s1 w1 A A" using begin_law [OF assms] by blast
  then show ?thesis using tuple_loop_list [OF b(3) same_target [OF b(2)]] same_trans [OF b(2)] by (fastforce simp: for_tuples_def)
qed

lemma collects:
  assumes "fresh s w A"
  obtains s' w' where "for_tuples ops keep [] s w = Some (Inr (A, s'), w')" and "same w w'" and "started s' w' A"
  using loop_over_tuples [OF assms, of keep "[]"] by auto

end

locale restartable = cursor +
  assumes restart: "at s w A L \<or> seen s w A L \<Longrightarrow> fresh s w A"

locale rereadable = cursor +
  assumes reread: "seen s w A L \<Longrightarrow> at s w A L"

text \<open>What a join needs of its inner and its outer table.\<close>

locale source = restartable + rereadable

end
