(* ===== verification/SeqScan.thy ===== *)
theory SeqScan
  imports Executors
begin

text \<open>
  The executors that scan a table: \<open>SeqScanExecutor\<close> of \<^verbatim>\<open>execution/executor_seq_scan.h\<close> and the loops it shares with
  \<open>SubqueryExecutor\<close> (\<^verbatim>\<open>execution/execution_subquery.h\<close>). The scan keeps the id of the current record; \<open>beginTuple\<close>
  first runs through the whole table to find the last record that satisfies the conditions. The theorem says that
  the executor delivers exactly the records that satisfy the conditions, in the order of their ids, as often as it is
  started, and whatever other readers do in between.
\<close>

section \<open>The context\<close>

text \<open>
  Of \<open>Context\<close> a scan uses the lock manager: what it answers to \<open>lock_shared_on_record\<close> and \<open>lock_IS_on_table\<close> for the
  transaction of the context. \<open>uninit_rid\<close> is what the memory of a new \<open>RmScan\<close> holds.
\<close>

record exec_context =
  shared_lock :: "Rid \<Rightarrow> int \<Rightarrow> rmdb_error + unit"
  IS_lock :: "int \<Rightarrow> rmdb_error + unit"
  uninit_rid :: Rid

definition read_tuple :: "exec_context \<Rightarrow> string \<Rightarrow> Rid \<Rightarrow> sm_manager \<Rightarrow> (RmRecord, sm_manager) res" where
  "read_tuple ctx tab rid sm = on_table tab (\<lambda>rm. get_record (Some (shared_lock ctx rid (rm_fd rm))) rid rm) sm"

section \<open>The loops\<close>

text \<open>The first loop of \<open>beginTuple\<close>: the last record that satisfies the condition \<open>ev\<close>.\<close>

partial_function (option) find_last_match ::
    "exec_context \<Rightarrow> (RmRecord \<Rightarrow> rmdb_error + bool) \<Rightarrow> string \<Rightarrow> rm_scan \<Rightarrow> Rid \<Rightarrow> Rid \<Rightarrow> sm_manager \<Rightarrow> (Rid, sm_manager) run" where
  "find_last_match ctx ev tab sc rid last_rid sm =
     (if rm_scan_is_end sc then Some (Inr last_rid, sm)
      else bindR (Some (read_tuple ctx tab rid sm))
             (\<lambda>tuple sm. case ev tuple of
                Inl e \<Rightarrow> Some (Inl e, sm)
              | Inr m \<Rightarrow>
                  bindR (Some (on_table tab (rm_scan_next sc) sm))
                    (\<lambda>sc' sm. find_last_match ctx ev tab sc' (rm_scan_rid sc') (if m then rm_scan_rid sc else last_rid) sm)))"

text \<open>The second loop: the first such record, if there is one.\<close>

partial_function (option) find_first_match ::
    "exec_context \<Rightarrow> (RmRecord \<Rightarrow> rmdb_error + bool) \<Rightarrow> string \<Rightarrow> rm_scan \<Rightarrow> Rid \<Rightarrow> sm_manager \<Rightarrow> (bool \<times> rm_scan \<times> Rid, sm_manager) run" where
  "find_first_match ctx ev tab sc rid sm =
     (if rm_scan_is_end sc then Some (Inr (False, sc, rid), sm)
      else bindR (Some (read_tuple ctx tab rid sm))
             (\<lambda>tuple sm. bindR (Some (on_table tab (rm_scan_next sc) sm))
                (\<lambda>sc sm. case ev tuple of
                   Inl e \<Rightarrow> Some (Inl e, sm)
                 | Inr m \<Rightarrow>
                     if m then Some (Inr (True, sc, rid), sm) else find_first_match ctx ev tab sc (rm_scan_rid sc) sm)))"

text \<open>The loop of \<open>nextTuple\<close>.\<close>

partial_function (option) find_next_match ::
    "exec_context \<Rightarrow> (RmRecord \<Rightarrow> rmdb_error + bool) \<Rightarrow> string \<Rightarrow> rm_scan \<Rightarrow> Rid \<Rightarrow> sm_manager \<Rightarrow> (rm_scan \<times> Rid, sm_manager) run" where
  "find_next_match ctx ev tab sc rid sm =
     (if rm_scan_is_end sc then Some (Inr (sc, rid), sm)
      else let rid = rm_scan_rid sc
           in bindR (Some (read_tuple ctx tab rid sm))
                (\<lambda>tuple sm. bindR (Some (on_table tab (rm_scan_next sc) sm))
                   (\<lambda>sc sm. case ev tuple of
                      Inl e \<Rightarrow> Some (Inl e, sm)
                    | Inr m \<Rightarrow> if m then Some (Inr (sc, rid), sm) else find_next_match ctx ev tab sc rid sm)))"

section \<open>A scan of a table\<close>

record table_scan =
  ts_tab :: string
  ts_cols :: "ColMeta list"
  ts_len :: nat
  ts_rid :: Rid
  ts_scan :: "rm_scan option"
  ts_end :: bool
  ts_last :: Rid

definition scan_begin ::
    "exec_context \<Rightarrow> (RmRecord \<Rightarrow> rmdb_error + bool) \<Rightarrow> 'a table_scan_scheme \<Rightarrow> sm_manager \<Rightarrow> ('a table_scan_scheme, sm_manager) run" where
  "scan_begin ctx ev st sm =
     bindR (Some (on_table (ts_tab st) (RmScan_init (uninit_rid ctx)) sm))
       (\<lambda>sc sm. bindR (find_last_match ctx ev (ts_tab st) sc (rm_scan_rid sc) (ts_last st) sm)
          (\<lambda>last_rid sm. bindR (Some (on_table (ts_tab st) (RmScan_init (uninit_rid ctx)) sm))
             (\<lambda>sc sm. bindR (find_first_match ctx ev (ts_tab st) sc (rm_scan_rid sc) sm)
                (\<lambda>(found, sc, rid) sm.
                   Some (Inr (st\<lparr>ts_rid := rid, ts_scan := Some sc, ts_end := \<not> found, ts_last := last_rid\<rparr>), sm)))))"

definition scan_advance ::
    "exec_context \<Rightarrow> (RmRecord \<Rightarrow> rmdb_error + bool) \<Rightarrow> 'a table_scan_scheme \<Rightarrow> sm_manager \<Rightarrow> ('a table_scan_scheme, sm_manager) run" where
  "scan_advance ctx ev st sm =
     (if ts_last st = ts_rid st then Some (Inr (st\<lparr>ts_end := True\<rparr>), sm)
      else case ts_scan st of
             None \<Rightarrow> Some (Inl NullDereference, sm)
           | Some sc \<Rightarrow>
               bindR (find_next_match ctx ev (ts_tab st) sc (ts_rid st) sm)
                 (\<lambda>(sc, rid) sm. Some (Inr (st\<lparr>ts_rid := rid, ts_scan := Some sc\<rparr>), sm)))"

definition scan_tuple ::
    "exec_context \<Rightarrow> 'a table_scan_scheme \<Rightarrow> sm_manager \<Rightarrow> (RmRecord option \<times> 'a table_scan_scheme, sm_manager) run" where
  "scan_tuple ctx st sm = bindR (Some (read_tuple ctx (ts_tab st) (ts_rid st) sm)) (\<lambda>tuple sm. Some (Inr (Some tuple, st), sm))"

section \<open>SeqScanExecutor\<close>

record seq_scan = table_scan +
  ss_conds :: "Condition list"
  ss_context :: exec_context

text \<open>The comparison in \<open>eval_condition\<close>, which names the columns in its exception.\<close>

definition seq_compare :: "Condition \<Rightarrow> Value \<Rightarrow> Value \<Rightarrow> rmdb_error + bool" where
  "seq_compare cond l r =
     (if v_type l = TYPE_INT \<and> v_type r = TYPE_INT then Inr (comp_int (int_val l) (int_val r) (c_op cond))
      else if v_type l = TYPE_FLOAT \<and> v_type r = TYPE_INT then Inr (comp_float (float_val l) (int_to_f32 (int_val r)) (c_op cond))
      else if v_type l = TYPE_INT \<and> v_type r = TYPE_FLOAT then Inr (comp_float (int_to_f32 (int_val l)) (float_val r) (c_op cond))
      else if v_type l = TYPE_FLOAT \<and> v_type r = TYPE_FLOAT then Inr (comp_float (float_val l) (float_val r) (c_op cond))
      else if v_type l = TYPE_STRING \<and> v_type r = TYPE_STRING then Inr (comp_str (str_val l) (str_val r) (c_op cond))
      else Inl (IncompatibleTypeError (tc_tab (lhs_col cond) @ '':'' @ tc_col (lhs_col cond))
                  (tc_tab (rhs_col cond) @ '':'' @ tc_col (rhs_col cond))))"

definition eval_condition :: "seq_scan \<Rightarrow> RmRecord \<Rightarrow> rmdb_error + bool" where
  "eval_condition st tuple = eval_conds seq_compare (ts_cols st) (ss_conds st) tuple"

text \<open>The check of the constructor.\<close>

fun check_types :: "TabMeta \<Rightarrow> Condition list \<Rightarrow> rmdb_error + unit" where
  "check_types tab [] = Inr ()"
| "check_types tab (cond # conds) =
     (case get_col tab (tc_col (lhs_col cond)) of
        Inl e \<Rightarrow> Inl e
      | Inr col \<Rightarrow>
          if TypeCompatible (cm_type col) (v_type (rhs_val cond)) then check_types tab conds
          else Inl (IncompatibleTypeError (coltype2str (cm_type col)) (coltype2str (v_type (rhs_val cond)))))"

text \<open>\<open>junk\<close> is the memory of the object before it is constructed; \<open>back()\<close> of an empty vector is undefined.\<close>

definition SeqScanExecutor :: "seq_scan \<Rightarrow> sm_manager \<Rightarrow> string \<Rightarrow> Condition list \<Rightarrow> exec_context \<Rightarrow> rmdb_error + seq_scan" where
  "SeqScanExecutor junk sm tab_name conds ctx =
     (case get_table (sm_db sm) tab_name of
        Inl e \<Rightarrow> Inl e
      | Inr tab \<Rightarrow>
          (case sm_fhs sm tab_name of
             None \<Rightarrow> Inl OutOfRange
           | Some fh \<Rightarrow>
               if tm_cols tab = [] then Inl NullDereference
               else (case check_types tab conds of
                       Inl e \<Rightarrow> Inl e
                     | Inr _ \<Rightarrow>
                         (case IS_lock ctx (fst fh) of
                            Inl e \<Rightarrow> Inl e
                          | Inr _ \<Rightarrow>
                              Inr (junk\<lparr>ts_tab := tab_name, ts_cols := tm_cols tab,
                                   ts_len := nat (cm_offset (last (tm_cols tab)) + cm_len (last (tm_cols tab))),
                                   ts_scan := None, ss_conds := conds, ss_context := ctx\<rparr>)))))"

definition SeqScan :: "(seq_scan, sm_manager) executor" where
  "SeqScan =
     \<lparr>beginTuple = (\<lambda>st. scan_begin (ss_context st) (eval_condition st) st),
      nextTuple = (\<lambda>st. scan_advance (ss_context st) (eval_condition st) st),
      is_end = ts_end,
      Next = (\<lambda>st. scan_tuple (ss_context st) st),
      exec_rid = ts_rid,
      exec_cols = ts_cols,
      tupleLen = ts_len\<rparr>"

section \<open>Reading and advancing\<close>

text \<open>The table is open, its records can be locked and the condition can be evaluated on them.\<close>

definition scan_ready :: "exec_context \<Rightarrow> (RmRecord \<Rightarrow> rmdb_error + bool) \<Rightarrow> string \<Rightarrow> sm_manager \<Rightarrow> bool" where
  "scan_ready ctx ev tab sm \<longleftrightarrow> sm_inv sm \<and>
     (\<exists>fh. sm_fhs sm tab = Some fh \<and> (\<forall>r \<in> set (table_rids sm tab). shared_lock ctx r (fst fh) = Inr ())) \<and>
     (\<forall>x \<in> set (table_rows sm tab). \<exists>b. ev x = Inr b)"

lemma scan_ready_same: "sm_same sm sm' \<Longrightarrow> scan_ready ctx ev tab sm \<Longrightarrow> scan_ready ctx ev tab sm'"
  using sm_same_table [of sm sm' tab] unfolding scan_ready_def by (metis sm_same_def)

definition row :: "string \<Rightarrow> sm_manager \<Rightarrow> Rid \<Rightarrow> RmRecord" where
  "row tab sm r = the (table_map sm tab r)"

definition hit :: "(RmRecord \<Rightarrow> rmdb_error + bool) \<Rightarrow> string \<Rightarrow> sm_manager \<Rightarrow> Rid \<Rightarrow> bool" where
  "hit ev tab sm r \<longleftrightarrow> ev (row tab sm r) = Inr True"

lemma row_same [simp]: "sm_same sm sm' \<Longrightarrow> row tab sm' = row tab sm" "sm_same sm sm' \<Longrightarrow> hit ev tab sm' = hit ev tab sm"
  by (simp_all add: row_def hit_def fun_eq_iff sm_same_table)

definition tab_scan_at :: "string \<Rightarrow> sm_manager \<Rightarrow> rm_scan \<Rightarrow> Rid list \<Rightarrow> bool" where
  "tab_scan_at tab sm sc L \<longleftrightarrow> set L \<subseteq> set (table_rids sm tab) \<and>
     (\<exists>fh. sm_fhs sm tab = Some fh \<and> scan_at (handle fh (sm_pool sm)) sc L)"

lemma tab_scan_at_same: "sm_same sm sm' \<Longrightarrow> tab_scan_at tab sm sc L \<Longrightarrow> tab_scan_at tab sm' sc L"
  using scan_at_alike sm_same_table(2) [of sm sm' tab] unfolding tab_scan_at_def sm_same_def by (metis (no_types, lifting))

lemma tab_scan_at_end: "tab_scan_at tab sm sc L \<Longrightarrow> rm_scan_is_end sc \<longleftrightarrow> L = []"
  using scan_at_is_end by (auto simp: tab_scan_at_def)

lemma tab_scan_at_rid: "tab_scan_at tab sm sc (r # L) \<Longrightarrow> rm_scan_rid sc = r"
  using scan_at_rid by (auto simp: tab_scan_at_def)

lemma read_tuple_ok:
  assumes "scan_ready ctx ev tab sm" and "r \<in> set (table_rids sm tab)"
  obtains sm' b where "read_tuple ctx tab r sm = (Inr (row tab sm r), sm')" and "sm_same sm sm'" and "ev (row tab sm r) = Inr b"
proof -
  from assms obtain fh where i: "sm_inv sm" and fh: "sm_fhs sm tab = Some fh" and lk: "shared_lock ctx r (fst fh) = Inr ()"
    unfolding scan_ready_def by blast
  have x: "rm_map (handle fh (sm_pool sm)) r = Some (row tab sm r)"
    using assms(2) fh table_rids_set(1) [of sm tab] by (auto simp: row_def table_map_def)
  obtain rm where g: "get_record (Some (Inr ())) r (handle fh (sm_pool sm)) = (Inr (row tab sm r), rm)" "rm_same (handle fh (sm_pool sm)) rm"
    by (rule get_record_same [OF sm_invD [OF i fh] x, of "Some (Inr ())"]) auto
  let ?f = "\<lambda>rm. get_record (Some (shared_lock ctx r (rm_fd rm))) r rm"
  have f: "?f (handle fh (sm_pool sm)) = (Inr (row tab sm r), rm)" using g(1) lk by simp
  obtain sm' where "on_table tab ?f sm = (Inr (row tab sm r), sm')" "sm_same sm sm'"
    by (rule on_table_read [where f = ?f, OF i fh f g(2)])
  moreover have "row tab sm r \<in> set (table_rows sm tab)" using assms(2) by (simp add: table_rows_def row_def)
  moreover from this obtain b where "ev (row tab sm r) = Inr b" using assms(1) unfolding scan_ready_def by blast
  ultimately show thesis by (intro that) (simp_all add: read_tuple_def)
qed

lemma tab_scan_next:
  assumes i: "sm_inv sm" and a: "tab_scan_at tab sm sc (r # L)"
  obtains sc' sm' where "on_table tab (rm_scan_next sc) sm = (Inr sc', sm')" and "sm_same sm sm'" and "tab_scan_at tab sm' sc' L"
proof -
  from a obtain fh where fh: "sm_fhs sm tab = Some fh" and sc: "scan_at (handle fh (sm_pool sm)) sc (r # L)"
    and L: "set L \<subseteq> set (table_rids sm tab)" by (auto simp: tab_scan_at_def)
  obtain sc' rm where n: "rm_scan_next sc (handle fh (sm_pool sm)) = (Inr sc', rm)" "rm_same (handle fh (sm_pool sm)) rm"
    "scan_at rm sc' L" by (rule scan_at_next [OF sm_invD [OF i fh] sc])
  obtain sm' where s: "on_table tab (rm_scan_next sc) sm = (Inr sc', sm')" "sm_same sm sm'" "handle fh (sm_pool sm') = rm"
    by (rule on_table_read [where f = "rm_scan_next sc", OF i fh n(1,2)])
  have "tab_scan_at tab sm' sc' L" using L fh s(2,3) n(3) sm_same_table(2) [OF s(2)] by (simp add: tab_scan_at_def sm_same_def)
  with s show thesis by (intro that)
qed

lemma tab_scan_init:
  assumes i: "sm_inv sm" and fh: "sm_fhs sm tab = Some fh"
  obtains sc sm' where "on_table tab (RmScan_init junk) sm = (Inr sc, sm')" and "sm_same sm sm'"
    and "tab_scan_at tab sm' sc (table_rids sm tab)"
proof -
  obtain sc rm where n: "RmScan_init junk (handle fh (sm_pool sm)) = (Inr sc, rm)" "rm_same (handle fh (sm_pool sm)) rm"
    "scan_at rm sc (rm_rids (handle fh (sm_pool sm)))" by (rule RmScan_init_ok [OF sm_invD [OF i fh]])
  obtain sm' where s: "on_table tab (RmScan_init junk) sm = (Inr sc, sm')" "sm_same sm sm'" "handle fh (sm_pool sm') = rm"
    by (rule on_table_read [where f = "RmScan_init junk", OF i fh n(1,2)])
  have "tab_scan_at tab sm' sc (table_rids sm tab)"
    using fh s(2,3) n(3) sm_same_table(2) [OF s(2)] by (simp add: tab_scan_at_def sm_same_def) (simp add: table_rids_def)
  with s show thesis by (intro that)
qed

section \<open>The loops find the matching records\<close>

lemma find_last_match_ok:
  assumes "scan_ready ctx ev tab sm" and "tab_scan_at tab sm sc L" and "L \<noteq> [] \<longrightarrow> rid = hd L"
  shows "\<exists>sm'. find_last_match ctx ev tab sc rid l sm = Some (Inr (last (l # filter (hit ev tab sm) L)), sm') \<and> sm_same sm sm'"
  using assms
proof (induction L arbitrary: sm sc rid l)
  case Nil
  have "sm_inv sm" using Nil(1) by (simp add: scan_ready_def)
  then show ?case using tab_scan_at_end [OF Nil(2)] sm_same_refl by (subst find_last_match.simps) auto
next
  case (Cons r L)
  have rid: "rid = r" "rm_scan_rid sc = r" using Cons.prems(3) tab_scan_at_rid [OF Cons.prems(2)] by auto
  have r: "r \<in> set (table_rids sm tab)" using Cons.prems(2) by (auto simp: tab_scan_at_def)
  obtain sm1 b where g: "read_tuple ctx tab r sm = (Inr (row tab sm r), sm1)" "sm_same sm sm1" "ev (row tab sm r) = Inr b"
    by (rule read_tuple_ok [OF Cons.prems(1) r])
  note a1 = tab_scan_at_same [OF g(2) Cons.prems(2)]
  obtain sc2 sm2 where n: "on_table tab (rm_scan_next sc) sm1 = (Inr sc2, sm2)" "sm_same sm1 sm2" "tab_scan_at tab sm2 sc2 L"
    by (rule tab_scan_next [OF sm_same_inv [OF g(2)] a1])
  have s2: "sm_same sm sm2" using sm_same_trans [OF g(2) n(2)] .
  have "L \<noteq> [] \<longrightarrow> rm_scan_rid sc2 = hd L" using tab_scan_at_rid [of tab sm2 sc2 "hd L" "tl L"] n(3) by (cases L) auto
  from Cons.IH [OF scan_ready_same [OF s2 Cons.prems(1)] n(3) this, of "if b then r else l"] obtain sm' where
    "find_last_match ctx ev tab sc2 (rm_scan_rid sc2) (if b then r else l) sm2 =
       Some (Inr (last ((if b then r else l) # filter (hit ev tab sm) L)), sm')" "sm_same sm2 sm'" using s2 by auto
  moreover have "hit ev tab sm r = b" using g(3) by (simp add: hit_def)
  moreover have "\<not> rm_scan_is_end sc" using tab_scan_at_end [OF Cons.prems(2)] by simp
  ultimately show ?case using g(1,3) n(1) rid sm_same_trans [OF s2] by (subst find_last_match.simps) auto
qed

text \<open>The first record of a list that satisfies the condition, and the records behind it.\<close>

definition first_hit :: "(Rid \<Rightarrow> bool) \<Rightarrow> Rid list \<Rightarrow> Rid \<Rightarrow> Rid list \<Rightarrow> bool" where
  "first_hit p L r L' \<longleftrightarrow> (\<exists>pre. L = pre @ r # L' \<and> filter p pre = [] \<and> p r)"

lemma first_hit_Cons: "first_hit p (x # L) r L' \<longleftrightarrow> (if p x then r = x \<and> L' = L else first_hit p L r L')"
  by (auto simp: first_hit_def Cons_eq_append_conv)

lemma first_hit_filter: "first_hit p L r L' \<Longrightarrow> filter p L = r # filter p L'"
  by (auto simp: first_hit_def)

lemma find_first_match_ok:
  assumes "scan_ready ctx ev tab sm" and "tab_scan_at tab sm sc L" and "L \<noteq> [] \<longrightarrow> rid = hd L"
  shows "\<exists>found sc' rid' sm'. find_first_match ctx ev tab sc rid sm = Some (Inr (found, sc', rid'), sm') \<and> sm_same sm sm' \<and>
     found = (filter (hit ev tab sm) L \<noteq> []) \<and>
     (found \<longrightarrow> (\<exists>L'. first_hit (hit ev tab sm) L rid' L' \<and> tab_scan_at tab sm' sc' L'))"
  using assms
proof (induction L arbitrary: sm sc rid)
  case Nil
  have "sm_inv sm" using Nil(1) by (simp add: scan_ready_def)
  then show ?case using tab_scan_at_end [OF Nil(2)] sm_same_refl by (subst find_first_match.simps) auto
next
  case (Cons r L)
  have rid: "rid = r" using Cons.prems(3) by simp
  have r: "r \<in> set (table_rids sm tab)" using Cons.prems(2) by (auto simp: tab_scan_at_def)
  obtain sm1 b where g: "read_tuple ctx tab r sm = (Inr (row tab sm r), sm1)" "sm_same sm sm1" "ev (row tab sm r) = Inr b"
    by (rule read_tuple_ok [OF Cons.prems(1) r])
  obtain sc2 sm2 where n: "on_table tab (rm_scan_next sc) sm1 = (Inr sc2, sm2)" "sm_same sm1 sm2" "tab_scan_at tab sm2 sc2 L"
    by (rule tab_scan_next [OF sm_same_inv [OF g(2)] tab_scan_at_same [OF g(2) Cons.prems(2)]])
  have s2: "sm_same sm sm2" using sm_same_trans [OF g(2) n(2)] .
  have h: "hit ev tab sm r = b" using g(3) by (simp add: hit_def)
  have run: "find_first_match ctx ev tab sc rid sm =
      (if b then Some (Inr (True, sc2, r), sm2) else find_first_match ctx ev tab sc2 (rm_scan_rid sc2) sm2)"
    using g(1,3) n(1) rid tab_scan_at_end [OF Cons.prems(2)] by (subst find_first_match.simps) simp
  have hd: "L \<noteq> [] \<longrightarrow> rm_scan_rid sc2 = hd L" using tab_scan_at_rid [of tab sm2 sc2 "hd L" "tl L"] n(3) by (cases L) auto
  show ?case
  proof (cases b)
    case True
    then show ?thesis using run h s2 n(3) by (auto simp: first_hit_Cons)
  next
    case False
    then show ?thesis
      using run h Cons.IH [OF scan_ready_same [OF s2 Cons.prems(1)] n(3) hd] s2 sm_same_trans [OF s2] by (fastforce simp: first_hit_Cons)
  qed
qed

lemma find_next_match_ok:
  assumes "scan_ready ctx ev tab sm" and "tab_scan_at tab sm sc L" and "filter (hit ev tab sm) L \<noteq> []"
  shows "\<exists>sc' rid' sm' L'. find_next_match ctx ev tab sc rid sm = Some (Inr (sc', rid'), sm') \<and> sm_same sm sm' \<and>
     first_hit (hit ev tab sm) L rid' L' \<and> tab_scan_at tab sm' sc' L'"
  using assms
proof (induction L arbitrary: sm sc rid)
  case (Cons r L)
  have r: "r \<in> set (table_rids sm tab)" using Cons.prems(2) by (auto simp: tab_scan_at_def)
  obtain sm1 b where g: "read_tuple ctx tab r sm = (Inr (row tab sm r), sm1)" "sm_same sm sm1" "ev (row tab sm r) = Inr b"
    by (rule read_tuple_ok [OF Cons.prems(1) r])
  obtain sc2 sm2 where n: "on_table tab (rm_scan_next sc) sm1 = (Inr sc2, sm2)" "sm_same sm1 sm2" "tab_scan_at tab sm2 sc2 L"
    by (rule tab_scan_next [OF sm_same_inv [OF g(2)] tab_scan_at_same [OF g(2) Cons.prems(2)]])
  have s2: "sm_same sm sm2" using sm_same_trans [OF g(2) n(2)] .
  have h: "hit ev tab sm r = b" using g(3) by (simp add: hit_def)
  have run: "find_next_match ctx ev tab sc rid sm =
      (if b then Some (Inr (sc2, r), sm2) else find_next_match ctx ev tab sc2 r sm2)"
    using g(1,3) n(1) tab_scan_at_rid [OF Cons.prems(2)] tab_scan_at_end [OF Cons.prems(2)]
    by (subst find_next_match.simps) simp
  show ?case
  proof (cases b)
    case True
    then show ?thesis using run h s2 n(3) by (auto simp: first_hit_Cons)
  next
    case False
    then have "filter (hit ev tab sm2) L \<noteq> []" using Cons.prems(3) h s2 by simp
    from Cons.IH [OF scan_ready_same [OF s2 Cons.prems(1)] n(3) this, of r] show ?thesis
      using run h s2 False sm_same_trans [OF s2] by (fastforce simp: first_hit_Cons)
  qed
qed simp

section \<open>A scan delivers the matching records\<close>

definition hits :: "(RmRecord \<Rightarrow> rmdb_error + bool) \<Rightarrow> string \<Rightarrow> sm_manager \<Rightarrow> Rid list" where
  "hits ev tab sm = filter (hit ev tab sm) (table_rids sm tab)"

lemma hits_same: "sm_same sm sm' \<Longrightarrow> hits ev tab sm' = hits ev tab sm"
  by (simp add: hits_def sm_same_table)

lemma hits_rows: "map (row tab sm) (hits ev tab sm) = filter (\<lambda>x. ev x = Inr True) (table_rows sm tab)"
  by (simp add: hits_def hit_def [abs_def] row_def [abs_def] table_rows_def filter_map o_def)

definition scan_fresh :: "exec_context \<Rightarrow> (RmRecord \<Rightarrow> rmdb_error + bool) \<Rightarrow> 'a table_scan_scheme \<Rightarrow> sm_manager \<Rightarrow> RmRecord list \<Rightarrow> bool" where
  "scan_fresh ctx ev st sm A \<longleftrightarrow> scan_ready ctx ev (ts_tab st) sm \<and> A = map (row (ts_tab st) sm) (hits ev (ts_tab st) sm)"

definition scan_pos :: "exec_context \<Rightarrow> (RmRecord \<Rightarrow> rmdb_error + bool) \<Rightarrow> 'a table_scan_scheme \<Rightarrow> sm_manager \<Rightarrow> RmRecord list \<Rightarrow> RmRecord list \<Rightarrow> bool" where
  "scan_pos ctx ev st sm A L \<longleftrightarrow> scan_fresh ctx ev st sm A \<and>
     (if ts_end st then L = []
      else \<exists>sc rs pre. ts_scan st = Some sc \<and> tab_scan_at (ts_tab st) sm sc rs \<and>
        hits ev (ts_tab st) sm = pre @ ts_rid st # filter (hit ev (ts_tab st) sm) rs \<and>
        ts_last st = last (hits ev (ts_tab st) sm) \<and>
        L = map (row (ts_tab st) sm) (ts_rid st # filter (hit ev (ts_tab st) sm) rs))"

lemma scan_posI:
  assumes "scan_fresh ctx ev st sm A" and "\<not> ts_end st" and "ts_scan st = Some sc" and "tab_scan_at (ts_tab st) sm sc rs"
    and "hits ev (ts_tab st) sm = pre @ ts_rid st # filter (hit ev (ts_tab st) sm) rs" and "ts_last st = last (hits ev (ts_tab st) sm)"
    and "L = map (row (ts_tab st) sm) (ts_rid st # filter (hit ev (ts_tab st) sm) rs)"
  shows "scan_pos ctx ev st sm A L"
  unfolding scan_pos_def using assms by (simp only: if_False simp_thms) blast

lemma scan_pos_end: "scan_fresh ctx ev st sm A \<Longrightarrow> ts_end st \<Longrightarrow> scan_pos ctx ev st sm A []"
  by (simp add: scan_pos_def)

lemma scan_fresh_same: "sm_same sm sm' \<Longrightarrow> scan_fresh ctx ev st sm A \<Longrightarrow> scan_fresh ctx ev st sm' A"
  by (simp add: scan_fresh_def scan_ready_same hits_same)

lemma scan_pos_same:
  assumes "sm_same sm sm'" and "scan_pos ctx ev st sm A L"
  shows "scan_pos ctx ev st sm' A L"
  using assms(2) scan_fresh_same [OF assms(1), of ctx ev st A] tab_scan_at_same [OF assms(1)]
  unfolding scan_pos_def hits_same [OF assms(1)] row_same [OF assms(1)]
  by (cases "ts_end st") (simp, simp only: if_False simp_thms, blast)

lemma scan_begin_ok:
  assumes f: "scan_fresh ctx ev st sm A"
  obtains st' sm' where "scan_begin ctx ev st sm = Some (Inr st', sm')" and "sm_same sm sm'" and "scan_pos ctx ev st' sm' A A"
    and "table_scan.more st' = table_scan.more st" and "ts_cols st' = ts_cols st" and "ts_len st' = ts_len st"
proof -
  let ?tab = "ts_tab st"
  have rdy: "scan_ready ctx ev ?tab sm" and A: "A = map (row ?tab sm) (hits ev ?tab sm)" using f by (simp_all add: scan_fresh_def)
  then obtain fh where i: "sm_inv sm" and fh: "sm_fhs sm ?tab = Some fh" unfolding scan_ready_def by blast
  obtain sc sm1 where a: "on_table ?tab (RmScan_init (uninit_rid ctx)) sm = (Inr sc, sm1)" "sm_same sm sm1"
    "tab_scan_at ?tab sm1 sc (table_rids sm ?tab)" by (rule tab_scan_init [OF i fh])
  have hd: "rm_scan_rid sc = hd (table_rids sm ?tab)" if "tab_scan_at ?tab sm' sc (table_rids sm ?tab)" "table_rids sm ?tab \<noteq> []" for sc sm'
    using that tab_scan_at_rid [of ?tab sm' sc "hd (table_rids sm ?tab)" "tl (table_rids sm ?tab)"] by simp
  let ?l = "last (ts_last st # hits ev ?tab sm)"
  obtain sm2 where b: "find_last_match ctx ev ?tab sc (rm_scan_rid sc) (ts_last st) sm1 = Some (Inr ?l, sm2)" "sm_same sm1 sm2"
    using find_last_match_ok [OF scan_ready_same [OF a(2) rdy] a(3)] hd [OF a(3)] a(2) by (auto simp: hits_def)
  have s2: "sm_same sm sm2" using sm_same_trans [OF a(2) b(2)] .
  have fh2: "sm_fhs sm2 ?tab = Some fh" using s2 fh by (simp add: sm_same_def)
  obtain sc' sm3 where c: "on_table ?tab (RmScan_init (uninit_rid ctx)) sm2 = (Inr sc', sm3)" "sm_same sm2 sm3"
    "tab_scan_at ?tab sm3 sc' (table_rids sm2 ?tab)" by (rule tab_scan_init [OF sm_same_inv [OF s2] fh2])
  have s3: "sm_same sm sm3" using sm_same_trans [OF s2 c(2)] .
  have c3: "tab_scan_at ?tab sm3 sc' (table_rids sm ?tab)" using c(3) sm_same_table(2) [OF s2] by simp
  obtain found sc'' rid sm4 where d: "find_first_match ctx ev ?tab sc' (rm_scan_rid sc') sm3 = Some (Inr (found, sc'', rid), sm4)"
    "sm_same sm3 sm4" "found = (hits ev ?tab sm \<noteq> [])"
    "found \<longrightarrow> (\<exists>L'. first_hit (hit ev ?tab sm) (table_rids sm ?tab) rid L' \<and> tab_scan_at ?tab sm4 sc'' L')"
    using find_first_match_ok [OF scan_ready_same [OF s3 rdy] c3] hd [OF c3] s3 by (fastforce simp: hits_def)
  have s4: "sm_same sm sm4" using sm_same_trans [OF s3 d(2)] .
  let ?st = "st\<lparr>ts_rid := rid, ts_scan := Some sc'', ts_end := \<not> found, ts_last := ?l\<rparr>"
  have "scan_fresh ctx ev ?st sm4 A" using scan_fresh_same [OF s4 f] by (simp add: scan_fresh_def)
  note fr = this
  have "scan_pos ctx ev ?st sm4 A A"
  proof (cases found)
    case True
    then obtain rs where rs: "tab_scan_at ?tab sm4 sc'' rs" "hits ev ?tab sm = rid # filter (hit ev ?tab sm) rs"
      using d(4) first_hit_filter by (fastforce simp: hits_def)
    show ?thesis
      by (rule scan_posI [where pre = "[]", OF fr]) (use True rs A in \<open>simp_all add: hits_same [OF s4] row_same [OF s4]\<close>)
  next
    case False
    then show ?thesis using scan_pos_end [OF fr] A d(3) by simp
  qed
  moreover have "scan_begin ctx ev st sm = Some (Inr ?st, sm4)" using a(1) b(1) c(1) d(1) by (simp add: scan_begin_def)
  ultimately show thesis using s4 by (intro that [of ?st sm4]) simp_all
qed

lemma scan_advance_ok:
  assumes p: "scan_pos ctx ev st sm A (x # L)"
  obtains st' sm' where "scan_advance ctx ev st sm = Some (Inr st', sm')" and "sm_same sm sm'" and "scan_pos ctx ev st' sm' A L"
    and "table_scan.more st' = table_scan.more st" and "ts_cols st' = ts_cols st" and "ts_len st' = ts_len st"
proof -
  let ?tab = "ts_tab st"
  have f: "scan_fresh ctx ev st sm A" using p by (simp add: scan_pos_def)
  then have rdy: "scan_ready ctx ev ?tab sm" by (simp add: scan_fresh_def)
  obtain sc rs pre where sc: "ts_scan st = Some sc" "tab_scan_at ?tab sm sc rs"
    and h: "hits ev ?tab sm = pre @ ts_rid st # filter (hit ev ?tab sm) rs" "ts_last st = last (hits ev ?tab sm)"
    and L: "L = map (row ?tab sm) (filter (hit ev ?tab sm) rs)" and e: "\<not> ts_end st"
    using p by (auto simp: scan_pos_def split: if_splits)
  have d: "distinct (hits ev ?tab sm)" using table_rids_set(3) by (simp add: hits_def)
  show thesis
  proof (cases "filter (hit ev ?tab sm) rs = []")
    case True
    let ?st = "st\<lparr>ts_end := True\<rparr>"
    have "scan_advance ctx ev st sm = Some (Inr ?st, sm)" using True h by (simp add: scan_advance_def)
    moreover have "scan_pos ctx ev ?st sm A L" using f True L by (simp add: scan_pos_def scan_fresh_def)
    moreover have "sm_inv sm" using rdy by (simp add: scan_ready_def)
    ultimately show thesis using sm_same_refl by (intro that [of ?st sm]) simp_all
  next
    case False
    then have ne: "ts_last st \<noteq> ts_rid st" using d h last_in_set [OF False] by auto
    obtain sc' rid sm' rs' where n: "find_next_match ctx ev ?tab sc (ts_rid st) sm = Some (Inr (sc', rid), sm')" "sm_same sm sm'"
      "first_hit (hit ev ?tab sm) rs rid rs'" "tab_scan_at ?tab sm' sc' rs'" using find_next_match_ok [OF rdy sc(2) False] by blast
    let ?st = "st\<lparr>ts_rid := rid, ts_scan := Some sc'\<rparr>"
    have "scan_fresh ctx ev ?st sm' A" using scan_fresh_same [OF n(2) f] by (simp add: scan_fresh_def)
    note fr = this
    have "hits ev ?tab sm = (pre @ [ts_rid st]) @ rid # filter (hit ev ?tab sm) rs'" "L = map (row ?tab sm) (rid # filter (hit ev ?tab sm) rs')"
      using h(1) L first_hit_filter [OF n(3)] by simp_all
    then have "scan_pos ctx ev ?st sm' A L"
      by (intro scan_posI [OF fr]) (use e n(4) h(2) in \<open>simp_all add: hits_same [OF n(2)] row_same [OF n(2)]\<close>)
    moreover have "scan_advance ctx ev st sm = Some (Inr ?st, sm')" using ne sc(1) n(1) by (simp add: scan_advance_def)
    ultimately show thesis using n(2) by (intro that [of ?st sm']) simp_all
  qed
qed

lemma scan_tuple_ok:
  assumes p: "scan_pos ctx ev st sm A (x # L)"
  obtains sm' where "scan_tuple ctx st sm = Some (Inr (Some x, st), sm')" and "sm_same sm sm'" and "scan_pos ctx ev st sm' A (x # L)"
proof -
  have rdy: "scan_ready ctx ev (ts_tab st) sm" using p by (simp add: scan_pos_def scan_fresh_def)
  have "ts_rid st \<in> set (hits ev (ts_tab st) sm)" "x = row (ts_tab st) sm (ts_rid st)"
    using p by (auto simp: scan_pos_def split: if_splits)
  then obtain sm' b where "read_tuple ctx (ts_tab st) (ts_rid st) sm = (Inr x, sm')" "sm_same sm sm'"
    using read_tuple_ok [OF rdy, of "ts_rid st"] by (auto simp: hits_def)
  then show thesis using scan_pos_same [OF _ p] by (intro that [of sm']) (simp_all add: scan_tuple_def)
qed

section \<open>The contract\<close>

interpretation sm_world: world sm_same
  by unfold_locales (blast intro: sm_same_trans sm_same_refl sm_same_inv)+

abbreviation seq_fresh :: "seq_scan \<Rightarrow> sm_manager \<Rightarrow> RmRecord list \<Rightarrow> bool" where
  "seq_fresh st \<equiv> scan_fresh (ss_context st) (eval_condition st) st"

abbreviation seq_at :: "seq_scan \<Rightarrow> sm_manager \<Rightarrow> RmRecord list \<Rightarrow> RmRecord list \<Rightarrow> bool" where
  "seq_at st \<equiv> scan_pos (ss_context st) (eval_condition st) st"

lemma seq_scan_more:
  "table_scan.more st' = table_scan.more st \<Longrightarrow> ts_cols st' = ts_cols st \<Longrightarrow>
     ss_context st' = ss_context st \<and> eval_condition st' = eval_condition st"
  by (cases st; cases st') (simp add: eval_condition_def fun_eq_iff)

interpretation seq: source sm_same SeqScan seq_fresh seq_at seq_at
proof unfold_locales
  fix st sm A
  assume "seq_fresh st sm A"
  then obtain st' sm' where b: "scan_begin (ss_context st) (eval_condition st) st sm = Some (Inr st', sm')" "sm_same sm sm'"
    "scan_pos (ss_context st) (eval_condition st) st' sm' A A" "table_scan.more st' = table_scan.more st" "ts_cols st' = ts_cols st"
    "ts_len st' = ts_len st" by (rule scan_begin_ok)
  then show "\<exists>st' sm'. beginTuple SeqScan st sm = Some (Inr st', sm') \<and> sm_same sm sm' \<and> seq_at st' sm' A A \<and>
      same_shape SeqScan st st'" using seq_scan_more [OF b(4,5)] by (simp add: SeqScan_def same_shape_def)
next
  fix st sm A L
  assume "seq_at st sm A L"
  then show "is_end SeqScan st = (L = [])" by (auto simp: SeqScan_def scan_pos_def split: if_splits)
next
  fix st sm A x L
  assume "seq_at st sm A (x # L)"
  then show "\<exists>st' sm'. Next SeqScan st sm = Some (Inr (Some x, st'), sm') \<and> sm_same sm sm' \<and> seq_at st' sm' A (x # L) \<and>
      same_shape SeqScan st st'" by (rule scan_tuple_ok) (auto simp: SeqScan_def same_shape_def)
next
  fix st sm A x L
  assume "seq_at st sm A (x # L) \<or> seq_at st sm A (x # L)"
  then have "seq_at st sm A (x # L)" by simp
  then obtain st' sm' where b: "scan_advance (ss_context st) (eval_condition st) st sm = Some (Inr st', sm')" "sm_same sm sm'"
    "scan_pos (ss_context st) (eval_condition st) st' sm' A L" "table_scan.more st' = table_scan.more st" "ts_cols st' = ts_cols st"
    "ts_len st' = ts_len st" by (rule scan_advance_ok)
  then show "\<exists>st' sm'. nextTuple SeqScan st sm = Some (Inr st', sm') \<and> sm_same sm sm' \<and> seq_at st' sm' A L \<and>
      same_shape SeqScan st st'" using seq_scan_more [OF b(4,5)] by (simp add: SeqScan_def same_shape_def)
next
  fix sm sm' st A L
  assume s: "sm_same sm sm'"
  show "seq_fresh st sm A \<Longrightarrow> seq_fresh st sm' A" using s by (rule scan_fresh_same)
  show "seq_at st sm A L \<Longrightarrow> seq_at st sm' A L" using s by (rule scan_pos_same)
next
  fix st sm A L
  assume "seq_at st sm A L \<or> seq_at st sm A L"
  then show "seq_fresh st sm A" by (simp add: scan_pos_def)
qed

section \<open>Well-typed conditions\<close>

lemma seq_compare_ValueComp: "comparable (v_type l) (v_type r) \<Longrightarrow> seq_compare cond l r = ValueComp l r (c_op cond)"
  by (cases "v_type l"; cases "v_type r") (auto simp: comparable_def TypeCompatible_def ValueComp_def seq_compare_def)

lemma eval_condition_meaning:
  assumes "\<forall>cond \<in> set (ss_conds st). cond_typed (ts_cols st) cond"
  shows "eval_condition st x = Inr (\<forall>cond \<in> set (ss_conds st). cond_holds (ts_cols st) x cond)"
  unfolding eval_condition_def using seq_compare_ValueComp assms by (rule eval_conds_meaning)

text \<open>The records of a table that satisfy the conditions.\<close>

definition selected :: "sm_manager \<Rightarrow> string \<Rightarrow> ColMeta list \<Rightarrow> Condition list \<Rightarrow> RmRecord list" where
  "selected sm tab cols conds = filter (\<lambda>x. \<forall>cond \<in> set conds. cond_holds cols x cond) (table_rows sm tab)"

definition locks_granted :: "exec_context \<Rightarrow> string \<Rightarrow> sm_manager \<Rightarrow> bool" where
  "locks_granted ctx tab sm \<longleftrightarrow>
     (\<forall>fh r. sm_fhs sm tab = Some fh \<longrightarrow> r \<in> set (table_rids sm tab) \<longrightarrow> shared_lock ctx r (fst fh) = Inr ())"

lemma seq_scan_fresh:
  assumes i: "sm_inv sm" and c: "SeqScanExecutor junk sm tab conds ctx = Inr st" and l: "locks_granted ctx tab sm"
    and t: "\<forall>cond \<in> set conds. cond_typed (ts_cols st) cond"
  shows "seq_fresh st sm (selected sm tab (ts_cols st) conds)"
proof -
  have st: "ts_tab st = tab" "ss_conds st = conds" "ss_context st = ctx" and fh: "\<exists>fh. sm_fhs sm tab = Some fh"
    using c by (auto simp: SeqScanExecutor_def split: sum.splits option.splits if_splits)
  note ev = eval_condition_meaning [of st, unfolded st, OF t]
  have "scan_ready ctx (eval_condition st) tab sm"
    using i fh l ev unfolding scan_ready_def locks_granted_def by blast
  then show ?thesis using hits_rows [of tab sm "eval_condition st"] by (simp add: scan_fresh_def st ev selected_def)
qed

section \<open>Properties\<close>

text \<open>
  C10: a sequential scan selects. Over any database whose table files are well-formed, an executor constructed for
  well-typed conditions whose locks are granted delivers exactly the records of the table that satisfy all conditions,
  in the order of the record ids, and then ends; started again it delivers them again; the tables are not changed
  and no page stays pinned.
\<close>

theorem seq_scan_selects:
  assumes "sm_inv sm" and "SeqScanExecutor junk sm tab conds ctx = Inr st" and "locks_granted ctx tab sm"
    and "\<forall>cond \<in> set conds. cond_typed (ts_cols st) cond"
  shows "\<exists>st1 sm1 st2 sm2. for_tuples SeqScan keep [] st sm = Some (Inr (selected sm tab (ts_cols st) conds, st1), sm1) \<and>
     for_tuples SeqScan keep [] st1 sm1 = Some (Inr (selected sm tab (ts_cols st) conds, st2), sm2) \<and>
     sm_same sm sm1 \<and> sm_same sm sm2"
proof -
  obtain st1 sm1 where a: "for_tuples SeqScan keep [] st sm = Some (Inr (selected sm tab (ts_cols st) conds, st1), sm1)" "sm_same sm sm1"
    "seq.started st1 sm1 (selected sm tab (ts_cols st) conds)" by (rule seq.collects [OF seq_scan_fresh [OF assms]])
  then have "seq_fresh st1 sm1 (selected sm tab (ts_cols st) conds)" using seq.restart by blast
  then obtain st2 sm2 where "for_tuples SeqScan keep [] st1 sm1 = Some (Inr (selected sm tab (ts_cols st) conds, st2), sm2)" "sm_same sm1 sm2"
    by (rule seq.collects)
  with a sm_same_trans show ?thesis by blast
qed

text \<open>A database with one table of one column, and a context that grants every lock.\<close>

definition sample_sm :: "rm_file \<Rightarrow> sm_manager" where
  "sample_sm rm =
     \<lparr>sm_db = \<lparr>db_name = ''db'', db_tabs = [(''t'', \<lparr>tm_name = ''t'', tm_cols = [sample_col ''a'' 0], tm_indexes = []\<rparr>)]\<rparr>,
      sm_fhs = [''t'' \<mapsto> (rm_fd rm, file_hdr rm)], sm_pool = pool rm\<rparr>"

definition granting :: exec_context where
  "granting = \<lparr>shared_lock = (\<lambda>_ _. Inr ()), IS_lock = (\<lambda>_. Inr ()), uninit_rid = Rid 0 0\<rparr>"

definition sample_cond :: Condition where
  "sample_cond = \<lparr>lhs_col = TabCol ''t'' ''a'', c_op = OP_GT, is_rhs_val = True, rhs_col = TabCol [] [], rhs_val = sample_int 7\<rparr>"

definition sample_scan :: "string \<Rightarrow> Condition list \<Rightarrow> seq_scan" where
  "sample_scan tab conds =
     \<lparr>ts_tab = tab, ts_cols = [sample_col ''a'' 0], ts_len = 4, ts_rid = Rid 0 0, ts_scan = None, ts_end = False, ts_last = Rid 0 0,
      ss_conds = conds, ss_context = granting\<rparr>"

lemma sample_sm_inv: "rm_inv rm \<Longrightarrow> sm_inv (sample_sm rm)"
  by (auto simp: sm_inv_def sample_sm_def split: if_splits)

lemma sample_sm_rows:
  assumes "rm_inv rm" and "rm_map rm = [r \<mapsto> x]"
  shows "table_rows (sample_sm rm) ''t'' = [x]"
proof -
  have m: "table_map (sample_sm rm) ''t'' = [r \<mapsto> x]" using assms(2) by (simp add: table_map_def sample_sm_def)
  have "set (table_rids (sample_sm rm) ''t'') = {r}" "distinct (table_rids (sample_sm rm) ''t'')" using table_rids_set [of "sample_sm rm" "''t''"] m by auto
  then have "table_rids (sample_sm rm) ''t'' = [r]" by (cases "table_rids (sample_sm rm) ''t''") (auto simp: subset_singleton_iff)
  then show ?thesis by (simp add: table_rows_def m)
qed

lemma sample_scan_constructed:
  "SeqScanExecutor (sample_scan [] []) (sample_sm rm) ''t'' [sample_cond] granting = Inr (sample_scan ''t'' [sample_cond])"
  by (simp add: SeqScanExecutor_def sample_sm_def sample_scan_def granting_def get_table_def get_col_def sample_cond_def sample_col_def
      sample_int_def TypeCompatible_def)

lemma sample_cond_holds: "cond_holds [sample_col ''a'' 0] [1, 2, 3, 4] sample_cond"
  by (simp add: cond_holds_def getValue_def rhs_value_def find_col_def col_value_def sample_cond_def sample_col_def sample_int_def
      ValueComp_def comp_int_def int_val_def load_int_def slice_def bytes_int_def Let_def)

theorem seq_scan_selects_witness:
  "\<exists>sm st1 sm1. for_tuples SeqScan keep [] (sample_scan ''t'' [sample_cond]) sm = Some (Inr ([[1, 2, 3, 4]], st1), sm1)"
proof -
  obtain r rm where rm: "rm_inv rm" "rm_map rm = [r \<mapsto> [1, 2, 3, 4]]" by (rule sample_inserted)
  have t: "\<forall>cond \<in> set [sample_cond]. cond_typed (ts_cols (sample_scan ''t'' [sample_cond])) cond"
    by code_simp
  have "selected (sample_sm rm) ''t'' (ts_cols (sample_scan ''t'' [sample_cond])) [sample_cond] = [[1, 2, 3, 4]]"
    using sample_cond_holds by (simp add: selected_def sample_sm_rows [OF rm] sample_scan_def)
  note sel = this
  have lk: "locks_granted granting ''t'' (sample_sm rm)" by (simp add: locks_granted_def granting_def)
  obtain st1 sm1 where "for_tuples SeqScan keep [] (sample_scan ''t'' [sample_cond]) (sample_sm rm) = Some (Inr ([[1, 2, 3, 4]], st1), sm1)"
    using seq_scan_selects [OF sample_sm_inv [OF rm(1)] sample_scan_constructed lk t, unfolded sel] by (elim exE conjE) (rule that)
  then show ?thesis by (intro exI)
qed

end
