(* ===== verification/NestedLoopJoin.thy ===== *)
theory NestedLoopJoin
  imports SeqScan
begin

text \<open>
  \<open>NestedLoopJoinExecutor\<close> of \<^verbatim>\<open>execution/executor_nestedloop_join.h\<close>, over the operations of its two children. The
  locale \<open>join_children\<close> holds what the join relies on: the outer child gives its current tuple as often as it is
  asked, the inner child can be started again. Over such children the join delivers the pairs that satisfy the join
  conditions, in the order of the outer tuples. A join itself is no such child: it hands its record over when it is
  read, so a join whose outer child is a join fails.
\<close>

section \<open>The executor\<close>

record ('l, 'r) nl_join =
  j_left :: 'l
  j_right :: 'r
  j_len :: nat
  j_cols :: "ColMeta list"
  j_conds :: "Condition list"
  j_isend :: bool
  j_left_end :: bool
  j_right_end :: bool
  j_last :: bool
  j_record :: "RmRecord option"
  j_rid :: Rid

text \<open>
  The constructor swaps its children: the second argument becomes the outer child \<open>left_\<close>. \<open>rid\<close> is what the memory
  of \<open>_abstract_rid\<close> holds; it is never set.
\<close>

definition NestedLoopJoinExecutor ::
    "('l, 'w) executor \<Rightarrow> ('r, 'w) executor \<Rightarrow> Rid \<Rightarrow> 'r \<Rightarrow> 'l \<Rightarrow> Condition list \<Rightarrow> ('l, 'r) nl_join" where
  "NestedLoopJoinExecutor L R rid left right conds =
     (let (l, r) = (right, left)
      in \<lparr>j_left = l, j_right = r, j_len = tupleLen L l + tupleLen R r,
          j_cols = exec_cols L l @ map (\<lambda>col. col\<lparr>cm_offset := cm_offset col + int (tupleLen L l)\<rparr>) (exec_cols R r),
          j_conds = conds, j_isend = False, j_left_end = False, j_right_end = False, j_last = False,
          j_record = None, j_rid = rid\<rparr>)"

definition make_record :: "RmRecord \<Rightarrow> RmRecord \<Rightarrow> RmRecord" where
  "make_record tuple1 tuple2 = memcpy (memcpy (memset (length tuple1 + length tuple2) 0) 0 tuple1) (length tuple1) tuple2"

definition evaluate_join :: "('l, 'r) nl_join \<Rightarrow> RmRecord \<Rightarrow> rmdb_error + bool" where
  "evaluate_join st tuple = eval_conds (\<lambda>cond l r. ValueComp l r (c_op cond)) (j_cols st) (j_conds st) tuple"

text \<open>Advancing both children: the inner one, and the outer one when the inner one is at its end.\<close>

definition join_advance ::
    "('l, 'w) executor \<Rightarrow> ('r, 'w) executor \<Rightarrow> ('l, 'r) nl_join \<Rightarrow> 'w \<Rightarrow> (('l, 'r) nl_join, 'w) run" where
  "join_advance L R st w =
     bindR (nextTuple R (j_right st) w)
       (\<lambda>r w. let st = st\<lparr>j_left_end := is_end L (j_left st), j_right := r, j_right_end := is_end R r\<rparr>
              in if j_right_end st then
                   bindR (nextTuple L (j_left st) w)
                     (\<lambda>l w. bindR (beginTuple R (j_right st) w)
                        (\<lambda>r w. let st = st\<lparr>j_left := l, j_right := r, j_left_end := is_end L l\<rparr>
                               in Some (Inr (if j_left_end st then st\<lparr>j_isend := True, j_last := True\<rparr> else st), w)))
                 else Some (Inr st, w))"

text \<open>The loop of \<open>beginTuple\<close> and \<open>nextTuple\<close>.\<close>

partial_function (option) join_loop ::
    "('l, 'w) executor \<Rightarrow> ('r, 'w) executor \<Rightarrow> ('l, 'r) nl_join \<Rightarrow> 'w \<Rightarrow> (('l, 'r) nl_join, 'w) run" where
  "join_loop L R st w =
     (if j_last st then Some (Inr st, w)
      else bindR (Next L (j_left st) w)
             (\<lambda>tl w. bindR (Next R (j_right st) w)
                (\<lambda>tr w. case (fst tl, fst tr) of
                   (Some left_tuple, Some right_tuple) \<Rightarrow>
                     bindR (join_advance L R (st\<lparr>j_left := snd tl, j_right := snd tr\<rparr>) w)
                       (\<lambda>st w. let tuple = make_record left_tuple right_tuple
                               in case evaluate_join st tuple of
                                    Inl e \<Rightarrow> Some (Inl e, w)
                                  | Inr b \<Rightarrow>
                                      if b then
                                        Some (Inr (st\<lparr>j_record := Some tuple, j_isend := (if j_last st then False else j_isend st)\<rparr>), w)
                                      else join_loop L R st w)
                 | _ \<Rightarrow> Some (Inl NullDereference, w))))"

definition join_begin :: "('l, 'w) executor \<Rightarrow> ('r, 'w) executor \<Rightarrow> ('l, 'r) nl_join \<Rightarrow> 'w \<Rightarrow> (('l, 'r) nl_join, 'w) run" where
  "join_begin L R st w =
     bindR (beginTuple L (j_left st) w)
       (\<lambda>l w. bindR (beginTuple R (j_right st) w)
          (\<lambda>r w. let st = st\<lparr>j_left := l, j_right := r, j_left_end := is_end L l, j_right_end := is_end R r\<rparr>
                 in if j_left_end st \<or> j_right_end st then Some (Inr (st\<lparr>j_last := True, j_isend := True\<rparr>), w)
                    else join_loop L R st w))"

definition join_next :: "('l, 'w) executor \<Rightarrow> ('r, 'w) executor \<Rightarrow> ('l, 'r) nl_join \<Rightarrow> 'w \<Rightarrow> (('l, 'r) nl_join, 'w) run" where
  "join_next L R st w = join_loop L R (if j_last st \<and> \<not> j_isend st then st\<lparr>j_isend := True\<rparr> else st) w"

text \<open>\<open>Next\<close> moves the record out of the executor.\<close>

definition join_Next :: "('l, 'r) nl_join \<Rightarrow> 'w \<Rightarrow> (RmRecord option \<times> ('l, 'r) nl_join, 'w) run" where
  "join_Next st w = Some (Inr (j_record st, st\<lparr>j_record := None\<rparr>), w)"

definition NestedLoopJoin :: "('l, 'w) executor \<Rightarrow> ('r, 'w) executor \<Rightarrow> (('l, 'r) nl_join, 'w) executor" where
  "NestedLoopJoin L R =
     \<lparr>beginTuple = join_begin L R, nextTuple = join_next L R, is_end = j_isend, Next = join_Next,
      exec_rid = j_rid, exec_cols = j_cols, tupleLen = j_len\<rparr>"

section \<open>Pairs of tuples\<close>

lemma make_record_append [simp]: "make_record a b = a @ b"
  by (simp add: make_record_def memcpy_def memset_def)

definition pairs :: "'a list list \<Rightarrow> 'a list list \<Rightarrow> 'a list list" where
  "pairs ls rs = concat (map (\<lambda>l. map ((@) l) rs) ls)"

lemma pairs_Nil [simp]: "pairs [] rs = []"
  by (simp add: pairs_def)

lemma pairs_Cons: "pairs (l # ls) rs = map ((@) l) rs @ pairs ls rs"
  by (simp add: pairs_def)

text \<open>The children of a join share the database.\<close>

locale join_children =
  L: rereadable same L freshL atL seenL + R: restartable same R freshR atR seenR
  for same :: "'w \<Rightarrow> 'w \<Rightarrow> bool"
    and L :: "('l, 'w) executor" and freshL :: "'l \<Rightarrow> 'w \<Rightarrow> RmRecord list \<Rightarrow> bool"
    and atL :: "'l \<Rightarrow> 'w \<Rightarrow> RmRecord list \<Rightarrow> RmRecord list \<Rightarrow> bool" and seenL :: "'l \<Rightarrow> 'w \<Rightarrow> RmRecord list \<Rightarrow> RmRecord list \<Rightarrow> bool"
    and R :: "('r, 'w) executor" and freshR :: "'r \<Rightarrow> 'w \<Rightarrow> RmRecord list \<Rightarrow> bool"
    and atR :: "'r \<Rightarrow> 'w \<Rightarrow> RmRecord list \<Rightarrow> RmRecord list \<Rightarrow> bool" and seenR :: "'r \<Rightarrow> 'w \<Rightarrow> RmRecord list \<Rightarrow> RmRecord list \<Rightarrow> bool"
begin

text \<open>The pairs that are left: those of the current outer tuple with the rest of the inner table, and the later ones.\<close>

definition pos :: "('l, 'r) nl_join \<Rightarrow> 'w \<Rightarrow> RmRecord list \<Rightarrow> bool" where
  "pos st w P \<longleftrightarrow> same w w \<and>
     (if j_last st then P = []
      else \<exists>LA l ls RA rs. atL (j_left st) w LA (l # ls) \<and> atR (j_right st) w RA rs \<and> rs \<noteq> [] \<and> RA \<noteq> [] \<and>
             P = map ((@) l) rs @ pairs ls RA)"

lemma pos_stable: "same w w' \<Longrightarrow> pos st w P \<Longrightarrow> pos st w' P"
  unfolding pos_def using L.stable(2) R.stable(2) L.same_target by (simp split: if_splits) blast

lemma pos_at:
  assumes "same w w" and "\<not> j_last st" and "atL (j_left st) w LA (l # ls)" and "atR (j_right st) w RA rs" and "rs \<noteq> []" and "RA \<noteq> []"
  shows "pos st w (map ((@) l) rs @ pairs ls RA)"
  using assms unfolding pos_def by (simp only: if_False simp_thms) blast

lemma pos_fields [simp]: "pos (st\<lparr>j_record := x, j_isend := y\<rparr>) w P = pos st w P" "pos (st\<lparr>j_isend := y\<rparr>) w P = pos st w P"
  "pos (st\<lparr>j_record := x\<rparr>) w P = pos st w P"
  unfolding pos_def by simp_all

text \<open>What the loops do not change.\<close>

definition fixed :: "('l, 'r) nl_join \<Rightarrow> ('l, 'r) nl_join \<Rightarrow> bool" where
  "fixed st st' \<longleftrightarrow> j_cols st' = j_cols st \<and> j_conds st' = j_conds st \<and> j_len st' = j_len st"

lemma fixed_trans: "fixed st st' \<Longrightarrow> fixed st' st'' \<Longrightarrow> fixed st st''"
  by (simp add: fixed_def)

lemma fixed_evaluate: "fixed st st' \<Longrightarrow> evaluate_join st' t = evaluate_join st t"
  by (simp add: fixed_def evaluate_join_def)

lemma advance_ok:
  assumes l: "seenL (j_left st) w LA (l # ls)" and r: "seenR (j_right st) w RA (r # rs)" and RA: "RA \<noteq> []" and e: "\<not> j_last st" "\<not> j_isend st"
  obtains st' w' where "join_advance L R st w = Some (Inr st', w')" and "same w w'" and "pos st' w' (map ((@) l) rs @ pairs ls RA)"
    and "j_isend st' = j_last st'" and "fixed st st'"
proof -
  obtain r1 w1 where n: "nextTuple R (j_right st) w = Some (Inr r1, w1)" "same w w1" "atR r1 w1 RA rs" using R.next_law r by blast
  have l1: "seenL (j_left st) w1 LA (l # ls)" using L.stable(3) [OF n(2) l] .
  show thesis
  proof (cases "rs = []")
    case False
    let ?st = "st\<lparr>j_left_end := is_end L (j_left st), j_right := r1, j_right_end := False\<rparr>"
    have "join_advance L R st w = Some (Inr ?st, w1)" using n(1) R.end_law [OF n(3)] False by (simp add: join_advance_def Let_def)
    moreover have "pos ?st w1 (map ((@) l) rs @ pairs ls RA)"
      by (rule pos_at [OF L.same_target [OF n(2)]]) (use e L.reread [OF l1] n(3) False RA in auto)
    ultimately show thesis using e n(2) by (intro that [of ?st w1]) (simp_all add: fixed_def)
  next
    case True
    obtain l2 w2 where m: "nextTuple L (j_left st) w1 = Some (Inr l2, w2)" "same w1 w2" "atL l2 w2 LA ls" using L.next_law l1 by blast
    have "freshR r1 w2 RA" using R.stable(1) [OF m(2)] R.restart n(3) by blast
    from R.begin_law [OF this] obtain r3 w3 where b: "beginTuple R r1 w2 = Some (Inr r3, w3)" "same w2 w3" "atR r3 w3 RA RA" by blast
    have s3: "same w w3" using n(2) m(2) b(2) L.same_trans by blast
    have l3: "atL l2 w3 LA ls" using L.stable(2) [OF b(2) m(3)] .
    let ?s0 = "st\<lparr>j_left_end := ls = [], j_right := r3, j_right_end := True, j_left := l2\<rparr>"
    let ?st = "if ls = [] then ?s0\<lparr>j_isend := True, j_last := True\<rparr> else ?s0"
    have "join_advance L R st w = Some (Inr ?st, w3)"
      using n(1) m(1) b(1) R.end_law [OF n(3)] L.end_law [OF m(3)] True by (simp add: join_advance_def Let_def)
    moreover have "pos ?st w3 (map ((@) l) rs @ pairs ls RA)"
    proof (cases ls)
      case Nil
      then show ?thesis using True L.same_target [OF s3] by (simp add: pos_def)
    next
      case (Cons l' ls')
      have "pos ?st w3 (map ((@) l') RA @ pairs ls' RA)"
        by (rule pos_at [OF L.same_target [OF s3]]) (use e l3 b(3) RA Cons in auto)
      then show ?thesis using True Cons by (simp add: pairs_Cons)
    qed
    ultimately show thesis using e s3 by (intro that [of ?st w3]) (simp_all add: fixed_def)
  qed
qed

abbreviation good :: "('l, 'r) nl_join \<Rightarrow> RmRecord \<Rightarrow> bool" where
  "good st t \<equiv> evaluate_join st t = Inr True"

definition evaluates :: "('l, 'r) nl_join \<Rightarrow> RmRecord list \<Rightarrow> bool" where
  "evaluates st P \<longleftrightarrow> (\<forall>t \<in> set P. \<exists>b. evaluate_join st t = Inr b)"

text \<open>The loop has found the pair \<open>hd K\<close>, or has come to the end.\<close>

definition found :: "('l, 'r) nl_join \<Rightarrow> 'w \<Rightarrow> RmRecord list \<Rightarrow> bool" where
  "found st w K \<longleftrightarrow> same w w \<and>
     (if K = [] then j_isend st
      else \<not> j_isend st \<and> (\<exists>P. pos st w P \<and> evaluates st P \<and> filter (good st) P = tl K))"

lemma found_stable: "same w w' \<Longrightarrow> found st w K \<Longrightarrow> found st w' K"
  unfolding found_def using pos_stable L.same_target by (simp split: if_splits) blast

lemma loop_ok:
  assumes "pos st w P" and "evaluates st P" and "j_isend st = j_last st"
  shows "\<exists>st' w'. join_loop L R st w = Some (Inr st', w') \<and> same w w' \<and> fixed st st' \<and> found st' w' (filter (good st) P) \<and>
     (filter (good st) P \<noteq> [] \<longrightarrow> j_record st' = Some (hd (filter (good st) P)))"
  using assms
proof (induction P arbitrary: st w)
  case Nil
  have "j_last st" using Nil.prems(1) by (auto simp: pos_def split: if_splits)
  moreover have "same w w" using Nil.prems(1) by (simp add: pos_def)
  ultimately show ?case using Nil.prems(3) by (subst join_loop.simps) (simp add: fixed_def found_def)
next
  case (Cons p P)
  then have nl: "\<not> j_last st" "\<not> j_isend st" by (auto simp: pos_def)
  then obtain LA l ls RA r rs where a: "atL (j_left st) w LA (l # ls)" "atR (j_right st) w RA (r # rs)" "RA \<noteq> []"
    and P: "p = l @ r" "P = map ((@) l) rs @ pairs ls RA"
    using Cons.prems(1) by (auto simp: pos_def neq_Nil_conv)
  obtain l1 w1 where gl: "Next L (j_left st) w = Some (Inr (Some l, l1), w1)" "same w w1" "seenL l1 w1 LA (l # ls)"
    using L.get_law [OF a(1)] by blast
  obtain r1 w2 where gr: "Next R (j_right st) w1 = Some (Inr (Some r, r1), w2)" "same w1 w2" "seenR r1 w2 RA (r # rs)"
    using R.get_law [OF R.stable(2) [OF gl(2) a(2)]] by blast
  let ?st = "st\<lparr>j_left := l1, j_right := r1\<rparr>"
  obtain st3 w3 where v: "join_advance L R ?st w2 = Some (Inr st3, w3)" "same w2 w3" "pos st3 w3 P" "j_isend st3 = j_last st3"
    "fixed ?st st3"
    by (rule advance_ok [of ?st w2 LA l ls RA r rs]) (use a(3) nl gl(3) gr L.stable(3) P(2) in auto)
  have f: "fixed st st3" using v(5) by (simp add: fixed_def)
  have s3: "same w w3" using gl(2) gr(2) v(2) L.same_trans by blast
  obtain b where b: "evaluate_join st p = Inr b" using Cons.prems(2) by (auto simp: evaluates_def)
  have run: "join_loop L R st w =
      (if b then Some (Inr (st3\<lparr>j_record := Some p, j_isend := False\<rparr>), w3) else join_loop L R st3 w3)"
    using nl(1) gl(1) gr(1) v(1,4) b P(1) by (subst join_loop.simps) (simp add: fixed_evaluate [OF f])
  have ev: "evaluates st3 P" using Cons.prems(2) by (simp add: evaluates_def fixed_evaluate [OF f])
  show ?case
  proof (cases b)
    case True
    let ?s = "st3\<lparr>j_record := Some p, j_isend := False\<rparr>"
    have fs: "fixed st ?s" using f by (simp add: fixed_def)
    have "pos ?s w3 P" using v(3) by simp
    moreover have "evaluates ?s P" using ev by (simp add: evaluates_def evaluate_join_def)
    ultimately have "found ?s w3 (p # filter (good st) P)"
      using L.same_target [OF s3] by (auto simp: found_def fixed_evaluate [OF fs])
    then show ?thesis using run True b s3 fs by simp
  next
    case False
    from Cons.IH [OF v(3) ev v(4)] obtain st' w' where "join_loop L R st3 w3 = Some (Inr st', w')" "same w3 w'" "fixed st3 st'"
      "found st' w' (filter (good st) P)" "filter (good st) P \<noteq> [] \<longrightarrow> j_record st' = Some (hd (filter (good st) P))"
      unfolding fixed_evaluate [OF f] by blast
    then show ?thesis using run False b L.same_trans [OF s3] fixed_trans [OF f] by auto
  qed
qed

text \<open>The join as an executor.\<close>

definition jfresh :: "('l, 'r) nl_join \<Rightarrow> 'w \<Rightarrow> RmRecord list \<Rightarrow> bool" where
  "jfresh st w A \<longleftrightarrow> \<not> j_last st \<and> \<not> j_isend st \<and>
     (\<exists>LA RA. freshL (j_left st) w LA \<and> freshR (j_right st) w RA \<and> evaluates st (pairs LA RA) \<and> A = filter (good st) (pairs LA RA))"

definition jat :: "('l, 'r) nl_join \<Rightarrow> 'w \<Rightarrow> RmRecord list \<Rightarrow> RmRecord list \<Rightarrow> bool" where
  "jat st w A K \<longleftrightarrow> found st w K \<and> (K \<noteq> [] \<longrightarrow> j_record st = Some (hd K))"

definition jseen :: "('l, 'r) nl_join \<Rightarrow> 'w \<Rightarrow> RmRecord list \<Rightarrow> RmRecord list \<Rightarrow> bool" where
  "jseen st w A K \<longleftrightarrow> found st w K \<and> j_record st = None"

lemma join_begin_ok:
  assumes "jfresh st w A"
  shows "\<exists>st' w'. join_begin L R st w = Some (Inr st', w') \<and> same w w' \<and> jat st' w' A A \<and> fixed st st'"
proof -
  obtain LA RA where e: "\<not> j_last st" "\<not> j_isend st" and fl: "freshL (j_left st) w LA" and fr: "freshR (j_right st) w RA"
    and ev: "evaluates st (pairs LA RA)" and A: "A = filter (good st) (pairs LA RA)" using assms by (auto simp: jfresh_def)
  obtain l1 w1 where bl: "beginTuple L (j_left st) w = Some (Inr l1, w1)" "same w w1" "atL l1 w1 LA LA" using L.begin_law [OF fl] by blast
  obtain r2 w2 where br: "beginTuple R (j_right st) w1 = Some (Inr r2, w2)" "same w1 w2" "atR r2 w2 RA RA"
    using R.begin_law [OF R.stable(1) [OF bl(2) fr]] by blast
  have s2: "same w w2" using L.same_trans [OF bl(2) br(2)] .
  let ?st = "st\<lparr>j_left := l1, j_right := r2, j_left_end := LA = [], j_right_end := RA = []\<rparr>"
  have f: "fixed st ?st" by (simp add: fixed_def)
  have run: "join_begin L R st w = (if LA = [] \<or> RA = [] then Some (Inr (?st\<lparr>j_last := True, j_isend := True\<rparr>), w2) else join_loop L R ?st w2)"
    using bl(1) br(1) L.end_law [OF bl(3)] R.end_law [OF br(3)] by (simp add: join_begin_def Let_def)
  show ?thesis
  proof (cases "LA = [] \<or> RA = []")
    case True
    then have "A = []" using A by (auto simp: pairs_def)
    then show ?thesis using run True s2 L.same_target [OF s2] by (simp add: jat_def found_def fixed_def)
  next
    case False
    then obtain l ls where LA: "LA = l # ls" by (cases LA) auto
    have "pos ?st w2 (map ((@) l) RA @ pairs ls RA)"
      by (rule pos_at [OF L.same_target [OF s2]]) (use e False LA br(3) L.stable(2) [OF br(2) bl(3)] in auto)
    then have p: "pos ?st w2 (pairs LA RA)" by (simp add: LA pairs_Cons)
    have "evaluates ?st (pairs LA RA)" using ev by (simp add: evaluates_def evaluate_join_def)
    from loop_ok [OF p this] e obtain st' w' where "join_loop L R ?st w2 = Some (Inr st', w')" "same w2 w'" "fixed ?st st'"
      "found st' w' A" "A \<noteq> [] \<longrightarrow> j_record st' = Some (hd A)" unfolding A fixed_evaluate [OF f] by auto
    then show ?thesis using run False L.same_trans [OF s2] fixed_trans [OF f] by (auto simp: jat_def)
  qed
qed

lemma join_next_ok:
  assumes "found st w (x # K)"
  shows "\<exists>st' w'. join_next L R st w = Some (Inr st', w') \<and> same w w' \<and> jat st' w' A K \<and> fixed st st'"
proof -
  obtain P where e: "\<not> j_isend st" and p: "pos st w P" and ev: "evaluates st P" and K: "K = filter (good st) P"
    using assms by (auto simp: found_def)
  let ?st = "if j_last st then st\<lparr>j_isend := True\<rparr> else st"
  have f: "fixed st ?st" by (simp add: fixed_def)
  have "pos ?st w P" "evaluates ?st P" "j_isend ?st = j_last ?st" using p ev e by (simp_all add: evaluates_def evaluate_join_def)
  from loop_ok [OF this] obtain st' w' where "join_loop L R ?st w = Some (Inr st', w')" "same w w'" "fixed ?st st'"
    "found st' w' K" "K \<noteq> [] \<longrightarrow> j_record st' = Some (hd K)" unfolding K fixed_evaluate [OF f] by blast
  then show ?thesis using e fixed_trans [OF f] by (auto simp: join_next_def jat_def)
qed

end

sublocale join_children \<subseteq> join: cursor same "NestedLoopJoin L R" jfresh jat jseen
proof unfold_locales
  fix st w A
  assume "jfresh st w A"
  from join_begin_ok [OF this] show "\<exists>st' w'. beginTuple (NestedLoopJoin L R) st w = Some (Inr st', w') \<and> same w w' \<and> jat st' w' A A \<and>
      same_shape (NestedLoopJoin L R) st st'" by (auto simp: NestedLoopJoin_def same_shape_def fixed_def)
next
  fix st w A K
  assume "jat st w A K"
  then show "is_end (NestedLoopJoin L R) st = (K = [])" by (auto simp: NestedLoopJoin_def jat_def found_def split: if_splits)
next
  fix st w A x K
  assume "jat st w A (x # K)"
  then show "\<exists>st' w'. Next (NestedLoopJoin L R) st w = Some (Inr (Some x, st'), w') \<and> same w w' \<and> jseen st' w' A (x # K) \<and>
      same_shape (NestedLoopJoin L R) st st'"
    by (auto simp: NestedLoopJoin_def join_Next_def jat_def jseen_def found_def same_shape_def evaluates_def evaluate_join_def)
next
  fix st w A x K
  assume "jat st w A (x # K) \<or> jseen st w A (x # K)"
  then have "found st w (x # K)" by (auto simp: jat_def jseen_def)
  from join_next_ok [OF this] show "\<exists>st' w'. nextTuple (NestedLoopJoin L R) st w = Some (Inr st', w') \<and> same w w' \<and> jat st' w' A K \<and>
      same_shape (NestedLoopJoin L R) st st'" by (fastforce simp: NestedLoopJoin_def same_shape_def fixed_def)
next
  fix w w' st A K
  assume s: "same w w'"
  show "jfresh st w A \<Longrightarrow> jfresh st w' A" unfolding jfresh_def using L.stable(1) [OF s] R.stable(1) [OF s] by blast
  show "jat st w A K \<Longrightarrow> jat st w' A K" "jseen st w A K \<Longrightarrow> jseen st w' A K"
    using found_stable [OF s] by (auto simp: jat_def jseen_def)
qed

section \<open>A join below a join\<close>

text \<open>
  The planner makes the join of the first two tables the outer child of the next join. That join reads the current
  tuple of its outer child once for every inner tuple, but the record of a join is gone after the first time.
\<close>

locale three_tables = join_children same L freshL atL seenL R freshR atR seenR + T: restartable same T freshT atT seenT
  for same :: "'w \<Rightarrow> 'w \<Rightarrow> bool"
    and L :: "('l, 'w) executor" and freshL :: "'l \<Rightarrow> 'w \<Rightarrow> RmRecord list \<Rightarrow> bool"
    and atL :: "'l \<Rightarrow> 'w \<Rightarrow> RmRecord list \<Rightarrow> RmRecord list \<Rightarrow> bool" and seenL :: "'l \<Rightarrow> 'w \<Rightarrow> RmRecord list \<Rightarrow> RmRecord list \<Rightarrow> bool"
    and R :: "('r, 'w) executor" and freshR :: "'r \<Rightarrow> 'w \<Rightarrow> RmRecord list \<Rightarrow> bool"
    and atR :: "'r \<Rightarrow> 'w \<Rightarrow> RmRecord list \<Rightarrow> RmRecord list \<Rightarrow> bool" and seenR :: "'r \<Rightarrow> 'w \<Rightarrow> RmRecord list \<Rightarrow> RmRecord list \<Rightarrow> bool"
    and T :: "('t, 'w) executor" and freshT :: "'t \<Rightarrow> 'w \<Rightarrow> RmRecord list \<Rightarrow> bool"
    and atT :: "'t \<Rightarrow> 'w \<Rightarrow> RmRecord list \<Rightarrow> RmRecord list \<Rightarrow> bool" and seenT :: "'t \<Rightarrow> 'w \<Rightarrow> RmRecord list \<Rightarrow> RmRecord list \<Rightarrow> bool"
begin

text \<open>Selecting from a state whose outer child is a join state.\<close>

lemma nested_simps [simp]:
  fixes st :: "(('l, 'r) nl_join, 't) nl_join"
  shows "j_left (st\<lparr>j_left := a\<rparr>) = a" "j_right (st\<lparr>j_left := a\<rparr>) = j_right st" "j_cols (st\<lparr>j_left := a\<rparr>) = j_cols st"
    "j_conds (st\<lparr>j_left := a\<rparr>) = j_conds st" "j_isend (st\<lparr>j_left := a\<rparr>) = j_isend st" "j_last (st\<lparr>j_left := a\<rparr>) = j_last st"
    "j_record (st\<lparr>j_left := a\<rparr>) = j_record st" "j_left (st\<lparr>j_right := b\<rparr>) = j_left st" "j_left (st\<lparr>j_left_end := p\<rparr>) = j_left st"
    "j_left (st\<lparr>j_right_end := p\<rparr>) = j_left st" "j_left (st\<lparr>j_record := r\<rparr>) = j_left st" "j_left (st\<lparr>j_isend := p\<rparr>) = j_left st"
  by (cases st; simp)+

abbreviation J :: "(('l, 'r) nl_join, 'w) executor" where
  "J \<equiv> NestedLoopJoin L R"

lemma stuck:
  assumes "\<not> j_last st" and "j_record (j_left st) = None" and "atT (j_right st) w TA (t # ts)"
  shows "\<exists>w'. join_loop J T st w = Some (Inl NullDereference, w')"
proof -
  obtain t1 w1 where "Next T (j_right st) w = Some (Inr (Some t, t1), w1)" using T.get_law [OF assms(3)] by blast
  then show ?thesis using assms(1,2) by (subst join_loop.simps) (simp add: NestedLoopJoin_def join_Next_def)
qed

lemma first_pair:
  assumes e: "\<not> j_last st" and j: "jat (j_left st) w JA (x # js)" and t: "atT (j_right st) w TA (t # t' # ts)"
    and ev: "\<exists>b. evaluate_join st (x @ t) = Inr b"
  shows "(\<exists>w'. join_loop J T st w = Some (Inl NullDereference, w')) \<or>
    (\<exists>st' w'. join_loop J T st w = Some (Inr st', w') \<and> \<not> j_last st' \<and> j_record (j_left st') = None \<and>
       atT (j_right st') w' TA (t' # ts) \<and> j_record st' = Some (x @ t) \<and> j_isend st' = j_isend st)"
proof -
  let ?j = "(j_left st)\<lparr>j_record := None\<rparr>"
  have nj: "Next J (j_left st) w = Some (Inr (Some x, ?j), w)" using j by (simp add: NestedLoopJoin_def join_Next_def jat_def)
  obtain t1 w1 where g: "Next T (j_right st) w = Some (Inr (Some t, t1), w1)" "seenT t1 w1 TA (t # t' # ts)" using T.get_law [OF t] by blast
  obtain t2 w2 where n: "nextTuple T t1 w1 = Some (Inr t2, w2)" "atT t2 w2 TA (t' # ts)" using T.next_law g(2) by blast
  obtain b where b: "evaluate_join st (x @ t) = Inr b" using ev by blast
  let ?st = "st\<lparr>j_left := ?j, j_right := t2, j_left_end := is_end J ?j, j_right_end := False\<rparr>"
  have adv: "join_advance J T (st\<lparr>j_left := ?j, j_right := t1\<rparr>) w1 = Some (Inr ?st, w2)"
    using n(1) T.end_law [OF n(2)] by (cases st) (simp add: join_advance_def Let_def)
  have run: "join_loop J T st w = (if b then Some (Inr (?st\<lparr>j_record := Some (x @ t)\<rparr>), w2) else join_loop J T ?st w2)"
    using e nj g(1) adv b by (subst join_loop.simps, cases st) (simp add: evaluate_join_def)
  show ?thesis
  proof (cases b)
    case True
    then show ?thesis using run e n(2) by simp
  next
    case False
    then show ?thesis using run stuck [of ?st w2 TA t' ts] e n(2) by simp
  qed
qed

lemma fails:
  assumes f: "jfresh (j_left st) w (x # js)" "freshT (j_right st) w (t # t' # ts)" and e: "\<not> j_last st" "\<not> j_isend st"
    and ev: "\<exists>b. evaluate_join st (x @ t) = Inr b"
  shows "\<exists>w'. for_tuples (NestedLoopJoin J T) keep [] st w = Some (Inl NullDereference, w')"
proof -
  obtain j1 w1 where bj: "beginTuple J (j_left st) w = Some (Inr j1, w1)" "same w w1" "jat j1 w1 (x # js) (x # js)"
    using join.begin_law [OF f(1)] by blast
  obtain t2 w2 where bt: "beginTuple T (j_right st) w1 = Some (Inr t2, w2)" "same w1 w2" "atT t2 w2 (t # t' # ts) (t # t' # ts)"
    using T.begin_law [OF T.stable(1) [OF bj(2) f(2)]] by blast
  let ?st = "st\<lparr>j_left := j1, j_right := t2, j_left_end := False, j_right_end := False\<rparr>"
  have j2: "jat j1 w2 (x # js) (x # js)" using join.stable(2) [OF bt(2) bj(3)] .
  have run: "beginTuple (NestedLoopJoin J T) st w = join_loop J T ?st w2"
    using bj(1) bt(1) join.end_law [OF bj(3)] T.end_law [OF bt(3)] by (simp add: NestedLoopJoin_def [of J T] join_begin_def Let_def)
  have ev': "\<exists>b. evaluate_join ?st (x @ t) = Inr b" using ev by (cases st) (simp add: evaluate_join_def)
  from first_pair [of ?st w2 "x # js" x js "t # t' # ts" t t' ts, OF _ _ _ ev'] e j2 bt(3) consider
      (early) w' where "join_loop J T ?st w2 = Some (Inl NullDereference, w')"
    | (late) st' w' where "join_loop J T ?st w2 = Some (Inr st', w')" "\<not> j_last st'" "j_record (j_left st') = None"
        "atT (j_right st') w' (t # t' # ts) (t' # ts)" "j_record st' = Some (x @ t)" "\<not> j_isend st'" by auto
  then show ?thesis
  proof cases
    case early
    then show ?thesis using run by (simp add: for_tuples_def)
  next
    case late
    let ?s = "st'\<lparr>j_record := None\<rparr>"
    obtain w'' where "join_loop J T ?s w' = Some (Inl NullDereference, w'')" using stuck [of ?s w' "t # t' # ts" t' ts] late(2-4) by auto
    then show ?thesis using run late(1,2,5,6) unfolding for_tuples_def
      by (simp, subst tuple_loop.simps) (simp add: NestedLoopJoin_def [of J T] join_Next_def join_next_def keep_def)
  qed
qed

end

section \<open>Joins of tables\<close>

interpretation seq_join: three_tables sm_same SeqScan seq_fresh seq_at seq_at SeqScan seq_fresh seq_at seq_at SeqScan seq_fresh seq_at seq_at
  by unfold_locales

lemma evaluate_join_meaning:
  assumes "\<forall>cond \<in> set (j_conds st). cond_typed (j_cols st) cond"
  shows "evaluate_join st x = Inr (\<forall>cond \<in> set (j_conds st). cond_holds (j_cols st) x cond)"
  unfolding evaluate_join_def by (rule eval_conds_meaning [OF refl assms])

abbreviation join_of :: "Rid \<Rightarrow> seq_scan \<Rightarrow> seq_scan \<Rightarrow> Condition list \<Rightarrow> (seq_scan, seq_scan) nl_join" where
  "join_of \<equiv> NestedLoopJoinExecutor SeqScan SeqScan"

text \<open>The pairs of tuples of two scans that satisfy the join conditions.\<close>

definition joined :: "ColMeta list \<Rightarrow> Condition list \<Rightarrow> RmRecord list \<Rightarrow> RmRecord list \<Rightarrow> RmRecord list" where
  "joined cols conds ls rs = filter (\<lambda>x. \<forall>cond \<in> set conds. cond_holds cols x cond) (pairs ls rs)"

text \<open>A scan that is ready to run and delivers \<open>A\<close>.\<close>

definition scan_of :: "sm_manager \<Rightarrow> seq_scan \<Rightarrow> RmRecord list \<Rightarrow> bool" where
  "scan_of sm st A \<longleftrightarrow> (\<exists>junk tab conds ctx. SeqScanExecutor junk sm tab conds ctx = Inr st \<and> locks_granted ctx tab sm \<and>
     (\<forall>cond \<in> set conds. cond_typed (ts_cols st) cond) \<and> A = selected sm tab (ts_cols st) conds)"

lemma scan_of_fresh: "sm_inv sm \<Longrightarrow> scan_of sm st A \<Longrightarrow> seq_fresh st sm A"
  using seq_scan_fresh by (auto simp: scan_of_def)

lemma join_of_fresh:
  assumes "sm_inv sm" and "scan_of sm s1 A1" and "scan_of sm s2 A2"
    and "\<forall>cond \<in> set conds. cond_typed (j_cols (join_of rid s1 s2 conds)) cond"
  shows "seq_join.jfresh (join_of rid s1 s2 conds) sm (joined (j_cols (join_of rid s1 s2 conds)) conds A2 A1)"
proof -
  have c: "j_conds (join_of rid s1 s2 conds) = conds" by (simp add: NestedLoopJoinExecutor_def)
  note ev = evaluate_join_meaning [of "join_of rid s1 s2 conds", unfolded c, OF assms(4)]
  have "seq_fresh (j_left (join_of rid s1 s2 conds)) sm A2" "seq_fresh (j_right (join_of rid s1 s2 conds)) sm A1"
    using scan_of_fresh [OF assms(1,2)] scan_of_fresh [OF assms(1,3)] by (simp_all add: NestedLoopJoinExecutor_def)
  moreover have "\<not> j_last (join_of rid s1 s2 conds)" "\<not> j_isend (join_of rid s1 s2 conds)" by (simp_all add: NestedLoopJoinExecutor_def)
  ultimately show ?thesis unfolding seq_join.jfresh_def seq_join.evaluates_def joined_def ev by auto
qed

text \<open>Scans of the sample table.\<close>

lemma sample_scan_of:
  "scan_of (sample_sm rm) (sample_scan ''t'' [sample_cond]) (selected (sample_sm rm) ''t'' [sample_col ''a'' 0] [sample_cond])"
proof -
  have "locks_granted granting ''t'' (sample_sm rm)" by (simp add: locks_granted_def granting_def)
  moreover have "cond_typed (ts_cols (sample_scan ''t'' [sample_cond])) sample_cond" by code_simp
  ultimately show ?thesis using sample_scan_constructed unfolding scan_of_def by (fastforce simp: sample_scan_def)
qed

lemma sample_join_typed:
  "\<forall>cond \<in> set [sample_cond]. cond_typed (j_cols (join_of (Rid 0 0) (sample_scan ''t'' [sample_cond]) (sample_scan ''t'' [sample_cond]) [sample_cond])) cond"
  by code_simp

lemma sample_join_holds:
  "x \<in> {[1, 2, 3, 4], [5, 6, 7, 8]} \<Longrightarrow>
     cond_holds (j_cols (join_of (Rid 0 0) (sample_scan ''t'' [sample_cond]) (sample_scan ''t'' [sample_cond]) [sample_cond])) (x @ y) sample_cond"
  by (auto simp: NestedLoopJoinExecutor_def SeqScan_def sample_scan_def cond_holds_def getValue_def rhs_value_def find_col_def col_value_def
      sample_cond_def sample_col_def sample_int_def ValueComp_def comp_int_def int_val_def load_int_def slice_def bytes_int_def Let_def)

section \<open>Properties\<close>

text \<open>
  C12: a nested-loop join of two tables. Over any database with well-formed files and two scans whose locks are granted
  and whose conditions are well-typed, the join delivers exactly the concatenations of a selected record of the outer
  table (the second argument of the constructor) with a selected record of the inner table that satisfy all join conditions,
  grouped by the outer record, and ends; the tables are not changed and no page stays pinned.
\<close>

theorem join_delivers_matching_pairs:
  assumes "sm_inv sm" and "scan_of sm s1 A1" and "scan_of sm s2 A2"
    and "\<forall>cond \<in> set conds. cond_typed (j_cols (join_of rid s1 s2 conds)) cond"
  shows "\<exists>st' sm'. for_tuples (NestedLoopJoin SeqScan SeqScan) keep [] (join_of rid s1 s2 conds) sm =
      Some (Inr (joined (j_cols (join_of rid s1 s2 conds)) conds A2 A1, st'), sm') \<and> sm_same sm sm'"
proof -
  obtain st' sm' where "for_tuples (NestedLoopJoin SeqScan SeqScan) keep [] (join_of rid s1 s2 conds) sm =
      Some (Inr (joined (j_cols (join_of rid s1 s2 conds)) conds A2 A1, st'), sm')" "sm_same sm sm'"
    by (rule seq_join.join.collects [OF join_of_fresh [OF assms]])
  then show ?thesis by blast
qed

theorem join_delivers_matching_pairs_witness:
  "\<exists>sm st' sm'. for_tuples (NestedLoopJoin SeqScan SeqScan) keep []
     (join_of (Rid 0 0) (sample_scan ''t'' [sample_cond]) (sample_scan ''t'' [sample_cond]) [sample_cond]) sm =
       Some (Inr ([[1, 2, 3, 4, 1, 2, 3, 4]], st'), sm')"
proof -
  let ?s = "sample_scan ''t'' [sample_cond]"
  obtain r rm where rm: "rm_inv rm" "rm_map rm = [r \<mapsto> [1, 2, 3, 4]]" by (rule sample_inserted)
  have A: "scan_of (sample_sm rm) ?s [[1, 2, 3, 4]]"
    using sample_scan_of [of rm] sample_cond_holds by (simp add: selected_def sample_sm_rows [OF rm])
  have "joined (j_cols (join_of (Rid 0 0) ?s ?s [sample_cond])) [sample_cond] [[1, 2, 3, 4]] [[1, 2, 3, 4]] = [[1, 2, 3, 4, 1, 2, 3, 4]]"
    using sample_join_holds [of "[1, 2, 3, 4]" "[1, 2, 3, 4]"] by (simp add: joined_def pairs_def)
  then show ?thesis
    using join_delivers_matching_pairs [OF sample_sm_inv [OF rm(1)] A A sample_join_typed] by (elim exE conjE, intro exI) simp
qed

text \<open>
  A join of three tables fails. Whenever the join of the first two tables has a tuple and the scan of the third
  delivers at least two, running the join of all three ends in the use of a null record.
\<close>

theorem three_way_join_fails:
  assumes "sm_inv sm" and "scan_of sm s1 A1" and "scan_of sm s2 A2" and "scan_of sm s3 (t # t' # ts)"
    and "\<forall>cond \<in> set conds. cond_typed (j_cols (join_of rid s1 s2 conds)) cond"
    and "joined (j_cols (join_of rid s1 s2 conds)) conds A2 A1 \<noteq> []"
    and "st = NestedLoopJoinExecutor (NestedLoopJoin SeqScan SeqScan) SeqScan rid' s3 (join_of rid s1 s2 conds) conds'"
    and "\<forall>cond \<in> set conds'. cond_typed (j_cols st) cond"
  shows "\<exists>sm'. for_tuples (NestedLoopJoin (NestedLoopJoin SeqScan SeqScan) SeqScan) keep [] st sm = Some (Inl NullDereference, sm')"
proof -
  obtain x js where x: "joined (j_cols (join_of rid s1 s2 conds)) conds A2 A1 = x # js"
    using assms(6) by (cases "joined (j_cols (join_of rid s1 s2 conds)) conds A2 A1") auto
  have st: "j_left st = join_of rid s1 s2 conds" "j_right st = s3" "\<not> j_last st" "\<not> j_isend st" "j_conds st = conds'"
    by (simp_all add: assms(7) NestedLoopJoinExecutor_def [of "NestedLoopJoin SeqScan SeqScan"])
  show ?thesis
  proof (rule seq_join.fails)
    show "seq_join.jfresh (j_left st) sm (x # js)" using join_of_fresh [OF assms(1-3,5)] by (simp add: st x)
    show "seq_fresh (j_right st) sm (t # t' # ts)" using scan_of_fresh [OF assms(1,4)] by (simp add: st)
    show "\<exists>b. evaluate_join st (x @ t) = Inr b" using evaluate_join_meaning [of st] assms(8) st(5) by simp
  qed (use st in auto)
qed

lemma sample_two_rows:
  obtains rm x y where "rm_inv rm" and "table_rows (sample_sm rm) ''t'' = [x, y]" and "{x, y} \<subseteq> {[1, 2, 3, 4], [5, 6, 7, 8]}"
proof -
  obtain r rm where rm: "rm_inv rm" "rm_map rm = [r \<mapsto> [1, 2, 3, 4]]" "rm_fits rm [1, 2, 3, 4]" "rm_room rm"
    by (rule sample_inserted)
  from insert_record_ok [OF rm(1) _ rm(4), of "[5, 6, 7, 8]" None] rm(2,3) obtain r' rm' where
    i: "rm_inv rm'" "rm_map rm r' = None" "rm_map rm' = [r \<mapsto> [1, 2, 3, 4], r' \<mapsto> [5, 6, 7, 8]]" by auto
  let ?sm = "sample_sm rm'" and ?t = "''t''"
  have m: "table_map ?sm ?t = [r \<mapsto> [1, 2, 3, 4], r' \<mapsto> [5, 6, 7, 8]]" using i(3) by (simp add: table_map_def sample_sm_def)
  have ne: "r \<noteq> r'" using i(2) rm(2) by auto
  have s: "set (table_rids ?sm ?t) = {r, r'}" and d: "distinct (table_rids ?sm ?t)" using table_rids_set [of ?sm ?t] m by auto
  have "length (table_rids ?sm ?t) = 2" using distinct_card [OF d] s ne by simp
  then obtain a b where "table_rids ?sm ?t = [a, b]" by (auto simp: numeral_2_eq_2 length_Suc_conv)
  then show thesis using s ne i(1) m by (intro that [of rm' "the (table_map ?sm ?t a)" "the (table_map ?sm ?t b)"]) (auto simp: table_rows_def)
qed

theorem three_way_join_fails_witness:
  "\<exists>sm sm'. for_tuples (NestedLoopJoin (NestedLoopJoin SeqScan SeqScan) SeqScan) keep []
     (NestedLoopJoinExecutor (NestedLoopJoin SeqScan SeqScan) SeqScan (Rid 0 0) (sample_scan ''t'' [sample_cond])
        (join_of (Rid 0 0) (sample_scan ''t'' [sample_cond]) (sample_scan ''t'' [sample_cond]) [sample_cond]) []) sm =
       Some (Inl NullDereference, sm')"
proof -
  let ?s = "sample_scan ''t'' [sample_cond]"
  obtain rm x y where rm: "rm_inv rm" and xy: "table_rows (sample_sm rm) ''t'' = [x, y]" "{x, y} \<subseteq> {[1, 2, 3, 4], [5, 6, 7, 8]}"
    by (rule sample_two_rows)
  have "cond_holds [sample_col ''a'' 0] z sample_cond" if "z \<in> {[1, 2, 3, 4], [5, 6, 7, 8]}" for z
    using that sample_join_holds [of z "[]"] by (auto simp: cond_holds_def getValue_def rhs_value_def find_col_def
      NestedLoopJoinExecutor_def SeqScan_def sample_scan_def sample_cond_def sample_col_def Let_def)
  then have A: "scan_of (sample_sm rm) ?s [x, y]" using sample_scan_of [of rm] xy by (auto simp: selected_def)
  have j: "joined (j_cols (join_of (Rid 0 0) ?s ?s [sample_cond])) [sample_cond] [x, y] [x, y] \<noteq> []"
    using sample_join_holds [of x x] xy(2) by (simp add: joined_def pairs_def)
  show ?thesis
    using three_way_join_fails [where rid' = "Rid 0 0" and conds' = "[]", OF sample_sm_inv [OF rm] A A A sample_join_typed j refl]
    by auto
qed

end
