(* ===== verification/Projection.thy ===== *)
theory Projection
  imports NestedLoopJoin
begin

text \<open>
  \<open>ValuesExecutor\<close> (\<^verbatim>\<open>execution/execution_values.h\<close>), which delivers a list of values, and \<open>ProjectionExecutor\<close>
  (\<^verbatim>\<open>execution/executor_projection.h\<close>), which picks columns of the tuples of its child. A projection delivers one tuple
  for each tuple of its child, and every column it names has the value it has in the child's tuple.
\<close>

section \<open>ValuesExecutor\<close>

record values_exec =
  ve_values :: "Value list"
  ve_len :: nat
  ve_cols :: "ColMeta list"
  ve_it :: nat
  ve_rid :: Rid
  ve_mem :: bytes

definition ValuesExecutor :: "values_exec \<Rightarrow> Value list \<Rightarrow> ColMeta \<Rightarrow> values_exec" where
  "ValuesExecutor junk values col =
     junk\<lparr>ve_values := values, ve_len := nat (cm_len col), ve_cols := [col\<lparr>cm_offset := 0\<rparr>]\<rparr>"

text \<open>
  The iterator at the end of the vector must not be read. \<open>ve_mem\<close> is what the memory that \<open>init_raw\<close> allocates holds.
\<close>

definition values_Next :: "values_exec \<Rightarrow> 'w \<Rightarrow> (RmRecord option \<times> values_exec, 'w) run" where
  "values_Next st w =
     (if ve_it st < length (ve_values st) then
        (case init_raw (ve_mem st) (ve_len st) (ve_values st ! ve_it st) of
           (Inl e, _) \<Rightarrow> Some (Inl e, w)
         | (Inr _, value) \<Rightarrow>
             (case v_raw value of
                None \<Rightarrow> Some (Inl NullDereference, w)
              | Some raw \<Rightarrow> Some (Inr (Some (slice 0 (ve_len st) raw), st), w)))
      else Some (Inl NullDereference, w))"

definition Values :: "(values_exec, 'w) executor" where
  "Values =
     \<lparr>beginTuple = (\<lambda>st w. Some (Inr (st\<lparr>ve_it := 0\<rparr>), w)),
      nextTuple = (\<lambda>st w. Some (Inr (st\<lparr>ve_it := ve_it st + 1\<rparr>), w)),
      is_end = (\<lambda>st. ve_it st = length (ve_values st)),
      Next = values_Next,
      exec_rid = ve_rid,
      exec_cols = ve_cols,
      tupleLen = ve_len\<rparr>"

section \<open>ProjectionExecutor\<close>

record 'p projection =
  pr_prev :: 'p
  pr_cols :: "ColMeta list"
  pr_len :: int
  pr_sel_idxs :: "nat list"
  pr_rid :: Rid

text \<open>\<open>get_col\<close> as an index.\<close>

definition find_col_pos :: "ColMeta list \<Rightarrow> TabCol \<Rightarrow> rmdb_error + nat" where
  "find_col_pos rec_cols target =
     (let p = length (takeWhile (\<lambda>col. \<not> (cm_tab_name col = tc_tab target \<and> cm_name col = tc_col target)) rec_cols)
      in if p = length rec_cols then Inl (ColumnNotFoundError (tc_tab target @ ''.'' @ tc_col target)) else Inr p)"

fun proj_select :: "ColMeta list \<Rightarrow> TabCol list \<Rightarrow> int \<Rightarrow> rmdb_error + (nat list \<times> ColMeta list \<times> int)" where
  "proj_select prev_cols [] curr_offset = Inr ([], [], curr_offset)"
| "proj_select prev_cols (sel_col # sel_cols) curr_offset =
     (case find_col_pos prev_cols sel_col of
        Inl e \<Rightarrow> Inl e
      | Inr pos \<Rightarrow>
          let col = (prev_cols ! pos)\<lparr>cm_offset := curr_offset\<rparr>
          in case proj_select prev_cols sel_cols (curr_offset + cm_len col) of
               Inl e \<Rightarrow> Inl e
             | Inr (idxs, cols, len) \<Rightarrow> Inr (pos # idxs, col # cols, len))"

text \<open>The names of the second list; a longer list runs past the end of \<open>cols_\<close>.\<close>

fun proj_rename :: "ColMeta list \<Rightarrow> TabCol list \<Rightarrow> rmdb_error + ColMeta list" where
  "proj_rename cols [] = Inr cols"
| "proj_rename [] (n # ns) = Inl NullDereference"
| "proj_rename (col # cols) (n # ns) =
     (case proj_rename cols ns of Inl e \<Rightarrow> Inl e | Inr cs \<Rightarrow> Inr (col\<lparr>cm_name := tc_col n\<rparr> # cs))"

definition ProjectionExecutor ::
    "('p, 'w) executor \<Rightarrow> Rid \<Rightarrow> 'p \<Rightarrow> TabCol list \<Rightarrow> TabCol list \<Rightarrow> rmdb_error + 'p projection" where
  "ProjectionExecutor P rid prev sel_cols cols =
     (case proj_select (exec_cols P prev) sel_cols 0 of
        Inl e \<Rightarrow> Inl e
      | Inr (idxs, cs, len) \<Rightarrow>
          (case proj_rename cs cols of
             Inl e \<Rightarrow> Inl e
           | Inr cs \<Rightarrow> Inr \<lparr>pr_prev = prev, pr_cols = cs, pr_len = len, pr_sel_idxs = idxs, pr_rid = rid\<rparr>))"

text \<open>The columns, one after the other.\<close>

fun proj_copy :: "ColMeta list \<Rightarrow> ColMeta list \<Rightarrow> nat list \<Rightarrow> bytes \<Rightarrow> bytes \<Rightarrow> bytes" where
  "proj_copy prev_cols (col # cols) (idx # idxs) prev_data rec =
     (let off = nat (cm_offset col); len = nat (cm_len col);
          rec = memcpy rec off (memset len 0);
          rec = memcpy rec off (slice (nat (cm_offset (prev_cols ! idx))) len prev_data)
      in proj_copy prev_cols cols idxs prev_data rec)"
| "proj_copy prev_cols _ _ prev_data rec = rec"

definition proj_tuple :: "('p, 'w) executor \<Rightarrow> 'p projection \<Rightarrow> RmRecord \<Rightarrow> RmRecord" where
  "proj_tuple P st data =
     proj_copy (exec_cols P (pr_prev st)) (pr_cols st) (pr_sel_idxs st) (slice 0 (tupleLen P (pr_prev st)) data) (memset (nat (pr_len st)) 0)"

definition proj_begin :: "('p, 'w) executor \<Rightarrow> 'p projection \<Rightarrow> 'w \<Rightarrow> ('p projection, 'w) run" where
  "proj_begin P st w = bindR (beginTuple P (pr_prev st) w) (\<lambda>p w. Some (Inr (st\<lparr>pr_prev := p, pr_rid := exec_rid P p\<rparr>), w))"

definition proj_next :: "('p, 'w) executor \<Rightarrow> 'p projection \<Rightarrow> 'w \<Rightarrow> ('p projection, 'w) run" where
  "proj_next P st w = bindR (nextTuple P (pr_prev st) w) (\<lambda>p w. Some (Inr (st\<lparr>pr_prev := p, pr_rid := exec_rid P p\<rparr>), w))"

definition proj_Next :: "('p, 'w) executor \<Rightarrow> 'p projection \<Rightarrow> 'w \<Rightarrow> (RmRecord option \<times> 'p projection, 'w) run" where
  "proj_Next P st w =
     bindR (Next P (pr_prev st) w)
       (\<lambda>(t, p) w. case t of
          None \<Rightarrow> Some (Inl NullDereference, w)
        | Some data \<Rightarrow> let st = st\<lparr>pr_prev := p\<rparr> in Some (Inr (Some (proj_tuple P st data), st), w))"

text \<open>\<open>tupleLen\<close> is not overridden.\<close>

definition Projection :: "('p, 'w) executor \<Rightarrow> ('p projection, 'w) executor" where
  "Projection P =
     \<lparr>beginTuple = proj_begin P, nextTuple = proj_next P, is_end = (\<lambda>st. is_end P (pr_prev st)), Next = proj_Next P,
      exec_rid = pr_rid, exec_cols = pr_cols, tupleLen = (\<lambda>_. 0)\<rparr>"

section \<open>The columns of a projected tuple\<close>

text \<open>The offsets are those of a sequence of columns without gaps.\<close>

fun packed :: "int \<Rightarrow> ColMeta list \<Rightarrow> bool" where
  "packed off [] = True"
| "packed off (col # cols) = (cm_offset col = off \<and> 0 \<le> cm_len col \<and> packed (off + cm_len col) cols)"

definition cols_len :: "ColMeta list \<Rightarrow> int" where
  "cols_len cols = sum_list (map cm_len cols)"

lemma packed_len: "packed off cols \<Longrightarrow> 0 \<le> cols_len cols"
  by (induction cols arbitrary: off) (auto simp: cols_len_def)

lemma proj_copy_app:
  assumes "packed off cols" and "0 \<le> off" and "nat off \<le> length rec" and "length rec = nat (off + cols_len cols)"
    and "length idxs = length cols" and "\<forall>i < length cols. cm_len (prev ! (idxs ! i)) = cm_len (cols ! i) \<and> 0 \<le> cm_offset (prev ! (idxs ! i)) \<and>
      nat (cm_offset (prev ! (idxs ! i))) + nat (cm_len (cols ! i)) \<le> length data"
  shows "proj_copy prev cols idxs data rec =
     take (nat off) rec @ concat (map (\<lambda>i. slice (nat (cm_offset (prev ! i))) (nat (cm_len (prev ! i))) data) idxs)"
  using assms
proof (induction cols arbitrary: off rec idxs)
  case Nil
  then show ?case by (simp add: cols_len_def)
next
  case (Cons col cols)
  then obtain idx ids where idxs: "idxs = idx # ids" "length ids = length cols" by (cases idxs) auto
  let ?o = "nat off" and ?l = "nat (cm_len col)" and ?s = "slice (nat (cm_offset (prev ! idx))) (nat (cm_len col)) data"
  have c: "cm_offset col = off" "0 \<le> cm_len col" "packed (off + cm_len col) cols" using Cons.prems(1) by simp_all
  have i0: "cm_len (prev ! idx) = cm_len col" "0 \<le> cm_offset (prev ! idx)" "nat (cm_offset (prev ! idx)) + ?l \<le> length data"
    using Cons.prems(6) idxs by auto
  have nn: "0 \<le> cols_len cols" using packed_len [OF c(3)] .
  have len: "length rec = nat (off + cm_len col + cols_len cols)" using Cons.prems(4) by (simp add: cols_len_def algebra_simps)
  then have fit: "?o + ?l \<le> length rec" using Cons.prems(2) c(2) nn by linarith
  let ?r = "memcpy (memcpy rec ?o (memset ?l 0)) ?o ?s"
  have ls: "length ?s = ?l" using i0(3) by simp
  have lr: "length ?r = length rec" using fit ls by simp
  have tr: "take (nat (off + cm_len col)) ?r = take ?o rec @ ?s"
    using fit ls Cons.prems(2) c(2) by (simp add: memcpy_def memset_def nat_add_distrib)
  have "proj_copy prev cols ids data ?r =
     take (nat (off + cm_len col)) ?r @ concat (map (\<lambda>i. slice (nat (cm_offset (prev ! i))) (nat (cm_len (prev ! i))) data) ids)"
  proof (rule Cons.IH [OF c(3)])
    show "nat (off + cm_len col) \<le> length ?r" using fit lr Cons.prems(2) c(2) by (simp add: nat_add_distrib)
    show "\<forall>i < length cols. cm_len (prev ! (ids ! i)) = cm_len (cols ! i) \<and> 0 \<le> cm_offset (prev ! (ids ! i)) \<and>
      nat (cm_offset (prev ! (ids ! i))) + nat (cm_len (cols ! i)) \<le> length data" using Cons.prems(6) idxs by auto
  qed (use Cons.prems(2) c(2) lr len idxs in auto)
  then show ?case using tr idxs(1) i0(1) c(1) by (simp add: Let_def)
qed

lemma find_col_pos_Inr:
  assumes "find_col_pos cols target = Inr p"
  shows "p < length cols" and "find_col cols target = Inr (cols ! p)"
proof -
  let ?m = "\<lambda>col. cm_tab_name col = tc_tab target \<and> cm_name col = tc_col target"
  have p: "p = length (takeWhile (\<lambda>col. \<not> ?m col) cols)" "p \<noteq> length cols"
    using assms by (auto simp: find_col_pos_def Let_def split: if_splits)
  then show l: "p < length cols" using length_takeWhile_le [of "\<lambda>col. \<not> ?m col" cols] by simp
  have "?m (cols ! p)" using nth_length_takeWhile [of "\<lambda>col. \<not> ?m col" cols] l p(1) by simp
  moreover have "\<not> ?m (cols ! j)" if j: "j < p" for j
  proof -
    have "takeWhile (\<lambda>col. \<not> ?m col) cols ! j \<in> set (takeWhile (\<lambda>col. \<not> ?m col) cols)" using j p(1) by (intro nth_mem) simp
    then have "\<not> ?m (takeWhile (\<lambda>col. \<not> ?m col) cols ! j)" by (rule set_takeWhileD [THEN conjunct2])
    then show ?thesis using takeWhile_nth [of j "\<lambda>col. \<not> ?m col" cols] j p(1) by simp
  qed
  ultimately have "find ?m cols = Some (cols ! p)" unfolding find_Some_iff using l by blast
  then show "find_col cols target = Inr (cols ! p)" by (simp add: find_col_def)
qed

lemma proj_select_ok:
  assumes "proj_select prev sels off = Inr (idxs, cs, len)" and "\<forall>c \<in> set prev. 0 \<le> cm_len c"
  shows "length idxs = length sels \<and> length cs = length sels \<and> packed off cs \<and> len = off + cols_len cs \<and>
     (\<forall>i < length sels. idxs ! i < length prev \<and> find_col prev (sels ! i) = Inr (prev ! (idxs ! i)) \<and>
        cm_len (cs ! i) = cm_len (prev ! (idxs ! i)) \<and> cm_type (cs ! i) = cm_type (prev ! (idxs ! i)))"
  using assms(1)
proof (induction sels arbitrary: off idxs cs)
  case Nil
  then show ?case by (simp add: cols_len_def)
next
  case (Cons sel sels)
  then obtain pos ids cs' where p: "find_col_pos prev sel = Inr pos" and c: "cs = (prev ! pos)\<lparr>cm_offset := off\<rparr> # cs'" "idxs = pos # ids"
    and r: "proj_select prev sels (off + cm_len (prev ! pos)) = Inr (ids, cs', len)"
    by (auto simp: Let_def split: sum.splits)
  note pos = find_col_pos_Inr [OF p] and IH = Cons.IH [OF r]
  have "0 \<le> cm_len (prev ! pos)" using assms(2) pos(1) by simp
  with IH pos c show ?case by (auto simp: cols_len_def nth_Cons split: nat.split)
qed

lemma proj_rename_ok:
  "proj_rename cs ns = Inr cs' \<Longrightarrow> length cs' = length cs \<and> packed off cs' = packed off cs \<and> cols_len cs' = cols_len cs \<and>
     (\<forall>i < length cs. cm_len (cs' ! i) = cm_len (cs ! i) \<and> cm_type (cs' ! i) = cm_type (cs ! i))"
proof (induction cs ns arbitrary: cs' off rule: proj_rename.induct)
  case (3 col cols n ns)
  then obtain cs'' where r: "proj_rename cols ns = Inr cs''" "cs' = col\<lparr>cm_name := tc_col n\<rparr> # cs''" by (auto split: sum.splits)
  then show ?case using "3.IH" [OF r(1), of "off + cm_len col"] by (auto simp: cols_len_def nth_Cons split: nat.split)
qed (auto split: sum.splits)

lemma slice_packed:
  assumes "packed off cols" and "length xs = length cols" and "\<forall>i < length cols. length (xs ! i) = nat (cm_len (cols ! i))"
    and "i < length cols" and "0 \<le> off"
  shows "slice (nat (cm_offset (cols ! i)) - nat off) (nat (cm_len (cols ! i))) (concat xs) = xs ! i \<and> off \<le> cm_offset (cols ! i) \<and>
     nat (cm_offset (cols ! i)) - nat off + nat (cm_len (cols ! i)) \<le> length (concat xs)"
  using assms
proof (induction cols arbitrary: off xs i)
  case (Cons col cols)
  then obtain x ys where xs: "xs = x # ys" "length ys = length cols" by (cases xs) auto
  have x: "length x = nat (cm_len col)" using Cons.prems(3) xs(1) by auto
  have c: "cm_offset col = off" "0 \<le> cm_len col" "packed (off + cm_len col) cols" using Cons.prems(1) by simp_all
  show ?case
  proof (cases i)
    case 0
    then show ?thesis using c x xs by (simp add: slice_def)
  next
    case (Suc k)
    have k: "slice (nat (cm_offset (cols ! k)) - nat (off + cm_len col)) (nat (cm_len (cols ! k))) (concat ys) = ys ! k \<and>
        off + cm_len col \<le> cm_offset (cols ! k) \<and> nat (cm_offset (cols ! k)) - nat (off + cm_len col) + nat (cm_len (cols ! k)) \<le> length (concat ys)"
      by (rule Cons.IH [OF c(3) xs(2)]) (use Cons.prems(3-5) xs Suc c(2) in auto)
    then have "nat (cm_offset (cols ! k)) - nat off = length x + (nat (cm_offset (cols ! k)) - nat (off + cm_len col))"
      using x c(2) Cons.prems(5) by (simp add: nat_add_distrib) linarith
    then show ?thesis using k xs Suc c(2) by (simp add: slice_def)
  qed
qed simp

text \<open>A tuple that has room for the columns of its executor.\<close>

definition fits_cols :: "ColMeta list \<Rightarrow> nat \<Rightarrow> bool" where
  "fits_cols cols len \<longleftrightarrow> (\<forall>c \<in> set cols. 0 \<le> cm_len c \<and> 0 \<le> cm_offset c \<and> nat (cm_offset c) + nat (cm_len c) \<le> len)"

text \<open>A selected column, found in the columns \<open>prev\<close> of tuples of length \<open>len\<close>, and its column \<open>c\<close> of the projection.\<close>

definition picks :: "ColMeta list \<Rightarrow> nat \<Rightarrow> TabCol \<Rightarrow> ColMeta \<Rightarrow> ColMeta \<Rightarrow> bool" where
  "picks prev len sel col c \<longleftrightarrow>
     find_col prev sel = Inr col \<and> col \<in> set prev \<and> cm_len c = cm_len col \<and> cm_type c = cm_type col \<and> 0 \<le> cm_len col \<and>
     nat (cm_offset col) + nat (cm_len col) \<le> len \<and> 0 \<le> cm_offset col"

lemma projection_made:
  assumes c: "ProjectionExecutor P rid prev sels names = Inr st" and f: "fits_cols (exec_cols P prev) (tupleLen P prev)"
  shows "pr_prev st = prev" and "length (pr_sel_idxs st) = length sels" and "length (pr_cols st) = length sels"
    and "packed 0 (pr_cols st)" and "pr_len st = cols_len (pr_cols st)"
    and "\<And>i. i < length sels \<Longrightarrow> picks (exec_cols P prev) (tupleLen P prev) (sels ! i) (exec_cols P prev ! (pr_sel_idxs st ! i)) (pr_cols st ! i)"
proof -
  let ?prev = "exec_cols P prev"
  obtain idxs cs len where s: "proj_select ?prev sels 0 = Inr (idxs, cs, len)" and r: "proj_rename cs names = Inr (pr_cols st)"
    and st: "pr_prev st = prev" "pr_len st = len" "pr_sel_idxs st = idxs"
    using c by (auto simp: ProjectionExecutor_def split: sum.splits)
  have "\<forall>c \<in> set ?prev. 0 \<le> cm_len c" using f by (simp add: fits_cols_def)
  note sel = proj_select_ok [OF s this] and ren = proj_rename_ok [OF r, of 0]
  show "pr_prev st = prev" "length (pr_sel_idxs st) = length sels" "length (pr_cols st) = length sels"
    "packed 0 (pr_cols st)" "pr_len st = cols_len (pr_cols st)" using sel ren st by simp_all
  show "picks ?prev (tupleLen P prev) (sels ! i) (?prev ! (pr_sel_idxs st ! i)) (pr_cols st ! i)" if "i < length sels" for i
    using sel ren st f that by (simp add: picks_def fits_cols_def)
qed

text \<open>A projected tuple is the selected columns of the child's tuple, one after the other.\<close>

lemma proj_tuple_concat:
  assumes c: "ProjectionExecutor P rid prev sels names = Inr st" and f: "fits_cols (exec_cols P prev) (tupleLen P prev)"
    and x: "tupleLen P prev \<le> length x"
  shows "proj_tuple P st x = concat (map (\<lambda>i. slice (nat (cm_offset (exec_cols P prev ! i))) (nat (cm_len (exec_cols P prev ! i))) x) (pr_sel_idxs st))"
proof -
  note m = projection_made [OF c f]
  let ?s = "\<lambda>x i. slice (nat (cm_offset (exec_cols P prev ! i))) (nat (cm_len (exec_cols P prev ! i))) x"
  have "proj_tuple P st x = concat (map (?s (slice 0 (tupleLen P prev) x)) (pr_sel_idxs st))"
    unfolding proj_tuple_def m(1,5) by (subst proj_copy_app [where off = 0]) (use m x in \<open>auto simp: picks_def\<close>)
  also have "map (?s (slice 0 (tupleLen P prev) x)) (pr_sel_idxs st) = map (?s x) (pr_sel_idxs st)"
    using m(2,6) by (intro nth_equalityI) (auto simp: slice_slice picks_def)
  finally show ?thesis .
qed

lemma projected_columns:
  assumes c: "ProjectionExecutor P rid prev sels names = Inr st" and f: "fits_cols (exec_cols P prev) (tupleLen P prev)"
    and x: "tupleLen P prev \<le> length x" and i: "i < length sels"
  shows "\<exists>col. picks (exec_cols P prev) (tupleLen P prev) (sels ! i) col (pr_cols st ! i) \<and>
      nat (cm_offset (pr_cols st ! i)) + nat (cm_len (pr_cols st ! i)) \<le> length (proj_tuple P st x) \<and>
      col_value (pr_cols st ! i) (proj_tuple P st x) = col_value col x"
proof -
  note m = projection_made [OF c f] and t = proj_tuple_concat [OF c f x]
  let ?col = "exec_cols P prev ! (pr_sel_idxs st ! i)"
  let ?xs = "map (\<lambda>i. slice (nat (cm_offset (exec_cols P prev ! i))) (nat (cm_len (exec_cols P prev ! i))) x) (pr_sel_idxs st)"
  have lx: "\<forall>i < length (pr_cols st). length (?xs ! i) = nat (cm_len (pr_cols st ! i))" using m(2,3,6) x by (force simp: picks_def)
  have p: "picks (exec_cols P prev) (tupleLen P prev) (sels ! i) ?col (pr_cols st ! i)" using m(6) i by blast
  have "slice (nat (cm_offset (pr_cols st ! i))) (nat (cm_len (pr_cols st ! i))) (concat ?xs) = ?xs ! i \<and>
      nat (cm_offset (pr_cols st ! i)) + nat (cm_len (pr_cols st ! i)) \<le> length (concat ?xs)"
    using slice_packed [OF m(4) _ lx, of i] i m(2,3) by simp
  then show ?thesis using p i m(2) by (intro exI [of _ ?col]) (simp add: t col_value_def picks_def)
qed

section \<open>The contract\<close>

locale projected = child: cursor same P fresh at seen
  for same :: "'w \<Rightarrow> 'w \<Rightarrow> bool" and P :: "('p, 'w) executor" and fresh at seen
begin

text \<open>The shape of the child does not change, so all tuples are projected alike.\<close>

definition pfresh :: "'p projection \<Rightarrow> 'w \<Rightarrow> RmRecord list \<Rightarrow> bool" where
  "pfresh st w A \<longleftrightarrow> (\<exists>A'. fresh (pr_prev st) w A' \<and> A = map (proj_tuple P st) A')"

definition pat :: "'p projection \<Rightarrow> 'w \<Rightarrow> RmRecord list \<Rightarrow> RmRecord list \<Rightarrow> bool" where
  "pat st w A L \<longleftrightarrow> (\<exists>A' L'. at (pr_prev st) w A' L' \<and> A = map (proj_tuple P st) A' \<and> L = map (proj_tuple P st) L')"

definition pseen :: "'p projection \<Rightarrow> 'w \<Rightarrow> RmRecord list \<Rightarrow> RmRecord list \<Rightarrow> bool" where
  "pseen st w A L \<longleftrightarrow> (\<exists>A' L'. seen (pr_prev st) w A' L' \<and> A = map (proj_tuple P st) A' \<and> L = map (proj_tuple P st) L')"

lemma proj_tuple_shape: "same_shape P (pr_prev st) p \<Longrightarrow> proj_tuple P (st\<lparr>pr_prev := p\<rparr>) = proj_tuple P st"
  by (simp add: proj_tuple_def same_shape_def fun_eq_iff)

lemma proj_tuple_rid [simp]: "proj_tuple P (st\<lparr>pr_prev := p, pr_rid := r\<rparr>) = proj_tuple P (st\<lparr>pr_prev := p\<rparr>)"
  by (simp add: proj_tuple_def fun_eq_iff)

end

sublocale projected \<subseteq> proj: cursor same "Projection P" pfresh pat pseen
proof unfold_locales
  fix st w A
  assume "pfresh st w A"
  then obtain A' where f: "fresh (pr_prev st) w A'" "A = map (proj_tuple P st) A'" by (auto simp: pfresh_def)
  obtain p w' where b: "beginTuple P (pr_prev st) w = Some (Inr p, w')" "same w w'" "at p w' A' A'" "same_shape P (pr_prev st) p"
    using child.begin_law [OF f(1)] by blast
  then show "\<exists>st' w'. beginTuple (Projection P) st w = Some (Inr st', w') \<and> same w w' \<and> pat st' w' A A \<and> same_shape (Projection P) st st'"
    using f(2) proj_tuple_shape [OF b(4)] by (auto simp: Projection_def proj_begin_def pat_def same_shape_def)
next
  fix st w A L
  assume "pat st w A L"
  then show "is_end (Projection P) st = (L = [])" using child.end_law by (auto simp: pat_def Projection_def)
next
  fix st w A x L
  assume "pat st w A (x # L)"
  then obtain A' y L' where a: "at (pr_prev st) w A' (y # L')" "A = map (proj_tuple P st) A'" "x = proj_tuple P st y" "L = map (proj_tuple P st) L'"
    by (auto simp: pat_def)
  obtain p w' where g: "Next P (pr_prev st) w = Some (Inr (Some y, p), w')" "same w w'" "seen p w' A' (y # L')" "same_shape P (pr_prev st) p"
    using child.get_law [OF a(1)] by blast
  then show "\<exists>st' w'. Next (Projection P) st w = Some (Inr (Some x, st'), w') \<and> same w w' \<and> pseen st' w' A (x # L) \<and>
      same_shape (Projection P) st st'"
    using a(2-4) proj_tuple_shape [OF g(4)] by (force simp: Projection_def proj_Next_def pseen_def same_shape_def Let_def)
next
  fix st w A x L
  assume "pat st w A (x # L) \<or> pseen st w A (x # L)"
  then obtain A' y L' where a: "at (pr_prev st) w A' (y # L') \<or> seen (pr_prev st) w A' (y # L')" "A = map (proj_tuple P st) A'" "L = map (proj_tuple P st) L'"
    by (auto simp: pat_def pseen_def)
  obtain p w' where n: "nextTuple P (pr_prev st) w = Some (Inr p, w')" "same w w'" "at p w' A' L'" "same_shape P (pr_prev st) p"
    using child.next_law [OF a(1)] by blast
  then show "\<exists>st' w'. nextTuple (Projection P) st w = Some (Inr st', w') \<and> same w w' \<and> pat st' w' A L \<and> same_shape (Projection P) st st'"
    using a(2,3) proj_tuple_shape [OF n(4)] by (auto simp: Projection_def proj_next_def pat_def same_shape_def)
next
  fix w w' st A L
  assume s: "same w w'"
  show "pfresh st w A \<Longrightarrow> pfresh st w' A" "pat st w A L \<Longrightarrow> pat st w' A L" "pseen st w A L \<Longrightarrow> pseen st w' A L"
    unfolding pfresh_def pat_def pseen_def using child.stable [OF s] by blast+
qed

text \<open>Projections of a table and of a join.\<close>

interpretation seq_proj: projected sm_same SeqScan seq_fresh seq_at seq_at
  by unfold_locales

interpretation join_proj: projected sm_same "NestedLoopJoin SeqScan SeqScan" seq_join.jfresh seq_join.jat seq_join.jseen
  by unfold_locales

text \<open>A list of values that can be stored delivers their images.\<close>

definition value_tuple :: "values_exec \<Rightarrow> Value \<Rightarrow> RmRecord option" where
  "value_tuple st v =
     (case init_raw (ve_mem st) (ve_len st) v of (Inl _, _) \<Rightarrow> None | (Inr _, v) \<Rightarrow> map_option (slice 0 (ve_len st)) (v_raw v))"

definition vfresh :: "('w \<Rightarrow> 'w \<Rightarrow> bool) \<Rightarrow> values_exec \<Rightarrow> 'w \<Rightarrow> RmRecord list \<Rightarrow> bool" where
  "vfresh same st w A \<longleftrightarrow> same w w \<and> map (value_tuple st) (ve_values st) = map Some A"

definition vat :: "('w \<Rightarrow> 'w \<Rightarrow> bool) \<Rightarrow> values_exec \<Rightarrow> 'w \<Rightarrow> RmRecord list \<Rightarrow> RmRecord list \<Rightarrow> bool" where
  "vat same st w A L \<longleftrightarrow> vfresh same st w A \<and> ve_it st \<le> length A \<and> L = drop (ve_it st) A"

lemma vfresh_nth:
  assumes "vfresh same st w A" and "i < length A"
  shows "length (ve_values st) = length A" and "value_tuple st (ve_values st ! i) = Some (A ! i)"
proof -
  have m: "map (value_tuple st) (ve_values st) = map Some A" using assms(1) by (simp add: vfresh_def)
  then show l: "length (ve_values st) = length A" by (metis length_map)
  show "value_tuple st (ve_values st ! i) = Some (A ! i)" using arg_cong [OF m, of "\<lambda>xs. xs ! i"] assms(2) l by simp
qed

lemma vfresh_length: "vfresh same st w A \<Longrightarrow> length (ve_values st) = length A"
  by (metis vfresh_def length_map)

lemma values_Next_ok: "value_tuple st (ve_values st ! ve_it st) = Some x \<Longrightarrow> ve_it st < length (ve_values st) \<Longrightarrow>
    values_Next st w = Some (Inr (Some x, st), w)"
  by (auto simp: value_tuple_def values_Next_def split: prod.splits sum.splits)

lemma value_tuple_it [simp]: "value_tuple (st\<lparr>ve_it := i\<rparr>) = value_tuple st"
  by (rule ext) (simp add: value_tuple_def split: prod.split sum.split)

lemma vfresh_it [simp]: "vfresh same (st\<lparr>ve_it := i\<rparr>) w A = vfresh same st w A"
  by (simp add: vfresh_def)

lemma drop_Cons_conv:
  assumes "drop i A = x # L"
  shows "i < length A" "A ! i = x" "drop (Suc i) A = L"
proof -
  show i: "i < length A" using assms by (metis drop_eq_Nil2 linorder_not_le list.discI)
  show "A ! i = x" "drop (Suc i) A = L" using Cons_nth_drop_Suc [OF i] assms by simp_all
qed

interpretation vals: source sm_same Values "vfresh sm_same" "vat sm_same" "vat sm_same"
proof unfold_locales
  fix st w A
  assume "vfresh sm_same st w A"
  then show "\<exists>st' w'. beginTuple Values st w = Some (Inr st', w') \<and> sm_same w w' \<and> vat sm_same st' w' A A \<and> same_shape Values st st'"
    by (simp add: Values_def vat_def same_shape_def) (simp add: vfresh_def)
next
  fix st w A L
  assume "vat sm_same st w A L"
  then show "is_end Values st = (L = [])" using vfresh_length [of sm_same st w A] by (auto simp: vat_def Values_def)
next
  fix st w A x L
  assume v: "vat sm_same st w A (x # L)"
  then have i: "ve_it st < length A" "A ! ve_it st = x" using drop_Cons_conv [of "ve_it st" A x L] by (auto simp: vat_def)
  with v show "\<exists>st' w'. Next Values st w = Some (Inr (Some x, st'), w') \<and> sm_same w w' \<and> vat sm_same st' w' A (x # L) \<and> same_shape Values st st'"
    using vfresh_nth [of sm_same st w A "ve_it st"] values_Next_ok [of st x w] by (auto simp: Values_def vat_def same_shape_def vfresh_def)
next
  fix st w A x L
  assume "vat sm_same st w A (x # L) \<or> vat sm_same st w A (x # L)"
  then have v: "vat sm_same st w A (x # L)" by simp
  then have "drop (Suc (ve_it st)) A = L" "ve_it st < length A" using drop_Cons_conv [of "ve_it st" A x L] by (auto simp: vat_def)
  with v show "\<exists>st' w'. nextTuple Values st w = Some (Inr st', w') \<and> sm_same w w' \<and> vat sm_same st' w' A L \<and> same_shape Values st st'"
    by (auto simp: Values_def vat_def same_shape_def) (auto simp: vfresh_def)
next
  fix w w' st A L
  assume "sm_same w w'"
  then have "sm_same w' w'" by (rule sm_world.same_target)
  then show "vfresh sm_same st w A \<Longrightarrow> vfresh sm_same st w' A" "vat sm_same st w A L \<Longrightarrow> vat sm_same st w' A L"
    by (simp_all add: vfresh_def vat_def)
next
  fix st w A L
  assume "vat sm_same st w A L \<or> vat sm_same st w A L"
  then show "vfresh sm_same st w A" by (simp add: vat_def)
qed

end
