(* ===== verification/SelectOutput.thy ===== *)
theory SelectOutput
  imports Projection
begin

text \<open>
  What a \<open>SELECT\<close> prints: \<open>RecordPrinter\<close> of \<^verbatim>\<open>record_printer.h\<close>, which writes a table into the reply to the client, and
  \<open>QlManager::select_from\<close> of \<^verbatim>\<open>execution/execution_manager.cpp\<close>, which runs a tree of executors and prints its tuples
  into the reply and into \<^verbatim>\<open>output.txt\<close>. The reply is a buffer of \<open>BUFFER_LENGTH\<close> bytes and the offset of its end in a
  \<open>Context\<close>; the printer stops with \<open>ellipsis_\<close> when the buffer is nearly full.
\<close>

section \<open>Text\<close>

definition BUFFER_LENGTH :: nat where
  "BUFFER_LENGTH = 8192"

definition RECORD_COUNT_LENGTH :: nat where
  "RECORD_COUNT_LENGTH = 40"

definition COL_WIDTH :: nat where
  "COL_WIDTH = 16"

text \<open>
  \<open>std::to_string\<close> of a \<open>float\<close> prints as \<open>%f\<close> does: six decimals of the exact number, rounded to nearest, ties to even.
\<close>

definition six_digits :: "nat \<Rightarrow> string" where
  "six_digits n = map (\<lambda>k. char_of (48 + n div 10 ^ (5 - k) mod 10)) [0..<6]"

definition f32_to_string :: "f32 \<Rightarrow> string" where
  "f32_to_string w =
     (let sign = (if f32_neg w then ''-'' else []);
          micros = round_half_even (nat \<bar>f32_units w\<bar> * 10 ^ 6) (2 ^ 149)
      in if f32_nan w then sign @ ''nan''
         else if f32_abs w = 255 * 2 ^ 23 then sign @ ''inf''
         else sign @ nat_to_string (micros div 10 ^ 6) @ ''.'' @ six_digits (micros mod 10 ^ 6))"

section \<open>RecordPrinter\<close>

record reply =
  data_send :: bytes
  send_offset :: nat
  ellipsis :: bool

definition send :: "bytes \<Rightarrow> reply \<Rightarrow> reply" where
  "send str r = r\<lparr>data_send := memcpy (data_send r) (send_offset r) str, send_offset := send_offset r + length str\<rparr>"

definition fits_reply :: "bytes \<Rightarrow> reply \<Rightarrow> bool" where
  "fits_reply str r \<longleftrightarrow> \<not> ellipsis r \<and> send_offset r + RECORD_COUNT_LENGTH + length str < BUFFER_LENGTH"

definition send_or_stop :: "bytes \<Rightarrow> reply \<Rightarrow> reply" where
  "send_or_stop str r = (if fits_reply str r then send str r else r\<lparr>ellipsis := True\<rparr>)"

definition print_separator :: "nat \<Rightarrow> reply \<Rightarrow> reply" where
  "print_separator num_cols r =
     send_or_stop (string_bytes [CHR ''+'', CHR 0x0A])
       (((send_or_stop (string_bytes (CHR ''+'' # replicate (COL_WIDTH + 2) CHR ''-''))) ^^ num_cols) r)"

text \<open>A column is cut to \<open>COL_WIDTH\<close> and set flush right.\<close>

definition cell :: "bytes \<Rightarrow> bytes" where
  "cell col =
     (let col = (if length col > COL_WIDTH then take (COL_WIDTH - 3) col @ string_bytes ''...'' else col)
      in string_bytes ''| '' @ replicate (COL_WIDTH - length col) 32 @ col @ string_bytes '' '')"

definition print_rec :: "nat \<Rightarrow> bytes list \<Rightarrow> reply \<Rightarrow> (unit, reply) res" where
  "print_rec num_cols rec_str r =
     (if length rec_str \<noteq> num_cols then (Inl (AssertionFailed ''rec_str.size() == num_cols''), r)
      else let r = fold (\<lambda>col. send_or_stop (cell col)) rec_str r;
               str = string_bytes [CHR ''|'', CHR 0x0A]
           in (Inr (), if fits_reply str r then send str r else r))"

definition print_record_count :: "nat \<Rightarrow> reply \<Rightarrow> reply" where
  "print_record_count num_rec r =
     send (string_bytes ((if ellipsis r then ''... ...'' @ [CHR 0x0A] else []) @ ''Total record(s): '' @ to_string (int num_rec) @ [CHR 0x0A])) r"

section \<open>QlManager::select_from\<close>

record select_out =
  out_reply :: reply
  outfile :: bytes
  num_rec :: nat
  output_off :: bool

definition col_str :: "ColMeta \<Rightarrow> RmRecord \<Rightarrow> bytes" where
  "col_str col data =
     (case cm_type col of
        TYPE_INT \<Rightarrow> string_bytes (to_string (load_int data (nat (cm_offset col))))
      | TYPE_FLOAT \<Rightarrow> string_bytes (f32_to_string (word_of_int (load_int data (nat (cm_offset col)))))
      | TYPE_STRING \<Rightarrow> c_str (slice (nat (cm_offset col)) (nat (cm_len col)) data)
      | TYPE_DATETIME \<Rightarrow> [])"

text \<open>A line of \<^verbatim>\<open>output.txt\<close>.\<close>

definition file_line :: "bytes list \<Rightarrow> bytes" where
  "file_line columns =
     string_bytes ''|'' @ concat (map (\<lambda>c. string_bytes '' '' @ c @ string_bytes '' |'') columns) @ string_bytes [CHR 0x0A]"

text \<open>The body of the loop; \<open>output_off_\<close> breaks the loop and is reset.\<close>

definition select_tuple :: "nat \<Rightarrow> ColMeta list \<Rightarrow> RmRecord \<Rightarrow> select_out \<Rightarrow> (bool, select_out) res" where
  "select_tuple num_cols cols data out =
     (let columns = map (\<lambda>col. col_str col data) cols
      in if output_off out then (Inr True, out\<lparr>output_off := False\<rparr>)
         else case print_rec num_cols columns (out_reply out) of
                (Inl e, r) \<Rightarrow> (Inl e, out\<lparr>out_reply := r\<rparr>)
              | (Inr _, r) \<Rightarrow>
                  (Inr False, out\<lparr>out_reply := r, outfile := outfile out @ file_line columns, num_rec := num_rec out + 1\<rparr>))"

definition with_out :: "select_out \<Rightarrow> ('a, 'w) run \<Rightarrow> ('a, select_out \<times> 'w) run" where
  "with_out out r = map_option (\<lambda>(a, w). (a, (out, w))) r"

partial_function (option) select_loop ::
    "('s, 'w) executor \<Rightarrow> nat \<Rightarrow> 's \<Rightarrow> select_out \<times> 'w \<Rightarrow> ('s, select_out \<times> 'w) run" where
  "select_loop P num_cols s ow =
     (if is_end P s then Some (Inr s, ow)
      else bindR (with_out (fst ow) (Next P s (snd ow)))
             (\<lambda>ts ow. case fst ts of
                None \<Rightarrow> Some (Inl NullDereference, ow)
              | Some t \<Rightarrow>
                  (case select_tuple num_cols (exec_cols P (snd ts)) t (fst ow) of
                     (Inl e, out) \<Rightarrow> Some (Inl e, (out, snd ow))
                   | (Inr brk, out) \<Rightarrow>
                       if brk then Some (Inr (snd ts), (out, snd ow))
                       else bindR (with_out out (nextTuple P (snd ts) (snd ow))) (\<lambda>s ow. select_loop P num_cols s ow))))"

definition select_header :: "TabCol list \<Rightarrow> select_out \<Rightarrow> (unit, select_out) res" where
  "select_header sel_cols out =
     (let n = length sel_cols; captions = map (\<lambda>c. string_bytes (tc_col c)) sel_cols
      in if n = 0 then (Inl (AssertionFailed ''num_cols_ > 0''), out)
         else case print_rec n captions (print_separator n (out_reply out)) of
                (Inl e, r) \<Rightarrow> (Inl e, out\<lparr>out_reply := r\<rparr>)
              | (Inr _, r) \<Rightarrow>
                  (Inr (), out\<lparr>out_reply := print_separator n r, outfile := outfile out @ file_line captions, num_rec := 0\<rparr>))"

definition select_footer :: "nat \<Rightarrow> select_out \<Rightarrow> select_out" where
  "select_footer n out = out\<lparr>out_reply := print_record_count (num_rec out) (print_separator n (out_reply out))\<rparr>"

definition select_from ::
    "('s, 'w) executor \<Rightarrow> 's \<Rightarrow> TabCol list \<Rightarrow> select_out \<Rightarrow> 'w \<Rightarrow> ('s, select_out \<times> 'w) run" where
  "select_from P s sel_cols out w =
     (case select_header sel_cols out of
        (Inl e, out) \<Rightarrow> Some (Inl e, (out, w))
      | (Inr _, out) \<Rightarrow>
          bindR (bindR (with_out out (beginTuple P s w)) (select_loop P (length sel_cols)))
            (\<lambda>s ow. Some (Inr s, (select_footer (length sel_cols) (fst ow), snd ow))))"

section \<open>The reply stays within its buffer\<close>

text \<open>Until the count is printed, \<open>RECORD_COUNT_LENGTH\<close> bytes and the final zero are left.\<close>

definition reply_inv :: "reply \<Rightarrow> bool" where
  "reply_inv r \<longleftrightarrow> length (data_send r) = BUFFER_LENGTH \<and> send_offset r + RECORD_COUNT_LENGTH < BUFFER_LENGTH"

lemma send_inv: "reply_inv r \<Longrightarrow> fits_reply str r \<Longrightarrow> reply_inv (send str r)"
  by (simp add: reply_inv_def fits_reply_def send_def)

lemma send_or_stop_inv: "reply_inv r \<Longrightarrow> reply_inv (send_or_stop str r)"
  using send_inv by (simp add: send_or_stop_def) (simp add: reply_inv_def)

lemma print_separator_inv: "reply_inv r \<Longrightarrow> reply_inv (print_separator n r)"
  unfolding print_separator_def by (intro send_or_stop_inv) (induction n; simp add: send_or_stop_inv)

lemma print_rec_inv:
  assumes "reply_inv r"
  shows "reply_inv (snd (print_rec n cols r))"
proof -
  have "reply_inv (fold (\<lambda>col. send_or_stop (cell col)) cols r)"
    using assms by (induction cols arbitrary: r) (simp_all add: send_or_stop_inv)
  then show ?thesis using assms send_inv by (simp add: print_rec_def Let_def)
qed

abbreviation out_inv :: "select_out \<Rightarrow> bool" where
  "out_inv out \<equiv> reply_inv (out_reply out)"

lemma select_tuple_inv:
  assumes "out_inv out" and "select_tuple n cols t out = (x, out')"
  shows "out_inv out'"
  using assms print_rec_inv [OF assms(1), of n "map (\<lambda>col. col_str col t) cols"]
  by (auto simp: select_tuple_def Let_def split: if_splits prod.splits sum.splits)


lemma with_out_Some: "with_out out r = Some x \<Longrightarrow> fst (snd x) = out"
  by (auto simp: with_out_def)

lemma bindR_Some:
  assumes "bindR m f = Some r"
  obtains e w where "m = Some (Inl e, w)" "r = (Inl e, w)" | a w where "m = Some (Inr a, w)" "f a w = Some r"
  using assms by (cases m) (auto simp: bindR_def split: sum.splits prod.splits)

lemma select_loop_inv:
  assumes "select_loop P n s ow = Some r" and "out_inv (fst ow)"
  shows "out_inv (fst (snd r))"
proof -
  let ?inv = "\<lambda>a r. out_inv (fst (snd a)) \<longrightarrow> out_inv (fst (snd r))"
  have "?inv (((P, n), s), ow) r"
  proof (rule select_loop.raw_induct [where Pa = ?inv, OF _ assms(1)], rule impI)
    fix loop P n s ow r
    assume IH: "\<And>P n s ow r. loop P n s ow = Some r \<Longrightarrow> ?inv (((P, n), s), ow) r" and o: "out_inv (fst (snd (((P, n), s), ow)))"
      and run: "(if is_end P s then Some (Inr s, ow)
      else bindR (with_out (fst ow) (Next P s (snd ow)))
             (\<lambda>ts ow. case fst ts of
                None \<Rightarrow> Some (Inl NullDereference, ow)
              | Some t \<Rightarrow>
                  (case select_tuple n (exec_cols P (snd ts)) t (fst ow) of
                     (Inl e, out) \<Rightarrow> Some (Inl e, (out, snd ow))
                   | (Inr brk, out) \<Rightarrow>
                       if brk then Some (Inr (snd ts), (out, snd ow))
                       else bindR (with_out out (nextTuple P (snd ts) (snd ow))) (loop P n)))) = Some r"
    from run o select_tuple_inv [of "fst ow" n] IH show "out_inv (fst (snd r))"
      by (cases r) (auto split: if_splits option.splits sum.splits prod.splits elim!: bindR_Some dest!: with_out_Some; blast)
  qed
  then show ?thesis using assms(2) by simp
qed

text \<open>The decimal image of a number below \<open>10 ^ k\<close> has at most \<open>k\<close> digits.\<close>

lemma nat_to_string_length: "n < 10 ^ Suc k \<Longrightarrow> length (nat_to_string n) \<le> Suc k"
proof (induction k arbitrary: n)
  case 0
  then show ?case by (subst nat_to_string.simps) simp
next
  case (Suc k)
  then have "n div 10 < 10 ^ Suc k" by (simp add: less_mult_imp_div_less)
  from Suc.IH [OF this] show ?case by (subst nat_to_string.simps) simp
qed

lemma print_record_count_fits:
  assumes "reply_inv r" and "n < 10 ^ 14"
  shows "length (data_send (print_record_count n r)) = BUFFER_LENGTH \<and> send_offset (print_record_count n r) < BUFFER_LENGTH"
proof -
  have "length (nat_to_string n) \<le> 14" using nat_to_string_length [of n 13] assms(2) by (simp del: nat_to_string.simps)
  then show ?thesis using assms(1) by (simp add: print_record_count_def send_def reply_inv_def to_string_def RECORD_COUNT_LENGTH_def)
qed

section \<open>The text of a query\<close>

text \<open>The loop over a list of tuples.\<close>

fun select_list :: "nat \<Rightarrow> ColMeta list \<Rightarrow> RmRecord list \<Rightarrow> select_out \<Rightarrow> (unit, select_out) res" where
  "select_list n cols [] out = (Inr (), out)"
| "select_list n cols (t # ts) out =
     (case select_tuple n cols t out of
        (Inl e, out) \<Rightarrow> (Inl e, out)
      | (Inr brk, out) \<Rightarrow> if brk then (Inr (), out) else select_list n cols ts out)"

context cursor
begin

lemma select_loop_list:
  assumes "at s w A L" and "same w w" and "exec_cols ops s = cols"
  shows "\<exists>s' w'. select_loop ops n s (out, w) =
      Some (case fst (select_list n cols L out) of Inl e \<Rightarrow> Inl e | Inr _ \<Rightarrow> Inr s', (snd (select_list n cols L out), w')) \<and> same w w'"
  using assms
proof (induction L arbitrary: s w out)
  case Nil
  then show ?case using end_law [OF Nil(1)] by (subst select_loop.simps) auto
next
  case (Cons x L)
  obtain s1 w1 where g: "Next ops s w = Some (Inr (Some x, s1), w1)" "same w w1" "seen s1 w1 A (x # L)" "exec_cols ops s1 = cols"
    using get_law [OF Cons.prems(1)] Cons.prems(3) by (auto simp: same_shape_def)
  obtain s2 w2 where n: "nextTuple ops s1 w1 = Some (Inr s2, w2)" "same w1 w2" "at s2 w2 A L" "exec_cols ops s2 = cols"
    using next_law [OF disjI2 [OF g(3)]] g(4) by (auto simp: same_shape_def)
  have e: "\<not> is_end ops s" using end_law [OF Cons.prems(1)] by simp
  have run: "select_loop ops n s (out, w) =
      (case select_tuple n cols x out of (Inl e, out) \<Rightarrow> Some (Inl e, (out, w1))
       | (Inr brk, out) \<Rightarrow> if brk then Some (Inr s1, (out, w1)) else select_loop ops n s2 (out, w2))"
    using e g(1,4) n(1) by (subst select_loop.simps) (simp add: with_out_def split: sum.split prod.split)
  obtain r o' where st: "select_tuple n cols x out = (r, o')" by fastforce
  obtain s' w' where "select_loop ops n s2 (o', w2) =
      Some (case fst (select_list n cols L o') of Inl e \<Rightarrow> Inl e | Inr _ \<Rightarrow> Inr s', (snd (select_list n cols L o'), w'))" "same w2 w'"
    using Cons.IH [OF n(3) same_target [OF n(2)] n(4)] by blast
  then show ?case using run st g(2) same_trans [OF same_trans [OF g(2) n(2)]] by (cases r) auto
qed

end

text \<open>With as many columns as captions and the output on, every tuple gives a line.\<close>

lemma select_list_lines:
  assumes "length cols = n" and "\<not> output_off out"
  shows "fst (select_list n cols L out) = Inr () \<and> \<not> output_off (snd (select_list n cols L out)) \<and>
     outfile (snd (select_list n cols L out)) = outfile out @ concat (map (\<lambda>t. file_line (map (\<lambda>c. col_str c t) cols)) L) \<and>
     num_rec (snd (select_list n cols L out)) = num_rec out + length L"
  using assms(2)
proof (induction L arbitrary: out)
  case (Cons t L)
  obtain r where p: "print_rec n (map (\<lambda>c. col_str c t) cols) (out_reply out) = (Inr (), r)"
    using assms(1) by (simp add: print_rec_def Let_def)
  show ?case using Cons.IH Cons.prems by (simp add: select_tuple_def Let_def p)
qed simp

lemma select_header_ok:
  assumes "sels \<noteq> []"
  shows "\<exists>r. select_header sels out = (Inr (), out\<lparr>out_reply := r, outfile := outfile out @ file_line (map (\<lambda>c. string_bytes (tc_col c)) sels), num_rec := 0\<rparr>)"
proof -
  obtain r where "print_rec (length sels) (map (\<lambda>c. string_bytes (tc_col c)) sels) (print_separator (length sels) (out_reply out)) = (Inr (), r)"
    by (simp add: print_rec_def Let_def)
  then show ?thesis using assms by (simp add: select_header_def Let_def) blast
qed

text \<open>The text of a value, which is what is printed for a column whose numbers take four bytes.\<close>

definition value_text :: "Value \<Rightarrow> bytes" where
  "value_text v =
     (case v_type v of
        TYPE_INT \<Rightarrow> string_bytes (to_string (int_val v))
      | TYPE_FLOAT \<Rightarrow> string_bytes (f32_to_string (float_val v))
      | TYPE_STRING \<Rightarrow> str_val v
      | TYPE_DATETIME \<Rightarrow> [])"

definition numbers_fit :: "ColMeta \<Rightarrow> bool" where
  "numbers_fit c \<longleftrightarrow> (cm_type c = TYPE_INT \<or> cm_type c = TYPE_FLOAT \<longrightarrow> cm_len c = 4)"

lemma col_str_value:
  assumes "numbers_fit c" and "nat (cm_offset c) + nat (cm_len c) \<le> length t"
  shows "col_str c t = value_text (col_value c t)"
proof -
  have l: "load_int (slice (nat (cm_offset c)) 4 t) 0 = load_int t (nat (cm_offset c))"
    by (simp add: load_int_def slice_def)
  have "int32 (load_int t (nat (cm_offset c)))" if "cm_type c = TYPE_INT"
    using assms that int32_load_int [of "nat (cm_offset c)" t] by (simp add: numbers_fit_def)
  then show ?thesis using assms(1) l sint_of_int32
    by (cases "cm_type c") (auto simp: col_str_def value_text_def col_value_def numbers_fit_def int_val_def float_val_def Let_def)
qed

text \<open>The line of a projected tuple has the values of the columns in the tuple of the child.\<close>

lemma projected_line:
  assumes c: "ProjectionExecutor P rid prev sels names = Inr st" and f: "fits_cols (exec_cols P prev) (tupleLen P prev)"
    and x: "tupleLen P prev \<le> length x" and n: "\<forall>c \<in> set (exec_cols P prev). numbers_fit c"
  shows "map (\<lambda>c. col_str c (proj_tuple P st x)) (pr_cols st) = map (\<lambda>sel. value_text (col_value (projr (find_col (exec_cols P prev) sel)) x)) sels"
proof -
  have len: "length (pr_cols st) = length sels" by (rule projection_made(3) [OF c f])
  have "col_str (pr_cols st ! i) (proj_tuple P st x) = value_text (col_value (projr (find_col (exec_cols P prev) (sels ! i))) x)"
    if i: "i < length sels" for i
  proof -
    obtain col where col: "picks (exec_cols P prev) (tupleLen P prev) (sels ! i) col (pr_cols st ! i)"
      "nat (cm_offset (pr_cols st ! i)) + nat (cm_len (pr_cols st ! i)) \<le> length (proj_tuple P st x)"
      "col_value (pr_cols st ! i) (proj_tuple P st x) = col_value col x"
      using projected_columns [OF c f x i] by blast
    then have "numbers_fit (pr_cols st ! i)" using n by (auto simp: picks_def numbers_fit_def)
    then show ?thesis using col col_str_value by (simp add: picks_def)
  qed
  then show ?thesis using len by (intro nth_equalityI) auto
qed

text \<open>A query over any child of the projection.\<close>

context projected
begin

lemma select_projected:
  assumes "fresh s w A" and c: "ProjectionExecutor P rid s sels names = Inr st" and f: "fits_cols (exec_cols P s) (tupleLen P s)"
    and x: "\<forall>x \<in> set A. tupleLen P s \<le> length x" and n: "\<forall>c \<in> set (exec_cols P s). numbers_fit c"
    and l: "length caps = length sels" "sels \<noteq> []" and o: "\<not> output_off out"
  shows "\<exists>st' out' w'. select_from (Projection P) st caps out w = Some (Inr st', (out', w')) \<and> same w w' \<and>
     outfile out' = outfile out @ file_line (map (\<lambda>c. string_bytes (tc_col c)) caps) @
       concat (map (\<lambda>x. file_line (map (\<lambda>sel. value_text (col_value (projr (find_col (exec_cols P s) sel)) x)) sels)) A) \<and>
     num_rec out' = length A"
proof -
  have st: "pr_prev st = s" using c by (auto simp: ProjectionExecutor_def split: sum.splits)
  have "pfresh st w (map (proj_tuple P st) A)" using assms(1) st by (auto simp: pfresh_def)
  then obtain s1 w1 where b: "beginTuple (Projection P) st w = Some (Inr s1, w1)" "same w w1" "pat s1 w1 (map (proj_tuple P st) A) (map (proj_tuple P st) A)"
    "exec_cols (Projection P) s1 = pr_cols st" using proj.begin_law by (force simp: same_shape_def Projection_def)
  have "caps \<noteq> []" using l by auto
  then obtain r where h: "select_header caps out =
      (Inr (), out\<lparr>out_reply := r, outfile := outfile out @ file_line (map (\<lambda>c. string_bytes (tc_col c)) caps), num_rec := 0\<rparr>)"
    using select_header_ok [of caps out] by blast
  let ?out = "out\<lparr>out_reply := r, outfile := outfile out @ file_line (map (\<lambda>c. string_bytes (tc_col c)) caps), num_rec := 0\<rparr>"
  have len: "length (pr_cols st) = length caps" using projection_made(3) [OF c f] l(1) by simp
  note lines = select_list_lines [OF len, of ?out "map (proj_tuple P st) A"]
  obtain s2 w2 where lp: "select_loop (Projection P) (length caps) s1 (?out, w1) =
      Some (Inr s2, (snd (select_list (length caps) (pr_cols st) (map (proj_tuple P st) A) ?out), w2))" "same w1 w2"
    using proj.select_loop_list [OF b(3) child.same_target [OF b(2)] b(4), of "length caps" ?out] lines o by auto
  have tl: "file_line (map (\<lambda>c. col_str c (proj_tuple P st x)) (pr_cols st)) =
      file_line (map (\<lambda>sel. value_text (col_value (projr (find_col (exec_cols P s) sel)) x)) sels)" if "x \<in> set A" for x
    using projected_line [OF c f _ n, of x] x that by simp
  then have "concat (map (\<lambda>t. file_line (map (\<lambda>c. col_str c t) (pr_cols st))) (map (proj_tuple P st) A)) =
      concat (map (\<lambda>x. file_line (map (\<lambda>sel. value_text (col_value (projr (find_col (exec_cols P s) sel)) x)) sels)) A)"
    by (intro arg_cong [where f = concat]) (simp cong: map_cong)
  then show ?thesis using b(1) h lp lines o child.same_trans [OF b(2) lp(2)]
    by (simp add: select_from_def with_out_def select_footer_def)
qed

end

section \<open>Properties\<close>

text \<open>
  C35: the reply never leaves its buffer. Whatever the executors do, when \<open>select_from\<close> ends, with or without an
  exception, it has written within the \<open>BUFFER_LENGTH\<close> bytes of the reply that \<open>client_handler\<close> clears before each
  statement, and the offset, up to and with which \<open>client_handler\<close> sends the bytes, lies in the buffer; this holds for
  up to \<open>10 ^ 14\<close> records, whose number fits into the \<open>RECORD_COUNT_LENGTH\<close> bytes kept for it.
\<close>

theorem select_reply_in_buffer:
  assumes "data_send (out_reply out) = memset BUFFER_LENGTH 0" and "send_offset (out_reply out) = 0"
    and "select_from P s sel_cols out w = Some (r, (out', w'))" and "num_rec out' < 10 ^ 14"
  shows "length (data_send (out_reply out')) = BUFFER_LENGTH \<and> send_offset (out_reply out') < BUFFER_LENGTH"
proof -
  let ?caps = "map (\<lambda>c. string_bytes (tc_col c)) sel_cols"
  have start: "out_inv out" using assms(1,2) by (simp add: reply_inv_def RECORD_COUNT_LENGTH_def BUFFER_LENGTH_def)
  have weak: "out_inv o' \<Longrightarrow> length (data_send (out_reply o')) = BUFFER_LENGTH \<and> send_offset (out_reply o') < BUFFER_LENGTH" for o'
    by (simp add: reply_inv_def)
  obtain h o1 where hd: "select_header sel_cols out = (h, o1)" by fastforce
  have "reply_inv (snd (print_rec (length sel_cols) ?caps (print_separator (length sel_cols) (out_reply out))))"
    by (intro print_rec_inv print_separator_inv start)
  then have i1: "out_inv o1" using hd start print_separator_inv
    by (auto simp: select_header_def Let_def split: if_splits prod.splits sum.splits)
  show ?thesis
  proof (cases h)
    case (Inl e)
    then show ?thesis using assms(3) hd weak [OF i1] by (simp add: select_from_def)
  next
    case (Inr u)
    let ?run = "bindR (with_out o1 (beginTuple P s w)) (select_loop P (length sel_cols))"
    have i2: "out_inv (fst (snd x))" if "?run = Some x" for x
      using that i1 select_loop_inv [of P "length sel_cols"] by (cases x) (auto elim!: bindR_Some dest!: with_out_Some)
    have "bindR ?run (\<lambda>s ow. Some (Inr s, (select_footer (length sel_cols) (fst ow), snd ow))) = Some (r, (out', w'))"
      using assms(3) hd Inr by (simp add: select_from_def)
    then show ?thesis
    proof (cases rule: bindR_Some)
      case (1 e ow)
      then show ?thesis using i2 [OF 1(1)] weak by auto
    next
      case (2 a ow)
      then show ?thesis using i2 [OF 2(1)] assms(4) print_record_count_fits [OF print_separator_inv]
        by (auto simp: select_footer_def)
    qed
  qed
qed

text \<open>
  C14: what a query over a table prints. For a sequential scan of well-typed conditions under a projection, with granted
  locks and the output on, \<open>select_from\<close> appends to \<^verbatim>\<open>output.txt\<close> the captions and one line for each record that satisfies
  the conditions, in the order of the record ids, with the text of the selected columns in the order of the select list;
  it counts these records and changes no table.
\<close>

theorem select_prints_selected:
  assumes "sm_inv sm" and "SeqScanExecutor junk sm tab conds ctx = Inr st" and "locks_granted ctx tab sm"
    and "\<forall>cond \<in> set conds. cond_typed (ts_cols st) cond"
    and "fits_cols (ts_cols st) (ts_len st)" and "\<forall>c \<in> set (ts_cols st). numbers_fit c" and "\<forall>x \<in> set (table_rows sm tab). length x = ts_len st"
    and "ProjectionExecutor SeqScan rid st sels names = Inr p" and "length caps = length sels" and "sels \<noteq> []" and "\<not> output_off out"
  shows "\<exists>p' out' sm'. select_from (Projection SeqScan) p caps out sm = Some (Inr p', (out', sm')) \<and>
     outfile out' = outfile out @ file_line (map (\<lambda>c. string_bytes (tc_col c)) caps) @
       concat (map (\<lambda>x. file_line (map (\<lambda>sel. value_text (col_value (projr (find_col (ts_cols st) sel)) x)) sels)) (selected sm tab (ts_cols st) conds)) \<and>
     num_rec out' = length (selected sm tab (ts_cols st) conds) \<and> sm_same sm sm'"
proof -
  have s: "exec_cols SeqScan st = ts_cols st" "tupleLen SeqScan st = ts_len st" by (simp_all add: SeqScan_def)
  have x: "\<forall>x \<in> set (selected sm tab (ts_cols st) conds). tupleLen SeqScan st \<le> length x" using assms(7) by (simp add: selected_def s)
  show ?thesis using seq_proj.select_projected [OF seq_scan_fresh [OF assms(1-4)] assms(8) _ x _ assms(9-11)] assms(5,6) unfolding s by blast
qed

text \<open>\<open>SELECT a FROM t WHERE a > 7\<close> over a table with the record 67305985.\<close>

definition sample_out :: select_out where
  "sample_out = \<lparr>out_reply = \<lparr>data_send = memset BUFFER_LENGTH 0, send_offset = 0, ellipsis = False\<rparr>, outfile = [], num_rec = 0, output_off = False\<rparr>"

definition sample_proj :: "seq_scan projection" where
  "sample_proj = \<lparr>pr_prev = sample_scan ''t'' [sample_cond], pr_cols = [sample_col ''a'' 0], pr_len = 4, pr_sel_idxs = [0], pr_rid = Rid 0 0\<rparr>"

lemma sample_proj_constructed:
  "ProjectionExecutor SeqScan (Rid 0 0) (sample_scan ''t'' [sample_cond]) [TabCol ''t'' ''a''] [] = Inr sample_proj"
  by (simp add: ProjectionExecutor_def SeqScan_def sample_scan_def sample_col_def sample_proj_def find_col_pos_def)

lemma sample_text: "value_text (col_value (sample_col ''a'' 0) [1, 2, 3, 4]) = string_bytes ''67305985''"
proof -
  have "value_text (col_value (sample_col ''a'' 0) [1, 2, 3, 4]) = string_bytes (map char_of [54, 55, 51, 48, 53, 57, 56, 53 :: nat])"
    by (simp add: value_text_def col_value_def sample_col_def Let_def int_val_def load_int_def slice_def bytes_int_def to_string_def
        nat_to_string.simps)
  also have "map char_of [54, 55, 51, 48, 53, 57, 56, 53 :: nat] = ''67305985''" by code_simp
  finally show ?thesis .
qed

lemma sample_query:
  fixes rm
  assumes "rm_inv rm" and "rm_map rm = [r \<mapsto> [1, 2, 3, 4]]"
  shows "locks_granted granting ''t'' (sample_sm rm)" "\<forall>cond \<in> set [sample_cond]. cond_typed (ts_cols (sample_scan ''t'' [sample_cond])) cond"
    "fits_cols (ts_cols (sample_scan ''t'' [sample_cond])) (ts_len (sample_scan ''t'' [sample_cond]))"
    "\<forall>c \<in> set (ts_cols (sample_scan ''t'' [sample_cond])). numbers_fit c"
    "\<forall>x \<in> set (table_rows (sample_sm rm) ''t''). length x = ts_len (sample_scan ''t'' [sample_cond])"
    "selected (sample_sm rm) ''t'' (ts_cols (sample_scan ''t'' [sample_cond])) [sample_cond] = [[1, 2, 3, 4]]"
proof -
  show "\<forall>cond \<in> set [sample_cond]. cond_typed (ts_cols (sample_scan ''t'' [sample_cond])) cond" by code_simp
  show "selected (sample_sm rm) ''t'' (ts_cols (sample_scan ''t'' [sample_cond])) [sample_cond] = [[1, 2, 3, 4]]"
    using sample_cond_holds by (simp add: selected_def sample_sm_rows [OF assms] sample_scan_def)
qed (simp_all add: locks_granted_def granting_def fits_cols_def numbers_fit_def sample_scan_def sample_col_def sample_sm_rows [OF assms])

theorem select_prints_selected_witness:
  "\<exists>sm p' out' sm'. select_from (Projection SeqScan) sample_proj [TabCol ''t'' ''a''] sample_out sm = Some (Inr p', (out', sm')) \<and>
     outfile out' = string_bytes (''| a |'' @ [CHR 0x0A] @ ''| 67305985 |'' @ [CHR 0x0A])"
proof -
  let ?st = "sample_scan ''t'' [sample_cond]" and ?a = "[TabCol ''t'' ''a'']"
  obtain r rm where rm: "rm_inv rm" "rm_map rm = [r \<mapsto> [1, 2, 3, 4]]" by (rule sample_inserted)
  note q = sample_query [OF rm]
  have off: "\<not> output_off sample_out" and f: "projr (find_col (ts_cols ?st) (TabCol ''t'' ''a'')) = sample_col ''a'' 0"
    by (simp_all add: sample_out_def find_col_def sample_scan_def sample_col_def)
  obtain p' out' sm' where "select_from (Projection SeqScan) sample_proj ?a sample_out (sample_sm rm) = Some (Inr p', (out', sm'))"
    "outfile out' = outfile sample_out @ file_line (map (\<lambda>c. string_bytes (tc_col c)) ?a) @
       concat (map (\<lambda>x. file_line (map (\<lambda>sel. value_text (col_value (projr (find_col (ts_cols ?st) sel)) x)) ?a)) [[1, 2, 3, 4]])"
    using select_prints_selected [OF sample_sm_inv [OF rm(1)] sample_scan_constructed q(1-5) sample_proj_constructed refl _ off, unfolded q(6)]
    by blast
  then show ?thesis
    by (intro exI [of _ "sample_sm rm"] exI [of _ p'] exI [of _ out'] exI [of _ sm']) (simp add: f sample_text file_line_def sample_out_def string_bytes_def)
qed

theorem select_reply_in_buffer_witness:
  "\<exists>sm p' out' sm'. select_from (Projection SeqScan) sample_proj [TabCol ''t'' ''a''] sample_out sm = Some (Inr p', (out', sm')) \<and>
     length (data_send (out_reply out')) = 8192 \<and> send_offset (out_reply out') < 8192"
proof -
  let ?a = "[TabCol ''t'' ''a'']"
  obtain r rm where rm: "rm_inv rm" "rm_map rm = [r \<mapsto> [1, 2, 3, 4]]" by (rule sample_inserted)
  note q = sample_query [OF rm]
  have off: "\<not> output_off sample_out" by (simp add: sample_out_def)
  note fresh = seq_scan_fresh [OF sample_sm_inv [OF rm(1)] sample_scan_constructed q(1,2), unfolded q(6)]
  have "exec_cols SeqScan (sample_scan ''t'' [sample_cond]) = ts_cols (sample_scan ''t'' [sample_cond])"
    "tupleLen SeqScan (sample_scan ''t'' [sample_cond]) = ts_len (sample_scan ''t'' [sample_cond])" by (simp_all add: SeqScan_def)
  then obtain p' out' sm' where run: "select_from (Projection SeqScan) sample_proj ?a sample_out (sample_sm rm) = Some (Inr p', (out', sm'))"
    "num_rec out' = 1"
    using seq_proj.select_projected [OF fresh sample_proj_constructed _ _ _ refl _ off] q(3,4) by (auto simp: sample_scan_def)
  then show ?thesis
    using select_reply_in_buffer [of sample_out "Projection SeqScan" sample_proj ?a "sample_sm rm" "Inr p'" out' sm']
    by (intro exI [of _ "sample_sm rm"] exI [of _ p'] exI [of _ out'] exI [of _ sm']) (simp add: sample_out_def BUFFER_LENGTH_def)
qed

end
