(* ===== verification/Subquery.thy ===== *)
theory Subquery
  imports SelectOutput
begin

text \<open>
  \<open>SubqueryExecutor\<close> of \<^verbatim>\<open>execution/execution_subquery.h\<close>: a scan of a table with a condition that compares a column with the
  results of a subquery. The constructor runs the subquery; the scan is the one of \<open>SeqScanExecutor\<close> with
  another condition. The class never sets \<open>context_\<close>, so the context is what its memory holds.
\<close>

section \<open>The executor\<close>

record subquery = table_scan +
  sq_conds :: "Condition list"
  sq_clause :: SubQueryClause
  sq_results :: "Value list"
  sq_context :: exec_context

text \<open>
  The value of a result of the subquery. The cases of the switch fall through, which is harmless since the integer and
  the float share their memory; \<open>std::string(record->data)\<close> ends at the first zero byte, which may lie in the memory
  \<open>past\<close> behind the record.
\<close>

definition sub_value :: "bytes \<Rightarrow> bytes \<Rightarrow> ColMeta \<Rightarrow> RmRecord \<Rightarrow> rmdb_error + Value" where
  "sub_value mem past col data =
     (let value = \<lparr>v_type = cm_type col,
            v_num = (if cm_type col = TYPE_INT \<or> cm_type col = TYPE_FLOAT then word_of_int (load_int data 0) else 0),
            str_val = (if cm_type col = TYPE_DATETIME then [] else c_str (data @ past)), v_raw = None\<rparr>
      in case init_raw mem (nat (cm_len col)) value of (Inl e, _) \<Rightarrow> Inl e | (Inr _, value) \<Rightarrow> Inr value)"

definition sub_push :: "bytes \<Rightarrow> bytes \<Rightarrow> ColMeta \<Rightarrow> RmRecord \<Rightarrow> Value list \<Rightarrow> rmdb_error + bool \<times> Value list" where
  "sub_push mem past col data results =
     (case sub_value mem past col data of Inl e \<Rightarrow> Inl e | Inr value \<Rightarrow> Inr (False, results @ [value]))"

definition SubqueryExecutor ::
    "subquery \<Rightarrow> bytes \<Rightarrow> bytes \<Rightarrow> ('q, sm_manager) executor \<Rightarrow> string \<Rightarrow> Condition list \<Rightarrow> SubQueryClause \<Rightarrow> 'q \<Rightarrow> sm_manager \<Rightarrow>
      (subquery, sm_manager) run" where
  "SubqueryExecutor junk mem past Q tab_name conds clause q sm =
     (case get_table (sm_db sm) tab_name of
        Inl e \<Rightarrow> Some (Inl e, sm)
      | Inr tab \<Rightarrow>
          if sm_fhs sm tab_name = None then Some (Inl OutOfRange, sm)
          else if tm_cols tab = [] then Some (Inl NullDereference, sm)
          else (case exec_cols Q q of
                  [col] \<Rightarrow>
                    (case get_col tab (tc_col (sq_lhs clause)) of
                       Inl e \<Rightarrow> Some (Inl e, sm)
                     | Inr left \<Rightarrow>
                         if \<not> TypeCompatible (cm_type left) (cm_type col)
                         then Some (Inl (IncompatibleTypeError (coltype2str (cm_type left)) (coltype2str (cm_type col))), sm)
                         else bindR (for_tuples Q (sub_push mem past col) [] q sm)
                                (\<lambda>(results, q) sm.
                                   if \<not> in_clause clause \<and> length results \<noteq> 1
                                   then Some (Inl (InternalError ''Can't compare results from subquery longer than one''), sm)
                                   else Some (Inr (junk\<lparr>ts_tab := tab_name, ts_cols := tm_cols tab,
                                          ts_len := nat (cm_offset (last (tm_cols tab)) + cm_len (last (tm_cols tab))), ts_scan := None,
                                          sq_conds := conds, sq_clause := clause, sq_results := results\<rparr>), sm)))
                | _ \<Rightarrow> Some (Inl (InternalError ''Subquery return data longer than one''), sm)))"

text \<open>\<open>find_if\<close> over the results.\<close>

fun in_results :: "Value \<Rightarrow> Value list \<Rightarrow> rmdb_error + bool" where
  "in_results left [] = Inr False"
| "in_results left (r # rs) =
     (case ValueComp left r OP_EQ of Inl e \<Rightarrow> Inl e | Inr b \<Rightarrow> if b then Inr True else in_results left rs)"

definition eval_subquery :: "subquery \<Rightarrow> RmRecord \<Rightarrow> rmdb_error + bool" where
  "eval_subquery st tuple =
     (case getValue (ts_cols st) (sq_lhs (sq_clause st)) tuple of
        Inl e \<Rightarrow> Inl e
      | Inr left \<Rightarrow>
          if in_clause (sq_clause st) then in_results left (sq_results st)
          else case sq_results st of [] \<Rightarrow> Inl NullDereference | r # _ \<Rightarrow> ValueComp left r (sq_op (sq_clause st)))"

definition subquery_condition :: "subquery \<Rightarrow> RmRecord \<Rightarrow> rmdb_error + bool" where
  "subquery_condition st tuple =
     (case eval_subquery st tuple of
        Inl e \<Rightarrow> Inl e
      | Inr b \<Rightarrow> if \<not> b then Inr False else eval_conds (\<lambda>cond l r. ValueComp l r (c_op cond)) (ts_cols st) (sq_conds st) tuple)"

definition SubqueryScan :: "(subquery, sm_manager) executor" where
  "SubqueryScan =
     \<lparr>beginTuple = (\<lambda>st. scan_begin (sq_context st) (subquery_condition st) st),
      nextTuple = (\<lambda>st. scan_advance (sq_context st) (subquery_condition st) st),
      is_end = ts_end,
      Next = (\<lambda>st. scan_tuple (sq_context st) st),
      exec_rid = ts_rid,
      exec_cols = ts_cols,
      tupleLen = ts_len\<rparr>"

section \<open>The contract\<close>

abbreviation sub_fresh :: "subquery \<Rightarrow> sm_manager \<Rightarrow> RmRecord list \<Rightarrow> bool" where
  "sub_fresh st \<equiv> scan_fresh (sq_context st) (subquery_condition st) st"

abbreviation sub_at :: "subquery \<Rightarrow> sm_manager \<Rightarrow> RmRecord list \<Rightarrow> RmRecord list \<Rightarrow> bool" where
  "sub_at st \<equiv> scan_pos (sq_context st) (subquery_condition st) st"

lemma subquery_more:
  assumes "table_scan.more st' = table_scan.more st" and "ts_cols st' = ts_cols st"
  shows "sq_context st' = sq_context st \<and> subquery_condition st' = subquery_condition st"
proof -
  have f: "sq_conds st' = sq_conds st" "sq_clause st' = sq_clause st" "sq_results st' = sq_results st" "sq_context st' = sq_context st"
    using assms by (cases st; cases st'; simp)+
  show ?thesis unfolding fun_eq_iff subquery_condition_def eval_subquery_def f assms(2) by simp
qed

interpretation sub: source sm_same SubqueryScan sub_fresh sub_at sub_at
proof unfold_locales
  fix st sm A
  assume "sub_fresh st sm A"
  then obtain st' sm' where b: "scan_begin (sq_context st) (subquery_condition st) st sm = Some (Inr st', sm')" "sm_same sm sm'"
    "scan_pos (sq_context st) (subquery_condition st) st' sm' A A" "table_scan.more st' = table_scan.more st" "ts_cols st' = ts_cols st"
    "ts_len st' = ts_len st" by (rule scan_begin_ok)
  then show "\<exists>st' sm'. beginTuple SubqueryScan st sm = Some (Inr st', sm') \<and> sm_same sm sm' \<and> sub_at st' sm' A A \<and>
      same_shape SubqueryScan st st'" using subquery_more [OF b(4,5)] by (simp add: SubqueryScan_def same_shape_def)
next
  fix st sm A L
  assume "sub_at st sm A L"
  then show "is_end SubqueryScan st = (L = [])" by (auto simp: SubqueryScan_def scan_pos_def split: if_splits)
next
  fix st sm A x L
  assume "sub_at st sm A (x # L)"
  then show "\<exists>st' sm'. Next SubqueryScan st sm = Some (Inr (Some x, st'), sm') \<and> sm_same sm sm' \<and> sub_at st' sm' A (x # L) \<and>
      same_shape SubqueryScan st st'" by (rule scan_tuple_ok) (auto simp: SubqueryScan_def same_shape_def)
next
  fix st sm A x L
  assume "sub_at st sm A (x # L) \<or> sub_at st sm A (x # L)"
  then have "sub_at st sm A (x # L)" by simp
  then obtain st' sm' where b: "scan_advance (sq_context st) (subquery_condition st) st sm = Some (Inr st', sm')" "sm_same sm sm'"
    "scan_pos (sq_context st) (subquery_condition st) st' sm' A L" "table_scan.more st' = table_scan.more st" "ts_cols st' = ts_cols st"
    "ts_len st' = ts_len st" by (rule scan_advance_ok)
  then show "\<exists>st' sm'. nextTuple SubqueryScan st sm = Some (Inr st', sm') \<and> sm_same sm sm' \<and> sub_at st' sm' A L \<and>
      same_shape SubqueryScan st st'" using subquery_more [OF b(4,5)] by (simp add: SubqueryScan_def same_shape_def)
next
  fix sm sm' st A L
  assume s: "sm_same sm sm'"
  show "sub_fresh st sm A \<Longrightarrow> sub_fresh st sm' A" using s by (rule scan_fresh_same)
  show "sub_at st sm A L \<Longrightarrow> sub_at st sm' A L" using s by (rule scan_pos_same)
next
  fix st sm A L
  assume "sub_at st sm A L \<or> sub_at st sm A L"
  then show "sub_fresh st sm A" by (simp add: scan_pos_def)
qed

section \<open>What an IN clause selects\<close>

lemma in_results_meaning:
  assumes "\<forall>r \<in> set rs. comparable (v_type left) (v_type r)"
  shows "in_results left rs = Inr (\<exists>r \<in> set rs. ValueComp left r OP_EQ = Inr True)"
  using assms
proof (induction rs)
  case (Cons r rs)
  obtain b where "ValueComp left r OP_EQ = Inr b" using ValueComp_answers Cons.prems by (metis list.set_intros(1))
  then show ?case using Cons by (cases b) auto
qed simp

lemma sub_push_results:
  assumes "\<forall>x \<in> set A. \<exists>v. sub_value mem past col x = Inr v"
  shows "list_loop (sub_push mem past col) acc A = Inr (acc @ map (\<lambda>x. projr (sub_value mem past col x)) A)"
  using assms
proof (induction A arbitrary: acc)
  case (Cons x A)
  then obtain v where "sub_value mem past col x = Inr v" by auto
  then show ?case using Cons by (simp add: sub_push_def)
qed simp

lemma subquery_condition_in:
  assumes l: "find_col (ts_cols st) (sq_lhs (sq_clause st)) = Inr lc" and i: "in_clause (sq_clause st)"
    and r: "\<forall>r \<in> set (sq_results st). comparable (cm_type lc) (v_type r)"
    and c: "\<forall>cond \<in> set (sq_conds st). cond_typed (ts_cols st) cond"
  shows "subquery_condition st x =
     Inr ((\<exists>r \<in> set (sq_results st). ValueComp (col_value lc x) r OP_EQ = Inr True) \<and> (\<forall>cond \<in> set (sq_conds st). cond_holds (ts_cols st) x cond))"
  using in_results_meaning [of "sq_results st" "col_value lc x"] r eval_conds_meaning [OF refl c]
  by (simp add: subquery_condition_def eval_subquery_def getValue_def l i)

text \<open>
  A result of a projected subquery compares as the column it was projected from, when a string is terminated within its
  column.
\<close>

definition terminated :: "ColMeta \<Rightarrow> RmRecord \<Rightarrow> bool" where
  "terminated c x \<longleftrightarrow> (cm_type c = TYPE_STRING \<longrightarrow> 0 \<in> set (slice (nat (cm_offset c)) (nat (cm_len c)) x))"

lemma c_str_append: "0 \<in> set xs \<Longrightarrow> c_str (xs @ ys) = c_str xs"
  by (auto simp: c_str_def)

lemma c_str_le: "length (c_str xs) \<le> length xs"
  by (simp add: c_str_def length_takeWhile_le)

lemma sub_value_projected:
  assumes c: "ProjectionExecutor P rid prev [sel] names = Inr q" and f: "fits_cols (exec_cols P prev) (tupleLen P prev)"
    and x: "tupleLen P prev \<le> length x" and n: "\<forall>c \<in> set (exec_cols P prev). numbers_fit c"
    and col: "find_col (exec_cols P prev) sel = Inr col" and t: "terminated col x" and d: "cm_type col \<noteq> TYPE_DATETIME"
  shows "\<exists>v. sub_value mem past (hd (pr_cols q)) (proj_tuple P q x) = Inr v \<and> v_type v = cm_type col \<and>
     (\<forall>l op. ValueComp l v op = ValueComp l (col_value col x) op)"
proof -
  have l: "length (pr_cols q) = 1" using projection_made(3) [OF c f] by simp
  then have h: "hd (pr_cols q) = pr_cols q ! 0" by (simp add: hd_conv_nth flip: length_greater_0_conv)
  have p: "picks (exec_cols P prev) (tupleLen P prev) sel col (pr_cols q ! 0)"
    and ix: "exec_cols P prev ! (pr_sel_idxs q ! 0) = col" using projection_made(6) [OF c f, of 0] col by (auto simp: picks_def)
  obtain i where i: "pr_sel_idxs q = [i]" using projection_made(2) [OF c f] by (auto simp: length_Suc_conv)
  have tup: "proj_tuple P q x = slice (nat (cm_offset col)) (nat (cm_len col)) x" using proj_tuple_concat [OF c f x] ix i by simp
  have cs: "c_str (proj_tuple P q x @ past) = c_str (proj_tuple P q x)" if "cm_type col = TYPE_STRING"
    using t that tup by (simp add: terminated_def c_str_append)
  have le: "length (c_str (proj_tuple P q x)) \<le> nat (cm_len col)" using c_str_le [of "proj_tuple P q x"] p x by (simp add: tup picks_def)
  have nf: "numbers_fit col" using n p by (auto simp: picks_def)
  show ?thesis
    using p nf cs le d unfolding h
    by (cases "cm_type col") (auto simp: sub_value_def init_raw_def picks_def numbers_fit_def ValueComp_def col_value_def tup int_val_def float_val_def Let_def)
qed

text \<open>
  The constructor over any subquery that delivers \<open>B\<close>: it collects the values of \<open>B\<close>, and the test of a record asks for a
  result that equals the column and for the other conditions.
\<close>

lemma in_subquery_made:
  assumes q: "cursor sm_same Q freshQ atQ seenQ" "freshQ q sm B" and tab: "get_table (sm_db sm) tab = Inr tm" "tm_cols tm \<noteq> []"
    and col: "exec_cols Q q = [col]" "\<forall>x \<in> set B. \<exists>v. sub_value mem past col x = Inr v"
    and lhs: "find_col (tm_cols tm) (sq_lhs clause) = Inr lc" "get_col tm (tc_col (sq_lhs clause)) = Inr lc" "comparable (cm_type lc) (cm_type col)"
    and i: "in_clause clause" "sm_fhs sm tab \<noteq> None" and c: "\<forall>cond \<in> set conds. cond_typed (tm_cols tm) cond"
  shows "\<exists>st sm1. SubqueryExecutor junk mem past Q tab conds clause q sm = Some (Inr st, sm1) \<and> sm_same sm sm1 \<and>
     st = junk\<lparr>ts_tab := tab, ts_cols := tm_cols tm, ts_len := nat (cm_offset (last (tm_cols tm)) + cm_len (last (tm_cols tm))),
      ts_scan := None, sq_conds := conds, sq_clause := clause, sq_results := map (\<lambda>x. projr (sub_value mem past col x)) B\<rparr> \<and>
     (\<forall>x. subquery_condition st x = Inr ((\<exists>y \<in> set B. ValueComp (col_value lc x) (projr (sub_value mem past col y)) OP_EQ = Inr True) \<and>
         (\<forall>cond \<in> set conds. cond_holds (tm_cols tm) x cond)))"
proof -
  let ?rs = "map (\<lambda>x. projr (sub_value mem past col x)) B"
  obtain q' sm1 where loop: "for_tuples Q (sub_push mem past col) [] q sm = Some (Inr (?rs, q'), sm1)" "sm_same sm sm1"
    using cursor.loop_over_tuples [OF q, of "sub_push mem past col" "[]"] sub_push_results [OF col(2), of "[]"] by auto
  let ?st = "junk\<lparr>ts_tab := tab, ts_cols := tm_cols tm, ts_len := nat (cm_offset (last (tm_cols tm)) + cm_len (last (tm_cols tm))),
      ts_scan := None, sq_conds := conds, sq_clause := clause, sq_results := ?rs\<rparr>"
  have new: "SubqueryExecutor junk mem past Q tab conds clause q sm = Some (Inr ?st, sm1)"
    using tab col(1) lhs i loop(1) by (simp add: SubqueryExecutor_def comparable_def)
  have vt: "v_type (projr (sub_value mem past col y)) = cm_type col" if "y \<in> set B" for y
    using col(2) that by (fastforce simp: sub_value_def Let_def init_raw_def split: prod.splits sum.splits if_splits ColType.splits)
  have "subquery_condition ?st x = Inr ((\<exists>r \<in> set ?rs. ValueComp (col_value lc x) r OP_EQ = Inr True) \<and> (\<forall>cond \<in> set conds. cond_holds (tm_cols tm) x cond))" for x
    using subquery_condition_in [of ?st lc x] lhs i(1) c vt by simp
  then show ?thesis using new loop(2) by simp
qed

text \<open>
  An IN clause over any subquery that delivers \<open>B\<close>: the executor delivers the records whose column equals a result and that
  satisfy the other conditions.
\<close>

lemma in_subquery_selects:
  assumes q: "cursor sm_same Q freshQ atQ seenQ" "freshQ q sm B" and tab: "get_table (sm_db sm) tab = Inr tm" "tm_cols tm \<noteq> []"
    and col: "exec_cols Q q = [col]" "\<forall>x \<in> set B. \<exists>v. sub_value mem past col x = Inr v"
    and lhs: "find_col (tm_cols tm) (sq_lhs clause) = Inr lc" "get_col tm (tc_col (sq_lhs clause)) = Inr lc" "comparable (cm_type lc) (cm_type col)"
    and i: "in_clause clause" "sm_inv sm" "sm_fhs sm tab \<noteq> None" "locks_granted (sq_context junk) tab sm"
    and c: "\<forall>cond \<in> set conds. cond_typed (tm_cols tm) cond"
  shows "\<exists>st sm1 st2 sm2. SubqueryExecutor junk mem past Q tab conds clause q sm = Some (Inr st, sm1) \<and>
     for_tuples SubqueryScan keep [] st sm1 = Some (Inr (filter (\<lambda>x. (\<exists>y \<in> set B. ValueComp (col_value lc x) (projr (sub_value mem past col y)) OP_EQ = Inr True) \<and>
         (\<forall>cond \<in> set conds. cond_holds (tm_cols tm) x cond)) (table_rows sm tab), st2), sm2) \<and> sm_same sm sm2"
proof -
  obtain st sm1 where new: "SubqueryExecutor junk mem past Q tab conds clause q sm = Some (Inr st, sm1)" "sm_same sm sm1"
    and st: "ts_tab st = tab" "ts_scan st = None" "sq_context st = sq_context junk"
    and ev: "subquery_condition st x = Inr ((\<exists>y \<in> set B. ValueComp (col_value lc x) (projr (sub_value mem past col y)) OP_EQ = Inr True) \<and>
         (\<forall>cond \<in> set conds. cond_holds (tm_cols tm) x cond))" for x
    using in_subquery_made [OF q tab col lhs i(1,3) c, of junk] by auto
  obtain fh where fh: "sm_fhs sm tab = Some fh" using i(3) by auto
  have "scan_ready (sq_context junk) (subquery_condition st) tab sm"
    using i(2,4) fh ev unfolding scan_ready_def locks_granted_def by blast
  then have "sub_fresh st sm1 (filter (\<lambda>x. subquery_condition st x = Inr True) (table_rows sm tab))"
    using hits_rows [of tab sm "subquery_condition st"] st by (intro scan_fresh_same [OF new(2)]) (simp add: scan_fresh_def)
  then obtain st2 sm2 where "for_tuples SubqueryScan keep [] st sm1 =
      Some (Inr (filter (\<lambda>x. subquery_condition st x = Inr True) (table_rows sm tab), st2), sm2)" "sm_same sm1 sm2" by (rule sub.collects)
  then show ?thesis using new sm_same_trans [OF new(2)] by (intro exI [of _ st] exI [of _ sm1] exI [of _ st2] exI [of _ sm2]) (simp add: ev)
qed

section \<open>Property\<close>

text \<open>
  C15: an \<open>IN\<close> clause accepts the records whose column equals one of the results of the subquery. The subquery is a
  projection to one column of a scan of any table, with granted locks and well-typed conditions, and a string in that column ends
  within it. Constructing the executor then runs the subquery and changes no table, and the test it applies to a record afterwards
  raises no error and holds exactly when the column compares equal to the selected column of some record the subquery selects and the other conditions
  hold.
\<close>

theorem in_clause_accepts_members:
  assumes "sm_inv sm" and "SeqScanExecutor junk1 sm tab1 conds1 ctx1 = Inr st" and "locks_granted ctx1 tab1 sm"
    and "\<forall>cond \<in> set conds1. cond_typed (ts_cols st) cond"
    and "fits_cols (ts_cols st) (ts_len st)" and "\<forall>c \<in> set (ts_cols st). numbers_fit c" and "\<forall>x \<in> set (table_rows sm tab1). length x = ts_len st"
    and "ProjectionExecutor SeqScan rid st [sel] names = Inr q"
    and "find_col (ts_cols st) sel = Inr col" and "\<forall>x \<in> set (table_rows sm tab1). terminated col x"
    and "get_table (sm_db sm) tab = Inr tm" and "sm_fhs sm tab \<noteq> None"
    and "in_clause clause" and "find_col (tm_cols tm) (sq_lhs clause) = Inr lc" and "get_col tm (tc_col (sq_lhs clause)) = Inr lc"
    and "comparable (cm_type lc) (cm_type col)" and "\<forall>cond \<in> set conds. cond_typed (tm_cols tm) cond"
  shows "\<exists>sq sm1. SubqueryExecutor junk mem past (Projection SeqScan) tab conds clause q sm = Some (Inr sq, sm1) \<and> sm_same sm sm1 \<and>
     (\<forall>x. subquery_condition sq x = Inr (
         (\<exists>y \<in> set (selected sm tab1 (ts_cols st) conds1). ValueComp (col_value lc x) (col_value col y) OP_EQ = Inr True) \<and>
         (\<forall>cond \<in> set conds. cond_holds (tm_cols tm) x cond)))"
proof -
  let ?sel = "selected sm tab1 (ts_cols st) conds1" and ?c = "hd (pr_cols q)"
  have s: "exec_cols SeqScan st = ts_cols st" "tupleLen SeqScan st = ts_len st" by (simp_all add: SeqScan_def)
  note f = assms(5,6) [folded s]
  have d: "cm_type col \<noteq> TYPE_DATETIME" using assms(16) by (auto simp: comparable_def TypeCompatible_def split: if_splits)
  have sv: "\<exists>v. sub_value mem past ?c (proj_tuple SeqScan q y) = Inr v \<and> v_type v = cm_type col \<and>
      (\<forall>l op. ValueComp l v op = ValueComp l (col_value col y) op)" if "y \<in> set ?sel" for y
    using that assms(7,9,10) by (intro sub_value_projected [OF assms(8) f(1) _ f(2)]) (auto simp: s selected_def d)
  have q: "seq_proj.pfresh q sm (map (proj_tuple SeqScan q) ?sel)"
    using seq_scan_fresh [OF assms(1-4)] projection_made(1) [OF assms(8) f(1)] by (auto simp: seq_proj.pfresh_def)
  have "length (pr_cols q) = 1" using projection_made(3) [OF assms(8) f(1)] by simp
  then have c: "exec_cols (Projection SeqScan) q = [?c]" by (cases "pr_cols q") (auto simp: Projection_def)
  have ct: "cm_type ?c = cm_type col"
    using projection_made(3,6) [OF assms(8) f(1)] assms(9) s by (cases "pr_cols q") (force simp: picks_def)+
  have ne: "tm_cols tm \<noteq> []" using assms(14) by (auto simp: find_col_def)
  have ex: "\<forall>x \<in> set (map (proj_tuple SeqScan q) ?sel). \<exists>v. sub_value mem past ?c x = Inr v" using sv by fastforce
  obtain sq sm1 where r: "SubqueryExecutor junk mem past (Projection SeqScan) tab conds clause q sm = Some (Inr sq, sm1)" "sm_same sm sm1"
    "\<forall>x. subquery_condition sq x = Inr ((\<exists>y \<in> set (map (proj_tuple SeqScan q) ?sel).
         ValueComp (col_value lc x) (projr (sub_value mem past ?c y)) OP_EQ = Inr True) \<and> (\<forall>cond \<in> set conds. cond_holds (tm_cols tm) x cond))"
    using in_subquery_made [OF seq_proj.proj.cursor_axioms q assms(11) ne c ex assms(14,15) assms(16) [folded ct] assms(13,12,17), of junk] by blast
  have "ValueComp (col_value lc x) (projr (sub_value mem past ?c (proj_tuple SeqScan q y))) OP_EQ = ValueComp (col_value lc x) (col_value col y) OP_EQ"
    if "y \<in> set ?sel" for x y using sv [OF that] by auto
  then have "(\<exists>y \<in> set (map (proj_tuple SeqScan q) ?sel). ValueComp (col_value lc x) (projr (sub_value mem past ?c y)) OP_EQ = Inr True) =
      (\<exists>y \<in> set ?sel. ValueComp (col_value lc x) (col_value col y) OP_EQ = Inr True)" for x by simp
  then show ?thesis using r by simp
qed

text \<open>\<open>SELECT * FROM t WHERE a IN (SELECT a FROM t WHERE a > 7)\<close>.\<close>

definition sample_clause :: SubQueryClause where
  "sample_clause = \<lparr>sq_lhs = TabCol ''t'' ''a'', sq_op = OP_EQ, in_clause = True\<rparr>"

definition sample_subquery :: subquery where
  "sample_subquery =
     \<lparr>ts_tab = [], ts_cols = [], ts_len = 0, ts_rid = Rid 0 0, ts_scan = None, ts_end = False, ts_last = Rid 0 0,
      sq_conds = [], sq_clause = sample_clause, sq_results = [], sq_context = granting\<rparr>"

theorem in_clause_accepts_members_witness:
  "\<exists>sm sq sm1. SubqueryExecutor sample_subquery [] [] (Projection SeqScan) ''t'' [] sample_clause sample_proj sm = Some (Inr sq, sm1) \<and>
     subquery_condition sq [1, 2, 3, 4] = Inr True \<and> subquery_condition sq [1, 2, 3, 5] = Inr False"
proof -
  let ?st = "sample_scan ''t'' [sample_cond]" and ?col = "sample_col ''a'' 0" and ?tm = "\<lparr>tm_name = ''t'', tm_cols = [sample_col ''a'' 0], tm_indexes = []\<rparr>"
  obtain r rm where rm: "rm_inv rm" "rm_map rm = [r \<mapsto> [1, 2, 3, 4]]" by (rule sample_inserted)
  note q = sample_query [OF rm] and rows = sample_sm_rows [OF rm]
  have c: "find_col (ts_cols ?st) (TabCol ''t'' ''a'') = Inr ?col" "find_col (tm_cols ?tm) (sq_lhs sample_clause) = Inr ?col"
    "get_col ?tm (tc_col (sq_lhs sample_clause)) = Inr ?col" "in_clause sample_clause" "comparable (cm_type ?col) (cm_type ?col)"
    by (simp_all add: find_col_def sample_scan_def sample_col_def sample_clause_def get_col_def comparable_def TypeCompatible_def)
  have t: "\<forall>x \<in> set (table_rows (sample_sm rm) ''t''). terminated ?col x" "get_table (sm_db (sample_sm rm)) ''t'' = Inr ?tm"
    "sm_fhs (sample_sm rm) ''t'' \<noteq> None"
    by (simp_all add: terminated_def sample_col_def sample_sm_def get_table_def)
  have v: "ValueComp (col_value ?col [1, 2, 3, 4]) (col_value ?col [1, 2, 3, 4]) OP_EQ = Inr True"
    by (simp add: ValueComp_def col_value_def sample_col_def comp_int_def Let_def)
  have n: "ValueComp (col_value ?col [1, 2, 3, 5]) (col_value ?col [1, 2, 3, 4]) OP_EQ = Inr False"
    by (simp add: ValueComp_def col_value_def sample_col_def comp_int_def int_val_def load_int_def slice_def bytes_int_def to_int32_def Let_def)
  have e: "\<forall>cond \<in> set []. cond_typed (tm_cols ?tm) cond" by simp
  note sel = in_clause_accepts_members [OF sample_sm_inv [OF rm(1)] sample_scan_constructed q(1-5) sample_proj_constructed c(1) t(1-3) c(4,2,3,5) e,
        of sample_subquery "[]" "[]", unfolded q(6) rows]
  show ?thesis by (rule exI [of _ "sample_sm rm"]) (use sel v n in auto)
qed

end
