(* ===== verification/IxNode.thy ===== *)
theory IxNode
  imports IxCompare LogRecords
begin

text \<open>
  The file header of an index (\<open>IxFileHdr\<close> of \<^verbatim>\<open>index/ix_defs.h\<close>) and the nodes of the B+ tree (\<open>IxNodeHandle\<close> of
  \<^verbatim>\<open>index/ix_index_handle.h\<close> and \<^verbatim>\<open>.cpp\<close>). A node is the bytes of its page: the page header, an array of keys and an array
  of record ids; an operation of a node takes and returns these bytes. The lemmas read a node as its list of pairs: the
  binary searches find the first key that is not less, or greater, than the target, and insertion and removal are those
  of a sorted list.
\<close>

section \<open>The file header\<close>

definition IX_NO_PAGE :: int where
  "IX_NO_PAGE = -1"

definition IX_FILE_HDR_PAGE :: int where
  "IX_FILE_HDR_PAGE = 0"

definition IX_LEAF_HEADER_PAGE :: int where
  "IX_LEAF_HEADER_PAGE = 1"

definition IX_INIT_ROOT_PAGE :: int where
  "IX_INIT_ROOT_PAGE = 2"

definition IX_INIT_NUM_PAGES :: int where
  "IX_INIT_NUM_PAGES = 3"

record IxFileHdr =
  ix_first_free_page_no :: int
  ix_num_pages :: int
  root_page :: int
  ix_col_num :: int
  ix_col_types :: "ColType list"
  ix_col_lens :: "int list"
  ix_col_tot_len :: int
  btree_order :: int
  keys_size :: int
  first_leaf :: int
  last_leaf :: int
  ix_tot_len :: int

definition update_tot_len :: "IxFileHdr \<Rightarrow> IxFileHdr" where
  "update_tot_len h = h\<lparr>ix_tot_len := 4 * 4 + 4 * 6 + (4 * ix_col_num h + 4 * ix_col_num h)\<rparr>"

fun put_ints :: "bytes \<Rightarrow> nat \<Rightarrow> int list \<Rightarrow> bytes" where
  "put_ints dest offset [] = dest"
| "put_ints dest offset (i # is) = put_ints (memcpy dest offset (int_bytes i)) (offset + 4) is"

text \<open>The vectors must hold the \<open>col_num_\<close> entries that are read.\<close>

definition IxFileHdr_serialize :: "IxFileHdr \<Rightarrow> bytes \<Rightarrow> rmdb_error + bytes" where
  "IxFileHdr_serialize h dest =
     (let n = nat (ix_col_num h);
          fields = [ix_tot_len h, ix_first_free_page_no h, ix_num_pages h, root_page h, ix_col_num h] @
            map ColType_num (take n (ix_col_types h)) @ take n (ix_col_lens h) @
            [ix_col_tot_len h, btree_order h, keys_size h, first_leaf h, last_leaf h];
          dest = put_ints dest 0 fields
      in if length (ix_col_types h) < n \<or> length (ix_col_lens h) < n then Inl NullDereference
         else if 4 * int (length fields) \<noteq> ix_tot_len h then Inl (AssertionFailed ''offset == tot_len_'')
         else Inr dest)"

text \<open>A number that is no enumerator is not a \<open>ColType\<close>; it is read as \<open>TYPE_DATETIME\<close>, which no operation handles either.\<close>

definition num_ColType :: "int \<Rightarrow> ColType" where
  "num_ColType i = (if i = 0 then TYPE_INT else if i = 1 then TYPE_FLOAT else if i = 2 then TYPE_STRING else TYPE_DATETIME)"

definition get_ints :: "bytes \<Rightarrow> nat \<Rightarrow> nat \<Rightarrow> int list" where
  "get_ints src offset n = map (\<lambda>i. load_int src (offset + 4 * i)) [0..<n]"

definition IxFileHdr_deserialize :: "bytes \<Rightarrow> IxFileHdr \<Rightarrow> rmdb_error + IxFileHdr" where
  "IxFileHdr_deserialize src h =
     (let n = nat (load_int src 16); off = 20 + 8 * n;
          h = h\<lparr>ix_tot_len := load_int src 0, ix_first_free_page_no := load_int src 4, ix_num_pages := load_int src 8,
                root_page := load_int src 12, ix_col_num := load_int src 16,
                ix_col_types := ix_col_types h @ map num_ColType (get_ints src 20 n),
                ix_col_lens := ix_col_lens h @ get_ints src (20 + 4 * n) n,
                ix_col_tot_len := load_int src off, btree_order := load_int src (off + 4), keys_size := load_int src (off + 8),
                first_leaf := load_int src (off + 12), last_leaf := load_int src (off + 16)\<rparr>
      in if int (off + 20) \<noteq> ix_tot_len h then Inl (AssertionFailed ''offset == tot_len_'') else Inr h)"

text \<open>The default constructor leaves the other members as the memory has them.\<close>

definition IxFileHdr_init :: "IxFileHdr \<Rightarrow> IxFileHdr" where
  "IxFileHdr_init junk = junk\<lparr>ix_tot_len := 0, ix_col_num := 0, ix_col_types := [], ix_col_lens := []\<rparr>"

section \<open>Nodes\<close>

text \<open>
  \<open>IxPageHdr\<close>: \<open>next_free_page_no\<close>, \<open>parent\<close>, \<open>num_key\<close>, \<open>is_leaf\<close> (one byte and padding), \<open>prev_leaf\<close>, \<open>next_leaf\<close>.
\<close>

definition IX_PAGE_HDR_SIZE :: nat where
  "IX_PAGE_HDR_SIZE = 24"

definition get_parent_page_no :: "bytes \<Rightarrow> int" where
  "get_parent_page_no d = load_int d 4"

definition set_parent_page_no :: "int \<Rightarrow> bytes \<Rightarrow> bytes" where
  "set_parent_page_no p d = store_int d 4 p"

definition get_size :: "bytes \<Rightarrow> int" where
  "get_size d = load_int d 8"

definition set_size :: "int \<Rightarrow> bytes \<Rightarrow> bytes" where
  "set_size n d = store_int d 8 n"

definition is_leaf_page :: "bytes \<Rightarrow> bool" where
  "is_leaf_page d \<longleftrightarrow> d ! 12 \<noteq> 0"

definition set_is_leaf :: "bool \<Rightarrow> bytes \<Rightarrow> bytes" where
  "set_is_leaf b d = d[12 := if b then 1 else 0]"

definition get_prev_leaf :: "bytes \<Rightarrow> int" where
  "get_prev_leaf d = load_int d 16"

definition set_prev_leaf :: "int \<Rightarrow> bytes \<Rightarrow> bytes" where
  "set_prev_leaf p d = store_int d 16 p"

definition get_next_leaf :: "bytes \<Rightarrow> int" where
  "get_next_leaf d = load_int d 20"

definition set_next_leaf :: "int \<Rightarrow> bytes \<Rightarrow> bytes" where
  "set_next_leaf p d = store_int d 20 p"

definition is_root_page :: "bytes \<Rightarrow> bool" where
  "is_root_page d \<longleftrightarrow> get_parent_page_no d = INVALID_PAGE_ID"

definition get_max_size :: "IxFileHdr \<Rightarrow> int" where
  "get_max_size h = btree_order h + 1"

definition get_min_size :: "IxFileHdr \<Rightarrow> int" where
  "get_min_size h = get_max_size h div 2"

definition key_len :: "IxFileHdr \<Rightarrow> nat" where
  "key_len h = nat (ix_col_tot_len h)"

definition key_spec :: "IxFileHdr \<Rightarrow> (ColType \<times> nat) list" where
  "key_spec h = zip (ix_col_types h) (map nat (ix_col_lens h))"

definition key_off :: "IxFileHdr \<Rightarrow> int \<Rightarrow> int" where
  "key_off h i = int IX_PAGE_HDR_SIZE + i * ix_col_tot_len h"

definition rid_off :: "IxFileHdr \<Rightarrow> int \<Rightarrow> int" where
  "rid_off h i = int IX_PAGE_HDR_SIZE + keys_size h + i * 8"

definition get_key :: "IxFileHdr \<Rightarrow> int \<Rightarrow> bytes \<Rightarrow> bytes" where
  "get_key h i d = slice (nat (key_off h i)) (key_len h) d"

definition get_rid :: "IxFileHdr \<Rightarrow> int \<Rightarrow> bytes \<Rightarrow> Rid" where
  "get_rid h i d = bytes_Rid (slice (nat (rid_off h i)) 8 d)"

definition value_at :: "IxFileHdr \<Rightarrow> int \<Rightarrow> bytes \<Rightarrow> int" where
  "value_at h i d = rid_page (get_rid h i d)"

definition set_key :: "IxFileHdr \<Rightarrow> int \<Rightarrow> bytes \<Rightarrow> bytes \<Rightarrow> bytes" where
  "set_key h i key d = memcpy d (nat (key_off h i)) (slice 0 (key_len h) key)"

definition set_rid :: "IxFileHdr \<Rightarrow> int \<Rightarrow> Rid \<Rightarrow> bytes \<Rightarrow> bytes" where
  "set_rid h i rid d = memcpy d (nat (rid_off h i)) (Rid_bytes rid)"

text \<open>Binary search for the first position whose key is not \<open>left\<close> of the target.\<close>

function search :: "(int \<Rightarrow> rmdb_error + bool) \<Rightarrow> int \<Rightarrow> int \<Rightarrow> rmdb_error + int" where
  "search left l r =
     (if l < r then
        let m = (l + r) div 2
        in case left m of
             Inl e \<Rightarrow> Inl e
           | Inr b \<Rightarrow> if b then search left (m + 1) r else search left l m
      else Inr l)"
  by pat_completeness auto

termination
  by (relation "measure (\<lambda>(left, l, r). nat (r - l))") auto

declare search.simps [simp del]

text \<open>
  \<open>judge\<close> compares a key with the target, which is a key or a list of values; \<open>left\<close> tells the keys that are passed over.
\<close>

definition bound_by :: "(int \<Rightarrow> bool) \<Rightarrow> (bytes \<Rightarrow> rmdb_error + int) \<Rightarrow> IxFileHdr \<Rightarrow> bytes \<Rightarrow> rmdb_error + int" where
  "bound_by left judge h d =
     (let judge_at = (\<lambda>i. case judge (get_key h i d) of Inl e \<Rightarrow> Inl e | Inr j \<Rightarrow> Inr (left j));
          l = (if is_leaf_page d then 0 else 1); r = get_size d - 1
      in case search judge_at l r of
           Inl e \<Rightarrow> Inl e
         | Inr l \<Rightarrow> (case judge_at l of Inl e \<Rightarrow> Inl e | Inr b \<Rightarrow> Inr (if \<not> b then l else -1)))"

definition node_lower_bound :: "(bytes \<Rightarrow> rmdb_error + int) \<Rightarrow> IxFileHdr \<Rightarrow> bytes \<Rightarrow> rmdb_error + int" where
  "node_lower_bound judge h d = bound_by (\<lambda>j. j < 0) judge h d"

definition node_upper_bound :: "(bytes \<Rightarrow> rmdb_error + int) \<Rightarrow> IxFileHdr \<Rightarrow> bytes \<Rightarrow> rmdb_error + int" where
  "node_upper_bound judge h d = bound_by (\<lambda>j. j \<le> 0) judge h d"

abbreviation judge_key :: "IxFileHdr \<Rightarrow> bytes \<Rightarrow> bytes \<Rightarrow> rmdb_error + int" where
  "judge_key h target k \<equiv> ix_compare k target (key_spec h)"

abbreviation judge_values :: "IxFileHdr \<Rightarrow> Value list \<Rightarrow> bytes \<Rightarrow> rmdb_error + int" where
  "judge_values h target k \<equiv> ix_compare_values k target (key_spec h)"

definition leaf_lookup :: "IxFileHdr \<Rightarrow> bytes \<Rightarrow> bytes \<Rightarrow> rmdb_error + Rid option" where
  "leaf_lookup h key d =
     (case node_lower_bound (judge_key h key) h d of
        Inl e \<Rightarrow> Inl e
      | Inr rid_idx \<Rightarrow>
          if rid_idx = -1 then Inr None
          else case judge_key h key (get_key h rid_idx d) of
                 Inl e \<Rightarrow> Inl e
               | Inr j \<Rightarrow> Inr (if j \<noteq> 0 then None else Some (get_rid h rid_idx d)))"

text \<open>
  The loop of \<open>get_value\<close> over the slots from \<open>i\<close> on that hold the key. It does not stop at \<open>num_key\<close>; it may run up to the end of the
  page, and reading on is an error.
\<close>

function collect_values :: "IxFileHdr \<Rightarrow> bytes \<Rightarrow> nat \<Rightarrow> bytes \<Rightarrow> rmdb_error + Rid list" where
  "collect_values h key i d =
     (if 0 < key_len h \<and> IX_PAGE_HDR_SIZE + i * key_len h + key_len h \<le> length d then
        if memcmp (get_key h (int i) d) key (key_len h) = 0
        then (case collect_values h key (i + 1) d of Inl e \<Rightarrow> Inl e | Inr rs \<Rightarrow> Inr (get_rid h (int i) d # rs))
        else Inr []
      else Inl NullDereference)"
  by pat_completeness auto

termination
  by (relation "measure (\<lambda>(h, key, i, d). length d - (IX_PAGE_HDR_SIZE + i * key_len h))") auto

declare collect_values.simps [simp del]

text \<open>\<open>same\<close> is the test for the key itself: \<open>memcmp\<close> for a key, the comparison for values.\<close>

definition internal_lookup_by ::
    "(bytes \<Rightarrow> rmdb_error + int) \<Rightarrow> (bytes \<Rightarrow> rmdb_error + bool) \<Rightarrow> IxFileHdr \<Rightarrow> bytes \<Rightarrow> rmdb_error + int" where
  "internal_lookup_by judge same h d =
     (case node_lower_bound judge h d of
        Inl e \<Rightarrow> Inl e
      | Inr pos \<Rightarrow>
          if pos = -1 then Inr (value_at h (get_size d - 1) d)
          else case same (get_key h pos d) of
                 Inl e \<Rightarrow> Inl e
               | Inr b \<Rightarrow> Inr (value_at h (if b then pos else pos - 1) d))"

definition internal_lookup :: "IxFileHdr \<Rightarrow> bytes \<Rightarrow> bytes \<Rightarrow> rmdb_error + int" where
  "internal_lookup h key d = internal_lookup_by (judge_key h key) (\<lambda>k. Inr (memcmp k key (key_len h) = 0)) h d"

definition internal_lookup_values :: "IxFileHdr \<Rightarrow> Value list \<Rightarrow> bytes \<Rightarrow> rmdb_error + int" where
  "internal_lookup_values h key d =
     internal_lookup_by (judge_values h key)
       (\<lambda>k. case judge_values h key k of Inl e \<Rightarrow> Inl e | Inr j \<Rightarrow> Inr (j = 0)) h d"

text \<open>\<open>memmove\<close> within the page.\<close>

definition memmove :: "bytes \<Rightarrow> int \<Rightarrow> int \<Rightarrow> int \<Rightarrow> bytes" where
  "memmove d dest src n = memcpy d (nat dest) (slice (nat src) (nat n) d)"

text \<open>The pairs are moved by \<open>pos\<close> places, not by \<open>n\<close>.\<close>

definition insert_pairs :: "IxFileHdr \<Rightarrow> int \<Rightarrow> bytes \<Rightarrow> bytes \<Rightarrow> int \<Rightarrow> bytes \<Rightarrow> bytes" where
  "insert_pairs h pos keys rids n d =
     (let key_size = ix_col_tot_len h;
          num_keys = max 0 (get_size d - pos);
          d = memmove d (key_off h pos + key_size * pos) (key_off h pos) (num_keys * key_size);
          d = memmove d (rid_off h pos + 8 * pos) (rid_off h pos) (num_keys * 8);
          d = memcpy d (nat (key_off h pos)) (slice 0 (nat (n * key_size)) keys);
          d = memcpy d (nat (rid_off h pos)) (slice 0 (nat (n * 8)) rids)
      in set_size (get_size d + n) d)"

definition insert_at :: "IxFileHdr \<Rightarrow> int \<Rightarrow> bytes \<Rightarrow> Rid \<Rightarrow> bytes \<Rightarrow> bytes" where
  "insert_at h pos key val d =
     (let key_size = ix_col_tot_len h;
          num_keys = get_size d - pos;
          d = memmove d (key_off h pos + key_size) (key_off h pos) (num_keys * key_size);
          d = memmove d (rid_off h pos + 8) (rid_off h pos) (num_keys * 8);
          d = set_key h pos key d;
          d = set_rid h pos val d
      in set_size (get_size d + 1) d)"

definition node_insert :: "IxFileHdr \<Rightarrow> bytes \<Rightarrow> Rid \<Rightarrow> bytes \<Rightarrow> (int, bytes) res" where
  "node_insert h key val d =
     (let pos = (if get_size d = 0 then Inr 0
                 else case node_lower_bound (judge_key h key) h d of
                        Inl e \<Rightarrow> Inl e
                      | Inr pos \<Rightarrow>
                          if pos = -1 then Inr (get_size d)
                          else if memcmp (get_key h pos d) key (key_len h) = 0 then Inl IndexEntryExistsError
                          else Inr pos)
      in case pos of
           Inl e \<Rightarrow> (Inl e, d)
         | Inr pos \<Rightarrow> let d = insert_at h pos key val d in (Inr (get_size d), d))"

definition erase_pair :: "IxFileHdr \<Rightarrow> int \<Rightarrow> bytes \<Rightarrow> bytes" where
  "erase_pair h pos d =
     (let key_size = ix_col_tot_len h;
          key_nums = get_size d - pos - 1;
          d = memmove d (key_off h pos) (key_off h pos + key_size) (key_nums * key_size);
          d = memmove d (rid_off h pos) (rid_off h pos + 8) (key_nums * 8)
      in set_size (get_size d - 1) d)"

text \<open>
  When no key is at least \<open>key\<close>, the code goes on with position \<open>-1\<close>, the bytes in front of the first key. These lie in the
  page header for a key of at most 24 bytes; memory in front of the page is not modelled and is an error.
\<close>

definition node_remove :: "IxFileHdr \<Rightarrow> bytes \<Rightarrow> bytes \<Rightarrow> (int, bytes) res" where
  "node_remove h key d =
     (case node_lower_bound (judge_key h key) h d of
        Inl e \<Rightarrow> (Inl e, d)
      | Inr pos \<Rightarrow>
          if key_off h pos < 0 then (Inl NullDereference, d)
          else case ix_compare key (get_key h pos d) (key_spec h) of
                 Inl e \<Rightarrow> (Inl e, d)
               | Inr j \<Rightarrow> let d = (if j = 0 then erase_pair h pos d else d) in (Inr (get_size d), d))"

definition remove_and_return_only_child :: "IxFileHdr \<Rightarrow> bytes \<Rightarrow> (int, bytes) res" where
  "remove_and_return_only_child h d =
     (if get_size d \<noteq> 1 then (Inl (AssertionFailed ''get_size() == 1''), d)
      else let child_page_no = value_at h 0 d; d = erase_pair h 0 d
           in if get_size d \<noteq> 0 then (Inl (AssertionFailed ''get_size() == 0''), d) else (Inr child_page_no, d))"

definition find_child :: "IxFileHdr \<Rightarrow> int \<Rightarrow> bytes \<Rightarrow> rmdb_error + int" where
  "find_child h child_page_no d =
     (case List.find (\<lambda>i. value_at h (int i) d = child_page_no) [0..<nat (get_size d)] of
        None \<Rightarrow> Inl (AssertionFailed ''rid_idx < page_hdr->num_key'')
      | Some i \<Rightarrow> Inr (int i))"

section \<open>Arrays in a page\<close>

definition elem :: "nat \<Rightarrow> nat \<Rightarrow> nat \<Rightarrow> 'a list \<Rightarrow> 'a list" where
  "elem base sz i d = slice (base + i * sz) sz d"

lemma slice_memcpy_inside:
  assumes "o2 + n \<le> length bs" and "off \<le> length d"
  shows "slice (off + o2) n (memcpy d off bs) = slice o2 n bs"
proof -
  have "slice o2 n (slice off (length bs) (memcpy d off bs)) = slice (off + o2) n (memcpy d off bs)" using assms(1) by (rule slice_slice)
  then show ?thesis using assms(2) by (simp add: slice_memcpy_same)
qed

lemma elem_slice:
  assumes "j < cnt" and "base + (pos + cnt) * sz \<le> length d"
  shows "slice (j * sz) sz (slice (base + pos * sz) (cnt * sz) d) = elem base sz (pos + j) d"
proof -
  have "Suc j * sz \<le> cnt * sz" using assms(1) by (intro mult_right_mono) simp_all
  then show ?thesis by (simp add: elem_def slice_slice algebra_simps)
qed

lemma elem_memcpy_in:
  assumes "length bs = k * sz" and "base + (pos + k) * sz \<le> length d" and "pos \<le> i" and "i < pos + k"
  shows "elem base sz i (memcpy d (base + pos * sz) bs) = slice ((i - pos) * sz) sz bs"
proof -
  have le: "Suc (i - pos) * sz \<le> k * sz" using assms(3,4) by (intro mult_right_mono) simp_all
  have e: "base + i * sz = base + pos * sz + (i - pos) * sz" using assms(3) by (simp flip: add_mult_distrib)
  have "base + pos * sz \<le> length d" using assms(2) by (simp add: algebra_simps)
  then show ?thesis using le assms(1) unfolding elem_def e by (intro slice_memcpy_inside) simp_all
qed

lemma elem_memcpy_out:
  assumes "off + length bs \<le> length d" and "base + i * sz + sz \<le> off \<or> off + length bs \<le> base + i * sz"
  shows "elem base sz i (memcpy d off bs) = elem base sz i d"
  using assms unfolding elem_def by (auto intro: slice_memcpy_before slice_memcpy_after)

lemma elem_memcpy_other:
  assumes "length bs = k * sz" and "base + (pos + k) * sz \<le> length d" and "i < pos \<or> pos + k \<le> i"
  shows "elem base sz i (memcpy d (base + pos * sz) bs) = elem base sz i d"
proof (rule elem_memcpy_out)
  show "base + pos * sz + length bs \<le> length d" using assms(1,2) by (simp add: algebra_simps)
  have "Suc i * sz \<le> pos * sz \<or> (pos + k) * sz \<le> i * sz" using assms(3) by (meson Suc_leI mult_le_mono1)
  then show "base + i * sz + sz \<le> base + pos * sz \<or> base + pos * sz + length bs \<le> base + i * sz" using assms(1) by (auto simp: algebra_simps)
qed

text \<open>The blocks of a page: moving elements to the right or the left, and setting one.\<close>

lemma elem_move_right:
  assumes "base + (n + 1) * sz \<le> length d" and "pos \<le> n" and "i < n + 1" and "i \<noteq> pos"
  shows "elem base sz i (memcpy d (base + (pos + 1) * sz) (slice (base + pos * sz) ((n - pos) * sz) d)) =
     elem base sz (if i < pos then i else i - 1) d"
proof -
  let ?bs = "slice (base + pos * sz) ((n - pos) * sz) d"
  have "base + n * sz \<le> length d" using assms(1) by simp
  then have fit: "base + (pos + (n - pos)) * sz \<le> length d" using assms(2) by simp
  then have l: "length ?bs = (n - pos) * sz" by (simp add: algebra_simps)
  have f2: "base + (pos + 1 + (n - pos)) * sz \<le> length d" using assms(1,2) by (simp add: algebra_simps)
  show ?thesis
  proof (cases "i < pos")
    case True
    then show ?thesis using elem_memcpy_other [OF l f2, of i] by simp
  next
    case False
    then have "elem base sz i (memcpy d (base + (pos + 1) * sz) ?bs) = slice ((i - (pos + 1)) * sz) sz ?bs"
      using elem_memcpy_in [OF l f2, of i] assms(2-4) by simp
    also have "\<dots> = elem base sz (pos + (i - (pos + 1))) d" using False assms(3,4) fit by (intro elem_slice) auto
    finally show ?thesis using False assms(4) by simp
  qed
qed

lemma elem_move_left:
  assumes "base + n * sz \<le> length d" and "pos < n" and "i < n - 1"
  shows "elem base sz i (memcpy d (base + pos * sz) (slice (base + (pos + 1) * sz) ((n - pos - 1) * sz) d)) =
     elem base sz (if i < pos then i else i + 1) d"
proof -
  let ?bs = "slice (base + (pos + 1) * sz) ((n - pos - 1) * sz) d"
  have fit: "base + (pos + 1 + (n - pos - 1)) * sz \<le> length d" using assms(1,2) by simp
  then have l: "length ?bs = (n - pos - 1) * sz" by (simp add: algebra_simps)
  have "(pos + (n - pos - 1)) * sz \<le> n * sz" using assms(2) by (intro mult_right_mono) simp_all
  then have f2: "base + (pos + (n - pos - 1)) * sz \<le> length d" using assms(1) by linarith
  show ?thesis
  proof (cases "i < pos")
    case True
    then show ?thesis using elem_memcpy_other [OF l f2, of i] by simp
  next
    case False
    then have "elem base sz i (memcpy d (base + pos * sz) ?bs) = slice ((i - pos) * sz) sz ?bs"
      using elem_memcpy_in [OF l f2, of i] assms(2,3) by simp
    also have "\<dots> = elem base sz (pos + 1 + (i - pos)) d" using False assms(2,3) fit by (intro elem_slice) auto
    finally show ?thesis using False by simp
  qed
qed

section \<open>The layout of a node\<close>

definition hdr_ok :: "IxFileHdr \<Rightarrow> bool" where
  "hdr_ok h \<longleftrightarrow>
     0 < ix_col_tot_len h \<and> 2 < btree_order h \<and> keys_size h = (btree_order h + 1) * ix_col_tot_len h \<and>
     int IX_PAGE_HDR_SIZE + (btree_order h + 1) * (ix_col_tot_len h + 8) \<le> int PAGE_SIZE \<and>
     length (ix_col_types h) = length (ix_col_lens h) \<and> (\<forall>l \<in> set (ix_col_lens h). 0 \<le> l) \<and>
     sum_list (ix_col_lens h) = ix_col_tot_len h \<and> ix_col_num h = int (length (ix_col_lens h))"

definition max_keys :: "IxFileHdr \<Rightarrow> nat" where
  "max_keys h = nat (btree_order h + 1)"

abbreviation rids_base :: "IxFileHdr \<Rightarrow> nat" where
  "rids_base h \<equiv> 24 + max_keys h * key_len h"

definition node_ok :: "IxFileHdr \<Rightarrow> bytes \<Rightarrow> bool" where
  "node_ok h d \<longleftrightarrow> length d = PAGE_SIZE \<and> 0 \<le> get_size d \<and> get_size d \<le> btree_order h + 1"

definition node_keys :: "IxFileHdr \<Rightarrow> bytes \<Rightarrow> bytes list" where
  "node_keys h d = map (\<lambda>i. get_key h (int i) d) [0..<nat (get_size d)]"

definition node_rids :: "IxFileHdr \<Rightarrow> bytes \<Rightarrow> Rid list" where
  "node_rids h d = map (\<lambda>i. get_rid h (int i) d) [0..<nat (get_size d)]"

lemma hdr_fits:
  assumes "hdr_ok h"
  shows "0 < key_len h" and "rids_base h + max_keys h * 8 \<le> PAGE_SIZE" and "keys_size h = int (max_keys h * key_len h)" and "3 < max_keys h"
    and "ix_col_tot_len h = int (key_len h)"
proof -
  show l: "0 < key_len h" "ix_col_tot_len h = int (key_len h)" "3 < max_keys h" using assms by (auto simp: hdr_ok_def key_len_def max_keys_def)
  have o: "btree_order h + 1 = int (max_keys h)" using assms by (simp add: hdr_ok_def max_keys_def)
  show "keys_size h = int (max_keys h * key_len h)" using assms l o by (simp add: hdr_ok_def)
  have "24 + int (max_keys h) * (int (key_len h) + 8) \<le> int PAGE_SIZE" using assms l o by (simp add: hdr_ok_def IX_PAGE_HDR_SIZE_def)
  then have "int (24 + max_keys h * (key_len h + 8)) \<le> int PAGE_SIZE" by simp
  then have "24 + max_keys h * (key_len h + 8) \<le> PAGE_SIZE" by (rule of_nat_le_iff [THEN iffD1])
  then show "rids_base h + max_keys h * 8 \<le> PAGE_SIZE" by (simp add: algebra_simps)
qed

lemma node_offs:
  assumes "hdr_ok h"
  shows "nat (key_off h (int i)) = 24 + i * key_len h" and "nat (rid_off h (int i)) = rids_base h + i * 8"
    and "get_key h (int i) d = elem 24 (key_len h) i d" and "get_rid h (int i) d = bytes_Rid (elem (rids_base h) 8 i d)"
proof -
  have "key_off h (int i) = int (24 + i * key_len h)" "rid_off h (int i) = int (rids_base h + i * 8)"
    using hdr_fits(3,5) [OF assms] by (simp_all add: key_off_def rid_off_def IX_PAGE_HDR_SIZE_def)
  then show "nat (key_off h (int i)) = 24 + i * key_len h" "nat (rid_off h (int i)) = rids_base h + i * 8" by (simp_all only: nat_int)
  then show "get_key h (int i) d = elem 24 (key_len h) i d" "get_rid h (int i) d = bytes_Rid (elem (rids_base h) 8 i d)"
    by (simp_all add: get_key_def get_rid_def elem_def)
qed

lemma node_keys_nth: "i < nat (get_size d) \<Longrightarrow> node_keys h d ! i = get_key h (int i) d"
  by (simp add: node_keys_def)

lemma node_rids_nth: "i < nat (get_size d) \<Longrightarrow> node_rids h d ! i = get_rid h (int i) d"
  by (simp add: node_rids_def)

lemma node_elems:
  assumes "hdr_ok h"
  shows "i < nat (get_size d) \<Longrightarrow> node_keys h d ! i = elem 24 (key_len h) i d"
    and "i < nat (get_size d) \<Longrightarrow> node_rids h d ! i = bytes_Rid (elem (rids_base h) 8 i d)"
  by (simp_all add: node_keys_nth node_rids_nth node_offs [OF assms])

lemma node_lengths [simp]: "length (node_keys h d) = nat (get_size d)" "length (node_rids h d) = nat (get_size d)"
  by (simp_all add: node_keys_def node_rids_def)

text \<open>A write that keeps the page header, the keys or the record ids.\<close>

lemma load_int_take: "off + 4 \<le> n \<Longrightarrow> load_int (take n d) off = load_int d off"
  by (simp add: load_int_def slice_def drop_take min_def)

lemma take_memcpy_after: "n \<le> off \<Longrightarrow> off \<le> length d \<Longrightarrow> take n (memcpy d off bs) = take n d"
  by (simp add: memcpy_def min_def)

definition same_hdr :: "bytes \<Rightarrow> bytes \<Rightarrow> bool" where
  "same_hdr d d' \<longleftrightarrow> take 24 d' = take 24 d"

lemma same_hdr_fields:
  assumes "same_hdr d d'"
  shows "get_size d' = get_size d" and "get_parent_page_no d' = get_parent_page_no d" and "get_prev_leaf d' = get_prev_leaf d"
    and "get_next_leaf d' = get_next_leaf d" and "is_leaf_page d' = is_leaf_page d"
proof -
  have t: "load_int d' off = load_int d off" if "off + 4 \<le> 24" for off using assms load_int_take [OF that] by (metis same_hdr_def)
  show "get_size d' = get_size d" "get_parent_page_no d' = get_parent_page_no d" "get_prev_leaf d' = get_prev_leaf d"
    "get_next_leaf d' = get_next_leaf d" by (simp_all add: get_size_def get_parent_page_no_def get_prev_leaf_def get_next_leaf_def t)
  have "d' ! 12 = take 24 d' ! 12" "take 24 d ! 12 = d ! 12" by simp_all
  then have "d' ! 12 = d ! 12" using assms by (simp only: same_hdr_def)
  then show "is_leaf_page d' = is_leaf_page d" by (simp add: is_leaf_page_def)
qed

text \<open>The header fields are independent of each other and of the arrays.\<close>

lemma set_size_fields:
  assumes "length d = PAGE_SIZE" and "int32 n"
  shows "get_size (set_size n d) = n" and "get_parent_page_no (set_size n d) = get_parent_page_no d" and "get_prev_leaf (set_size n d) = get_prev_leaf d"
    and "get_next_leaf (set_size n d) = get_next_leaf d" and "is_leaf_page (set_size n d) = is_leaf_page d" and "length (set_size n d) = PAGE_SIZE"
    and "24 \<le> base \<Longrightarrow> elem base sz i (set_size n d) = elem base sz i d"
proof -
  have l: "12 < length d" "24 \<le> length d" using assms(1) by (simp_all add: PAGE_SIZE_def)
  show "get_size (set_size n d) = n" "get_parent_page_no (set_size n d) = get_parent_page_no d" "get_prev_leaf (set_size n d) = get_prev_leaf d"
    "get_next_leaf (set_size n d) = get_next_leaf d" "length (set_size n d) = PAGE_SIZE"
    using l assms by (simp_all add: get_size_def get_parent_page_no_def get_prev_leaf_def get_next_leaf_def set_size_def load_store_int load_store_int_other)
  show "is_leaf_page (set_size n d) = is_leaf_page d"
    using l by (simp add: is_leaf_page_def set_size_def store_int_def nth_memcpy)
  show "elem base sz i (set_size n d) = elem base sz i d" if "24 \<le> base"
    using l that unfolding elem_def set_size_def store_int_def by (intro slice_memcpy_after) simp_all
qed

lemma keys_write:
  assumes "hdr_ok h" and "length d = PAGE_SIZE" and "24 \<le> off" and "off + length bs \<le> rids_base h"
  shows "same_hdr d (memcpy d off bs)" and "length (memcpy d off bs) = PAGE_SIZE"
    and "elem (rids_base h) 8 i (memcpy d off bs) = elem (rids_base h) 8 i d"
proof -
  have o: "off + length bs \<le> length d" using assms(4) hdr_fits(2) [OF assms(1)] assms(2) by linarith
  then show "same_hdr d (memcpy d off bs)" "length (memcpy d off bs) = PAGE_SIZE"
    using assms(2,3) by (simp_all add: same_hdr_def take_memcpy_after)
  show "elem (rids_base h) 8 i (memcpy d off bs) = elem (rids_base h) 8 i d" using o assms(4) by (intro elem_memcpy_out) simp_all
qed

lemma rids_write:
  assumes "hdr_ok h" and "length d = PAGE_SIZE" and "rids_base h \<le> off" and "off + length bs \<le> PAGE_SIZE"
  shows "same_hdr d (memcpy d off bs)" and "length (memcpy d off bs) = PAGE_SIZE"
    and "i < max_keys h \<Longrightarrow> elem 24 (key_len h) i (memcpy d off bs) = elem 24 (key_len h) i d"
proof -
  have "24 \<le> off" using assms(3) by simp
  then show "same_hdr d (memcpy d off bs)" "length (memcpy d off bs) = PAGE_SIZE"
    using assms(2,4) by (simp_all add: same_hdr_def take_memcpy_after)
  show "elem 24 (key_len h) i (memcpy d off bs) = elem 24 (key_len h) i d" if "i < max_keys h"
  proof (rule elem_memcpy_out)
    have "Suc i * key_len h \<le> max_keys h * key_len h" using that by (intro mult_right_mono) simp_all
    then show "24 + i * key_len h + key_len h \<le> off \<or> off + length bs \<le> 24 + i * key_len h" using assms(3) by simp
  qed (use assms(2,4) in simp)
qed

lemma same_hdr_trans: "same_hdr d d' \<Longrightarrow> same_hdr d' d'' \<Longrightarrow> same_hdr d d''"
  by (simp add: same_hdr_def)

text \<open>The steps of the operations: a block move or a write in one of the arrays.\<close>

definition keys_step :: "IxFileHdr \<Rightarrow> bytes \<Rightarrow> bytes \<Rightarrow> bool" where
  "keys_step h d d' \<longleftrightarrow> length d = PAGE_SIZE \<and> length d' = PAGE_SIZE \<and> same_hdr d d' \<and> (\<forall>i. elem (rids_base h) 8 i d' = elem (rids_base h) 8 i d)"

definition rids_step :: "IxFileHdr \<Rightarrow> bytes \<Rightarrow> bytes \<Rightarrow> bool" where
  "rids_step h d d' \<longleftrightarrow> length d = PAGE_SIZE \<and> length d' = PAGE_SIZE \<and> same_hdr d d' \<and>
     (\<forall>i < max_keys h. elem 24 (key_len h) i d' = elem 24 (key_len h) i d)"

lemma keys_stepI: "hdr_ok h \<Longrightarrow> length d = PAGE_SIZE \<Longrightarrow> 24 \<le> off \<Longrightarrow> off + length bs \<le> rids_base h \<Longrightarrow> keys_step h d (memcpy d off bs)"
  by (simp add: keys_step_def keys_write)

lemma rids_stepI: "hdr_ok h \<Longrightarrow> length d = PAGE_SIZE \<Longrightarrow> rids_base h \<le> off \<Longrightarrow> off + length bs \<le> PAGE_SIZE \<Longrightarrow> rids_step h d (memcpy d off bs)"
  by (simp add: rids_step_def rids_write)

lemma mult_Suc_le: "i < n \<Longrightarrow> i * sz + sz \<le> n * (sz :: nat)"
  using mult_right_mono [of "Suc i" n sz] by simp

lemma move_keys_right:
  assumes h: "hdr_ok h" and d: "length d = PAGE_SIZE" and n: "n < max_keys h" and p: "p \<le> n"
  defines "d' \<equiv> memmove d (key_off h (int p) + ix_col_tot_len h) (key_off h (int p)) ((int n - int p) * ix_col_tot_len h)"
  shows "keys_step h d d'" and "\<And>i. i \<le> n \<Longrightarrow> i \<noteq> p \<Longrightarrow> elem 24 (key_len h) i d' = elem 24 (key_len h) (if i < p then i else i - 1) d"
proof -
  note f = hdr_fits [OF h]
  have e: "d' = memcpy d (24 + (p + 1) * key_len h) (slice (24 + p * key_len h) ((n - p) * key_len h) d)"
    using f(5) p node_offs(1) [OF h, of p] by (simp add: d'_def memmove_def key_off_def IX_PAGE_HDR_SIZE_def nat_add_distrib nat_mult_distrib flip: of_nat_diff)
      (simp add: algebra_simps)
  have l: "24 + (n + 1) * key_len h \<le> rids_base h" using mult_Suc_le [OF n, of "key_len h"] by simp
  have pn: "p * key_len h + (n - p) * key_len h = n * key_len h" using p by (simp flip: add_mult_distrib)
  have len: "length (slice (24 + p * key_len h) ((n - p) * key_len h) d) = (n - p) * key_len h"
    using l [simplified] pn f(2) d by (intro length_slice) linarith
  have "24 + (p + 1) * key_len h + (n - p) * key_len h = 24 + (n + 1) * key_len h" using pn by simp
  then show "keys_step h d d'" unfolding e using l len by (intro keys_stepI [OF h d]) simp_all
  show "elem 24 (key_len h) i d' = elem 24 (key_len h) (if i < p then i else i - 1) d" if "i \<le> n" "i \<noteq> p" for i
    unfolding e using that p l f(2) d by (intro elem_move_right) simp_all
qed

lemma move_rids_right:
  assumes h: "hdr_ok h" and d: "length d = PAGE_SIZE" and n: "n < max_keys h" and p: "p \<le> n"
  defines "d' \<equiv> memmove d (rid_off h (int p) + 8) (rid_off h (int p)) ((int n - int p) * 8)"
  shows "rids_step h d d'" and "\<And>i. i \<le> n \<Longrightarrow> i \<noteq> p \<Longrightarrow> elem (rids_base h) 8 i d' = elem (rids_base h) 8 (if i < p then i else i - 1) d"
proof -
  note f = hdr_fits [OF h]
  have "rid_off h (int p) = int (rids_base h + p * 8)" "rid_off h (int p) + 8 = int (rids_base h + (p + 1) * 8)" "(int n - int p) * 8 = int ((n - p) * 8)"
    using f(3) p by (simp_all add: rid_off_def IX_PAGE_HDR_SIZE_def)
  note m = this [THEN arg_cong [where f = nat], unfolded nat_int]
  have e: "d' = memcpy d (rids_base h + (p + 1) * 8) (slice (rids_base h + p * 8) ((n - p) * 8) d)" unfolding d'_def memmove_def m ..
  have l: "rids_base h + (n + 1) * 8 \<le> PAGE_SIZE" using n f(2) by simp
  have len: "length (slice (rids_base h + p * 8) ((n - p) * 8) d) = (n - p) * 8" using l p d by (intro length_slice) simp
  show "rids_step h d d'" unfolding e using l p by (intro rids_stepI [OF h d]) (simp_all add: len)
  show "elem (rids_base h) 8 i d' = elem (rids_base h) 8 (if i < p then i else i - 1) d" if "i \<le> n" "i \<noteq> p" for i
    unfolding e using that p l d by (intro elem_move_right) simp_all
qed

lemma set_key_step:
  assumes h: "hdr_ok h" and d: "length d = PAGE_SIZE" and p: "p < max_keys h" and k: "key_len h \<le> length key"
  shows "keys_step h d (set_key h (int p) key d)"
    and "elem 24 (key_len h) i (set_key h (int p) key d) = (if i = p then take (key_len h) key else elem 24 (key_len h) i d)"
proof -
  have e: "set_key h (int p) key d = memcpy d (24 + p * key_len h) (take (key_len h) key)"
    by (simp add: set_key_def node_offs [OF h] slice_def)
  have l: "24 + p * key_len h + length (take (key_len h) key) \<le> rids_base h" using mult_Suc_le [OF p, of "key_len h"] k by simp
  then show "keys_step h d (set_key h (int p) key d)" unfolding e by (intro keys_stepI [OF h d]) simp_all
  have "24 + (p + 1) * key_len h \<le> length d" using l k hdr_fits(2) [OF h] d by simp
  then show "elem 24 (key_len h) i (set_key h (int p) key d) = (if i = p then take (key_len h) key else elem 24 (key_len h) i d)"
    unfolding e using k elem_memcpy_in [of "take (key_len h) key" 1 "key_len h" 24 p d i] elem_memcpy_other [of "take (key_len h) key" 1 "key_len h" 24 p d i]
    by (cases i p rule: linorder_cases) auto
qed

lemma set_rid_step:
  assumes h: "hdr_ok h" and d: "length d = PAGE_SIZE" and p: "p < max_keys h"
  shows "rids_step h d (set_rid h (int p) rid d)"
    and "elem (rids_base h) 8 i (set_rid h (int p) rid d) = (if i = p then Rid_bytes rid else elem (rids_base h) 8 i d)"
proof -
  have e: "set_rid h (int p) rid d = memcpy d (rids_base h + p * 8) (Rid_bytes rid)"
    by (simp add: set_rid_def node_offs [OF h])
  have lr: "length (Rid_bytes rid) = 8" by (simp add: Rid_bytes_def)
  have l: "rids_base h + (p + 1) * 8 \<le> PAGE_SIZE" using mult_Suc_le [OF p, of 8] hdr_fits(2) [OF h] by simp
  then show "rids_step h d (set_rid h (int p) rid d)" unfolding e by (intro rids_stepI [OF h d]) (simp_all add: lr)
  show "elem (rids_base h) 8 i (set_rid h (int p) rid d) = (if i = p then Rid_bytes rid else elem (rids_base h) 8 i d)"
    unfolding e using lr l d elem_memcpy_in [of "Rid_bytes rid" 1 8 "rids_base h" p d i] elem_memcpy_other [of "Rid_bytes rid" 1 8 "rids_base h" p d i]
    by (cases i p rule: linorder_cases) auto
qed

lemma move_keys_left:
  assumes h: "hdr_ok h" and d: "length d = PAGE_SIZE" and n: "n \<le> max_keys h" and p: "p < n"
  defines "d' \<equiv> memmove d (key_off h (int p)) (key_off h (int p) + ix_col_tot_len h) ((int n - int p - 1) * ix_col_tot_len h)"
  shows "keys_step h d d'" and "\<And>i. i < n - 1 \<Longrightarrow> elem 24 (key_len h) i d' = elem 24 (key_len h) (if i < p then i else i + 1) d"
    and "elem 24 (key_len h) (n - 1) d' = elem 24 (key_len h) (n - 1) d"
proof -
  note f = hdr_fits [OF h]
  have "int n - int p - 1 = int (n - p - 1)" using p by simp
  then have "key_off h (int p) = int (24 + p * key_len h)" "key_off h (int p) + ix_col_tot_len h = int (24 + (p + 1) * key_len h)"
    "(int n - int p - 1) * ix_col_tot_len h = int ((n - p - 1) * key_len h)"
    using f(5) by (simp_all add: key_off_def IX_PAGE_HDR_SIZE_def distrib_right)
  note m = this [THEN arg_cong [where f = nat], unfolded nat_int]
  have e: "d' = memcpy d (24 + p * key_len h) (slice (24 + (p + 1) * key_len h) ((n - p - 1) * key_len h) d)" unfolding d'_def memmove_def m ..
  have l: "n * key_len h \<le> max_keys h * key_len h" using n by (intro mult_right_mono) simp_all
  have pn: "p * key_len h + key_len h + (n - p - 1) * key_len h = n * key_len h"
    using less_imp_Suc_add [OF p] by (auto simp: algebra_simps)
  then have pn': "(p + 1) * key_len h + (n - p - 1) * key_len h = n * key_len h" by simp
  have len: "length (slice (24 + (p + 1) * key_len h) ((n - p - 1) * key_len h) d) = (n - p - 1) * key_len h"
    using l pn' f(2) d by (intro length_slice) linarith
  have "24 + p * key_len h + length (slice (24 + (p + 1) * key_len h) ((n - p - 1) * key_len h) d) \<le> rids_base h" unfolding len using l pn by linarith
  then show "keys_step h d d'" unfolding e by (intro keys_stepI [OF h d]) simp_all
  show "elem 24 (key_len h) i d' = elem 24 (key_len h) (if i < p then i else i + 1) d" if "i < n - 1" for i
    unfolding e
  proof (rule elem_move_left)
    show "24 + n * key_len h \<le> length d" using l f(2) d by linarith
  qed (use that p in simp_all)
  have "24 + (p + (n - p - 1)) * key_len h \<le> length d" using pn l f(2) d unfolding add_mult_distrib by linarith
  then show "elem 24 (key_len h) (n - 1) d' = elem 24 (key_len h) (n - 1) d" unfolding e using len p by (intro elem_memcpy_other) auto
qed

lemma move_rids_left:
  assumes h: "hdr_ok h" and d: "length d = PAGE_SIZE" and n: "n \<le> max_keys h" and p: "p < n"
  defines "d' \<equiv> memmove d (rid_off h (int p)) (rid_off h (int p) + 8) ((int n - int p - 1) * 8)"
  shows "rids_step h d d'" and "\<And>i. i < n - 1 \<Longrightarrow> elem (rids_base h) 8 i d' = elem (rids_base h) 8 (if i < p then i else i + 1) d"
    and "elem (rids_base h) 8 (n - 1) d' = elem (rids_base h) 8 (n - 1) d"
proof -
  note f = hdr_fits [OF h]
  have "rid_off h (int p) = int (rids_base h + p * 8)" "rid_off h (int p) + 8 = int (rids_base h + (p + 1) * 8)" "(int n - int p - 1) * 8 = int ((n - p - 1) * 8)"
    using f(3) p by (simp_all add: rid_off_def IX_PAGE_HDR_SIZE_def)
  note m = this [THEN arg_cong [where f = nat], unfolded nat_int]
  have e: "d' = memcpy d (rids_base h + p * 8) (slice (rids_base h + (p + 1) * 8) ((n - p - 1) * 8) d)" unfolding d'_def memmove_def m ..
  have l: "rids_base h + n * 8 \<le> PAGE_SIZE" using n f(2) by simp
  have len: "length (slice (rids_base h + (p + 1) * 8) ((n - p - 1) * 8) d) = (n - p - 1) * 8" using l p d by (intro length_slice) simp
  have "rids_base h + p * 8 + length (slice (rids_base h + (p + 1) * 8) ((n - p - 1) * 8) d) \<le> PAGE_SIZE" unfolding len using l p by simp
  then show "rids_step h d d'" unfolding e by (intro rids_stepI [OF h d]) simp_all
  show "elem (rids_base h) 8 i d' = elem (rids_base h) 8 (if i < p then i else i + 1) d" if "i < n - 1" for i
    unfolding e using that p l d by (intro elem_move_left) simp_all
  show "elem (rids_base h) 8 (n - 1) d' = elem (rids_base h) 8 (n - 1) d" unfolding e using len p l d by (intro elem_memcpy_other) auto
qed

section \<open>A node as a list of pairs\<close>

text \<open>The header fields apart from the number of keys.\<close>

definition same_links :: "bytes \<Rightarrow> bytes \<Rightarrow> bool" where
  "same_links d d' \<longleftrightarrow> get_parent_page_no d' = get_parent_page_no d \<and> get_prev_leaf d' = get_prev_leaf d \<and>
     get_next_leaf d' = get_next_leaf d \<and> is_leaf_page d' = is_leaf_page d"

lemma same_links_refl [simp]: "same_links d d"
  by (simp add: same_links_def)

lemma set_size_links: "length d = PAGE_SIZE \<Longrightarrow> int32 n \<Longrightarrow> same_hdr d0 d \<Longrightarrow> same_links d0 (set_size n d)"
  by (simp add: same_links_def set_size_fields same_hdr_fields)

lemma max_keys_small: "hdr_ok h \<Longrightarrow> n \<le> max_keys h \<Longrightarrow> int32 (int n)"
proof -
  assume "hdr_ok h" "n \<le> max_keys h"
  then have "n \<le> PAGE_SIZE" using hdr_fits(2) [of h] by simp
  then show ?thesis by (simp add: int32_def PAGE_SIZE_def)
qed

lemma nth_insert:
  "p \<le> length xs \<Longrightarrow> i \<le> length xs \<Longrightarrow> (take p xs @ x # drop p xs) ! i = (if i = p then x else xs ! (if i < p then i else i - 1))"
  by (auto simp: nth_append nth_Cons')

lemma insert_at_pairs:
  assumes h: "hdr_ok h" and d: "node_ok h d" and n: "get_size d = int n" "n < max_keys h" and p: "p \<le> n"
    and k: "length key = key_len h" and v: "Rid_ok val"
  shows "node_ok h (insert_at h (int p) key val d)" and "same_links d (insert_at h (int p) key val d)"
    and "node_keys h (insert_at h (int p) key val d) = take p (node_keys h d) @ key # drop p (node_keys h d)"
    and "node_rids h (insert_at h (int p) key val d) = take p (node_rids h d) @ val # drop p (node_rids h d)"
proof -
  let ?L = "key_len h" and ?R = "rids_base h"
  have ld: "length d = PAGE_SIZE" using d by (simp add: node_ok_def)
  define d1 where "d1 = memmove d (key_off h (int p) + ix_col_tot_len h) (key_off h (int p)) ((int n - int p) * ix_col_tot_len h)"
  define d2 where "d2 = memmove d1 (rid_off h (int p) + 8) (rid_off h (int p)) ((int n - int p) * 8)"
  define d3 where "d3 = set_key h (int p) key d2"
  define d4 where "d4 = set_rid h (int p) val d3"
  note s1 = move_keys_right [OF h ld n(2) p, folded d1_def]
  have l1: "length d1 = PAGE_SIZE" using s1(1) by (simp add: keys_step_def)
  note s2 = move_rids_right [OF h l1 n(2) p, folded d2_def]
  have l2: "length d2 = PAGE_SIZE" using s2(1) by (simp add: rids_step_def)
  have pm: "p < max_keys h" using p n by simp
  note s3 = set_key_step [OF h l2 pm, where key = key, folded d3_def]
  have l3: "length d3 = PAGE_SIZE" using s3(1) k by (simp add: keys_step_def)
  note s4 = set_rid_step [OF h l3 pm, where rid = val, folded d4_def]
  have l4: "length d4 = PAGE_SIZE" using s4(1) by (simp add: rids_step_def)
  have hd: "same_hdr d d4" using s1(1) s2(1) s3(1) s4(1) k by (auto simp: keys_step_def rids_step_def same_hdr_def)
  have sm: "int32 (int n + 1)" using max_keys_small [OF h, of "Suc n"] n by (simp add: add.commute)
  have e: "insert_at h (int p) key val d = set_size (int n + 1) d4"
    using same_hdr_fields(1) [OF hd] n(1) by (simp add: insert_at_def Let_def d1_def d2_def d3_def d4_def)
  note ss = set_size_fields [OF l4 sm]
  show "node_ok h (insert_at h (int p) key val d)" "same_links d (insert_at h (int p) key val d)"
    unfolding e using ss n set_size_links [OF l4 sm hd] by (auto simp: node_ok_def max_keys_def)
  have ke: "elem 24 ?L i (set_size (int n + 1) d4) = (if i = p then key else elem 24 ?L (if i < p then i else i - 1) d)" if i: "i \<le> n" for i
  proof -
    have "elem 24 ?L i (set_size (int n + 1) d4) = elem 24 ?L i d3" using ss(7) s4(1) i n(2) by (simp add: rids_step_def)
    moreover have "elem 24 ?L i d2 = elem 24 ?L i d1" using s2(1) i n(2) by (simp add: rids_step_def)
    ultimately show ?thesis using s3(2) [of i] k s1(2) [OF i] by simp
  qed
  have re: "elem ?R 8 i (set_size (int n + 1) d4) = (if i = p then Rid_bytes val else elem ?R 8 (if i < p then i else i - 1) d)" if i: "i \<le> n" for i
  proof -
    have "elem ?R 8 i (set_size (int n + 1) d4) = elem ?R 8 i d4" using ss(7) by simp
    moreover have "elem ?R 8 j d3 = elem ?R 8 j d2" "elem ?R 8 j d1 = elem ?R 8 j d" for j using s3(1) s1(1) k by (simp_all add: keys_step_def)
    ultimately show ?thesis using s4(2) [of i] s2(2) [OF i] by simp
  qed
  have sz: "nat (int n + 1) = Suc n" by simp
  show "node_keys h (insert_at h (int p) key val d) = take p (node_keys h d) @ key # drop p (node_keys h d)"
    unfolding e by (rule nth_equalityI) (use ke p in \<open>auto simp: ss(1) n(1) sz nth_insert node_elems [OF h]\<close>)
  show "node_rids h (insert_at h (int p) key val d) = take p (node_rids h d) @ val # drop p (node_rids h d)"
    unfolding e by (rule nth_equalityI) (use re p v in \<open>auto simp: ss(1) n(1) sz nth_insert node_elems [OF h]\<close>)
qed

lemma nth_erase: "i < length xs - 1 \<Longrightarrow> (take p xs @ drop (Suc p) xs) ! i = xs ! (if i < p then i else i + 1)"
  by (auto simp: nth_append min_def)

lemma erase_pair_pairs:
  assumes h: "hdr_ok h" and d: "node_ok h d" and n: "get_size d = int n" and p: "p < n"
  shows "node_ok h (erase_pair h (int p) d)" and "same_links d (erase_pair h (int p) d)"
    and "get_key h (int n - 1) (erase_pair h (int p) d) = get_key h (int n - 1) d" and "get_rid h (int n - 1) (erase_pair h (int p) d) = get_rid h (int n - 1) d"
    and "node_keys h (erase_pair h (int p) d) = take p (node_keys h d) @ drop (Suc p) (node_keys h d)"
    and "node_rids h (erase_pair h (int p) d) = take p (node_rids h d) @ drop (Suc p) (node_rids h d)"
proof -
  let ?L = "key_len h" and ?R = "rids_base h"
  have ld: "length d = PAGE_SIZE" and nm: "n \<le> max_keys h" using d n by (auto simp: node_ok_def max_keys_def)
  define d1 where "d1 = memmove d (key_off h (int p)) (key_off h (int p) + ix_col_tot_len h) ((int n - int p - 1) * ix_col_tot_len h)"
  define d2 where "d2 = memmove d1 (rid_off h (int p)) (rid_off h (int p) + 8) ((int n - int p - 1) * 8)"
  note s1 = move_keys_left [OF h ld nm p, folded d1_def]
  have l1: "length d1 = PAGE_SIZE" using s1(1) by (simp add: keys_step_def)
  note s2 = move_rids_left [OF h l1 nm p, folded d2_def]
  have l2: "length d2 = PAGE_SIZE" using s2(1) by (simp add: rids_step_def)
  have hd: "same_hdr d d2" using s1(1) s2(1) by (auto simp: keys_step_def rids_step_def same_hdr_def)
  have sz: "int n - 1 = int (n - 1)" using p by simp
  have sm: "int32 (int n - 1)" unfolding sz using max_keys_small [OF h, of "n - 1"] nm by simp
  have e: "erase_pair h (int p) d = set_size (int n - 1) d2"
    using same_hdr_fields(1) [OF hd] n by (simp add: erase_pair_def Let_def d1_def d2_def)
  note ss = set_size_fields [OF l2 sm]
  show "node_ok h (erase_pair h (int p) d)" "same_links d (erase_pair h (int p) d)"
    unfolding e using ss nm p set_size_links [OF l2 sm hd] by (auto simp: node_ok_def max_keys_def)
  have ke: "elem 24 ?L i (set_size (int n - 1) d2) = elem 24 ?L (if i < p then i else i + 1) d" if i: "i < n - 1" for i
    using ss(7) [of 24 ?L i] s2(1) s1(2) [OF i] i nm by (simp add: rids_step_def)
  have re: "elem ?R 8 i (set_size (int n - 1) d2) = elem ?R 8 (if i < p then i else i + 1) d" if i: "i < n - 1" for i
    using ss(7) [of ?R 8 i] s1(1) s2(2) [OF i] by (simp add: keys_step_def)
  have nz: "nat (int n - 1) = n - 1" by simp
  have "elem 24 ?L (n - 1) (set_size (int n - 1) d2) = elem 24 ?L (n - 1) d" using ss(7) [of 24 ?L "n - 1"] s2(1) s1(3) p nm by (simp add: rids_step_def)
  moreover have "elem ?R 8 (n - 1) (set_size (int n - 1) d2) = elem ?R 8 (n - 1) d" using ss(7) [of ?R 8 "n - 1"] s1(1) s2(3) by (simp add: keys_step_def)
  ultimately show "get_key h (int n - 1) (erase_pair h (int p) d) = get_key h (int n - 1) d" "get_rid h (int n - 1) (erase_pair h (int p) d) = get_rid h (int n - 1) d"
    unfolding e sz by (simp_all add: node_offs(3,4) [OF h])
  show "node_keys h (erase_pair h (int p) d) = take p (node_keys h d) @ drop (Suc p) (node_keys h d)"
    unfolding e by (rule nth_equalityI) (use ke p in \<open>auto simp: ss(1) n nz nth_erase node_elems [OF h]\<close>)
  show "node_rids h (erase_pair h (int p) d) = take p (node_rids h d) @ drop (Suc p) (node_rids h d)"
    unfolding e by (rule nth_equalityI) (use re p in \<open>auto simp: ss(1) n nz nth_erase node_elems [OF h]\<close>)
qed

text \<open>Pairs appended at the end, as merging two nodes does: nothing is moved.\<close>

lemma memmove_0: "memmove d a b 0 = d"
  by (simp add: memmove_def memcpy_def slice_def)

lemma slice_zero: "slice 0 n xs = take n xs"
  by (simp add: slice_def)

lemma slice_take: "off + n \<le> m \<Longrightarrow> slice off n (take m xs) = slice off n xs"
  using slice_slice [of off n m 0 xs] by (simp add: slice_zero)

lemma insert_pairs_append:
  assumes h: "hdr_ok h" and d: "node_ok h d" and n: "get_size d = int n" and m: "n + m \<le> max_keys h"
    and k: "m * key_len h \<le> length keys" and r: "m * 8 \<le> length rids"
  shows "node_ok h (insert_pairs h (int n) keys rids (int m) d)" and "same_links d (insert_pairs h (int n) keys rids (int m) d)"
    and "node_keys h (insert_pairs h (int n) keys rids (int m) d) = node_keys h d @ map (\<lambda>i. elem 0 (key_len h) i keys) [0..<m]"
    and "node_rids h (insert_pairs h (int n) keys rids (int m) d) = node_rids h d @ map (\<lambda>i. bytes_Rid (elem 0 8 i rids)) [0..<m]"
proof -
  let ?L = "key_len h" and ?R = "rids_base h"
  note f = hdr_fits [OF h]
  have ld: "length d = PAGE_SIZE" using d by (simp add: node_ok_def)
  define d1 where "d1 = memcpy d (24 + n * ?L) (take (m * ?L) keys)"
  define d2 where "d2 = memcpy d1 (?R + n * 8) (take (m * 8) rids)"
  have fit: "(n + m) * ?L \<le> max_keys h * ?L" "(n + m) * 8 \<le> max_keys h * 8" using m by (intro mult_right_mono; simp)+
  have lk: "length (take (m * ?L) keys) = m * ?L" "length (take (m * 8) rids) = m * 8" using k r by simp_all
  have s1: "keys_step h d d1" unfolding d1_def using fit(1) lk by (intro keys_stepI [OF h ld]) (simp_all add: algebra_simps)
  then have l1: "length d1 = PAGE_SIZE" by (simp add: keys_step_def)
  have s2: "rids_step h d1 d2" unfolding d2_def using fit(2) lk f(2) by (intro rids_stepI [OF h l1]) (simp_all add: algebra_simps)
  then have l2: "length d2 = PAGE_SIZE" by (simp add: rids_step_def)
  have hd: "same_hdr d d2" using s1 s2 by (auto simp: keys_step_def rids_step_def same_hdr_def)
  have cnt: "nat (int m * ix_col_tot_len h) = m * ?L" "nat (int m * 8) = m * 8" using f(5) by (simp_all add: nat_mult_distrib)
  have sm: "int32 (int n + int m)" using max_keys_small [OF h m] by simp
  have e: "insert_pairs h (int n) keys rids (int m) d = set_size (int n + int m) d2"
    using same_hdr_fields(1) [OF hd] n
    by (simp add: insert_pairs_def Let_def memmove_0 slice_zero cnt node_offs(1,2) [OF h] d1_def d2_def)
  note ss = set_size_fields [OF l2 sm]
  have "int n + int m \<le> btree_order h + 1" using m f(4) by (simp add: max_keys_def)
  then show "node_ok h (insert_pairs h (int n) keys rids (int m) d)" "same_links d (insert_pairs h (int n) keys rids (int m) d)"
    unfolding e using ss(1,6) set_size_links [OF l2 sm hd] by (simp_all add: node_ok_def)
  have f1: "24 + (n + m) * ?L \<le> length d" "?R + (n + m) * 8 \<le> length d1" using fit f(2) ld l1 by linarith+
  have ke: "elem 24 ?L i (set_size (int n + int m) d2) = (if i < n then elem 24 ?L i d else elem 0 ?L (i - n) keys)" if i: "i < n + m" for i
  proof -
    have "elem 24 ?L i (set_size (int n + int m) d2) = elem 24 ?L i d1" using ss(7) s2 i m by (simp add: rids_step_def)
    also have "\<dots> = (if i < n then elem 24 ?L i d else slice ((i - n) * ?L) ?L (take (m * ?L) keys))"
      unfolding d1_def using i elem_memcpy_other [OF lk(1) f1(1), of i] elem_memcpy_in [OF lk(1) f1(1), of i] by simp
    finally show ?thesis using slice_take [OF mult_Suc_le, of "i - n" m ?L keys] i by (auto simp: elem_def)
  qed
  have re: "elem ?R 8 i (set_size (int n + int m) d2) = (if i < n then elem ?R 8 i d else elem 0 8 (i - n) rids)" if i: "i < n + m" for i
  proof -
    have "elem ?R 8 i (set_size (int n + int m) d2) = (if i < n then elem ?R 8 i d1 else slice ((i - n) * 8) 8 (take (m * 8) rids))"
      unfolding d2_def using i ss(7) [of ?R 8 i] elem_memcpy_other [OF lk(2) f1(2), of i] elem_memcpy_in [OF lk(2) f1(2), of i] by (simp add: d2_def)
    then show ?thesis using slice_take [OF mult_Suc_le, of "i - n" m 8 rids] i s1 by (auto simp: keys_step_def elem_def)
  qed
  have sz: "nat (int n + int m) = n + m" by simp
  show "node_keys h (insert_pairs h (int n) keys rids (int m) d) = node_keys h d @ map (\<lambda>i. elem 0 ?L i keys) [0..<m]"
    unfolding e by (rule nth_equalityI) (use ke in \<open>auto simp: ss(1) n sz nth_append node_elems [OF h]\<close>)
  show "node_rids h (insert_pairs h (int n) keys rids (int m) d) = node_rids h d @ map (\<lambda>i. bytes_Rid (elem 0 8 i rids)) [0..<m]"
    unfolding e by (rule nth_equalityI) (use re in \<open>auto simp: ss(1) n sz nth_append node_elems [OF h]\<close>)
qed

section \<open>Property of the file header\<close>

lemma put_ints_length [simp]: "off + 4 * length is \<le> length dest \<Longrightarrow> length (put_ints dest off is) = length dest"
  by (induction dest off "is" rule: put_ints.induct) simp_all

lemma put_ints_before: "o2 + 4 \<le> off \<Longrightarrow> off + 4 * length is \<le> length dest \<Longrightarrow> load_int (put_ints dest off is) o2 = load_int dest o2"
  by (induction dest off "is" rule: put_ints.induct) (simp_all add: load_int_memcpy_other)

lemma put_ints_load:
  "off + 4 * length is \<le> length dest \<Longrightarrow> k < length is \<Longrightarrow> int32 (is ! k) \<Longrightarrow> load_int (put_ints dest off is) (off + 4 * k) = is ! k"
proof (induction dest off "is" arbitrary: k rule: put_ints.induct)
  case (2 dest offset i "is")
  show ?case
  proof (cases k)
    case 0
    then show ?thesis using 2 put_ints_before [of offset "offset + 4" "is" "memcpy dest offset (int_bytes i)"]
        load_store_int [of offset dest i] by (simp add: store_int_def)
  next
    case (Suc j)
    then show ?thesis using "2.IH" [of j] "2.prems" by (simp add: add.assoc)
  qed
qed simp

definition hdr_complete :: "IxFileHdr \<Rightarrow> bool" where
  "hdr_complete h \<longleftrightarrow>
     ix_col_num h = int (length (ix_col_types h)) \<and> length (ix_col_lens h) = length (ix_col_types h) \<and>
     (\<forall>i \<in> set (ix_col_lens h) \<union> {ix_tot_len h, ix_first_free_page_no h, ix_num_pages h, root_page h, ix_col_num h, ix_col_tot_len h, btree_order h,
        keys_size h, first_leaf h, last_leaf h}. int32 i)"

lemma load_int_append: "off + 4 \<le> length d \<Longrightarrow> load_int (d @ e) off = load_int d off"
  by (simp add: load_int_def slice_append_left)

lemma num_ColType_num [simp]: "num_ColType (ColType_num t) = t"
  by (cases t) (simp_all add: num_ColType_def ColType_num_def)

lemma hdr_roundtrip:
  assumes "hdr_complete (update_tot_len h)" and "int (length dest) = ix_tot_len (update_tot_len h)"
  shows "\<exists>d. IxFileHdr_serialize (update_tot_len h) dest = Inr d \<and> length d = length dest \<and>
     IxFileHdr_deserialize (d @ rest) (IxFileHdr_init junk) = Inr (update_tot_len h)"
proof -
  let ?h = "update_tot_len h" let ?n = "length (ix_col_types ?h)"
  define fs where "fs = [ix_tot_len ?h, ix_first_free_page_no ?h, ix_num_pages ?h, root_page ?h, ix_col_num ?h] @ map ColType_num (ix_col_types ?h) @
    ix_col_lens ?h @ [ix_col_tot_len ?h, btree_order ?h, keys_size ?h, first_leaf ?h, last_leaf ?h]"
  have c: "ix_col_num ?h = int ?n" "length (ix_col_lens ?h) = ?n" and i32: "\<forall>i \<in> set fs. int32 i"
    using assms(1) by (auto simp: hdr_complete_def fs_def int32_def ColType_num_def split: ColType.splits)
  have tl: "ix_tot_len ?h = 40 + 8 * int ?n" using c by (simp add: update_tot_len_def)
  have lf: "length fs = 10 + 2 * ?n" using c by (simp add: fs_def)
  have ld: "length dest = 4 * length fs" using assms(2) tl lf by simp
  let ?d = "put_ints dest 0 fs"
  have ser: "IxFileHdr_serialize ?h dest = Inr ?d" using c tl lf by (simp add: IxFileHdr_serialize_def Let_def fs_def)
  have load: "load_int (?d @ rest) (4 * k) = fs ! k" if "k < length fs" for k
    using put_ints_load [of 0 fs dest k] that ld i32 load_int_append [of "4 * k" ?d rest] by simp
  have at: "fs ! 0 = ix_tot_len ?h" "fs ! 1 = ix_first_free_page_no ?h" "fs ! 2 = ix_num_pages ?h" "fs ! 3 = root_page ?h" "fs ! 4 = int ?n"
    "fs ! (5 + 2 * ?n) = ix_col_tot_len ?h" "fs ! (6 + 2 * ?n) = btree_order ?h" "fs ! (7 + 2 * ?n) = keys_size ?h" "fs ! (8 + 2 * ?n) = first_leaf ?h"
    "fs ! (9 + 2 * ?n) = last_leaf ?h" using c by (simp_all add: fs_def nth_append numeral_eq_Suc)
  have l5: "load_int (?d @ rest) 0 = fs ! 0" "load_int (?d @ rest) 4 = fs ! 1" "load_int (?d @ rest) 8 = fs ! 2" "load_int (?d @ rest) 12 = fs ! 3"
    "load_int (?d @ rest) 16 = fs ! 4" using load [of 0] load [of 1] load [of 2] load [of 3] load [of 4] lf by simp_all
  have lr: "load_int (?d @ rest) (20 + 8 * ?n) = fs ! (5 + 2 * ?n)" "load_int (?d @ rest) (20 + 8 * ?n + 4) = fs ! (6 + 2 * ?n)"
    "load_int (?d @ rest) (20 + 8 * ?n + 8) = fs ! (7 + 2 * ?n)" "load_int (?d @ rest) (20 + 8 * ?n + 12) = fs ! (8 + 2 * ?n)"
    "load_int (?d @ rest) (20 + 8 * ?n + 16) = fs ! (9 + 2 * ?n)"
    using load [of "5 + 2 * ?n"] load [of "6 + 2 * ?n"] load [of "7 + 2 * ?n"] load [of "8 + 2 * ?n"] load [of "9 + 2 * ?n"] lf
    by (simp_all add: algebra_simps)
  have fi: "fs ! (5 + i) = ColType_num (ix_col_types ?h ! i)" "fs ! (5 + ?n + i) = ix_col_lens ?h ! i" if "i < ?n" for i
    using that c by (simp_all add: fs_def nth_append)
  have "load_int (?d @ rest) (20 + 4 * i) = fs ! (5 + i)" "load_int (?d @ rest) (20 + 4 * ?n + 4 * i) = fs ! (5 + ?n + i)" if "i < ?n" for i
    using load [of "5 + i"] load [of "5 + ?n + i"] that lf by (simp_all add: algebra_simps)
  then have "map num_ColType (get_ints (?d @ rest) 20 ?n) = ix_col_types ?h" "get_ints (?d @ rest) (20 + 4 * ?n) ?n = ix_col_lens ?h"
    using fi c(2) by (auto intro!: nth_equalityI simp: get_ints_def)
  then have "IxFileHdr_deserialize (?d @ rest) (IxFileHdr_init junk) = Inr ?h"
    using l5 lr at c(1) tl by (simp add: IxFileHdr_deserialize_def IxFileHdr_init_def Let_def)
  then show ?thesis using ser ld by simp
qed

text \<open>
  C33: the header of an index file survives writing and reading. A header whose vectors have as many entries as it has
  columns, with the length \<open>update_tot_len\<close> computes, serialized into a buffer of that length and read back from bytes
  that start with it, into a header made by the default constructor, is the same header; the assertions on the offset hold.
\<close>

theorem index_header_roundtrip:
  assumes "hdr_complete (update_tot_len h)" and "int (length dest) = ix_tot_len (update_tot_len h)"
  shows "\<exists>d. IxFileHdr_serialize (update_tot_len h) dest = Inr d \<and> length d = length dest \<and>
     IxFileHdr_deserialize (d @ rest) (IxFileHdr_init junk) = Inr (update_tot_len h)"
  using assms by (rule hdr_roundtrip)

text \<open>The header of an index on one integer column.\<close>

definition sample_hdr :: IxFileHdr where
  "sample_hdr =
     \<lparr>ix_first_free_page_no = -1, ix_num_pages = 3, root_page = -1, ix_col_num = 1, ix_col_types = [TYPE_INT], ix_col_lens = [4],
      ix_col_tot_len = 4, btree_order = 338, keys_size = 1356, first_leaf = 2, last_leaf = 2, ix_tot_len = 48\<rparr>"

theorem index_header_roundtrip_witness:
  "\<exists>d. IxFileHdr_serialize (update_tot_len sample_hdr) (memset 48 0) = Inr d \<and> length d = 48 \<and>
     IxFileHdr_deserialize (d @ [7]) (IxFileHdr_init sample_hdr) = Inr (update_tot_len sample_hdr)"
  using index_header_roundtrip [of sample_hdr "memset 48 0" "[7]" sample_hdr]
  by (simp add: hdr_complete_def update_tot_len_def sample_hdr_def int32_def)

lemma sample_hdr_ok: "hdr_ok sample_hdr"
  by (simp add: hdr_ok_def sample_hdr_def IX_PAGE_HDR_SIZE_def PAGE_SIZE_def)

end
