(* ===== verification/IxSearch.thy ===== *)
theory IxSearch
  imports IxNode
begin

text \<open>
  Search, insertion and removal in the nodes of the B+ tree, on nodes whose keys are in order. The binary searches agree
  with a linear search; a leaf is a finite map from keys to record ids.
\<close>

section \<open>Binary search\<close>

lemma search_finds:
  assumes "l \<le> r" and "\<And>i. l \<le> i \<Longrightarrow> i \<le> r \<Longrightarrow> left i = Inr (P i)"
    and "\<And>i j. l \<le> i \<Longrightarrow> i \<le> j \<Longrightarrow> j \<le> r \<Longrightarrow> P j \<Longrightarrow> P i"
  shows "\<exists>m. search left l r = Inr m \<and> l \<le> m \<and> m \<le> r \<and> (\<forall>i. l \<le> i \<and> i < m \<longrightarrow> P i) \<and> (m < r \<longrightarrow> \<not> P m)"
  using assms
proof (induction left l r rule: search.induct)
  case (1 left l r)
  let ?m = "(l + r) div 2"
  show ?case
  proof (cases "l < r")
    case False
    then show ?thesis using "1.prems"(1) by (subst search.simps) auto
  next
    case lr: True
    then have m: "l \<le> ?m" "?m < r" by auto
    have lm: "left ?m = Inr (P ?m)" using m "1.prems"(2) by simp
    show ?thesis
    proof (cases "P ?m")
      case True
      have "\<exists>k. search left (?m + 1) r = Inr k \<and> ?m + 1 \<le> k \<and> k \<le> r \<and> (\<forall>i. ?m + 1 \<le> i \<and> i < k \<longrightarrow> P i) \<and> (k < r \<longrightarrow> \<not> P k)"
        by (rule "1.IH"(1) [OF lr refl lm True]) (use m "1.prems"(2,3) in auto)
      then obtain k where k: "search left (?m + 1) r = Inr k" "?m + 1 \<le> k" "k \<le> r" "\<forall>i. ?m + 1 \<le> i \<and> i < k \<longrightarrow> P i" "k < r \<longrightarrow> \<not> P k" by blast
      have "P i" if "l \<le> i" "i < k" for i using k(4) that "1.prems"(3) [of i ?m] True m by (cases "?m + 1 \<le> i") auto
      moreover have "search left l r = Inr k" using k(1) lr lm True by (subst search.simps) (simp add: Let_def)
      ultimately show ?thesis using k m by auto
    next
      case False
      have "\<exists>k. search left l ?m = Inr k \<and> l \<le> k \<and> k \<le> ?m \<and> (\<forall>i. l \<le> i \<and> i < k \<longrightarrow> P i) \<and> (k < ?m \<longrightarrow> \<not> P k)"
        by (rule "1.IH"(2) [OF lr refl lm False]) (use m "1.prems"(2,3) in auto)
      moreover have "search left l r = search left l ?m" using lr lm False by (subst search.simps) (simp add: Let_def)
      ultimately show ?thesis using m False by (metis order_le_less order_le_less_trans less_imp_le)
    qed
  qed
qed

text \<open>The reference: the first position from \<open>l\<close> on with the property, or -1.\<close>

definition first_from :: "nat \<Rightarrow> nat \<Rightarrow> (nat \<Rightarrow> bool) \<Rightarrow> int" where
  "first_from l n P = (case find P [l..<n] of None \<Rightarrow> -1 | Some i \<Rightarrow> int i)"

lemma first_from_eq:
  assumes "l \<le> m" and "m < n" and "P m" and "\<And>i. l \<le> i \<Longrightarrow> i < m \<Longrightarrow> \<not> P i"
  shows "first_from l n P = int m"
proof -
  have "find P [l..<n] = Some m" unfolding find_Some_iff using assms by (intro exI [of _ "m - l"]) auto
  then show ?thesis by (simp add: first_from_def)
qed

lemma first_from_none: "(\<And>i. l \<le> i \<Longrightarrow> i < n \<Longrightarrow> \<not> P i) \<Longrightarrow> first_from l n P = -1"
  by (auto simp: first_from_def find_None_iff split: option.split)

definition first_slot :: "bytes \<Rightarrow> nat" where
  "first_slot d = (if is_leaf_page d then 0 else 1)"

lemma bound_by_first:
  assumes h: "hdr_ok h" and n: "get_size d = int n" "first_slot d < n"
    and j: "\<And>i. first_slot d \<le> i \<Longrightarrow> i < n \<Longrightarrow> judge (node_keys h d ! i) = Inr (j i)"
    and mono: "\<And>i k. first_slot d \<le> i \<Longrightarrow> i \<le> k \<Longrightarrow> k < n \<Longrightarrow> left (j k) \<Longrightarrow> left (j i)"
  shows "bound_by left judge h d = Inr (first_from (first_slot d) n (\<lambda>i. \<not> left (j i)))"
proof -
  let ?l = "first_slot d"
  let ?judge_at = "\<lambda>i. case judge (get_key h i d) of Inl e \<Rightarrow> Inl e | Inr j \<Rightarrow> Inr (left j)"
  let ?P = "\<lambda>i. left (j (nat i))"
  have at: "?judge_at i = Inr (?P i)" if "int ?l \<le> i" "i \<le> int n - 1" for i
    using that j [of "nat i"] n by (simp add: node_keys_nth)
  have "\<exists>m. search ?judge_at (int ?l) (int n - 1) = Inr m \<and> int ?l \<le> m \<and> m \<le> int n - 1 \<and> (\<forall>i. int ?l \<le> i \<and> i < m \<longrightarrow> ?P i) \<and> (m < int n - 1 \<longrightarrow> \<not> ?P m)"
  proof (rule search_finds [OF _ at])
    fix i k assume "int ?l \<le> i" "i \<le> k" "k \<le> int n - 1" "?P k"
    then show "?P i" using mono [of "nat i" "nat k"] by auto
  qed (use n in auto)
  then obtain m where m: "search ?judge_at (int ?l) (int n - 1) = Inr m" "int ?l \<le> m" "m \<le> int n - 1" "\<forall>i. int ?l \<le> i \<and> i < m \<longrightarrow> ?P i" "m < int n - 1 \<longrightarrow> \<not> ?P m"
    by blast
  have l: "int ?l = (if is_leaf_page d then 0 else 1)" by (simp add: first_slot_def)
  have e: "bound_by left judge h d = Inr (if \<not> ?P m then m else -1)"
    using m(1) at [OF m(2,3)] l n(1) by (simp add: bound_by_def Let_def split: if_splits)
  have before: "left (j i)" if "?l \<le> i" "i < nat m" for i using m(4) that by (metis nat_int of_nat_le_iff zless_nat_eq_int_zless)
  have "first_from ?l n (\<lambda>i. \<not> left (j i)) = (if \<not> ?P m then m else -1)"
  proof (cases "?P m")
    case True
    then have mn: "m = int n - 1" using m(3,5) by auto
    have "left (j i)" if "?l \<le> i" "i < n" for i
      using before [OF that(1)] True that mn by (cases "i = n - 1") (auto simp: nat_diff_distrib)
    then have "first_from ?l n (\<lambda>i. \<not> left (j i)) = -1" by (intro first_from_none) simp
    then show ?thesis using True by simp
  next
    case False
    then have "first_from ?l n (\<lambda>i. \<not> left (j i)) = int (nat m)" using m(2,3) before by (intro first_from_eq) auto
    then show ?thesis using False m(2) by simp
  qed
  then show ?thesis using e by simp
qed

section \<open>Keys that compare equal only when they are equal\<close>

text \<open>
  The nodes use both \<open>ix_compare\<close> and \<open>memcmp\<close>; they agree on keys whose numbers take four bytes and whose floats are
  neither NaN nor the negative zero.
\<close>

fun key_exact :: "(ColType \<times> nat) list \<Rightarrow> bytes \<Rightarrow> bool" where
  "key_exact [] k \<longleftrightarrow> k = []"
| "key_exact ((t, l) # cols) k \<longleftrightarrow>
     (case t of
        TYPE_INT \<Rightarrow> l = 4
      | TYPE_FLOAT \<Rightarrow> l = 4 \<and> \<not> f32_nan (word_of_int (load_int k 0)) \<and>
          \<not> (f32_neg (word_of_int (load_int k 0)) \<and> f32_abs (word_of_int (load_int k 0)) = 0)
      | TYPE_STRING \<Rightarrow> True
      | TYPE_DATETIME \<Rightarrow> False) \<and> l \<le> length k \<and> key_exact cols (drop l k)"

lemma key_exact_ok: "key_exact cols k \<Longrightarrow> key_ok cols k"
  by (induction cols k rule: key_exact.induct) (auto split: ColType.splits)

lemma key_exact_length: "key_exact cols k \<Longrightarrow> length k = sum_list (map snd cols)"
  by (induction cols k rule: key_exact.induct) auto

lemma bytes_int_inj: "length a = 4 \<Longrightarrow> length b = 4 \<Longrightarrow> bytes_int a = bytes_int b \<Longrightarrow> a = b"
proof -
  assume l: "length a = 4" "length b = 4" and e: "bytes_int a = bytes_int b"
  have "le_nat a = le_nat b" using e le_nat_bound [of a] le_nat_bound [of b] l by (auto simp: bytes_int_def Let_def split: if_splits)
  then show "a = b" using le_bytes_le_nat [of a] le_bytes_le_nat [of b] l by simp
qed

lemma load_int_inj: "4 \<le> length a \<Longrightarrow> 4 \<le> length b \<Longrightarrow> load_int a 0 = load_int b 0 \<Longrightarrow> take 4 a = take 4 b"
  using bytes_int_inj [of "take 4 a" "take 4 b"] by (simp add: load_int_def slice_def)

lemma memcmp_0: "n \<le> length a \<Longrightarrow> n \<le> length b \<Longrightarrow> memcmp a b n = 0 \<longleftrightarrow> take n a = take n b"
  by (induction a b n rule: memcmp.induct) (auto simp: Suc_le_length_iff split: if_splits)

lemma f32_key_inj:
  assumes "f32_key v = f32_key w" and "\<not> (f32_neg v \<and> f32_abs v = 0)" and "\<not> (f32_neg w \<and> f32_abs w = 0)"
  shows "v = w"
proof -
  have lt: "unat v < 2 ^ 32" "unat w < 2 ^ 32" using unsigned_less [of v] unsigned_less [of w] by simp_all
  have "f32_neg v = f32_neg w \<and> f32_abs v = f32_abs w" using assms by (auto simp: f32_key_def split: if_splits)
  then have "(2 ^ 31 \<le> unat v \<longleftrightarrow> 2 ^ 31 \<le> unat w) \<and> unat v mod 2 ^ 31 = unat w mod 2 ^ 31" by (simp add: f32_neg_def f32_abs_def)
  moreover have "x div 2 ^ 31 = (if 2 ^ 31 \<le> x then 1 else 0)" if "x < 2 ^ 32" for x :: nat using that by (auto simp: div_if [of x])
  ultimately have "unat v div 2 ^ 31 = unat w div 2 ^ 31" "unat v mod 2 ^ 31 = unat w mod 2 ^ 31" using lt by auto
  then have "unat v = unat w" by (metis div_mult_mod_eq)
  then show ?thesis by (rule unsigned_word_eqI)
qed

lemma col_cmp_exact:
  assumes "key_exact ((t, l) # cols) a" and "key_exact ((t, l) # cols) b" and "col_cmp t l a b = 0"
  shows "take l a = take l b"
proof (cases t)
  case TYPE_INT
  then show ?thesis using assms load_int_inj [of a b] by (auto simp: col_cmp_def ix_compare_col_def Let_def split: if_splits)
next
  case TYPE_FLOAT
  let ?v = "word_of_int (load_int a 0) :: f32" and ?w = "word_of_int (load_int b 0) :: f32"
  have l: "l = 4" "4 \<le> length a" "4 \<le> length b" using assms(1,2) TYPE_FLOAT by auto
  have "f32_key ?v = f32_key ?w" using assms TYPE_FLOAT by (auto simp: col_cmp_def ix_compare_col_def Let_def f32_lt_def split: if_splits)
  then have "?v = ?w" using assms(1,2) TYPE_FLOAT by (intro f32_key_inj) auto
  then have "sint ?v = sint ?w" by simp
  then have "load_int a 0 = load_int b 0"
    using int32_load_int [of 0 a] int32_load_int [of 0 b] l by (simp only: sint_of_int32 add_0)
  then show ?thesis using load_int_inj [of a b] l by simp
next
  case TYPE_STRING
  then show ?thesis using assms memcmp_0 [of l a b] by (simp add: col_cmp_def ix_compare_col_def)
qed (use assms in simp)

lemma ix_cmp_exact: "key_exact cols a \<Longrightarrow> key_exact cols b \<Longrightarrow> ix_cmp cols a b = 0 \<Longrightarrow> a = b"
proof (induction cols arbitrary: a b)
  case (Cons c cols)
  obtain t l where c: "c = (t, l)" by (cases c)
  note ab = Cons.prems(1,2) [unfolded c]
  have "col_cmp t l a b = 0 \<and> ix_cmp cols (drop l a) (drop l b) = 0"
    using Cons.prems(3) ix_cmp_Cons [OF key_exact_ok [OF ab(1)], of b] by (auto simp: c split: if_splits)
  then have "take l a = take l b" "drop l a = drop l b" using col_cmp_exact [OF ab] Cons.IH ab by auto
  then show ?case by (metis append_take_drop_id)
qed simp

lemma ix_cmp_0: "key_exact cols a \<Longrightarrow> key_exact cols b \<Longrightarrow> ix_cmp cols a b = 0 \<longleftrightarrow> a = b"
  using ix_cmp_exact index_keys.cmp_refl key_exact_ok by blast

lemma exact_flip: "key_exact cols a \<Longrightarrow> key_exact cols b \<Longrightarrow> ix_cmp cols b a = - ix_cmp cols a b"
  using index_keys.cmp_flip key_exact_ok by blast

section \<open>Nodes in order\<close>

definition key_lt :: "IxFileHdr \<Rightarrow> bytes \<Rightarrow> bytes \<Rightarrow> bool" where
  "key_lt h a b \<longleftrightarrow> ix_cmp (key_spec h) a b < 0"

definition node_sorted :: "IxFileHdr \<Rightarrow> bytes \<Rightarrow> bool" where
  "node_sorted h d \<longleftrightarrow>
     (let ks = drop (first_slot d) (node_keys h d) in sorted_wrt (key_lt h) ks \<and> (\<forall>k \<in> set ks. key_exact (key_spec h) k))"

lemma key_lt_trans:
  "key_ok (key_spec h) a \<Longrightarrow> key_ok (key_spec h) b \<Longrightarrow> key_ok (key_spec h) c \<Longrightarrow> key_lt h a b \<Longrightarrow> key_lt h b c \<Longrightarrow> key_lt h a c"
  unfolding key_lt_def using index_keys.cmp_less_trans [of a "key_spec h" b c] by simp

lemma node_sorted_nth:
  assumes "node_sorted h d" and "get_size d = int n" and "first_slot d \<le> i" and "i < n"
  shows "key_exact (key_spec h) (node_keys h d ! i)" and "i < k \<Longrightarrow> k < n \<Longrightarrow> key_lt h (node_keys h d ! i) (node_keys h d ! k)"
proof -
  let ?ks = "drop (first_slot d) (node_keys h d)"
  have e: "?ks ! (j - first_slot d) = node_keys h d ! j" if "first_slot d \<le> j" "j < n" for j using that assms(2) by simp
  have len: "length ?ks = n - first_slot d" using assms(2) by simp
  have "?ks ! (i - first_slot d) \<in> set ?ks" using assms(3,4) len by (intro nth_mem) simp
  then show "key_exact (key_spec h) (node_keys h d ! i)" using assms(1) e [OF assms(3,4)] by (simp add: node_sorted_def Let_def)
  show "key_lt h (node_keys h d ! i) (node_keys h d ! k)" if "i < k" "k < n"
    using sorted_wrt_nth_less [of "key_lt h" ?ks "i - first_slot d" "k - first_slot d"] assms(1,3,4) that len e [of i] e [of k]
    by (simp add: node_sorted_def Let_def diff_less_mono)
qed

text \<open>The keys of a node that are less than the target come first.\<close>

lemma node_judge:
  assumes "node_sorted h d" and "get_size d = int n" and "key_ok (key_spec h) target" and "first_slot d \<le> i" and "i < n"
  defines "c \<equiv> \<lambda>i. ix_cmp (key_spec h) (node_keys h d ! i) target"
  shows "judge_key h target (node_keys h d ! i) = Inr (c i)" and "i \<le> k \<Longrightarrow> k < n \<Longrightarrow> c k < 0 \<Longrightarrow> c i < 0" and "i \<le> k \<Longrightarrow> k < n \<Longrightarrow> c k \<le> 0 \<Longrightarrow> c i \<le> 0"
proof -
  note ok = key_exact_ok [OF node_sorted_nth(1) [OF assms(1,2)]]
  show "judge_key h target (node_keys h d ! i) = Inr (c i)" using ix_compare_Inr [OF ok [OF assms(4,5)]] by (simp add: c_def)
  have lt: "c i < 0" if "i < k" "k < n" "c k \<le> 0" for k
    using index_keys.cmp_less_trans [of "node_keys h d ! i" "key_spec h" "node_keys h d ! k" target] node_sorted_nth(2) [OF assms(1,2,4,5) that(1,2)]
      ok [OF assms(4,5)] ok [of k] that assms(3,4) by (simp add: key_lt_def c_def)
  show "i \<le> k \<Longrightarrow> k < n \<Longrightarrow> c k < 0 \<Longrightarrow> c i < 0" "i \<le> k \<Longrightarrow> k < n \<Longrightarrow> c k \<le> 0 \<Longrightarrow> c i \<le> 0" using lt [of k] by (auto simp: order_le_less)
qed

lemma bounds_first:
  assumes "hdr_ok h" and "node_sorted h d" and "get_size d = int n" and "first_slot d < n" and "key_ok (key_spec h) target"
  shows "node_lower_bound (judge_key h target) h d = Inr (first_from (first_slot d) n (\<lambda>i. \<not> ix_cmp (key_spec h) (node_keys h d ! i) target < 0))"
    and "node_upper_bound (judge_key h target) h d = Inr (first_from (first_slot d) n (\<lambda>i. \<not> ix_cmp (key_spec h) (node_keys h d ! i) target \<le> 0))"
proof -
  note judge = node_judge [OF assms(2,3,5)]
  show "node_lower_bound (judge_key h target) h d = Inr (first_from (first_slot d) n (\<lambda>i. \<not> ix_cmp (key_spec h) (node_keys h d ! i) target < 0))"
    unfolding node_lower_bound_def
    by (rule bound_by_first [OF assms(1,3,4), where left = "\<lambda>j. j < 0" and j = "\<lambda>i. ix_cmp (key_spec h) (node_keys h d ! i) target"])
      (rule judge(1,2); simp)+
  show "node_upper_bound (judge_key h target) h d = Inr (first_from (first_slot d) n (\<lambda>i. \<not> ix_cmp (key_spec h) (node_keys h d ! i) target \<le> 0))"
    unfolding node_upper_bound_def
    by (rule bound_by_first [OF assms(1,3,4), where left = "\<lambda>j. j \<le> 0" and j = "\<lambda>i. ix_cmp (key_spec h) (node_keys h d ! i) target"])
      (rule judge(1,3); simp)+
qed

section \<open>A leaf as a finite map\<close>

definition leaf_map :: "IxFileHdr \<Rightarrow> bytes \<Rightarrow> bytes \<rightharpoonup> Rid" where
  "leaf_map h d = map_of (zip (node_keys h d) (node_rids h d))"

definition leaf_ok :: "IxFileHdr \<Rightarrow> bytes \<Rightarrow> bool" where
  "leaf_ok h d \<longleftrightarrow> node_ok h d \<and> is_leaf_page d \<and> node_sorted h d"

lemma spec_lens: "hdr_ok h \<Longrightarrow> sum_list (map snd (key_spec h)) = key_len h"
proof -
  assume h: "hdr_ok h"
  have "int (sum_list (map nat ls)) = sum_list ls" if "\<forall>l \<in> set ls. 0 \<le> l" for ls :: "int list" using that by (induction ls) simp_all
  then have "int (sum_list (map nat (ix_col_lens h))) = ix_col_tot_len h" using h by (simp add: hdr_ok_def)
  then show ?thesis using h by (simp add: key_spec_def key_len_def hdr_ok_def flip: map_snd_zip_take)
qed

text \<open>What the strict order says about a position that splits the keys around a key.\<close>

lemma split_position:
  assumes "sorted_wrt (key_lt h) ks" and "\<forall>k \<in> set ks. key_exact (key_spec h) k" and "key_exact (key_spec h) key"
    and "p \<le> length ks" and "\<And>i. i < p \<Longrightarrow> ix_cmp (key_spec h) (ks ! i) key < 0" and "p < length ks \<Longrightarrow> 0 < ix_cmp (key_spec h) (ks ! p) key"
  shows "key \<notin> set ks" and "sorted_wrt (key_lt h) (take p ks @ key # drop p ks)"
proof -
  have le: "0 < ix_cmp (key_spec h) (ks ! i) key" if "p \<le> i" "i < length ks" for i
  proof (cases "i = p")
    case False
    then have "key_lt h (ks ! p) (ks ! i)" using sorted_wrt_nth_less [OF assms(1), of p i] that by simp
    moreover have "key_ok (key_spec h) (ks ! p)" "key_ok (key_spec h) (ks ! i)" "key_ok (key_spec h) key"
      using assms(2,3) that by (auto intro!: key_exact_ok)
    ultimately show ?thesis using assms(6) that index_keys.cmp_flip [of "ks ! p" "key_spec h" key] index_keys.cmp_flip [of "ks ! i" "key_spec h" key]
        index_keys.cmp_less_trans [of key "key_spec h" "ks ! p" "ks ! i"] by (auto simp: key_lt_def)
  qed (use assms(6) that in simp)
  have ne: "ix_cmp (key_spec h) (ks ! i) key \<noteq> 0" if "i < length ks" for i using le [of i] assms(5) [of i] that by (cases "p \<le> i") auto
  show "key \<notin> set ks" using ne ix_cmp_0 [OF assms(3,3)] by (auto simp: in_set_conv_nth)
  have "key_lt h k key" if "k \<in> set (take p ks)" for k using that assms(5) by (auto simp: in_set_conv_nth key_lt_def)
  moreover have "key_lt h key k" if kd: "k \<in> set (drop p ks)" for k
  proof -
    obtain i where "i < length ks" "p \<le> i" "k = ks ! i" using kd assms(4) by (auto simp: in_set_conv_nth) (metis le_add1 less_diff_conv add.commute)
    then show ?thesis using le [of i] exact_flip [of "key_spec h" k key] assms(2,3) by (simp add: key_lt_def)
  qed
  moreover have "key_lt h a b" if "a \<in> set (take p ks)" "b \<in> set (drop p ks)" for a b
    using assms(1) that by (metis append_take_drop_id sorted_wrt_append)
  ultimately show "sorted_wrt (key_lt h) (take p ks @ key # drop p ks)"
    using sorted_wrt_take [OF assms(1)] sorted_wrt_drop [OF assms(1)] by (simp add: sorted_wrt_append)
qed

lemma map_of_middle: "key \<notin> fst ` set xs \<Longrightarrow> map_of (xs @ (key, v) # ys) = (map_of (xs @ ys))(key \<mapsto> v)"
  by (induction xs) auto

lemma zip_split: "length vs = length ks \<Longrightarrow> zip ks vs = zip (take p ks) (take p vs) @ zip (drop p ks) (drop p vs)"
  by (metis append_take_drop_id drop_zip take_zip)

lemma map_of_insert:
  assumes "length vs = length ks" and "key \<notin> set ks"
  shows "map_of (zip (take p ks @ key # drop p ks) (take p vs @ v # drop p vs)) = (map_of (zip ks vs))(key \<mapsto> v)"
proof -
  have "key \<notin> fst ` set (zip (take p ks) (take p vs))" using assms(2) by (auto dest!: set_zip_leftD in_set_takeD)
  from map_of_middle [OF this, of v "zip (drop p ks) (drop p vs)"] show ?thesis using assms(1) by (simp flip: zip_split)
qed

text \<open>Where \<open>lower_bound\<close> leaves a leaf.\<close>

lemma leaf_lower_bound:
  assumes h: "hdr_ok h" and l: "leaf_ok h d" and n: "get_size d = int n" "0 < n" and k: "key_exact (key_spec h) key"
  obtains (all_less) "node_lower_bound (judge_key h key) h d = Inr (-1)" "\<And>i. i < n \<Longrightarrow> ix_cmp (key_spec h) (node_keys h d ! i) key < 0"
  | (found) p where "node_lower_bound (judge_key h key) h d = Inr (int p)" "p < n" "node_keys h d ! p = key"
      "\<And>i. i < p \<Longrightarrow> ix_cmp (key_spec h) (node_keys h d ! i) key < 0"
  | (between) p where "node_lower_bound (judge_key h key) h d = Inr (int p)" "p < n" "0 < ix_cmp (key_spec h) (node_keys h d ! p) key"
      "\<And>i. i < p \<Longrightarrow> ix_cmp (key_spec h) (node_keys h d ! i) key < 0"
proof -
  let ?c = "\<lambda>i. ix_cmp (key_spec h) (node_keys h d ! i) key"
  have fs: "first_slot d = 0" using l by (simp add: leaf_ok_def first_slot_def)
  have b: "node_lower_bound (judge_key h key) h d = Inr (first_from 0 n (\<lambda>i. \<not> ?c i < 0))"
    using bounds_first(1) [OF h _ n(1), of key] l n(2) key_exact_ok [OF k] fs by (simp add: leaf_ok_def)
  have ex: "key_exact (key_spec h) (node_keys h d ! i)" if "i < n" for i using l n fs that by (intro node_sorted_nth(1)) (auto simp: leaf_ok_def)
  show thesis
  proof (cases "find (\<lambda>i. \<not> ?c i < 0) [0..<n]")
    case None
    then show thesis using b None by (intro all_less) (simp_all add: first_from_def, simp add: find_None_iff)
  next
    case (Some p)
    then have p: "p < n" "\<not> ?c p < 0" "\<And>i. i < p \<Longrightarrow> ?c i < 0" by (auto simp: find_Some_iff)
    show thesis
    proof (cases "?c p = 0")
      case True
      then show thesis using b Some p ex [OF p(1)] ix_cmp_0 [OF ex [OF p(1)] k] by (intro found [of p]) (auto simp: first_from_def)
    next
      case False
      then show thesis using b Some p by (intro between [of p]) (auto simp: first_from_def)
    qed
  qed
qed

lemma leaf_sorted:
  assumes "leaf_ok h d"
  shows "sorted_wrt (key_lt h) (node_keys h d)" and "\<forall>k \<in> set (node_keys h d). key_exact (key_spec h) k" and "distinct (node_keys h d)"
proof -
  show s: "sorted_wrt (key_lt h) (node_keys h d)" "\<forall>k \<in> set (node_keys h d). key_exact (key_spec h) k"
    using assms by (auto simp: leaf_ok_def node_sorted_def first_slot_def Let_def)
  have "node_keys h d ! i \<noteq> node_keys h d ! j" if "i < j" "j < length (node_keys h d)" for i j
    using sorted_wrt_nth_less [OF s(1) that] s(2) nth_mem [OF that(2)] ix_cmp_0 [of "key_spec h" "node_keys h d ! j" "node_keys h d ! j"]
    by (auto simp: key_lt_def)
  then show "distinct (node_keys h d)" by (auto simp: distinct_conv_nth) (metis linorder_neqE_nat)
qed

lemma leaf_okI: "node_ok h d' \<Longrightarrow> same_links d d' \<Longrightarrow> is_leaf_page d \<Longrightarrow> sorted_wrt (key_lt h) (node_keys h d') \<Longrightarrow>
    \<forall>k \<in> set (node_keys h d'). key_exact (key_spec h) k \<Longrightarrow> leaf_ok h d'"
  by (simp add: leaf_ok_def same_links_def node_sorted_def first_slot_def)

text \<open>Insertion at the right place.\<close>

lemma leaf_insert_at:
  assumes h: "hdr_ok h" and l: "leaf_ok h d" and n: "get_size d = int n" "n < max_keys h" and k: "key_exact (key_spec h) key" and v: "Rid_ok val"
    and p: "p \<le> n" "\<And>i. i < p \<Longrightarrow> ix_cmp (key_spec h) (node_keys h d ! i) key < 0" "p < n \<Longrightarrow> 0 < ix_cmp (key_spec h) (node_keys h d ! p) key"
  shows "key \<notin> dom (leaf_map h d) \<and> leaf_ok h (insert_at h (int p) key val d) \<and> same_links d (insert_at h (int p) key val d) \<and>
     leaf_map h (insert_at h (int p) key val d) = (leaf_map h d)(key \<mapsto> val) \<and> get_size (insert_at h (int p) key val d) = int n + 1"
proof -
  let ?d = "insert_at h (int p) key val d"
  have lk: "length key = key_len h" using key_exact_length [OF k] spec_lens [OF h] by simp
  have no: "node_ok h d" "is_leaf_page d" using l by (simp_all add: leaf_ok_def)
  note ins = insert_at_pairs [OF h no(1) n p(1) lk v]
  have len: "length (node_keys h d) = n" "length (node_rids h d) = n" using n by simp_all
  have new: "key \<notin> set (node_keys h d)" "sorted_wrt (key_lt h) (node_keys h ?d)"
    using split_position [OF leaf_sorted(1,2) [OF l] k, of p] p len ins(3) by simp_all
  have "set (node_keys h ?d) = insert key (set (node_keys h d))" unfolding ins(3) by (metis append_take_drop_id insert_commute list.simps(15) set_append Un_insert_right)
  then have "leaf_ok h ?d" using leaf_okI [OF ins(1,2) no(2) new(2)] leaf_sorted(2) [OF l] k by simp
  moreover have "leaf_map h ?d = (leaf_map h d)(key \<mapsto> val)" unfolding leaf_map_def ins(3,4) using new(1) len by (intro map_of_insert) simp_all
  moreover have "length (node_keys h ?d) = n + 1" unfolding ins(3) using len p(1) by simp
  then have "get_size ?d = int n + 1" using ins(1) by (simp add: node_ok_def)
  moreover have "key \<notin> dom (leaf_map h d)" using new(1) len by (simp add: leaf_map_def)
  ultimately show ?thesis using ins(2) by blast
qed

lemma leaf_map_dom: "dom (leaf_map h d) = set (node_keys h d)"
  by (simp add: leaf_map_def)

lemma leaf_map_None: "leaf_map h d key = None \<longleftrightarrow> key \<notin> set (node_keys h d)"
  using leaf_map_dom [of h d] by (auto simp: domIff)

lemma leaf_insert_ok:
  assumes h: "hdr_ok h" and l: "leaf_ok h d" and n: "get_size d \<le> btree_order h" and k: "key_exact (key_spec h) key" and v: "Rid_ok val"
  shows "if key \<in> dom (leaf_map h d) then node_insert h key val d = (Inl IndexEntryExistsError, d)
    else \<exists>d'. node_insert h key val d = (Inr (get_size d + 1), d') \<and> leaf_ok h d' \<and> same_links d d' \<and> leaf_map h d' = (leaf_map h d)(key \<mapsto> val)"
proof -
  have "0 \<le> get_size d" using l by (simp add: leaf_ok_def node_ok_def)
  then obtain m where m: "get_size d = int m" by (metis nonneg_int_cases)
  have mm: "m < max_keys h" using n m hdr_fits(4) [OF h] by (simp add: max_keys_def)
  have lk: "length key = key_len h" using key_exact_length [OF k] spec_lens [OF h] by simp
  note ins = leaf_insert_at [OF h l m mm k v]
  have cmp: "memcmp (node_keys h d ! i) key (key_len h) = 0 \<longleftrightarrow> node_keys h d ! i = key" if "i < m" for i
  proof -
    have "node_keys h d ! i \<in> set (node_keys h d)" using that m by simp
    then have "length (node_keys h d ! i) = key_len h" using leaf_sorted(2) [OF l] key_exact_length spec_lens [OF h] by metis
    then show ?thesis using memcmp_0 [of "key_len h" "node_keys h d ! i" key] lk by simp
  qed
  show ?thesis
  proof (cases "m = 0")
    case True
    then show ?thesis using ins [of 0] m by (auto simp: node_insert_def Let_def)
  next
    case False
    then have pos: "0 < m" by simp
    show ?thesis
      using h l m pos k
    proof (cases rule: leaf_lower_bound)
      case all_less
      then show ?thesis using ins [of m] m pos by (auto simp: node_insert_def Let_def)
    next
      case (found p)
      then have "key \<in> dom (leaf_map h d)" using m nth_mem [of p "node_keys h d"] by (simp add: leaf_map_dom)
      then show ?thesis using found m pos cmp [of p] by (simp add: node_insert_def Let_def node_keys_nth)
    next
      case (between p)
      then have "node_keys h d ! p \<noteq> key" using ix_cmp_0 [OF k k] by auto
      then show ?thesis using between ins [of p] m pos cmp [of p] by (auto simp: node_insert_def Let_def node_keys_nth)
    qed
  qed
qed

lemma leaf_lookup_ok:
  assumes h: "hdr_ok h" and l: "leaf_ok h d" and n: "0 < get_size d" and k: "key_exact (key_spec h) key"
  shows "leaf_lookup h key d = Inr (leaf_map h d key)"
proof -
  obtain m where m: "get_size d = int m" "0 < m" using n by (metis nonneg_int_cases of_nat_0_less_iff order_less_imp_le)
  note s = leaf_sorted [OF l]
  have at: "leaf_map h d (node_keys h d ! i) = Some (node_rids h d ! i)" if "i < m" for i
    unfolding leaf_map_def using that m s(3) by (intro map_of_zip_nth) simp_all
  have ord: "judge_key h key (node_keys h d ! i) = Inr (ix_cmp (key_spec h) (node_keys h d ! i) key)" if "i < m" for i
    using s(2) m that by (intro ix_compare_Inr key_exact_ok) simp
  have none: "leaf_map h d key = None" if "\<And>i. i < m \<Longrightarrow> node_keys h d ! i \<noteq> key"
  proof -
    have "key \<notin> set (node_keys h d)" using that m by (auto simp: in_set_conv_nth)
    then show ?thesis by (simp add: leaf_map_None)
  qed
  show ?thesis using h l m k
  proof (cases rule: leaf_lower_bound)
    case all_less
    then have "leaf_map h d key = None" using ix_cmp_0 [OF k k] by (intro none) force
    then show ?thesis using all_less(1) by (simp add: leaf_lookup_def)
  next
    case (found p)
    then show ?thesis using at [of p] ord [of p] m ix_cmp_0 [OF k k] by (simp add: leaf_lookup_def node_keys_nth node_rids_nth)
  next
    case (between p)
    have "key \<notin> set (node_keys h d)" using split_position(1) [OF s(1,2) k, of p] between m by simp
    then have "leaf_map h d key = None" by (simp add: leaf_map_None)
    then show ?thesis using between ord [of p] m by (simp add: leaf_lookup_def node_keys_nth)
  qed
qed

lemma map_of_erase:
  assumes "length vs = length ks" and "distinct ks" and "p < length ks"
  shows "map_of (zip (take p ks @ drop (Suc p) ks) (take p vs @ drop (Suc p) vs)) = (map_of (zip ks vs))(ks ! p := None)"
proof -
  have ks: "ks = take p ks @ ks ! p # drop (Suc p) ks" "vs = take p vs @ vs ! p # drop (Suc p) vs" using assms(1,3) by (simp_all add: id_take_nth_drop)
  let ?a = "zip (take p ks) (take p vs)" and ?b = "zip (drop (Suc p) ks) (drop (Suc p) vs)"
  have "distinct (take p ks @ ks ! p # drop (Suc p) ks)" using assms(2) ks(1) by simp
  then have ni: "ks ! p \<notin> set (take p ks)" "ks ! p \<notin> set (drop (Suc p) ks)" by simp_all
  then have "ks ! p \<notin> fst ` set ?a" "ks ! p \<notin> fst ` set ?b" by (auto dest!: set_zip_leftD)
  then have "map_of (?a @ ?b) (ks ! p) = None" by (simp add: map_of_eq_None_iff image_Un)
  moreover have "zip ks vs = ?a @ (ks ! p, vs ! p) # ?b" using assms(1) by (subst ks(1), subst ks(2)) simp
  ultimately have "(map_of (zip ks vs))(ks ! p := None) = map_of (?a @ ?b)"
    using map_of_middle [OF \<open>ks ! p \<notin> fst ` set ?a\<close>, of "vs ! p" ?b] by (simp only: fun_upd_upd) (simp only: fun_upd_idem)
  then show ?thesis using assms(1) by simp
qed

lemma leaf_erase_pair:
  assumes h: "hdr_ok h" and l: "leaf_ok h d" and n: "get_size d = int n" "p < n"
  shows "leaf_ok h (erase_pair h (int p) d) \<and> same_links d (erase_pair h (int p) d) \<and> get_size (erase_pair h (int p) d) = int n - 1 \<and>
     leaf_map h (erase_pair h (int p) d) = (leaf_map h d)(node_keys h d ! p := None)"
proof -
  have no: "node_ok h d" "is_leaf_page d" using l by (simp_all add: leaf_ok_def)
  note e = erase_pair_pairs [OF h no(1) n] and s = leaf_sorted [OF l]
  have "node_keys h d = take p (node_keys h d) @ node_keys h d ! p # drop (Suc p) (node_keys h d)" using n by (simp add: id_take_nth_drop)
  then have "sorted_wrt (key_lt h) (take p (node_keys h d) @ node_keys h d ! p # drop (Suc p) (node_keys h d))" using s(1) by simp
  then have "sorted_wrt (key_lt h) (node_keys h (erase_pair h (int p) d))" unfolding e(5) by (simp add: sorted_wrt_append)
  moreover have "set (node_keys h (erase_pair h (int p) d)) \<subseteq> set (node_keys h d)" unfolding e(5) by (auto dest: in_set_takeD in_set_dropD)
  ultimately have "leaf_ok h (erase_pair h (int p) d)" using s(2) by (intro leaf_okI [OF e(1,2) no(2)]) auto
  moreover have "leaf_map h (erase_pair h (int p) d) = (leaf_map h d)(node_keys h d ! p := None)"
    unfolding leaf_map_def e(5,6) using s(3) n by (intro map_of_erase) simp_all
  moreover have "length (node_keys h (erase_pair h (int p) d)) = n - 1" unfolding e(5) using n by simp
  then have "get_size (erase_pair h (int p) d) = int n - 1" using e(1) n(2) by (auto simp: node_ok_def)
  ultimately show ?thesis using e(2) by blast
qed

lemma leaf_remove_ok:
  assumes h: "hdr_ok h" and l: "leaf_ok h d" and k: "key_exact (key_spec h) key"
    and up: "k' \<in> dom (leaf_map h d)" "\<not> key_lt h k' key"
  shows "\<exists>d'. node_remove h key d = (Inr (get_size d'), d') \<and> leaf_ok h d' \<and> same_links d d' \<and> leaf_map h d' = (leaf_map h d)(key := None) \<and>
     get_size d' = get_size d - (if key \<in> dom (leaf_map h d) then 1 else 0)"
proof -
  obtain i where i: "i < nat (get_size d)" "k' = node_keys h d ! i" using up(1) by (auto simp: leaf_map_dom in_set_conv_nth)
  obtain m where m: "get_size d = int m" "0 < m" using i(1) by (metis nat_0_iff not_less_zero zero_less_iff_neq_zero nat_int zero_less_nat_eq int_nat_eq order_less_imp_le)
  note s = leaf_sorted [OF l]
  have off: "\<not> key_off h (int p) < 0" for p using hdr_fits(5) [OF h] by (simp add: key_off_def flip: of_nat_mult of_nat_add)
  have cmp: "ix_compare key (get_key h (int p) d) (key_spec h) = Inr (- ix_cmp (key_spec h) (node_keys h d ! p) key)" if "p < m" for p
  proof -
    have "key_exact (key_spec h) (node_keys h d ! p)" using s(2) m that by simp
    then show ?thesis using ix_compare_Inr [OF key_exact_ok [OF k]] exact_flip [of "key_spec h" "node_keys h d ! p" key] k m that by (simp add: node_keys_nth)
  qed
  show ?thesis using h l m k
  proof (cases rule: leaf_lower_bound)
    case all_less
    then show ?thesis using i m up(2) by (simp add: key_lt_def)
  next
    case (found p)
    then have "key \<in> dom (leaf_map h d)" using m nth_mem [of p "node_keys h d"] by (simp add: leaf_map_dom)
    then show ?thesis using found leaf_erase_pair [OF h l m(1) found(2)] off cmp [of p] ix_cmp_0 [OF k k] m by (auto simp: node_remove_def Let_def)
  next
    case (between p)
    have "key \<notin> set (node_keys h d)" using split_position(1) [OF s(1,2) k, of p] between m by simp
    then have no: "key \<notin> dom (leaf_map h d)" by (simp add: leaf_map_dom)
    then have "(leaf_map h d)(key := None) = leaf_map h d" by (simp add: domIff fun_upd_idem)
    then show ?thesis using between off cmp [of p] m l no by (auto simp: node_remove_def Let_def)
  qed
qed

section \<open>Properties\<close>




text \<open>
  C7: a leaf implements a finite map. On a leaf with strictly increasing keys that has room, \<open>insert\<close> adds a key that is not there and
  reports the new number of keys, and throws and changes nothing for a key that is there; on a leaf that is not empty
  \<open>leaf_lookup\<close> returns what the map has; \<open>remove\<close> of a key up to the last one takes the key out of the map. Each of
  them leaves a leaf with strictly increasing keys and its links as they were.
\<close>

theorem leaf_implements_map:
  assumes "hdr_ok h" and "leaf_ok h d" and "key_exact (key_spec h) key"
  shows "(get_size d \<le> btree_order h \<and> Rid_ok val \<longrightarrow>
      (if key \<in> dom (leaf_map h d) then node_insert h key val d = (Inl IndexEntryExistsError, d)
       else \<exists>d'. node_insert h key val d = (Inr (get_size d + 1), d') \<and> leaf_ok h d' \<and> same_links d d' \<and> leaf_map h d' = (leaf_map h d)(key \<mapsto> val))) \<and>
    (0 < get_size d \<longrightarrow> leaf_lookup h key d = Inr (leaf_map h d key)) \<and>
    ((\<exists>k \<in> dom (leaf_map h d). \<not> key_lt h k key) \<longrightarrow>
      (\<exists>d'. node_remove h key d = (Inr (get_size d'), d') \<and> leaf_ok h d' \<and> same_links d d' \<and> leaf_map h d' = (leaf_map h d)(key := None)))"
  using leaf_insert_ok [OF assms(1,2) _ assms(3), of val] leaf_lookup_ok [OF assms(1,2) _ assms(3)] leaf_remove_ok [OF assms] by blast

text \<open>
  \<open>get_value\<close> reads behind the last key. Removing any but the last pair of a leaf leaves a copy of the last pair in
  the slot that became free, and the loop of \<open>get_value\<close> for the last key collects its record id twice.
\<close>

theorem get_value_reads_free_slot:
  assumes "hdr_ok h" and "node_ok h d" and "get_size d = int (n + 2)" and "p < n + 1" and "length (get_key h (int n + 1) d) = key_len h"
  shows "collect_values h (get_key h (int n + 1) d) n (erase_pair h (int p) d) =
     (case collect_values h (get_key h (int n + 1) d) (n + 2) (erase_pair h (int p) d) of
        Inl e \<Rightarrow> Inl e
      | Inr rs \<Rightarrow> Inr (get_rid h (int n + 1) d # get_rid h (int n + 1) d # rs))"
proof -
  let ?d = "erase_pair h (int p) d" and ?k = "get_key h (int n + 1) d"
  have pn: "p < n + 2" using assms(4) by simp
  note e = erase_pair_pairs [OF assms(1-3) pn] and f = hdr_fits [OF assms(1)]
  have "length (node_keys h ?d) = n + 1" unfolding e(5) using assms(3,4) by simp
  then have sz: "nat (get_size ?d) = n + 1" by simp
  have last: "get_key h (int n) ?d = ?k" "get_rid h (int n) ?d = get_rid h (int n + 1) d"
    using arg_cong [OF e(5), of "\<lambda>xs. xs ! n"] arg_cong [OF e(6), of "\<lambda>xs. xs ! n"] assms(3,4) sz
    by (simp_all add: node_keys_nth node_rids_nth nth_erase add.commute)
  have free: "get_key h (int n + 1) ?d = ?k" "get_rid h (int n + 1) ?d = get_rid h (int n + 1) d" using e(3,4) by (simp_all add: add.commute)
  have nm: "n + 2 \<le> max_keys h" using assms(2,3) by (auto simp: node_ok_def max_keys_def)
  have "(n + 2) * key_len h \<le> max_keys h * key_len h" using nm by (intro mult_right_mono) simp_all
  then have fit: "IX_PAGE_HDR_SIZE + n * key_len h + key_len h \<le> length ?d" "IX_PAGE_HDR_SIZE + (n + 1) * key_len h + key_len h \<le> length ?d"
    using f(2) e(1) by (simp_all add: node_ok_def IX_PAGE_HDR_SIZE_def)
  have same: "memcmp ?k ?k (key_len h) = 0" using memcmp_0 [of "key_len h" ?k ?k] assms(5) by simp
  have "collect_values h ?k (n + 1) ?d = (case collect_values h ?k (n + 2) ?d of Inl e \<Rightarrow> Inl e | Inr rs \<Rightarrow> Inr (get_rid h (int n + 1) d # rs))"
    using fit(2) f(1) free same by (subst collect_values.simps) (simp add: add.commute split: sum.split)
  moreover have "collect_values h ?k n ?d = (case collect_values h ?k (n + 1) ?d of Inl e \<Rightarrow> Inl e | Inr rs \<Rightarrow> Inr (get_rid h (int n + 1) d # rs))"
    using fit(1) f(1) last same by (subst collect_values.simps) (simp split: sum.split)
  ultimately show ?thesis by (simp split: sum.split)
qed

text \<open>An empty leaf, and leaves with one and with two keys.\<close>

definition empty_leaf :: bytes where
  "empty_leaf = set_is_leaf True (memset PAGE_SIZE 0)"

lemma le_nat_zeros: "le_nat (replicate n 0) = 0"
  by (induction n) simp_all

lemma empty_leaf_ok: "leaf_ok sample_hdr empty_leaf" "get_size empty_leaf = 0" "leaf_map sample_hdr empty_leaf = Map.empty"
proof -
  have l: "length empty_leaf = PAGE_SIZE" "is_leaf_page empty_leaf"
    by (simp_all add: empty_leaf_def set_is_leaf_def is_leaf_page_def PAGE_SIZE_def memset_def)
  show sz: "get_size empty_leaf = 0"
    by (simp add: empty_leaf_def set_is_leaf_def get_size_def load_int_def slice_def memset_def PAGE_SIZE_def drop_update_swap bytes_int_def
        le_nat_zeros)
  then have "node_keys sample_hdr empty_leaf = []" by (simp add: node_keys_def)
  then show "leaf_ok sample_hdr empty_leaf" "leaf_map sample_hdr empty_leaf = Map.empty"
    using l sz by (simp_all add: leaf_ok_def node_ok_def node_sorted_def leaf_map_def sample_hdr_def)
qed

lemma sample_key: "key_exact (key_spec sample_hdr) (int_bytes i)"
  by (simp add: key_spec_def sample_hdr_def)

lemma sample_leaves:
  obtains d1 d2 where "node_insert sample_hdr (int_bytes 5) (Rid 1 0) empty_leaf = (Inr 1, d1)" and "leaf_ok sample_hdr d1" and "get_size d1 = 1"
    and "leaf_map sample_hdr d1 = [int_bytes 5 \<mapsto> Rid 1 0]"
    and "leaf_ok sample_hdr d2" and "get_size d2 = 2" and "leaf_map sample_hdr d2 = [int_bytes 5 \<mapsto> Rid 1 0, int_bytes 7 \<mapsto> Rid 1 1]"
proof -
  have r: "Rid_ok (Rid 1 0)" "Rid_ok (Rid 1 1)" by (simp_all add: Rid_ok_def int32_def)
  have o: "get_size empty_leaf \<le> btree_order sample_hdr" by (simp add: empty_leaf_ok sample_hdr_def)
  obtain d1 where d1: "node_insert sample_hdr (int_bytes 5) (Rid 1 0) empty_leaf = (Inr 1, d1)" "leaf_ok sample_hdr d1"
    "leaf_map sample_hdr d1 = [int_bytes 5 \<mapsto> Rid 1 0]"
    using leaf_insert_ok [OF sample_hdr_ok empty_leaf_ok(1) o sample_key r(1), of 5] by (auto simp: empty_leaf_ok)
  have s1: "get_size d1 = 1"
  proof -
    have "card (dom (leaf_map sample_hdr d1)) = nat (get_size d1)" using leaf_sorted(3) [OF d1(2)] by (simp add: leaf_map_dom distinct_card)
    then show ?thesis using d1(3) by simp
  qed
  have ne: "int_bytes 7 \<noteq> int_bytes 5" by code_simp
  have o1: "get_size d1 \<le> btree_order sample_hdr" by (simp add: s1 sample_hdr_def)
  obtain d2 where d2: "leaf_ok sample_hdr d2" "leaf_map sample_hdr d2 = [int_bytes 5 \<mapsto> Rid 1 0, int_bytes 7 \<mapsto> Rid 1 1]"
    using leaf_insert_ok [OF sample_hdr_ok d1(2) o1 sample_key r(2), of 7] ne by (auto simp: d1(3))
  have "card (dom (leaf_map sample_hdr d2)) = nat (get_size d2)" using leaf_sorted(3) [OF d2(1)] by (simp add: leaf_map_dom distinct_card)
  then have "get_size d2 = 2" using d2(2) ne by simp
  then show thesis using that d1 s1 d2 by blast
qed


theorem leaf_implements_map_witness:
  "\<exists>d d'. leaf_lookup sample_hdr (int_bytes 5) d = Inr (Some (Rid 1 0)) \<and> node_remove sample_hdr (int_bytes 5) d = (Inr (get_size d'), d') \<and>
     node_insert sample_hdr (int_bytes 5) (Rid 3 3) d = (Inl IndexEntryExistsError, d) \<and> leaf_map sample_hdr d' = [int_bytes 7 \<mapsto> Rid 1 1]"
proof -
  have ne: "int_bytes 7 \<noteq> int_bytes 5" by code_simp
  obtain d2 where d2: "leaf_ok sample_hdr d2" "get_size d2 = 2" "leaf_map sample_hdr d2 = [int_bytes 5 \<mapsto> Rid 1 0, int_bytes 7 \<mapsto> Rid 1 1]"
    by (rule sample_leaves)
  have r: "get_size d2 \<le> btree_order sample_hdr \<and> Rid_ok (Rid 3 3)" using d2(2) by (simp add: Rid_ok_def int32_def sample_hdr_def)
  have k: "\<exists>k \<in> dom (leaf_map sample_hdr d2). \<not> key_lt sample_hdr k (int_bytes 5)"
    using d2(3) ix_cmp_0 [OF sample_key sample_key, of 5 5] by (auto simp: key_lt_def)
  have m: "(leaf_map sample_hdr d2)(int_bytes 5 := None) = [int_bytes 7 \<mapsto> Rid 1 1]" using ne by (auto simp: d2(3))
  note all = leaf_implements_map [OF sample_hdr_ok d2(1) sample_key, of "Rid 3 3" 5, unfolded m]
  then obtain d' where "node_remove sample_hdr (int_bytes 5) d2 = (Inr (get_size d'), d')" "leaf_map sample_hdr d' = [int_bytes 7 \<mapsto> Rid 1 1]"
    using k by blast
  then show ?thesis using all r ne d2(2,3) by (intro exI [of _ d2] exI [of _ d']) simp
qed

theorem get_value_reads_free_slot_witness:
  "\<exists>d. get_size d = 2 \<and> collect_values sample_hdr (get_key sample_hdr 1 d) 0 (erase_pair sample_hdr 0 d) =
     (case collect_values sample_hdr (get_key sample_hdr 1 d) 2 (erase_pair sample_hdr 0 d) of
        Inl e \<Rightarrow> Inl e | Inr rs \<Rightarrow> Inr (get_rid sample_hdr 1 d # get_rid sample_hdr 1 d # rs))"
proof -
  obtain d2 where d2: "leaf_ok sample_hdr d2" "get_size d2 = 2" by (rule sample_leaves)
  have "node_keys sample_hdr d2 ! 1 \<in> set (node_keys sample_hdr d2)" using d2(2) by (intro nth_mem) simp
  then have "length (node_keys sample_hdr d2 ! 1) = key_len sample_hdr"
    using leaf_sorted(2) [OF d2(1)] key_exact_length spec_lens [OF sample_hdr_ok] by metis
  then have "length (get_key sample_hdr 1 d2) = key_len sample_hdr" using d2(2) by (simp add: node_keys_nth)
  then show ?thesis
    using get_value_reads_free_slot [OF sample_hdr_ok, of d2 0 0] d2
    by (intro exI [of _ d2]) (simp add: leaf_ok_def numeral_2_eq_2 split: sum.split)
qed

end
