(* ===== verification/IxTree.thy ===== *)
theory IxTree
  imports IxSearch PagePool
begin

text \<open>
  \<open>IxIndexHandle\<close> of \<^verbatim>\<open>index/ix_index_handle.cpp\<close>, \<open>IxScan\<close> of \<^verbatim>\<open>index/ix_scan.cpp\<close> and \<open>IxManager\<close> of
  \<^verbatim>\<open>index/ix_manager.h\<close>: the B+ tree over the buffer pool. The state is the file descriptor, the header in memory and the
  pool; a node handle is the frame of its page, so that handles of the same page share its bytes, and a handle may be used
  after its page is unpinned, as the code does. The descent from the root and the recursions towards the root return
  \<open>None\<close> when they never end. The latch \<open>root_latch_\<close> is held by an operation from its beginning to its end.
\<close>

section \<open>The handle\<close>

record ix_index =
  ix_fd :: int
  ix_hdr :: IxFileHdr
  ix_pool :: bpm

definition lift_ix :: "('a, bpm) res \<Rightarrow> ix_index \<Rightarrow> ('a, ix_index) res" where
  "lift_ix r ix = (case r of (x, b) \<Rightarrow> (x, ix\<lparr>ix_pool := b\<rparr>))"

definition node_bytes :: "nat \<Rightarrow> ix_index \<Rightarrow> bytes" where
  "node_bytes f ix = pg_data (pages (ix_pool ix) ! f)"

definition upd_node :: "nat \<Rightarrow> (bytes \<Rightarrow> bytes) \<Rightarrow> ix_index \<Rightarrow> ix_index" where
  "upd_node f g ix = ix\<lparr>ix_pool := set_data f (g (node_bytes f ix)) (ix_pool ix)\<rparr>"

definition node_id :: "nat \<Rightarrow> ix_index \<Rightarrow> PageId" where
  "node_id f ix = pg_id (pages (ix_pool ix) ! f)"

definition node_page_no :: "nat \<Rightarrow> ix_index \<Rightarrow> int" where
  "node_page_no f ix = pid_no (node_id f ix)"

definition set_root_page :: "int \<Rightarrow> ix_index \<Rightarrow> ix_index" where
  "set_root_page p ix = ix\<lparr>ix_hdr := (ix_hdr ix)\<lparr>root_page := p\<rparr>\<rparr>"

definition set_last_leaf :: "int \<Rightarrow> ix_index \<Rightarrow> ix_index" where
  "set_last_leaf p ix = ix\<lparr>ix_hdr := (ix_hdr ix)\<lparr>last_leaf := p\<rparr>\<rparr>"

definition set_first_leaf :: "int \<Rightarrow> ix_index \<Rightarrow> ix_index" where
  "set_first_leaf p ix = ix\<lparr>ix_hdr := (ix_hdr ix)\<lparr>first_leaf := p\<rparr>\<rparr>"

definition add_num_pages :: "int \<Rightarrow> ix_index \<Rightarrow> ix_index" where
  "add_num_pages n ix = ix\<lparr>ix_hdr := (ix_hdr ix)\<lparr>ix_num_pages := ix_num_pages (ix_hdr ix) + n\<rparr>\<rparr>"

definition ix_is_empty :: "ix_index \<Rightarrow> bool" where
  "ix_is_empty ix \<longleftrightarrow> root_page (ix_hdr ix) = IX_NO_PAGE"

definition IxIndexHandle_init :: "IxFileHdr \<Rightarrow> int \<Rightarrow> bpm \<Rightarrow> (ix_index, bpm) res" where
  "IxIndexHandle_init junk fd b =
     (case read_page fd IX_FILE_HDR_PAGE 8 (disk b) of
        (Inl e, d) \<Rightarrow> (Inl e, b\<lparr>disk := d\<rparr>)
      | (Inr _, d) \<Rightarrow>
          (case read_page fd IX_FILE_HDR_PAGE PAGE_SIZE d of
             (Inl e, d) \<Rightarrow> (Inl e, b\<lparr>disk := d\<rparr>)
           | (Inr buf, d) \<Rightarrow>
               (case IxFileHdr_deserialize buf (IxFileHdr_init junk) of
                  Inl e \<Rightarrow> (Inl e, b\<lparr>disk := d\<rparr>)
                | Inr h \<Rightarrow>
                    let now_page_no = get_fd2pageno fd d;
                        b = b\<lparr>disk := set_fd2pageno fd (now_page_no + 1) d\<rparr>
                    in (Inr \<lparr>ix_fd = fd, ix_hdr = h, ix_pool = b\<rparr>, b))))"

definition fetch_node :: "int \<Rightarrow> ix_index \<Rightarrow> (nat, ix_index) res" where
  "fetch_node page_no ix =
     bindE (lift_ix (fetch_page (PageId (ix_fd ix) page_no) (ix_pool ix)) ix)
       (\<lambda>f ix. case f of None \<Rightarrow> (Inl NullDereference, ix) | Some f \<Rightarrow> (Inr f, ix))"

definition create_node :: "ix_index \<Rightarrow> (nat, ix_index) res" where
  "create_node ix =
     (let ix = add_num_pages 1 ix
      in bindE (lift_ix (new_page (ix_fd ix) (ix_pool ix)) ix)
           (\<lambda>r ix. case r of None \<Rightarrow> (Inl NullDereference, ix) | Some (page_id, f) \<Rightarrow> (Inr f, ix)))"

definition unpin_ix :: "PageId \<Rightarrow> bool \<Rightarrow> ix_index \<Rightarrow> ix_index" where
  "unpin_ix p is_dirty ix = ix\<lparr>ix_pool := snd (unpin_page p is_dirty (ix_pool ix))\<rparr>"

definition unpin_node_page :: "nat \<Rightarrow> bool \<Rightarrow> ix_index \<Rightarrow> ix_index" where
  "unpin_node_page f is_dirty ix = unpin_ix (PageId (ix_fd ix) (node_page_no f ix)) is_dirty ix"

definition release_node_handle :: "nat \<Rightarrow> ix_index \<Rightarrow> (unit, ix_index) res" where
  "release_node_handle f ix =
     (let ix = unpin_node_page f True ix
      in bindE (lift_ix (delete_page (node_id f ix) (ix_pool ix)) ix) (\<lambda>_ ix. (Inr (), add_num_pages (-1) ix)))"

definition maintain_child :: "nat \<Rightarrow> int \<Rightarrow> ix_index \<Rightarrow> (unit, ix_index) res" where
  "maintain_child f child_idx ix =
     (if is_leaf_page (node_bytes f ix) then (Inr (), ix)
      else bindE (fetch_node (value_at (ix_hdr ix) child_idx (node_bytes f ix)) ix)
             (\<lambda>child ix. let ix = upd_node child (set_parent_page_no (node_page_no f ix)) ix
                         in (Inr (), unpin_ix (node_id child ix) True ix)))"

fun maintain_children :: "nat \<Rightarrow> int list \<Rightarrow> ix_index \<Rightarrow> (unit, ix_index) res" where
  "maintain_children f [] ix = (Inr (), ix)"
| "maintain_children f (i # is) ix = bindE (maintain_child f i ix) (\<lambda>_ ix. maintain_children f is ix)"

text \<open>\<open>maintain_parent\<close> and \<open>erase_leaf\<close> are called by no one.\<close>

definition erase_leaf :: "nat \<Rightarrow> ix_index \<Rightarrow> (unit, ix_index) res" where
  "erase_leaf leaf ix =
     (if \<not> is_leaf_page (node_bytes leaf ix) then (Inl (AssertionFailed ''leaf->is_leaf_page()''), ix)
      else bindE (fetch_node (get_prev_leaf (node_bytes leaf ix)) ix)
        (\<lambda>prev ix. let ix = upd_node prev (set_next_leaf (get_next_leaf (node_bytes leaf ix))) ix; ix = unpin_ix (node_id prev ix) True ix
           in bindE (fetch_node (get_next_leaf (node_bytes leaf ix)) ix)
                (\<lambda>next ix. let ix = upd_node next (set_prev_leaf (get_prev_leaf (node_bytes leaf ix))) ix
                   in (Inr (), unpin_ix (node_id next ix) True ix))))"

partial_function (option) maintain_parent :: "nat \<Rightarrow> ix_index \<Rightarrow> (unit, ix_index) run" where
  "maintain_parent node ix =
     (if get_parent_page_no (node_bytes node ix) = IX_NO_PAGE then Some (Inr (), ix)
      else bindR (Some (fetch_node (get_parent_page_no (node_bytes node ix)) ix))
        (\<lambda>parent ix. case find_child (ix_hdr ix) (node_page_no node ix) (node_bytes parent ix) of
             Inl e \<Rightarrow> Some (Inl e, ix)
           | Inr rank \<Rightarrow>
               let h = ix_hdr ix; child_first_key = get_key h 0 (node_bytes node ix)
               in if memcmp (get_key h rank (node_bytes parent ix)) child_first_key (key_len h) = 0
                  then (case unpin_page (node_id parent ix) True (ix_pool ix) of
                          (ok, b) \<Rightarrow> Some (if ok then Inr () else Inl (AssertionFailed ''unpin_page''), ix\<lparr>ix_pool := b\<rparr>))
                  else let ix = upd_node parent (set_key h rank child_first_key) ix
                       in (case unpin_page (node_id parent ix) True (ix_pool ix) of
                             (ok, b) \<Rightarrow> if ok then maintain_parent parent (ix\<lparr>ix_pool := b\<rparr>)
                                        else Some (Inl (AssertionFailed ''unpin_page''), ix\<lparr>ix_pool := b\<rparr>))))"

section \<open>Search\<close>

text \<open>The descent; \<open>lookup\<close> is the \<open>internal_lookup\<close> of a key or of a list of values.\<close>

partial_function (option) descend :: "(IxFileHdr \<Rightarrow> bytes \<Rightarrow> rmdb_error + int) \<Rightarrow> nat \<Rightarrow> ix_index \<Rightarrow> (nat, ix_index) run" where
  "descend lookup f ix =
     (if is_leaf_page (node_bytes f ix) then Some (Inr f, ix)
      else case lookup (ix_hdr ix) (node_bytes f ix) of
             Inl e \<Rightarrow> Some (Inl e, ix)
           | Inr child_page \<Rightarrow>
               let ix = unpin_node_page f False ix
               in bindR (Some (fetch_node child_page ix)) (\<lambda>f ix. descend lookup f ix))"

definition find_leaf :: "(IxFileHdr \<Rightarrow> bytes \<Rightarrow> rmdb_error + int) \<Rightarrow> ix_index \<Rightarrow> (nat, ix_index) run" where
  "find_leaf lookup ix = bindR (Some (fetch_node (root_page (ix_hdr ix)) ix)) (descend lookup)"

definition find_leaf_page :: "bytes \<Rightarrow> ix_index \<Rightarrow> (nat, ix_index) run" where
  "find_leaf_page key ix = find_leaf (\<lambda>h d. internal_lookup h key d) ix"

definition ix_get_value :: "bytes \<Rightarrow> Rid list \<Rightarrow> ix_index \<Rightarrow> (bool \<times> Rid list, ix_index) run" where
  "ix_get_value key result ix =
     bindR (find_leaf_page key ix)
       (\<lambda>leaf ix. case node_lower_bound (judge_key (ix_hdr ix) key) (ix_hdr ix) (node_bytes leaf ix) of
            Inl e \<Rightarrow> Some (Inl e, ix)
          | Inr index \<Rightarrow>
              if index = -1 then Some (Inr (False, result), ix)
              else case collect_values (ix_hdr ix) key (nat index) (node_bytes leaf ix) of
                     Inl e \<Rightarrow> Some (Inl e, ix)
                   | Inr rids \<Rightarrow> Some (Inr (result @ rids \<noteq> [], result @ rids), unpin_node_page leaf False ix))"

datatype Iid = Iid (iid_page: int) (iid_slot: int)

text \<open>Where a bound that was found in a leaf, or not found in it, lies.\<close>

definition bound_iid :: "int \<Rightarrow> nat \<Rightarrow> ix_index \<Rightarrow> Iid" where
  "bound_iid index leaf ix =
     (if index = -1 then
        if node_page_no leaf ix = last_leaf (ix_hdr ix) then Iid (node_page_no leaf ix) (get_size (node_bytes leaf ix))
        else Iid (get_next_leaf (node_bytes leaf ix)) 0
      else Iid (node_page_no leaf ix) index)"

definition tree_bound ::
    "(IxFileHdr \<Rightarrow> bytes \<Rightarrow> rmdb_error + int) \<Rightarrow> (IxFileHdr \<Rightarrow> bytes \<Rightarrow> rmdb_error + int) \<Rightarrow> ix_index \<Rightarrow> (Iid, ix_index) run" where
  "tree_bound lookup bound ix =
     bindR (find_leaf lookup ix)
       (\<lambda>leaf ix. case bound (ix_hdr ix) (node_bytes leaf ix) of
            Inl e \<Rightarrow> Some (Inl e, ix)
          | Inr index \<Rightarrow> Some (Inr (bound_iid index leaf ix), unpin_node_page leaf False ix))"

definition ix_lower_bound :: "bytes \<Rightarrow> ix_index \<Rightarrow> (Iid, ix_index) run" where
  "ix_lower_bound key ix = tree_bound (\<lambda>h d. internal_lookup h key d) (\<lambda>h d. node_lower_bound (judge_key h key) h d) ix"

definition ix_lower_bound_values :: "Value list \<Rightarrow> ix_index \<Rightarrow> (Iid, ix_index) run" where
  "ix_lower_bound_values key ix = tree_bound (\<lambda>h d. internal_lookup_values h key d) (\<lambda>h d. node_lower_bound (judge_values h key) h d) ix"

definition ix_upper_bound_values :: "Value list \<Rightarrow> ix_index \<Rightarrow> (Iid, ix_index) run" where
  "ix_upper_bound_values key ix = tree_bound (\<lambda>h d. internal_lookup_values h key d) (\<lambda>h d. node_upper_bound (judge_values h key) h d) ix"

text \<open>The page is unpinned twice, before and after its use.\<close>

definition ix_upper_bound :: "bytes \<Rightarrow> ix_index \<Rightarrow> (Iid, ix_index) run" where
  "ix_upper_bound key ix =
     bindR (find_leaf_page key ix)
       (\<lambda>leaf ix. case node_upper_bound (judge_key (ix_hdr ix) key) (ix_hdr ix) (node_bytes leaf ix) of
            Inl e \<Rightarrow> Some (Inl e, ix)
          | Inr index \<Rightarrow>
              let ix = unpin_node_page leaf False ix
              in Some (Inr (bound_iid index leaf ix), unpin_node_page leaf False ix))"

definition ix_leaf_end :: "ix_index \<Rightarrow> (Iid, ix_index) res" where
  "ix_leaf_end ix =
     (if last_leaf (ix_hdr ix) = IX_NO_PAGE then (Inr (Iid IX_NO_PAGE 0), ix)
      else bindE (fetch_node (last_leaf (ix_hdr ix)) ix)
             (\<lambda>f ix. (Inr (Iid (last_leaf (ix_hdr ix)) (get_size (node_bytes f ix))), unpin_ix (node_id f ix) False ix)))"

definition ix_leaf_begin :: "ix_index \<Rightarrow> Iid" where
  "ix_leaf_begin ix = Iid (first_leaf (ix_hdr ix)) 0"

text \<open>The record id is read after the page is unpinned.\<close>

definition ix_get_rid :: "Iid \<Rightarrow> ix_index \<Rightarrow> (Rid, ix_index) res" where
  "ix_get_rid iid ix =
     bindE (fetch_node (iid_page iid) ix)
       (\<lambda>f ix. if iid_slot iid \<ge> get_size (node_bytes f ix) then (Inl IndexEntryNotFoundError, ix)
               else let ix = unpin_ix (node_id f ix) False ix
                    in (Inr (get_rid (ix_hdr ix) (iid_slot iid) (node_bytes f ix)), ix))"

text \<open>
  For the end of the index \<open>get_key\<close> writes the largest value of each column, but every column after the first at the
  offset of the length of the one before it.
\<close>

fun max_key :: "(ColType \<times> int) list \<Rightarrow> nat \<Rightarrow> Value \<Rightarrow> bytes \<Rightarrow> bytes \<Rightarrow> rmdb_error + bytes" where
  "max_key [] offset junk mem key = Inr key"
| "max_key ((t, l) # cols) offset junk mem key =
     (case generate_max mem t (nat l) junk of
        (Inl e, _) \<Rightarrow> Inl e
      | (Inr _, v) \<Rightarrow>
          (case v_raw v of
             None \<Rightarrow> Inl NullDereference
           | Some raw \<Rightarrow> max_key cols (nat l) junk mem (memcpy key offset (slice 0 (nat l) raw))))"

definition ix_get_key :: "Value \<Rightarrow> bytes \<Rightarrow> Iid \<Rightarrow> bytes \<Rightarrow> ix_index \<Rightarrow> (bytes, ix_index) res" where
  "ix_get_key junk mem iid key ix =
     bindE (ix_leaf_end ix)
       (\<lambda>end ix. if iid = end then (max_key (zip (ix_col_types (ix_hdr ix)) (ix_col_lens (ix_hdr ix))) 0 junk mem key, ix)
          else bindE (fetch_node (iid_page iid) ix)
                 (\<lambda>f ix. let key = memcpy key 0 (get_key (ix_hdr ix) (iid_slot iid) (node_bytes f ix))
                         in if iid_slot iid \<ge> get_size (node_bytes f ix) then (Inl IndexEntryNotFoundError, ix)
                            else (Inr key, unpin_ix (node_id f ix) False ix)))"

text \<open>The page that is unpinned first is not the one that was fetched.\<close>

definition minus_one :: "Iid \<Rightarrow> ix_index \<Rightarrow> (bool \<times> Iid, ix_index) res" where
  "minus_one iid ix =
     (if iid = ix_leaf_begin ix then (Inr (False, iid), ix)
      else if iid_slot iid = 0 then
        bindE (fetch_node (iid_page iid) ix)
          (\<lambda>f ix. let page_no = get_prev_leaf (node_bytes f ix); ix = unpin_ix (PageId (ix_fd ix) page_no) False ix
             in bindE (fetch_node page_no ix)
                  (\<lambda>f ix. (Inr (True, Iid page_no (get_size (node_bytes f ix) - 1)), unpin_ix (PageId (ix_fd ix) page_no) False ix)))
      else (Inr (True, Iid (iid_page iid) (iid_slot iid - 1)), ix))"

section \<open>IxScan\<close>

record ix_scan =
  scan_iid :: Iid
  scan_end :: Iid

definition ixscan_is_end :: "ix_scan \<Rightarrow> bool" where
  "ixscan_is_end s \<longleftrightarrow> scan_iid s = scan_end s"

text \<open>The page is pinned twice and never unpinned.\<close>

definition ixscan_next :: "ix_scan \<Rightarrow> ix_index \<Rightarrow> (ix_scan, ix_index) res" where
  "ixscan_next s ix =
     (if ixscan_is_end s then (Inl (AssertionFailed ''!is_end()''), ix)
      else bindE (lift_ix (fetch_page (PageId (ix_fd ix) (iid_page (scan_iid s))) (ix_pool ix)) ix)
        (\<lambda>_ ix. bindE (fetch_node (iid_page (scan_iid s)) ix)
           (\<lambda>f ix. let d = node_bytes f ix; p = iid_page (scan_iid s); i = iid_slot (scan_iid s)
              in if \<not> is_leaf_page d then (Inl (AssertionFailed ''node->is_leaf_page()''), ix)
                 else if \<not> i < get_size d then (Inl (AssertionFailed ''iid_.slot_no < node->get_size()''), ix)
                 else if p \<noteq> last_leaf (ix_hdr ix) \<and> i + 1 = get_size d then (Inr (s\<lparr>scan_iid := Iid (get_next_leaf d) 0\<rparr>), ix)
                 else (Inr (s\<lparr>scan_iid := Iid p (i + 1)\<rparr>), ix))))"

definition ixscan_rid :: "ix_scan \<Rightarrow> ix_index \<Rightarrow> (Rid, ix_index) res" where
  "ixscan_rid s ix = ix_get_rid (scan_iid s) ix"

section \<open>Insertion\<close>

text \<open>The upper half of the pairs moves to a new node; their slots are cleared.\<close>

definition move_upper :: "nat \<Rightarrow> nat \<Rightarrow> int \<Rightarrow> int \<Rightarrow> ix_index \<Rightarrow> ix_index" where
  "move_upper f right left_size right_size ix =
     (let h = ix_hdr ix; key_size = ix_col_tot_len h; d = node_bytes f ix;
          ix = upd_node right (\<lambda>r. memcpy r (nat (key_off h 0)) (slice (nat (key_off h left_size)) (nat (key_size * right_size)) d)) ix;
          ix = upd_node right (\<lambda>r. memcpy r (nat (rid_off h 0)) (slice (nat (rid_off h left_size)) (nat (8 * right_size)) d)) ix;
          ix = upd_node f (\<lambda>d. memcpy d (nat (key_off h left_size)) (memset (nat (key_size * right_size)) 0)) ix
      in upd_node f (\<lambda>d. memcpy d (nat (rid_off h left_size)) (memset (nat (8 * right_size)) 0)) ix)"

text \<open>A new right neighbour is linked into the list of leaves.\<close>

definition link_right :: "nat \<Rightarrow> nat \<Rightarrow> ix_index \<Rightarrow> (unit, ix_index) res" where
  "link_right f right ix =
     (let ix = upd_node right (set_prev_leaf (node_page_no f ix)) ix;
          ix = upd_node right (set_next_leaf (get_next_leaf (node_bytes f ix))) ix;
          ix = upd_node f (set_next_leaf (node_page_no right ix)) ix
      in bindE (fetch_node (get_next_leaf (node_bytes right ix)) ix)
           (\<lambda>next ix. let ix = upd_node next (set_prev_leaf (node_page_no right ix)) ix;
                          ix = unpin_node_page next True ix
                      in (Inr (), if node_page_no f ix = last_leaf (ix_hdr ix) then set_last_leaf (node_page_no right ix) ix else ix)))"

definition ix_split :: "nat \<Rightarrow> ix_index \<Rightarrow> (nat, ix_index) res" where
  "ix_split f ix =
     (let left_size = get_size (node_bytes f ix) div 2; right_size = get_size (node_bytes f ix) - left_size
      in bindE (create_node ix)
           (\<lambda>right ix.
              let ix = upd_node f (set_size left_size) ix;
                  ix = upd_node right (set_size right_size) ix;
                  ix = upd_node right (set_parent_page_no (get_parent_page_no (node_bytes f ix))) ix;
                  ix = upd_node right (set_is_leaf (is_leaf_page (node_bytes f ix))) ix
              in bindE (if is_leaf_page (node_bytes f ix) then link_right f right ix else (Inr (), ix))
                   (\<lambda>_ ix. let ix = move_upper f right left_size right_size ix
                      in bindE (if \<not> is_leaf_page (node_bytes f ix)
                                then maintain_children right (map int [0..<nat (get_size (node_bytes right ix))]) ix else (Inr (), ix))
                           (\<lambda>_ ix. (Inr right, ix)))))"

definition ix_node_insert :: "nat \<Rightarrow> bytes \<Rightarrow> Rid \<Rightarrow> ix_index \<Rightarrow> (int, ix_index) res" where
  "ix_node_insert f key val ix =
     (case node_insert (ix_hdr ix) key val (node_bytes f ix) of (r, d) \<Rightarrow> (r, upd_node f (\<lambda>_. d) ix))"

text \<open>A new root above the two halves of the old one.\<close>

definition new_root_above :: "nat \<Rightarrow> bytes \<Rightarrow> nat \<Rightarrow> ix_index \<Rightarrow> (unit, ix_index) res" where
  "new_root_above old_node key new_node ix =
     bindE (create_node ix)
       (\<lambda>new_root ix.
          let ix = set_root_page (node_page_no new_root ix) ix;
              ix = upd_node new_root (set_parent_page_no IX_NO_PAGE) ix;
              ix = upd_node new_root (set_is_leaf False) ix;
              ix = upd_node old_node (set_parent_page_no (node_page_no new_root ix)) ix;
              ix = upd_node new_node (set_parent_page_no (node_page_no new_root ix)) ix;
              ix = upd_node new_root (set_rid (ix_hdr ix) 0 (Rid (node_page_no old_node ix) 0)) ix;
              ix = upd_node new_root (\<lambda>d. set_size (get_size d + 1) d) ix
          in bindE (ix_node_insert new_root key (Rid (node_page_no new_node ix) 0) ix)
               (\<lambda>_ ix. (Inr (), unpin_node_page new_node True (unpin_node_page old_node True (unpin_node_page new_root True ix)))))"

partial_function (option) insert_into_parent :: "nat \<Rightarrow> bytes \<Rightarrow> nat \<Rightarrow> ix_index \<Rightarrow> (unit, ix_index) run" where
  "insert_into_parent old_node key new_node ix =
     (if is_root_page (node_bytes old_node ix) then Some (new_root_above old_node key new_node ix)
      else bindR (Some (fetch_node (get_parent_page_no (node_bytes old_node ix)) ix))
        (\<lambda>parent ix. bindR (Some (ix_node_insert parent key (Rid (node_page_no new_node ix) 0) ix))
           (\<lambda>_ ix. if get_size (node_bytes parent ix) > btree_order (ix_hdr ix) then
                bindR (Some (ix_split parent ix))
                  (\<lambda>right ix. let new_key = get_key (ix_hdr ix) 0 (node_bytes right ix);
                                  ix = unpin_node_page new_node True (unpin_node_page old_node True ix)
                              in insert_into_parent parent new_key right ix)
              else Some (Inr (), unpin_node_page parent True (unpin_node_page new_node True (unpin_node_page old_node True ix))))))"

text \<open>The first entry makes the root, a leaf that is its own neighbour.\<close>

definition first_entry :: "bytes \<Rightarrow> Rid \<Rightarrow> ix_index \<Rightarrow> (int, ix_index) res" where
  "first_entry key val ix =
     bindE (create_node ix)
       (\<lambda>root ix.
          let p = node_page_no root ix;
              ix = set_last_leaf p (set_first_leaf p (set_root_page p ix));
              ix = upd_node root (set_is_leaf True) ix;
              ix = upd_node root (set_parent_page_no IX_NO_PAGE) ix;
              ix = upd_node root (set_next_leaf p) ix;
              ix = upd_node root (set_prev_leaf p) ix
          in bindE (ix_node_insert root key val ix) (\<lambda>_ ix. let ix = unpin_node_page root True ix in (Inr (node_page_no root ix), ix)))"

text \<open>Unless the leaf is split, it is neither unpinned nor marked as changed.\<close>

definition insert_entry :: "bytes \<Rightarrow> Rid \<Rightarrow> ix_index \<Rightarrow> (int, ix_index) run" where
  "insert_entry key val ix =
     (if ix_is_empty ix then Some (first_entry key val ix)
      else bindR (find_leaf_page key ix)
        (\<lambda>leaf ix.
           if get_size (node_bytes leaf ix) \<ge> btree_order (ix_hdr ix) then
             bindR (Some (ix_node_insert leaf key val ix))
               (\<lambda>_ ix. bindR (Some (ix_split leaf ix))
                  (\<lambda>right ix. bindR (insert_into_parent leaf (get_key (ix_hdr ix) 0 (node_bytes right ix)) right ix)
                     (\<lambda>_ ix. Some (Inr (node_page_no leaf ix), ix))))
           else bindR (Some (ix_node_insert leaf key val ix)) (\<lambda>_ ix. Some (Inr (node_page_no leaf ix), ix))))"

section \<open>Deletion\<close>

definition adjust_root :: "nat \<Rightarrow> ix_index \<Rightarrow> (bool, ix_index) res" where
  "adjust_root root ix =
     (let d = node_bytes root ix
      in if \<not> is_leaf_page d \<and> get_size d = 1 then
           let ix = set_root_page (value_at (ix_hdr ix) 0 d) ix
           in bindE (fetch_node (root_page (ix_hdr ix)) ix)
                (\<lambda>new_root ix. let ix = upd_node new_root (set_parent_page_no IX_NO_PAGE) ix
                   in bindE (release_node_handle root ix) (\<lambda>_ ix. (Inr True, ix)))
         else if is_leaf_page d \<and> get_size d = 0 then
           let ix = set_last_leaf IX_NO_PAGE (set_first_leaf IX_NO_PAGE (set_root_page IX_NO_PAGE ix))
           in bindE (release_node_handle root ix) (\<lambda>_ ix. (Inr True, ix))
         else (Inr False, unpin_node_page root True ix))"

definition ix_erase_pair :: "nat \<Rightarrow> int \<Rightarrow> ix_index \<Rightarrow> ix_index" where
  "ix_erase_pair f pos ix = upd_node f (erase_pair (ix_hdr ix) pos) ix"

text \<open>One pair moves between two neighbours; a key that is read after its pair was erased is still in its slot.\<close>

definition redistribute :: "nat \<Rightarrow> nat \<Rightarrow> nat \<Rightarrow> int \<Rightarrow> ix_index \<Rightarrow> (unit, ix_index) res" where
  "redistribute neighbor node parent index ix =
     (let h = ix_hdr ix; pos = get_size (node_bytes neighbor ix) - 1
      in if \<not> is_leaf_page (node_bytes node ix) then
           if index = 0 then
             bindE (ix_node_insert node (get_key h 1 (node_bytes parent ix)) (get_rid h 0 (node_bytes neighbor ix)) ix)
               (\<lambda>_ ix. let ix = ix_erase_pair neighbor 0 ix
                  in bindE (maintain_child node (get_size (node_bytes node ix) - 1) ix)
                       (\<lambda>_ ix. (Inr (), upd_node parent (set_key h 1 (get_key h 0 (node_bytes neighbor ix))) ix)))
           else
             let ix = upd_node node (\<lambda>d. insert_pairs h 1 (get_key h index (node_bytes parent ix)) (Rid_bytes (get_rid h 0 d)) 1 d) ix;
                 ix = upd_node node (set_rid h 0 (get_rid h pos (node_bytes neighbor ix))) ix;
                 ix = ix_erase_pair neighbor pos ix
             in bindE (maintain_child node 0 ix)
                  (\<lambda>_ ix. (Inr (), upd_node parent (set_key h index (get_key h pos (node_bytes neighbor ix))) ix))
         else if index = 0 then
             bindE (ix_node_insert node (get_key h 0 (node_bytes neighbor ix)) (get_rid h 0 (node_bytes neighbor ix)) ix)
               (\<lambda>_ ix. let ix = ix_erase_pair neighbor 0 ix
                  in (Inr (), upd_node parent (set_key h 1 (get_key h 0 (node_bytes neighbor ix))) ix))
           else
             let ix = ix_erase_pair neighbor pos ix
             in bindE (ix_node_insert node (get_key h pos (node_bytes neighbor ix)) (get_rid h pos (node_bytes neighbor ix)) ix)
                  (\<lambda>_ ix. (Inr (), upd_node parent (set_key h index (get_key h pos (node_bytes neighbor ix))) ix)))"

text \<open>The right node goes into the left one and its page is deleted; \<open>coalesce\<close> exchanges the nodes first when \<open>node\<close> is the left one.\<close>

definition merge_right :: "nat \<Rightarrow> nat \<Rightarrow> nat \<Rightarrow> int \<Rightarrow> ix_index \<Rightarrow> (unit, ix_index) res" where
  "merge_right left right parent sidx ix =
     (let h = ix_hdr ix; pos = get_size (node_bytes left ix); num_keys = get_size (node_bytes right ix);
          ix = (if \<not> is_leaf_page (node_bytes right ix) then upd_node right (set_key h 0 (get_key h sidx (node_bytes parent ix))) ix else ix);
          ix = upd_node left (insert_pairs h pos (drop (nat (key_off h 0)) (node_bytes right ix)) (drop (nat (rid_off h 0)) (node_bytes right ix)) num_keys) ix;
          ix = ix_erase_pair parent sidx ix
      in bindE (if \<not> is_leaf_page (node_bytes right ix)
                then maintain_children left (map int [nat pos..<nat (get_size (node_bytes left ix))]) ix else (Inr (), ix))
           (\<lambda>_ ix.
              bindE (if is_leaf_page (node_bytes right ix) then
                       let ix = upd_node left (set_next_leaf (get_next_leaf (node_bytes right ix))) ix
                       in bindE (fetch_node (get_next_leaf (node_bytes right ix)) ix)
                            (\<lambda>next ix. let ix = upd_node next (set_prev_leaf (node_page_no left ix)) ix;
                                           ix = unpin_node_page next True ix
                               in (Inr (), if node_page_no right ix = last_leaf (ix_hdr ix) then set_last_leaf (node_page_no left ix) ix else ix))
                     else (Inr (), ix))
                (\<lambda>_ ix. release_node_handle right (unpin_node_page left True ix))))"

definition coalesce :: "nat \<Rightarrow> nat \<Rightarrow> nat \<Rightarrow> int \<Rightarrow> ix_index \<Rightarrow> (bool, ix_index) res" where
  "coalesce neighbor node parent index ix =
     bindE (if index = 0 then merge_right node neighbor parent 1 ix else merge_right neighbor node parent index ix)
       (\<lambda>_ ix. (Inr False, ix))"

partial_function (option) coalesce_or_redistribute :: "nat \<Rightarrow> ix_index \<Rightarrow> (bool, ix_index) run" where
  "coalesce_or_redistribute node ix =
     (let min_size = max ((btree_order (ix_hdr ix) + 1) div 2 - 1) 1
      in if is_root_page (node_bytes node ix) then bindR (Some (adjust_root node ix)) (\<lambda>_ ix. Some (Inr True, ix))
         else if get_size (node_bytes node ix) \<ge> min_size then Some (Inr False, unpin_node_page node True ix)
         else bindR (Some (fetch_node (get_parent_page_no (node_bytes node ix)) ix))
           (\<lambda>parent ix. case find_child (ix_hdr ix) (node_page_no node ix) (node_bytes parent ix) of
                Inl e \<Rightarrow> Some (Inl e, ix)
              | Inr index \<Rightarrow>
                  let pos = (if index \<noteq> 0 then index - 1 else 1)
                  in bindR (Some (fetch_node (value_at (ix_hdr ix) pos (node_bytes parent ix)) ix))
                       (\<lambda>neighbor ix.
                          bindR (if get_size (node_bytes node ix) + get_size (node_bytes neighbor ix) \<ge> min_size * 2 then
                                   bindR (Some (redistribute neighbor node parent index ix))
                                     (\<lambda>_ ix. Some (Inr (), unpin_node_page neighbor True (unpin_node_page node True ix)))
                                 else bindR (Some (coalesce neighbor node parent index ix)) (\<lambda>_ ix. Some (Inr (), ix)))
                            (\<lambda>_ ix. bindR (coalesce_or_redistribute parent ix) (\<lambda>_ ix. Some (Inr True, ix))))))"

text \<open>Position -1 reads the bytes in front of the keys, as \<open>node_remove\<close> does; the result is always \<open>false\<close>.\<close>

definition delete_entry :: "bytes \<Rightarrow> ix_index \<Rightarrow> (bool, ix_index) run" where
  "delete_entry key ix =
     bindR (find_leaf_page key ix)
       (\<lambda>leaf ix. let h = ix_hdr ix in case node_lower_bound (judge_key h key) h (node_bytes leaf ix) of
            Inl e \<Rightarrow> Some (Inl e, ix)
          | Inr pos \<Rightarrow>
              if key_off h pos < 0 then Some (Inl NullDereference, ix)
              else if memcmp (get_key h pos (node_bytes leaf ix)) key (key_len h) = 0
                   then bindR (coalesce_or_redistribute leaf (ix_erase_pair leaf pos ix)) (\<lambda>_ ix. Some (Inr False, ix))
                   else Some (Inr False, ix))"

section \<open>IxManager\<close>

fun join_names :: "string list \<Rightarrow> string" where
  "join_names [] = ''.idx''"
| "join_names (c # cs) = ''_'' @ c @ join_names cs"

definition get_index_name :: "string \<Rightarrow> string list \<Rightarrow> string" where
  "get_index_name filename index_cols = filename @ join_names index_cols"

definition ix_exists :: "string \<Rightarrow> string list \<Rightarrow> disk_manager \<Rightarrow> bool" where
  "ix_exists filename index_cols d = is_file (get_index_name filename index_cols) d"

definition ix_order :: "int \<Rightarrow> int" where
  "ix_order tot_len = (int PAGE_SIZE - int IX_PAGE_HDR_SIZE) div (tot_len + 8) - 1"

text \<open>A page with the header of an empty leaf.\<close>

definition leaf_page :: "int \<Rightarrow> int \<Rightarrow> bytes" where
  "leaf_page prev next =
     set_next_leaf next (set_prev_leaf prev (set_is_leaf True (set_size 0 (set_parent_page_no IX_NO_PAGE
       (store_int (memset PAGE_SIZE 0) 0 IX_NO_PAGE)))))"

definition ix_new_hdr :: "ColMeta list \<Rightarrow> IxFileHdr" where
  "ix_new_hdr index_cols =
     (let tot_len = sum_list (map cm_len index_cols); bt = ix_order tot_len;
          fhdr = \<lparr>ix_first_free_page_no = IX_NO_PAGE, ix_num_pages = IX_INIT_NUM_PAGES, root_page = IX_INIT_ROOT_PAGE,
            ix_col_num = int (length index_cols), ix_col_types = map cm_type index_cols, ix_col_lens = map cm_len index_cols,
            ix_col_tot_len = tot_len, btree_order = bt, keys_size = (bt + 1) * tot_len,
            first_leaf = IX_INIT_ROOT_PAGE, last_leaf = IX_INIT_ROOT_PAGE, ix_tot_len = 0\<rparr>
      in (update_tot_len fhdr)\<lparr>root_page := IX_NO_PAGE\<rparr>)"

text \<open>\<open>junk\<close> is what the buffer for the header holds; a serialized header fills it.\<close>

definition ix_create_index :: "bytes \<Rightarrow> string \<Rightarrow> ColMeta list \<Rightarrow> disk_manager \<Rightarrow> (unit, disk_manager) res" where
  "ix_create_index junk filename index_cols d =
     (let ix_name = get_index_name filename (map cm_name index_cols); tot_len = sum_list (map cm_len index_cols); fhdr = ix_new_hdr index_cols
      in bindE (create_file ix_name d)
           (\<lambda>_ d. bindE (open_file ix_name d)
              (\<lambda>fd d. if tot_len > IX_MAX_COL_LEN then (Inl (InvalidColLengthError tot_len), d)
                 else if \<not> btree_order fhdr > 2 then (Inl (AssertionFailed ''btree_order > 2''), d)
                 else case IxFileHdr_serialize fhdr (take (nat (ix_tot_len fhdr)) junk) of
                        Inl e \<Rightarrow> (Inl e, d)
                      | Inr data \<Rightarrow>
                          bindE (write_page fd IX_FILE_HDR_PAGE data d)
                            (\<lambda>_ d. bindE (write_page fd IX_LEAF_HEADER_PAGE (leaf_page IX_INIT_ROOT_PAGE IX_INIT_ROOT_PAGE) d)
                               (\<lambda>_ d. bindE (write_page fd IX_INIT_ROOT_PAGE (leaf_page IX_LEAF_HEADER_PAGE IX_LEAF_HEADER_PAGE) d)
                                  (\<lambda>_ d. close_file fd (set_fd2pageno fd (IX_INIT_NUM_PAGES - 1) d)))))))"

definition ix_destroy_index :: "string \<Rightarrow> string list \<Rightarrow> disk_manager \<Rightarrow> (unit, disk_manager) res" where
  "ix_destroy_index filename index_cols d = destroy_file (get_index_name filename index_cols) d"

definition ix_open_index :: "IxFileHdr \<Rightarrow> string \<Rightarrow> string list \<Rightarrow> bpm \<Rightarrow> (ix_index, bpm) res" where
  "ix_open_index junk filename index_cols b =
     (case open_file (get_index_name filename index_cols) (disk b) of
        (Inl e, d) \<Rightarrow> (Inl e, b\<lparr>disk := d\<rparr>)
      | (Inr fd, d) \<Rightarrow> IxIndexHandle_init junk fd (b\<lparr>disk := d\<rparr>))"

definition ix_close_index :: "bytes \<Rightarrow> ix_index \<Rightarrow> (unit, bpm) res" where
  "ix_close_index junk ix =
     (case IxFileHdr_serialize (ix_hdr ix) (take (nat (ix_tot_len (ix_hdr ix))) junk) of
        Inl e \<Rightarrow> (Inl e, ix_pool ix)
      | Inr data \<Rightarrow>
          bindE (write_out (PageId (ix_fd ix) IX_FILE_HDR_PAGE) data (ix_pool ix))
            (\<lambda>_ b. bindE (flush_all_pages (ix_fd ix) b)
               (\<lambda>_ b. case close_file (ix_fd ix) (disk b) of (r, d) \<Rightarrow> (r, b\<lparr>disk := d\<rparr>))))"

end
