(* ===== verification/IxLookup.thy ===== *)
theory IxLookup
  imports IxTree
begin

text \<open>
  The search in the B+ tree. A tree is described on the content of its pages: its leaves from left to right, and the order of
  its keys with respect to the keys of the inner nodes. The descent reaches the only leaf that may hold a key, and
  \<open>lower_bound\<close> the first entry that is not less than it, in any tree and pool in which the pages can be read.
\<close>

section \<open>Trees of pages\<close>

definition leaf_entries :: "IxFileHdr \<Rightarrow> bytes \<Rightarrow> (bytes \<times> Rid) list" where
  "leaf_entries h d = zip (node_keys h d) (node_rids h d)"

fun tree_leaves :: "IxFileHdr \<Rightarrow> (int \<Rightarrow> bytes) \<Rightarrow> nat \<Rightarrow> int \<Rightarrow> int list" where
  "tree_leaves h g 0 p = [p]"
| "tree_leaves h g (Suc n) p = concat (map (\<lambda>r. tree_leaves h g n (rid_page r)) (node_rids h (g p)))"

definition tree_entries :: "IxFileHdr \<Rightarrow> (int \<Rightarrow> bytes) \<Rightarrow> nat \<Rightarrow> int \<Rightarrow> (bytes \<times> Rid) list" where
  "tree_entries h g n p = concat (map (\<lambda>q. leaf_entries h (g q)) (tree_leaves h g n p))"

fun tree_pages :: "IxFileHdr \<Rightarrow> (int \<Rightarrow> bytes) \<Rightarrow> nat \<Rightarrow> int \<Rightarrow> int set" where
  "tree_pages h g 0 p = {p}"
| "tree_pages h g (Suc n) p = insert p (\<Union>r \<in> set (node_rids h (g p)). tree_pages h g n (rid_page r))"

text \<open>The keys below child \<open>i\<close> lie between the keys \<open>i\<close> and \<open>i + 1\<close> of the node; the first has no lower and the last no upper bound.\<close>

definition child_between :: "IxFileHdr \<Rightarrow> bytes \<Rightarrow> nat \<Rightarrow> bytes set \<Rightarrow> bool" where
  "child_between h d i ks \<longleftrightarrow> (\<forall>k \<in> ks.
     (0 < i \<longrightarrow> \<not> key_lt h k (node_keys h d ! i)) \<and> (i + 1 < nat (get_size d) \<longrightarrow> key_lt h k (node_keys h d ! (i + 1))))"

fun tree_ok :: "IxFileHdr \<Rightarrow> (int \<Rightarrow> bytes) \<Rightarrow> nat \<Rightarrow> int \<Rightarrow> bool" where
  "tree_ok h g 0 p \<longleftrightarrow> leaf_ok h (g p) \<and> 0 < get_size (g p)"
| "tree_ok h g (Suc n) p \<longleftrightarrow> node_ok h (g p) \<and> \<not> is_leaf_page (g p) \<and> 1 < get_size (g p) \<and> node_sorted h (g p) \<and>
     (\<forall>i < nat (get_size (g p)).
        tree_ok h g n (rid_page (node_rids h (g p) ! i)) \<and>
        child_between h (g p) i (fst ` set (tree_entries h g n (rid_page (node_rids h (g p) ! i)))))"

text \<open>The leaf that the descent for a key reaches.\<close>

definition child_slot :: "IxFileHdr \<Rightarrow> bytes \<Rightarrow> bytes \<Rightarrow> nat" where
  "child_slot h d key = length (filter (\<lambda>k. \<not> key_lt h key k) (drop 1 (node_keys h d)))"

fun tree_leaf :: "IxFileHdr \<Rightarrow> (int \<Rightarrow> bytes) \<Rightarrow> nat \<Rightarrow> int \<Rightarrow> bytes \<Rightarrow> int" where
  "tree_leaf h g 0 p key = p"
| "tree_leaf h g (Suc n) p key = tree_leaf h g n (rid_page (node_rids h (g p) ! child_slot h (g p) key)) key"

section \<open>The order of keys\<close>

lemma key_lt_trans1:
  assumes "key_exact (key_spec h) a" and "key_exact (key_spec h) b" and "key_exact (key_spec h) c"
  shows "key_lt h a b \<Longrightarrow> \<not> key_lt h c b \<Longrightarrow> key_lt h a c" and "\<not> key_lt h b a \<Longrightarrow> key_lt h b c \<Longrightarrow> key_lt h a c"
    and "key_lt h a b \<Longrightarrow> \<not> key_lt h b a"
  using assms [THEN key_exact_ok] index_keys.cmp_less_trans [of a "key_spec h" b c] index_keys.cmp_le_trans [of a "key_spec h" b c]
    exact_flip [OF assms(1,2)] exact_flip [OF assms(2,3)] by (auto simp: key_lt_def)

lemma leaf_entries_keys: "fst ` set (leaf_entries h d) = set (node_keys h d)"
  unfolding leaf_entries_def by (metis list.set_map map_fst_zip node_lengths)

lemma tree_entries_keys: "fst ` set (tree_entries h g n p) = (\<Union>q \<in> set (tree_leaves h g n p). set (node_keys h (g q)))"
  by (simp add: tree_entries_def image_UN leaf_entries_keys)

lemma tree_entries_Suc:
  "tree_entries h g (Suc n) p = concat (map (\<lambda>r. tree_entries h g n (rid_page r)) (node_rids h (g p)))"
proof -
  have "concat (map f (concat (map k xs))) = concat (map (\<lambda>x. concat (map f (k x))) xs)" for f :: "int \<Rightarrow> (bytes \<times> Rid) list" and k :: "Rid \<Rightarrow> int list" and xs
    by (induction xs) simp_all
  then show ?thesis by (simp add: tree_entries_def)
qed

lemma rids_nth:
  assumes "r \<in> set (node_rids h d)"
  obtains i where "i < nat (get_size d)" and "r = node_rids h d ! i"
  using assms by (auto simp: in_set_conv_nth)

lemma tree_leaves_ok:
  "tree_ok h g n p \<Longrightarrow> q \<in> set (tree_leaves h g n p) \<Longrightarrow> leaf_ok h (g q) \<and> 0 < get_size (g q)"
  by (induction n arbitrary: p) (auto elim!: rids_nth)

lemma tree_leaves_pages: "set (tree_leaves h g n p) \<subseteq> tree_pages h g n p"
  by (induction n arbitrary: p) auto

lemma tree_keys_exact:
  "tree_ok h g n p \<Longrightarrow> q \<in> set (tree_leaves h g n p) \<Longrightarrow> k \<in> set (node_keys h (g q)) \<Longrightarrow> key_exact (key_spec h) k"
  using tree_leaves_ok leaf_sorted(2) by blast

section \<open>The child for a key\<close>

lemma sorted_filter_prefix:
  assumes "\<And>i j. i < j \<Longrightarrow> j < length xs \<Longrightarrow> P (xs ! j) \<Longrightarrow> P (xs ! i)"
  shows "i < length xs \<Longrightarrow> P (xs ! i) \<longleftrightarrow> i < length (filter P xs)"
  using assms
proof (induction xs arbitrary: i)
  case (Cons x xs)
  have IH: "j < length xs \<Longrightarrow> P (xs ! j) \<longleftrightarrow> j < length (filter P xs)" for j
    using Cons.prems(2) [of "Suc _" "Suc _"] by (intro Cons.IH) auto
  show ?case
  proof (cases "P x")
    case True
    then show ?thesis using IH Cons.prems(1) by (cases i) auto
  next
    case False
    then have "\<not> P (xs ! j)" if "j < length xs" for j using Cons.prems(2) [of 0 "Suc j"] that by auto
    then have "filter P xs = []" by (auto simp: filter_empty_conv in_set_conv_nth)
    moreover have "\<not> P ((x # xs) ! i)" using False Cons.prems(1) \<open>\<And>j. j < length xs \<Longrightarrow> \<not> P (xs ! j)\<close> by (cases i) auto
    ultimately show ?thesis using False by simp
  qed
qed simp

lemma child_slot_iff:
  assumes s: "node_sorted h d" and i: "\<not> is_leaf_page d" and n: "get_size d = int n" "1 < n" and k: "key_exact (key_spec h) key"
  shows "child_slot h d key < n" and "0 < j \<Longrightarrow> j < n \<Longrightarrow> key_lt h key (node_keys h d ! j) \<longleftrightarrow> child_slot h d key < j"
proof -
  let ?ks = "drop 1 (node_keys h d)"
  have fs: "first_slot d = 1" using i by (simp add: first_slot_def)
  have len: "length ?ks = n - 1" using n by simp
  have nth: "?ks ! j = node_keys h d ! (j + 1)" if "j < n - 1" for j using that n by (simp add: add.commute)
  have "length (filter (\<lambda>k. \<not> key_lt h key k) ?ks) \<le> n - 1" using len length_filter_le by metis
  then show "child_slot h d key < n" using n(2) unfolding child_slot_def by linarith
  have ex: "key_exact (key_spec h) (node_keys h d ! j)" if "0 < j" "j < n" for j
    using node_sorted_nth(1) [OF s n(1)] fs that by simp
  have mono: "\<not> key_lt h key (?ks ! i)" if "i < j" "j < length ?ks" "\<not> key_lt h key (?ks ! j)" for i j
  proof
    assume "key_lt h key (?ks ! i)"
    moreover have "key_lt h (?ks ! i) (?ks ! j)" using node_sorted_nth(2) [OF s n(1), of "i + 1" "j + 1"] fs that len nth by simp
    ultimately show False
      using key_lt_trans [of h key "?ks ! i" "?ks ! j"] that ex [THEN key_exact_ok] key_exact_ok [OF k] nth len by simp
  qed
  show "key_lt h key (node_keys h d ! j) \<longleftrightarrow> child_slot h d key < j" if "0 < j" "j < n"
  proof -
    have "(\<not> key_lt h key (?ks ! (j - 1))) \<longleftrightarrow> j - 1 < length (filter (\<lambda>k. \<not> key_lt h key k) ?ks)"
      using sorted_filter_prefix [of ?ks "\<lambda>k. \<not> key_lt h key k" "j - 1"] mono that len by simp
    moreover have "?ks ! (j - 1) = node_keys h d ! j" using nth [of "j - 1"] that by simp
    moreover have "length (filter (\<lambda>k. \<not> key_lt h key k) ?ks) = child_slot h d key" by (simp add: child_slot_def)
    ultimately show ?thesis using that by auto
  qed
qed

lemma internal_lookup_child:
  assumes h: "hdr_ok h" and s: "node_sorted h d" and i: "\<not> is_leaf_page d" and n: "get_size d = int n" "1 < n" and k: "key_exact (key_spec h) key"
  shows "internal_lookup h key d = Inr (rid_page (node_rids h d ! child_slot h d key))"
proof -
  let ?c = "\<lambda>i. ix_cmp (key_spec h) (node_keys h d ! i) key" and ?s = "child_slot h d key"
  have fs: "first_slot d = 1" using i by (simp add: first_slot_def)
  note slot = child_slot_iff [OF s i n k]
  have b: "node_lower_bound (judge_key h key) h d = Inr (first_from 1 n (\<lambda>i. \<not> ?c i < 0))"
    using bounds_first(1) [OF h s n(1), of key] n(2) key_exact_ok [OF k] fs by simp
  have ex: "key_exact (key_spec h) (node_keys h d ! j)" if "0 < j" "j < n" for j
    using node_sorted_nth(1) [OF s n(1)] fs that by simp
  have val: "value_at h (int j) d = rid_page (node_rids h d ! j)" if "j < n" for j using that n by (simp add: value_at_def node_rids_nth)
  have lt: "?c j < 0 \<or> ?c j = 0" if "0 < j" "j \<le> ?s" for j
    using slot(1) slot(2) [of j] that exact_flip [OF ex k, of j] by (auto simp: key_lt_def not_less)
  have gt: "0 < ?c j" if "?s < j" "j < n" for j
    using slot(1) slot(2) [of j] that exact_flip [OF ex k, of j] by (auto simp: key_lt_def)
  have len: "length (node_keys h d ! j) = key_len h" if "0 < j" "j < n" for j
    using key_exact_length [OF ex [OF that]] spec_lens [OF h] by simp
  have mem: "memcmp (get_key h (int j) d) key (key_len h) = 0 \<longleftrightarrow> ?c j = 0" if "0 < j" "j < n" for j
    using memcmp_0 [of "key_len h" "node_keys h d ! j" key] len [OF that] key_exact_length [OF k] spec_lens [OF h]
      ix_cmp_0 [OF ex [OF that] k] that n by (simp add: node_keys_nth)
  show ?thesis
  proof (cases "find (\<lambda>i. \<not> ?c i < 0) [1..<n]")
    case None
    then have "?c j < 0" if "0 < j" "j < n" for j using that by (simp add: find_None_iff)
    then have last: "?c (n - 1) < 0" using n(2) by simp
    have "\<not> ?s < n - 1"
    proof
      assume "?s < n - 1"
      then have "0 < ?c (n - 1)" using n(2) by (intro gt) simp_all
      then show False using last by simp
    qed
    then have eq: "?s = n - 1" using slot(1) by simp
    have m: "nat (get_size d) = n" "get_size d - 1 = int (n - 1)" using n by simp_all
    show ?thesis using b None m(2) val [of "n - 1"] n(2) eq by (simp add: internal_lookup_def internal_lookup_by_def first_from_def)
  next
    case (Some p)
    then obtain q where q: "p = Suc q" "q < n - 1" "\<not> ?c (Suc q) < 0" "\<forall>j < q. ?c (Suc j) < 0" by (auto simp: find_Some_iff)
    have "?c i < 0" if "0 < i" "i < p" for i using q that by (cases i) auto
    then have p: "0 < p" "p < n" "\<not> ?c p < 0" "\<And>i. 0 < i \<Longrightarrow> i < p \<Longrightarrow> ?c i < 0" using q by auto
    have e: "internal_lookup h key d = Inr (value_at h (if ?c p = 0 then int p else int p - 1) d)"
      using b Some mem [OF p(1,2)] by (simp add: internal_lookup_def internal_lookup_by_def first_from_def)
    show ?thesis
    proof (cases "?c p = 0")
      case True
      have "\<not> ?s < p" using gt [of p] True p(2) by auto
      moreover have "\<not> p < ?s"
      proof
        assume "p < ?s"
        then have "?c ?s \<le> 0" "?s < n" using lt [of ?s] slot(1) by auto
        moreover have "key_lt h (node_keys h d ! p) (node_keys h d ! ?s)"
          using node_sorted_nth(2) [OF s n(1), of p ?s] fs p \<open>p < ?s\<close> slot(1) by simp
        ultimately have "?c p < 0"
          using index_keys.cmp_less_trans [of "node_keys h d ! p" "key_spec h" "node_keys h d ! ?s" key] ex [THEN key_exact_ok] key_exact_ok [OF k] p \<open>p < ?s\<close>
          by (simp add: key_lt_def)
        then show False using True by simp
      qed
      ultimately have "?s = p" by simp
      then show ?thesis using e True val [OF p(2)] by simp
    next
      case False
      then have "0 < ?c p" using p(3) by simp
      have "?s < p"
      proof (rule ccontr)
        assume "\<not> ?s < p"
        then have "?c p < 0 \<or> ?c p = 0" using p(1) by (intro lt) simp_all
        then show False using \<open>0 < ?c p\<close> by simp
      qed
      moreover have "\<not> ?s < p - 1"
      proof
        assume "?s < p - 1"
        then have "0 < ?c (p - 1)" "?c (p - 1) < 0" using p by (auto intro!: gt p(4))
        then show False by simp
      qed
      ultimately have "?s = p - 1" by simp
      then show ?thesis using e False val [of "p - 1"] p by (simp add: of_nat_diff)
    qed
  qed
qed

section \<open>The leaf for a key\<close>

text \<open>The leaves before it hold smaller keys only, those behind it larger ones only.\<close>

definition splits_at :: "IxFileHdr \<Rightarrow> (int \<Rightarrow> bytes) \<Rightarrow> bytes \<Rightarrow> int list \<Rightarrow> int list \<Rightarrow> bool" where
  "splits_at h g key ls rs \<longleftrightarrow>
     (\<forall>q \<in> set ls. \<forall>k \<in> set (node_keys h (g q)). key_lt h k key) \<and> (\<forall>q \<in> set rs. \<forall>k \<in> set (node_keys h (g q)). key_lt h key k)"

lemma inner_children:
  assumes t: "tree_ok h g (Suc n) p" and k: "key_exact (key_spec h) key" and i: "i < nat (get_size (g p))"
    and q: "q \<in> set (tree_leaves h g n (rid_page (node_rids h (g p) ! i)))" "k \<in> set (node_keys h (g q))"
  shows "i < child_slot h (g p) key \<Longrightarrow> key_lt h k key" and "child_slot h (g p) key < i \<Longrightarrow> key_lt h key k"
proof -
  let ?d = "g p" and ?s = "child_slot h (g p) key"
  obtain m where m: "get_size ?d = int m" "1 < m" using t by (metis (no_types) tree_ok.simps(2) int_eq_iff of_nat_1 of_nat_less_iff zero_less_one order_less_trans order_less_imp_le)
  note slot = child_slot_iff [OF _ _ m k]
  have s: "node_sorted h ?d" "\<not> is_leaf_page ?d" and c: "tree_ok h g n (rid_page (node_rids h ?d ! i))"
    and b: "child_between h ?d i (fst ` set (tree_entries h g n (rid_page (node_rids h ?d ! i))))" using t i by simp_all
  have ke: "key_exact (key_spec h) k" using tree_keys_exact [OF c q] .
  have ex: "key_exact (key_spec h) (node_keys h ?d ! j)" if "0 < j" "j < m" for j
    using node_sorted_nth(1) [OF s(1) m(1)] s(2) that by (simp add: first_slot_def)
  have bk: "(0 < i \<longrightarrow> \<not> key_lt h k (node_keys h ?d ! i)) \<and> (i + 1 < m \<longrightarrow> key_lt h k (node_keys h ?d ! (i + 1)))"
    using b q m(1) by (auto simp: child_between_def tree_entries_keys)
  have sm: "?s < m" using slot(1) s by simp
  show "key_lt h k key" if "i < ?s"
  proof -
    have "\<not> key_lt h key (node_keys h ?d ! (i + 1))" using slot(2) [OF s, of "i + 1"] that sm by simp
    then show ?thesis using key_lt_trans1(1) [OF ke ex k, of "i + 1"] bk that sm by simp
  qed
  show "key_lt h key k" if "?s < i"
  proof -
    have "i < m" using i m(1) by simp
    then have "key_lt h key (node_keys h ?d ! i)" using slot(2) [OF s, of i] that by simp
    then show ?thesis using key_lt_trans1(1) [OF k ex ke, of i] bk that \<open>i < m\<close> by simp
  qed
qed

lemma splits_atI:
  "(\<And>q k. q \<in> set ls \<Longrightarrow> k \<in> set (node_keys h (g q)) \<Longrightarrow> key_lt h k key) \<Longrightarrow>
   (\<And>q k. q \<in> set rs \<Longrightarrow> k \<in> set (node_keys h (g q)) \<Longrightarrow> key_lt h key k) \<Longrightarrow> splits_at h g key ls rs"
  by (simp add: splits_at_def)

lemma descent_splits:
  assumes "tree_ok h g n p" and "key_exact (key_spec h) key"
  shows "\<exists>ls rs. tree_leaves h g n p = ls @ tree_leaf h g n p key # rs \<and> splits_at h g key ls rs"
  using assms(1)
proof (induction n arbitrary: p)
  case 0
  show ?case by (intro exI [of _ "[]"]) (simp add: splits_at_def)
next
  case (Suc n)
  let ?s = "child_slot h (g p) key" and ?rids = "node_rids h (g p)" and ?l = "\<lambda>r. tree_leaves h g n (rid_page r)"
  obtain m where m: "get_size (g p) = int m" "1 < m"
    using Suc.prems by (metis (no_types) tree_ok.simps(2) int_eq_iff of_nat_1 of_nat_less_iff zero_less_one order_less_trans order_less_imp_le)
  have s: "?s < m" using child_slot_iff(1) [OF _ _ m assms(2)] Suc.prems by simp
  then obtain ls rs where c: "?l (?rids ! ?s) = ls @ tree_leaf h g n (rid_page (?rids ! ?s)) key # rs" "splits_at h g key ls rs"
    using Suc.IH [of "rid_page (?rids ! ?s)"] Suc.prems m(1) by auto
  have len: "length ?rids = m" using m(1) by simp
  have "?rids = take ?s ?rids @ ?rids ! ?s # drop (?s + 1) ?rids" using id_take_nth_drop [of ?s ?rids] s len by simp
  then have "tree_leaves h g (Suc n) p = concat (map ?l (take ?s ?rids)) @ ?l (?rids ! ?s) @ concat (map ?l (drop (?s + 1) ?rids))"
    by (metis (no_types, lifting) concat.simps(2) concat_append list.simps(9) map_append tree_leaves.simps(2))
  moreover have "splits_at h g key (concat (map ?l (take ?s ?rids)) @ ls) (rs @ concat (map ?l (drop (?s + 1) ?rids)))"
  proof (rule splits_atI)
    fix q k assume q: "q \<in> set (concat (map ?l (take ?s ?rids)) @ ls)" "k \<in> set (node_keys h (g q))"
    show "key_lt h k key"
    proof (cases "q \<in> set ls")
      case False
      then obtain r where r: "r \<in> set (take ?s ?rids)" "q \<in> set (?l r)" using q(1) by auto
      then obtain i where "i < ?s" "q \<in> set (?l (?rids ! i))" using s len by (fastforce simp: in_set_conv_nth [of r])
      then show ?thesis using inner_children(1) [OF Suc.prems assms(2)] q(2) s m(1) by (metis nat_int order_less_trans)
    qed (use c(2) q(2) in \<open>auto simp: splits_at_def\<close>)
  next
    fix q k assume q: "q \<in> set (rs @ concat (map ?l (drop (?s + 1) ?rids)))" "k \<in> set (node_keys h (g q))"
    show "key_lt h key k"
    proof (cases "q \<in> set rs")
      case False
      then obtain r where r: "r \<in> set (drop (?s + 1) ?rids)" "q \<in> set (?l r)" using q(1) by auto
      then obtain j where "j < m - (?s + 1)" "r = ?rids ! (?s + 1 + j)" using len by (auto simp: in_set_conv_nth)
      then show ?thesis using inner_children(2) [OF Suc.prems assms(2), of "?s + 1 + j"] r(2) q(2) m(1) by simp
    qed (use c(2) q(2) in \<open>auto simp: splits_at_def\<close>)
  qed
  ultimately show ?case
    using c(1) by (intro exI [of _ "concat (map ?l (take ?s ?rids)) @ ls"] exI [of _ "rs @ concat (map ?l (drop (?s + 1) ?rids))"]) simp
qed

text \<open>What the tree has at and behind a key.\<close>

definition not_before :: "IxFileHdr \<Rightarrow> bytes \<Rightarrow> (bytes \<times> Rid) list \<Rightarrow> (bytes \<times> Rid) list" where
  "not_before h key es = filter (\<lambda>(k, r). \<not> key_lt h k key) es"

lemma entries_key: "(k, r) \<in> set (leaf_entries h d) \<Longrightarrow> k \<in> set (node_keys h d)"
  by (metis leaf_entries_keys fst_conv image_eqI)

lemma tree_from:
  assumes t: "tree_ok h g n p" and k: "key_exact (key_spec h) key" and l: "tree_leaves h g n p = ls @ q # rs" "splits_at h g key ls rs"
  shows "not_before h key (tree_entries h g n p) = not_before h key (leaf_entries h (g q)) @ concat (map (\<lambda>q. leaf_entries h (g q)) rs)"
    and "map_of (tree_entries h g n p) key = leaf_map h (g q) key"
proof -
  let ?e = "\<lambda>qs. concat (map (\<lambda>q. leaf_entries h (g q)) qs)"
  have e: "tree_entries h g n p = ?e ls @ leaf_entries h (g q) @ ?e rs" using l(1) by (simp add: tree_entries_def)
  have ex: "key_exact (key_spec h) k'" if "q' \<in> set (ls @ q # rs)" "k' \<in> set (node_keys h (g q'))" for q' k'
    using tree_keys_exact [OF t] that l(1) by metis
  have small: "key_lt h k' key" if "(k', r) \<in> set (?e ls)" for k' r
    using that l(2) entries_key by (fastforce simp: splits_at_def)
  have large: "key_lt h key k'" "key_exact (key_spec h) k'" if "(k', r) \<in> set (?e rs)" for k' r
    using that l(2) entries_key ex by (fastforce simp: splits_at_def)+
  have irr: "\<not> key_lt h key key" using key_lt_trans1(3) [OF k k k] by blast
  have "not_before h key (?e ls) = []" using small by (fastforce simp: not_before_def filter_empty_conv)
  moreover have "not_before h key (?e rs) = ?e rs"
    unfolding not_before_def filter_id_conv using large key_lt_trans1(3) [OF k _ k] by fastforce
  ultimately show "not_before h key (tree_entries h g n p) = not_before h key (leaf_entries h (g q)) @ ?e rs"
    using e by (simp add: not_before_def)
  have "map_of (?e ls) key = None" using small irr by (fastforce simp: map_of_eq_None_iff)
  moreover have "map_of (?e rs) key = None" using large(1) irr by (fastforce simp: map_of_eq_None_iff)
  moreover have "map_of (leaf_entries h (g q)) = leaf_map h (g q)" by (simp add: leaf_map_def leaf_entries_def)
  ultimately show "map_of (tree_entries h g n p) key = leaf_map h (g q) key"
    unfolding e by (simp add: map_add_def split: option.split)
qed

lemma leaf_bound_from:
  assumes h: "hdr_ok h" and l: "leaf_ok h d" "0 < get_size d" and k: "key_exact (key_spec h) key"
  obtains idx where "node_lower_bound (judge_key h key) h d = Inr idx"
    and "idx = -1 \<longrightarrow> not_before h key (leaf_entries h d) = []"
    and "idx \<noteq> -1 \<longrightarrow> 0 \<le> idx \<and> idx < get_size d \<and> not_before h key (leaf_entries h d) = drop (nat idx) (leaf_entries h d)"
proof -
  obtain n where n: "get_size d = int n" "0 < n" using l(2) by (metis less_imp_le of_nat_0_less_iff zero_le_imp_eq_int)
  have nth: "leaf_entries h d ! i = (node_keys h d ! i, node_rids h d ! i)" "length (leaf_entries h d) = n" if "i < n" for i
    using that n(1) by (simp_all add: leaf_entries_def)
  have len: "length (leaf_entries h d) = n" using n(1) by (simp add: leaf_entries_def)
  have drop: "not_before h key (leaf_entries h d) = drop p (leaf_entries h d)"
    if less: "\<And>i. i < p \<Longrightarrow> key_lt h (node_keys h d ! i) key" and p: "p \<le> n" "p < n \<Longrightarrow> \<not> key_lt h (node_keys h d ! p) key" for p
  proof -
    have ge: "\<not> key_lt h (node_keys h d ! i) key" if "p \<le> i" "i < n" for i
    proof
      assume i: "key_lt h (node_keys h d ! i) key"
      then have "p < i" using that p(2) by (cases "i = p") auto
      then have "key_lt h (node_keys h d ! p) (node_keys h d ! i)"
        using leaf_sorted(1) [OF l(1)] that n(1) by (simp add: sorted_wrt_nth_less)
      moreover have "key_ok (key_spec h) (node_keys h d ! j)" if "j < n" for j
        using leaf_sorted(2) [OF l(1)] that n(1) by (auto intro!: key_exact_ok)
      ultimately have "key_lt h (node_keys h d ! p) key"
        using key_lt_trans [of h "node_keys h d ! p" "node_keys h d ! i" key] i that \<open>p < i\<close> key_exact_ok [OF k] by simp
      then show False using p(2) that \<open>p < i\<close> by simp
    qed
    have "filter (\<lambda>(k, r). \<not> key_lt h k key) (take p (leaf_entries h d)) = []"
      using less p(1) len nth(1) by (auto simp: filter_empty_conv in_set_conv_nth)
    moreover have "filter (\<lambda>(k, r). \<not> key_lt h k key) (drop p (leaf_entries h d)) = drop p (leaf_entries h d)"
      unfolding filter_id_conv using ge p(1) len nth(1) by (auto simp: in_set_conv_nth)
    ultimately show ?thesis unfolding not_before_def by (metis append_Nil append_take_drop_id filter_append)
  qed
  from h l(1) n k show thesis
  proof (cases rule: leaf_lower_bound)
    case all_less
    then show thesis using that [of "-1"] drop [of n] len by (simp add: key_lt_def)
  next
    case (found p)
    then have "\<not> key_lt h (node_keys h d ! p) key" using key_lt_trans1(3) [OF k k k] by auto
    then show thesis using that [of "int p"] drop [of p] found n(1) by (simp add: key_lt_def)
  next
    case (between p)
    then show thesis using that [of "int p"] drop [of p] n(1) by (simp add: key_lt_def)
  qed
qed

section \<open>The descent over the buffer pool\<close>

definition readable :: "bpm \<Rightarrow> int \<Rightarrow> (int \<Rightarrow> bytes) \<Rightarrow> int set \<Rightarrow> bool" where
  "readable b fd g P \<longleftrightarrow> bpm_inv b \<and> card {q. 0 < pin_of b q} < pool_size b \<and>
     (\<forall>p \<in> P. valid_pid (disk b) (PageId fd p) \<and> content b (PageId fd p) = Some (g p))"

lemma readable_same: "readable b fd g P \<Longrightarrow> pool.same_but {} b b' \<Longrightarrow> bpm_inv b' \<Longrightarrow> readable b' fd g P"
  by (auto simp: readable_def pool.same_but_def)

lemma readable_subset: "readable b fd g P \<Longrightarrow> Q \<subseteq> P \<Longrightarrow> readable b fd g Q"
  by (auto simp: readable_def)

text \<open>The handle \<open>f\<close> in pool \<open>b1\<close> is that of page \<open>p\<close>; when it is released the pool is as before.\<close>

definition holds_page :: "bpm \<Rightarrow> int \<Rightarrow> int \<Rightarrow> bytes \<Rightarrow> nat \<Rightarrow> bpm \<Rightarrow> bool" where
  "holds_page b fd p d f b1 \<longleftrightarrow> pg_data (pages b1 ! f) = d \<and> pg_id (pages b1 ! f) = PageId fd p \<and>
     (\<exists>b2. unpin_page (PageId fd p) False b1 = (True, b2) \<and> bpm_inv b2 \<and> pool.same_but {} b b2)"

lemma fetch_node_ok:
  assumes "readable b fd g P" and "p \<in> P" and "ix_fd ix = fd"
  obtains f b1 where "fetch_node p (ix\<lparr>ix_pool := b\<rparr>) = (Inr f, ix\<lparr>ix_pool := b1\<rparr>)" and "holds_page b fd p (g p) f b1"
proof -
  have b: "bpm_inv b" "valid_pid (disk b) (PageId fd p)" "content b (PageId fd p) = Some (g p)" "card {q. 0 < pin_of b q} < pool_size b"
    using assms by (auto simp: readable_def)
  obtain f b1 b2 where r: "fetch_page (PageId fd p) b = (Inr (Some f), b1)" "pg_data (pages b1 ! f) = g p"
    "unpin_page (PageId fd p) False b1 = (True, b2)" "bpm_inv b2" "pool.same_but {} b b2" using pool.read_only [OF b] .
  have "bpm_inv b1" "map_of (page_table b1) (PageId fd p) = Some f" using pool.fetch_law [OF b] r(1) by auto
  then have "pg_id (pages b1 ! f) = PageId fd p" by (rule resident_facts)
  with r assms(3) show thesis by (intro that [of f b1]) (auto simp: fetch_node_def lift_ix_def holds_page_def)
qed

lemma holds_page_unpin:
  assumes "holds_page b fd p d f b1" and "ix_fd ix = fd"
  obtains b2 where "unpin_node_page f False (ix\<lparr>ix_pool := b1\<rparr>) = ix\<lparr>ix_pool := b2\<rparr>" and "bpm_inv b2" and "pool.same_but {} b b2"
  using assms by (auto simp: holds_page_def unpin_node_page_def unpin_ix_def node_page_no_def node_id_def)

lemma holds_page_sel:
  "holds_page b fd p d f b1 \<Longrightarrow> node_bytes f (ix\<lparr>ix_pool := b1\<rparr>) = d"
  "holds_page b fd p d f b1 \<Longrightarrow> node_page_no f (ix\<lparr>ix_pool := b1\<rparr>) = p"
  by (simp_all add: holds_page_def node_bytes_def node_page_no_def node_id_def)

lemma holds_page_same: "holds_page b' fd p d f b1 \<Longrightarrow> pool.same_but {} b b' \<Longrightarrow> holds_page b fd p d f b1"
  using pool.same_but_trans [of "{}" b b' "{}"] by (auto simp: holds_page_def)

lemma descend_reaches:
  assumes "hdr_ok (ix_hdr ix)" and "key_exact (key_spec (ix_hdr ix)) key"
  shows "tree_ok (ix_hdr ix) g n p \<Longrightarrow> readable b (ix_fd ix) g (tree_pages (ix_hdr ix) g n p) \<Longrightarrow>
    \<exists>f b1. bindR (Some (fetch_node p (ix\<lparr>ix_pool := b\<rparr>))) (descend (\<lambda>h d. internal_lookup h key d)) = Some (Inr f, ix\<lparr>ix_pool := b1\<rparr>) \<and>
      holds_page b (ix_fd ix) (tree_leaf (ix_hdr ix) g n p key) (g (tree_leaf (ix_hdr ix) g n p key)) f b1"
proof (induction n arbitrary: p b)
  case 0
  obtain f b1 where f: "fetch_node p (ix\<lparr>ix_pool := b\<rparr>) = (Inr f, ix\<lparr>ix_pool := b1\<rparr>)" "holds_page b (ix_fd ix) p (g p) f b1"
    using fetch_node_ok [OF 0(2), of p ix] by auto
  have "descend (\<lambda>h d. internal_lookup h key d) f (ix\<lparr>ix_pool := b1\<rparr>) = Some (Inr f, ix\<lparr>ix_pool := b1\<rparr>)"
    using f(2) 0(1) by (subst descend.simps) (simp add: holds_page_sel leaf_ok_def)
  then show ?case using f by auto
next
  case (Suc n)
  let ?h = "ix_hdr ix" and ?d = "g p"
  let ?s = "child_slot ?h ?d key" and ?c = "rid_page (node_rids ?h ?d ! child_slot ?h ?d key)"
  obtain m where m: "get_size ?d = int m" "1 < m"
    using Suc.prems by (metis (no_types) tree_ok.simps(2) int_eq_iff of_nat_1 of_nat_less_iff zero_less_one order_less_trans order_less_imp_le)
  have d: "node_sorted ?h ?d" "\<not> is_leaf_page ?d" using Suc.prems(1) by simp_all
  have s: "?s < m" using child_slot_iff(1) [OF d m assms(2)] .
  have c: "tree_ok ?h g n ?c" "tree_pages ?h g n ?c \<subseteq> tree_pages ?h g (Suc n) p" using Suc.prems(1) s m(1) by (auto intro: nth_mem)
  obtain f b1 where f: "fetch_node p (ix\<lparr>ix_pool := b\<rparr>) = (Inr f, ix\<lparr>ix_pool := b1\<rparr>)" "holds_page b (ix_fd ix) p ?d f b1"
    using fetch_node_ok [OF Suc.prems(2), of p ix] by auto
  obtain b2 where b2: "unpin_node_page f False (ix\<lparr>ix_pool := b1\<rparr>) = ix\<lparr>ix_pool := b2\<rparr>" "bpm_inv b2" "pool.same_but {} b b2"
    using holds_page_unpin [OF f(2) refl] .
  have "readable b2 (ix_fd ix) g (tree_pages ?h g n ?c)" using readable_subset [OF readable_same [OF Suc.prems(2) b2(3,2)] c(2)] .
  from Suc.IH [OF c(1) this] obtain f' b3 where
    r: "bindR (Some (fetch_node ?c (ix\<lparr>ix_pool := b2\<rparr>))) (descend (\<lambda>h d. internal_lookup h key d)) = Some (Inr f', ix\<lparr>ix_pool := b3\<rparr>)"
      "holds_page b2 (ix_fd ix) (tree_leaf ?h g n ?c key) (g (tree_leaf ?h g n ?c key)) f' b3" by blast
  have "bindR (Some (fetch_node p (ix\<lparr>ix_pool := b\<rparr>))) (descend (\<lambda>h d. internal_lookup h key d)) = Some (Inr f', ix\<lparr>ix_pool := b3\<rparr>)"
    using f d(2) r(1) b2(1) internal_lookup_child [OF assms(1) d m assms(2)]
    by (simp only: bindR_simps) (subst descend.simps, simp add: holds_page_sel)
  then show ?case using holds_page_same [OF r(2) b2(3)] by auto
qed

section \<open>Positions\<close>

text \<open>The leaves are linked from left to right.\<close>

definition leaves_linked :: "IxFileHdr \<Rightarrow> (int \<Rightarrow> bytes) \<Rightarrow> int list \<Rightarrow> bool" where
  "leaves_linked h g ls \<longleftrightarrow> distinct ls \<and> last ls = last_leaf h \<and> hd ls = first_leaf h \<and>
     (\<forall>i. i + 1 < length ls \<longrightarrow> get_next_leaf (g (ls ! i)) = ls ! (i + 1))"

text \<open>The entries from a position on.\<close>

definition entries_from :: "IxFileHdr \<Rightarrow> (int \<Rightarrow> bytes) \<Rightarrow> int list \<Rightarrow> Iid \<Rightarrow> (bytes \<times> Rid) list" where
  "entries_from h g ls iid =
     (case dropWhile (\<lambda>p. p \<noteq> iid_page iid) ls of
        [] \<Rightarrow> []
      | p # ps \<Rightarrow> drop (nat (iid_slot iid)) (leaf_entries h (g p)) @ concat (map (\<lambda>q. leaf_entries h (g q)) ps))"

lemma entries_from_split:
  "distinct (ls @ p # rs) \<Longrightarrow>
   entries_from h g (ls @ p # rs) (Iid p i) = drop (nat i) (leaf_entries h (g p)) @ concat (map (\<lambda>q. leaf_entries h (g q)) rs)"
  by (induction ls) (auto simp: entries_from_def)

lemma linked_next:
  assumes "leaves_linked h g (ls @ p # rs)"
  shows "p = last_leaf h \<longleftrightarrow> rs = []" and "rs \<noteq> [] \<Longrightarrow> get_next_leaf (g p) = hd rs"
proof -
  show "p = last_leaf h \<longleftrightarrow> rs = []" using assms by (cases rs rule: rev_cases) (auto simp: leaves_linked_def)
  show "get_next_leaf (g p) = hd rs" if "rs \<noteq> []"
    using assms that unfolding leaves_linked_def by (auto simp: nth_append hd_conv_nth dest!: spec [of _ "length ls"])
qed

text \<open>The tree of an index in the pool.\<close>

definition index_tree :: "ix_index \<Rightarrow> (int \<Rightarrow> bytes) \<Rightarrow> nat \<Rightarrow> bool" where
  "index_tree ix g n \<longleftrightarrow>
     (let h = ix_hdr ix in hdr_ok h \<and> tree_ok h g n (root_page h) \<and> leaves_linked h g (tree_leaves h g n (root_page h)) \<and>
        readable (ix_pool ix) (ix_fd ix) g (tree_pages h g n (root_page h)))"

abbreviation index_leaves :: "ix_index \<Rightarrow> (int \<Rightarrow> bytes) \<Rightarrow> nat \<Rightarrow> int list" where
  "index_leaves ix g n \<equiv> tree_leaves (ix_hdr ix) g n (root_page (ix_hdr ix))"

abbreviation index_entries :: "ix_index \<Rightarrow> (int \<Rightarrow> bytes) \<Rightarrow> nat \<Rightarrow> (bytes \<times> Rid) list" where
  "index_entries ix g n \<equiv> tree_entries (ix_hdr ix) g n (root_page (ix_hdr ix))"

lemma find_leaf_page_ok:
  assumes "index_tree ix g n" and "key_exact (key_spec (ix_hdr ix)) key"
  obtains f b1 where "find_leaf_page key ix = Some (Inr f, ix\<lparr>ix_pool := b1\<rparr>)"
    and "holds_page (ix_pool ix) (ix_fd ix) (tree_leaf (ix_hdr ix) g n (root_page (ix_hdr ix)) key) (g (tree_leaf (ix_hdr ix) g n (root_page (ix_hdr ix)) key)) f b1"
  using descend_reaches [of ix key g n "root_page (ix_hdr ix)" "ix_pool ix"] assms
  by (auto simp: index_tree_def Let_def find_leaf_page_def find_leaf_def)

text \<open>
  C9: the search in a B+ tree finds the first entry that is not less than the key. In a tree of any height whose leaves are sorted
  and linked and whose inner keys separate the children, \<open>lower_bound\<close> ends and returns a position from which on
  the leaves hold exactly the entries of the tree that are not less than the key, in order; the page behind the last
  leaf is never read. The content of every page and all pins are as before.
\<close>

theorem lower_bound_finds_first:
  assumes "index_tree ix g n" and "key_exact (key_spec (ix_hdr ix)) key"
  shows "\<exists>iid ix'. ix_lower_bound key ix = Some (Inr iid, ix') \<and>
    entries_from (ix_hdr ix) g (index_leaves ix g n) iid = filter (\<lambda>(k, r). \<not> key_lt (ix_hdr ix) k key) (index_entries ix g n) \<and>
    ix_hdr ix' = ix_hdr ix \<and> index_tree ix' g n \<and> pool.same_but {} (ix_pool ix) (ix_pool ix')"
proof -
  let ?h = "ix_hdr ix" and ?root = "root_page (ix_hdr ix)"
  let ?q = "tree_leaf ?h g n ?root key"
  have t: "hdr_ok ?h" "tree_ok ?h g n ?root" "leaves_linked ?h g (tree_leaves ?h g n ?root)" using assms(1) by (auto simp: index_tree_def Let_def)
  obtain f b1 where f: "find_leaf_page key ix = Some (Inr f, ix\<lparr>ix_pool := b1\<rparr>)" "holds_page (ix_pool ix) (ix_fd ix) ?q (g ?q) f b1"
    using find_leaf_page_ok [OF assms] .
  obtain b2 where b2: "unpin_node_page f False (ix\<lparr>ix_pool := b1\<rparr>) = ix\<lparr>ix_pool := b2\<rparr>" "bpm_inv b2" "pool.same_but {} (ix_pool ix) b2"
    using holds_page_unpin [OF f(2) refl] .
  obtain ls rs where l: "tree_leaves ?h g n ?root = ls @ ?q # rs" "splits_at ?h g key ls rs" using descent_splits [OF t(2) assms(2)] by blast
  note behind = tree_from(1) [OF t(2) assms(2) l] and linked = t(3) [unfolded l(1)]
  have q: "leaf_ok ?h (g ?q)" "0 < get_size (g ?q)" using tree_leaves_ok [OF t(2), of ?q] l(1) by auto
  obtain idx where i: "node_lower_bound (judge_key ?h key) ?h (g ?q) = Inr idx" "idx = -1 \<longrightarrow> not_before ?h key (leaf_entries ?h (g ?q)) = []"
    "idx \<noteq> -1 \<longrightarrow> 0 \<le> idx \<and> idx < get_size (g ?q) \<and> not_before ?h key (leaf_entries ?h (g ?q)) = drop (nat idx) (leaf_entries ?h (g ?q))"
    using leaf_bound_from [OF t(1) q assms(2)] .
  let ?iid = "bound_iid idx f (ix\<lparr>ix_pool := b1\<rparr>)"
  have e: "?iid = (if idx = -1 then if ?q = last_leaf ?h then Iid ?q (get_size (g ?q)) else Iid (get_next_leaf (g ?q)) 0 else Iid ?q idx)"
    using f(2) by (simp add: bound_iid_def holds_page_sel)
  have d: "distinct (ls @ ?q # rs)" using linked by (simp add: leaves_linked_def)
  have "entries_from ?h g (ls @ ?q # rs) ?iid = not_before ?h key (tree_entries ?h g n ?root)"
  proof (cases "idx = -1")
    case False
    then show ?thesis using e i(3) behind entries_from_split [OF d] by simp
  next
    case True
    show ?thesis
    proof (cases rs)
      case Nil
      then have "?iid = Iid ?q (get_size (g ?q))" using e True linked_next(1) [OF linked] by simp
      then show ?thesis using behind i(2) True Nil entries_from_split [OF d] by (simp add: leaf_entries_def)
    next
      case (Cons r rs')
      then have "?iid = Iid r 0" using e True linked_next [OF linked] by auto
      then show ?thesis using behind i(2) True Cons entries_from_split [of "ls @ [?q]" r rs'] d by simp
    qed
  qed
  moreover have "ix_lower_bound key ix = Some (Inr ?iid, ix\<lparr>ix_pool := b2\<rparr>)"
    using f i(1) b2(1) by (simp add: ix_lower_bound_def tree_bound_def find_leaf_page_def holds_page_sel)
  moreover have "index_tree (ix\<lparr>ix_pool := b2\<rparr>) g n" using assms(1) readable_same [OF _ b2(3,2)] by (simp add: index_tree_def Let_def)
  ultimately show ?thesis using l(1) b2(3) by (intro exI [of _ ?iid] exI [of _ "ix\<lparr>ix_pool := b2\<rparr>"]) (simp add: not_before_def)
qed

section \<open>A tree of two leaves\<close>

lemma sample_pages:
  assumes "distinct (map fst ps)" and "\<forall>(n, c) \<in> set ps. page_ok n \<and> length c = PAGE_SIZE"
  obtains d where "disk_inv d" and "fd2path d = fd2path sample_disk" and "fd2pageno d = fd2pageno sample_disk" and "\<forall>(n, c) \<in> set ps. disk_page d 3 n = Some c"
proof -
  have "\<exists>d. disk_inv d \<and> fd2path d = fd2path sample_disk \<and> fd2pageno d = fd2pageno sample_disk \<and> (\<forall>(n, c) \<in> set ps. disk_page d 3 n = Some c)"
    using assms
  proof (induction ps)
    case Nil
    then show ?case using sample_disk_inv by auto
  next
    case (Cons x ps)
    obtain n c where x: "x = (n, c)" by (cases x)
    obtain d where d: "disk_inv d" "fd2path d = fd2path sample_disk" "\<forall>(n, c) \<in> set ps. disk_page d 3 n = Some c" "fd2pageno d = fd2pageno sample_disk"
      using Cons by auto
    have fd: "fd2path d 3 \<noteq> None" using d(2) by (simp add: sample_disk_eq)
    have ok: "page_ok n" "length c = PAGE_SIZE" using Cons.prems(2) x by simp_all
    obtain d' where "disk_inv d'" "fd2path d' = fd2path d" "disk_page d' 3 n = Some c" "fd2pageno d' = fd2pageno d"
      and other: "\<forall>fd' m a. page_ok m \<longrightarrow> (fd', m) \<noteq> (3, n) \<longrightarrow> disk_page d fd' m = Some a \<longrightarrow> disk_page d' fd' m = Some a"
      using write_page_ok [OF d(1) fd ok] by blast
    moreover have "disk_page d' 3 m = Some a" if "(m, a) \<in> set ps" for m a
    proof -
      have "m \<noteq> n" using Cons.prems(1) that x by force
      moreover have "page_ok m" "disk_page d 3 m = Some a" using Cons.prems(2) d(3) that by auto
      ultimately show ?thesis using other by auto
    qed
    ultimately show ?case using x d(2,4) by auto
  qed
  then show thesis using that by auto
qed

lemma sample_readable:
  assumes "finite P" and "\<forall>p \<in> P. page_ok p \<and> length (g p) = PAGE_SIZE"
  obtains b where "readable b 3 g P" and "pool_size b = 4"
proof -
  obtain xs where xs: "set xs = P" "distinct xs" using finite_distinct_list [OF assms(1)] by blast
  have f: "map fst (map (\<lambda>p. (p, g p)) xs) = xs" by (induction xs) simp_all
  let ?ps = "map (\<lambda>p. (p, g p)) xs"
  have ps: "distinct (map fst ?ps)" "\<forall>(n, c) \<in> set ?ps. page_ok n \<and> length c = PAGE_SIZE" using xs assms(2) unfolding f by auto
  obtain d where d: "disk_inv d" "fd2path d = fd2path sample_disk" "fd2pageno d = fd2pageno sample_disk" "\<forall>(n, c) \<in> set ?ps. disk_page d 3 n = Some c"
    by (rule sample_pages [OF ps])
  let ?b = "BufferPoolManager_init 4 0 d None"
  have "pin_of ?b q = 0" for q by (simp add: pin_of_def BufferPoolManager_init_def)
  moreover have "disk ?b = d" "pool_size ?b = 4" by (simp_all add: BufferPoolManager_init_def)
  moreover have "content ?b p = dpage d p" for p by (simp add: content_def BufferPoolManager_init_def)
  ultimately have "readable ?b 3 g P"
    using bpm_inv_init [OF d(1), of None] d(2,4) xs assms(2) sample_data_fd by (auto simp: readable_def valid_pid_def dpage_def data_fd_def)
  then show thesis using that [of ?b] \<open>pool_size ?b = 4\<close> by simp
qed

definition tree_hdr :: IxFileHdr where
  "tree_hdr = sample_hdr\<lparr>root_page := 1, first_leaf := 2, last_leaf := 3\<rparr>"

lemma tree_hdr_ok: "hdr_ok tree_hdr" "key_exact (key_spec tree_hdr) (int_bytes i)" "3 < max_keys tree_hdr" "key_len tree_hdr = 4"
  by (simp_all add: hdr_ok_def tree_hdr_def sample_hdr_def IX_PAGE_HDR_SIZE_def PAGE_SIZE_def key_spec_def max_keys_def key_len_def)

definition sample_leaf :: "int \<Rightarrow> int \<Rightarrow> Rid \<Rightarrow> bytes" where
  "sample_leaf next k r = insert_at tree_hdr 0 (int_bytes k) r (set_next_leaf next empty_leaf)"

definition sample_root :: bytes where
  "sample_root = insert_at tree_hdr 1 (int_bytes 7) (Rid 3 0) (insert_at tree_hdr 0 (int_bytes 0) (Rid 2 0) (memset PAGE_SIZE 0))"

lemma sample_leaf_ok:
  assumes "Rid_ok r" and "int32 next"
  shows "leaf_ok tree_hdr (sample_leaf next k r)" and "node_keys tree_hdr (sample_leaf next k r) = [int_bytes k]"
    and "node_rids tree_hdr (sample_leaf next k r) = [r]" and "get_next_leaf (sample_leaf next k r) = next"
proof -
  let ?d = "set_next_leaf next empty_leaf"
  have l: "length empty_leaf = PAGE_SIZE" using empty_leaf_ok(1) by (simp add: leaf_ok_def node_ok_def)
  have d: "get_size ?d = int 0" "get_next_leaf ?d = next" "length ?d = PAGE_SIZE"
    using l assms(2) empty_leaf_ok(2) by (simp_all add: get_size_def get_next_leaf_def set_next_leaf_def PAGE_SIZE_def load_store_int load_store_int_other)
  have lf: "is_leaf_page ?d"
    using l empty_leaf_ok(1) by (simp add: is_leaf_page_def leaf_ok_def set_next_leaf_def store_int_def nth_memcpy PAGE_SIZE_def)
  have ok: "node_ok tree_hdr ?d" using d by (simp add: node_ok_def tree_hdr_def sample_hdr_def)
  have len: "length (int_bytes k) = key_len tree_hdr" by (simp add: tree_hdr_ok)
  have z: "node_keys tree_hdr ?d = []" "node_rids tree_hdr ?d = []" using d(1) by (simp_all add: node_keys_def node_rids_def)
  note ins = insert_at_pairs [OF tree_hdr_ok(1) ok d(1) _ _ len assms(1), of 0, simplified, folded sample_leaf_def]
  show k: "node_keys tree_hdr (sample_leaf next k r) = [int_bytes k]" "node_rids tree_hdr (sample_leaf next k r) = [r]"
    using ins tree_hdr_ok(3) z by simp_all
  show "get_next_leaf (sample_leaf next k r) = next" using ins(2) tree_hdr_ok(3) d(2) by (simp add: same_links_def)
  show "leaf_ok tree_hdr (sample_leaf next k r)" using ins(1,2) tree_hdr_ok(2,3) lf k by (intro leaf_okI [of _ _ ?d]) simp_all
qed

lemma sample_root_ok:
  "node_ok tree_hdr sample_root" "\<not> is_leaf_page sample_root" "get_size sample_root = 2" "node_rids tree_hdr sample_root = [Rid 2 0, Rid 3 0]"
  "node_keys tree_hdr sample_root = [int_bytes 0, int_bytes 7]" "node_sorted tree_hdr sample_root"
proof -
  let ?d = "memset PAGE_SIZE 0" and ?d1 = "insert_at tree_hdr 0 (int_bytes 0) (Rid 2 0) (memset PAGE_SIZE 0)"
  have len: "length (int_bytes k) = key_len tree_hdr" for k by (simp add: tree_hdr_ok)
  have r: "Rid_ok (Rid 2 0)" "Rid_ok (Rid 3 0)" by (simp_all add: Rid_ok_def int32_def)
  have d: "get_size ?d = int 0" by (simp add: get_size_def load_int_def slice_def memset_def PAGE_SIZE_def bytes_int_def le_nat_zeros)
  have ok: "node_ok tree_hdr ?d" using d by (simp add: node_ok_def tree_hdr_def sample_hdr_def)
  have nl: "\<not> is_leaf_page ?d" by (simp add: is_leaf_page_def memset_def PAGE_SIZE_def)
  have z: "node_keys tree_hdr ?d = []" "node_rids tree_hdr ?d = []" using d by (simp_all add: node_keys_def node_rids_def)
  note i1 = insert_at_pairs [OF tree_hdr_ok(1) ok d _ _ len r(1), of 0 0, simplified]
  have k1: "node_keys tree_hdr ?d1 = [int_bytes 0]" "node_rids tree_hdr ?d1 = [Rid 2 0]" "node_ok tree_hdr ?d1" "same_links ?d ?d1"
    using i1 tree_hdr_ok(3) z by simp_all
  have n1: "get_size ?d1 = int 1" using arg_cong [OF k1(1), of length] k1(3) by (simp add: node_ok_def)
  note i2 = insert_at_pairs [OF tree_hdr_ok(1) k1(3) n1 _ _ len r(2), of 1 7, folded sample_root_def, simplified]
  show ok2: "node_ok tree_hdr sample_root" "node_rids tree_hdr sample_root = [Rid 2 0, Rid 3 0]" "node_keys tree_hdr sample_root = [int_bytes 0, int_bytes 7]"
    using i2 tree_hdr_ok(3) k1 by (simp_all add: sample_root_def)
  show nl2: "\<not> is_leaf_page sample_root" using i2(2) tree_hdr_ok(3) k1(4) nl by (simp add: same_links_def sample_root_def)
  show "get_size sample_root = 2" using arg_cong [OF ok2(3), of length] ok2(1) by (simp add: node_ok_def)
  show "node_sorted tree_hdr sample_root" using ok2(3) nl2 tree_hdr_ok(2) by (simp add: node_sorted_def first_slot_def)
qed

definition sample_tree :: "int \<Rightarrow> bytes" where
  "sample_tree = (\<lambda>p. if p = 1 then sample_root else if p = 2 then sample_leaf 3 5 (Rid 1 0) else sample_leaf 2 7 (Rid 1 1))"

lemma sample_index:
  obtains ix where "index_tree ix sample_tree 1" and "ix_hdr ix = tree_hdr" and "ix_fd ix = 3"
    and "index_leaves ix sample_tree 1 = [2, 3]" and "index_entries ix sample_tree 1 = [(int_bytes 5, Rid 1 0), (int_bytes 7, Rid 1 1)]"
    and "pool_size (ix_pool ix) = 4"
proof -
  let ?g = sample_tree
  have g: "?g 1 = sample_root" "?g 2 = sample_leaf 3 5 (Rid 1 0)" "?g 3 = sample_leaf 2 7 (Rid 1 1)" by (simp_all add: sample_tree_def)
  have r: "Rid_ok (Rid 1 0)" "Rid_ok (Rid 1 1)" "int32 2" "int32 3" by (simp_all add: Rid_ok_def int32_def)
  note leaf2 = sample_leaf_ok [OF r(1,4), of 5, folded g] and leaf3 = sample_leaf_ok [OF r(2,3), of 7, folded g] and root = sample_root_ok [folded g]
  have root_page: "root_page tree_hdr = 1" "first_leaf tree_hdr = 2" "last_leaf tree_hdr = 3" by (simp_all add: tree_hdr_def)
  have sz: "0 < get_size (?g 2)" "0 < get_size (?g 3)" using arg_cong [OF leaf2(2), of length] arg_cong [OF leaf3(2), of length] by simp_all
  have leaves: "tree_leaves tree_hdr ?g 1 1 = [2, 3]" by (simp add: root(4))
  have entries: "leaf_entries tree_hdr (?g 2) = [(int_bytes 5, Rid 1 0)]" "leaf_entries tree_hdr (?g 3) = [(int_bytes 7, Rid 1 1)]"
    by (simp_all add: leaf_entries_def leaf2 leaf3)
  have less: "key_lt tree_hdr (int_bytes 5) (int_bytes 7)" "\<not> key_lt tree_hdr (int_bytes 7) (int_bytes 7)" by code_simp+
  have "child_between tree_hdr (?g 1) 0 {int_bytes 5}" "child_between tree_hdr (?g 1) 1 {int_bytes 7}"
    using less by (simp_all add: child_between_def root(3,5))
  then have t: "tree_ok tree_hdr ?g 1 1"
    using root leaf2(1) leaf3(1) sz by (auto simp: tree_entries_def entries less_Suc_eq numeral_2_eq_2 nth_Cons')
  have linked: "leaves_linked tree_hdr ?g [2, 3]" using leaf2(4) by (simp add: leaves_linked_def root_page)
  have pages: "tree_pages tree_hdr ?g 1 1 = {1, 2, 3}" by (auto simp: root(4))
  have "\<forall>p \<in> {1, 2, 3}. page_ok p \<and> length (?g p) = PAGE_SIZE"
    using leaf2(1) leaf3(1) root(1) by (simp add: leaf_ok_def node_ok_def page_ok_def)
  then obtain b where b: "readable b 3 ?g {1, 2, 3}" "pool_size b = 4" using sample_readable [of "{1, 2, 3}" ?g] by auto
  let ?ix = "\<lparr>ix_fd = 3, ix_hdr = tree_hdr, ix_pool = b\<rparr>"
  have "index_tree ?ix ?g 1" unfolding index_tree_def Let_def using tree_hdr_ok(1) t linked b(1) leaves pages root_page by simp
  then show thesis using b(2) leaves root_page by (intro that [of ?ix]) (simp_all add: tree_entries_def entries)
qed

theorem lower_bound_finds_first_witness:
  "\<exists>ix iid ix'. index_tree ix sample_tree 1 \<and> ix_lower_bound (int_bytes 6) ix = Some (Inr iid, ix') \<and>
     entries_from tree_hdr sample_tree [2, 3] iid = [(int_bytes 7, Rid 1 1)]"
proof -
  obtain ix where ix: "index_tree ix sample_tree 1" "ix_hdr ix = tree_hdr" "index_leaves ix sample_tree 1 = [2, 3]"
    "index_entries ix sample_tree 1 = [(int_bytes 5, Rid 1 0), (int_bytes 7, Rid 1 1)]" using sample_index by metis
  have less: "key_lt tree_hdr (int_bytes 5) (int_bytes 6)" "\<not> key_lt tree_hdr (int_bytes 7) (int_bytes 6)" by code_simp+
  have k: "key_exact (key_spec (ix_hdr ix)) (int_bytes 6)" using ix(2) tree_hdr_ok(2) by simp
  from lower_bound_finds_first [OF ix(1) k, unfolded ix(3,4), unfolded ix(2)] less obtain iid ix' where
    "ix_lower_bound (int_bytes 6) ix = Some (Inr iid, ix')" "entries_from tree_hdr sample_tree [2, 3] iid = [(int_bytes 7, Rid 1 1)]" by auto
  then show ?thesis using ix(1) by blast
qed

end
