(* ===== verification/IxCursor.thy ===== *)
theory IxCursor
  imports IxLookup
begin

text \<open>
  Scans of the leaves with \<open>IxScan\<close>, and an index that is opened again.
\<close>

section \<open>One step of a scan\<close>

definition position_in :: "(int \<Rightarrow> bytes) \<Rightarrow> int list \<Rightarrow> Iid \<Rightarrow> bool" where
  "position_in g ls iid \<longleftrightarrow> iid_page iid \<in> set ls \<and> 0 \<le> iid_slot iid \<and> iid_slot iid < get_size (g (iid_page iid))"

lemma unpin_keeps_data: "pg_data (pages (snd (unpin_page p is_dirty b)) ! f) = pg_data (pages b ! f)"
proof -
  have "pg_data (pages (upd_page i u b) ! f) = pg_data (pages b ! f)" if "\<And>x. pg_data (u x) = pg_data x" for i u b
    using that by (cases "i < length (pages b)") (auto simp: upd_page_def nth_list_update list_update_beyond)
  then show ?thesis by (auto simp: unpin_page_def Let_def split: option.split)
qed

lemma drop_entry:
  assumes "i < nat (get_size d)"
  shows "drop i (leaf_entries h d) = (get_key h (int i) d, get_rid h (int i) d) # drop (Suc i) (leaf_entries h d)"
proof -
  have "i < length (leaf_entries h d)" using assms by (simp add: leaf_entries_def)
  moreover have "leaf_entries h d ! i = (get_key h (int i) d, get_rid h (int i) d)"
    using assms by (simp add: leaf_entries_def node_keys_nth node_rids_nth)
  ultimately show ?thesis by (metis Cons_nth_drop_Suc)
qed

text \<open>\<open>fetch_page\<close> twice: the pages keep their content and the page gains two pins.\<close>

lemma fetch_twice:
  assumes "readable b fd g P" and "p \<in> P"
  obtains f b1 b2 where "fetch_page (PageId fd p) b = (Inr (Some f), b1)" and "fetch_page (PageId fd p) b1 = (Inr (Some f), b2)"
    and "pg_data (pages b2 ! f) = g p" and "bpm_inv b2" and "pin_of b2 = (pin_of b)(PageId fd p := pin_of b (PageId fd p) + 2)"
    and "\<And>q. q \<in> P \<Longrightarrow> content b2 (PageId fd q) = Some (g q)"
proof -
  let ?p = "PageId fd p"
  have b: "bpm_inv b" "valid_pid (disk b) ?p" "content b ?p = Some (g p)" "card {q. 0 < pin_of b q} < pool_size b"
    using assms by (auto simp: readable_def)
  obtain f b1 where f: "fetch_page ?p b = (Inr (Some f), b1)" "bpm_inv b1" "map_of (page_table b1) ?p = Some f" "pg_data (pages b1 ! f) = g p"
    "content b1 ?p = Some (g p)" "pin_of b1 ?p = pin_of b ?p + 1" "pool_frame {?p} b b1" using pool.fetch_law [OF b] by blast
  let ?b2 = "pin_frame f b1"
  have "fetched ?p (g p) f b1 ?b2" "fetch_page ?p b1 = (Inr (Some f), ?b2)" using fetch_resident [OF f(2,3)] f(4) by simp_all
  then have f2: "fetch_page ?p b1 = (Inr (Some f), ?b2)" "bpm_inv ?b2" "map_of (page_table ?b2) ?p = Some f" "pg_data (pages ?b2 ! f) = g p"
    "pin_of ?b2 ?p = pin_of b1 ?p + 1" "pool_frame {?p} b1 ?b2" by (simp_all add: fetched_def)
  have pins: "pin_of ?b2 q = ((pin_of b)(?p := pin_of b ?p + 2)) q" for q
    using f(6,7) f2(5,6) by (cases "q = ?p") (auto simp: pool_frame_def)
  have "content ?b2 (PageId fd q) = Some (g q)" if "q \<in> P" for q
  proof (cases "q = p")
    case True
    then show ?thesis using f2(3,4) by (simp add: content_def)
  next
    case False
    then have "page_ok q" "content b (PageId fd q) = Some (g q)" using assms(1) that by (auto simp: readable_def valid_pid_def)
    then show ?thesis using f(7) f2(6) False by (auto simp: pool_frame_def)
  qed
  with f(1) f2 pins show thesis by (intro that [of f b1 ?b2]) auto
qed

text \<open>
  C17: a scan of the index delivers the entries of the tree one after the other. At a position in the leaves that is
  not the end of the scan, \<open>rid\<close> returns the record id of the first remaining entry and leaves the pool as it was; \<open>next\<close>
  moves to the position whose remaining entries are the others, and crosses to the next leaf behind the last entry of one. But
  every \<open>next\<close> leaves two more pins on the page it looked at.
\<close>

theorem index_scan_step:
  assumes "index_tree ix g n" and "position_in g (index_leaves ix g n) (scan_iid s)" and "\<not> ixscan_is_end s"
  shows "\<exists>k r es ix' s' ix''. entries_from (ix_hdr ix) g (index_leaves ix g n) (scan_iid s) = (k, r) # es \<and>
    ixscan_rid s ix = (Inr r, ix') \<and> pool.same_but {} (ix_pool ix) (ix_pool ix') \<and>
    ixscan_next s ix = (Inr s', ix'') \<and> entries_from (ix_hdr ix) g (index_leaves ix g n) (scan_iid s') = es \<and> scan_end s' = scan_end s \<and>
    pin_of (ix_pool ix'') = (pin_of (ix_pool ix))(PageId (ix_fd ix) (iid_page (scan_iid s)) := pin_of (ix_pool ix) (PageId (ix_fd ix) (iid_page (scan_iid s))) + 2) \<and>
    (\<forall>q \<in> set (index_leaves ix g n). content (ix_pool ix'') (PageId (ix_fd ix) q) = Some (g q))"
proof -
  let ?h = "ix_hdr ix" and ?L = "index_leaves ix g n"
  obtain p i where iid: "scan_iid s = Iid p (int i)" "p \<in> set ?L" "i < nat (get_size (g p))"
    using assms(2) by (cases "scan_iid s") (auto simp: position_in_def elim!: nonneg_int_cases)
  obtain ls rs where L: "?L = ls @ p # rs" using split_list [OF iid(2)] by blast
  have t: "tree_ok ?h g n (root_page ?h)" "leaves_linked ?h g ?L" and r: "readable (ix_pool ix) (ix_fd ix) g (tree_pages ?h g n (root_page ?h))"
    using assms(1) by (simp_all add: index_tree_def Let_def)
  have d: "distinct (ls @ p # rs)" using t(2) L by (simp add: leaves_linked_def)
  have pp: "p \<in> tree_pages ?h g n (root_page ?h)" using tree_leaves_pages iid(2) by blast
  have lf: "is_leaf_page (g p)" using tree_leaves_ok [OF t(1) iid(2)] by (simp add: leaf_ok_def)
  let ?rest = "concat (map (\<lambda>q. leaf_entries ?h (g q)) rs)" and ?k = "get_key ?h (int i) (g p)" and ?r = "get_rid ?h (int i) (g p)"
  let ?es = "drop (Suc i) (leaf_entries ?h (g p)) @ ?rest"
  note at = entries_from_split [OF d, of ?h g]
  have e: "entries_from ?h g ?L (scan_iid s) = (?k, ?r) # ?es" using at [of "int i"] iid(1) drop_entry [OF iid(3), of ?h] by (simp add: L)
  obtain f b1 where f: "fetch_node p (ix\<lparr>ix_pool := ix_pool ix\<rparr>) = (Inr f, ix\<lparr>ix_pool := b1\<rparr>)" "holds_page (ix_pool ix) (ix_fd ix) p (g p) f b1"
    using fetch_node_ok [OF r pp refl] .
  from f(2) obtain b2 where b2: "unpin_page (PageId (ix_fd ix) p) False b1 = (True, b2)" "pool.same_but {} (ix_pool ix) b2" by (auto simp: holds_page_def)
  have data: "pg_data (pages b2 ! f) = g p" using f(2) unpin_keeps_data [of "PageId (ix_fd ix) p" False b1 f] b2(1) by (simp add: holds_page_def)
  have rid: "ixscan_rid s ix = (Inr ?r, ix\<lparr>ix_pool := b2\<rparr>)"
    using f b2(1) iid(1,3) data holds_page_sel(1) [OF f(2), of ix]
    by (simp add: ixscan_rid_def ix_get_rid_def unpin_ix_def node_id_def holds_page_def) (simp add: node_bytes_def)
  obtain f' c1 c2 where c: "fetch_page (PageId (ix_fd ix) p) (ix_pool ix) = (Inr (Some f'), c1)" "fetch_page (PageId (ix_fd ix) p) c1 = (Inr (Some f'), c2)"
    "pg_data (pages c2 ! f') = g p" "pin_of c2 = (pin_of (ix_pool ix))(PageId (ix_fd ix) p := pin_of (ix_pool ix) (PageId (ix_fd ix) p) + 2)"
    "\<And>q. q \<in> tree_pages ?h g n (root_page ?h) \<Longrightarrow> content c2 (PageId (ix_fd ix) q) = Some (g q)" using fetch_twice [OF r pp] by metis
  let ?s' = "s\<lparr>scan_iid := if p \<noteq> last_leaf ?h \<and> int i + 1 = get_size (g p) then Iid (get_next_leaf (g p)) 0 else Iid p (int i + 1)\<rparr>"
  have nx: "ixscan_next s ix = (Inr ?s', ix\<lparr>ix_pool := c2\<rparr>)"
    using assms(3) c(1-3) iid(1,3) lf by (auto simp: ixscan_next_def fetch_node_def lift_ix_def node_bytes_def Let_def)
  have "entries_from ?h g ?L (scan_iid ?s') = ?es"
  proof (cases "p \<noteq> last_leaf ?h \<and> int i + 1 = get_size (g p)")
    case True
    then have rs: "rs \<noteq> []" "get_next_leaf (g p) = hd rs" using linked_next [OF t(2) [unfolded L]] by auto
    then obtain q qs where q: "rs = q # qs" by (cases rs) auto
    have "drop (Suc i) (leaf_entries ?h (g p)) = []" using True by (auto simp: leaf_entries_def)
    then show ?thesis using True rs(2) q entries_from_split [of "ls @ [p]" q qs ?h g 0] d L by simp
  next
    case False
    then show ?thesis using at [of "int i + 1"] L by (auto simp: nat_add_distrib)
  qed
  then show ?thesis using e rid b2(2) nx c(4,5) iid(1) tree_leaves_pages [of ?h g n "root_page ?h"] by auto
qed

theorem index_scan_step_witness:
  "\<exists>ix s' ix''. index_tree ix sample_tree 1 \<and> ixscan_next \<lparr>scan_iid = Iid 2 0, scan_end = Iid 3 1\<rparr> ix = (Inr s', ix'') \<and>
     entries_from tree_hdr sample_tree [2, 3] (scan_iid s') = [(int_bytes 7, Rid 1 1)] \<and> 2 \<le> pin_of (ix_pool ix'') (PageId 3 2)"
proof -
  obtain ix where ix: "index_tree ix sample_tree 1" "ix_hdr ix = tree_hdr" "ix_fd ix = 3" "index_leaves ix sample_tree 1 = [2, 3]"
    "index_entries ix sample_tree 1 = [(int_bytes 5, Rid 1 0), (int_bytes 7, Rid 1 1)]" using sample_index by metis
  let ?s = "\<lparr>scan_iid = Iid 2 0, scan_end = Iid 3 1\<rparr>"
  have t: "tree_ok tree_hdr sample_tree 1 (root_page tree_hdr)" and b: "bpm_inv (ix_pool ix)"
    using ix(1,2) by (simp_all add: index_tree_def Let_def readable_def)
  have "0 < get_size (sample_tree 2)" using tree_leaves_ok [OF t, of 2] ix(4) [unfolded ix(2)] by (metis list.set_intros(1))
  then have pos: "position_in sample_tree [2, 3] (scan_iid ?s)" by (simp add: position_in_def)
  have "\<not> ixscan_is_end ?s" by (simp add: ixscan_is_end_def)
  then obtain k r es ix' s' ix'' where step: "entries_from tree_hdr sample_tree [2, 3] (Iid 2 0) = (k, r) # es"
    "ixscan_next ?s ix = (Inr s', ix'')" "entries_from tree_hdr sample_tree [2, 3] (scan_iid s') = es"
    "pin_of (ix_pool ix'') = (pin_of (ix_pool ix))(PageId 3 2 := pin_of (ix_pool ix) (PageId 3 2) + 2)"
    using index_scan_step [OF ix(1), of ?s, unfolded ix(4), OF pos, unfolded ix(2,3)] by auto
  have "entries_from tree_hdr sample_tree [2, 3] (Iid 2 0) = index_entries ix sample_tree 1"
    using entries_from_split [of "[]" 2 "[3]" tree_hdr sample_tree 0] ix(4) [unfolded ix(2)]
    unfolding tree_entries_def ix(2) by simp
  then have "es = [(int_bytes 7, Rid 1 1)]" using step(1) ix(5) by simp
  moreover have "2 \<le> pin_of (ix_pool ix'') (PageId 3 2)" using step(4) pin_of_nonneg [OF b, of "PageId 3 2"] by simp
  ultimately show ?thesis using ix(1) step(2,3) by blast
qed

section \<open>An index that is opened again\<close>

lemma read_page_prefix:
  assumes d: "disk_inv d" and b: "disk_page d fd n = Some b" and n: "page_ok n" and k: "k \<le> PAGE_SIZE"
  obtains d' where "read_page fd n k d = (Inr (take k b), d')" and "disk_inv d'" and "fd2path d' = fd2path d" and "fd2pageno d' = fd2pageno d"
    and "disk_page d' = disk_page d"
proof -
  obtain p c where p: "fd2path d fd = Some p" and c: "px_files (os d) p = Some c"
    and l: "nat n * PAGE_SIZE + PAGE_SIZE \<le> length c" and b': "b = slice (nat n * PAGE_SIZE) PAGE_SIZE c"
    using b by (auto simp: disk_page_def split: option.splits if_splits)
  obtain pos where pos: "px_fds (os d) fd = Some (p, pos)" using d p by (auto elim: disk_inv_openD)
  have t: "slice (nat n * PAGE_SIZE) k c = take k b" using k by (simp add: b' slice_def min_def)
  have "read_page fd n k d = (Inr (take k b), d\<lparr>os := (os d)\<lparr>px_fds := (px_fds (os d))(fd \<mapsto> (p, nat n * PAGE_SIZE + k))\<rparr>\<rparr>)"
    using pos c p l k by (simp add: read_page_def page_offset_ok [OF n] px_lseek_set_def px_read_def t [symmetric] del: of_nat_mult)
  from that [OF this] show thesis using disk_inv_moved_fd [OF d p] by (simp add: disk_page_moved_fd)
qed

text \<open>
  An index that is opened after a restart overwrites its own nodes. The constructor of the handle reads the header back
  but lets the page numbers start one after the count of the file descriptor, which is 0 in a new process, and not at
  \<open>num_pages\<close> as its comment says: whatever pages the tree of the file has, the first node that is created gets
  page 1, filled with zeros.
\<close>

theorem reopened_index_reuses_pages:
  assumes "disk_inv d" and "data_fd d fd" and "0 \<le> fd" and "fd < MAX_FD" and "get_fd2pageno fd d = 0" and "0 < n"
    and "disk_page d fd 0 = Some page" and "IxFileHdr_deserialize page (IxFileHdr_init junk) = Inr h"
  shows "\<exists>ix b f ix'. IxIndexHandle_init junk fd (BufferPoolManager_init n z d None) = (Inr ix, b) \<and> ix_hdr ix = h \<and>
     create_node ix = (Inr f, ix') \<and> node_page_no f ix' = 1 \<and> node_bytes f ix' = memset PAGE_SIZE 0"
proof -
  let ?b = "BufferPoolManager_init n z d None"
  have z: "page_ok 0" "(8 :: nat) \<le> PAGE_SIZE" by (simp_all add: page_ok_def PAGE_SIZE_def)
  obtain d1 where r1: "read_page fd 0 8 d = (Inr (take 8 page), d1)" "disk_inv d1" "fd2path d1 = fd2path d" "fd2pageno d1 = fd2pageno d" "disk_page d1 = disk_page d"
    using read_page_prefix [OF assms(1,7) z] .
  have p1: "disk_page d1 fd 0 = Some page" using r1(5) assms(7) by simp
  obtain d2 where r2: "read_page fd 0 PAGE_SIZE d1 = (Inr page, d2)" "disk_inv d2" "fd2path d2 = fd2path d1" "fd2pageno d2 = fd2pageno d1"
    using read_page_ok [OF r1(2) p1 z(1)] by blast
  let ?d = "d2\<lparr>fd2pageno := (fd2pageno d2)(fd := 1)\<rparr>"
  let ?c = "BufferPoolManager_init n z ?d None"
  have same: "?b\<lparr>disk := x\<rparr> = BufferPoolManager_init n z x None" for x by (simp add: BufferPoolManager_init_def)
  have dk: "disk ?c = ?d" "disk ?b = d" "page_table ?c = []" by (simp_all add: BufferPoolManager_init_def)
  have no: "fd2pageno d2 fd = 0" using assms(5) r1(4) r2(4) by (simp add: get_fd2pageno_def)
  have init: "IxIndexHandle_init junk fd ?b = (Inr \<lparr>ix_fd = fd, ix_hdr = h, ix_pool = ?c\<rparr>, ?c)"
    using r1(1) r2(1) assms(8) no by (simp add: IxIndexHandle_init_def dk(2) IX_FILE_HDR_PAGE_def same Let_def set_fd2pageno_def get_fd2pageno_def)
  have inv: "bpm_inv ?c" using bpm_inv_init [of ?d None] r2(2) by simp
  have v: "valid_pid (disk ?c) (PageId fd 1)" using assms(2) r1(3) r2(3) by (simp add: dk valid_pid_def page_ok_def data_fd_def)
  have "card (pinned_pages ?c) < pool_size ?c" using assms(6) by (simp add: pinned_pages_def pin_of_def dk(3)) (simp add: BufferPoolManager_init_def)
  then have room: "\<not> all_pinned ?c" using pinned_pages_all [OF inv] by simp
  have m: "1 = fd2pageno (disk ?c) fd" "map_of (page_table ?c) (PageId fd 1) = None" by (simp_all add: dk)
  from inv assms(3,4) m(1) v m(2) obtain f b' where nw: "new_page fd ?c = (Inr (Some (PageId fd 1, f)), b')" "fetched (PageId fd 1) (memset PAGE_SIZE 0) f ?c b'"
    using room by (cases rule: new_page_ok) auto
  then have "bpm_inv b'" "map_of (page_table b') (PageId fd 1) = Some f" "pg_data (pages b' ! f) = memset PAGE_SIZE 0" by (simp_all add: fetched_def)
  moreover from this have "pg_id (pages b' ! f) = PageId fd 1" by (intro resident_facts)
  ultimately show ?thesis using init nw(1)
    by (simp add: create_node_def add_num_pages_def lift_ix_def node_page_no_def node_id_def node_bytes_def)
qed

theorem reopened_index_reuses_pages_witness:
  "\<exists>d page h. disk_page d 3 0 = Some page \<and> ix_num_pages h = 9 \<and> root_page h = 1 \<and>
     (\<exists>ix b f ix'. IxIndexHandle_init sample_hdr 3 (BufferPoolManager_init 4 0 d None) = (Inr ix, b) \<and> ix_hdr ix = h \<and>
        create_node ix = (Inr f, ix') \<and> node_page_no f ix' = root_page h)"
proof -
  let ?h = "sample_hdr\<lparr>ix_num_pages := 9, root_page := 1\<rparr>"
  obtain bs where bs: "length bs = 48" "IxFileHdr_deserialize (bs @ memset 4048 0) (IxFileHdr_init sample_hdr) = Inr (update_tot_len ?h)"
    using hdr_roundtrip [of ?h "memset 48 0" "memset 4048 0" sample_hdr]
    by (auto simp: hdr_complete_def update_tot_len_def sample_hdr_def int32_def)
  let ?page = "bs @ memset 4048 0"
  have ps: "distinct (map fst [(0 :: int, ?page)])" "\<forall>(n, c) \<in> set [(0 :: int, ?page)]. page_ok n \<and> length c = PAGE_SIZE"
    using bs(1) by (simp_all add: page_ok_def PAGE_SIZE_def memset_def)
  obtain d where d: "disk_inv d" "fd2path d = fd2path sample_disk" "fd2pageno d = fd2pageno sample_disk" and "\<forall>(n, c) \<in> set [(0 :: int, ?page)]. disk_page d 3 n = Some c"
    by (rule sample_pages [OF ps])
  then have page: "disk_page d 3 0 = Some ?page" by simp
  have fd: "data_fd d 3" "(3 :: int) < MAX_FD" using d(2) sample_data_fd by (simp_all add: data_fd_def MAX_FD_def)
  have no: "get_fd2pageno 3 d = 0" using d(3) by (simp add: get_fd2pageno_def sample_disk_eq)
  from reopened_index_reuses_pages [OF d(1) fd(1) _ fd(2) no _ page bs(2), of 4 0]
  show ?thesis using page by (intro exI [of _ d] exI [of _ ?page] exI [of _ "update_tot_len ?h"]) (simp add: update_tot_len_def, blast)
qed

end
