(* ===== verification/Dml.thy ===== *)
theory Dml
  imports SeqScan IxTree Transactions
begin

text \<open>
  The executors that change tables: \<^verbatim>\<open>execution/executor_insert.h\<close>, \<^verbatim>\<open>executor_delete.h\<close>, \<^verbatim>\<open>executor_update.h\<close>. They run in the
  context of a transaction, whose write set they extend, change the table file and its indexes, and write the log. The
  state is the database of \<open>Tables\<close> with its open indexes and the transaction of the context. The pool, and so the
  tables, the indexes and the log manager, are shared; the log manager is that of the pool, as the server sets it up.

  What the lock manager answers to a call, and what it does to the transaction, is the argument \<open>lk\<close>. Memory that is read before
  it is written is the argument \<open>mem\<close>.
\<close>

section \<open>The database of a transaction\<close>

record ix_open =
  io_fd :: int
  io_hdr :: IxFileHdr
  index_aborted :: bool

record database =
  d_sm :: sm_manager
  d_ihs :: "string \<Rightarrow> ix_open option"
  d_txn :: Transaction

datatype lock_call =
    Lock_exclusive_on_table int
  | Lock_IX_on_table int
  | Lock_shared_on_record Rid int
  | Lock_exclusive_on_record_gap Rid int bytes IndexMeta
  | Unlock LockDataId
  | Calculate_gaps_on_table LockDataId

type_synonym lock_answers = "lock_call \<Rightarrow> Transaction \<Rightarrow> (unit, Transaction) res"

definition call_lock :: "lock_answers \<Rightarrow> lock_call \<Rightarrow> database \<Rightarrow> (unit, database) res" where
  "call_lock lk c w = (case lk c (d_txn w) of (r, t) \<Rightarrow> (r, w\<lparr>d_txn := t\<rparr>))"

definition lift_sm :: "('a, sm_manager) res \<Rightarrow> database \<Rightarrow> ('a, database) res" where
  "lift_sm r w = (case r of (x, sm) \<Rightarrow> (x, w\<lparr>d_sm := sm\<rparr>))"

definition upd_txn :: "(Transaction \<Rightarrow> Transaction) \<Rightarrow> database \<Rightarrow> database" where
  "upd_txn f w = w\<lparr>d_txn := f (d_txn w)\<rparr>"

text \<open>\<open>fhs_.at(name)\<close> and a member of the handle.\<close>

definition on_tab :: "string \<Rightarrow> (rm_file \<Rightarrow> ('a, rm_file) res) \<Rightarrow> database \<Rightarrow> ('a, database) res" where
  "on_tab t f w = lift_sm (on_table t f (d_sm w)) w"

definition tab_fd :: "string \<Rightarrow> database \<Rightarrow> rmdb_error + int" where
  "tab_fd t w = (case sm_fhs (d_sm w) t of None \<Rightarrow> Inl OutOfRange | Some fh \<Rightarrow> Inr (fst fh))"

text \<open>\<open>ihs_.at(name)\<close> and a member of the handle, which may run forever.\<close>

definition on_index :: "string \<Rightarrow> (ix_index \<Rightarrow> ('a, ix_index) run) \<Rightarrow> database \<Rightarrow> ('a, database) run" where
  "on_index n f w =
     (case d_ihs w n of
        None \<Rightarrow> Some (Inl OutOfRange, w)
      | Some io \<Rightarrow>
          map_option (\<lambda>(r, ix). (r, w\<lparr>d_ihs := (d_ihs w)(n \<mapsto> io\<lparr>io_hdr := ix_hdr ix\<rparr>), d_sm := (d_sm w)\<lparr>sm_pool := ix_pool ix\<rparr>\<rparr>))
            (f \<lparr>ix_fd = io_fd io, ix_hdr = io_hdr io, ix_pool = sm_pool (d_sm w)\<rparr>))"

section \<open>The log of a transaction\<close>

definition on_log :: "(log_manager \<times> disk_manager \<Rightarrow> ('a, log_manager \<times> disk_manager) res) \<Rightarrow> bpm \<Rightarrow> ('a, bpm) res" where
  "on_log f b =
     (case log_mgr b of
        None \<Rightarrow> (Inl NullDereference, b)
      | Some lm \<Rightarrow> (case f (lm, disk b) of (r, (lm, d)) \<Rightarrow> (r, b\<lparr>log_mgr := Some lm, disk := d\<rparr>)))"

definition on_pool :: "(bpm \<Rightarrow> ('a, bpm) res) \<Rightarrow> database \<Rightarrow> ('a, database) res" where
  "on_pool f w = (case f (sm_pool (d_sm w)) of (r, b) \<Rightarrow> (r, w\<lparr>d_sm := (d_sm w)\<lparr>sm_pool := b\<rparr>\<rparr>))"

definition log_lsn :: "database \<Rightarrow> int option" where
  "log_lsn w = map_option get_lsn (log_mgr (sm_pool (d_sm w)))"

text \<open>
  The last lines of the three executors: \<open>mk\<close> makes the record from the transaction id, its previous lsn and the file header; the
  previous lsn of the transaction is set to the lsn this record will get.
\<close>

definition log_change :: "string \<Rightarrow> (int \<Rightarrow> int \<Rightarrow> int \<Rightarrow> int \<Rightarrow> log_record) \<Rightarrow> database \<Rightarrow> (unit, database) res" where
  "log_change t mk w =
     (case (log_lsn w, sm_fhs (d_sm w) t) of
        (Some l, Some fh) \<Rightarrow>
          let txn = d_txn w; w = upd_txn (\<lambda>t. t\<lparr>Transaction.prev_lsn := l\<rparr>) w;
              first_page = first_free_page_no (snd fh); np = num_pages (snd fh)
          in bindE (on_pool (on_log (add_log_to_buffer (mk (t_id txn) (Transaction.prev_lsn txn) first_page np))) w) (\<lambda>_ w. (Inr (), w))
      | _ \<Rightarrow> (Inl NullDereference, w))"

section \<open>Index keys\<close>

fun copy_key :: "TabMeta \<Rightarrow> ColMeta list \<Rightarrow> bytes \<Rightarrow> bytes \<Rightarrow> rmdb_error + bytes" where
  "copy_key tab [] rec key = Inr key"
| "copy_key tab (c # cs) rec key =
     (case get_col tab (cm_name c) of
        Inl e \<Rightarrow> Inl e
      | Inr col \<Rightarrow> copy_key tab cs rec (memcpy key (nat (cm_offset c)) (slice (nat (cm_offset col)) (nat (cm_len c)) rec)))"

definition index_key :: "bytes \<Rightarrow> TabMeta \<Rightarrow> IndexMeta \<Rightarrow> bytes \<Rightarrow> rmdb_error + bytes" where
  "index_key mem tab index rec = copy_key tab (take (nat (col_num index)) (im_cols index)) rec (take (nat (col_tot_len index)) mem)"

definition index_name :: "string \<Rightarrow> IndexMeta \<Rightarrow> string" where
  "index_name tab_name index = get_index_name tab_name (map cm_name (im_cols index))"

definition constraint_violation :: "database \<Rightarrow> ('a, database) res" where
  "constraint_violation w =
     (let w = upd_txn (\<lambda>t. t\<lparr>t_state := ABORTED\<rparr>) w
      in (Inl (TransactionAbortException (t_id (d_txn w)) CONSTRAINT_VIOLATION (what [] IndexEntryExistsError)), w))"

section \<open>INSERT\<close>

record insert_exec =
  ie_tab :: TabMeta
  ie_values :: "Value list"
  ie_tab_name :: string
  ie_rid :: Rid

definition InsertExecutor :: "Rid \<Rightarrow> string \<Rightarrow> Value list \<Rightarrow> database \<Rightarrow> rmdb_error + insert_exec" where
  "InsertExecutor junk tab_name values w =
     (case get_table (sm_db (d_sm w)) tab_name of
        Inl e \<Rightarrow> Inl e
      | Inr tab \<Rightarrow>
          if length values \<noteq> length (tm_cols tab) then Inl InvalidValueCountError
          else case sm_fhs (d_sm w) tab_name of
                 None \<Rightarrow> Inl OutOfRange
               | Some _ \<Rightarrow> Inr \<lparr>ie_tab = tab, ie_values = values, ie_tab_name = tab_name, ie_rid = junk\<rparr>)"

definition coerce :: "ColMeta \<Rightarrow> Value \<Rightarrow> rmdb_error + Value" where
  "coerce col val =
     (if cm_type col \<noteq> v_type val then
        if cm_type col = TYPE_FLOAT \<and> v_type val = TYPE_INT then Inr (set_float (int_to_f32 (int_val val)) val)
        else Inl (IncompatibleTypeError (coltype2str (cm_type col)) (coltype2str (v_type val)))
      else Inr val)"

text \<open>The values are changed in place; the record starts as uninitialised memory.\<close>

fun put_values :: "bytes \<Rightarrow> ColMeta list \<Rightarrow> bytes \<Rightarrow> Value list \<Rightarrow> (bytes, Value list) res" where
  "put_values mem (col # cols) rec (val # vals) =
     (case coerce col val of
        Inl e \<Rightarrow> (Inl e, val # vals)
      | Inr val \<Rightarrow>
          (case init_raw mem (nat (cm_len col)) val of
             (Inl e, val) \<Rightarrow> (Inl e, val # vals)
           | (Inr _, val) \<Rightarrow>
               (case v_raw val of
                  None \<Rightarrow> (Inl NullDereference, val # vals)
                | Some raw \<Rightarrow>
                    (case put_values mem cols (memcpy rec (nat (cm_offset col)) (slice 0 (nat (cm_len col)) raw)) vals of
                       (r, vals) \<Rightarrow> (r, val # vals)))))"
| "put_values mem cols rec vals = (Inr rec, vals)"

text \<open>The loop over the indexes. A duplicate key takes the record back, but not the entries of the indexes before.\<close>

fun insert_index_keys :: "lock_answers \<Rightarrow> bytes \<Rightarrow> TabMeta \<Rightarrow> string \<Rightarrow> bytes \<Rightarrow> Rid \<Rightarrow> IndexMeta list \<Rightarrow> database \<Rightarrow> (unit, database) run" where
  "insert_index_keys lk mem tab tab_name rec rid [] w = Some (Inr (), w)"
| "insert_index_keys lk mem tab tab_name rec rid (index # indexes) w =
     (if d_ihs w (index_name tab_name index) = None then Some (Inl OutOfRange, w)
      else case (index_key mem tab index rec, tab_fd tab_name w) of
        (Inr key, Inr fd) \<Rightarrow>
          bindR (Some (call_lock lk (Lock_exclusive_on_record_gap rid fd key index) w))
            (\<lambda>_ w. case on_index (index_name tab_name index) (insert_entry key rid) w of
                 Some (Inl IndexEntryExistsError, w) \<Rightarrow>
                   bindR (Some (on_tab tab_name (delete_record rid (log_lsn w)) w))
                     (\<lambda>_ w. Some (constraint_violation (upd_txn (\<lambda>t. t\<lparr>write_set := butlast (write_set t)\<rparr>) w)))
               | r \<Rightarrow> bindR r (\<lambda>_ w. insert_index_keys lk mem tab tab_name rec rid indexes w))
      | (Inl e, _) \<Rightarrow> Some (Inl e, w)
      | (_, Inl e) \<Rightarrow> Some (Inl e, w))"

definition lock_for_write :: "lock_answers \<Rightarrow> TabMeta \<Rightarrow> string \<Rightarrow> database \<Rightarrow> (unit, database) res" where
  "lock_for_write lk tab tab_name w =
     (case tab_fd tab_name w of
        Inl e \<Rightarrow> (Inl e, w)
      | Inr fd \<Rightarrow> call_lock lk (if tm_indexes tab = [] then Lock_exclusive_on_table fd else Lock_IX_on_table fd) w)"

definition record_buffer :: "bytes \<Rightarrow> string \<Rightarrow> database \<Rightarrow> bytes" where
  "record_buffer mem tab_name w = (case sm_fhs (d_sm w) tab_name of None \<Rightarrow> [] | Some fh \<Rightarrow> take (rec_size (snd fh)) mem)"

definition insert_Next :: "lock_answers \<Rightarrow> bytes \<Rightarrow> insert_exec \<Rightarrow> database \<Rightarrow> (insert_exec, database) run" where
  "insert_Next lk mem st w =
     (let tab = ie_tab st; tab_name = ie_tab_name st
      in bindR (Some (lock_for_write lk tab tab_name w))
        (\<lambda>_ w. case put_values mem (tm_cols tab) (record_buffer mem tab_name w) (ie_values st) of
             (Inl e, _) \<Rightarrow> Some (Inl e, w)
           | (Inr rec, vals) \<Rightarrow>
               bindR (Some (on_tab tab_name (insert_record rec (log_lsn w)) w))
                 (\<lambda>rid w. let w = upd_txn (append_write_record (WriteRecord_delete INSERT_TUPLE (tm_name tab) rid rec)) w
                    in bindR (insert_index_keys lk mem tab tab_name rec rid (tm_indexes tab) w)
                         (\<lambda>_ w. bindR (Some (log_change tab_name
                                  (\<lambda>tid prev first n. LR_Insert (InsertLogRecord_init tid prev rec rid tab_name first n)) w))
                            (\<lambda>_ w. Some (Inr (st\<lparr>ie_values := vals, ie_rid := rid\<rparr>), w))))))"

section \<open>DELETE\<close>

record delete_exec =
  de_tab :: TabMeta
  de_conds :: "Condition list"
  de_rids :: "Rid list"
  de_tab_name :: string

definition DeleteExecutor ::
    "lock_answers \<Rightarrow> string \<Rightarrow> Condition list \<Rightarrow> Rid list \<Rightarrow> database \<Rightarrow> (delete_exec, database) res" where
  "DeleteExecutor lk tab_name conds rids w =
     (case get_table (sm_db (d_sm w)) tab_name of
        Inl e \<Rightarrow> (Inl e, w)
      | Inr tab \<Rightarrow>
          bindE (lock_for_write lk tab tab_name w)
            (\<lambda>_ w. (Inr \<lparr>de_tab = tab, de_conds = conds, de_rids = rids, de_tab_name = tab_name\<rparr>, w)))"

text \<open>\<open>get_record\<close> in the context: the record is locked first.\<close>

definition read_record :: "lock_answers \<Rightarrow> string \<Rightarrow> Rid \<Rightarrow> database \<Rightarrow> (RmRecord, database) res" where
  "read_record lk tab_name rid w =
     (case tab_fd tab_name w of
        Inl e \<Rightarrow> (Inl e, w)
      | Inr fd \<Rightarrow> bindE (call_lock lk (Lock_shared_on_record rid fd) w) (\<lambda>_ w. on_tab tab_name (get_record None rid) w))"

fun delete_keys :: "lock_answers \<Rightarrow> bytes \<Rightarrow> TabMeta \<Rightarrow> string \<Rightarrow> bytes \<Rightarrow> Rid \<Rightarrow> IndexMeta list \<Rightarrow> database \<Rightarrow> (unit, database) run" where
  "delete_keys lk mem tab tab_name rec rid [] w = Some (Inr (), w)"
| "delete_keys lk mem tab tab_name rec rid (index # indexes) w =
     (if d_ihs w (index_name tab_name index) = None then Some (Inl OutOfRange, w)
      else case (index_key mem tab index rec, tab_fd tab_name w) of
        (Inr key, Inr fd) \<Rightarrow>
          bindR (Some (call_lock lk (Lock_exclusive_on_record_gap rid fd key index) w))
            (\<lambda>_ w. bindR (on_index (index_name tab_name index) (delete_entry key) w)
               (\<lambda>_ w. delete_keys lk mem tab tab_name rec rid indexes w))
      | (Inl e, _) \<Rightarrow> Some (Inl e, w)
      | (_, Inl e) \<Rightarrow> Some (Inl e, w))"

text \<open>The comparison of the executor is the one of the scan, written out again.\<close>

definition delete_eval_condition :: "ColMeta list \<Rightarrow> Condition list \<Rightarrow> RmRecord \<Rightarrow> rmdb_error + bool" where
  "delete_eval_condition cols conds tuple = eval_conds seq_compare cols conds tuple"

text \<open>The index entries are deleted and the deletion is logged also when the condition does not hold.\<close>

definition delete_row :: "lock_answers \<Rightarrow> bytes \<Rightarrow> delete_exec \<Rightarrow> Rid \<Rightarrow> database \<Rightarrow> (unit, database) run" where
  "delete_row lk mem st rid w =
     (let tab = de_tab st; tab_name = de_tab_name st
      in bindR (Some (read_record lk tab_name rid w))
        (\<lambda>tuple w. case delete_eval_condition (tm_cols tab) (de_conds st) tuple of
             Inl e \<Rightarrow> Some (Inl e, w)
           | Inr sat \<Rightarrow>
               bindR (if sat then bindR (Some (on_tab tab_name (delete_record rid (log_lsn w)) w))
                        (\<lambda>_ w. Some (Inr (), upd_txn (append_write_record (WriteRecord_delete DELETE_TUPLE (tm_name tab) rid tuple)) w))
                      else Some (Inr (), w))
                 (\<lambda>_ w. bindR (delete_keys lk mem tab tab_name tuple rid (tm_indexes tab) w)
                    (\<lambda>_ w. Some (log_change tab_name (\<lambda>tid prev first n. LR_Delete (DeleteLogRecord_init tid prev tuple rid tab_name first n)) w)))))"

fun for_rids :: "(Rid \<Rightarrow> database \<Rightarrow> (unit, database) run) \<Rightarrow> Rid list \<Rightarrow> database \<Rightarrow> (unit, database) run" where
  "for_rids f [] w = Some (Inr (), w)"
| "for_rids f (rid # rids) w = bindR (f rid w) (\<lambda>_ w. for_rids f rids w)"

definition delete_Next :: "lock_answers \<Rightarrow> bytes \<Rightarrow> delete_exec \<Rightarrow> database \<Rightarrow> (unit, database) run" where
  "delete_Next lk mem st w = for_rids (delete_row lk mem st) (de_rids st) w"

section \<open>UPDATE\<close>

record update_exec =
  ue_tab :: TabMeta
  ue_conds :: "Condition list"
  ue_rids :: "Rid list"
  ue_tab_name :: string
  ue_set :: "SetClause list"

definition UpdateExecutor ::
    "lock_answers \<Rightarrow> string \<Rightarrow> SetClause list \<Rightarrow> Condition list \<Rightarrow> Rid list \<Rightarrow> database \<Rightarrow> (update_exec, database) res" where
  "UpdateExecutor lk tab_name set_clauses conds rids w =
     (case get_table (sm_db (d_sm w)) tab_name of
        Inl e \<Rightarrow> (Inl e, w)
      | Inr tab \<Rightarrow>
          (case tab_fd tab_name w of
             Inl e \<Rightarrow> (Inl e, w)
           | Inr fd \<Rightarrow> bindE (call_lock lk (Lock_exclusive_on_table fd) w)
               (\<lambda>_ w. (Inr \<lparr>ue_tab = tab, ue_conds = conds, ue_rids = rids, ue_tab_name = tab_name, ue_set = set_clauses\<rparr>, w))))"

text \<open>A column that does not exist is the end of the vector, which must not be read.\<close>

fun apply_sets :: "bytes \<Rightarrow> ColMeta list \<Rightarrow> SetClause list \<Rightarrow> bytes \<Rightarrow> rmdb_error + bytes" where
  "apply_sets mem cols [] rec = Inr rec"
| "apply_sets mem cols (cl # cls) rec =
     (case find (\<lambda>col. cm_name col = tc_col (s_lhs cl)) cols of
        None \<Rightarrow> Inl NullDereference
      | Some col \<Rightarrow>
          (case init_raw mem (nat (cm_len col)) (s_rhs cl) of
             (Inl e, _) \<Rightarrow> Inl e
           | (Inr _, v) \<Rightarrow>
               (case v_raw v of
                  None \<Rightarrow> Inl NullDereference
                | Some raw \<Rightarrow> apply_sets mem cols cls (memcpy rec (nat (cm_offset col)) (slice 0 (nat (cm_len col)) raw)))))"

text \<open>After a duplicate key the old keys of the indexes up to this one are inserted again; the new ones stay.\<close>

fun reinsert_keys :: "bytes \<Rightarrow> TabMeta \<Rightarrow> string \<Rightarrow> bytes \<Rightarrow> Rid \<Rightarrow> IndexMeta list \<Rightarrow> database \<Rightarrow> (unit, database) run" where
  "reinsert_keys mem tab tab_name old rid [] w = Some (Inr (), w)"
| "reinsert_keys mem tab tab_name old rid (index # indexes) w =
     (if d_ihs w (index_name tab_name index) = None then Some (Inl OutOfRange, w)
      else case index_key mem tab index old of
        Inl e \<Rightarrow> Some (Inl e, w)
      | Inr key \<Rightarrow> bindR (on_index (index_name tab_name index) (insert_entry key rid) w)
          (\<lambda>_ w. reinsert_keys mem tab tab_name old rid indexes w))"

definition exchange_key :: "bytes \<Rightarrow> bytes \<Rightarrow> Rid \<Rightarrow> ix_index \<Rightarrow> (int, ix_index) run" where
  "exchange_key old_key new_key rid ix = bindR (delete_entry old_key ix) (\<lambda>_ ix. insert_entry new_key rid ix)"

fun update_keys ::
    "bytes \<Rightarrow> TabMeta \<Rightarrow> string \<Rightarrow> bytes \<Rightarrow> bytes \<Rightarrow> Rid \<Rightarrow> IndexMeta list \<Rightarrow> IndexMeta list \<Rightarrow> database \<Rightarrow> (unit, database) run" where
  "update_keys mem tab tab_name old new rid done [] w = Some (Inr (), w)"
| "update_keys mem tab tab_name old new rid done (index # indexes) w =
     (if d_ihs w (index_name tab_name index) = None then Some (Inl OutOfRange, w)
      else case (index_key mem tab index old, index_key mem tab index new) of
        (Inr old_key, Inr new_key) \<Rightarrow>
          (case on_index (index_name tab_name index) (exchange_key old_key new_key rid) w of
             Some (Inl IndexEntryExistsError, w) \<Rightarrow>
               bindR (reinsert_keys mem tab tab_name old rid (done @ [index]) w) (\<lambda>_ w. Some (constraint_violation w))
           | r \<Rightarrow> bindR r (\<lambda>_ w. update_keys mem tab tab_name old new rid (done @ [index]) indexes w))
      | (Inl e, _) \<Rightarrow> Some (Inl e, w)
      | (_, Inl e) \<Rightarrow> Some (Inl e, w))"

definition update_eval_condition :: "ColMeta list \<Rightarrow> Condition list \<Rightarrow> RmRecord \<Rightarrow> rmdb_error + bool" where
  "update_eval_condition cols conds tuple = eval_conds seq_compare cols conds tuple"

definition update_row :: "lock_answers \<Rightarrow> bytes \<Rightarrow> update_exec \<Rightarrow> Rid \<Rightarrow> database \<Rightarrow> (unit, database) run" where
  "update_row lk mem st rid w =
     (let tab = ue_tab st; tab_name = ue_tab_name st
      in bindR (Some (read_record lk tab_name rid w))
        (\<lambda>tuple w. case update_eval_condition (tm_cols tab) (ue_conds st) tuple of
             Inl e \<Rightarrow> Some (Inl e, w)
           | Inr sat \<Rightarrow>
               if \<not> sat then Some (Inr (), w)
               else case apply_sets mem (tm_cols tab) (ue_set st) tuple of
                 Inl e \<Rightarrow> Some (Inl e, w)
               | Inr new \<Rightarrow>
                   bindR (update_keys mem tab tab_name tuple new rid [] (tm_indexes tab) w)
                     (\<lambda>_ w. bindR (Some (on_tab tab_name (update_record rid new (log_lsn w)) w))
                        (\<lambda>_ w. let w = upd_txn (append_write_record (WriteRecord_update UPDATE_TUPLE tab_name rid new tuple)) w
                           in Some (log_change tab_name (\<lambda>tid prev first n. LR_Update (UpdateLogRecord_init tid prev tuple new rid tab_name first n)) w)))))"

definition update_Next :: "lock_answers \<Rightarrow> bytes \<Rightarrow> update_exec \<Rightarrow> database \<Rightarrow> (unit, database) run" where
  "update_Next lk mem st w = for_rids (update_row lk mem st) (ue_rids st) w"

end
