(* ===== verification/RmManager.thy ===== *)
theory RmManager
  imports RmScan
begin

text \<open>
  \<open>RmManager\<close> of \<^verbatim>\<open>record/rm_manager.h\<close>: the temporary files of sorting and aggregation, and what
  creating, opening and closing a table file means for its records. A closed file leaves its
  pages in the buffer pool under the descriptor that the next opened file gets.
\<close>

section \<open>Temporary files\<close>

definition create_tmp_file :: "string \<Rightarrow> string set \<times> disk_manager \<Rightarrow> (string, string set \<times> disk_manager) res" where
  "create_tmp_file filename s =
     (case s of (tmp_files, d) \<Rightarrow>
        let tmp_filename = filename @ ''.tmp''
        in bindE (if tmp_filename \<in> tmp_files
                  then case get_file_fd tmp_filename d of
                         (Inl e, d) \<Rightarrow> (Inl e, (tmp_files, d))
                       | (Inr tmp_fd, d) \<Rightarrow>
                           (case bindE (close_file tmp_fd d) (\<lambda>_ d. destroy_file tmp_filename d) of
                              (r, d) \<Rightarrow> (r, (tmp_files - {tmp_filename}, d)))
                  else (Inr (), (tmp_files, d)))
             (\<lambda>_ (tmp_files, d). case create_file tmp_filename d of
                  (Inl e, d) \<Rightarrow> (Inl e, (insert tmp_filename tmp_files, d))
                | (Inr _, d) \<Rightarrow> (Inr tmp_filename, (insert tmp_filename tmp_files, d))))"

definition open_tmp_file :: "string \<Rightarrow> disk_manager \<Rightarrow> (int, disk_manager) res" where
  "open_tmp_file filename d = open_file filename d"

text \<open>The function is declared to return a string and returns nothing; its callers ignore the result.\<close>

definition destroy_tmp_file :: "int \<Rightarrow> string \<Rightarrow> string set \<times> disk_manager \<Rightarrow> (unit, string set \<times> disk_manager) res" where
  "destroy_tmp_file fd filename s =
     (case s of (tmp_files, d) \<Rightarrow>
        case bindE (close_file fd d) (\<lambda>_ d. destroy_file filename d) of (r, d) \<Rightarrow> (r, (tmp_files - {filename}, d)))"

section \<open>Creating and opening\<close>

lemma RmFileHdr_roundtrip:
  assumes "int32 (record_size h)" "int32 (num_pages h)" "int32 (num_records_per_page h)" "int32 (first_free_page_no h)" "int32 (bitmap_size h)"
  shows "bytes_RmFileHdr (RmFileHdr_bytes h) = h"
  using assms by (simp add: bytes_RmFileHdr_def RmFileHdr_bytes_def load_int_def slice_def)

lemma init_hdr_int32:
  assumes "1 \<le> rs" and "rs \<le> RM_MAX_RECORD_SIZE"
  shows "bytes_RmFileHdr (RmFileHdr_bytes (RmFileHdr_init rs)) = RmFileHdr_init rs"
proof -
  have h: "layout_ok (RmFileHdr_init rs)" using assms by (rule layout_init)
  note n = layout_numbers [OF h]
  have "0 \<le> num_records_per_page (RmFileHdr_init rs) * record_size (RmFileHdr_init rs)"
    using n(1) assms by (simp add: RmFileHdr_init_def Let_def)
  then have "bitmap_size (RmFileHdr_init rs) \<le> 4096" using n(5) by linarith
  with n assms show ?thesis
    by (intro RmFileHdr_roundtrip) (simp_all add: int32_def RM_MAX_RECORD_SIZE_def, simp_all add: RmFileHdr_init_def Let_def RM_NO_PAGE_def)
qed

lemma px_new_fd_dom: "dom (px_fds s) = dom (px_fds t) \<Longrightarrow> px_fd_limit s = px_fd_limit t \<Longrightarrow> px_new_fd t = Some fd \<Longrightarrow> px_new_fd s = Some fd"
  using px_new_fd_same_dom [of s t] by simp

lemma rm_create_ok:
  assumes d: "disk_inv d" and new: "px_files (os d) name = None" and fd: "px_new_fd (os d) = Some fd"
    and rs: "1 \<le> rs" "rs \<le> RM_MAX_RECORD_SIZE"
  shows "rm_create_file name rs d =
     (Inr (), d\<lparr>os := (os d)\<lparr>px_files := (px_files (os d))(name \<mapsto> RmFileHdr_bytes (RmFileHdr_init rs))\<rparr>\<rparr>)"
proof -
  let ?h = "RmFileHdr_bytes (RmFileHdr_init rs)"
  have f: "px_fds (os d) fd = None" "fd \<noteq> - 1" using px_new_fd_fresh [OF fd] by auto
  have p: "path2fd d name = None" using d new unfolding disk_inv_def by (metis option.exhaust)
  have t: "fd2path d fd = None" using d fd by (rule disk_inv_new_fd)
  let ?s = "(os d)\<lparr>px_files := (px_files (os d))(name \<mapsto> [])\<rparr>"
  have c: "create_file name d = (Inr (), d\<lparr>os := ?s\<rparr>)"
    using new fd f by (simp add: create_file_def is_file_def px_open_creat_def px_close_def fun_upd_idem)
  have n: "px_new_fd ?s = Some fd" using px_new_fd_dom [of ?s "os d" fd] fd by simp
  let ?d = "d\<lparr>path2fd := (path2fd d)(name \<mapsto> fd), fd2path := (fd2path d)(fd \<mapsto> name),
     os := ?s\<lparr>px_fds := (px_fds (os d))(fd \<mapsto> (name, 0))\<rparr>\<rparr>"
  have o: "open_file name (d\<lparr>os := ?s\<rparr>) = (Inr fd, ?d)" using p n f by (simp add: open_file_def px_open_def)
  have m: "2 ^ 31 \<le> px_max_file (os d)" using d by (simp add: disk_inv_def)
  have tk: "take (px_max_file (os d)) ?h = ?h" "min RmFileHdr_size (px_max_file (os d)) = RmFileHdr_size"
    using m by (simp_all add: RmFileHdr_size_def)
  have wa: "write_at [] 0 ?h = ?h" by (simp add: write_at_def memcpy_def memset_def)
  have w: "write_page fd RM_FILE_HDR_PAGE ?h ?d = (Inr (), ?d\<lparr>os := ?s\<lparr>px_files := (px_files (os d))(name \<mapsto> ?h),
     px_fds := (px_fds (os d))(fd \<mapsto> (name, RmFileHdr_size))\<rparr>\<rparr>)"
    using tk by (simp add: write_page_def page_offset_def RM_FILE_HDR_PAGE_def px_lseek_set_def px_write_def wa to_int32_def)
  show ?thesis
    using rs c o w p f t by (simp add: rm_create_file_def close_file_def px_close_def fun_upd_idem)
qed


text \<open>A file that is opened under a fresh descriptor: nothing the pool relies on changes.\<close>

lemma bpm_inv_opened:
  assumes b: "bpm_inv b" and new: "fd2path (disk b) fd = None" and p: "path2fd (disk b) name = None" "px_fds (os (disk b)) fd = None" "0 \<le> fd"
    and nl: "name \<noteq> LOG_FILE_NAME" and log: "log_mgr b = None \<or> log_fd (disk b) \<noteq> - 1"
    and ex: "px_files (os (disk b)) name = None"
    and d_def: "d = (disk b)\<lparr>path2fd := (path2fd (disk b))(name \<mapsto> fd), fd2path := (fd2path (disk b))(fd \<mapsto> name),
     os := (os (disk b))\<lparr>px_files := (px_files (os (disk b)))(name \<mapsto> c), px_fds := (px_fds (os (disk b)))(fd \<mapsto> (name, k))\<rparr>\<rparr>"
  shows "bpm_inv (b\<lparr>disk := d\<rparr>)"
proof -
  note parts = bpm_invD [OF b]
  have di: "disk_inv (disk b)" using parts(1) by (simp add: env_ok_def)
  have np: "fd2path (disk b) f \<noteq> Some name" for f using disk_inv_closed [OF di p(1)] .
  have t: "path2fd (disk b) q = Some f \<longleftrightarrow> fd2path (disk b) f = Some q" for q f using di by (rule disk_inv_tables)
  have o: "0 \<le> f \<and> (\<exists>pos. px_fds (os (disk b)) f = Some (q, pos)) \<and> px_files (os (disk b)) q \<noteq> None"
    if "fd2path (disk b) f = Some q" for f q using di that by (auto elim: disk_inv_openD)
  have lf: "log_fd (disk b) \<noteq> - 1 \<longrightarrow> fd2path (disk b) (log_fd (disk b)) = Some LOG_FILE_NAME"
    and mx: "2 ^ 31 \<le> px_max_file (os (disk b))" using di unfolding disk_inv_def by blast+
  have "disk_inv d"
    unfolding disk_inv_def
  proof (intro conjI allI impI)
    fix q f
    show "path2fd d q = Some f \<longleftrightarrow> fd2path d f = Some q" using t new np p(1) by (auto simp: d_def)
    assume "fd2path d f = Some q"
    then have "f = fd \<and> q = name \<or> f \<noteq> fd \<and> fd2path (disk b) f = Some q" by (auto simp: d_def split: if_splits)
    then show "0 \<le> f" "\<exists>pos. px_fds (os d) f = Some (q, pos)" "px_files (os d) q \<noteq> None" using o p by (auto simp: d_def)
  qed (use lf mx new in \<open>auto simp: d_def\<close>)
  moreover have "log_inv (lm, d)" if "log_mgr b = Some lm" for lm
    using parts(1) log that nl \<open>disk_inv d\<close> by (auto simp: env_ok_def log_inv_def log_ready_def log_stream_def log_file_def d_def)
  ultimately have env: "env_ok (b\<lparr>disk := d\<rparr>)" by (simp add: env_ok_def)
  have v: "valid_pid d q" if "valid_pid (disk b) q" for q
    using that new by (auto simp: valid_pid_def data_fd_def d_def)
  have pg: "dpage d q = Some a" if "dpage (disk b) q = Some a" for q a
    using that ex new by (auto simp: dpage_def disk_page_def d_def split: option.splits if_splits)
  have "table_ok (b\<lparr>disk := d\<rparr>)" using parts(3) v by (auto simp: table_ok_def)
  moreover have "sync_ok {} (b\<lparr>disk := d\<rparr>)" using parts(6) pg by (fastforce simp: sync_ok_def)
  ultimately show ?thesis using env parts by (simp add: bpm_inv_def)
qed

lemma bpm_inv_pageno: "bpm_inv b \<Longrightarrow> bpm_inv (b\<lparr>disk := (disk b)\<lparr>fd2pageno := m\<rparr>\<rparr>)"
  by (auto simp: bpm_inv_def env_ok_def table_ok_def sync_ok_def)

text \<open>Creating and opening a table file, and what the disk is afterwards.\<close>

lemma create_open_file:
  assumes b: "bpm_inv b" and room: "card {q. 0 < pin_of b q} < pool_size b" and new: "px_files (os (disk b)) name = None"
    and fd: "px_new_fd (os (disk b)) = Some fd" "fd < MAX_FD" and nl: "name \<noteq> LOG_FILE_NAME"
    and log: "log_mgr b = None \<or> log_fd (disk b) \<noteq> - 1" and none: "\<And>q. q \<in> fst ` set (page_table b) \<Longrightarrow> pid_fd q \<noteq> fd"
    and size: "1 \<le> rs" "rs \<le> 512"
  obtains d e rm where "rm_create_file name rs (disk b) = (Inr (), d)" and "rm_open_file name (b\<lparr>disk := d\<rparr>) = (Inr rm, b\<lparr>disk := e\<rparr>)"
    and "rm = \<lparr>rm_fd = fd, file_hdr = RmFileHdr_init rs, pool = b\<lparr>disk := e\<rparr>\<rparr>" and "rm_inv rm" and "rm_map rm = Map.empty"
    and "fd2path (disk b) fd = None" and "fd2path e = (fd2path (disk b))(fd \<mapsto> name)" and "fd2pageno e = (fd2pageno (disk b))(fd := 1)"
    and "px_files (os e) = (px_files (os (disk b)))(name \<mapsto> RmFileHdr_bytes (RmFileHdr_init rs))"
    and "px_max_file (os e) = px_max_file (os (disk b))"
proof -
  have rs: "1 \<le> rs" "rs \<le> RM_MAX_RECORD_SIZE" using size by (simp_all add: RM_MAX_RECORD_SIZE_def)
  have di: "disk_inv (disk b)" using b by (simp add: bpm_inv_def env_ok_def)
  let ?c = "RmFileHdr_bytes (RmFileHdr_init rs)" and ?s = "os (disk b)"
  let ?d = "(disk b)\<lparr>os := ?s\<lparr>px_files := (px_files ?s)(name \<mapsto> ?c)\<rparr>\<rparr>"
  have cr: "rm_create_file name rs (disk b) = (Inr (), ?d)" using rm_create_ok [OF di new fd(1) rs] .
  have f: "px_fds ?s fd = None" "3 \<le> fd" using px_new_fd_fresh [OF fd(1)] by auto
  have p: "path2fd (disk b) name = None" using di new unfolding disk_inv_def by (metis option.exhaust)
  have t: "fd2path (disk b) fd = None" using di fd(1) by (rule disk_inv_new_fd)
  have n: "px_new_fd (os ?d) = Some fd" using px_new_fd_dom [of "os ?d" ?s fd] fd(1) by simp
  let ?e = "(disk b)\<lparr>path2fd := (path2fd (disk b))(name \<mapsto> fd), fd2path := (fd2path (disk b))(fd \<mapsto> name),
     os := ?s\<lparr>px_files := (px_files ?s)(name \<mapsto> ?c), px_fds := (px_fds ?s)(fd \<mapsto> (name, RmFileHdr_size))\<rparr>\<rparr>"
  let ?b = "b\<lparr>disk := ?e\<lparr>fd2pageno := (fd2pageno (disk b))(fd := 1)\<rparr>\<rparr>"
  let ?rm = "\<lparr>rm_fd = fd, file_hdr = RmFileHdr_init rs, pool = ?b\<rparr>"
  have sl: "slice 0 RmFileHdr_size ?c = ?c" by simp
  have np: "num_pages (RmFileHdr_init rs) = 1" by (simp add: RmFileHdr_init_def Let_def)
  let ?f = "?e\<lparr>os := (os ?e)\<lparr>px_fds := (px_fds ?s)(fd \<mapsto> (name, 0))\<rparr>\<rparr>"
  have of: "open_file name ?d = (Inr fd, ?f)" using p n f by (simp add: open_file_def px_open_def)
  have rd: "read_page fd RM_FILE_HDR_PAGE RmFileHdr_size ?f = (Inr ?c, ?e)"
    by (simp add: read_page_def RM_FILE_HDR_PAGE_def page_offset_def px_lseek_set_def px_read_def sl to_int32_def Let_def)
  have op: "rm_open_file name (b\<lparr>disk := ?d\<rparr>) = (Inr ?rm, ?b)"
    using of rd init_hdr_int32 [OF rs] np by (simp add: rm_open_file_def RmFileHandle_init_def set_fd2pageno_def Let_def)
  have "bpm_inv (b\<lparr>disk := ?e\<rparr>)" using bpm_inv_opened [OF b t p f(1) _ nl log new refl] f(2) by simp
  from bpm_inv_pageno [OF this, of "(fd2pageno (disk b))(fd := 1)"] have i: "bpm_inv ?b" by simp
  have "data_fd (disk ?b) fd" using nl by (simp add: data_fd_def)
  note e = rm_inv_empty [OF i, of fd rs] 
  show thesis
    using cr op e room f(2) fd(2) rs none t \<open>data_fd (disk ?b) fd\<close> by (intro that [of ?d ?rm "disk ?b"]) auto
qed

section \<open>Properties\<close>

text \<open>
  C31: a table file can be created and opened. For every record size from 1 to 512 and a name that is
  not in use, \<open>create_file\<close> succeeds, \<open>open_file\<close> reads back the header that was written, and the
  handle is a well-formed file without records, whose first data page will be page 1; any
  other record size is refused and changes nothing.
\<close>

theorem create_then_open_gives_empty_file:
  assumes b: "bpm_inv b" and room: "card {q. 0 < pin_of b q} < pool_size b" and new: "px_files (os (disk b)) name = None"
    and fd: "px_new_fd (os (disk b)) = Some fd" "fd < MAX_FD" and nl: "name \<noteq> LOG_FILE_NAME"
    and log: "log_mgr b = None \<or> log_fd (disk b) \<noteq> - 1" and none: "\<And>q. q \<in> fst ` set (page_table b) \<Longrightarrow> pid_fd q \<noteq> fd"
  shows "(1 \<le> rs \<and> rs \<le> 512 \<longrightarrow>
      (\<exists>d rm b'. rm_create_file name rs (disk b) = (Inr (), d) \<and> rm_open_file name (b\<lparr>disk := d\<rparr>) = (Inr rm, b') \<and> pool rm = b' \<and>
         rm_fd rm = fd \<and> file_hdr rm = RmFileHdr_init rs \<and> rm_inv rm \<and> rm_map rm = Map.empty)) \<and>
    (rs < 1 \<or> 512 < rs \<longrightarrow> rm_create_file name rs (disk b) = (Inl (InvalidRecordSizeError rs), disk b))"
proof (intro conjI impI)
  assume "1 \<le> rs \<and> rs \<le> 512"
  then obtain d e rm where "rm_create_file name rs (disk b) = (Inr (), d)" "rm_open_file name (b\<lparr>disk := d\<rparr>) = (Inr rm, b\<lparr>disk := e\<rparr>)"
    "rm = \<lparr>rm_fd = fd, file_hdr = RmFileHdr_init rs, pool = b\<lparr>disk := e\<rparr>\<rparr>" "rm_inv rm" "rm_map rm = Map.empty"
    using create_open_file [OF assms, of rs] by metis
  then show "\<exists>d rm b'. rm_create_file name rs (disk b) = (Inr (), d) \<and> rm_open_file name (b\<lparr>disk := d\<rparr>) = (Inr rm, b') \<and> pool rm = b' \<and>
         rm_fd rm = fd \<and> file_hdr rm = RmFileHdr_init rs \<and> rm_inv rm \<and> rm_map rm = Map.empty"
    by auto
qed (auto simp: rm_create_file_def RM_MAX_RECORD_SIZE_def)

theorem create_then_open_gives_empty_file_witness:
  "\<exists>d rm b'. rm_create_file ''u'' 4 sample_disk = (Inr (), d) \<and>
     rm_open_file ''u'' ((BufferPoolManager_init 2 0 sample_disk None)\<lparr>disk := d\<rparr>) = (Inr rm, b') \<and> rm_map rm = Map.empty"
proof -
  let ?b = "BufferPoolManager_init 2 0 sample_disk None"
  have b: "bpm_inv ?b" by (rule bpm_inv_init [OF sample_disk_inv]) simp
  have d: "disk ?b = sample_disk" "log_mgr ?b = None" "page_table ?b = []" "pool_size ?b = 2" by (simp_all add: BufferPoolManager_init_def)
  have p: "pin_of ?b = (\<lambda>_. 0)" by (simp add: fun_eq_iff pin_of_def BufferPoolManager_init_def)
  have n: "px_new_fd (os sample_disk) = Some 4" "px_files (os sample_disk) ''u'' = None"
    by (simp_all add: sample_disk_eq sample_new_fd) (simp add: sample_posix_def LOG_FILE_NAME_def)
  show ?thesis
    using create_then_open_gives_empty_file [OF b, of "''u''" 4 4] d p n by (auto simp: MAX_FD_def LOG_FILE_NAME_def)
qed

lemma write_out_disk: "\<exists>x d. write_out p c b = (x, b\<lparr>disk := d\<rparr>)"
  by (cases "write_page (pid_fd p) (pid_no p) c (disk b)") (auto simp: write_out_def)

lemma flush_entries_frames:
  "flush_entries es fd b = (r, b') \<Longrightarrow> page_table b' = page_table b \<and> (\<forall>f. pg_data (pages b' ! f) = pg_data (pages b ! f))"
proof (induction es arbitrary: b)
  case (Cons e es)
  obtain p f where e: "e = (p, f)" by force
  show ?case
  proof (cases "fd = pid_fd p")
    case True
    obtain x d where w: "write_out (PageId fd (pid_no p)) (pg_data (pages b ! f)) b = (x, b\<lparr>disk := d\<rparr>)"
      using write_out_disk by blast
    let ?b = "upd_page f (\<lambda>p. p\<lparr>pg_dirty := False\<rparr>) (b\<lparr>disk := d\<rparr>)"
    have u: "page_table ?b = page_table b \<and> pg_data (pages ?b ! g) = pg_data (pages b ! g)" for g
      by (cases "f < length (pages b)") (auto simp: upd_page_def nth_list_update list_update_beyond)
    show ?thesis using Cons.IH [of ?b] Cons.prems True w u e by (cases x) auto
  qed (use Cons e in simp)
qed simp

text \<open>
  Closing a file leaves its pages in the buffer pool. When the descriptor of a closed table
  file is given to the next file that is opened, fetching a page of the new file returns the bytes
  of the closed file's page.
\<close>

theorem closed_file_pages_stay:
  assumes f: "map_of (page_table (pool rm)) (PageId (rm_fd rm) n) = Some f"
    and c: "rm_close_file rm = (Inr (), b)" and o: "open_file other (disk b) = (Inr (rm_fd rm), d)"
  shows "\<exists>b'. fetch_page (PageId (rm_fd rm) n) (b\<lparr>disk := d\<rparr>) = (Inr (Some f), b') \<and> pg_data (pages b' ! f) = page_of rm n"
proof -
  obtain x d1 where w: "write_out (PageId (rm_fd rm) RM_FILE_HDR_PAGE) (RmFileHdr_bytes (file_hdr rm)) (pool rm) = (x, (pool rm)\<lparr>disk := d1\<rparr>)"
    using write_out_disk by blast
  obtain y b2 where fl: "flush_all_pages (rm_fd rm) ((pool rm)\<lparr>disk := d1\<rparr>) = (y, b2)" by force
  from flush_entries_frames [OF fl [unfolded flush_all_pages_def]]
  have t: "page_table b2 = page_table (pool rm)" "\<And>g. pg_data (pages b2 ! g) = pg_data (pages (pool rm) ! g)" by simp_all
  obtain z d3 where cl: "close_file (rm_fd rm) (disk b2) = (z, d3)" by force
  have "b = b2\<lparr>disk := d3\<rparr>" using c w fl cl by (cases x; cases y) (auto simp: rm_close_file_def)
  then have b: "page_table b = page_table (pool rm)" "\<And>g. pg_data (pages b ! g) = pg_data (pages (pool rm) ! g)" using t by simp_all
  have "fetch_page (PageId (rm_fd rm) n) (b\<lparr>disk := d\<rparr>) = (Inr (Some f), pin_frame f (b\<lparr>disk := d\<rparr>))"
    using f b(1) by (simp add: fetch_page_def)
  moreover have "pg_data (pages (pin_frame f (b\<lparr>disk := d\<rparr>)) ! f) = pg_data (pages b ! f)"
    by (cases "f < length (pages b)") (auto simp: nth_list_update list_update_beyond)
  moreover have "page_of rm n = pg_data (pages (pool rm) ! f)" using f by (simp add: page_of_def content_def)
  ultimately show ?thesis using b(2) by simp
qed


definition sample_loaded :: rm_file where
  "sample_loaded = \<lparr>rm_fd = 3, file_hdr = RmFileHdr_init 4,
     pool = \<lparr>pool_size = 1, pages = [\<lparr>pg_id = PageId 3 1, pg_data = memset PAGE_SIZE 5, pg_dirty = False, pg_pin = 0\<rparr>],
       page_table = [(PageId 3 1, 0)], free_list = [], disk = sample_disk, replacer = LRUReplacer_init 1, log_mgr = None\<rparr>\<rparr>"

theorem closed_file_pages_stay_witness:
  "\<exists>b d b'. rm_close_file sample_loaded = (Inr (), b) \<and> open_file ''t'' (disk b) = (Inr 3, d) \<and>
     fetch_page (PageId 3 1) (b\<lparr>disk := d\<rparr>) = (Inr (Some 0), b') \<and> pg_data (pages b' ! 0) = memset PAGE_SIZE 5"
proof -
  let ?h = "RmFileHdr_bytes (RmFileHdr_init 4)"
  have t: "px_files sample_posix ''t'' = Some []" "px_max_file sample_posix = 2 ^ 32" by (simp_all add: sample_posix_def LOG_FILE_NAME_def)
  have wa: "write_at [] 0 ?h = ?h" by (simp add: write_at_def memcpy_def memset_def)
  have tk: "take 4294967296 ?h = ?h" by (simp add: RmFileHdr_size_def)
  define d1 where "d1 = sample_disk\<lparr>os := sample_posix\<lparr>px_files := (px_files sample_posix)(''t'' \<mapsto> ?h), px_fds := [3 \<mapsto> (''t'', 20)]\<rparr>\<rparr>"
  have w1: "write_page 3 RM_FILE_HDR_PAGE ?h sample_disk = (Inr (), d1)"
    using t by (simp add: write_page_def page_offset_def RM_FILE_HDR_PAGE_def px_lseek_set_def px_write_def wa tk to_int32_def sample_disk_eq
        RmFileHdr_size_def d1_def)
  have i1: "disk_inv d1" using disk_inv_write_page [OF sample_disk_inv, of 3 RM_FILE_HDR_PAGE ?h] w1 by simp
  define d2 where "d2 = d1\<lparr>os := (os d1)\<lparr>px_files := (px_files (os d1))(''t'' \<mapsto> write_at ?h (nat 1 * PAGE_SIZE) (memset PAGE_SIZE 5)),
      px_fds := (px_fds (os d1))(3 \<mapsto> (''t'', nat 1 * PAGE_SIZE + PAGE_SIZE))\<rparr>\<rparr>"
  have w2: "write_page 3 1 (memset PAGE_SIZE 5) d1 = (Inr (), d2)"
    unfolding d2_def using i1 by (rule write_page_eq) (simp_all add: d1_def sample_disk_eq page_ok_def)
  define b where "b = (pool sample_loaded)\<lparr>disk := d2\<lparr>path2fd := Map.empty, fd2path := Map.empty,
      os := (os d2)\<lparr>px_fds := Map.empty\<rparr>\<rparr>\<rparr>"
  have c: "rm_close_file sample_loaded = (Inr (), b)"
    using w1 w2 by (simp add: rm_close_file_def sample_loaded_def write_out_def flush_all_pages_def upd_page_def close_file_def
        px_close_def b_def d2_def d1_def sample_disk_eq RM_FILE_HDR_PAGE_def)
  have "px_new_fd (os (disk b)) = Some 3"
    by (simp add: px_new_fd_def b_def d2_def d1_def sample_posix_def upt_conv_Cons)
  then obtain d where o: "open_file ''t'' (disk b) = (Inr 3, d)"
    by (simp add: open_file_def px_open_def b_def d2_def d1_def)
  have "page_of sample_loaded 1 = memset PAGE_SIZE 5" by (simp add: page_of_def content_def sample_loaded_def)
  with closed_file_pages_stay [of sample_loaded 1 0 b "''t''" d] c o show ?thesis by (auto simp: sample_loaded_def)
qed

end
