(* ===== verification/Ddl.thy ===== *)
theory Ddl
  imports Dml RmManager SelectOutput
begin

text \<open>
  Data definition: \<open>SmManager\<close> of \<^verbatim>\<open>system/sm_manager.cpp\<close>. The catalogue, the open table files and the open indexes are those of the
  database of \<open>Dml\<close>. The catalogue file is one of the files of the operating system; the paths of the model are relative to the
  directory of the database, and what \<^verbatim>\<open>stat\<close>, \<^verbatim>\<open>system\<close> and \<^verbatim>\<open>chdir\<close> answer is an argument. \<open>ctx\<close> is the lock manager of the
  context, or \<open>None\<close> for a null pointer. The order in which a hash table is traversed is an argument.
\<close>

section \<open>The catalogue file\<close>

definition DB_META_NAME :: string where
  "DB_META_NAME = ''db.meta''"

text \<open>\<open>std::ofstream\<close> empties the file; a failure to write goes unnoticed.\<close>

definition write_meta :: "DbMeta \<Rightarrow> disk_manager \<Rightarrow> disk_manager" where
  "write_meta db d = d\<lparr>os := (os d)\<lparr>px_files := (px_files (os d))(DB_META_NAME \<mapsto> take (px_max_file (os d)) (string_bytes (show_DbMeta db)))\<rparr>\<rparr>"

definition upd_sm :: "(sm_manager \<Rightarrow> sm_manager) \<Rightarrow> database \<Rightarrow> database" where
  "upd_sm f w = w\<lparr>d_sm := f (d_sm w)\<rparr>"

definition upd_db :: "(DbMeta \<Rightarrow> DbMeta) \<Rightarrow> database \<Rightarrow> database" where
  "upd_db f = upd_sm (\<lambda>sm. sm\<lparr>sm_db := f (sm_db sm)\<rparr>)"

definition on_disk :: "(disk_manager \<Rightarrow> ('a, disk_manager) res) \<Rightarrow> database \<Rightarrow> ('a, database) res" where
  "on_disk f w = on_pool (\<lambda>b. case f (disk b) of (r, d) \<Rightarrow> (r, b\<lparr>disk := d\<rparr>)) w"

definition flush_meta :: "database \<Rightarrow> database" where
  "flush_meta w = upd_sm (\<lambda>sm. sm\<lparr>sm_pool := (sm_pool sm)\<lparr>disk := write_meta (sm_db sm) (disk (sm_pool sm))\<rparr>\<rparr>) w"

section \<open>Databases\<close>

definition create_db :: "bool \<Rightarrow> int \<Rightarrow> int \<Rightarrow> int \<Rightarrow> string \<Rightarrow> database \<Rightarrow> (unit, database) res" where
  "create_db is_dir sys cd_in cd_out name w =
     (if is_dir then (Inl (DatabaseExistsError name), w)
      else if sys < 0 then (Inl UnixError, w)
      else if cd_in < 0 then (Inl UnixError, w)
      else bindE (on_disk (\<lambda>d. create_file LOG_FILE_NAME (write_meta \<lparr>db_name = name, db_tabs = []\<rparr> d)) w)
             (\<lambda>_ w. if cd_out < 0 then (Inl UnixError, w) else (Inr (), w)))"

definition drop_db :: "bool \<Rightarrow> int \<Rightarrow> string \<Rightarrow> rmdb_error + unit" where
  "drop_db is_dir sys name =
     (if \<not> is_dir then Inl (DatabaseNotFoundError name) else if sys < 0 then Inl UnixError else Inr ())"

text \<open>\<open>emplace\<close> keeps an entry that is there.\<close>

definition put_fh :: "string \<Rightarrow> rm_file \<Rightarrow> database \<Rightarrow> database" where
  "put_fh t rm = upd_sm (\<lambda>sm. sm\<lparr>sm_fhs := (if sm_fhs sm t = None then (sm_fhs sm)(t \<mapsto> (rm_fd rm, file_hdr rm)) else sm_fhs sm)\<rparr>)"

definition put_ih :: "string \<Rightarrow> ix_index \<Rightarrow> database \<Rightarrow> database" where
  "put_ih n ix w =
     w\<lparr>d_ihs := (if d_ihs w n = None then (d_ihs w)(n \<mapsto> \<lparr>io_fd = ix_fd ix, io_hdr = ix_hdr ix, index_aborted = False\<rparr>) else d_ihs w)\<rparr>"

fun open_indexes :: "IxFileHdr \<Rightarrow> string \<Rightarrow> IndexMeta list \<Rightarrow> database \<Rightarrow> (unit, database) res" where
  "open_indexes junk tab_name [] w = (Inr (), w)"
| "open_indexes junk tab_name (index # indexes) w =
     bindE (on_pool (ix_open_index junk tab_name (map cm_name (im_cols index))) w)
       (\<lambda>ix w. open_indexes junk tab_name indexes (put_ih (index_name tab_name index) ix w))"

fun open_tables :: "IxFileHdr \<Rightarrow> (string \<times> TabMeta) list \<Rightarrow> database \<Rightarrow> (unit, database) res" where
  "open_tables junk [] w = (Inr (), w)"
| "open_tables junk ((t, tab) # tabs) w =
     bindE (on_pool (rm_open_file t) w)
       (\<lambda>rm w. bindE (open_indexes junk t (tm_indexes tab) (put_fh t rm w)) (\<lambda>_ w. open_tables junk tabs w))"

text \<open>\<open>half\<close> is the catalogue that a failed read leaves.\<close>

definition read_meta :: "DbMeta \<Rightarrow> DbMeta \<Rightarrow> disk_manager \<Rightarrow> DbMeta" where
  "read_meta half db d =
     (case px_files (os d) DB_META_NAME of
        None \<Rightarrow> db
      | Some text \<Rightarrow> (case read_DbMeta db (bytes_string text) of None \<Rightarrow> half | Some (db, _) \<Rightarrow> db))"

definition open_db :: "bool \<Rightarrow> int \<Rightarrow> DbMeta \<Rightarrow> IxFileHdr \<Rightarrow> string \<Rightarrow> database \<Rightarrow> (unit, database) res" where
  "open_db is_dir cd half junk name w =
     (if \<not> is_dir then (Inl (DatabaseNotFoundError name), w)
      else if cd < 0 then (Inl UnixError, w)
      else let w = upd_sm (\<lambda>sm. sm\<lparr>sm_db := read_meta half (sm_db sm) (disk (sm_pool sm))\<rparr>) w
           in open_tables junk (db_tabs (sm_db (d_sm w))) w)"

fun close_tables :: "string list \<Rightarrow> database \<Rightarrow> (unit, database) res" where
  "close_tables [] w = (Inr (), w)"
| "close_tables (t # ts) w =
     (case sm_fhs (d_sm w) t of
        None \<Rightarrow> close_tables ts w
      | Some fh \<Rightarrow> bindE (on_pool (\<lambda>b. rm_close_file (handle fh b)) w) (\<lambda>_ w. close_tables ts w))"

definition close_one_index :: "bytes \<Rightarrow> ix_open \<Rightarrow> bpm \<Rightarrow> (unit, bpm) res" where
  "close_one_index mem io b = ix_close_index mem \<lparr>ix_fd = io_fd io, ix_hdr = io_hdr io, ix_pool = b\<rparr>"

fun close_indexes :: "bytes \<Rightarrow> string list \<Rightarrow> database \<Rightarrow> (unit, database) res" where
  "close_indexes mem [] w = (Inr (), w)"
| "close_indexes mem (n # ns) w =
     (case d_ihs w n of
        None \<Rightarrow> close_indexes mem ns w
      | Some io \<Rightarrow> bindE (on_pool (close_one_index mem io) w) (\<lambda>_ w. close_indexes mem ns w))"

definition close_db :: "bytes \<Rightarrow> string list \<Rightarrow> string list \<Rightarrow> int \<Rightarrow> database \<Rightarrow> (unit, database) res" where
  "close_db mem fh_order ih_order cd w =
     bindE (close_tables fh_order (flush_meta w))
       (\<lambda>_ w. bindE (close_indexes mem ih_order w)
          (\<lambda>_ w. let w = upd_sm (\<lambda>sm. sm\<lparr>sm_fhs := Map.empty\<rparr>) (w\<lparr>d_ihs := Map.empty\<rparr>)
                 in if cd < 0 then (Inl UnixError, w) else (Inr (), w)))"

section \<open>Tables\<close>

record ColDef =
  cd_name :: string
  cd_type :: ColType
  cd_len :: int

fun make_cols :: "string \<Rightarrow> int \<Rightarrow> ColDef list \<Rightarrow> ColMeta list" where
  "make_cols tab_name off [] = []"
| "make_cols tab_name off (c # cs) =
     \<lparr>cm_tab_name = tab_name, cm_name = cd_name c, cm_type = cd_type c, cm_len = cd_len c, cm_offset = off, cm_index = False\<rparr> #
     make_cols tab_name (off + cd_len c) cs"

definition lock_table_for :: "lock_answers option \<Rightarrow> int \<Rightarrow> database \<Rightarrow> (unit, database) res" where
  "lock_table_for ctx fd w = (case ctx of None \<Rightarrow> (Inr (), w) | Some lk \<Rightarrow> call_lock lk (Lock_exclusive_on_table fd) w)"

definition create_table :: "lock_answers option \<Rightarrow> string \<Rightarrow> ColDef list \<Rightarrow> database \<Rightarrow> (unit, database) res" where
  "create_table ctx tab_name col_defs w =
     (if is_table (sm_db (d_sm w)) tab_name then (Inl (TableExistsError tab_name), w)
      else let tab = \<lparr>tm_name = tab_name, tm_cols = make_cols tab_name 0 col_defs, tm_indexes = []\<rparr>
           in bindE (on_disk (rm_create_file tab_name (sum_list (map cd_len col_defs))) w)
                (\<lambda>_ w. let w = upd_db (\<lambda>db. SetTabMeta db tab_name tab) w
                   in bindE (on_pool (rm_open_file tab_name) w)
                        (\<lambda>fh w. bindE (lock_table_for ctx (rm_fd fh) w)
                           (\<lambda>_ w. (Inr (), flush_meta (put_fh tab_name fh w))))))"

text \<open>\<open>fhs_[name]->GetFd()\<close>.\<close>

definition ptr_fd :: "string \<Rightarrow> database \<Rightarrow> rmdb_error + int" where
  "ptr_fd t w = (case sm_fhs (d_sm w) t of None \<Rightarrow> Inl NullDereference | Some fh \<Rightarrow> Inr (fst fh))"

definition lock_ptr :: "lock_answers option \<Rightarrow> string \<Rightarrow> database \<Rightarrow> (unit, database) res" where
  "lock_ptr ctx t w =
     (case ctx of
        None \<Rightarrow> (Inr (), w)
      | Some lk \<Rightarrow> (case ptr_fd t w of Inl e \<Rightarrow> (Inl e, w) | Inr fd \<Rightarrow> call_lock lk (Lock_exclusive_on_table fd) w))"

text \<open>\<open>db_.tabs_[name]\<close> makes an empty table for a name that has none.\<close>

definition empty_tab :: TabMeta where
  "empty_tab = \<lparr>tm_name = [], tm_cols = [], tm_indexes = []\<rparr>"

definition tabs_at :: "string \<Rightarrow> database \<Rightarrow> TabMeta \<times> database" where
  "tabs_at t w =
     (case map_of (db_tabs (sm_db (d_sm w))) t of
        Some tab \<Rightarrow> (tab, w)
      | None \<Rightarrow> (empty_tab, upd_db (\<lambda>db. SetTabMeta db t empty_tab) w))"

definition upd_tab :: "string \<Rightarrow> (TabMeta \<Rightarrow> TabMeta) \<Rightarrow> database \<Rightarrow> database" where
  "upd_tab t f w = upd_db (\<lambda>db. SetTabMeta db t (f (fst (tabs_at t w)))) w"

section \<open>Indexes\<close>

fun index_cols :: "TabMeta \<Rightarrow> int \<Rightarrow> string list \<Rightarrow> rmdb_error + ColMeta list" where
  "index_cols tab off [] = Inr []"
| "index_cols tab off (n # ns) =
     (case get_col tab n of
        Inl e \<Rightarrow> Inl e
      | Inr col \<Rightarrow> (case index_cols tab (off + cm_len col) ns of Inl e \<Rightarrow> Inl e | Inr cs \<Rightarrow> Inr (col\<lparr>cm_offset := off\<rparr> # cs)))"

definition read_record_ctx :: "lock_answers option \<Rightarrow> string \<Rightarrow> Rid \<Rightarrow> database \<Rightarrow> (RmRecord, database) res" where
  "read_record_ctx ctx t rid w = (case ctx of None \<Rightarrow> on_tab t (get_record None rid) w | Some lk \<Rightarrow> read_record lk t rid w)"

partial_function (option) fill_index ::
    "lock_answers option \<Rightarrow> bytes \<Rightarrow> string \<Rightarrow> TabMeta \<Rightarrow> IndexMeta \<Rightarrow> rm_scan \<Rightarrow> database \<Rightarrow> (unit, database) run" where
  "fill_index ctx mem t tab meta sc w =
     (if rm_scan_is_end sc then Some (Inr (), w)
      else let rid = rm_scan_rid sc
           in bindR (Some (read_record_ctx ctx t rid w))
                (\<lambda>rec w. case index_key mem tab meta rec of
                     Inl e \<Rightarrow> Some (Inl e, w)
                   | Inr key \<Rightarrow>
                       bindR (on_index (index_name t meta) (insert_entry key rid) w)
                         (\<lambda>_ w. bindR (Some (on_tab t (rm_scan_next sc) w))
                            (\<lambda>sc w. fill_index ctx mem t tab meta sc w))))"

definition create_index :: "lock_answers option \<Rightarrow> bytes \<Rightarrow> IxFileHdr \<Rightarrow> Rid \<Rightarrow> string \<Rightarrow> string list \<Rightarrow> database \<Rightarrow> (unit, database) run" where
  "create_index ctx mem junk junk_rid tab_name col_names w =
     (case tabs_at tab_name w of
        (tab, w) \<Rightarrow>
          if is_index tab col_names then Some (Inl (IndexExistsError tab_name col_names), w)
          else bindR (Some (lock_ptr ctx tab_name w))
            (\<lambda>_ w. case index_cols tab 0 col_names of
                 Inl e \<Rightarrow> Some (Inl e, w)
               | Inr idx_cols \<Rightarrow>
                   bindR (Some (on_disk (ix_create_index mem tab_name idx_cols) w))
                     (\<lambda>_ w. bindR (Some (on_pool (ix_open_index junk tab_name col_names) w))
                        (\<lambda>ix w.
                           let new_meta = \<lparr>im_tab_name = tab_name, col_tot_len = sum_list (map cm_len idx_cols),
                                 col_num = int (length col_names), im_cols = idx_cols\<rparr>;
                               w = put_ih (get_index_name tab_name col_names) ix w;
                               tab = tab\<lparr>tm_indexes := tm_indexes tab @ [new_meta]\<rparr>;
                               w = upd_db (\<lambda>db. SetTabMeta db tab_name tab) w
                           in bindR (Some (on_tab tab_name (RmScan_init junk_rid) w))
                                (\<lambda>sc w. bindR (fill_index ctx mem tab_name tab new_meta sc w)
                                   (\<lambda>_ w. Some (Inr (), flush_meta w)))))))"

text \<open>\<open>erase\<close> of the first index with these columns.\<close>

fun erase_first :: "('a \<Rightarrow> bool) \<Rightarrow> 'a list \<Rightarrow> 'a list" where
  "erase_first P [] = []"
| "erase_first P (x # xs) = (if P x then xs else x # erase_first P xs)"

definition drop_index :: "lock_answers option \<Rightarrow> bytes \<Rightarrow> string \<Rightarrow> string list \<Rightarrow> database \<Rightarrow> (unit, database) res" where
  "drop_index ctx mem tab_name col_names w =
     (case tabs_at tab_name w of
        (tab, w) \<Rightarrow>
          if \<not> is_index tab col_names then (Inl (IndexNotFoundError tab_name col_names), w)
          else bindE (lock_ptr ctx tab_name w)
            (\<lambda>_ w. let n = get_index_name tab_name col_names
               in case d_ihs w n of
                    None \<Rightarrow> (Inl NullDereference, w)
                  | Some io \<Rightarrow>
                      bindE (on_pool (close_one_index mem io) w)
                        (\<lambda>_ w. bindE (on_disk (ix_destroy_index tab_name col_names) w)
                           (\<lambda>_ w.
                              let w = w\<lparr>d_ihs := (d_ihs w)(n := None)\<rparr>;
                                  same = (\<lambda>ix. col_num ix = int (length col_names) \<and> names_match (im_cols ix) col_names)
                              in (Inr (), flush_meta (upd_tab tab_name (\<lambda>tab. tab\<lparr>tm_indexes := erase_first same (tm_indexes tab)\<rparr>) w))))))"

text \<open>The overload with columns passes their names on; it has the same body.\<close>

definition drop_index_cols :: "lock_answers option \<Rightarrow> bytes \<Rightarrow> string \<Rightarrow> ColMeta list \<Rightarrow> database \<Rightarrow> (unit, database) res" where
  "drop_index_cols ctx mem tab_name cols w = drop_index ctx mem tab_name (map cm_name cols) w"

text \<open>
  The loop of \<open>drop_table\<close> runs over the vector of indexes from which \<open>drop_index\<close> erases: its end is where the vector ended at
  the start. Behind the present end it reads destroyed elements, which are the argument \<open>stale\<close>.
\<close>

fun drop_indexes :: "lock_answers option \<Rightarrow> bytes \<Rightarrow> (nat \<Rightarrow> ColMeta list) \<Rightarrow> string \<Rightarrow> nat list \<Rightarrow> database \<Rightarrow> (unit, database) res" where
  "drop_indexes ctx mem stale tab_name [] w = (Inr (), w)"
| "drop_indexes ctx mem stale tab_name (i # is) w =
     (let indexes = tm_indexes (fst (tabs_at tab_name w)); cols = (if i < length indexes then im_cols (indexes ! i) else stale i)
      in bindE (drop_index_cols ctx mem tab_name cols w) (\<lambda>_ w. drop_indexes ctx mem stale tab_name is w))"

text \<open>The handle is erased before it is closed: \<open>fhs_[tab_name]\<close> makes a new entry with a null pointer, which \<open>close_file\<close> reads.\<close>

definition drop_table :: "lock_answers option \<Rightarrow> bytes \<Rightarrow> (nat \<Rightarrow> ColMeta list) \<Rightarrow> string \<Rightarrow> database \<Rightarrow> (unit, database) res" where
  "drop_table ctx mem stale tab_name w =
     (if \<not> is_table (sm_db (d_sm w)) tab_name then (Inl (TableNotFoundError tab_name), w)
      else bindE (lock_ptr ctx tab_name w)
        (\<lambda>_ w. bindE (drop_indexes ctx mem stale tab_name [0..<length (tm_indexes (fst (tabs_at tab_name w)))] w)
           (\<lambda>_ w. let w = upd_db (\<lambda>db. db\<lparr>db_tabs := filter (\<lambda>(t, _). t \<noteq> tab_name) (db_tabs db)\<rparr>) w;
                      w = upd_sm (\<lambda>sm. sm\<lparr>sm_fhs := (sm_fhs sm)(tab_name := None)\<rparr>) w
                  in case sm_fhs (d_sm w) tab_name of
                       None \<Rightarrow> (Inl NullDereference, w)
                     | Some fh \<Rightarrow>
                         bindE (on_pool (\<lambda>b. rm_close_file (handle fh b)) w)
                           (\<lambda>_ w. bindE (on_disk (rm_destroy_file tab_name) w) (\<lambda>_ w. (Inr (), flush_meta w))))))"

section \<open>Showing the catalogue\<close>

text \<open>The reply to the client and the text appended to \<^verbatim>\<open>output.txt\<close>.\<close>

type_synonym shown = "reply \<times> bytes"

definition show_rec :: "nat \<Rightarrow> string list \<Rightarrow> string \<Rightarrow> shown \<Rightarrow> shown" where
  "show_rec n cols line s = (snd (print_rec n (map string_bytes cols) (fst s)), snd s @ string_bytes line)"

definition show_sep :: "nat \<Rightarrow> shown \<Rightarrow> shown" where
  "show_sep n s = (print_separator n (fst s), snd s)"

definition show_tables :: "database \<Rightarrow> shown \<Rightarrow> shown" where
  "show_tables w s =
     (let s = (fst s, snd s @ string_bytes (''| Tables |'' @ nl));
          s = show_sep 1 (show_rec 1 [''Tables''] [] (show_sep 1 s));
          s = fold (\<lambda>(_, tab). show_rec 1 [tm_name tab] (''| '' @ tm_name tab @ '' |'' @ nl)) (db_tabs (sm_db (d_sm w))) s
      in show_sep 1 s)"

definition desc_table :: "string \<Rightarrow> database \<Rightarrow> shown \<Rightarrow> (unit, shown) res" where
  "desc_table tab_name w s =
     (case get_table (sm_db (d_sm w)) tab_name of
        Inl e \<Rightarrow> (Inl e, s)
      | Inr tab \<Rightarrow>
          let s = show_sep 3 (show_rec 3 [''Field'', ''Type'', ''Index''] [] (show_sep 3 s));
              s = fold (\<lambda>col. show_rec 3 [cm_name col, coltype2str (cm_type col), if cm_index col then ''YES'' else ''NO''] []) (tm_cols tab) s
          in (Inr (), show_sep 3 s))"

text \<open>The last name is read at position \<open>col_num - 1\<close>; an index has at least one column.\<close>

definition index_cols_str :: "IndexMeta \<Rightarrow> string" where
  "index_cols_str index =
     ''('' @ concat (map (\<lambda>col. cm_name col @ '','') (take (nat (col_num index - 1)) (im_cols index))) @
     cm_name (im_cols index ! nat (col_num index - 1)) @ '')''"

definition show_index :: "string \<Rightarrow> database \<Rightarrow> shown \<Rightarrow> shown \<times> database" where
  "show_index tab_name w s =
     (case tabs_at tab_name w of
        (tab, w) \<Rightarrow>
          (fold (\<lambda>index. show_rec 3 [tab_name, ''unique'', index_cols_str index]
                   (''| '' @ tab_name @ '' | unique | '' @ index_cols_str index @ '' |'' @ nl)) (tm_indexes tab) s, w))"

end
