(* ===== verification/Recovery.thy ===== *)
theory Recovery
  imports Ddl
begin

text \<open>
  \<open>RecoveryManager\<close> of \<^verbatim>\<open>recovery/log_recovery.cpp\<close>: the three passes over the log file that the server runs when it has opened a
  database. \<open>analyze\<close> reads the log from its beginning and makes the tables of active transactions and of dirty pages, \<open>redo\<close>
  repeats the changes that are missing from their pages, \<open>undo\<close> takes back those of the active transactions and makes all indexes
  anew. The maps are association lists, \<open>std::map\<close> in the order of its keys. What a fresh buffer holds is an argument. The text that
  \<open>format_log\<close> writes is left out.
\<close>

section \<open>The recovery manager\<close>

record recovery =
  ATT :: "(int \<times> int) list"
  DPT :: "(PageId \<times> int) list"
  offsets :: "(int \<times> nat) list"
  last_lsn :: int

definition RecoveryManager_init :: "int \<Rightarrow> recovery" where
  "RecoveryManager_init junk = \<lparr>ATT = [], DPT = [], offsets = [], last_lsn = junk\<rparr>"

definition with_db :: "(database \<Rightarrow> ('a, database) res) \<Rightarrow> recovery \<times> database \<Rightarrow> ('a, recovery \<times> database) res" where
  "with_db f s = (case f (snd s) of (r, w) \<Rightarrow> (r, (fst s, w)))"

text \<open>\<open>read_log\<close> into a buffer, and the fields that are read through casts.\<close>

definition read_buf :: "nat \<Rightarrow> nat \<Rightarrow> bytes \<Rightarrow> database \<Rightarrow> (bytes, database) res" where
  "read_buf sz off buf w = bindE (on_disk (read_log sz off) w) (\<lambda>(_, b) w. (Inr (memcpy buf 0 b), w))"

definition hdr_type :: "bytes \<Rightarrow> LogType option" where
  "hdr_type hdr = LogType_of (load_int hdr OFFSET_LOG_TYPE)"

definition hdr_len :: "bytes \<Rightarrow> nat" where
  "hdr_len hdr = le_nat (slice OFFSET_LOG_TOT_LEN 4 hdr)"

text \<open>
  The whole record behind a header. The length is passed as an \<open>int\<close>: one that is negative then cannot be the number of
  bytes read. The classes of the row operations read their fields whatever the type in the buffer is; after a torn read it may
  differ from that in the header, and then be no type at all, which has no meaning here.
\<close>

definition read_row :: "LogType \<Rightarrow> nat \<Rightarrow> nat \<Rightarrow> bytes \<Rightarrow> database \<Rightarrow> (bytes \<times> log_record, database) res" where
  "read_row ty len off dat w =
     (if len \<ge> 2 ^ 31 then (Inl (AssertionFailed ''bytes_read == size''), w)
      else bindE (read_buf len off dat w)
        (\<lambda>dat w. case (case ty of
               INSERT \<Rightarrow> map_option LR_Insert (InsertLogRecord_deserialize dat)
             | DELETE \<Rightarrow> map_option LR_Delete (DeleteLogRecord_deserialize dat)
             | UPDATE \<Rightarrow> map_option LR_Update (UpdateLogRecord_deserialize dat)
             | _ \<Rightarrow> map_option LR_Header (LogRecord_deserialize dat)) of
             None \<Rightarrow> (Inl (RuntimeError ''log_type''), w)
           | Some r \<Rightarrow> (Inr (dat, r), w)))"

fun row_table :: "log_record \<Rightarrow> string" where
  "row_table (LR_Insert r) = insert_table_name r"
| "row_table (LR_Delete r) = delete_table_name r"
| "row_table (LR_Update r) = update_table_name r"
| "row_table (LR_Header r) = []"

fun row_rid :: "log_record \<Rightarrow> Rid" where
  "row_rid (LR_Insert r) = insert_rid r"
| "row_rid (LR_Delete r) = delete_rid r"
| "row_rid (LR_Update r) = update_rid r"
| "row_rid (LR_Header r) = Rid 0 0"

section \<open>Analysis\<close>

definition map_insert :: "'k :: linorder \<Rightarrow> 'v \<Rightarrow> ('k \<times> 'v) list \<Rightarrow> ('k \<times> 'v) list" where
  "map_insert k v xs = (if map_of xs k = None then map_put k v xs else xs)"

definition map_erase :: "'k \<Rightarrow> ('k \<times> 'v) list \<Rightarrow> ('k \<times> 'v) list" where
  "map_erase k xs = filter (\<lambda>(j, _). j \<noteq> k) xs"

definition analyze_row :: "int \<Rightarrow> int \<Rightarrow> log_record \<Rightarrow> database \<Rightarrow> recovery \<Rightarrow> rmdb_error + recovery" where
  "analyze_row l tid r w rc =
     (case tab_fd (row_table r) w of
        Inl e \<Rightarrow> Inl e
      | Inr fd \<Rightarrow>
          let page_id = PageId fd (rid_page (row_rid r))
          in Inr (rc\<lparr>DPT := (if map_of (DPT rc) page_id = None then (page_id, l) # DPT rc else DPT rc), ATT := map_put tid l (ATT rc)\<rparr>))"

definition analyze_record ::
    "LogType \<Rightarrow> int \<Rightarrow> int \<Rightarrow> log_record \<Rightarrow> database \<Rightarrow> int list \<times> recovery \<Rightarrow> rmdb_error + int list \<times> recovery" where
  "analyze_record ty l tid r w s =
     (case s of (aborted_tids, rc) \<Rightarrow>
        case ty of
          LT_begin \<Rightarrow> Inr (aborted_tids, rc\<lparr>ATT := map_put tid l (ATT rc)\<rparr>)
        | LT_commit \<Rightarrow> Inr (aborted_tids, rc\<lparr>ATT := map_erase tid (ATT rc)\<rparr>)
        | ABORT \<Rightarrow> Inr (tid # aborted_tids, rc)
        | Checkpoint \<Rightarrow> Inr ([], rc\<lparr>DPT := [], ATT := filter (\<lambda>(t, _). t \<notin> set aborted_tids) (ATT rc)\<rparr>)
        | _ \<Rightarrow> (case analyze_row l tid r w rc of Inl e \<Rightarrow> Inl e | Inr rc \<Rightarrow> Inr (aborted_tids, rc)))"

partial_function (option) analyze_loop ::
    "int \<Rightarrow> bytes \<Rightarrow> bytes \<Rightarrow> int list \<Rightarrow> nat \<Rightarrow> recovery \<times> database \<Rightarrow> (unit, recovery \<times> database) run" where
  "analyze_loop log_file_size hdr dat aborted_tids off s =
     (if int off \<ge> log_file_size then Some (Inr (), s)
      else bindR (Some (with_db (read_buf LOG_HEADER_SIZE off hdr) s))
        (\<lambda>hdr s.
           let l = load_int hdr OFFSET_LSN; tid = load_int hdr OFFSET_LOG_TID; len = hdr_len hdr;
               s = ((fst s)\<lparr>offsets := map_insert l off (offsets (fst s)), last_lsn := l\<rparr>, snd s)
           in case hdr_type hdr of
                None \<Rightarrow> analyze_loop log_file_size hdr dat aborted_tids (off + len) s
              | Some ty \<Rightarrow>
                  bindR (Some (with_db (read_row ty len off dat) s))
                    (\<lambda>(dat, r) s. case analyze_record ty l tid r (snd s) (aborted_tids, fst s) of
                         Inl e \<Rightarrow> Some (Inl e, s)
                       | Inr (aborted_tids, rc) \<Rightarrow> analyze_loop log_file_size hdr dat aborted_tids (off + len) (rc, snd s))))"

definition analyze :: "bytes \<Rightarrow> bytes \<Rightarrow> recovery \<times> database \<Rightarrow> (unit, recovery \<times> database) run" where
  "analyze hdr dat s = analyze_loop (get_file_size LOG_FILE_NAME (disk (sm_pool (d_sm (snd s))))) hdr dat [] 0 s"

section \<open>Redo\<close>

fun row_redo :: "log_record \<Rightarrow> rm_file \<Rightarrow> (unit, rm_file) res" where
  "row_redo (LR_Insert r) rm = insert_redo r rm"
| "row_redo (LR_Delete r) rm = delete_redo r rm"
| "row_redo (LR_Update r) rm = update_redo r rm"
| "row_redo (LR_Header r) rm = (Inr (), rm)"

definition unpin_in :: "PageId \<Rightarrow> bool \<Rightarrow> database \<Rightarrow> database" where
  "unpin_in p dirty w = w\<lparr>d_sm := (d_sm w)\<lparr>sm_pool := snd (unpin_page p dirty (sm_pool (d_sm w)))\<rparr>\<rparr>"

definition redo_row :: "int \<Rightarrow> log_record \<Rightarrow> recovery \<times> database \<Rightarrow> (unit, recovery \<times> database) res" where
  "redo_row l r s =
     (case ptr_fd (row_table r) (snd s) of
        Inl e \<Rightarrow> (Inl e, s)
      | Inr fd \<Rightarrow>
          let page_id = PageId fd (rid_page (row_rid r))
          in if map_of (DPT (fst s)) page_id = None then (Inr (), s)
             else bindE (with_db (on_pool (fetch_page page_id)) s)
               (\<lambda>page s. case page of
                    None \<Rightarrow> (Inl NullDereference, s)
                  | Some f \<Rightarrow>
                      if get_page_lsn (pages (sm_pool (d_sm (snd s))) ! f) \<ge> l then (Inr (), (fst s, unpin_in page_id False (snd s)))
                      else bindE (with_db (on_tab (row_table r) (row_redo r)) s)
                             (\<lambda>_ s. (Inr (), (fst s, unpin_in page_id True (snd s))))))"

text \<open>\<open>log_offsets_[lsn]\<close> makes an entry with the offset 0 for a number that has none.\<close>

definition offset_of :: "int \<Rightarrow> recovery \<times> database \<Rightarrow> nat \<times> (recovery \<times> database)" where
  "offset_of l s =
     (case map_of (offsets (fst s)) l of
        Some off \<Rightarrow> (off, s)
      | None \<Rightarrow> (0, ((fst s)\<lparr>offsets := map_put l 0 (offsets (fst s))\<rparr>, snd s)))"

definition is_row :: "LogType option \<Rightarrow> bool" where
  "is_row ty \<longleftrightarrow> ty \<in> {Some INSERT, Some DELETE, Some UPDATE}"

fun redo_loop :: "bytes \<Rightarrow> bytes \<Rightarrow> int list \<Rightarrow> recovery \<times> database \<Rightarrow> (unit, recovery \<times> database) res" where
  "redo_loop hdr dat [] s = (Inr (), s)"
| "redo_loop hdr dat (l # ls) s =
     (case offset_of l s of
        (off, s) \<Rightarrow>
          bindE (with_db (read_buf LOG_HEADER_SIZE off hdr) s)
            (\<lambda>hdr s.
               if is_row (hdr_type hdr)
               then bindE (with_db (read_row (the (hdr_type hdr)) (hdr_len hdr) off dat) s)
                      (\<lambda>(dat, r) s. bindE (redo_row l r s) (\<lambda>_ s. redo_loop hdr dat ls s))
               else redo_loop hdr dat ls s))"

definition redo :: "bytes \<Rightarrow> bytes \<Rightarrow> recovery \<times> database \<Rightarrow> (unit, recovery \<times> database) res" where
  "redo hdr dat s =
     (case DPT (fst s) of
        [] \<Rightarrow> (Inr (), s)
      | (_, l) # dpt \<Rightarrow> let first_lsn = fold (\<lambda>(_, l) m. min l m) dpt l in redo_loop hdr dat [first_lsn..last_lsn (fst s)] s)"

section \<open>Undo\<close>

fun row_undo :: "log_record \<Rightarrow> rm_file \<Rightarrow> (unit, rm_file) res" where
  "row_undo (LR_Insert r) rm = insert_undo (insert_rid r) rm"
| "row_undo (LR_Delete r) rm = delete_undo (delete_rid r) (delete_value r) rm"
| "row_undo (LR_Update r) rm = update_undo (update_rid r) (old_value r) rm"
| "row_undo (LR_Header r) rm = (Inr (), rm)"

text \<open>
  The priority queue is a list; its top is the greatest number in it. A record of a commit, an abort or a checkpoint is not taken from the
  queue: the loop then stays where it is. The result tells whether the queue was emptied; \<open>False\<close> is the \<open>return\<close> at the number -1.
\<close>

partial_function (option) undo_loop :: "bytes \<Rightarrow> bytes \<Rightarrow> int list \<Rightarrow> recovery \<times> database \<Rightarrow> (bool, recovery \<times> database) run" where
  "undo_loop hdr dat lsn_queue s =
     (if lsn_queue = [] then Some (Inr True, s)
      else let l = Max (set lsn_queue)
           in if l = - 1 then Some (Inr False, s)
              else case offset_of l s of
                (off, s) \<Rightarrow>
                  bindR (Some (with_db (read_buf LOG_HEADER_SIZE off hdr) s))
                    (\<lambda>hdr s.
                       if is_row (hdr_type hdr)
                       then bindR (Some (with_db (read_row (the (hdr_type hdr)) (hdr_len hdr) off dat) s))
                              (\<lambda>(dat, r) s. bindR (Some (with_db (on_tab (row_table r) (row_undo r)) s))
                                 (\<lambda>_ s. undo_loop hdr dat (LogRecord.prev_lsn (header r) # remove1 l lsn_queue) s))
                       else if hdr_type hdr = Some LT_begin then undo_loop hdr dat (remove1 l lsn_queue) s
                       else undo_loop hdr dat lsn_queue s))"

fun rebuild_indexes :: "bytes \<Rightarrow> IxFileHdr \<Rightarrow> Rid \<Rightarrow> IndexMeta list \<Rightarrow> database \<Rightarrow> (unit, database) run" where
  "rebuild_indexes mem junk junk_rid [] w = Some (Inr (), w)"
| "rebuild_indexes mem junk junk_rid (index # indexes) w =
     bindR (Some (drop_index None mem (im_tab_name index) (map cm_name (im_cols index)) w))
       (\<lambda>_ w. bindR (create_index None mem junk junk_rid (im_tab_name index) (map cm_name (im_cols index)) w)
          (\<lambda>_ w. rebuild_indexes mem junk junk_rid indexes w))"

definition undo :: "bytes \<Rightarrow> bytes \<Rightarrow> bytes \<Rightarrow> IxFileHdr \<Rightarrow> Rid \<Rightarrow> recovery \<times> database \<Rightarrow> (unit, recovery \<times> database) run" where
  "undo hdr dat mem junk junk_rid s =
     bindR (undo_loop hdr dat (map snd (ATT (fst s))) s)
       (\<lambda>all s. if \<not> all then Some (Inr (), s)
          else map_option (\<lambda>(r, w). (r, (fst s, w))) (rebuild_indexes mem junk junk_rid (get_all_indexes (sm_db (d_sm (snd s)))) (snd s)))"

text \<open>The calls at the start of the server. Each pass allocates its own buffers.\<close>

definition recover :: "(nat \<Rightarrow> bytes) \<Rightarrow> IxFileHdr \<Rightarrow> Rid \<Rightarrow> recovery \<times> database \<Rightarrow> (unit, recovery \<times> database) run" where
  "recover mem junk junk_rid s =
     bindR (analyze (mem 0) (mem 1) s)
       (\<lambda>_ s. bindR (Some (redo (mem 2) (mem 3) s)) (\<lambda>_ s. undo (mem 4) (mem 5) (mem 6) junk junk_rid s))"

end
