(* ===== verification/TxnManager.thy ===== *)
theory TxnManager
  imports Dml
begin

text \<open>
  \<open>TransactionManager\<close> of \<^verbatim>\<open>transaction/transaction_manager.cpp\<close>: begin, commit and abort. The transaction table maps ids to
  transactions; the transaction a call works on is that of the database. An abort undoes the writes of the
  transaction from the last to the first, in the table and in its indexes, and then releases the locks.
\<close>

section \<open>Begin\<close>

datatype ConcurrencyMode = TWO_PHASE_LOCKING | BASIC_TO

record txn_manager =
  concurrency_mode :: ConcurrencyMode
  next_txn_id :: int
  next_timestamp :: int
  txn_map :: "int \<Rightarrow> Transaction option"

definition TransactionManager_init :: "ConcurrencyMode \<Rightarrow> txn_manager" where
  "TransactionManager_init mode = \<lparr>concurrency_mode = mode, next_txn_id = 0, next_timestamp = 0, txn_map = Map.empty\<rparr>"

text \<open>\<open>own_thread\<close> is the answer of the comparison of the transaction's thread with the running one.\<close>

definition get_transaction :: "(Transaction \<Rightarrow> bool) \<Rightarrow> int \<Rightarrow> txn_manager \<Rightarrow> rmdb_error + Transaction option" where
  "get_transaction own_thread txn_id tm =
     (if txn_id = INVALID_TXN_ID then Inr None
      else case txn_map tm txn_id of
             None \<Rightarrow> Inl (AssertionFailed ''txn_map.find(txn_id) != txn_map.end()'')
           | Some t \<Rightarrow> if own_thread t then Inr (Some t) else Inl (AssertionFailed ''res->get_thread_id() == this_thread::get_id()''))"

text \<open>\<open>add_log_to_buffer\<close> of a record that has only a header, and \<open>set_prev_lsn\<close>.\<close>

definition log_header :: "LogRecord \<Rightarrow> database \<Rightarrow> (unit, database) res" where
  "log_header r w =
     bindE (on_pool (on_log (add_log_to_buffer (LR_Header (r\<lparr>LogRecord.prev_lsn := Transaction.prev_lsn (d_txn w)\<rparr>)))) w)
       (\<lambda>(l, _) w. (Inr (), upd_txn (\<lambda>t. t\<lparr>Transaction.prev_lsn := l\<rparr>) w))"

text \<open>
  For a null pointer a new transaction is made; \<open>mode\<close> and \<open>ts\<close> are what its fields without initialiser hold. The database then has
  the transaction that was begun. Both counters are atomic 32-bit integers.
\<close>

definition txn_begin :: "bool \<Rightarrow> int \<Rightarrow> Transaction option \<Rightarrow> txn_manager \<Rightarrow> database \<Rightarrow> (unit, txn_manager \<times> database) res" where
  "txn_begin mode ts txn tm w =
     (case (case txn of
              None \<Rightarrow>
                (case on_pool (on_log flush_log_to_disk) w of
                   (Inl e, w) \<Rightarrow> (Inl e, (tm\<lparr>next_txn_id := to_int32 (next_txn_id tm + 1)\<rparr>, w))
                 | (Inr _, w) \<Rightarrow>
                     let txn_id = next_txn_id tm; t = (Transaction_init txn_id mode ts)\<lparr>start_ts := next_timestamp tm, t_state := GROWING\<rparr>
                     in (Inr (), (tm\<lparr>next_txn_id := to_int32 (next_txn_id tm + 1), next_timestamp := to_int32 (next_timestamp tm + 1),
                            txn_map := (txn_map tm)(txn_id \<mapsto> t)\<rparr>, w\<lparr>d_txn := t\<rparr>)))
            | Some t \<Rightarrow>
                let t = t\<lparr>t_state := GROWING\<rparr>
                in (Inr (), (tm\<lparr>txn_map := (txn_map tm)(t_id t \<mapsto> t)\<rparr>, w\<lparr>d_txn := t\<rparr>))) of
        (Inl e, s) \<Rightarrow> (Inl e, s)
      | (Inr _, (tm, w)) \<Rightarrow> (case log_header (BeginLogRecord_init (t_id (d_txn w))) w of (r, w) \<Rightarrow> (r, (tm, w))))"

section \<open>Releasing the locks\<close>

fun unlock_all :: "lock_answers \<Rightarrow> LockDataId list \<Rightarrow> database \<Rightarrow> (unit, database) res" where
  "unlock_all lk [] w = (Inr (), w)"
| "unlock_all lk (l # ls) w = bindE (call_lock lk (Unlock l) w) (\<lambda>_ w. unlock_all lk ls w)"

definition release_locks :: "lock_answers \<Rightarrow> database \<Rightarrow> (unit, database) res" where
  "release_locks lk w = bindE (unlock_all lk (lock_set (d_txn w)) w) (\<lambda>_ w. (Inr (), upd_txn (\<lambda>t. t\<lparr>lock_set := []\<rparr>) w))"

definition has_log :: "database \<Rightarrow> bool" where
  "has_log w \<longleftrightarrow> log_mgr (sm_pool (d_sm w)) \<noteq> None"

section \<open>Commit\<close>

definition txn_commit :: "lock_answers \<Rightarrow> database \<Rightarrow> (unit, database) res" where
  "txn_commit lk w =
     (let w = upd_txn (\<lambda>t. t\<lparr>write_set := []\<rparr>) w
      in bindE (release_locks lk w)
           (\<lambda>_ w. bindE (if has_log w then log_header (CommitLogRecord_init (t_id (d_txn w))) w else (Inr (), w))
              (\<lambda>_ w. (Inr (), upd_txn (\<lambda>t. t\<lparr>t_state := COMMITTED\<rparr>) w))))"

section \<open>Abort\<close>

definition set_aborted :: "string \<Rightarrow> database \<Rightarrow> database" where
  "set_aborted n w = w\<lparr>d_ihs := (d_ihs w)(n := map_option (\<lambda>io. io\<lparr>index_aborted := True\<rparr>) (d_ihs w n))\<rparr>"

fun gaps_all :: "lock_answers \<Rightarrow> LockDataId list \<Rightarrow> database \<Rightarrow> (unit, database) res" where
  "gaps_all lk [] w = (Inr (), w)"
| "gaps_all lk (l # ls) w = bindE (call_lock lk (Calculate_gaps_on_table l) w) (\<lambda>_ w. gaps_all lk ls w)"

text \<open>The loop over the indexes, \<open>f\<close> the operation on one of them, and the gaps of every lock.\<close>

fun undo_indexes :: "(IndexMeta \<Rightarrow> ix_index \<Rightarrow> (unit, ix_index) run) \<Rightarrow> string \<Rightarrow> IndexMeta list \<Rightarrow> database \<Rightarrow> (unit, database) run" where
  "undo_indexes f tab_name [] w = Some (Inr (), w)"
| "undo_indexes f tab_name (index # indexes) w =
     bindR (on_index (index_name tab_name index) (f index) w)
       (\<lambda>_ w. undo_indexes f tab_name indexes (set_aborted (index_name tab_name index) w))"

definition undo_keys :: "lock_answers \<Rightarrow> (IndexMeta \<Rightarrow> ix_index \<Rightarrow> (unit, ix_index) run) \<Rightarrow> string \<Rightarrow> IndexMeta list \<Rightarrow> database \<Rightarrow> (unit, database) run" where
  "undo_keys lk f tab_name indexes w =
     (if indexes = [] then Some (Inr (), w)
      else bindR (undo_indexes f tab_name indexes w) (\<lambda>_ w. Some (gaps_all lk (lock_set (d_txn w)) w)))"

definition void :: "('a, 'w) run \<Rightarrow> (unit, 'w) run" where
  "void r = bindR r (\<lambda>_ w. Some (Inr (), w))"

definition with_key :: "rmdb_error + bytes \<Rightarrow> (bytes \<Rightarrow> ix_index \<Rightarrow> (unit, ix_index) run) \<Rightarrow> ix_index \<Rightarrow> (unit, ix_index) run" where
  "with_key k f ix = (case k of Inl e \<Rightarrow> Some (Inl e, ix) | Inr key \<Rightarrow> f key ix)"

text \<open>\<open>insert_entry\<close> in a \<open>try\<close> that ignores a duplicate key.\<close>

definition insert_entry_try :: "bytes \<Rightarrow> Rid \<Rightarrow> ix_index \<Rightarrow> (unit, ix_index) run" where
  "insert_entry_try key rid ix =
     (case void (insert_entry key rid ix) of Some (Inl IndexEntryExistsError, ix) \<Rightarrow> Some (Inr (), ix) | r \<Rightarrow> r)"

text \<open>\<open>fhs_[name]\<close> makes an entry for a name that has none, with a null pointer.\<close>

definition on_tab_ptr :: "string \<Rightarrow> (rm_file \<Rightarrow> ('a, rm_file) res) \<Rightarrow> database \<Rightarrow> ('a, database) res" where
  "on_tab_ptr t f w = (if sm_fhs (d_sm w) t = None then (Inl NullDereference, w) else on_tab t f w)"

definition undo_write :: "lock_answers \<Rightarrow> bytes \<Rightarrow> WriteRecord \<Rightarrow> database \<Rightarrow> (unit, database) run" where
  "undo_write lk mem wr w =
     (let tab_name = wr_tab_name wr; rid = wr_rid wr
      in case get_table (sm_db (d_sm w)) tab_name of
           Inl e \<Rightarrow> Some (Inl e, w)
         | Inr tab \<Rightarrow>
             if wr_record wr = None \<and> wr_record_old wr = None then Some (Inr (), w)
             else let indexes = tm_indexes tab; data = (case wr_record wr of None \<Rightarrow> [] | Some r \<Rightarrow> r); old = (case wr_record_old wr of None \<Rightarrow> [] | Some r \<Rightarrow> r)
                  in case wtype wr of
                       INSERT_TUPLE \<Rightarrow>
                         bindR (Some (on_tab_ptr tab_name (delete_record rid None) w))
                           (\<lambda>_ w. undo_keys lk (\<lambda>index. with_key (index_key mem tab index data) (\<lambda>key ix. void (delete_entry key ix))) tab_name indexes w)
                     | DELETE_TUPLE \<Rightarrow>
                         bindR (Some (on_tab_ptr tab_name (insert_record_at rid data) w))
                           (\<lambda>_ w. undo_keys lk (\<lambda>index. with_key (index_key mem tab index data) (\<lambda>key. insert_entry_try key rid)) tab_name indexes w)
                     | UPDATE_TUPLE \<Rightarrow>
                         bindR (undo_keys lk (\<lambda>index. with_key (index_key mem tab index old) (\<lambda>old_key. with_key (index_key mem tab index data)
                                  (\<lambda>new_key ix. void (exchange_key new_key old_key rid ix)))) tab_name indexes w)
                           (\<lambda>_ w. if wr_record_old wr = None then Some (Inl NullDereference, w)
                                  else Some (on_tab_ptr tab_name (update_record rid old None) w)))"

text \<open>The write set is emptied from its end.\<close>

function undo_writes :: "lock_answers \<Rightarrow> bytes \<Rightarrow> WriteRecord list \<Rightarrow> database \<Rightarrow> (unit, database) run" where
  "undo_writes lk mem ws w =
     (if ws = [] then Some (Inr (), upd_txn (\<lambda>t. t\<lparr>write_set := []\<rparr>) w)
      else bindR (undo_write lk mem (last ws) (upd_txn (\<lambda>t. t\<lparr>write_set := butlast ws\<rparr>) w)) (\<lambda>_ w. undo_writes lk mem (butlast ws) w))"
  by pat_completeness auto

termination
  by (relation "measure (\<lambda>(lk, mem, ws, w). length ws)") auto

declare undo_writes.simps [simp del]

definition txn_abort :: "lock_answers \<Rightarrow> bytes \<Rightarrow> database \<Rightarrow> (unit, database) run" where
  "txn_abort lk mem w =
     bindR (undo_writes lk mem (write_set (d_txn w)) w)
       (\<lambda>_ w. bindR (Some (release_locks lk w))
          (\<lambda>_ w. bindR (Some (if has_log w then log_header (AbortLogRecord_init (t_id (d_txn w))) w else (Inr (), w)))
             (\<lambda>_ w. Some (Inr (), upd_txn (\<lambda>t. t\<lparr>t_state := ABORTED\<rparr>) w))))"

end
