(* ===== verification/PoolLog.thy ===== *)
theory PoolLog
  imports RmRecords
begin

text \<open>
  The pool and the log: reading, creating and releasing pages, and the operations on records, leave what was logged as it is. The
  pool may flush the log before it writes a page; the log as a whole, the file and then the buffer, stays the same, and so does
  the next sequence number.
\<close>

section \<open>The log that a pool shares\<close>

definition log_view :: "bpm \<Rightarrow> nat \<times> (int \<times> bytes) option" where
  "log_view b = (px_max_file (os (disk b)), map_option (\<lambda>lm. (global_lsn lm, log_stream (lm, disk b))) (log_mgr b))"

lemma log_view_cong:
  assumes "log_mgr b' = log_mgr b" and "log_file (disk b') = log_file (disk b)" and "px_max_file (os (disk b')) = px_max_file (os (disk b))"
  shows "log_view b' = log_view b"
  using assms by (simp add: log_view_def log_stream_def)

lemma log_view_untouched [simp]:
  "log_view (b\<lparr>free_list := fl\<rparr>) = log_view b" "log_view (b\<lparr>replacer := r\<rparr>) = log_view b" "log_view (b\<lparr>page_table := t\<rparr>) = log_view b"
  "log_view (b\<lparr>pages := ps\<rparr>) = log_view b" "log_view (upd_page f g b) = log_view b" "log_view (set_data f c b) = log_view b"
  "log_view (pin_frame f b) = log_view b" "log_view (b\<lparr>disk := (disk b)\<lparr>fd2pageno := m\<rparr>\<rparr>) = log_view b"
  by (auto intro!: log_view_cong simp: upd_page_def set_data_def pin_frame_def Let_def log_file_def)

lemma flush_log_view:
  assumes "env_ok b" and "flush_log b = (r, b')"
  shows "log_view b' = log_view b"
proof (cases "log_mgr b")
  case None
  then show ?thesis using assms(2) by (simp add: flush_log_def)
next
  case (Some lm)
  obtain x lm' d' where f: "flush_log_to_disk (lm, disk b) = (x, (lm', d'))" by (metis prod.exhaust)
  have "log_inv (lm, disk b)" using assms(1) Some by (simp add: env_ok_def)
  from flush_log_inv [OF this f] show ?thesis using assms(2) Some f by (auto simp: flush_log_def log_view_def pages_kept_def)
qed

lemma write_page_view:
  assumes d: "disk_inv d" and fd: "data_fd d fd" and w: "write_page fd n c d = (r, d')"
  shows "log_file d' = log_file d" "px_max_file (os d') = px_max_file (os d)"
proof -
  from fd obtain p where p: "fd2path d fd = Some p" "p \<noteq> LOG_FILE_NAME" by (auto simp: data_fd_def)
  then obtain pos where pos: "px_fds (os d) fd = Some (p, pos)" using d by (auto elim: disk_inv_openD)
  show "log_file d' = log_file d" "px_max_file (os d') = px_max_file (os d)"
    using w p(2) pos by (auto simp: write_page_def px_lseek_set_def px_write_def log_file_def Let_def split: if_splits option.splits prod.splits)
qed

lemma read_page_view: "read_page fd n k d = (r, d') \<Longrightarrow> log_file d' = log_file d \<and> px_max_file (os d') = px_max_file (os d)"
  by (auto simp: read_page_def px_lseek_set_def px_read_def log_file_def Let_def split: if_splits option.splits prod.splits)

lemma write_out_view:
  assumes "disk_inv (disk b)" and "data_fd (disk b) (pid_fd p)"
  shows "log_view (snd (write_out p c b)) = log_view b"
  using write_page_view [OF assms] by (auto intro!: log_view_cong simp: write_out_def split: prod.split)

lemma update_page_view:
  assumes b: "detached f b" and u: "update_page f p b = (r, b')"
  shows "log_view b' = log_view b"
proof -
  have env: "env_ok b" and t: "table_ok b" using b by (simp_all add: detached_def)
  let ?s1 = "case log_mgr b of None \<Rightarrow> (Inr (), b) | Some lm \<Rightarrow> if get_page_lsn (pages b ! f) > get_persist_lsn lm then flush_log b else (Inr (), b)"
  obtain lm d where fl: "flush_log b = (Inr (), b\<lparr>log_mgr := lm, disk := d\<rparr>)" "env_ok (b\<lparr>log_mgr := lm, disk := d\<rparr>)" "disk_mono {} (disk b) d"
    using env by (rule flush_log_mono)
  obtain b1 where s1: "?s1 = (Inr (), b1)" "env_ok b1" "disk_mono {} (disk b) (disk b1)" "log_view b1 = log_view b" "pages b1 = pages b"
  proof (cases "\<exists>lm. log_mgr b = Some lm \<and> get_page_lsn (pages b ! f) > get_persist_lsn lm")
    case True
    then show thesis using fl flush_log_view [OF env fl(1)] by (intro that [of "b\<lparr>log_mgr := lm, disk := d\<rparr>"]) auto
  next
    case False
    then show thesis using env by (intro that [of b]) (auto split: option.splits)
  qed
  have "log_view b' = log_view b1"
  proof (cases "pg_dirty (pages b ! f)")
    case False
    then show ?thesis using u s1(1,5) by (auto simp: update_page_def Let_def)
  next
    case True
    then obtain q where "(q, f) \<in> set (page_table b)" using b by (auto simp: detached_def)
    then have "pg_id (pages b ! f) = q" "valid_pid (disk b) q" using table_okD [OF t] by simp_all
    then have v: "data_fd (disk b1) (pid_fd (pg_id (pages b ! f)))" using disk_mono_valid [OF s1(3)] by (auto simp: valid_pid_def)
    obtain x b2 where w: "write_out (pg_id (pages b ! f)) (pg_data (pages b ! f)) b1 = (x, b2)" by force
    then have "log_view b2 = log_view b1" using write_out_view [OF _ v, of "pg_data (pages b ! f)"] s1(2) by (auto simp: env_ok_def)
    then show ?thesis using u s1(1,5) True w by (cases x) (auto simp: update_page_def Let_def)
  qed
  then show ?thesis using s1(4) by simp
qed

lemma fetch_page_view:
  assumes b: "bpm_inv b" and f: "fetch_page p b = (r, b')"
  shows "log_view b' = log_view b"
proof (cases "map_of (page_table b) p")
  case (Some g)
  then show ?thesis using f by (auto simp: fetch_page_def)
next
  case None
  from b show ?thesis
  proof (cases rule: find_victim_cases)
    case none
    then show ?thesis using f None by (auto simp: fetch_page_def)
  next
    case (some g fl rp)
    obtain x b2 where u: "update_page g p (b\<lparr>free_list := fl, replacer := rp\<rparr>) = (x, b2)" by force
    have v: "log_view b2 = log_view b" using update_page_view [OF some(2) u] by simp
    obtain y d where rd: "read_page (pid_fd p) (pid_no p) PAGE_SIZE (disk b2) = (y, d)" by force
    have "log_view (b2\<lparr>disk := d\<rparr>) = log_view b2" using read_page_view [OF rd] by (intro log_view_cong) simp_all
    then show ?thesis using f None some(1) u rd v by (cases x; cases y) (auto simp: fetch_page_def)
  qed
qed

lemma unpin_page_view: "log_view (snd (unpin_page p dirty b)) = log_view b"
  by (auto simp: unpin_page_def Let_def split: option.split)

lemma new_page_view:
  assumes b: "bpm_inv b" and fd: "data_fd (disk b) fd" and v: "map_of (page_table b) (PageId fd (fd2pageno (disk b) fd)) = None"
      "valid_pid (disk b) (PageId fd (fd2pageno (disk b) fd))"
    and n: "new_page fd b = (r, b')"
  shows "log_view b' = log_view b"
  using b
proof (cases rule: find_victim_cases)
  case none
  then show ?thesis using n by (auto simp: new_page_def)
next
  case (some g fl rp)
  obtain x d where al: "allocate_page fd (disk b) = (x, d)" by force
  then have "d = (disk b)\<lparr>fd2pageno := fd2pageno d\<rparr>" and k: "\<And>k. x = Inr k \<Longrightarrow> k = fd2pageno (disk b) fd"
    by (auto simp: allocate_page_def split: if_splits)
  then obtain m where d: "d = (disk b)\<lparr>fd2pageno := m\<rparr>" "\<And>k. x = Inr k \<Longrightarrow> k = fd2pageno (disk b) fd" by blast
  let ?b = "b\<lparr>free_list := fl, replacer := rp, disk := d\<rparr>"
  show ?thesis
  proof (cases x)
    case (Inl e)
    then have "b' = ?b" using n some(1) al by (auto simp: new_page_def)
    then show ?thesis using d(1) by (intro log_view_cong) (simp_all add: log_file_def)
  next
    case (Inr k)
    have det: "detached g ?b" using detached_alloc [OF some(2), of m] d(1) by simp
    obtain y b2 where u: "update_page g (PageId fd k) ?b = (y, b2)" by force
    have "map_of (page_table ?b) (PageId fd k) = None" "valid_pid (disk ?b) (PageId fd k)" using v d Inr by simp_all
    from take_frame [OF det this] u have r: "ready g (PageId fd k) b2" "pool_frame {PageId fd k} ?b b2" "y = Inr ()" by (metis prod.inject)+
    have "log_view ?b = log_view b" using d(1) by (intro log_view_cong) (simp_all add: log_file_def)
    then have v2: "log_view b2 = log_view b" using update_page_view [OF det u] by simp
    have "data_fd (disk ?b) fd" using fd d(1) by (simp add: data_fd_def)
    then have "data_fd (disk b2) fd" "disk_inv (disk b2)" using r data_fd_frame [OF r(2)] by (simp_all add: ready_def env_ok_def)
    then have w: "log_view (snd (write_out (PageId fd k) c (pin_frame g b2))) = log_view b" for c
      using write_out_view [of "pin_frame g b2" "PageId fd k"] v2 by simp
    show ?thesis
    proof (cases "write_out (PageId fd k) (pg_data (pages (pin_frame g b2) ! g)) (pin_frame g b2)")
      case (Pair z b3)
      then show ?thesis using n some(1) al Inr u r(3) w [of "pg_data (pages (pin_frame g b2) ! g)"]
        by (cases z) (auto simp: new_page_def Let_def)
    qed
  qed
qed

section \<open>Records\<close>

lemma rm_view_simps [simp]:
  "log_view (pool (put_bytes f c rm)) = log_view (pool rm)" "log_view (pool (set_first_free n rm)) = log_view (pool rm)"
  "log_view (pool (unpin n dirty rm)) = log_view (pool rm)" "log_view (pool (stamp_lsn ctx f rm)) = log_view (pool rm)"
  by (simp_all add: put_bytes_def set_first_free_def unpin_def unpin_page_view stamp_lsn_def split: option.split)

lemma write_hdr_view:
  assumes r: "holds m rm0 n f c rm" and fd: "data_fd (disk (pool rm0)) (rm_fd rm0)"
  shows "log_view (pool (snd (write_hdr rm))) = log_view (pool rm)"
proof -
  have "bpm_inv (pool rm)" "rm_fd rm = rm_fd rm0" "pool_frame {pid_of rm0 n, pid_of rm0 0} (pool rm0) (pool rm)" using r by (auto simp: holds_def)
  then have "disk_inv (disk (pool rm))" "data_fd (disk (pool rm)) (rm_fd rm)" using data_fd_frame fd by (auto simp: bpm_inv_def env_ok_def)
  then show ?thesis using write_out_view [of "pool rm" "PageId (rm_fd rm) RM_FILE_HDR_PAGE" "RmFileHdr_bytes (file_hdr rm)"]
    by (auto simp: write_hdr_def lift_pool_def split: prod.split)
qed

lemma fetch_handle_view:
  assumes "rm_inv rm" and "fetch_page_handle n rm = (r, rm')"
  shows "log_view (pool rm') = log_view (pool rm)"
  using assms fetch_page_view by (auto simp: fetch_page_handle_def lift_pool_def rm_inv_def pool_side_def split: prod.splits)

lemma create_page_view:
  assumes i: "rm_inv rm" and lim: "num_pages (file_hdr rm) < 2 ^ 19" and c: "create_page_handle rm = (r, rm')"
  shows "log_view (pool rm') = log_view (pool rm)"
proof (cases "first_free_page_no (file_hdr rm) = - 1")
  case False
  then show ?thesis using fetch_handle_view [OF i] c by (simp add: create_page_handle_def)
next
  case True
  note w = rm_invD [OF i]
  let ?n = "num_pages (file_hdr rm)"
  have ok: "page_ok ?n" "?n \<noteq> 0" using lim file_wfD(2) [OF w(2)] by (auto simp: page_ok_def)
  obtain f b1 where f: "new_page (rm_fd rm) (pool rm) = (Inr (Some (pid_of rm ?n, f)), b1)"
    and h: "holds ((fd2pageno (disk (pool rm)))(rm_fd rm := ?n + 1)) rm ?n f (memset PAGE_SIZE 0) (rm\<lparr>pool := b1\<rparr>)"
    using holds_new [OF w(1) refl ok] by metis
  have "map_of (page_table (pool rm)) (pid_of rm ?n) = None" using w(1) by (rule not_resident) (simp add: data_pages_def)
  then have v1: "log_view b1 = log_view (pool rm)"
    using new_page_view [OF _ w(4) _ _ f] w(1,5) ok by (simp add: pool_side_def valid_pid_def)
  let ?z = "set_next_free RM_NO_PAGE (set_num_records 0 (memset PAGE_SIZE 0))"
  let ?c = "bm_init bitmap_off (bm_size (file_hdr rm)) ?z"
  let ?rmb = "(put_bytes f ?c (rm\<lparr>pool := b1\<rparr>))\<lparr>file_hdr := (file_hdr rm)\<lparr>first_free_page_no := ?n, num_pages := ?n + 1\<rparr>\<rparr>"
  have "length ?c = PAGE_SIZE" using page_slot_init(2) [OF w(3), of ?z] by simp
  then have hb: "holds ((fd2pageno (disk (pool rm)))(rm_fd rm := ?n + 1)) rm ?n f ?c ?rmb" using holds_put [OF h] by simp
  have "rm' = snd (write_hdr ?rmb)"
  proof -
    obtain rm3 where "write_hdr ?rmb = (Inr (), rm3)" using hb w(4) by (rule holds_write_hdr)
    then show ?thesis using c f True holdsD(1) [OF h]
      by (simp add: create_page_handle_def create_new_page_handle_def lift_pool_def Let_def set_first_free_def)
  qed
  then show ?thesis using write_hdr_view [OF hb w(4)] v1 by (simp add: put_bytes_def)
qed

lemma retire_view:
  assumes r: "holds m rm0 n f c rm" and fd: "data_fd (disk (pool rm0)) (rm_fd rm0)" and len: "length c = PAGE_SIZE" and x: "retire_if_full f rm = (y, rm')"
  shows "log_view (pool rm') = log_view (pool rm)"
proof -
  let ?e = "set_next_free RM_NO_PAGE c" and ?rm = "set_first_free (get_next_free c) rm"
  have h: "holds m rm0 n f c ?rm" using r by (simp add: set_first_free_def)
  then have "holds m rm0 n f ?e (put_bytes f ?e ?rm)" by (rule holds_put) (use len in simp)
  from write_hdr_view [OF this fd] show ?thesis
    using x holdsD(1) [OF r] holdsD(1) [OF h] by (auto simp: retire_if_full_def Let_def split: if_splits)
qed

lemma insert_record_view:
  assumes i: "rm_inv rm" and b: "length buf = rec_size (file_hdr rm)" and lim: "num_pages (file_hdr rm) < 2 ^ 19"
    and r: "insert_record buf ctx rm = (Inr rid, rm')"
  shows "log_view (pool rm') = log_view (pool rm)"
proof -
  obtain m n f h g rm1 where cr: "create_page_handle rm = (Inr (Some f), rm1)" and wk: "working m rm n f h g rm1"
    and n: "n = first_free_page_no h" "has_room h (g n)" using create_page_ok [OF i lim] by metis
  note wd = workingD [OF wk]
  have v1: "log_view (pool rm1) = log_view (pool rm)" using create_page_view [OF i lim cr] .
  have "length buf = rec_size h" using b wd(14) by simp
  note ins = page_insert_ok [OF wd(9,10) n(2) this]
  let ?c = "page_insert h buf (g n)"
  have len: "length ?c = PAGE_SIZE" using ins(2) by (simp add: page_wf_def)
  have r2: "holds m rm n f ?c (put_bytes f ?c rm1)" using wd(1) len by (rule holds_put)
  obtain x rm3 where rt: "retire_if_full f (put_bytes f ?c rm1) = (x, rm3)" by force
  have v3: "log_view (pool rm3) = log_view (pool rm)" using retire_view [OF r2 rm_invD(4) [OF i] len rt] v1 by simp
  then show ?thesis using r cr wd(3,12) rt
    by (cases x) (auto simp: insert_record_def use_page_def Let_def page_insert_def)
qed

end
