(* ===== verification/Atomicity.thy ===== *)
theory Atomicity
  imports TxnManager PoolLog
begin

text \<open>
  Atomicity: what a transaction wrote is undone when it aborts. The statements are INSERT and the rows of UPDATE on tables
  without indexes; a DELETE is left out because its undo loses the record count of the page.
\<close>

section \<open>Logging leaves the tables as they are\<close>

lemma add_log_total:
  assumes "log_inv s"
  obtains l r' s' where "add_log_to_buffer r s = (Inr (l, r'), s')" and "pages_kept (snd s) (snd s')"
proof -
  obtain lm d where s: "s = (lm, d)" by force
  obtain e lm1 d1 where f: "flush_log_to_disk (lm, d) = (e, (lm1, d1))" by (metis prod.exhaust)
  have k: "e = Inr ()" "pages_kept d d1" using flush_log_inv [OF _ f] assms s by simp_all
  show thesis
  proof (cases "is_full (log_buffer lm) (log_tot_len (header r))")
    case True
    then show thesis using f k s by (intro that) (auto simp: add_log_to_buffer_def Let_def)
  next
    case False
    then show thesis using s by (intro that) (auto simp: add_log_to_buffer_def Let_def)
  qed
qed

lemma bpm_inv_env:
  assumes b: "bpm_inv b" and e: "env_ok (b\<lparr>log_mgr := lm, disk := d\<rparr>)" and m: "disk_mono {} (disk b) d"
  shows "bpm_inv (b\<lparr>log_mgr := lm, disk := d\<rparr>)"
proof -
  note i = bpm_invD [OF b]
  have "table_ok (b\<lparr>disk := d\<rparr>)" "sync_ok {} (b\<lparr>disk := d\<rparr>)" using table_ok_mono [OF i(3) m] sync_ok_mono [OF i(3,6) m] by auto
  then show ?thesis
    using i e by (simp add: bpm_inv_def frames_ok_def table_ok_def free_ok_def repl_ok_def sync_ok_def)
qed

lemma sm_env:
  assumes i: "sm_inv sm" and m: "disk_mono {} (disk (sm_pool sm)) d"
  shows "table_map (sm\<lparr>sm_pool := (sm_pool sm)\<lparr>log_mgr := lm, disk := d\<rparr>\<rparr>) = table_map sm"
    and "env_ok ((sm_pool sm)\<lparr>log_mgr := lm, disk := d\<rparr>) \<Longrightarrow> sm_same sm (sm\<lparr>sm_pool := (sm_pool sm)\<lparr>log_mgr := lm, disk := d\<rparr>\<rparr>)"
proof -
  have s: "pool_side (handle fh (sm_pool sm))" if "sm_fhs sm t = Some fh" for t fh using sm_invD [OF i that] by (simp add: rm_inv_def)
  then have "data_fd d (fst fh)" if "sm_fhs sm t = Some fh" for t fh
    using that m by (fastforce simp: pool_side_def data_fd_def disk_mono_def map_le_def dom_def)
  then have f: "data_fd d (fst fh) \<and> fd2pageno d (fst fh) = fd2pageno (disk (sm_pool sm)) (fst fh) \<and>
       (\<forall>n c. page_ok n \<longrightarrow> dpage (disk (sm_pool sm)) (PageId (fst fh) n) = Some c \<longrightarrow> dpage d (PageId (fst fh) n) = Some c)"
    if "sm_fhs sm t = Some fh" for t fh using that m by (simp add: disk_mono_def)
  show "table_map (sm\<lparr>sm_pool := (sm_pool sm)\<lparr>log_mgr := lm, disk := d\<rparr>\<rparr>) = table_map sm" using sm_env_files(1) [OF i f] .
  show "sm_same sm (sm\<lparr>sm_pool := (sm_pool sm)\<lparr>log_mgr := lm, disk := d\<rparr>\<rparr>)" if "env_ok ((sm_pool sm)\<lparr>log_mgr := lm, disk := d\<rparr>)"
    using bpm_inv_env [OF _ that m] s by (intro sm_env_files(2) [OF i f]) (auto simp: pool_side_def)
qed

section \<open>Tables without indexes\<close>

definition plain_table :: "bytes \<Rightarrow> database \<Rightarrow> string \<Rightarrow> TabMeta \<Rightarrow> bool" where
  "plain_table mem w t tab \<longleftrightarrow> get_table (sm_db (d_sm w)) t = Inr tab \<and> tm_name tab = t \<and> tm_indexes tab = [] \<and>
     (\<exists>fh. sm_fhs (d_sm w) t = Some fh \<and> rec_size (snd fh) \<le> length mem \<and>
        (\<forall>c \<in> set (tm_cols tab). nat (cm_offset c) + nat (cm_len c) \<le> rec_size (snd fh)))"

definition rec_sizes :: "database \<Rightarrow> string \<Rightarrow> nat option" where
  "rec_sizes w t = map_option (\<lambda>fh. rec_size (snd fh)) (sm_fhs (d_sm w) t)"

text \<open>The lock manager does not touch the write set, and unlocking succeeds.\<close>

definition quiet_locks :: "lock_answers \<Rightarrow> bool" where
  "quiet_locks lk \<longleftrightarrow> (\<forall>c t. write_set (snd (lk c t)) = write_set t) \<and> (\<forall>l t. fst (lk (Unlock l) t) = Inr ())"

lemma call_lock_ok:
  assumes "quiet_locks lk"
  obtains r t where "call_lock lk c w = (r, w\<lparr>d_txn := t\<rparr>)" and "write_set t = write_set (d_txn w)" and "\<And>l. c = Unlock l \<Longrightarrow> r = Inr ()"
proof -
  obtain r t where l: "lk c (d_txn w) = (r, t)" by force
  then have "write_set t = write_set (d_txn w)" "\<And>l. c = Unlock l \<Longrightarrow> r = Inr ()"
    using assms unfolding quiet_locks_def by (metis snd_conv, metis fst_conv)
  then show thesis using l by (intro that [of r t]) (simp_all add: call_lock_def)
qed

text \<open>An operation on one table file.\<close>

lemma on_tab_ok:
  assumes i: "sm_inv (d_sm w)" and fh: "sm_fhs (d_sm w) t = Some fh" and f: "f (handle fh (sm_pool (d_sm w))) = (r, rm)"
    and rm: "rm_inv rm" and o: "others_kept (handle fh (sm_pool (d_sm w))) rm" and s: "record_size (file_hdr rm) = record_size (snd fh)"
  obtains sm where "on_tab t f w = (r, w\<lparr>d_sm := sm\<rparr>)" and "sm_inv sm" and "sm_db sm = sm_db (d_sm w)"
    and "table_map sm = (table_map (d_sm w))(t := rm_map rm)" and "rec_sizes (w\<lparr>d_sm := sm\<rparr>) = rec_sizes w"
    and "\<exists>fh. sm_fhs sm t = Some fh"
proof -
  obtain sm where sm: "on_table t f (d_sm w) = (r, sm)" "sm_inv sm" "sm_db sm = sm_db (d_sm w)" "table_map sm = (table_map (d_sm w))(t := rm_map rm)"
    "sm_fhs sm = (sm_fhs (d_sm w))(t \<mapsto> (rm_fd rm, file_hdr rm))" by (rule on_table_ok [where f = f, OF i fh f rm o])
  have "rec_sizes (w\<lparr>d_sm := sm\<rparr>) = rec_sizes w" using sm(5) fh s by (simp add: rec_sizes_def fun_eq_iff)
  then show thesis using sm by (intro that [of sm]) (simp_all add: on_tab_def lift_sm_def)
qed

text \<open>The database, and that it may write its log.\<close>

definition db_ok :: "database \<Rightarrow> bool" where
  "db_ok w \<longleftrightarrow> sm_inv (d_sm w) \<and> env_ok (sm_pool (d_sm w))"

text \<open>A change of the database that leaves the tables as they are.\<close>

definition db_same :: "database \<Rightarrow> database \<Rightarrow> bool" where
  "db_same w w' \<longleftrightarrow> table_map (d_sm w') = table_map (d_sm w) \<and> sm_db (d_sm w') = sm_db (d_sm w) \<and> rec_sizes w' = rec_sizes w \<and>
     (env_ok (sm_pool (d_sm w')) \<longrightarrow> sm_inv (d_sm w'))"

lemma add_log_db:
  assumes w: "db_ok w"
  shows "\<exists>x w'. on_pool (on_log (add_log_to_buffer r)) w = (x, w') \<and> (has_log w \<longrightarrow> (\<exists>l. x = Inr l)) \<and> db_same w w' \<and> d_txn w' = d_txn w"
proof (cases "log_mgr (sm_pool (d_sm w))")
  case None
  then show ?thesis using w by (auto simp: on_pool_def on_log_def db_same_def db_ok_def has_log_def)
next
  case (Some lm)
  let ?b = "sm_pool (d_sm w)"
  have "log_inv (lm, disk ?b)" using w Some by (simp add: db_ok_def env_ok_def)
  then obtain n r' lm' d where a: "add_log_to_buffer r (lm, disk ?b) = (Inr (n, r'), (lm', d))" "pages_kept (disk ?b) d" by (rule add_log_total) auto
  have i: "sm_inv (d_sm w)" using w by (simp add: db_ok_def)
  note keep = sm_env [OF i pages_kept_mono [OF a(2)], where lm = "Some lm'"]
  have "on_pool (on_log (add_log_to_buffer r)) w = (Inr (n, r'), w\<lparr>d_sm := (d_sm w)\<lparr>sm_pool := ?b\<lparr>log_mgr := Some lm', disk := d\<rparr>\<rparr>\<rparr>)"
    using Some a(1) by (simp add: on_pool_def on_log_def)
  then show ?thesis using keep(1) sm_same_inv [OF keep(2)] by (simp add: db_same_def rec_sizes_def fun_eq_iff)
qed

lemma log_change_ok:
  assumes w: "db_ok w"
  obtains r w' where "log_change t mk w = (r, w')" and "db_same w w'" and "write_set (d_txn w') = write_set (d_txn w)"
proof (cases "log_lsn w = None \<or> sm_fhs (d_sm w) t = None")
  case True
  then show thesis using w by (intro that [of _ w]) (auto simp: log_change_def db_same_def db_ok_def split: option.splits)
next
  case False
  then obtain l fh where l: "log_lsn w = Some l" "sm_fhs (d_sm w) t = Some fh" by auto
  let ?w = "upd_txn (\<lambda>t. t\<lparr>Transaction.prev_lsn := l\<rparr>) w"
  let ?r = "mk (t_id (d_txn w)) (Transaction.prev_lsn (d_txn w)) (first_free_page_no (snd fh)) (num_pages (snd fh))"
  have "db_ok ?w" using w by (simp add: db_ok_def upd_txn_def)
  from add_log_db [OF this, of ?r] obtain x w' where a: "on_pool (on_log (add_log_to_buffer ?r)) ?w = (x, w')"
    "has_log ?w \<longrightarrow> (\<exists>l. x = Inr l)" "db_same ?w w'" "d_txn w' = d_txn ?w" by blast
  obtain y where "x = Inr y" using a(2) l(1) by (auto simp: has_log_def upd_txn_def log_lsn_def)
  then have "log_change t mk w = (Inr (), w')" using a(1) l by (simp add: log_change_def Let_def)
  moreover have "db_same w w'" using a(3) by (simp add: db_same_def upd_txn_def rec_sizes_def fun_eq_iff)
  ultimately show thesis using a(4) by (intro that [of "Inr ()" w']) (simp_all add: upd_txn_def)
qed

text \<open>The bytes of a record keep their length.\<close>

lemma init_raw_length:
  assumes "init_raw mem n v = (Inr (), v')" and "n \<le> length mem" and "v_raw v' = Some raw"
  shows "length (slice 0 n raw) = n"
  using assms by (auto simp: init_raw_def Let_def split: if_splits ColType.splits)

lemma put_values_length:
  "\<forall>c \<in> set cols. nat (cm_offset c) + nat (cm_len c) \<le> length rec \<Longrightarrow> length rec \<le> length mem \<Longrightarrow>
   put_values mem cols rec vals = (Inr rec', vals') \<Longrightarrow> length rec' = length rec"
proof (induction cols arbitrary: rec vals vals')
  case (Cons col cols)
  show ?case
  proof (cases vals)
    case (Cons val vs)
    with Cons.prems(3) obtain v v' raw vs' where c: "init_raw mem (nat (cm_len col)) v = (Inr (), v')" "v_raw v' = Some raw"
      "put_values mem cols (memcpy rec (nat (cm_offset col)) (slice 0 (nat (cm_len col)) raw)) vs = (Inr rec', vs')"
      by (auto split: sum.splits prod.splits option.splits)
    have "length (slice 0 (nat (cm_len col)) raw) = nat (cm_len col)" using init_raw_length [OF c(1) _ c(2)] Cons.prems(1,2) by simp
    then have "length (memcpy rec (nat (cm_offset col)) (slice 0 (nat (cm_len col)) raw)) = length rec" using Cons.prems(1) by (simp add: length_memcpy)
    then show ?thesis using Cons.IH [OF _ _ c(3)] Cons.prems(1,2) by simp
  qed (use Cons.prems in simp)
qed simp

lemma apply_sets_length:
  "\<forall>c \<in> set cols. nat (cm_offset c) + nat (cm_len c) \<le> length rec \<Longrightarrow> length rec \<le> length mem \<Longrightarrow>
   apply_sets mem cols cls rec = Inr rec' \<Longrightarrow> length rec' = length rec"
proof (induction cls arbitrary: rec)
  case (Cons cl cls)
  from Cons.prems(3) obtain col v raw where c: "find (\<lambda>col. cm_name col = tc_col (s_lhs cl)) cols = Some col"
    "init_raw mem (nat (cm_len col)) (s_rhs cl) = (Inr (), v)" "v_raw v = Some raw"
    "apply_sets mem cols cls (memcpy rec (nat (cm_offset col)) (slice 0 (nat (cm_len col)) raw)) = Inr rec'"
    by (auto split: option.splits prod.splits sum.splits)
  have "col \<in> set cols" using c(1) by (auto simp: find_Some_iff)
  then have fit: "nat (cm_offset col) + nat (cm_len col) \<le> length rec" using Cons.prems(1) by blast
  then have "length (slice 0 (nat (cm_len col)) raw) = nat (cm_len col)" using init_raw_length [OF c(2) _ c(3)] Cons.prems(2) by simp
  then have "length (memcpy rec (nat (cm_offset col)) (slice 0 (nat (cm_len col)) raw)) = length rec" using fit by (simp add: length_memcpy)
  then show ?case using Cons.IH [OF _ _ c(4)] Cons.prems by simp
qed simp

section \<open>What the write set says\<close>

text \<open>The undo of one write, on the maps of the tables.\<close>

type_synonym tables = "string \<Rightarrow> Rid \<rightharpoonup> bytes"

fun undo_map :: "WriteRecord \<Rightarrow> tables \<Rightarrow> tables" where
  "undo_map wr M = M(wr_tab_name wr := (M (wr_tab_name wr))(wr_rid wr := wr_record_old wr))"

text \<open>A write that can be undone: its table has no index, its record is there, and old bytes have the size of a record.\<close>

definition undoable :: "database \<Rightarrow> WriteRecord \<Rightarrow> bool" where
  "undoable w wr \<longleftrightarrow> wr_record wr \<noteq> None \<and> (\<exists>tab. get_table (sm_db (d_sm w)) (wr_tab_name wr) = Inr tab \<and> tm_indexes tab = []) \<and>
     (case wtype wr of
        INSERT_TUPLE \<Rightarrow> wr_record_old wr = None
      | DELETE_TUPLE \<Rightarrow> False
      | UPDATE_TUPLE \<Rightarrow> \<exists>old. wr_record_old wr = Some old \<and> rec_sizes w (wr_tab_name wr) = Some (length old))"

text \<open>Undoing the writes from the last to the first leads from the tables \<open>M\<close> to the tables \<open>M0\<close>.\<close>

fun undoes :: "WriteRecord list \<Rightarrow> tables \<Rightarrow> tables \<Rightarrow> bool" where
  "undoes [] M M0 \<longleftrightarrow> M = M0"
| "undoes (wr # ws) M M0 \<longleftrightarrow> M (wr_tab_name wr) (wr_rid wr) \<noteq> None \<and> undoes ws (undo_map wr M) M0"

lemma undoable_cong: "sm_db (d_sm w') = sm_db (d_sm w) \<Longrightarrow> rec_sizes w' = rec_sizes w \<Longrightarrow> undoable w' wr = undoable w wr"
  by (simp add: undoable_def split: WType.split)

lemma rec_sizes_txn [simp]: "rec_sizes (w\<lparr>d_txn := t\<rparr>) = rec_sizes w"
  by (simp add: rec_sizes_def fun_eq_iff)

lemma on_tab_db:
  assumes w: "db_ok w" and fh: "sm_fhs (d_sm w) t = Some fh" and f: "f (handle fh (sm_pool (d_sm w))) = (r, rm)"
    and rm: "rm_inv rm" and o: "others_kept (handle fh (sm_pool (d_sm w))) rm" and s: "record_size (file_hdr rm) = record_size (snd fh)"
  obtains sm where "on_tab t f w = (r, w\<lparr>d_sm := sm\<rparr>)" and "db_ok (w\<lparr>d_sm := sm\<rparr>)" and "sm_db sm = sm_db (d_sm w)"
    and "table_map sm = (table_map (d_sm w))(t := rm_map rm)" and "rec_sizes (w\<lparr>d_sm := sm\<rparr>) = rec_sizes w"
proof -
  have "sm_inv (d_sm w)" using w by (simp add: db_ok_def)
  from on_tab_ok [where f = f, OF this fh f rm o s] obtain sm where sm: "on_tab t f w = (r, w\<lparr>d_sm := sm\<rparr>)" "sm_inv sm" "sm_db sm = sm_db (d_sm w)"
    "table_map sm = (table_map (d_sm w))(t := rm_map rm)" "rec_sizes (w\<lparr>d_sm := sm\<rparr>) = rec_sizes w" "\<exists>fh. sm_fhs sm t = Some fh" by blast
  have "env_ok (sm_pool sm)" using sm(2,6) by (auto dest!: sm_invD simp: rm_inv_def pool_side_def bpm_inv_def)
  then show thesis using sm by (intro that [of sm]) (simp_all add: db_ok_def)
qed

lemma table_entry:
  assumes "db_ok w" and "table_map (d_sm w) t r = Some x"
  obtains fh where "sm_fhs (d_sm w) t = Some fh" and "rm_inv (handle fh (sm_pool (d_sm w)))" and "rm_map (handle fh (sm_pool (d_sm w))) r = Some x"
    and "table_map (d_sm w) t = rm_map (handle fh (sm_pool (d_sm w)))"
  using assms sm_invD [of "d_sm w" t] that by (auto simp: db_ok_def table_map_def split: option.splits)

lemma rm_map_length:
  assumes i: "rm_inv rm" and r: "rm_map rm r = Some x"
  shows "length x = rec_size (file_hdr rm)"
proof -
  note rp = rm_map_page [OF r]
  have "page_wf (file_hdr rm) (page_of rm (rid_page r))" "layout_ok (file_hdr rm)" using rm_invD(2,3) [OF i] rp(1) by (simp_all add: file_wf_def)
  then show ?thesis using rp(3) layout_fits(3) [of "file_hdr rm" "nat (rid_slot r)"] by (auto simp: page_slot_def page_wf_def split: if_splits)
qed

text \<open>Undoing a write on the tables does what it does on the maps.\<close>

lemma undo_write_ok:
  assumes w: "db_ok w" and u: "undoable w wr" and x: "table_map (d_sm w) (wr_tab_name wr) (wr_rid wr) = Some x"
  obtains sm where "undo_write lk mem wr w = Some (Inr (), w\<lparr>d_sm := sm\<rparr>)" and "db_ok (w\<lparr>d_sm := sm\<rparr>)" and "sm_db sm = sm_db (d_sm w)"
    and "table_map sm = undo_map wr (table_map (d_sm w))" and "rec_sizes (w\<lparr>d_sm := sm\<rparr>) = rec_sizes w"
proof -
  let ?t = "wr_tab_name wr" and ?r = "wr_rid wr"
  obtain tab where tab: "get_table (sm_db (d_sm w)) ?t = Inr tab" "tm_indexes tab = []" using u by (auto simp: undoable_def)
  obtain data where rec: "wr_record wr = Some data" using u by (auto simp: undoable_def)
  obtain fh where fh: "sm_fhs (d_sm w) ?t = Some fh" and i: "rm_inv (handle fh (sm_pool (d_sm w)))"
    and r: "rm_map (handle fh (sm_pool (d_sm w))) ?r = Some x" and m: "table_map (d_sm w) ?t = rm_map (handle fh (sm_pool (d_sm w)))"
    by (rule table_entry [OF w x])
  have un: "undo_map wr (table_map (d_sm w)) = (table_map (d_sm w))(?t := (rm_map (handle fh (sm_pool (d_sm w))))(?r := wr_record_old wr))" by (simp add: m)
  show thesis
  proof (cases "wtype wr")
    case INSERT_TUPLE
    from delete_record_ok [OF i r, of None] obtain rm where d: "delete_record ?r None (handle fh (sm_pool (d_sm w))) = (Inr (), rm)" "rm_inv rm"
      "rm_map rm = (rm_map (handle fh (sm_pool (d_sm w))))(?r := None)" "others_kept (handle fh (sm_pool (d_sm w))) rm"
      "record_size (file_hdr rm) = record_size (snd fh)" by auto
    from on_tab_db [where f = "delete_record ?r None", OF w fh d(1,2,4,5)] obtain sm where sm: "on_tab ?t (delete_record ?r None) w = (Inr (), w\<lparr>d_sm := sm\<rparr>)"
      "db_ok (w\<lparr>d_sm := sm\<rparr>)" "sm_db sm = sm_db (d_sm w)" "table_map sm = (table_map (d_sm w))(?t := rm_map rm)" "rec_sizes (w\<lparr>d_sm := sm\<rparr>) = rec_sizes w" .
    have "undo_write lk mem wr w = Some (Inr (), w\<lparr>d_sm := sm\<rparr>)"
      using tab rec INSERT_TUPLE fh sm(1) by (simp add: undo_write_def on_tab_ptr_def undo_keys_def Let_def)
    moreover have "wr_record_old wr = None" using u INSERT_TUPLE by (simp add: undoable_def)
    ultimately show thesis using sm(2-) un d(3) by (intro that [of sm]) simp_all
  next
    case UPDATE_TUPLE
    then obtain old where old: "wr_record_old wr = Some old" "length old = rec_size (file_hdr (handle fh (sm_pool (d_sm w))))"
      using u fh by (auto simp: undoable_def rec_sizes_def)
    from update_record_ok [OF i r old(2), of None] obtain rm where d: "update_record ?r old None (handle fh (sm_pool (d_sm w))) = (Inr (), rm)" "rm_inv rm"
      "rm_map rm = (rm_map (handle fh (sm_pool (d_sm w))))(?r \<mapsto> old)" "others_kept (handle fh (sm_pool (d_sm w))) rm"
      "record_size (file_hdr rm) = record_size (snd fh)" by auto
    from on_tab_db [where f = "update_record ?r old None", OF w fh d(1,2,4,5)] obtain sm where sm: "on_tab ?t (update_record ?r old None) w = (Inr (), w\<lparr>d_sm := sm\<rparr>)"
      "db_ok (w\<lparr>d_sm := sm\<rparr>)" "sm_db sm = sm_db (d_sm w)" "table_map sm = (table_map (d_sm w))(?t := rm_map rm)" "rec_sizes (w\<lparr>d_sm := sm\<rparr>) = rec_sizes w" .
    have "undo_write lk mem wr w = Some (Inr (), w\<lparr>d_sm := sm\<rparr>)"
      using tab rec UPDATE_TUPLE old(1) fh sm(1) by (simp add: undo_write_def on_tab_ptr_def undo_keys_def Let_def)
    then show thesis using sm(2-) un d(3) old(1) by (intro that [of sm]) simp_all
  qed (use u in \<open>simp add: undoable_def\<close>)
qed

lemma undo_writes_ok:
  assumes "db_ok w" and "\<forall>wr \<in> set ws. undoable w wr" and "undoes (rev ws) (table_map (d_sm w)) M0"
  shows "\<exists>sm. undo_writes lk mem ws w = Some (Inr (), w\<lparr>d_sm := sm, d_txn := (d_txn w)\<lparr>write_set := []\<rparr>\<rparr>) \<and> sm_inv sm \<and> env_ok (sm_pool sm) \<and> table_map sm = M0"
  using assms
proof (induction ws arbitrary: w rule: rev_induct)
  case Nil
  then show ?case by (intro exI [of _ "d_sm w"]) (simp add: undo_writes.simps upd_txn_def db_ok_def)
next
  case (snoc wr ws)
  let ?w = "upd_txn (\<lambda>t. t\<lparr>write_set := ws\<rparr>) w"
  obtain x where x: "table_map (d_sm ?w) (wr_tab_name wr) (wr_rid wr) = Some x" using snoc.prems(3) by (auto simp: upd_txn_def)
  have w: "db_ok ?w" "undoable ?w wr" using snoc.prems(1,2) undoable_cong [of ?w w] by (simp_all add: db_ok_def upd_txn_def)
  obtain sm where sm: "undo_write lk mem wr ?w = Some (Inr (), ?w\<lparr>d_sm := sm\<rparr>)" "db_ok (?w\<lparr>d_sm := sm\<rparr>)" "sm_db sm = sm_db (d_sm ?w)"
    "table_map sm = undo_map wr (table_map (d_sm ?w))" "rec_sizes (?w\<lparr>d_sm := sm\<rparr>) = rec_sizes ?w" by (rule undo_write_ok [OF w x])
  have "\<forall>wr \<in> set ws. undoable (?w\<lparr>d_sm := sm\<rparr>) wr" 
    using snoc.prems(2) sm(3,5) undoable_cong [of "?w\<lparr>d_sm := sm\<rparr>" w] by (simp add: upd_txn_def)
  moreover have "undoes (rev ws) (table_map (d_sm (?w\<lparr>d_sm := sm\<rparr>))) M0" using snoc.prems(3) sm(4) by (simp add: upd_txn_def del: undo_map.simps)
  ultimately show ?case using snoc.IH [OF sm(2)] sm(1) by (subst undo_writes.simps) (simp add: upd_txn_def)
qed

section \<open>The writes of a transaction\<close>

text \<open>
  Lock calls, INSERT statements and rows of UPDATE statements of one transaction, on tables without indexes that have room for
  a page, while the log has room for its records. A step may also end in an error, as when a lock is refused.
\<close>

definition table_room :: "database \<Rightarrow> string \<Rightarrow> bool" where
  "table_room w t \<longleftrightarrow> (\<forall>fh. sm_fhs (d_sm w) t = Some fh \<longrightarrow> num_pages (snd fh) < 2 ^ 19)"

inductive writes :: "lock_answers \<Rightarrow> bytes \<Rightarrow> database \<Rightarrow> database \<Rightarrow> bool" for lk mem w0 where
  start: "writes lk mem w0 w0"
| lock: "writes lk mem w0 w \<Longrightarrow> call_lock lk c w = (r, w') \<Longrightarrow> writes lk mem w0 w'"
| ins: "writes lk mem w0 w \<Longrightarrow> plain_table mem w t tab \<Longrightarrow> table_room w t \<Longrightarrow> InsertExecutor rid t vals w = Inr st \<Longrightarrow>
     insert_Next lk mem st w = Some (r, w') \<Longrightarrow> env_ok (sm_pool (d_sm w')) \<Longrightarrow> writes lk mem w0 w'"
| upd: "writes lk mem w0 w \<Longrightarrow> plain_table mem w t tab \<Longrightarrow> UpdateExecutor lk t sets conds rids v = (Inr st, v') \<Longrightarrow> ue_tab st = tab \<Longrightarrow>
     table_map (d_sm w) t rid \<noteq> None \<Longrightarrow>
     update_row lk mem st rid w = Some (r, w') \<Longrightarrow> env_ok (sm_pool (d_sm w')) \<Longrightarrow> writes lk mem w0 w'"

definition recorded :: "database \<Rightarrow> database \<Rightarrow> bool" where
  "recorded w0 w \<longleftrightarrow> db_ok w \<and> sm_db (d_sm w) = sm_db (d_sm w0) \<and> rec_sizes w = rec_sizes w0 \<and>
     (\<forall>wr \<in> set (write_set (d_txn w)). undoable w wr) \<and> undoes (rev (write_set (d_txn w))) (table_map (d_sm w)) (table_map (d_sm w0))"

lemma recorded_txn:
  "recorded w0 w \<Longrightarrow> write_set t = write_set (d_txn w) \<Longrightarrow> recorded w0 (w\<lparr>d_txn := t\<rparr>)"
  using undoable_cong [of "w\<lparr>d_txn := t\<rparr>" w] by (simp add: recorded_def db_ok_def)

lemma recorded_same:
  assumes "recorded w0 w" and "db_same w w'" and "write_set (d_txn w') = write_set (d_txn w)" and "env_ok (sm_pool (d_sm w'))"
  shows "recorded w0 w'"
  using assms undoable_cong [of w' w] by (simp add: recorded_def db_same_def db_ok_def)

text \<open>A write and its record.\<close>

lemma recorded_write:
  assumes i: "recorded w0 w" and ok: "db_ok (w\<lparr>d_sm := sm\<rparr>)" and db: "sm_db sm = sm_db (d_sm w)" and sz: "rec_sizes (w\<lparr>d_sm := sm\<rparr>) = rec_sizes w"
    and u: "undoable w wr" and m: "table_map sm = (table_map (d_sm w))(wr_tab_name wr := (table_map (d_sm w) (wr_tab_name wr))(wr_rid wr \<mapsto> x))"
    and old: "wr_record_old wr = table_map (d_sm w) (wr_tab_name wr) (wr_rid wr)"
  shows "recorded w0 (upd_txn (append_write_record wr) (w\<lparr>d_sm := sm\<rparr>))"
proof -
  let ?w = "upd_txn (append_write_record wr) (w\<lparr>d_sm := sm\<rparr>)"
  have "undo_map wr (table_map sm) = table_map (d_sm w)" using old by (simp add: m fun_upd_idem)
  moreover have "undoable ?w v = undoable w v" for v using undoable_cong [of ?w w] db sz by (simp add: upd_txn_def)
  ultimately show ?thesis
    using i ok db sz u m by (simp add: recorded_def upd_txn_def append_write_record_def db_ok_def del: undo_map.simps)
qed

lemma plain_tableD:
  assumes "plain_table mem w t tab"
  obtains fh where "get_table (sm_db (d_sm w)) t = Inr tab" and "tm_name tab = t" and "tm_indexes tab = []" and "sm_fhs (d_sm w) t = Some fh"
    and "rec_size (snd fh) \<le> length mem" and "\<forall>c \<in> set (tm_cols tab). nat (cm_offset c) + nat (cm_len c) \<le> rec_size (snd fh)"
  using assms by (auto simp: plain_table_def)

lemma recorded_log:
  assumes i: "recorded w0 w" and e: "log_change t mk w = (x, w')" and env: "env_ok (sm_pool (d_sm w'))"
  shows "recorded w0 w'"
proof -
  have "db_ok w" using i by (simp add: recorded_def)
  from log_change_ok [OF this, of t mk] e have "db_same w w'" "write_set (d_txn w') = write_set (d_txn w)" by (metis prod.inject)+
  then show ?thesis using recorded_same [OF i] env by simp
qed

lemma recorded_insert:
  assumes q: "quiet_locks lk" and i: "recorded w0 w" and p: "plain_table mem w t tab" and room: "table_room w t"
    and st: "InsertExecutor rid t vals w = Inr st" and run: "insert_Next lk mem st w = Some (r, w')" and env: "env_ok (sm_pool (d_sm w'))"
  shows "recorded w0 w'"
proof -
  obtain fh where g: "get_table (sm_db (d_sm w)) t = Inr tab" "tm_name tab = t" "tm_indexes tab = []" "sm_fhs (d_sm w) t = Some fh"
    and fit: "rec_size (snd fh) \<le> length mem" "\<forall>c \<in> set (tm_cols tab). nat (cm_offset c) + nat (cm_len c) \<le> rec_size (snd fh)" by (rule plain_tableD [OF p])
  have st': "ie_tab st = tab" "ie_tab_name st = t" "ie_values st = vals" using st g by (auto simp: InsertExecutor_def split: if_splits)
  obtain a txn where c: "lock_for_write lk tab t w = (a, w\<lparr>d_txn := txn\<rparr>)" "write_set txn = write_set (d_txn w)"
    using call_lock_ok [OF q, of "Lock_exclusive_on_table (fst fh)" w] g by (auto simp: lock_for_write_def tab_fd_def)
  let ?w = "w\<lparr>d_txn := txn\<rparr>"
  have i1: "recorded w0 ?w" using recorded_txn [OF i c(2)] .
  let ?pv = "put_values mem (tm_cols tab) (take (rec_size (snd fh)) mem) vals" and ?h = "handle fh (sm_pool (d_sm ?w))"
  have rb: "record_buffer mem t ?w = take (rec_size (snd fh)) mem" using g(4) by (simp add: record_buffer_def)
  show ?thesis
  proof (cases "(\<exists>e. a = Inl e) \<or> (\<exists>e vs. ?pv = (Inl e, vs))")
    case True
    then have "w' = ?w" using run by (cases a) (auto simp: insert_Next_def Let_def st' c(1) rb)
    then show ?thesis using i1 by simp
  next
    case False
    then obtain rec vs where pv: "?pv = (Inr rec, vs)" "a = Inr ()" by (cases ?pv; cases "fst ?pv"; cases a) auto
    have inv: "db_ok ?w" "rm_inv ?h" using i1 g(4) sm_invD [of "d_sm w" t fh] by (simp_all add: recorded_def db_ok_def)
    have len: "length rec = rec_size (file_hdr ?h)" using put_values_length [OF _ _ pv(1)] fit by simp
    have "num_pages (file_hdr ?h) < 2 ^ 19" using room g(4) by (simp add: table_room_def)
    from insert_record_ok [OF inv(2) len this, of "log_lsn ?w"] obtain rid rm where x: "insert_record rec (log_lsn ?w) ?h = (Inr rid, rm)" "rm_map ?h rid = None"
      "rm_inv rm" "rm_map rm = (rm_map ?h)(rid \<mapsto> rec)" "others_kept ?h rm" "record_size (file_hdr rm) = record_size (snd fh)" by auto
    from on_tab_db [where f = "insert_record rec (log_lsn ?w)" and t = t, OF inv(1) _ x(1,3,5,6)] g(4) obtain sm where
      sm: "on_tab t (insert_record rec (log_lsn ?w)) ?w = (Inr rid, ?w\<lparr>d_sm := sm\<rparr>)" "db_ok (?w\<lparr>d_sm := sm\<rparr>)" "sm_db sm = sm_db (d_sm ?w)"
      "table_map sm = (table_map (d_sm ?w))(t := rm_map rm)" "rec_sizes (?w\<lparr>d_sm := sm\<rparr>) = rec_sizes ?w" by auto
    let ?wr = "WriteRecord_delete INSERT_TUPLE t rid rec"
    have m: "table_map (d_sm ?w) t = rm_map ?h" using g(4) by (simp add: table_map_def)
    have "recorded w0 (upd_txn (append_write_record ?wr) (?w\<lparr>d_sm := sm\<rparr>))"
      by (rule recorded_write [OF i1 sm(2,3,5)]) (use g x sm(4) m in \<open>simp_all add: undoable_def WriteRecord_delete_def\<close>)
    note i2 = this
    let ?w2 = "upd_txn (append_write_record ?wr) (?w\<lparr>d_sm := sm\<rparr>)"
    obtain y v where l: "log_change t (\<lambda>tid prev first n. LR_Insert (InsertLogRecord_init tid prev rec rid t first n)) ?w2 = (y, v)" by force
    then have "v = w'" using run by (cases y) (simp_all add: insert_Next_def Let_def st' c(1) rb pv sm(1) g(2,3))
    then show ?thesis using recorded_log [OF i2 l] env by simp
  qed
qed

text \<open>Reading a record in the context of a transaction.\<close>

lemma read_record_ok:
  assumes q: "quiet_locks lk" and w: "db_ok w" and x: "table_map (d_sm w) t rid = Some x"
  obtains y v where "read_record lk t rid w = (y, v)" and "db_same w v" and "env_ok (sm_pool (d_sm v))"
    and "write_set (d_txn v) = write_set (d_txn w)" and "sm_fhs (d_sm v) = sm_fhs (d_sm w)" and "(\<exists>e. y = Inl e) \<or> y = Inr x"
proof -
  obtain fh where fh: "sm_fhs (d_sm w) t = Some fh" and i: "rm_inv (handle fh (sm_pool (d_sm w)))" and m: "rm_map (handle fh (sm_pool (d_sm w))) rid = Some x"
    by (rule table_entry [OF w x])
  obtain a txn where c: "call_lock lk (Lock_shared_on_record rid (fst fh)) w = (a, w\<lparr>d_txn := txn\<rparr>)" "write_set txn = write_set (d_txn w)"
    using call_lock_ok [OF q, of "Lock_shared_on_record rid (fst fh)" w] by metis
  show thesis
  proof (cases a)
    case (Inl e)
    then show thesis using w c fh
      by (intro that [of "Inl e" "w\<lparr>d_txn := txn\<rparr>"]) (simp_all add: read_record_def tab_fd_def db_same_def db_ok_def)
  next
    case (Inr u)
    obtain rm where rd: "get_record None rid (handle fh (sm_pool (d_sm w))) = (Inr x, rm)" "rm_same (handle fh (sm_pool (d_sm w))) rm"
      using get_record_same [OF i m, of None] by auto
    obtain sm where sm: "on_table t (get_record None rid) (d_sm w) = (Inr x, sm)" "sm_same (d_sm w) sm"
      using on_table_read [where f = "get_record None rid", OF _ fh rd] w by (auto simp: db_ok_def)
    have f: "sm_fhs sm = sm_fhs (d_sm w)" "sm_db sm = sm_db (d_sm w)" "sm_inv sm" "table_map sm = table_map (d_sm w)"
      using sm(2) sm_same_table(1) [OF sm(2)] by (auto simp: sm_same_def)
    have "env_ok (sm_pool sm)" using f(1,3) fh by (auto dest!: sm_invD [of sm t fh] simp: rm_inv_def pool_side_def bpm_inv_def)
    moreover have "read_record lk t rid w = (Inr x, w\<lparr>d_txn := txn, d_sm := sm\<rparr>)"
      using c(1) Inr fh sm(1) by (simp add: read_record_def tab_fd_def on_tab_def lift_sm_def)
    ultimately show thesis using f c(2)
      by (intro that [of "Inr x" "w\<lparr>d_txn := txn, d_sm := sm\<rparr>"]) (simp_all add: db_same_def rec_sizes_def fun_eq_iff)
  qed
qed

lemma recorded_update:
  assumes q: "quiet_locks lk" and i: "recorded w0 w" and p: "plain_table mem w t tab" and st: "ue_tab st = tab" "ue_tab_name st = t"
    and rid: "table_map (d_sm w) t rid \<noteq> None" and run: "update_row lk mem st rid w = Some (r, w')" and env: "env_ok (sm_pool (d_sm w'))"
  shows "recorded w0 w'"
proof -
  obtain fh where g: "get_table (sm_db (d_sm w)) t = Inr tab" "tm_name tab = t" "tm_indexes tab = []" "sm_fhs (d_sm w) t = Some fh"
    and fit: "rec_size (snd fh) \<le> length mem" "\<forall>c \<in> set (tm_cols tab). nat (cm_offset c) + nat (cm_len c) \<le> rec_size (snd fh)" by (rule plain_tableD [OF p])
  obtain old where old: "table_map (d_sm w) t rid = Some old" using rid by auto
  have "db_ok w" using i by (simp add: recorded_def)
  from read_record_ok [OF q this old] obtain y v where rd: "read_record lk t rid w = (y, v)" "db_same w v" "env_ok (sm_pool (d_sm v))"
    "write_set (d_txn v) = write_set (d_txn w)" "sm_fhs (d_sm v) = sm_fhs (d_sm w)" "(\<exists>e. y = Inl e) \<or> y = Inr old" by blast
  have i1: "recorded w0 v" using recorded_same [OF i rd(2,4,3)] .
  let ?s = "update_eval_condition (tm_cols tab) (ue_conds st) old" and ?n = "apply_sets mem (tm_cols tab) (ue_set st) old" and ?h = "handle fh (sm_pool (d_sm v))"
  show ?thesis
  proof (cases "y = Inr old \<and> ?s = Inr True \<and> (\<exists>new. ?n = Inr new)")
    case False
    then have "w' = v" using run rd(1,6) g(3)
      by (cases ?s; cases ?n) (auto simp: update_row_def Let_def st split: if_splits)
    then show ?thesis using i1 by simp
  next
    case True
    then obtain new where n: "y = Inr old" "?s = Inr True" "?n = Inr new" by blast
    have v: "db_ok v" "table_map (d_sm v) = table_map (d_sm w)" "sm_db (d_sm v) = sm_db (d_sm w)" "rec_sizes v = rec_sizes w"
      using i1 rd(2) by (simp_all add: recorded_def db_same_def)
    have fh: "sm_fhs (d_sm v) t = Some fh" using g(4) rd(5) by simp
    then have h: "rm_inv ?h" "table_map (d_sm v) t = rm_map ?h" using v(1) sm_invD [of "d_sm v" t fh] by (simp_all add: db_ok_def table_map_def)
    then have x: "rm_map ?h rid = Some old" using old v(2) by simp
    have ol: "length old = rec_size (snd fh)" using rm_map_length [OF h(1) x] by simp
    then have len: "length new = rec_size (file_hdr ?h)" using apply_sets_length [OF _ _ n(3)] fit by simp
    from update_record_ok [OF h(1) x len, of "log_lsn v"] obtain rm where u: "update_record rid new (log_lsn v) ?h = (Inr (), rm)" "rm_inv rm"
      "rm_map rm = (rm_map ?h)(rid \<mapsto> new)" "others_kept ?h rm" "record_size (file_hdr rm) = record_size (snd fh)" by auto
    from on_tab_db [where f = "update_record rid new (log_lsn v)", OF v(1) fh u(1,2,4,5)] obtain sm where
      sm: "on_tab t (update_record rid new (log_lsn v)) v = (Inr (), v\<lparr>d_sm := sm\<rparr>)" "db_ok (v\<lparr>d_sm := sm\<rparr>)" "sm_db sm = sm_db (d_sm v)"
      "table_map sm = (table_map (d_sm v))(t := rm_map rm)" "rec_sizes (v\<lparr>d_sm := sm\<rparr>) = rec_sizes v" by auto
    let ?wr = "WriteRecord_update UPDATE_TUPLE t rid new old"
    have "recorded w0 (upd_txn (append_write_record ?wr) (v\<lparr>d_sm := sm\<rparr>))"
      by (rule recorded_write [OF i1 sm(2,3,5)])
        (use g u sm(4) h(2) x v fh ol in \<open>simp_all add: undoable_def WriteRecord_update_def rec_sizes_def\<close>)
    note i2 = this
    have "log_change t (\<lambda>tid prev first n. LR_Update (UpdateLogRecord_init tid prev old new rid t first n))
        (upd_txn (append_write_record ?wr) (v\<lparr>d_sm := sm\<rparr>)) = (r, w')"
      using run by (simp add: update_row_def Let_def st rd(1) n sm(1) g(3))
    then show ?thesis by (rule recorded_log [OF i2 _ env])
  qed
qed

lemma writes_recorded:
  assumes "writes lk mem w0 w" and "quiet_locks lk" and "db_ok w0" and "write_set (d_txn w0) = []"
  shows "recorded w0 w"
  using assms(1)
proof induction
  case start
  then show ?case using assms(3,4) by (simp add: recorded_def)
next
  case (lock w c r w')
  then show ?case using call_lock_ok [OF assms(2), of c w] recorded_txn by (metis snd_conv)
next
  case (ins w t tab rid vals st r w')
  then show ?case using recorded_insert [OF assms(2)] by blast
next
  case (upd w t tab sets conds rids v st v' rid r w')
  then have "ue_tab_name st = t" by (auto simp: UpdateExecutor_def tab_fd_def bindE_def split: sum.splits option.splits prod.splits)
  then show ?case using recorded_update [OF assms(2) upd.IH upd.hyps(2,4) _ upd.hyps(5-7)] by simp
qed

section \<open>Ending a transaction\<close>

lemma unlock_all_ok:
  assumes q: "quiet_locks lk"
  shows "\<exists>t. unlock_all lk ls w = (Inr (), w\<lparr>d_txn := t\<rparr>) \<and> write_set t = write_set (d_txn w)"
proof (induction ls arbitrary: w)
  case Nil
  then show ?case by (intro exI [of _ "d_txn w"]) simp
next
  case (Cons l ls)
  obtain r t where c: "call_lock lk (Unlock l) w = (r, w\<lparr>d_txn := t\<rparr>)" "write_set t = write_set (d_txn w)" "r = Inr ()"
    using call_lock_ok [OF q, of "Unlock l" w] by metis
  then show ?case using Cons.IH [of "w\<lparr>d_txn := t\<rparr>"] by simp
qed

lemma release_locks_ok:
  assumes q: "quiet_locks lk"
  shows "\<exists>t. release_locks lk w = (Inr (), w\<lparr>d_txn := t\<rparr>) \<and> write_set t = write_set (d_txn w) \<and> lock_set t = []"
  using unlock_all_ok [OF q, of "lock_set (d_txn w)" w] by (auto simp: release_locks_def upd_txn_def)

text \<open>The record of the end of a transaction is logged when there is a log.\<close>

lemma log_end_ok:
  assumes w: "db_ok w"
  shows "\<exists>w' p. (if has_log w then log_header h w else (Inr (), w)) = (Inr (), w') \<and> db_same w w' \<and>
     d_txn w' = (d_txn w)\<lparr>Transaction.prev_lsn := p\<rparr>"
proof (cases "has_log w")
  case True
  let ?r = "LR_Header (h\<lparr>LogRecord.prev_lsn := Transaction.prev_lsn (d_txn w)\<rparr>)"
  from add_log_db [OF w, of ?r] True obtain l r w' where a: "on_pool (on_log (add_log_to_buffer ?r)) w = (Inr (l, r), w')" "db_same w w'" "d_txn w' = d_txn w" by auto
  then show ?thesis using True
    by (intro exI [of _ "upd_txn (\<lambda>t. t\<lparr>Transaction.prev_lsn := l\<rparr>) w'"] exI [of _ l])
      (simp add: log_header_def upd_txn_def db_same_def)
next
  case False
  then show ?thesis using w by (intro exI [of _ w] exI [of _ "Transaction.prev_lsn (d_txn w)"]) (simp add: db_same_def db_ok_def)
qed

lemma abort_undoes:
  assumes q: "quiet_locks lk" and i: "recorded w0 w"
  obtains w' where "txn_abort lk mem w = Some (Inr (), w')" and "table_map (d_sm w') = table_map (d_sm w0)" and "write_set (d_txn w') = []"
    and "lock_set (d_txn w') = []" and "t_state (d_txn w') = ABORTED"
proof -
  have w: "db_ok w" "\<forall>wr \<in> set (write_set (d_txn w)). undoable w wr" "undoes (rev (write_set (d_txn w))) (table_map (d_sm w)) (table_map (d_sm w0))"
    using i by (simp_all add: recorded_def)
  from undo_writes_ok [OF this, of lk mem] obtain sm where u: "undo_writes lk mem (write_set (d_txn w)) w =
      Some (Inr (), w\<lparr>d_sm := sm, d_txn := (d_txn w)\<lparr>write_set := []\<rparr>\<rparr>)" "sm_inv sm" "env_ok (sm_pool sm)" "table_map sm = table_map (d_sm w0)" by blast
  let ?w = "w\<lparr>d_sm := sm, d_txn := (d_txn w)\<lparr>write_set := []\<rparr>\<rparr>"
  from release_locks_ok [OF q, of ?w] obtain t where r: "release_locks lk ?w = (Inr (), ?w\<lparr>d_txn := t\<rparr>)" "write_set t = []" "lock_set t = []" by auto
  have ok: "db_ok (?w\<lparr>d_txn := t\<rparr>)" using u(2,3) by (simp add: db_ok_def)
  from log_end_ok [OF this, of "AbortLogRecord_init (t_id t)"] obtain w' p where l: "(if has_log (?w\<lparr>d_txn := t\<rparr>) then
      log_header (AbortLogRecord_init (t_id t)) (?w\<lparr>d_txn := t\<rparr>) else (Inr (), ?w\<lparr>d_txn := t\<rparr>)) = (Inr (), w')"
    "db_same (?w\<lparr>d_txn := t\<rparr>) w'" "d_txn w' = t\<lparr>Transaction.prev_lsn := p\<rparr>" by auto
  have "txn_abort lk mem w = Some (Inr (), upd_txn (\<lambda>t. t\<lparr>t_state := ABORTED\<rparr>) w')"
    using u(1) r(1) l(1) by (auto simp: txn_abort_def split: if_splits)
  then show thesis using l(2,3) u(4) r(2,3) by (intro that [of "upd_txn (\<lambda>t. t\<lparr>t_state := ABORTED\<rparr>) w'"]) (simp_all add: upd_txn_def db_same_def)
qed

section \<open>What an INSERT does\<close>

lemma rid_of_record:
  assumes i: "rm_inv rm" and r: "rm_map rm rid = Some x"
  shows "int32 (rid_page rid)" "int32 (rid_slot rid)" "int32 (first_free_page_no (file_hdr rm))" "int32 (num_pages (file_hdr rm))"
proof -
  note rp = rm_map_page [OF r] and w = rm_invD [OF i]
  show "int32 (rid_page rid)" using data_page_ok [OF i rp(1)] by (auto simp: page_ok_def int32_def)
  have "nat (rid_slot rid) < per_page (file_hdr rm)" using rp(3) by (auto simp: page_slot_def split: if_splits)
  moreover have "num_records_per_page (file_hdr rm) \<le> 3622" using layout_numbers(2) [OF w(3)] .
  ultimately show "int32 (rid_slot rid)" using rp(2) by (auto simp: int32_def)
  show "int32 (first_free_page_no (file_hdr rm))" using first_free_page [OF w(2)] by simp
  show "int32 (num_pages (file_hdr rm))" using w(2) by (auto simp: file_wf_def int32_def)
qed

text \<open>One more record in the log.\<close>

lemma add_log_view:
  assumes w: "db_ok w" and v: "log_view (sm_pool (d_sm w)) = (mx, Some (g, s))"
    and ok: "log_ok r" "log_tot_len (header r) \<le> LOG_BUFFER_SIZE" "length s + log_tot_len (header r) \<le> mx" "int32 (g + 1)"
  obtains w' where "on_pool (on_log (add_log_to_buffer r)) w = (Inr (g, set_lsn g r), w')" and "db_ok w'" and "db_same w w'"
    and "d_txn w' = d_txn w" and "log_view (sm_pool (d_sm w')) = (mx, Some (g + 1, s @ log_enc (set_lsn g r)))"
proof -
  let ?b = "sm_pool (d_sm w)"
  obtain lm where lm: "log_mgr ?b = Some lm" "global_lsn lm = g" "log_stream (lm, disk ?b) = s" "px_max_file (os (disk ?b)) = mx"
    using v by (auto simp: log_view_def)
  have li: "log_inv (lm, disk ?b)" using w lm(1) by (simp add: db_ok_def env_ok_def)
  obtain lm' d where a: "add_log_to_buffer r (lm, disk ?b) = (Inr (g, set_lsn g r), (lm', d))" "log_inv (lm', d)"
    "log_stream (lm', d) = s @ log_enc (set_lsn g r)" "global_lsn lm' = g + 1" "pages_kept (disk ?b) d"
    using add_log_ok [OF li ok(1,2)] ok(3,4) lm by auto
  let ?w = "w\<lparr>d_sm := (d_sm w)\<lparr>sm_pool := ?b\<lparr>log_mgr := Some lm', disk := d\<rparr>\<rparr>\<rparr>"
  have run: "on_pool (on_log (add_log_to_buffer r)) w = (Inr (g, set_lsn g r), ?w)" using lm a(1) by (simp add: on_pool_def on_log_def)
  have env: "env_ok (?b\<lparr>log_mgr := Some lm', disk := d\<rparr>)" using a(2) by (simp add: env_ok_def log_inv_def)
  have i: "sm_inv (d_sm w)" using w by (simp add: db_ok_def)
  note keep = sm_env [OF i pages_kept_mono [OF a(5)], where lm = "Some lm'"]
  have "db_same w ?w" "db_ok ?w" using keep(1) sm_same_inv [OF keep(2) [OF env]] env by (simp_all add: db_same_def db_ok_def rec_sizes_def fun_eq_iff)
  moreover have "log_view (sm_pool (d_sm ?w)) = (mx, Some (g + 1, s @ log_enc (set_lsn g r)))"
    using a(3-5) lm(4) by (simp add: log_view_def pages_kept_def)
  ultimately show thesis using run by (intro that [of ?w]) simp_all
qed

lemma log_change_view:
  assumes w: "db_ok w" and fh: "sm_fhs (d_sm w) t = Some fh" and v: "log_view (sm_pool (d_sm w)) = (mx, Some (g, s))"
    and r: "r = mk (t_id (d_txn w)) (Transaction.prev_lsn (d_txn w)) (first_free_page_no (snd fh)) (num_pages (snd fh))"
    and ok: "log_ok r" "log_tot_len (header r) \<le> LOG_BUFFER_SIZE" "length s + log_tot_len (header r) \<le> mx" "int32 (g + 1)"
  obtains w' where "log_change t mk w = (Inr (), w')" and "db_ok w'" and "db_same w w'"
    and "d_txn w' = (d_txn w)\<lparr>Transaction.prev_lsn := g\<rparr>" and "log_view (sm_pool (d_sm w')) = (mx, Some (g + 1, s @ log_enc (set_lsn g r)))"
proof -
  let ?w = "upd_txn (\<lambda>t. t\<lparr>Transaction.prev_lsn := g\<rparr>) w"
  have "db_ok ?w" "log_view (sm_pool (d_sm ?w)) = (mx, Some (g, s))" using w v by (simp_all add: db_ok_def upd_txn_def)
  from add_log_view [OF this ok] obtain w' where a: "on_pool (on_log (add_log_to_buffer r)) ?w = (Inr (g, set_lsn g r), w')" "db_ok w'"
    "db_same ?w w'" "d_txn w' = d_txn ?w" "log_view (sm_pool (d_sm w')) = (mx, Some (g + 1, s @ log_enc (set_lsn g r)))" by blast
  have "log_lsn w = Some g" using v by (auto simp: log_lsn_def get_lsn_def log_view_def)
  then have "log_change t mk w = (Inr (), w')" using fh a(1) r by (simp add: log_change_def Let_def)
  moreover have "db_same w w'" using a(3) by (simp add: db_same_def upd_txn_def rec_sizes_def fun_eq_iff)
  ultimately show thesis using a(2,4,5) by (intro that [of w']) (simp_all add: upd_txn_def)
qed

lemma insert_effect:
  assumes w: "db_ok w" and p: "plain_table mem w t tab" and room: "table_room w t" and st: "InsertExecutor rid0 t vals w = Inr st"
    and lock: "lk (Lock_exclusive_on_table (fst fh)) (d_txn w) = (Inr (), txn)" "sm_fhs (d_sm w) t = Some fh"
    and vals: "put_values mem (tm_cols tab) (record_buffer mem t w) vals = (Inr rec, vals')"
    and v: "log_view (sm_pool (d_sm w)) = (mx, Some (g, s))" and ids: "int32 (t_id txn)" "int32 (Transaction.prev_lsn txn)" "int32 g" "int32 (g + 1)"
    and lr: "48 + length rec + length t \<le> LOG_BUFFER_SIZE" "length s + (48 + length rec + length t) \<le> mx"
  obtains rid ff np w' where "insert_Next lk mem st w = Some (Inr (st\<lparr>ie_values := vals', ie_rid := rid\<rparr>), w')" and "db_ok w'"
    and "table_map (d_sm w) t rid = None" and "table_map (d_sm w') = (table_map (d_sm w))(t := (table_map (d_sm w) t)(rid \<mapsto> rec))"
    and "d_txn w' = txn\<lparr>write_set := write_set txn @ [WriteRecord_delete INSERT_TUPLE t rid rec], Transaction.prev_lsn := g\<rparr>"
    and "log_view (sm_pool (d_sm w')) =
      (mx, Some (g + 1, s @ log_enc (set_lsn g (LR_Insert (InsertLogRecord_init (t_id txn) (Transaction.prev_lsn txn) rec rid t ff np)))))"
proof -
  obtain fh' where g: "get_table (sm_db (d_sm w)) t = Inr tab" "tm_name tab = t" "tm_indexes tab = []" "sm_fhs (d_sm w) t = Some fh'"
    and fit: "rec_size (snd fh') \<le> length mem" "\<forall>c \<in> set (tm_cols tab). nat (cm_offset c) + nat (cm_len c) \<le> rec_size (snd fh')" by (rule plain_tableD [OF p])
  have [simp]: "fh' = fh" using g(4) lock(2) by simp
  have st': "ie_tab st = tab" "ie_tab_name st = t" "ie_values st = vals" using st g by (auto simp: InsertExecutor_def split: if_splits)
  let ?w = "w\<lparr>d_txn := txn\<rparr>" and ?h = "handle fh (sm_pool (d_sm w))"
  have c: "lock_for_write lk tab t w = (Inr (), ?w)" using lock g by (simp add: lock_for_write_def tab_fd_def call_lock_def)
  have rb: "record_buffer mem t ?w = take (rec_size (snd fh)) mem" "record_buffer mem t w = take (rec_size (snd fh)) mem" using lock(2) by (simp_all add: record_buffer_def)
  have inv: "db_ok ?w" "rm_inv ?h" using w lock(2) sm_invD [of "d_sm w" t fh] by (simp_all add: db_ok_def)
  have "length (take (rec_size (snd fh)) mem) = rec_size (snd fh)" using fit(1) by simp
  then have len: "length rec = rec_size (file_hdr ?h)" using put_values_length [OF _ _ vals [unfolded rb(2)]] fit by (metis \<open>fh' = fh\<close> handle_simps(2) length_take min.cobounded1)
  have lim: "num_pages (file_hdr ?h) < 2 ^ 19" using room lock(2) by (simp add: table_room_def)
  from insert_record_ok [OF inv(2) len lim, of "log_lsn ?w"] obtain rid rm where x: "insert_record rec (log_lsn ?w) ?h = (Inr rid, rm)" "rm_map ?h rid = None"
    "rm_inv rm" "rm_map rm = (rm_map ?h)(rid \<mapsto> rec)" "others_kept ?h rm" "record_size (file_hdr rm) = record_size (snd fh)" by auto
  have lv: "log_view (pool rm) = (mx, Some (g, s))" using insert_record_view [OF inv(2) len lim x(1)] v by simp
  have ot: "on_table t (insert_record rec (log_lsn ?w)) (d_sm w) = (Inr rid, (d_sm w)\<lparr>sm_fhs := (sm_fhs (d_sm w))(t \<mapsto> (rm_fd rm, file_hdr rm)), sm_pool := pool rm\<rparr>)"
    using lock(2) x(1) by (simp add: on_table_def)
  let ?sm = "(d_sm w)\<lparr>sm_fhs := (sm_fhs (d_sm w))(t \<mapsto> (rm_fd rm, file_hdr rm)), sm_pool := pool rm\<rparr>"
  have fh2: "sm_fhs (d_sm ?w) t = Some fh" "insert_record rec (log_lsn ?w) (handle fh (sm_pool (d_sm ?w))) = (Inr rid, rm)"
    "others_kept (handle fh (sm_pool (d_sm ?w))) rm" using lock(2) x(1,5) by simp_all
  obtain sm where sm': "on_tab t (insert_record rec (log_lsn ?w)) ?w = (Inr rid, ?w\<lparr>d_sm := sm\<rparr>)" "db_ok (?w\<lparr>d_sm := sm\<rparr>)"
    "sm_db sm = sm_db (d_sm ?w)" "table_map sm = (table_map (d_sm ?w))(t := rm_map rm)" "rec_sizes (?w\<lparr>d_sm := sm\<rparr>) = rec_sizes ?w"
    using on_tab_db [where f = "insert_record rec (log_lsn ?w)" and t = t, OF inv(1) fh2(1,2) x(3) fh2(3) x(6)] .
  have "d_sm (?w\<lparr>d_sm := sm\<rparr>) = d_sm (?w\<lparr>d_sm := ?sm\<rparr>)" using sm'(1) ot by (simp add: on_tab_def lift_sm_def)
  then have e: "sm = ?sm" by simp
  note sm = sm'(1,2,4) [unfolded e]
  let ?wr = "WriteRecord_delete INSERT_TUPLE t rid rec"
  let ?w2 = "upd_txn (append_write_record ?wr) (?w\<lparr>d_sm := ?sm\<rparr>)"
  let ?r = "LR_Insert (InsertLogRecord_init (t_id txn) (Transaction.prev_lsn txn) rec rid t (first_free_page_no (file_hdr rm)) (num_pages (file_hdr rm)))"
  have tot: "log_tot_len (header ?r) = 48 + length rec + length t" by (simp add: InsertLogRecord_init_def log_offsets LogRecord.truncate_def)
  have "rm_map rm rid = Some rec" using x(4) by simp
  note rk = rid_of_record [OF x(3) this]
  have "length rec \<le> 512" using len rm_invD(3) [OF inv(2)] by (auto simp: layout_ok_def RM_MAX_RECORD_SIZE_def)
  then have "log_ok ?r" using rk ids lr(1)
    by (simp add: insert_ok_def InsertLogRecord_init_def header_ok_def row_ok_def Rid_ok_def INVALID_LSN_def log_offsets LOG_BUFFER_SIZE_def PAGE_SIZE_def int32_def)
  note ok = this
  have w2: "db_ok ?w2" "sm_fhs (d_sm ?w2) t = Some (rm_fd rm, file_hdr rm)" "log_view (sm_pool (d_sm ?w2)) = (mx, Some (g, s))"
    using sm(2) lv by (simp_all add: upd_txn_def db_ok_def)
  let ?mk = "\<lambda>tid prev first n. LR_Insert (InsertLogRecord_init tid prev rec rid t first n)"
  have "?r = ?mk (t_id (d_txn ?w2)) (Transaction.prev_lsn (d_txn ?w2)) (first_free_page_no (snd (rm_fd rm, file_hdr rm))) (num_pages (snd (rm_fd rm, file_hdr rm)))"
    by (simp add: upd_txn_def append_write_record_def)
  from log_change_view [where mk = ?mk, OF w2 this ok] lr ids(4) tot obtain w' where
    l: "log_change t ?mk ?w2 = (Inr (), w')" "db_ok w'" "db_same ?w2 w'" "d_txn w' = (d_txn ?w2)\<lparr>Transaction.prev_lsn := g\<rparr>"
    "log_view (sm_pool (d_sm w')) = (mx, Some (g + 1, s @ log_enc (set_lsn g ?r)))" by auto
  have "insert_Next lk mem st w = Some (Inr (st\<lparr>ie_values := vals', ie_rid := rid\<rparr>), w')"
    using vals rb l(1) by (simp add: insert_Next_def Let_def st' c sm(1) g(2,3))
  moreover have "table_map (d_sm w') = (table_map (d_sm w))(t := (table_map (d_sm w) t)(rid \<mapsto> rec))" "table_map (d_sm w) t rid = None"
    using l(3) sm(3) x(2,4) lock(2) by (simp_all add: db_same_def upd_txn_def table_map_def)
  moreover have "d_txn w' = txn\<lparr>write_set := write_set txn @ [?wr], Transaction.prev_lsn := g\<rparr>"
    using l(4) by (simp add: upd_txn_def append_write_record_def)
  ultimately show thesis using that l(2,5) by blast
qed

section \<open>A small database\<close>

text \<open>A database with one table of one int column, a log and a transaction.\<close>

definition sample_world :: database where
  "sample_world = \<lparr>d_sm = sample_sm (sample_rm\<lparr>pool := BufferPoolManager_init 2 0 (set_fd2pageno 3 1 sample_disk) (Some (LogManager_init 0))\<rparr>),
     d_ihs = Map.empty, d_txn = Transaction_init 5 False 0\<rparr>"

definition granting_locks :: lock_answers where
  "granting_locks c t = (Inr (), t)"

definition sample_tab :: TabMeta where
  "sample_tab = \<lparr>tm_name = ''t'', tm_cols = [sample_col ''a'' 0], tm_indexes = []\<rparr>"

lemma sample_world_ok:
  "db_ok sample_world" "plain_table [0, 0, 0, 0] sample_world ''t'' sample_tab" "table_room sample_world ''t''"
  "InsertExecutor (Rid 0 0) ''t'' [sample_int 7] sample_world =
     Inr \<lparr>ie_tab = sample_tab, ie_values = [sample_int 7], ie_tab_name = ''t'', ie_rid = Rid 0 0\<rparr>"
  "log_view (sm_pool (d_sm sample_world)) = (2 ^ 32, Some (0, [7]))" "sm_fhs (d_sm sample_world) ''t'' = Some (3, RmFileHdr_init 4)"
  "table_map (d_sm sample_world) ''t'' = Map.empty" "write_set (d_txn sample_world) = []" "quiet_locks granting_locks"
proof -
  let ?d = "set_fd2pageno 3 1 sample_disk" and ?b = "BufferPoolManager_init 2 0 (set_fd2pageno 3 1 sample_disk) (Some (LogManager_init 0))"
  have d: "disk_inv ?d" "data_fd ?d 3" using sample_disk_inv sample_data_fd by (simp_all add: set_fd2pageno_def data_fd_def)
  have l: "log_inv (LogManager_init 0, ?d)" using sample_log_inv by (simp add: set_fd2pageno_def)
  have b: "bpm_inv ?b" by (rule bpm_inv_init) (use d l in simp_all)
  have p: "pin_of ?b = (\<lambda>_. 0)" by (simp add: fun_eq_iff pin_of_def BufferPoolManager_init_def)
  let ?rm = "sample_rm\<lparr>pool := ?b\<rparr>"
  note e = rm_inv_empty [OF b, of 3 4]
  have rm: "rm_inv ?rm" "rm_map ?rm = Map.empty"
    using e p d by (simp_all add: sample_rm_def BufferPoolManager_init_def MAX_FD_def RM_MAX_RECORD_SIZE_def set_fd2pageno_def)
  then show "db_ok sample_world" using sample_sm_inv [OF rm(1)] b by (simp add: db_ok_def sample_world_def bpm_inv_def) (simp add: sample_sm_def)
  show "table_map (d_sm sample_world) ''t'' = Map.empty" using rm(2) by (simp add: table_map_def sample_world_def sample_sm_def handle_def sample_rm_def)
  show "log_view (sm_pool (d_sm sample_world)) = (2 ^ 32, Some (0, [7]))"
    using sample_disk_log by (simp add: log_view_def sample_world_def sample_sm_def BufferPoolManager_init_def set_fd2pageno_def LogManager_init_def log_stream_def log_file_def)
qed (simp_all add: plain_table_def table_room_def InsertExecutor_def sample_world_def sample_sm_def sample_tab_def sample_rm_def get_table_def sample_col_def
  RmFileHdr_init_def Let_def Transaction_init_def quiet_locks_def granting_locks_def)

lemma sample_values: "put_values [0, 0, 0, 0] (tm_cols sample_tab) (record_buffer [0, 0, 0, 0] ''t'' sample_world) [sample_int 7] =
    (Inr [7, 0, 0, 0], [(sample_int 7)\<lparr>v_raw := Some [7, 0, 0, 0]\<rparr>])"
proof -
  have "le_bytes 4 7 = [7, 0, 0, 0]" by code_simp
  then show ?thesis
    by (simp add: record_buffer_def sample_world_ok(6)) (simp add: RmFileHdr_init_def Let_def sample_tab_def sample_col_def coerce_def sample_int_def init_raw_def
        int_val_def int_bytes_def memcpy_def slice_def)
qed

lemma sample_insert_runs:
  "\<exists>rid w'. insert_Next granting_locks [0, 0, 0, 0] \<lparr>ie_tab = sample_tab, ie_values = [sample_int 7], ie_tab_name = ''t'', ie_rid = Rid 0 0\<rparr> sample_world =
      Some (Inr \<lparr>ie_tab = sample_tab, ie_values = [(sample_int 7)\<lparr>v_raw := Some [7, 0, 0, 0]\<rparr>], ie_tab_name = ''t'', ie_rid = rid\<rparr>, w') \<and>
     db_ok w' \<and> table_map (d_sm w') ''t'' = [rid \<mapsto> [7, 0, 0, 0]]"
proof -
  have l: "granting_locks (Lock_exclusive_on_table (fst (3, RmFileHdr_init 4))) (d_txn sample_world) = (Inr (), d_txn sample_world)" by (simp add: granting_locks_def)
  show ?thesis
    by (rule insert_effect [where lk = granting_locks, OF sample_world_ok(1-4) l sample_world_ok(6) sample_values sample_world_ok(5)])
      (auto simp: sample_world_ok(7), simp_all add: sample_world_def Transaction_init_def int32_def INVALID_LSN_def LOG_BUFFER_SIZE_def PAGE_SIZE_def)
qed

section \<open>Properties\<close>

text \<open>
  C1: an aborted transaction leaves no trace in the tables. A transaction that starts with an empty write set and runs any
  sequence of lock calls, INSERT statements and row updates, whether they succeed or fail, on tables without indexes can be
  aborted: the abort returns, every table has exactly the records it had when the transaction began, the write set and the
  lock set are empty and the transaction is aborted.
\<close>

theorem abort_restores_tables:
  assumes "db_ok w0" and "write_set (d_txn w0) = []" and "quiet_locks lk" and "writes lk mem w0 w"
  shows "\<exists>w'. txn_abort lk mem w = Some (Inr (), w') \<and> table_map (d_sm w') = table_map (d_sm w0) \<and>
     write_set (d_txn w') = [] \<and> lock_set (d_txn w') = [] \<and> t_state (d_txn w') = ABORTED"
  using abort_undoes [OF assms(3) writes_recorded [OF assms(4,3,1,2)], of mem] by metis


theorem abort_restores_tables_witness:
  "\<exists>w w'. writes granting_locks [0, 0, 0, 0] sample_world w \<and> table_map (d_sm w) ''t'' \<noteq> Map.empty \<and>
     txn_abort granting_locks [0, 0, 0, 0] w = Some (Inr (), w') \<and> table_map (d_sm w') ''t'' = Map.empty"
proof -
  from sample_insert_runs obtain rid w' st' where
    r: "insert_Next granting_locks [0, 0, 0, 0] \<lparr>ie_tab = sample_tab, ie_values = [sample_int 7], ie_tab_name = ''t'', ie_rid = Rid 0 0\<rparr> sample_world = Some (Inr st', w')"
      "db_ok w'" "table_map (d_sm w') ''t'' = [rid \<mapsto> [7, 0, 0, 0]]" by blast
  have "writes granting_locks [0, 0, 0, 0] sample_world w'"
    using writes.ins [OF writes.start sample_world_ok(2-4) r(1)] r(2) by (simp add: db_ok_def)
  with abort_restores_tables [OF sample_world_ok(1,8,9) this] r(3) sample_world_ok(7) show ?thesis by (metis map_upd_nonempty)
qed

text \<open>
  C6: an INSERT into a table without indexes, whose table lock is granted and whose values fit the columns, does three things: the
  table has one more record, under a record id that was free; the write set has one more entry, which names this record; and the
  log has one more record at its end, with the sequence number the log manager hands out, the bytes and the record id, and the
  sequence number of the transaction's previous record. That number becomes the transaction's previous one, so the records of a
  transaction form a chain.
\<close>

theorem insert_writes_record_and_log:
  assumes "db_ok w" and "plain_table mem w t tab" and "table_room w t" and "InsertExecutor rid0 t vals w = Inr st"
    and "sm_fhs (d_sm w) t = Some fh" and "lk (Lock_exclusive_on_table (fst fh)) (d_txn w) = (Inr (), txn)"
    and "put_values mem (tm_cols tab) (record_buffer mem t w) vals = (Inr rec, vals')"
    and "log_view (sm_pool (d_sm w)) = (mx, Some (g, s))" and "int32 (t_id txn)" and "int32 (Transaction.prev_lsn txn)" and "int32 g" and "int32 (g + 1)"
    and "48 + length rec + length t \<le> LOG_BUFFER_SIZE" and "length s + (48 + length rec + length t) \<le> mx"
  shows "\<exists>rid ff np w'. insert_Next lk mem st w = Some (Inr (st\<lparr>ie_values := vals', ie_rid := rid\<rparr>), w') \<and> db_ok w' \<and>
     table_map (d_sm w) t rid = None \<and> table_map (d_sm w') = (table_map (d_sm w))(t := (table_map (d_sm w) t)(rid \<mapsto> rec)) \<and>
     d_txn w' = txn\<lparr>write_set := write_set txn @ [WriteRecord_delete INSERT_TUPLE t rid rec], Transaction.prev_lsn := g\<rparr> \<and>
     log_view (sm_pool (d_sm w')) =
       (mx, Some (g + 1, s @ log_enc (set_lsn g (LR_Insert (InsertLogRecord_init (t_id txn) (Transaction.prev_lsn txn) rec rid t ff np)))))"
  by (rule insert_effect [where lk = lk, OF assms(1-4,6,5,7-14)]) blast

theorem insert_writes_record_and_log_witness:
  "\<exists>rid w'. insert_Next granting_locks [0, 0, 0, 0] \<lparr>ie_tab = sample_tab, ie_values = [sample_int 7], ie_tab_name = ''t'', ie_rid = Rid 0 0\<rparr> sample_world =
      Some (Inr \<lparr>ie_tab = sample_tab, ie_values = [(sample_int 7)\<lparr>v_raw := Some [7, 0, 0, 0]\<rparr>], ie_tab_name = ''t'', ie_rid = rid\<rparr>, w') \<and>
     table_map (d_sm w') ''t'' = [rid \<mapsto> [7, 0, 0, 0]]"
proof -
  have l: "granting_locks (Lock_exclusive_on_table (fst (3, RmFileHdr_init 4))) (d_txn sample_world) = (Inr (), d_txn sample_world)" by (simp add: granting_locks_def)
  have n: "int32 (t_id (d_txn sample_world))" "int32 (Transaction.prev_lsn (d_txn sample_world))" "int32 0" "int32 (0 + 1)"
    "48 + length [7 :: 8 word, 0, 0, 0] + length ''t'' \<le> LOG_BUFFER_SIZE" "length [7 :: 8 word] + (48 + length [7 :: 8 word, 0, 0, 0] + length ''t'') \<le> 2 ^ 32"
    by (simp_all add: sample_world_def Transaction_init_def int32_def INVALID_LSN_def LOG_BUFFER_SIZE_def PAGE_SIZE_def)
  from insert_writes_record_and_log [where lk = granting_locks, OF sample_world_ok(1-4,6) l sample_values sample_world_ok(5) n]
  show ?thesis by (auto simp: sample_world_ok(7))
qed

text \<open>
  C21: what a commit does. A transaction commits in a database with a log manager and room for the record, and \<open>unlock\<close> answers
  for the locks of its lock set and leaves the transaction as it is. Then the tables are as they were, the transaction has an
  empty write set and an empty lock set and is COMMITTED, and the log has one more record at its end: the commit record of this
  transaction, with the sequence number the log manager hands out and the sequence number of the transaction's previous record.
\<close>

theorem commit_appends_record:
  assumes "db_ok w" and "log_view (sm_pool (d_sm w)) = (mx, Some (g, s))" and "length s + LOG_HEADER_SIZE \<le> mx" and "int32 (g + 1)"
    and "int32 (t_id (d_txn w))" and "int32 (Transaction.prev_lsn (d_txn w))" and "\<And>l t. lk (Unlock l) t = (Inr (), t)"
  shows "\<exists>w'. txn_commit lk w = (Inr (), w') \<and> db_ok w' \<and> table_map (d_sm w') = table_map (d_sm w) \<and>
     d_txn w' = (d_txn w)\<lparr>write_set := [], lock_set := [], Transaction.prev_lsn := g, t_state := COMMITTED\<rparr> \<and>
     log_view (sm_pool (d_sm w')) =
       (mx, Some (g + 1, s @ log_enc (set_lsn g (LR_Header ((CommitLogRecord_init (t_id (d_txn w)))\<lparr>LogRecord.prev_lsn := Transaction.prev_lsn (d_txn w)\<rparr>)))))"
proof -
  let ?t = "(d_txn w)\<lparr>write_set := [], lock_set := []\<rparr>"
  let ?w = "w\<lparr>d_txn := ?t\<rparr>" and ?r = "LR_Header ((CommitLogRecord_init (t_id (d_txn w)))\<lparr>LogRecord.prev_lsn := Transaction.prev_lsn (d_txn w)\<rparr>)"
  have "unlock_all lk ls v = (Inr (), v)" for ls v by (induction ls) (simp_all add: call_lock_def assms(7))
  then have rel: "release_locks lk (upd_txn (\<lambda>t. t\<lparr>write_set := []\<rparr>) w) = (Inr (), ?w)" by (simp add: release_locks_def upd_txn_def)
  have ok: "log_ok ?r" "log_tot_len (header ?r) \<le> LOG_BUFFER_SIZE" "length s + log_tot_len (header ?r) \<le> mx"
    using assms(3,5,6) by (simp_all add: header_ok_def CommitLogRecord_init_def INVALID_LSN_def log_offsets LOG_BUFFER_SIZE_def PAGE_SIZE_def int32_def)
  have "db_ok ?w" "log_view (sm_pool (d_sm ?w)) = (mx, Some (g, s))" using assms(1,2) by (simp_all add: db_ok_def)
  from add_log_view [OF this ok assms(4)] obtain w' where a: "on_pool (on_log (add_log_to_buffer ?r)) ?w = (Inr (g, set_lsn g ?r), w')"
    "db_ok w'" "db_same ?w w'" "d_txn w' = ?t" "log_view (sm_pool (d_sm w')) = (mx, Some (g + 1, s @ log_enc (set_lsn g ?r)))" by auto
  have "has_log ?w" using assms(2) by (auto simp: has_log_def log_view_def)
  then have "txn_commit lk w = (Inr (), upd_txn (\<lambda>t. t\<lparr>Transaction.prev_lsn := g, t_state := COMMITTED\<rparr>) w')"
    using rel a(1) by (simp add: txn_commit_def log_header_def upd_txn_def Let_def del: set_lsn.simps)
  then show ?thesis using a(2-5) by (simp add: upd_txn_def db_ok_def db_same_def del: set_lsn.simps)
qed

theorem commit_appends_record_witness:
  "\<exists>w'. txn_commit granting_locks sample_world = (Inr (), w') \<and> t_state (d_txn w') = COMMITTED \<and> Transaction.prev_lsn (d_txn w') = 0 \<and>
     log_view (sm_pool (d_sm w')) = (2 ^ 32, Some (1, 7 # log_enc (LR_Header ((CommitLogRecord_init 5)\<lparr>lsn := 0\<rparr>))))"
proof -
  have n: "length [7 :: 8 word] + LOG_HEADER_SIZE \<le> 2 ^ 32" "int32 (0 + 1)" "int32 (t_id (d_txn sample_world))"
    "int32 (Transaction.prev_lsn (d_txn sample_world))"
    by (simp_all add: sample_world_def Transaction_init_def int32_def INVALID_LSN_def log_offsets)
  have u: "granting_locks (Unlock l) t = (Inr (), t)" for l t by (simp add: granting_locks_def)
  have "set_lsn 0 (LR_Header ((CommitLogRecord_init (t_id (d_txn sample_world)))\<lparr>LogRecord.prev_lsn := Transaction.prev_lsn (d_txn sample_world)\<rparr>)) =
      LR_Header ((CommitLogRecord_init 5)\<lparr>lsn := 0\<rparr>)"
    by (simp add: sample_world_def Transaction_init_def CommitLogRecord_init_def)
  with commit_appends_record [where lk = granting_locks, OF sample_world_ok(1,5) n u] show ?thesis by auto
qed

end
