(* ===== verification/CreateTable.thy ===== *)
theory CreateTable
  imports Ddl Atomicity
begin

text \<open>
  What creating a table gives: an empty table whose columns lie side by side in the record, and a catalogue file from which the next
  start reads the same catalogue. And what dropping a table does.
\<close>

section \<open>Columns side by side\<close>

lemma make_cols_names: "map cm_name (make_cols t off cs) = map cd_name cs"
  by (induction cs arbitrary: off) simp_all

lemma make_cols_bounds:
  assumes "\<forall>c \<in> set cs. 0 \<le> cd_len c" and "0 \<le> off" and "col \<in> set (make_cols t off cs)"
  shows "off \<le> cm_offset col \<and> 0 \<le> cm_len col \<and> cm_offset col + cm_len col \<le> off + sum_list (map cd_len cs)"
  using assms
proof (induction cs arbitrary: off)
  case (Cons c cs)
  have n: "0 \<le> sum_list (map cd_len cs)" using Cons.prems(1) by (intro sum_list_nonneg) auto
  show ?case
  proof (cases "col \<in> set (make_cols t (off + cd_len c) cs)")
    case True
    then show ?thesis using Cons.IH [of "off + cd_len c"] Cons.prems by auto
  next
    case False
    then show ?thesis using Cons.prems n by auto
  qed
qed simp

text \<open>Two columns at different positions share no byte.\<close>

lemma make_cols_disjoint:
  assumes "\<forall>c \<in> set cs. 0 \<le> cd_len c" and "i < j" and "j < length cs"
  shows "cm_offset (make_cols t off cs ! i) + cm_len (make_cols t off cs ! i) \<le> cm_offset (make_cols t off cs ! j)"
  using assms
proof (induction cs arbitrary: off i j)
  case (Cons c cs)
  have len: "length (make_cols t o2 cs) = length cs" for o2 by (metis length_map make_cols_names)
  have off: "o2 \<le> cm_offset (make_cols t o2 cs ! k)" if "k < length cs" for o2 k
    using Cons.prems(1) that
  proof (induction cs arbitrary: o2 k)
    case (Cons d ds)
    show ?case
    proof (cases k)
      case (Suc k')
      then have "o2 + cd_len d \<le> cm_offset (make_cols t (o2 + cd_len d) ds ! k')" using Cons by auto
      then show ?thesis using Suc Cons.prems by auto
    qed simp
  qed simp
  show ?case
  proof (cases i)
    case 0
    then show ?thesis using off [of "j - 1" "off + cd_len c"] Cons.prems by (cases j) auto
  next
    case (Suc i')
    then show ?thesis using Cons.IH [of i' "j - 1" "off + cd_len c"] Cons.prems by (cases j) auto
  qed
qed simp

section \<open>The catalogue file\<close>

lemma write_meta_sel [simp]:
  "fd2path (write_meta db d) = fd2path d" "path2fd (write_meta db d) = path2fd d" "fd2pageno (write_meta db d) = fd2pageno d" "log_fd (write_meta db d) = log_fd d"
  by (simp_all add: write_meta_def)

lemma write_meta_pages:
  assumes "\<forall>fd. fd2path d fd \<noteq> Some DB_META_NAME"
  shows "disk_page (write_meta db d) = disk_page d"
  using assms by (auto simp: disk_page_def write_meta_def fun_eq_iff split: option.split)

lemma bpm_inv_meta:
  assumes b: "bpm_inv b" and m: "\<forall>fd. fd2path (disk b) fd \<noteq> Some DB_META_NAME"
  shows "bpm_inv (b\<lparr>disk := write_meta db (disk b)\<rparr>)"
proof -
  let ?d = "write_meta db (disk b)"
  note parts = bpm_invD [OF b]
  have di: "disk_inv (disk b)" using parts(1) by (simp add: env_ok_def)
  have ne: "DB_META_NAME \<noteq> LOG_FILE_NAME" by (simp add: DB_META_NAME_def LOG_FILE_NAME_def)
  have "disk_inv ?d" using di by (auto simp: disk_inv_def write_meta_def)
  moreover have "px_new_fd (os ?d) = px_new_fd (os (disk b))" by (rule px_new_fd_same_dom) (simp_all add: write_meta_def)
  then have "log_inv (lm, ?d)" if "log_mgr b = Some lm" for lm
    using parts(1) that ne \<open>disk_inv ?d\<close> by (auto simp: env_ok_def log_inv_def log_ready_def log_stream_def log_file_def write_meta_def)
  ultimately have "env_ok (b\<lparr>disk := ?d\<rparr>)" by (simp add: env_ok_def)
  moreover have "dpage ?d = dpage (disk b)" by (simp add: dpage_def fun_eq_iff write_meta_pages [OF m])
  moreover have "valid_pid ?d = valid_pid (disk b)" by (simp add: valid_pid_def data_fd_def fun_eq_iff)
  ultimately show ?thesis using parts by (simp add: bpm_inv_def table_ok_def sync_ok_def)
qed

text \<open>What was written can be read.\<close>

lemma read_meta_written:
  assumes "length (show_DbMeta db) \<le> px_max_file (os d)"
  shows "read_meta half db0 (write_meta db d) = (case read_DbMeta db0 (show_DbMeta db) of None \<Rightarrow> half | Some (db, _) \<Rightarrow> db)"
  using assms by (simp add: read_meta_def write_meta_def)

section \<open>Creating a table\<close>

text \<open>A name and a descriptor that are free.\<close>

definition fresh_table :: "string \<Rightarrow> int \<Rightarrow> database \<Rightarrow> bool" where
  "fresh_table t fd w \<longleftrightarrow>
     (let b = sm_pool (d_sm w); d = disk b
      in bpm_inv b \<and> card {q. 0 < pin_of b q} < pool_size b \<and> px_files (os d) t = None \<and> px_new_fd (os d) = Some fd \<and> fd < MAX_FD \<and>
         t \<noteq> LOG_FILE_NAME \<and> t \<noteq> DB_META_NAME \<and> (log_mgr b = None \<or> log_fd d \<noteq> - 1) \<and> (\<forall>q \<in> fst ` set (page_table b). pid_fd q \<noteq> fd) \<and>
         (\<forall>f. fd2path d f \<noteq> Some DB_META_NAME) \<and> \<not> is_table (sm_db (d_sm w)) t \<and> sm_fhs (d_sm w) t = None)"

lemma get_put_table: "get_table (SetTabMeta db t tab) t = Inr tab" 
proof -
  have "map_of (map_put t tab xs) t = Some tab" for xs by (induction t tab xs rule: map_put.induct) auto
  then show ?thesis by (simp add: get_table_def SetTabMeta_def)
qed

lemma create_table_ok:
  assumes i: "sm_inv (d_sm w)" and fr: "fresh_table t fd w"
    and len: "1 \<le> sum_list (map cd_len cs)" "sum_list (map cd_len cs) \<le> 512"
    and ctx: "\<And>lk. ctx = Some lk \<Longrightarrow> fst (lk (Lock_exclusive_on_table fd) (d_txn w)) = Inr ()"
  obtains w' where "create_table ctx t cs w = (Inr (), w')" and "sm_inv (d_sm w')" and "table_map (d_sm w') = (table_map (d_sm w))(t := Map.empty)"
    and "sm_fhs (d_sm w') = (sm_fhs (d_sm w))(t \<mapsto> (fd, RmFileHdr_init (sum_list (map cd_len cs))))"
    and "sm_db (d_sm w') = SetTabMeta (sm_db (d_sm w)) t \<lparr>tm_name = t, tm_cols = make_cols t 0 cs, tm_indexes = []\<rparr>"
    and "\<exists>e. disk (sm_pool (d_sm w')) = write_meta (sm_db (d_sm w')) e \<and> px_max_file (os e) = px_max_file (os (disk (sm_pool (d_sm w))))"
proof -
  let ?b = "sm_pool (d_sm w)" and ?rs = "sum_list (map cd_len cs)" and ?tab = "\<lparr>tm_name = t, tm_cols = make_cols t 0 cs, tm_indexes = []\<rparr>"
  have f: "bpm_inv ?b" "card {q. 0 < pin_of ?b q} < pool_size ?b" "px_files (os (disk ?b)) t = None" "px_new_fd (os (disk ?b)) = Some fd" "fd < MAX_FD"
    "t \<noteq> LOG_FILE_NAME" "log_mgr ?b = None \<or> log_fd (disk ?b) \<noteq> - 1" "\<And>q. q \<in> fst ` set (page_table ?b) \<Longrightarrow> pid_fd q \<noteq> fd"
    and g: "t \<noteq> DB_META_NAME" "\<forall>f. fd2path (disk ?b) f \<noteq> Some DB_META_NAME" "\<not> is_table (sm_db (d_sm w)) t" "sm_fhs (d_sm w) t = None"
    using fr by (auto simp: fresh_table_def Let_def)
  obtain d e rm where c: "rm_create_file t ?rs (disk ?b) = (Inr (), d)" "rm_open_file t (?b\<lparr>disk := d\<rparr>) = (Inr rm, ?b\<lparr>disk := e\<rparr>)"
    "rm = \<lparr>rm_fd = fd, file_hdr = RmFileHdr_init ?rs, pool = ?b\<lparr>disk := e\<rparr>\<rparr>" "rm_inv rm" "rm_map rm = Map.empty"
    "fd2path (disk ?b) fd = None" "fd2path e = (fd2path (disk ?b))(fd \<mapsto> t)" "fd2pageno e = (fd2pageno (disk ?b))(fd := 1)"
    "px_files (os e) = (px_files (os (disk ?b)))(t \<mapsto> RmFileHdr_bytes (RmFileHdr_init ?rs))" "px_max_file (os e) = px_max_file (os (disk ?b))"
    using create_open_file [OF f len] by metis
  let ?db = "SetTabMeta (sm_db (d_sm w)) t ?tab"
  obtain txn where lk: "\<And>v. d_txn v = d_txn w \<Longrightarrow> lock_table_for ctx fd v = (Inr (), v\<lparr>d_txn := txn\<rparr>)"
  proof (cases ctx)
    case None
    then show thesis by (intro that [of "d_txn w"]) (auto simp: lock_table_for_def)
  next
    case (Some lk)
    then show thesis using ctx [OF Some] by (intro that [of "snd (lk (Lock_exclusive_on_table fd) (d_txn w))"])
        (auto simp: lock_table_for_def call_lock_def split: prod.splits)
  qed
  let ?pool = "?b\<lparr>disk := write_meta ?db e\<rparr>"
  let ?sm = "(d_sm w)\<lparr>sm_db := ?db, sm_fhs := (sm_fhs (d_sm w))(t \<mapsto> (fd, RmFileHdr_init ?rs)), sm_pool := ?pool\<rparr>"
  have run: "create_table ctx t cs w = (Inr (), w\<lparr>d_sm := ?sm, d_txn := txn\<rparr>)"
    using g(3,4) c(1,2) lk by (simp add: create_table_def on_disk_def on_pool_def upd_db_def upd_sm_def put_fh_def flush_meta_def c(3) Let_def)
  have me: "\<forall>f. fd2path e f \<noteq> Some DB_META_NAME" using g(1,2) c(7) by auto
  have "bpm_inv (?b\<lparr>disk := e\<rparr>)" using c(3,4) by (simp add: rm_inv_def pool_side_def)
  from bpm_inv_meta [OF this, of ?db] me have bp: "bpm_inv ?pool" by simp
  have old: "fst fh \<noteq> fd" if "sm_fhs (d_sm w) u = Some fh" for u fh
    using sm_invD [OF i that] c(6) by (auto simp: rm_inv_def pool_side_def data_fd_def)
  have files: "data_fd (write_meta ?db e) (fst fh) \<and> fd2pageno (write_meta ?db e) (fst fh) = fd2pageno (disk ?b) (fst fh) \<and>
       (\<forall>n c. page_ok n \<longrightarrow> dpage (disk ?b) (PageId (fst fh) n) = Some c \<longrightarrow> dpage (write_meta ?db e) (PageId (fst fh) n) = Some c)"
    if u: "sm_fhs (d_sm w) u = Some fh" for u fh
  proof -
    have "data_fd (disk ?b) (fst fh)" using sm_invD [OF i u] by (simp add: rm_inv_def pool_side_def)
    moreover have "dpage e (PageId (fst fh) n) = Some x" if "dpage (disk ?b) (PageId (fst fh) n) = Some x" for n x
      using that old [OF u] c(7,9) f(3) by (auto simp: dpage_def disk_page_def split: option.splits if_splits)
    ultimately show ?thesis using old [OF u] c(7,8) by (simp add: data_fd_def dpage_def write_meta_pages [OF me])
  qed
  note keep = sm_env_files [OF i files, where lm = "log_mgr ?b"]
  have same: "sm_same (d_sm w) ((d_sm w)\<lparr>sm_pool := ?pool\<rparr>)" using keep(2) bp by simp
  have new: "rm_inv (handle (fd, RmFileHdr_init ?rs) ?pool)" "rm_map (handle (fd, RmFileHdr_init ?rs) ?pool) = Map.empty"
  proof -
    have "pin_of ?pool = pin_of ?b" "0 \<le> fd" "data_fd (write_meta ?db e) fd"
      using px_new_fd_fresh [OF f(4)] c(7) f(6) by (auto simp: pin_of_def fun_eq_iff data_fd_def)
    then show "rm_inv (handle (fd, RmFileHdr_init ?rs) ?pool)" "rm_map (handle (fd, RmFileHdr_init ?rs) ?pool) = Map.empty"
      using rm_inv_empty [OF bp, of fd ?rs] f(2,5,8) c(8) len by (auto simp: handle_def RM_MAX_RECORD_SIZE_def)
  qed
  have "sm_inv ?sm"
    unfolding sm_inv_def
  proof (intro conjI allI impI)
    fix u fh
    assume "sm_fhs ?sm u = Some fh"
    then show "rm_inv (handle fh (sm_pool ?sm))" using new(1) sm_invD [OF sm_same_inv [OF same], of u fh] by (auto split: if_splits)
  next
    fix u v fh fh'
    assume "sm_fhs ?sm u = Some fh" "sm_fhs ?sm v = Some fh'" "fst fh = fst fh'"
    then show "u = v" using old [of u fh] old [of v fh'] sm_inv_fd [OF i, of u fh v fh'] by (auto split: if_splits)
  qed
  moreover have "table_map ?sm = (table_map (d_sm w))(t := Map.empty)"
  proof
    fix u
    have "table_map ?sm u = table_map ((d_sm w)\<lparr>sm_pool := ?pool\<rparr>) u" if "u \<noteq> t" using that by (cases "sm_fhs (d_sm w) u") (simp_all add: table_map_def)
    moreover have "table_map ?sm t = Map.empty" using new(2) by (simp add: table_map_def)
    ultimately show "table_map ?sm u = ((table_map (d_sm w))(t := Map.empty)) u"
      using sm_same_table(1) [OF same, of u] by (cases "u = t") (simp_all del: fun_upd_apply add: fun_upd_same fun_upd_other)
  qed
  ultimately show thesis using run c(10) by (intro that [of "w\<lparr>d_sm := ?sm, d_txn := txn\<rparr>"]) auto
qed

section \<open>The catalogue stays readable\<close>

lemma db_wf_SetTabMeta:
  assumes "db_wf db" and "tab_wf tab" and "tm_name tab = t" and "Suc (length (db_tabs db)) < 2 ^ 64"
  shows "db_wf (SetTabMeta db t tab)"
  using assms sorted_map_put [of "db_tabs db" t tab] length_map_put [of t tab "db_tabs db"] set_map_put [of t tab "db_tabs db"]
  by (auto simp: db_wf_def SetTabMeta_def list_all_iff)

lemma make_cols_wf:
  assumes "word_text t" and "\<forall>c \<in> set cs. 0 \<le> cd_len c \<and> word_text (cd_name c)" and "sum_list (map cd_len cs) \<le> 512"
  shows "list_all col_wf (make_cols t 0 cs)"
proof -
  have "cm_tab_name c = t \<and> cm_name c \<in> cd_name ` set cs" if "c \<in> set (make_cols t off cs)" for c off
    using that by (induction cs arbitrary: off) auto
  moreover have "0 \<le> cm_offset c \<and> 0 \<le> cm_len c \<and> cm_offset c + cm_len c \<le> 512" if "c \<in> set (make_cols t 0 cs)" for c
    using make_cols_bounds [OF _ _ that] assms(2,3) by fastforce
  ultimately show ?thesis using assms by (fastforce simp: list_all_iff col_wf_def int32_def)
qed

section \<open>Properties\<close>

text \<open>
  C8: creating a table. For a name that no table, open file or file of the operating system has, column lengths that are not negative
  and sum to between 1 and 512, and a lock that is granted, \<open>create_table\<close> succeeds: the open tables are well formed, the new table
  has no record, every other table has the records it had, the catalogue lists the columns in the order of the
  statement, each of them lies within the record and no two of them share a byte. And when the names are words and the catalogue was
  well formed and fits into a file, the next start reads the same catalogue from the catalogue file.
\<close>

theorem create_table_gives_empty_table:
  assumes "sm_inv (d_sm w)" and "fresh_table t fd w" and "\<forall>c \<in> set cs. 0 \<le> cd_len c"
    and "1 \<le> sum_list (map cd_len cs)" and "sum_list (map cd_len cs) \<le> 512"
    and "\<And>lk. ctx = Some lk \<Longrightarrow> fst (lk (Lock_exclusive_on_table fd) (d_txn w)) = Inr ()"
  shows "\<exists>w' tab. create_table ctx t cs w = (Inr (), w') \<and> sm_inv (d_sm w') \<and> table_map (d_sm w') = (table_map (d_sm w))(t := Map.empty) \<and>
     get_table (sm_db (d_sm w')) t = Inr tab \<and> map cm_name (tm_cols tab) = map cd_name cs \<and>
     (\<forall>c \<in> set (tm_cols tab). 0 \<le> cm_offset c \<and> cm_offset c + cm_len c \<le> sum_list (map cd_len cs)) \<and>
     (\<forall>i j. i < j \<and> j < length cs \<longrightarrow> cm_offset (tm_cols tab ! i) + cm_len (tm_cols tab ! i) \<le> cm_offset (tm_cols tab ! j)) \<and>
     (db_wf (sm_db (d_sm w)) \<and> Suc (length (db_tabs (sm_db (d_sm w)))) < 2 ^ 64 \<and> word_text t \<and> (\<forall>c \<in> set cs. word_text (cd_name c)) \<and>
      length cs < 2 ^ 64 \<and> length (show_DbMeta (sm_db (d_sm w'))) \<le> px_max_file (os (disk (sm_pool (d_sm w)))) \<longrightarrow>
      read_meta half \<lparr>db_name = [], db_tabs = []\<rparr> (disk (sm_pool (d_sm w'))) = sm_db (d_sm w'))"
proof -
  let ?tab = "\<lparr>tm_name = t, tm_cols = make_cols t 0 cs, tm_indexes = []\<rparr>"
  from create_table_ok [where ctx = ctx, OF assms(1,2,4,5)] assms(6) obtain w' e where w': "create_table ctx t cs w = (Inr (), w')" "sm_inv (d_sm w')"
    "table_map (d_sm w') = (table_map (d_sm w))(t := Map.empty)" "sm_db (d_sm w') = SetTabMeta (sm_db (d_sm w)) t ?tab"
    "disk (sm_pool (d_sm w')) = write_meta (sm_db (d_sm w')) e" "px_max_file (os e) = px_max_file (os (disk (sm_pool (d_sm w))))"
    by blast
  have "read_meta half \<lparr>db_name = [], db_tabs = []\<rparr> (disk (sm_pool (d_sm w'))) = sm_db (d_sm w')"
    if c: "db_wf (sm_db (d_sm w))" "Suc (length (db_tabs (sm_db (d_sm w)))) < 2 ^ 64" "word_text t" "\<forall>c \<in> set cs. word_text (cd_name c)" "length cs < 2 ^ 64"
      and l: "length (show_DbMeta (sm_db (d_sm w'))) \<le> px_max_file (os (disk (sm_pool (d_sm w))))"
  proof -
    have "length (make_cols t 0 cs) = length cs" by (metis length_map make_cols_names)
    then have "tab_wf ?tab" using make_cols_wf [of t cs] assms(3,5) c by (simp add: tab_wf_def)
    then have "db_wf (sm_db (d_sm w'))" using db_wf_SetTabMeta c w'(4) by simp
    then obtain rest where "read_DbMeta \<lparr>db_name = [], db_tabs = []\<rparr> (show_DbMeta (sm_db (d_sm w'))) = Some (sm_db (d_sm w'), rest)"
      by (rule read_shown_db)
    then show ?thesis using read_meta_written [of "sm_db (d_sm w')" e] l w'(5,6) by simp
  qed
  moreover have "get_table (sm_db (d_sm w')) t = Inr ?tab" using w'(4) get_put_table by simp
  moreover have "\<forall>c \<in> set (tm_cols ?tab). 0 \<le> cm_offset c \<and> cm_offset c + cm_len c \<le> sum_list (map cd_len cs)"
    using make_cols_bounds [OF assms(3), of 0] by fastforce
  moreover have "\<forall>i j. i < j \<and> j < length cs \<longrightarrow> cm_offset (tm_cols ?tab ! i) + cm_len (tm_cols ?tab ! i) \<le> cm_offset (tm_cols ?tab ! j)"
    using make_cols_disjoint [OF assms(3)] by simp
  ultimately show ?thesis using w'(1-3) make_cols_names [of t 0 cs] by (intro exI [of _ w'] exI [of _ ?tab]) auto
qed

definition sample_defs :: "ColDef list" where
  "sample_defs = [\<lparr>cd_name = ''a'', cd_type = TYPE_INT, cd_len = 4\<rparr>, \<lparr>cd_name = ''b'', cd_type = TYPE_STRING, cd_len = 8\<rparr>]"

definition unlogged_world :: database where
  "unlogged_world = sample_world\<lparr>d_sm := sample_sm (sample_rm\<lparr>pool := BufferPoolManager_init 2 0 (set_fd2pageno 3 1 sample_disk) None\<rparr>)\<rparr>"

lemma unlogged_world_fresh: "sm_inv (d_sm unlogged_world)" "fresh_table ''u'' 4 unlogged_world"
proof -
  let ?d = "set_fd2pageno 3 1 sample_disk" and ?b = "BufferPoolManager_init 2 0 (set_fd2pageno 3 1 sample_disk) None"
  have d: "disk_inv ?d" "data_fd ?d 3" using sample_disk_inv sample_data_fd by (simp_all add: set_fd2pageno_def data_fd_def)
  have b: "bpm_inv ?b" by (rule bpm_inv_init) (use d in simp_all)
  have p: "pin_of ?b = (\<lambda>_. 0)" by (simp add: fun_eq_iff pin_of_def BufferPoolManager_init_def)
  have "rm_inv (sample_rm\<lparr>pool := ?b\<rparr>)"
    using rm_inv_empty [OF b, of 3 4] p d by (simp_all add: sample_rm_def BufferPoolManager_init_def MAX_FD_def RM_MAX_RECORD_SIZE_def set_fd2pageno_def)
  then show "sm_inv (d_sm unlogged_world)" using sample_sm_inv by (simp add: unlogged_world_def)
  have n: "px_new_fd (os sample_disk) = Some 4" "px_files (os sample_disk) ''u'' = None"
    by (simp_all add: sample_disk_eq sample_new_fd) (simp add: sample_posix_def LOG_FILE_NAME_def)
  have l: "\<forall>f. fd2path sample_disk f \<noteq> Some DB_META_NAME" by (auto simp: sample_disk_eq DB_META_NAME_def LOG_FILE_NAME_def)
  have "sm_pool (d_sm unlogged_world) = ?b" "sm_fhs (d_sm unlogged_world) ''u'' = None" "\<not> is_table (sm_db (d_sm unlogged_world)) ''u''"
    by (simp_all add: unlogged_world_def sample_sm_def is_table_def)
  then show "fresh_table ''u'' 4 unlogged_world"
    using b p n l by (simp add: fresh_table_def) (simp add: BufferPoolManager_init_def set_fd2pageno_def MAX_FD_def LOG_FILE_NAME_def DB_META_NAME_def)
qed

theorem create_table_gives_empty_table_witness:
  "\<exists>w' tab. create_table (Some granting_locks) ''u'' sample_defs unlogged_world = (Inr (), w') \<and> table_map (d_sm w') ''u'' = Map.empty \<and>
     table_map (d_sm w') ''t'' = table_map (d_sm unlogged_world) ''t'' \<and> get_table (sm_db (d_sm w')) ''u'' = Inr tab \<and>
     map cm_name (tm_cols tab) = [''a'', ''b'']"
  using create_table_gives_empty_table [OF unlogged_world_fresh, of sample_defs "Some granting_locks"]
  by (fastforce simp: sample_defs_def granting_locks_def)

text \<open>
  Dropping a table never returns. When the table exists, \<open>drop_table\<close> ends with an error whatever the state of the database:
  the handle of the table is erased before it is closed. When the table has no index and its lock is granted, the error
  is the read of a null handle, and the catalogue in memory has lost the table by then, while the files of the operating system,
  the catalogue file and the file of the table among them, are as they were.
\<close>

theorem drop_table_never_returns:
  assumes "is_table (sm_db (d_sm w)) t"
  shows "fst (drop_table ctx mem stale t w) \<noteq> Inr () \<and>
    (\<forall>tab w1. map_of (db_tabs (sm_db (d_sm w))) t = Some tab \<and> tm_indexes tab = [] \<and> lock_ptr ctx t w = (Inr (), w1) \<and> d_sm w1 = d_sm w \<longrightarrow>
       (\<exists>w'. drop_table ctx mem stale t w = (Inl NullDereference, w') \<and> \<not> is_table (sm_db (d_sm w')) t \<and>
         sm_pool (d_sm w') = sm_pool (d_sm w)))"
proof
  have gone: "map_of (filter (\<lambda>(u, _). u \<noteq> t) xs) t = None" for xs :: "(string \<times> TabMeta) list" by (auto simp: map_of_eq_None_iff)
  show "fst (drop_table ctx mem stale t w) \<noteq> Inr ()"
    using assms by (auto simp: drop_table_def bindE_def upd_sm_def Let_def split: prod.splits sum.splits)
  show "\<forall>tab w1. map_of (db_tabs (sm_db (d_sm w))) t = Some tab \<and> tm_indexes tab = [] \<and> lock_ptr ctx t w = (Inr (), w1) \<and> d_sm w1 = d_sm w \<longrightarrow>
       (\<exists>w'. drop_table ctx mem stale t w = (Inl NullDereference, w') \<and> \<not> is_table (sm_db (d_sm w')) t \<and> sm_pool (d_sm w') = sm_pool (d_sm w))"
    using assms gone by (auto simp: drop_table_def bindE_def upd_sm_def upd_db_def Let_def tabs_at_def is_table_def split: option.splits)
qed

theorem drop_table_never_returns_witness:
  "\<exists>w'. drop_table (Some granting_locks) [] (\<lambda>_. []) ''t'' sample_world = (Inl NullDereference, w') \<and> \<not> is_table (sm_db (d_sm w')) ''t''"
proof -
  have "map_of (db_tabs (sm_db (d_sm sample_world))) ''t'' = Some Atomicity.sample_tab" "is_table (sm_db (d_sm sample_world)) ''t''"
    using sample_world_ok(2) by (auto simp: plain_table_def get_table_def is_table_def split: option.splits)
  moreover have "lock_ptr (Some granting_locks) ''t'' sample_world = (Inr (), sample_world)"
    by (simp add: lock_ptr_def ptr_fd_def sample_world_ok(6) call_lock_def granting_locks_def)
  ultimately show ?thesis
    using drop_table_never_returns [of sample_world "''t''" "Some granting_locks" "[]" "\<lambda>_. []"] by (auto simp: Atomicity.sample_tab_def)
qed

end
