(* ===== verification/RecoveryLog.thy ===== *)
theory RecoveryLog
  imports Recovery CreateTable
begin

text \<open>
  Recovery reads the log: the log file as a sequence of encoded records, what a read at the offset of a record gives, and that reading leaves
  the tables and the log as they are.
\<close>

section \<open>The log while it is read\<close>

text \<open>Nothing waits in the log buffer, and the log file has the bytes \<open>c\<close>.\<close>

definition log_idle :: "bytes \<Rightarrow> bpm \<Rightarrow> bool" where
  "log_idle c b \<longleftrightarrow> (\<exists>lm. log_mgr b = Some lm \<and> log_buffer lm = []) \<and> log_file (disk b) = c"

lemma read_log_ready:
  assumes d: "disk_inv d" and r: "log_ready d" and c: "px_files (os d) LOG_FILE_NAME = Some c" and len: "length c < 2 ^ 31" and off: "off \<le> length c"
  obtains k d' where "read_log n off d = (Inr (k, slice off n c), d')" and "disk_inv d'" and "log_ready d'" and "px_files (os d') = px_files (os d)"
    and "pages_kept d d'"
proof -
  obtain d1 where d1: "open_log d = (Inr (), d1)" "disk_inv d1" "log_fd d1 \<noteq> - 1" "px_files (os d1) = px_files (os d)" "px_max_file (os d1) = px_max_file (os d)"
    "fd2path d \<subseteq>\<^sub>m fd2path d1" "fd2pageno d1 = fd2pageno d" using open_log_ok [OF d r] by blast
  have "open_log d1 = (Inr (), d1)" using d1(3) by (simp add: open_log_def)
  then have same: "read_log n off d = read_log n off d1" using d1(1) by (simp add: read_log_def)
  obtain d' where d': "read_log n off d1 = (Inr (int (min n (length c - off)), slice off n c), d')" "disk_inv d'" "px_files (os d') = px_files (os d1)"
    using read_log_ok [OF d1(2,3) _ len off, of n] c d1(4) by auto
  have st: "fd2path d' = fd2path d1 \<and> fd2pageno d' = fd2pageno d1 \<and> log_fd d' = log_fd d1 \<and> px_max_file (os d') = px_max_file (os d1)"
    using d'(1) \<open>open_log d1 = (Inr (), d1)\<close>
    by (auto simp: read_log_def px_lseek_set_def px_read_def Let_def split: if_splits option.splits prod.splits)
  have "disk_page d' fd k = Some a" if "disk_page d fd k = Some a" for fd k a
    by (rule disk_page_more [OF _ _ that]) (use st d1(4,6) d'(3) in auto)
  then have "pages_kept d d'" using st d1 by (simp add: pages_kept_def)
  moreover have "log_ready d'" using st d1(3,4) d'(3) c by (simp add: log_ready_def)
  ultimately show thesis using same d' d1(4) by (intro that) auto
qed

lemma read_buf_ok:
  assumes w: "db_ok w" "log_idle c (sm_pool (d_sm w))" and len: "length c < 2 ^ 31" and off: "off \<le> length c"
  obtains w' where "read_buf n off buf w = (Inr (memcpy buf 0 (slice off n c)), w')" and "db_ok w'" and "log_idle c (sm_pool (d_sm w'))"
    and "sm_same (d_sm w) (d_sm w')"
proof -
  let ?b = "sm_pool (d_sm w)"
  obtain lm where lm: "log_mgr ?b = Some lm" "log_buffer lm = []" "log_file (disk ?b) = c" using w(2) by (auto simp: log_idle_def)
  then have l: "log_inv (lm, disk ?b)" using w(1) by (simp add: db_ok_def env_ok_def)
  then have f: "px_files (os (disk ?b)) LOG_FILE_NAME = Some c" using lm(3) by (auto simp: log_inv_def log_ready_def log_file_def)
  have "disk_inv (disk ?b)" "log_ready (disk ?b)" using l by (simp_all add: log_inv_def)
  then obtain k d' where d': "read_log n off (disk ?b) = (Inr (k, slice off n c), d')" "disk_inv d'" "log_ready d'" "px_files (os d') = px_files (os (disk ?b))"
    "pages_kept (disk ?b) d'" using read_log_ready [OF _ _ f len off] by metis
  let ?w = "w\<lparr>d_sm := (d_sm w)\<lparr>sm_pool := ?b\<lparr>disk := d'\<rparr>\<rparr>\<rparr>"
  have "log_inv (lm, d')" using l d' by (simp add: log_inv_def log_stream_def log_file_def pages_kept_def)
  then have e: "env_ok (?b\<lparr>disk := d'\<rparr>)" using d'(2) lm(1) by (simp add: env_ok_def)
  have "?b\<lparr>log_mgr := log_mgr ?b, disk := d'\<rparr> = ?b\<lparr>disk := d'\<rparr>" by simp
  then have s: "sm_same (d_sm w) (d_sm ?w)"
    using sm_env(2) [OF _ pages_kept_mono [OF d'(5)], where lm = "log_mgr ?b"] w(1) e by (simp add: db_ok_def)
  have "read_buf n off buf w = (Inr (memcpy buf 0 (slice off n c)), ?w)" using d'(1) by (simp add: read_buf_def on_disk_def on_pool_def)
  moreover have "log_idle c (sm_pool (d_sm ?w))" using lm d'(4) by (simp add: log_idle_def log_file_def)
  ultimately show thesis using s e sm_same_inv [OF s] by (intro that [of ?w]) (simp_all add: db_ok_def)
qed

section \<open>The pool while the log is idle\<close>

text \<open>There is nothing to flush, so the log manager stays as it is.\<close>

definition mgr_idle :: "bpm \<Rightarrow> bool" where
  "mgr_idle b \<longleftrightarrow> (\<exists>lm. log_mgr b = Some lm \<and> log_buffer lm = [])"

lemma log_idle_kept: "log_idle c b \<Longrightarrow> log_mgr b' = log_mgr b \<Longrightarrow> log_view b' = log_view b \<Longrightarrow> log_idle c b'"
  by (auto simp: log_idle_def log_view_def log_stream_def)

lemma idle_mgr: "log_idle c b \<Longrightarrow> mgr_idle b"
  by (simp add: log_idle_def mgr_idle_def)

lemma flush_idle: "mgr_idle b \<Longrightarrow> flush_log b = (Inr (), b)"
  by (auto simp: mgr_idle_def flush_log_def flush_log_to_disk_def)

lemma update_page_mgr: "mgr_idle b \<Longrightarrow> log_mgr (snd (update_page f p b)) = log_mgr b"
  by (auto simp: update_page_def flush_idle bindE_def write_out_def upd_page_def Let_def split: option.split prod.split sum.split)

lemma fetch_page_mgr: "mgr_idle b \<Longrightarrow> log_mgr (snd (fetch_page p b)) = log_mgr b"
proof -
  assume i: "mgr_idle b"
  obtain v b1 where v: "find_victim_page b = (v, b1)" by force
  then have b1: "log_mgr b1 = log_mgr b" "mgr_idle b1" using i by (auto simp: find_victim_page_def mgr_idle_def split: list.splits prod.splits)
  show ?thesis
  proof (cases v)
    case (Some g)
    obtain x b2 where u: "update_page g p b1 = (x, b2)" by force
    then have "log_mgr b2 = log_mgr b" using update_page_mgr [OF b1(2), of g p] b1(1) by simp
    then show ?thesis using v Some u
      by (cases x) (auto simp: fetch_page_def pin_frame_def upd_page_def set_data_def Let_def split: option.split prod.split sum.split)
  qed (use v b1 in \<open>auto simp: fetch_page_def pin_frame_def upd_page_def Let_def split: option.split\<close>)
qed

lemma unpin_page_mgr: "log_mgr (snd (unpin_page p dirty b)) = log_mgr b"
  by (auto simp: unpin_page_def upd_page_def Let_def split: option.split)

lemma rm_mgr_simps [simp]:
  "log_mgr (pool (put_bytes f c rm)) = log_mgr (pool rm)" "log_mgr (pool (set_first_free n rm)) = log_mgr (pool rm)"
  "log_mgr (pool (unpin n dirty rm)) = log_mgr (pool rm)" "log_mgr (pool (stamp_lsn ctx f rm)) = log_mgr (pool rm)"
  "log_mgr (pool (snd (write_hdr rm))) = log_mgr (pool rm)"
  by (simp_all add: put_bytes_def set_data_def upd_page_def set_first_free_def unpin_def unpin_page_mgr stamp_lsn_def write_hdr_def lift_pool_def write_out_def
      split: option.split prod.split)

lemma fetch_handle_mgr:
  "mgr_idle (pool rm) \<Longrightarrow> fetch_page_handle n rm = (r, rm') \<Longrightarrow> log_mgr (pool rm') = log_mgr (pool rm)"
  using fetch_page_mgr [of "pool rm" "PageId (rm_fd rm) n"] by (auto simp: fetch_page_handle_def lift_pool_def split: prod.splits)

section \<open>Records in the log\<close>

definition log_bytes :: "log_record list \<Rightarrow> bytes" where
  "log_bytes rs = concat (map log_enc rs)"

lemma log_bytes_simps [simp]: "log_bytes [] = []" "log_bytes (r # rs) = log_enc r @ log_bytes rs" "log_bytes (rs @ qs) = log_bytes rs @ log_bytes qs"
  by (simp_all add: log_bytes_def)

abbreviation rec_type :: "log_record \<Rightarrow> LogType" where
  "rec_type r \<equiv> log_type (header r)"

abbreviation rec_lsn :: "log_record \<Rightarrow> int" where
  "rec_lsn r \<equiv> lsn (header r)"

abbreviation rec_tid :: "log_record \<Rightarrow> int" where
  "rec_tid r \<equiv> log_tid (header r)"

lemma hdr_fields:
  assumes "header_ok h"
  shows "hdr_type (header_enc h @ x) = Some (log_type h)" "hdr_len (header_enc h @ x) = log_tot_len h"
    "load_int (header_enc h @ x) OFFSET_LSN = lsn h" "load_int (header_enc h @ x) OFFSET_LOG_TID = log_tid h"
  using LogRecord_deserialize_enc [OF assms, of x]
  by (auto simp: LogRecord_deserialize_def hdr_type_def hdr_len_def LogRecord.truncate_def)

lemma log_enc_at:
  assumes ok: "log_ok r" and c: "c = log_bytes (pre @ r # post)"
  shows "slice (length (log_bytes pre)) 20 c = header_enc (header r)"
    and "slice (length (log_bytes pre)) (log_tot_len (header r)) c = log_enc r"
    and "length (log_bytes pre) + log_tot_len (header r) \<le> length c"
proof -
  have len: "length (log_enc r) = log_tot_len (header r)" using log_fmt.length_enc [OF ok] .
  obtain t where t: "log_enc r = header_enc (header r) @ t" using log_enc_header by blast
  show "slice (length (log_bytes pre)) 20 c = header_enc (header r)" unfolding c log_bytes_simps t append_assoc by (rule slice_field) simp_all
  show "slice (length (log_bytes pre)) (log_tot_len (header r)) c = log_enc r" unfolding c log_bytes_simps by (rule slice_field) (simp_all add: len)
  show "length (log_bytes pre) + log_tot_len (header r) \<le> length c" by (simp add: c len)
qed

text \<open>The two reads at the offset of a record.\<close>

lemma read_header_at:
  assumes w: "db_ok w" "log_idle c (sm_pool (d_sm w))" and ok: "log_ok r" and c: "c = log_bytes (pre @ r # post)" and len: "length c < 2 ^ 31"
  obtains hdr' w' where "read_buf LOG_HEADER_SIZE (length (log_bytes pre)) hdr w = (Inr hdr', w')" and "db_ok w'" and "log_idle c (sm_pool (d_sm w'))"
    and "sm_same (d_sm w) (d_sm w')" and "hdr_type hdr' = Some (rec_type r)" and "hdr_len hdr' = log_tot_len (header r)"
    and "load_int hdr' OFFSET_LSN = rec_lsn r" and "load_int hdr' OFFSET_LOG_TID = rec_tid r"
proof -
  note at = log_enc_at [OF ok c]
  have m: "memcpy hdr 0 (slice (length (log_bytes pre)) LOG_HEADER_SIZE c) = header_enc (header r) @ drop 20 hdr"
    using at(1) memcpy_start [of 0 hdr "header_enc (header r)"] by (simp add: log_offsets)
  have "header_ok (header r)" using log_ok_header [OF ok] by simp
  note f = hdr_fields [OF this, of "drop 20 hdr"]
  have "length (log_bytes pre) \<le> length c" using at(3) by simp
  from read_buf_ok [OF w len this, of LOG_HEADER_SIZE hdr] that f m show thesis by metis
qed

lemma read_row_at:
  assumes w: "db_ok w" "log_idle c (sm_pool (d_sm w))" and ok: "log_ok r" and c: "c = log_bytes (pre @ r # post)" and len: "length c < 2 ^ 31"
  obtains dat' w' where "read_row (rec_type r) (log_tot_len (header r)) (length (log_bytes pre)) dat w = (Inr (dat', r), w')" and "db_ok w'"
    and "log_idle c (sm_pool (d_sm w'))" and "sm_same (d_sm w) (d_sm w')"
proof -
  note at = log_enc_at [OF ok c]
  let ?off = "length (log_bytes pre)" and ?n = "log_tot_len (header r)" and ?x = "drop (length (log_enc r)) dat"
  have m: "memcpy dat 0 (slice ?off ?n c) = log_enc r @ ?x"
    using at(2) memcpy_start [of 0 dat "log_enc r"] by simp
  have "?off \<le> length c" using at(3) by simp
  from read_buf_ok [OF w len this, of ?n dat] m obtain w' where w': "read_buf ?n ?off dat w = (Inr (log_enc r @ ?x), w')" "db_ok w'" "log_idle c (sm_pool (d_sm w'))"
    "sm_same (d_sm w) (d_sm w')" by metis
  have "deserialize (log_enc r @ ?x) = Some r" "LogRecord_deserialize (log_enc r @ ?x) = Some (header r)"
    using log_fmt.deser_enc [OF ok] deserialize_header [OF ok] by blast+
  then have "(case rec_type r of
               INSERT \<Rightarrow> map_option LR_Insert (InsertLogRecord_deserialize (log_enc r @ ?x))
             | DELETE \<Rightarrow> map_option LR_Delete (DeleteLogRecord_deserialize (log_enc r @ ?x))
             | UPDATE \<Rightarrow> map_option LR_Update (UpdateLogRecord_deserialize (log_enc r @ ?x))
             | _ \<Rightarrow> map_option LR_Header (LogRecord_deserialize (log_enc r @ ?x))) = Some r"
    by (auto simp: deserialize_def split: LogType.splits)
  then have "read_row (rec_type r) ?n ?off dat w = (Inr (log_enc r @ ?x, r), w')"
    using w'(1) at(3) len by (simp add: read_row_def)
  then show thesis using w' by (intro that) auto
qed

end
