(* ===== verification/RecoveryPasses.thy ===== *)
theory RecoveryPasses
  imports RecoveryLog
begin

text \<open>
  The three passes of recovery on a log file that is a sequence of records: what the analysis finds, that redo skips the pages that already
  have their changes, and that undo takes back the changes of the active transactions from the last to the first.
\<close>

section \<open>What the analysis notes\<close>

definition note_record :: "database \<Rightarrow> log_record \<Rightarrow> nat \<times> int list \<times> recovery \<Rightarrow> nat \<times> int list \<times> recovery" where
  "note_record w r s =
     (case s of (off, ab, rc) \<Rightarrow>
        let rc = rc\<lparr>offsets := map_insert (rec_lsn r) off (offsets rc), last_lsn := rec_lsn r\<rparr>; off = off + log_tot_len (header r)
        in case analyze_record (rec_type r) (rec_lsn r) (rec_tid r) r w (ab, rc) of Inl e \<Rightarrow> (off, ab, rc) | Inr (ab, rc) \<Rightarrow> (off, ab, rc))"

definition noted :: "database \<Rightarrow> recovery \<Rightarrow> log_record list \<Rightarrow> nat \<times> int list \<times> recovery" where
  "noted w rc rs = fold (note_record w) rs (0, [], rc)"

lemma noted_simps [simp]: "noted w rc [] = (0, [], rc)" "noted w rc (rs @ [r]) = note_record w r (noted w rc rs)"
  by (simp_all add: noted_def)

definition rows_open :: "database \<Rightarrow> log_record list \<Rightarrow> bool" where
  "rows_open w rs \<longleftrightarrow> (\<forall>r \<in> set rs. is_row (Some (rec_type r)) \<longrightarrow> sm_fhs (d_sm w) (row_table r) \<noteq> None)"

lemma analyze_record_total:
  assumes "is_row (Some (rec_type r)) \<longrightarrow> sm_fhs (d_sm w) (row_table r) \<noteq> None"
  obtains ab' rc' where "analyze_record (rec_type r) l tid r w (ab, rc) = Inr (ab', rc')" and "offsets rc' = offsets rc" and "last_lsn rc' = last_lsn rc"
  using assms that
  by (cases "rec_type r") (auto simp: analyze_record_def analyze_row_def tab_fd_def is_row_def Let_def split: option.splits)

lemma analyze_record_same: "sm_fhs (d_sm w') = sm_fhs (d_sm w) \<Longrightarrow> analyze_record ty l tid r w' s = analyze_record ty l tid r w s"
  by (cases ty) (simp_all add: analyze_record_def analyze_row_def tab_fd_def)

lemma noted_offset:
  assumes "\<forall>r \<in> set rs. log_ok r"
  shows "fst (noted w rc rs) = length (log_bytes rs)"
  using assms
proof (induction rs rule: rev_induct)
  case (snoc r rs)
  then show ?case using log_fmt.length_enc [of r]
    by (cases "noted w rc rs") (auto simp: note_record_def Let_def split: sum.split)
qed simp

lemma analyze_loop_ok:
  assumes "db_ok w" and "log_idle c (sm_pool (d_sm w))" and "sm_same (d_sm w0) (d_sm w)" and "c = log_bytes (pre @ post)" and "length c < 2 ^ 31"
    and "\<forall>r \<in> set (pre @ post). log_ok r" and "rows_open w0 post" and "noted w0 rc0 pre = (length (log_bytes pre), ab, rc)"
  shows "\<exists>w'. analyze_loop (int (length c)) hdr dat ab (length (log_bytes pre)) (rc, w) = Some (Inr (), (snd (snd (noted w0 rc0 (pre @ post))), w')) \<and>
     db_ok w' \<and> log_idle c (sm_pool (d_sm w')) \<and> sm_same (d_sm w0) (d_sm w')"
  using assms
proof (induction post arbitrary: pre w hdr dat ab rc)
  case Nil
  then show ?case by (subst analyze_loop.simps) simp
next
  case (Cons r post)
  let ?off = "length (log_bytes pre)"
  have ok: "log_ok r" using Cons.prems(6) by simp
  have len: "length (log_enc r) = log_tot_len (header r)" "20 \<le> log_tot_len (header r)" using log_fmt.length_enc [OF ok] log_ok_header [OF ok] by simp_all
  note c = Cons.prems(4)
  obtain hdr' w1 where h: "read_buf LOG_HEADER_SIZE ?off hdr w = (Inr hdr', w1)" "db_ok w1" "log_idle c (sm_pool (d_sm w1))" "sm_same (d_sm w) (d_sm w1)"
    "hdr_type hdr' = Some (rec_type r)" "hdr_len hdr' = log_tot_len (header r)" "load_int hdr' OFFSET_LSN = rec_lsn r" "load_int hdr' OFFSET_LOG_TID = rec_tid r"
    by (rule read_header_at [OF Cons.prems(1,2) ok c Cons.prems(5)])
  obtain dat' w2 where d: "read_row (rec_type r) (log_tot_len (header r)) ?off dat w1 = (Inr (dat', r), w2)" "db_ok w2" "log_idle c (sm_pool (d_sm w2))"
    "sm_same (d_sm w1) (d_sm w2)" by (rule read_row_at [OF h(2,3) ok c Cons.prems(5)])
  have s: "sm_same (d_sm w0) (d_sm w2)" using Cons.prems(3) h(4) d(4) by (blast intro: sm_same_trans)
  then have fhs: "sm_fhs (d_sm w2) = sm_fhs (d_sm w0)" by (simp add: sm_same_def)
  let ?rc = "rc\<lparr>offsets := map_insert (rec_lsn r) ?off (offsets rc), last_lsn := rec_lsn r\<rparr>"
  have "is_row (Some (rec_type r)) \<longrightarrow> sm_fhs (d_sm w0) (row_table r) \<noteq> None" using Cons.prems(7) by (simp add: rows_open_def)
  then obtain ab' rc' where a: "analyze_record (rec_type r) (rec_lsn r) (rec_tid r) r w0 (ab, ?rc) = Inr (ab', rc')" by (rule analyze_record_total)
  have lb: "?off + log_tot_len (header r) = length (log_bytes (pre @ [r]))" by (simp add: len)
  have n: "noted w0 rc0 (pre @ [r]) = (length (log_bytes (pre @ [r])), ab', rc')" using Cons.prems(8) a by (simp add: note_record_def Let_def len)
  have more: "\<not> int (length c) \<le> int ?off" using c len by simp
  have step: "analyze_loop (int (length c)) hdr dat ab ?off (rc, w) = analyze_loop (int (length c)) hdr' dat' ab' (?off + log_tot_len (header r)) (rc', w2)"
    using h d(1) a more by (subst analyze_loop.simps) (simp add: with_db_def analyze_record_same [OF fhs] Let_def)
  show ?case unfolding step lb
    using Cons.IH [OF d(2,3) s _ Cons.prems(5) _ _ n, of hdr' dat'] Cons.prems(4,6,7) by (simp add: rows_open_def)
qed

section \<open>What the tables of the analysis say\<close>

definition numbered :: "int \<Rightarrow> log_record list \<Rightarrow> bool" where
  "numbered g rs \<longleftrightarrow> (\<forall>i < length rs. rec_lsn (rs ! i) = g + int i)"

lemma numbered_snoc: "numbered g (rs @ [r]) \<longleftrightarrow> numbered g rs \<and> rec_lsn r = g + int (length rs)"
  by (auto simp: numbered_def less_Suc_eq nth_append)


definition no_checkpoint :: "log_record list \<Rightarrow> bool" where
  "no_checkpoint rs \<longleftrightarrow> (\<forall>r \<in> set rs. rec_type r \<noteq> Checkpoint)"

text \<open>The last record of a transaction; its abort does not count.\<close>

definition last_of :: "int \<Rightarrow> log_record list \<Rightarrow> log_record option" where
  "last_of tid rs = find (\<lambda>r. rec_tid r = tid \<and> rec_type r \<noteq> ABORT) (rev rs)"

definition active :: "int \<Rightarrow> log_record list \<Rightarrow> int option" where
  "active tid rs = (case last_of tid rs of None \<Rightarrow> None | Some r \<Rightarrow> if rec_type r = LT_commit then None else Some (rec_lsn r))"

lemma last_of_simps [simp]:
  "last_of tid [] = None" "last_of tid (rs @ [r]) = (if rec_tid r = tid \<and> rec_type r \<noteq> ABORT then Some r else last_of tid rs)"
  by (simp_all add: last_of_def)

lemma active_simps [simp]:
  "active tid [] = None"
  "active tid (rs @ [r]) = (if rec_tid r = tid \<and> rec_type r \<noteq> ABORT then if rec_type r = LT_commit then None else Some (rec_lsn r) else active tid rs)"
  by (simp_all add: active_def)

definition page_at :: "database \<Rightarrow> log_record \<Rightarrow> PageId option" where
  "page_at w r = (if is_row (Some (rec_type r)) then map_option (\<lambda>fh. PageId (fst fh) (rid_page (row_rid r))) (sm_fhs (d_sm w) (row_table r)) else None)"

lemma map_of_erase_table: "map_of (map_erase k xs) = (map_of xs)(k := None)"
  by (induction xs) (auto simp: map_erase_def fun_eq_iff)

lemma sorted_erase: "sorted_wrt (<) (map fst xs) \<Longrightarrow> sorted_wrt (<) (map fst (map_erase k xs))"
  unfolding map_erase_def by (induction xs) auto

text \<open>One record and the table of active transactions, on a log without a checkpoint.\<close>

lemma analyze_record_tables:
  assumes a: "analyze_record (rec_type r) (rec_lsn r) (rec_tid r) r w (ab, rc) = Inr (ab', rc')" and n: "rec_type r \<noteq> Checkpoint"
    and s: "sorted_wrt (<) (map fst (ATT rc))"
  shows "sorted_wrt (<) (map fst (ATT rc'))"
    and "map_of (ATT rc') tid = (if rec_tid r = tid \<and> rec_type r \<noteq> ABORT then if rec_type r = LT_commit then None else Some (rec_lsn r) else map_of (ATT rc) tid)"
    and "map_of (DPT rc') p = (if map_of (DPT rc) p = None \<and> page_at w r = Some p then Some (rec_lsn r) else map_of (DPT rc) p)"
  using a n sorted_map_put [OF s] sorted_erase [OF s] map_of_map_put [OF s] s
  by (cases "rec_type r"; auto simp: analyze_record_def analyze_row_def tab_fd_def page_at_def is_row_def map_of_erase_table Let_def split: option.splits)+

lemma noted_ok:
  assumes "\<forall>r \<in> set rs. log_ok r" and "rows_open w rs" and "numbered g rs" and "no_checkpoint rs" and "noted w (RecoveryManager_init junk) rs = (off, ab, rc)"
  shows "sorted_wrt (<) (map fst (ATT rc))" and "\<And>tid. map_of (ATT rc) tid = active tid rs"
    and "\<And>p. map_of (DPT rc) p = map_option rec_lsn (find (\<lambda>r. page_at w r = Some p) rs)"
    and "sorted_wrt (<) (map fst (offsets rc))"
    and "\<And>l. map_of (offsets rc) l = (if g \<le> l \<and> l < g + int (length rs) then Some (length (log_bytes (take (nat (l - g)) rs))) else None)"
    and "rs \<noteq> [] \<Longrightarrow> last_lsn rc = g + int (length rs) - 1"
proof -
  have "sorted_wrt (<) (map fst (ATT rc)) \<and> (\<forall>tid. map_of (ATT rc) tid = active tid rs) \<and>
    (\<forall>p. map_of (DPT rc) p = map_option rec_lsn (find (\<lambda>r. page_at w r = Some p) rs)) \<and> sorted_wrt (<) (map fst (offsets rc)) \<and>
    (\<forall>l. map_of (offsets rc) l = (if g \<le> l \<and> l < g + int (length rs) then Some (length (log_bytes (take (nat (l - g)) rs))) else None)) \<and>
    (rs \<noteq> [] \<longrightarrow> last_lsn rc = g + int (length rs) - 1)"
    using assms
  proof (induction rs arbitrary: off ab rc rule: rev_induct)
    case Nil
    then show ?case by (auto simp: RecoveryManager_init_def)
  next
    case (snoc r rs)
    obtain off0 ab0 rc0 where n0: "noted w (RecoveryManager_init junk) rs = (off0, ab0, rc0)" by (metis prod_cases3)
    have pr: "\<forall>r \<in> set rs. log_ok r" "rows_open w rs" "numbered g rs" "no_checkpoint rs"
      using snoc.prems by (auto simp: rows_open_def numbered_snoc no_checkpoint_def)
    note ih = snoc.IH [OF pr n0]
    have off0: "off0 = length (log_bytes rs)" using noted_offset [OF pr(1)] n0 by (metis fst_conv)
    have l: "rec_lsn r = g + int (length rs)" using snoc.prems(3) by (simp add: numbered_snoc)
    let ?rc = "rc0\<lparr>offsets := map_insert (rec_lsn r) off0 (offsets rc0), last_lsn := rec_lsn r\<rparr>"
    have "is_row (Some (rec_type r)) \<longrightarrow> sm_fhs (d_sm w) (row_table r) \<noteq> None" using snoc.prems(2) by (simp add: rows_open_def)
    then obtain ab1 rc1 where a: "analyze_record (rec_type r) (rec_lsn r) (rec_tid r) r w (ab0, ?rc) = Inr (ab1, rc1)"
      "offsets rc1 = offsets ?rc" "last_lsn rc1 = last_lsn ?rc" by (rule analyze_record_total)
    then have rc: "rc = rc1" using snoc.prems(5) n0 by (simp add: note_record_def Let_def)
    have nc: "rec_type r \<noteq> Checkpoint" using snoc.prems(4) by (simp add: no_checkpoint_def)
    have sa: "sorted_wrt (<) (map fst (ATT ?rc))" using ih by simp
    note t = analyze_record_tables [OF a(1) nc sa]
    have new: "map_of (offsets rc0) (rec_lsn r) = None" using ih l by simp
    have so: "sorted_wrt (<) (map fst (offsets rc0))" using ih by simp
    have o: "offsets rc1 = map_put (rec_lsn r) off0 (offsets rc0)" using a(2) new by (simp add: map_insert_def)
    have "map_of (offsets rc1) l = (if g \<le> l \<and> l < g + int (length (rs @ [r])) then Some (length (log_bytes (take (nat (l - g)) (rs @ [r])))) else None)" for l
      using ih off0 \<open>rec_lsn r = g + int (length rs)\<close> unfolding o map_of_map_put [OF so] by auto
    moreover have "find (\<lambda>r. page_at w r = Some p) (rs @ [r]) =
        (case find (\<lambda>r. page_at w r = Some p) rs of None \<Rightarrow> if page_at w r = Some p then Some r else None | Some q \<Rightarrow> Some q)" for p
      by (induction rs) auto
    ultimately show ?case using ih t sorted_map_put [OF so] a(3) l unfolding rc o by (auto split: option.split)
  qed
  then show "sorted_wrt (<) (map fst (ATT rc))" and "\<And>tid. map_of (ATT rc) tid = active tid rs"
    and "\<And>p. map_of (DPT rc) p = map_option rec_lsn (find (\<lambda>r. page_at w r = Some p) rs)"
    and "sorted_wrt (<) (map fst (offsets rc))"
    and "\<And>l. map_of (offsets rc) l = (if g \<le> l \<and> l < g + int (length rs) then Some (length (log_bytes (take (nat (l - g)) rs))) else None)"
    and "rs \<noteq> [] \<Longrightarrow> last_lsn rc = g + int (length rs) - 1" by simp_all
qed

lemma noted_DPT:
  assumes "noted w (RecoveryManager_init junk) rs = (off, ab, rc)"
  shows "snd ` set (DPT rc) \<subseteq> rec_lsn ` set rs"
  using assms
proof (induction rs arbitrary: off ab rc rule: rev_induct)
  case Nil
  then show ?case by (auto simp: RecoveryManager_init_def)
next
  case (snoc r rs)
  obtain off0 ab0 rc0 where n0: "noted w (RecoveryManager_init junk) rs = (off0, ab0, rc0)" by (metis prod_cases3)
  let ?rc = "rc0\<lparr>offsets := map_insert (rec_lsn r) off0 (offsets rc0), last_lsn := rec_lsn r\<rparr>"
  have "snd ` set (DPT rc1) \<subseteq> insert (rec_lsn r) (snd ` set (DPT ?rc))"
    if "analyze_record (rec_type r) (rec_lsn r) (rec_tid r) r w (ab0, ?rc) = Inr (ab1, rc1)" for ab1 rc1
    using that by (cases "rec_type r") (auto simp: analyze_record_def analyze_row_def Let_def split: sum.splits if_splits)
  then have "snd ` set (DPT rc) \<subseteq> insert (rec_lsn r) (snd ` set (DPT rc0))"
    using snoc.prems n0 by (cases "analyze_record (rec_type r) (rec_lsn r) (rec_tid r) r w (ab0, ?rc)") (auto simp: note_record_def Let_def)
  then show ?case using snoc.IH [OF n0] by auto
qed

section \<open>Redo\<close>

text \<open>Every row operation of the log is on a page of its table that already has its number or a later one.\<close>

definition pages_current :: "database \<Rightarrow> log_record list \<Rightarrow> bool" where
  "pages_current w rs \<longleftrightarrow> (\<forall>r \<in> set rs. is_row (Some (rec_type r)) \<longrightarrow> (\<exists>fh. sm_fhs (d_sm w) (row_table r) = Some fh \<and>
     rid_page (row_rid r) \<in> data_pages (snd fh) \<and> rec_lsn r \<le> load_int (page_of (handle fh (sm_pool (d_sm w))) (rid_page (row_rid r))) 0))"



definition offsets_ok :: "int \<Rightarrow> log_record list \<Rightarrow> recovery \<Rightarrow> bool" where
  "offsets_ok g rs rc \<longleftrightarrow> (\<forall>l. g \<le> l \<and> l < g + int (length rs) \<longrightarrow> map_of (offsets rc) l = Some (length (log_bytes (take (nat (l - g)) rs))))"


section \<open>Undo\<close>







subsection \<open>The chains of the transactions\<close>

text \<open>
  The records of each of the transactions \<open>L\<close>, its abort apart, form a chain: it starts with a begin record, the others are row operations, and each names
  the number of the one before.
\<close>

definition chained :: "int list \<Rightarrow> log_record list \<Rightarrow> bool" where
  "chained L rs \<longleftrightarrow> (\<forall>pre r post. rs = pre @ r # post \<longrightarrow> rec_tid r \<in> set L \<longrightarrow> rec_type r \<noteq> ABORT \<longrightarrow>
     (case last_of (rec_tid r) pre of
        None \<Rightarrow> rec_type r = LT_begin
      | Some q \<Rightarrow> is_row (Some (rec_type r)) \<and> LogRecord.prev_lsn (header r) = rec_lsn q))"

definition heads :: "int list \<Rightarrow> log_record list \<Rightarrow> int list" where
  "heads L rs = List.map_filter (\<lambda>t. map_option rec_lsn (last_of t rs)) L"

definition rows_of :: "int list \<Rightarrow> log_record list \<Rightarrow> log_record list" where
  "rows_of L rs = filter (\<lambda>r. rec_tid r \<in> set L \<and> is_row (Some (rec_type r))) rs"


lemma heads_simps [simp]:
  "heads [] rs = []" "heads (t # L) rs = (case last_of t rs of None \<Rightarrow> heads L rs | Some r \<Rightarrow> rec_lsn r # heads L rs)"
  "heads (L @ L') rs = heads L rs @ heads L' rs"
  by (simp_all add: heads_def List.map_filter_def split: option.split)




lemma same_tables:
  assumes "sm_same (d_sm w) (d_sm w')"
  shows "table_map (d_sm w') = table_map (d_sm w)" "rec_sizes w' = rec_sizes w" "sm_db (d_sm w') = sm_db (d_sm w)"
  using sm_same_table(1) [OF assms] assms by (auto simp: sm_same_def rec_sizes_def)



section \<open>Properties\<close>

lemma analyze_ok:
  assumes w: "db_ok w" "log_idle (log_bytes rs) (sm_pool (d_sm w))" and len: "length (log_bytes rs) < 2 ^ 31" and ok: "\<forall>r \<in> set rs. log_ok r"
    and op: "rows_open w rs" and g: "numbered g rs" and n: "no_checkpoint rs"
  obtains rc w' where "analyze hdr dat (RecoveryManager_init junk, w) = Some (Inr (), (rc, w'))" and "db_ok w'" and "log_idle (log_bytes rs) (sm_pool (d_sm w'))"
    and "sm_same (d_sm w) (d_sm w')" and "sorted_wrt (<) (map fst (ATT rc))" and "\<forall>tid. map_of (ATT rc) tid = active tid rs"
    and "\<forall>p. map_of (DPT rc) p = map_option rec_lsn (find (\<lambda>r. page_at w r = Some p) rs)" and "offsets_ok g rs rc" and "rs \<noteq> [] \<longrightarrow> last_lsn rc = g + int (length rs) - 1"
    and "snd ` set (DPT rc) \<subseteq> rec_lsn ` set rs"
proof -
  let ?c = "log_bytes rs" and ?rc0 = "RecoveryManager_init junk"
  have i: "sm_inv (d_sm w)" and e: "env_ok (sm_pool (d_sm w))" using w(1) by (simp_all add: db_ok_def)
  have "px_files (os (disk (sm_pool (d_sm w)))) LOG_FILE_NAME = Some ?c"
    using w(2) e by (auto simp: log_idle_def env_ok_def log_inv_def log_ready_def log_file_def)
  then have fs: "get_file_size LOG_FILE_NAME (disk (sm_pool (d_sm w))) = int (length ?c)" using len by (simp add: get_file_size_def int32_def)
  obtain off ab rc where nt: "noted w ?rc0 rs = (off, ab, rc)" by (metis prod_cases3)
  note t = noted_ok [OF ok op g n nt]
  obtain w' where "analyze_loop (int (length ?c)) hdr dat [] 0 (?rc0, w) = Some (Inr (), (rc, w'))" "db_ok w'" "log_idle ?c (sm_pool (d_sm w'))" "sm_same (d_sm w) (d_sm w')"
    using analyze_loop_ok [OF w sm_same_refl [OF i] _ len, of "[]" rs ?rc0 "[]" ?rc0 hdr dat] ok op nt by auto
  moreover have "offsets_ok g rs rc" using t(5) by (simp add: offsets_ok_def)
  ultimately show thesis using t(1,2,3,6) fs noted_DPT [OF nt] by (intro that [of rc w']) (simp_all add: analyze_def)
qed

text \<open>The transactions with records in the log whose last record, aborts apart, is no commit.\<close>

definition losers :: "log_record list \<Rightarrow> int list" where
  "losers rs = filter (\<lambda>t. active t rs \<noteq> None) (remdups (map rec_tid rs))"





text \<open>
  C22: what the analysis pass finds. For a log file that is a sequence of records numbered one after the other, without a checkpoint, whose tables are
  open, \<open>analyze\<close> comes to an end and leaves the tables as they are. The table of active transactions has exactly
  the transactions whose last record, aborts apart, is no commit, with the number of that record: a committed transaction is not in it, and an aborted
  one is. The table of dirty pages has exactly the pages of the row operations, with the number of the first operation on the page, and every
  record is found at its offset.
\<close>

theorem analysis_finds_active_transactions:
  assumes "db_ok w" and "log_idle (log_bytes rs) (sm_pool (d_sm w))" and "length (log_bytes rs) < 2 ^ 31" and "\<forall>r \<in> set rs. log_ok r"
    and "rows_open w rs" and "numbered g rs" and "no_checkpoint rs"
  shows "\<exists>rc w'. analyze hdr dat (RecoveryManager_init junk, w) = Some (Inr (), (rc, w')) \<and> table_map (d_sm w') = table_map (d_sm w) \<and>
     (\<forall>tid. map_of (ATT rc) tid = active tid rs) \<and> (\<forall>p. map_of (DPT rc) p = map_option rec_lsn (find (\<lambda>r. page_at w r = Some p) rs)) \<and>
     (\<forall>i < length rs. map_of (offsets rc) (rec_lsn (rs ! i)) = Some (length (log_bytes (take i rs))))"
proof -
  obtain rc w' where a: "analyze hdr dat (RecoveryManager_init junk, w) = Some (Inr (), (rc, w'))" "sm_same (d_sm w) (d_sm w')"
    "\<forall>tid. map_of (ATT rc) tid = active tid rs" "\<forall>p. map_of (DPT rc) p = map_option rec_lsn (find (\<lambda>r. page_at w r = Some p) rs)" "offsets_ok g rs rc"
    using analyze_ok [OF assms] by metis
  have "map_of (offsets rc) (rec_lsn (rs ! i)) = Some (length (log_bytes (take i rs)))" if "i < length rs" for i
    using a(5) assms(6) that by (simp add: offsets_ok_def numbered_def)
  then show ?thesis using a same_tables [OF a(2)] by blast
qed


subsection \<open>What is left of a log\<close>











subsection \<open>An example\<close>

text \<open>A page has the number of the insertion into it.\<close>

lemma insert_record_lsn:
  assumes i: "rm_inv rm" and b: "length buf = rec_size (file_hdr rm)" and lim: "num_pages (file_hdr rm) < 2 ^ 19" and l: "int32 l"
    and ins: "insert_record buf (Some l) rm = (Inr r, rm')"
  shows "load_int (page_of rm' (rid_page r)) 0 = l"
proof -
  obtain m n f h g rm1 where cr: "create_page_handle rm = (Inr (Some f), rm1)" and wk: "working m rm n f h g rm1"
    and n: "n = first_free_page_no h" "has_room h (g n)" using create_page_ok [OF i lim] by metis
  note wd = workingD [OF wk]
  let ?c = "page_insert h buf (g n)" and ?rmb = "put_bytes f (page_insert h buf (g n)) rm1"
  have "length buf = rec_size h" using b wd(14) by simp
  note po = page_insert_ok [OF wd(9,10) n(2) this]
  have r2: "holds m rm n f ?c ?rmb" using wd(1) by (rule holds_put) (use po(2) in \<open>simp add: page_wf_def\<close>)
  obtain c rm3 where x: "retire_if_full f ?rmb = (Inr (), rm3)" and r3: "holds m rm n f c rm3" and st: "settled h g n c (file_hdr rm3)"
    by (rule retire_ok [OF i wk r2 _ n(1) po(2,3) n(2)]) (use wd(3) in auto)
  have e: "r = Rid n (int (first_bit False bitmap_off (per_page h) (g n)))" "rm' = unpin n True (stamp_lsn (Some l) f rm3)"
    using ins cr wd(3,12) x holdsD(2) [OF holds_stamp(1) [OF r3, of "Some l"]] by (simp_all add: insert_record_def use_page_def Let_def page_insert_def)
  note r5 = holds_stamp [OF r3, of "Some l", simplified]
  obtain y where y: "file_hdr rm3 = h\<lparr>first_free_page_no := y\<rparr>" and pw: "page_wf h c" using st by (auto simp: settled_def)
  have "page_of rm' n = set_lsn_bytes l c"
    unfolding e(2) using r5 wd(2,6) y data_page_int32 [OF wd(4)] by (intro released(3) [OF rm_invD(1) [OF i] r5(1)]) simp_all
  then show ?thesis using e(1) l pw by (simp add: set_lsn_bytes_def page_wf_def PAGE_SIZE_def load_store_int)
qed

text \<open>The log file of a database may be any text.\<close>

definition with_log :: "bytes \<Rightarrow> bpm \<Rightarrow> bpm" where
  "with_log c b = b\<lparr>log_mgr := Some (LogManager_init 0), disk := (disk b)\<lparr>os := (os (disk b))\<lparr>px_files := (px_files (os (disk b)))(LOG_FILE_NAME \<mapsto> c)\<rparr>\<rparr>\<rparr>"

lemma with_log_ok:
  assumes b: "bpm_inv b" and l: "log_mgr b \<noteq> None" and len: "length c \<le> px_max_file (os (disk b))"
  shows "bpm_inv (with_log c b)" and "log_idle c (with_log c b)" and "\<And>q. valid_pid (disk b) q \<Longrightarrow> dpage (disk (with_log c b)) q = dpage (disk b) q"
proof -
  let ?b = "with_log c b" and ?d = "disk (with_log c b)"
  note i = bpm_invD [OF b]
  obtain lm where lm: "log_inv (lm, disk b)" using i(1) l by (auto simp: env_ok_def)
  have px: "px_new_fd (os ?d) = px_new_fd (os (disk b))" using lm by (intro px_new_fd_same_dom) (auto simp: with_log_def log_inv_def log_ready_def)
  have di: "disk_inv ?d" using i(1) by (auto simp: env_ok_def disk_inv_def with_log_def)
  have "log_inv (LogManager_init 0, ?d)"
    using lm di px len by (simp add: log_inv_def log_ready_def log_stream_def log_file_def LogManager_init_def int32_def with_log_def)
  then have env: "env_ok ?b" using di by (simp add: env_ok_def with_log_def)
  show dp: "dpage ?d q = dpage (disk b) q" if "valid_pid (disk b) q" for q
    using that by (auto simp: dpage_def disk_page_def with_log_def valid_pid_def data_fd_def split: option.splits)
  have "valid_pid ?d = valid_pid (disk b)" by (simp add: valid_pid_def data_fd_def with_log_def fun_eq_iff)
  moreover have "sync_ok {} ?b" using i(3,6) dp by (fastforce simp: sync_ok_def table_ok_def with_log_def)
  ultimately show "bpm_inv ?b" using i env by (simp add: bpm_inv_def frames_ok_def table_ok_def free_ok_def repl_ok_def with_log_def)
  show "log_idle c ?b" by (simp add: log_idle_def with_log_def LogManager_init_def log_file_def)
qed

definition sample_begin :: log_record where
  "sample_begin = LR_Header ((BeginLogRecord_init 5)\<lparr>lsn := 0\<rparr>)"

definition sample_row :: "Rid \<Rightarrow> log_record" where
  "sample_row r = LR_Insert ((InsertLogRecord_init 5 0 [7, 0, 0, 0] r ''t'' 1 2)\<lparr>lsn := 1\<rparr>)"

lemma sample_records:
  assumes "Rid_ok r"
  shows "\<forall>x \<in> set [sample_begin, sample_row r]. log_ok x" "numbered 0 [sample_begin, sample_row r]" "no_checkpoint [sample_begin, sample_row r]"
    "set (losers [sample_begin, sample_row r]) = {5}" "rows_of (losers [sample_begin, sample_row r]) [sample_begin, sample_row r] = [sample_row r]"
    "chained (losers [sample_begin, sample_row r]) [sample_begin, sample_row r]" "length (log_bytes [sample_begin, sample_row r]) = 73"
proof -
  have h: "header sample_begin = (BeginLogRecord_init 5)\<lparr>lsn := 0\<rparr>"
    "header (sample_row r) = \<lparr>log_type = INSERT, lsn = 1, log_tot_len = 53, log_tid = 5, prev_lsn = 0\<rparr>"
    by (simp_all add: sample_begin_def sample_row_def LogRecord.truncate_def InsertLogRecord_init_def log_offsets)
  note hs = h BeginLogRecord_init_def
  show ok: "\<forall>x \<in> set [sample_begin, sample_row r]. log_ok x"
    using assms by (simp add: sample_begin_def sample_row_def BeginLogRecord_init_def InsertLogRecord_init_def header_ok_def insert_ok_def row_ok_def int32_def INVALID_LSN_def log_offsets)
  have two: "[sample_begin, sample_row r] = [sample_begin] @ [sample_row r]" "[sample_begin] = [] @ [sample_begin]" by simp_all
  show "numbered 0 [sample_begin, sample_row r]" by (simp add: numbered_def less_Suc_eq hs)
  show "no_checkpoint [sample_begin, sample_row r]" by (simp add: no_checkpoint_def hs)
  have l: "last_of t [sample_begin] = (if t = 5 then Some sample_begin else None)" for t by (simp add: last_of_def hs)
  have "active 5 [sample_begin, sample_row r] = Some 1" by (simp add: active_def last_of_def hs)
  then show s: "set (losers [sample_begin, sample_row r]) = {5}" by (auto simp: losers_def hs)
  show "rows_of (losers [sample_begin, sample_row r]) [sample_begin, sample_row r] = [sample_row r]" by (simp add: rows_of_def s hs is_row_def)
  show "chained (losers [sample_begin, sample_row r]) [sample_begin, sample_row r]"
    unfolding chained_def s by (auto simp: Cons_eq_append_conv l hs is_row_def)
  have "length (log_enc sample_begin) = 20" "length (log_enc (sample_row r)) = 53" using ok log_fmt.length_enc by (simp_all add: hs log_offsets)
  then show "length (log_bytes [sample_begin, sample_row r]) = 73" by simp
qed

text \<open>A table with one record, inserted by transaction 5, and the log of that insertion.\<close>

lemma sample_crash:
  obtains r w where "Rid_ok r" and "db_ok w" and "log_idle (log_bytes [sample_begin, sample_row r]) (sm_pool (d_sm w))"
    and "pages_current w [sample_begin, sample_row r]" and "get_all_indexes (sm_db (d_sm w)) = []" and "table_map (d_sm w) ''t'' = [r \<mapsto> [7, 0, 0, 0]]"
proof -
  let ?sm = "d_sm sample_world" and ?h = "RmFileHdr_init 4" and ?rm = "handle (3, RmFileHdr_init 4) (sm_pool (d_sm sample_world))"
  have i: "sm_inv ?sm" "rm_inv ?rm" using sample_world_ok(1,6) sm_invD [of ?sm "''t''"] by (auto simp: db_ok_def)
  have n: "num_pages ?h < 2 ^ 19" "rec_size ?h = 4" by (simp_all add: RmFileHdr_init_def Let_def)
  have m0: "rm_map ?rm = Map.empty" using sample_world_ok(6,7) by (simp add: table_map_def)
  from insert_record_ok [OF i(2), of "[7, 0, 0, 0]" "Some 1"] n m0 obtain r rm where rm: "insert_record [7, 0, 0, 0] (Some 1) ?rm = (Inr r, rm)" "rm_inv rm"
    "rm_map rm = [r \<mapsto> [7, 0, 0, 0]]" "others_kept ?rm rm" by auto
  have lsn: "load_int (page_of rm (rid_page r)) 0 = 1" using insert_record_lsn [OF i(2) _ _ _ rm(1)] n by (simp add: int32_def)
  have "log_view (pool rm) = (2 ^ 32, Some (0, [7]))" using insert_record_view [OF i(2) _ _ rm(1)] n sample_world_ok(5) by simp
  then have lg: "log_mgr (pool rm) \<noteq> None" "px_max_file (os (disk (pool rm))) = 2 ^ 32" by (auto simp: log_view_def)
  let ?f = "insert_record [7, 0, 0, 0] (Some 1)"
  obtain sm1 where sm1: "on_table ''t'' ?f ?sm = (Inr r, sm1)" "sm_inv sm1" "sm_db sm1 = sm_db ?sm" "table_map sm1 = (table_map ?sm)(''t'' := rm_map rm)"
    "sm_fhs sm1 = (sm_fhs ?sm)(''t'' \<mapsto> (rm_fd rm, file_hdr rm))" by (rule on_table_ok [where f = ?f, OF i(1) sample_world_ok(6) rm(1,2,4)])
  have p1: "sm_pool sm1 = pool rm" using sm1(1) sample_world_ok(6) rm(1) by (auto simp: on_table_def)
  have e: "rm_map rm r = Some [7, 0, 0, 0]" using rm(3) by simp
  have ro: "Rid_ok r" using rid_of_record [OF rm(2) e] by (simp add: Rid_ok_def)
  let ?c = "log_bytes [sample_begin, sample_row r]"
  have b: "bpm_inv (pool rm)" using rm(2) by (simp add: rm_inv_def pool_side_def)
  have "length ?c \<le> px_max_file (os (disk (pool rm)))" using sample_records(7) [OF ro] lg(2) by simp
  note wl = with_log_ok [OF b lg(1) this]
  let ?d = "disk (with_log ?c (pool rm))" and ?sm = "sm1\<lparr>sm_pool := with_log (log_bytes [sample_begin, sample_row r]) (pool rm)\<rparr>"
  have files: "data_fd ?d (fst fh) \<and> fd2pageno ?d (fst fh) = fd2pageno (disk (sm_pool sm1)) (fst fh) \<and>
       (\<forall>n c. page_ok n \<longrightarrow> dpage (disk (sm_pool sm1)) (PageId (fst fh) n) = Some c \<longrightarrow> dpage ?d (PageId (fst fh) n) = Some c)"
    if t: "sm_fhs sm1 t = Some fh" for t fh
  proof -
    have "data_fd (disk (pool rm)) (fst fh)" using sm_invD [OF sm1(2) t] p1 by (simp add: rm_inv_def pool_side_def)
    then show ?thesis using wl(3) p1 by (simp add: valid_pid_def) (simp add: data_fd_def with_log_def)
  qed
  have "(sm_pool sm1)\<lparr>log_mgr := Some (LogManager_init 0), disk := ?d\<rparr> = with_log ?c (pool rm)" using p1 by (simp add: with_log_def)
  with sm_env_files(2) [OF sm1(2) files, where lm = "Some (LogManager_init 0)"] wl(1) have same: "sm_same sm1 ?sm" by simp
  let ?w = "sample_world\<lparr>d_sm := ?sm\<rparr>"
  have fh: "sm_fhs sm1 ''t'' = Some (rm_fd rm, file_hdr rm)" using sm1(5) by simp
  have pg: "rid_page r \<in> data_pages (file_hdr rm)" using rm_map_page(1) [OF e] .
  have "page_of (handle (rm_fd rm, file_hdr rm) (sm_pool ?sm)) (rid_page r) = page_of rm (rid_page r)"
    using same fh pg p1 by (auto simp: sm_same_def rm_alike_def handle_eta dest!: spec [of _ "''t''"])
  then have "pages_current ?w [sample_begin, sample_row r]"
    using fh pg lsn by (auto simp: pages_current_def is_row_def sample_begin_def sample_row_def BeginLogRecord_init_def InsertLogRecord_init_def)
  moreover have "db_ok ?w" using sm_same_inv [OF same] wl(1) by (simp add: db_ok_def bpm_inv_def)
  moreover have "get_all_indexes (sm_db (d_sm ?w)) = []" using sm1(3) by (simp add: get_all_indexes_def sample_world_def sample_sm_def)
  moreover have "table_map (d_sm ?w) ''t'' = [r \<mapsto> [7, 0, 0, 0]]" using sm_same_table(1) [OF same, of "''t''"] sm1(4) rm(3) by simp
  ultimately show thesis using ro wl(2) by (intro that [of r ?w]) simp_all
qed

theorem analysis_finds_active_transactions_witness:
  "\<exists>r w rc w'. analyze [] [] (RecoveryManager_init 0, w) = Some (Inr (), (rc, w')) \<and> log_idle (log_bytes [sample_begin, sample_row r]) (sm_pool (d_sm w)) \<and>
     map_of (ATT rc) 5 = Some 1"
proof -
  obtain r w where w: "Rid_ok r" "db_ok w" "log_idle (log_bytes [sample_begin, sample_row r]) (sm_pool (d_sm w))" "pages_current w [sample_begin, sample_row r]"
    by (rule sample_crash)
  note s = sample_records [OF w(1)]
  have "rows_open w [sample_begin, sample_row r]" using w(4) by (auto simp: rows_open_def pages_current_def)
  from analysis_finds_active_transactions [OF w(2,3) _ s(1) this s(2,3), of "[]" "[]" 0] s(7) obtain rc w' where
    "analyze [] [] (RecoveryManager_init 0, w) = Some (Inr (), (rc, w'))" "map_of (ATT rc) 5 = active 5 [sample_begin, sample_row r]" by auto
  moreover have "active 5 [sample_begin, sample_row r] = Some 1"
    by (simp add: active_def last_of_def sample_row_def InsertLogRecord_init_def)
  ultimately show ?thesis using w(3) by auto
qed


end
