(* ===== verification/Ast.thy ===== *)
theory Ast
  imports Values
begin

text \<open>
  The syntax trees of \<^verbatim>\<open>parser/ast.h\<close>. The class hierarchy below \<open>TreeNode\<close> becomes a datatype with one
  constructor for every statement; expressions, the conditions of a \<open>WHERE\<close> clause and the statements are
  mutually recursive because a condition may hold a sub-query, which is any node of the tree. A pointer that a
  constructor of the source leaves null is an option. Names that other headers use too carry the prefix
  \<open>ast_\<close>, as the namespace \<open>ast\<close> does in the source.
\<close>

section \<open>Enumerations\<close>

datatype SvType = SV_TYPE_INT | SV_TYPE_FLOAT | SV_TYPE_STRING | SV_TYPE_BOOL | SV_TYPE_DATETIME

datatype SvCompOp = SV_OP_EQ | SV_OP_NE | SV_OP_LT | SV_OP_GT | SV_OP_LE | SV_OP_GE

datatype OrderByDir = OrderBy_DEFAULT | OrderBy_ASC | OrderBy_DESC

datatype SetKnobType = EnableNestLoop | EnableSortMerge

datatype ast_AggrType = AGG_NO_OP | AGG_SUM | AGG_MAX | AGG_MIN | AGG_COUNT | AGG_COUNT_STAR | NON_AGG_ALL

section \<open>Values, columns and fields\<close>

datatype ast_Value = IntLit int | FloatLit f32 | StringLit bytes | BoolLit bool | DateTimeLit bytes

datatype Col = Col (col_tab_name: string) (col_col_name: string)

record TypeLen =
  tl_type :: SvType
  tl_len :: int

text \<open>A field of \<open>CREATE TABLE\<close> is of the base class or a column definition.\<close>

datatype Field = BaseField | ast_ColDef string TypeLen

record ast_SetClause =
  as_col_name :: string
  as_val :: ast_Value

record AggCol =
  ag_column :: "Col option"
  ag_type :: ast_AggrType
  ag_has_alias :: bool
  ag_alias :: string

text \<open>The three constructors of \<open>AggCol\<close>, and \<open>setAlias\<close>.\<close>

definition AggCol_star :: "ast_AggrType \<Rightarrow> rmdb_error + AggCol" where
  "AggCol_star t =
     (if t = AGG_COUNT_STAR \<or> t = NON_AGG_ALL then Inr \<lparr>ag_column = None, ag_type = t, ag_has_alias = False, ag_alias = []\<rparr>
      else Inl (AssertionFailed ''ag_type == AGG_COUNT_STAR || ag_type == NON_AGG_ALL''))"

definition AggCol_col :: "Col \<Rightarrow> AggCol" where
  "AggCol_col c = \<lparr>ag_column = Some c, ag_type = AGG_NO_OP, ag_has_alias = False, ag_alias = []\<rparr>"

definition AggCol_aggr :: "Col \<Rightarrow> ast_AggrType \<Rightarrow> AggCol" where
  "AggCol_aggr c t = \<lparr>ag_column = Some c, ag_type = t, ag_has_alias = False, ag_alias = []\<rparr>"

definition setAlias :: "string \<Rightarrow> AggCol \<Rightarrow> AggCol" where
  "setAlias a col = col\<lparr>ag_has_alias := True, ag_alias := a\<rparr>"

record HavingExpr =
  hv_lhs :: AggCol
  hv_op :: SvCompOp
  hv_rhs :: ast_Value

record OrderBy =
  ob_cols :: Col
  orderby_dir :: OrderByDir

section \<open>Statements and expressions\<close>

datatype TreeNode =
    Help
  | ShowTables
  | ShowIndex string
  | TxnBegin
  | TxnCommit
  | TxnAbort
  | TxnRollback
  | CkpStmt
  | OffStmt
  | LoadStmt string string
  | CreateTable string "Field list"
  | DropTable string
  | DescTable string
  | CreateIndex string "string list"
  | DropIndex string "string list"
  | InsertStmt string "ast_Value list"
  | DeleteStmt string "BinaryExpr list"
  | UpdateStmt string "ast_SetClause list" "BinaryExpr list"
  | SetStmt SetKnobType bool
  | SelectNode SelectStmt
and SelectStmt =
    SelectStmt (agg_cols: "AggCol list") (sel_tabs: "string list") (sel_conds: "BinaryExpr list") (sel_group_bys: "Col list")
      (sel_havings: "HavingExpr list") (sel_order_bys: "OrderBy option")
and BinaryExpr =
    BinaryExpr (be_lhs: Col) (be_in_clause: bool) (be_op: SvCompOp) (be_rhs: Expr)
and Expr =
    ValueExpr ast_Value
  | ColExpr Col
  | SubqueryExpr TreeNode
  | ValueList "ast_Value list"

definition has_sort :: "SelectStmt \<Rightarrow> bool" where
  "has_sort x \<longleftrightarrow> sel_order_bys x \<noteq> None"

text \<open>The two constructors of \<open>BinaryExpr\<close>: a comparison, and \<open>IN\<close>.\<close>

definition BinaryExpr_op :: "Col \<Rightarrow> SvCompOp \<Rightarrow> Expr \<Rightarrow> BinaryExpr" where
  "BinaryExpr_op l op r = BinaryExpr l False op r"

definition BinaryExpr_in :: "Col \<Rightarrow> Expr \<Rightarrow> rmdb_error + BinaryExpr" where
  "BinaryExpr_in l r =
     (case r of
        SubqueryExpr t \<Rightarrow> Inr (BinaryExpr l True SV_OP_EQ r)
      | ValueList vs \<Rightarrow> Inr (BinaryExpr l True SV_OP_EQ r)
      | _ \<Rightarrow> Inl (InternalError ''Unexpected expression after IN''))"

lemma size_sub_select:
  assumes "be_rhs c = SubqueryExpr (SelectNode s)"
  shows "size s < size c"
  using assms by (cases c) simp

lemma size_sel_conds: "size_list size (sel_conds x) < size x"
  by (cases x) simp

end
