(* ===== verification/Analyze.thy ===== *)
theory Analyze
  imports Ast Tables
begin

text \<open>
  The semantic analysis of \<^verbatim>\<open>analyze/analyze.cpp\<close>: columns without a table are resolved, conditions are
  converted and typed, sub-queries are analysed recursively. An exception is the left side of the result. The
  record \<open>uninit\<close> holds what a freshly declared object contains before it is written: the type and the number
  of a \<open>Value\<close>, an operator, a flag, an aggregate that \<open>convert_sv_aggr\<close> falls off, and the bytes of a buffer.
  The list of tables is moved out of the statement; it is not read there again and the model leaves it in place.
\<close>

section \<open>Results\<close>

definition sbind :: "rmdb_error + 'a \<Rightarrow> ('a \<Rightarrow> rmdb_error + 'b) \<Rightarrow> rmdb_error + 'b" where
  "sbind r f = (case r of Inl e \<Rightarrow> Inl e | Inr a \<Rightarrow> f a)"

lemma sbind_simps [simp]: "sbind (Inl e) f = Inl e" "sbind (Inr a) f = f a"
  by (simp_all add: sbind_def)

lemma sbind_Inr [res_simps]: "sbind r f = Inr b \<longleftrightarrow> (\<exists>a. r = Inr a \<and> f a = Inr b)"
  by (cases r) auto

fun smap :: "('a \<Rightarrow> rmdb_error + 'b) \<Rightarrow> 'a list \<Rightarrow> rmdb_error + 'b list" where
  "smap f [] = Inr []"
| "smap f (x # xs) = sbind (f x) (\<lambda>y. sbind (smap f xs) (\<lambda>ys. Inr (y # ys)))"

lemma smap_Inr: "smap f xs = Inr ys \<longleftrightarrow> list_all2 (\<lambda>x y. f x = Inr y) xs ys"
  by (induction xs arbitrary: ys) (auto simp: sbind_Inr list_all2_Cons1)

lemma smap_in_set: "smap f xs = Inr ys \<Longrightarrow> y \<in> set ys \<Longrightarrow> \<exists>x \<in> set xs. f x = Inr y"
  by (induction xs arbitrary: ys) (auto simp: sbind_Inr)

record uninit =
  u_type :: ColType
  u_num :: "32 word"
  u_op :: CompOp
  u_flag :: bool
  u_aggr :: AggrType
  u_mem :: bytes

definition new_value :: "uninit \<Rightarrow> Value" where
  "new_value u = \<lparr>v_type = u_type u, v_num = u_num u, str_val = [], v_raw = None\<rparr>"

section \<open>The analysed query\<close>

record Alias =
  al_has :: bool
  al_name :: string

datatype Query =
    Query (q_parse: "TreeNode option") (q_conds: "Condition list") (q_cols: "TabCol list") (q_tables: "string list")
      (q_set_clauses: "SetClause list") (q_values: "Value list") (q_aliases: "Alias list") (q_aggregates: "AggrCol list")
      (q_group_bys: "TabCol list") (q_havings: "HavingCond list") (q_has_subquery: bool) (q_subquery: Subquery)
and Subquery =
    Subquery (sub_lhs: TabCol) (sub_op: CompOp) (sub_in: bool) (sub_value_list: bool) (sub_query: "Query option")

definition new_subquery :: "uninit \<Rightarrow> Subquery" where
  "new_subquery u = Subquery (TabCol [] []) (u_op u) False False None"

definition new_query :: "uninit \<Rightarrow> Query" where
  "new_query u = Query None [] [] [] [] [] [] [] [] [] (u_flag u) (new_subquery u)"

definition set_parse :: "TreeNode \<Rightarrow> Query \<Rightarrow> Query" where
  "set_parse t q =
     Query (Some t) (q_conds q) (q_cols q) (q_tables q) (q_set_clauses q) (q_values q) (q_aliases q) (q_aggregates q)
       (q_group_bys q) (q_havings q) (q_has_subquery q) (q_subquery q)"

section \<open>Conversions\<close>

definition convert_sv_value :: "uninit \<Rightarrow> ast_Value \<Rightarrow> rmdb_error + Value" where
  "convert_sv_value u sv =
     (case sv of
        IntLit i \<Rightarrow> Inr (set_int i (new_value u))
      | FloatLit f \<Rightarrow> Inr (set_float f (new_value u))
      | StringLit s \<Rightarrow> Inr (set_str s (new_value u))
      | _ \<Rightarrow> Inl (InternalError ''Unexpected sv value type''))"

definition convert_sv_comp_op :: "SvCompOp \<Rightarrow> CompOp" where
  "convert_sv_comp_op op =
     (case op of SV_OP_EQ \<Rightarrow> OP_EQ | SV_OP_NE \<Rightarrow> OP_NE | SV_OP_LT \<Rightarrow> OP_LT | SV_OP_GT \<Rightarrow> OP_GT | SV_OP_LE \<Rightarrow> OP_LE
      | SV_OP_GE \<Rightarrow> OP_GE)"

definition convert_sv_aggr :: "uninit \<Rightarrow> ast_AggrType \<Rightarrow> AggrType" where
  "convert_sv_aggr u t =
     (case t of AGG_COUNT \<Rightarrow> AggrType.COUNT | AGG_MAX \<Rightarrow> AggrType.MAX | AGG_MIN \<Rightarrow> AggrType.MIN | AGG_SUM \<Rightarrow> AggrType.SUM | AGG_COUNT_STAR \<Rightarrow> COUNT_STAR
      | AGG_NO_OP \<Rightarrow> NON_AGG | NON_AGG_ALL \<Rightarrow> u_aggr u)"

section \<open>Columns\<close>

text \<open>The loop of \<open>check_column\<close>; the second argument is the table found so far.\<close>

fun infer_table :: "string \<Rightarrow> string \<Rightarrow> ColMeta list \<Rightarrow> rmdb_error + string" where
  "infer_table col_name tab_name [] = Inr tab_name"
| "infer_table col_name tab_name (col # cols) =
     (if cm_name col = col_name
      then if tab_name \<noteq> [] then Inl (AmbiguousColumnError col_name) else infer_table col_name (cm_tab_name col) cols
      else infer_table col_name tab_name cols)"

definition check_column :: "ColMeta list \<Rightarrow> TabCol \<Rightarrow> rmdb_error + TabCol" where
  "check_column all_cols target =
     (if tc_tab target = []
      then sbind (infer_table (tc_col target) [] all_cols) (\<lambda>tab_name.
             if tab_name = [] then Inl (ColumnNotFoundError (tc_col target)) else Inr (TabCol tab_name (tc_col target)))
      else Inr target)"

fun get_all_cols :: "DbMeta \<Rightarrow> string list \<Rightarrow> rmdb_error + ColMeta list" where
  "get_all_cols db [] = Inr []"
| "get_all_cols db (t # ts) =
     sbind (get_table db t) (\<lambda>tab. sbind (get_all_cols db ts) (\<lambda>cols. Inr (tm_cols tab @ cols)))"

fun check_tables :: "sm_manager \<Rightarrow> string list \<Rightarrow> rmdb_error + unit" where
  "check_tables sm [] = Inr ()"
| "check_tables sm (t # ts) = (if sm_fhs sm t = None then Inl (TableNotFoundError t) else check_tables sm ts)"

fun check_aggr_cols :: "TabCol list \<Rightarrow> TabCol list \<Rightarrow> rmdb_error + unit" where
  "check_aggr_cols [] group_bys = Inr ()"
| "check_aggr_cols (c # cs) group_bys = (if c \<notin> set group_bys then Inl SelectNonGroupByError else check_aggr_cols cs group_bys)"

definition tab_col :: "Col \<Rightarrow> TabCol" where
  "tab_col c = TabCol (col_tab_name c) (col_col_name c)"

section \<open>Conditions\<close>

fun get_clause :: "uninit \<Rightarrow> BinaryExpr list \<Rightarrow> rmdb_error + Condition list" where
  "get_clause u [] = Inr []"
| "get_clause u (expr # exprs) =
     (case be_rhs expr of
        ValueExpr sv \<Rightarrow>
          sbind (convert_sv_value u sv) (\<lambda>v. sbind (get_clause u exprs) (\<lambda>conds.
            Inr (\<lparr>lhs_col = tab_col (be_lhs expr), c_op = convert_sv_comp_op (be_op expr), is_rhs_val = True,
                 rhs_col = TabCol [] [], rhs_val = v\<rparr> # conds)))
      | ColExpr c \<Rightarrow>
          sbind (get_clause u exprs) (\<lambda>conds.
            Inr (\<lparr>lhs_col = tab_col (be_lhs expr), c_op = convert_sv_comp_op (be_op expr), is_rhs_val = False,
                 rhs_col = tab_col c, rhs_val = new_value u\<rparr> # conds))
      | _ \<Rightarrow> get_clause u exprs)"

definition raw_result :: "(unit, Value) res \<Rightarrow> rmdb_error + Value" where
  "raw_result r = (case r of (Inl e, _) \<Rightarrow> Inl e | (Inr _, v) \<Rightarrow> Inr v)"

definition lookup_col :: "DbMeta \<Rightarrow> TabCol \<Rightarrow> rmdb_error + ColMeta" where
  "lookup_col db tc = sbind (get_table db (tc_tab tc)) (\<lambda>tab. get_col tab (tc_col tc))"

definition check_cond :: "uninit \<Rightarrow> DbMeta \<Rightarrow> ColMeta list \<Rightarrow> Condition \<Rightarrow> rmdb_error + Condition" where
  "check_cond u db all_cols cond =
     sbind (check_column all_cols (lhs_col cond)) (\<lambda>l.
     sbind (if is_rhs_val cond then Inr (rhs_col cond) else check_column all_cols (rhs_col cond)) (\<lambda>r.
     sbind (lookup_col db l) (\<lambda>lcol.
     sbind (if is_rhs_val cond then raw_result (init_raw (u_mem u) (nat (cm_len lcol)) (rhs_val cond)) else Inr (rhs_val cond)) (\<lambda>v.
     sbind (if is_rhs_val cond then Inr (v_type v) else sbind (lookup_col db r) (\<lambda>rcol. Inr (cm_type rcol))) (\<lambda>rhs_type.
       if \<not> TypeCompatible (cm_type lcol) rhs_type then Inl (IncompatibleTypeError [] [])
       else Inr (cond\<lparr>lhs_col := l, rhs_col := r, rhs_val := v\<rparr>))))))"

definition check_clause :: "uninit \<Rightarrow> DbMeta \<Rightarrow> string list \<Rightarrow> Condition list \<Rightarrow> rmdb_error + Condition list" where
  "check_clause u db tab_names conds = sbind (get_all_cols db tab_names) (\<lambda>all_cols. smap (check_cond u db all_cols) conds)"

section \<open>The select list\<close>

record sel_list =
  sl_cols :: "TabCol list"
  sl_aliases :: "Alias list"
  sl_aggregates :: "AggrCol list"
  sl_non_agg :: "TabCol list"

definition no_alias :: Alias where
  "no_alias = \<lparr>al_has = False, al_name = []\<rparr>"

definition deref :: "'a option \<Rightarrow> rmdb_error + 'a" where
  "deref p = (case p of None \<Rightarrow> Inl NullDereference | Some x \<Rightarrow> Inr x)"

definition add_col :: "TabCol \<Rightarrow> Alias \<Rightarrow> sel_list \<Rightarrow> sel_list" where
  "add_col c a l = l\<lparr>sl_cols := sl_cols l @ [c], sl_aliases := sl_aliases l @ [a]\<rparr>"

definition analyze_col :: "uninit \<Rightarrow> ColMeta list \<Rightarrow> AggCol \<Rightarrow> sel_list \<Rightarrow> rmdb_error + sel_list" where
  "analyze_col u all_cols col l =
     (if ag_type col = NON_AGG_ALL
      then Inr (foldl (\<lambda>l c. add_col (TabCol (cm_tab_name c) (cm_name c)) no_alias
                               (l\<lparr>sl_non_agg := sl_non_agg l @ [TabCol (cm_tab_name c) (cm_name c)]\<rparr>)) l all_cols)
      else if ag_type col = AGG_NO_OP
      then sbind (deref (ag_column col)) (\<lambda>c. sbind (check_column all_cols (tab_col c)) (\<lambda>sel_col.
             Inr (add_col sel_col (if ag_has_alias col then \<lparr>al_has = True, al_name = ag_alias col\<rparr> else no_alias)
                    (l\<lparr>sl_non_agg := sl_non_agg l @ [sel_col]\<rparr>))))
      else if ag_type col = AGG_COUNT_STAR
      then Inr (add_col (TabCol [] (ag_alias col)) no_alias
                  (l\<lparr>sl_aggregates := sl_aggregates l @
                      [\<lparr>ac_tab_col = TabCol [] [], ac_type = convert_sv_aggr u (ag_type col), ac_alias = ag_alias col\<rparr>]\<rparr>))
      else sbind (deref (ag_column col)) (\<lambda>c. sbind (check_column all_cols (tab_col c)) (\<lambda>tc.
             sbind (check_column all_cols tc) (\<lambda>_.
             Inr (add_col (TabCol (col_tab_name c) (ag_alias col)) no_alias
                    (l\<lparr>sl_aggregates := sl_aggregates l @
                        [\<lparr>ac_tab_col = tc, ac_type = convert_sv_aggr u (ag_type col), ac_alias = ag_alias col\<rparr>]\<rparr>))))))"

fun analyze_cols :: "uninit \<Rightarrow> ColMeta list \<Rightarrow> AggCol list \<Rightarrow> sel_list \<Rightarrow> rmdb_error + sel_list" where
  "analyze_cols u all_cols [] l = Inr l"
| "analyze_cols u all_cols (c # cs) l = sbind (analyze_col u all_cols c l) (analyze_cols u all_cols cs)"

section \<open>The having clause\<close>

text \<open>A condition on an aggregate is kept apart; one on a grouping column joins the \<open>WHERE\<close> conditions.\<close>

definition analyze_having :: "uninit \<Rightarrow> ColMeta list \<Rightarrow> TabCol list \<Rightarrow> HavingExpr \<Rightarrow> rmdb_error + Condition list \<times> HavingCond list" where
  "analyze_having u all_cols group_bys having =
     (let lhs = hv_lhs having; op = convert_sv_comp_op (hv_op having)
      in if ag_type lhs = AGG_COUNT_STAR
         then sbind (convert_sv_value u (hv_rhs having)) (\<lambda>v.
                Inr ([], [\<lparr>h_lhs = \<lparr>ac_tab_col = TabCol [] [], ac_type = convert_sv_aggr u (ag_type lhs), ac_alias = []\<rparr>,
                          h_op = op, h_rhs_val = v\<rparr>]))
         else if ag_type lhs = AGG_NO_OP
         then sbind (deref (ag_column lhs)) (\<lambda>c. sbind (check_column all_cols (tab_col c)) (\<lambda>tc.
                if tc \<notin> set group_bys
                then Inl (InternalError ''column must appear in the GROUP BY clause or be used in an aggregate function'')
                else sbind (convert_sv_value u (hv_rhs having)) (\<lambda>v.
                       Inr ([\<lparr>lhs_col = tc, c_op = op, is_rhs_val = True, rhs_col = TabCol [] [], rhs_val = v\<rparr>], []))))
         else sbind (deref (ag_column lhs)) (\<lambda>c. sbind (check_column all_cols (tab_col c)) (\<lambda>tc.
                sbind (check_column all_cols tc) (\<lambda>_.
                sbind (convert_sv_value u (hv_rhs having)) (\<lambda>v.
                  Inr ([], [\<lparr>h_lhs = \<lparr>ac_tab_col = tc, ac_type = convert_sv_aggr u (ag_type lhs), ac_alias = []\<rparr>,
                            h_op = op, h_rhs_val = v\<rparr>]))))))"

fun analyze_havings :: "uninit \<Rightarrow> ColMeta list \<Rightarrow> TabCol list \<Rightarrow> HavingExpr list \<Rightarrow> rmdb_error + Condition list \<times> HavingCond list" where
  "analyze_havings u all_cols group_bys [] = Inr ([], [])"
| "analyze_havings u all_cols group_bys (h # hs) =
     sbind (analyze_having u all_cols group_bys h) (\<lambda>(cs, vs).
     sbind (analyze_havings u all_cols group_bys hs) (\<lambda>(cs', vs'). Inr (cs @ cs', vs @ vs')))"

section \<open>Select statements\<close>

text \<open>The sub-query made of a list of values.\<close>

definition values_query :: "uninit \<Rightarrow> TabCol \<Rightarrow> Value list \<Rightarrow> Query" where
  "values_query u lhs vals = Query None [] [lhs] [] [] vals [] [] [] [] (u_flag u) (new_subquery u)"

text \<open>
  \<open>analyze_subs\<close> is the loop over the conditions that hold a sub-query or a list of values; its state is
  \<open>has_subquery_\<close> and \<open>subquery_\<close>.
\<close>

function (sequential) analyze_one_select :: "uninit \<Rightarrow> sm_manager \<Rightarrow> SelectStmt \<Rightarrow> rmdb_error + Query"
  and analyze_subs :: "uninit \<Rightarrow> sm_manager \<Rightarrow> ColMeta list \<Rightarrow> BinaryExpr list \<Rightarrow> bool \<times> Subquery \<Rightarrow> rmdb_error + bool \<times> Subquery"
where
  "analyze_one_select u sm x =
     sbind (check_tables sm (sel_tabs x)) (\<lambda>_.
     sbind (get_all_cols (sm_db sm) (sel_tabs x)) (\<lambda>all_cols.
     sbind (analyze_cols u all_cols (agg_cols x) \<lparr>sl_cols = [], sl_aliases = [], sl_aggregates = [], sl_non_agg = []\<rparr>) (\<lambda>l.
     sbind (get_clause u (sel_conds x)) (\<lambda>conds.
     sbind (check_clause u (sm_db sm) (sel_tabs x) conds) (\<lambda>conds.
     sbind (analyze_subs u sm all_cols (sel_conds x) (False, new_subquery u)) (\<lambda>(has, sub).
     sbind (smap (\<lambda>c. check_column all_cols (tab_col c)) (sel_group_bys x)) (\<lambda>group_bys.
     sbind (if sel_group_bys x \<noteq> [] then check_aggr_cols (sl_non_agg l) group_bys else Inr ()) (\<lambda>_.
     sbind (analyze_havings u all_cols group_bys (sel_havings x)) (\<lambda>(hconds, havings).
       Inr (Query None (conds @ hconds) (sl_cols l) (sel_tabs x) [] [] (sl_aliases l) (sl_aggregates l) group_bys havings has sub))))))))))"
| "analyze_subs u sm all_cols [] st = Inr st"
| "analyze_subs u sm all_cols (cond # conds) (has, s) =
     (case be_rhs cond of
        SubqueryExpr node \<Rightarrow>
          (case node of
             SelectNode x \<Rightarrow>
               sbind (check_column all_cols (tab_col (be_lhs cond))) (\<lambda>lhs.
               sbind (analyze_one_select u sm x) (\<lambda>q.
                 analyze_subs u sm all_cols conds
                   (True, Subquery lhs (if be_in_clause cond then sub_op s else convert_sv_comp_op (be_op cond))
                            (be_in_clause cond \<or> sub_in s) (sub_value_list s) (Some q))))
           | _ \<Rightarrow> analyze_subs u sm all_cols conds (has, s))
      | ValueList vs \<Rightarrow>
          if \<not> be_in_clause cond \<and> length vs \<noteq> 1 then Inl (InternalError ''valueList more than 1'')
          else sbind (check_column all_cols (tab_col (be_lhs cond))) (\<lambda>lhs.
               sbind (smap (convert_sv_value u) vs) (\<lambda>vals.
                 analyze_subs u sm all_cols conds
                   (True, Subquery lhs (sub_op s) (be_in_clause cond \<or> sub_in s) True (Some (values_query u lhs vals)))))
      | _ \<Rightarrow> analyze_subs u sm all_cols conds (has, s))"
  by pat_completeness auto

termination
  by (relation "measure (case_sum (\<lambda>(u, sm, x). size x) (\<lambda>(u, sm, cols, cs, st). size_list size cs))")
     (auto dest: size_sub_select simp: size_sel_conds)

section \<open>Statements\<close>

definition analyze_set :: "uninit \<Rightarrow> string \<Rightarrow> ast_SetClause \<Rightarrow> rmdb_error + SetClause" where
  "analyze_set u tab_name clause =
     sbind (convert_sv_value u (as_val clause)) (\<lambda>v. Inr \<lparr>s_lhs = TabCol tab_name (as_col_name clause), s_rhs = v\<rparr>)"

definition where_clause :: "uninit \<Rightarrow> sm_manager \<Rightarrow> string \<Rightarrow> BinaryExpr list \<Rightarrow> rmdb_error + Condition list" where
  "where_clause u sm tab_name exprs = sbind (get_clause u exprs) (check_clause u (sm_db sm) [tab_name])"

definition analyze_node :: "uninit \<Rightarrow> sm_manager \<Rightarrow> TreeNode \<Rightarrow> rmdb_error + Query" where
  "analyze_node u sm parse =
     (case parse of
        UpdateStmt tab_name sets exprs \<Rightarrow>
          sbind (smap (analyze_set u tab_name) sets) (\<lambda>set_clauses.
          sbind (where_clause u sm tab_name exprs) (\<lambda>conds.
            Inr (Query None conds [] [] set_clauses [] [] [] [] [] (u_flag u) (new_subquery u))))
      | DeleteStmt tab_name exprs \<Rightarrow>
          sbind (where_clause u sm tab_name exprs) (\<lambda>conds.
            Inr (Query None conds [] [] [] [] [] [] [] [] (u_flag u) (new_subquery u)))
      | InsertStmt tab_name vals \<Rightarrow>
          sbind (smap (convert_sv_value u) vals) (\<lambda>vs.
            Inr (Query None [] [] [] [] vs [] [] [] [] (u_flag u) (new_subquery u)))
      | SelectNode x \<Rightarrow> analyze_one_select u sm x
      | _ \<Rightarrow> Inr (new_query u))"

definition do_analyze :: "uninit \<Rightarrow> sm_manager \<Rightarrow> TreeNode \<Rightarrow> rmdb_error + Query" where
  "do_analyze u sm parse = sbind (analyze_node u sm parse) (\<lambda>q. Inr (set_parse parse q))"

end
