(* ===== verification/AnalyzeProperties.thy ===== *)
theory AnalyzeProperties
  imports Analyze
begin

text \<open>
  What a statement that passes the analysis satisfies: columns without a table are resolved to the only table of
  the \<open>FROM\<close> list that has them, and the query is well-formed down to its innermost sub-query.
\<close>

section \<open>Resolving columns\<close>

lemma infer_table_found: "t \<noteq> [] \<Longrightarrow>
   infer_table n t cols = (if filter (\<lambda>c. cm_name c = n) cols = [] then Inr t else Inl (AmbiguousColumnError n))"
  by (induction cols) auto

lemma infer_table_spec:
  assumes "\<forall>c \<in> set cols. cm_tab_name c \<noteq> []"
  shows "infer_table n [] cols =
    (case filter (\<lambda>c. cm_name c = n) cols of [] \<Rightarrow> Inr [] | [c] \<Rightarrow> Inr (cm_tab_name c) | _ \<Rightarrow> Inl (AmbiguousColumnError n))"
  using assms by (induction cols) (auto simp: infer_table_found split: list.splits)

lemma check_column_resolved: "check_column cols tc = Inr tc' \<Longrightarrow> tc_tab tc' \<noteq> [] \<and> tc_col tc' = tc_col tc"
  by (auto simp: check_column_def res_simps split: if_splits)

lemma check_column_again: "check_column cols tc = Inr tc' \<Longrightarrow> check_column cols tc' = Inr tc'"
  using check_column_resolved [of cols tc tc'] by (simp add: check_column_def)

text \<open>
  C29: a column without a table is resolved to the table of the only column of that name among the tables of the
  statement; no such column and more than one are errors. A column that names its table is taken as it is.
\<close>

theorem check_column_resolves_unique:
  assumes "\<forall>c \<in> set all_cols. cm_tab_name c \<noteq> []"
  shows "check_column all_cols (TabCol t n) =
    (if t \<noteq> [] then Inr (TabCol t n)
     else case filter (\<lambda>c. cm_name c = n) all_cols of
            [] \<Rightarrow> Inl (ColumnNotFoundError n)
          | [c] \<Rightarrow> Inr (TabCol (cm_tab_name c) n)
          | _ \<Rightarrow> Inl (AmbiguousColumnError n))"
proof -
  have "cm_tab_name c \<noteq> []" if "filter (\<lambda>c. cm_name c = n) all_cols = c # cs" for c cs
    using assms arg_cong [OF that, of set] by auto
  then show ?thesis by (auto simp: check_column_def infer_table_spec [OF assms] split: list.splits)
qed

section \<open>Well-formed queries\<close>

definition typed_cond :: "DbMeta \<Rightarrow> Condition \<Rightarrow> bool" where
  "typed_cond db c \<longleftrightarrow>
     (case lookup_col db (lhs_col c) of
        Inl e \<Rightarrow> False
      | Inr l \<Rightarrow>
          if is_rhs_val c
          then TypeCompatible (cm_type l) (v_type (rhs_val c)) \<and>
               (case v_raw (rhs_val c) of None \<Rightarrow> False | Some raw \<Rightarrow> length raw = nat (cm_len l))
          else (case lookup_col db (rhs_col c) of Inl e \<Rightarrow> False | Inr r \<Rightarrow> TypeCompatible (cm_type l) (cm_type r)))"

text \<open>The conditions that come from \<open>HAVING\<close> are compared with a value that has no bytes yet.\<close>

definition having_cond :: "TabCol list \<Rightarrow> Condition \<Rightarrow> bool" where
  "having_cond group_bys c \<longleftrightarrow> lhs_col c \<in> set group_bys \<and> is_rhs_val c \<and> v_raw (rhs_val c) = None"

fun query_ok :: "sm_manager \<Rightarrow> Query \<Rightarrow> bool"
  and subquery_ok :: "sm_manager \<Rightarrow> Subquery \<Rightarrow> bool" where
  "query_ok sm (Query p conds cols tables sets vals aliases aggregates group_bys havings has s) \<longleftrightarrow>
     (\<forall>t \<in> set tables. sm_fhs sm t \<noteq> None \<and> is_table (sm_db sm) t) \<and>
     (\<forall>c \<in> set conds. typed_cond (sm_db sm) c \<or> having_cond group_bys c) \<and>
     length aliases = length cols \<and>
     (\<forall>g \<in> set group_bys. tc_tab g \<noteq> []) \<and>
     (group_bys \<noteq> [] \<longrightarrow> (\<forall>c \<in> set cols. c \<in> set group_bys \<or> tc_col c \<in> ac_alias ` set aggregates)) \<and>
     (has \<longrightarrow> tc_tab (sub_lhs s) \<noteq> [] \<and> sub_query s \<noteq> None) \<and> subquery_ok sm s"
| "subquery_ok sm (Subquery lhs op i vl None) \<longleftrightarrow> True"
| "subquery_ok sm (Subquery lhs op i vl (Some q)) \<longleftrightarrow> q_tables q = [] \<and> vl \<or> query_ok sm q"

lemma convert_sv_value_fresh:
  "convert_sv_value u sv = Inr v \<Longrightarrow> v_raw v = None" "convert_sv_value u sv = Inr v \<Longrightarrow> v_type v \<noteq> TYPE_DATETIME"
  by (auto simp: convert_sv_value_def set_int_def set_float_def set_str_def new_value_def split: ast_Value.splits)

lemma get_clause_values:
  assumes "get_clause u exprs = Inr conds" and "c \<in> set conds" and "is_rhs_val c"
  shows "v_type (rhs_val c) \<noteq> TYPE_DATETIME"
  using assms
  by (induction exprs arbitrary: conds) (auto simp: res_simps convert_sv_value_fresh(2) split: Expr.splits)

lemma init_raw_bytes:
  assumes "init_raw mem n v = (Inr (), v')" and "v_type v \<noteq> TYPE_DATETIME"
  shows "v_type v' = v_type v \<and> (\<exists>raw. v_raw v' = Some raw \<and> length raw = n)"
  using assms by (auto simp: init_raw_def Let_def split: if_splits ColType.splits)

lemma raw_result_Inr: "raw_result r = Inr v \<longleftrightarrow> r = (Inr (), v)"
  by (auto simp: raw_result_def split: prod.splits sum.splits)

lemma check_cond_typed:
  assumes "check_cond u db all_cols c = Inr c'" and "is_rhs_val c \<Longrightarrow> v_type (rhs_val c) \<noteq> TYPE_DATETIME"
  shows "typed_cond db c'"
  using assms
  by (auto simp: check_cond_def typed_cond_def res_simps raw_result_Inr dest!: init_raw_bytes split: if_splits)

lemma check_clause_typed:
  assumes "get_clause u exprs = Inr conds" and "check_clause u db tabs conds = Inr conds'" and "c \<in> set conds'"
  shows "typed_cond db c"
proof -
  obtain cols c0 where "c0 \<in> set conds" "check_cond u db cols c0 = Inr c"
    using assms(2,3) by (auto simp: check_clause_def res_simps dest: smap_in_set)
  then show ?thesis using check_cond_typed get_clause_values [OF assms(1)] by blast
qed

lemma check_tables_Inr: "check_tables sm ts = Inr () \<longleftrightarrow> (\<forall>t \<in> set ts. sm_fhs sm t \<noteq> None)"
  by (induction ts) auto

lemma get_all_cols_tables: "get_all_cols db ts = Inr cols \<Longrightarrow> t \<in> set ts \<Longrightarrow> is_table db t"
  by (induction ts arbitrary: cols) (auto simp: res_simps get_table_def is_table_def split: option.splits)

lemma check_aggr_cols_Inr: "check_aggr_cols cs gs = Inr () \<longleftrightarrow> set cs \<subseteq> set gs"
  by (induction cs) auto

definition select_list_ok :: "sel_list \<Rightarrow> bool" where
  "select_list_ok l \<longleftrightarrow> length (sl_aliases l) = length (sl_cols l) \<and>
     (\<forall>c \<in> set (sl_cols l). c \<in> set (sl_non_agg l) \<or> tc_col c \<in> ac_alias ` set (sl_aggregates l))"

lemma select_list_ok_add:
  "select_list_ok l \<Longrightarrow> select_list_ok (add_col c a (l\<lparr>sl_non_agg := sl_non_agg l @ [c]\<rparr>))"
  "select_list_ok l \<Longrightarrow> tc_col c = ac_alias g \<Longrightarrow> select_list_ok (add_col c a (l\<lparr>sl_aggregates := sl_aggregates l @ [g]\<rparr>))"
  by (auto simp: select_list_ok_def add_col_def)

lemma select_list_ok_foldl:
  "select_list_ok l \<Longrightarrow> select_list_ok (foldl (\<lambda>l c. add_col (f c) a (l\<lparr>sl_non_agg := sl_non_agg l @ [f c]\<rparr>)) l cs)"
  by (induction cs arbitrary: l) (auto simp: select_list_ok_add)

lemma analyze_cols_ok: "select_list_ok l \<Longrightarrow> analyze_cols u all_cols cs l = Inr l' \<Longrightarrow> select_list_ok l'"
proof (induction cs arbitrary: l)
  case (Cons c cs)
  from Cons.prems obtain l1 where l1: "analyze_col u all_cols c l = Inr l1" "analyze_cols u all_cols cs l1 = Inr l'"
    by (auto simp: res_simps)
  have "select_list_ok l1"
    using Cons.prems(1) l1(1) by (auto simp: analyze_col_def res_simps select_list_ok_foldl select_list_ok_add split: if_splits)
  from Cons.IH [OF this l1(2)] show ?case .
qed simp

lemma analyze_having_conds:
  "analyze_having u all_cols gs h = Inr (cs, vs) \<Longrightarrow> c \<in> set cs \<Longrightarrow> having_cond gs c"
  by (auto simp: analyze_having_def having_cond_def Let_def res_simps dest: convert_sv_value_fresh split: if_splits)

lemma analyze_havings_conds:
  "analyze_havings u all_cols gs hs = Inr (cs, vs) \<Longrightarrow> c \<in> set cs \<Longrightarrow> having_cond gs c"
  by (induction hs arbitrary: cs vs) (auto simp: res_simps dest: analyze_having_conds)

lemma group_bys_resolved:
  "smap (\<lambda>c. check_column all_cols (tab_col c)) cs = Inr gs \<Longrightarrow> g \<in> set gs \<Longrightarrow> tc_tab g \<noteq> []"
  by (auto dest!: smap_in_set check_column_resolved)

lemma subquery_ok_new [simp]: "subquery_ok sm (new_subquery u)"
  by (simp add: new_subquery_def)

lemma values_query_tables [simp]: "q_tables (values_query u l vs) = []"
  by (simp add: values_query_def)

definition sub_state_ok :: "sm_manager \<Rightarrow> bool \<times> Subquery \<Rightarrow> bool" where
  "sub_state_ok sm st \<longleftrightarrow>
     subquery_ok sm (snd st) \<and> (fst st \<longrightarrow> tc_tab (sub_lhs (snd st)) \<noteq> [] \<and> sub_query (snd st) \<noteq> None)"

lemma analyze_select_ok:
  "analyze_one_select u sm x = Inr q \<Longrightarrow> query_ok sm q"
  "analyze_subs u sm all_cols cs st = Inr st' \<Longrightarrow> sub_state_ok sm st \<Longrightarrow> sub_state_ok sm st'"
proof (induction u sm x and u sm all_cols cs st arbitrary: q and st' rule: analyze_one_select_analyze_subs.induct)
  case (1 u sm x)
  from "1.prems" obtain all_cols l conds0 conds has s gs hconds hs where
    a: "check_tables sm (sel_tabs x) = Inr ()" "get_all_cols (sm_db sm) (sel_tabs x) = Inr all_cols"
       "analyze_cols u all_cols (agg_cols x) \<lparr>sl_cols = [], sl_aliases = [], sl_aggregates = [], sl_non_agg = []\<rparr> = Inr l"
       "get_clause u (sel_conds x) = Inr conds0" "check_clause u (sm_db sm) (sel_tabs x) conds0 = Inr conds"
       "analyze_subs u sm all_cols (sel_conds x) (False, new_subquery u) = Inr (has, s)"
       "smap (\<lambda>c. check_column all_cols (tab_col c)) (sel_group_bys x) = Inr gs"
       "sel_group_bys x \<noteq> [] \<Longrightarrow> check_aggr_cols (sl_non_agg l) gs = Inr ()"
       "analyze_havings u all_cols gs (sel_havings x) = Inr (hconds, hs)"
    and q: "q = Query None (conds @ hconds) (sl_cols l) (sel_tabs x) [] [] (sl_aliases l) (sl_aggregates l) gs hs has s"
    by (auto simp: res_simps split: if_splits)
  have s: "sub_state_ok sm (has, s)" by (rule "1.IH" [OF a(6)]) (simp add: sub_state_ok_def)
  have l: "select_list_ok l" using analyze_cols_ok [OF _ a(3)] by (simp add: select_list_ok_def)
  have "gs \<noteq> [] \<Longrightarrow> set (sl_non_agg l) \<subseteq> set gs" using a(7,8) by (cases "sel_group_bys x") (auto simp: check_aggr_cols_Inr)
  then show ?case
    using s l check_clause_typed [OF a(4,5)] analyze_havings_conds [OF a(9)] group_bys_resolved [OF a(7)] a(1)
      get_all_cols_tables [OF a(2)]
    by (fastforce simp: q sub_state_ok_def select_list_ok_def check_tables_Inr)
next
  case (3 u sm all_cols cond conds has s)
  show ?case
  proof (cases "be_rhs cond")
    case (SubqueryExpr node)
    show ?thesis
    proof (cases "\<exists>x. node = SelectNode x")
      case True
      then obtain x where x: "node = SelectNode x" ..
      from "3.prems"(1) SubqueryExpr x obtain lhs q where lq: "check_column all_cols (tab_col (be_lhs cond)) = Inr lhs"
        "analyze_one_select u sm x = Inr q"
        "analyze_subs u sm all_cols conds (True, Subquery lhs (if be_in_clause cond then sub_op s else convert_sv_comp_op (be_op cond))
            (be_in_clause cond \<or> sub_in s) (sub_value_list s) (Some q)) = Inr st'" by (auto simp: res_simps)
      have "query_ok sm q" by (rule "3.IH"(22) [OF SubqueryExpr x lq(2)])
      then have "sub_state_ok sm (True, Subquery lhs (if be_in_clause cond then sub_op s else convert_sv_comp_op (be_op cond))
            (be_in_clause cond \<or> sub_in s) (sub_value_list s) (Some q))"
        using check_column_resolved [OF lq(1)] by (simp add: sub_state_ok_def)
      then show ?thesis by (rule "3.IH"(23) [OF SubqueryExpr x lq(3)])
    next
      case False
      then show ?thesis using 3 SubqueryExpr by (cases node) auto
    qed
  next
    case (ValueList vs)
    from "3.prems"(1) ValueList obtain lhs vals where lq: "check_column all_cols (tab_col (be_lhs cond)) = Inr lhs"
      "\<not> (\<not> be_in_clause cond \<and> length vs \<noteq> 1)" "smap (convert_sv_value u) vs = Inr vals"
      "analyze_subs u sm all_cols conds
         (True, Subquery lhs (sub_op s) (be_in_clause cond \<or> sub_in s) True (Some (values_query u lhs vals))) = Inr st'"
      by (auto simp: res_simps split: if_splits)
    have "sub_state_ok sm (True, Subquery lhs (sub_op s) (be_in_clause cond \<or> sub_in s) True (Some (values_query u lhs vals)))"
      using check_column_resolved [OF lq(1)] by (simp add: sub_state_ok_def)
    then show ?thesis by (rule "3.IH"(24) [OF ValueList lq(2,4)])
  qed (use 3 in auto)
qed auto

text \<open>
  C13: a statement that passes the analysis gives a well-formed query. Every table of a \<open>SELECT\<close> is open and in the
  catalogue; every condition compares a column of the catalogue with a column, or with a value already in the
  column's bytes, of a compatible type, unless it comes from \<open>HAVING\<close>; there is an alias entry for every selected
  column; with \<open>GROUP BY\<close> every selected column is grouped or an aggregate; and the same holds in every sub-query.
\<close>

theorem analysed_query_is_well_formed:
  assumes "do_analyze u sm t = Inr q"
  shows "q_parse q = Some t \<and> (\<forall>c \<in> set (q_conds q). typed_cond (sm_db sm) c \<or> having_cond (q_group_bys q) c) \<and>
    (case t of SelectNode x \<Rightarrow> q_tables q = sel_tabs x \<and> query_ok sm q | _ \<Rightarrow> True)"
proof -
  obtain q0 where q: "q = set_parse t q0" and t: "analyze_node u sm t = Inr q0"
    using assms by (auto simp: do_analyze_def res_simps)
  have ok: "query_ok sm (set_parse t q0) = query_ok sm q0" "q_conds (set_parse t q0) = q_conds q0"
    "q_group_bys (set_parse t q0) = q_group_bys q0" "q_parse (set_parse t q0) = Some t" "q_tables (set_parse t q0) = q_tables q0" for t
    by (cases q0; simp add: set_parse_def)+
  have sel: "q_tables q0 = sel_tabs x \<and> query_ok sm q0" if "t = SelectNode x" for x
    using t that analyze_select_ok(1) [of u sm x q0] by (auto simp: analyze_node_def res_simps)
  have "typed_cond (sm_db sm) c \<or> having_cond (q_group_bys q0) c" if "c \<in> set (q_conds q0)" for c
  proof (cases "\<exists>x. t = SelectNode x")
    case True
    then show ?thesis using sel that by (cases q0) auto
  next
    case False
    then show ?thesis using t that check_clause_typed by (cases t) (auto simp: analyze_node_def where_clause_def new_query_def res_simps)
  qed
  then show ?thesis using sel by (simp add: q ok split: TreeNode.splits)
qed

section \<open>Examples\<close>

definition sample_uninit :: uninit where
  "sample_uninit = \<lparr>u_type = TYPE_DATETIME, u_num = 7, u_op = OP_NE, u_flag = True, u_aggr = NON_AGG, u_mem = []\<rparr>"

definition sample_catalogue :: sm_manager where
  "sample_catalogue =
     \<lparr>sm_db = sample_db, sm_fhs = [''t'' \<mapsto> (rm_fd sample_rm, file_hdr sample_rm)], sm_pool = pool sample_rm\<rparr>"

text \<open>\<open>SELECT a, COUNT(b) AS n FROM t WHERE b > 3 AND a IN (SELECT b FROM t WHERE a = b) GROUP BY a\<close> and a \<open>HAVING\<close> clause.\<close>

definition sample_select :: "HavingExpr list \<Rightarrow> SelectStmt" where
  "sample_select hs =
     SelectStmt [AggCol_col (Col [] ''a''), setAlias ''n'' (AggCol_aggr (Col [] ''b'') AGG_COUNT)] [''t'']
       [BinaryExpr_op (Col [] ''b'') SV_OP_GT (ValueExpr (IntLit 3)),
        BinaryExpr (Col [] ''a'') True SV_OP_EQ (SubqueryExpr (SelectNode
          (SelectStmt [AggCol_col (Col ''t'' ''b'')] [''t'']
             [BinaryExpr_op (Col [] ''a'') SV_OP_EQ (ColExpr (Col ''t'' ''b''))] [] [] None)))]
       [Col [] ''a''] hs None"

lemmas sample_query_simps =
  sample_select_def sample_catalogue_def sample_uninit_def sample_db_def sample_tab_def sample_col_def AggCol_col_def AggCol_aggr_def
  setAlias_def BinaryExpr_op_def get_table_def get_col_def lookup_col_def check_column_def tab_col_def analyze_col_def deref_def
  add_col_def no_alias_def convert_sv_value_def convert_sv_comp_op_def convert_sv_aggr_def new_value_def new_subquery_def
  check_clause_def check_cond_def raw_result_def init_raw_def set_int_def set_str_def int_val_def TypeCompatible_def Let_def
  do_analyze_def analyze_node_def set_parse_def analyze_having_def

theorem check_column_resolves_unique_witness:
  "check_column (tm_cols sample_tab) (TabCol [] ''b'') = Inr (TabCol ''t'' ''b'') \<and>
   check_column (tm_cols sample_tab) (TabCol [] ''c'') = Inl (ColumnNotFoundError ''c'') \<and>
   check_column (tm_cols sample_tab @ tm_cols sample_tab) (TabCol [] ''b'') = Inl (AmbiguousColumnError ''b'')"
  using check_column_resolves_unique [of "tm_cols sample_tab" "[]" "''b''"] check_column_resolves_unique [of "tm_cols sample_tab" "[]" "''c''"]
    check_column_resolves_unique [of "tm_cols sample_tab @ tm_cols sample_tab" "[]" "''b''"]
  by (simp add: sample_tab_def sample_col_def)

lemma sample_select_analysed: "\<exists>q. do_analyze sample_uninit sample_catalogue (SelectNode (sample_select [])) = Inr q"
  by (simp add: sample_query_simps)

theorem analysed_query_is_well_formed_witness:
  "\<exists>q. do_analyze sample_uninit sample_catalogue (SelectNode (sample_select [])) = Inr q \<and> q_tables q = [''t''] \<and>
     query_ok sample_catalogue q"
proof -
  obtain q where q: "do_analyze sample_uninit sample_catalogue (SelectNode (sample_select [])) = Inr q"
    using sample_select_analysed by blast
  from analysed_query_is_well_formed [OF q] show ?thesis using q by (auto simp: sample_select_def)
qed

text \<open>
  A \<open>HAVING\<close> condition on a grouping column is not typed: the integer column \<open>a\<close> is compared with a string.
\<close>

lemma having_condition_is_not_typed:
  "\<exists>q. do_analyze sample_uninit sample_catalogue
      (SelectNode (sample_select [\<lparr>hv_lhs = AggCol_col (Col [] ''a''), hv_op = SV_OP_EQ, hv_rhs = StringLit []\<rparr>])) = Inr q \<and>
    lhs_col (q_conds q ! 1) = TabCol ''t'' ''a'' \<and> \<not> typed_cond (sm_db sample_catalogue) (q_conds q ! 1)"
  by (simp add: sample_query_simps typed_cond_def)

text \<open>
  The operator of a comparison with a list of one value, as in \<open>a < (3)\<close>, is never set; a condition on a table that
  is not in the \<open>FROM\<close> list is accepted.
\<close>

lemma value_list_operator_unset:
  "\<exists>q. do_analyze u sample_catalogue (SelectNode (SelectStmt [AggCol_col (Col [] ''a'')] [''t'']
       [BinaryExpr_op (Col [] ''a'') op (ValueList [IntLit 3])] [] [] None)) = Inr q \<and> sub_op (q_subquery q) = u_op u"
  by (simp add: sample_query_simps)

end
