(* ===== verification/Planner.thy ===== *)
theory Planner
  imports Analyze Ddl
begin

text \<open>
  The query plans of \<^verbatim>\<open>optimizer/plan.h\<close>, the planner of \<^verbatim>\<open>optimizer/planner.cpp\<close> and the optimizer of
  \<^verbatim>\<open>optimizer/optimizer.h\<close>. Plans are trees; a null pointer to a plan is None. The planner changes the query it
  plans (conditions and aliases are moved out of it), so its operations return the query as they leave it. A
  sub-query is planned by a recursive call, once for every table of the outer query; \<open>generate_select_plan\<close>
  takes the number of nested calls it may make, and None says that they do not suffice.
\<close>

section \<open>Plans\<close>

datatype PlanTag =
    T_Invalid | T_Help | T_ShowTable | T_DescTable | T_CreateTable | T_DropTable | T_ShowIndex | T_CreateIndex | T_DropIndex
  | T_SetKnob | T_SetOutputOff | T_CheckPoint | T_Load | T_Insert | T_Update | T_Delete | T_select | T_Transaction_begin
  | T_Transaction_commit | T_Transaction_abort | T_Transaction_rollback | T_SeqScan | T_IndexScan | T_NestLoop | T_SortMerge
  | T_Sort | T_Projection | T_Values

datatype JoinType = INNER_JOIN | LEFT_JOIN | RIGHT_JOIN | FULL_JOIN

record scan_plan =
  sp_tag :: PlanTag
  sp_tab_name :: string
  sp_cols :: "ColMeta list"
  sp_conds :: "Condition list"
  sp_len :: nat
  sp_fed_conds :: "Condition list"
  sp_index_col_names :: "string list"
  sp_sub_clause :: "SubQueryClause option"

datatype Plan =
    ValuesPlan PlanTag "Value list" ColMeta
  | ScanPlan scan_plan "Plan option"
  | JoinPlan PlanTag "Plan option" "Plan option" "Condition list" JoinType
  | ProjectionPlan PlanTag Plan "TabCol list" "TabCol list"
  | SortPlan PlanTag "Plan option" TabCol bool
  | DMLPlan PlanTag "Plan option" string "Value list" "Condition list" "SetClause list"
  | DQLPlan PlanTag Plan
  | AggrPlan Plan "HavingCond list" "AggrCol list" "TabCol list"
  | DDLPlan PlanTag string "string list" "ColDef list"
  | OtherPlan PlanTag string
  | SetKnobPlan SetKnobType bool
  | SetOutputOffPlan
  | CkpPlan
  | LoadPlan string string

definition new_values_plan :: "DbMeta \<Rightarrow> Value list \<Rightarrow> TabCol \<Rightarrow> rmdb_error + Plan" where
  "new_values_plan db vals col =
     sbind (get_table db (tc_tab col)) (\<lambda>tab. sbind (get_col tab (tc_col col)) (\<lambda>c. Inr (ValuesPlan T_Values vals c)))"

definition new_scan_plan ::
    "DbMeta \<Rightarrow> PlanTag \<Rightarrow> string \<Rightarrow> Condition list \<Rightarrow> string list \<Rightarrow> SubQueryClause option \<Rightarrow> rmdb_error + scan_plan" where
  "new_scan_plan db tag tab_name conds index_col_names sub_clause =
     sbind (get_table db tab_name) (\<lambda>tab.
       if tm_cols tab = [] then Inl NullDereference
       else Inr \<lparr>sp_tag = tag, sp_tab_name = tab_name, sp_cols = tm_cols tab, sp_conds = conds,
                 sp_len = nat (cm_offset (last (tm_cols tab)) + cm_len (last (tm_cols tab))), sp_fed_conds = conds,
                 sp_index_col_names = index_col_names, sp_sub_clause = sub_clause\<rparr>)"

text \<open>The constructor of \<open>ProjectionPlan\<close> reads one alias per column; there is none in a list that was moved out.\<close>

fun alias_cols :: "TabCol list \<Rightarrow> Alias list \<Rightarrow> rmdb_error + TabCol list" where
  "alias_cols [] aliases = Inr []"
| "alias_cols (c # cols) [] = Inl NullDereference"
| "alias_cols (c # cols) (a # aliases) =
     sbind (alias_cols cols aliases) (\<lambda>cs. Inr ((if al_has a then TabCol (tc_tab c) (al_name a) else c) # cs))"

section \<open>Scans\<close>

text \<open>Whether an index serves the conditions, its columns, and the conditions in the order of the index.\<close>

definition get_index_cols :: "DbMeta \<Rightarrow> string \<Rightarrow> Condition list \<Rightarrow> rmdb_error + bool \<times> string list \<times> Condition list" where
  "get_index_cols db tab_name conds =
     (if \<exists>c\<in>set conds. \<not> is_rhs_val c \<or> tc_tab (lhs_col c) \<noteq> tab_name \<or> c_op c = OP_NE then Inr (False, [], conds)
      else sbind (get_table db tab_name) (\<lambda>tab.
        if conds = []
        then Inr (case tm_indexes tab of [] \<Rightarrow> (False, [], conds) | ix # _ \<Rightarrow> (True, map cm_name (im_cols ix), conds))
        else if length conds = 1 then (case MatchIndexSingle tab conds [] of (b, ns) \<Rightarrow> Inr (b, ns, conds))
        else if length conds = 2 \<and> tc_col (lhs_col (conds ! 0)) = tc_col (lhs_col (conds ! 1))
        then (case MatchIndexSingle tab conds [] of (b, ns) \<Rightarrow> Inr (b, ns, conds))
        else (case MatchIndexMultiple tab conds of (ns, cs) \<Rightarrow> Inr (ns \<noteq> [], ns, cs))))"

definition solved_by :: "string \<Rightarrow> Condition \<Rightarrow> bool" where
  "solved_by tab_name c \<longleftrightarrow> tab_name = tc_tab (lhs_col c) \<and> is_rhs_val c \<or> tc_tab (lhs_col c) = tc_tab (rhs_col c)"

definition pop_conds :: "Condition list \<Rightarrow> string \<Rightarrow> Condition list \<times> Condition list" where
  "pop_conds conds tab_name = (filter (solved_by tab_name) conds, filter (\<lambda>c. \<not> solved_by tab_name c) conds)"

section \<open>Join conditions\<close>

definition swap_op :: "CompOp \<Rightarrow> CompOp" where
  "swap_op op = (case op of OP_EQ \<Rightarrow> OP_EQ | OP_NE \<Rightarrow> OP_NE | OP_LT \<Rightarrow> OP_GT | OP_GT \<Rightarrow> OP_LT | OP_LE \<Rightarrow> OP_GE | OP_GE \<Rightarrow> OP_LE)"

definition swap_cond :: "Condition \<Rightarrow> Condition" where
  "swap_cond c = c\<lparr>lhs_col := rhs_col c, rhs_col := lhs_col c, c_op := swap_op (c_op c)\<rparr>"

fun push_conds :: "Condition \<Rightarrow> Plan \<Rightarrow> nat \<times> Plan"
  and push_conds_ptr :: "Condition \<Rightarrow> Plan option \<Rightarrow> nat \<times> Plan option" where
  "push_conds cond (ScanPlan s sub) =
     (if sp_tab_name s = tc_tab (lhs_col cond) then 1 else if sp_tab_name s = tc_tab (rhs_col cond) then 2 else 0, ScanPlan s sub)"
| "push_conds cond (JoinPlan t l r conds ty) =
     (case push_conds_ptr cond l of (left_res, l') \<Rightarrow>
        if left_res = 3 then (3, JoinPlan t l' r conds ty)
        else case push_conds_ptr cond r of (right_res, r') \<Rightarrow>
          if right_res = 3 then (3, JoinPlan t l' r' conds ty)
          else if left_res = 0 \<or> right_res = 0 then (left_res + right_res, JoinPlan t l' r' conds ty)
          else (3, JoinPlan t l' r' (conds @ [if left_res = 2 then swap_cond cond else cond]) ty))"
| "push_conds cond p = (0, p)"
| "push_conds_ptr cond None = (0, None)"
| "push_conds_ptr cond (Some p) = (case push_conds cond p of (n, p') \<Rightarrow> (n, Some p'))"

type_synonym scan_node = "scan_plan \<times> Plan option"

abbreviation scan_of :: "scan_node \<Rightarrow> Plan" where
  "scan_of s \<equiv> ScanPlan (fst s) (snd s)"

record join_state =
  scantbl :: "int list"
  joined_tables :: "string list"

fun find_scan :: "string \<Rightarrow> nat \<Rightarrow> scan_node list \<Rightarrow> (nat \<times> scan_node) option" where
  "find_scan table i [] = None"
| "find_scan table i (s # ss) = (if sp_tab_name (fst s) = table then Some (i, s) else find_scan table (i + 1) ss)"

definition pop_scan :: "string \<Rightarrow> scan_node list \<Rightarrow> join_state \<Rightarrow> Plan option \<times> join_state" where
  "pop_scan table plans st =
     (case find_scan table 0 plans of
        None \<Rightarrow> (None, st)
      | Some (i, s) \<Rightarrow> (Some (scan_of s), st\<lparr>scantbl := (scantbl st)[i := 1], joined_tables := joined_tables st @ [sp_tab_name (fst s)]\<rparr>))"

section \<open>The join tree\<close>

record planner =
  enable_nestedloop_join :: bool
  enable_sortmerge_join :: bool

definition Planner_init :: planner where
  "Planner_init = \<lparr>enable_nestedloop_join = True, enable_sortmerge_join = False\<rparr>"

definition set_enable_nestedloop_join :: "bool \<Rightarrow> planner \<Rightarrow> planner" where
  "set_enable_nestedloop_join b pl = pl\<lparr>enable_nestedloop_join := b\<rparr>"

definition set_enable_sortmerge_join :: "bool \<Rightarrow> planner \<Rightarrow> planner" where
  "set_enable_sortmerge_join b pl = pl\<lparr>enable_sortmerge_join := b\<rparr>"

definition generate_sort_merge_plan :: "Plan option \<Rightarrow> Plan option \<Rightarrow> Condition list \<Rightarrow> rmdb_error + Plan" where
  "generate_sort_merge_plan left right join_conds =
     (case left of
        None \<Rightarrow> Inl NullDereference
      | Some p \<Rightarrow>
          if (case p of ScanPlan s sub \<Rightarrow> sp_tag s \<noteq> T_IndexScan | _ \<Rightarrow> True)
          then Inr (JoinPlan T_SortMerge (Some (SortPlan T_Sort left (lhs_col (hd join_conds)) False))
                      (Some (SortPlan T_Sort right (rhs_col (hd join_conds)) False)) join_conds INNER_JOIN)
          else Inr (JoinPlan T_SortMerge left right join_conds INNER_JOIN))"

definition first_join :: "planner \<Rightarrow> scan_node list \<Rightarrow> join_state \<Rightarrow> Condition \<Rightarrow> rmdb_error + Plan \<times> join_state" where
  "first_join pl plans st cond =
     (case pop_scan (tc_tab (lhs_col cond)) plans st of (left, st) \<Rightarrow>
      case pop_scan (tc_tab (rhs_col cond)) plans st of (right, st) \<Rightarrow>
        if enable_nestedloop_join pl then Inr (JoinPlan T_NestLoop left right [cond] INNER_JOIN, st)
        else if enable_sortmerge_join pl then sbind (generate_sort_merge_plan left right [cond]) (\<lambda>p. Inr (p, st))
        else Inl (RMDBError ''No join executor selected!''))"

definition next_join :: "scan_node list \<Rightarrow> Condition \<Rightarrow> Plan \<times> join_state \<Rightarrow> Plan \<times> join_state" where
  "next_join plans cond pst =
     (case pst of (plan, st) \<Rightarrow>
      case (if tc_tab (lhs_col cond) \<notin> set (joined_tables st) then pop_scan (tc_tab (lhs_col cond)) plans st else (None, st)) of (left, st) \<Rightarrow>
      case (if tc_tab (rhs_col cond) \<notin> set (joined_tables st) then (pop_scan (tc_tab (rhs_col cond)) plans st, True) else ((None, st), False)) of
        ((right, st), isneedreverse) \<Rightarrow>
        if left \<noteq> None \<and> right \<noteq> None
        then (JoinPlan T_NestLoop (Some (JoinPlan T_NestLoop left right [cond] INNER_JOIN)) (Some plan) [] INNER_JOIN, st)
        else if left \<noteq> None \<or> right \<noteq> None
        then if isneedreverse
             then (JoinPlan T_NestLoop right (Some plan) [swap_cond cond] INNER_JOIN, st)
             else (JoinPlan T_NestLoop left (Some plan) [cond] INNER_JOIN, st)
        else (snd (push_conds cond plan), st))"

fun next_joins :: "scan_node list \<Rightarrow> Condition list \<Rightarrow> Plan \<times> join_state \<Rightarrow> Plan \<times> join_state" where
  "next_joins plans [] pst = pst"
| "next_joins plans (c # cs) pst = next_joins plans cs (next_join plans c pst)"

text \<open>The tables that no condition mentions.\<close>

fun join_rest :: "int list \<Rightarrow> scan_node list \<Rightarrow> Plan \<Rightarrow> Plan" where
  "join_rest (f # fs) (s # ss) plan =
     join_rest fs ss (if f = - 1 then JoinPlan T_NestLoop (Some (scan_of s)) (Some plan) [] INNER_JOIN else plan)"
| "join_rest _ _ plan = plan"

definition join_scans :: "planner \<Rightarrow> scan_node list \<Rightarrow> Condition list \<Rightarrow> rmdb_error + Plan" where
  "join_scans pl plans conds =
     (let st = \<lparr>scantbl = replicate (length plans) (- 1), joined_tables = replicate (length plans) []\<rparr>
      in case conds of
           c # cs \<Rightarrow>
             sbind (first_join pl plans st c) (\<lambda>pst. case next_joins plans cs pst of (plan, st) \<Rightarrow> Inr (join_rest (scantbl st) plans plan))
         | [] \<Rightarrow>
             (case plans of
                [] \<Rightarrow> Inl NullDereference
              | s # _ \<Rightarrow> Inr (join_rest ((scantbl st)[0 := 1]) plans (scan_of s))))"

section \<open>Select\<close>

definition set_conds :: "Condition list \<Rightarrow> Query \<Rightarrow> Query" where
  "set_conds cs q =
     Query (q_parse q) cs (q_cols q) (q_tables q) (q_set_clauses q) (q_values q) (q_aliases q) (q_aggregates q) (q_group_bys q)
       (q_havings q) (q_has_subquery q) (q_subquery q)"

definition set_aliases :: "Alias list \<Rightarrow> Query \<Rightarrow> Query" where
  "set_aliases as q =
     Query (q_parse q) (q_conds q) (q_cols q) (q_tables q) (q_set_clauses q) (q_values q) as (q_aggregates q) (q_group_bys q)
       (q_havings q) (q_has_subquery q) (q_subquery q)"

definition set_sub_query :: "Query \<Rightarrow> Query \<Rightarrow> Query" where
  "set_sub_query sub q =
     (let s = q_subquery q
      in Query (q_parse q) (q_conds q) (q_cols q) (q_tables q) (q_set_clauses q) (q_values q) (q_aliases q) (q_aggregates q)
           (q_group_bys q) (q_havings q) (q_has_subquery q) (Subquery (sub_lhs s) (sub_op s) (sub_in s) (sub_value_list s) (Some sub)))"

definition lift_sum :: "rmdb_error + 'a \<Rightarrow> 'w \<Rightarrow> ('a, 'w) run" where
  "lift_sum r w = Some (r, w)"

text \<open>The plan of the sub-query below a scan; \<open>gen\<close> plans a select.\<close>

definition make_sub_plan :: "DbMeta \<Rightarrow> (Query \<Rightarrow> (Plan, Query) run) \<Rightarrow> Query \<Rightarrow> (Plan, Query) run" where
  "make_sub_plan db gen q =
     (case sub_query (q_subquery q) of
        None \<Rightarrow> Some (Inl NullDereference, q)
      | Some sub \<Rightarrow>
          if sub_value_list (q_subquery q) then lift_sum (new_values_plan db (q_values sub) (sub_lhs (q_subquery q))) q
          else map_option (\<lambda>(r, sub'). (r, set_sub_query sub' q)) (gen sub))"

definition make_scan :: "DbMeta \<Rightarrow> (Query \<Rightarrow> (Plan, Query) run) \<Rightarrow> string \<Rightarrow> Query \<Rightarrow> (scan_node, Query) run" where
  "make_scan db gen tab_name q =
     (case pop_conds (q_conds q) tab_name of (curr_conds, rest) \<Rightarrow>
        bindR (lift_sum (get_index_cols db tab_name curr_conds) (set_conds rest q)) (\<lambda>(index_exist, index_cols, curr_conds) q.
        bindR (lift_sum (new_scan_plan db (if index_exist then T_IndexScan else T_SeqScan) tab_name curr_conds
                           (if index_exist then index_cols else [])
                           (if q_has_subquery q
                            then Some \<lparr>sq_lhs = sub_lhs (q_subquery q), sq_op = sub_op (q_subquery q), in_clause = sub_in (q_subquery q)\<rparr>
                            else None)) q) (\<lambda>scan q.
          if q_has_subquery q then bindR (make_sub_plan db gen q) (\<lambda>p q. Some (Inr (scan, Some p), q))
          else Some (Inr (scan, None), q))))"

fun make_scans :: "DbMeta \<Rightarrow> (Query \<Rightarrow> (Plan, Query) run) \<Rightarrow> string list \<Rightarrow> Query \<Rightarrow> (scan_node list, Query) run" where
  "make_scans db gen [] q = Some (Inr [], q)"
| "make_scans db gen (t # ts) q =
     bindR (make_scan db gen t q) (\<lambda>s q. bindR (make_scans db gen ts q) (\<lambda>ss q. Some (Inr (s # ss), q)))"

definition make_one_rel :: "planner \<Rightarrow> DbMeta \<Rightarrow> (Query \<Rightarrow> (Plan, Query) run) \<Rightarrow> Query \<Rightarrow> (Plan, Query) run" where
  "make_one_rel pl db gen q =
     bindR (make_scans db gen (q_tables q) q) (\<lambda>scans q.
       if length (q_tables q) = 1 then Some (Inr (scan_of (hd scans)), q)
       else lift_sum (join_scans pl scans (q_conds q)) (set_conds [] q))"

definition make_aggr_plan :: "planner \<Rightarrow> DbMeta \<Rightarrow> (Query \<Rightarrow> (Plan, Query) run) \<Rightarrow> Query \<Rightarrow> (Plan, Query) run" where
  "make_aggr_plan pl db gen q =
     bindR (make_one_rel pl db gen q) (\<lambda>subplan q. Some (Inr (AggrPlan subplan (q_havings q) (q_aggregates q) (q_group_bys q)), q))"

text \<open>The column to sort by is the last one of that name among the tables.\<close>

definition sort_col :: "string \<Rightarrow> ColMeta list \<Rightarrow> TabCol" where
  "sort_col name cols = foldl (\<lambda>sel c. if cm_name c = name then TabCol (cm_tab_name c) (cm_name c) else sel) (TabCol [] []) cols"

definition generate_sort_plan :: "DbMeta \<Rightarrow> Query \<Rightarrow> Plan \<Rightarrow> rmdb_error + Plan" where
  "generate_sort_plan db q plan =
     (case q_parse q of
        Some (SelectNode x) \<Rightarrow>
          (case sel_order_bys x of
             None \<Rightarrow> Inr plan
           | Some ob \<Rightarrow>
               sbind (get_all_cols db (q_tables q)) (\<lambda>all_cols.
                 Inr (SortPlan T_Sort (Some plan) (sort_col (col_col_name (ob_cols ob)) all_cols) (orderby_dir ob = OrderBy_DESC))))
      | _ \<Rightarrow> Inr plan)"

definition logical_optimization :: "Query \<Rightarrow> Query" where
  "logical_optimization q = q"

definition physical_optimization :: "planner \<Rightarrow> DbMeta \<Rightarrow> (Query \<Rightarrow> (Plan, Query) run) \<Rightarrow> Query \<Rightarrow> (Plan, Query) run" where
  "physical_optimization pl db gen q =
     bindR (if q_aggregates q = [] \<and> q_group_bys q = [] then make_one_rel pl db gen q else make_aggr_plan pl db gen q) (\<lambda>plan q.
       lift_sum (generate_sort_plan db q plan) q)"

definition project_plan :: "planner \<Rightarrow> DbMeta \<Rightarrow> (Query \<Rightarrow> (Plan, Query) run) \<Rightarrow> Query \<Rightarrow> (Plan, Query) run" where
  "project_plan pl db gen q =
     (let q = logical_optimization q; sel_cols = q_cols q
      in bindR (physical_optimization pl db gen q) (\<lambda>plan q.
           lift_sum (sbind (alias_cols sel_cols (q_aliases q)) (\<lambda>cs. Inr (ProjectionPlan T_Projection plan sel_cols cs)))
             (set_aliases [] q)))"

fun generate_select_plan :: "planner \<Rightarrow> DbMeta \<Rightarrow> nat \<Rightarrow> Query \<Rightarrow> (Plan, Query) run" where
  "generate_select_plan pl db 0 q = None"
| "generate_select_plan pl db (Suc n) q = project_plan pl db (generate_select_plan pl db n) q"

definition generate_aggr_plan :: "planner \<Rightarrow> DbMeta \<Rightarrow> nat \<Rightarrow> Query \<Rightarrow> (Plan, Query) run" where
  "generate_aggr_plan pl db n q = project_plan pl db (generate_select_plan pl db n) q"

section \<open>Statements\<close>

definition interp_sv_type :: "SvType \<Rightarrow> rmdb_error + ColType" where
  "interp_sv_type t =
     (case t of SV_TYPE_INT \<Rightarrow> Inr TYPE_INT | SV_TYPE_FLOAT \<Rightarrow> Inr TYPE_FLOAT | SV_TYPE_STRING \<Rightarrow> Inr TYPE_STRING
      | SV_TYPE_DATETIME \<Rightarrow> Inr TYPE_DATETIME | SV_TYPE_BOOL \<Rightarrow> Inl OutOfRange)"

definition interp_field :: "Field \<Rightarrow> rmdb_error + ColDef" where
  "interp_field f =
     (case f of
        BaseField \<Rightarrow> Inl (InternalError ''Unexpected field type'')
      | ast_ColDef name ty \<Rightarrow> sbind (interp_sv_type (tl_type ty)) (\<lambda>t. Inr \<lparr>cd_name = name, cd_type = t, cd_len = tl_len ty\<rparr>))"

text \<open>The scan of \<open>DELETE\<close> and \<open>UPDATE\<close>; the conditions of the query are put in the order of the index.\<close>

definition dml_scan :: "DbMeta \<Rightarrow> string \<Rightarrow> Query \<Rightarrow> (Plan, Query) run" where
  "dml_scan db tab_name q =
     bindR (lift_sum (get_index_cols db tab_name (q_conds q)) q) (\<lambda>(index_exist, index_cols, conds) q.
       let q = set_conds conds q
       in lift_sum (sbind (new_scan_plan db (if index_exist then T_IndexScan else T_SeqScan) tab_name conds
                             (if index_exist then index_cols else []) None) (\<lambda>s. Inr (ScanPlan s None))) q)"

definition do_planner :: "planner \<Rightarrow> DbMeta \<Rightarrow> nat \<Rightarrow> Query \<Rightarrow> (Plan, Query) run" where
  "do_planner pl db n q =
     (case q_parse q of
        Some (CreateTable tab_name flds) \<Rightarrow>
          lift_sum (sbind (smap interp_field flds) (\<lambda>defs. Inr (DDLPlan T_CreateTable tab_name [] defs))) q
      | Some (DropTable tab_name) \<Rightarrow> Some (Inr (DDLPlan T_DropTable tab_name [] []), q)
      | Some (CreateIndex tab_name cols) \<Rightarrow> Some (Inr (DDLPlan T_CreateIndex tab_name cols []), q)
      | Some (DropIndex tab_name cols) \<Rightarrow> Some (Inr (DDLPlan T_DropIndex tab_name cols []), q)
      | Some (InsertStmt tab_name vals) \<Rightarrow> Some (Inr (DMLPlan T_Insert None tab_name (q_values q) [] []), q)
      | Some (DeleteStmt tab_name exprs) \<Rightarrow>
          bindR (dml_scan db tab_name q) (\<lambda>p q. Some (Inr (DMLPlan T_Delete (Some p) tab_name [] (q_conds q) []), q))
      | Some (UpdateStmt tab_name sets exprs) \<Rightarrow>
          bindR (dml_scan db tab_name q) (\<lambda>p q. Some (Inr (DMLPlan T_Update (Some p) tab_name [] (q_conds q) (q_set_clauses q)), q))
      | Some (SelectNode x) \<Rightarrow> bindR (generate_aggr_plan pl db n q) (\<lambda>p q. Some (Inr (DQLPlan T_select p), q))
      | _ \<Rightarrow> Some (Inl (InternalError ''Unexpected AST root''), q))"

definition plan_query :: "planner \<Rightarrow> DbMeta \<Rightarrow> nat \<Rightarrow> Query \<Rightarrow> (Plan, Query) run" where
  "plan_query pl db n q =
     (case q_parse q of
        Some Help \<Rightarrow> Some (Inr (OtherPlan T_Help []), q)
      | Some ShowTables \<Rightarrow> Some (Inr (OtherPlan T_ShowTable []), q)
      | Some (DescTable t) \<Rightarrow> Some (Inr (OtherPlan T_DescTable t), q)
      | Some (ShowIndex t) \<Rightarrow> Some (Inr (OtherPlan T_ShowIndex t), q)
      | Some TxnBegin \<Rightarrow> Some (Inr (OtherPlan T_Transaction_begin []), q)
      | Some TxnAbort \<Rightarrow> Some (Inr (OtherPlan T_Transaction_abort []), q)
      | Some TxnCommit \<Rightarrow> Some (Inr (OtherPlan T_Transaction_commit []), q)
      | Some TxnRollback \<Rightarrow> Some (Inr (OtherPlan T_Transaction_rollback []), q)
      | Some (SetStmt k b) \<Rightarrow> Some (Inr (SetKnobPlan k b), q)
      | Some CkpStmt \<Rightarrow> Some (Inr (OtherPlan T_CheckPoint []), q)
      | Some OffStmt \<Rightarrow> Some (Inr SetOutputOffPlan, q)
      | Some (LoadStmt f t) \<Rightarrow> Some (Inr (LoadPlan f t), q)
      | _ \<Rightarrow> do_planner pl db n q)"

end
