(* ===== verification/PlannerProperties.thy ===== *)
theory PlannerProperties
  imports Planner
begin

text \<open>
  The planner returns, and the join tree it builds scans every table once and applies every condition once, at a
  node where both of its columns are available.
\<close>

section \<open>The planner returns\<close>

fun query_depth :: "Query \<Rightarrow> nat" and sub_depth :: "Subquery \<Rightarrow> nat" where
  "query_depth (Query p conds cols tables sets vals aliases aggregates group_bys havings has s) = Suc (sub_depth s)"
| "sub_depth (Subquery lhs op i vl None) = 0"
| "sub_depth (Subquery lhs op i vl (Some q)) = query_depth q"

lemma query_depth_set [simp]:
  "query_depth (set_conds cs q) = query_depth q" "query_depth (set_aliases as q) = query_depth q"
  "query_depth (set_sub_query s q) = Suc (query_depth s)"
  by (cases q; simp add: set_conds_def set_aliases_def set_sub_query_def Let_def)+

lemma query_depth_sub: "sub_query (q_subquery q) = Some s \<Longrightarrow> query_depth q = Suc (query_depth s)"
  by (cases q; cases "q_subquery q") auto

definition returns :: "nat \<Rightarrow> ('a, Query) run \<Rightarrow> bool" where
  "returns k m \<longleftrightarrow> (case m of None \<Rightarrow> False | Some (r, q) \<Rightarrow> query_depth q \<le> k)"

lemma returns_lift [simp]: "returns k (lift_sum r q) \<longleftrightarrow> query_depth q \<le> k" "returns k (Some (r, q)) \<longleftrightarrow> query_depth q \<le> k"
  by (simp_all add: returns_def lift_sum_def)

lemma returns_None [simp]: "\<not> returns k None"
  by (simp add: returns_def)

lemma returns_bindR:
  "returns k m \<Longrightarrow> (\<And>a q. query_depth q \<le> k \<Longrightarrow> returns k (f a q)) \<Longrightarrow> returns k (bindR m f)"
  by (cases m) (auto simp: bindR_def split: sum.splits)

lemma make_sub_plan_returns:
  assumes "\<And>q. query_depth q \<le> k \<Longrightarrow> returns k (gen q)" and "query_depth q \<le> Suc k"
  shows "returns (Suc k) (make_sub_plan db gen q)"
proof (cases "sub_query (q_subquery q)")
  case (Some s)
  then have "returns k (gen s)" using assms query_depth_sub [OF Some] by simp
  then show ?thesis using assms(2) Some by (auto simp: make_sub_plan_def returns_def lift_sum_def split: option.splits)
qed (use assms(2) in \<open>simp add: make_sub_plan_def\<close>)

lemma make_scan_returns:
  assumes "\<And>q. query_depth q \<le> k \<Longrightarrow> returns k (gen q)" and "query_depth q \<le> Suc k"
  shows "returns (Suc k) (make_scan db gen t q)"
  using assms make_sub_plan_returns [OF assms(1)]
  by (auto simp: make_scan_def split: prod.splits intro!: returns_bindR)

lemma make_scans_returns:
  assumes "\<And>q. query_depth q \<le> k \<Longrightarrow> returns k (gen q)"
  shows "query_depth q \<le> Suc k \<Longrightarrow> returns (Suc k) (make_scans db gen ts q)"
  by (induction ts arbitrary: q) (auto intro!: returns_bindR make_scan_returns assms)

lemma project_plan_returns:
  assumes "\<And>q. query_depth q \<le> k \<Longrightarrow> returns k (gen q)" and "query_depth q \<le> Suc k"
  shows "returns (Suc k) (project_plan pl db gen q)"
proof -
  have "returns (Suc k) (make_one_rel pl db gen q)" if "query_depth q \<le> Suc k" for q
    unfolding make_one_rel_def by (intro returns_bindR make_scans_returns assms(1) that) auto
  then show ?thesis using assms(2)
    by (auto simp: project_plan_def physical_optimization_def make_aggr_plan_def logical_optimization_def Let_def intro!: returns_bindR)
qed

lemma generate_select_plan_returns: "query_depth q \<le> n \<Longrightarrow> returns n (generate_select_plan pl db n q)"
proof (induction n arbitrary: q)
  case 0
  then show ?case by (cases q) simp
next
  case (Suc n)
  then show ?case using project_plan_returns [of n "generate_select_plan pl db n" q pl db] by simp
qed

lemma plan_query_returns:
  assumes "query_depth q \<le> Suc n"
  shows "returns (Suc n) (plan_query pl db n q)"
proof -
  have "returns (Suc n) (do_planner pl db n q)"
    using assms project_plan_returns [of n "generate_select_plan pl db n" q pl db] generate_select_plan_returns
    by (auto simp: do_planner_def generate_aggr_plan_def dml_scan_def Let_def intro!: returns_bindR split: option.splits TreeNode.splits)
  then show ?thesis using assms by (simp add: plan_query_def split: option.splits TreeNode.splits)
qed

text \<open>
  Planning ends. A query is planned, or refused with an error, by at most as many nested calls as it has
  sub-queries inside one another.
\<close>

theorem planner_terminates:
  assumes "query_depth q \<le> Suc n"
  shows "\<exists>r q'. plan_query pl db n q = Some (r, q') \<and> query_depth q' \<le> Suc n"
  using plan_query_returns [OF assms, of pl db] by (auto simp: returns_def split: option.splits)

section \<open>Join trees\<close>

fun plan_scans :: "Plan \<Rightarrow> scan_plan list" and ptr_scans :: "Plan option \<Rightarrow> scan_plan list" where
  "plan_scans (ScanPlan s sub) = [s]"
| "plan_scans (JoinPlan t l r cs ty) = ptr_scans l @ ptr_scans r"
| "plan_scans (ProjectionPlan t p cols sel) = plan_scans p"
| "plan_scans (SortPlan t p c d) = ptr_scans p"
| "plan_scans (DQLPlan t p) = plan_scans p"
| "plan_scans (AggrPlan p hs as gs) = plan_scans p"
| "plan_scans p = []"
| "ptr_scans None = []"
| "ptr_scans (Some p) = plan_scans p"

fun join_conds :: "Plan \<Rightarrow> Condition list" and ptr_conds :: "Plan option \<Rightarrow> Condition list" where
  "join_conds (JoinPlan t l r cs ty) = ptr_conds l @ ptr_conds r @ cs"
| "join_conds (ProjectionPlan t p cols sel) = join_conds p"
| "join_conds (SortPlan t p c d) = ptr_conds p"
| "join_conds (DQLPlan t p) = join_conds p"
| "join_conds (AggrPlan p hs as gs) = join_conds p"
| "join_conds p = []"
| "ptr_conds None = []"
| "ptr_conds (Some p) = join_conds p"

definition plan_tables :: "Plan \<Rightarrow> string list" where
  "plan_tables p = map sp_tab_name (plan_scans p)"

abbreviation ltab :: "Condition \<Rightarrow> string" where "ltab c \<equiv> tc_tab (lhs_col c)"

abbreviation rtab :: "Condition \<Rightarrow> string" where "rtab c \<equiv> tc_tab (rhs_col c)"

text \<open>
  A scan filters its own table; a nested-loop join compares a column of its left input with one of its right input.
\<close>

fun join_ok :: "Plan \<Rightarrow> bool" where
  "join_ok (ScanPlan s sub) \<longleftrightarrow> (\<forall>c\<in>set (sp_conds s). is_rhs_val c \<and> ltab c = sp_tab_name s)"
| "join_ok (JoinPlan t (Some l) (Some r) cs ty) \<longleftrightarrow>
     t = T_NestLoop \<and> ty = INNER_JOIN \<and> join_ok l \<and> join_ok r \<and>
     (\<forall>c\<in>set cs. \<not> is_rhs_val c \<and> ltab c \<in> set (plan_tables l) \<and> rtab c \<in> set (plan_tables r))"
| "join_ok _ \<longleftrightarrow> False"

lemma plan_tables_simps [simp]:
  "plan_tables (ScanPlan s sub) = [sp_tab_name s]"
  "plan_tables (JoinPlan t (Some l) (Some r) cs ty) = plan_tables l @ plan_tables r"
  by (simp_all add: plan_tables_def)

text \<open>A condition and the one with its sides exchanged are the same condition.\<close>

definition both_ways :: "Condition \<Rightarrow> Condition set" where
  "both_ways c = {c, swap_cond c}"

lemma swap_cond_simps [simp]:
  "lhs_col (swap_cond c) = rhs_col c" "rhs_col (swap_cond c) = lhs_col c" "is_rhs_val (swap_cond c) = is_rhs_val c"
  by (simp_all add: swap_cond_def)

lemma swap_cond_twice [simp]: "swap_cond (swap_cond c) = c"
  by (cases c) (simp add: swap_cond_def swap_op_def split: CompOp.splits)

lemma both_ways_swap [simp]: "both_ways (swap_cond c) = both_ways c"
  by (auto simp: both_ways_def)

definition classes :: "Condition list \<Rightarrow> Condition set multiset" where
  "classes cs = image_mset both_ways (mset cs)"

lemma classes_simps [simp]: "classes [] = {#}" "classes (c # cs) = add_mset (both_ways c) (classes cs)" "classes (cs @ ds) = classes cs + classes ds"
  by (simp_all add: classes_def)

lemma push_conds_spec:
  assumes "join_ok p" and "distinct (plan_tables p)" and "ltab c \<noteq> rtab c" and "\<not> is_rhs_val c"
  shows "plan_scans (snd (push_conds c p)) = plan_scans p \<and>
    (if ltab c \<in> set (plan_tables p) \<and> rtab c \<in> set (plan_tables p)
     then fst (push_conds c p) = 3 \<and> join_ok (snd (push_conds c p)) \<and>
       classes (join_conds (snd (push_conds c p))) = add_mset (both_ways c) (classes (join_conds p))
     else snd (push_conds c p) = p \<and>
       fst (push_conds c p) = (if ltab c \<in> set (plan_tables p) then 1 else if rtab c \<in> set (plan_tables p) then 2 else 0))"
  using assms(1,2)
proof (induction p rule: join_ok.induct)
  case (2 t l r cs ty)
  obtain n l' m r' where lr: "push_conds c l = (n, l')" "push_conds c r = (m, r')" by fastforce
  have d: "distinct (plan_tables l)" "distinct (plan_tables r)" "set (plan_tables l) \<inter> set (plan_tables r) = {}"
    "join_ok l" "join_ok r" using "2.prems" by auto
  note L = "2.IH"(1) [OF d(4,1), unfolded lr fst_conv snd_conv] and R = "2.IH"(2) [OF d(5,2), unfolded lr fst_conv snd_conv]
  have t: "plan_tables l' = plan_tables l" "plan_tables r' = plan_tables r" using L R by (auto simp: plan_tables_def)
  show ?case using L R t d "2.prems" assms(3,4)
    by (auto simp: lr split: if_splits)
qed (use assms in auto)

section \<open>Building the tree\<close>

abbreviation scan_name :: "scan_node \<Rightarrow> string" where "scan_name s \<equiv> sp_tab_name (fst s)"

lemma find_scan_Some:
  assumes "t \<in> set (map scan_name ss)"
  shows "\<exists>k<length ss. scan_name (ss ! k) = t \<and> find_scan t i ss = Some (i + k, ss ! k)"
  using assms
proof (induction ss arbitrary: i)
  case (Cons s ss)
  show ?case
  proof (cases "scan_name s = t")
    case False
    then obtain k where "k < length ss" "scan_name (ss ! k) = t" "find_scan t (i + 1) ss = Some (i + 1 + k, ss ! k)"
      using Cons.IH [of "i + 1"] Cons.prems by auto
    then show ?thesis using False by (intro exI [of _ "Suc k"]) simp
  qed (auto intro: exI [of _ 0])
qed simp

lemma pop_scan_ex:
  assumes "t \<in> set (map scan_name ss)"
  shows "\<exists>k<length ss. scan_name (ss ! k) = t \<and>
    (\<forall>st. pop_scan t ss st = (Some (scan_of (ss ! k)), st\<lparr>scantbl := (scantbl st)[k := 1], joined_tables := joined_tables st @ [t]\<rparr>))"
  using find_scan_Some [OF assms, of 0] by (auto simp: pop_scan_def)

text \<open>The tree built so far, and what the state says of it.\<close>

definition tree_inv :: "scan_node list \<Rightarrow> Plan \<times> join_state \<Rightarrow> bool" where
  "tree_inv ss pst \<longleftrightarrow>
     join_ok (fst pst) \<and> distinct (plan_tables (fst pst)) \<and> set (plan_scans (fst pst)) \<subseteq> fst ` set ss \<and>
     insert [] (set (joined_tables (snd pst))) = insert [] (set (plan_tables (fst pst))) \<and>
     length (scantbl (snd pst)) = length ss \<and>
     (\<forall>k<length ss. scantbl (snd pst) ! k = (if scan_name (ss ! k) \<in> set (plan_tables (fst pst)) then 1 else - 1))"

definition scans_ok :: "scan_node list \<Rightarrow> bool" where
  "scans_ok ss \<longleftrightarrow> distinct (map scan_name ss) \<and> [] \<notin> set (map scan_name ss) \<and> (\<forall>s\<in>set ss. join_ok (scan_of s))"

definition join_cond :: "scan_node list \<Rightarrow> Condition \<Rightarrow> bool" where
  "join_cond ss c \<longleftrightarrow> \<not> is_rhs_val c \<and> ltab c \<in> set (map scan_name ss) \<and> rtab c \<in> set (map scan_name ss) \<and> ltab c \<noteq> rtab c"

lemma scan_name_eq_iff:
  "scans_ok ss \<Longrightarrow> j < length ss \<Longrightarrow> k < length ss \<Longrightarrow> scan_name (ss ! j) = scan_name (ss ! k) \<longleftrightarrow> j = k"
  using nth_eq_iff_index_eq [of "map scan_name ss" j k] by (simp add: scans_ok_def)

lemma scans_ok_nth: "scans_ok ss \<Longrightarrow> k < length ss \<Longrightarrow> join_ok (scan_of (ss ! k)) \<and> scan_name (ss ! k) \<noteq> []"
  using nth_mem [of k ss] by (metis scans_ok_def length_map nth_map nth_mem)

text \<open>Joining a further plan, whose tables are marked as joined.\<close>

lemma tree_inv_join:
  assumes inv: "tree_inv ss (plan, st)" and p: "join_ok p" "distinct (plan_tables p)" "set (plan_scans p) \<subseteq> fst ` set ss"
    and d: "set (plan_tables p) \<inter> set (plan_tables plan) = {}"
    and cs: "\<forall>c\<in>set cs. \<not> is_rhs_val c \<and> ltab c \<in> set (plan_tables p) \<and> rtab c \<in> set (plan_tables plan)"
    and st: "joined_tables st' = joined_tables st @ plan_tables p" "length (scantbl st') = length ss"
      "\<forall>k<length ss. scantbl st' ! k = (if scan_name (ss ! k) \<in> set (plan_tables p) then 1 else scantbl st ! k)"
  shows "tree_inv ss (JoinPlan T_NestLoop (Some p) (Some plan) cs INNER_JOIN, st')"
proof -
  have "insert [] (set (joined_tables st')) = insert [] (set (plan_tables p @ plan_tables plan))"
    using inv st(1) by (auto simp: tree_inv_def)
  then show ?thesis using inv p d cs st(2,3) by (simp add: tree_inv_def Int_commute)
qed

lemma next_join_tree:
  assumes inv: "tree_inv ss (plan, st)" and ss: "scans_ok ss" and c: "join_cond ss c"
  shows "tree_inv ss (next_join ss c (plan, st)) \<and>
    set (plan_tables plan) \<subseteq> set (plan_tables (fst (next_join ss c (plan, st)))) \<and>
    classes (join_conds (fst (next_join ss c (plan, st)))) = add_mset (both_ways c) (classes (join_conds plan))"
proof -
  obtain i where i: "i < length ss" "scan_name (ss ! i) = ltab c"
    "\<And>st. pop_scan (ltab c) ss st = (Some (scan_of (ss ! i)), st\<lparr>scantbl := (scantbl st)[i := 1], joined_tables := joined_tables st @ [ltab c]\<rparr>)"
    using pop_scan_ex c by (metis join_cond_def)
  obtain j where j: "j < length ss" "scan_name (ss ! j) = rtab c"
    "\<And>st. pop_scan (rtab c) ss st = (Some (scan_of (ss ! j)), st\<lparr>scantbl := (scantbl st)[j := 1], joined_tables := joined_tables st @ [rtab c]\<rparr>)"
    using pop_scan_ex c by (metis join_cond_def)
  have ij: "i \<noteq> j" "ltab c \<noteq> rtab c" "\<not> is_rhs_val c" "ltab c \<noteq> []" "rtab c \<noteq> []"
    using c i j scans_ok_nth [OF ss i(1)] scans_ok_nth [OF ss j(1)] by (auto simp: join_cond_def)
  have joined: "t \<in> set (joined_tables st) \<longleftrightarrow> t \<in> set (plan_tables plan)" if "t \<noteq> []" for t
    using inv that by (auto simp: tree_inv_def)
  have name_i: "scan_name (ss ! k) = ltab c \<longleftrightarrow> k = i" if "k < length ss" for k using scan_name_eq_iff [OF ss that i(1)] i(2) by simp
  have name_j: "scan_name (ss ! k) = rtab c \<longleftrightarrow> k = j" if "k < length ss" for k using scan_name_eq_iff [OF ss that j(1)] j(2) by simp
  have len: "length (scantbl st) = length ss" using inv by (simp add: tree_inv_def)
  note ok = scans_ok_nth [OF ss i(1), THEN conjunct1] scans_ok_nth [OF ss j(1), THEN conjunct1]
  consider "ltab c \<notin> set (plan_tables plan)" "rtab c \<notin> set (plan_tables plan)"
    | "ltab c \<in> set (plan_tables plan)" "rtab c \<notin> set (plan_tables plan)"
    | "ltab c \<notin> set (plan_tables plan)" "rtab c \<in> set (plan_tables plan)"
    | "ltab c \<in> set (plan_tables plan)" "rtab c \<in> set (plan_tables plan)" by blast
  then show ?thesis
  proof cases
    case 4
    have p: "plan_scans (snd (push_conds c plan)) = plan_scans plan" "join_ok (snd (push_conds c plan))"
      "classes (join_conds (snd (push_conds c plan))) = add_mset (both_ways c) (classes (join_conds plan))"
      using push_conds_spec [of plan c] inv ij 4 by (simp_all add: tree_inv_def)
    have "next_join ss c (plan, st) = (snd (push_conds c plan), st)" using 4 by (simp add: next_join_def joined ij)
    then show ?thesis using inv p by (simp add: tree_inv_def plan_tables_def)
  next
    case 3
    then have n: "next_join ss c (plan, st) = (JoinPlan T_NestLoop (Some (scan_of (ss ! i))) (Some plan) [c] INNER_JOIN,
        st\<lparr>scantbl := (scantbl st)[i := 1], joined_tables := joined_tables st @ [ltab c]\<rparr>)"
      by (simp add: next_join_def joined ij i)
    have "tree_inv ss (next_join ss c (plan, st))"
      unfolding n by (rule tree_inv_join [OF inv]) (use 3 len i(1) ij ok in \<open>simp_all add: nth_list_update i(2) name_i\<close>)
    then show ?thesis by (auto simp: n)
  next
    case 2
    then have n: "next_join ss c (plan, st) = (JoinPlan T_NestLoop (Some (scan_of (ss ! j))) (Some plan) [swap_cond c] INNER_JOIN,
        st\<lparr>scantbl := (scantbl st)[j := 1], joined_tables := joined_tables st @ [rtab c]\<rparr>)"
      by (simp add: next_join_def joined ij j)
    have "tree_inv ss (next_join ss c (plan, st))"
      unfolding n by (rule tree_inv_join [OF inv]) (use 2 len j(1) ij ok in \<open>simp_all add: nth_list_update j(2) name_j\<close>)
    then show ?thesis by (auto simp: n)
  next
    case 1
    then have n: "next_join ss c (plan, st) =
       (JoinPlan T_NestLoop (Some (JoinPlan T_NestLoop (Some (scan_of (ss ! i))) (Some (scan_of (ss ! j))) [c] INNER_JOIN)) (Some plan) [] INNER_JOIN,
        st\<lparr>scantbl := (scantbl st)[i := 1, j := 1], joined_tables := joined_tables st @ [ltab c, rtab c]\<rparr>)"
      by (simp add: next_join_def joined ij ij(2) [symmetric] i j)
    have "tree_inv ss (next_join ss c (plan, st))"
      unfolding n by (rule tree_inv_join [OF inv]) (use 1 len i(1) j(1) ij ok in \<open>simp_all add: nth_list_update i(2) j(2) name_i name_j\<close>)
    then show ?thesis by (auto simp: n)
  qed
qed

lemma next_joins_tree:
  assumes "scans_ok ss" and "\<forall>c\<in>set cs. join_cond ss c"
  shows "tree_inv ss pst \<Longrightarrow> tree_inv ss (next_joins ss cs pst) \<and>
    classes (join_conds (fst (next_joins ss cs pst))) = classes cs + classes (join_conds (fst pst))"
  using assms(2)
proof (induction cs arbitrary: pst)
  case (Cons c cs)
  from next_join_tree [of ss "fst pst" "snd pst" c] Cons.prems assms(1)
  have "tree_inv ss (next_join ss c pst)" "classes (join_conds (fst (next_join ss c pst))) = add_mset (both_ways c) (classes (join_conds (fst pst)))"
    by simp_all
  then show ?case using Cons.IH [of "next_join ss c pst"] Cons.prems(2) by simp
qed simp

lemma first_join_tree:
  assumes "scans_ok ss" and c: "join_cond ss c" and "enable_nestedloop_join pl"
  shows "\<exists>pst. first_join pl ss \<lparr>scantbl = replicate (length ss) (- 1), joined_tables = replicate (length ss) []\<rparr> c = Inr pst \<and>
    tree_inv ss pst \<and> classes (join_conds (fst pst)) = {#both_ways c#}"
proof -
  let ?st = "\<lparr>scantbl = replicate (length ss) (- 1), joined_tables = replicate (length ss) []\<rparr>"
  obtain i where i: "i < length ss" "scan_name (ss ! i) = ltab c"
    "\<And>st. pop_scan (ltab c) ss st = (Some (scan_of (ss ! i)), st\<lparr>scantbl := (scantbl st)[i := 1], joined_tables := joined_tables st @ [ltab c]\<rparr>)"
    using pop_scan_ex c by (metis join_cond_def)
  obtain j where j: "j < length ss" "scan_name (ss ! j) = rtab c"
    "\<And>st. pop_scan (rtab c) ss st = (Some (scan_of (ss ! j)), st\<lparr>scantbl := (scantbl st)[j := 1], joined_tables := joined_tables st @ [rtab c]\<rparr>)"
    using pop_scan_ex c by (metis join_cond_def)
  have c': "\<not> is_rhs_val c" "ltab c \<noteq> rtab c" "i \<noteq> j" using c i j by (auto simp: join_cond_def)
  have name_i: "scan_name (ss ! k) = ltab c \<longleftrightarrow> k = i" if "k < length ss" for k using scan_name_eq_iff [OF assms(1) that i(1)] i(2) by simp
  have name_j: "scan_name (ss ! k) = rtab c \<longleftrightarrow> k = j" if "k < length ss" for k using scan_name_eq_iff [OF assms(1) that j(1)] j(2) by simp
  have "set (replicate (length ss) []) \<subseteq> {[]}" by (simp add: set_replicate_conv_if)
  then have "insert [] (set (replicate (length ss) [] @ [ltab c, rtab c])) = {[], ltab c, rtab c}" by auto
  then have "tree_inv ss (JoinPlan T_NestLoop (Some (scan_of (ss ! i))) (Some (scan_of (ss ! j))) [c] INNER_JOIN,
     ?st\<lparr>scantbl := (scantbl ?st)[i := 1, j := 1], joined_tables := joined_tables ?st @ [ltab c, rtab c]\<rparr>)"
    using i(1) j(1) c' scans_ok_nth [OF assms(1) i(1), THEN conjunct1] scans_ok_nth [OF assms(1) j(1), THEN conjunct1]
    by (simp add: tree_inv_def nth_list_update i(2) j(2) name_i name_j)
  then show ?thesis by (simp add: first_join_def i(3) j(3) assms(3))
qed

text \<open>The scans that are not in the tree yet are joined at the end; the tree then has every scan once.\<close>

lemma join_rest_tree:
  assumes "join_ok plan" and "length fs = length ss"
    and "\<forall>k<length ss. fs ! k = (if scan_name (ss ! k) \<in> set (plan_tables plan) then 1 else - 1)"
    and "distinct (map scan_name ss)" and "\<forall>s\<in>set ss. join_ok (scan_of s)"
  shows "join_ok (join_rest fs ss plan) \<and> classes (join_conds (join_rest fs ss plan)) = classes (join_conds plan) \<and>
    mset (plan_scans (join_rest fs ss plan)) =
      mset (plan_scans plan) + mset (map fst (filter (\<lambda>s. scan_name s \<notin> set (plan_tables plan)) ss))"
  using assms
proof (induction fs ss plan rule: join_rest.induct)
  case (1 f fs s ss plan)
  let ?p = "if f = - 1 then JoinPlan T_NestLoop (Some (scan_of s)) (Some plan) [] INNER_JOIN else plan"
  have f: "f = (if scan_name s \<in> set (plan_tables plan) then 1 else - 1)" using "1.prems"(3) [rule_format, of 0] by simp
  have nin: "\<forall>u\<in>set ss. scan_name s \<noteq> scan_name u" using "1.prems"(4) by (simp add: image_iff)
  have t: "scan_name u \<in> set (plan_tables ?p) \<longleftrightarrow> scan_name u \<in> set (plan_tables plan)" if "u \<in> set ss" for u
    using nin that by (auto simp: f)
  have "\<forall>k<length ss. fs ! k = (if scan_name (ss ! k) \<in> set (plan_tables ?p) then 1 else - 1)"
    using "1.prems"(3) t [OF nth_mem] by (auto dest: spec [of _ "Suc _"])
  moreover have "join_ok ?p" using "1.prems"(1,5) by (simp add: f)
  ultimately have IH: "join_ok (join_rest fs ss ?p)" "classes (join_conds (join_rest fs ss ?p)) = classes (join_conds ?p)"
    "mset (plan_scans (join_rest fs ss ?p)) =
      mset (plan_scans ?p) + mset (map fst (filter (\<lambda>s. scan_name s \<notin> set (plan_tables ?p)) ss))"
    using "1.IH" "1.prems"(2,4,5) by simp_all
  have "filter (\<lambda>u. scan_name u \<notin> set (plan_tables ?p)) ss = filter (\<lambda>u. scan_name u \<notin> set (plan_tables plan)) ss"
    by (rule filter_cong [OF refl]) (use t in blast)
  then show ?case using IH f by (auto split: if_splits)
qed auto

lemma tree_inv_scans:
  assumes "tree_inv ss (plan, st)" and "scans_ok ss"
  shows "mset (plan_scans plan) = mset (map fst (filter (\<lambda>s. scan_name s \<in> set (plan_tables plan)) ss))"
proof -
  have d: "distinct (map scan_name ss)" using assms(2) by (simp add: scans_ok_def)
  have "distinct (map fst ss)" using d distinct_map [of sp_tab_name "map fst ss"] by (simp add: comp_def)
  then have d1: "distinct (map fst (filter (\<lambda>s. scan_name s \<in> set (plan_tables plan)) ss))" by (rule distinct_map_filter)
  have d2: "distinct (plan_scans plan)" using assms(1) by (simp add: tree_inv_def plan_tables_def distinct_map)
  have "fst s \<in> set (plan_scans plan)" if s: "s \<in> set ss" "scan_name s \<in> set (plan_tables plan)" for s
  proof -
    obtain sc where sc: "sc \<in> set (plan_scans plan)" "sp_tab_name sc = scan_name s" using s(2) by (auto simp: plan_tables_def)
    then obtain s' where "s' \<in> set ss" "sc = fst s'" using assms(1) by (auto simp: tree_inv_def)
    then show ?thesis using d sc s(1) by (auto simp: distinct_map inj_on_def)
  qed
  moreover have "set (plan_scans plan) \<subseteq> fst ` set ss" using assms(1) by (simp add: tree_inv_def)
  ultimately have "set (plan_scans plan) = set (map fst (filter (\<lambda>s. scan_name s \<in> set (plan_tables plan)) ss))"
    by (fastforce simp: plan_tables_def)
  with set_eq_iff_mset_eq_distinct [OF d2 d1] show ?thesis by blast
qed

lemma join_scans_tree:
  assumes ss: "scans_ok ss" "ss \<noteq> []" and cs: "\<forall>c\<in>set cs. join_cond ss c" and "enable_nestedloop_join pl"
  shows "\<exists>p. join_scans pl ss cs = Inr p \<and> join_ok p \<and> mset (plan_scans p) = mset (map fst ss) \<and> classes (join_conds p) = classes cs"
proof -
  have fin: "join_ok (join_rest (scantbl st) ss plan) \<and> mset (plan_scans (join_rest (scantbl st) ss plan)) = mset (map fst ss) \<and>
      classes (join_conds (join_rest (scantbl st) ss plan)) = classes (join_conds plan)" if "tree_inv ss (plan, st)" for plan st
  proof -
    have "mset (filter (\<lambda>s. scan_name s \<in> set (plan_tables plan)) ss) + mset (filter (\<lambda>s. scan_name s \<notin> set (plan_tables plan)) ss) = mset ss"
      by (simp add: multiset_partition [symmetric])
    then have "mset (map fst ss) = mset (map fst (filter (\<lambda>s. scan_name s \<in> set (plan_tables plan)) ss)) +
        mset (map fst (filter (\<lambda>s. scan_name s \<notin> set (plan_tables plan)) ss))"
      by (simp only: mset_map flip: image_mset_union)
    then show ?thesis using join_rest_tree [of plan "scantbl st" ss] that ss(1) tree_inv_scans [OF that ss(1)]
      by (simp add: tree_inv_def scans_ok_def)
  qed
  let ?st = "\<lparr>scantbl = replicate (length ss) (- 1), joined_tables = replicate (length ss) []\<rparr>"
  show ?thesis
  proof (cases cs)
    case Nil
    obtain s rest where s: "ss = s # rest" using ss(2) by (cases ss) auto
    have "\<forall>u\<in>set rest. scan_name s \<noteq> scan_name u" using ss(1) by (simp add: scans_ok_def image_iff s)
    then have "\<forall>k<length rest. scan_name (rest ! k) \<noteq> scan_name s" using nth_mem by metis
    then have "tree_inv ss (scan_of s, ?st\<lparr>scantbl := (scantbl ?st)[0 := 1], joined_tables := [scan_name s]\<rparr>)"
      using ss(1) by (auto simp: tree_inv_def scans_ok_def s nth_Cons' nth_list_update)
    from fin [OF this] show ?thesis using Nil by (simp add: join_scans_def s Let_def)
  next
    case (Cons c cs')
    obtain pst where pst: "first_join pl ss ?st c = Inr pst" "tree_inv ss pst" "classes (join_conds (fst pst)) = {#both_ways c#}"
      using first_join_tree [OF ss(1) _ assms(4), of c] cs Cons by auto
    obtain plan st where n: "next_joins ss cs' pst = (plan, st)" by fastforce
    have "tree_inv ss (plan, st)" "classes (join_conds plan) = classes cs"
      using next_joins_tree [OF ss(1) _ pst(2), of cs'] pst(3) cs Cons n by simp_all
    then show ?thesis using fin pst(1) n Cons by (simp add: join_scans_def Let_def)
  qed
qed

section \<open>The scans of a query\<close>

definition same_query :: "Query \<Rightarrow> Query \<Rightarrow> bool" where
  "same_query q q' \<longleftrightarrow> q_parse q' = q_parse q \<and> q_cols q' = q_cols q \<and> q_tables q' = q_tables q \<and> q_aliases q' = q_aliases q \<and>
     q_aggregates q' = q_aggregates q \<and> q_group_bys q' = q_group_bys q \<and> q_havings q' = q_havings q \<and>
     q_has_subquery q' = q_has_subquery q"

lemma set_conds_sel [simp]: "q_conds (set_conds cs q) = cs" "same_query q (set_conds cs q)"
  by (simp_all add: set_conds_def same_query_def)

lemma set_sub_query_sel [simp]: "q_conds (set_sub_query s q) = q_conds q" "same_query q (set_sub_query s q)"
  by (simp_all add: set_sub_query_def same_query_def Let_def)

lemma same_query_refl [simp]: "same_query q q"
  by (simp add: same_query_def)

lemma same_query_trans: "same_query q q' \<Longrightarrow> same_query q' q'' \<Longrightarrow> same_query q q''"
  by (simp add: same_query_def)

definition index_cols_distinct :: "DbMeta \<Rightarrow> bool" where
  "index_cols_distinct db \<longleftrightarrow> (\<forall>tab\<in>snd ` set (db_tabs db). \<forall>ix\<in>set (tm_indexes tab). distinct (map cm_name (im_cols ix)))"

lemma MatchIndexMultiple_perm:
  assumes "\<forall>ix\<in>set (tm_indexes tab). distinct (map cm_name (im_cols ix))"
  shows "mset (snd (MatchIndexMultiple tab conds)) = mset conds"
proof -
  obtain k best es where r: "match_indexes (tm_indexes tab) conds (IX_MAX_COL_LEN + 1) None = (k, best, es)" by (metis prod_cases3)
  show ?thesis using match_indexes_best [OF assms refl r] by (simp add: MatchIndexMultiple_def r)
qed

lemma get_index_cols_perm:
  assumes "index_cols_distinct db" and "get_index_cols db t conds = Inr (b, ns, cs)"
  shows "mset cs = mset conds"
proof -
  have "\<forall>ix\<in>set (tm_indexes tab). distinct (map cm_name (im_cols ix))" if "get_table db t = Inr tab" for tab
    using that assms(1) by (force simp: get_table_def index_cols_distinct_def split: option.splits dest: map_of_SomeD)
  then have "mset (snd (MatchIndexMultiple tab conds)) = mset conds" if "get_table db t = Inr tab" for tab
    using that MatchIndexMultiple_perm by blast
  moreover have "cs = conds \<or> (\<exists>tab. get_table db t = Inr tab \<and> cs = snd (MatchIndexMultiple tab conds))"
    using assms(2) by (simp add: get_index_cols_def res_simps split: if_splits list.splits prod.splits) auto
  ultimately show ?thesis by blast
qed

lemma bindR_Inr [res_simps]:
  "bindR m f = Some (Inr b, w') \<longleftrightarrow> (\<exists>a w. m = Some (Inr a, w) \<and> f a w = Some (Inr b, w'))"
  by (cases m) (auto simp: bindR_def split: sum.splits)

lemma lift_sum_Inr [res_simps]: "lift_sum r w = Some (Inr a, w') \<longleftrightarrow> r = Inr a \<and> w' = w"
  by (auto simp: lift_sum_def)

lemma make_sub_plan_query: "make_sub_plan db gen q = Some (r, q') \<Longrightarrow> q_conds q' = q_conds q \<and> same_query q q'"
  by (auto simp: make_sub_plan_def lift_sum_def split: option.splits if_splits)

lemma make_scan_spec:
  assumes "index_cols_distinct db" and "make_scan db gen t q = Some (Inr s, q')"
  shows "scan_name s = t \<and> mset (sp_conds (fst s)) = mset (filter (solved_by t) (q_conds q)) \<and>
    q_conds q' = filter (\<lambda>c. \<not> solved_by t c) (q_conds q) \<and> same_query q q'"
proof -
  let ?q = "set_conds (filter (\<lambda>c. \<not> solved_by t c) (q_conds q)) q"
  obtain b ns cs tag idx sub sc where a: "get_index_cols db t (filter (solved_by t) (q_conds q)) = Inr (b, ns, cs)"
      "new_scan_plan db tag t cs idx sub = Inr sc"
    and r: "(if q_has_subquery ?q then bindR (make_sub_plan db gen ?q) (\<lambda>p q. Some (Inr (sc, Some p), q)) else Some (Inr (sc, None), ?q)) =
      Some (Inr s, q')"
    using assms(2) by (fastforce simp: make_scan_def pop_conds_def res_simps)
  have sc: "sp_tab_name sc = t" "sp_conds sc = cs" using a(2) by (auto simp: new_scan_plan_def res_simps split: if_splits)
  have s: "fst s = sc" and q': "q' = ?q \<or> (\<exists>r. make_sub_plan db gen ?q = Some (r, q'))" using r by (auto simp: res_simps split: if_splits)
  have "q_conds q' = q_conds ?q \<and> same_query ?q q'" using q' make_sub_plan_query by (auto simp: same_query_def)
  then show ?thesis using s sc get_index_cols_perm [OF assms(1) a(1)] by (auto intro: same_query_trans [OF set_conds_sel(2)])
qed

definition conds_ok :: "string list \<Rightarrow> Condition list \<Rightarrow> bool" where
  "conds_ok tables conds \<longleftrightarrow>
     (\<forall>c\<in>set conds. ltab c \<in> set tables \<and> (if is_rhs_val c then rtab c = [] else rtab c \<in> set tables \<and> rtab c \<noteq> ltab c))"

lemma solved_by_iff:
  "conds_ok tables conds \<Longrightarrow> [] \<notin> set tables \<Longrightarrow> c \<in> set conds \<Longrightarrow> solved_by t c \<longleftrightarrow> is_rhs_val c \<and> ltab c = t"
  by (auto simp: conds_ok_def solved_by_def split: if_splits)

lemma make_scans_spec:
  assumes "index_cols_distinct db" and "conds_ok tables (q_conds q)" and "[] \<notin> set tables"
    and "make_scans db gen ts q = Some (Inr ss, q')"
  shows "map scan_name ss = ts \<and> (\<forall>s\<in>set ss. join_ok (scan_of s)) \<and>
    mset (concat (map (sp_conds \<circ> fst) ss)) + mset (q_conds q') = mset (q_conds q) \<and>
    (\<forall>c\<in>set (q_conds q'). c \<in> set (q_conds q) \<and> (is_rhs_val c \<longrightarrow> ltab c \<notin> set ts)) \<and> same_query q q'"
  using assms(2,4)
proof (induction ts arbitrary: q ss)
  case (Cons t ts)
  then obtain s q1 ss' where s: "make_scan db gen t q = Some (Inr s, q1)" "make_scans db gen ts q1 = Some (Inr ss', q')" "ss = s # ss'"
    by (auto simp: res_simps)
  note sp = make_scan_spec [OF assms(1) s(1)]
  have c1: "conds_ok tables (q_conds q1)" using Cons.prems(1) sp by (simp add: conds_ok_def)
  note IH = Cons.IH [OF c1 s(2)]
  have sol: "solved_by t c \<longleftrightarrow> is_rhs_val c \<and> ltab c = t" if "c \<in> set (q_conds q)" for c
    using solved_by_iff [OF Cons.prems(1) assms(3) that] .
  have "set (sp_conds (fst s)) = set (filter (solved_by t) (q_conds q))" using sp by (metis set_mset_mset)
  then have "join_ok (scan_of s)" using sp sol by auto
  moreover have "mset (sp_conds (fst s)) + mset (q_conds q1) = mset (q_conds q)" using sp by (simp flip: multiset_partition)
  moreover have "same_query q q'" using sp IH same_query_trans by blast
  moreover have "mset (concat (map (sp_conds \<circ> fst) ss')) + mset (q_conds q') = mset (q_conds q1)" using IH by blast
  ultimately have "mset (concat (map (sp_conds \<circ> fst) ss)) + mset (q_conds q') = mset (q_conds q)"
    unfolding s(3) by (simp add: add.assoc)
  then show ?case using \<open>join_ok (scan_of s)\<close> \<open>same_query q q'\<close> IH sp sol by (auto simp: s(3) comp_def)
qed (simp add: same_query_def)

section \<open>The plan of a select\<close>

lemma mset_concat_map: "mset xs = mset ys \<Longrightarrow> mset (concat (map f xs)) = mset (concat (map f ys))"
proof -
  have "mset (concat (map f zs)) = sum_mset (image_mset (\<lambda>x. mset (f x)) (mset zs))" for zs by (induction zs) auto
  then show "mset xs = mset ys \<Longrightarrow> ?thesis" by simp
qed

text \<open>The whole of the conditions that a plan applies.\<close>

definition plan_conds :: "Plan \<Rightarrow> Condition list" where
  "plan_conds p = concat (map sp_conds (plan_scans p)) @ join_conds p"

definition implements :: "Plan \<Rightarrow> Query \<Rightarrow> bool" where
  "implements p q \<longleftrightarrow> mset (plan_tables p) = mset (q_tables q) \<and> classes (plan_conds p) = classes (q_conds q)"

definition from_ok :: "DbMeta \<Rightarrow> Query \<Rightarrow> bool" where
  "from_ok db q \<longleftrightarrow> q_tables q \<noteq> [] \<and> distinct (q_tables q) \<and> [] \<notin> set (q_tables q) \<and> conds_ok (q_tables q) (q_conds q) \<and>
     index_cols_distinct db"

lemma make_one_rel_ok:
  assumes q: "from_ok db q" and "enable_nestedloop_join pl" and "make_scans db gen (q_tables q) q = Some (Inr ss, q1)"
  shows "\<exists>p q'. make_one_rel pl db gen q = Some (Inr p, q') \<and> join_ok p \<and> implements p q \<and> same_query q q'"
proof -
  note sp = make_scans_spec [OF _ _ _ assms(3), of "q_tables q"]
  have sp: "map scan_name ss = q_tables q" "\<forall>s\<in>set ss. join_ok (scan_of s)"
    "mset (concat (map (sp_conds \<circ> fst) ss)) + mset (q_conds q1) = mset (q_conds q)"
    "\<forall>c\<in>set (q_conds q1). c \<in> set (q_conds q) \<and> (is_rhs_val c \<longrightarrow> ltab c \<notin> set (q_tables q))" "same_query q q1"
    using sp q by (simp_all add: from_ok_def)
  have ss: "scans_ok ss" "ss \<noteq> []" using sp(1,2) q by (auto simp: scans_ok_def from_ok_def)
  have jc: "\<forall>c\<in>set (q_conds q1). join_cond ss c" using sp(1,4) q by (fastforce simp: join_cond_def from_ok_def conds_ok_def split: if_splits)
  have cl: "classes (concat (map (sp_conds \<circ> fst) ss)) + classes (q_conds q1) = classes (q_conds q)"
    using arg_cong [OF sp(3), of "image_mset both_ways"] by (simp add: classes_def)
  have imp: "implements p q" if "mset (plan_scans p) = mset (map fst ss)" "classes (join_conds p) = classes (q_conds q1)" for p
  proof -
    have "mset (plan_tables p) = mset (map scan_name ss)" using arg_cong [OF that(1), of "image_mset sp_tab_name"]
      by (simp add: plan_tables_def image_mset.compositionality comp_def)
    moreover have "classes (concat (map sp_conds (plan_scans p))) = classes (concat (map (sp_conds \<circ> fst) ss))"
      using mset_concat_map [OF that(1), of sp_conds] by (simp add: classes_def)
    ultimately show ?thesis using sp(1) cl that(2) by (simp add: implements_def plan_conds_def)
  qed
  show ?thesis
  proof (cases "length (q_tables q) = 1")
    case True
    then obtain s where s: "ss = [s]" using sp(1) by (cases ss) (auto simp: length_Suc_conv)
    have "q_conds q1 = []"
    proof (rule ccontr)
      assume "q_conds q1 \<noteq> []"
      then show False using jc s by (cases "q_conds q1") (auto simp: join_cond_def)
    qed
    then show ?thesis using True s sp(2,5) imp [of "scan_of s"] assms(3)
      by (simp add: make_one_rel_def same_query_def)
  next
    case False
    obtain p where p: "join_scans pl ss (q_conds q1) = Inr p" "join_ok p" "mset (plan_scans p) = mset (map fst ss)"
      "classes (join_conds p) = classes (q_conds q1)" using join_scans_tree [OF ss jc assms(2)] by blast
    then show ?thesis using False sp(5) imp [OF p(3,4)] assms(3) same_query_trans [OF sp(5) set_conds_sel(2)]
      by (simp add: make_one_rel_def lift_sum_def same_query_def)
  qed
qed

lemma make_one_rel_scans:
  assumes "make_one_rel pl db gen q = Some (Inr p, q')"
  shows "\<exists>ss q1. make_scans db gen (q_tables q) q = Some (Inr ss, q1)"
  using assms by (auto simp: make_one_rel_def res_simps)

text \<open>Below the projection, the sort and the aggregation of a select lies its join tree.\<close>

fun rel_of :: "Plan \<Rightarrow> Plan" where
  "rel_of (DQLPlan t p) = rel_of p"
| "rel_of (ProjectionPlan t p cols sel) = rel_of p"
| "rel_of (SortPlan t (Some p) c d) = rel_of p"
| "rel_of (AggrPlan p hs as gs) = rel_of p"
| "rel_of p = p"

lemma join_ok_rel_of [simp]: "join_ok p \<Longrightarrow> rel_of p = p"
  by (cases p) auto

lemma plan_scans_rel_of: "plan_scans p = plan_scans (rel_of p)" "join_conds p = join_conds (rel_of p)"
  by (induction p rule: rel_of.induct) auto

lemma implements_rel_of: "implements p q \<longleftrightarrow> implements (rel_of p) q"
  using plan_scans_rel_of [of p] by (simp add: implements_def plan_tables_def plan_conds_def)

lemma alias_cols_Inr: "length aliases = length cols \<Longrightarrow> \<exists>cs. alias_cols cols aliases = Inr cs"
  by (induction cols aliases rule: alias_cols.induct) auto

lemma get_all_cols_Inr: "\<forall>t\<in>set ts. is_table db t \<Longrightarrow> \<exists>cols. get_all_cols db ts = Inr cols"
  by (induction ts) (auto simp: get_table_def is_table_def)

definition tables_ok :: "DbMeta \<Rightarrow> string list \<Rightarrow> bool" where
  "tables_ok db ts \<longleftrightarrow> (\<forall>t\<in>set ts. case get_table db t of Inl e \<Rightarrow> False | Inr tab \<Rightarrow> tm_cols tab \<noteq> [])"

lemma get_index_cols_Inr: "get_table db t = Inr tab \<Longrightarrow> \<exists>b ns cs. get_index_cols db t conds = Inr (b, ns, cs)"
  by (auto simp: get_index_cols_def split: list.splits prod.splits)

lemma make_scan_plain:
  assumes "tables_ok db [t]" and "\<not> q_has_subquery q"
  shows "\<exists>s q'. make_scan db gen t q = Some (Inr s, q') \<and> \<not> q_has_subquery q'"
proof -
  obtain tab where t: "get_table db t = Inr tab" "tm_cols tab \<noteq> []" using assms(1) by (auto simp: tables_ok_def split: sum.splits)
  obtain b ns cs where i: "get_index_cols db t (filter (solved_by t) (q_conds q)) = Inr (b, ns, cs)"
    using get_index_cols_Inr [OF t(1)] by blast
  have "\<not> q_has_subquery (set_conds cs' q)" for cs' using assms(2) set_conds_sel(2) [of q cs'] unfolding same_query_def by simp
  then show ?thesis by (simp add: make_scan_def pop_conds_def i lift_sum_def new_scan_plan_def t)
qed

lemma make_scans_plain:
  assumes "tables_ok db ts" and "\<not> q_has_subquery q"
  shows "\<exists>ss q'. make_scans db gen ts q = Some (Inr ss, q') \<and> \<not> q_has_subquery q'"
  using assms
proof (induction ts arbitrary: q)
  case (Cons t ts)
  obtain s q1 where s: "make_scan db gen t q = Some (Inr s, q1)" "\<not> q_has_subquery q1"
    using make_scan_plain [of db t q gen] Cons.prems by (auto simp: tables_ok_def)
  from Cons.IH [OF _ this(2)] Cons.prems(1) obtain ss q' where "make_scans db gen ts q1 = Some (Inr ss, q')" "\<not> q_has_subquery q'"
    by (auto simp: tables_ok_def)
  then show ?case using s by simp
qed simp

lemma physical_optimization_ok:
  assumes "from_ok db q" and "enable_nestedloop_join pl" and "make_scans db gen (q_tables q) q = Some (Inr ss, q1)"
  shows "\<exists>p q'. physical_optimization pl db gen q = lift_sum (generate_sort_plan db q' p) q' \<and> same_query q q' \<and>
    join_ok (rel_of p) \<and> implements p q"
proof -
  obtain p q' where p: "make_one_rel pl db gen q = Some (Inr p, q')" "join_ok p" "implements p q" "same_query q q'"
    using make_one_rel_ok [OF assms] by blast
  show ?thesis
  proof (cases "q_aggregates q = [] \<and> q_group_bys q = []")
    case True
    then show ?thesis using p by (intro exI [of _ p] exI [of _ q']) (simp add: physical_optimization_def)
  next
    case False
    have "rel_of (AggrPlan p (q_havings q') (q_aggregates q') (q_group_bys q')) = p" using p(2) by simp
    then show ?thesis using False p implements_rel_of [of "AggrPlan p (q_havings q') (q_aggregates q') (q_group_bys q')" q]
      by (intro exI [of _ "AggrPlan p (q_havings q') (q_aggregates q') (q_group_bys q')"] exI [of _ q'])
        (auto simp: physical_optimization_def make_aggr_plan_def)
  qed
qed

lemma generate_sort_plan_rel: "generate_sort_plan db q p = Inr p' \<Longrightarrow> rel_of p' = rel_of p"
  by (auto simp: generate_sort_plan_def res_simps split: option.splits TreeNode.splits)

lemma generate_sort_plan_Inr: "\<forall>t\<in>set (q_tables q). is_table db t \<Longrightarrow> \<exists>p'. generate_sort_plan db q p = Inr p'"
  using get_all_cols_Inr [of "q_tables q" db] by (auto simp: generate_sort_plan_def split: option.splits TreeNode.splits)

text \<open>
  C11: the plan of a select applies the query. With nested-loop joins enabled, for distinct tables and conditions on
  columns of those tables that compare with a value or with a column of another table: planning returns; without a
  sub-query, and with an alias entry for every column, it returns a plan; and every plan it returns scans each table
  once and applies each condition once, its sides exchanged at most, in a tree of nested-loop joins whose scans
  filter their own table and whose joins compare a column of the left input with one of the right input.
\<close>

theorem select_plan_implements_query:
  assumes "q_parse q = Some (SelectNode x)" and "from_ok db q" and "tables_ok db (q_tables q)" and "enable_nestedloop_join pl"
    and "query_depth q \<le> Suc n"
  shows "\<exists>r q'. plan_query pl db n q = Some (r, q') \<and>
    (\<not> q_has_subquery q \<and> length (q_aliases q) = length (q_cols q) \<longrightarrow> (\<exists>p. r = Inr p)) \<and>
    (\<forall>p. r = Inr p \<longrightarrow> join_ok (rel_of p) \<and> implements p q)"
proof -
  let ?gen = "generate_select_plan pl db n"
  obtain r q' where rq: "plan_query pl db n q = Some (r, q')" using plan_query_returns [OF assms(5), of pl db] by (auto simp: returns_def split: option.splits)
  have pq: "plan_query pl db n q = bindR (project_plan pl db ?gen q) (\<lambda>p q. Some (Inr (DQLPlan T_select p), q))"
    by (simp add: plan_query_def do_planner_def generate_aggr_plan_def assms(1))
  have tabs: "\<forall>t\<in>set (q_tables q). is_table db t"
    using assms(3) by (auto simp: tables_ok_def get_table_def is_table_def split: option.splits sum.splits)
  have correct: "join_ok (rel_of p) \<and> implements p q" if inr: "r = Inr p" for p
  proof -
    obtain p1 q1 where p1: "project_plan pl db ?gen q = Some (Inr p1, q1)" "p = DQLPlan T_select p1"
      using rq inr unfolding pq by (auto simp: res_simps)
    then obtain p2 q2 sel where p2: "physical_optimization pl db ?gen q = Some (Inr p2, q2)" "p1 = ProjectionPlan T_Projection p2 (q_cols q) sel"
      by (auto simp: project_plan_def logical_optimization_def Let_def res_simps)
    then obtain ss q3 where ss: "make_scans db ?gen (q_tables q) q = Some (Inr ss, q3)"
      using make_one_rel_scans by (auto simp: physical_optimization_def make_aggr_plan_def res_simps split: if_splits) blast+
    obtain p3 q4 where p3: "Inr p2 = generate_sort_plan db q4 p3" "join_ok (rel_of p3)" "implements p3 q"
      using physical_optimization_ok [OF assms(2,4) ss] p2(1) by (auto simp: lift_sum_def)
    then have "rel_of p = rel_of p3" using generate_sort_plan_rel [of db q4 p3 p2] p1(2) p2(2) by simp
    then show ?thesis using p3(2,3) implements_rel_of [of p q] implements_rel_of [of p3 q] by simp
  qed
  have "\<exists>p. r = Inr p" if plain: "\<not> q_has_subquery q" "length (q_aliases q) = length (q_cols q)"
  proof -
    obtain ss q3 where ss: "make_scans db ?gen (q_tables q) q = Some (Inr ss, q3)"
      using make_scans_plain [OF assms(3) plain(1)] by blast
    obtain p3 q4 where p3: "physical_optimization pl db ?gen q = lift_sum (generate_sort_plan db q4 p3) q4" "same_query q q4"
      using physical_optimization_ok [OF assms(2,4) ss] by blast
    obtain p2 where "generate_sort_plan db q4 p3 = Inr p2"
      using generate_sort_plan_Inr [of q4 db p3] tabs p3(2) by (auto simp: same_query_def)
    moreover obtain cs where "alias_cols (q_cols q) (q_aliases q4) = Inr cs"
      using alias_cols_Inr [of "q_aliases q4" "q_cols q"] plain(2) p3(2) by (auto simp: same_query_def)
    ultimately show ?thesis using rq unfolding pq
      by (auto simp: project_plan_def logical_optimization_def Let_def p3(1) lift_sum_def)
  qed
  then show ?thesis using rq correct by blast
qed

section \<open>Examples\<close>

definition two_tables :: DbMeta where
  "two_tables = \<lparr>db_name = ''d'', db_tabs = [(''t'', SmMeta.sample_tab),
     (''u'', \<lparr>tm_name = ''u'', tm_cols = [(sample_col ''c'' 0)\<lparr>cm_tab_name := ''u''\<rparr>], tm_indexes = []\<rparr>)]\<rparr>"

definition no_subquery :: Subquery where
  "no_subquery = Subquery (TabCol [] []) OP_EQ False False None"

definition col_cond :: "TabCol \<Rightarrow> CompOp \<Rightarrow> TabCol \<Rightarrow> Condition" where
  "col_cond l op r = \<lparr>lhs_col = l, c_op = op, is_rhs_val = False, rhs_col = r, rhs_val = sample_int 0\<rparr>"

text \<open>\<open>SELECT * FROM t, u WHERE ...\<close>, without and with a sub-query.\<close>

definition sample_join :: "string list \<Rightarrow> Condition list \<Rightarrow> bool \<Rightarrow> Subquery \<Rightarrow> Query" where
  "sample_join tabs conds has sub =
     Query (Some (SelectNode (SelectStmt [] tabs [] [] [] None))) conds [TabCol ''t'' ''a''] tabs [] []
       [\<lparr>al_has = False, al_name = []\<rparr>] [] [] [] has sub"

definition sample_where :: "Condition list" where
  "sample_where = [SmMeta.sample_cond ''b'' OP_GT 3, col_cond (TabCol ''u'' ''c'') OP_LT (TabCol ''t'' ''a'')]"

theorem planner_terminates_witness:
  "\<exists>r q'. plan_query Planner_init two_tables 1
     (sample_join [''t''] [] True (Subquery (TabCol ''t'' ''a'') OP_EQ True False (Some (sample_join [''u''] [] False no_subquery)))) =
     Some (r, q') \<and> query_depth q' \<le> Suc 1"
  by (rule planner_terminates) (simp add: sample_join_def no_subquery_def)

theorem select_plan_implements_query_witness:
  "\<exists>p q'. plan_query Planner_init two_tables 0 (sample_join [''t'', ''u''] sample_where False no_subquery) = Some (Inr p, q') \<and>
     join_ok (rel_of p) \<and> implements p (sample_join [''t'', ''u''] sample_where False no_subquery)"
proof -
  let ?q = "sample_join [''t'', ''u''] sample_where False no_subquery"
  have "from_ok two_tables ?q"
    by (simp add: from_ok_def sample_join_def conds_ok_def sample_where_def SmMeta.sample_cond_def col_cond_def index_cols_distinct_def two_tables_def
        SmMeta.sample_tab_def sample_index_def)
  moreover have "tables_ok two_tables (q_tables ?q)"
    by (simp add: tables_ok_def sample_join_def get_table_def two_tables_def SmMeta.sample_tab_def)
  moreover have "\<not> q_has_subquery ?q" "length (q_aliases ?q) = length (q_cols ?q)" "query_depth ?q \<le> Suc 0"
    by (simp_all add: sample_join_def no_subquery_def)
  ultimately show ?thesis
    using select_plan_implements_query [of ?q "SelectStmt [] [''t'', ''u''] [] [] [] None" two_tables Planner_init 0]
    by (auto simp: sample_join_def Planner_init_def)
qed

text \<open>
  A sub-query is planned once for every table, and the first time its aliases are moved out of it: with two tables the
  second time reads an alias that is not there.
\<close>

lemma subquery_with_two_tables_fails:
  "\<exists>q'. plan_query Planner_init two_tables 1
     (sample_join [''t'', ''u''] [] True (Subquery (TabCol ''t'' ''a'') OP_EQ True False (Some (sample_join [''u''] [] False no_subquery)))) =
     Some (Inl NullDereference, q')"
  by (simp add: plan_query_def do_planner_def generate_aggr_plan_def project_plan_def logical_optimization_def physical_optimization_def
      make_one_rel_def make_scan_def pop_conds_def make_sub_plan_def get_index_cols_def get_table_def new_scan_plan_def lift_sum_def
      generate_sort_plan_def set_conds_def set_aliases_def set_sub_query_def Let_def sample_join_def no_subquery_def two_tables_def
      SmMeta.sample_tab_def sample_index_def sample_col_def)

text \<open>A condition between two columns of one table goes to the scan of the first table of the \<open>FROM\<close> list.\<close>

lemma same_table_condition_goes_to_first_scan:
  "pop_conds [col_cond (TabCol ''u'' ''c'') op (TabCol ''u'' ''d'')] ''t'' = ([col_cond (TabCol ''u'' ''c'') op (TabCol ''u'' ''d'')], [])"
  by (simp add: pop_conds_def solved_by_def col_cond_def)

text \<open>A further condition between the two sides of a sort-merge join is dropped.\<close>

lemma sort_merge_drops_condition:
  "push_conds c (JoinPlan T_SortMerge (Some (SortPlan T_Sort l a d)) (Some (SortPlan T_Sort r b e)) cs ty) =
    (0, JoinPlan T_SortMerge (Some (SortPlan T_Sort l a d)) (Some (SortPlan T_Sort r b e)) cs ty)"
  by simp

end
