(* ===== verification/Spec2Isabelle.thy ===== *)
theory Spec2Isabelle
  imports LockProperties Subquery IxCursor RecoveryPasses AnalyzeProperties PlannerProperties
begin

text \<open>
  A verification library for the GRMDB relational database (the C++ sources under \<^verbatim>\<open>src/\<close>).

  \<^bold>\<open>The program.\<close> The server keeps tables in files of 4096-byte pages. From the bottom up: the disk manager reads and
  writes pages and the log file through POSIX calls; the buffer pool holds pages in frames, pins them for its clients
  and evicts with the LRU replacer, and the log manager is flushed before a page is written; a table file lays records
  out in pages with a bitmap of used slots, a chain of pages with room and a file header; the catalogue describes tables,
  columns and indexes and is kept as text; the lock manager serves transactions with locks on tables, records and gaps under the
  wait-die rule; the executors answer queries from the table files and change them, with a log record, a write record and the
  index entries for every row; the transaction manager commits and undoes; recovery replays and undoes the log after a crash; the system manager creates and removes databases, tables and
  indexes; the analyzer checks a parsed statement and the planner turns it into a plan for the executors.

  \<^bold>\<open>Theories.\<close> Each models the file named with it, in the order of the code; a definition has the name of the function
  it translates where the name is free.

    \<^item> \<open>Prelude\<close>: bytes, little-endian integers, \<^verbatim>\<open>memcpy\<close> and \<^verbatim>\<open>memset\<close>, the exceptions of \<^verbatim>\<open>errors.h\<close> and the result type
      \<open>('a, 's) res\<close>: an outcome (exception or value) beside the new state, since a C++ exception does not undo what was done.
    \<^item> \<open>LruReplacer\<close> (\<^verbatim>\<open>replacer/\<close>): the contract of a replacer as the locale \<open>replacer\<close>, interpreted by the list with its hash
      table. A pinned frame is no victim; frames leave in the order of their unpinning.
    \<^item> \<open>DiskManager\<close> (\<^verbatim>\<open>storage/disk_manager.cpp\<close>): open-file table, page transfer, page allocation, log file, over a model of the
      system calls it makes. Round trips, the soundness of the file table, and the wrap-around of page offsets at 2 GiB.
    \<^item> \<open>LogRecords\<close>, \<open>LogManager\<close> (\<^verbatim>\<open>recovery/log_manager.h\<close>, \<^verbatim>\<open>.cpp\<close>): every class of log record with its byte image, and the
      buffer of records. Serialization round trip; the log file is the sequence of records in call order.
    \<^item> \<open>BufferPool\<close>, \<open>PagePool\<close> (\<^verbatim>\<open>storage/buffer_pool_manager.cpp\<close>, \<^verbatim>\<open>page.h\<close>): frames, page table, free list and every
      operation; the locale \<open>page_pool\<close> is the contract with the table files. The pool refines a plain store of pages with pin
      counts, a pinned page keeps its frame, flushing is durable.
    \<^item> \<open>Bitmap\<close>, \<open>RmPage\<close>, \<open>RmChain\<close>, \<open>RmFile\<close>, \<open>RmRecords\<close>, \<open>RmScan\<close>, \<open>RmManager\<close> (\<^verbatim>\<open>record/\<close>): the bitmap, the layout of a
      page, the chain of pages with room, the file handle over the pool, the scan and the file manager. A table file refines a finite
      map from record ids to records (locale \<open>record_store\<close>), the free-page list is exact, a scan visits every record once.
    \<^item> \<open>Values\<close> (\<^verbatim>\<open>common/common.h\<close>, \<^verbatim>\<open>defs.h\<close>): values, IEEE floats as 32-bit words, comparison, conditions.
    \<^item> \<open>SmMeta\<close> (\<^verbatim>\<open>system/sm_meta.h\<close>): the catalogue, its text format and the choice of an index for a query.
    \<^item> \<open>IxCompare\<close>, \<open>IxNode\<close>, \<open>IxSearch\<close>, \<open>IxTree\<close>, \<open>IxLookup\<close>, \<open>IxCursor\<close> (\<^verbatim>\<open>index/\<close>): the order of index keys (locale \<open>key_order\<close>), the file
      header, the layout and the operations of a node, the B+ tree over the buffer pool with its scan and file manager. A leaf implements a finite map, the
      descent reaches the only leaf that may hold a key, \<open>lower_bound\<close> the first entry not less than it, a scan delivers the entries in
      order; a reopened index overwrites its nodes.
    \<^item> \<open>Transactions\<close>, \<open>LockManager\<close>, \<open>LockSafety\<close>, \<open>LockProperties\<close> (\<^verbatim>\<open>transaction/\<close>): the data of a transaction and
      the lock manager as a transition system of calls, waits and resumptions. Without gap locks and for calls that do not overlap
      exclusive locks exclude and unlocking the lock set leaves no request; an unlock that overlaps with other calls breaks exclusion; a waiter is the oldest in its queue; and the deadlocks and lost wake-ups that remain possible.
    \<^item> \<open>Tables\<close> (\<^verbatim>\<open>system/sm_manager.h\<close>): the open tables of a database on one buffer pool, and that work on one table leaves the
      others as they were.
    \<^item> \<open>Executors\<close>, \<open>SeqScan\<close>, \<open>NestedLoopJoin\<close> (\<^verbatim>\<open>execution/\<close>): the interface of the executors as a record of operations,
      its contract as the locales \<open>cursor\<close>, \<open>restartable\<close> and \<open>rereadable\<close>, the sequential scan and the nested-loop join. A
      scan delivers the records that satisfy its conditions, a join the matching pairs; a join of three tables fails.
    \<^item> \<open>Projection\<close>, \<open>SelectOutput\<close>, \<open>Subquery\<close> (\<^verbatim>\<open>execution/execution_values.h\<close>, \<^verbatim>\<open>executor_projection.h\<close>,
      \<^verbatim>\<open>execution_subquery.h\<close>, \<^verbatim>\<open>execution_manager.cpp\<close>, \<^verbatim>\<open>record_printer.h\<close>): lists of values, projections, IN clauses, and the
      printing of the tuples of a query. A projected column has its value (locale \<open>projected\<close>), a query prints one line per selected record,
      the reply stays in its buffer.
    \<^item> \<open>Dml\<close> (\<^verbatim>\<open>execution/executor_insert.h\<close>, \<^verbatim>\<open>executor_delete.h\<close>, \<^verbatim>\<open>executor_update.h\<close>): the database (open tables, open indexes, the
      running transaction) and the three executors that change it. The answers of the lock manager are an argument.
    \<^item> \<open>TxnManager\<close>, \<open>PoolLog\<close>, \<open>Atomicity\<close> (\<^verbatim>\<open>transaction/transaction_manager.cpp\<close>): begin, commit and abort, the part of the log that the
      record operations leave alone, and the guarantees: an abort restores every table, an INSERT adds one record, one write
      record and one log record, a commit appends its record to the log and leaves the tables.
    \<^item> \<open>Ddl\<close>, \<open>CreateTable\<close> (\<^verbatim>\<open>system/sm_manager.cpp\<close>): databases, tables, indexes and the listings. A created table is empty and its
      columns share no byte; dropping a table never returns.
    \<^item> \<open>Recovery\<close>, \<open>RecoveryLog\<close>, \<open>RecoveryPasses\<close> (\<^verbatim>\<open>recovery/log_recovery.cpp\<close>): the passes analyze, redo and undo over the log file at the start of
      the server. The analysis finds the active transactions and the dirty pages; when no other transaction changes a row after a transaction without a
      commit record changed it, recovery leaves exactly the changes of the committed transactions.
    \<^item> \<open>Ast\<close>, \<open>Analyze\<close>, \<open>AnalyzeProperties\<close> (\<^verbatim>\<open>parser/ast.h\<close>, \<^verbatim>\<open>analyze/analyze.cpp\<close>): syntax trees, and the semantic analysis with its
      recursion into sub-queries. Columns without a table are resolved to the only table that has them; a query that passes is
      well-formed and typed, the conditions of \<open>HAVING\<close> apart.
    \<^item> \<open>Planner\<close>, \<open>PlannerProperties\<close> (\<^verbatim>\<open>optimizer/\<close>): plans, index choice, join trees. Planning ends; a plan scans each table once
      and applies each condition once, where its columns are available.

  \<^bold>\<open>Loops.\<close> Loops over pages, slots and lists are total functions with termination proofs. The loops of the executors run over children that
  may never end; they are partial functions in the option monad, \<open>None\<close> is a loop that does not return, and the theorems
  state that they return. \<open>scan_collect\<close>, a client of a table scan, has fuel; one more than the number of records is enough. The planner
  has the number of nested calls as fuel; the nesting of the sub-queries is enough.
  The lock manager is a step relation with the reachable states as an inductive predicate.

  \<^bold>\<open>Concurrency.\<close> An operation that holds the latch of its component is one step. A lock call that waits is split at its
  wait; the code after the wait is a step of its own that may run at any later time. A lock function releases the latch of the
  lock table before it takes the latch of a queue, \<open>unlock\<close> works on the queue without its latch, and the log manager tests for room before it
  takes its latch; each of these calls is one step here, so the theorems are about calls that do not overlap. An iterator that a lock function keeps across its wait is found
  again by transaction id.

  \<^bold>\<open>Undefined behaviour.\<close> The use of a null pointer is the outcome \<open>NullDereference\<close>; memory that is read before it is written is an argument of the
  definition.

  \<^bold>\<open>Not modelled.\<close> The executors for LOAD, index scans, sorting, sort-merge joins and
  aggregation. The generated lexer and parser, sockets, threads and signals of the server, the
  client, the tests and the vendored test framework are left out.
\<close>

end
